(* ===== verification/Prelude.thy ===== *)
theory Prelude
  imports
    Main
    "HOL-Library.AList"
    "HOL-Library.Char_ord"
    "HOL-Library.List_Lexorder"
    "HOL-Library.Product_Lexorder"
begin

text \<open>
  What the components share: results of code that may raise (\<open>'e + 'a\<close>, \<open>Inl\<close> for the
  exception), folds and maps over such code, dictionaries with Python's insertion order
  (association lists, an assignment to a present key keeps its place), and the
  state-exception functions that the long-lived services are written in: an exception leaves
  the state as it was when it was raised, as it does for an object whose method raises.
\<close>

section \<open>Collections of hints\<close>

named_theorems res_simps \<open>unfolding of results and of the state-exception combinators\<close>
named_theorems pres_intros \<open>operations that preserve a predicate of the state\<close>

section \<open>Results\<close>

definition sbind :: "'e + 'a \<Rightarrow> ('a \<Rightarrow> 'e + 'b) \<Rightarrow> 'e + 'b" where
  "sbind m f = (case m of Inl e \<Rightarrow> Inl e | Inr x \<Rightarrow> f x)"

lemma sbind_simps [simp]:
  "sbind (Inl e) f = Inl e"
  "sbind (Inr x) f = f x"
  by (simp_all add: sbind_def)

lemma sbind_Inr_iff: "sbind m f = Inr y \<longleftrightarrow> (\<exists>x. m = Inr x \<and> f x = Inr y)"
  by (cases m) auto

lemma sbind_Inl_iff:
  "sbind m f = Inl e \<longleftrightarrow> m = Inl e \<or> (\<exists>x. m = Inr x \<and> f x = Inl e)"
  by (cases m) auto

lemma sbind_InrE [elim!]:
  assumes "sbind m f = Inr y"
  obtains x where "m = Inr x" and "f x = Inr y"
  using assms by (auto simp: sbind_Inr_iff)

lemma sbind_assoc: "sbind (sbind m f) g = sbind m (\<lambda>x. sbind (f x) g)"
  by (cases m) simp_all

lemma sbind_cong [fundef_cong]:
  assumes "m = m'" and "\<And>x. m' = Inr x \<Longrightarrow> f x = f' x"
  shows "sbind m f = sbind m' f'"
  using assms by (cases m') simp_all

definition guard :: "bool \<Rightarrow> 'e \<Rightarrow> 'e + unit" where
  "guard b e = (if b then Inr () else Inl e)"

lemma guard_Inr_iff [simp]: "guard b e = Inr u \<longleftrightarrow> b"
  by (simp add: guard_def)

lemma guard_Inl_iff [simp]: "guard b e = Inl e' \<longleftrightarrow> \<not> b \<and> e' = e"
  by (auto simp: guard_def)

lemma guard_simps [simp]:
  "guard True e = Inr ()"
  "guard False e = Inl e"
  by (simp_all add: guard_def)

text \<open>\<open>or_raise m e\<close>: the value looked up, or the exception raised when there is none.\<close>

definition or_raise :: "'a option \<Rightarrow> 'e \<Rightarrow> 'e + 'a" where
  "or_raise m e = (case m of None \<Rightarrow> Inl e | Some x \<Rightarrow> Inr x)"

lemma or_raise_simps [simp]:
  "or_raise None e = Inl e"
  "or_raise (Some x) e = Inr x"
  by (simp_all add: or_raise_def)

lemma or_raise_Inr_iff [simp]: "or_raise m e = Inr x \<longleftrightarrow> m = Some x"
  by (cases m) auto

lemma or_raise_Inl_iff [simp]: "or_raise m e = Inl e' \<longleftrightarrow> m = None \<and> e' = e"
  by (cases m) auto

text \<open>An exception translated on its way out.\<close>

definition map_error :: "('e \<Rightarrow> 'f) \<Rightarrow> 'e + 'a \<Rightarrow> 'f + 'a" where
  "map_error f r = (case r of Inl e \<Rightarrow> Inl (f e) | Inr x \<Rightarrow> Inr x)"

lemma map_error_Inr [simp]: "map_error f r = Inr x \<longleftrightarrow> r = Inr x"
  by (simp add: map_error_def split: sum.splits)

lemma map_error_Inl: "map_error f r = Inl e \<longleftrightarrow> (\<exists>e'. r = Inl e' \<and> e = f e')"
  by (auto simp: map_error_def split: sum.splits)

text \<open>A \<open>for\<close> loop whose body may raise, and the list it may build.\<close>

fun sfold :: "('a \<Rightarrow> 's \<Rightarrow> 'e + 's) \<Rightarrow> 'a list \<Rightarrow> 's \<Rightarrow> 'e + 's" where
  "sfold f [] s = Inr s"
| "sfold f (x # xs) s = sbind (f x s) (sfold f xs)"

fun smap :: "('a \<Rightarrow> 'e + 'b) \<Rightarrow> 'a list \<Rightarrow> 'e + 'b list" where
  "smap f [] = Inr []"
| "smap f (x # xs) = sbind (f x) (\<lambda>y. sbind (smap f xs) (\<lambda>ys. Inr (y # ys)))"

lemma sfold_append: "sfold f (xs @ ys) s = sbind (sfold f xs s) (sfold f ys)"
proof (induction xs arbitrary: s)
  case (Cons x xs)
  have "sfold f (xs @ ys) = (\<lambda>t. sbind (sfold f xs t) (sfold f ys))"
    by (rule ext) (rule Cons.IH)
  then show ?case by (simp add: sbind_assoc)
qed simp

lemma sfold_cong [fundef_cong]:
  assumes "xs = ys" and "s = t" and "\<And>x s. x \<in> set ys \<Longrightarrow> f x s = g x s"
  shows "sfold f xs s = sfold g ys t"
proof -
  have "sfold f ys t = sfold g ys t"
    using assms(3) by (induction ys arbitrary: t) (auto intro!: sbind_cong)
  then show ?thesis using assms(1,2) by simp
qed

lemma sfold_invariant:
  assumes "sfold f xs s = Inr t" and "P s"
    and "\<And>x s s'. x \<in> set xs \<Longrightarrow> P s \<Longrightarrow> f x s = Inr s' \<Longrightarrow> P s'"
  shows "P t"
  using assms by (induction xs arbitrary: s) auto

lemma smap_cong [fundef_cong]:
  assumes "xs = ys" and "\<And>x. x \<in> set ys \<Longrightarrow> f x = g x"
  shows "smap f xs = smap g ys"
proof -
  have "smap f ys = smap g ys"
    using assms(2) by (induction ys) (auto intro!: sbind_cong)
  then show ?thesis using assms(1) by simp
qed

lemma smap_Inr_iff: "smap f xs = Inr ys \<longleftrightarrow> list_all2 (\<lambda>x y. f x = Inr y) xs ys"
  by (induction xs arbitrary: ys) (auto simp: sbind_Inr_iff list_all2_Cons1)

lemma smap_total: "(\<exists>ys. smap f xs = Inr ys) \<longleftrightarrow> (\<forall>x \<in> set xs. \<exists>y. f x = Inr y)"
proof (induction xs)
  case (Cons x xs)
  then show ?case by (cases "f x") (auto simp: sbind_Inr_iff)
qed simp

lemma smap_InrD: "smap f xs = Inr ys \<Longrightarrow> y \<in> set ys \<Longrightarrow> \<exists>x \<in> set xs. f x = Inr y"
  by (induction xs arbitrary: ys) auto

lemma smap_InlD: "smap f xs = Inl e \<Longrightarrow> \<exists>x \<in> set xs. f x = Inl e"
  by (induction xs) (auto simp: sbind_Inl_iff)

lemma sfold_InlD: "sfold f xs s = Inl e \<Longrightarrow> \<exists>x \<in> set xs. \<exists>t. f x t = Inl e"
  by (induction xs arbitrary: s) (auto simp: sbind_Inl_iff)

lemma smap_map_Inr: "smap f xs = Inr ys \<Longrightarrow> map f xs = map Inr ys"
  by (simp add: smap_Inr_iff list.rel_eq list_all2_conv_all_nth list_eq_iff_nth_eq)

lemma smap_all_Inr: "(\<And>x. x \<in> set xs \<Longrightarrow> f x = Inr (g x)) \<Longrightarrow> smap f xs = Inr (map g xs)"
  by (induction xs) simp_all

section \<open>Dictionaries\<close>

type_synonym ('k, 'v) dict = "('k \<times> 'v) list"

abbreviation dget :: "('k, 'v) dict \<Rightarrow> 'k \<Rightarrow> 'v option" where
  "dget \<equiv> map_of"

abbreviation dset :: "'k \<Rightarrow> 'v \<Rightarrow> ('k, 'v) dict \<Rightarrow> ('k, 'v) dict" where
  "dset \<equiv> AList.update"

abbreviation keys :: "('k, 'v) dict \<Rightarrow> 'k list" where
  "keys d \<equiv> map fst d"

abbreviation dwf :: "('k, 'v) dict \<Rightarrow> bool" where
  "dwf d \<equiv> distinct (map fst d)"

lemma dget_dset [simp]: "dget (dset k v d) k' = (if k' = k then Some v else dget d k')"
  by (simp add: update_conv)

lemma dwf_dset [simp]: "dwf d \<Longrightarrow> dwf (dset k v d)"
  by (rule distinct_update)

lemma set_keys_dset [simp]: "fst ` set (dset k v d) = insert k (fst ` set d)"
  by (simp add: dom_update)

lemma dget_Some_in_set: "dwf d \<Longrightarrow> dget d k = Some v \<longleftrightarrow> (k, v) \<in> set d"
  by simp

lemma set_dset: "dwf d \<Longrightarrow> set (dset k v d) = insert (k, v) {p \<in> set d. fst p \<noteq> k}"
  by (induction d) (auto simp: image_iff)

lemma dget_None_iff: "dget d k = None \<longleftrightarrow> k \<notin> fst ` set d"
  by (rule map_of_eq_None_iff)

lemma dget_Some_key: "dget d k = Some v \<Longrightarrow> k \<in> fst ` set d"
  by (metis dget_None_iff option.distinct(1))

lemma key_dget_Some: "k \<in> fst ` set d \<Longrightarrow> \<exists>v. dget d k = Some v"
  by (cases "dget d k") (simp_all add: dget_None_iff)

lemma dget_map_values: "dget (map (\<lambda>(k, v). (k, f v)) d) k = map_option f (dget d k)"
  by (induction d) auto

lemma dget_map_keyed: "dget (map (\<lambda>(k, v). (k, f k v)) d) r = map_option (f r) (dget d r)"
  by (induction d) auto

text \<open>A Python set kept as the list of its members, in the order of their first insertion.\<close>

definition add_key :: "'k \<Rightarrow> 'k list \<Rightarrow> 'k list" where
  "add_key k ks = (if k \<in> set ks then ks else ks @ [k])"

lemma set_add_key [simp]: "set (add_key k ks) = insert k (set ks)"
  by (auto simp: add_key_def)

lemma distinct_add_key [simp]: "distinct ks \<Longrightarrow> distinct (add_key k ks)"
  by (simp add: add_key_def)

text \<open>\<open>dict.setdefault(k, v)\<close> on a dictionary whose value is then left alone.\<close>

definition dset_default :: "'k \<Rightarrow> 'v \<Rightarrow> ('k, 'v) dict \<Rightarrow> ('k, 'v) dict" where
  "dset_default k v d = (case dget d k of None \<Rightarrow> dset k v d | Some _ \<Rightarrow> d)"

lemma dget_dset_default [simp]:
  "dget (dset_default k v d) k' =
     (if k' = k then Some (case dget d k of None \<Rightarrow> v | Some w \<Rightarrow> w) else dget d k')"
  by (auto simp: dset_default_def split: option.splits)

lemma dwf_dset_default [simp]: "dwf d \<Longrightarrow> dwf (dset_default k v d)"
  by (simp add: dset_default_def split: option.splits)

section \<open>Lists\<close>

lemma find_Some_iff_first:
  "List.find P xs = Some x \<Longrightarrow> x \<in> set xs \<and> P x"
  by (induction xs) (auto split: if_splits)

lemma find_None_all: "List.find P xs = None \<longleftrightarrow> (\<forall>x \<in> set xs. \<not> P x)"
  by (induction xs) auto

lemma distinct_map_eq:
  "distinct (map f xs) \<Longrightarrow> x \<in> set xs \<Longrightarrow> y \<in> set xs \<Longrightarrow> f x = f y \<Longrightarrow> x = y"
  by (simp add: distinct_map inj_on_def)

lemma filter_empty_all: "filter P xs = [] \<longleftrightarrow> (\<forall>x \<in> set xs. \<not> P x)"
  by (induction xs) auto

lemma count_list_insort:
  "count_list (insort_key f x xs) y = count_list xs y + (if x = y then 1 else 0)"
  by (induction xs) auto

lemma count_list_sort [simp]: "count_list (sort_key f xs) y = count_list xs y"
  by (induction xs) (auto simp: count_list_insort)

text \<open>\<open>max((f(x) for x in xs), default=0)\<close> over the integers.\<close>

definition max_default :: "int list \<Rightarrow> int" where
  "max_default xs = (if xs = [] then 0 else Max (set xs))"

lemma max_default_ge: "x \<in> set xs \<Longrightarrow> x \<le> max_default xs"
  by (auto simp: max_default_def)

lemma max_default_in: "xs \<noteq> [] \<Longrightarrow> max_default xs \<in> set xs"
  by (simp add: max_default_def)

lemma max_default_Nil [simp]: "max_default [] = 0"
  by (simp add: max_default_def)

section \<open>State-exception functions\<close>

text \<open>
  A method of a long-lived object: it takes the state and gives its result or the exception
  it raises, with the state it leaves.
\<close>

type_synonym ('s, 'e, 'a) act = "'s \<Rightarrow> ('e + 'a) \<times> 's"

definition ret :: "'a \<Rightarrow> ('s, 'e, 'a) act" where
  "ret x s = (Inr x, s)"

definition raise_act :: "'e \<Rightarrow> ('s, 'e, 'a) act" where
  "raise_act e s = (Inl e, s)"

definition bnd :: "('s, 'e, 'a) act \<Rightarrow> ('a \<Rightarrow> ('s, 'e, 'b) act) \<Rightarrow> ('s, 'e, 'b) act" where
  "bnd m f s = (case m s of (Inl e, s') \<Rightarrow> (Inl e, s') | (Inr x, s') \<Rightarrow> f x s')"

definition lift_res :: "'e + 'a \<Rightarrow> ('s, 'e, 'a) act" where
  "lift_res r s = (r, s)"

text \<open>\<open>try: m except Exception as e: h(e)\<close>.\<close>

definition try_act :: "('s, 'e, 'a) act \<Rightarrow> ('e \<Rightarrow> ('s, 'e, 'a) act) \<Rightarrow> ('s, 'e, 'a) act" where
  "try_act m h s = (case m s of (Inl e, s') \<Rightarrow> h e s' | (Inr x, s') \<Rightarrow> (Inr x, s'))"

definition get_act :: "('s \<Rightarrow> 'a) \<Rightarrow> ('s, 'e, 'a) act" where
  "get_act f s = (Inr (f s), s)"

definition modify_act :: "('s \<Rightarrow> 's) \<Rightarrow> ('s, 'e, unit) act" where
  "modify_act f s = (Inr (), f s)"

lemmas act_defs = ret_def raise_act_def bnd_def lift_res_def try_act_def get_act_def
  modify_act_def

lemma act_simps [simp]:
  "ret x s = (Inr x, s)"
  "raise_act e s = (Inl e, s)"
  "lift_res r s = (r, s)"
  "get_act f s = (Inr (f s), s)"
  "modify_act g s = (Inr (), g s)"
  by (simp_all add: act_defs)

lemma bnd_simps [simp]:
  "bnd (ret x) f s = f x s"
  "bnd (raise_act e) f1 s1 = (Inl e, s1)"
  "bnd (get_act h) f2 s2 = f2 (h s2) s2"
  "bnd (modify_act g) f3 s3 = f3 () (g s3)"
  by (simp_all add: bnd_def)

lemma bnd_Inr: "m s = (Inr x, s') \<Longrightarrow> bnd m f s = f x s'"
  by (simp add: bnd_def)

lemma bnd_Inl: "m s = (Inl e, s') \<Longrightarrow> bnd m f s = (Inl e, s')"
  by (simp add: bnd_def)

lemma bnd_lift_res_Inr [simp]: "bnd (lift_res (Inr x)) f s = f x s"
  by (simp add: bnd_def)

lemma bnd_eq_InrE:
  assumes "bnd m f s = (Inr y, t)"
  obtains x s' where "m s = (Inr x, s')" and "f x s' = (Inr y, t)"
  using assms by (auto simp: bnd_def split: prod.splits sum.splits)

text \<open>
  \<open>triple P m Q E\<close>: from a state satisfying \<open>P\<close>, if \<open>m\<close> returns \<open>x\<close> then \<open>Q x\<close>
  holds of the state it leaves, and if it raises then \<open>E\<close> does. Preservation of one
  predicate on both exits is \<open>pres P m\<close>.
\<close>

definition triple ::
  "('s \<Rightarrow> bool) \<Rightarrow> ('s, 'e, 'a) act \<Rightarrow> ('a \<Rightarrow> 's \<Rightarrow> bool) \<Rightarrow> ('s \<Rightarrow> bool) \<Rightarrow> bool" where
  "triple P m Q E \<longleftrightarrow>
     (\<forall>s. P s \<longrightarrow> (case m s of (Inl _, s') \<Rightarrow> E s' | (Inr x, s') \<Rightarrow> Q x s'))"

definition pres :: "('s \<Rightarrow> bool) \<Rightarrow> ('s, 'e, 'a) act \<Rightarrow> bool" where
  "pres P m \<longleftrightarrow> (\<forall>s. P s \<longrightarrow> P (snd (m s)))"

lemma presD: "pres P m \<Longrightarrow> P s \<Longrightarrow> P (snd (m s))"
  by (simp add: pres_def)

lemma presI: "(\<And>s. P s \<Longrightarrow> P (snd (m s))) \<Longrightarrow> pres P m"
  by (simp add: pres_def)

lemma pres_ret [pres_intros, intro]: "pres P (ret x)"
  by (simp add: pres_def)

lemma pres_raise [pres_intros, intro]: "pres P (raise_act e)"
  by (simp add: pres_def)

lemma pres_lift_res [pres_intros, intro]: "pres P (lift_res r)"
  by (simp add: pres_def)

lemma pres_get [pres_intros, intro]: "pres P (get_act f)"
  by (simp add: pres_def)

lemma pres_bnd [pres_intros, intro]:
  assumes "pres P m" and "\<And>x. pres P (f x)"
  shows "pres P (bnd m f)"
  using assms by (fastforce simp: pres_def bnd_def split: prod.splits sum.splits)

lemma pres_try [pres_intros, intro]:
  assumes "pres P m" and "\<And>e. pres P (h e)"
  shows "pres P (try_act m h)"
  using assms by (fastforce simp: pres_def try_act_def split: prod.splits sum.splits)

lemma pres_if [pres_intros, intro]:
  "(b \<Longrightarrow> pres P m) \<Longrightarrow> (\<not> b \<Longrightarrow> pres P m') \<Longrightarrow> pres P (if b then m else m')"
  by simp

lemma pres_case_option [pres_intros, intro]:
  "(x = None \<Longrightarrow> pres P m) \<Longrightarrow> (\<And>y. x = Some y \<Longrightarrow> pres P (f y)) \<Longrightarrow>
   pres P (case x of None \<Rightarrow> m | Some y \<Rightarrow> f y)"
  by (simp split: option.splits)

lemma pres_case_prod [pres_intros, intro]:
  "(\<And>y z. x = (y, z) \<Longrightarrow> pres P (f y z)) \<Longrightarrow> pres P (case x of (y, z) \<Rightarrow> f y z)"
  by (simp split: prod.splits)

lemma pres_case_sum [pres_intros, intro]:
  "(\<And>y. x = Inl y \<Longrightarrow> pres P (f y)) \<Longrightarrow> (\<And>y. x = Inr y \<Longrightarrow> pres P (g y)) \<Longrightarrow>
   pres P (case x of Inl y \<Rightarrow> f y | Inr y \<Rightarrow> g y)"
  by (simp split: sum.splits)

text \<open>A loop over a list in a method: the body's result is threaded.\<close>

fun afold :: "('a \<Rightarrow> 'b \<Rightarrow> ('s, 'e, 'b) act) \<Rightarrow> 'a list \<Rightarrow> 'b \<Rightarrow> ('s, 'e, 'b) act" where
  "afold f [] b = ret b"
| "afold f (x # xs) b = bnd (f x b) (afold f xs)"

lemma pres_afold [pres_intros, intro]:
  "(\<And>x b. x \<in> set xs \<Longrightarrow> pres P (f x b)) \<Longrightarrow> pres P (afold f xs b)"
  by (induction xs arbitrary: b) auto

end
