(* ===== verification/Values.thy ===== *)
theory Values
  imports Prelude
begin

text \<open>
  The Python values that cross the boundaries of the workflow runtime (definition payloads,
  tool arguments and results, event summaries), the strings and numbers the code looks into,
  and the exceptions it raises.

  Characters stand for the code points below 256. A float is infinite, not a number, or the
  decimal \<open>m * 10 ^ e\<close> that \<open>repr\<close> prints for it, with no trailing zero in \<open>m\<close>. An
  instant is a number of microseconds since the start of the year 1 (UTC): the ISO strings of
  the code are identified with the instants they denote.
\<close>

section \<open>Values\<close>

datatype pyfloat = Finite int int | PosInf | NegInf | NotANumber

text \<open>A dictionary key is a string or another hashable object, known by its \<open>str()\<close>.\<close>

datatype pykey = KStr string | KOther string

datatype pyval =
    PNone
  | PBool bool
  | PInt int
  | PFloat pyfloat
  | PStr string
  | PBytes string
  | PList "pyval list"
  | PTuple "pyval list"
  | PDict "(pykey \<times> pyval) list"
  | PProxy "(pykey \<times> pyval) list" \<comment> \<open>\<open>MappingProxyType\<close>\<close>
  | PSecret string string \<comment> \<open>\<open>SecretRef\<close>: provider and name\<close>
  | PUnavailable \<comment> \<open>\<open>UnavailableSecretRef\<close>\<close>
  | PModel string "(string \<times> pyval) list" \<comment> \<open>a Pydantic model: class and fields\<close>
  | PExc string "pyval list" \<comment> \<open>an exception: class and \<open>args\<close>\<close>
  | PObject string \<comment> \<open>any other object\<close>

fun key_text :: "pykey \<Rightarrow> string" where
  "key_text (KStr s) = s"
| "key_text (KOther s) = s"

text \<open>\<open>isinstance(value, Mapping)\<close>: dictionaries and their read-only proxies.\<close>

fun as_mapping :: "pyval \<Rightarrow> (pykey, pyval) dict option" where
  "as_mapping (PDict d) = Some d"
| "as_mapping (PProxy d) = Some d"
| "as_mapping _ = None"

text \<open>\<open>isinstance(value, Sequence)\<close> for what is not a string: lists and tuples.\<close>

fun as_sequence :: "pyval \<Rightarrow> pyval list option" where
  "as_sequence (PList xs) = Some xs"
| "as_sequence (PTuple xs) = Some xs"
| "as_sequence _ = None"

definition pget :: "(pykey, pyval) dict \<Rightarrow> string \<Rightarrow> pyval" where
  "pget d k = (case dget d (KStr k) of None \<Rightarrow> PNone | Some v \<Rightarrow> v)"

definition pget_or :: "(pykey, pyval) dict \<Rightarrow> string \<Rightarrow> pyval \<Rightarrow> pyval" where
  "pget_or d k v = (case dget d (KStr k) of None \<Rightarrow> v | Some w \<Rightarrow> w)"

section \<open>Characters and strings\<close>

definition code :: "char \<Rightarrow> nat" where
  "code c = of_char c"

text \<open>\<open>str.isspace\<close> below 256, the characters \<open>str.strip\<close> removes.\<close>

definition py_space :: "char \<Rightarrow> bool" where
  "py_space c = (code c \<in> {9, 10, 11, 12, 13, 28, 29, 30, 31, 32, 133, 160})"

definition is_blank :: "string \<Rightarrow> bool" where
  "is_blank s = list_all py_space s"

definition strip :: "string \<Rightarrow> string" where
  "strip s = rev (dropWhile py_space (rev (dropWhile py_space s)))"

lemma strip_Nil_iff: "strip s = [] \<longleftrightarrow> is_blank s"
proof -
  have "strip s = [] \<longleftrightarrow> (\<forall>c \<in> set (dropWhile py_space s). py_space c)"
    by (simp add: strip_def)
  also have "\<dots> \<longleftrightarrow> (\<forall>c \<in> set s. py_space c)"
    by (metis (no_types, lifting) Un_iff dropWhile_eq_Nil_conv hd_dropWhile list.set_sel(1)
        set_append set_takeWhileD takeWhile_dropWhile_id)
  finally show ?thesis by (simp add: is_blank_def list_all_iff)
qed

text \<open>
  \<open>str.casefold\<close> below 256: ASCII and Latin-1 capitals become small, the sharp s becomes two
  letters.
\<close>

definition casefold_char :: "char \<Rightarrow> string" where
  "casefold_char c =
     (if 65 \<le> code c \<and> code c \<le> 90 \<or> 192 \<le> code c \<and> code c \<le> 222 \<and> code c \<noteq> 215
      then [char_of (code c + 32)]
      else if code c = 223 then ''ss''
      else [c])"

definition casefold :: "string \<Rightarrow> string" where
  "casefold s = concat (map casefold_char s)"

text \<open>\<open>str.split\<close> at one character.\<close>

fun split_at :: "char \<Rightarrow> string \<Rightarrow> string list" where
  "split_at d [] = [[]]"
| "split_at d (c # cs) =
     (if c = d then [] # split_at d cs
      else (case split_at d cs of [] \<Rightarrow> [[c]] | w # ws \<Rightarrow> (c # w) # ws))"

lemma split_at_not_Nil [simp]: "split_at d s \<noteq> []"
  by (induction s) (auto split: list.splits)

text \<open>Decimal digits.\<close>

definition digit :: "nat \<Rightarrow> char" where
  "digit n = char_of (48 + n)"

fun nat_digits :: "nat \<Rightarrow> string" where
  "nat_digits n = (if n < 10 then [digit n] else nat_digits (n div 10) @ [digit (n mod 10)])"

declare nat_digits.simps [simp del]

definition int_text :: "int \<Rightarrow> string" where
  "int_text i = (if i < 0 then CHR ''-'' # nat_digits (nat (- i)) else nat_digits (nat i))"

definition hex_digit :: "nat \<Rightarrow> char" where
  "hex_digit n = (if n < 10 then char_of (48 + n) else char_of (87 + n))"

definition hex_byte :: "nat \<Rightarrow> string" where
  "hex_byte n = [hex_digit (n div 16), hex_digit (n mod 16)]"

text \<open>\<open>repr\<close> of a string.\<close>

definition repr_char :: "char \<Rightarrow> char \<Rightarrow> string" where
  "repr_char q c =
     (if c = q \<or> c = CHR 92 then [CHR 92, c]
      else if code c = 10 then [CHR 92, CHR ''n'']
      else if code c = 13 then [CHR 92, CHR ''r'']
      else if code c = 9 then [CHR 92, CHR ''t'']
      else if code c < 32 \<or> 127 \<le> code c \<and> code c \<le> 160 \<or> code c = 173
      then [CHR 92, CHR ''x''] @ hex_byte (code c)
      else [c])"

definition py_repr :: "string \<Rightarrow> string" where
  "py_repr s =
     (let q = (if CHR 39 \<in> set s \<and> CHR 34 \<notin> set s then CHR 34 else CHR 39)
      in [q] @ concat (map (repr_char q) s) @ [q])"

text \<open>\<open>str.join\<close>.\<close>

fun join :: "string \<Rightarrow> string list \<Rightarrow> string" where
  "join d [] = []"
| "join d [w] = w"
| "join d (w # ws) = w @ d @ join d ws"

section \<open>Exceptions\<close>

text \<open>\<open>ErrorClass\<close> of \<open>domain/failures.py\<close>.\<close>

datatype error_class = Retryable | Permanent | ResultUnknown | InternalConsistency

fun error_class_value :: "error_class \<Rightarrow> string" where
  "error_class_value Retryable = ''retryable''"
| "error_class_value Permanent = ''permanent''"
| "error_class_value ResultUnknown = ''result_unknown''"
| "error_class_value InternalConsistency = ''internal_consistency''"

datatype error =
    DefinitionValidationError string "string option" "string option"
      \<comment> \<open>message, step id, field\<close>
  | ValueError string
  | TypeError string
  | OverflowError
  | LookupError string
  | KeyError string
  | RuntimeError string
  | StopIteration
  | AttributeError string
  | InvalidTransition string string string
      \<comment> \<open>aggregate type, current state, target state\<close>
  | OptimisticLockError string string int int
      \<comment> \<open>aggregate type, identifier, expected and actual revision\<close>
  | UniquenessError string string
      \<comment> \<open>record type, identifier\<close>
  | InvalidRevisionError string string int int
      \<comment> \<open>aggregate type, identifier, expected and actual revision\<close>
  | PersistenceError string
  | UnitOfWorkStateError string
  | ApprovalDecisionError string
  | DefinitionConflictError string
  | OutcomePersistenceError

text \<open>\<open>str(exc)\<close>, where the code puts it into another message.\<close>

fun location_text :: "string option \<Rightarrow> string option \<Rightarrow> string list" where
  "location_text step field =
     (case step of None \<Rightarrow> [] | Some s \<Rightarrow> [''step='' @ s])
     @ (case field of None \<Rightarrow> [] | Some f \<Rightarrow> [''field='' @ f])"

fun error_text :: "error \<Rightarrow> string" where
  "error_text (DefinitionValidationError m step field) =
     (if location_text step field = [] then m
      else ''['' @ join '' '' (location_text step field) @ ''] '' @ m)"
| "error_text (ValueError m) = m"
| "error_text (TypeError m) = m"
| "error_text (LookupError m) = m"
| "error_text (KeyError m) = py_repr m"
| "error_text (RuntimeError m) = m"
| "error_text (PersistenceError m) = m"
| "error_text (UnitOfWorkStateError m) = m"
| "error_text (ApprovalDecisionError m) = m"
| "error_text (DefinitionConflictError m) = m"
| "error_text (InvalidTransition a c t) = ''invalid '' @ a @ '' transition: '' @ c @ '' -> '' @ t"
| "error_text (OptimisticLockError a i e f) =
     a @ '' optimistic lock failed for '' @ i @ '': expected revision '' @ int_text e
     @ '', found '' @ int_text f"
| "error_text (UniquenessError r i) = r @ '' already exists: '' @ i"
| "error_text (InvalidRevisionError a i e f) =
     a @ '' save rejected for '' @ i @ '': expected new revision '' @ int_text e
     @ '', found '' @ int_text f"
| "error_text OverflowError = ''overflow''"
| "error_text StopIteration = []"
| "error_text (AttributeError m) = m"
| "error_text OutcomePersistenceError = ''outcome persistence failed during close''"

section \<open>Floats and instants\<close>

function norm10 :: "int \<Rightarrow> int \<Rightarrow> int \<times> int" where
  "norm10 m e = (if m \<noteq> 0 \<and> m mod 10 = 0 then norm10 (m div 10) (e + 1) else (m, e))"
  by pat_completeness auto
termination
proof (relation "measure (\<lambda>(m, e). nat \<bar>m\<bar>)")
  fix m e :: int
  assume "m \<noteq> 0 \<and> m mod 10 = 0"
  then have "m = 10 * (m div 10)" and "m \<noteq> 0" by presburger+
  then have "nat \<bar>m div 10\<bar> < nat \<bar>m\<bar>" by linarith
  then show "((m div 10, e + 1), m, e) \<in> measure (\<lambda>(m, e). nat \<bar>m\<bar>)" by simp
qed simp

declare norm10.simps [simp del]

text \<open>\<open>float(n)\<close> raises for integers that round beyond the largest float.\<close>

definition float_of_int :: "int \<Rightarrow> error + pyfloat" where
  "float_of_int n =
     (if 2 ^ 1024 - 2 ^ 970 \<le> \<bar>n\<bar> then Inl OverflowError
      else (let (m, e) = norm10 n 0 in Inr (if m = 0 then Finite 0 0 else Finite m e)))"

fun float_nonpositive :: "pyfloat \<Rightarrow> bool" where
  "float_nonpositive (Finite m e) = (m \<le> 0)"
| "float_nonpositive PosInf = False"
| "float_nonpositive NegInf = True"
| "float_nonpositive NotANumber = False"

text \<open>Rounding of \<open>a / b\<close> to the nearest integer, ties to the even one.\<close>

definition round_half_even :: "int \<Rightarrow> int \<Rightarrow> int" where
  "round_half_even a b =
     (let q = a div b; r = 2 * (a mod b)
      in if r < b then q else if b < r then q + 1 else if even q then q else q + 1)"

definition max_delta :: int where
  "max_delta = 86400000000 * 1000000000"

text \<open>\<open>timedelta(seconds=x)\<close> in microseconds.\<close>

fun timedelta_seconds :: "pyfloat \<Rightarrow> error + int" where
  "timedelta_seconds (Finite m e) =
     (let us = (if 0 \<le> e + 6 then m * 10 ^ nat (e + 6)
                else round_half_even m (10 ^ nat (- (e + 6))))
      in if - max_delta \<le> us - 86400000000 \<and> us < max_delta then Inr us else Inl OverflowError)"
| "timedelta_seconds NotANumber = Inl (ValueError ''cannot convert float NaN to integer'')"
| "timedelta_seconds _ = Inl OverflowError"

definition max_instant :: int where
  "max_instant = 3652059 * 86400000000"

text \<open>\<open>datetime + timedelta\<close>: the result must lie in the years 1 to 9999.\<close>

definition add_delta :: "int \<Rightarrow> int \<Rightarrow> error + int" where
  "add_delta t d = (if 0 \<le> t + d \<and> t + d < max_instant then Inr (t + d) else Inl OverflowError)"

lemma add_delta_Inr: "add_delta t d = Inr u \<Longrightarrow> u = t + d"
  by (simp add: add_delta_def split: if_splits)

end
