(* ===== verification/Tool_Ports.thy ===== *)
theory Tool_Ports
  imports Values
begin

text \<open>
  \<open>workflow/ports/tools.py\<close>: the vocabulary of tools, the validators of their descriptors,
  of the contexts and queries they are called with and of the results they give, and the
  normal form of a sensitive path.
\<close>

datatype tool_risk = RiskLow | RiskMedium | RiskHigh

datatype tool_idempotency = IdemSupported | IdemProbeOnly | IdemNone

datatype phase = Forward | Probe | Compensation

datatype probe_status = Found | NotFound | Inconclusive

fun risk_value :: "tool_risk \<Rightarrow> string" where
  "risk_value RiskLow = ''low''"
| "risk_value RiskMedium = ''medium''"
| "risk_value RiskHigh = ''high''"

fun phase_value :: "phase \<Rightarrow> string" where
  "phase_value Forward = ''forward''"
| "phase_value Probe = ''probe''"
| "phase_value Compensation = ''compensation''"

lemma phase_value_inject [simp]: "phase_value p = phase_value q \<longleftrightarrow> p = q"
  by (cases p; cases q) simp_all

section \<open>Sensitive paths\<close>

definition normalize_sensitive_path :: "string \<Rightarrow> error + string list" where
  "normalize_sensitive_path path =
     (if is_blank path then Inl (ValueError ''sensitive paths must be non-empty dotted strings'')
      else (let segments = map strip (split_at (CHR ''.'') path)
            in if [] \<in> set segments
               then Inl (ValueError ''sensitive paths cannot contain empty segments'')
               else Inr segments))"

lemma normalize_sensitive_path_segments:
  assumes "normalize_sensitive_path p = Inr segs"
  shows "segs \<noteq> []" and "\<And>s. s \<in> set segs \<Longrightarrow> s \<noteq> []"
  using assms by (auto simp: normalize_sensitive_path_def Let_def split: if_splits)

section \<open>Descriptors\<close>

text \<open>
  A Pydantic model type: its name, its declared fields, the three flags of its configuration
  and what \<open>model_validate\<close> answers on a payload, which is Pydantic's: the field values of the
  model, or the text of its \<open>ValidationError\<close>.
\<close>

record model_type =
  mt_name :: string
  mt_fields :: "string list"
  mt_strict :: bool
  mt_frozen :: bool
  mt_forbid :: bool
  mt_validate :: "(pykey, pyval) dict \<Rightarrow> string + (string \<times> pyval) list"

record tool_descriptor =
  td_name :: string
  td_version :: string
  td_input_model :: model_type
  td_output_model :: model_type
  td_risk :: tool_risk
  td_idempotency :: tool_idempotency
  td_default_timeout_seconds :: int
  td_max_timeout_seconds :: int
  td_sensitive_argument_paths :: "string list"

definition check_identity :: "string \<Rightarrow> string \<Rightarrow> error + unit" where
  "check_identity field value =
     guard (\<not> is_blank value) (ValueError (field @ '' must be a non-empty string''))"

definition check_boundary_model :: "string \<Rightarrow> model_type \<Rightarrow> error + unit" where
  "check_boundary_model field m =
     sbind (guard (mt_strict m) (ValueError (field @ '' must declare model_config.strict=True'')))
       (\<lambda>_. sbind (guard (mt_frozen m)
                    (ValueError (field @ '' must declare model_config.frozen=True'')))
         (\<lambda>_. guard (mt_forbid m)
                (ValueError (field @ '' must declare model_config.extra=forbid''))))"

definition check_timeout :: "string \<Rightarrow> int \<Rightarrow> error + unit" where
  "check_timeout field value =
     guard (0 < value) (ValueError (field @ '' must be a positive integer''))"

definition make_descriptor :: "tool_descriptor \<Rightarrow> error + tool_descriptor" where
  "make_descriptor d =
     sbind (check_identity ''name'' (td_name d)) (\<lambda>_.
     sbind (check_identity ''version'' (td_version d)) (\<lambda>_.
     sbind (check_boundary_model ''input_model'' (td_input_model d)) (\<lambda>_.
     sbind (check_boundary_model ''output_model'' (td_output_model d)) (\<lambda>_.
     sbind (check_timeout ''default_timeout_seconds'' (td_default_timeout_seconds d)) (\<lambda>_.
     sbind (check_timeout ''max_timeout_seconds'' (td_max_timeout_seconds d)) (\<lambda>_.
     sbind (smap normalize_sensitive_path (td_sensitive_argument_paths d)) (\<lambda>paths.
     sbind (guard (td_default_timeout_seconds d \<le> td_max_timeout_seconds d)
              (ValueError ''max_timeout_seconds must be greater than or equal to default_timeout_seconds'')) (\<lambda>_.
     Inr (d\<lparr>td_sensitive_argument_paths := map (join ''.'') paths\<rparr>)))))))))"

lemma make_descriptor_valid:
  assumes "make_descriptor d = Inr d'"
  shows "0 < td_default_timeout_seconds d'"
    and "td_default_timeout_seconds d' \<le> td_max_timeout_seconds d'"
    and "\<not> is_blank (td_name d')" and "\<not> is_blank (td_version d')"
  using assms by (auto simp: make_descriptor_def check_identity_def check_timeout_def)

section \<open>Contexts, queries and results\<close>

record tool_context =
  tc_run_id :: string
  tc_step_id :: string
  tc_attempt_number :: int
  tc_phase :: phase
  tc_logical_idempotency_key :: string
  tc_deadline :: int
  tc_metadata :: pyval

text \<open>\<open>_freeze_value\<close>: dictionaries become read-only, lists become tuples.\<close>

fun freeze_value :: "pyval \<Rightarrow> pyval" where
  "freeze_value (PDict d) = PProxy (map (\<lambda>kv. (fst kv, freeze_value (snd kv))) d)"
| "freeze_value (PList xs) = PTuple (map freeze_value xs)"
| "freeze_value (PTuple xs) = PTuple (map freeze_value xs)"
| "freeze_value v = v"

definition freeze_metadata :: "pyval \<Rightarrow> error + pyval" where
  "freeze_metadata v =
     (if v = PNone then Inr (PProxy [])
      else (case as_mapping v of
              None \<Rightarrow> Inl (ValueError ''metadata must be a mapping'')
            | Some d \<Rightarrow> Inr (freeze_value (PDict d))))"

definition make_context :: "tool_context \<Rightarrow> error + tool_context" where
  "make_context c =
     sbind (check_identity ''run_id'' (tc_run_id c)) (\<lambda>_.
     sbind (check_identity ''step_id'' (tc_step_id c)) (\<lambda>_.
     sbind (guard (0 < tc_attempt_number c)
              (ValueError ''attempt_number must be a positive integer'')) (\<lambda>_.
     sbind (check_identity ''logical_idempotency_key'' (tc_logical_idempotency_key c)) (\<lambda>_.
     sbind (freeze_metadata (tc_metadata c)) (\<lambda>m.
     Inr (c\<lparr>tc_metadata := m\<rparr>))))))"

record recovery_query =
  rq_run_id :: string
  rq_step_id :: string
  rq_phase :: phase
  rq_logical_idempotency_key :: string
  rq_deadline :: int
  rq_metadata :: pyval

definition make_query :: "recovery_query \<Rightarrow> error + recovery_query" where
  "make_query q =
     sbind (check_identity ''run_id'' (rq_run_id q)) (\<lambda>_.
     sbind (check_identity ''step_id'' (rq_step_id q)) (\<lambda>_.
     sbind (check_identity ''logical_idempotency_key'' (rq_logical_idempotency_key q)) (\<lambda>_.
     sbind (freeze_metadata (rq_metadata q)) (\<lambda>m.
     Inr (q\<lparr>rq_metadata := m\<rparr>)))))"

record probe_result =
  pr_status :: probe_status
  pr_output :: "pyval option"

definition make_probe_result :: "probe_result \<Rightarrow> error + probe_result" where
  "make_probe_result r =
     (if pr_status r = Found \<and> pr_output r = None
      then Inl (ValueError ''output is required when probe status is FOUND'')
      else if pr_status r = NotFound \<and> pr_output r \<noteq> None
      then Inl (ValueError ''output must be omitted when probe status is NOT_FOUND'')
      else Inr r)"

text \<open>\<open>ToolExecutionResult\<close>.\<close>

record execution_result =
  er_output :: pyval
  er_effect_applied :: bool

lemma make_query_fields:
  "make_query q = Inr q' \<Longrightarrow> rq_logical_idempotency_key q' = rq_logical_idempotency_key q
     \<and> rq_run_id q' = rq_run_id q \<and> rq_step_id q' = rq_step_id q \<and> rq_phase q' = rq_phase q"
  by (auto simp: make_query_def)

lemma make_context_fields:
  "make_context c = Inr c' \<Longrightarrow> c' = c\<lparr>tc_metadata := tc_metadata c'\<rparr>"
  by (auto simp: make_context_def)

end
