(* ===== verification/Digest.thy ===== *)
theory Digest
  imports Values "HOL-Library.Word"
begin

unbundle bit_operations_syntax

text \<open>
  What the code uses of \<open>json\<close> and \<open>hashlib\<close>: \<open>json.dumps\<close> with sorted keys, compact
  separators and ASCII output, \<open>str.encode("utf-8")\<close>, and \<open>sha256(...).hexdigest()\<close>,
  written out so that every digest of the model is the digest the code computes.
\<close>

section \<open>Bytes\<close>

text \<open>\<open>str.encode("utf-8")\<close> below 256.\<close>

type_synonym byte = "8 word"

definition utf8_char :: "char \<Rightarrow> byte list" where
  "utf8_char c =
     (let b = of_char c in
      if code c < 128 then [b] else [192 OR drop_bit 6 b, 128 OR (b AND 63)])"

definition utf8 :: "string \<Rightarrow> byte list" where
  "utf8 s = concat (map utf8_char s)"

section \<open>SHA-256\<close>

definition sha_k :: "32 word list" where
  "sha_k = concat [
     [1116352408, 1899447441, 3049323471, 3921009573],
     [961987163, 1508970993, 2453635748, 2870763221],
     [3624381080, 310598401, 607225278, 1426881987],
     [1925078388, 2162078206, 2614888103, 3248222580],
     [3835390401, 4022224774, 264347078, 604807628],
     [770255983, 1249150122, 1555081692, 1996064986],
     [2554220882, 2821834349, 2952996808, 3210313671],
     [3336571891, 3584528711, 113926993, 338241895],
     [666307205, 773529912, 1294757372, 1396182291],
     [1695183700, 1986661051, 2177026350, 2456956037],
     [2730485921, 2820302411, 3259730800, 3345764771],
     [3516065817, 3600352804, 4094571909, 275423344],
     [430227734, 506948616, 659060556, 883997877],
     [958139571, 1322822218, 1537002063, 1747873779],
     [1955562222, 2024104815, 2227730452, 2361852424],
     [2428436474, 2756734187, 3204031479, 3329325298]]"

type_synonym sha_state =
  "32 word \<times> 32 word \<times> 32 word \<times> 32 word \<times> 32 word \<times> 32 word \<times> 32 word \<times> 32 word"

definition sha_init :: sha_state where
  "sha_init =
    (1779033703, 3144134277, 1013904242, 2773480762, 1359893119, 2600822924, 528734635, 1541459225)"

definition sha_pad :: "byte list \<Rightarrow> byte list" where
  "sha_pad msg =
     (let n = length msg; bits = 8 * int n
      in msg @ [128] @ replicate ((119 - n mod 64) mod 64) 0
         @ map (\<lambda>i. word_of_int (bits div 256 ^ (7 - i))) [0..<8])"

fun sha_words :: "byte list \<Rightarrow> 32 word list" where
  "sha_words (a # b # c # d # bs) =
     (push_bit 24 (ucast a) OR push_bit 16 (ucast b) OR push_bit 8 (ucast c) OR ucast d)
     # sha_words bs"
| "sha_words _ = []"

text \<open>The message schedule, last word first.\<close>

definition sha_next_word :: "32 word list \<Rightarrow> 32 word list" where
  "sha_next_word ws =
     (let w2 = ws ! 1; w7 = ws ! 6; w15 = ws ! 14; w16 = ws ! 15;
          s0 = word_rotr 7 w15 XOR word_rotr 18 w15 XOR drop_bit 3 w15;
          s1 = word_rotr 17 w2 XOR word_rotr 19 w2 XOR drop_bit 10 w2
      in (w16 + s0 + w7 + s1) # ws)"

fun sha_schedule :: "nat \<Rightarrow> 32 word list \<Rightarrow> 32 word list" where
  "sha_schedule 0 ws = ws"
| "sha_schedule (Suc n) ws = sha_schedule n (sha_next_word ws)"

fun sha_round :: "32 word \<times> 32 word \<Rightarrow> sha_state \<Rightarrow> sha_state" where
  "sha_round (k, w) (a, b, c, d, e, f, g, h) =
     (let s1 = word_rotr 6 e XOR word_rotr 11 e XOR word_rotr 25 e;
          ch = (e AND f) XOR (NOT e AND g);
          t1 = h + s1 + ch + k + w;
          s0 = word_rotr 2 a XOR word_rotr 13 a XOR word_rotr 22 a;
          maj = (a AND b) XOR (a AND c) XOR (b AND c);
          t2 = s0 + maj
      in (t1 + t2, a, b, c, d + t1, e, f, g))"

fun sha_add :: "sha_state \<Rightarrow> sha_state \<Rightarrow> sha_state" where
  "sha_add (a, b, c, d, e, f, g, h) (a', b', c', d', e', f', g', h') =
     (a + a', b + b', c + c', d + d', e + e', f + f', g + g', h + h')"

definition sha_block :: "32 word list \<Rightarrow> sha_state \<Rightarrow> sha_state" where
  "sha_block block st =
     sha_add st (fold sha_round (zip sha_k (rev (sha_schedule 48 (rev block)))) st)"

function sha_blocks :: "32 word list \<Rightarrow> sha_state \<Rightarrow> sha_state" where
  "sha_blocks ws st =
     (if length ws < 16 then st else sha_blocks (drop 16 ws) (sha_block (take 16 ws) st))"
  by pat_completeness auto
termination
  by (relation "measure (\<lambda>(ws, st). length ws)") auto

declare sha_blocks.simps [simp del]

definition word_hex :: "32 word \<Rightarrow> string" where
  "word_hex w = map (\<lambda>i. hex_digit (unat (drop_bit (28 - 4 * i) w AND 15))) [0..<8]"

fun sha_hex :: "sha_state \<Rightarrow> string" where
  "sha_hex (a, b, c, d, e, f, g, h) = concat (map word_hex [a, b, c, d, e, f, g, h])"

text \<open>\<open>hashlib.sha256(bytes).hexdigest()\<close>.\<close>

definition sha256_hexdigest :: "byte list \<Rightarrow> string" where
  "sha256_hexdigest bytes = sha_hex (sha_blocks (sha_words (sha_pad bytes)) sha_init)"

text \<open>\<open>_is_sha256_digest\<close> of \<open>application/approvals.py\<close>.\<close>

definition is_hex_char :: "char \<Rightarrow> bool" where
  "is_hex_char c = (c \<in> set ''0123456789abcdefABCDEF'')"

definition is_sha256_digest :: "string \<Rightarrow> bool" where
  "is_sha256_digest s \<longleftrightarrow> length s = 64 \<and> list_all is_hex_char s"

lemma hex_digit_in: "n < 16 \<Longrightarrow> is_hex_char (hex_digit n)"
proof -
  have "\<forall>n \<in> set [0..<16]. is_hex_char (hex_digit n)" by code_simp
  then show "n < 16 \<Longrightarrow> is_hex_char (hex_digit n)" by simp
qed

lemma length_word_hex [simp]: "length (word_hex w) = 8"
  by (simp add: word_hex_def)

lemma word_hex_hex: "list_all is_hex_char (word_hex w)"
proof -
  have "unat (v AND 15) < 16" for v :: "32 word"
  proof -
    have "v AND 15 = take_bit 4 v" by (simp add: take_bit_eq_mask mask_eq_exp_minus_1)
    then have "unat (v AND 15) = take_bit 4 (unat v)"
      by (simp only: unsigned_take_bit_eq)
    also have "\<dots> < 2 ^ 4" by (rule take_bit_nat_less_exp)
    finally show ?thesis by simp
  qed
  then show ?thesis by (simp add: word_hex_def list_all_iff hex_digit_in)
qed

lemma sha256_hexdigest_is_digest [simp]: "is_sha256_digest (sha256_hexdigest bytes)"
proof -
  have "is_sha256_digest (sha_hex st)" for st
    by (cases st rule: sha_hex.cases) (simp add: is_sha256_digest_def word_hex_hex)
  then show ?thesis by (simp add: sha256_hexdigest_def)
qed

section \<open>JSON\<close>

definition json_char :: "char \<Rightarrow> string" where
  "json_char c =
     (if c = CHR 34 then [CHR 92, CHR 34]
      else if c = CHR 92 then [CHR 92, CHR 92]
      else if code c = 10 then [CHR 92, CHR ''n'']
      else if code c = 13 then [CHR 92, CHR ''r'']
      else if code c = 9 then [CHR 92, CHR ''t'']
      else if code c = 12 then [CHR 92, CHR ''f'']
      else if code c = 8 then [CHR 92, CHR ''b'']
      else if code c < 32 \<or> 127 \<le> code c then [CHR 92] @ ''u00'' @ hex_byte (code c)
      else [c])"

definition json_string :: "string \<Rightarrow> string" where
  "json_string s = [CHR 34] @ concat (map json_char s) @ [CHR 34]"

text \<open>
  \<open>float.__repr__\<close>: positional notation while the decimal point falls between four places
  before the digits and sixteen places after their start, an exponent otherwise.
\<close>

definition exponent_text :: "int \<Rightarrow> string" where
  "exponent_text x =
     (if x < 0 then ''e-'' else ''e+'')
     @ (if \<bar>x\<bar> < 10 then ''0'' else []) @ nat_digits (nat \<bar>x\<bar>)"

fun float_text :: "pyfloat \<Rightarrow> string" where
  "float_text (Finite m e) =
     (let ds = nat_digits (nat \<bar>m\<bar>); n = int (length ds); point = n + e;
          sign = (if m < 0 then ''-'' else [])
      in if m = 0 then ''0.0''
         else if - 4 < point \<and> point \<le> 16 then
           sign @ (if point \<le> 0 then ''0.'' @ replicate (nat (- point)) (CHR ''0'') @ ds
                   else if n \<le> point then ds @ replicate (nat (point - n)) (CHR ''0'') @ ''.0''
                   else take (nat point) ds @ ''.'' @ drop (nat point) ds)
         else sign @ take 1 ds @ (if n = 1 then [] else ''.'' @ drop 1 ds)
              @ exponent_text (point - 1))"
| "float_text PosInf = ''Infinity''"
| "float_text NegInf = ''-Infinity''"
| "float_text NotANumber = ''NaN''"

fun is_finite :: "pyfloat \<Rightarrow> bool" where
  "is_finite (Finite _ _) = True"
| "is_finite _ = False"

text \<open>
  \<open>json.dumps(value, sort_keys=True, separators=(",", ":"), allow_nan=nan)\<close>. Keys that are
  not strings are refused here: the payloads of the code have string keys.
\<close>

fun json_key :: "pykey \<Rightarrow> error + string" where
  "json_key (KStr k) = Inr k"
| "json_key (KOther _) = Inl (TypeError ''keys must be str, int, float, bool or None'')"

fun json_dumps :: "bool \<Rightarrow> pyval \<Rightarrow> error + string" where
  "json_dumps nan PNone = Inr ''null''"
| "json_dumps nan (PBool b) = Inr (if b then ''true'' else ''false'')"
| "json_dumps nan (PInt i) = Inr (int_text i)"
| "json_dumps nan (PFloat f) =
     (if nan \<or> is_finite f then Inr (float_text f)
      else Inl (ValueError ''Out of range float values are not JSON compliant''))"
| "json_dumps nan (PStr s) = Inr (json_string s)"
| "json_dumps nan (PList xs) =
     sbind (smap (json_dumps nan) xs) (\<lambda>ys. Inr (''['' @ join '','' ys @ '']''))"
| "json_dumps nan (PTuple xs) =
     sbind (smap (json_dumps nan) xs) (\<lambda>ys. Inr (''['' @ join '','' ys @ '']''))"
| "json_dumps nan (PDict d) =
     sbind (smap (\<lambda>kv. sbind (json_key (fst kv)) (\<lambda>k.
                       sbind (json_dumps nan (snd kv)) (\<lambda>v. Inr (k, v)))) d)
       (\<lambda>fields. Inr (''{'' @ join '','' (map (\<lambda>(k, v). json_string k @ '':'' @ v)
                                            (sort_key fst fields)) @ ''}''))"
| "json_dumps nan _ = Inl (TypeError ''Object is not JSON serializable'')"

text \<open>The hexadecimal SHA-256 of a canonical JSON text, as every digest of the code is made.\<close>

definition json_digest :: "bool \<Rightarrow> pyval \<Rightarrow> error + string" where
  "json_digest nan v = sbind (json_dumps nan v) (\<lambda>t. Inr (sha256_hexdigest (utf8 t)))"

lemma json_digest_is_digest: "json_digest nan v = Inr d \<Longrightarrow> is_sha256_digest d"
  by (auto simp: json_digest_def)

end
