(* ===== verification/Tooling.thy ===== *)
theory Tooling
  imports Tool_Ports Digest
begin

text \<open>
  \<open>workflow/application/tooling.py\<close>: the registry of tools, the redaction of values before
  they are stored or shown, and the logical idempotency key of an effect.
\<close>

section \<open>Secret references\<close>

fun contains_unavailable_secret_ref :: "pyval \<Rightarrow> bool" where
  "contains_unavailable_secret_ref PUnavailable = True"
| "contains_unavailable_secret_ref (PModel c fs) =
     list_ex (\<lambda>f. contains_unavailable_secret_ref (snd f)) fs"
| "contains_unavailable_secret_ref (PDict d) =
     list_ex (\<lambda>f. contains_unavailable_secret_ref (snd f)) d"
| "contains_unavailable_secret_ref (PProxy d) =
     list_ex (\<lambda>f. contains_unavailable_secret_ref (snd f)) d"
| "contains_unavailable_secret_ref (PList xs) = list_ex contains_unavailable_secret_ref xs"
| "contains_unavailable_secret_ref (PTuple xs) = list_ex contains_unavailable_secret_ref xs"
| "contains_unavailable_secret_ref _ = False"

section \<open>The registry\<close>

text \<open>
  A registered tool is known here by its descriptor; what its \<open>execute\<close> and \<open>probe\<close> answer is
  the environment's. The registry is the dictionary \<open>_tools\<close>.
\<close>

record tool =
  tl_descriptor :: tool_descriptor

type_synonym tool_registry = "(string \<times> string, tool) dict"

definition tool_label :: "string \<Rightarrow> string \<Rightarrow> string" where
  "tool_label name version = name @ ''@'' @ version"

definition reg_contains :: "tool_registry \<Rightarrow> string \<Rightarrow> string \<Rightarrow> bool" where
  "reg_contains reg name version = (dget reg (name, version) \<noteq> None)"

definition reg_resolve :: "tool_registry \<Rightarrow> string \<Rightarrow> string \<Rightarrow> error + tool" where
  "reg_resolve reg name version =
     or_raise (dget reg (name, version)) (LookupError (''unknown tool '' @ tool_label name version))"

definition descriptor_for :: "tool_registry \<Rightarrow> string \<Rightarrow> string \<Rightarrow> error + tool_descriptor" where
  "descriptor_for reg name version =
     sbind (reg_resolve reg name version) (\<lambda>t. Inr (tl_descriptor t))"

definition reg_register ::
  "tool_registry \<Rightarrow> tool \<Rightarrow> tool_descriptor option \<Rightarrow> error + tool_registry" where
  "reg_register reg t descriptor =
     (let expected = (case descriptor of None \<Rightarrow> tl_descriptor t | Some d \<Rightarrow> d)
      in if expected \<noteq> tl_descriptor t then Inl (ValueError ''descriptor/tool mismatch'')
         else if reg_contains reg (td_name expected) (td_version expected)
         then Inl (ValueError (''duplicate tool registration for ''
                               @ tool_label (td_name expected) (td_version expected)))
         else Inr (dset (td_name expected, td_version expected) t reg))"

definition make_registry :: "tool list \<Rightarrow> error + tool_registry" where
  "make_registry ts = sfold (\<lambda>t reg. reg_register reg t None) ts []"

text \<open>\<open>descriptors\<close>: in the order of name and version.\<close>

definition reg_descriptors :: "tool_registry \<Rightarrow> tool_descriptor list" where
  "reg_descriptors reg = map (\<lambda>e. tl_descriptor (snd e)) (sort_key fst reg)"

definition unexpected_fields :: "(pykey, pyval) dict \<Rightarrow> model_type \<Rightarrow> string list" where
  "unexpected_fields payload m =
     sort (remdups (map key_text (filter (\<lambda>k. k \<notin> KStr ` set (mt_fields m)) (keys payload))))"

definition reject_unexpected_fields ::
  "(pykey, pyval) dict \<Rightarrow> model_type \<Rightarrow> string \<Rightarrow> error + unit" where
  "reject_unexpected_fields payload m label =
     guard (unexpected_fields payload m = [])
       (ValueError (label @ '' contains undeclared fields: [''
          @ join '', '' (map py_repr (unexpected_fields payload m)) @ '']''))"

definition validate_model ::
  "model_type \<Rightarrow> (pykey, pyval) dict \<Rightarrow> string \<Rightarrow> error + pyval" where
  "validate_model m payload label =
     (case mt_validate m payload of
        Inl msg \<Rightarrow> Inl (ValueError (''invalid '' @ label @ '': '' @ msg))
      | Inr fvs \<Rightarrow> Inr (PModel (mt_name m) fvs))"

definition coerce_arguments ::
  "tool_registry \<Rightarrow> string \<Rightarrow> string \<Rightarrow> pyval \<Rightarrow> error + pyval" where
  "coerce_arguments reg name version arguments =
     sbind (descriptor_for reg name version) (\<lambda>d.
     sbind (or_raise (as_mapping arguments) (ValueError ''arguments must be a mapping'')) (\<lambda>payload.
     sbind (guard (\<not> contains_unavailable_secret_ref (PDict payload))
              (ValueError ''secret reference unavailable after SQLite reload'')) (\<lambda>_.
     sbind (reject_unexpected_fields payload (td_input_model d) ''arguments'') (\<lambda>_.
     validate_model (td_input_model d) payload ''arguments''))))"

definition validate_arguments ::
  "tool_registry \<Rightarrow> string \<Rightarrow> string \<Rightarrow> pyval \<Rightarrow> error + unit" where
  "validate_arguments reg name version arguments =
     sbind (coerce_arguments reg name version arguments) (\<lambda>_. Inr ())"

fun coerce_payload :: "pyval \<Rightarrow> string \<Rightarrow> error + (pykey, pyval) dict" where
  "coerce_payload (PModel c fs) label = Inr (map (\<lambda>f. (KStr (fst f), snd f)) fs)"
| "coerce_payload v label = or_raise (as_mapping v) (ValueError (label @ '' must be a mapping''))"

definition validate_output ::
  "tool_registry \<Rightarrow> string \<Rightarrow> string \<Rightarrow> pyval \<Rightarrow> error + pyval" where
  "validate_output reg name version output =
     sbind (descriptor_for reg name version) (\<lambda>d.
     sbind (coerce_payload output ''output'') (\<lambda>payload.
     sbind (reject_unexpected_fields payload (td_output_model d) ''output'') (\<lambda>_.
     validate_model (td_output_model d) payload ''output'')))"

text \<open>What a client of the registry may rely on.\<close>

locale tool_catalog =
  fixes contains :: "'reg \<Rightarrow> string \<Rightarrow> string \<Rightarrow> bool"
    and descriptor :: "'reg \<Rightarrow> string \<Rightarrow> string \<Rightarrow> error + tool_descriptor"
    and coerce :: "'reg \<Rightarrow> string \<Rightarrow> string \<Rightarrow> pyval \<Rightarrow> error + pyval"
  assumes descriptor_iff: "(\<exists>d. descriptor reg n v = Inr d) \<longleftrightarrow> contains reg n v"
    and coerce_contains: "coerce reg n v a = Inr m \<Longrightarrow> contains reg n v"
    and coerce_model: "coerce reg n v a = Inr m \<Longrightarrow> \<exists>c fs. m = PModel c fs"
    and coerce_available:
      "coerce reg n v a = Inr m \<Longrightarrow> \<not> contains_unavailable_secret_ref a"
begin

lemma coerce_descriptor:
  "coerce reg n v a = Inr m \<Longrightarrow> \<exists>d. descriptor reg n v = Inr d"
  using descriptor_iff coerce_contains by blast

lemma not_contains_no_coerce: "\<not> contains reg n v \<Longrightarrow> \<exists>e. coerce reg n v a = Inl e"
  by (metis coerce_contains sum.exhaust)

end

lemma descriptor_for_iff: "(\<exists>d. descriptor_for reg n v = Inr d) \<longleftrightarrow> reg_contains reg n v"
  by (auto simp: descriptor_for_def reg_resolve_def reg_contains_def sbind_Inr_iff)

lemma contains_unavailable_as_mapping:
  "as_mapping a = Some d \<Longrightarrow>
   contains_unavailable_secret_ref a = contains_unavailable_secret_ref (PDict d)"
  by (cases a) simp_all

interpretation registry: tool_catalog reg_contains descriptor_for coerce_arguments
proof
  fix reg n v a m
  show "(\<exists>d. descriptor_for reg n v = Inr d) \<longleftrightarrow> reg_contains reg n v"
    by (rule descriptor_for_iff)
  assume c: "coerce_arguments reg n v a = Inr m"
  then show "reg_contains reg n v"
    using descriptor_for_iff by (auto simp: coerce_arguments_def)
  from c show "\<exists>c fs. m = PModel c fs"
    by (auto simp: coerce_arguments_def validate_model_def split: sum.splits)
  from c show "\<not> contains_unavailable_secret_ref a"
    by (auto simp: coerce_arguments_def contains_unavailable_as_mapping)
qed

lemma register_descriptor:
  assumes "reg_register reg t None = Inr reg'"
  shows "descriptor_for reg' (td_name (tl_descriptor t)) (td_version (tl_descriptor t))
           = Inr (tl_descriptor t)"
    and "\<And>n v. reg_contains reg n v \<Longrightarrow> descriptor_for reg' n v = descriptor_for reg n v"
  using assms
  by (auto simp: reg_register_def descriptor_for_def reg_resolve_def reg_contains_def Let_def
      split: if_splits)

end
