(* ===== verification/Validation.thy ===== *)
theory Validation
  imports Values
begin

text \<open>
  \<open>workflow/domain/validation.py\<close>: the checks on raw payload values, and \<open>find_cycle\<close>, which
  looks for a cycle among the steps by repeatedly removing the steps without open dependencies.
\<close>

section \<open>Checks on raw values\<close>

definition require_mapping ::
  "pyval \<Rightarrow> string \<Rightarrow> string option \<Rightarrow> error + (pykey, pyval) dict" where
  "require_mapping v field step =
     or_raise (as_mapping v)
       (DefinitionValidationError (field @ '' must be a mapping'') step (Some field))"

definition require_string :: "pyval \<Rightarrow> string \<Rightarrow> string option \<Rightarrow> error + string" where
  "require_string v field step =
     (let bad = Inl (DefinitionValidationError (field @ '' must be a non-empty string'')
                       step (Some field))
      in case v of PStr s \<Rightarrow> (if is_blank s then bad else Inr s) | _ \<Rightarrow> bad)"

definition require_positive_int :: "pyval \<Rightarrow> string \<Rightarrow> string option \<Rightarrow> error + int" where
  "require_positive_int v field step =
     (let bad = Inl (DefinitionValidationError (field @ '' must be a positive integer'')
                       step (Some field))
      in case v of PInt i \<Rightarrow> (if i \<le> 0 then bad else Inr i) | _ \<Rightarrow> bad)"

definition require_number :: "pyval \<Rightarrow> string \<Rightarrow> string option \<Rightarrow> error + pyval" where
  "require_number v field step =
     (case v of PInt _ \<Rightarrow> Inr v | PFloat _ \<Rightarrow> Inr v
      | _ \<Rightarrow> Inl (DefinitionValidationError (field @ '' must be numeric'') step (Some field)))"

definition require_string_sequence ::
  "pyval \<Rightarrow> string \<Rightarrow> string option \<Rightarrow> error + string list" where
  "require_string_sequence v field step =
     (if v = PNone then Inr []
      else (case as_sequence v of
              None \<Rightarrow> Inl (DefinitionValidationError (field @ '' must be a sequence of strings'')
                            step (Some field))
            | Some xs \<Rightarrow> sbind (smap (\<lambda>x. require_string x field step) xs)
                           (\<lambda>ys. Inr (sort (remdups ys)))))"

lemma require_string_Inr: "require_string v f st = Inr s \<longleftrightarrow> v = PStr s \<and> \<not> is_blank s"
  by (auto simp: require_string_def Let_def split: pyval.splits if_splits)

lemma require_positive_int_Inr: "require_positive_int v f st = Inr i \<longleftrightarrow> v = PInt i \<and> 0 < i"
  by (auto simp: require_positive_int_def Let_def split: pyval.splits if_splits)

lemma require_string_sequence_Inr:
  assumes "require_string_sequence v f st = Inr xs"
  shows "sorted xs" and "distinct xs" and "\<And>x. x \<in> set xs \<Longrightarrow> \<not> is_blank x"
proof -
  show "sorted xs" and "distinct xs"
    using assms by (auto simp: require_string_sequence_def split: if_splits option.splits)
  fix x
  assume "x \<in> set xs"
  with assms obtain ys zs where "smap (\<lambda>x. require_string x f st) ys = Inr zs" and "x \<in> set zs"
    by (auto simp: require_string_sequence_def split: if_splits option.splits)
  then have "list_all2 (\<lambda>x y. require_string x f st = Inr y) ys zs" and "x \<in> set zs"
    by (simp_all add: smap_Inr_iff)
  then show "\<not> is_blank x"
    by (auto simp: list_all2_conv_all_nth in_set_conv_nth require_string_Inr)
qed

section \<open>Looking for a cycle\<close>

type_synonym dependencies = "(string, string list) dict"

text \<open>\<open>dependents[dependency].append(step_id)\<close> for every dependency of every step.\<close>

definition add_dependent ::
  "string \<Rightarrow> string \<Rightarrow> dependencies \<Rightarrow> error + dependencies" where
  "add_dependent step dependency ds =
     sbind (or_raise (dget ds dependency) (KeyError dependency))
       (\<lambda>xs. Inr (dset dependency (xs @ [step]) ds))"

definition build_dependents :: "dependencies \<Rightarrow> error + dependencies" where
  "build_dependents deps =
     sfold (\<lambda>(step, depends_on). sfold (add_dependent step) depends_on) deps
       (map (\<lambda>(step, _). (step, [])) deps)"

definition initial_indegree :: "dependencies \<Rightarrow> (string, int) dict" where
  "initial_indegree deps = map (\<lambda>(step, depends_on). (step, int (length depends_on))) deps"

text \<open>The loop over the dependents of the step taken from the queue.\<close>

fun relax ::
  "string list \<Rightarrow> string list \<Rightarrow> (string, int) dict \<Rightarrow> error + string list \<times> (string, int) dict" where
  "relax [] queue ind = Inr (queue, ind)"
| "relax (d # ds) queue ind =
     sbind (or_raise (dget ind d) (KeyError d)) (\<lambda>n.
       relax ds (if n - 1 = 0 then queue @ [d] else queue) (dset d (n - 1) ind))"

text \<open>Steps with open dependencies: what the loop consumes, with the queue.\<close>

definition open_steps :: "(string, int) dict \<Rightarrow> nat" where
  "open_steps ind = length (filter (\<lambda>(_, n). 0 < n) ind)"

lemma open_steps_dset:
  "dget ind d = Some n \<Longrightarrow>
   open_steps (dset d (n - 1) ind) + (if n = 1 then 1 else 0) = open_steps ind"
  by (induction ind) (auto simp: open_steps_def split: if_splits)

lemma relax_measure:
  "relax ds queue ind = Inr (queue', ind') \<Longrightarrow>
   length queue' + open_steps ind' = length queue + open_steps ind"
proof (induction ds arbitrary: queue ind)
  case (Cons d ds)
  then obtain n where n: "dget ind d = Some n"
    and r: "relax ds (if n - 1 = 0 then queue @ [d] else queue) (dset d (n - 1) ind)
              = Inr (queue', ind')"
    by auto
  from Cons.IH [OF r] open_steps_dset [OF n] show ?case by (auto split: if_splits)
qed simp

text \<open>The \<open>while\<close> loop: each turn takes one step from the queue and counts it.\<close>

function kahn ::
  "dependencies \<Rightarrow> string list \<Rightarrow> (string, int) dict \<Rightarrow> nat \<Rightarrow> error + (string, int) dict \<times> nat" where
  "kahn dependents [] ind visited = Inr (ind, visited)"
| "kahn dependents (current # queue) ind visited =
     sbind (or_raise (dget dependents current) (KeyError current)) (\<lambda>ds.
     sbind (relax (sort ds) queue ind) (\<lambda>r.
     kahn dependents (fst r) (snd r) (Suc visited)))"
  by pat_completeness auto
termination
  by (relation "measure (\<lambda>(dependents, queue, ind, visited). length queue + open_steps ind)")
    (auto dest!: relax_measure)

definition find_cycle :: "dependencies \<Rightarrow> error + string list option" where
  "find_cycle deps =
     sbind (build_dependents deps) (\<lambda>dependents.
     sbind (kahn dependents
              (sort (map fst (filter (\<lambda>(_, n). n = 0) (initial_indegree deps))))
              (initial_indegree deps) 0) (\<lambda>(ind, visited).
     Inr (if visited = length deps then None
          else Some (sort (map fst (filter (\<lambda>(_, n). 0 < n) ind))))))"

section \<open>What it finds\<close>

text \<open>
  The specification: the steps that can never become free are those outside the accessible part
  of the dependency relation, that is, those with an infinite chain of dependencies.
\<close>

definition depends :: "dependencies \<Rightarrow> string \<Rightarrow> string \<Rightarrow> bool" where
  "depends deps d s = (\<exists>ds. dget deps s = Some ds \<and> d \<in> set ds)"

definition closed_deps :: "dependencies \<Rightarrow> bool" where
  "closed_deps deps \<longleftrightarrow> dwf deps \<and> (\<forall>(s, ds) \<in> set deps. set ds \<subseteq> fst ` set deps)"

definition blocked :: "dependencies \<Rightarrow> string list" where
  "blocked deps = sort (filter (\<lambda>s. \<not> Wellfounded.accp (depends deps) s) (keys deps))"

definition deps_of :: "dependencies \<Rightarrow> string \<Rightarrow> string list" where
  "deps_of deps s = (case dget deps s of None \<Rightarrow> [] | Some ds \<Rightarrow> ds)"

lemma depends_iff: "depends deps d s \<longleftrightarrow> d \<in> set (deps_of deps s)"
  by (cases "dget deps s") (auto simp: depends_def deps_of_def)

subsection \<open>The table of dependents\<close>

lemma add_dependents:
  assumes "set dl \<subseteq> fst ` set ds"
  shows "\<exists>ds'. sfold (add_dependent step) dl ds = Inr ds' \<and> keys ds' = keys ds
     \<and> (\<forall>k s. count_list (deps_of ds' k) s
              = count_list (deps_of ds k) s + (if s = step then count_list dl k else 0))"
  using assms
proof (induction dl arbitrary: ds)
  case (Cons d dl)
  then obtain xs where d: "dget ds d = Some xs" by (cases "dget ds d") (auto simp: dget_None_iff)
  let ?ds = "dset d (xs @ [step]) ds"
  have k: "keys ?ds = keys ds" using Cons.prems by (simp add: update_keys)
  then have "set dl \<subseteq> fst ` set ?ds" using Cons.prems by auto
  from Cons.IH [OF this] obtain ds' where r: "sfold (add_dependent step) dl ?ds = Inr ds'"
    and k': "keys ds' = keys ?ds"
    and c: "\<forall>k s. count_list (deps_of ds' k) s
           = count_list (deps_of ?ds k) s + (if s = step then count_list dl k else 0)" by blast
  have "sfold (add_dependent step) (d # dl) ds = Inr ds'"
    using d r by (simp add: add_dependent_def)
  moreover have "count_list (deps_of ds' k) s = count_list (deps_of ds k) s
      + (if s = step then count_list (d # dl) k else 0)" for k s
    using c d by (cases "k = d") (simp_all add: deps_of_def)
  ultimately show ?case using k k' by metis
qed auto

lemma add_all_dependents:
  assumes "\<forall>(s, dl) \<in> set rows. set dl \<subseteq> fst ` set ds"
  shows "\<exists>ds'. sfold (\<lambda>(step, depends_on). sfold (add_dependent step) depends_on) rows ds = Inr ds'
     \<and> keys ds' = keys ds
     \<and> (\<forall>k s. count_list (deps_of ds' k) s = count_list (deps_of ds k) s
              + (\<Sum>(s', dl) \<leftarrow> rows. if s' = s then count_list dl k else 0))"
  using assms
proof (induction rows arbitrary: ds)
  case (Cons row rows)
  obtain step dl where row: "row = (step, dl)" by force
  with Cons.prems have "set dl \<subseteq> fst ` set ds" by simp
  from add_dependents [OF this] obtain ds1 where 1: "sfold (add_dependent step) dl ds = Inr ds1"
    "keys ds1 = keys ds" "\<forall>k s. count_list (deps_of ds1 k) s
              = count_list (deps_of ds k) s + (if s = step then count_list dl k else 0)" by blast
  have "fst ` set ds1 = fst ` set ds" using 1(2) by (metis set_map)
  with Cons.prems have "\<forall>(s, dl) \<in> set rows. set dl \<subseteq> fst ` set ds1" by simp
  from Cons.IH [OF this] obtain ds2 where
    "sfold (\<lambda>(step, depends_on). sfold (add_dependent step) depends_on) rows ds1 = Inr ds2"
    "keys ds2 = keys ds1"
    "\<forall>k s. count_list (deps_of ds2 k) s = count_list (deps_of ds1 k) s
              + (\<Sum>(s', dl) \<leftarrow> rows. if s' = s then count_list dl k else 0)" by blast
  with 1 row show ?case by auto
qed simp

lemma sum_rows_absent:
  "s \<notin> fst ` set rows \<Longrightarrow> (\<Sum>(s', dl) \<leftarrow> rows. if s' = s then count_list dl k else 0) = 0"
  by (induction rows) auto

lemma sum_rows:
  "dwf rows \<Longrightarrow> (\<Sum>(s', dl) \<leftarrow> rows. if s' = s then count_list dl k else 0)
              = count_list (deps_of rows s) k"
  by (induction rows) (auto simp: deps_of_def sum_rows_absent)

lemma build_dependents_ok:
  assumes "closed_deps deps"
  shows "\<exists>ds. build_dependents deps = Inr ds \<and> keys ds = keys deps
     \<and> (\<forall>k s. count_list (deps_of ds k) s = count_list (deps_of deps s) k)"
proof -
  let ?init = "map (\<lambda>(step, _). (step, [])) deps :: dependencies"
  have k: "keys ?init = keys deps" by auto
  have e: "deps_of ?init x = []" for x by (induction deps) (auto simp: deps_of_def)
  have "fst ` set ?init = fst ` set deps" by force
  with assms have "\<forall>(s, dl) \<in> set deps. set dl \<subseteq> fst ` set ?init"
    by (simp add: closed_deps_def)
  from add_all_dependents [OF this] show ?thesis
    using assms sum_rows e k by (auto simp: build_dependents_def closed_deps_def)
qed

subsection \<open>The loop over dependents\<close>

lemma relax_spec:
  assumes "\<forall>d \<in> set ds. \<exists>n. dget ind d = Some n \<and> int (count_list ds d) \<le> n"
  shows "\<exists>new ind'. relax ds queue ind = Inr (queue @ new, ind') \<and> keys ind' = keys ind
     \<and> distinct new
     \<and> set new = {d \<in> set ds. dget ind d = Some (int (count_list ds d))}
     \<and> (\<forall>k. dget ind' k = map_option (\<lambda>n. n - int (count_list ds k)) (dget ind k))"
  using assms
proof (induction ds arbitrary: queue ind)
  case Nil
  then show ?case by (simp add: option.map_ident)
next
  case (Cons d ds)
  then obtain n where n: "dget ind d = Some n" and le: "1 + int (count_list ds d) \<le> n" by auto
  let ?ind = "dset d (n - 1) ind"
  let ?q = "if n - 1 = 0 then queue @ [d] else queue"
  have "\<forall>x \<in> set ds. \<exists>m. dget ?ind x = Some m \<and> int (count_list ds x) \<le> m"
  proof
    fix x
    assume "x \<in> set ds"
    with Cons.prems obtain m where "dget ind x = Some m" "int (count_list (d # ds) x) \<le> m" by auto
    with n le show "\<exists>m. dget ?ind x = Some m \<and> int (count_list ds x) \<le> m"
      by (cases "x = d") simp_all
  qed
  from Cons.IH [OF this, of ?q] obtain new ind' where
    r: "relax ds ?q ?ind = Inr (?q @ new, ind')" and ki: "keys ind' = keys ?ind"
    and new: "distinct new" "set new = {x \<in> set ds. dget ?ind x = Some (int (count_list ds x))}"
    and ind': "\<And>k. dget ind' k = map_option (\<lambda>n. n - int (count_list ds k)) (dget ?ind k)"
    by blast
  have k: "keys ?ind = keys ind"
  proof -
    have "d \<in> fst ` set ind" using n by (metis dget_None_iff option.distinct(1))
    then show ?thesis by (simp add: update_keys)
  qed
  let ?new = "if n - 1 = 0 then d # new else new"
  have zero: "d \<notin> set ds" if "n = 1" using le that by (simp add: count_list_0_iff)
  have run: "relax (d # ds) queue ind = Inr (queue @ ?new, ind')"
    using n r by (cases "n = 1") simp_all
  have kk: "keys ind' = keys ind" using ki k by simp
  have dist: "distinct ?new" using new zero by (cases "n = 1") simp_all
  have "x \<in> set ?new \<longleftrightarrow>
      x \<in> set (d # ds) \<and> dget ind x = Some (int (count_list (d # ds) x))" for x
  proof (cases "x = d")
    case x: True
    show ?thesis
    proof (cases "n = 1")
      case True
      then have "count_list ds d = 0" using zero by (simp add: count_list_0_iff)
      with True x n show ?thesis by simp
    next
      case False
      then have "x \<in> set ?new \<longleftrightarrow> d \<in> set ds \<and> n - 1 = int (count_list ds d)"
        using new(2) x by simp
      moreover have "d \<in> set ds" if "n - 1 = int (count_list ds d)"
        using False that by (cases "d \<in> set ds") (simp_all add: count_notin)
      moreover have "dget ind x = Some (int (count_list (d # ds) x)) \<longleftrightarrow> n - 1 = int (count_list ds d)"
        using n x by (simp add: algebra_simps)
      ultimately show ?thesis using x by auto
    qed
  next
    case False
    with new(2) show ?thesis by simp
  qed
  then have mem: "set ?new = {x \<in> set (d # ds). dget ind x = Some (int (count_list (d # ds) x))}"
    by (intro set_eqI) simp
  have "dget ind' x = map_option (\<lambda>n. n - int (count_list (d # ds) x)) (dget ind x)" for x
    using ind' [of x] n by (cases "x = d") simp_all
  then show ?case using run kk dist mem by (intro exI [of _ ?new] exI [of _ ind']) simp
qed

subsection \<open>The invariant of the main loop\<close>

text \<open>
  \<open>done\<close> are the steps taken from the queue so far. A step's counter is the number of its open
  dependencies, the free steps are those done or queued, and only steps without an infinite chain
  of dependencies ever become free.
\<close>

definition kahn_inv :: "dependencies \<Rightarrow> string list \<Rightarrow> string list \<Rightarrow> (string, int) dict \<Rightarrow> bool" where
  "kahn_inv deps finished queue ind \<longleftrightarrow>
     keys ind = keys deps \<and> distinct (finished @ queue)
     \<and> (\<forall>s \<in> fst ` set deps.
          dget ind s = Some (int (length (filter (\<lambda>d. d \<notin> set finished) (deps_of deps s)))))
     \<and> (\<forall>s \<in> fst ` set deps. s \<in> set (finished @ queue) \<longleftrightarrow> dget ind s = Some 0)
     \<and> set (finished @ queue) \<subseteq> fst ` set deps
     \<and> (\<forall>s \<in> set (finished @ queue). Wellfounded.accp (depends deps) s)"

lemma length_filter_remove:
  "c \<notin> A \<Longrightarrow> length (filter (\<lambda>d. d \<notin> A) ds)
            = length (filter (\<lambda>d. d \<notin> insert c A) ds) + count_list ds c"
  by (induction ds) auto

lemma kahn_inv_step:
  assumes inv: "kahn_inv deps finished (c # queue) ind" and closed: "closed_deps deps"
    and count: "\<forall>s. count_list ds s = count_list (deps_of deps s) c"
    and sub: "set ds \<subseteq> fst ` set deps"
  shows "\<exists>queue' ind'. relax (sort ds) queue ind = Inr (queue', ind')
           \<and> kahn_inv deps (finished @ [c]) queue' ind'"
proof -
  let ?A = "set finished"
  have c: "c \<notin> ?A" using inv by (simp add: kahn_inv_def)
  have cs: "count_list (sort ds) s = count_list (deps_of deps s) c" for s
    using count by simp
  have ind: "dget ind s = Some (int (length (filter (\<lambda>d. d \<notin> ?A) (deps_of deps s))))"
    if "s \<in> fst ` set deps" for s using inv that unfolding kahn_inv_def by blast
  have split: "length (filter (\<lambda>d. d \<notin> ?A) (deps_of deps s))
      = length (filter (\<lambda>d. d \<notin> set (finished @ [c])) (deps_of deps s)) + count_list (sort ds) s" for s
    using length_filter_remove [OF c, of "deps_of deps s"] cs by simp
  have "\<forall>d \<in> set (sort ds). \<exists>n. dget ind d = Some n \<and> int (count_list (sort ds) d) \<le> n"
  proof
    fix d
    assume "d \<in> set (sort ds)"
    then have "d \<in> fst ` set deps" using sub by auto
    then show "\<exists>n. dget ind d = Some n \<and> int (count_list (sort ds) d) \<le> n"
      using ind [of d] split [of d] by simp
  qed
  from relax_spec [OF this, of queue] obtain new ind' where
    r: "relax (sort ds) queue ind = Inr (queue @ new, ind')" and ki: "keys ind' = keys ind"
    and new: "distinct new"
      "set new = {d \<in> set ds. dget ind d = Some (int (count_list (sort ds) d))}"
    and ind': "\<And>k. dget ind' k = map_option (\<lambda>n. n - int (count_list (sort ds) k)) (dget ind k)"
    by auto
  have val: "dget ind' s = Some (int (length (filter (\<lambda>d. d \<notin> set (finished @ [c])) (deps_of deps s))))"
    if "s \<in> fst ` set deps" for s
    using ind' [of s] ind [OF that] split [of s] by simp
  have free: "s \<in> set (finished @ c # queue) \<longleftrightarrow> dget ind s = Some 0"
    if "s \<in> fst ` set deps" for s using inv that unfolding kahn_inv_def by blast
  have in_new: "s \<in> set new \<longleftrightarrow> dget ind' s = Some 0 \<and> dget ind s \<noteq> Some 0"
    if "s \<in> fst ` set deps" for s
  proof -
    from ind [OF that] obtain a where a: "dget ind s = Some (int a)" by blast
    have "dget ind' s = Some (int a - int (count_list (sort ds) s))" using ind' [of s] a by simp
    moreover have "s \<in> set new \<longleftrightarrow> count_list (sort ds) s \<noteq> 0 \<and> a = count_list (sort ds) s"
      unfolding new(2) by (simp add: a count_list_0_iff)
    ultimately show ?thesis using a by auto
  qed
  have subs: "set new \<subseteq> fst ` set deps" using new(2) sub by auto
  have still: "dget ind' s = Some 0" if "s \<in> fst ` set deps" "dget ind s = Some 0" for s
  proof -
    have "int (length (filter (\<lambda>d. d \<notin> ?A) (deps_of deps s))) = 0"
      using ind [OF that(1)] that(2) by (metis option.inject)
    then have "length (filter (\<lambda>d. d \<notin> set (finished @ [c])) (deps_of deps s)) = 0"
      using split [of s] by linarith
    then show ?thesis using val [OF that(1)] by (metis of_nat_0)
  qed
  have acc: "Wellfounded.accp (depends deps) s" if "s \<in> set new" for s
  proof (rule accp.accI)
    fix d
    assume "depends deps d s"
    then have d: "d \<in> set (deps_of deps s)" by (simp add: depends_iff)
    have s: "s \<in> fst ` set deps" using that subs by auto
    with in_new that val [OF s] have "filter (\<lambda>d. d \<notin> set (finished @ [c])) (deps_of deps s) = []"
      by simp
    with d have "d \<in> set (finished @ c # queue)" by (auto simp: filter_empty_conv)
    then show "Wellfounded.accp (depends deps) d" using inv unfolding kahn_inv_def by blast
  qed
  have "kahn_inv deps (finished @ [c]) (queue @ new) ind'"
    unfolding kahn_inv_def
  proof (intro conjI ballI)
    show "keys ind' = keys deps" using ki inv by (simp add: kahn_inv_def)
    have "set new \<inter> set (finished @ c # queue) = {}"
      unfolding disjoint_iff using in_new free subs by (metis subsetD)
    then show "distinct ((finished @ [c]) @ queue @ new)"
      using new(1) inv by (auto simp: kahn_inv_def)
    show "set ((finished @ [c]) @ queue @ new) \<subseteq> fst ` set deps"
      using subs inv by (auto simp: kahn_inv_def)
  next
    fix s
    assume s: "s \<in> fst ` set deps"
    show "dget ind' s = Some (int (length (filter (\<lambda>d. d \<notin> set (finished @ [c])) (deps_of deps s))))"
      by (rule val [OF s])
    show "s \<in> set ((finished @ [c]) @ queue @ new) \<longleftrightarrow> dget ind' s = Some 0"
      using free [OF s] in_new [OF s] still [OF s] by auto
  next
    fix s
    assume "s \<in> set ((finished @ [c]) @ queue @ new)"
    then show "Wellfounded.accp (depends deps) s"
      using acc inv unfolding kahn_inv_def by auto
  qed
  with r show ?thesis by blast
qed

text \<open>When the queue is empty, exactly the steps with a finite chain of dependencies are done.\<close>

lemma kahn_inv_final:
  assumes inv: "kahn_inv deps finished [] ind" and closed: "closed_deps deps"
  shows "set finished = {s \<in> fst ` set deps. Wellfounded.accp (depends deps) s}"
proof
  show "set finished \<subseteq> {s \<in> fst ` set deps. Wellfounded.accp (depends deps) s}"
    using inv by (auto simp: kahn_inv_def)
  have "s \<in> set finished" if "Wellfounded.accp (depends deps) s" and "s \<in> fst ` set deps" for s
    using that
  proof (induction rule: accp_induct_rule)
    case (1 s)
    obtain ds where ds: "dget deps s = Some ds" using "1.prems" by (cases "dget deps s")
        (auto simp: dget_None_iff)
    then have "set ds \<subseteq> fst ` set deps"
      using closed by (auto simp: closed_deps_def dest!: map_of_SomeD)
    then have "\<forall>d \<in> set ds. d \<in> set finished"
      using "1.IH" ds by (auto simp: depends_def)
    then have "dget ind s = Some 0"
      using inv "1.prems" ds by (auto simp: kahn_inv_def deps_of_def)
    moreover have "\<forall>s \<in> fst ` set deps. s \<in> set finished \<longleftrightarrow> dget ind s = Some 0"
      using inv unfolding kahn_inv_def append_Nil2 by blast
    ultimately show ?case using "1.prems" by blast
  qed
  then show "{s \<in> fst ` set deps. Wellfounded.accp (depends deps) s} \<subseteq> set finished" by blast
qed

lemma kahn_runs:
  assumes "kahn_inv deps finished queue ind" and "closed_deps deps"
    and "keys dependents = keys deps"
    and "\<forall>k s. count_list (deps_of dependents k) s = count_list (deps_of deps s) k"
  shows "\<exists>finished' ind'.
           kahn dependents queue ind (length finished) = Inr (ind', length finished')
           \<and> kahn_inv deps finished' [] ind'"
  using assms
proof (induction dependents queue ind "length finished" arbitrary: finished rule: kahn.induct)
  case (1 dependents ind)
  then show ?case by auto
next
  case (2 dependents c queue ind)
  have "fst ` set dependents = fst ` set deps" using "2.prems"(3) by (metis set_map)
  moreover have "c \<in> fst ` set deps" using "2.prems"(1) by (simp add: kahn_inv_def)
  ultimately obtain ds where ds: "dget dependents c = Some ds"
    by (cases "dget dependents c") (auto simp: dget_None_iff)
  then have count: "\<forall>s. count_list ds s = count_list (deps_of deps s) c"
    using "2.prems"(4) by (metis deps_of_def option.simps(5))
  have "set ds \<subseteq> fst ` set deps"
  proof
    fix s
    assume "s \<in> set ds"
    then have "count_list (deps_of deps s) c \<noteq> 0" using count by (metis count_list_0_iff)
    then show "s \<in> fst ` set deps"
      by (cases "dget deps s") (simp_all add: deps_of_def dget_Some_key)
  qed
  from kahn_inv_step [OF "2.prems"(1,2) count this] obtain queue' ind' where
    r: "relax (sort ds) queue ind = Inr (queue', ind')"
    and inv: "kahn_inv deps (finished @ [c]) queue' ind'" by blast
  have "\<exists>finished' ind''. kahn dependents queue' ind' (length (finished @ [c])) = Inr (ind'', length finished')
          \<and> kahn_inv deps finished' [] ind''"
    using "2.hyps" [of ds "(queue', ind')" "finished @ [c]"] ds r inv "2.prems"(2-4) by simp
  then show ?case using ds r by simp
qed

lemma kahn_inv_start:
  assumes "closed_deps deps"
  shows "kahn_inv deps [] (sort (map fst (filter (\<lambda>(_, n). n = 0) (initial_indegree deps))))
           (initial_indegree deps)"
proof -
  have keys: "keys (initial_indegree deps) = keys deps"
    by (auto simp: initial_indegree_def)
  have wf: "dwf (initial_indegree deps)" using assms by (simp add: closed_deps_def keys)
  have val: "dget (initial_indegree deps) s = map_option (\<lambda>ds. int (length ds)) (dget deps s)" for s
    unfolding initial_indegree_def by (rule dget_map_values)
  have zero: "s \<in> fst ` {x \<in> set (initial_indegree deps). case x of (_, n) \<Rightarrow> n = 0}
                \<longleftrightarrow> dget (initial_indegree deps) s = Some 0" for s
    using dget_Some_in_set [OF wf, of s 0] by force
  have sub: "dget (initial_indegree deps) s = Some 0 \<Longrightarrow> s \<in> fst ` set deps" for s
    using val [of s] by (cases "dget deps s") (simp_all add: dget_Some_key)
  have acc: "Wellfounded.accp (depends deps) s" if "dget (initial_indegree deps) s = Some 0" for s
  proof (rule accp.accI)
    fix d
    assume "depends deps d s"
    then obtain ds where "dget deps s = Some ds" and "d \<in> set ds" by (auto simp: depends_def)
    then show "Wellfounded.accp (depends deps) d" using val [of s] that by simp
  qed
  have some: "\<exists>ds. dget deps s = Some ds" if "s \<in> fst ` set deps" for s
    using that by (rule key_dget_Some)
  have dist: "distinct (map fst (filter (\<lambda>(_, n). n = 0) (initial_indegree deps)))"
    using wf by (rule distinct_map_filter)
  show ?thesis
    unfolding kahn_inv_def append_Nil set_sort
  proof (intro conjI ballI)
    show "distinct (sort (map fst (filter (\<lambda>(_, n). n = 0) (initial_indegree deps))))"
      using dist by simp
    show "set (map fst (filter (\<lambda>(_, n). n = 0) (initial_indegree deps))) \<subseteq> fst ` set deps"
      using zero sub by auto
  next
    fix s
    assume "s \<in> fst ` set deps"
    then obtain ds where "dget deps s = Some ds" using some by blast
    then show "dget (initial_indegree deps) s
                 = Some (int (length (filter (\<lambda>d. d \<notin> set []) (deps_of deps s))))"
      by (simp add: val deps_of_def)
  qed (use keys zero acc in auto)
qed

text \<open>
  \<open>find_cycle\<close> answers \<open>None\<close> exactly when every step has only finite chains of dependencies, and
  otherwise names, in order, the steps that have an infinite one.
\<close>

lemma find_cycle_blocked:
  assumes "closed_deps deps"
  shows "find_cycle deps = Inr (if blocked deps = [] then None else Some (blocked deps))"
proof -
  from build_dependents_ok [OF assms] obtain dependents where
    b: "build_dependents deps = Inr dependents" and k: "keys dependents = keys deps"
    and c: "\<forall>k s. count_list (deps_of dependents k) s = count_list (deps_of deps s) k" by blast
  from kahn_runs [OF kahn_inv_start [OF assms] assms k c] obtain finished ind where
    r: "kahn dependents (sort (map fst (filter (\<lambda>(_, n). n = 0) (initial_indegree deps))))
          (initial_indegree deps) 0 = Inr (ind, length finished)"
    and inv: "kahn_inv deps finished [] ind" by auto
  note fin = kahn_inv_final [OF inv assms]
  have wf: "dwf deps" using assms by (simp add: closed_deps_def)
  have dist: "distinct finished" and ki: "keys ind = keys deps" using inv by (simp_all add: kahn_inv_def)
  have zero: "s \<in> set finished \<longleftrightarrow> dget ind s = Some 0" if "s \<in> fst ` set deps" for s
    using inv that unfolding kahn_inv_def append_Nil2 by blast
  have nonneg: "\<exists>n. dget ind s = Some (int n)" if "s \<in> fst ` set deps" for s
    using inv that unfolding kahn_inv_def by blast
  have "map fst (filter (\<lambda>(_, n). 0 < n) ind) = filter (\<lambda>s. s \<notin> set finished) (keys ind)"
  proof -
    have "0 < n \<longleftrightarrow> s \<notin> set finished" if "(s, n) \<in> set ind" for s n
    proof -
      have "dget ind s = Some n" using that wf ki by simp
      moreover have "s \<in> fst ` set deps" using that ki by (metis dget_Some_key calculation set_map)
      ultimately show ?thesis using zero nonneg by fastforce
    qed
    then show ?thesis by (induction ind) (auto split: prod.splits)
  qed
  also have "\<dots> = filter (\<lambda>s. \<not> Wellfounded.accp (depends deps) s) (keys deps)"
    using fin ki by (auto intro!: filter_cong)
  finally have rest: "sort (map fst (filter (\<lambda>(_, n). 0 < n) ind)) = blocked deps"
    by (simp add: blocked_def)
  have "length finished = length deps \<longleftrightarrow> blocked deps = []"
  proof -
    have "length finished = card (set finished)" using dist by (simp add: distinct_card)
    moreover have "length deps = card (fst ` set deps)" using wf by (metis distinct_card length_map set_map)
    moreover have "set finished \<subseteq> fst ` set deps" using fin by blast
    ultimately have "length finished = length deps \<longleftrightarrow> set finished = fst ` set deps"
      by (metis card_subset_eq finite_imageI finite_set)
    also have "\<dots> \<longleftrightarrow> blocked deps = []"
      unfolding blocked_def fin by (auto simp: filter_empty_conv simp flip: set_empty)
    finally show ?thesis .
  qed
  then show ?thesis using b r rest by (simp add: find_cycle_def)
qed

abbreviation dep_graph :: "dependencies \<Rightarrow> (string \<times> string) set" where
  "dep_graph deps \<equiv> {(d, s). depends deps d s}"

lemma dep_graph_finite: "finite (dep_graph deps)"
proof -
  have "dep_graph deps \<subseteq> (\<Union>(s, ds) \<in> set deps. (\<lambda>d. (d, s)) ` set ds)"
    by (auto simp: depends_def dest!: map_of_SomeD)
  then show ?thesis by (rule finite_subset) auto
qed

lemma blocked_Nil_iff: "blocked deps = [] \<longleftrightarrow> acyclic (dep_graph deps)"
proof -
  have out: "Wellfounded.accp (depends deps) s" if "s \<notin> fst ` set deps" for s
  proof (rule accp.accI)
    fix d assume "depends deps d s"
    then have "s \<in> fst ` set deps" unfolding depends_def by (blast dest: dget_Some_key)
    with that show "Wellfounded.accp (depends deps) d" by contradiction
  qed
  have "blocked deps = [] \<longleftrightarrow> (\<forall>s \<in> fst ` set deps. Wellfounded.accp (depends deps) s)"
    unfolding blocked_def filter_empty_conv set_sort set_filter
    by (metis (no_types, lifting) filter_empty_conv set_empty set_map set_sort)
  also have "\<dots> \<longleftrightarrow> (\<forall>s. Wellfounded.accp (depends deps) s)"
    using out by blast
  also have "\<dots> \<longleftrightarrow> wf (dep_graph deps)"
    by (simp add: wfp_iff_accp flip: wfp_def)
  also have "\<dots> \<longleftrightarrow> acyclic (dep_graph deps)"
    using finite_acyclic_wf [OF dep_graph_finite] wf_acyclic by blast
  finally show ?thesis .
qed

text \<open>
  C16: on a table whose dependencies are all steps of the table, \<open>find_cycle\<close> raises nothing and
  answers \<open>None\<close> exactly when the dependency graph has no cycle; otherwise it answers the sorted
  list of precisely those steps whose chain of dependencies never ends.
\<close>

theorem find_cycle_correct:
  assumes "closed_deps deps"
  shows "find_cycle deps = Inr (if acyclic (dep_graph deps) then None else Some (blocked deps))"
  using find_cycle_blocked [OF assms] by (simp add: blocked_Nil_iff)

theorem find_cycle_correct_witness:
  "find_cycle [(''a'', []), (''b'', [''a'', ''c'']), (''c'', [''b''])] = Inr (Some [''b'', ''c''])
   \<and> \<not> acyclic (dep_graph [(''a'', []), (''b'', [''a'', ''c'']), (''c'', [''b''])])"
proof -
  let ?deps = "[(''a'', []), (''b'', [''a'', ''c'']), (''c'', [''b''])]"
  have c: "closed_deps ?deps" by (simp add: closed_deps_def)
  have r: "find_cycle ?deps = Inr (Some [''b'', ''c''])"
    by (simp add: find_cycle_def build_dependents_def initial_indegree_def add_dependent_def)
  show ?thesis using find_cycle_correct [OF c] unfolding r by (simp split: if_splits)
qed

end
