(* ===== verification/Definitions.thy ===== *)
theory Definitions
  imports Tooling Validation "HOL-Library.Multiset"
begin

text \<open>
  \<open>workflow/domain/definitions.py\<close>: workflow definitions and \<open>from_mapping\<close>, which builds one
  from a raw payload: every check in the order of the code, the frozen arguments of each step,
  the normal order of the steps and the digest.
\<close>

section \<open>Data\<close>

definition MAX_STEPS :: nat where "MAX_STEPS = 100"

definition MAX_EDGES :: nat where "MAX_EDGES = 1000"

definition DEFAULT_RISK :: string where "DEFAULT_RISK = ''low''"

record tool_reference =
  ref_name :: string
  ref_version :: string

record retry_policy =
  rp_max_attempts :: int
  rp_initial_backoff_seconds :: pyfloat

record step_definition =
  sd_id :: string
  sd_tool :: tool_reference
  sd_arguments :: pyval
  sd_depends_on :: "string list"
  sd_risk :: string
  sd_retry :: retry_policy
  sd_compensation_tool :: "tool_reference option"

record workflow_definition =
  wd_definition_id :: string
  wd_version :: int
  wd_steps :: "step_definition list"
  wd_digest :: string

text \<open>\<open>RetryPolicy.__post_init__\<close>.\<close>

definition make_retry_policy :: "int \<Rightarrow> pyfloat \<Rightarrow> error + retry_policy" where
  "make_retry_policy max_attempts backoff =
     (if \<not> (1 \<le> max_attempts \<and> max_attempts \<le> 10)
      then Inl (DefinitionValidationError ''max_attempts must be within 1..10'' None
                  (Some ''max_attempts''))
      else if float_nonpositive backoff
      then Inl (DefinitionValidationError ''initial_backoff_seconds must be positive'' None
                  (Some ''initial_backoff_seconds''))
      else Inr \<lparr>rp_max_attempts = max_attempts, rp_initial_backoff_seconds = backoff\<rparr>)"

definition default_retry :: retry_policy where
  "default_retry = \<lparr>rp_max_attempts = 3, rp_initial_backoff_seconds = Finite 1 0\<rparr>"

section \<open>Parsing the parts of a step\<close>

text \<open>What a definition needs of a tool catalog (\<open>ToolCatalog\<close>), and the catalog that a registry is.\<close>

record tool_catalog =
  ct_contains :: "string \<Rightarrow> string \<Rightarrow> bool"
  ct_coerce :: "string \<Rightarrow> string \<Rightarrow> pyval \<Rightarrow> error + pyval"

definition catalog_of :: "tool_registry \<Rightarrow> tool_catalog" where
  "catalog_of reg = \<lparr>ct_contains = reg_contains reg, ct_coerce = coerce_arguments reg\<rparr>"

lemma catalog_of_fields [simp]:
  "ct_contains (catalog_of reg) = reg_contains reg" "ct_coerce (catalog_of reg) = coerce_arguments reg"
  by (simp_all add: catalog_of_def)

definition parse_tool_reference ::
  "pyval \<Rightarrow> string \<Rightarrow> string option \<Rightarrow> error + tool_reference" where
  "parse_tool_reference raw field step =
     sbind (require_mapping raw field step) (\<lambda>m.
     sbind (require_string (pget m ''name'') (field @ ''.name'') step) (\<lambda>name.
     sbind (require_string (pget m ''version'') (field @ ''.version'') step) (\<lambda>version.
     Inr \<lparr>ref_name = name, ref_version = version\<rparr>)))"

definition ensure_registered ::
  "tool_catalog \<Rightarrow> tool_reference \<Rightarrow> string \<Rightarrow> string \<Rightarrow> error + unit" where
  "ensure_registered reg t step field =
     guard (ct_contains reg (ref_name t) (ref_version t))
       (DefinitionValidationError (''unknown tool '' @ tool_label (ref_name t) (ref_version t))
          (Some step) (Some field))"

definition parse_optional_tool_reference ::
  "tool_catalog \<Rightarrow> pyval \<Rightarrow> string \<Rightarrow> error + tool_reference option" where
  "parse_optional_tool_reference reg raw step =
     (if raw = PNone then Inr None
      else sbind (parse_tool_reference raw ''compensation_tool'' (Some step)) (\<lambda>t.
           sbind (ensure_registered reg t step ''compensation_tool'') (\<lambda>_. Inr (Some t))))"

fun to_float :: "pyval \<Rightarrow> error + pyfloat" where
  "to_float (PFloat f) = Inr f"
| "to_float (PInt i) = float_of_int i"
| "to_float _ = Inl (TypeError ''float() argument must be a string or a real number'')"

text \<open>The \<open>except\<close> clause: the error is raised again with the step and the dotted field.\<close>

fun relocate_retry_error :: "string \<Rightarrow> error \<Rightarrow> error" where
  "relocate_retry_error step (DefinitionValidationError msg _ field) =
     DefinitionValidationError msg (Some step)
       (Some (case field of Some f \<Rightarrow> if f = [] then ''retry'' else ''retry.'' @ f
                          | None \<Rightarrow> ''retry''))"
| "relocate_retry_error step e = e"

definition parse_retry_policy :: "pyval \<Rightarrow> string \<Rightarrow> error + retry_policy" where
  "parse_retry_policy raw step =
     (if raw = PNone then Inr default_retry
      else sbind (require_mapping raw ''retry'' (Some step)) (\<lambda>m.
           sbind (require_positive_int (pget_or m ''max_attempts'' (PInt 3))
                    ''retry.max_attempts'' (Some step)) (\<lambda>max_attempts.
           sbind (require_number (pget_or m ''initial_backoff_seconds'' (PFloat (Finite 1 0)))
                    ''retry.initial_backoff_seconds'' (Some step)) (\<lambda>backoff.
           map_error (relocate_retry_error step)
             (sbind (to_float backoff) (\<lambda>f. make_retry_policy max_attempts f))))))"

section \<open>Arguments\<close>

text \<open>\<open>_freeze_value\<close> of this file: only \<open>dict\<close>s become proxies, proxies stay as they are.\<close>

fun freeze_argument :: "pyval \<Rightarrow> pyval" where
  "freeze_argument (PDict d) = PProxy (map (\<lambda>kv. (fst kv, freeze_argument (snd kv))) d)"
| "freeze_argument (PList xs) = PTuple (map freeze_argument xs)"
| "freeze_argument (PTuple xs) = PTuple (map freeze_argument xs)"
| "freeze_argument v = v"

fun materialize :: "pyval \<Rightarrow> pyval" where
  "materialize (PModel c fs) = PDict (map (\<lambda>f. (KStr (fst f), materialize (snd f))) fs)"
| "materialize (PDict d) = PDict (map (\<lambda>kv. (fst kv, materialize (snd kv))) d)"
| "materialize (PProxy d) = PDict (map (\<lambda>kv. (fst kv, materialize (snd kv))) d)"
| "materialize (PList xs) = PTuple (map materialize xs)"
| "materialize (PTuple xs) = PTuple (map materialize xs)"
| "materialize v = v"

text \<open>\<open>_coerce_arguments\<close>, by the kind of value that the registry's coercion returns.\<close>

fun coerced_dict :: "pyval \<Rightarrow> error + (pykey, pyval) dict" where
  "coerced_dict (PModel c fs) = Inr (map (\<lambda>f. (KStr (fst f), materialize (snd f))) fs)"
| "coerced_dict (PSecret _ _) = Inl (TypeError ''tool argument coercion must return a mapping'')"
| "coerced_dict (PDict d) = Inr d"
| "coerced_dict (PProxy d) = Inr d"
| "coerced_dict _ =
     Inl (TypeError ''tool argument coercion must return a mapping or Pydantic model'')"

definition coerce_step_arguments ::
  "tool_catalog \<Rightarrow> tool_reference \<Rightarrow> (pykey, pyval) dict \<Rightarrow> error + (pykey, pyval) dict" where
  "coerce_step_arguments reg t raw =
     sbind (ct_coerce reg (ref_name t) (ref_version t) (PDict raw)) coerced_dict"

section \<open>The digest\<close>

fun thaw_value :: "pyval \<Rightarrow> pyval" where
  "thaw_value (PSecret _ _) = PStr ''[REDACTED]''"
| "thaw_value PUnavailable = PStr ''[REDACTED]''"
| "thaw_value (PProxy d) = PDict (map (\<lambda>kv. (fst kv, thaw_value (snd kv))) d)"
| "thaw_value (PTuple xs) = PList (map thaw_value xs)"
| "thaw_value v = v"

definition reference_value :: "tool_reference \<Rightarrow> pyval" where
  "reference_value t =
     PDict [(KStr ''name'', PStr (ref_name t)), (KStr ''version'', PStr (ref_version t))]"

definition step_to_canonical :: "step_definition \<Rightarrow> pyval" where
  "step_to_canonical s =
     PDict [(KStr ''id'', PStr (sd_id s)),
            (KStr ''tool'', reference_value (sd_tool s)),
            (KStr ''arguments'', thaw_value (sd_arguments s)),
            (KStr ''depends_on'', PList (map PStr (sd_depends_on s))),
            (KStr ''risk'', PStr (sd_risk s)),
            (KStr ''retry'',
               PDict [(KStr ''max_attempts'', PInt (rp_max_attempts (sd_retry s))),
                      (KStr ''initial_backoff_seconds'',
                         PFloat (rp_initial_backoff_seconds (sd_retry s)))]),
            (KStr ''compensation_tool'',
               (case sd_compensation_tool s of None \<Rightarrow> PNone | Some t \<Rightarrow> reference_value t))]"

definition calculate_digest ::
  "string \<Rightarrow> int \<Rightarrow> step_definition list \<Rightarrow> error + string" where
  "calculate_digest definition_id version steps =
     json_digest True
       (PDict [(KStr ''definition_id'', PStr definition_id),
               (KStr ''version'', PInt version),
               (KStr ''steps'', PList (map step_to_canonical steps))])"

section \<open>From a payload to a definition\<close>

text \<open>The body of the loop over the raw steps, after the check for a duplicate id.\<close>

definition parse_step_body ::
  "tool_catalog \<Rightarrow> string \<Rightarrow> (pykey, pyval) dict \<Rightarrow> error + step_definition" where
  "parse_step_body reg step_id m =
     sbind (parse_tool_reference (pget m ''tool'') ''tool'' (Some step_id)) (\<lambda>t.
     sbind (ensure_registered reg t step_id ''tool'') (\<lambda>_.
     sbind (require_mapping (pget_or m ''arguments'' (PDict [])) ''arguments'' (Some step_id)) (\<lambda>raw.
     sbind (map_error (\<lambda>e. DefinitionValidationError (''invalid arguments: '' @ error_text e)
                             (Some step_id) (Some ''arguments''))
              (coerce_step_arguments reg t raw)) (\<lambda>arguments.
     sbind (require_string_sequence (pget m ''depends_on'') ''depends_on'' (Some step_id)) (\<lambda>depends_on.
     sbind (require_string (pget_or m ''risk'' (PStr DEFAULT_RISK)) ''risk'' (Some step_id)) (\<lambda>risk.
     sbind (parse_retry_policy (pget m ''retry'') step_id) (\<lambda>retry.
     sbind (parse_optional_tool_reference reg (pget m ''compensation_tool'') step_id) (\<lambda>compensation.
     Inr \<lparr>sd_id = step_id, sd_tool = t,
          sd_arguments = PProxy (map (\<lambda>kv. (fst kv, freeze_argument (snd kv))) arguments),
          sd_depends_on = depends_on, sd_risk = risk, sd_retry = retry,
          sd_compensation_tool = compensation\<rparr>))))))))"

definition parse_step_id :: "pyval \<Rightarrow> error + string \<times> (pykey, pyval) dict" where
  "parse_step_id raw =
     sbind (require_mapping raw ''steps'' None) (\<lambda>m.
     sbind (require_string (pget m ''id'') ''id'' None) (\<lambda>step_id. Inr (step_id, m)))"

text \<open>The state of the loop: the steps parsed so far, in order (their ids are the ids seen).\<close>

definition add_step ::
  "tool_catalog \<Rightarrow> pyval \<Rightarrow> step_definition list \<Rightarrow> error + step_definition list" where
  "add_step reg raw parsed =
     sbind (parse_step_id raw) (\<lambda>(step_id, m).
     sbind (guard (step_id \<notin> sd_id ` set parsed)
              (DefinitionValidationError (''duplicate step id '' @ py_repr step_id)
                 (Some step_id) (Some ''id''))) (\<lambda>_.
     sbind (parse_step_body reg step_id m) (\<lambda>s. Inr (parsed @ [s]))))"

definition step_dependencies :: "step_definition list \<Rightarrow> dependencies" where
  "step_dependencies steps = map (\<lambda>s. (sd_id s, sd_depends_on s)) steps"

definition edge_count :: "step_definition list \<Rightarrow> nat" where
  "edge_count steps = sum_list (map (\<lambda>s. length (sd_depends_on s)) steps)"

definition check_targets :: "step_definition list \<Rightarrow> error + unit" where
  "check_targets steps =
     sfold (\<lambda>s _. sfold (\<lambda>dependency _.
              guard (dependency \<in> sd_id ` set steps)
                (DefinitionValidationError (''unknown dependency target '' @ py_repr dependency)
                   (Some (sd_id s)) (Some ''depends_on''))) (sd_depends_on s) ()) steps ()"

definition check_graph :: "step_definition list \<Rightarrow> error + unit" where
  "check_graph steps =
     sbind (guard (edge_count steps \<le> MAX_EDGES)
              (DefinitionValidationError
                 (''workflow definition supports at most 1000 dependency edges'') None
                 (Some ''steps''))) (\<lambda>_.
     sbind (check_targets steps) (\<lambda>_.
     sbind (find_cycle (step_dependencies steps)) (\<lambda>cycle.
     case cycle of None \<Rightarrow> Inr ()
     | Some c \<Rightarrow> Inl (DefinitionValidationError
                         (''cycle detected among steps: '' @ join '', '' c)
                         (Some (hd c)) (Some ''depends_on'')))))"

definition raw_steps_of :: "(pykey, pyval) dict \<Rightarrow> error + pyval list" where
  "raw_steps_of m =
     (case pget m ''steps'' of
        PList xs \<Rightarrow>
          (if length xs \<le> MAX_STEPS then Inr xs
           else Inl (DefinitionValidationError ''workflow definition supports at most 100 steps''
                       None (Some ''steps'')))
      | _ \<Rightarrow> Inl (DefinitionValidationError ''steps must be a list'' None (Some ''steps'')))"

definition read_definition :: "pyval \<Rightarrow> tool_catalog \<Rightarrow> error + workflow_definition" where
  "read_definition payload reg =
     sbind (require_mapping payload ''workflow'' None) (\<lambda>m.
     sbind (require_string (pget m ''definition_id'') ''definition_id'' None) (\<lambda>definition_id.
     sbind (require_positive_int (pget m ''version'') ''version'' None) (\<lambda>version.
     sbind (raw_steps_of m) (\<lambda>raw_steps.
     sbind (sfold (add_step reg) raw_steps []) (\<lambda>parsed.
     sbind (check_graph parsed) (\<lambda>_.
     let steps = sort_key sd_id parsed in
     sbind (calculate_digest definition_id version steps) (\<lambda>digest.
     Inr \<lparr>wd_definition_id = definition_id, wd_version = version, wd_steps = steps,
          wd_digest = digest\<rparr>)))))))"

definition from_mapping :: "pyval \<Rightarrow> tool_registry \<Rightarrow> error + workflow_definition" where
  "from_mapping payload reg = read_definition payload (catalog_of reg)"

section \<open>What a definition that was accepted satisfies\<close>

definition retry_ok :: "retry_policy \<Rightarrow> bool" where
  "retry_ok r \<longleftrightarrow> 1 \<le> rp_max_attempts r \<and> rp_max_attempts r \<le> 10
     \<and> \<not> float_nonpositive (rp_initial_backoff_seconds r)"

definition tool_ok :: "tool_catalog \<Rightarrow> tool_reference \<Rightarrow> bool" where
  "tool_ok reg t \<longleftrightarrow> ct_contains reg (ref_name t) (ref_version t)
     \<and> \<not> is_blank (ref_name t) \<and> \<not> is_blank (ref_version t)"

definition step_ok :: "tool_catalog \<Rightarrow> step_definition \<Rightarrow> bool" where
  "step_ok reg s \<longleftrightarrow> \<not> is_blank (sd_id s) \<and> tool_ok reg (sd_tool s)
     \<and> (\<exists>d. sd_arguments s = PProxy d)
     \<and> sorted (sd_depends_on s) \<and> distinct (sd_depends_on s)
     \<and> \<not> is_blank (sd_risk s) \<and> retry_ok (sd_retry s)
     \<and> (\<forall>t. sd_compensation_tool s = Some t \<longrightarrow> tool_ok reg t)"

text \<open>A value without lists and dictionaries that could be changed.\<close>

fun is_frozen :: "pyval \<Rightarrow> bool" where
  "is_frozen (PProxy d) = list_all (\<lambda>kv. is_frozen (snd kv)) d"
| "is_frozen (PTuple xs) = list_all is_frozen xs"
| "is_frozen (PDict d) = False"
| "is_frozen (PList xs) = False"
| "is_frozen v = True"

lemma materialized_frozen: "is_frozen (freeze_argument (materialize v))"
  by (induction v rule: materialize.induct) (auto simp: list_all_iff)

lemma parse_tool_reference_ok:
  "parse_tool_reference raw f step = Inr t \<Longrightarrow> \<not> is_blank (ref_name t) \<and> \<not> is_blank (ref_version t)"
  by (auto simp: parse_tool_reference_def require_string_Inr)

lemma parse_retry_policy_ok: "parse_retry_policy raw step = Inr r \<Longrightarrow> retry_ok r"
  by (auto simp: parse_retry_policy_def make_retry_policy_def retry_ok_def default_retry_def
      split: if_splits)

lemma parse_step_body_id: "parse_step_body reg i m = Inr s \<Longrightarrow> sd_id s = i"
  by (auto simp: parse_step_body_def)

lemma parse_optional_ok:
  "parse_optional_tool_reference reg raw step = Inr (Some t) \<Longrightarrow> tool_ok reg t"
  by (auto simp: parse_optional_tool_reference_def ensure_registered_def tool_ok_def
      split: if_splits dest: parse_tool_reference_ok)

lemma parse_step_body_ok:
  assumes "parse_step_body reg i m = Inr s" and "\<not> is_blank i"
  shows "step_ok reg s"
proof -
  from assms(1) obtain u t raw arguments depends_on risk retry compensation where
    n: "parse_tool_reference (pget m ''tool'') ''tool'' (Some i) = Inr t"
    and t: "ensure_registered reg t i ''tool'' = Inr u"
    and d: "require_string_sequence (pget m ''depends_on'') ''depends_on'' (Some i) = Inr depends_on"
    and k: "require_string (pget_or m ''risk'' (PStr DEFAULT_RISK)) ''risk'' (Some i) = Inr risk"
    and r: "parse_retry_policy (pget m ''retry'') i = Inr retry"
    and c: "parse_optional_tool_reference reg (pget m ''compensation_tool'') i = Inr compensation"
    and s': "Inr \<lparr>sd_id = i, sd_tool = t,
              sd_arguments = PProxy (map (\<lambda>kv. (fst kv, freeze_argument (snd kv))) arguments),
              sd_depends_on = depends_on, sd_risk = risk, sd_retry = retry,
              sd_compensation_tool = compensation\<rparr> = (Inr s :: error + step_definition)"
    unfolding parse_step_body_def by (elim sbind_InrE) blast
  note s = s' [unfolded sum.inject(2), symmetric]
  have "tool_ok reg t" using t parse_tool_reference_ok [OF n] by (simp add: ensure_registered_def tool_ok_def)
  moreover have "\<not> is_blank risk" using k by (simp add: require_string_Inr)
  moreover have "\<forall>t'. compensation = Some t' \<longrightarrow> tool_ok reg t'" using c parse_optional_ok by blast
  ultimately show ?thesis
    using assms(2) require_string_sequence_Inr(1,2) [OF d] parse_retry_policy_ok [OF r] s
    by (simp add: step_ok_def)
qed

text \<open>One raw step on its own, without the check against the steps before it.\<close>

definition parse_step :: "tool_catalog \<Rightarrow> pyval \<Rightarrow> error + step_definition" where
  "parse_step reg raw = sbind (parse_step_id raw) (\<lambda>(i, m). parse_step_body reg i m)"

lemma parse_step_id_nonblank: "parse_step_id raw = Inr (i, m) \<Longrightarrow> \<not> is_blank i"
  by (auto simp: parse_step_id_def require_string_Inr)

lemma parse_step_frozen:
  assumes "parse_step (catalog_of reg) raw = Inr s"
  shows "is_frozen (sd_arguments s)"
proof -
  from assms obtain i m where body: "parse_step_body (catalog_of reg) i m = Inr s"
    by (auto simp: parse_step_def)
  from body obtain t raw arguments where
    a: "map_error (\<lambda>e. DefinitionValidationError (''invalid arguments: '' @ error_text e)
                             (Some i) (Some ''arguments''))
          (coerce_step_arguments (catalog_of reg) t raw) = Inr arguments"
    and s: "sd_arguments s = PProxy (map (\<lambda>kv. (fst kv, freeze_argument (snd kv))) arguments)"
    unfolding parse_step_body_def by (elim sbind_InrE) auto
  from a obtain v where "coerce_arguments reg (ref_name t) (ref_version t) (PDict raw) = Inr v"
    and d: "coerced_dict v = Inr arguments"
    by (auto simp: map_error_Inr coerce_step_arguments_def)
  then obtain c fs where "v = PModel c fs"
    by (auto simp: coerce_arguments_def validate_model_def split: sum.splits)
  then have "arguments = map (\<lambda>f. (KStr (fst f), materialize (snd f))) fs" using d by simp
  then show ?thesis by (auto simp: s list_all_iff materialized_frozen)
qed

lemma parse_step_ok: "parse_step reg raw = Inr s \<Longrightarrow> step_ok reg s"
  by (auto simp: parse_step_def dest: parse_step_id_nonblank parse_step_body_ok)

lemma add_step_Inr:
  "add_step reg raw parsed = Inr parsed' \<longleftrightarrow>
     (\<exists>s. parse_step reg raw = Inr s \<and> sd_id s \<notin> sd_id ` set parsed \<and> parsed' = parsed @ [s])"
proof (cases "parse_step_id raw")
  case (Inr im)
  obtain i m where im: "im = (i, m)" by force
  show ?thesis
  proof (cases "parse_step_body reg i m")
    case (Inr s)
    then have "sd_id s = i" by (rule parse_step_body_id)
    with Inr \<open>parse_step_id raw = Inr im\<close> im show ?thesis
      by (auto simp: add_step_def parse_step_def sbind_Inr_iff)
  qed (use Inr im in \<open>auto simp: add_step_def parse_step_def sbind_Inr_iff\<close>)
qed (simp add: add_step_def parse_step_def)

text \<open>The loop accepts exactly the lists of steps that parse and have distinct ids.\<close>

lemma parse_loop_Inr:
  assumes "distinct (map sd_id parsed)"
  shows "sfold (add_step reg) raws parsed = Inr all \<longleftrightarrow>
    (\<exists>ss. smap (parse_step reg) raws = Inr ss \<and> all = parsed @ ss \<and> distinct (map sd_id all))"
  using assms
proof (induction raws arbitrary: parsed)
  case (Cons raw raws)
  have "sfold (add_step reg) (raw # raws) parsed = Inr all \<longleftrightarrow>
    (\<exists>s. parse_step reg raw = Inr s \<and> sd_id s \<notin> sd_id ` set parsed
         \<and> sfold (add_step reg) raws (parsed @ [s]) = Inr all)"
    by (auto simp: sbind_Inr_iff add_step_Inr)
  also have "\<dots> \<longleftrightarrow> (\<exists>s. parse_step reg raw = Inr s \<and> sd_id s \<notin> sd_id ` set parsed
         \<and> (\<exists>ss. smap (parse_step reg) raws = Inr ss \<and> all = (parsed @ [s]) @ ss
                 \<and> distinct (map sd_id all)))"
  proof -
    have "sfold (add_step reg) raws (parsed @ [s]) = Inr all \<longleftrightarrow>
      (\<exists>ss. smap (parse_step reg) raws = Inr ss \<and> all = (parsed @ [s]) @ ss
                 \<and> distinct (map sd_id all))" if "sd_id s \<notin> sd_id ` set parsed" for s
      by (rule Cons.IH) (use Cons.prems that in simp)
    then show ?thesis by blast
  qed
  also have "\<dots> \<longleftrightarrow> (\<exists>ss. smap (parse_step reg) (raw # raws) = Inr ss \<and> all = parsed @ ss
         \<and> distinct (map sd_id all))"
    by (auto simp: sbind_Inr_iff)
  finally show ?case .
qed auto

lemma sfold_guards:
  "sfold (\<lambda>x _. guard (P x) (e x)) xs () = Inr u \<longleftrightarrow> (\<forall>x \<in> set xs. P x)"
  by (induction xs) (auto simp: sbind_Inr_iff)

lemma sfold_unit_iff:
  "sfold (\<lambda>x (_ :: unit). f x) xs () = Inr u \<longleftrightarrow> (\<forall>x \<in> set xs. f x = Inr ())"
  by (induction xs) (auto simp: sbind_Inr_iff)

lemma check_targets_Inr:
  "check_targets steps = Inr u \<longleftrightarrow> (\<forall>s \<in> set steps. set (sd_depends_on s) \<subseteq> sd_id ` set steps)"
  unfolding check_targets_def sfold_unit_iff guard_Inr_iff by blast

lemma step_dependencies_closed:
  assumes "distinct (map sd_id steps)"
    and "\<forall>s \<in> set steps. set (sd_depends_on s) \<subseteq> sd_id ` set steps"
  shows "closed_deps (step_dependencies steps)"
  using assms by (auto simp: closed_deps_def step_dependencies_def comp_def image_image)

text \<open>The relation between the steps: a dependency and the step that needs it.\<close>

definition step_graph :: "step_definition list \<Rightarrow> (string \<times> string) set" where
  "step_graph steps = {(d, sd_id s) | d s. s \<in> set steps \<and> d \<in> set (sd_depends_on s)}"

lemma step_graph_Union:
  "step_graph steps = (\<Union>s \<in> set steps. (\<lambda>d. (d, sd_id s)) ` set (sd_depends_on s))"
  by (auto simp: step_graph_def)

lemma step_graph_dep_graph:
  assumes "distinct (map sd_id steps)"
  shows "dep_graph (step_dependencies steps) = step_graph steps"
proof -
  have "dget (step_dependencies steps) i = Some ds \<longleftrightarrow>
      (\<exists>s \<in> set steps. sd_id s = i \<and> sd_depends_on s = ds)" for i ds
    using assms by (subst dget_Some_in_set) (auto simp: step_dependencies_def comp_def)
  then show ?thesis by (auto simp: depends_def step_graph_def)
qed

lemma check_graph_Inr:
  assumes "distinct (map sd_id steps)"
  shows "check_graph steps = Inr u \<longleftrightarrow>
    edge_count steps \<le> MAX_EDGES
    \<and> (\<forall>s \<in> set steps. set (sd_depends_on s) \<subseteq> sd_id ` set steps)
    \<and> acyclic (step_graph steps)"
proof (cases "\<forall>s \<in> set steps. set (sd_depends_on s) \<subseteq> sd_id ` set steps")
  case True
  note c = step_dependencies_closed [OF assms True]
  have t: "check_targets steps = Inr ()" using True by (simp add: check_targets_Inr)
  have a: "(blocked (step_dependencies steps) = []) = acyclic (step_graph steps)"
    by (simp add: blocked_Nil_iff step_graph_dep_graph [OF assms])
  show ?thesis
    unfolding check_graph_def find_cycle_blocked [OF c] t
    by (cases "blocked (step_dependencies steps) = []") (use True a in \<open>auto simp: sbind_Inr_iff\<close>)
next
  case False
  then have "check_targets steps \<noteq> Inr v" for v using check_targets_Inr by blast
  then show ?thesis using False by (auto simp: check_graph_def)
qed

definition definition_ok :: "tool_registry \<Rightarrow> workflow_definition \<Rightarrow> bool" where
  "definition_ok reg w \<longleftrightarrow>
     0 < wd_version w \<and> \<not> is_blank (wd_definition_id w)
     \<and> length (wd_steps w) \<le> MAX_STEPS \<and> edge_count (wd_steps w) \<le> MAX_EDGES
     \<and> sorted (map sd_id (wd_steps w)) \<and> distinct (map sd_id (wd_steps w))
     \<and> (\<forall>s \<in> set (wd_steps w). step_ok (catalog_of reg) s \<and> is_frozen (sd_arguments s)
           \<and> set (sd_depends_on s) \<subseteq> sd_id ` set (wd_steps w))
     \<and> acyclic (step_graph (wd_steps w))
     \<and> calculate_digest (wd_definition_id w) (wd_version w) (wd_steps w) = Inr (wd_digest w)
     \<and> is_sha256_digest (wd_digest w)"

lemma edge_count_perm: "mset xs = mset ys \<Longrightarrow> edge_count xs = edge_count ys"
  by (metis edge_count_def mset_map sum_mset_sum_list)

lemma step_graph_set: "set xs = set ys \<Longrightarrow> step_graph xs = step_graph ys"
  by (simp add: step_graph_def)

lemma read_definition_Inr:
  "read_definition payload reg = Inr w \<longleftrightarrow>
    (\<exists>m raws ss. as_mapping payload = Some m \<and> pget m ''steps'' = PList raws
      \<and> length raws \<le> MAX_STEPS
      \<and> pget m ''definition_id'' = PStr (wd_definition_id w)
      \<and> \<not> is_blank (wd_definition_id w)
      \<and> pget m ''version'' = PInt (wd_version w) \<and> 0 < wd_version w
      \<and> smap (parse_step reg) raws = Inr ss \<and> distinct (map sd_id ss)
      \<and> check_graph ss = Inr () \<and> wd_steps w = sort_key sd_id ss
      \<and> calculate_digest (wd_definition_id w) (wd_version w) (wd_steps w) = Inr (wd_digest w))"
  (is "?l = ?r")
proof
  assume ?l
  then obtain m i v raws ss u d where m: "require_mapping payload ''workflow'' None = Inr m"
    and i: "require_string (pget m ''definition_id'') ''definition_id'' None = Inr i"
    and v: "require_positive_int (pget m ''version'') ''version'' None = Inr v"
    and r: "raw_steps_of m = Inr raws" and ss: "sfold (add_step reg) raws [] = Inr ss"
    and g: "check_graph ss = Inr u" and d: "calculate_digest i v (sort_key sd_id ss) = Inr d"
    and w: "Inr \<lparr>wd_definition_id = i, wd_version = v, wd_steps = sort_key sd_id ss,
              wd_digest = d\<rparr> = (Inr w :: error + workflow_definition)"
    unfolding read_definition_def Let_def by (elim sbind_InrE) blast
  note w = w [unfolded sum.inject(2), symmetric]
  from m have "as_mapping payload = Some m" by (simp add: require_mapping_def)
  moreover from r have "pget m ''steps'' = PList raws" and "length raws \<le> MAX_STEPS"
    by (auto simp: raw_steps_of_def split: pyval.splits if_splits)
  moreover from parse_loop_Inr [of "[]" reg raws ss] ss
  have "smap (parse_step reg) raws = Inr ss" and "distinct (map sd_id ss)" by auto
  ultimately show ?r
    using i v g d unfolding w require_string_Inr require_positive_int_Inr by force
next
  assume ?r
  then obtain m raws ss where m: "as_mapping payload = Some m"
    and r: "pget m ''steps'' = PList raws" "length raws \<le> MAX_STEPS"
    and i: "pget m ''definition_id'' = PStr (wd_definition_id w)" "\<not> is_blank (wd_definition_id w)"
    and v: "pget m ''version'' = PInt (wd_version w)" "0 < wd_version w"
    and ss: "smap (parse_step reg) raws = Inr ss" "distinct (map sd_id ss)"
    and g: "check_graph ss = Inr ()" and w: "wd_steps w = sort_key sd_id ss"
    and d: "calculate_digest (wd_definition_id w) (wd_version w) (wd_steps w) = Inr (wd_digest w)"
    by blast
  have "sfold (add_step reg) raws [] = Inr ss"
    using parse_loop_Inr [of "[]" reg raws ss] ss by simp
  moreover have "raw_steps_of m = Inr raws" using r by (simp add: raw_steps_of_def)
  moreover have "require_string (pget m ''definition_id'') ''definition_id'' None
      = Inr (wd_definition_id w)" using i by (simp add: require_string_Inr)
  moreover have "require_positive_int (pget m ''version'') ''version'' None = Inr (wd_version w)"
    using v by (simp add: require_positive_int_Inr)
  moreover have "require_mapping payload ''workflow'' None = Inr m"
    using m by (simp add: require_mapping_def)
  ultimately show ?l using g d w by (simp add: read_definition_def)
qed

lemmas from_mapping_Inr = read_definition_Inr [of _ "catalog_of reg" for reg, folded from_mapping_def]

lemma from_mapping_ok_aux:
  assumes "from_mapping payload reg = Inr w"
  shows "definition_ok reg w"
proof -
  from assms obtain raws ss where len: "length raws \<le> MAX_STEPS"
    and i: "\<not> is_blank (wd_definition_id w)" and v: "0 < wd_version w"
    and ss: "smap (parse_step (catalog_of reg)) raws = Inr ss" and dist: "distinct (map sd_id ss)"
    and g: "check_graph ss = Inr ()" and w: "wd_steps w = sort_key sd_id ss"
    and d: "calculate_digest (wd_definition_id w) (wd_version w) (wd_steps w) = Inr (wd_digest w)"
    unfolding from_mapping_Inr by blast
  have all2: "list_all2 (\<lambda>r s. parse_step (catalog_of reg) r = Inr s) raws ss" using ss by (simp add: smap_Inr_iff)
  then have l: "length ss = length raws" by (simp add: list_all2_lengthD)
  have ok: "step_ok (catalog_of reg) s" if "s \<in> set ss" for s
    using that all2 parse_step_ok by (auto simp: list_all2_conv_all_nth in_set_conv_nth)
  have frozen: "is_frozen (sd_arguments s)" if "s \<in> set ss" for s
    using that all2 parse_step_frozen by (auto simp: list_all2_conv_all_nth in_set_conv_nth)
  have m: "mset (wd_steps w) = mset ss" and st: "set (wd_steps w) = set ss" using w by simp_all
  have e: "edge_count ss \<le> MAX_EDGES" "acyclic (step_graph ss)"
    "\<forall>s \<in> set ss. set (sd_depends_on s) \<subseteq> sd_id ` set ss"
    using g by (simp_all add: check_graph_Inr [OF dist])
  have "distinct (map sd_id (wd_steps w))"
    using dist m by (metis mset_eq_imp_distinct_iff mset_map)
  moreover have "sorted (map sd_id (wd_steps w))" using w by simp
  moreover have "length (wd_steps w) \<le> MAX_STEPS" using l len w by simp
  moreover have "edge_count (wd_steps w) \<le> MAX_EDGES" using e edge_count_perm [OF m] by simp
  moreover have "acyclic (step_graph (wd_steps w))" using e step_graph_set [OF st] by simp
  moreover have "is_sha256_digest (wd_digest w)"
    using d unfolding calculate_digest_def by (rule json_digest_is_digest)
  ultimately show ?thesis using i v d ok frozen e(3) unfolding definition_ok_def st by blast
qed

lemma smap_mset:
  assumes "smap f xs = Inr ys" and "mset xs = mset xs'"
  obtains ys' where "smap f xs' = Inr ys'" and "mset ys' = mset ys"
proof
  let ?g = "\<lambda>x. projr (f x)"
  have m: "map f xs = map Inr ys" using assms(1) by (rule smap_map_Inr)
  then have "map projr (map f xs) = map projr (map Inr ys)" by simp
  then have ys: "ys = map ?g xs" by (simp add: comp_def)
  have "f x = Inr (?g x)" if "x \<in> set xs'" for x
  proof -
    have "x \<in> set xs" using that assms(2) by (metis mset_eq_setD)
    then have "f x \<in> Inr ` set ys" using m by (metis image_eqI set_map)
    then show ?thesis by auto
  qed
  then show "smap f xs' = Inr (map ?g xs')" by (rule smap_all_Inr)
  show "mset (map ?g xs') = mset ys" using assms(2) ys by simp
qed

lemma sort_key_mset_unique:
  assumes "mset xs = mset ys" and "distinct (map f xs)"
  shows "sort_key f xs = sort_key f ys"
proof (rule map_sorted_distinct_set_unique [of f])
  have s: "set ys = set xs" using assms(1) by (metis mset_eq_setD)
  have d: "distinct (map f ys)" using assms by (metis mset_eq_imp_distinct_iff mset_map)
  show "inj_on f (set (sort_key f xs) \<union> set (sort_key f ys))"
    using assms(2) s by (simp add: distinct_map)
  show "distinct (map f (sort_key f xs))" and "distinct (map f (sort_key f ys))"
    using assms(2) d by (metis mset_eq_imp_distinct_iff mset_map mset_sort)+
  show "set (sort_key f xs) = set (sort_key f ys)" using s by simp
qed simp_all

section \<open>How it fails\<close>

fun definition_failure :: "error \<Rightarrow> bool" where
  "definition_failure (DefinitionValidationError _ _ _) = True"
| "definition_failure OverflowError = True"
| "definition_failure (TypeError _) = True"
| "definition_failure _ = False"

lemma json_dumps_failure: "json_dumps True v = Inl e \<Longrightarrow> \<exists>m. e = TypeError m"
proof (induction "True" v arbitrary: e rule: json_dumps.induct)
  case (6 xs)
  then show ?case by (auto simp: sbind_Inl_iff dest!: smap_InlD)
next
  case (7 xs)
  then show ?case by (auto simp: sbind_Inl_iff dest!: smap_InlD)
next
  case (8 d)
  have key: "json_key k = Inl e \<Longrightarrow> \<exists>m. e = TypeError m" for k e by (cases k) auto
  from 8(2) obtain kv where kv: "kv \<in> set d" and
    e: "sbind (json_key (fst kv)) (\<lambda>k. sbind (json_dumps True (snd kv)) (\<lambda>v. Inr (k, v))) = Inl e"
    by (auto simp: sbind_Inl_iff dest!: smap_InlD)
  from e consider "json_key (fst kv) = Inl e"
    | k where "json_key (fst kv) = Inr k" and "json_dumps True (snd kv) = Inl e"
    by (auto simp: sbind_Inl_iff)
  then show ?case
  proof cases
    case 1
    then show ?thesis by (rule key)
  next
    case 2
    then show ?thesis by (rule 8(1) [OF kv])
  qed
qed auto

lemma require_failure:
  "require_mapping v f st = Inl e \<Longrightarrow> definition_failure e"
  "require_string v f st = Inl e \<Longrightarrow> definition_failure e"
  "require_positive_int v f st = Inl e \<Longrightarrow> definition_failure e"
  "require_number v f st = Inl e \<Longrightarrow> definition_failure e"
  by (auto simp: require_mapping_def require_string_def require_positive_int_def
      require_number_def Let_def split: pyval.splits if_splits)

lemma require_string_sequence_failure:
  "require_string_sequence v f st = Inl e \<Longrightarrow> definition_failure e"
  by (auto simp: require_string_sequence_def sbind_Inl_iff split: if_splits option.splits
      dest!: smap_InlD require_failure)

lemma parse_tool_reference_failure:
  "parse_tool_reference raw f st = Inl e \<Longrightarrow> definition_failure e"
  by (auto simp: parse_tool_reference_def sbind_Inl_iff dest: require_failure)

lemma ensure_registered_failure:
  "ensure_registered reg t st f = Inl e \<Longrightarrow> definition_failure e"
  by (auto simp: ensure_registered_def)

lemma parse_optional_failure:
  "parse_optional_tool_reference reg raw st = Inl e \<Longrightarrow> definition_failure e"
  by (auto simp: parse_optional_tool_reference_def sbind_Inl_iff split: if_splits
      dest: parse_tool_reference_failure ensure_registered_failure)

lemma relocate_failure: "definition_failure e \<Longrightarrow> definition_failure (relocate_retry_error st e)"
  by (cases e) auto

lemma parse_retry_policy_failure:
  "parse_retry_policy raw st = Inl e \<Longrightarrow> definition_failure e"
proof -
  have f: "to_float v = Inl e \<Longrightarrow> definition_failure e" for v e
    by (cases v) (auto simp: float_of_int_def Let_def split: if_splits prod.splits)
  have r: "make_retry_policy n b = Inl e \<Longrightarrow> definition_failure e" for n b e
    by (auto simp: make_retry_policy_def split: if_splits)
  assume "parse_retry_policy raw st = Inl e"
  then show ?thesis
    by (auto simp: parse_retry_policy_def sbind_Inl_iff map_error_Inl split: if_splits
        dest: require_failure intro!: relocate_failure dest: f r)
qed

lemma parse_step_body_failure:
  "parse_step_body reg i m = Inl e \<Longrightarrow> definition_failure e"
  unfolding parse_step_body_def sbind_Inl_iff map_error_Inl
  by (elim disjE exE conjE)
    (auto dest: require_failure require_string_sequence_failure parse_tool_reference_failure
      ensure_registered_failure parse_optional_failure parse_retry_policy_failure)

lemma add_step_failure: "add_step reg raw parsed = Inl e \<Longrightarrow> definition_failure e"
  by (auto simp: add_step_def parse_step_id_def sbind_Inl_iff dest: require_failure
      parse_step_body_failure)

lemma check_graph_failure:
  assumes "distinct (map sd_id steps)" and "check_graph steps = Inl e"
  shows "definition_failure e"
proof (cases "\<forall>s \<in> set steps. set (sd_depends_on s) \<subseteq> sd_id ` set steps")
  case True
  note c = step_dependencies_closed [OF assms(1) True]
  have "check_targets steps = Inr ()" using True by (simp add: check_targets_Inr)
  then show ?thesis
    using assms(2) unfolding check_graph_def find_cycle_blocked [OF c]
    by (auto simp: sbind_Inl_iff split: if_splits)
next
  case False
  then have "check_targets steps \<noteq> Inr ()" using check_targets_Inr by blast
  then obtain e' where e': "check_targets steps = Inl e'"
    by (cases "check_targets steps") auto
  then have "definition_failure e'"
    unfolding check_targets_def by (auto dest!: sfold_InlD)
  then show ?thesis using assms(2) e' by (auto simp: check_graph_def sbind_Inl_iff)
qed

lemma from_mapping_failure_aux:
  assumes "from_mapping payload reg = Inl e"
  shows "definition_failure e"
proof -
  have raw: "raw_steps_of m = Inl e \<Longrightarrow> definition_failure e" for m e
    by (auto simp: raw_steps_of_def split: pyval.splits if_splits)
  have loop: "sfold (add_step (catalog_of reg)) raws [] = Inl e \<Longrightarrow> definition_failure e" for raws e
    by (drule sfold_InlD) (auto dest: add_step_failure)
  have graph: "sfold (add_step (catalog_of reg)) raws [] = Inr ss \<Longrightarrow> check_graph ss = Inl e \<Longrightarrow>
      definition_failure e" for raws ss e
    using parse_loop_Inr [of "[]" "catalog_of reg" raws ss] by (auto intro: check_graph_failure)
  have json: "json_digest True v = Inl e \<Longrightarrow> definition_failure e" for v e
    by (auto simp: json_digest_def sbind_Inl_iff dest!: json_dumps_failure)
  have digest: "calculate_digest i v ss = Inl e \<Longrightarrow> definition_failure e" for i v ss e
    unfolding calculate_digest_def by (rule json)
  from assms show ?thesis
    unfolding from_mapping_def read_definition_def Let_def sbind_Inl_iff
    by (elim disjE exE conjE) (auto dest: require_failure raw loop graph digest)
qed

section \<open>The properties\<close>

text \<open>A registry with one tool, whose Pydantic model has a field \<open>x\<close> of any value.\<close>

definition sample_model :: model_type where
  "sample_model =
     \<lparr>mt_name = ''Input'', mt_fields = [''x''], mt_strict = True, mt_frozen = True,
      mt_forbid = True,
      mt_validate = (\<lambda>d. case dget d (KStr ''x'') of
                            None \<Rightarrow> Inl ''Field required'' | Some v \<Rightarrow> Inr [(''x'', v)])\<rparr>"

definition sample_descriptor :: tool_descriptor where
  "sample_descriptor =
     \<lparr>td_name = ''t'', td_version = ''1'', td_input_model = sample_model,
      td_output_model = sample_model, td_risk = RiskLow, td_idempotency = IdemSupported,
      td_default_timeout_seconds = 10, td_max_timeout_seconds = 20,
      td_sensitive_argument_paths = []\<rparr>"

definition sample_registry :: tool_registry where
  "sample_registry = [((''t'', ''1''), \<lparr>tl_descriptor = sample_descriptor\<rparr>)]"

definition sample_tool :: pyval where
  "sample_tool = PDict [(KStr ''name'', PStr ''t''), (KStr ''version'', PStr ''1'')]"

definition sample_raw_step :: "string \<Rightarrow> string list \<Rightarrow> pyval" where
  "sample_raw_step i ds =
     PDict [(KStr ''id'', PStr i), (KStr ''tool'', sample_tool),
            (KStr ''arguments'', PDict [(KStr ''x'', PList [PInt 1])]),
            (KStr ''depends_on'', PList (map PStr ds))]"

definition sample_payload :: "pyval list \<Rightarrow> pyval" where
  "sample_payload steps =
     PDict [(KStr ''definition_id'', PStr ''d''), (KStr ''version'', PInt 1),
            (KStr ''steps'', PList steps)]"

definition sample_step :: "string \<Rightarrow> string list \<Rightarrow> step_definition" where
  "sample_step i ds =
     \<lparr>sd_id = i, sd_tool = \<lparr>ref_name = ''t'', ref_version = ''1''\<rparr>,
      sd_arguments = PProxy [(KStr ''x'', PTuple [PInt 1])], sd_depends_on = ds,
      sd_risk = ''low'', sd_retry = default_retry, sd_compensation_tool = None\<rparr>"

lemma sample_parse:
  assumes "\<not> is_blank i" and "smap (\<lambda>x. require_string x ''depends_on'' (Some i)) (map PStr ds) = Inr ds"
  shows "parse_step (catalog_of sample_registry) (sample_raw_step i ds) = Inr (sample_step i (sort (remdups ds)))"
  using assms
  by (simp add: parse_step_def parse_step_id_def parse_step_body_def sample_raw_step_def
      require_mapping_def pget_def pget_or_def require_string_def parse_tool_reference_def
      sample_tool_def is_blank_def py_space_def code_def ensure_registered_def sample_registry_def
      reg_contains_def coerce_step_arguments_def coerce_arguments_def descriptor_for_def
      reg_resolve_def sample_descriptor_def reject_unexpected_fields_def unexpected_fields_def
      sample_model_def validate_model_def require_string_sequence_def DEFAULT_RISK_def
      parse_retry_policy_def parse_optional_tool_reference_def sample_step_def map_error_def)

lemma sample_from_mapping:
  assumes "raws = [sample_raw_step ''b'' [''a''], sample_raw_step ''a'' []]
    \<or> raws = [sample_raw_step ''a'' [], sample_raw_step ''b'' [''a'']]"
  obtains d where "from_mapping (sample_payload raws) sample_registry
    = Inr \<lparr>wd_definition_id = ''d'', wd_version = 1,
           wd_steps = [sample_step ''a'' [], sample_step ''b'' [''a'']], wd_digest = d\<rparr>"
proof -
  let ?a = "sample_step ''a'' []" and ?b = "sample_step ''b'' [''a'']"
  have p: "parse_step (catalog_of sample_registry) (sample_raw_step ''a'' []) = Inr ?a"
    "parse_step (catalog_of sample_registry) (sample_raw_step ''b'' [''a'']) = Inr ?b"
    using sample_parse [of "''a''" "[]"] sample_parse [of "''b''" "[''a'']"]
    by (simp_all add: is_blank_def py_space_def code_def require_string_def)
  obtain ss where ss: "smap (parse_step (catalog_of sample_registry)) raws = Inr ss"
    and s: "ss = [?a, ?b] \<or> ss = [?b, ?a]"
    using assms p by auto
  have "\<exists>t. json_dumps True (step_to_canonical ?a) = Inr t"
    and "\<exists>t. json_dumps True (step_to_canonical ?b) = Inr t"
    by (simp_all add: step_to_canonical_def sample_step_def reference_value_def default_retry_def
        del: float_text.simps)
  then obtain ta tb where "json_dumps True (step_to_canonical ?a) = Inr ta"
    and "json_dumps True (step_to_canonical ?b) = Inr tb" by blast
  then have "\<exists>d. calculate_digest ''d'' 1 [?a, ?b] = Inr d"
    by (simp add: calculate_digest_def json_digest_def)
  then obtain d where d: "calculate_digest ''d'' 1 [?a, ?b] = Inr d" ..
  have i: "sd_id ?a = ''a''" "sd_id ?b = ''b''" "sd_depends_on ?a = []" "sd_depends_on ?b = [''a'']"
    by (simp_all add: sample_step_def)
  have g: "step_graph ss = {(''a'', ''b'')}"
    using s i by (auto simp: step_graph_Union)
  have "acyclic {(''a'', ''b'')}"
    by (rule acyclicI) (auto simp: trancl_insert)
  moreover from s have dist: "distinct (map sd_id ss)" by (elim disjE) (simp_all add: i)
  moreover from s have "edge_count ss \<le> MAX_EDGES"
    by (elim disjE) (simp_all add: i edge_count_def MAX_EDGES_def)
  moreover from s have "\<forall>x \<in> set ss. set (sd_depends_on x) \<subseteq> sd_id ` set ss"
    by (elim disjE) (simp_all add: i)
  ultimately have "check_graph ss = Inr ()" unfolding check_graph_Inr [OF dist] g by simp
  moreover note dist
  moreover from s have "[?a, ?b] = sort_key sd_id ss" by (elim disjE) (simp_all add: i)
  moreover obtain m where "as_mapping (sample_payload raws) = Some m"
    and "pget m ''steps'' = PList raws" and "pget m ''definition_id'' = PStr ''d''"
    and "pget m ''version'' = PInt 1"
    by (simp add: sample_payload_def pget_def)
  moreover have "\<not> is_blank ''d''" by (simp add: is_blank_def py_space_def code_def)
  moreover have "length raws \<le> MAX_STEPS" using assms by (auto simp: MAX_STEPS_def)
  ultimately have "from_mapping (sample_payload raws) sample_registry
    = Inr \<lparr>wd_definition_id = ''d'', wd_version = 1, wd_steps = [?a, ?b], wd_digest = d\<rparr>"
    unfolding from_mapping_Inr workflow_definition.select_convs
    using ss d zero_less_one by blast
  then show ?thesis by (rule that)
qed



text \<open>
  The order in which the payload lists its steps does not matter: a permutation of the
  accepted steps gives the same definition, with the same digest.
\<close>

theorem from_mapping_step_order:
  assumes "as_mapping payload = Some m" and "pget m ''steps'' = PList raws"
    and "from_mapping payload reg = Inr w" and "mset raws = mset raws'"
  shows "from_mapping (PDict (dset (KStr ''steps'') (PList raws') m)) reg = Inr w"
proof -
  from assms(1-3) obtain ss where len: "length raws \<le> MAX_STEPS"
    and i: "pget m ''definition_id'' = PStr (wd_definition_id w)" "\<not> is_blank (wd_definition_id w)"
    and v: "pget m ''version'' = PInt (wd_version w)" "0 < wd_version w"
    and ss: "smap (parse_step (catalog_of reg)) raws = Inr ss" and dist: "distinct (map sd_id ss)"
    and g: "check_graph ss = Inr ()" and w: "wd_steps w = sort_key sd_id ss"
    and d: "calculate_digest (wd_definition_id w) (wd_version w) (wd_steps w) = Inr (wd_digest w)"
    unfolding from_mapping_Inr by auto
  from smap_mset [OF ss assms(4)] obtain ss' where
    ss': "smap (parse_step (catalog_of reg)) raws' = Inr ss'" and m: "mset ss' = mset ss" .
  have set: "set ss' = set ss" using m by (metis mset_eq_setD)
  have dist': "distinct (map sd_id ss')" using dist m by (metis mset_eq_imp_distinct_iff mset_map)
  have "check_graph ss' = Inr ()"
    using g edge_count_perm [OF m] step_graph_set [OF set]
    unfolding check_graph_Inr [OF dist] check_graph_Inr [OF dist'] set by simp
  moreover have "sort_key sd_id ss' = sort_key sd_id ss"
    using m dist' by (rule sort_key_mset_unique)
  moreover have "length raws' \<le> MAX_STEPS" using assms(4) len by (metis size_mset)
  moreover have "pget (dset (KStr ''steps'') (PList raws') m) k
      = (if k = ''steps'' then PList raws' else pget m k)" for k
    by (simp add: pget_def)
  ultimately show ?thesis
    using i v ss' dist' w d unfolding from_mapping_Inr by auto
qed

theorem from_mapping_step_order_witness:
  "\<exists>w. from_mapping (sample_payload [sample_raw_step ''b'' [''a''], sample_raw_step ''a'' []])
         sample_registry = Inr w
     \<and> from_mapping (sample_payload [sample_raw_step ''a'' [], sample_raw_step ''b'' [''a'']])
         sample_registry = Inr w"
proof -
  let ?a = "sample_raw_step ''a'' []" and ?b = "sample_raw_step ''b'' [''a'']"
  obtain d where w: "from_mapping (sample_payload [?b, ?a]) sample_registry
      = Inr \<lparr>wd_definition_id = ''d'', wd_version = 1,
             wd_steps = [sample_step ''a'' [], sample_step ''b'' [''a'']], wd_digest = d\<rparr>"
    by (rule sample_from_mapping [OF disjI1 [OF refl]])
  have m: "as_mapping (sample_payload [?b, ?a])
      = Some [(KStr ''definition_id'', PStr ''d''), (KStr ''version'', PInt 1),
              (KStr ''steps'', PList [?b, ?a])]"
    by (simp add: sample_payload_def)
  have p: "mset [?b, ?a] = mset [?a, ?b]" by simp
  from from_mapping_step_order [OF m _ w p] w show ?thesis
    by (simp add: sample_payload_def pget_def)
qed

text \<open>
  when \<open>from_mapping\<close> refuses a payload it raises a \<open>DefinitionValidationError\<close>, an
  \<open>OverflowError\<close> (an integer backoff beyond the floats) or a \<open>TypeError\<close> (an argument without a
  JSON form): the graph check never stumbles over a missing key or an empty cycle.
\<close>

theorem from_mapping_failure:
  assumes "from_mapping payload reg = Inl e"
  shows "definition_failure e"
  using assms by (rule from_mapping_failure_aux)

theorem from_mapping_failure_witness:
  "\<exists>e. from_mapping (sample_payload [sample_raw_step ''a'' [''a'']]) sample_registry = Inl e
       \<and> definition_failure e"
proof -
  let ?p = "sample_payload [sample_raw_step ''a'' [''a'']]"
  let ?a = "sample_step ''a'' [''a'']"
  have "parse_step (catalog_of sample_registry) (sample_raw_step ''a'' [''a'']) = Inr ?a"
    using sample_parse [of "''a''" "[''a'']"]
    by (simp add: is_blank_def py_space_def code_def require_string_def)
  moreover have "\<not> acyclic (step_graph [?a])"
    by (auto simp: acyclic_def step_graph_Union sample_step_def)
  then have "check_graph [?a] \<noteq> Inr ()" by (subst check_graph_Inr) auto
  ultimately have "from_mapping ?p sample_registry \<noteq> Inr w" for w
    by (subst from_mapping_Inr) (auto simp: sample_payload_def pget_def)
  then obtain e where e: "from_mapping ?p sample_registry = Inl e"
    by (cases "from_mapping ?p sample_registry") auto
  with from_mapping_failure [OF e] show ?thesis by blast
qed

end
