(* ===== verification/Runs.thy ===== *)
theory Runs
  imports Values
begin

text \<open>
  \<open>workflow/domain/states.py\<close>, \<open>runs.py\<close>, \<open>events.py\<close> and \<open>failures.py\<close>: the states of runs
  and steps, the two transition tables, the transitions of the aggregates and the audit events
  they emit.
\<close>

section \<open>States\<close>

datatype run_state =
    RunPending | RunRunning | RunWaitingApproval | RunSucceeded | RunFailed
  | RunCompensating | RunCompensated | RunCancelled | RunManualIntervention

datatype step_state =
    StepPending | StepReady | StepRunning | StepRetryWait | StepSucceeded | StepFailed
  | StepResultUnknown | StepManualIntervention

fun run_state_value :: "run_state \<Rightarrow> string" where
  "run_state_value RunPending = ''pending''"
| "run_state_value RunRunning = ''running''"
| "run_state_value RunWaitingApproval = ''waiting_approval''"
| "run_state_value RunSucceeded = ''succeeded''"
| "run_state_value RunFailed = ''failed''"
| "run_state_value RunCompensating = ''compensating''"
| "run_state_value RunCompensated = ''compensated''"
| "run_state_value RunCancelled = ''cancelled''"
| "run_state_value RunManualIntervention = ''manual_intervention''"

fun step_state_value :: "step_state \<Rightarrow> string" where
  "step_state_value StepPending = ''pending''"
| "step_state_value StepReady = ''ready''"
| "step_state_value StepRunning = ''running''"
| "step_state_value StepRetryWait = ''retry_wait''"
| "step_state_value StepSucceeded = ''succeeded''"
| "step_state_value StepFailed = ''failed''"
| "step_state_value StepResultUnknown = ''result_unknown''"
| "step_state_value StepManualIntervention = ''manual_intervention''"

lemma run_state_value_inject [simp]: "run_state_value s = run_state_value t \<longleftrightarrow> s = t"
  by (cases s; cases t) simp_all

lemma step_state_value_inject [simp]: "step_state_value s = step_state_value t \<longleftrightarrow> s = t"
  by (cases s; cases t) simp_all

text \<open>The transition tables; a state without an entry has no transition.\<close>

fun RUN_TRANSITIONS :: "run_state \<Rightarrow> run_state list" where
  "RUN_TRANSITIONS RunPending = [RunRunning, RunWaitingApproval, RunCancelled]"
| "RUN_TRANSITIONS RunRunning =
     [RunCancelled, RunWaitingApproval, RunSucceeded, RunFailed, RunCompensating,
      RunManualIntervention]"
| "RUN_TRANSITIONS RunWaitingApproval =
     [RunRunning, RunCancelled, RunCompensating, RunManualIntervention]"
| "RUN_TRANSITIONS RunCompensating = [RunCompensated, RunManualIntervention]"
| "RUN_TRANSITIONS _ = []"

fun STEP_TRANSITIONS :: "step_state \<Rightarrow> step_state list" where
  "STEP_TRANSITIONS StepPending = [StepReady]"
| "STEP_TRANSITIONS StepReady = [StepRunning]"
| "STEP_TRANSITIONS StepRunning =
     [StepReady, StepRetryWait, StepSucceeded, StepFailed, StepResultUnknown,
      StepManualIntervention]"
| "STEP_TRANSITIONS StepRetryWait = [StepReady]"
| "STEP_TRANSITIONS StepResultUnknown = [StepReady, StepSucceeded, StepManualIntervention]"
| "STEP_TRANSITIONS _ = []"

definition run_terminal :: "run_state \<Rightarrow> bool" where
  "run_terminal s = (RUN_TRANSITIONS s = [])"

definition step_terminal :: "step_state \<Rightarrow> bool" where
  "step_terminal s = (STEP_TRANSITIONS s = [])"

section \<open>Audit events\<close>

record audit_event =
  ev_run_id :: string
  ev_step_id :: "string option"
  ev_event_type :: string
  ev_occurred_at :: int
  ev_previous_state :: string
  ev_new_state :: string
  ev_previous_revision :: int
  ev_revision :: int
  ev_attempt_id :: "string option"
  ev_attempt_no :: "int option"
  ev_phase :: "string option"
  ev_error_class :: "string option"
  ev_summary :: pyval

definition blank_event ::
  "string \<Rightarrow> string option \<Rightarrow> string \<Rightarrow> int \<Rightarrow> string \<Rightarrow> string \<Rightarrow> int \<Rightarrow> int \<Rightarrow> audit_event" where
  "blank_event run_id step_id event_type occurred_at previous_state new_state
     previous_revision revision =
     \<lparr>ev_run_id = run_id, ev_step_id = step_id, ev_event_type = event_type,
      ev_occurred_at = occurred_at, ev_previous_state = previous_state,
      ev_new_state = new_state, ev_previous_revision = previous_revision,
      ev_revision = revision, ev_attempt_id = None, ev_attempt_no = None, ev_phase = None,
      ev_error_class = None, ev_summary = PNone\<rparr>"

definition run_state_changed ::
  "string \<Rightarrow> string \<Rightarrow> string \<Rightarrow> int \<Rightarrow> int \<Rightarrow> int \<Rightarrow> audit_event" where
  "run_state_changed run_id previous_state new_state occurred_at previous_revision revision =
     blank_event run_id None ''run.state_changed'' occurred_at previous_state new_state
       previous_revision revision"

definition step_state_changed ::
  "string \<Rightarrow> string \<Rightarrow> string \<Rightarrow> string \<Rightarrow> int \<Rightarrow> int \<Rightarrow> int \<Rightarrow> audit_event" where
  "step_state_changed run_id step_id previous_state new_state occurred_at previous_revision
     revision =
     blank_event run_id (Some step_id) ''step.state_changed'' occurred_at previous_state
       new_state previous_revision revision"

definition tool_attempt_started ::
  "string \<Rightarrow> string \<Rightarrow> string \<Rightarrow> int \<Rightarrow> string \<Rightarrow> int \<Rightarrow> string \<Rightarrow> int \<Rightarrow> audit_event" where
  "tool_attempt_started run_id step_id attempt_id attempt_no phase occurred_at state revision =
     (blank_event run_id (Some step_id) ''tool_attempt_started'' occurred_at state state
        revision revision)
     \<lparr>ev_attempt_id := Some attempt_id, ev_attempt_no := Some attempt_no,
      ev_phase := Some phase,
      ev_summary := PDict [(KStr ''status'', PStr ''running'')]\<rparr>"

definition tool_attempt_completed ::
  "string \<Rightarrow> string \<Rightarrow> string \<Rightarrow> int \<Rightarrow> string \<Rightarrow> int \<Rightarrow> string \<Rightarrow> int \<Rightarrow> string option \<Rightarrow>
   pyval \<Rightarrow> audit_event" where
  "tool_attempt_completed run_id step_id attempt_id attempt_no phase occurred_at state revision
     error_class summary =
     (blank_event run_id (Some step_id) ''tool_attempt_completed'' occurred_at state state
        revision revision)
     \<lparr>ev_attempt_id := Some attempt_id, ev_attempt_no := Some attempt_no,
      ev_phase := Some phase, ev_error_class := error_class, ev_summary := summary\<rparr>"

definition optional_entry :: "string \<Rightarrow> pyval option \<Rightarrow> (pykey \<times> pyval) list" where
  "optional_entry k v = (case v of None \<Rightarrow> [] | Some x \<Rightarrow> [(KStr k, x)])"

definition approval_changed ::
  "string \<Rightarrow> string \<Rightarrow> string \<Rightarrow> int \<Rightarrow> string \<Rightarrow> string \<Rightarrow> int \<Rightarrow> int \<Rightarrow> string \<Rightarrow> string \<Rightarrow> string \<Rightarrow>
   pyval option \<Rightarrow> pyval option \<Rightarrow> pyval option \<Rightarrow> audit_event" where
  "approval_changed run_id step_id event_type occurred_at previous_state new_state
     previous_revision revision request_id binding_digest status actor reason
     redacted_arguments =
     (blank_event run_id (Some step_id) event_type occurred_at previous_state new_state
        previous_revision revision)
     \<lparr>ev_summary :=
        PDict ([(KStr ''request_id'', PStr request_id),
                (KStr ''binding_digest'', PStr binding_digest),
                (KStr ''status'', PStr status)]
               @ optional_entry ''actor'' actor @ optional_entry ''reason'' reason
               @ optional_entry ''arguments'' redacted_arguments)\<rparr>"

section \<open>Runs and steps\<close>

record workflow_run =
  wr_run_id :: string
  wr_definition_id :: string
  wr_definition_version :: int
  wr_definition_digest :: string
  wr_state :: run_state
  wr_revision :: int
  wr_original_error :: "(string, string) dict option"
  wr_compensation_error :: "(string, string) dict option"

record step_run =
  sr_run_id :: string
  sr_step_id :: string
  sr_state :: step_state
  sr_revision :: int
  sr_completion_sequence :: "int option"
  sr_logical_idempotency_key :: "string option"

definition new_run :: "string \<Rightarrow> string \<Rightarrow> int \<Rightarrow> string \<Rightarrow> workflow_run" where
  "new_run run_id definition_id version digest =
     \<lparr>wr_run_id = run_id, wr_definition_id = definition_id, wr_definition_version = version,
      wr_definition_digest = digest, wr_state = RunPending, wr_revision = 0,
      wr_original_error = None, wr_compensation_error = None\<rparr>"

definition new_step :: "string \<Rightarrow> string \<Rightarrow> step_run" where
  "new_step run_id step_id =
     \<lparr>sr_run_id = run_id, sr_step_id = step_id, sr_state = StepPending, sr_revision = 0,
      sr_completion_sequence = None, sr_logical_idempotency_key = None\<rparr>"

definition run_transition ::
  "workflow_run \<Rightarrow> run_state \<Rightarrow> int \<Rightarrow> error + workflow_run \<times> audit_event" where
  "run_transition run target occurred_at =
     (if target \<notin> set (RUN_TRANSITIONS (wr_state run))
      then Inl (InvalidTransition ''run'' (run_state_value (wr_state run)) (run_state_value target))
      else Inr (run\<lparr>wr_state := target, wr_revision := wr_revision run + 1\<rparr>,
                run_state_changed (wr_run_id run) (run_state_value (wr_state run))
                  (run_state_value target) occurred_at (wr_revision run) (wr_revision run + 1)))"

definition step_transition ::
  "step_run \<Rightarrow> step_state \<Rightarrow> int \<Rightarrow> error + step_run \<times> audit_event" where
  "step_transition step target occurred_at =
     (if target \<notin> set (STEP_TRANSITIONS (sr_state step))
      then Inl (InvalidTransition ''step'' (step_state_value (sr_state step)) (step_state_value target))
      else Inr (step\<lparr>sr_state := target, sr_revision := sr_revision step + 1\<rparr>,
                step_state_changed (sr_run_id step) (sr_step_id step)
                  (step_state_value (sr_state step)) (step_state_value target) occurred_at
                  (sr_revision step) (sr_revision step + 1)))"

lemma run_transition_Inr:
  "run_transition run target t = Inr (run', e) \<longleftrightarrow>
     target \<in> set (RUN_TRANSITIONS (wr_state run))
     \<and> run' = run\<lparr>wr_state := target, wr_revision := wr_revision run + 1\<rparr>
     \<and> e = run_state_changed (wr_run_id run) (run_state_value (wr_state run))
             (run_state_value target) t (wr_revision run) (wr_revision run + 1)"
  by (auto simp: run_transition_def)

lemma step_transition_Inr:
  "step_transition step target t = Inr (step', e) \<longleftrightarrow>
     target \<in> set (STEP_TRANSITIONS (sr_state step))
     \<and> step' = step\<lparr>sr_state := target, sr_revision := sr_revision step + 1\<rparr>
     \<and> e = step_state_changed (sr_run_id step) (sr_step_id step)
             (step_state_value (sr_state step)) (step_state_value target) t
             (sr_revision step) (sr_revision step + 1)"
  by (auto simp: step_transition_def)

section \<open>The life of a run and of a step\<close>

text \<open>
  What a log of \<open>run.state_changed\<close> events says: each one starts in the state and revision that
  the one before it left, goes along an edge of the table and adds one to the revision.
\<close>

definition is_run_event :: "audit_event \<Rightarrow> bool" where
  "is_run_event e \<longleftrightarrow> ev_event_type e = ''run.state_changed''"

definition is_step_event :: "audit_event \<Rightarrow> bool" where
  "is_step_event e \<longleftrightarrow> ev_event_type e = ''step.state_changed''"

definition run_edge :: "audit_event \<Rightarrow> run_state \<times> int \<Rightarrow> run_state \<times> int \<Rightarrow> bool" where
  "run_edge e p q \<longleftrightarrow> is_run_event e
     \<and> ev_previous_state e = run_state_value (fst p) \<and> ev_new_state e = run_state_value (fst q)
     \<and> fst q \<in> set (RUN_TRANSITIONS (fst p))
     \<and> ev_previous_revision e = snd p \<and> ev_revision e = snd q \<and> snd q = snd p + 1"

inductive run_trace :: "run_state \<times> int \<Rightarrow> audit_event list \<Rightarrow> run_state \<times> int \<Rightarrow> bool" where
  run_trace_Nil: "run_trace p [] p"
| run_trace_snoc: "run_trace p es q \<Longrightarrow> run_edge e q r \<Longrightarrow> run_trace p (es @ [e]) r"

definition step_edge :: "audit_event \<Rightarrow> step_state \<times> int \<Rightarrow> step_state \<times> int \<Rightarrow> bool" where
  "step_edge e p q \<longleftrightarrow> is_step_event e
     \<and> ev_previous_state e = step_state_value (fst p) \<and> ev_new_state e = step_state_value (fst q)
     \<and> fst q \<in> set (STEP_TRANSITIONS (fst p))
     \<and> ev_previous_revision e = snd p \<and> ev_revision e = snd q \<and> snd q = snd p + 1"

inductive step_trace :: "step_state \<times> int \<Rightarrow> audit_event list \<Rightarrow> step_state \<times> int \<Rightarrow> bool" where
  step_trace_Nil: "step_trace p [] p"
| step_trace_snoc: "step_trace p es q \<Longrightarrow> step_edge e q r \<Longrightarrow> step_trace p (es @ [e]) r"

inductive_cases run_trace_NilE: "run_trace p [] q"
inductive_cases run_trace_snocE: "run_trace p (es @ [e]) r"
inductive_cases step_trace_NilE: "step_trace p [] q"
inductive_cases step_trace_snocE: "step_trace p (es @ [e]) r"

lemma run_trace_snoc_iff:
  "run_trace p (es @ [e]) r \<longleftrightarrow> (\<exists>q. run_trace p es q \<and> run_edge e q r)"
  by (blast elim: run_trace_snocE intro: run_trace_snoc)

lemma run_trace_Nil_iff [simp]: "run_trace p [] q \<longleftrightarrow> p = q"
  by (auto elim: run_trace_NilE intro: run_trace_Nil)

lemma step_trace_snoc_iff:
  "step_trace p (es @ [e]) r \<longleftrightarrow> (\<exists>q. step_trace p es q \<and> step_edge e q r)"
  by (blast elim: step_trace_snocE intro: step_trace_snoc)

lemma step_trace_Nil_iff [simp]: "step_trace p [] q \<longleftrightarrow> p = q"
  by (auto elim: step_trace_NilE intro: step_trace_Nil)

lemma run_edge_target: "run_edge e p q \<Longrightarrow> run_edge e p q' \<Longrightarrow> q = q'"
  unfolding run_edge_def by (metis prod_eqI run_state_value_inject)

lemma run_trace_revision: "run_trace p es q \<Longrightarrow> snd q = snd p + int (length es)"
  by (induction rule: run_trace.induct) (simp_all add: run_edge_def)

lemma step_trace_revision: "step_trace p es q \<Longrightarrow> snd q = snd p + int (length es)"
  by (induction rule: step_trace.induct) (simp_all add: step_edge_def)

lemma run_trace_deterministic:
  "run_trace p es q \<Longrightarrow> run_trace p es q' \<Longrightarrow> q = q'"
proof (induction es arbitrary: q q' rule: rev_induct)
  case (snoc e es)
  then show ?case by (metis run_edge_target run_trace_snoc_iff)
qed simp

lemma run_transition_edge:
  assumes "run_transition run target t = Inr (run', e)"
  shows "run_edge e (wr_state run, wr_revision run) (wr_state run', wr_revision run')"
  using assms
  by (auto simp: run_transition_Inr run_edge_def is_run_event_def run_state_changed_def
      blank_event_def)

lemma step_transition_edge:
  assumes "step_transition step target t = Inr (step', e)"
  shows "step_edge e (sr_state step, sr_revision step) (sr_state step', sr_revision step')"
  using assms
  by (auto simp: step_transition_Inr step_edge_def is_step_event_def step_state_changed_def
      blank_event_def)

lemma run_terminal_iff:
  "run_terminal s \<longleftrightarrow> s \<in> {RunSucceeded, RunFailed, RunCompensated, RunCancelled, RunManualIntervention}"
  by (cases s) (simp_all add: run_terminal_def)

lemma step_terminal_iff: "step_terminal s \<longleftrightarrow> s \<in> {StepSucceeded, StepFailed, StepManualIntervention}"
  by (cases s) (simp_all add: step_terminal_def)

end
