(* ===== verification/Approvals.thy ===== *)
theory Approvals
  imports Digest Runs
begin

text \<open>
  \<open>workflow/application/approvals.py\<close>, the part without a store: the canonical JSON form of the
  redacted arguments, the digest that binds a decision to what was shown, and the approval
  request with the checks of its constructor. The service that decides requests is in the
  theory \<open>Approval_Service\<close>.
\<close>

section \<open>Canonical values and the binding digest\<close>

text \<open>
  The values of the model are trees, so the test for a value that contains itself never fires.
\<close>

definition not_canonical :: error where
  "not_canonical = ValueError ''approval binding must contain canonical JSON values''"

fun canonical_key :: "pykey \<Rightarrow> error + pykey" where
  "canonical_key (KStr k) = Inr (KStr k)"
| "canonical_key (KOther _) =
     Inl (ValueError ''approval binding must contain canonical JSON string keys'')"

fun canonical_json_value :: "pyval \<Rightarrow> error + pyval" where
  "canonical_json_value (PSecret _ _) = Inr (PStr ''[REDACTED]'')"
| "canonical_json_value PUnavailable = Inr (PStr ''[REDACTED]'')"
| "canonical_json_value PNone = Inr PNone"
| "canonical_json_value (PStr s) = Inr (PStr s)"
| "canonical_json_value (PBool b) = Inr (PBool b)"
| "canonical_json_value (PInt i) = Inr (PInt i)"
| "canonical_json_value (PFloat f) = (if is_finite f then Inr (PFloat f) else Inl not_canonical)"
| "canonical_json_value (PDict d) =
     sbind (smap (\<lambda>kv. sbind (canonical_key (fst kv)) (\<lambda>k.
                       sbind (canonical_json_value (snd kv)) (\<lambda>v. Inr (k, v)))) d)
       (\<lambda>d'. Inr (PDict d'))"
| "canonical_json_value (PProxy d) =
     sbind (smap (\<lambda>kv. sbind (canonical_key (fst kv)) (\<lambda>k.
                       sbind (canonical_json_value (snd kv)) (\<lambda>v. Inr (k, v)))) d)
       (\<lambda>d'. Inr (PDict d'))"
| "canonical_json_value (PList xs) =
     sbind (smap canonical_json_value xs) (\<lambda>ys. Inr (PList ys))"
| "canonical_json_value (PTuple xs) =
     sbind (smap canonical_json_value xs) (\<lambda>ys. Inr (PList ys))"
| "canonical_json_value _ = Inl not_canonical"

definition approval_binding_digest ::
  "string \<Rightarrow> string \<Rightarrow> string \<Rightarrow> string \<Rightarrow> pyval \<Rightarrow> error + string" where
  "approval_binding_digest plan_digest step_id tool_name tool_version redacted_arguments =
     sbind (canonical_json_value redacted_arguments) (\<lambda>arguments.
     json_digest False
       (PDict [(KStr ''plan_digest'', PStr plan_digest),
               (KStr ''step_id'', PStr step_id),
               (KStr ''tool'', PList [PStr tool_name, PStr tool_version]),
               (KStr ''arguments'', arguments)]))"

definition text_digest :: "string \<Rightarrow> string \<Rightarrow> string" where
  "text_digest domain value = sha256_hexdigest (utf8 (domain @ [CHR 0x00] @ value))"

section \<open>Approval requests\<close>

datatype approval_status = AprPending | AprApproved | AprRejected | AprInvalidated

fun approval_status_value :: "approval_status \<Rightarrow> string" where
  "approval_status_value AprPending = ''pending''"
| "approval_status_value AprApproved = ''approved''"
| "approval_status_value AprRejected = ''rejected''"
| "approval_status_value AprInvalidated = ''invalidated''"

datatype approval_decision = DecApproved | DecRejected

fun decision_value :: "approval_decision \<Rightarrow> string" where
  "decision_value DecApproved = ''approved''"
| "decision_value DecRejected = ''rejected''"

fun parse_decision :: "string \<Rightarrow> approval_decision option" where
  "parse_decision s =
     (if s = ''approved'' then Some DecApproved
      else if s = ''rejected'' then Some DecRejected else None)"

fun status_of_decision :: "approval_decision \<Rightarrow> approval_status" where
  "status_of_decision DecApproved = AprApproved"
| "status_of_decision DecRejected = AprRejected"

lemma decision_value_status [simp]:
  "decision_value d = approval_status_value s \<longleftrightarrow> s = status_of_decision d"
  by (cases d; cases s) simp_all

record actor_digest =
  ad_algorithm :: string
  ad_digest :: string

record reason_digest =
  rd_provided :: bool
  rd_algorithm :: "string option"
  rd_digest :: "string option"

definition make_actor_digest :: "string \<Rightarrow> string \<Rightarrow> error + actor_digest" where
  "make_actor_digest algorithm digest =
     sbind (guard (algorithm = ''sha256'' \<and> is_sha256_digest digest)
              (ValueError ''invalid approval actor digest''))
       (\<lambda>_. Inr \<lparr>ad_algorithm = algorithm, ad_digest = digest\<rparr>)"

definition make_reason_digest ::
  "bool \<Rightarrow> string option \<Rightarrow> string option \<Rightarrow> error + reason_digest" where
  "make_reason_digest provided algorithm digest =
     sbind (guard
              (if provided
               then algorithm = Some ''sha256''
                    \<and> (case digest of None \<Rightarrow> False | Some d \<Rightarrow> is_sha256_digest d)
               else algorithm = None \<and> digest = None)
              (ValueError ''invalid approval reason digest''))
       (\<lambda>_. Inr \<lparr>rd_provided = provided, rd_algorithm = algorithm, rd_digest = digest\<rparr>)"

definition optional_text :: "string option \<Rightarrow> pyval" where
  "optional_text v = (case v of None \<Rightarrow> PNone | Some s \<Rightarrow> PStr s)"

definition actor_mapping :: "actor_digest \<Rightarrow> pyval" where
  "actor_mapping a =
     PDict [(KStr ''algorithm'', PStr (ad_algorithm a)), (KStr ''digest'', PStr (ad_digest a))]"

definition reason_mapping :: "reason_digest \<Rightarrow> pyval" where
  "reason_mapping r =
     PDict [(KStr ''provided'', PBool (rd_provided r)),
            (KStr ''algorithm'', optional_text (rd_algorithm r)),
            (KStr ''digest'', optional_text (rd_digest r))]"

record approval_request =
  ar_id :: string
  ar_run_id :: string
  ar_definition_digest :: string
  ar_step_id :: string
  ar_tool_name :: string
  ar_tool_version :: string
  ar_redacted_arguments :: pyval
  ar_binding_digest :: string
  ar_risk_reasons :: "string list"
  ar_created_at :: int
  ar_version :: int
  ar_status :: approval_status
  ar_decision :: "approval_decision option"
  ar_actor :: "actor_digest option"
  ar_reason :: "reason_digest option"
  ar_decided_at :: "int option"

text \<open>
  \<open>__post_init__\<close>, on fields whose types are already those of the dataclass: the digests of the
  actor and of the reason are rebuilt from their mappings, with their checks.
\<close>

definition coerce_actor_digest :: "actor_digest option \<Rightarrow> error + actor_digest option" where
  "coerce_actor_digest v =
     (case v of None \<Rightarrow> Inr None
      | Some a \<Rightarrow> sbind (make_actor_digest (ad_algorithm a) (ad_digest a)) (\<lambda>a'. Inr (Some a')))"

definition coerce_reason_digest :: "reason_digest option \<Rightarrow> error + reason_digest option" where
  "coerce_reason_digest v =
     (case v of None \<Rightarrow> Inr None
      | Some r \<Rightarrow> sbind (make_reason_digest (rd_provided r) (rd_algorithm r) (rd_digest r))
                    (\<lambda>r'. Inr (Some r')))"

definition request_fields_ok :: "approval_request \<Rightarrow> error + unit" where
  "request_fields_ok r =
     (case ar_status r of
        AprPending \<Rightarrow>
          guard (ar_version r = 0 \<and> ar_decision r = None \<and> ar_actor r = None
                 \<and> ar_reason r = None \<and> ar_decided_at r = None)
            (ValueError ''pending approval fields are inconsistent'')
      | AprInvalidated \<Rightarrow>
          guard (1 \<le> ar_version r \<and> ar_decision r = None \<and> ar_actor r = None
                 \<and> ar_reason r = None \<and> ar_decided_at r \<noteq> None)
            (ValueError ''invalidated approval fields are inconsistent'')
      | s \<Rightarrow>
          guard (1 \<le> ar_version r
                 \<and> (case ar_decision r of None \<Rightarrow> False | Some d \<Rightarrow> decision_value d = approval_status_value s)
                 \<and> ar_actor r \<noteq> None \<and> ar_reason r \<noteq> None \<and> ar_decided_at r \<noteq> None)
            (ValueError ''decided approval fields are inconsistent''))"

definition make_request :: "approval_request \<Rightarrow> error + approval_request" where
  "make_request r =
     sbind (guard (0 \<le> ar_version r)
              (ValueError ''approval version must be a non-negative integer'')) (\<lambda>_.
     sbind (coerce_actor_digest (ar_actor r)) (\<lambda>actor.
     sbind (coerce_reason_digest (ar_reason r)) (\<lambda>reason.
     sbind (guard (is_sha256_digest (ar_binding_digest r))
              (ValueError ''invalid approval binding digest'')) (\<lambda>_.
     sbind (request_fields_ok (r\<lparr>ar_actor := actor, ar_reason := reason\<rparr>)) (\<lambda>_.
     Inr (r\<lparr>ar_actor := actor, ar_reason := reason\<rparr>))))))"

definition request_matches ::
  "approval_request \<Rightarrow> string \<Rightarrow> string \<Rightarrow> string \<Rightarrow> string \<Rightarrow> string \<Rightarrow> bool" where
  "request_matches r definition_digest step_id tool_name tool_version binding_digest \<longleftrightarrow>
     ar_definition_digest r = definition_digest \<and> ar_step_id r = step_id
     \<and> ar_tool_name r = tool_name \<and> ar_tool_version r = tool_version
     \<and> ar_binding_digest r = binding_digest"

lemma coerce_actor_digest_same: "coerce_actor_digest v = Inr w \<Longrightarrow> w = v"
  by (auto simp: coerce_actor_digest_def make_actor_digest_def split: option.splits)

lemma coerce_reason_digest_same: "coerce_reason_digest v = Inr w \<Longrightarrow> w = v"
  by (auto simp: coerce_reason_digest_def make_reason_digest_def split: option.splits)

lemma make_request_same: "make_request r = Inr r' \<Longrightarrow> r' = r \<and> request_fields_ok r = Inr ()"
  by (auto simp: make_request_def dest!: coerce_actor_digest_same coerce_reason_digest_same)

section \<open>Facts\<close>

text \<open>A canonical value is one that JSON can write, with string keys and finite numbers.\<close>

definition dumps_ok :: "pyval \<Rightarrow> bool" where
  "dumps_ok v \<longleftrightarrow> (\<exists>t. json_dumps False v = Inr t)"

lemma dumps_ok_simps [simp]:
  "dumps_ok PNone" "dumps_ok (PBool b)" "dumps_ok (PInt i)" "dumps_ok (PStr s)"
  "dumps_ok (PFloat f) \<longleftrightarrow> is_finite f"
  by (simp_all add: dumps_ok_def)

lemma dumps_ok_PList [simp]: "dumps_ok (PList xs) \<longleftrightarrow> (\<forall>x \<in> set xs. dumps_ok x)"
  unfolding dumps_ok_def smap_total [symmetric] by (auto simp: sbind_Inr_iff)

lemma dumps_ok_PDict:
  "dumps_ok (PDict d) \<longleftrightarrow> (\<forall>(k, v) \<in> set d. (\<exists>s. k = KStr s) \<and> dumps_ok v)"
proof -
  have key: "(\<exists>s. json_key k = Inr s) \<longleftrightarrow> (\<exists>s. k = KStr s)" for k by (cases k) auto
  have "dumps_ok (PDict d) \<longleftrightarrow> (\<exists>ys. smap (\<lambda>kv. sbind (json_key (fst kv)) (\<lambda>k.
                       sbind (json_dumps False (snd kv)) (\<lambda>v. Inr (k, v)))) d = Inr ys)"
    by (auto simp: dumps_ok_def sbind_Inr_iff)
  also have "\<dots> \<longleftrightarrow> (\<forall>kv \<in> set d. (\<exists>s. fst kv = KStr s) \<and> dumps_ok (snd kv))"
    unfolding smap_total key [symmetric] dumps_ok_def by (auto simp: sbind_Inr_iff)
  finally show ?thesis by (simp add: case_prod_beta)
qed

abbreviation canonical_entry :: "pykey \<times> pyval \<Rightarrow> error + pykey \<times> pyval" where
  "canonical_entry \<equiv> \<lambda>kv. sbind (canonical_key (fst kv)) (\<lambda>k.
     sbind (canonical_json_value (snd kv)) (\<lambda>v. Inr (k, v)))"

lemma canonical_entries_ok:
  assumes m: "smap canonical_entry d = Inr d'"
    and IH: "\<And>kv k c. kv \<in> set d \<Longrightarrow> canonical_key (fst kv) = Inr k \<Longrightarrow>
               canonical_json_value (snd kv) = Inr c \<Longrightarrow> dumps_ok c"
  shows "dumps_ok (PDict d')"
proof -
  have "(\<exists>s. k = KStr s) \<and> dumps_ok v" if "(k, v) \<in> set d'" for k v
  proof -
    from smap_InrD [OF m that] obtain kv where kv: "kv \<in> set d"
      and k: "canonical_key (fst kv) = Inr k" and v: "canonical_json_value (snd kv) = Inr v"
      by auto
    from k have "\<exists>s. k = KStr s" by (cases "fst kv") auto
    then show ?thesis using IH [OF kv k v] by simp
  qed
  then show ?thesis by (auto simp: dumps_ok_PDict)
qed

lemma canonical_dumps_ok: "canonical_json_value v = Inr c \<Longrightarrow> dumps_ok c"
proof (induction v arbitrary: c rule: canonical_json_value.induct)
  case (8 d)
  from 8(2) obtain d' where m: "smap canonical_entry d = Inr d'" and c: "c = PDict d'" by auto
  show ?case unfolding c by (rule canonical_entries_ok [OF m]) (rule 8(1))
next
  case (9 d)
  from 9(2) obtain d' where m: "smap canonical_entry d = Inr d'" and c: "c = PDict d'" by auto
  show ?case unfolding c by (rule canonical_entries_ok [OF m]) (rule 9(1))
next
  case (10 xs)
  from 10(2) obtain ys where m: "smap canonical_json_value xs = Inr ys" and c: "c = PList ys" by auto
  show ?case unfolding c dumps_ok_PList using smap_InrD [OF m] 10(1) by blast
next
  case (11 xs)
  from 11(2) obtain ys where m: "smap canonical_json_value xs = Inr ys" and c: "c = PList ys" by auto
  show ?case unfolding c dumps_ok_PList using smap_InrD [OF m] 11(1) by blast
qed (auto split: if_splits)

lemma canonical_key_fixed: "canonical_key k = Inr k' \<Longrightarrow> k' = k \<and> canonical_key k' = Inr k'"
  by (cases k) auto

lemma smap_fixed:
  assumes "smap f xs = Inr ys" and "\<And>x y. x \<in> set xs \<Longrightarrow> f x = Inr y \<Longrightarrow> f y = Inr y"
  shows "smap f ys = Inr ys"
proof -
  have "f y = Inr (id y)" if "y \<in> set ys" for y
    using smap_InrD [OF assms(1) that] assms(2) by auto
  then have "smap f ys = Inr (map id ys)" by (rule smap_all_Inr)
  then show ?thesis by simp
qed

lemma canonical_entry_fixed:
  assumes "\<And>k c. canonical_key (fst kv) = Inr k \<Longrightarrow> canonical_json_value (snd kv) = Inr c \<Longrightarrow>
             canonical_json_value c = Inr c"
    and "canonical_entry kv = Inr y"
  shows "canonical_entry y = Inr y"
  using assms by (auto dest: canonical_key_fixed)

lemma canonical_idem: "canonical_json_value v = Inr c \<Longrightarrow> canonical_json_value c = Inr c"
proof (induction v arbitrary: c rule: canonical_json_value.induct)
  case (8 d)
  from 8(2) obtain d' where m: "smap canonical_entry d = Inr d'" and c: "c = PDict d'" by auto
  have "smap canonical_entry d' = Inr d'"
    by (rule smap_fixed [OF m]) (rule canonical_entry_fixed [OF 8(1)])
  then show ?case using c by simp
next
  case (9 d)
  from 9(2) obtain d' where m: "smap canonical_entry d = Inr d'" and c: "c = PDict d'" by auto
  have "smap canonical_entry d' = Inr d'"
    by (rule smap_fixed [OF m]) (rule canonical_entry_fixed [OF 9(1)])
  then show ?case using c by simp
next
  case (10 xs)
  from 10(2) obtain ys where m: "smap canonical_json_value xs = Inr ys" and c: "c = PList ys" by auto
  have "smap canonical_json_value ys = Inr ys" by (rule smap_fixed [OF m]) (rule 10(1))
  then show ?case using c by simp
next
  case (11 xs)
  from 11(2) obtain ys where m: "smap canonical_json_value xs = Inr ys" and c: "c = PList ys" by auto
  have "smap canonical_json_value ys = Inr ys" by (rule smap_fixed [OF m]) (rule 11(1))
  then show ?case using c by simp
qed (auto split: if_splits)

lemma binding_digest_Inr:
  assumes "canonical_json_value a = Inr c"
  shows "\<exists>d. approval_binding_digest p s n v a = Inr d"
proof -
  let ?payload = "PDict [(KStr ''plan_digest'', PStr p), (KStr ''step_id'', PStr s),
               (KStr ''tool'', PList [PStr n, PStr v]), (KStr ''arguments'', c)]"
  have "dumps_ok ?payload" using canonical_dumps_ok [OF assms] by (simp add: dumps_ok_PDict)
  then show ?thesis
    using assms by (auto simp: dumps_ok_def approval_binding_digest_def json_digest_def)
qed

text \<open>
  arguments with a canonical JSON form always have a binding digest; it is the one of that
  form, so two values with the same form cannot be told apart by it, and it is the kind of digest
  that the constructor of the request demands.
\<close>

theorem approval_binding_digest_canonical:
  assumes "canonical_json_value a = Inr c"
  shows "\<exists>d. approval_binding_digest p s n v a = Inr d \<and> approval_binding_digest p s n v c = Inr d
    \<and> is_sha256_digest d"
proof -
  obtain d where d: "approval_binding_digest p s n v a = Inr d"
    using binding_digest_Inr [OF assms] by blast
  then have "approval_binding_digest p s n v c = Inr d"
    using assms canonical_idem [OF assms] by (simp add: approval_binding_digest_def)
  moreover have "is_sha256_digest d"
    using d by (auto simp: approval_binding_digest_def dest: json_digest_is_digest)
  ultimately show ?thesis using d by blast
qed

theorem approval_binding_digest_canonical_witness:
  "\<exists>d. approval_binding_digest ''p'' ''s'' ''t'' ''1'' (PProxy [(KStr ''x'', PTuple [PUnavailable, PInt 1])])
         = Inr d
     \<and> approval_binding_digest ''p'' ''s'' ''t'' ''1'' (PDict [(KStr ''x'', PList [PStr ''[REDACTED]'', PInt 1])])
         = Inr d
     \<and> is_sha256_digest d"
proof (rule approval_binding_digest_canonical)
  show "canonical_json_value (PProxy [(KStr ''x'', PTuple [PUnavailable, PInt 1])])
    = Inr (PDict [(KStr ''x'', PList [PStr ''[REDACTED]'', PInt 1])])" by simp
qed

end
