(* ===== verification/Persistence.thy ===== *)
theory Persistence
  imports Definitions Approvals
begin

text \<open>
  \<open>workflow/ports/persistence.py\<close> and \<open>workflow/adapters/persistence/memory.py\<close>: the records
  that are stored, the store, the unit of work with its repositories, and the commit that
  validates the staged changes against the store and publishes them.

  A value that the code clones is the value itself here, since values cannot be changed. Sets
  of keys are lists in the order of insertion; where the code loops over a set, the model takes
  that order. The store's lock makes a commit one step.
\<close>

section \<open>Records\<close>

text \<open>\<open>StepAttempt\<close> of \<open>application/coordinator.py\<close>.\<close>

record step_attempt =
  sa_run_id :: string
  sa_step_id :: string
  sa_attempt_no :: int
  sa_phase :: string
  sa_attempt_id :: string
  sa_status :: string
  sa_idempotency_key :: string
  sa_started_at :: int
  sa_effect_applied :: bool
  sa_completed_at :: "int option"
  sa_next_attempt_at :: "int option"
  sa_result :: pyval
  sa_error_class :: "string option"
  sa_error_message :: "string option"

record legacy_approval =
  la_run_id :: string
  la_approval_key :: string
  la_payload :: pyval
  la_record_module :: string
  la_record_qualname :: string
  la_decision :: pyval
  la_version :: int
  la_status :: string

datatype approval_record = Request approval_request | Legacy legacy_approval

fun apr_run_id :: "approval_record \<Rightarrow> string" where
  "apr_run_id (Request r) = ar_run_id r"
| "apr_run_id (Legacy l) = la_run_id l"

fun apr_key :: "approval_record \<Rightarrow> string" where
  "apr_key (Request r) = ar_id r"
| "apr_key (Legacy l) = la_approval_key l"

fun apr_version :: "approval_record \<Rightarrow> int" where
  "apr_version (Request r) = ar_version r"
| "apr_version (Legacy l) = la_version l"

fun apr_status :: "approval_record \<Rightarrow> string" where
  "apr_status (Request r) = approval_status_value (ar_status r)"
| "apr_status (Legacy l) = la_status l"

definition is_pending :: "approval_record \<Rightarrow> bool" where
  "is_pending a \<longleftrightarrow> apr_status a = ''pending''"

type_synonym definition_key = "string \<times> int"
type_synonym step_key = "string \<times> string"
type_synonym attempt_key = "string \<times> string \<times> int \<times> string"
type_synonym approval_key = "string \<times> string"

definition definition_key_of :: "workflow_definition \<Rightarrow> definition_key" where
  "definition_key_of d = (wd_definition_id d, wd_version d)"

definition step_key_of :: "step_run \<Rightarrow> step_key" where
  "step_key_of s = (sr_run_id s, sr_step_id s)"

definition attempt_key_of :: "step_attempt \<Rightarrow> attempt_key" where
  "attempt_key_of a = (sa_run_id a, sa_step_id a, sa_attempt_no a, sa_phase a)"

definition approval_key_of :: "approval_record \<Rightarrow> approval_key" where
  "approval_key_of a = (apr_run_id a, apr_key a)"

definition pair_text :: "string \<times> string \<Rightarrow> string" where
  "pair_text k = fst k @ '':'' @ snd k"

definition attempt_key_text :: "attempt_key \<Rightarrow> string" where
  "attempt_key_text k =
     (case k of (r, s, n, p) \<Rightarrow> r @ '':'' @ s @ '':'' @ int_text n @ '':'' @ p)"

definition definition_key_text :: "definition_key \<Rightarrow> string" where
  "definition_key_text k = fst k @ ''@'' @ int_text (snd k)"

section \<open>The store and the unit of work\<close>

type_synonym event_log = "(int \<times> audit_event) list"

record memory_store =
  ms_definitions :: "(definition_key, workflow_definition) dict"
  ms_runs :: "(string, workflow_run) dict"
  ms_steps :: "(step_key, step_run) dict"
  ms_attempts :: "(attempt_key, step_attempt) dict"
  ms_approvals :: "(approval_key, approval_record) dict"
  ms_events :: "(string, event_log) dict"
  ms_event_sequences :: "(string, int) dict"

definition empty_store :: memory_store where
  "empty_store = \<lparr>ms_definitions = [], ms_runs = [], ms_steps = [], ms_attempts = [],
     ms_approvals = [], ms_events = [], ms_event_sequences = []\<rparr>"

record snapshot =
  sn_definitions :: "(definition_key, workflow_definition) dict"
  sn_runs :: "(string, workflow_run) dict"
  sn_steps :: "(step_key, step_run) dict"
  sn_attempts :: "(attempt_key, step_attempt) dict"
  sn_approvals :: "(approval_key, approval_record) dict"
  sn_committed_events :: "(string, event_log) dict"
  sn_committed_event_sequences :: "(string, int) dict"
  sn_pending_events :: "(string, audit_event list) dict"
  sn_new_definition_keys :: "definition_key list"
  sn_new_run_keys :: "string list"
  sn_dirty_run_keys :: "string list"
  sn_new_step_keys :: "step_key list"
  sn_dirty_step_keys :: "step_key list"
  sn_new_attempt_keys :: "attempt_key list"
  sn_dirty_attempt_keys :: "attempt_key list"
  sn_new_approval_keys :: "approval_key list"
  sn_dirty_approval_keys :: "approval_key list"
  sn_run_expected_revisions :: "(string, int) dict"
  sn_step_expected_revisions :: "(step_key, int) dict"
  sn_approval_expected_versions :: "(approval_key, int) dict"

text \<open>The unit of work: its snapshot and its two flags.\<close>

record uow = snapshot +
  uw_committed :: bool
  uw_rolled_back :: bool

text \<open>\<open>_Snapshot.from_store\<close> and \<open>MemoryUnitOfWork.__init__\<close>.\<close>

definition begin_uow :: "memory_store \<Rightarrow> uow" where
  "begin_uow st =
     \<lparr>sn_definitions = ms_definitions st, sn_runs = ms_runs st, sn_steps = ms_steps st,
      sn_attempts = ms_attempts st, sn_approvals = ms_approvals st,
      sn_committed_events = ms_events st,
      sn_committed_event_sequences = ms_event_sequences st, sn_pending_events = [],
      sn_new_definition_keys = [], sn_new_run_keys = [], sn_dirty_run_keys = [],
      sn_new_step_keys = [], sn_dirty_step_keys = [], sn_new_attempt_keys = [],
      sn_dirty_attempt_keys = [], sn_new_approval_keys = [], sn_dirty_approval_keys = [],
      sn_run_expected_revisions = [], sn_step_expected_revisions = [],
      sn_approval_expected_versions = [], uw_committed = False, uw_rolled_back = False\<rparr>"

type_synonym 'a uow_act = "(uow, error, 'a) act"

definition ensure_writable :: "unit uow_act" where
  "ensure_writable u =
     (if uw_rolled_back u
      then (Inl (UnitOfWorkStateError ''unit of work is already rolled back''), u)
      else if uw_committed u
      then (Inl (UnitOfWorkStateError ''unit of work is already committed''), u)
      else (Inr (), u))"

definition rollback :: "unit uow_act" where
  "rollback u =
     (if uw_rolled_back u then (Inr (), u)
      else if uw_committed u
      then (Inl (UnitOfWorkStateError ''cannot rollback a committed unit of work''), u)
      else (Inr (), u\<lparr>uw_rolled_back := True\<rparr>))"

section \<open>The repositories\<close>

subsection \<open>Definitions\<close>

definition definitions_add :: "workflow_definition \<Rightarrow> unit uow_act" where
  "definitions_add d =
     bnd ensure_writable (\<lambda>_. modify_act (\<lambda>u.
       u\<lparr>sn_definitions := dset (definition_key_of d) d (sn_definitions u),
         sn_new_definition_keys := add_key (definition_key_of d) (sn_new_definition_keys u)\<rparr>))"

definition definitions_get :: "string \<Rightarrow> int \<Rightarrow> workflow_definition option uow_act" where
  "definitions_get i v = get_act (\<lambda>u. dget (sn_definitions u) (i, v))"

subsection \<open>Runs\<close>

definition runs_add :: "workflow_run \<Rightarrow> unit uow_act" where
  "runs_add run =
     bnd ensure_writable (\<lambda>_. modify_act (\<lambda>u.
       u\<lparr>sn_runs := dset (wr_run_id run) run (sn_runs u),
         sn_new_run_keys := add_key (wr_run_id run) (sn_new_run_keys u)\<rparr>))"

definition runs_get :: "string \<Rightarrow> workflow_run option uow_act" where
  "runs_get i = get_act (\<lambda>u. dget (sn_runs u) i)"

definition runs_list :: "workflow_run list uow_act" where
  "runs_list = get_act (\<lambda>u. map snd (sort_key fst (sn_runs u)))"

definition runs_save :: "workflow_run \<Rightarrow> int \<Rightarrow> unit uow_act" where
  "runs_save run expected =
     bnd ensure_writable (\<lambda>_.
     bnd (lift_res (guard (wr_revision run = expected + 1)
            (InvalidRevisionError ''run'' (wr_run_id run) (expected + 1) (wr_revision run)))) (\<lambda>_.
     modify_act (\<lambda>u.
       u\<lparr>sn_runs := dset (wr_run_id run) run (sn_runs u),
         sn_dirty_run_keys := add_key (wr_run_id run) (sn_dirty_run_keys u),
         sn_run_expected_revisions :=
           (if wr_run_id run \<in> set (sn_new_run_keys u) then sn_run_expected_revisions u
            else dset_default (wr_run_id run) expected (sn_run_expected_revisions u))\<rparr>)))"

subsection \<open>Steps\<close>

definition steps_add :: "step_run \<Rightarrow> unit uow_act" where
  "steps_add step =
     bnd ensure_writable (\<lambda>_. modify_act (\<lambda>u.
       u\<lparr>sn_steps := dset (step_key_of step) step (sn_steps u),
         sn_new_step_keys := add_key (step_key_of step) (sn_new_step_keys u)\<rparr>))"

definition steps_get :: "string \<Rightarrow> string \<Rightarrow> step_run option uow_act" where
  "steps_get r s = get_act (\<lambda>u. dget (sn_steps u) (r, s))"

definition steps_save :: "step_run \<Rightarrow> int \<Rightarrow> unit uow_act" where
  "steps_save step expected =
     bnd ensure_writable (\<lambda>_.
     bnd (lift_res (guard (sr_revision step = expected + 1)
            (InvalidRevisionError ''step'' (pair_text (step_key_of step)) (expected + 1)
               (sr_revision step)))) (\<lambda>_.
     modify_act (\<lambda>u.
       u\<lparr>sn_steps := dset (step_key_of step) step (sn_steps u),
         sn_dirty_step_keys := add_key (step_key_of step) (sn_dirty_step_keys u),
         sn_step_expected_revisions :=
           (if step_key_of step \<in> set (sn_new_step_keys u) then sn_step_expected_revisions u
            else dset_default (step_key_of step) expected (sn_step_expected_revisions u))\<rparr>)))"

subsection \<open>Attempts\<close>

definition attempts_add :: "step_attempt \<Rightarrow> unit uow_act" where
  "attempts_add a =
     bnd ensure_writable (\<lambda>_.
     bnd (get_act sn_new_attempt_keys) (\<lambda>new.
     bnd (lift_res (guard (attempt_key_of a \<notin> set new)
            (UniquenessError ''attempt'' (attempt_key_text (attempt_key_of a))))) (\<lambda>_.
     modify_act (\<lambda>u.
       u\<lparr>sn_attempts := dset (attempt_key_of a) a (sn_attempts u),
         sn_new_attempt_keys := add_key (attempt_key_of a) (sn_new_attempt_keys u)\<rparr>))))"

definition attempts_save :: "step_attempt \<Rightarrow> unit uow_act" where
  "attempts_save a =
     bnd ensure_writable (\<lambda>_.
     bnd (get_act (\<lambda>u. dget (sn_attempts u) (attempt_key_of a))) (\<lambda>old.
     bnd (lift_res (guard (old \<noteq> None)
            (PersistenceError (''cannot save missing attempt: ''
                               @ attempt_key_text (attempt_key_of a))))) (\<lambda>_.
     modify_act (\<lambda>u.
       u\<lparr>sn_attempts := dset (attempt_key_of a) a (sn_attempts u),
         sn_dirty_attempt_keys := add_key (attempt_key_of a) (sn_dirty_attempt_keys u)\<rparr>))))"

definition attempts_of ::
  "(attempt_key, step_attempt) dict \<Rightarrow> string \<Rightarrow> string option \<Rightarrow> step_attempt list" where
  "attempts_of table run_id step_id =
     sort_key (\<lambda>a. (sa_step_id a, sa_attempt_no a, sa_phase a))
       (map snd (filter (\<lambda>((r, s, _, _), _). r = run_id \<and>
                          (case step_id of None \<Rightarrow> True | Some x \<Rightarrow> s = x)) table))"

definition attempts_list :: "string \<Rightarrow> string option \<Rightarrow> step_attempt list uow_act" where
  "attempts_list run_id step_id = get_act (\<lambda>u. attempts_of (sn_attempts u) run_id step_id)"

subsection \<open>Approvals\<close>

definition approvals_add :: "approval_record \<Rightarrow> unit uow_act" where
  "approvals_add a =
     bnd ensure_writable (\<lambda>_.
     bnd (get_act sn_new_approval_keys) (\<lambda>new.
     bnd (lift_res (guard (approval_key_of a \<notin> set new)
            (UniquenessError ''approval'' (pair_text (approval_key_of a))))) (\<lambda>_.
     modify_act (\<lambda>u.
       u\<lparr>sn_approvals := dset (approval_key_of a) a (sn_approvals u),
         sn_new_approval_keys := add_key (approval_key_of a) (sn_new_approval_keys u)\<rparr>))))"

definition approvals_of ::
  "(approval_key, approval_record) dict \<Rightarrow> string \<Rightarrow> approval_record list" where
  "approvals_of table run_id =
     sort_key apr_key (map snd (filter (\<lambda>((r, _), _). r = run_id) table))"

definition approvals_list :: "string \<Rightarrow> approval_record list uow_act" where
  "approvals_list run_id = get_act (\<lambda>u. approvals_of (sn_approvals u) run_id)"

definition approvals_get :: "string \<Rightarrow> string \<Rightarrow> approval_record option uow_act" where
  "approvals_get run_id k = get_act (\<lambda>u. dget (sn_approvals u) (run_id, k))"

definition approvals_pending :: "string \<Rightarrow> approval_record option uow_act" where
  "approvals_pending run_id u =
     (case map snd (filter (\<lambda>((r, _), a). r = run_id \<and> is_pending a) (sn_approvals u)) of
        [] \<Rightarrow> (Inr None, u)
      | [a] \<Rightarrow> (Inr (Some a), u)
      | _ \<Rightarrow> (Inl (PersistenceError (''multiple pending approvals for run: '' @ run_id)), u))"

definition approvals_save :: "approval_record \<Rightarrow> int \<Rightarrow> unit uow_act" where
  "approvals_save a expected =
     bnd ensure_writable (\<lambda>_.
     bnd (lift_res (guard (apr_version a = expected + 1)
            (InvalidRevisionError ''approval'' (apr_key a) (expected + 1) (apr_version a)))) (\<lambda>_.
     bnd (get_act (\<lambda>u. dget (sn_approvals u) (approval_key_of a))) (\<lambda>old.
     bnd (lift_res (guard (old \<noteq> None)
            (PersistenceError (''cannot save missing approval: '' @ apr_key a)))) (\<lambda>_.
     modify_act (\<lambda>u.
       u\<lparr>sn_approvals := dset (approval_key_of a) a (sn_approvals u),
         sn_dirty_approval_keys := add_key (approval_key_of a) (sn_dirty_approval_keys u),
         sn_approval_expected_versions :=
           (if approval_key_of a \<in> set (sn_new_approval_keys u)
            then sn_approval_expected_versions u
            else dset_default (approval_key_of a) expected
                   (sn_approval_expected_versions u))\<rparr>)))))"

subsection \<open>Events\<close>

definition dget_list :: "('k, 'v list) dict \<Rightarrow> 'k \<Rightarrow> 'v list" where
  "dget_list d k = (case dget d k of None \<Rightarrow> [] | Some xs \<Rightarrow> xs)"

definition sequence_of :: "(string, int) dict \<Rightarrow> string \<Rightarrow> int" where
  "sequence_of d k = (case dget d k of None \<Rightarrow> 0 | Some n \<Rightarrow> n)"

text \<open>\<open>_Snapshot.stage_event\<close>, which \<open>append\<close> calls.\<close>

definition events_append :: "audit_event \<Rightarrow> (int \<times> audit_event) uow_act" where
  "events_append e =
     bnd ensure_writable (\<lambda>_. (\<lambda>u.
       let staged = dget_list (sn_pending_events u) (ev_run_id e) @ [e]
       in (Inr (sequence_of (sn_committed_event_sequences u) (ev_run_id e) + int (length staged), e),
           u\<lparr>sn_pending_events := dset (ev_run_id e) staged (sn_pending_events u)\<rparr>)))"

definition number_from :: "int \<Rightarrow> 'a list \<Rightarrow> (int \<times> 'a) list" where
  "number_from n xs = zip (map (\<lambda>i. n + 1 + int i) [0..<length xs]) xs"

definition events_list :: "string \<Rightarrow> int \<Rightarrow> event_log uow_act" where
  "events_list run_id after_sequence =
     get_act (\<lambda>u.
       filter (\<lambda>(n, _). after_sequence < n) (dget_list (sn_committed_events u) run_id)
       @ filter (\<lambda>(n, _). after_sequence < n)
           (number_from (sequence_of (sn_committed_event_sequences u) run_id)
              (dget_list (sn_pending_events u) run_id)))"

section \<open>Commit\<close>

definition check_new ::
  "string \<Rightarrow> ('k \<Rightarrow> string) \<Rightarrow> 'k list \<Rightarrow> ('k, 'v) dict \<Rightarrow> error + unit" where
  "check_new record_type label ks table =
     sfold (\<lambda>k _. guard (dget table k = None) (UniquenessError record_type (label k))) ks ()"

text \<open>The store's table with the staged records of the given keys written over it.\<close>

definition write_over :: "'k list \<Rightarrow> ('k, 'v) dict \<Rightarrow> ('k, 'v) dict \<Rightarrow> error + ('k, 'v) dict" where
  "write_over ks staged table =
     sfold (\<lambda>k t. sbind (or_raise (dget staged k) (KeyError ''staged record''))
                   (\<lambda>v. Inr (dset k v t))) ks table"

definition count_pending :: "(approval_key, approval_record) dict \<Rightarrow> (string, int) dict" where
  "count_pending approvals =
     foldl (\<lambda>counts ((run_id, _), a).
              if is_pending a then dset run_id (sequence_of counts run_id + 1) counts
              else counts) [] approvals"

definition validate_uniqueness :: "uow \<Rightarrow> memory_store \<Rightarrow> error + unit" where
  "validate_uniqueness u st =
     sbind (check_new ''definition'' definition_key_text (sn_new_definition_keys u)
              (ms_definitions st)) (\<lambda>_.
     sbind (check_new ''run'' id (sn_new_run_keys u) (ms_runs st)) (\<lambda>_.
     sbind (check_new ''step'' pair_text (sn_new_step_keys u) (ms_steps st)) (\<lambda>_.
     sbind (check_new ''attempt'' attempt_key_text (sn_new_attempt_keys u) (ms_attempts st)) (\<lambda>_.
     sbind (check_new ''approval'' pair_text (sn_new_approval_keys u) (ms_approvals st)) (\<lambda>_.
     sbind (write_over (sn_new_approval_keys u @ sn_dirty_approval_keys u) (sn_approvals u)
              (ms_approvals st)) (\<lambda>approvals.
     case List.find (\<lambda>(_, n). 1 < n) (count_pending approvals) of
       None \<Rightarrow> Inr ()
     | Some (run_id, _) \<Rightarrow> Inl (UniquenessError ''pending_approval'' run_id)))))))"

definition check_revisions ::
  "string \<Rightarrow> ('k \<Rightarrow> string) \<Rightarrow> ('v \<Rightarrow> int) \<Rightarrow> ('k, int) dict \<Rightarrow> ('k, 'v) dict \<Rightarrow> error + unit" where
  "check_revisions aggregate_type label revision expected table =
     sfold (\<lambda>(k, n) _.
        let actual = (case dget table k of None \<Rightarrow> - 1 | Some v \<Rightarrow> revision v)
        in guard (actual = n) (OptimisticLockError aggregate_type (label k) n actual))
       expected ()"

definition validate_revisions :: "uow \<Rightarrow> memory_store \<Rightarrow> error + unit" where
  "validate_revisions u st =
     sbind (check_revisions ''run'' id wr_revision (sn_run_expected_revisions u) (ms_runs st)) (\<lambda>_.
     sbind (check_revisions ''step'' pair_text sr_revision (sn_step_expected_revisions u)
              (ms_steps st)) (\<lambda>_.
     check_revisions ''approval'' snd apr_version (sn_approval_expected_versions u)
       (ms_approvals st)))"

text \<open>\<open>_allocate_published_events_locked\<close>: the entries to add and the new last numbers.\<close>

definition allocate_events ::
  "uow \<Rightarrow> memory_store \<Rightarrow> (string, event_log) dict \<times> (string, int) dict" where
  "allocate_events u st =
     (map (\<lambda>(run_id, es). (run_id, number_from (sequence_of (ms_event_sequences st) run_id) es))
        (sn_pending_events u),
      map (\<lambda>(run_id, es). (run_id, sequence_of (ms_event_sequences st) run_id + int (length es)))
        (sn_pending_events u))"

definition extend_logs ::
  "(string, event_log) dict \<Rightarrow> (string, event_log) dict \<Rightarrow> (string, event_log) dict" where
  "extend_logs published logs =
     foldl (\<lambda>t (run_id, entries). dset run_id (dget_list t run_id @ entries) t) logs published"

definition set_sequences ::
  "(string, int) dict \<Rightarrow> (string, int) dict \<Rightarrow> (string, int) dict" where
  "set_sequences published sequences = foldl (\<lambda>t (run_id, n). dset run_id n t) sequences published"

definition publish ::
  "uow \<Rightarrow> (string, event_log) dict \<times> (string, int) dict \<Rightarrow> memory_store \<Rightarrow> error + memory_store"
where
  "publish u published st =
     sbind (write_over (sn_new_definition_keys u) (sn_definitions u) (ms_definitions st)) (\<lambda>ds.
     sbind (write_over (sn_new_run_keys u @ sn_dirty_run_keys u) (sn_runs u) (ms_runs st)) (\<lambda>rs.
     sbind (write_over (sn_new_step_keys u @ sn_dirty_step_keys u) (sn_steps u) (ms_steps st)) (\<lambda>ss.
     sbind (write_over (sn_new_attempt_keys u @ sn_dirty_attempt_keys u) (sn_attempts u)
              (ms_attempts st)) (\<lambda>as.
     sbind (write_over (sn_new_approval_keys u @ sn_dirty_approval_keys u) (sn_approvals u)
              (ms_approvals st)) (\<lambda>ps.
     Inr \<lparr>ms_definitions = ds, ms_runs = rs, ms_steps = ss, ms_attempts = as,
          ms_approvals = ps, ms_events = extend_logs (fst published) (ms_events st),
          ms_event_sequences = set_sequences (snd published) (ms_event_sequences st)\<rparr>)))))"

definition commit :: "uow \<Rightarrow> memory_store \<Rightarrow> error + memory_store \<times> uow" where
  "commit u st =
     sbind (guard (\<not> uw_rolled_back u)
              (UnitOfWorkStateError ''cannot commit a rolled back unit of work'')) (\<lambda>_.
     sbind (guard (\<not> uw_committed u)
              (UnitOfWorkStateError ''cannot commit an already committed unit of work'')) (\<lambda>_.
     sbind (validate_uniqueness u st) (\<lambda>_.
     sbind (validate_revisions u st) (\<lambda>_.
     sbind (publish u (allocate_events u st) st) (\<lambda>st'.
     Inr (st', u\<lparr>uw_committed := True\<rparr>))))))"

section \<open>Well-formed stores and units of work\<close>

text \<open>A table whose records are stored under their own keys.\<close>

definition table_ok :: "('v \<Rightarrow> 'k) \<Rightarrow> ('k, 'v) dict \<Rightarrow> bool" where
  "table_ok key_of d \<longleftrightarrow> dwf d \<and> (\<forall>(k, v) \<in> set d. key_of v = k)"

lemma table_ok_Nil [simp]: "table_ok key_of []"
  by (simp add: table_ok_def)

lemma table_ok_dset [simp]: "table_ok key_of d \<Longrightarrow> key_of v = k \<Longrightarrow> table_ok key_of (dset k v d)"
  by (auto simp: table_ok_def set_dset)

lemma table_ok_dget: "table_ok key_of d \<Longrightarrow> dget d k = Some v \<Longrightarrow> key_of v = k"
  by (auto simp: table_ok_def)

lemma table_ok_dwf: "table_ok key_of d \<Longrightarrow> dwf d"
  by (simp add: table_ok_def)

lemma write_over_Nil [simp]: "write_over [] staged table = Inr table"
  by (simp add: write_over_def)

lemma write_over_Cons:
  "write_over (k # ks) staged table =
     sbind (or_raise (dget staged k) (KeyError ''staged record''))
       (\<lambda>v. write_over ks staged (dset k v table))"
  by (simp add: write_over_def sbind_assoc)

lemma write_over_total: "(\<exists>t. write_over ks staged table = Inr t) \<longleftrightarrow> set ks \<subseteq> fst ` set staged"
proof (induction ks arbitrary: table)
  case (Cons k ks)
  show ?case
  proof (cases "dget staged k")
    case None
    then have "k \<notin> fst ` set staged" by (simp only: dget_None_iff not_False_eq_True)
    then show ?thesis using None by (simp add: write_over_Cons)
  next
    case (Some v)
    then show ?thesis using Cons.IH dget_Some_key [OF Some] by (simp add: write_over_Cons)
  qed
qed simp

lemma write_over_dget:
  "write_over ks staged table = Inr t \<Longrightarrow>
   dget t k = (if k \<in> set ks then dget staged k else dget table k)"
proof (induction ks arbitrary: table)
  case (Cons j ks)
  from Cons.prems obtain v where v: "dget staged j = Some v"
    and w: "write_over ks staged (dset j v table) = Inr t"
    by (auto simp: write_over_Cons)
  from Cons.IH [OF w] v show ?case by auto
qed simp

lemma write_over_table_ok:
  assumes "write_over ks staged table = Inr t" and "table_ok key_of staged" and "table_ok key_of table"
  shows "table_ok key_of t"
  using assms(1,3)
proof (induction ks arbitrary: table)
  case (Cons k ks)
  from Cons.prems obtain v where v: "dget staged k = Some v"
    and w: "write_over ks staged (dset k v table) = Inr t"
    by (auto simp: write_over_Cons)
  show ?case
    by (rule Cons.IH [OF w]) (use Cons.prems table_ok_dget [OF assms(2) v] in simp)
qed simp

text \<open>The events of one run are numbered from one without gaps, and the counter is their number.\<close>

definition log_ok :: "memory_store \<Rightarrow> string \<Rightarrow> bool" where
  "log_ok st r \<longleftrightarrow>
     map fst (dget_list (ms_events st) r) = map (\<lambda>i. 1 + int i) [0..<length (dget_list (ms_events st) r)]
     \<and> sequence_of (ms_event_sequences st) r = int (length (dget_list (ms_events st) r))
     \<and> (\<forall>(n, e) \<in> set (dget_list (ms_events st) r). ev_run_id e = r)"

definition single_pending :: "(approval_key \<Rightarrow> approval_record option) \<Rightarrow> bool" where
  "single_pending m \<longleftrightarrow>
     (\<forall>r k k' a a'. m (r, k) = Some a \<longrightarrow> m (r, k') = Some a' \<longrightarrow>
        is_pending a \<longrightarrow> is_pending a' \<longrightarrow> k = k')"

definition pending_unique :: "(approval_key, approval_record) dict \<Rightarrow> bool" where
  "pending_unique table \<longleftrightarrow> single_pending (dget table)"

definition store_ok :: "memory_store \<Rightarrow> bool" where
  "store_ok st \<longleftrightarrow> table_ok definition_key_of (ms_definitions st)
     \<and> table_ok wr_run_id (ms_runs st) \<and> table_ok step_key_of (ms_steps st)
     \<and> table_ok attempt_key_of (ms_attempts st) \<and> table_ok approval_key_of (ms_approvals st)
     \<and> pending_unique (ms_approvals st)
     \<and> dwf (ms_events st) \<and> dwf (ms_event_sequences st) \<and> (\<forall>r. log_ok st r)"

lemma store_okD:
  assumes "store_ok st"
  shows "table_ok definition_key_of (ms_definitions st)" and "table_ok wr_run_id (ms_runs st)"
    and "table_ok step_key_of (ms_steps st)" and "table_ok attempt_key_of (ms_attempts st)"
    and "table_ok approval_key_of (ms_approvals st)" and "pending_unique (ms_approvals st)"
    and "dwf (ms_events st)" and "dwf (ms_event_sequences st)" and "log_ok st r"
  using assms unfolding store_ok_def by blast+

lemma store_ok_empty: "store_ok empty_store"
  by (simp add: store_ok_def empty_store_def pending_unique_def single_pending_def log_ok_def dget_list_def
      sequence_of_def)

text \<open>
  A unit of work that began on the store \<open>st\<close>: its tables are well formed, the keys it has
  noted are staged, and what it has not noted is as in \<open>st\<close>.
\<close>

definition staged_ok ::
  "('v \<Rightarrow> 'k) \<Rightarrow> ('k, 'v) dict \<Rightarrow> ('k, 'v) dict \<Rightarrow> 'k list \<Rightarrow> bool" where
  "staged_ok key_of base staged ks \<longleftrightarrow> table_ok key_of staged \<and> set ks \<subseteq> fst ` set staged
     \<and> (\<forall>k. k \<notin> set ks \<longrightarrow> dget staged k = dget base k)"

text \<open>Every saved key is either new in this unit of work or has an expected revision.\<close>

definition tracked :: "'k list \<Rightarrow> 'k list \<Rightarrow> ('k, int) dict \<Rightarrow> bool" where
  "tracked new dirty expected \<longleftrightarrow>
     fst ` set expected \<subseteq> set dirty \<and> set dirty \<subseteq> set new \<union> fst ` set expected"

definition uow_ok :: "memory_store \<Rightarrow> uow \<Rightarrow> bool" where
  "uow_ok st u \<longleftrightarrow>
     staged_ok definition_key_of (ms_definitions st) (sn_definitions u) (sn_new_definition_keys u)
     \<and> staged_ok wr_run_id (ms_runs st) (sn_runs u) (sn_new_run_keys u @ sn_dirty_run_keys u)
     \<and> staged_ok step_key_of (ms_steps st) (sn_steps u) (sn_new_step_keys u @ sn_dirty_step_keys u)
     \<and> staged_ok attempt_key_of (ms_attempts st) (sn_attempts u)
         (sn_new_attempt_keys u @ sn_dirty_attempt_keys u)
     \<and> staged_ok approval_key_of (ms_approvals st) (sn_approvals u)
         (sn_new_approval_keys u @ sn_dirty_approval_keys u)
     \<and> sn_committed_events u = ms_events st
     \<and> sn_committed_event_sequences u = ms_event_sequences st
     \<and> dwf (sn_pending_events u)
     \<and> (\<forall>(r, es) \<in> set (sn_pending_events u). \<forall>e \<in> set es. ev_run_id e = r)
     \<and> tracked (sn_new_run_keys u) (sn_dirty_run_keys u) (sn_run_expected_revisions u)
     \<and> tracked (sn_new_step_keys u) (sn_dirty_step_keys u) (sn_step_expected_revisions u)
     \<and> tracked (sn_new_approval_keys u) (sn_dirty_approval_keys u) (sn_approval_expected_versions u)"

lemma uow_okD:
  assumes "uow_ok st u"
  shows "staged_ok definition_key_of (ms_definitions st) (sn_definitions u) (sn_new_definition_keys u)"
    and "staged_ok wr_run_id (ms_runs st) (sn_runs u) (sn_new_run_keys u @ sn_dirty_run_keys u)"
    and "staged_ok step_key_of (ms_steps st) (sn_steps u) (sn_new_step_keys u @ sn_dirty_step_keys u)"
    and "staged_ok attempt_key_of (ms_attempts st) (sn_attempts u)
         (sn_new_attempt_keys u @ sn_dirty_attempt_keys u)"
    and "staged_ok approval_key_of (ms_approvals st) (sn_approvals u)
         (sn_new_approval_keys u @ sn_dirty_approval_keys u)"
    and "sn_committed_events u = ms_events st"
    and "sn_committed_event_sequences u = ms_event_sequences st"
    and "dwf (sn_pending_events u)"
    and "\<forall>(r, es) \<in> set (sn_pending_events u). \<forall>e \<in> set es. ev_run_id e = r"
    and "tracked (sn_new_run_keys u) (sn_dirty_run_keys u) (sn_run_expected_revisions u)"
    and "tracked (sn_new_step_keys u) (sn_dirty_step_keys u) (sn_step_expected_revisions u)"
    and "tracked (sn_new_approval_keys u) (sn_dirty_approval_keys u) (sn_approval_expected_versions u)"
  using assms unfolding uow_ok_def by blast+

lemma tracked_Nil [simp]: "tracked [] [] []"
  by (simp add: tracked_def)

lemma tracked_new: "tracked new dirty e \<Longrightarrow> tracked (add_key k new) dirty e"
  by (auto simp: tracked_def)

lemma set_keys_dset_default [simp]: "fst ` set (dset_default k v d) = insert k (fst ` set d)"
  by (auto simp: dset_default_def split: option.splits dest: dget_Some_key)

lemma tracked_save:
  "tracked new dirty e \<Longrightarrow> k \<in> set new \<Longrightarrow> tracked new (add_key k dirty) e"
  "tracked new dirty e \<Longrightarrow> tracked new (add_key k dirty) (dset_default k n e)"
  by (auto simp: tracked_def)

lemma staged_ok_begin: "table_ok key_of d \<Longrightarrow> staged_ok key_of d d []"
  by (simp add: staged_ok_def)

lemma staged_ok_dset:
  "staged_ok key_of base staged ks \<Longrightarrow> key_of v = k \<Longrightarrow> set ks' = insert k (set ks) \<Longrightarrow>
   staged_ok key_of base (dset k v staged) ks'"
  by (auto simp: staged_ok_def)

lemma staged_ok_get:
  assumes "staged_ok key_of base staged ks" and "k \<in> set ks"
  shows "\<exists>v. dget staged k = Some v"
proof (rule key_dget_Some)
  show "k \<in> fst ` set staged" using assms unfolding staged_ok_def by blast
qed

lemma uow_ok_begin: "store_ok st \<Longrightarrow> uow_ok st (begin_uow st)"
  by (auto simp: uow_ok_def begin_uow_def intro!: staged_ok_begin dest: store_okD)

subsection \<open>Every repository operation keeps the unit of work well formed\<close>

lemma pres_ensure_writable [pres_intros]: "pres P ensure_writable"
  by (simp add: pres_def ensure_writable_def)

lemma pres_modify: "(\<And>u. P u \<Longrightarrow> P (f u)) \<Longrightarrow> pres P (modify_act f)"
  by (simp add: pres_def)

lemma uow_ok_definitions_add [pres_intros]: "pres (uow_ok st) (definitions_add d)"
  unfolding definitions_add_def
  by (intro pres_bnd pres_ensure_writable pres_modify)
    (auto simp: uow_ok_def intro: staged_ok_dset tracked_new tracked_save)

lemma uow_ok_runs_add [pres_intros]: "pres (uow_ok st) (runs_add r)"
  unfolding runs_add_def
  by (intro pres_bnd pres_ensure_writable pres_modify)
    (auto simp: uow_ok_def intro: staged_ok_dset tracked_new tracked_save)

lemma uow_ok_runs_save [pres_intros]: "pres (uow_ok st) (runs_save r n)"
  unfolding runs_save_def
  by (intro pres_bnd pres_ensure_writable pres_lift_res pres_modify)
    (auto simp: uow_ok_def intro: staged_ok_dset tracked_new tracked_save)

lemma uow_ok_steps_add [pres_intros]: "pres (uow_ok st) (steps_add s)"
  unfolding steps_add_def
  by (intro pres_bnd pres_ensure_writable pres_modify)
    (auto simp: uow_ok_def intro: staged_ok_dset tracked_new tracked_save)

lemma uow_ok_steps_save [pres_intros]: "pres (uow_ok st) (steps_save s n)"
  unfolding steps_save_def
  by (intro pres_bnd pres_ensure_writable pres_lift_res pres_modify)
    (auto simp: uow_ok_def intro: staged_ok_dset tracked_new tracked_save)

lemma uow_ok_attempts_add [pres_intros]: "pres (uow_ok st) (attempts_add a)"
  unfolding attempts_add_def
  by (intro pres_bnd pres_ensure_writable pres_get pres_lift_res pres_modify)
    (auto simp: uow_ok_def intro: staged_ok_dset tracked_new tracked_save)

lemma uow_ok_attempts_save [pres_intros]: "pres (uow_ok st) (attempts_save a)"
  unfolding attempts_save_def
  by (intro pres_bnd pres_ensure_writable pres_get pres_lift_res pres_modify)
    (auto simp: uow_ok_def intro: staged_ok_dset tracked_new tracked_save)

lemma uow_ok_approvals_add [pres_intros]: "pres (uow_ok st) (approvals_add a)"
  unfolding approvals_add_def
  by (intro pres_bnd pres_ensure_writable pres_get pres_lift_res pres_modify)
    (auto simp: uow_ok_def intro: staged_ok_dset tracked_new tracked_save)

lemma uow_ok_approvals_save [pres_intros]: "pres (uow_ok st) (approvals_save a n)"
  unfolding approvals_save_def
  by (intro pres_bnd pres_ensure_writable pres_get pres_lift_res pres_modify)
    (auto simp: uow_ok_def intro: staged_ok_dset tracked_new tracked_save)

lemma dget_list_dset [simp]: "dget_list (dset k v d) k' = (if k' = k then v else dget_list d k')"
  by (simp add: dget_list_def)

lemma sequence_of_dset [simp]: "sequence_of (dset k v d) k' = (if k' = k then v else sequence_of d k')"
  by (simp add: sequence_of_def)

lemma pending_event_run:
  assumes "uow_ok st u" and "e \<in> set (dget_list (sn_pending_events u) r)"
  shows "ev_run_id e = r"
proof -
  from assms(2) obtain es where "dget (sn_pending_events u) r = Some es" and e: "e \<in> set es"
    by (cases "dget (sn_pending_events u) r") (auto simp: dget_list_def)
  then have "(r, es) \<in> set (sn_pending_events u)" by (blast dest: map_of_SomeD)
  then show ?thesis using uow_okD(9) [OF assms(1)] e by blast
qed

lemma uow_ok_events_append [pres_intros]: "pres (uow_ok st) (events_append e)"
  unfolding events_append_def
proof (intro pres_bnd pres_ensure_writable presI)
  fix u assume ok: "uow_ok st u"
  let ?es = "dget_list (sn_pending_events u) (ev_run_id e) @ [e]"
  have "\<forall>(r, es) \<in> set (dset (ev_run_id e) ?es (sn_pending_events u)). \<forall>x \<in> set es. ev_run_id x = r"
    using uow_okD(8,9) [OF ok] pending_event_run [OF ok] by (auto simp: set_dset)
  moreover have "dwf (dset (ev_run_id e) ?es (sn_pending_events u))" using uow_okD(8) [OF ok] by simp
  ultimately show "uow_ok st (snd (let staged = ?es
       in (Inr (sequence_of (sn_committed_event_sequences u) (ev_run_id e) + int (length staged), e),
           u\<lparr>sn_pending_events := dset (ev_run_id e) staged (sn_pending_events u)\<rparr>)))"
    using ok by (simp add: uow_ok_def Let_def)
qed

lemma pres_queries [pres_intros]:
  "pres P (definitions_get i v)" "pres P (runs_get r)" "pres P runs_list" "pres P (steps_get r s)"
  "pres P (attempts_list r so)" "pres P (approvals_list r)" "pres P (approvals_get r k)"
  "pres P (events_list r n)"
  by (simp_all add: definitions_get_def runs_get_def runs_list_def steps_get_def attempts_list_def
      approvals_list_def approvals_get_def events_list_def pres_get)

lemma pres_approvals_pending [pres_intros]: "pres P (approvals_pending r)"
  by (simp add: pres_def approvals_pending_def split: list.splits)

section \<open>What a commit does\<close>

lemma check_new_Inr:
  "check_new t f ks table = Inr u \<longleftrightarrow> (\<forall>k \<in> set ks. dget table k = None)"
  unfolding check_new_def sfold_unit_iff by auto

definition actual_revision :: "('v \<Rightarrow> int) \<Rightarrow> ('k, 'v) dict \<Rightarrow> 'k \<Rightarrow> int" where
  "actual_revision revision table k = (case dget table k of None \<Rightarrow> - 1 | Some v \<Rightarrow> revision v)"

definition revisions_match :: "('v \<Rightarrow> int) \<Rightarrow> ('k, int) dict \<Rightarrow> ('k, 'v) dict \<Rightarrow> bool" where
  "revisions_match revision expected table \<longleftrightarrow>
     (\<forall>(k, n) \<in> set expected. actual_revision revision table k = n)"

lemma check_revisions_Inr:
  "check_revisions t f revision expected table = Inr u \<longleftrightarrow> revisions_match revision expected table"
  unfolding check_revisions_def Let_def case_prod_beta sfold_unit_iff revisions_match_def
    actual_revision_def by auto

lemma revisions_matchD:
  "revisions_match revision expected table \<Longrightarrow> dget expected k = Some n \<Longrightarrow>
   actual_revision revision table k = n"
  by (fastforce simp: revisions_match_def dest: map_of_SomeD)

lemma number_from_Nil [simp]: "number_from n [] = []"
  by (simp add: number_from_def)

lemma number_from_length [simp]: "length (number_from n xs) = length xs"
  by (simp add: number_from_def)

lemma number_from_fst: "map fst (number_from n xs) = map (\<lambda>i. n + 1 + int i) [0..<length xs]"
  by (simp add: number_from_def)

lemma number_from_snd [simp]: "map snd (number_from n xs) = xs"
  by (simp add: number_from_def)

lemma number_from_set: "(i, x) \<in> set (number_from n xs) \<Longrightarrow> x \<in> set xs"
  by (auto simp: number_from_def dest: set_zip_rightD)

lemma extend_logs_dget:
  "dwf published \<Longrightarrow> dget_list (extend_logs published logs) r
     = dget_list logs r @ dget_list published r"
proof (induction published arbitrary: logs)
  case Nil
  then show ?case by (simp add: extend_logs_def dget_list_def)
next
  case (Cons p published)
  obtain k es where p: "p = (k, es)" by force
  have "extend_logs (p # published) logs = extend_logs published (dset k (dget_list logs k @ es) logs)"
    by (simp add: extend_logs_def p)
  moreover have "dget_list published k = []"
  proof -
    from Cons.prems p have "k \<notin> fst ` set published" by simp
    then have "dget published k = None" by (simp only: dget_None_iff not_False_eq_True)
    then show ?thesis by (simp add: dget_list_def)
  qed
  moreover have "dget_list (p # published) r = (if r = k then es else dget_list published r)"
    by (simp add: dget_list_def p)
  ultimately show ?case using Cons by auto
qed

lemma extend_logs_dwf: "dwf logs \<Longrightarrow> dwf (extend_logs published logs)"
  by (induction published arbitrary: logs) (auto simp: extend_logs_def)

lemma set_sequences_dget:
  "dwf published \<Longrightarrow> sequence_of (set_sequences published sequences) r
     = (case dget published r of None \<Rightarrow> sequence_of sequences r | Some n \<Rightarrow> n)"
proof (induction published arbitrary: sequences)
  case Nil
  then show ?case by (simp add: set_sequences_def)
next
  case (Cons p published)
  obtain k n where p: "p = (k, n)" by force
  have "set_sequences (p # published) sequences = set_sequences published (dset k n sequences)"
    by (simp add: set_sequences_def p)
  moreover have "dget published k = None"
  proof -
    from Cons.prems p have "k \<notin> fst ` set published" by simp
    then show ?thesis by (simp only: dget_None_iff not_False_eq_True)
  qed
  ultimately show ?case using Cons p by (auto split: option.splits)
qed

lemma set_sequences_dwf: "dwf sequences \<Longrightarrow> dwf (set_sequences published sequences)"
  by (induction published arbitrary: sequences) (auto simp: set_sequences_def)

definition pending_of :: "(approval_key, approval_record) dict \<Rightarrow> string \<Rightarrow> string list" where
  "pending_of table r =
     map (\<lambda>((_, k), _). k) (filter (\<lambda>((r', _), a). r' = r \<and> is_pending a) table)"

lemma count_pending_aux:
  "dwf counts \<Longrightarrow>
   dwf (foldl (\<lambda>counts ((run_id, _), a).
              if is_pending a then dset run_id (sequence_of counts run_id + 1) counts
              else counts) counts table)
   \<and> sequence_of (foldl (\<lambda>counts ((run_id, _), a).
              if is_pending a then dset run_id (sequence_of counts run_id + 1) counts
              else counts) counts table) r
     = sequence_of counts r + int (length (pending_of table r))"
proof (induction table arbitrary: counts)
  case Nil
  then show ?case by (simp add: pending_of_def)
next
  case (Cons e table)
  obtain r' k a where e: "e = ((r', k), a)" by (metis prod.collapse)
  show ?case
  proof (cases "is_pending a")
    case True
    then show ?thesis using Cons.IH [of "dset r' (sequence_of counts r' + 1) counts"] Cons.prems
      by (simp add: e pending_of_def)
  next
    case False
    then show ?thesis using Cons.IH [of counts] Cons.prems by (simp add: e pending_of_def)
  qed
qed

lemma count_pending_of: "sequence_of (count_pending table) r = int (length (pending_of table r))"
  using count_pending_aux [of "[]" table r] by (simp add: count_pending_def sequence_of_def)

lemma count_pending_dwf: "dwf (count_pending table)"
  using count_pending_aux [of "[]" table] by (simp add: count_pending_def)

lemma pending_of_mem:
  "k \<in> set (pending_of table r) \<longleftrightarrow> (\<exists>a. ((r, k), a) \<in> set table \<and> is_pending a)"
  by (auto simp: pending_of_def image_iff)

lemma pending_of_distinct: "dwf table \<Longrightarrow> distinct (pending_of table r)"
proof (induction table)
  case (Cons e table)
  obtain r' k a where e: "e = ((r', k), a)" by (metis prod.collapse)
  have "k \<notin> set (pending_of table r')" using Cons.prems e by (auto simp: pending_of_mem image_iff)
  moreover have "pending_of (e # table) r
      = (if r' = r \<and> is_pending a then k # pending_of table r else pending_of table r)"
    by (simp add: pending_of_def e)
  ultimately show ?case using Cons by auto
qed (simp add: pending_of_def)

lemma length_le_1_iff: "distinct xs \<Longrightarrow> length xs \<le> 1 \<longleftrightarrow> (\<forall>x \<in> set xs. \<forall>y \<in> set xs. x = y)"
proof (cases xs)
  case (Cons x ys)
  assume "distinct xs"
  then show ?thesis using Cons by (cases ys) auto
qed simp

lemma pending_unique_iff:
  assumes "dwf table"
  shows "pending_unique table \<longleftrightarrow> (\<forall>r. length (pending_of table r) \<le> 1)"
  unfolding length_le_1_iff [OF pending_of_distinct [OF assms]] pending_unique_def single_pending_def
  unfolding Ball_def pending_of_mem dget_Some_in_set [OF assms] by blast

lemma find_pending_None:
  assumes "dwf table"
  shows "List.find (\<lambda>(_, n). 1 < n) (count_pending table) = None \<longleftrightarrow> pending_unique table"
proof -
  have "List.find (\<lambda>(_, n). 1 < n) (count_pending table) = None
      \<longleftrightarrow> (\<forall>(r, n) \<in> set (count_pending table). n \<le> 1)"
    by (auto simp: find_None_all)
  also have "\<dots> \<longleftrightarrow> (\<forall>r. sequence_of (count_pending table) r \<le> 1)"
  proof
    assume l: "\<forall>(r, n) \<in> set (count_pending table). n \<le> 1"
    show "\<forall>r. sequence_of (count_pending table) r \<le> 1"
    proof
      fix r show "sequence_of (count_pending table) r \<le> 1"
      proof (cases "dget (count_pending table) r")
        case (Some n)
        then have "(r, n) \<in> set (count_pending table)" by (rule map_of_SomeD)
        then show ?thesis using l Some by (auto simp: sequence_of_def)
      qed (simp add: sequence_of_def)
    qed
  next
    assume r: "\<forall>r. sequence_of (count_pending table) r \<le> 1"
    show "\<forall>(r, n) \<in> set (count_pending table). n \<le> 1"
    proof clarify
      fix i n assume "(i, n) \<in> set (count_pending table)"
      then have "dget (count_pending table) i = Some n" using count_pending_dwf by simp
      then show "n \<le> 1" using r [THEN spec, of i] by (simp add: sequence_of_def)
    qed
  qed
  also have "\<dots> \<longleftrightarrow> pending_unique table"
    unfolding count_pending_of pending_unique_iff [OF assms] by simp
  finally show ?thesis .
qed

text \<open>The tables that a commit leaves, as lookups.\<close>

definition overlay :: "'k list \<Rightarrow> ('k, 'v) dict \<Rightarrow> ('k, 'v) dict \<Rightarrow> 'k \<Rightarrow> 'v option" where
  "overlay ks staged base k = (if k \<in> set ks then dget staged k else dget base k)"

definition conflict_free :: "uow \<Rightarrow> memory_store \<Rightarrow> bool" where
  "conflict_free u st \<longleftrightarrow>
     (\<forall>k \<in> set (sn_new_definition_keys u). dget (ms_definitions st) k = None)
     \<and> (\<forall>k \<in> set (sn_new_run_keys u). dget (ms_runs st) k = None)
     \<and> (\<forall>k \<in> set (sn_new_step_keys u). dget (ms_steps st) k = None)
     \<and> (\<forall>k \<in> set (sn_new_attempt_keys u). dget (ms_attempts st) k = None)
     \<and> (\<forall>k \<in> set (sn_new_approval_keys u). dget (ms_approvals st) k = None)
     \<and> revisions_match wr_revision (sn_run_expected_revisions u) (ms_runs st)
     \<and> revisions_match sr_revision (sn_step_expected_revisions u) (ms_steps st)
     \<and> revisions_match apr_version (sn_approval_expected_versions u) (ms_approvals st)"

lemma log_ok_published:
  assumes "uow_ok base u" and "log_ok st r"
    and "ms_events st' = extend_logs (fst (allocate_events u st)) (ms_events st)"
    and "ms_event_sequences st' = set_sequences (snd (allocate_events u st)) (ms_event_sequences st)"
  shows "dget_list (ms_events st') r = dget_list (ms_events st) r
      @ number_from (sequence_of (ms_event_sequences st) r) (dget_list (sn_pending_events u) r)"
    and "log_ok st' r"
proof -
  let ?p = "sn_pending_events u" and ?seq = "sequence_of (ms_event_sequences st)"
  let ?old = "dget_list (ms_events st) r" and ?new = "dget_list ?p r"
  have dwf: "dwf ?p" using uow_okD(8) [OF assms(1)] .
  have keys: "map fst (fst (allocate_events u st)) = map fst ?p"
    "map fst (snd (allocate_events u st)) = map fst ?p"
    by (simp_all add: allocate_events_def comp_def case_prod_beta)
  have "dget (fst (allocate_events u st)) r = map_option (number_from (?seq r)) (dget ?p r)"
    unfolding allocate_events_def fst_conv by (rule dget_map_keyed)
  then have "dget_list (fst (allocate_events u st)) r = number_from (?seq r) ?new"
    by (simp add: dget_list_def split: option.splits)
  then show ev: "dget_list (ms_events st') r = ?old @ number_from (?seq r) ?new"
    using extend_logs_dget [of "fst (allocate_events u st)"] assms(3) dwf keys by simp
  have "dget (snd (allocate_events u st)) r = map_option (\<lambda>es. ?seq r + int (length es)) (dget ?p r)"
    unfolding allocate_events_def snd_conv by (rule dget_map_keyed)
  then have "sequence_of (ms_event_sequences st') r = ?seq r + int (length ?new)"
    using set_sequences_dget [of "snd (allocate_events u st)" "ms_event_sequences st" r] assms(4) dwf keys
    by (simp add: dget_list_def split: option.splits)
  moreover have "?seq r = int (length ?old)" using assms(2) by (simp add: log_ok_def)
  moreover have "map fst (dget_list (ms_events st') r)
      = map (\<lambda>i. 1 + int i) [0..<length ?old] @ map (\<lambda>i. ?seq r + 1 + int i) [0..<length ?new]"
    using assms(2) by (simp add: ev number_from_fst log_ok_def)
  moreover have "\<dots> = map (\<lambda>i. 1 + int i) [0..<length ?old + length ?new]"
    unfolding \<open>?seq r = int (length ?old)\<close>
    by (rule nth_equalityI) (auto simp: nth_append)
  moreover have "\<forall>(n, e) \<in> set (dget_list (ms_events st') r). ev_run_id e = r"
    using assms(2) pending_event_run [OF assms(1)]
    by (auto simp: ev log_ok_def dest: number_from_set)
  ultimately show "log_ok st' r" by (simp add: log_ok_def ev)
qed

text \<open>
  A commit of a well-formed unit of work succeeds exactly when it is open, nothing it adds or
  saves conflicts with the store as it is now, and no run would get two pending approvals.
\<close>

lemma write_over_cases:
  assumes "staged_ok key_of base staged ks" and "table_ok key_of table"
  obtains t where "write_over ks staged table = Inr t" and "table_ok key_of t"
    and "\<And>k. dget t k = overlay ks staged table k"
proof -
  have "set ks \<subseteq> fst ` set staged" and tk: "table_ok key_of staged"
    using assms(1) unfolding staged_ok_def by blast+
  then obtain t where t: "write_over ks staged table = Inr t" using write_over_total by blast
  have "table_ok key_of t" using write_over_table_ok [OF t tk assms(2)] .
  moreover have "dget t k = overlay ks staged table k" for k
    using write_over_dget [OF t] by (simp add: overlay_def)
  ultimately show ?thesis using t that by blast
qed

lemma validate_uniqueness_Inr:
  assumes "uow_ok base u" and "store_ok st"
    and w: "write_over (sn_new_approval_keys u @ sn_dirty_approval_keys u) (sn_approvals u)
              (ms_approvals st) = Inr ap"
  shows "validate_uniqueness u st = Inr v \<longleftrightarrow>
     (\<forall>k \<in> set (sn_new_definition_keys u). dget (ms_definitions st) k = None)
     \<and> (\<forall>k \<in> set (sn_new_run_keys u). dget (ms_runs st) k = None)
     \<and> (\<forall>k \<in> set (sn_new_step_keys u). dget (ms_steps st) k = None)
     \<and> (\<forall>k \<in> set (sn_new_attempt_keys u). dget (ms_attempts st) k = None)
     \<and> (\<forall>k \<in> set (sn_new_approval_keys u). dget (ms_approvals st) k = None)
     \<and> pending_unique ap"
proof -
  have "table_ok approval_key_of (sn_approvals u)"
    using uow_okD(5) [OF assms(1)] unfolding staged_ok_def by blast
  then have "dwf ap"
    using write_over_table_ok [OF w _ store_okD(5) [OF assms(2)]] table_ok_dwf by blast
  note p = find_pending_None [OF this]
  have "(case List.find (\<lambda>(_, n). 1 < n) (count_pending ap) of None \<Rightarrow> Inr ()
         | Some (run_id, _) \<Rightarrow> Inl (UniquenessError ''pending_approval'' run_id)) = Inr v
       \<longleftrightarrow> pending_unique ap"
    unfolding p [symmetric] by (simp split: option.splits prod.splits)
  then show ?thesis
    unfolding validate_uniqueness_def sbind_Inr_iff check_new_Inr w by blast
qed

lemma validate_revisions_Inr:
  "validate_revisions u st = Inr v \<longleftrightarrow>
     revisions_match wr_revision (sn_run_expected_revisions u) (ms_runs st)
     \<and> revisions_match sr_revision (sn_step_expected_revisions u) (ms_steps st)
     \<and> revisions_match apr_version (sn_approval_expected_versions u) (ms_approvals st)"
  unfolding validate_revisions_def sbind_Inr_iff check_revisions_Inr by blast

definition committed ::
  "uow \<Rightarrow> memory_store \<Rightarrow> memory_store \<Rightarrow> bool" where
  "committed u st st' \<longleftrightarrow>
     dget (ms_definitions st') = overlay (sn_new_definition_keys u) (sn_definitions u) (ms_definitions st)
     \<and> dget (ms_runs st') = overlay (sn_new_run_keys u @ sn_dirty_run_keys u) (sn_runs u) (ms_runs st)
     \<and> dget (ms_steps st') = overlay (sn_new_step_keys u @ sn_dirty_step_keys u) (sn_steps u) (ms_steps st)
     \<and> dget (ms_attempts st')
         = overlay (sn_new_attempt_keys u @ sn_dirty_attempt_keys u) (sn_attempts u) (ms_attempts st)
     \<and> dget (ms_approvals st')
         = overlay (sn_new_approval_keys u @ sn_dirty_approval_keys u) (sn_approvals u) (ms_approvals st)
     \<and> (\<forall>r. dget_list (ms_events st') r = dget_list (ms_events st) r
          @ number_from (sequence_of (ms_event_sequences st) r) (dget_list (sn_pending_events u) r))"

lemma commit_characterised:
  assumes u: "uow_ok base u" and st: "store_ok st"
  obtains st' where "store_ok st' \<or> \<not> pending_unique (ms_approvals st')" and "committed u st st'"
    and "commit u st = Inr (st', u\<lparr>uw_committed := True\<rparr>)
           \<longleftrightarrow> \<not> uw_rolled_back u \<and> \<not> uw_committed u \<and> conflict_free u st
               \<and> pending_unique (ms_approvals st')"
    and "\<And>r. commit u st = Inr r \<Longrightarrow> r = (st', u\<lparr>uw_committed := True\<rparr>)"
    and "\<And>e. commit u st = Inl e \<Longrightarrow>
           (\<exists>m. e = UnitOfWorkStateError m) \<or> (\<exists>t i. e = UniquenessError t i)
           \<or> (\<exists>t i n m. e = OptimisticLockError t i n m)"
proof -
  obtain ds where ds: "write_over (sn_new_definition_keys u) (sn_definitions u) (ms_definitions st) = Inr ds"
    "table_ok definition_key_of ds"
    "\<And>k. dget ds k = overlay (sn_new_definition_keys u) (sn_definitions u) (ms_definitions st) k"
    using write_over_cases [OF uow_okD(1) [OF u] store_okD(1) [OF st]] by metis
  obtain rs where rs: "write_over (sn_new_run_keys u @ sn_dirty_run_keys u) (sn_runs u) (ms_runs st) = Inr rs"
    "table_ok wr_run_id rs"
    "\<And>k. dget rs k = overlay (sn_new_run_keys u @ sn_dirty_run_keys u) (sn_runs u) (ms_runs st) k"
    using write_over_cases [OF uow_okD(2) [OF u] store_okD(2) [OF st]] by metis
  obtain ss where ss: "write_over (sn_new_step_keys u @ sn_dirty_step_keys u) (sn_steps u) (ms_steps st) = Inr ss"
    "table_ok step_key_of ss"
    "\<And>k. dget ss k = overlay (sn_new_step_keys u @ sn_dirty_step_keys u) (sn_steps u) (ms_steps st) k"
    using write_over_cases [OF uow_okD(3) [OF u] store_okD(3) [OF st]] by metis
  obtain at where at: "write_over (sn_new_attempt_keys u @ sn_dirty_attempt_keys u) (sn_attempts u) (ms_attempts st) = Inr at"
    "table_ok attempt_key_of at"
    "\<And>k. dget at k = overlay (sn_new_attempt_keys u @ sn_dirty_attempt_keys u) (sn_attempts u) (ms_attempts st) k"
    using write_over_cases [OF uow_okD(4) [OF u] store_okD(4) [OF st]] by metis
  obtain ap where ap: "write_over (sn_new_approval_keys u @ sn_dirty_approval_keys u) (sn_approvals u) (ms_approvals st) = Inr ap"
    "table_ok approval_key_of ap"
    "\<And>k. dget ap k = overlay (sn_new_approval_keys u @ sn_dirty_approval_keys u) (sn_approvals u) (ms_approvals st) k"
    using write_over_cases [OF uow_okD(5) [OF u] store_okD(5) [OF st]] by metis
  let ?al = "allocate_events u st"
  let ?st' = "\<lparr>ms_definitions = ds, ms_runs = rs, ms_steps = ss, ms_attempts = at,
          ms_approvals = ap, ms_events = extend_logs (fst ?al) (ms_events st),
          ms_event_sequences = set_sequences (snd ?al) (ms_event_sequences st)\<rparr>"
  have pub: "publish u ?al st = Inr ?st'"
    by (simp add: publish_def ds(1) rs(1) ss(1) at(1) ap(1))
  have log: "dget_list (ms_events ?st') r = dget_list (ms_events st) r
      @ number_from (sequence_of (ms_event_sequences st) r) (dget_list (sn_pending_events u) r)
      \<and> log_ok ?st' r" for r
    using log_ok_published [OF u store_okD(9) [OF st], of ?st' r] by simp
  have com: "committed u st ?st'"
    unfolding committed_def using ds(3) rs(3) ss(3) at(3) ap(3) log by (simp add: fun_eq_iff)
  have ok: "store_ok ?st' \<or> \<not> pending_unique (ms_approvals ?st')"
    using ds(2) rs(2) ss(2) at(2) ap(2) log extend_logs_dwf [OF store_okD(7) [OF st]]
      set_sequences_dwf [OF store_okD(8) [OF st]]
    by (simp add: store_ok_def)
  have cf: "(\<exists>v. validate_uniqueness u st = Inr v) \<and> (\<exists>v. validate_revisions u st = Inr v)
      \<longleftrightarrow> conflict_free u st \<and> pending_unique ap"
    unfolding validate_uniqueness_Inr [OF u st ap(1)] validate_revisions_Inr conflict_free_def by blast
  have c: "commit u st =
     (if uw_rolled_back u then Inl (UnitOfWorkStateError ''cannot commit a rolled back unit of work'')
      else if uw_committed u
      then Inl (UnitOfWorkStateError ''cannot commit an already committed unit of work'')
      else case validate_uniqueness u st of Inl e \<Rightarrow> Inl e
      | Inr _ \<Rightarrow> (case validate_revisions u st of Inl e \<Rightarrow> Inl e
         | Inr _ \<Rightarrow> Inr (?st', u\<lparr>uw_committed := True\<rparr>)))"
    unfolding commit_def pub by (auto simp: guard_def split: sum.splits)
  show ?thesis
  proof (rule that [OF ok com])
    show "commit u st = Inr (?st', u\<lparr>uw_committed := True\<rparr>)
           \<longleftrightarrow> \<not> uw_rolled_back u \<and> \<not> uw_committed u \<and> conflict_free u st
               \<and> pending_unique (ms_approvals ?st')"
      using cf unfolding c by (auto split: sum.splits)
    show "r = (?st', u\<lparr>uw_committed := True\<rparr>)" if "commit u st = Inr r" for r
      using that unfolding c by (auto split: sum.splits if_splits)
    have un: "\<exists>t i. e = UniquenessError t i" if "validate_uniqueness u st = Inl e" for e
      using that ap(1) unfolding validate_uniqueness_def sbind_Inl_iff check_new_def
      by (auto dest!: sfold_InlD split: option.splits prod.splits)
    have re: "\<exists>t i n m. e = OptimisticLockError t i n m" if "validate_revisions u st = Inl e" for e
      using that unfolding validate_revisions_def sbind_Inl_iff check_revisions_def Let_def
      by (auto dest!: sfold_InlD)
    show "(\<exists>m. e = UnitOfWorkStateError m) \<or> (\<exists>t i. e = UniquenessError t i)
           \<or> (\<exists>t i n m. e = OptimisticLockError t i n m)" if "commit u st = Inl e" for e
      using that un re unfolding c by (auto split: sum.splits if_splits)
  qed
qed

section \<open>Optimistic locking\<close>

text \<open>
  The contract of the repositories with revisions: a save is visible in its unit of work,
  notes the revision it was based on the first time, and a commit goes through only when the
  store still has that revision.
\<close>

locale versioned_repository =
  fixes save :: "'v \<Rightarrow> int \<Rightarrow> unit uow_act"
    and get :: "uow \<Rightarrow> 'k \<Rightarrow> 'v option"
    and stored :: "memory_store \<Rightarrow> 'k \<Rightarrow> 'v option"
    and new :: "uow \<Rightarrow> 'k list"
    and dirty :: "uow \<Rightarrow> 'k list"
    and expected :: "uow \<Rightarrow> ('k, int) dict"
    and key_of :: "'v \<Rightarrow> 'k"
    and revision :: "'v \<Rightarrow> int"
  assumes save_get: "save v n u = (Inr (), u') \<Longrightarrow>
      get u' k = (if k = key_of v then Some v else get u k)"
    and save_revision: "save v n u = (Inr (), u') \<Longrightarrow> revision v = n + 1"
    and save_new: "save v n u = (Inr (), u') \<Longrightarrow> new u' = new u"
    and save_expected: "save v n u = (Inr (), u') \<Longrightarrow> k \<notin> set (new u) \<Longrightarrow>
      dget (expected u') k =
        (if k = key_of v then Some (case dget (expected u) k of None \<Rightarrow> n | Some m \<Rightarrow> m)
         else dget (expected u) k)"
    and tracks: "uow_ok base u \<Longrightarrow> tracked (new u) (dirty u) (expected u)"
    and staged: "uow_ok base u \<Longrightarrow> k \<in> set (dirty u) \<Longrightarrow> \<exists>v. get u k = Some v"
    and commit_checks: "uow_ok base u \<Longrightarrow> store_ok st \<Longrightarrow> commit u st = Inr (st', u') \<Longrightarrow>
      dget (expected u) k = Some n \<Longrightarrow>
      (case stored st k of None \<Rightarrow> - 1 | Some v \<Rightarrow> revision v) = n"
    and commit_new: "uow_ok base u \<Longrightarrow> store_ok st \<Longrightarrow> commit u st = Inr (st', u') \<Longrightarrow>
      k \<in> set (new u) \<Longrightarrow> stored st k = None"
    and commit_stored: "uow_ok base u \<Longrightarrow> store_ok st \<Longrightarrow> commit u st = Inr (st', u') \<Longrightarrow>
      stored st' k = (if k \<in> set (new u) \<union> set (dirty u) then get u k else stored st k)"
begin

text \<open>A record that a commit replaces had exactly the revision its first save was based on.\<close>

lemma replaced_was_expected:
  assumes "uow_ok base u" and "store_ok st" and "commit u st = Inr (st', u')"
    and "stored st k = Some v" and "stored st' k \<noteq> Some v"
  shows "dget (expected u) k = Some (revision v)"
proof -
  have k: "k \<in> set (new u) \<union> set (dirty u)"
    using commit_stored [OF assms(1-3), of k] assms(4,5) by (auto split: if_splits)
  have "k \<notin> set (new u)" using commit_new [OF assms(1-3)] assms(4) by (metis option.distinct(1))
  with k tracks [OF assms(1)] have "k \<in> fst ` set (expected u)" unfolding tracked_def by blast
  then obtain n where n: "dget (expected u) k = Some n" using key_dget_Some by metis
  with commit_checks [OF assms(1-3) n] assms(4) show ?thesis by simp
qed

text \<open>Of two units of work that saved a record from the same revision, only one commits.\<close>

lemma second_writer_fails:
  assumes ok: "uow_ok base u1" "uow_ok base2 u2" "store_ok st" "store_ok st1"
    and c: "commit u1 st = Inr (st1, u1')"
    and n: "dget (expected u1) k = Some n" "dget (expected u2) k = Some n"
    and v: "get u1 k = Some v" "revision v \<noteq> n"
  shows "\<exists>e. commit u2 st1 = Inl e"
proof -
  have "k \<in> set (dirty u1)"
    using tracks [OF ok(1)] dget_Some_key [OF n(1)] unfolding tracked_def by blast
  then have "stored st1 k = Some v" using commit_stored [OF ok(1,3) c, of k] v by simp
  then have "commit u2 st1 \<noteq> Inr (st2, u2')" for st2 u2'
    using commit_checks [OF ok(2,4) _ n(2), of st2 u2'] v(2) by auto
  then show ?thesis by (cases "commit u2 st1") auto
qed

lemma first_save_expected:
  assumes "save v n u = (Inr (), u')" and "key_of v \<notin> set (new u)" and "dget (expected u) (key_of v) = None"
  shows "dget (expected u') (key_of v) = Some n" and "get u' (key_of v) = Some v"
    and "revision v \<noteq> n"
  using save_expected [OF assms(1,2)] save_get [OF assms(1)] save_revision [OF assms(1)] assms(3)
  by simp_all

end

lemma commit_facts:
  assumes "uow_ok base u" and "store_ok st" and "commit u st = Inr (st', u')"
  shows "store_ok st'" and "committed u st st'" and "conflict_free u st"
    and "u' = u\<lparr>uw_committed := True\<rparr>"
    and "\<not> uw_committed u" and "\<not> uw_rolled_back u"
  using commit_characterised [OF assms(1,2)] assms(3) by (metis Pair_inject)+

lemma ensure_writable_Inr: "ensure_writable u = (Inr x, u') \<Longrightarrow> u' = u"
  by (auto simp: ensure_writable_def split: if_splits)

lemma bnd_writable_Inr:
  "bnd ensure_writable f u = (Inr x, u') \<Longrightarrow> f () u = (Inr x, u')"
  by (auto simp: bnd_def ensure_writable_def split: if_splits)


lemma runs_save_Inr:
  assumes "runs_save v n u = (Inr (), u')"
  shows "wr_revision v = n + 1" and "sn_runs u' = dset (wr_run_id v) v (sn_runs u)" and "sn_new_run_keys u' = sn_new_run_keys u"
    and "sn_run_expected_revisions u' = (if wr_run_id v \<in> set (sn_new_run_keys u) then sn_run_expected_revisions u
           else dset_default (wr_run_id v) n (sn_run_expected_revisions u))"
  using assms
  by (auto simp: runs_save_def bnd_def ensure_writable_def guard_def split: if_splits)

interpretation run_repository: versioned_repository runs_save "\<lambda>u. dget (sn_runs u)" "\<lambda>st. dget (ms_runs st)"
  sn_new_run_keys sn_dirty_run_keys sn_run_expected_revisions wr_run_id wr_revision
proof
  fix base u st st' u' v n k
  show "dget (sn_runs u') k = (if k = wr_run_id v then Some v else dget (sn_runs u) k)"
    if "runs_save v n u = (Inr (), u')"
    unfolding runs_save_Inr(2) [OF that] by simp
  show "wr_revision v = n + 1" if "runs_save v n u = (Inr (), u')"
    using runs_save_Inr(1) [OF that] .
  show "sn_new_run_keys u' = sn_new_run_keys u" if "runs_save v n u = (Inr (), u')"
    using runs_save_Inr(3) [OF that] .
  show "dget (sn_run_expected_revisions u') k =
      (if k = wr_run_id v then Some (case dget (sn_run_expected_revisions u) k of None \<Rightarrow> n | Some m \<Rightarrow> m)
       else dget (sn_run_expected_revisions u) k)"
    if "runs_save v n u = (Inr (), u')" and "k \<notin> set (sn_new_run_keys u)"
    unfolding runs_save_Inr(4) [OF that(1)] using that(2) by auto
  show "tracked (sn_new_run_keys u) (sn_dirty_run_keys u) (sn_run_expected_revisions u)" if "uow_ok base u"
    using uow_okD(10) [OF that] .
  show "\<exists>v. dget (sn_runs u) k = Some v" if "uow_ok base u" and "k \<in> set (sn_dirty_run_keys u)"
    by (rule staged_ok_get [OF uow_okD(2) [OF that(1)]]) (simp add: that(2))
  show "(case dget (ms_runs st) k of None \<Rightarrow> - 1 | Some v \<Rightarrow> wr_revision v) = n"
    if "uow_ok base u" and "store_ok st" and "commit u st = Inr (st', u')"
      and "dget (sn_run_expected_revisions u) k = Some n"
    using commit_facts(3) [OF that(1-3)] revisions_matchD [OF _ that(4), of wr_revision "ms_runs st"]
    unfolding conflict_free_def actual_revision_def by blast
  show "dget (ms_runs st) k = None"
    if "uow_ok base u" and "store_ok st" and "commit u st = Inr (st', u')" and "k \<in> set (sn_new_run_keys u)"
    using commit_facts(3) [OF that(1-3)] that(4) unfolding conflict_free_def by blast
  show "dget (ms_runs st') k
      = (if k \<in> set (sn_new_run_keys u) \<union> set (sn_dirty_run_keys u) then dget (sn_runs u) k else dget (ms_runs st) k)"
    if "uow_ok base u" and "store_ok st" and "commit u st = Inr (st', u')"
    using commit_facts(2) [OF that] by (simp add: committed_def overlay_def)
qed

lemma steps_save_Inr:
  assumes "steps_save v n u = (Inr (), u')"
  shows "sr_revision v = n + 1" and "sn_steps u' = dset (step_key_of v) v (sn_steps u)" and "sn_new_step_keys u' = sn_new_step_keys u"
    and "sn_step_expected_revisions u' = (if step_key_of v \<in> set (sn_new_step_keys u) then sn_step_expected_revisions u
           else dset_default (step_key_of v) n (sn_step_expected_revisions u))"
  using assms
  by (auto simp: steps_save_def bnd_def ensure_writable_def guard_def split: if_splits)

interpretation step_repository: versioned_repository steps_save "\<lambda>u. dget (sn_steps u)" "\<lambda>st. dget (ms_steps st)"
  sn_new_step_keys sn_dirty_step_keys sn_step_expected_revisions step_key_of sr_revision
proof
  fix base u st st' u' v n k
  show "dget (sn_steps u') k = (if k = step_key_of v then Some v else dget (sn_steps u) k)"
    if "steps_save v n u = (Inr (), u')"
    unfolding steps_save_Inr(2) [OF that] by simp
  show "sr_revision v = n + 1" if "steps_save v n u = (Inr (), u')"
    using steps_save_Inr(1) [OF that] .
  show "sn_new_step_keys u' = sn_new_step_keys u" if "steps_save v n u = (Inr (), u')"
    using steps_save_Inr(3) [OF that] .
  show "dget (sn_step_expected_revisions u') k =
      (if k = step_key_of v then Some (case dget (sn_step_expected_revisions u) k of None \<Rightarrow> n | Some m \<Rightarrow> m)
       else dget (sn_step_expected_revisions u) k)"
    if "steps_save v n u = (Inr (), u')" and "k \<notin> set (sn_new_step_keys u)"
    unfolding steps_save_Inr(4) [OF that(1)] using that(2) by auto
  show "tracked (sn_new_step_keys u) (sn_dirty_step_keys u) (sn_step_expected_revisions u)" if "uow_ok base u"
    using uow_okD(11) [OF that] .
  show "\<exists>v. dget (sn_steps u) k = Some v" if "uow_ok base u" and "k \<in> set (sn_dirty_step_keys u)"
    by (rule staged_ok_get [OF uow_okD(3) [OF that(1)]]) (simp add: that(2))
  show "(case dget (ms_steps st) k of None \<Rightarrow> - 1 | Some v \<Rightarrow> sr_revision v) = n"
    if "uow_ok base u" and "store_ok st" and "commit u st = Inr (st', u')"
      and "dget (sn_step_expected_revisions u) k = Some n"
    using commit_facts(3) [OF that(1-3)] revisions_matchD [OF _ that(4), of sr_revision "ms_steps st"]
    unfolding conflict_free_def actual_revision_def by blast
  show "dget (ms_steps st) k = None"
    if "uow_ok base u" and "store_ok st" and "commit u st = Inr (st', u')" and "k \<in> set (sn_new_step_keys u)"
    using commit_facts(3) [OF that(1-3)] that(4) unfolding conflict_free_def by blast
  show "dget (ms_steps st') k
      = (if k \<in> set (sn_new_step_keys u) \<union> set (sn_dirty_step_keys u) then dget (sn_steps u) k else dget (ms_steps st) k)"
    if "uow_ok base u" and "store_ok st" and "commit u st = Inr (st', u')"
    using commit_facts(2) [OF that] by (simp add: committed_def overlay_def)
qed

lemma approvals_save_Inr:
  assumes "approvals_save v n u = (Inr (), u')"
  shows "apr_version v = n + 1" and "sn_approvals u' = dset (approval_key_of v) v (sn_approvals u)" and "sn_new_approval_keys u' = sn_new_approval_keys u"
    and "sn_approval_expected_versions u' = (if approval_key_of v \<in> set (sn_new_approval_keys u) then sn_approval_expected_versions u
           else dset_default (approval_key_of v) n (sn_approval_expected_versions u))"
  using assms
  by (auto simp: approvals_save_def bnd_def ensure_writable_def guard_def split: if_splits)

interpretation approval_repository: versioned_repository approvals_save "\<lambda>u. dget (sn_approvals u)" "\<lambda>st. dget (ms_approvals st)"
  sn_new_approval_keys sn_dirty_approval_keys sn_approval_expected_versions approval_key_of apr_version
proof
  fix base u st st' u' v n k
  show "dget (sn_approvals u') k = (if k = approval_key_of v then Some v else dget (sn_approvals u) k)"
    if "approvals_save v n u = (Inr (), u')"
    unfolding approvals_save_Inr(2) [OF that] by simp
  show "apr_version v = n + 1" if "approvals_save v n u = (Inr (), u')"
    using approvals_save_Inr(1) [OF that] .
  show "sn_new_approval_keys u' = sn_new_approval_keys u" if "approvals_save v n u = (Inr (), u')"
    using approvals_save_Inr(3) [OF that] .
  show "dget (sn_approval_expected_versions u') k =
      (if k = approval_key_of v then Some (case dget (sn_approval_expected_versions u) k of None \<Rightarrow> n | Some m \<Rightarrow> m)
       else dget (sn_approval_expected_versions u) k)"
    if "approvals_save v n u = (Inr (), u')" and "k \<notin> set (sn_new_approval_keys u)"
    unfolding approvals_save_Inr(4) [OF that(1)] using that(2) by auto
  show "tracked (sn_new_approval_keys u) (sn_dirty_approval_keys u) (sn_approval_expected_versions u)" if "uow_ok base u"
    using uow_okD(12) [OF that] .
  show "\<exists>v. dget (sn_approvals u) k = Some v" if "uow_ok base u" and "k \<in> set (sn_dirty_approval_keys u)"
    by (rule staged_ok_get [OF uow_okD(5) [OF that(1)]]) (simp add: that(2))
  show "(case dget (ms_approvals st) k of None \<Rightarrow> - 1 | Some v \<Rightarrow> apr_version v) = n"
    if "uow_ok base u" and "store_ok st" and "commit u st = Inr (st', u')"
      and "dget (sn_approval_expected_versions u) k = Some n"
    using commit_facts(3) [OF that(1-3)] revisions_matchD [OF _ that(4), of apr_version "ms_approvals st"]
    unfolding conflict_free_def actual_revision_def by blast
  show "dget (ms_approvals st) k = None"
    if "uow_ok base u" and "store_ok st" and "commit u st = Inr (st', u')" and "k \<in> set (sn_new_approval_keys u)"
    using commit_facts(3) [OF that(1-3)] that(4) unfolding conflict_free_def by blast
  show "dget (ms_approvals st') k
      = (if k \<in> set (sn_new_approval_keys u) \<union> set (sn_dirty_approval_keys u) then dget (sn_approvals u) k else dget (ms_approvals st) k)"
    if "uow_ok base u" and "store_ok st" and "commit u st = Inr (st', u')"
    using commit_facts(2) [OF that] by (simp add: committed_def overlay_def)
qed

section \<open>The properties of a commit\<close>

text \<open>A unit of work that adds a run and appends an event, on the empty store.\<close>

definition sample_run :: workflow_run where
  "sample_run = new_run ''r'' ''d'' 1 ''digest''"

definition sample_event :: audit_event where
  "sample_event = run_state_changed ''r'' ''pending'' ''running'' 5 0 1"

definition sample_unit :: "unit uow_act" where
  "sample_unit = bnd (runs_add sample_run) (\<lambda>_. bnd (events_append sample_event) (\<lambda>_. ret ()))"

definition sample_uow :: uow where
  "sample_uow = snd (sample_unit (begin_uow empty_store))"

lemma sample_uow_ok: "uow_ok empty_store sample_uow"
  unfolding sample_uow_def sample_unit_def
  by (intro presD [of "uow_ok empty_store"] pres_intros uow_ok_begin store_ok_empty)

definition sample_store :: memory_store where
  "sample_store = empty_store\<lparr>ms_runs := [(''r'', sample_run)],
     ms_events := [(''r'', [(1, sample_event)])], ms_event_sequences := [(''r'', 1)]\<rparr>"

lemmas uow_defs = begin_uow_def ensure_writable_def bnd_def runs_add_def runs_save_def
  events_append_def dget_list_def sequence_of_def add_key_def dset_default_def

lemmas commit_defs = commit_def validate_uniqueness_def check_new_def write_over_def
  count_pending_def validate_revisions_def check_revisions_def publish_def allocate_events_def
  extend_logs_def set_sequences_def number_from_def

lemma sample_commit: "commit sample_uow empty_store = Inr (sample_store, sample_uow\<lparr>uw_committed := True\<rparr>)"
  by (simp add: sample_uow_def sample_unit_def sample_store_def uow_defs commit_defs empty_store_def
      sample_run_def sample_event_def new_run_def run_state_changed_def blank_event_def Let_def)

text \<open>
  C11: a commit that succeeds leaves a well-formed store: every record under its own key, the
  events of each run numbered from one without gaps and appended after the old ones, at most one
  pending approval per run. It changes exactly the keys that the unit of work added or saved, and
  it had no conflict with the store.
\<close>

theorem commit_store_ok:
  assumes "uow_ok base u" and "store_ok st" and "commit u st = Inr (st', u')"
  shows "store_ok st' \<and> committed u st st' \<and> conflict_free u st"
  using commit_facts [OF assms] by blast

theorem commit_store_ok_witness:
  "store_ok sample_store \<and> committed sample_uow empty_store sample_store
   \<and> conflict_free sample_uow empty_store"
  by (rule commit_store_ok [OF sample_uow_ok store_ok_empty sample_commit])

text \<open>
  C12: a commit succeeds exactly when the unit of work is open, nothing it added exists in the
  store, every record it saved still has the revision it was read with, and no run would get a
  second pending approval; otherwise it raises one of the three persistence errors before
  anything is published (no lookup of a staged record can fail halfway).
\<close>

theorem commit_succeeds_iff:
  assumes "uow_ok base u" and "store_ok st"
  shows "((\<exists>r. commit u st = Inr r) \<longleftrightarrow>
      \<not> uw_rolled_back u \<and> \<not> uw_committed u \<and> conflict_free u st
      \<and> single_pending (overlay (sn_new_approval_keys u @ sn_dirty_approval_keys u)
                          (sn_approvals u) (ms_approvals st)))
    \<and> (\<forall>e. commit u st = Inl e \<longrightarrow>
      (\<exists>m. e = UnitOfWorkStateError m) \<or> (\<exists>t i. e = UniquenessError t i)
      \<or> (\<exists>t i n m. e = OptimisticLockError t i n m))"
    (is "(?ok \<longleftrightarrow> ?cond) \<and> ?errors")
proof (intro conjI)
  obtain st' where c: "committed u st st'" and i: "commit u st = Inr (st', u\<lparr>uw_committed := True\<rparr>)
           \<longleftrightarrow> \<not> uw_rolled_back u \<and> \<not> uw_committed u \<and> conflict_free u st
               \<and> pending_unique (ms_approvals st')"
    and r: "\<And>r. commit u st = Inr r \<Longrightarrow> r = (st', u\<lparr>uw_committed := True\<rparr>)"
    by (rule commit_characterised [OF assms]) blast
  have "pending_unique (ms_approvals st') = single_pending (overlay
      (sn_new_approval_keys u @ sn_dirty_approval_keys u) (sn_approvals u) (ms_approvals st))"
    using c by (simp add: committed_def pending_unique_def)
  then show "?ok \<longleftrightarrow> ?cond" using i r by metis
next
  show ?errors using commit_characterised [OF assms] by metis
qed

theorem commit_succeeds_iff_witness:
  "(\<exists>r. commit sample_uow empty_store = Inr r) \<and> conflict_free sample_uow empty_store
   \<and> (\<exists>t i. commit sample_uow sample_store = Inl (UniquenessError t i))
   \<and> \<not> conflict_free sample_uow sample_store"
proof -
  have "conflict_free sample_uow empty_store"
    using commit_succeeds_iff [OF sample_uow_ok store_ok_empty] sample_commit by blast
  moreover have c: "commit sample_uow sample_store = Inl (UniquenessError ''run'' ''r'')"
    by (simp add: sample_uow_def sample_unit_def sample_store_def uow_defs commit_defs empty_store_def
        sample_run_def sample_event_def new_run_def run_state_changed_def blank_event_def Let_def)
  moreover have "\<not> conflict_free sample_uow sample_store"
    by (simp add: conflict_free_def sample_uow_def sample_unit_def sample_store_def uow_defs
        empty_store_def sample_run_def new_run_def Let_def)
  ultimately show ?thesis using sample_commit by blast
qed

text \<open>
  C13: no lost update: of two units of work that saved the same run on the strength of the same
  revision, the second one to commit is refused.
\<close>

theorem run_lost_update:
  assumes "uow_ok base u1" and "uow_ok base2 u2" and "store_ok st"
    and "dget (sn_run_expected_revisions u1) k = Some n"
    and "dget (sn_run_expected_revisions u2) k = Some n"
    and "dget (sn_runs u1) k = Some run" and "wr_revision run = n + 1"
    and "commit u1 st = Inr (st1, u1')"
  shows "\<exists>e. commit u2 st1 = Inl e"
  using run_repository.second_writer_fails [OF assms(1-3) commit_facts(1) [OF assms(1,3,8)] assms(8,4-6)]
    assms(7) by simp

definition sample_run2 :: workflow_run where
  "sample_run2 = sample_run\<lparr>wr_state := RunRunning, wr_revision := 1\<rparr>"

definition sample_save :: uow where
  "sample_save = snd (runs_save sample_run2 0 (begin_uow sample_store))"

theorem run_lost_update_witness:
  "(\<exists>st1 u1. commit sample_save sample_store = Inr (st1, u1) \<and> (\<exists>e. commit sample_save st1 = Inl e))"
proof -
  have st: "store_ok sample_store"
    using commit_facts(1) [OF sample_uow_ok store_ok_empty sample_commit] .
  have u: "uow_ok sample_store sample_save"
    unfolding sample_save_def by (intro presD [of "uow_ok sample_store"] pres_intros uow_ok_begin st)
  have v: "dget (sn_run_expected_revisions sample_save) ''r'' = Some 0"
    "dget (sn_runs sample_save) ''r'' = Some sample_run2" "wr_revision sample_run2 = 0 + 1"
    by (simp_all add: sample_save_def uow_defs sample_run2_def sample_run_def new_run_def)
  obtain st1 u1 where c: "commit sample_save sample_store = Inr (st1, u1)"
  proof (rule that)
    show "commit sample_save sample_store = Inr (sample_store\<lparr>ms_runs := [(''r'', sample_run2)]\<rparr>,
        sample_save\<lparr>uw_committed := True\<rparr>)"
      by (simp add: sample_save_def sample_store_def uow_defs commit_defs empty_store_def
          sample_run_def sample_run2_def new_run_def Let_def)
  qed
  from run_lost_update [OF u u st v(1) v(1) v(2) v(3) c] c show ?thesis by blast
qed

section \<open>A unit of work reads what it will publish\<close>

lemma same_lookup_set:
  assumes "dwf t" and "dwf t'" and "\<And>k. dget t k = dget t' k"
  shows "set t = set t'"
proof -
  have "(k, v) \<in> set t \<longleftrightarrow> (k, v) \<in> set t'" for k v
    using assms by (metis dget_Some_in_set)
  then show ?thesis by auto
qed

lemma sort_key_set_unique:
  assumes "set xs = set ys" and "distinct (map f xs)" and "distinct (map f ys)"
  shows "sort_key f xs = sort_key f ys"
proof (rule sort_key_mset_unique)
  show "mset xs = mset ys"
    using assms by (metis distinct_map set_eq_iff_mset_eq_distinct)
qed (rule assms(2))

lemma map_fst_snd_key:
  "table_ok key_of t \<Longrightarrow> map key_of (map snd (filter P t)) = map fst (filter P t)"
  by (auto simp: table_ok_def)

lemma distinct_by_key:
  assumes "table_ok key_of t"
    and "\<And>k v k' v'. P (k, v) \<Longrightarrow> P (k', v') \<Longrightarrow> key_of v = k \<Longrightarrow> key_of v' = k' \<Longrightarrow>
           f v = f v' \<Longrightarrow> k = k'"
  shows "distinct (map f (map snd (filter P t)))"
proof -
  have "distinct (map fst (filter P t))"
    using table_ok_dwf [OF assms(1)] by (rule distinct_map_filter)
  then have "distinct (map key_of (map snd (filter P t)))"
    unfolding map_fst_snd_key [OF assms(1)] .
  then have d: "distinct (map snd (filter P t))" and i: "inj_on key_of (set (map snd (filter P t)))"
    unfolding distinct_map by blast+
  have "inj_on f (set (map snd (filter P t)))"
  proof (rule inj_onI)
    fix v v' assume "v \<in> set (map snd (filter P t))" and "v' \<in> set (map snd (filter P t))" and f: "f v = f v'"
    then obtain k k' where "(k, v) \<in> set t" "P (k, v)" "(k', v') \<in> set t" "P (k', v')" by auto
    moreover from this assms(1) have "key_of v = k" "key_of v' = k'" by (auto simp: table_ok_def)
    ultimately have "key_of v = key_of v'" using assms(2) f by blast
    then show "v = v'" using i \<open>v \<in> _\<close> \<open>v' \<in> _\<close> by (simp only: inj_on_eq_iff)
  qed
  then show ?thesis using d by (simp only: distinct_map)
qed

lemma attempts_of_distinct:
  assumes "table_ok attempt_key_of t"
  shows "distinct (map (\<lambda>a. (sa_step_id a, sa_attempt_no a, sa_phase a))
           (map snd (filter (\<lambda>((r', s, _, _), _). r' = r \<and>
                          (case so of None \<Rightarrow> True | Some x \<Rightarrow> s = x)) t)))"
  by (rule distinct_by_key [OF assms]) (auto simp: attempt_key_of_def)

lemma attempts_of_same:
  assumes "table_ok attempt_key_of t" and "table_ok attempt_key_of t'" and "\<And>k. dget t k = dget t' k"
  shows "attempts_of t r so = attempts_of t' r so"
proof -
  have "set t = set t'" using assms by (intro same_lookup_set) (auto simp: table_ok_def)
  then show ?thesis unfolding attempts_of_def
    by (intro sort_key_set_unique attempts_of_distinct assms(1,2)) auto
qed

lemma approvals_of_distinct:
  assumes "table_ok approval_key_of t"
  shows "distinct (map apr_key (map snd (filter (\<lambda>((r', _), _). r' = r) t)))"
  by (rule distinct_by_key [OF assms]) (auto simp: approval_key_of_def)

lemma approvals_of_same:
  assumes "table_ok approval_key_of t" and "table_ok approval_key_of t'" and "\<And>k. dget t k = dget t' k"
  shows "approvals_of t r = approvals_of t' r"
proof -
  have "set t = set t'" using assms by (intro same_lookup_set) (auto simp: table_ok_def)
  then show ?thesis unfolding approvals_of_def
    by (intro sort_key_set_unique approvals_of_distinct assms(1,2)) auto
qed

lemma filter_values_same:
  assumes "dwf t" and "dwf t'" and "\<And>k. dget t k = dget t' k"
  shows "mset (filter P t) = mset (filter P t')"
proof -
  have "set t = set t'" using assms by (rule same_lookup_set)
  moreover have "distinct t" and "distinct t'" using assms(1,2) by (auto simp: distinct_map)
  ultimately show ?thesis by (simp add: set_eq_iff_mset_eq_distinct)
qed

lemma runs_list_same:
  assumes "dwf (sn_runs u)" and "dwf (sn_runs u')" and "\<And>k. dget (sn_runs u) k = dget (sn_runs u') k"
  shows "fst (runs_list u) = fst (runs_list u')"
proof -
  have "sort_key fst (sn_runs u) = sort_key fst (sn_runs u')"
    using same_lookup_set [OF assms] assms(1,2) by (rule sort_key_set_unique)
  then show ?thesis by (simp add: runs_list_def get_act_def)
qed

lemma at_most_one_same:
  assumes "mset l = mset l'"
  shows "(case l of [] \<Rightarrow> none | [a] \<Rightarrow> one a | _ \<Rightarrow> many)
       = (case l' of [] \<Rightarrow> none | [a] \<Rightarrow> one a | _ \<Rightarrow> many)"
proof -
  have "length l = length l'" using assms by (metis size_mset)
  moreover have "l = l'" if "length l \<le> 1"
    using that assms calculation by (cases l; cases l') auto
  ultimately show ?thesis
    by (cases "length l \<le> 1") (auto split: list.splits)
qed

lemma approvals_pending_same:
  assumes "dwf (sn_approvals u)" and "dwf (sn_approvals u')"
    and "\<And>k. dget (sn_approvals u) k = dget (sn_approvals u') k"
  shows "fst (approvals_pending r u) = fst (approvals_pending r u')"
proof -
  let ?of = "\<lambda>u. map snd (filter (\<lambda>((r', _), a). r' = r \<and> is_pending a) (sn_approvals u))"
  have "mset (?of u) = mset (?of u')"
    using filter_values_same [OF assms] unfolding mset_map by metis
  moreover have "fst (approvals_pending r u) = (case ?of u of [] \<Rightarrow> Inr None | [a] \<Rightarrow> Inr (Some a)
      | _ \<Rightarrow> Inl (PersistenceError (''multiple pending approvals for run: '' @ r)))" for u
    unfolding approvals_pending_def by (simp split: list.split)
  ultimately show ?thesis using at_most_one_same by fastforce
qed

text \<open>
  The answers of two units of work to every query of the five repositories and the event log agree;
  the answer of \<open>approvals_pending\<close> is its error when several requests are pending.
\<close>

definition reads_as :: "uow \<Rightarrow> uow \<Rightarrow> bool" where
  "reads_as u u' \<longleftrightarrow>
     (\<forall>i v. fst (definitions_get i v u) = fst (definitions_get i v u'))
     \<and> (\<forall>r. fst (runs_get r u) = fst (runs_get r u'))
     \<and> fst (runs_list u) = fst (runs_list u')
     \<and> (\<forall>r s. fst (steps_get r s u) = fst (steps_get r s u'))
     \<and> (\<forall>r so. fst (attempts_list r so u) = fst (attempts_list r so u'))
     \<and> (\<forall>r k. fst (approvals_get r k u) = fst (approvals_get r k u'))
     \<and> (\<forall>r. fst (approvals_list r u) = fst (approvals_list r u'))
     \<and> (\<forall>r. fst (approvals_pending r u) = fst (approvals_pending r u'))
     \<and> (\<forall>r n. fst (events_list r n u) = fst (events_list r n u'))"

lemma overlay_same:
  "staged_ok key_of base staged ks \<Longrightarrow> overlay ks staged base = dget staged"
  unfolding staged_ok_def overlay_def by (rule ext) auto

lemma committed_lookups:
  assumes "uow_ok st u" and "committed u st st'"
  shows "dget (ms_definitions st') = dget (sn_definitions u)" and "dget (ms_runs st') = dget (sn_runs u)"
    and "dget (ms_steps st') = dget (sn_steps u)" and "dget (ms_attempts st') = dget (sn_attempts u)"
    and "dget (ms_approvals st') = dget (sn_approvals u)"
  using assms(2) overlay_same [OF uow_okD(1) [OF assms(1)]] overlay_same [OF uow_okD(2) [OF assms(1)]]
    overlay_same [OF uow_okD(3) [OF assms(1)]] overlay_same [OF uow_okD(4) [OF assms(1)]]
    overlay_same [OF uow_okD(5) [OF assms(1)]]
  by (simp_all add: committed_def)

lemma begin_reads_committed:
  assumes u: "uow_ok st u" and st: "store_ok st" and c: "commit u st = Inr (st', u')"
  shows "reads_as (begin_uow st') u"
proof -
  have st': "store_ok st'" and com: "committed u st st'" using commit_facts [OF u st c] by blast+
  note look = committed_lookups [OF u com]
  have "table_ok attempt_key_of (sn_attempts u)" and "table_ok approval_key_of (sn_approvals u)"
    using uow_okD(4,5) [OF u] unfolding staged_ok_def by blast+
  then have "attempts_of (ms_attempts st') r so = attempts_of (sn_attempts u) r so"
    and "approvals_of (ms_approvals st') r = approvals_of (sn_approvals u) r" for r so
    using attempts_of_same [OF store_okD(4) [OF st']] approvals_of_same [OF store_okD(5) [OF st']] look
    by simp_all
  moreover have "dget_list (ms_events st') r = dget_list (sn_committed_events u) r
      @ number_from (sequence_of (sn_committed_event_sequences u) r) (dget_list (sn_pending_events u) r)" for r
    using com uow_okD(6,7) [OF u] by (simp add: committed_def)
  moreover have "fst (runs_list (begin_uow st')) = fst (runs_list u)"
    using store_okD(2) [OF st'] uow_okD(2) [OF u] look(2)
    by (intro runs_list_same) (auto simp: begin_uow_def staged_ok_def table_ok_def)
  moreover have "fst (approvals_pending r (begin_uow st')) = fst (approvals_pending r u)" for r
    using store_okD(5) [OF st'] uow_okD(5) [OF u] look(5)
    by (intro approvals_pending_same) (auto simp: begin_uow_def staged_ok_def table_ok_def)
  ultimately show ?thesis
    unfolding reads_as_def definitions_get_def runs_get_def steps_get_def attempts_list_def
      approvals_get_def approvals_list_def events_list_def get_act_def begin_uow_def
    by (simp add: look dget_list_def [of "[]"])
qed

text \<open>
  C15: a unit of work that began on the very store it commits to (no other commit in between:
  \<open>uow_ok st u\<close> names the store \<open>st\<close> it was opened on) reads what it will publish: after its commit
  a new unit of work answers every query of the repositories (a definition, a run, all runs, a
  step, attempts, an approval, all approvals of a run, its pending approval, and the numbered
  events) exactly as the committed one did.
\<close>

theorem commit_publishes_reads:
  assumes "store_ok st" and "uow_ok st u" and "commit u st = Inr (st', u')"
  shows "reads_as (begin_uow st') u"
  using begin_reads_committed assms by blast

theorem commit_publishes_reads_witness: "reads_as (begin_uow sample_store) sample_uow"
  by (rule commit_publishes_reads [OF store_ok_empty sample_uow_ok sample_commit])

end
