(* ===== verification/Runtime.thy ===== *)
theory Runtime
  imports Persistence
begin

text \<open>
  What the services of the workflow runtime share: the store they work on, the clock and the
  identifier generator they are given, and the scope \<open>with uow_factory() as uow\<close>.

  Time and identifiers come from outside: the environment gives the answer to each request,
  numbered in the order in which they are made. A service runs alone between the begin and the
  commit of a unit of work; what concurrent units of work do to each other is the subject of the
  commit properties of \<open>Persistence\<close>.
\<close>

record environment =
  en_now :: "nat \<Rightarrow> int"
  en_identifier :: "nat \<Rightarrow> string"

text \<open>\<open>timedelta(seconds=n)\<close> for an integer, in microseconds.\<close>

definition timedelta_int :: "int \<Rightarrow> error + int" where
  "timedelta_int n =
     (if - max_delta \<le> n * 1000000 - 86400000000 \<and> n * 1000000 < max_delta
      then Inr (n * 1000000) else Inl OverflowError)"

record sys =
  sy_store :: memory_store
  sy_ticks :: nat

type_synonym ('z, 'a) service = "('z sys_scheme, error, 'a) act"
type_synonym ('z, 'a) body = "(uow \<times> 'z sys_scheme, error, 'a) act"

definition tick :: "(nat \<Rightarrow> 'a) \<Rightarrow> ('z, 'a) service" where
  "tick f s = (Inr (f (sy_ticks s)), s\<lparr>sy_ticks := Suc (sy_ticks s)\<rparr>)"

definition clock_now :: "environment \<Rightarrow> ('z, int) service" where
  "clock_now env = tick (en_now env)"

definition new_identifier :: "environment \<Rightarrow> ('z, string) service" where
  "new_identifier env = tick (en_identifier env)"

text \<open>Inside the scope: operations of the repositories, and of the service around them.\<close>

definition on_uow :: "'a uow_act \<Rightarrow> ('z, 'a) body" where
  "on_uow m p = (case m (fst p) of (r, u) \<Rightarrow> (r, (u, snd p)))"

definition on_service :: "('z, 'a) service \<Rightarrow> ('z, 'a) body" where
  "on_service m p = (case m (snd p) of (r, s) \<Rightarrow> (r, (fst p, s)))"

definition uow_commit :: "('z, unit) body" where
  "uow_commit p =
     (case commit (fst p) (sy_store (snd p)) of
        Inl e \<Rightarrow> (Inl e, p)
      | Inr (st, u) \<Rightarrow> (Inr (), (u, (snd p)\<lparr>sy_store := st\<rparr>)))"

text \<open>The scope: what was not committed when it is left is discarded.\<close>

definition with_uow :: "('z, 'a) body \<Rightarrow> ('z, 'a) service" where
  "with_uow m s = (case m (begin_uow (sy_store s), s) of (r, (u, s')) \<Rightarrow> (r, s'))"

text \<open>\<open>any(p(x) for x in xs)\<close> and \<open>next((x for x in xs if p(x)), None)\<close> with tests that may raise.\<close>

fun any_act :: "('a \<Rightarrow> ('s, 'e, bool) act) \<Rightarrow> 'a list \<Rightarrow> ('s, 'e, bool) act" where
  "any_act p [] = ret False"
| "any_act p (x # xs) = bnd (p x) (\<lambda>b. if b then ret True else any_act p xs)"

fun first_act :: "('a \<Rightarrow> ('s, 'e, bool) act) \<Rightarrow> 'a list \<Rightarrow> ('s, 'e, 'a option) act" where
  "first_act p [] = ret None"
| "first_act p (x # xs) = bnd (p x) (\<lambda>b. if b then ret (Some x) else first_act p xs)"

fun map_act :: "('a \<Rightarrow> ('s, 'e, 'b) act) \<Rightarrow> 'a list \<Rightarrow> ('s, 'e, 'b list) act" where
  "map_act f [] = ret []"
| "map_act f (x # xs) = bnd (f x) (\<lambda>y. bnd (map_act f xs) (\<lambda>ys. ret (y # ys)))"

definition iter_act :: "('a \<Rightarrow> ('s, 'e, unit) act) \<Rightarrow> 'a list \<Rightarrow> ('s, 'e, unit) act" where
  "iter_act f xs = afold (\<lambda>x _. f x) xs ()"

text \<open>\<open>x.attribute\<close> on what may be \<open>None\<close>, and \<open>next\<close> without a default.\<close>

definition none_attribute :: error where
  "none_attribute = AttributeError ''NoneType object has no attribute''"

definition need :: "error \<Rightarrow> 'a option \<Rightarrow> ('s, error, 'a) act" where
  "need e x = lift_res (or_raise x e)"

definition first_of :: "('a \<Rightarrow> bool) \<Rightarrow> 'a list \<Rightarrow> ('s, error, 'a) act" where
  "first_of p xs = need StopIteration (List.find p xs)"

definition unknown_run :: "string \<Rightarrow> error" where
  "unknown_run r = LookupError (''unknown run '' @ r)"

definition unknown_definition :: "workflow_run \<Rightarrow> error" where
  "unknown_definition run =
     LookupError (''unknown definition '' @ wr_definition_id run @ ''@''
                  @ int_text (wr_definition_version run))"

text \<open>\<open>uow.runs.get\<close> with the exception the services raise, and the definition of a run.\<close>

definition run_or_raise :: "string \<Rightarrow> ('z, workflow_run) body" where
  "run_or_raise r = bnd (on_uow (runs_get r)) (need (unknown_run r))"

definition definition_of :: "workflow_run \<Rightarrow> ('z, workflow_definition option) body" where
  "definition_of run = on_uow (definitions_get (wr_definition_id run) (wr_definition_version run))"

definition definition_or_raise :: "workflow_run \<Rightarrow> ('z, workflow_definition) body" where
  "definition_or_raise run = bnd (definition_of run) (need (unknown_definition run))"

section \<open>Reasoning about the scope\<close>

text \<open>
  Inside a scope the store is well formed and the unit of work began on some store.
\<close>

definition sys_ok :: "'z sys_scheme \<Rightarrow> bool" where
  "sys_ok s \<longleftrightarrow> store_ok (sy_store s)"

definition body_ok :: "uow \<times> 'z sys_scheme \<Rightarrow> bool" where
  "body_ok p \<longleftrightarrow> (\<exists>base. uow_ok base (fst p)) \<and> store_ok (sy_store (snd p))"

lemma pres_tick [pres_intros]:
  "(\<And>s n. P s \<Longrightarrow> P (s\<lparr>sy_ticks := n\<rparr>)) \<Longrightarrow> pres P (tick f)"
  by (simp add: pres_def tick_def)

lemma sys_ok_ticks [simp]: "sys_ok (s\<lparr>sy_ticks := n\<rparr>) = sys_ok s"
  by (simp add: sys_ok_def)

lemma pres_clock [pres_intros]: "pres sys_ok (clock_now env)" "pres sys_ok (new_identifier env)"
  by (auto simp: clock_now_def new_identifier_def intro!: pres_tick)

lemma pres_on_uow [pres_intros]:
  assumes "\<And>base. pres (uow_ok base) m"
  shows "pres body_ok (on_uow m)"
proof (rule presI)
  fix p :: "uow \<times> 'z sys_scheme" assume "body_ok p"
  then obtain base where "uow_ok base (fst p)" and st: "store_ok (sy_store (snd p))"
    by (auto simp: body_ok_def)
  then have "uow_ok base (snd (m (fst p)))" using presD [OF assms] by blast
  then show "body_ok (snd (on_uow m p))"
    using st by (auto simp: body_ok_def on_uow_def split: prod.splits)
qed

lemma pres_on_service [pres_intros]: "pres sys_ok m \<Longrightarrow> pres body_ok (on_service m)"
  by (auto simp: pres_def body_ok_def sys_ok_def on_service_def split: prod.splits)

lemma pres_uow_commit [pres_intros]: "pres body_ok uow_commit"
proof (rule presI)
  fix p :: "uow \<times> 'z sys_scheme" assume p: "body_ok p"
  then obtain base where u: "uow_ok base (fst p)" and st: "store_ok (sy_store (snd p))"
    by (auto simp: body_ok_def)
  show "body_ok (snd (uow_commit p))"
  proof (cases "commit (fst p) (sy_store (snd p))")
    case (Inr r)
    obtain st' u' where r: "r = (st', u')" by force
    note c = commit_facts [OF u st Inr [unfolded r]]
    have "uow_ok base u'" using u c(4) by (simp add: uow_ok_def)
    then show ?thesis using c(1) Inr r by (auto simp: uow_commit_def body_ok_def)
  qed (use p in \<open>simp add: uow_commit_def\<close>)
qed

lemma pres_with_uow [pres_intros]:
  fixes m :: "('z, 'a) body"
  assumes "pres body_ok m"
  shows "pres sys_ok (with_uow m)"
proof (rule presI)
  fix s :: "'z sys_scheme" assume "sys_ok s"
  then have "body_ok (begin_uow (sy_store s), s)"
    using uow_ok_begin [of "sy_store s"] unfolding body_ok_def sys_ok_def by auto
  from presD [OF assms this] show "sys_ok (snd (with_uow m s))"
    by (auto simp: with_uow_def body_ok_def sys_ok_def split: prod.splits)
qed

lemma pres_any_act [pres_intros]: "(\<And>x. x \<in> set xs \<Longrightarrow> pres P (p x)) \<Longrightarrow> pres P (any_act p xs)"
  by (induction xs) (auto intro!: pres_intros)

lemma pres_first_act [pres_intros]: "(\<And>x. x \<in> set xs \<Longrightarrow> pres P (p x)) \<Longrightarrow> pres P (first_act p xs)"
  by (induction xs) (auto intro!: pres_intros)

lemma pres_map_act [pres_intros]: "(\<And>x. x \<in> set xs \<Longrightarrow> pres P (f x)) \<Longrightarrow> pres P (map_act f xs)"
  by (induction xs) (auto intro!: pres_intros)

lemma pres_iter_act [pres_intros]: "(\<And>x. x \<in> set xs \<Longrightarrow> pres P (f x)) \<Longrightarrow> pres P (iter_act f xs)"
  unfolding iter_act_def by (intro pres_intros)

lemma pres_need [pres_intros]: "pres P (need e x)" "pres P (first_of p xs)"
  by (simp_all add: need_def first_of_def pres_lift_res)

lemma pres_getters [pres_intros]:
  "pres body_ok (run_or_raise r)" "pres body_ok (definition_of run)"
  "pres body_ok (definition_or_raise run)"
  unfolding run_or_raise_def definition_or_raise_def definition_of_def by (intro pres_intros)+

end
