(* ===== verification/Views.thy ===== *)
theory Views
  imports Runtime
begin

text \<open>
  Reasoning about a unit of work by what it shows. The view of a store, or of a unit of work on
  it, is its tables as lookups and its logs as lists of events; a commit on the store the unit of
  work began on leaves exactly the view the unit of work showed. \<open>wpb\<close> is a weakest
  precondition for code inside a \<open>with\<close> scope: what has to hold of the view before, so that an
  invariant of the store holds whatever happens and, if the code returns without having
  committed, a condition of its result and of the view it leaves.
\<close>

named_theorems wpb_intros \<open>weakest preconditions of code inside a scope\<close>

record view =
  vw_definitions :: "definition_key \<Rightarrow> workflow_definition option"
  vw_runs :: "string \<Rightarrow> workflow_run option"
  vw_steps :: "step_key \<Rightarrow> step_run option"
  vw_attempts :: "attempt_key \<Rightarrow> step_attempt option"
  vw_approvals :: "approval_key \<Rightarrow> approval_record option"
  vw_log :: "string \<Rightarrow> audit_event list"
  vw_new_runs :: "string set"

definition store_view :: "memory_store \<Rightarrow> view" where
  "store_view st =
     \<lparr>vw_definitions = dget (ms_definitions st), vw_runs = dget (ms_runs st),
      vw_steps = dget (ms_steps st), vw_attempts = dget (ms_attempts st),
      vw_approvals = dget (ms_approvals st),
      vw_log = (\<lambda>r. map snd (dget_list (ms_events st) r)), vw_new_runs = {}\<rparr>"

definition uow_view :: "uow \<Rightarrow> view" where
  "uow_view u =
     \<lparr>vw_definitions = dget (sn_definitions u), vw_runs = dget (sn_runs u),
      vw_steps = dget (sn_steps u), vw_attempts = dget (sn_attempts u),
      vw_approvals = dget (sn_approvals u),
      vw_log = (\<lambda>r. map snd (dget_list (sn_committed_events u) r) @ dget_list (sn_pending_events u) r),
      vw_new_runs = set (sn_new_run_keys u)\<rparr>"

definition view_event :: "audit_event \<Rightarrow> view \<Rightarrow> view" where
  "view_event e v = v\<lparr>vw_log := (vw_log v)(ev_run_id e := vw_log v (ev_run_id e) @ [e])\<rparr>"

lemma view_event_simps [simp]:
  "vw_definitions (view_event e v) = vw_definitions v" "vw_runs (view_event e v) = vw_runs v"
  "vw_steps (view_event e v) = vw_steps v" "vw_attempts (view_event e v) = vw_attempts v"
  "vw_approvals (view_event e v) = vw_approvals v" "vw_new_runs (view_event e v) = vw_new_runs v"
  "vw_log (view_event e v) r = vw_log v r @ (if r = ev_run_id e then [e] else [])"
  by (simp_all add: view_event_def)

lemma uow_view_begin [simp]: "uow_view (begin_uow st) = store_view st"
  by (simp add: uow_view_def store_view_def begin_uow_def dget_list_def fun_eq_iff)

lemma map_snd_number_from [simp]: "map snd (number_from n xs) = xs"
  by (simp add: number_from_def)

text \<open>A commit on the store the unit of work began on publishes its view.\<close>

lemma commit_view:
  assumes u: "uow_ok st u" and st: "store_ok st" and c: "commit u st = Inr (st', u')"
  shows "store_ok st'" and "store_view st' = (uow_view u)\<lparr>vw_new_runs := {}\<rparr>" and "uw_committed u'"
    and "\<forall>r \<in> vw_new_runs (uow_view u). vw_runs (store_view st) r = None"
    and "\<not> uw_committed u"
proof -
  have st': "store_ok st'" and com: "committed u st st'"
    using commit_facts [OF u st c] by blast+
  obtain st2 where c2: "commit u st = Inr (st2, u\<lparr>uw_committed := True\<rparr>)
           \<longleftrightarrow> \<not> uw_rolled_back u \<and> \<not> uw_committed u \<and> conflict_free u st
               \<and> pending_unique (ms_approvals st2)"
    and eq: "\<And>r. commit u st = Inr r \<Longrightarrow> r = (st2, u\<lparr>uw_committed := True\<rparr>)"
    using commit_characterised [OF u st] by metis
  have e: "st' = st2" "u' = u\<lparr>uw_committed := True\<rparr>" using eq [OF c] by simp_all
  with c c2 have cf: "conflict_free u st" and nc: "\<not> uw_committed u" by auto
  show "store_ok st'" by (rule st')
  show "uw_committed u'" using e by simp
  show "\<not> uw_committed u" by (rule nc)
  show "\<forall>r \<in> vw_new_runs (uow_view u). vw_runs (store_view st) r = None"
    using cf unfolding conflict_free_def by (simp add: uow_view_def store_view_def)
  note look = committed_lookups [OF u com]
  have "map snd (dget_list (ms_events st') r)
      = map snd (dget_list (sn_committed_events u) r) @ dget_list (sn_pending_events u) r" for r
    using com uow_okD(6) [OF u] by (simp add: committed_def)
  then show "store_view st' = (uow_view u)\<lparr>vw_new_runs := {}\<rparr>"
    by (simp add: store_view_def uow_view_def look fun_eq_iff)
qed

section \<open>Code that leaves the store alone\<close>

definition sys_is :: "memory_store \<Rightarrow> 'z sys_scheme \<Rightarrow> bool" where
  "sys_is st s \<longleftrightarrow> sy_store s = st"

definition body_is :: "memory_store \<Rightarrow> uow \<times> 'z sys_scheme \<Rightarrow> bool" where
  "body_is st p \<longleftrightarrow> sy_store (snd p) = st"

lemma quiet_on_uow [pres_intros]: "pres (body_is st) (on_uow m)"
  by (auto simp: pres_def body_is_def on_uow_def split: prod.splits)

lemma quiet_on_service [pres_intros]: "pres (sys_is st) m \<Longrightarrow> pres (body_is st) (on_service m)"
  by (auto simp: pres_def body_is_def sys_is_def on_service_def split: prod.splits)

lemma quiet_tick [pres_intros]:
  "pres (sys_is st) (tick f)" "pres (sys_is st) (clock_now env)" "pres (sys_is st) (new_identifier env)"
  by (simp_all add: pres_def sys_is_def tick_def clock_now_def new_identifier_def)

lemma quiet_with_uow [pres_intros]:
  fixes m :: "('z, 'a) body"
  assumes "pres (body_is st) m"
  shows "pres (sys_is st) (with_uow m)"
proof (rule presI)
  fix s :: "'z sys_scheme" assume "sys_is st s"
  then have "body_is st (begin_uow (sy_store s), s)" by (simp add: sys_is_def body_is_def)
  from presD [OF assms this] show "sys_is st (snd (with_uow m s))"
    by (auto simp: with_uow_def body_is_def sys_is_def split: prod.splits)
qed

lemma quiet_getters [pres_intros]:
  "pres (body_is st) (run_or_raise r)" "pres (body_is st) (definition_of run)"
  "pres (body_is st) (definition_or_raise run)"
  unfolding run_or_raise_def definition_or_raise_def definition_of_def by (intro pres_intros)+

section \<open>Weakest preconditions inside a scope\<close>

text \<open>
  A scope is open with a view, or its commit is done and the view is the store's. \<open>I\<close> is what has to hold of the
  store at every exit; \<open>b\<close> is the view of the store the scope was opened on.
\<close>

datatype scope = Open view | Closed view

definition in_scope ::
  "(view \<Rightarrow> bool) \<Rightarrow> view \<Rightarrow> uow \<Rightarrow> 'z sys_scheme \<Rightarrow> scope \<Rightarrow> bool" where
  "in_scope I b u s \<sigma> \<longleftrightarrow> store_ok (sy_store s) \<and> I (store_view (sy_store s))
     \<and> (case \<sigma> of Closed v \<Rightarrow> uw_committed u \<and> store_view (sy_store s) = v
          | Open h \<Rightarrow> uow_ok (sy_store s) u \<and> store_view (sy_store s) = b \<and> uow_view u = h)"

definition wpb ::
  "(view \<Rightarrow> bool) \<Rightarrow> view \<Rightarrow> ('z, 'a) body \<Rightarrow> ('a \<Rightarrow> scope \<Rightarrow> bool) \<Rightarrow> scope \<Rightarrow> bool" where
  "wpb I b m Q \<sigma> \<longleftrightarrow>
     (\<forall>u s. in_scope I b u s \<sigma> \<longrightarrow>
        (case m (u, s) of (r, (u', s')) \<Rightarrow>
           store_ok (sy_store s') \<and> I (store_view (sy_store s'))
           \<and> (\<forall>x. r = Inr x \<longrightarrow> (\<exists>\<sigma>'. in_scope I b u' s' \<sigma>' \<and> Q x \<sigma>'))))"

lemma wpbI:
  assumes "\<And>u s r u' s'. in_scope I b u s \<sigma> \<Longrightarrow> m (u, s) = (r, (u', s')) \<Longrightarrow>
      store_ok (sy_store s') \<and> I (store_view (sy_store s'))
      \<and> (\<forall>x. r = Inr x \<longrightarrow> (\<exists>\<sigma>'. in_scope I b u' s' \<sigma>' \<and> Q x \<sigma>'))"
  shows "wpb I b m Q \<sigma>"
  unfolding wpb_def using assms by (auto split: prod.splits)

lemma wpbD:
  assumes "wpb I b m Q \<sigma>" and "in_scope I b u s \<sigma>" and "m (u, s) = (r, (u', s'))"
  shows "store_ok (sy_store s')" and "I (store_view (sy_store s'))"
    and "r = Inr x \<Longrightarrow> \<exists>\<sigma>'. in_scope I b u' s' \<sigma>' \<and> Q x \<sigma>'"
  using assms unfolding wpb_def by (fastforce split: prod.splits)+

lemma in_scopeD:
  assumes "in_scope I b u s \<sigma>"
  shows "store_ok (sy_store s)" and "I (store_view (sy_store s))"
  using assms by (simp_all add: in_scope_def)

lemma wpb_mono:
  assumes "wpb I b m Q \<sigma>" and "\<And>x \<sigma>'. Q x \<sigma>' \<Longrightarrow> Q' x \<sigma>'"
  shows "wpb I b m Q' \<sigma>"
  using assms unfolding wpb_def by (fastforce split: prod.splits)

lemma wpb_pure:
  assumes "\<And>p. m p = (r, p)" and "\<And>x. r = Inr x \<Longrightarrow> Q x \<sigma>"
  shows "wpb I b m Q \<sigma>"
proof (rule wpbI)
  fix u s r' u' s' assume sc: "in_scope I b u s \<sigma>" and "m (u, s) = (r', (u', s'))"
  then have "r' = r" and "u' = u" and "s' = s" using assms(1) [of "(u, s)"] by simp_all
  then show "store_ok (sy_store s') \<and> I (store_view (sy_store s'))
      \<and> (\<forall>x. r' = Inr x \<longrightarrow> (\<exists>\<sigma>'. in_scope I b u' s' \<sigma>' \<and> Q x \<sigma>'))"
    using assms(2) sc in_scopeD [OF sc] by blast
qed

lemma wpb_ret [wpb_intros]: "Q x \<sigma> \<Longrightarrow> wpb I b (ret x) Q \<sigma>"
  by (rule wpb_pure) auto

lemma wpb_raise [wpb_intros]: "wpb I b (raise_act e) Q \<sigma>"
  by (rule wpb_pure) auto

lemma wpb_lift_res [wpb_intros]: "(\<And>x. r = Inr x \<Longrightarrow> Q x \<sigma>) \<Longrightarrow> wpb I b (lift_res r) Q \<sigma>"
  by (rule wpb_pure) auto

lemma wpb_need [wpb_intros]: "(\<And>x. v = Some x \<Longrightarrow> Q x \<sigma>) \<Longrightarrow> wpb I b (need e v) Q \<sigma>"
  unfolding need_def by (rule wpb_lift_res) simp

lemma wpb_first_of [wpb_intros]:
  "(\<And>x. x \<in> set xs \<Longrightarrow> p x \<Longrightarrow> Q x \<sigma>) \<Longrightarrow> wpb I b (first_of p xs) Q \<sigma>"
  unfolding first_of_def by (rule wpb_need) (auto dest: find_Some_iff_first)

lemma wpb_bnd [wpb_intros]:
  assumes m: "wpb I b m (\<lambda>x. wpb I b (f x) Q) \<sigma>"
  shows "wpb I b (bnd m f) Q \<sigma>"
proof (rule wpbI)
  fix u s r u' s' assume sc: "in_scope I b u s \<sigma>" and run: "bnd m f (u, s) = (r, (u', s'))"
  obtain r1 u1 s1 where m1: "m (u, s) = (r1, (u1, s1))" by (metis prod.collapse)
  note w = wpbD [OF m sc m1]
  show "store_ok (sy_store s') \<and> I (store_view (sy_store s'))
      \<and> (\<forall>x. r = Inr x \<longrightarrow> (\<exists>\<sigma>'. in_scope I b u' s' \<sigma>' \<and> Q x \<sigma>'))"
  proof (cases r1)
    case (Inl e)
    then show ?thesis using run m1 w(1,2) by (auto simp: bnd_def)
  next
    case (Inr x)
    then obtain \<sigma>1 where "in_scope I b u1 s1 \<sigma>1" and "wpb I b (f x) Q \<sigma>1" using w(3) by blast
    moreover have "f x (u1, s1) = (r, (u', s'))" using run m1 Inr by (simp add: bnd_def)
    ultimately show ?thesis using wpbD [of I b "f x" Q \<sigma>1 u1 s1 r u' s'] by blast
  qed
qed

lemma wpb_if [wpb_intros]:
  "(c \<Longrightarrow> wpb I b m Q \<sigma>) \<Longrightarrow> (\<not> c \<Longrightarrow> wpb I b m' Q \<sigma>) \<Longrightarrow> wpb I b (if c then m else m') Q \<sigma>"
  by simp

lemma wpb_case_option [wpb_intros]:
  "(x = None \<Longrightarrow> wpb I b m Q \<sigma>) \<Longrightarrow> (\<And>y. x = Some y \<Longrightarrow> wpb I b (f y) Q \<sigma>) \<Longrightarrow>
   wpb I b (case x of None \<Rightarrow> m | Some y \<Rightarrow> f y) Q \<sigma>"
  by (cases x) auto

lemma wpb_case_prod [wpb_intros]:
  "(\<And>y z. x = (y, z) \<Longrightarrow> wpb I b (f y z) Q \<sigma>) \<Longrightarrow> wpb I b (case x of (y, z) \<Rightarrow> f y z) Q \<sigma>"
  by (cases x) auto

text \<open>The clock, the probe and whatever else of the service leaves the store alone.\<close>

lemma wpb_on_service:
  fixes m :: "('z, 'a) service"
  assumes "\<And>st. pres (sys_is st) m" and "\<And>x. Q x \<sigma>"
  shows "wpb I b (on_service m) Q \<sigma>"
proof (rule wpbI)
  fix u :: uow and s :: "'z sys_scheme" and r u' s'
  assume sc: "in_scope I b u s \<sigma>" and run: "on_service m (u, s) = (r, (u', s'))"
  have "sy_store (snd (m s)) = sy_store s"
    using presD [OF assms(1), of "sy_store s" s] by (simp add: sys_is_def)
  then have "u' = u" and "sy_store s' = sy_store s"
    using run by (auto simp: on_service_def split: prod.splits)
  then have "in_scope I b u' s' \<sigma>" using sc by (simp add: in_scope_def split: scope.splits)
  then show "store_ok (sy_store s') \<and> I (store_view (sy_store s'))
      \<and> (\<forall>x. r = Inr x \<longrightarrow> (\<exists>\<sigma>'. in_scope I b u' s' \<sigma>' \<and> Q x \<sigma>'))"
    using assms(2) in_scopeD by blast
qed

lemma wpb_clock [wpb_intros]:
  "(\<And>x. Q x \<sigma>) \<Longrightarrow> wpb I b (on_service (clock_now env)) Q \<sigma>"
  "(\<And>x. Q1 x \<sigma>) \<Longrightarrow> wpb I b (on_service (new_identifier env)) Q1 \<sigma>"
  "(\<And>x. Q2 x \<sigma>) \<Longrightarrow> wpb I b (on_service (get_act g)) Q2 \<sigma>"
  by (rule wpb_on_service, intro pres_intros, assumption)+

section \<open>The repositories\<close>

lemma wpb_on_uow:
  assumes "\<And>st. pres (uow_ok st) m"
    and "\<And>u st r u'. uow_ok st u \<Longrightarrow> uow_view u = h \<Longrightarrow> m u = (Inr r, u') \<Longrightarrow> Q r (Open (uow_view u'))"
  shows "wpb I b (on_uow m) Q (Open h)"
proof (rule wpbI)
  fix u s r u' s'
  assume sc: "in_scope I b u s (Open h)" and run: "on_uow m (u, s) = (r, (u', s'))"
  then have m: "m u = (r, u')" and s': "s' = s" by (auto simp: on_uow_def split: prod.splits)
  have u: "uow_ok (sy_store s) u" and h: "uow_view u = h" using sc by (simp_all add: in_scope_def)
  have "uow_ok (sy_store s) u'" using presD [OF assms(1) u] m by simp
  then have "in_scope I b u' s' (Open (uow_view u'))" using sc s' by (auto simp: in_scope_def)
  then show "store_ok (sy_store s') \<and> I (store_view (sy_store s'))
      \<and> (\<forall>x. r = Inr x \<longrightarrow> (\<exists>\<sigma>'. in_scope I b u' s' \<sigma>' \<and> Q x \<sigma>'))"
    using assms(2) [OF u h] m in_scopeD by blast
qed

text \<open>The reads.\<close>

lemma pres_uow_get: "pres (uow_ok st) (get_act f)"
  by (simp add: pres_def)

lemma wpb_reads [wpb_intros]:
  "Q1 (vw_runs h r) (Open h) \<Longrightarrow> wpb I b (on_uow (runs_get r)) Q1 (Open h)"
  "Q2 (vw_steps h (r, s)) (Open h) \<Longrightarrow> wpb I b (on_uow (steps_get r s)) Q2 (Open h)"
  "Q3 (vw_definitions h (i, n)) (Open h) \<Longrightarrow> wpb I b (on_uow (definitions_get i n)) Q3 (Open h)"
  "Q4 (vw_approvals h (r, k)) (Open h) \<Longrightarrow> wpb I b (on_uow (approvals_get r k)) Q4 (Open h)"
  by (rule wpb_on_uow;
      auto simp: runs_get_def steps_get_def definitions_get_def approvals_get_def uow_view_def
        pres_uow_get)+

lemma attempts_of_members:
  assumes "table_ok attempt_key_of t"
  shows "set (attempts_of t r so)
       = {a. dget t (attempt_key_of a) = Some a \<and> sa_run_id a = r
             \<and> (\<forall>s. so = Some s \<longrightarrow> sa_step_id a = s)}"
proof -
  have d: "dwf t" and k: "\<forall>(k, v) \<in> set t. attempt_key_of v = k" using assms by (simp_all add: table_ok_def)
  have "a \<in> set (attempts_of t r so) \<longleftrightarrow> (\<exists>k. (k, a) \<in> set t \<and> fst k = r
          \<and> (\<forall>s. so = Some s \<longrightarrow> fst (snd k) = s))" for a
    unfolding attempts_of_def by (force split: option.splits)
  also have "\<dots> a \<longleftrightarrow> (attempt_key_of a, a) \<in> set t \<and> sa_run_id a = r
             \<and> (\<forall>s. so = Some s \<longrightarrow> sa_step_id a = s)" for a
    using k by (force simp: attempt_key_of_def)
  finally show ?thesis using d by auto
qed

lemma approvals_of_members:
  assumes "table_ok approval_key_of t"
  shows "set (approvals_of t r) = {a. dget t (approval_key_of a) = Some a \<and> apr_run_id a = r}"
proof -
  have d: "dwf t" and k: "\<forall>(k, v) \<in> set t. approval_key_of v = k" using assms by (simp_all add: table_ok_def)
  have "a \<in> set (approvals_of t r) \<longleftrightarrow> (\<exists>k. (k, a) \<in> set t \<and> fst k = r)" for a
    unfolding approvals_of_def by force
  also have "\<dots> a \<longleftrightarrow> (approval_key_of a, a) \<in> set t \<and> apr_run_id a = r" for a
    using k by (force simp: approval_key_of_def)
  finally show ?thesis using d by auto
qed

definition run_attempts :: "view \<Rightarrow> string \<Rightarrow> string option \<Rightarrow> step_attempt set" where
  "run_attempts h r so = {a. vw_attempts h (attempt_key_of a) = Some a \<and> sa_run_id a = r
             \<and> (\<forall>s. so = Some s \<longrightarrow> sa_step_id a = s)}"

definition run_approvals :: "view \<Rightarrow> string \<Rightarrow> approval_record set" where
  "run_approvals h r = {a. vw_approvals h (approval_key_of a) = Some a \<and> apr_run_id a = r}"

lemma wpb_attempts_list [wpb_intros]:
  assumes "\<And>xs. set xs = run_attempts h r so \<Longrightarrow> Q xs (Open h)"
  shows "wpb I b (on_uow (attempts_list r so)) Q (Open h)"
proof (rule wpb_on_uow)
  fix u st xs u' assume u: "uow_ok st u" and h: "uow_view u = h"
    and "attempts_list r so u = (Inr xs, u')"
  then have xs: "xs = attempts_of (sn_attempts u) r so" and u': "u' = u"
    by (auto simp: attempts_list_def)
  have "table_ok attempt_key_of (sn_attempts u)" using uow_okD(4) [OF u] unfolding staged_ok_def by blast
  then have "set xs = run_attempts h r so"
    unfolding xs run_attempts_def h [symmetric] by (simp add: attempts_of_members uow_view_def)
  then show "Q xs (Open (uow_view u'))" using assms u' h by simp
qed (simp add: attempts_list_def pres_uow_get)

lemma wpb_approvals_list [wpb_intros]:
  assumes "\<And>xs. set xs = run_approvals h r \<Longrightarrow> Q xs (Open h)"
  shows "wpb I b (on_uow (approvals_list r)) Q (Open h)"
proof (rule wpb_on_uow)
  fix u st xs u' assume u: "uow_ok st u" and h: "uow_view u = h"
    and "approvals_list r u = (Inr xs, u')"
  then have xs: "xs = approvals_of (sn_approvals u) r" and u': "u' = u"
    by (auto simp: approvals_list_def)
  have "table_ok approval_key_of (sn_approvals u)" using uow_okD(5) [OF u] unfolding staged_ok_def by blast
  then have "set xs = run_approvals h r"
    unfolding xs run_approvals_def h [symmetric] by (simp add: approvals_of_members uow_view_def)
  then show "Q xs (Open (uow_view u'))" using assms u' h by simp
qed (simp add: approvals_list_def pres_uow_get)

lemma wpb_runs_list [wpb_intros]:
  "(\<And>xs. Q xs (Open h)) \<Longrightarrow> wpb I b (on_uow runs_list) Q (Open h)"
  by (rule wpb_on_uow) (auto simp: runs_list_def pres_uow_get)

text \<open>The writes.\<close>

lemma write_view:
  "runs_save run n u = (Inr x, u') \<Longrightarrow>
     uow_view u' = (uow_view u)\<lparr>vw_runs := (vw_runs (uow_view u))(wr_run_id run \<mapsto> run)\<rparr>"
  "runs_add run u = (Inr x, u') \<Longrightarrow>
     uow_view u' = (uow_view u)\<lparr>vw_runs := (vw_runs (uow_view u))(wr_run_id run \<mapsto> run),
        vw_new_runs := insert (wr_run_id run) (vw_new_runs (uow_view u))\<rparr>"
  "steps_save sr n u = (Inr x, u') \<Longrightarrow>
     uow_view u' = (uow_view u)\<lparr>vw_steps := (vw_steps (uow_view u))(step_key_of sr \<mapsto> sr)\<rparr>"
  "steps_add sr u = (Inr x, u') \<Longrightarrow>
     uow_view u' = (uow_view u)\<lparr>vw_steps := (vw_steps (uow_view u))(step_key_of sr \<mapsto> sr)\<rparr>"
  "attempts_add a u = (Inr x, u') \<Longrightarrow>
     uow_view u' = (uow_view u)\<lparr>vw_attempts := (vw_attempts (uow_view u))(attempt_key_of a \<mapsto> a)\<rparr>"
  "attempts_save a u = (Inr x, u') \<Longrightarrow>
     uow_view u' = (uow_view u)\<lparr>vw_attempts := (vw_attempts (uow_view u))(attempt_key_of a \<mapsto> a)\<rparr>"
  "approvals_add ap u = (Inr x, u') \<Longrightarrow>
     uow_view u' = (uow_view u)\<lparr>vw_approvals := (vw_approvals (uow_view u))(approval_key_of ap \<mapsto> ap)\<rparr>"
  "approvals_save ap n u = (Inr x, u') \<Longrightarrow>
     uow_view u' = (uow_view u)\<lparr>vw_approvals := (vw_approvals (uow_view u))(approval_key_of ap \<mapsto> ap)\<rparr>"
  "definitions_add w u = (Inr x, u') \<Longrightarrow>
     uow_view u' = (uow_view u)
       \<lparr>vw_definitions := (vw_definitions (uow_view u))(definition_key_of w \<mapsto> w)\<rparr>"
  unfolding runs_save_def runs_add_def steps_save_def steps_add_def attempts_add_def
    attempts_save_def approvals_add_def approvals_save_def definitions_add_def
  by (auto elim!: bnd_eq_InrE dest!: ensure_writable_Inr
      simp: uow_view_def update_conv' guard_def split: if_splits)

lemma wpb_writes [wpb_intros]:
  "Q () (Open (h\<lparr>vw_runs := (vw_runs h)(wr_run_id run \<mapsto> run)\<rparr>)) \<Longrightarrow>
     wpb I b (on_uow (runs_save run n)) Q (Open h)"
  "Q () (Open (h\<lparr>vw_runs := (vw_runs h)(wr_run_id run \<mapsto> run),
                 vw_new_runs := insert (wr_run_id run) (vw_new_runs h)\<rparr>)) \<Longrightarrow>
     wpb I b (on_uow (runs_add run)) Q (Open h)"
  "Q () (Open (h\<lparr>vw_steps := (vw_steps h)(step_key_of sr \<mapsto> sr)\<rparr>)) \<Longrightarrow>
     wpb I b (on_uow (steps_save sr n)) Q (Open h)"
  "Q () (Open (h\<lparr>vw_steps := (vw_steps h)(step_key_of sr \<mapsto> sr)\<rparr>)) \<Longrightarrow>
     wpb I b (on_uow (steps_add sr)) Q (Open h)"
  "Q () (Open (h\<lparr>vw_attempts := (vw_attempts h)(attempt_key_of a \<mapsto> a)\<rparr>)) \<Longrightarrow>
     wpb I b (on_uow (attempts_add a)) Q (Open h)"
  "Q () (Open (h\<lparr>vw_attempts := (vw_attempts h)(attempt_key_of a \<mapsto> a)\<rparr>)) \<Longrightarrow>
     wpb I b (on_uow (attempts_save a)) Q (Open h)"
  "Q () (Open (h\<lparr>vw_approvals := (vw_approvals h)(approval_key_of ap \<mapsto> ap)\<rparr>)) \<Longrightarrow>
     wpb I b (on_uow (approvals_add ap)) Q (Open h)"
  "Q () (Open (h\<lparr>vw_approvals := (vw_approvals h)(approval_key_of ap \<mapsto> ap)\<rparr>)) \<Longrightarrow>
     wpb I b (on_uow (approvals_save ap n)) Q (Open h)"
  "Q () (Open (h\<lparr>vw_definitions := (vw_definitions h)(definition_key_of w \<mapsto> w)\<rparr>)) \<Longrightarrow>
     wpb I b (on_uow (definitions_add w)) Q (Open h)"
  by (rule wpb_on_uow, intro pres_intros, simp add: write_view)+

lemma events_append_view:
  assumes "events_append e u = (Inr x, u')"
  shows "uow_view u' = view_event e (uow_view u)"
proof -
  let ?staged = "dget_list (sn_pending_events u) (ev_run_id e) @ [e]"
  have u': "u' = u\<lparr>sn_pending_events := dset (ev_run_id e) ?staged (sn_pending_events u)\<rparr>"
    using assms unfolding events_append_def Let_def
    by (auto elim!: bnd_eq_InrE dest!: ensure_writable_Inr)
  have "dget_list (sn_pending_events u') r
      = (if r = ev_run_id e then ?staged else dget_list (sn_pending_events u) r)" for r
    unfolding u' by (simp add: dget_list_def)
  then show ?thesis
    unfolding uow_view_def view_event_def by (simp add: u' fun_eq_iff)
qed

lemma wpb_events_append [wpb_intros]:
  assumes "\<And>x. Q x (Open (view_event e h))"
  shows "wpb I b (on_uow (events_append e)) Q (Open h)"
  by (rule wpb_on_uow, intro pres_intros) (use assms events_append_view in metis)

lemma wpb_getters [wpb_intros]:
  "(\<And>run. vw_runs h r = Some run \<Longrightarrow> Q run (Open h)) \<Longrightarrow> wpb I b (run_or_raise r) Q (Open h)"
  "Q1 (vw_definitions h (wr_definition_id run, wr_definition_version run)) (Open h) \<Longrightarrow>
     wpb I b (definition_of run) Q1 (Open h)"
  "(\<And>w. vw_definitions h (wr_definition_id run, wr_definition_version run) = Some w \<Longrightarrow>
      Q2 w (Open h)) \<Longrightarrow> wpb I b (definition_or_raise run) Q2 (Open h)"
  unfolding run_or_raise_def definition_or_raise_def definition_of_def by (intro wpb_intros, blast)+

section \<open>Commit and the scope itself\<close>

lemma wpb_commit [wpb_intros]:
  assumes "(\<forall>r \<in> vw_new_runs h. vw_runs b r = None) \<Longrightarrow> I (h\<lparr>vw_new_runs := {}\<rparr>)"
    and "Q () (Closed (h\<lparr>vw_new_runs := {}\<rparr>))"
  shows "wpb I b uow_commit Q (Open h)"
proof (rule wpbI)
  fix u s r u' s'
  assume sc: "in_scope I b u s (Open h)" and run: "uow_commit (u, s) = (r, (u', s'))"
  then have u: "uow_ok (sy_store s) u" and h: "uow_view u = h" and b: "store_view (sy_store s) = b"
    and st: "store_ok (sy_store s)" by (simp_all add: in_scope_def)
  show "store_ok (sy_store s') \<and> I (store_view (sy_store s'))
      \<and> (\<forall>x. r = Inr x \<longrightarrow> (\<exists>\<sigma>'. in_scope I b u' s' \<sigma>' \<and> Q x \<sigma>'))"
  proof (cases "commit u (sy_store s)")
    case (Inl e)
    then show ?thesis using run in_scopeD [OF sc] by (auto simp: uow_commit_def)
  next
    case (Inr p)
    then obtain st' u1 where c: "commit u (sy_store s) = Inr (st', u1)" by (cases p) auto
    have s': "s' = s\<lparr>sy_store := st'\<rparr>" "u' = u1" using run c by (auto simp: uow_commit_def)
    note v = commit_view [OF u st c]
    have "I (store_view st')" using assms(1) v(2,4) by (simp add: h b)
    then show ?thesis using assms(2) v(1,2,3) s' h by (auto simp: in_scope_def intro!: exI [of _ "Closed (h\<lparr>vw_new_runs := {}\<rparr>)"])
  qed
qed

lemma wpb_with_uow:
  assumes "sys_ok s" and "I (store_view (sy_store s))"
    and "wpb I (store_view (sy_store s)) m Q (Open (store_view (sy_store s)))"
    and "with_uow m s = (r, s')"
  shows "sys_ok s'" and "I (store_view (sy_store s'))" and "r = Inr x \<Longrightarrow> \<exists>\<sigma>. Q x \<sigma> \<and> (\<forall>v. \<sigma> = Closed v \<longrightarrow> store_view (sy_store s') = v)
         \<and> (\<forall>h. \<sigma> = Open h \<longrightarrow> store_view (sy_store s') = store_view (sy_store s))"
proof -
  let ?u = "begin_uow (sy_store s)"
  obtain u' where m: "m (?u, s) = (r, (u', s'))"
    using assms(4) by (auto simp: with_uow_def split: prod.splits)
  have "in_scope I (store_view (sy_store s)) ?u s (Open (store_view (sy_store s)))"
    using assms(1,2) by (simp add: in_scope_def sys_ok_def uow_ok_begin)
  note w = wpbD [OF assms(3) this m]
  show "sys_ok s'" and "I (store_view (sy_store s'))" using w by (auto simp: sys_ok_def)
  assume "r = Inr x"
  then obtain \<sigma> where "in_scope I (store_view (sy_store s)) u' s' \<sigma>" and "Q x \<sigma>" using w(3) by blast
  then show "\<exists>\<sigma>. Q x \<sigma> \<and> (\<forall>v. \<sigma> = Closed v \<longrightarrow> store_view (sy_store s') = v)
         \<and> (\<forall>h. \<sigma> = Open h \<longrightarrow> store_view (sy_store s') = store_view (sy_store s))"
    by (intro exI [of _ \<sigma>]) (auto simp: in_scope_def)
qed

end
