(* ===== verification/Approval_Service.thy ===== *)
theory Approval_Service
  imports Runtime
begin

text \<open>
  \<open>workflow/application/approvals.py\<close>, the part with a store: whether a run needs recovery before
  approvals may be touched, the decision of a pending request, and the state a rejection leads to.
\<close>

section \<open>Operations\<close>

text \<open>\<open>uow.steps.get(...).state\<close>.\<close>

definition step_state_of :: "string \<Rightarrow> string \<Rightarrow> ('z, step_state) body" where
  "step_state_of r s =
     bnd (on_uow (steps_get r s)) (\<lambda>x. bnd (need none_attribute x) (\<lambda>sr. ret (sr_state sr)))"

definition attempt_needs_recovery :: "step_attempt \<Rightarrow> bool" where
  "attempt_needs_recovery a \<longleftrightarrow> sa_status a = ''result_unknown''
     \<or> sa_error_class a = Some ''result_unknown''
       \<and> sa_status a \<notin> {''not_applied'', ''succeeded'', ''manual_intervention''}"

definition approval_recovery_required :: "workflow_run \<Rightarrow> ('z, bool) body" where
  "approval_recovery_required run =
     bnd (definition_or_raise run) (\<lambda>w.
     bnd (any_act (\<lambda>s. bnd (step_state_of (wr_run_id run) (sd_id s))
                         (\<lambda>st. ret (st = StepResultUnknown))) (wd_steps w)) (\<lambda>unknown.
     if unknown then ret True
     else bnd (on_uow (attempts_list (wr_run_id run) None)) (\<lambda>attempts.
          ret (list_ex attempt_needs_recovery attempts))))"

text \<open>The loop of \<open>_rejection_target\<close>, with its early return.\<close>

fun rejection_loop :: "string \<Rightarrow> step_definition list \<Rightarrow> bool \<Rightarrow> ('z, run_state) body" where
  "rejection_loop r [] has_effect = ret (if has_effect then RunCompensating else RunCancelled)"
| "rejection_loop r (s # ss) has_effect =
     bnd (on_uow (steps_get r (sd_id s))) (\<lambda>sr.
     if (case sr of None \<Rightarrow> True | Some x \<Rightarrow> sr_state x \<noteq> StepSucceeded)
     then rejection_loop r ss has_effect
     else bnd (on_uow (attempts_list r (Some (sd_id s)))) (\<lambda>attempts.
          if \<not> list_ex (\<lambda>a. sa_status a = ''success'' \<and> sa_effect_applied a) attempts
          then rejection_loop r ss has_effect
          else if sd_compensation_tool s = None then ret RunManualIntervention
          else rejection_loop r ss True))"

definition rejection_target :: "workflow_run \<Rightarrow> ('z, run_state) body" where
  "rejection_target run =
     bnd (definition_or_raise run) (\<lambda>w. rejection_loop (wr_run_id run) (wd_steps w) False)"

definition decided_request ::
  "approval_request \<Rightarrow> approval_decision \<Rightarrow> actor_digest \<Rightarrow> reason_digest \<Rightarrow> int \<Rightarrow> approval_request" where
  "decided_request r d actor reason at =
     r\<lparr>ar_version := ar_version r + 1, ar_status := status_of_decision d, ar_decision := Some d,
       ar_actor := Some actor, ar_reason := Some reason, ar_decided_at := Some at\<rparr>"

text \<open>The reads and checks of \<open>decide\<close> inside the unit of work, up to the decision itself.\<close>

definition checked_request ::
  "string \<Rightarrow> string \<Rightarrow> int \<Rightarrow> string \<Rightarrow> ('z, approval_request \<times> workflow_run) body" where
  "checked_request run_id request_id expected_version binding_digest =
     bnd (on_uow (approvals_get run_id request_id)) (\<lambda>found.
     bnd (need (LookupError (''unknown approval request '' @ run_id @ '':'' @ request_id)) found) (\<lambda>a.
     case a of Legacy l \<Rightarrow> raise_act (ApprovalDecisionError ''legacy_approval'')
     | Request request \<Rightarrow>
     bnd (run_or_raise (ar_run_id request)) (\<lambda>run.
     bnd (approval_recovery_required run) (\<lambda>recover.
     bnd (lift_res (guard (\<not> recover) (ApprovalDecisionError ''approval_recovery_required''))) (\<lambda>_.
     bnd (lift_res (guard (ar_version request = expected_version)
            (OptimisticLockError ''approval'' (run_id @ '':'' @ request_id) expected_version
               (ar_version request)))) (\<lambda>_.
     bnd (lift_res (guard (ar_status request = AprPending)
            (ApprovalDecisionError ''already_decided''))) (\<lambda>_.
     bnd (lift_res (guard (ar_binding_digest request = binding_digest)
            (ApprovalDecisionError ''binding_mismatch''))) (\<lambda>_.
     bnd (lift_res (guard (wr_state run = RunWaitingApproval)
            (ApprovalDecisionError ''run_not_waiting_approval''))) (\<lambda>_.
     ret (request, run))))))))))"

definition decision_event ::
  "approval_request \<Rightarrow> workflow_run \<Rightarrow> workflow_run \<Rightarrow> approval_decision \<Rightarrow> int \<Rightarrow> actor_digest \<Rightarrow>
   reason_digest \<Rightarrow> run_state \<Rightarrow> audit_event" where
  "decision_event request run changed d at actor reason target =
     approval_changed (wr_run_id run) (ar_step_id request) (''approval.'' @ decision_value d) at
       (run_state_value (wr_state run)) (run_state_value target) (wr_revision run)
       (wr_revision changed) (ar_id request) (ar_binding_digest request) (decision_value d)
       (Some (actor_mapping actor)) (Some (reason_mapping reason)) None"

text \<open>The decision itself, on a request and run that passed the checks.\<close>

definition apply_decision ::
  "approval_request \<Rightarrow> workflow_run \<Rightarrow> approval_decision \<Rightarrow> actor_digest \<Rightarrow> reason_digest \<Rightarrow> int \<Rightarrow>
   ('z, approval_request) body" where
  "apply_decision request run d actor reason at =
     bnd (case d of DecApproved \<Rightarrow> ret RunRunning | DecRejected \<Rightarrow> rejection_target run) (\<lambda>target.
     bnd (lift_res (make_request (decided_request request d actor reason at))) (\<lambda>decided.
     bnd (lift_res (run_transition run target at)) (\<lambda>(changed, run_event).
     bnd (on_uow (approvals_save (Request decided) (ar_version request))) (\<lambda>_.
     bnd (on_uow (runs_save changed (wr_revision run))) (\<lambda>_.
     bnd (on_uow (events_append (decision_event request run changed d at actor reason target))) (\<lambda>_.
     bnd (on_uow (events_append run_event)) (\<lambda>_.
     bnd uow_commit (\<lambda>_. ret decided))))))))"

definition decide ::
  "environment \<Rightarrow> string \<Rightarrow> string \<Rightarrow> string \<Rightarrow> int \<Rightarrow> string \<Rightarrow> string \<Rightarrow> string \<Rightarrow>
   ('z, approval_request) service" where
  "decide env run_id request_id decision expected_version binding_digest actor reason =
     bnd (need (ApprovalDecisionError ''invalid_decision'') (parse_decision decision)) (\<lambda>d.
     bnd (clock_now env) (\<lambda>occurred_at.
     bnd (lift_res (make_actor_digest ''sha256'' (text_digest ''approval-actor'' actor))) (\<lambda>safe_actor.
     bnd (lift_res (if is_blank reason then make_reason_digest False None None
                    else make_reason_digest True (Some ''sha256'')
                           (Some (text_digest ''approval-reason'' reason)))) (\<lambda>safe_reason.
     with_uow (
       bnd (checked_request run_id request_id expected_version binding_digest) (\<lambda>(request, run).
       apply_decision request run d safe_actor safe_reason occurred_at))))))"

section \<open>They keep the store well formed\<close>

lemma pres_step_state_of [pres_intros]: "pres body_ok (step_state_of r s)"
  unfolding step_state_of_def by (intro pres_intros)

lemma pres_recovery_required [pres_intros]: "pres body_ok (approval_recovery_required run)"
  unfolding approval_recovery_required_def by (intro pres_intros)

lemma pres_rejection_loop [pres_intros]: "pres body_ok (rejection_loop r ss b)"
  by (induction ss arbitrary: b) (auto intro!: pres_intros)

lemma pres_rejection_target [pres_intros]: "pres body_ok (rejection_target run)"
  unfolding rejection_target_def by (intro pres_intros)

lemma pres_case_approval [pres_intros]:
  "(\<And>r. a = Request r \<Longrightarrow> pres P (f r)) \<Longrightarrow> (\<And>l. a = Legacy l \<Longrightarrow> pres P (g l)) \<Longrightarrow>
   pres P (case a of Request r \<Rightarrow> f r | Legacy l \<Rightarrow> g l)"
  by (cases a) auto

lemma pres_case_decision [pres_intros]:
  "pres P m \<Longrightarrow> pres P m' \<Longrightarrow> pres P (case d of DecApproved \<Rightarrow> m | DecRejected \<Rightarrow> m')"
  by (cases d) auto

lemma pres_checked_request [pres_intros]: "pres body_ok (checked_request r k v b)"
  unfolding checked_request_def by (intro pres_intros)

lemma pres_apply_decision [pres_intros]: "pres body_ok (apply_decision request run d ac re at)"
  unfolding apply_decision_def by (intro pres_intros)

lemma pres_decide [pres_intros]: "pres sys_ok (decide env r k d v b actor reason)"
  unfolding decide_def by (intro pres_intros)

end
