(* ===== verification/Scheduler.thy ===== *)
theory Scheduler
  imports Persistence
begin

text \<open>
  \<open>workflow/application/scheduler.py\<close>: which steps are ready and in which order, and the order
  in which completed effects are compensated.
\<close>

section \<open>Depths\<close>

text \<open>
  \<open>_topological_depths\<close> with its memo table. The recursion of \<open>depth\<close> takes fuel; running out
  stands for Python's \<open>RecursionError\<close>. The maximum over the dependencies starts from 0, which
  no depth is below.
\<close>

fun depth_visit ::
  "nat \<Rightarrow> (string, step_definition) dict \<Rightarrow> string \<Rightarrow> (string, int) dict \<Rightarrow>
   error + int \<times> (string, int) dict" where
  "depth_visit 0 by_id sid depths = Inl (RuntimeError ''maximum recursion depth exceeded'')"
| "depth_visit (Suc fuel) by_id sid depths =
     (case dget depths sid of
        Some n \<Rightarrow> Inr (n, depths)
      | None \<Rightarrow>
          sbind (or_raise (dget by_id sid) (KeyError sid)) (\<lambda>s.
          if sd_depends_on s = [] then Inr (0, dset sid 0 depths)
          else sbind (sfold (\<lambda>d (m, ds). sbind (depth_visit fuel by_id d ds)
                               (\<lambda>(n, ds'). Inr (max m n, ds'))) (sd_depends_on s) (0, depths))
                 (\<lambda>(m, ds). Inr (1 + m, dset sid (1 + m) ds))))"

definition steps_by_id :: "step_definition list \<Rightarrow> (string, step_definition) dict" where
  "steps_by_id steps = foldl (\<lambda>d s. dset (sd_id s) s d) [] steps"

definition topological_depths :: "workflow_definition \<Rightarrow> error + (string, int) dict" where
  "topological_depths w =
     sfold (\<lambda>s ds. sbind (depth_visit (Suc (length (wd_steps w))) (steps_by_id (wd_steps w)) (sd_id s) ds)
                     (\<lambda>(n, ds'). Inr ds')) (wd_steps w) []"

section \<open>Ready steps\<close>

definition runs_by_step :: "step_run list \<Rightarrow> (string, step_run) dict" where
  "runs_by_step rs = foldl (\<lambda>d r. dset (sr_step_id r) r d) [] rs"

definition check_step_runs :: "workflow_definition \<Rightarrow> step_run list \<Rightarrow> error + unit" where
  "check_step_runs w rs =
     sbind (guard (distinct (map sr_step_id rs)) (ValueError ''duplicate step run IDs'')) (\<lambda>_.
     sbind (guard (set (map sr_step_id rs) = set (map sd_id (wd_steps w)))
              (ValueError ''step run IDs must exactly match definition'')) (\<lambda>_.
     guard (length (remdups (map sr_run_id rs)) = 1)
       (ValueError ''step runs must belong to exactly one run'')))"

text \<open>The two tests of the generator: the second is only made when the first holds.\<close>

definition is_ready :: "(string, step_run) dict \<Rightarrow> step_definition \<Rightarrow> error + bool" where
  "is_ready by_step s =
     sbind (or_raise (dget by_step (sd_id s)) (KeyError (sd_id s))) (\<lambda>r.
     if sr_state r \<in> {StepPending, StepReady}
     then sfold (\<lambda>d b. if b then sbind (or_raise (dget by_step d) (KeyError d))
                                   (\<lambda>x. Inr (sr_state x = StepSucceeded))
                       else Inr False) (sd_depends_on s) True
     else Inr False)"

fun sfilter :: "('a \<Rightarrow> 'e + bool) \<Rightarrow> 'a list \<Rightarrow> 'e + 'a list" where
  "sfilter p [] = Inr []"
| "sfilter p (x # xs) =
     sbind (p x) (\<lambda>b. sbind (sfilter p xs) (\<lambda>ys. Inr (if b then x # ys else ys)))"

definition depth_key :: "(string, int) dict \<Rightarrow> step_definition \<Rightarrow> int \<times> string" where
  "depth_key depths s = ((case dget depths (sd_id s) of None \<Rightarrow> 0 | Some n \<Rightarrow> n), sd_id s)"

definition ready_steps ::
  "workflow_definition \<Rightarrow> step_run list \<Rightarrow> error + step_definition list" where
  "ready_steps w rs =
     sbind (check_step_runs w rs) (\<lambda>_.
     sbind (topological_depths w) (\<lambda>depths.
     sbind (sfilter (is_ready (runs_by_step rs)) (wd_steps w)) (\<lambda>ready.
     Inr (sort_key (depth_key depths) ready))))"

section \<open>Compensation order\<close>

definition successful_effects :: "step_attempt list \<Rightarrow> string list" where
  "successful_effects attempts =
     map sa_step_id (filter (\<lambda>a. sa_phase a = ''forward''
        \<and> sa_status a \<in> {''success'', ''succeeded''} \<and> sa_effect_applied a) attempts)"

definition is_compensable ::
  "(string, step_run) dict \<Rightarrow> string list \<Rightarrow> step_definition \<Rightarrow> error + bool" where
  "is_compensable by_step effects s =
     (if sd_compensation_tool s = None then Inr False
      else sbind (or_raise (dget by_step (sd_id s)) (KeyError (sd_id s))) (\<lambda>r.
           Inr (sr_state r = StepSucceeded \<and> sd_id s \<in> set effects)))"

definition dependents_of :: "step_definition list \<Rightarrow> string \<Rightarrow> string list" where
  "dependents_of remaining i = map sd_id (filter (\<lambda>c. i \<in> set (sd_depends_on c)) remaining)"

definition completion_key :: "(string, step_run) dict \<Rightarrow> step_definition \<Rightarrow> int \<times> string" where
  "completion_key by_step s =
     (- (case dget by_step (sd_id s) of None \<Rightarrow> 0
         | Some r \<Rightarrow> (case sr_completion_sequence r of None \<Rightarrow> 0 | Some n \<Rightarrow> n)), sd_id s)"

text \<open>The steps left without dependents among those that remain.\<close>

definition leaves :: "(string, string list) dict \<Rightarrow> step_definition list \<Rightarrow> step_definition list" where
  "leaves dependents remaining =
     filter (\<lambda>s. set (dget_list dependents (sd_id s)) \<inter> sd_id ` set remaining = {}) remaining"

lemma leaves_subset: "set (leaves dependents remaining) \<subseteq> set remaining"
  by (auto simp: leaves_def)

function compensation_loop ::
  "(string, string list) dict \<Rightarrow> (string, step_run) dict \<Rightarrow> step_definition list \<Rightarrow>
   error + step_definition list" where
  "compensation_loop dependents by_step remaining =
     (if remaining = [] then Inr []
      else if leaves dependents remaining = []
      then Inl (ValueError ''min() arg is an empty sequence'')
      else (let selected = arg_min_list (completion_key by_step) (leaves dependents remaining)
            in sbind (compensation_loop dependents by_step
                        (filter (\<lambda>s. sd_id s \<noteq> sd_id selected) remaining))
                 (\<lambda>rest. Inr (selected # rest))))"
  by pat_completeness auto

termination
proof (relation "measure (\<lambda>(dependents, by_step, remaining). length remaining)", simp)
  fix dependents by_step remaining x
  assume "remaining \<noteq> []" and l: "leaves dependents remaining \<noteq> []"
    and x: "x = arg_min_list (completion_key by_step) (leaves dependents remaining)"
  have "x \<in> set remaining" using arg_min_list_in [OF l] leaves_subset x by blast
  then have "length (filter (\<lambda>s. sd_id s \<noteq> sd_id x) remaining) < length remaining"
    by (intro length_filter_less) auto
  then show "((dependents, by_step, filter (\<lambda>s. sd_id s \<noteq> sd_id x) remaining),
      dependents, by_step, remaining) \<in> measure (\<lambda>(dependents, by_step, remaining). length remaining)"
    by simp
qed

declare compensation_loop.simps [simp del]

definition compensation_order ::
  "workflow_definition \<Rightarrow> step_run list \<Rightarrow> step_attempt list \<Rightarrow> error + step_definition list" where
  "compensation_order w rs attempts =
     sbind (guard (set (map sr_step_id rs) = set (map sd_id (wd_steps w)))
              (ValueError ''step run IDs must exactly match definition'')) (\<lambda>_.
     sbind (sfilter (is_compensable (runs_by_step rs) (successful_effects attempts)) (wd_steps w)) (\<lambda>remaining.
     compensation_loop (map (\<lambda>s. (sd_id s, dependents_of remaining (sd_id s))) remaining)
       (runs_by_step rs) remaining))"

section \<open>Tables by identifier\<close>

lemma foldl_dset_lookup:
  assumes "distinct (map f xs)"
  shows "dget (foldl (\<lambda>d x. dset (f x) x d) d0 xs) k =
    (case List.find (\<lambda>x. f x = k) xs of None \<Rightarrow> dget d0 k | Some x \<Rightarrow> Some x)"
  using assms
proof (induction xs arbitrary: d0)
  case (Cons x xs)
  then show ?case by (auto simp: find_None_iff split: option.splits dest!: find_Some_iff_first)
qed simp

lemma find_by_key:
  assumes "distinct (map f xs)"
  shows "List.find (\<lambda>x. f x = k) xs = Some x \<longleftrightarrow> x \<in> set xs \<and> f x = k"
  using assms by (induction xs) auto

lemma foldl_dset_Some:
  assumes "distinct (map f xs)"
  shows "dget (foldl (\<lambda>d x. dset (f x) x d) [] xs) k = Some x \<longleftrightarrow> x \<in> set xs \<and> f x = k"
  using foldl_dset_lookup [OF assms, of "[]" k] find_by_key [OF assms, of k x]
  by (auto split: option.splits)

lemma steps_by_id_Some:
  "distinct (map sd_id steps) \<Longrightarrow>
   dget (steps_by_id steps) k = Some s \<longleftrightarrow> s \<in> set steps \<and> sd_id s = k"
  unfolding steps_by_id_def by (rule foldl_dset_Some)

lemma runs_by_step_Some:
  "distinct (map sr_step_id rs) \<Longrightarrow>
   dget (runs_by_step rs) k = Some r \<longleftrightarrow> r \<in> set rs \<and> sr_step_id r = k"
  unfolding runs_by_step_def by (rule foldl_dset_Some)

lemma foldl_dset_total:
  "k \<in> fst ` set d0 \<union> f ` set xs \<Longrightarrow> \<exists>x. dget (foldl (\<lambda>d x. dset (f x) x d) d0 xs) k = Some x"
proof (induction xs arbitrary: d0)
  case Nil
  then show ?case by (auto intro!: key_dget_Some)
next
  case (Cons x xs)
  then show ?case by (cases "k = f x") auto
qed

lemma runs_by_step_total: "k \<in> sr_step_id ` set rs \<Longrightarrow> \<exists>r. dget (runs_by_step rs) k = Some r"
  unfolding runs_by_step_def by (rule foldl_dset_total) simp

lemma sfilter_Inr:
  assumes "\<And>x. x \<in> set xs \<Longrightarrow> p x = Inr (q x)"
  shows "sfilter p xs = Inr (filter q xs)"
  using assms by (induction xs) auto

lemma sfilter_filter:
  "sfilter p xs = Inr ys \<Longrightarrow> ys = filter (\<lambda>x. p x = Inr True) xs"
  by (induction xs arbitrary: ys) auto

section \<open>The graph of a definition\<close>

text \<open>What \<open>from_mapping\<close> guarantees and the scheduler relies on.\<close>

definition graph_ok :: "step_definition list \<Rightarrow> bool" where
  "graph_ok steps \<longleftrightarrow> distinct (map sd_id steps)
     \<and> (\<forall>s \<in> set steps. set (sd_depends_on s) \<subseteq> sd_id ` set steps)
     \<and> acyclic (step_graph steps)"

lemma graph_okD:
  assumes "graph_ok steps"
  shows "distinct (map sd_id steps)" and "acyclic (step_graph steps)"
    and "\<And>s d. s \<in> set steps \<Longrightarrow> d \<in> set (sd_depends_on s) \<Longrightarrow> d \<in> sd_id ` set steps"
  using assms unfolding graph_ok_def by blast+

lemma definition_graph_ok: "definition_ok reg w \<Longrightarrow> graph_ok (wd_steps w)"
  unfolding definition_ok_def graph_ok_def by blast

definition ancestors :: "step_definition list \<Rightarrow> string \<Rightarrow> string set" where
  "ancestors steps i = {d. (d, i) \<in> (step_graph steps)\<^sup>+}"

lemma step_graph_ids: "graph_ok steps \<Longrightarrow> (d, i) \<in> (step_graph steps)\<^sup>+ \<Longrightarrow> d \<in> sd_id ` set steps"
  by (drule tranclD) (auto simp: step_graph_def dest: graph_okD(3))

lemma ancestors_finite: "graph_ok steps \<Longrightarrow> finite (ancestors steps i)"
  by (rule finite_subset [of _ "sd_id ` set steps"]) (auto simp: ancestors_def dest: step_graph_ids)

lemma ancestors_card_le: "graph_ok steps \<Longrightarrow> card (ancestors steps i) \<le> length steps"
proof -
  assume g: "graph_ok steps"
  have "card (ancestors steps i) \<le> card (sd_id ` set steps)"
    by (rule card_mono) (auto simp: ancestors_def dest: step_graph_ids [OF g])
  also have "\<dots> \<le> length steps"
    by (metis card_length image_set length_map)
  finally show ?thesis .
qed

lemma ancestors_card_less:
  assumes g: "graph_ok steps" and s: "s \<in> set steps" and d: "d \<in> set (sd_depends_on s)"
  shows "card (ancestors steps d) < card (ancestors steps (sd_id s))"
proof (rule psubset_card_mono [OF ancestors_finite [OF g]])
  have e: "(d, sd_id s) \<in> step_graph steps" using s d by (auto simp: step_graph_def)
  have "d \<in> ancestors steps (sd_id s)" using e by (simp add: ancestors_def r_into_trancl)
  moreover have "d \<notin> ancestors steps d"
    using graph_okD(2) [OF g] by (simp add: ancestors_def acyclic_def)
  moreover have "ancestors steps d \<subseteq> ancestors steps (sd_id s)"
    using e unfolding ancestors_def by (blast intro: trancl_into_trancl)
  ultimately show "ancestors steps d \<subset> ancestors steps (sd_id s)" by blast
qed

section \<open>What the depths are\<close>

text \<open>
  A table of depths: 0 for a step without dependencies, otherwise one more than the greatest
  depth among the dependencies.
\<close>

definition depth_table :: "step_definition list \<Rightarrow> (string, int) dict \<Rightarrow> bool" where
  "depth_table steps ds \<longleftrightarrow>
     (\<forall>i n. dget ds i = Some n \<longrightarrow> 0 \<le> n \<and> (\<exists>s \<in> set steps. sd_id s = i
        \<and> (\<forall>d \<in> set (sd_depends_on s). \<exists>m. dget ds d = Some m)
        \<and> n = (if sd_depends_on s = [] then 0
               else 1 + Max ((\<lambda>d. the (dget ds d)) ` set (sd_depends_on s)))))"

definition extends :: "('k, 'v) dict \<Rightarrow> ('k, 'v) dict \<Rightarrow> bool" where
  "extends ds ds' \<longleftrightarrow> (\<forall>i v. dget ds i = Some v \<longrightarrow> dget ds' i = Some v)"

lemma extends_refl [simp]: "extends ds ds"
  by (simp add: extends_def)

lemma extends_trans: "extends a b \<Longrightarrow> extends b c \<Longrightarrow> extends a c"
  by (simp add: extends_def)

lemma depth_table_dset:
  assumes t: "depth_table steps ds" and new: "dget ds (sd_id s) = None" and s: "s \<in> set steps"
    and deps: "\<forall>d \<in> set (sd_depends_on s). \<exists>m. dget ds d = Some m"
    and n: "n = (if sd_depends_on s = [] then 0
               else 1 + Max ((\<lambda>d. the (dget ds d)) ` set (sd_depends_on s)))"
    and pos: "0 \<le> n"
  shows "depth_table steps (dset (sd_id s) n ds)"
proof -
  let ?ds = "dset (sd_id s) n ds"
  have same: "dget ?ds d = dget ds d" if "\<exists>m. dget ds d = Some m" for d
    using that new by auto
  have img: "(\<lambda>d. the (dget ?ds d)) ` set ks = (\<lambda>d. the (dget ds d)) ` set ks"
    if "\<forall>d \<in> set ks. \<exists>m. dget ds d = Some m" for ks
    using same that by (intro image_cong) auto
  show ?thesis
    unfolding depth_table_def
  proof (intro allI impI)
    fix i v assume iv: "dget ?ds i = Some v"
    show "0 \<le> v \<and> (\<exists>s \<in> set steps. sd_id s = i
        \<and> (\<forall>d \<in> set (sd_depends_on s). \<exists>m. dget ?ds d = Some m)
        \<and> v = (if sd_depends_on s = [] then 0
               else 1 + Max ((\<lambda>d. the (dget ?ds d)) ` set (sd_depends_on s))))"
    proof (cases "i = sd_id s")
      case True
      then have v: "v = n" using iv by simp
      have "\<forall>d \<in> set (sd_depends_on s). \<exists>m. dget ?ds d = Some m" using deps same by metis
      moreover have "v = (if sd_depends_on s = [] then 0
               else 1 + Max ((\<lambda>d. the (dget ?ds d)) ` set (sd_depends_on s)))"
        unfolding img [OF deps] v by (rule n)
      moreover have "0 \<le> v" using pos v by simp
      ultimately show ?thesis using True [symmetric] s by blast
    next
      case False
      then have iv': "dget ds i = Some v" using iv by simp
      then obtain x where x: "x \<in> set steps" "sd_id x = i" "0 \<le> v"
        and dx: "\<forall>d \<in> set (sd_depends_on x). \<exists>m. dget ds d = Some m"
        and vx: "v = (if sd_depends_on x = [] then 0
               else 1 + Max ((\<lambda>d. the (dget ds d)) ` set (sd_depends_on x)))"
        using t unfolding depth_table_def by blast
      have "\<forall>d \<in> set (sd_depends_on x). \<exists>m. dget ?ds d = Some m" using dx same by metis
      moreover have "v = (if sd_depends_on x = [] then 0
               else 1 + Max ((\<lambda>d. the (dget ?ds d)) ` set (sd_depends_on x)))"
        unfolding img [OF dx] by (rule vx)
      ultimately show ?thesis using x by blast
    qed
  qed
qed

lemma depth_fold:
  assumes visit: "\<And>d ds. d \<in> set ks \<Longrightarrow> depth_table steps ds \<Longrightarrow>
      \<exists>n ds'. depth_visit fuel by_id d ds = Inr (n, ds') \<and> depth_table steps ds'
        \<and> dget ds' d = Some n \<and> extends ds ds' \<and> P ds ds'"
    and refl: "\<And>ds. P ds ds" and trans: "\<And>a b c. P a b \<Longrightarrow> P b c \<Longrightarrow> P a c"
    and t: "depth_table steps ds"
  shows "\<exists>n ds'. sfold (\<lambda>d (m, ds). sbind (depth_visit fuel by_id d ds)
                               (\<lambda>(n, ds'). Inr (max m n, ds'))) ks (m, ds) = Inr (n, ds')
      \<and> depth_table steps ds' \<and> extends ds ds' \<and> P ds ds' \<and> (\<forall>d \<in> set ks. \<exists>v. dget ds' d = Some v)
      \<and> n = Max (insert m ((\<lambda>d. the (dget ds' d)) ` set ks))"
  using visit t
proof (induction ks arbitrary: m ds)
  case Nil
  then show ?case using refl by simp
next
  case (Cons k ks)
  from Cons.prems obtain n1 ds1 where v1: "depth_visit fuel by_id k ds = Inr (n1, ds1)"
    and t1: "depth_table steps ds1" and g1: "dget ds1 k = Some n1" and e1: "extends ds ds1"
    and p1: "P ds ds1"
    by (metis list.set_intros(1))
  from Cons.IH [of ds1 "max m n1"] Cons.prems(1) t1 obtain n2 ds2 where
    r: "sfold (\<lambda>d (m, ds). sbind (depth_visit fuel by_id d ds)
                               (\<lambda>(n, ds'). Inr (max m n, ds'))) ks (max m n1, ds1) = Inr (n2, ds2)"
    and t2: "depth_table steps ds2" and e2: "extends ds1 ds2" and p2: "P ds1 ds2"
    and d2: "\<forall>d \<in> set ks. \<exists>v. dget ds2 d = Some v"
    and n2: "n2 = Max (insert (max m n1) ((\<lambda>d. the (dget ds2 d)) ` set ks))"
    by (metis (no_types, lifting) list.set_intros(2))
  have gk: "dget ds2 k = Some n1" using g1 e2 by (simp add: extends_def)
  have "n2 = Max (insert m ((\<lambda>d. the (dget ds2 d)) ` set (k # ks)))"
    unfolding n2 using gk by (cases "ks = []") (simp_all add: max.assoc)
  then show ?case
    using r t2 extends_trans [OF e1 e2] trans [OF p1 p2] d2 gk v1 by auto
qed

lemma depth_visit_ok:
  assumes g: "graph_ok steps"
  shows "s \<in> set steps \<Longrightarrow> card (ancestors steps (sd_id s)) < fuel \<Longrightarrow> depth_table steps ds \<Longrightarrow>
    \<exists>n ds'. depth_visit fuel (steps_by_id steps) (sd_id s) ds = Inr (n, ds') \<and> depth_table steps ds'
      \<and> dget ds' (sd_id s) = Some n \<and> extends ds ds'
      \<and> (\<forall>i. dget ds i = None \<longrightarrow> dget ds' i \<noteq> None \<longrightarrow> i = sd_id s \<or> i \<in> ancestors steps (sd_id s))"
proof (induction fuel arbitrary: s ds)
  case (Suc fuel)
  show ?case
  proof (cases "dget ds (sd_id s)")
    case (Some n)
    then show ?thesis using Suc.prems by auto
  next
    case None
    have look: "dget (steps_by_id steps) (sd_id s) = Some s"
      using steps_by_id_Some [OF graph_okD(1) [OF g]] Suc.prems(1) by blast
    show ?thesis
    proof (cases "sd_depends_on s = []")
      case True
      have "depth_table steps (dset (sd_id s) 0 ds)"
        using depth_table_dset [OF Suc.prems(3) None Suc.prems(1)] True by simp
      then show ?thesis using None look True by (auto simp: extends_def)
    next
      case False
      let ?P = "\<lambda>ds ds'. \<forall>i. dget ds i = None \<longrightarrow> dget ds' i \<noteq> None \<longrightarrow> i \<in> ancestors steps (sd_id s)"
      have visit: "\<exists>n ds'. depth_visit fuel (steps_by_id steps) d ds0 = Inr (n, ds')
          \<and> depth_table steps ds' \<and> dget ds' d = Some n \<and> extends ds0 ds' \<and> ?P ds0 ds'"
        if d: "d \<in> set (sd_depends_on s)" and t: "depth_table steps ds0" for d ds0
      proof -
        obtain x where x: "x \<in> set steps" "sd_id x = d"
          using graph_okD(3) [OF g Suc.prems(1) d] by auto
        have lt: "card (ancestors steps (sd_id x)) < fuel"
          using ancestors_card_less [OF g Suc.prems(1) d] x Suc.prems(2) by simp
        have "(d, sd_id s) \<in> step_graph steps" using Suc.prems(1) d by (auto simp: step_graph_def)
        then have sub: "insert d (ancestors steps d) \<subseteq> ancestors steps (sd_id s)"
          unfolding ancestors_def by (blast intro: trancl_into_trancl)
        from Suc.IH [OF x(1) lt t] obtain n ds' where
          r: "depth_visit fuel (steps_by_id steps) d ds0 = Inr (n, ds')" "depth_table steps ds'"
            "dget ds' d = Some n" "extends ds0 ds'"
          and q: "\<forall>i. dget ds0 i = None \<longrightarrow> dget ds' i \<noteq> None \<longrightarrow> i = d \<or> i \<in> ancestors steps d"
          unfolding x(2) by blast
        have "?P ds0 ds'" using q sub by blast
        then show ?thesis using r by blast
      qed
      obtain n ds' where r: "sfold (\<lambda>d (m, ds). sbind (depth_visit fuel (steps_by_id steps) d ds)
                               (\<lambda>(n, ds'). Inr (max m n, ds'))) (sd_depends_on s) (0, ds) = Inr (n, ds')"
        and t': "depth_table steps ds'" and e: "extends ds ds'" and p: "?P ds ds'"
        and dep: "\<forall>d \<in> set (sd_depends_on s). \<exists>v. dget ds' d = Some v"
        and n: "n = Max (insert 0 ((\<lambda>d. the (dget ds' d)) ` set (sd_depends_on s)))"
        using depth_fold [of "sd_depends_on s" steps fuel "steps_by_id steps" ?P ds 0, OF visit] Suc.prems(3)
        by blast
      have "sd_id s \<notin> ancestors steps (sd_id s)"
        using graph_okD(2) [OF g] by (simp add: ancestors_def acyclic_def)
      then have None': "dget ds' (sd_id s) = None" using p None by blast
      have pos: "0 \<le> the (dget ds' d)" if "d \<in> set (sd_depends_on s)" for d
        using dep t' that unfolding depth_table_def by (metis option.sel)
      have n': "n = Max ((\<lambda>d. the (dget ds' d)) ` set (sd_depends_on s))"
      proof -
        let ?S = "(\<lambda>d. the (dget ds' d)) ` set (sd_depends_on s)"
        have "?S \<noteq> {}" "finite ?S" using False by auto
        then have "Max ?S \<in> ?S" by (metis Max_in)
        then obtain d where "d \<in> set (sd_depends_on s)" and "Max ?S = the (dget ds' d)" by blast
        then have "0 \<le> Max ?S" using pos by simp
        then show ?thesis using n False by (simp add: max_def)
      qed
      have "0 \<le> n" using n by simp
      have "depth_table steps (dset (sd_id s) (1 + n) ds')"
        using depth_table_dset [OF t' None' Suc.prems(1) dep, of "1 + n"] False n' \<open>0 \<le> n\<close> by simp
      moreover have "depth_visit (Suc fuel) (steps_by_id steps) (sd_id s) ds
          = Inr (1 + n, dset (sd_id s) (1 + n) ds')"
        using None look False r by simp
      moreover have "extends ds (dset (sd_id s) (1 + n) ds')"
        using e None by (auto simp: extends_def)
      moreover have "\<forall>i. dget ds i = None \<longrightarrow> dget (dset (sd_id s) (1 + n) ds') i \<noteq> None \<longrightarrow>
          i = sd_id s \<or> i \<in> ancestors steps (sd_id s)"
        using p by auto
      ultimately show ?thesis by simp
    qed
  qed
qed simp

lemma topological_depths_ok:
  assumes g: "graph_ok (wd_steps w)"
  obtains ds where "topological_depths w = Inr ds" and "depth_table (wd_steps w) ds"
    and "\<And>s. s \<in> set (wd_steps w) \<Longrightarrow> \<exists>n. dget ds (sd_id s) = Some n"
proof -
  let ?steps = "wd_steps w"
  let ?f = "\<lambda>s ds. sbind (depth_visit (Suc (length ?steps)) (steps_by_id ?steps) (sd_id s) ds)
                     (\<lambda>(n, ds'). Inr ds')"
  have "\<exists>ds'. sfold ?f xs ds = Inr ds' \<and> depth_table ?steps ds' \<and> extends ds ds'
      \<and> (\<forall>s \<in> set xs. \<exists>n. dget ds' (sd_id s) = Some n)"
    if "set xs \<subseteq> set ?steps" and "depth_table ?steps ds" for xs ds
    using that
  proof (induction xs arbitrary: ds)
    case (Cons x xs)
    have x: "x \<in> set ?steps" using Cons.prems by simp
    have "card (ancestors ?steps (sd_id x)) < Suc (length ?steps)"
      using ancestors_card_le [OF g, of "sd_id x"] by simp
    from depth_visit_ok [OF g x this Cons.prems(2)] obtain n ds1 where
      v: "depth_visit (Suc (length ?steps)) (steps_by_id ?steps) (sd_id x) ds = Inr (n, ds1)"
      and t1: "depth_table ?steps ds1" and g1: "dget ds1 (sd_id x) = Some n" and e1: "extends ds ds1"
      by blast
    from Cons.IH [OF _ t1] Cons.prems obtain ds2 where
      r: "sfold ?f xs ds1 = Inr ds2" and t2: "depth_table ?steps ds2" and e2: "extends ds1 ds2"
      and a: "\<forall>s \<in> set xs. \<exists>n. dget ds2 (sd_id s) = Some n" by auto
    have "dget ds2 (sd_id x) = Some n" using g1 e2 by (simp add: extends_def)
    then show ?case using v r t2 extends_trans [OF e1 e2] a by simp
  qed simp
  from this [of ?steps "[]"] that show ?thesis
    by (auto simp: topological_depths_def depth_table_def)
qed

lemma depth_table_less:
  assumes "depth_table steps ds" and "distinct (map sd_id steps)" and "s \<in> set steps"
    and "d \<in> set (sd_depends_on s)" and "dget ds (sd_id s) = Some n" and "dget ds d = Some m"
  shows "m < n"
proof -
  obtain x where x: "x \<in> set steps" "sd_id x = sd_id s"
    and n: "n = (if sd_depends_on x = [] then 0
               else 1 + Max ((\<lambda>d. the (dget ds d)) ` set (sd_depends_on x)))"
    using assms(1,5) unfolding depth_table_def by blast
  have "x = s" using x assms(2,3) by (meson distinct_map inj_on_eq_iff)
  moreover have "sd_depends_on s \<noteq> []" using assms(4) by auto
  moreover have "m \<le> Max ((\<lambda>d. the (dget ds d)) ` set (sd_depends_on s))"
    using assms(4,6) by (intro Max_ge) (auto intro: rev_image_eqI)
  ultimately show ?thesis using n by simp
qed

section \<open>What is ready\<close>

text \<open>The state of a step in the list of step runs, and when the step may start.\<close>

definition state_in :: "step_run list \<Rightarrow> string \<Rightarrow> step_state \<Rightarrow> bool" where
  "state_in rs i st \<longleftrightarrow> (\<exists>r \<in> set rs. sr_step_id r = i \<and> sr_state r = st)"

definition may_start :: "step_run list \<Rightarrow> step_definition \<Rightarrow> bool" where
  "may_start rs s \<longleftrightarrow> (state_in rs (sd_id s) StepPending \<or> state_in rs (sd_id s) StepReady)
     \<and> (\<forall>d \<in> set (sd_depends_on s). state_in rs d StepSucceeded)"

lemma check_step_runs_Inr:
  "check_step_runs w rs = Inr u \<longleftrightarrow> distinct (map sr_step_id rs)
     \<and> sr_step_id ` set rs = sd_id ` set (wd_steps w) \<and> length (remdups (map sr_run_id rs)) = 1"
  by (auto simp: check_step_runs_def sbind_Inr_iff)

lemma state_in_lookup:
  assumes "distinct (map sr_step_id rs)" and "dget (runs_by_step rs) i = Some r"
  shows "state_in rs i st \<longleftrightarrow> sr_state r = st"
proof -
  have r: "r \<in> set rs" "sr_step_id r = i" using runs_by_step_Some [OF assms(1)] assms(2) by blast+
  have "x = r" if "x \<in> set rs" and "sr_step_id x = i" for x
    by (rule distinct_map_eq [OF assms(1) that(1) r(1)]) (simp add: that(2) r(2))
  then show ?thesis unfolding state_in_def using r by blast
qed

lemma is_ready_may_start:
  assumes d: "distinct (map sr_step_id rs)" and ids: "sr_step_id ` set rs = I"
    and s: "sd_id s \<in> I" and deps: "set (sd_depends_on s) \<subseteq> I"
  shows "is_ready (runs_by_step rs) s = Inr (may_start rs s)"
proof -
  have total: "\<exists>r. dget (runs_by_step rs) i = Some r" if "i \<in> I" for i
    using runs_by_step_total that ids by blast
  obtain r where r: "dget (runs_by_step rs) (sd_id s) = Some r" using total [OF s] by blast
  have fold: "sfold (\<lambda>d b. if b then sbind (or_raise (dget (runs_by_step rs) d) (KeyError d))
                                   (\<lambda>x. Inr (sr_state x = StepSucceeded))
                       else Inr False) ks b = Inr (b \<and> (\<forall>d \<in> set ks. state_in rs d StepSucceeded))"
    if "set ks \<subseteq> I" for ks b
    using that
  proof (induction ks arbitrary: b)
    case (Cons k ks)
    from Cons.prems have "k \<in> I" by simp
    from total [OF this] obtain x where x: "dget (runs_by_step rs) k = Some x" by blast
    show ?case
      using Cons state_in_lookup [OF d x, of StepSucceeded] x by (cases b) simp_all
  qed simp
  show ?thesis
    using r fold [OF deps, of True] state_in_lookup [OF d r]
    by (auto simp: is_ready_def may_start_def)
qed

lemma ready_steps_Inr:
  assumes g: "graph_ok (wd_steps w)" and c: "check_step_runs w rs = Inr u"
  shows "\<exists>ds. depth_table (wd_steps w) ds
    \<and> ready_steps w rs = Inr (sort_key (depth_key ds) (filter (may_start rs) (wd_steps w)))
    \<and> (\<forall>s \<in> set (wd_steps w). \<exists>n. dget ds (sd_id s) = Some n)"
proof -
  obtain ds where t: "topological_depths w = Inr ds" and dt: "depth_table (wd_steps w) ds"
    and tot: "\<And>s. s \<in> set (wd_steps w) \<Longrightarrow> \<exists>n. dget ds (sd_id s) = Some n"
    using topological_depths_ok [OF g] by blast
  have "sfilter (is_ready (runs_by_step rs)) (wd_steps w) = Inr (filter (may_start rs) (wd_steps w))"
  proof (rule sfilter_Inr)
    fix s assume s: "s \<in> set (wd_steps w)"
    have c': "distinct (map sr_step_id rs)" "sr_step_id ` set rs = sd_id ` set (wd_steps w)"
      using c unfolding check_step_runs_Inr by blast+
    show "is_ready (runs_by_step rs) s = Inr (may_start rs s)"
      by (rule is_ready_may_start [OF c']) (use s graph_okD(3) [OF g s] in auto)
  qed
  then have "ready_steps w rs = Inr (sort_key (depth_key ds) (filter (may_start rs) (wd_steps w)))"
    using c t by (simp add: ready_steps_def)
  then show ?thesis using dt tot by blast
qed


definition sample_definition :: workflow_definition where
  "sample_definition = \<lparr>wd_definition_id = ''d'', wd_version = 1,
     wd_steps = [sample_step ''a'' [], sample_step ''b'' [''a''], sample_step ''c'' []],
     wd_digest = ''x''\<rparr>"

definition sample_step_run :: "string \<Rightarrow> step_state \<Rightarrow> step_run" where
  "sample_step_run i st = (new_step ''r'' i)\<lparr>sr_state := st\<rparr>"

lemma sample_step_simps [simp]:
  "sd_id (sample_step i ds) = i" "sd_depends_on (sample_step i ds) = ds"
  by (simp_all add: sample_step_def)

lemma sample_graph_ok: "graph_ok (wd_steps sample_definition)"
proof -
  have "acyclic {(''a'', ''b'')}"
    by (rule acyclicI) (auto simp: trancl_insert)
  then show ?thesis
    by (simp add: graph_ok_def sample_definition_def step_graph_Union)
qed


section \<open>The order of compensation\<close>

lemma leaf_exists:
  assumes g: "graph_ok steps" and sub: "set remaining \<subseteq> set steps" and ne: "remaining \<noteq> []"
  obtains s where "s \<in> set remaining" and "\<forall>c \<in> set remaining. sd_id s \<notin> set (sd_depends_on c)"
proof -
  have fin: "finite (step_graph steps)"
    by (rule finite_subset [of _ "\<Union>s \<in> set steps. (\<lambda>d. (d, sd_id s)) ` set (sd_depends_on s)"])
      (auto simp: step_graph_Union)
  have "wf ((step_graph steps)\<inverse>)"
    using fin graph_okD(2) [OF g] by (rule finite_acyclic_wf_converse)
  moreover obtain x where "x \<in> set remaining" using ne by (cases remaining) auto
  ultimately obtain z where z: "z \<in> sd_id ` set remaining"
    and min: "\<And>y. (y, z) \<in> (step_graph steps)\<inverse> \<Longrightarrow> y \<notin> sd_id ` set remaining"
    by (metis image_eqI wfE_min)
  from z obtain s where s: "s \<in> set remaining" "z = sd_id s" by blast
  have "sd_id s \<notin> set (sd_depends_on c)" if "c \<in> set remaining" for c
  proof
    assume "sd_id s \<in> set (sd_depends_on c)"
    then have "(sd_id s, sd_id c) \<in> step_graph steps" using that sub by (auto simp: step_graph_def)
    then show False using min [of "sd_id c"] s that by auto
  qed
  then show ?thesis using s that by blast
qed

text \<open>The table of dependents computed once for the steps to compensate, used for any rest.\<close>

definition dependents_table :: "step_definition list \<Rightarrow> (string, string list) dict" where
  "dependents_table all = map (\<lambda>s. (sd_id s, dependents_of all (sd_id s))) all"

lemma dependents_table_get:
  assumes "s \<in> set all"
  shows "dget_list (dependents_table all) (sd_id s) = dependents_of all (sd_id s)"
proof -
  have get: "dget (map (\<lambda>s. (sd_id s, g (sd_id s))) xs) i = (if i \<in> sd_id ` set xs then Some (g i) else None)"
    for i g and xs :: "step_definition list"
    by (induction xs) auto
  from assms have "sd_id s \<in> sd_id ` set all" by simp
  with get [of "dependents_of all" all "sd_id s"]
  have "dget (dependents_table all) (sd_id s) = Some (dependents_of all (sd_id s))"
    unfolding dependents_table_def by presburger
  then show ?thesis by (simp add: dget_list_def)
qed

lemma leaves_iff:
  assumes d: "distinct (map sd_id all)" and sub: "set remaining \<subseteq> set all"
  shows "s \<in> set (leaves (dependents_table all) remaining) \<longleftrightarrow>
    s \<in> set remaining \<and> (\<forall>c \<in> set remaining. sd_id s \<notin> set (sd_depends_on c))"
proof -
  have eq: "c = x" if "c \<in> set all" and "x \<in> set all" and "sd_id c = sd_id x" for c x
    using distinct_map_eq [OF d] that by blast
  have "set (dependents_of all i) \<inter> sd_id ` set remaining = {} \<longleftrightarrow>
      (\<forall>c \<in> set remaining. i \<notin> set (sd_depends_on c))" for i
    using sub eq unfolding dependents_of_def by (auto; blast)
  note disjoint = this
  show ?thesis
  proof (cases "s \<in> set remaining")
    case True
    then have "dget_list (dependents_table all) (sd_id s) = dependents_of all (sd_id s)"
      using sub dependents_table_get by blast
    then show ?thesis using True unfolding leaves_def set_filter mem_Collect_eq disjoint [symmetric] by simp
  qed (simp add: leaves_def)
qed

text \<open>
  A list in which nothing comes before a step that depends on it, and in which every step was
  the best choice (\<open>first x y\<close>: nothing is lost by undoing \<open>x\<close> before \<open>y\<close>) among the rest that nothing
  left depends on.
\<close>

fun undo_order ::
  "(step_definition \<Rightarrow> step_definition \<Rightarrow> bool) \<Rightarrow> step_definition list \<Rightarrow> bool" where
  "undo_order first [] = True"
| "undo_order first (x # xs) \<longleftrightarrow>
     (\<forall>c \<in> set xs. sd_id x \<notin> set (sd_depends_on c))
     \<and> (\<forall>y \<in> set xs. (\<forall>c \<in> set (x # xs). sd_id y \<notin> set (sd_depends_on c)) \<longrightarrow> first x y)
     \<and> undo_order first xs"

lemma undo_order_mono:
  assumes "\<And>x y. x \<in> set xs \<Longrightarrow> y \<in> set xs \<Longrightarrow> first x y \<Longrightarrow> first' x y"
  shows "undo_order first xs \<Longrightarrow> undo_order first' xs"
  using assms by (induction xs) auto

abbreviation by_completion :: "(string, step_run) dict \<Rightarrow> step_definition \<Rightarrow> step_definition \<Rightarrow> bool" where
  "by_completion by_step x y \<equiv> completion_key by_step x \<le> completion_key by_step y"

lemma arg_min_list_le: "y \<in> set xs \<Longrightarrow> f (arg_min_list f xs) \<le> f y"
proof -
  assume y: "y \<in> set xs"
  then have "xs \<noteq> []" by auto
  then have "f (arg_min_list f xs) = Min (f ` set xs)" by (rule f_arg_min_list_f)
  also have "\<dots> \<le> f y" using y by simp
  finally show ?thesis .
qed

lemma compensation_loop_ok:
  assumes g: "graph_ok steps" and d: "distinct (map sd_id all)" and all: "set all \<subseteq> set steps"
  shows "set remaining \<subseteq> set all \<Longrightarrow> distinct (map sd_id remaining) \<Longrightarrow>
    \<exists>order. compensation_loop (dependents_table all) by_step remaining = Inr order
      \<and> set order = set remaining \<and> distinct (map sd_id order)
      \<and> undo_order (by_completion by_step) order"
proof (induction "length remaining" arbitrary: remaining rule: less_induct)
  case less
  let ?dep = "dependents_table all"
  show ?case
  proof (cases "remaining = []")
    case False
    have sub: "set remaining \<subseteq> set steps" using less.prems(1) all by blast
    note leaf = leaves_iff [OF d less.prems(1)]
    obtain z where z: "z \<in> set remaining" "\<forall>c \<in> set remaining. sd_id z \<notin> set (sd_depends_on c)"
      using leaf_exists [OF g sub False] .
    then have "z \<in> set (leaves ?dep remaining)" using leaf by blast
    then have ne: "leaves ?dep remaining \<noteq> []" by (metis empty_iff list.set(1))
    obtain x where sel: "arg_min_list (completion_key by_step) (leaves ?dep remaining) = x" by blast
    let ?rest = "filter (\<lambda>s. sd_id s \<noteq> sd_id x) remaining"
    have xl: "x \<in> set (leaves ?dep remaining)" using arg_min_list_in [OF ne] sel by metis
    then have x: "x \<in> set remaining" "\<forall>c \<in> set remaining. sd_id x \<notin> set (sd_depends_on c)"
      using leaf by blast+
    have len: "length ?rest < length remaining" using x(1) by (intro length_filter_less) auto
    have "set ?rest \<subseteq> set all" "distinct (map sd_id ?rest)"
      using less.prems by (auto simp: distinct_map_filter)
    from less.hyps [OF len this] obtain order where
      r: "compensation_loop ?dep by_step ?rest = Inr order" and so: "set order = set ?rest"
      and dist: "distinct (map sd_id order)" and u: "undo_order (by_completion by_step) order" by blast
    have whole: "set (x # order) = set remaining"
      using so x(1) distinct_map_eq [OF less.prems(2)] by auto
    have loop: "compensation_loop ?dep by_step remaining = Inr (x # order)"
      by (subst compensation_loop.simps) (simp add: False ne r sel)
    have "sd_id x \<notin> sd_id ` set order" unfolding so by auto
    then have dx: "distinct (map sd_id (x # order))" using dist by simp
    have "completion_key by_step x \<le> completion_key by_step y"
      if "y \<in> set order" and "\<forall>c \<in> set (x # order). sd_id y \<notin> set (sd_depends_on c)" for y
    proof -
      have "y \<in> set (leaves ?dep remaining)" using that so leaf unfolding whole by auto
      then show ?thesis using arg_min_list_le sel by metis
    qed
    moreover have "\<forall>c \<in> set order. sd_id x \<notin> set (sd_depends_on c)" using x(2) so by auto
    ultimately have "undo_order (by_completion by_step) (x # order)" using u by simp
    with loop whole dx show ?thesis by blast
  qed (simp add: compensation_loop.simps)
qed

text \<open>
  What has to be undone: a succeeded step with a compensation tool whose effect a successful
  forward attempt has applied. The status is written \<open>success\<close> or \<open>succeeded\<close>.
\<close>

definition effect_applied :: "step_attempt list \<Rightarrow> string \<Rightarrow> bool" where
  "effect_applied attempts i \<longleftrightarrow> (\<exists>a \<in> set attempts. sa_step_id a = i \<and> sa_phase a = ''forward''
     \<and> (sa_status a = ''success'' \<or> sa_status a = ''succeeded'') \<and> sa_effect_applied a)"

definition to_undo :: "step_run list \<Rightarrow> step_attempt list \<Rightarrow> step_definition \<Rightarrow> bool" where
  "to_undo rs attempts s \<longleftrightarrow> sd_compensation_tool s \<noteq> None
     \<and> state_in rs (sd_id s) StepSucceeded \<and> effect_applied attempts (sd_id s)"

text \<open>
  The order of undoing: the step run with the larger completion number first, a missing number
  counting as 0, then the smaller identifier.
\<close>

definition finished_as :: "step_run list \<Rightarrow> string \<Rightarrow> int \<Rightarrow> bool" where
  "finished_as rs i n \<longleftrightarrow> (\<exists>r \<in> set rs. sr_step_id r = i
     \<and> (sr_completion_sequence r = Some n \<or> sr_completion_sequence r = None \<and> n = 0))"

definition last_finished_first :: "step_run list \<Rightarrow> step_definition \<Rightarrow> step_definition \<Rightarrow> bool" where
  "last_finished_first rs x y \<longleftrightarrow> (\<exists>m n. finished_as rs (sd_id x) m \<and> finished_as rs (sd_id y) n
     \<and> (n < m \<or> n = m \<and> sd_id x \<le> sd_id y))"

lemma effect_applied_iff: "effect_applied attempts i \<longleftrightarrow> i \<in> set (successful_effects attempts)"
  by (auto simp: effect_applied_def successful_effects_def)

lemma is_compensable_eq:
  assumes "distinct (map sr_step_id rs)" and "sd_id s \<in> sr_step_id ` set rs"
  shows "is_compensable (runs_by_step rs) (successful_effects attempts) s = Inr (to_undo rs attempts s)"
proof -
  obtain r where r: "dget (runs_by_step rs) (sd_id s) = Some r"
    using runs_by_step_total [OF assms(2)] by blast
  show ?thesis
    using r state_in_lookup [OF assms(1) r]
    by (simp add: is_compensable_def to_undo_def effect_applied_iff)
qed

lemma completion_key_finished:
  assumes "distinct (map sr_step_id rs)" and "sd_id s \<in> sr_step_id ` set rs"
  obtains n where "finished_as rs (sd_id s) n" and "completion_key (runs_by_step rs) s = (- n, sd_id s)"
proof -
  obtain r where r: "dget (runs_by_step rs) (sd_id s) = Some r"
    using runs_by_step_total [OF assms(2)] by blast
  then have "r \<in> set rs" and "sr_step_id r = sd_id s"
    using runs_by_step_Some [OF assms(1)] by blast+
  then show ?thesis using r that
    by (cases "sr_completion_sequence r") (auto simp: completion_key_def finished_as_def)
qed

lemma by_completion_last_finished:
  assumes "distinct (map sr_step_id rs)"
    and "sd_id x \<in> sr_step_id ` set rs" and "sd_id y \<in> sr_step_id ` set rs"
    and "by_completion (runs_by_step rs) x y"
  shows "last_finished_first rs x y"
proof -
  obtain m where m: "finished_as rs (sd_id x) m" "completion_key (runs_by_step rs) x = (- m, sd_id x)"
    using completion_key_finished [OF assms(1,2)] .
  obtain n where n: "finished_as rs (sd_id y) n" "completion_key (runs_by_step rs) y = (- n, sd_id y)"
    using completion_key_finished [OF assms(1,3)] .
  have "(- m, sd_id x) \<le> (- n, sd_id y)" using assms(4) m(2) n(2) by simp
  then have "n < m \<or> n = m \<and> sd_id x \<le> sd_id y" by (auto simp: less_eq_prod_def)
  then show ?thesis using m(1) n(1) unfolding last_finished_first_def by blast
qed

lemma compensation_order_Inr:
  assumes g: "graph_ok (wd_steps w)" and rs: "distinct (map sr_step_id rs)"
    and ids: "sr_step_id ` set rs = sd_id ` set (wd_steps w)"
  shows "\<exists>order. compensation_order w rs attempts = Inr order
      \<and> set order = {s \<in> set (wd_steps w). to_undo rs attempts s}
      \<and> distinct (map sd_id order) \<and> undo_order (last_finished_first rs) order"
proof -
  let ?rem = "filter (to_undo rs attempts) (wd_steps w)"
  have "sfilter (is_compensable (runs_by_step rs) (successful_effects attempts)) (wd_steps w) = Inr ?rem"
    by (rule sfilter_Inr) (use ids is_compensable_eq [OF rs] in blast)
  then have c: "compensation_order w rs attempts
      = compensation_loop (dependents_table ?rem) (runs_by_step rs) ?rem"
    using ids by (simp add: compensation_order_def dependents_table_def)
  have d: "distinct (map sd_id ?rem)" using graph_okD(1) [OF g] by (rule distinct_map_filter)
  from compensation_loop_ok [OF g d _ subset_refl d] obtain order
    where o: "compensation_order w rs attempts = Inr order" "set order = set ?rem"
      "distinct (map sd_id order)" "undo_order (by_completion (runs_by_step rs)) order"
    unfolding c by fastforce
  have "undo_order (last_finished_first rs) order"
    by (rule undo_order_mono [OF _ o(4)], rule by_completion_last_finished [OF rs])
      (use o(2) ids in auto)
  with o show ?thesis by auto
qed

text \<open>
  C19: on an accepted definition, \<open>compensation_order\<close> terminates without an error and lists
  exactly the succeeded steps with a compensation tool and a successful forward attempt that
  applied its effect, each once, so that every step comes after all the listed steps that depend
  on it, and, among the steps that nothing left depends on, the one completed last (then the
  smallest id) is always next.
\<close>

theorem compensation_order_correct:
  assumes "graph_ok (wd_steps w)" and "distinct (map sr_step_id rs)"
    and "sr_step_id ` set rs = sd_id ` set (wd_steps w)"
  shows "\<exists>order. compensation_order w rs attempts = Inr order
      \<and> set order = {s \<in> set (wd_steps w). to_undo rs attempts s}
      \<and> distinct (map sd_id order) \<and> undo_order (last_finished_first rs) order"
  using compensation_order_Inr [OF assms] .

definition sample_attempt :: "string \<Rightarrow> step_attempt" where
  "sample_attempt i = \<lparr>sa_run_id = ''r'', sa_step_id = i, sa_attempt_no = 1, sa_phase = ''forward'',
     sa_attempt_id = ''at'', sa_status = ''success'', sa_idempotency_key = ''k'', sa_started_at = 0,
     sa_effect_applied = True, sa_completed_at = Some 1, sa_next_attempt_at = None,
     sa_result = PNone, sa_error_class = None, sa_error_message = None\<rparr>"

definition sample_undo_definition :: workflow_definition where
  "sample_undo_definition = sample_definition\<lparr>wd_steps :=
     map (\<lambda>i. (sample_step i [])\<lparr>sd_compensation_tool := Some \<lparr>ref_name = ''t'', ref_version = ''1''\<rparr>\<rparr>)
       [''a'', ''b'', ''c'']\<rparr>"

text \<open>
  Three independent succeeded steps, completed in the order \<open>a\<close>, \<open>b\<close>, \<open>c\<close>; the attempt of \<open>b\<close> found
  its effect already there and applied nothing: \<open>c\<close> is undone first, then \<open>a\<close>, and \<open>b\<close> not at all.
\<close>

definition sample_undo_runs :: "step_run list" where
  "sample_undo_runs = map (\<lambda>(i, n). (sample_step_run i StepSucceeded)\<lparr>sr_completion_sequence := Some n\<rparr>)
     [(''a'', 1), (''b'', 2), (''c'', 3)]"

definition sample_undo_attempts :: "step_attempt list" where
  "sample_undo_attempts = [sample_attempt ''a'', (sample_attempt ''b'')\<lparr>sa_effect_applied := False\<rparr>,
     (sample_attempt ''c'')\<lparr>sa_status := ''succeeded''\<rparr>]"

theorem compensation_order_correct_witness:
  "\<exists>order. compensation_order sample_undo_definition sample_undo_runs sample_undo_attempts = Inr order
    \<and> map sd_id order = [''c'', ''a'']"
proof -
  note defs = sample_undo_definition_def sample_undo_runs_def sample_undo_attempts_def
    sample_step_run_def new_step_def sample_attempt_def
  have g: "graph_ok (wd_steps sample_undo_definition)"
    by (simp add: graph_ok_def defs step_graph_Union acyclic_def)
  have d: "distinct (map sr_step_id sample_undo_runs)"
    and i: "sr_step_id ` set sample_undo_runs = sd_id ` set (wd_steps sample_undo_definition)"
    by (simp_all add: defs)
  let ?todo = "to_undo sample_undo_runs sample_undo_attempts"
  have "map sd_id (filter ?todo (wd_steps sample_undo_definition)) = [''a'', ''c'']"
    by (simp add: defs to_undo_def state_in_def effect_applied_def)
  then have todo: "sd_id ` {s \<in> set (wd_steps sample_undo_definition). ?todo s} = {''a'', ''c''}"
    by (metis list.set_map list.simps(15) list.set(1) set_filter)
  obtain order where
    o: "compensation_order sample_undo_definition sample_undo_runs sample_undo_attempts = Inr order"
      "set order = {s \<in> set (wd_steps sample_undo_definition). ?todo s}"
      "distinct (map sd_id order)" "undo_order (last_finished_first sample_undo_runs) order"
    using compensation_order_correct [OF g d i, of sample_undo_attempts] by blast
  have ids: "sd_id ` set order = {''a'', ''c''}" using todo o(2) by simp
  have "card (sd_id ` set order) = length order"
    using o(3) by (metis distinct_card length_map set_map)
  then have "length order = 2" unfolding ids by simp
  then obtain x y where xy: "order = [x, y]" by (auto simp: length_Suc_conv numeral_2_eq_2)
  have "sd_depends_on s = []" if "s \<in> set (wd_steps sample_undo_definition)" for s
    using that by (auto simp: defs)
  then have "sd_depends_on x = []" and "sd_depends_on y = []" using o(2) xy by auto
  then have first: "last_finished_first sample_undo_runs x y" using o(4) unfolding xy by simp
  have "{sd_id x, sd_id y} = {''a'', ''c''}" using ids unfolding xy by simp
  moreover have False if "sd_id x = ''a''" and "sd_id y = ''c''"
    using first unfolding last_finished_first_def finished_as_def that
    by (simp add: defs)
  ultimately have "sd_id x = ''c''" and "sd_id y = ''a''" unfolding doubleton_eq_iff by blast+
  then show ?thesis using o(1) unfolding xy by simp
qed

end
