(* ===== verification/Redaction.thy ===== *)
theory Redaction
  imports Tooling
begin

text \<open>
  The redaction of \<open>workflow/application/tooling.py\<close>. A value is walked with the path of keys
  and indexes that leads to it; what stands at a sensitive path or under a sensitive name, every
  secret reference and every text argument of an exception is replaced by a marker, and models
  and exceptions become plain dictionaries.
\<close>

section \<open>The code\<close>

definition redacted_text :: string where
  "redacted_text = ''[REDACTED]''"

abbreviation REDACTED :: pyval where
  "REDACTED \<equiv> PStr redacted_text"

definition common_sensitive_keys :: "string list" where
  "common_sensitive_keys =
     [''access_key'', ''api_key'', ''apikey'', ''authorization'', ''password'', ''secret'',
      ''secret_key'', ''token'']"

definition is_sensitive_segment :: "string \<Rightarrow> bool" where
  "is_sensitive_segment s = (casefold s \<in> set common_sensitive_keys)"

text \<open>\<open>output[key] = value\<close> for each entry in turn, into an empty dictionary.\<close>

definition dict_of :: "(string \<times> pyval) list \<Rightarrow> (pykey, pyval) dict" where
  "dict_of kvs = fold (\<lambda>kv. dset (KStr (fst kv)) (snd kv)) kvs []"

fun redact_value :: "string list list \<Rightarrow> string list \<Rightarrow> pyval \<Rightarrow> pyval"
  and redact_fields :: "string list list \<Rightarrow> string list \<Rightarrow> (string \<times> pyval) list \<Rightarrow> (string \<times> pyval) list"
  and redact_entries :: "string list list \<Rightarrow> string list \<Rightarrow> (pykey \<times> pyval) list \<Rightarrow> (string \<times> pyval) list"
  and redact_items :: "string list list \<Rightarrow> string list \<Rightarrow> nat \<Rightarrow> pyval list \<Rightarrow> pyval list"
  and redact_exception_args :: "string list list \<Rightarrow> string list \<Rightarrow> nat \<Rightarrow> pyval list \<Rightarrow> pyval list"
where
  "redact_value sp path v =
     (if path \<in> set sp then REDACTED
      else (case v of
              PSecret p n \<Rightarrow> REDACTED
            | PModel c fs \<Rightarrow> PDict (dict_of (redact_fields sp path fs))
            | PExc c as \<Rightarrow>
                PDict (dict_of [(''type'', PStr c),
                                (''args'', PList (redact_exception_args sp path 0 as))])
            | PDict d \<Rightarrow> PDict (dict_of (redact_entries sp path d))
            | PProxy d \<Rightarrow> PDict (dict_of (redact_entries sp path d))
            | PList xs \<Rightarrow> PList (redact_items sp path 0 xs)
            | PTuple xs \<Rightarrow> PTuple (redact_items sp path 0 xs)
            | _ \<Rightarrow> v))"
| "redact_fields sp path [] = []"
| "redact_fields sp path ((k, v) # fs) =
     (k, if is_sensitive_segment k \<or> path @ [k] \<in> set sp then REDACTED
         else redact_value sp (path @ [k]) v) # redact_fields sp path fs"
| "redact_entries sp path [] = []"
| "redact_entries sp path ((k, v) # es) =
     (key_text k, if is_sensitive_segment (key_text k) \<or> path @ [key_text k] \<in> set sp then REDACTED
                  else redact_value sp (path @ [key_text k]) v) # redact_entries sp path es"
| "redact_items sp path i [] = []"
| "redact_items sp path i (x # xs) =
     redact_value sp (path @ [nat_digits i]) x # redact_items sp path (Suc i) xs"
| "redact_exception_args sp path i [] = []"
| "redact_exception_args sp path i (x # xs) =
     (case x of PStr s \<Rightarrow> REDACTED | PBytes b \<Rightarrow> REDACTED
      | _ \<Rightarrow> redact_value sp (path @ [''args'', nat_digits i]) x)
     # redact_exception_args sp path (Suc i) xs"

declare redact_value.simps [simp del]

definition redact :: "pyval \<Rightarrow> string list \<Rightarrow> error + pyval" where
  "redact v sensitive_paths =
     sbind (smap normalize_sensitive_path sensitive_paths) (\<lambda>sp. Inr (redact_value sp [] v))"

lemma redact_no_paths [simp]: "redact v [] = Inr (redact_value [] [] v)"
  by (simp add: redact_def)

section \<open>What a redacted value looks like\<close>

text \<open>
  \<open>masked\<close>: no secret reference, model or exception is left, dictionaries have string keys, and
  what stands under a sensitive name is the marker.
\<close>

fun masked :: "pyval \<Rightarrow> bool" where
  "masked (PSecret _ _) = False"
| "masked (PModel _ _) = False"
| "masked (PExc _ _) = False"
| "masked (PProxy _) = False"
| "masked (PDict d) =
     list_all (\<lambda>kv. (\<exists>k. fst kv = KStr k)
                 \<and> (is_sensitive_segment (key_text (fst kv)) \<longrightarrow> snd kv = REDACTED)
                 \<and> masked (snd kv)) d"
| "masked (PList xs) = list_all masked xs"
| "masked (PTuple xs) = list_all masked xs"
| "masked _ = True"

lemma dict_of_append: "dict_of (xs @ [x]) = dset (KStr (fst x)) (snd x) (dict_of xs)"
  by (simp add: dict_of_def)

lemma dwf_dict_of [simp]: "dwf (dict_of xs)"
  by (induction xs rule: rev_induct) (simp_all add: dict_of_append, simp add: dict_of_def)

lemma set_dict_of: "set (dict_of xs) \<subseteq> (\<lambda>(k, v). (KStr k, v)) ` set xs"
proof (induction xs rule: rev_induct)
  case Nil
  then show ?case by (simp add: dict_of_def)
next
  case (snoc x xs)
  have "set (dict_of (xs @ [x])) \<subseteq> insert (KStr (fst x), snd x) (set (dict_of xs))"
    by (auto simp: dict_of_append set_dset)
  with snoc show ?case by (cases x) auto
qed

lemma dget_dict_of: "dget (dict_of xs) (KStr k) = map_of (rev xs) k"
proof (induction xs rule: rev_induct)
  case Nil
  then show ?case by (simp add: dict_of_def)
next
  case (snoc x xs)
  then show ?case by (cases x) (simp add: dict_of_append)
qed

lemma masked_dict_of:
  assumes "\<And>k v. (k, v) \<in> set xs \<Longrightarrow> masked v \<and> (is_sensitive_segment k \<longrightarrow> v = REDACTED)"
  shows "masked (PDict (dict_of xs))"
  using assms set_dict_of [of xs] by (fastforce simp: list_all_iff)

lemma redact_masked_all:
  "masked (redact_value sp path v)"
  "(k, w) \<in> set (redact_fields sp path fs) \<Longrightarrow>
     masked w \<and> (is_sensitive_segment k \<longrightarrow> w = REDACTED)"
  "(k, w) \<in> set (redact_entries sp path es) \<Longrightarrow>
     masked w \<and> (is_sensitive_segment k \<longrightarrow> w = REDACTED)"
  "list_all masked (redact_items sp path i xs)"
  "list_all masked (redact_exception_args sp path i xs)"
proof (induction sp path v and sp path fs and sp path es and sp path i xs and sp path i xs
    arbitrary: and k w and k w and and
    rule: redact_value_redact_fields_redact_entries_redact_items_redact_exception_args.induct)
  case (1 sp path v)
  have exc: "masked (PDict (dict_of [(''type'', PStr c), (''args'', PList ys)]))"
    if "list_all masked ys" for c ys
    using that by (intro masked_dict_of)
      (auto simp: is_sensitive_segment_def common_sensitive_keys_def casefold_def
         casefold_char_def code_def)
  show ?case
  proof (cases "path \<in> set sp")
    case True
    then show ?thesis by (simp add: redact_value.simps)
  next
    case False
    show ?thesis
      using False 1[OF False]
      by (cases v) (auto simp: redact_value.simps simp del: masked.simps(5) intro!: masked_dict_of exc)
  qed
qed (auto split: pyval.splits if_splits)

section \<open>Sensitive paths\<close>

text \<open>\<open>at_path v p\<close>: what a reader finds in a redacted value by following keys and indexes.\<close>

fun at_path :: "pyval \<Rightarrow> string list \<Rightarrow> pyval option" where
  "at_path v [] = Some v"
| "at_path (PDict d) (k # p) =
     (case dget d (KStr k) of None \<Rightarrow> None | Some w \<Rightarrow> at_path w p)"
| "at_path (PList xs) (k # p) =
     (case List.find (\<lambda>i. nat_digits i = k) [0..<length xs] of
        None \<Rightarrow> None | Some i \<Rightarrow> at_path (xs ! i) p)"
| "at_path (PTuple xs) (k # p) =
     (case List.find (\<lambda>i. nat_digits i = k) [0..<length xs] of
        None \<Rightarrow> None | Some i \<Rightarrow> at_path (xs ! i) p)"
| "at_path _ _ = None"

fun exception_free :: "pyval \<Rightarrow> bool" where
  "exception_free (PExc _ _) = False"
| "exception_free (PModel _ fs) = list_all (\<lambda>kv. exception_free (snd kv)) fs"
| "exception_free (PDict d) = list_all (\<lambda>kv. exception_free (snd kv)) d"
| "exception_free (PProxy d) = list_all (\<lambda>kv. exception_free (snd kv)) d"
| "exception_free (PList xs) = list_all exception_free xs"
| "exception_free (PTuple xs) = list_all exception_free xs"
| "exception_free _ = True"

lemma size_entry: "(k, v) \<in> set d \<Longrightarrow> size v < size_list (size_prod f size) d"
  by (induction d) auto

lemma size_item: "x \<in> set xs \<Longrightarrow> size x < size_list size xs"
  by (induction xs) auto

lemma at_path_REDACTED: "at_path REDACTED p = Some x \<Longrightarrow> x = REDACTED"
  by (cases p) auto

lemma redact_fields_map:
  "redact_fields sp path fs =
     map (\<lambda>(k, v). (k, if is_sensitive_segment k \<or> path @ [k] \<in> set sp then REDACTED
                       else redact_value sp (path @ [k]) v)) fs"
  by (induction fs) auto

lemma redact_entries_map:
  "redact_entries sp path es =
     map (\<lambda>(k, v). (key_text k, if is_sensitive_segment (key_text k) \<or> path @ [key_text k] \<in> set sp
                                then REDACTED else redact_value sp (path @ [key_text k]) v)) es"
  by (induction es) auto

lemma redact_items_length [simp]: "length (redact_items sp path i xs) = length xs"
  by (induction xs arbitrary: i) auto

lemma redact_items_nth:
  "j < length xs \<Longrightarrow>
   redact_items sp path i xs ! j = redact_value sp (path @ [nat_digits (i + j)]) (xs ! j)"
proof (induction xs arbitrary: i j)
  case (Cons x xs)
  then show ?case by (cases j) auto
qed simp

lemma redact_items_at:
  assumes "\<And>j p x. j < length xs \<Longrightarrow> path @ nat_digits j # p \<in> set sp \<Longrightarrow>
             at_path (redact_value sp (path @ [nat_digits j]) (xs ! j)) p = Some x \<Longrightarrow> x = REDACTED"
    and "path @ k # p \<in> set sp"
    and "(case List.find (\<lambda>i. nat_digits i = k) [0..<length xs] of
            None \<Rightarrow> None | Some i \<Rightarrow> at_path (redact_items sp path 0 xs ! i) p) = Some x"
  shows "x = REDACTED"
proof -
  obtain i where i: "List.find (\<lambda>i. nat_digits i = k) [0..<length xs] = Some i"
    and at: "at_path (redact_items sp path 0 xs ! i) p = Some x"
    using assms(3) by (auto split: option.splits)
  from find_Some_iff_first [OF i] have "i < length xs" and "nat_digits i = k" by auto
  with at assms(1)[of i p x] assms(2) show ?thesis by (simp add: redact_items_nth)
qed

lemma redact_entry_at:
  assumes "dget (dict_of es) (KStr k) = Some w"
  shows "(k, w) \<in> set es"
  using assms by (auto simp: dget_dict_of dest!: map_of_SomeD)

lemma redact_value_at:
  assumes "exception_free v" and "path @ p \<in> set sp" and "at_path (redact_value sp path v) p = Some x"
  shows "x = REDACTED"
  using assms
proof (induction v arbitrary: path p x rule: measure_induct_rule [where f = size])
  case (less v)
  show ?case
  proof (cases "path \<in> set sp")
    case True
    with less.prems show ?thesis by (simp add: redact_value.simps at_path_REDACTED)
  next
    case notin: False
    with less.prems(2) obtain k q where p: "p = k # q" by (cases p) auto
    have entry: "x = REDACTED"
      if "size v' < size v" and "exception_free v'"
        and w: "w = REDACTED \<or> w = redact_value sp (path @ [k]) v'"
        and at: "at_path w q = Some x" for v' w
      using less.IH [OF that(1) that(2), of "path @ [k]" q x] w at less.prems(2) p
      by (auto simp: at_path_REDACTED)
    have entries: "x = REDACTED"
      if v: "v \<in> {PDict d, PProxy d}"
        and at: "(case dget (dict_of (redact_entries sp path d)) (KStr k) of
                    None \<Rightarrow> None | Some w \<Rightarrow> at_path w q) = Some x" for d
    proof -
      from at obtain w where "dget (dict_of (redact_entries sp path d)) (KStr k) = Some w"
        and w: "at_path w q = Some x" by (auto split: option.splits)
      from redact_entry_at [OF this(1)] obtain k' v' where kv: "(k', v') \<in> set d"
        and w': "w = REDACTED \<or> w = redact_value sp (path @ [k]) v'"
        by (auto simp: redact_entries_map split: if_splits)
      have "exception_free v'" using v kv less.prems(1) by (force simp: list_all_iff)
      moreover have "size v' < size v" using v size_entry [OF kv, of "\<lambda>_. 0"] by auto
      ultimately show ?thesis using entry w w' by blast
    qed
    have fields: "x = REDACTED"
      if v: "v = PModel c fs"
        and at: "(case dget (dict_of (redact_fields sp path fs)) (KStr k) of
                    None \<Rightarrow> None | Some w \<Rightarrow> at_path w q) = Some x" for c fs
    proof -
      from at obtain w where "dget (dict_of (redact_fields sp path fs)) (KStr k) = Some w"
        and w: "at_path w q = Some x" by (auto split: option.splits)
      from redact_entry_at [OF this(1)] obtain v' where kv: "(k, v') \<in> set fs"
        and w': "w = REDACTED \<or> w = redact_value sp (path @ [k]) v'"
        by (auto simp: redact_fields_map split: if_splits)
      have "exception_free v'" using v kv less.prems(1) by (force simp: list_all_iff)
      moreover have "size v' < size v" using v size_entry [OF kv, of "\<lambda>_. 0"] by auto
      ultimately show ?thesis using entry w w' by blast
    qed
    have items: "x = REDACTED"
      if v: "v \<in> {PList xs, PTuple xs}"
        and at: "(case List.find (\<lambda>i. nat_digits i = k) [0..<length xs] of
            None \<Rightarrow> None | Some i \<Rightarrow> at_path (redact_items sp path 0 xs ! i) q) = Some x" for xs
    proof (rule redact_items_at [OF _ _ at])
      show "path @ k # q \<in> set sp" using less.prems(2) p by simp
      fix j p' y
      assume j: "j < length xs" and "path @ nat_digits j # p' \<in> set sp"
        and "at_path (redact_value sp (path @ [nat_digits j]) (xs ! j)) p' = Some y"
      moreover have "size (xs ! j) < size v"
        using v j size_item [of "xs ! j" xs] by auto
      moreover have "exception_free (xs ! j)"
        using v j less.prems(1) by (auto simp: list_all_length)
      ultimately show "y = REDACTED" using less.IH [of "xs ! j" "path @ [nat_digits j]" p' y] by simp
    qed
    show ?thesis
      using less.prems(1,3) notin p entries fields items
      by (cases v) (auto simp: redact_value.simps)
  qed
qed

section \<open>Redacting twice\<close>

lemma dict_of_KStr:
  assumes "dwf d" and "\<And>k v. (k, v) \<in> set d \<Longrightarrow> \<exists>s. k = KStr s"
  shows "dict_of (map (\<lambda>(k, v). (key_text k, f k v)) d) = map (\<lambda>(k, v). (k, f k v)) d"
  using assms
proof (induction d rule: rev_induct)
  case Nil
  then show ?case by (simp add: dict_of_def)
next
  case (snoc x xs)
  obtain s v where x: "x = (KStr s, v)" using snoc.prems(2) by (cases x) fastforce
  have IH: "dict_of (map (\<lambda>(k, v). (key_text k, f k v)) xs) = map (\<lambda>(k, v). (k, f k v)) xs"
    by (rule snoc.IH) (use snoc.prems in auto)
  have "KStr s \<notin> fst ` set xs" using snoc.prems(1) x by simp
  then have "dset (KStr s) w (map (\<lambda>(k, v). (k, f k v)) xs)
               = map (\<lambda>(k, v). (k, f k v)) xs @ [(KStr s, w)]" for w
    by (induction xs) auto
  then show ?case using IH x by (simp add: dict_of_append)
qed

lemma dict_of_fixed:
  assumes "\<And>k w. (KStr k, w) \<in> set (dict_of es) \<Longrightarrow> f k w = w"
  shows "dict_of (map (\<lambda>(k, w). (key_text k, f (key_text k) w)) (dict_of es)) = dict_of es"
proof -
  have str: "\<exists>s. k = KStr s" if "(k, w) \<in> set (dict_of es)" for k w
    using that set_dict_of [of es] by auto
  have "dict_of (map (\<lambda>(k, w). (key_text k, f (key_text k) w)) (dict_of es))
          = map (\<lambda>(k, w). (k, f (key_text k) w)) (dict_of es)"
    by (rule dict_of_KStr [where f = "\<lambda>k w. f (key_text k) w"]) (use str in auto)
  also have "\<dots> = dict_of es"
    using str assms by (intro map_idI) force
  finally show ?thesis .
qed

lemma redact_value_idem:
  assumes "exception_free v"
  shows "redact_value sp path (redact_value sp path v) = redact_value sp path v"
  using assms
proof (induction v arbitrary: path rule: measure_induct_rule [where f = size])
  case (less v)
  show ?case
  proof (cases "path \<in> set sp")
    case True
    then show ?thesis by (simp add: redact_value.simps)
  next
    case notin: False
    let ?g = "\<lambda>k w. if is_sensitive_segment k \<or> path @ [k] \<in> set sp then REDACTED
                    else redact_value sp (path @ [k]) w"
    have fixed: "dict_of (redact_entries sp path (dict_of es)) = dict_of es"
      if "\<And>k w. (k, w) \<in> set es \<Longrightarrow> \<exists>v'. w = ?g k v' \<and> size v' < size v \<and> exception_free v'"
      for es
      unfolding redact_entries_map
    proof (rule dict_of_fixed)
      fix k w
      assume "(KStr k, w) \<in> set (dict_of es)"
      with set_dict_of [of es] have "(k, w) \<in> set es" by auto
      from that [OF this] less.IH show "?g k w = w" by auto
    qed
    have entries: "dict_of (redact_entries sp path (dict_of (redact_entries sp path d)))
                     = dict_of (redact_entries sp path d)" if "v \<in> {PDict d, PProxy d}" for d
    proof (rule fixed)
      fix k w
      assume "(k, w) \<in> set (redact_entries sp path d)"
      then obtain k' v' where kv: "(k', v') \<in> set d" and "k = key_text k'" and "w = ?g k v'"
        by (auto simp: redact_entries_map split: if_splits)
      moreover have "size v' < size v" using that size_entry [OF kv, of "\<lambda>_. 0"] by auto
      moreover have "exception_free v'" using that kv less.prems by (force simp: list_all_iff)
      ultimately show "\<exists>v'. w = ?g k v' \<and> size v' < size v \<and> exception_free v'" by blast
    qed
    have fields: "dict_of (redact_entries sp path (dict_of (redact_fields sp path fs)))
                    = dict_of (redact_fields sp path fs)" if "v = PModel c fs" for c fs
    proof (rule fixed)
      fix k w
      assume "(k, w) \<in> set (redact_fields sp path fs)"
      then obtain v' where kv: "(k, v') \<in> set fs" and "w = ?g k v'"
        by (auto simp: redact_fields_map split: if_splits)
      moreover have "size v' < size v" using that size_entry [OF kv, of "\<lambda>_. 0"] by auto
      moreover have "exception_free v'" using that kv less.prems by (force simp: list_all_iff)
      ultimately show "\<exists>v'. w = ?g k v' \<and> size v' < size v \<and> exception_free v'" by blast
    qed
    have items: "redact_items sp path 0 (redact_items sp path 0 xs) = redact_items sp path 0 xs"
      if "v \<in> {PList xs, PTuple xs}" for xs
    proof (rule nth_equalityI)
      fix j
      assume "j < length (redact_items sp path 0 (redact_items sp path 0 xs))"
      then have j: "j < length xs" by simp
      then have "size (xs ! j) < size v" and "exception_free (xs ! j)"
        using that size_item [of "xs ! j" xs] less.prems by (auto simp: list_all_length)
      from less.IH [OF this, of "path @ [nat_digits j]"] j
      show "redact_items sp path 0 (redact_items sp path 0 xs) ! j = redact_items sp path 0 xs ! j"
        by (simp add: redact_items_nth)
    qed simp
    show ?thesis
      using less.prems notin entries fields items
      by (cases v) (simp_all add: redact_value.simps)
  qed
qed

section \<open>Properties\<close>

text \<open>
  C17: whatever is redacted, the result holds no secret reference, no model and no exception,
  has string keys only, and shows the marker under every sensitive name.
\<close>

theorem redact_masks: "redact v paths = Inr w \<Longrightarrow> masked w"
  by (auto simp: redact_def redact_masked_all(1))

theorem redact_masks_witness:
  "redact (PDict [(KStr ''Api_Key'', PStr ''k''), (KStr ''ref'', PSecret ''vault'' ''n'')]) []
     = Inr (PDict [(KStr ''Api_Key'', REDACTED), (KStr ''ref'', REDACTED)])
   \<and> masked (PDict [(KStr ''Api_Key'', REDACTED), (KStr ''ref'', REDACTED)])"
proof -
  have r: "redact (PDict [(KStr ''Api_Key'', PStr ''k''), (KStr ''ref'', PSecret ''vault'' ''n'')]) []
     = Inr (PDict [(KStr ''Api_Key'', REDACTED), (KStr ''ref'', REDACTED)])"
    by code_simp
  show ?thesis using r redact_masks [OF r] by blast
qed

text \<open>
  In a value without exceptions, a reader that follows a declared sensitive path through the
  redacted value finds the marker or nothing.
\<close>

theorem redact_sensitive_paths:
  assumes "exception_free v" and "redact v paths = Inr w"
    and "p \<in> set paths" and "normalize_sensitive_path p = Inr segs"
    and "at_path w segs = Some x"
  shows "x = REDACTED"
proof -
  obtain sp where sp: "smap normalize_sensitive_path paths = Inr sp" and w: "w = redact_value sp [] v"
    using assms(2) by (auto simp: redact_def)
  have "segs \<in> set sp"
    using smap_map_Inr [OF sp] assms(3,4) by (metis image_eqI image_set sum.inject(2) imageE)
  with redact_value_at [OF assms(1), of "[]" segs sp x] assms(5) w show ?thesis by simp
qed

theorem redact_sensitive_paths_witness:
  "\<exists>w x. redact (PDict [(KStr ''db'', PList [PDict [(KStr ''dsn'', PStr ''u'')]])]) [''db.0.dsn''] = Inr w
     \<and> at_path w [''db'', ''0'', ''dsn''] = Some x \<and> x = REDACTED"
proof -
  let ?v = "PDict [(KStr ''db'', PList [PDict [(KStr ''dsn'', PStr ''u'')]])]"
  let ?w = "PDict [(KStr ''db'', PList [PDict [(KStr ''dsn'', REDACTED)]])]"
  have 1: "exception_free ?v" by simp
  have 2: "redact ?v [''db.0.dsn''] = Inr ?w" by code_simp
  have 3: "normalize_sensitive_path ''db.0.dsn'' = Inr [''db'', ''0'', ''dsn'']" by code_simp
  have 4: "at_path ?w [''db'', ''0'', ''dsn''] = Some REDACTED" by code_simp
  show ?thesis
    using 2 4 redact_sensitive_paths [OF 1 2 _ 3 4] by auto
qed

text \<open>
  redacting an exception-free value a second time with the same paths changes nothing, so the
  query side may redact again what was stored redacted.
\<close>

theorem redact_idempotent:
  assumes "exception_free v" and "redact v paths = Inr w"
  shows "redact w paths = Inr w"
  using assms redact_value_idem by (auto simp: redact_def)

theorem redact_idempotent_witness:
  "redact (PDict [(KStr ''token'', REDACTED), (KStr ''n'', PInt 3)]) [''n'', ''q''] =
     Inr (PDict [(KStr ''token'', REDACTED), (KStr ''n'', REDACTED)])
   \<and> redact (PDict [(KStr ''token'', REDACTED), (KStr ''n'', REDACTED)]) [''n'', ''q''] =
     Inr (PDict [(KStr ''token'', REDACTED), (KStr ''n'', REDACTED)])"
proof -
  have e: "exception_free (PDict [(KStr ''token'', REDACTED), (KStr ''n'', PInt 3)])" by simp
  have r: "redact (PDict [(KStr ''token'', REDACTED), (KStr ''n'', PInt 3)]) [''n'', ''q''] =
     Inr (PDict [(KStr ''token'', REDACTED), (KStr ''n'', REDACTED)])" by code_simp
  show ?thesis using r redact_idempotent [OF e r] by blast
qed

end
