(* ===== verification/Idempotency.thy ===== *)
theory Idempotency
  imports Tooling
begin

text \<open>
  The logical idempotency key of \<open>workflow/application/tooling.py\<close>: the SHA-256 digest of the
  canonical JSON text of a run, a step, a tool version and a phase. Two effects have the same
  text exactly when they are the same effect, so two keys can only clash by a collision of
  SHA-256 itself.
\<close>

section \<open>The code\<close>

record effect_identity =
  ef_run_id :: string
  ef_step_id :: string
  ef_tool_name :: string
  ef_tool_version :: string
  ef_phase :: phase

definition require_identity :: "string \<Rightarrow> string \<Rightarrow> error + string" where
  "require_identity value field =
     (if is_blank value then Inl (ValueError (field @ '' must be a non-empty string''))
      else Inr value)"

definition identity_payload :: "effect_identity \<Rightarrow> error + pyval" where
  "identity_payload e =
     sbind (require_identity (phase_value (ef_phase e)) ''phase'') (\<lambda>ph.
     sbind (require_identity (ef_run_id e) ''run_id'') (\<lambda>r.
     sbind (require_identity (ef_step_id e) ''step_id'') (\<lambda>s.
     sbind (require_identity (ef_tool_name e) ''tool_name'') (\<lambda>n.
     sbind (require_identity (ef_tool_version e) ''tool_version'') (\<lambda>v.
     Inr (PDict [(KStr ''phase'', PStr ph), (KStr ''run_id'', PStr r), (KStr ''step_id'', PStr s),
                 (KStr ''tool'', PDict [(KStr ''name'', PStr n), (KStr ''version'', PStr v)])]))))))"

definition identity_text :: "effect_identity \<Rightarrow> error + string" where
  "identity_text e = sbind (identity_payload e) (json_dumps True)"

definition logical_idempotency_key :: "effect_identity \<Rightarrow> error + string" where
  "logical_idempotency_key e = sbind (identity_payload e) (json_digest True)"

lemma key_is_digest_of_text:
  "logical_idempotency_key e = sbind (identity_text e) (\<lambda>t. Inr (sha256_hexdigest (utf8 t)))"
  by (simp add: logical_idempotency_key_def identity_text_def json_digest_def [abs_def] sbind_assoc)

section \<open>JSON strings can be read back\<close>

lemma code_inject [simp]: "code c = code d \<longleftrightarrow> c = d"
  by (simp add: code_def)

lemma code_less: "code c < 256"
  by (simp add: code_def)

definition hex_value :: "char \<Rightarrow> nat" where
  "hex_value h = length (takeWhile (\<lambda>d. d \<noteq> h) ''0123456789abcdef'')"

lemma hex_value_digit: "n < 16 \<Longrightarrow> hex_value (hex_digit n) = n"
proof -
  assume "n < 16"
  moreover have "\<forall>n \<in> set [0..<16]. hex_value (hex_digit n) = n" by code_simp
  ultimately show ?thesis by auto
qed

text \<open>The code of the first character of a JSON text, escaped or not.\<close>

definition json_head_code :: "string \<Rightarrow> nat" where
  "json_head_code s =
     (if hd s \<noteq> CHR 92 then code (hd s)
      else let b = hd (tl s)
           in if b = CHR ''u'' then 16 * hex_value (s ! 4) + hex_value (s ! 5)
              else if b = CHR ''n'' then 10 else if b = CHR ''r'' then 13
              else if b = CHR ''t'' then 9 else if b = CHR ''f'' then 12
              else if b = CHR ''b'' then 8 else code b)"

lemma code_special: "code (CHR 34) = 34" "code (CHR 92) = 92"
  by (simp_all add: code_def)

lemma json_head_code_char: "json_head_code (json_char c @ x) = code c"
proof -
  have hex: "16 * hex_value (hex_digit (code c div 16)) + hex_value (hex_digit (code c mod 16))
               = code c"
    using code_less [of c] by (simp add: hex_value_digit)
  show ?thesis
  proof (cases "code c < 32 \<or> 127 \<le> code c")
    case True
    then have "c \<noteq> CHR 34" and "c \<noteq> CHR 92" by (auto simp: code_special)
    with True hex show ?thesis
      by (simp add: json_char_def json_head_code_def hex_byte_def)
  next
    case False
    then show ?thesis by (auto simp: json_char_def json_head_code_def code_special)
  qed
qed

lemma json_char_inject: "json_char c @ x = json_char d @ y \<Longrightarrow> c = d \<and> x = y"
  using json_head_code_char [of c x] json_head_code_char [of d y] by simp

lemma json_char_head: "json_char c @ x \<noteq> CHR 34 # y"
  by (simp add: json_char_def)

text \<open>A JSON string ends where its text says, so a reader recovers the string and the rest.\<close>

lemma json_string_inject:
  "json_string s @ x = json_string t @ y \<Longrightarrow> s = t \<and> x = y"
proof (induction s arbitrary: t)
  case Nil
  then show ?case using json_char_head [symmetric] by (cases t) (auto simp: json_string_def)
next
  case (Cons c s)
  then obtain d u where t: "t = d # u"
    using json_char_head by (cases t) (auto simp: json_string_def)
  from Cons.prems have "json_char c @ (concat (map json_char s) @ CHR 34 # x)
                          = json_char d @ (concat (map json_char u) @ CHR 34 # y)"
    by (simp add: json_string_def t)
  then have "c = d" and "concat (map json_char s) @ CHR 34 # x = concat (map json_char u) @ CHR 34 # y"
    using json_char_inject by blast+
  with Cons.IH [of u] show ?case by (simp add: json_string_def t)
qed

lemma json_string_eq [simp]: "json_string s = json_string t \<longleftrightarrow> s = t"
  using json_string_inject [of s "[]" t "[]"] by auto

lemma identity_text_Inr:
  "identity_text e = Inr t \<Longrightarrow>
   t = [CHR ''{''] @ json_string ''phase'' @ '':'' @ json_string (phase_value (ef_phase e))
       @ '','' @ json_string ''run_id'' @ '':'' @ json_string (ef_run_id e)
       @ '','' @ json_string ''step_id'' @ '':'' @ json_string (ef_step_id e)
       @ '','' @ json_string ''tool'' @ '':'' @ [CHR ''{''] @ json_string ''name'' @ '':''
       @ json_string (ef_tool_name e) @ '','' @ json_string ''version'' @ '':''
       @ json_string (ef_tool_version e) @ ''}}''"
proof -
  have "sort_key fst [(''phase'', a), (''run_id'', b), (''step_id'', c), (''tool'', d)]
          = [(''phase'', a), (''run_id'', b), (''step_id'', c), (''tool'', d)]" for a b c d :: string
    by (intro sort_key_id_if_sorted) (simp add: less_eq_char_def)
  moreover have "sort_key fst [(''name'', a), (''version'', b)] = [(''name'', a), (''version'', b)]"
    for a b :: string
    by (intro sort_key_id_if_sorted) (simp add: less_eq_char_def)
  ultimately show "identity_text e = Inr t \<Longrightarrow> ?thesis"
    by (auto simp: identity_text_def identity_payload_def require_identity_def split: if_splits)
qed

section \<open>Properties\<close>

text \<open>
  Two effects (run, step, tool, version, phase) have the same canonical text exactly when they
  are the same effect: forward and compensating calls, or calls of different runs, never share one.
\<close>

theorem identity_text_inject:
  assumes "identity_text e = Inr t" and "identity_text f = Inr u"
  shows "t = u \<longleftrightarrow> e = f"
proof
  assume "t = u"
  with identity_text_Inr [OF assms(1)] identity_text_Inr [OF assms(2)]
  have "phase_value (ef_phase e) = phase_value (ef_phase f) \<and> ef_run_id e = ef_run_id f
        \<and> ef_step_id e = ef_step_id f \<and> ef_tool_name e = ef_tool_name f
        \<and> ef_tool_version e = ef_tool_version f"
    by (auto dest!: json_string_inject)
  then show "e = f" by simp
next
  assume "e = f"
  then show "t = u" using assms by simp
qed

theorem identity_text_inject_witness:
  "\<exists>t u. identity_text \<lparr>ef_run_id = ''r'', ef_step_id = ''s'', ef_tool_name = ''t'',
             ef_tool_version = ''1'', ef_phase = Forward\<rparr> = Inr t
     \<and> identity_text \<lparr>ef_run_id = ''r'', ef_step_id = ''s'', ef_tool_name = ''t'',
             ef_tool_version = ''1'', ef_phase = Compensation\<rparr> = Inr u
     \<and> t \<noteq> u"
proof -
  let ?e = "\<lambda>p. \<lparr>ef_run_id = ''r'', ef_step_id = ''s'', ef_tool_name = ''t'',
                  ef_tool_version = ''1'', ef_phase = p\<rparr>"
  have "\<exists>t. identity_text (?e p) = Inr t" for p
    by (cases p) (simp_all add: identity_text_def identity_payload_def require_identity_def
        is_blank_def py_space_def code_def)
  then obtain t u where t: "identity_text (?e Forward) = Inr t"
    and u: "identity_text (?e Compensation) = Inr u" by meson
  have "t \<noteq> u" using identity_text_inject [OF t u] by simp
  with t u show ?thesis by blast
qed

end
