(* ===== verification/Execution.thy ===== *)
theory Execution
  imports Approval_Service Views Scheduler Redaction Idempotency
begin

text \<open>
  \<open>workflow/application/coordinator.py\<close>, first part: the records of the coordinator, the world it
  runs in, what a tool call becomes, and the two methods that write an attempt to the store: its
  start and its outcome.

  Threads are outside the model: a future is a number, and the world tells, at each reading,
  whether it is done, and what it ended with. Nothing is assumed about when futures finish.
\<close>

section \<open>Outcomes and reports\<close>

record execution_outcome =
  eo_run_id :: string
  eo_step_id :: string
  eo_attempt_no :: int
  eo_status :: string
  eo_effect_applied :: bool
  eo_result :: pyval
  eo_error_class :: "string option"
  eo_error_message :: "string option"

record coordination_report =
  cr_run_id :: "string option"
  cr_dispatched :: "string list"
  cr_completed :: "string list"
  cr_blocked_reason :: "string option"

record execution_request =
  xr_tool :: tool
  xr_context :: tool_context
  xr_arguments :: pyval

record prepared_attempt =
  pa_step :: step_definition
  pa_attempt :: step_attempt
  pa_request :: execution_request
  pa_sensitive_paths :: "string list"

record owned_future =
  of_request :: execution_request
  of_sensitive_paths :: "string list"
  of_outcome_persisted :: bool

text \<open>
  What a tool call raises, as far as the code tells exceptions apart, and how it ends. A future
  that did not run its function ends with an exception too (it was cancelled).
\<close>

datatype tool_exception = DomainException error_class | TimeoutOrConnection | OtherException

datatype tool_answer = Answers execution_result | Raises tool_exception

datatype future_end = Ran tool_answer | Broken tool_exception

record world = environment +
  wo_tools :: tool_registry
  wo_concurrency :: int
  wo_select :: "nat \<Rightarrow> string option"
  wo_submit :: "nat \<Rightarrow> bool"
  wo_done :: "nat \<Rightarrow> nat \<Rightarrow> bool"
  wo_cancel :: "nat \<Rightarrow> nat \<Rightarrow> bool"
  wo_end :: "nat \<Rightarrow> future_end"

abbreviation env_of :: "world \<Rightarrow> environment" where
  "env_of w \<equiv> environment.truncate w"

record coordinator = sys +
  co_owned :: "(nat, owned_future) dict"
  co_next_future :: nat
  co_unknown_runs :: "string list"
  co_closed :: bool

type_synonym 'a coord = "(coordinator, error, 'a) act"
type_synonym 'a coord_body = "(uow \<times> coordinator, error, 'a) act"

section \<open>What a tool call becomes\<close>

fun classify_tool_exception :: "tool_exception \<Rightarrow> error_class" where
  "classify_tool_exception (DomainException c) = c"
| "classify_tool_exception TimeoutOrConnection = ResultUnknown"
| "classify_tool_exception OtherException = Permanent"

definition failed_outcome :: "execution_request \<Rightarrow> error_class \<Rightarrow> string \<Rightarrow> execution_outcome" where
  "failed_outcome req c message =
     \<lparr>eo_run_id = tc_run_id (xr_context req), eo_step_id = tc_step_id (xr_context req),
      eo_attempt_no = tc_attempt_number (xr_context req), eo_status = ''failed'',
      eo_effect_applied = False, eo_result = PNone,
      eo_error_class = Some (error_class_value c), eo_error_message = Some message\<rparr>"

definition exception_outcome :: "execution_request \<Rightarrow> tool_exception \<Rightarrow> execution_outcome" where
  "exception_outcome req x =
     (let c = classify_tool_exception x
      in failed_outcome req c
           (if c = ResultUnknown then ''tool result unknown'' else ''tool execution failed''))"

fun execute_request :: "execution_request \<Rightarrow> tool_answer \<Rightarrow> execution_outcome" where
  "execute_request req (Raises x) = exception_outcome req x"
| "execute_request req (Answers r) =
     \<lparr>eo_run_id = tc_run_id (xr_context req), eo_step_id = tc_step_id (xr_context req),
      eo_attempt_no = tc_attempt_number (xr_context req), eo_status = ''success'',
      eo_effect_applied = er_effect_applied r, eo_result = er_output r,
      eo_error_class = None, eo_error_message = None\<rparr>"

fun outcome_from_future :: "owned_future \<Rightarrow> future_end \<Rightarrow> execution_outcome" where
  "outcome_from_future owned (Ran a) = execute_request (of_request owned) a"
| "outcome_from_future owned (Broken x) = exception_outcome (of_request owned) x"

definition optional_string :: "string option \<Rightarrow> pyval" where
  "optional_string v = (case v of None \<Rightarrow> PNone | Some s \<Rightarrow> PStr s)"

definition outcome_summary :: "execution_outcome \<Rightarrow> pyval \<Rightarrow> pyval" where
  "outcome_summary out redacted =
     (if eo_status out = ''success''
      then PDict [(KStr ''status'', PStr ''success''),
                  (KStr ''effect_applied'', PBool (eo_effect_applied out)),
                  (KStr ''result'', redacted)]
      else PDict [(KStr ''status'', PStr ''failed''),
                  (KStr ''error_class'', optional_string (eo_error_class out))])"

definition completed_for_run :: "execution_outcome list \<Rightarrow> string \<Rightarrow> string list" where
  "completed_for_run outs run_id =
     map eo_step_id (filter (\<lambda>out. eo_run_id out = run_id \<and> eo_status out = ''success'') outs)"

definition step_run_of :: "step_run list \<Rightarrow> string \<Rightarrow> error + step_run" where
  "step_run_of rs i = or_raise (List.find (\<lambda>r. sr_step_id r = i) rs) StopIteration"

definition pending_compensations ::
  "workflow_definition \<Rightarrow> step_run list \<Rightarrow> step_attempt list \<Rightarrow> error + step_definition list" where
  "pending_compensations w rs attempts =
     sbind (compensation_order w rs attempts) (\<lambda>order.
     Inr (filter (\<lambda>s. sd_id s \<notin> sa_step_id ` set (filter (\<lambda>a. sa_phase a = ''compensation''
                         \<and> sa_status a \<in> {''success'', ''succeeded''}) attempts)) order))"

section \<open>The start of an attempt\<close>

definition unknown_step :: "string \<Rightarrow> string \<Rightarrow> error" where
  "unknown_step r s = LookupError (''unknown step '' @ r @ '':'' @ s)"

text \<open>\<open>model_dump(mode="python")\<close>: models become dictionaries, secrets their serialised form.\<close>

fun dump_value :: "pyval \<Rightarrow> pyval" where
  "dump_value (PModel c fs) = PDict (map (\<lambda>f. (KStr (fst f), dump_value (snd f))) fs)"
| "dump_value (PSecret p n) =
     PDict [(KStr ''provider'', PStr p), (KStr ''name'', PStr ''[REDACTED]'')]"
| "dump_value (PDict d) = PDict (map (\<lambda>kv. (fst kv, dump_value (snd kv))) d)"
| "dump_value (PProxy d) = PProxy (map (\<lambda>kv. (fst kv, dump_value (snd kv))) d)"
| "dump_value (PList xs) = PList (map dump_value xs)"
| "dump_value (PTuple xs) = PTuple (map dump_value xs)"
| "dump_value v = v"

definition next_attempt_no :: "step_attempt list \<Rightarrow> phase \<Rightarrow> int" where
  "next_attempt_no attempts ph =
     max_default (map sa_attempt_no (filter (\<lambda>a. sa_phase a = phase_value ph) attempts)) + 1"

definition prepare_attempt ::
  "world \<Rightarrow> string \<Rightarrow> step_definition \<Rightarrow> phase \<Rightarrow> prepared_attempt coord" where
  "prepare_attempt w run_id s ph =
     bnd (with_uow (
       bnd (run_or_raise run_id) (\<lambda>_.
       bnd (on_uow (steps_get run_id (sd_id s))) (\<lambda>sr.
       bnd (need (unknown_step run_id (sd_id s)) sr) (\<lambda>_.
       on_uow (attempts_list run_id (Some (sd_id s)))))))) (\<lambda>attempts.
     bnd (need (RuntimeError (''step '' @ sd_id s @ '' has no compensation tool''))
            (if ph = Forward then Some (sd_tool s) else sd_compensation_tool s)) (\<lambda>ref.
     bnd (lift_res (reg_resolve (wo_tools w) (ref_name ref) (ref_version ref))) (\<lambda>t.
     bnd (lift_res (coerce_arguments (wo_tools w) (ref_name ref) (ref_version ref)
                      (sd_arguments s))) (\<lambda>arguments.
     let attempt_no = next_attempt_no attempts ph in
     bnd (lift_res (logical_idempotency_key
            \<lparr>ef_run_id = run_id, ef_step_id = sd_id s, ef_tool_name = ref_name ref,
             ef_tool_version = ref_version ref, ef_phase = ph\<rparr>)) (\<lambda>key.
     bnd (clock_now (env_of w)) (\<lambda>started_at.
     bnd (lift_res (sbind (timedelta_int (td_default_timeout_seconds (tl_descriptor t)))
                      (add_delta started_at))) (\<lambda>deadline.
     bnd (lift_res (make_context
            \<lparr>tc_run_id = run_id, tc_step_id = sd_id s, tc_attempt_number = attempt_no,
             tc_phase = ph, tc_logical_idempotency_key = key, tc_deadline = deadline,
             tc_metadata = PDict [(KStr ''arguments'', dump_value arguments)]\<rparr>)) (\<lambda>context.
     bnd (new_identifier (env_of w)) (\<lambda>attempt_id.
     ret \<lparr>pa_step = s,
          pa_attempt = \<lparr>sa_run_id = run_id, sa_step_id = sd_id s, sa_attempt_no = attempt_no,
             sa_phase = phase_value ph, sa_attempt_id = attempt_id, sa_status = ''running'',
             sa_idempotency_key = key, sa_started_at = started_at, sa_effect_applied = False,
             sa_completed_at = None, sa_next_attempt_at = None, sa_result = PNone,
             sa_error_class = None, sa_error_message = None\<rparr>,
          pa_request = \<lparr>xr_tool = t, xr_context = context, xr_arguments = arguments\<rparr>,
          pa_sensitive_paths = td_sensitive_argument_paths (tl_descriptor t)\<rparr>)))))))))"

definition save_run :: "workflow_run \<Rightarrow> workflow_run \<Rightarrow> audit_event \<Rightarrow> ('z, unit) body" where
  "save_run run changed event =
     bnd (on_uow (runs_save changed (wr_revision run))) (\<lambda>_.
     bnd (on_uow (events_append event)) (\<lambda>_. ret ()))"

definition enter_forward :: "workflow_run \<Rightarrow> int \<Rightarrow> ('z, unit) body" where
  "enter_forward run at =
     bnd (lift_res (run_transition run RunRunning at)) (\<lambda>(running, event). save_run run running event)"

definition save_step :: "step_run \<Rightarrow> step_run \<Rightarrow> audit_event \<Rightarrow> ('z, unit) body" where
  "save_step sr changed event =
     bnd (on_uow (steps_save changed (sr_revision sr))) (\<lambda>_.
     bnd (on_uow (events_append event)) (\<lambda>_. ret ()))"

definition start_step :: "step_run \<Rightarrow> int \<Rightarrow> ('z, step_run) body" where
  "start_step sr at =
     bnd (lift_res (step_transition sr StepRunning at)) (\<lambda>(active, event).
     bnd (save_step sr active event) (\<lambda>_. ret active))"

definition started_event :: "step_attempt \<Rightarrow> step_run \<Rightarrow> audit_event" where
  "started_event a active =
     tool_attempt_started (sa_run_id a) (sa_step_id a) (sa_attempt_id a) (sa_attempt_no a)
       (sa_phase a) (sa_started_at a) (step_state_value (sr_state active)) (sr_revision active)"

definition commit_attempt_started :: "step_attempt \<Rightarrow> ('z, unit) service" where
  "commit_attempt_started a =
     with_uow (
       bnd (run_or_raise (sa_run_id a)) (\<lambda>run.
       bnd (if sa_phase a = ''forward'' \<and> wr_state run = RunPending
            then enter_forward run (sa_started_at a)
            else if sa_phase a = ''forward'' \<and> wr_state run \<noteq> RunRunning
            then raise_act (RuntimeError ''run is not in a forward execution state'')
            else if sa_phase a = ''compensation'' \<and> wr_state run \<noteq> RunCompensating
            then raise_act (RuntimeError ''run is not compensating'')
            else ret ()) (\<lambda>_.
       bnd (on_uow (steps_get (sa_run_id a) (sa_step_id a))) (\<lambda>found.
       bnd (need (unknown_step (sa_run_id a) (sa_step_id a)) found) (\<lambda>sr.
       bnd (if sa_phase a = ''forward'' then start_step sr (sa_started_at a) else ret sr) (\<lambda>active.
       bnd (on_uow (attempts_add a)) (\<lambda>_.
       bnd (on_uow (events_append (started_event a active))) (\<lambda>_.
       uow_commit))))))))"

section \<open>The outcome of an attempt\<close>

definition text_or :: "string option \<Rightarrow> string \<Rightarrow> string" where
  "text_or v d = (case v of None \<Rightarrow> d | Some s \<Rightarrow> if s = [] then d else s)"

definition error_record :: "execution_outcome \<Rightarrow> (string, string) dict" where
  "error_record out =
     [(''error_class'', text_or (eo_error_class out) ''permanent''),
      (''error_message'', text_or (eo_error_message out) ''tool execution failed'')]"

text \<open>The state the step goes to, and when it may be tried again.\<close>

definition next_step_state ::
  "execution_outcome \<Rightarrow> step_definition \<Rightarrow> int \<Rightarrow> error + step_state \<times> int option" where
  "next_step_state out s completed_at =
     (if eo_status out = ''success'' then Inr (StepSucceeded, None)
      else if eo_error_class out = Some (error_class_value Retryable)
              \<and> eo_attempt_no out < rp_max_attempts (sd_retry s)
      then sbind (timedelta_seconds (rp_initial_backoff_seconds (sd_retry s))) (\<lambda>d.
           sbind (add_delta completed_at d) (\<lambda>t. Inr (StepRetryWait, Some t)))
      else if eo_error_class out = Some (error_class_value ResultUnknown)
      then Inr (StepResultUnknown, None)
      else Inr (StepFailed, None))"

definition completed_attempt ::
  "step_attempt \<Rightarrow> execution_outcome \<Rightarrow> int \<Rightarrow> int option \<Rightarrow> pyval \<Rightarrow> step_attempt" where
  "completed_attempt a out completed_at next_attempt_at redacted =
     a\<lparr>sa_status := eo_status out, sa_effect_applied := eo_effect_applied out,
       sa_completed_at := Some completed_at, sa_next_attempt_at := next_attempt_at,
       sa_result := redacted, sa_error_class := eo_error_class out,
       sa_error_message := eo_error_message out\<rparr>"

definition completed_event ::
  "string \<Rightarrow> string \<Rightarrow> step_attempt \<Rightarrow> execution_outcome \<Rightarrow> int \<Rightarrow> step_run \<Rightarrow> pyval \<Rightarrow> audit_event" where
  "completed_event run_id step_id a out completed_at sr redacted =
     tool_attempt_completed run_id step_id (sa_attempt_id a) (sa_attempt_no a) (sa_phase a)
       completed_at (step_state_value (sr_state sr)) (sr_revision sr) (eo_error_class out)
       (outcome_summary out redacted)"

definition steps_of :: "string \<Rightarrow> workflow_definition \<Rightarrow> ('z, step_run option list) body" where
  "steps_of run_id w = map_act (\<lambda>s. on_uow (steps_get run_id (sd_id s))) (wd_steps w)"

definition present :: "'a option list \<Rightarrow> 'a list" where
  "present xs = List.map_filter id xs"

definition next_completion_sequence :: "step_run list \<Rightarrow> int" where
  "next_completion_sequence rs =
     max_default (map (\<lambda>r. case sr_completion_sequence r of None \<Rightarrow> 0 | Some n \<Rightarrow> n) rs) + 1"

definition with_completion ::
  "string \<Rightarrow> workflow_definition \<Rightarrow> string \<Rightarrow> step_run \<Rightarrow> ('z, step_run) body" where
  "with_completion run_id w key sr =
     bnd (steps_of run_id w) (\<lambda>rs.
     ret (sr\<lparr>sr_completion_sequence := Some (next_completion_sequence (present rs)),
             sr_logical_idempotency_key := Some key\<rparr>))"

text \<open>\<open>all(step.id == outcome.step_id or uow.steps.get(...).state is SUCCEEDED for step in steps)\<close>.\<close>

definition all_succeeded :: "string \<Rightarrow> string \<Rightarrow> workflow_definition \<Rightarrow> ('z, bool) body" where
  "all_succeeded run_id step_id w =
     bnd (any_act (\<lambda>s. if sd_id s = step_id then ret False
                     else bnd (step_state_of run_id (sd_id s)) (\<lambda>st. ret (st \<noteq> StepSucceeded)))
            (wd_steps w)) (\<lambda>missing. ret (\<not> missing))"

text \<open>What a forward outcome does to the run.\<close>

definition run_after_outcome ::
  "workflow_run \<Rightarrow> workflow_definition \<Rightarrow> execution_outcome \<Rightarrow> step_state \<Rightarrow> int \<Rightarrow> ('z, unit) body" where
  "run_after_outcome run w out next_state completed_at =
     bnd (if wr_state run = RunRunning \<and> next_state = StepSucceeded
          then all_succeeded (eo_run_id out) (eo_step_id out) w else ret False) (\<lambda>finished.
     if finished
     then bnd (lift_res (run_transition run RunSucceeded completed_at)) (\<lambda>(succeeded, event).
          save_run run succeeded event)
     else if wr_state run = RunRunning \<and> next_state = StepFailed
     then bnd (steps_of (eo_run_id out) w) (\<lambda>rs.
          bnd (on_uow (attempts_list (eo_run_id out) None)) (\<lambda>attempts.
          bnd (lift_res (compensation_order w (present rs) attempts)) (\<lambda>order.
          bnd (lift_res (run_transition run (if order \<noteq> [] then RunCompensating else RunFailed)
                           completed_at)) (\<lambda>(failed, event).
          save_run run (failed\<lparr>wr_original_error := Some (error_record out)\<rparr>) event))))
     else ret ())"

text \<open>\<open>_persist_compensation_outcome\<close>.\<close>

definition persist_compensation_outcome ::
  "workflow_run \<Rightarrow> workflow_definition \<Rightarrow> step_run \<Rightarrow> step_attempt \<Rightarrow> execution_outcome \<Rightarrow> int \<Rightarrow>
   string list \<Rightarrow> ('z, unit) body" where
  "persist_compensation_outcome run w sr a out completed_at sensitive_paths =
     bnd (lift_res (redact (eo_result out) sensitive_paths)) (\<lambda>redacted.
     bnd (on_uow (attempts_save (completed_attempt a out completed_at None redacted))) (\<lambda>_.
     bnd (on_uow (events_append (completed_event (sa_run_id a) (sa_step_id a) a out completed_at
                                   sr redacted))) (\<lambda>_.
     if eo_status out \<noteq> ''success''
     then bnd (lift_res (run_transition run RunManualIntervention completed_at)) (\<lambda>(manual, event).
          save_run run (manual\<lparr>wr_compensation_error := Some (error_record out)\<rparr>) event)
     else bnd (steps_of (wr_run_id run) w) (\<lambda>rs.
          bnd (on_uow (attempts_list (wr_run_id run) None)) (\<lambda>attempts.
          bnd (lift_res (pending_compensations w (present rs) attempts)) (\<lambda>pending.
          if pending \<noteq> [] then ret ()
          else bnd (lift_res (run_transition run RunCompensated completed_at))
                 (\<lambda>(compensated, event). save_run run compensated event)))))))"

text \<open>The writes of a forward outcome: the step, its attempt, their events, and the run.\<close>

definition save_forward_outcome ::
  "workflow_run \<Rightarrow> workflow_definition \<Rightarrow> step_run \<Rightarrow> step_attempt \<Rightarrow> execution_outcome \<Rightarrow> int \<Rightarrow>
   pyval \<Rightarrow> int option \<Rightarrow> step_run \<Rightarrow> audit_event \<Rightarrow> ('z, unit) body" where
  "save_forward_outcome run w sr a out completed_at redacted next_attempt_at changed event =
     bnd (on_uow (steps_save changed (sr_revision sr))) (\<lambda>_.
     bnd (on_uow (attempts_save (completed_attempt a out completed_at next_attempt_at redacted))) (\<lambda>_.
     bnd (on_uow (events_append event)) (\<lambda>_.
     bnd (on_uow (events_append (completed_event (eo_run_id out) (eo_step_id out) a out
                                   completed_at changed redacted))) (\<lambda>_.
     run_after_outcome run w out (sr_state changed) completed_at))))"

definition persist_forward_outcome ::
  "workflow_run \<Rightarrow> workflow_definition \<Rightarrow> step_definition \<Rightarrow> step_run \<Rightarrow> step_attempt \<Rightarrow>
   execution_outcome \<Rightarrow> int \<Rightarrow> string list \<Rightarrow> ('z, unit) body" where
  "persist_forward_outcome run w s sr a out completed_at sensitive_paths =
     bnd (lift_res (next_step_state out s completed_at)) (\<lambda>(next_state, next_attempt_at).
     bnd (lift_res (step_transition sr next_state completed_at)) (\<lambda>(changed0, event).
     bnd (lift_res (redact (eo_result out) sensitive_paths)) (\<lambda>redacted.
     bnd (if next_state = StepSucceeded
          then with_completion (eo_run_id out) w (sa_idempotency_key a) changed0
          else ret changed0) (\<lambda>changed.
     save_forward_outcome run w sr a out completed_at redacted next_attempt_at changed event))))"

text \<open>The unit of work of \<open>_persist_outcome\<close>; it tells whether the outcome was a forward one.\<close>

definition persist_outcome_body ::
  "environment \<Rightarrow> execution_outcome \<Rightarrow> string list \<Rightarrow> ('z, bool) body" where
  "persist_outcome_body env out sensitive_paths =
     bnd (run_or_raise (eo_run_id out)) (\<lambda>run.
     bnd (definition_or_raise run) (\<lambda>w.
     bnd (first_of (\<lambda>s. sd_id s = eo_step_id out) (wd_steps w)) (\<lambda>s.
     bnd (on_uow (steps_get (eo_run_id out) (eo_step_id out))) (\<lambda>found.
     bnd (need (unknown_step (eo_run_id out) (eo_step_id out)) found) (\<lambda>sr.
     bnd (on_uow (attempts_list (eo_run_id out) (Some (eo_step_id out)))) (\<lambda>attempts.
     bnd (first_of (\<lambda>a. sa_attempt_no a = eo_attempt_no out) attempts) (\<lambda>a.
     bnd (on_service (clock_now env)) (\<lambda>completed_at.
     if sa_phase a = ''compensation''
     then bnd (persist_compensation_outcome run w sr a out completed_at sensitive_paths) (\<lambda>_.
          bnd uow_commit (\<lambda>_. ret False))
     else bnd (persist_forward_outcome run w s sr a out completed_at sensitive_paths) (\<lambda>_.
          bnd uow_commit (\<lambda>_. ret True))))))))))"

definition persist_outcome :: "world \<Rightarrow> execution_outcome \<Rightarrow> string list \<Rightarrow> unit coord" where
  "persist_outcome w out sensitive_paths =
     bnd (with_uow (persist_outcome_body (env_of w) out sensitive_paths)) (\<lambda>forward.
     if forward \<and> eo_error_class out = Some (error_class_value ResultUnknown)
     then modify_act (\<lambda>c. c\<lparr>co_unknown_runs := add_key (eo_run_id out) (co_unknown_runs c)\<rparr>)
     else ret ())"

section \<open>They keep the store well formed\<close>

lemma pres_save_run [pres_intros]:
  "pres body_ok (save_run run run' e)" "pres body_ok (save_step sr sr' e)"
  unfolding save_run_def save_step_def by (intro pres_intros)+

lemma pres_started [pres_intros]:
  "pres body_ok (enter_forward run at)" "pres body_ok (start_step sr at)"
  "pres sys_ok (commit_attempt_started a)"
  unfolding enter_forward_def start_step_def commit_attempt_started_def by (intro pres_intros)+

lemma pres_outcome_parts [pres_intros]:
  "pres body_ok (steps_of r w)" "pres body_ok (with_completion r w k sr)"
  "pres body_ok (all_succeeded r i w)"
  unfolding steps_of_def with_completion_def all_succeeded_def by (intro pres_intros)+

lemma pres_run_after_outcome [pres_intros]: "pres body_ok (run_after_outcome run w out st at)"
  unfolding run_after_outcome_def by (intro pres_intros)

lemma pres_persist_compensation [pres_intros]:
  "pres body_ok (persist_compensation_outcome run w sr a out at ps)"
  unfolding persist_compensation_outcome_def by (intro pres_intros)

lemma pres_persist_forward [pres_intros]:
  "pres body_ok (persist_forward_outcome run w s sr a out at ps)"
  unfolding persist_forward_outcome_def save_forward_outcome_def by (intro pres_intros)

lemma pres_persist_body [pres_intros]: "pres body_ok (persist_outcome_body env out ps)"
  unfolding persist_outcome_body_def by (intro pres_intros)

lemma sys_ok_unknown_runs [simp]:
  "sys_ok (c\<lparr>co_unknown_runs := x\<rparr>) = sys_ok c" "sys_ok (c\<lparr>co_owned := o'\<rparr>) = sys_ok c"
  "sys_ok (c\<lparr>co_next_future := n\<rparr>) = sys_ok c" "sys_ok (c\<lparr>co_closed := b\<rparr>) = sys_ok c"
  by (simp_all add: sys_ok_def)

lemma pres_modify_act [pres_intros]: "(\<And>s. P s \<Longrightarrow> P (g s)) \<Longrightarrow> pres P (modify_act g)"
  by (simp add: pres_def)

lemma pres_persist_outcome [pres_intros]: "pres sys_ok (persist_outcome w out ps)"
  unfolding persist_outcome_def by (intro pres_intros) simp

lemma pres_prepare [pres_intros]: "pres sys_ok (prepare_attempt w r s ph)"
  unfolding prepare_attempt_def Let_def by (intro pres_intros)

end
