(* ===== verification/Coordinator.thy ===== *)
theory Coordinator
  imports Execution
begin

text \<open>
  \<open>workflow/application/coordinator.py\<close>, second part: one pass of the coordinator over the
  selected run. It collects the outcomes of the futures it owns, promotes steps, opens the
  approval barrier, prepares attempts and dispatches them, or compensates one step; and its
  closing.
\<close>

section \<open>Futures\<close>

definition future_done :: "world \<Rightarrow> nat \<Rightarrow> bool coord" where
  "future_done w fid = tick (\<lambda>t. wo_done w t fid)"

definition drop_future :: "nat \<Rightarrow> unit coord" where
  "drop_future fid = modify_act (\<lambda>c. c\<lparr>co_owned := AList.delete fid (co_owned c)\<rparr>)"

definition mark_persisted :: "nat \<Rightarrow> owned_future \<Rightarrow> unit coord" where
  "mark_persisted fid owned =
     modify_act (\<lambda>c. c\<lparr>co_owned := dset fid (owned\<lparr>of_outcome_persisted := True\<rparr>) (co_owned c)\<rparr>)"

definition own_future :: "prepared_attempt \<Rightarrow> unit coord" where
  "own_future p =
     modify_act (\<lambda>c. c\<lparr>co_owned := dset (co_next_future c)
         \<lparr>of_request = pa_request p, of_sensitive_paths = pa_sensitive_paths p,
          of_outcome_persisted = False\<rparr> (co_owned c),
       co_next_future := Suc (co_next_future c)\<rparr>)"

definition available_capacity :: "world \<Rightarrow> int coord" where
  "available_capacity w =
     bnd (get_act co_owned) (\<lambda>owned.
     bnd (map_act (future_done w) (keys owned)) (\<lambda>dones.
     ret (max 0 (wo_concurrency w - int (length (filter Not dones))))))"

definition unpersisted :: "string \<Rightarrow> (nat, owned_future) dict \<Rightarrow> owned_future list" where
  "unpersisted run_id owned =
     filter (\<lambda>o'. tc_run_id (xr_context (of_request o')) = run_id \<and> \<not> of_outcome_persisted o')
       (map snd owned)"

definition has_unpersisted_outcome :: "string \<Rightarrow> bool coord" where
  "has_unpersisted_outcome run_id = get_act (\<lambda>c. unpersisted run_id (co_owned c) \<noteq> [])"

section \<open>Collecting outcomes\<close>

text \<open>\<open>try: persist except Exception\<close>: whether it was persisted.\<close>

definition try_persist :: "world \<Rightarrow> execution_outcome \<Rightarrow> string list \<Rightarrow> bool coord" where
  "try_persist w out sensitive_paths =
     try_act (bnd (persist_outcome w out sensitive_paths) (\<lambda>_. ret True)) (\<lambda>_. ret False)"

definition drop_if_done :: "world \<Rightarrow> nat \<Rightarrow> unit coord" where
  "drop_if_done w fid = bnd (future_done w fid) (\<lambda>d. if d then drop_future fid else ret ())"

definition unknown_outcome :: "owned_future \<Rightarrow> execution_outcome" where
  "unknown_outcome owned = failed_outcome (of_request owned) ResultUnknown ''tool result unknown''"

definition collect_one ::
  "world \<Rightarrow> int \<Rightarrow> nat \<times> owned_future \<Rightarrow> execution_outcome list \<times> bool \<Rightarrow>
   (execution_outcome list \<times> bool) coord" where
  "collect_one w now entry acc =
     (let fid = fst entry; owned = snd entry in
      if of_outcome_persisted owned then bnd (drop_if_done w fid) (\<lambda>_. ret acc)
      else bnd (future_done w fid) (\<lambda>d.
           if \<not> d \<and> now < tc_deadline (xr_context (of_request owned)) then ret acc
           else let out = (if d then outcome_from_future owned (wo_end w fid)
                           else unknown_outcome owned) in
                bnd (try_persist w out (of_sensitive_paths owned)) (\<lambda>persisted.
                if \<not> persisted then ret (fst acc, True)
                else bnd (mark_persisted fid owned) (\<lambda>_.
                     bnd (drop_if_done w fid) (\<lambda>_. ret (fst acc @ [out], snd acc))))))"

definition collect_outcomes :: "world \<Rightarrow> (execution_outcome list \<times> bool) coord" where
  "collect_outcomes w =
     bnd (clock_now (env_of w)) (\<lambda>now.
     bnd (get_act co_owned) (\<lambda>owned. afold (collect_one w now) owned ([], False)))"

section \<open>Promotion of steps\<close>

text \<open>A step becomes ready: the transition, its save and its event.\<close>

definition promote_step :: "environment \<Rightarrow> step_run \<Rightarrow> ('z, unit) body" where
  "promote_step env sr =
     bnd (on_service (clock_now env)) (\<lambda>at.
     bnd (lift_res (step_transition sr StepReady at)) (\<lambda>(ready, event).
     save_step sr ready event))"

text \<open>\<open>uow.runs.get\<close>, unless the run is missing or ended, and \<open>uow.definitions.get\<close>.\<close>

definition live_run :: "string \<Rightarrow> ('z, workflow_run option) body" where
  "live_run run_id =
     bnd (on_uow (runs_get run_id)) (\<lambda>found.
     ret (case found of None \<Rightarrow> None
          | Some run \<Rightarrow> if run_terminal (wr_state run) then None else Some run))"

definition live_definition :: "string \<Rightarrow> ('z, workflow_definition option) body" where
  "live_definition run_id =
     bnd (live_run run_id) (\<lambda>found.
     case found of None \<Rightarrow> ret None | Some run \<Rightarrow> definition_of run)"

definition retry_due :: "step_attempt list \<Rightarrow> int \<Rightarrow> bool" where
  "retry_due attempts now \<longleftrightarrow>
     attempts \<noteq> [] \<and> (case sa_next_attempt_at (last attempts) of
                         None \<Rightarrow> False | Some t \<Rightarrow> t \<le> now)"

definition promote_retry ::
  "environment \<Rightarrow> string \<Rightarrow> int \<Rightarrow> step_definition \<Rightarrow> bool \<Rightarrow> ('z, bool) body" where
  "promote_retry env run_id now s changed =
     bnd (on_uow (steps_get run_id (sd_id s))) (\<lambda>found.
     case found of None \<Rightarrow> ret changed
     | Some sr \<Rightarrow>
       if sr_state sr \<noteq> StepRetryWait then ret changed
       else bnd (on_uow (attempts_list run_id (Some (sd_id s)))) (\<lambda>attempts.
            if \<not> retry_due attempts now then ret changed
            else bnd (promote_step env sr) (\<lambda>_. ret True)))"

definition commit_if :: "bool \<Rightarrow> ('z, unit) body" where
  "commit_if changed = (if changed then uow_commit else ret ())"

definition promote_due_retries :: "environment \<Rightarrow> string \<Rightarrow> ('z, unit) service" where
  "promote_due_retries env run_id =
     bnd (clock_now env) (\<lambda>now.
     with_uow (
       bnd (live_definition run_id) (\<lambda>found.
       case found of None \<Rightarrow> ret ()
       | Some w \<Rightarrow> bnd (afold (promote_retry env run_id now) (wd_steps w) False) commit_if)))"

definition promote_pending ::
  "environment \<Rightarrow> step_run list \<Rightarrow> step_definition \<Rightarrow> bool \<Rightarrow> ('z, bool) body" where
  "promote_pending env rs s changed =
     bnd (lift_res (step_run_of rs (sd_id s))) (\<lambda>sr.
     if sr_state sr \<noteq> StepPending then ret changed
     else bnd (promote_step env sr) (\<lambda>_. ret True))"

definition promote_ready ::
  "environment \<Rightarrow> step_run list \<Rightarrow> step_definition list \<Rightarrow> ('z, unit) body" where
  "promote_ready env rs ready = bnd (afold (promote_pending env rs) ready False) commit_if"

definition promote_dependency_ready_steps :: "environment \<Rightarrow> string \<Rightarrow> ('z, unit) service" where
  "promote_dependency_ready_steps env run_id =
     with_uow (
       bnd (live_definition run_id) (\<lambda>found.
       case found of None \<Rightarrow> ret ()
       | Some w \<Rightarrow>
         bnd (steps_of run_id w) (\<lambda>rs.
         bnd (lift_res (ready_steps w (present rs))) (\<lambda>ready.
         promote_ready env (present rs) ready))))"

definition load_definition_and_steps ::
  "string \<Rightarrow> ('z, workflow_definition \<times> step_run list) service" where
  "load_definition_and_steps run_id =
     bnd (with_uow (
       bnd (run_or_raise run_id) (\<lambda>run.
       bnd (definition_or_raise run) (\<lambda>w.
       bnd (steps_of run_id w) (\<lambda>rs. ret (w, rs)))))) (\<lambda>(w, rs).
     if None \<in> set rs then raise_act (RuntimeError (''run '' @ run_id @ '' is missing step state''))
     else ret (w, present rs))"

section \<open>The approval barrier\<close>

definition step_risk_high :: "step_definition \<Rightarrow> bool" where
  "step_risk_high s \<longleftrightarrow> casefold (sd_risk s) = ''high''"

definition requires_approval :: "tool_registry \<Rightarrow> step_definition \<Rightarrow> error + bool" where
  "requires_approval reg s =
     sbind (descriptor_for reg (ref_name (sd_tool s)) (ref_version (sd_tool s))) (\<lambda>d.
     Inr (step_risk_high s \<or> td_risk d = RiskHigh))"

definition approval_snapshot ::
  "tool_registry \<Rightarrow> workflow_definition \<Rightarrow> step_definition \<Rightarrow>
   error + pyval \<times> string \<times> string list" where
  "approval_snapshot reg w s =
     (let name = ref_name (sd_tool s); version = ref_version (sd_tool s) in
      sbind (descriptor_for reg name version) (\<lambda>d.
      sbind (canonical_json_value (sd_arguments s)) (\<lambda>_.
      sbind (if contains_unavailable_secret_ref (sd_arguments s)
             then canonical_json_value (sd_arguments s)
             else sbind (coerce_arguments reg name version (sd_arguments s)) (\<lambda>coerced.
                  redact coerced (td_sensitive_argument_paths d))) (\<lambda>redacted.
      sbind (canonical_json_value redacted) (\<lambda>canonical.
      sbind (approval_binding_digest (wd_digest w) (sd_id s) name version canonical) (\<lambda>digest.
      Inr (canonical, digest,
           (if step_risk_high s then [''step_risk_high''] else [])
           @ (if td_risk d = RiskHigh then [''tool_risk_high''] else []))))))))"

text \<open>\<open>request.matches(...)\<close>: a record of an older schema has no such method.\<close>

fun approval_matches ::
  "workflow_definition \<Rightarrow> step_definition \<Rightarrow> string \<Rightarrow> approval_record \<Rightarrow> error + bool" where
  "approval_matches w s digest (Request r) =
     Inr (request_matches r (wd_digest w) (sd_id s) (ref_name (sd_tool s)) (ref_version (sd_tool s))
            digest)"
| "approval_matches w s digest (Legacy l) =
     Inl (AttributeError ''LegacyApprovalRecord object has no attribute matches'')"

definition approved_match ::
  "workflow_definition \<Rightarrow> step_definition \<Rightarrow> string \<Rightarrow> approval_record \<Rightarrow> error + bool" where
  "approved_match w s digest a =
     (if apr_status a = ''approved'' then approval_matches w s digest a else Inr False)"

definition uow_has_persisted_recovery_work ::
  "workflow_run \<Rightarrow> workflow_definition \<Rightarrow> bool coord_body" where
  "uow_has_persisted_recovery_work run w =
     bnd (approval_recovery_required run) (\<lambda>recover.
     if recover then ret True
     else bnd (on_service (get_act (\<lambda>c. map (\<lambda>o'. xr_context (of_request o'))
                 (unpersisted (wr_run_id run) (co_owned c))))) (\<lambda>owned.
     bnd (any_act (\<lambda>s. bnd (step_state_of (wr_run_id run) (sd_id s)) (\<lambda>st.
                         ret (st = StepRunning \<and> sd_id s \<notin> tc_step_id ` set owned)))
            (wd_steps w)) (\<lambda>orphan.
     if orphan then ret True
     else bnd (on_uow (attempts_list (wr_run_id run) None)) (\<lambda>attempts.
          ret (list_ex (\<lambda>a. sa_status a = ''running''
                 \<and> (sa_step_id a, sa_attempt_no a)
                    \<notin> (\<lambda>x. (tc_step_id x, tc_attempt_number x)) ` set owned) attempts)))))"

definition has_persisted_recovery_work :: "string \<Rightarrow> bool coord" where
  "has_persisted_recovery_work run_id =
     with_uow (
       bnd (run_or_raise run_id) (\<lambda>run.
       bnd (definition_or_raise run) (\<lambda>w. uow_has_persisted_recovery_work run w)))"

definition invalidated_request :: "approval_request \<Rightarrow> int \<Rightarrow> approval_request" where
  "invalidated_request r at =
     r\<lparr>ar_version := ar_version r + 1, ar_status := AprInvalidated, ar_decision := None,
       ar_actor := None, ar_reason := None, ar_decided_at := Some at\<rparr>"

definition approval_event ::
  "string \<Rightarrow> string \<Rightarrow> string \<Rightarrow> int \<Rightarrow> workflow_run \<Rightarrow> workflow_run \<Rightarrow> string \<Rightarrow> string \<Rightarrow> string \<Rightarrow>
   pyval option \<Rightarrow> audit_event" where
  "approval_event run_id step_id event_type at run changed request_id digest status arguments =
     approval_changed run_id step_id event_type at (run_state_value (wr_state run))
       (run_state_value (wr_state changed)) (wr_revision run) (wr_revision changed) request_id
       digest status None None arguments"

text \<open>
  The loop over the approvals: what is pending or approved but for something else is invalidated;
  a pending match is remembered.
\<close>

definition review_approval ::
  "string \<Rightarrow> workflow_run \<Rightarrow> workflow_definition \<Rightarrow> step_definition \<Rightarrow> string \<Rightarrow> int \<Rightarrow> approval_record \<Rightarrow>
   approval_record option \<Rightarrow> ('z, approval_record option) body" where
  "review_approval run_id run w s digest at a pending =
     (if apr_status a \<notin> {''pending'', ''approved''} then ret pending
      else bnd (lift_res (approval_matches w s digest a)) (\<lambda>matches.
      if matches then ret (if is_pending a then Some a else pending)
      else (case a of Legacy l \<Rightarrow> ret pending
            | Request r \<Rightarrow>
              bnd (lift_res (make_request (invalidated_request r at))) (\<lambda>invalidated.
              bnd (on_uow (approvals_save (Request invalidated) (ar_version r))) (\<lambda>_.
              bnd (on_uow (events_append
                     (approval_event run_id (ar_step_id r) ''approval.invalidated'' at
                        run run (ar_id r) (ar_binding_digest r) ''invalidated'' None))) (\<lambda>_.
              ret pending))))))"

definition new_request ::
  "string \<Rightarrow> string \<Rightarrow> workflow_definition \<Rightarrow> step_definition \<Rightarrow> pyval \<Rightarrow> string \<Rightarrow> string list \<Rightarrow>
   int \<Rightarrow> approval_request" where
  "new_request i run_id w s redacted digest reasons at =
     \<lparr>ar_id = i, ar_run_id = run_id, ar_definition_digest = wd_digest w, ar_step_id = sd_id s,
      ar_tool_name = ref_name (sd_tool s), ar_tool_version = ref_version (sd_tool s),
      ar_redacted_arguments = redacted, ar_binding_digest = digest, ar_risk_reasons = reasons,
      ar_created_at = at, ar_version = 0, ar_status = AprPending, ar_decision = None,
      ar_actor = None, ar_reason = None, ar_decided_at = None\<rparr>"

definition enter_waiting :: "workflow_run \<Rightarrow> int \<Rightarrow> ('z, workflow_run) body" where
  "enter_waiting run at =
     (if wr_state run = RunWaitingApproval then ret run
      else bnd (lift_res (run_transition run RunWaitingApproval at)) (\<lambda>(changed, event).
           bnd (save_run run changed event) (\<lambda>_. ret changed)))"

definition create_request ::
  "environment \<Rightarrow> string \<Rightarrow> workflow_run \<Rightarrow> workflow_run \<Rightarrow> workflow_definition \<Rightarrow>
   step_definition \<Rightarrow> pyval \<times> string \<times> string list \<Rightarrow> int \<Rightarrow> ('z, unit) body" where
  "create_request env run_id run changed w s snapshot at =
     bnd (on_service (new_identifier env)) (\<lambda>i.
     bnd (lift_res (make_request (new_request i run_id w s (fst snapshot)
            (fst (snd snapshot)) (snd (snd snapshot)) at))) (\<lambda>request.
     bnd (on_uow (approvals_add (Request request))) (\<lambda>_.
     bnd (on_uow (events_append
            (approval_event run_id (sd_id s) ''approval.created'' at run changed
               (ar_id request) (fst (snd snapshot)) ''pending'' (Some (fst snapshot))))) (\<lambda>_.
     ret ()))))"

text \<open>The writes of the barrier: what is obsolete is invalidated, the run waits, a request is open.\<close>

definition open_barrier ::
  "environment \<Rightarrow> string \<Rightarrow> workflow_run \<Rightarrow> workflow_definition \<Rightarrow> step_definition \<Rightarrow>
   pyval \<times> string \<times> string list \<Rightarrow> approval_record list \<Rightarrow> int \<Rightarrow> ('z, string option) body" where
  "open_barrier env run_id run d s snapshot approvals at =
     bnd (afold (review_approval run_id run d s (fst (snd snapshot)) at) approvals None) (\<lambda>pending.
     bnd (enter_waiting run at) (\<lambda>changed.
     bnd (if pending = None then create_request env run_id run changed d s snapshot at
          else ret ()) (\<lambda>_.
     bnd uow_commit (\<lambda>_. ret (Some ''approval_pending'')))))"

definition establish_body ::
  "world \<Rightarrow> string \<Rightarrow> string \<Rightarrow> int \<Rightarrow> string option coord_body" where
  "establish_body w run_id step_id at =
     bnd (run_or_raise run_id) (\<lambda>run.
     bnd (definition_or_raise run) (\<lambda>d.
     bnd (uow_has_persisted_recovery_work run d) (\<lambda>recover.
     if recover then ret (Some ''approval_recovery_required'')
     else
     bnd (first_of (\<lambda>s. sd_id s = step_id) (wd_steps d)) (\<lambda>s.
     bnd (lift_res (approval_snapshot (wo_tools w) d s)) (\<lambda>snapshot.
     bnd (on_uow (approvals_list run_id)) (\<lambda>approvals.
     bnd (first_act (\<lambda>a. lift_res (approved_match d s (fst (snd snapshot)) a)) approvals) (\<lambda>approved.
     if approved \<noteq> None then ret None
     else
     open_barrier (env_of w) run_id run d s snapshot approvals at)))))))"

definition establish_approval_barrier ::
  "world \<Rightarrow> string \<Rightarrow> string \<Rightarrow> string option coord" where
  "establish_approval_barrier w run_id step_id =
     bnd (clock_now (env_of w)) (\<lambda>at. with_uow (establish_body w run_id step_id at))"

definition handle_approval_barrier ::
  "world \<Rightarrow> string \<Rightarrow> workflow_definition \<Rightarrow> step_definition \<Rightarrow> string option coord" where
  "handle_approval_barrier w run_id d s =
     bnd (lift_res (approval_snapshot (wo_tools w) d s)) (\<lambda>snapshot.
     bnd (has_persisted_recovery_work run_id) (\<lambda>recover.
     if recover then ret (Some ''approval_recovery_required'')
     else bnd (has_unpersisted_outcome run_id) (\<lambda>draining.
     if draining then ret (Some ''approval_draining'')
     else bnd (with_uow (on_uow (approvals_list run_id))) (\<lambda>approvals.
     bnd (any_act (\<lambda>a. lift_res (approved_match d s (fst (snd snapshot)) a)) approvals) (\<lambda>approved.
     if approved then ret None
     else establish_approval_barrier w run_id (sd_id s))))))"

section \<open>Dispatch\<close>

definition submit :: "world \<Rightarrow> bool coord" where
  "submit w = tick (wo_submit w)"

definition submission_failed :: "prepared_attempt \<Rightarrow> error_class \<Rightarrow> execution_outcome" where
  "submission_failed p c = failed_outcome (pa_request p) c ''tool submission failed''"

definition run_is_terminal :: "string \<Rightarrow> bool coord" where
  "run_is_terminal run_id =
     bnd (with_uow (on_uow (runs_get run_id))) (\<lambda>found.
     ret (case found of None \<Rightarrow> False | Some run \<Rightarrow> run_terminal (wr_state run)))"

text \<open>The dispatch loop; a failed submission that ended the run leaves it.\<close>

fun dispatch_loop ::
  "world \<Rightarrow> string \<Rightarrow> prepared_attempt list \<Rightarrow> string list \<Rightarrow> string list coord" where
  "dispatch_loop w run_id [] dispatched = ret dispatched"
| "dispatch_loop w run_id (p # ps) dispatched =
     bnd (commit_attempt_started (pa_attempt p)) (\<lambda>_.
     bnd (submit w) (\<lambda>accepted.
     if accepted
     then bnd (own_future p) (\<lambda>_. dispatch_loop w run_id ps (dispatched @ [sd_id (pa_step p)]))
     else bnd (persist_outcome w (submission_failed p Retryable) (pa_sensitive_paths p)) (\<lambda>_.
          bnd (run_is_terminal run_id) (\<lambda>ended.
          if ended then ret (dispatched @ [sd_id (pa_step p)])
          else dispatch_loop w run_id ps (dispatched @ [sd_id (pa_step p)])))))"

definition blocked ::
  "string \<Rightarrow> execution_outcome list \<Rightarrow> string \<Rightarrow> coordination_report" where
  "blocked run_id completed reason =
     \<lparr>cr_run_id = Some run_id, cr_dispatched = [], cr_completed = completed_for_run completed run_id,
      cr_blocked_reason = Some reason\<rparr>"

definition internal_consistency :: string where
  "internal_consistency = error_class_value InternalConsistency"

definition dispatched_report ::
  "string \<Rightarrow> string list \<Rightarrow> execution_outcome list \<Rightarrow> bool \<Rightarrow> coordination_report" where
  "dispatched_report run_id dispatched completed failed =
     \<lparr>cr_run_id = Some run_id, cr_dispatched = dispatched,
      cr_completed = completed_for_run completed run_id,
      cr_blocked_reason = (if failed then Some internal_consistency else None)\<rparr>"

definition finish_compensation :: "environment \<Rightarrow> string \<Rightarrow> ('z, unit) service" where
  "finish_compensation env run_id =
     with_uow (
       bnd (on_uow (runs_get run_id)) (\<lambda>found.
       case found of None \<Rightarrow> ret ()
       | Some run \<Rightarrow>
         if wr_state run \<noteq> RunCompensating then ret ()
         else bnd (on_service (clock_now env)) (\<lambda>at.
              bnd (lift_res (run_transition run RunCompensated at)) (\<lambda>(compensated, event).
              bnd (save_run run compensated event) (\<lambda>_. uow_commit)))))"

definition dispatch_compensation ::
  "world \<Rightarrow> string \<Rightarrow> step_definition \<Rightarrow> execution_outcome list \<Rightarrow> coordination_report coord" where
  "dispatch_compensation w run_id s completed =
     bnd (prepare_attempt w run_id s Compensation) (\<lambda>p.
     bnd (commit_attempt_started (pa_attempt p)) (\<lambda>_.
     bnd (submit w) (\<lambda>accepted.
     if \<not> accepted
     then bnd (persist_outcome w (submission_failed p Permanent) (pa_sensitive_paths p)) (\<lambda>_.
          ret (dispatched_report run_id [sd_id (pa_step p)] completed False))
     else bnd (own_future p) (\<lambda>_.
          bnd (collect_outcomes w) (\<lambda>(just, failed).
          ret (dispatched_report run_id [sd_id (pa_step p)] (completed @ just) failed))))))"

definition run_compensation_once ::
  "world \<Rightarrow> string \<Rightarrow> execution_outcome list \<Rightarrow> coordination_report coord" where
  "run_compensation_once w run_id completed =
     bnd (has_persisted_recovery_work run_id) (\<lambda>recover.
     if recover then ret (blocked run_id completed ''compensation_recovery_required'')
     else bnd (has_unpersisted_outcome run_id) (\<lambda>draining.
     if draining then ret (blocked run_id completed ''compensation_draining'')
     else bnd (load_definition_and_steps run_id) (\<lambda>(d, rs).
     bnd (with_uow (on_uow (attempts_list run_id None))) (\<lambda>attempts.
     bnd (lift_res (compensation_order d rs attempts)) (\<lambda>compensable.
     bnd (lift_res (pending_compensations d rs attempts)) (\<lambda>pending.
     if compensable = [] then ret (blocked run_id completed ''run_not_forward'')
     else (case pending of
        [] \<Rightarrow> bnd (finish_compensation (env_of w) run_id) (\<lambda>_.
               ret (blocked run_id completed ''run_terminal''))
      | s # _ \<Rightarrow>
        bnd (available_capacity w) (\<lambda>capacity.
        if capacity = 0 then ret (blocked run_id completed ''capacity'')
        else dispatch_compensation w run_id s completed))))))))"

section \<open>One pass\<close>

text \<open>Why nothing is dispatched when there is no candidate.\<close>

definition idle_reason ::
  "workflow_run option \<Rightarrow> step_definition list \<Rightarrow> int \<Rightarrow> step_run list \<Rightarrow> string" where
  "idle_reason run ready capacity rs =
     (if (case run of None \<Rightarrow> False | Some r \<Rightarrow> run_terminal (wr_state r)) then ''run_terminal''
      else if ready \<noteq> [] \<and> capacity = 0 then ''capacity''
      else if list_ex (\<lambda>r. sr_state r = StepRetryWait) rs then ''retry_backoff''
      else if list_ex (\<lambda>r. sr_state r = StepResultUnknown) rs then ''result_unknown''
      else if list_ex (\<lambda>r. sr_state r = StepRunning) rs then ''in_flight''
      else internal_consistency)"

text \<open>
  \<open>ready_candidates\<close>; inside the generator a missing step run would surface as a \<open>RuntimeError\<close>.
\<close>

definition ready_candidates ::
  "workflow_definition \<Rightarrow> step_run list \<Rightarrow> error + step_definition list" where
  "ready_candidates d rs =
     sbind (ready_steps d rs) (\<lambda>ready.
     map_error (\<lambda>_. RuntimeError ''generator raised StopIteration'')
       (sfilter (\<lambda>s. sbind (step_run_of rs (sd_id s)) (\<lambda>sr. Inr (sr_state sr = StepReady))) ready))"

text \<open>The candidates of a pass, or the reason for which it is blocked at the barrier.\<close>

definition choose_candidates ::
  "world \<Rightarrow> string \<Rightarrow> workflow_definition \<Rightarrow> step_definition list \<Rightarrow>
   (string + step_definition list) coord" where
  "choose_candidates w run_id d ready =
     bnd (first_act (\<lambda>s. lift_res (requires_approval (wo_tools w) s)) ready) (\<lambda>found.
     case found of None \<Rightarrow> ret (Inr ready)
     | Some s \<Rightarrow>
       bnd (handle_approval_barrier w run_id d s) (\<lambda>reason.
       ret (case reason of None \<Rightarrow> Inr [s] | Some x \<Rightarrow> Inl x)))"

definition dispatch_candidates ::
  "world \<Rightarrow> string \<Rightarrow> step_definition list \<Rightarrow> execution_outcome list \<Rightarrow> coordination_report coord" where
  "dispatch_candidates w run_id candidates completed =
     bnd (try_act (bnd (map_act (\<lambda>s. prepare_attempt w run_id s Forward) candidates)
                     (\<lambda>ps. ret (Some ps)))
            (\<lambda>_. ret None)) (\<lambda>prepared.
     case prepared of None \<Rightarrow> ret (blocked run_id completed internal_consistency)
     | Some ps \<Rightarrow>
       bnd (dispatch_loop w run_id ps []) (\<lambda>dispatched.
       bnd (collect_outcomes w) (\<lambda>(just, failed).
       ret (dispatched_report run_id dispatched (completed @ just) failed))))"

definition run_forward_once ::
  "world \<Rightarrow> string \<Rightarrow> execution_outcome list \<Rightarrow> coordination_report coord" where
  "run_forward_once w run_id completed =
     bnd (promote_due_retries (env_of w) run_id) (\<lambda>_.
     bnd (promote_dependency_ready_steps (env_of w) run_id) (\<lambda>_.
     bnd (load_definition_and_steps run_id) (\<lambda>(d, rs).
     bnd (available_capacity w) (\<lambda>capacity.
     bnd (lift_res (ready_candidates d rs)) (\<lambda>ready0.
     bnd (choose_candidates w run_id d ready0) (\<lambda>choice.
     case choice of Inl reason \<Rightarrow> ret (blocked run_id completed reason)
     | Inr ready \<Rightarrow>
       if take (nat capacity) ready = []
       then bnd (with_uow (on_uow (runs_get run_id))) (\<lambda>run.
            ret (blocked run_id completed (idle_reason run ready capacity rs)))
       else dispatch_candidates w run_id (take (nat capacity) ready) completed))))))"

text \<open>The pass over a selected run, after the outcomes were collected.\<close>

definition run_selected ::
  "world \<Rightarrow> string \<Rightarrow> workflow_run option \<Rightarrow> execution_outcome list \<Rightarrow> bool \<Rightarrow>
   coordination_report coord" where
  "run_selected w run_id selected completed failed =
     (let in_state = (\<lambda>P. case selected of None \<Rightarrow> False | Some run \<Rightarrow> P (wr_state run)) in
      if in_state run_terminal then ret (blocked run_id completed ''run_terminal'')
      else
      bnd (if in_state (\<lambda>st. st = RunWaitingApproval) then has_persisted_recovery_work run_id
           else ret False) (\<lambda>waiting_recovery.
      if waiting_recovery then ret (blocked run_id completed ''approval_recovery_required'')
      else if in_state (\<lambda>st. st = RunCompensating)
      then if failed then ret (blocked run_id completed internal_consistency)
           else run_compensation_once w run_id completed
      else if in_state (\<lambda>st. st \<notin> {RunPending, RunRunning})
      then ret (blocked run_id completed ''run_not_forward'')
      else if failed then ret (blocked run_id completed internal_consistency)
      else
      bnd (if selected \<noteq> None then has_persisted_recovery_work run_id else ret False) (\<lambda>recover.
      if recover
      then bnd (get_act co_unknown_runs) (\<lambda>unknown.
           ret (blocked run_id completed
                  (if run_id \<in> set unknown then ''result_unknown''
                   else ''approval_recovery_required'')))
      else run_forward_once w run_id completed)))"

definition unselected :: "string \<Rightarrow> coordination_report" where
  "unselected reason =
     \<lparr>cr_run_id = None, cr_dispatched = [], cr_completed = [], cr_blocked_reason = Some reason\<rparr>"

definition run_once :: "world \<Rightarrow> coordination_report coord" where
  "run_once w =
     bnd (get_act co_closed) (\<lambda>closed.
     if closed then ret (unselected ''coordinator_closed'')
     else
     bnd (collect_outcomes w) (\<lambda>(completed, failed).
     bnd (tick (wo_select w)) (\<lambda>choice.
     case choice of None \<Rightarrow> ret (unselected ''no_run_selected'')
     | Some run_id \<Rightarrow>
       bnd (with_uow (on_uow (runs_get run_id))) (\<lambda>selected.
       run_selected w run_id selected completed failed))))"

section \<open>Closing\<close>

definition collect_or_raise :: "world \<Rightarrow> unit coord" where
  "collect_or_raise w =
     bnd (collect_outcomes w) (\<lambda>(_, failed).
     if failed then raise_act OutcomePersistenceError else ret ())"

definition close_one :: "world \<Rightarrow> nat \<times> owned_future \<Rightarrow> unit coord" where
  "close_one w entry =
     (let fid = fst entry; owned = snd entry in
      if of_outcome_persisted owned then ret ()
      else
      bnd (future_done w fid) (\<lambda>d.
      bnd (if d then ret (outcome_from_future owned (wo_end w fid))
           else bnd (tick (\<lambda>t. wo_cancel w t fid)) (\<lambda>cancelled.
                ret (if cancelled
                     then failed_outcome (of_request owned) Retryable ''tool submission cancelled''
                     else unknown_outcome owned))) (\<lambda>out.
      bnd (try_act (persist_outcome w out (of_sensitive_paths owned))
             (\<lambda>_. raise_act OutcomePersistenceError)) (\<lambda>_.
      bnd (mark_persisted fid owned) (\<lambda>_. drop_if_done w fid)))))"

text \<open>\<open>shutdown(wait=True)\<close> returns when no future runs any more; for the model time passes.\<close>

definition shutdown :: "unit coord" where
  "shutdown = tick (\<lambda>_. ())"

definition close_coordinator :: "world \<Rightarrow> bool \<Rightarrow> unit coord" where
  "close_coordinator w wait =
     bnd (get_act co_closed) (\<lambda>closed.
     if closed \<and> \<not> wait then ret ()
     else
     bnd (collect_or_raise w) (\<lambda>_.
     bnd (if wait then bnd shutdown (\<lambda>_. collect_or_raise w)
          else bnd (get_act co_owned) (\<lambda>owned.
               bnd (iter_act (close_one w) owned) (\<lambda>_. shutdown))) (\<lambda>_.
     modify_act (\<lambda>c. c\<lparr>co_closed := True\<rparr>))))"

section \<open>The transactions keep the store well formed\<close>

lemma pres_promote [pres_intros]:
  "pres body_ok (promote_step env sr)" "pres body_ok (live_run r)" "pres body_ok (live_definition r)"
  "pres body_ok (promote_retry env r now s b)" "pres body_ok (commit_if b)"
  "pres body_ok (promote_pending env rs s b)"
  unfolding promote_retry_def promote_pending_def promote_step_def live_definition_def live_run_def
    commit_if_def
  by (intro pres_intros)+

lemma pres_promotions [pres_intros]:
  "pres sys_ok (promote_due_retries env r)" "pres sys_ok (promote_dependency_ready_steps env r)"
  unfolding promote_due_retries_def promote_dependency_ready_steps_def promote_ready_def
  by (intro pres_intros)+

lemma pres_recovery_work [pres_intros]: "pres body_ok (uow_has_persisted_recovery_work run w)"
  unfolding uow_has_persisted_recovery_work_def by (intro pres_intros)+

lemma pres_barrier_parts [pres_intros]:
  "pres body_ok (review_approval r run w s digest at a pending)"
  "pres body_ok (enter_waiting run at)" "pres body_ok (create_request env r run run' w s sn at)"
  unfolding review_approval_def enter_waiting_def create_request_def by (intro pres_intros)+

lemma pres_establish [pres_intros]:
  "pres body_ok (establish_body w r s at)" "pres sys_ok (establish_approval_barrier w r s)"
  unfolding establish_approval_barrier_def establish_body_def open_barrier_def
  by (intro pres_intros)+

lemma pres_finish_compensation [pres_intros]: "pres sys_ok (finish_compensation env r)"
  unfolding finish_compensation_def by (intro pres_intros)+

section \<open>What does not write\<close>

lemma quiet_bodies [pres_intros]:
  "pres (body_is st) (step_state_of r i)" "pres (body_is st) (approval_recovery_required run)"
  "pres (body_is st) (steps_of r d)" "pres (body_is st) (uow_has_persisted_recovery_work run d)"
  unfolding uow_has_persisted_recovery_work_def approval_recovery_required_def step_state_of_def
    steps_of_def
  by (intro pres_intros)+

lemma quiet_modify [pres_intros]:
  "(\<And>s. sy_store (g s) = sy_store s) \<Longrightarrow> pres (sys_is st) (modify_act g)"
  by (simp add: pres_def sys_is_def)

lemma quiet_coordinator [pres_intros]:
  "pres (sys_is st) (future_done w fid)" "pres (sys_is st) (drop_future fid)"
  "pres (sys_is st) (mark_persisted fid o')" "pres (sys_is st) (own_future p)"
  "pres (sys_is st) (submit w)" "pres (sys_is st) shutdown" "pres (sys_is st) (drop_if_done w fid)"
  "pres (sys_is st) (available_capacity w)" "pres (sys_is st) (has_unpersisted_outcome r)"
  "pres (sys_is st) (load_definition_and_steps r)" "pres (sys_is st) (has_persisted_recovery_work r)"
  "pres (sys_is st) (run_is_terminal r)" "pres (sys_is st) (prepare_attempt w r s ph)"
  unfolding future_done_def drop_future_def mark_persisted_def own_future_def submit_def
    shutdown_def drop_if_done_def available_capacity_def has_unpersisted_outcome_def
    load_definition_and_steps_def has_persisted_recovery_work_def run_is_terminal_def
    prepare_attempt_def Let_def
  by (auto intro!: pres_intros)

lemma pres_case_list [pres_intros]:
  "pres P m \<Longrightarrow> (\<And>y ys. x = y # ys \<Longrightarrow> pres P (f y ys)) \<Longrightarrow>
   pres P (case x of [] \<Rightarrow> m | y # ys \<Rightarrow> f y ys)"
  by (cases x) auto

section \<open>Laws of the store\<close>

text \<open>
  The contract of the coordinator with its transactions: a law of the store that each of the
  transactions keeps is kept by a whole pass and by the closing, whatever the tools, the clock
  and the futures do.
\<close>

locale store_law =
  fixes P :: "coordinator \<Rightarrow> bool"
  assumes law_of_store: "sy_store c' = sy_store c \<Longrightarrow> P c \<Longrightarrow> P c'"
    and keeps_started: "pres P (commit_attempt_started a)"
    and keeps_outcome: "pres P (with_uow (persist_outcome_body env out ps))"
    and keeps_retries: "pres P (promote_due_retries env r)"
    and keeps_ready: "pres P (promote_dependency_ready_steps env r)"
    and keeps_barrier: "pres P (with_uow (establish_body w r s at))"
    and keeps_compensated: "pres P (finish_compensation env r)"
begin

lemma keeps_quiet: "(\<And>st. pres (sys_is st) m) \<Longrightarrow> pres P m"
proof (rule presI)
  fix c assume q: "\<And>st. pres (sys_is st) m" and "P c"
  have "sy_store (snd (m c)) = sy_store c" using presD [OF q, of "sy_store c" c] by (simp add: sys_is_def)
  then show "P (snd (m c))" using law_of_store \<open>P c\<close> by blast
qed

lemma keeps_parts [pres_intros]:
  "pres P (clock_now env)" "pres P (tick f)" "pres P (future_done w fid)" "pres P (drop_future fid)"
  "pres P (mark_persisted fid o')" "pres P (own_future p)" "pres P (submit w)" "pres P shutdown"
  "pres P (drop_if_done w fid)" "pres P (available_capacity w)" "pres P (has_unpersisted_outcome r)"
  "pres P (load_definition_and_steps r)" "pres P (has_persisted_recovery_work r)"
  "pres P (run_is_terminal r)" "pres P (prepare_attempt w r s ph)" "pres P (with_uow (on_uow m))"
  "(\<And>s. sy_store (g s) = sy_store s) \<Longrightarrow> pres P (modify_act g)"
  by (rule keeps_quiet, intro pres_intros; simp)+

lemmas keeps_transactions [pres_intros] =
  keeps_started keeps_outcome keeps_retries keeps_ready keeps_barrier keeps_compensated

lemma keeps_persist [pres_intros]: "pres P (persist_outcome w out ps)" "pres P (try_persist w out ps)"
  unfolding try_persist_def persist_outcome_def by (intro pres_intros; simp)+

lemma keeps_collect [pres_intros]: "pres P (collect_one w now e acc)" "pres P (collect_outcomes w)"
  unfolding collect_outcomes_def collect_one_def Let_def by (intro pres_intros)+

lemma keeps_approval [pres_intros]:
  "pres P (establish_approval_barrier w r s)" "pres P (handle_approval_barrier w r d st)"
  unfolding handle_approval_barrier_def establish_approval_barrier_def by (intro pres_intros)+

lemma keeps_dispatch_loop [pres_intros]: "pres P (dispatch_loop w r ps ds)"
  by (induction ps arbitrary: ds) (auto intro!: pres_intros)

lemma keeps_compensation [pres_intros]:
  "pres P (dispatch_compensation w r s outs)" "pres P (run_compensation_once w r outs)"
  unfolding dispatch_compensation_def run_compensation_once_def by (intro pres_intros)+

lemma keeps_forward [pres_intros]:
  "pres P (choose_candidates w r d ss)" "pres P (dispatch_candidates w r ss outs)"
  "pres P (run_forward_once w r outs)" "pres P (run_selected w r run outs b)"
  unfolding run_selected_def run_forward_once_def dispatch_candidates_def choose_candidates_def Let_def
  by (intro pres_intros)+

lemma keeps_run_once [pres_intros]: "pres P (run_once w)"
  unfolding run_once_def by (intro pres_intros)

lemma keeps_close [pres_intros]:
  "pres P (collect_or_raise w)" "pres P (close_one w e)" "pres P (close_coordinator w b)"
  unfolding collect_or_raise_def close_one_def close_coordinator_def Let_def
  by (intro pres_intros; simp)+

end

interpretation well_formed: store_law sys_ok
  by unfold_locales (intro pres_intros | simp add: sys_ok_def)+

end
