(* ===== verification/Recovery.thy ===== *)
theory Recovery
  imports Execution
begin

text \<open>
  \<open>workflow/application/recovery.py\<close>: after a restart, the attempts that were left running or
  whose result is unknown are resolved by asking their tools: the effect was applied, or it was
  not, or nobody can tell and a human has to decide.
\<close>

text \<open>The tools a recovery may ask, and what each probe answers or raises.\<close>

record recovery_world = environment +
  rw_tools :: tool_registry
  rw_probe :: "nat \<Rightarrow> tool \<Rightarrow> recovery_query \<Rightarrow> error + probe_result"

abbreviation rec_env :: "recovery_world \<Rightarrow> environment" where
  "rec_env w \<equiv> environment.truncate w"

fun parse_phase :: "string \<Rightarrow> error + phase" where
  "parse_phase p =
     (if p = ''forward'' then Inr Forward else if p = ''probe'' then Inr Probe
      else if p = ''compensation'' then Inr Compensation
      else Inl (ValueError (py_repr p @ '' is not a valid ToolExecutionPhase'')))"

section \<open>What has to be recovered\<close>

text \<open>\<open>max(xs, key=...)\<close> of a list that is not empty: the first of the greatest.\<close>

definition max_by :: "('a \<Rightarrow> 'b::linorder) \<Rightarrow> 'a list \<Rightarrow> 'a" where
  "max_by key xs = foldl (\<lambda>m x. if key m < key x then x else m) (hd xs) (tl xs)"

definition attempt_rank :: "step_attempt \<Rightarrow> int \<times> string" where
  "attempt_rank a = (sa_attempt_no a, sa_phase a)"

definition unresolved_of :: "step_run \<Rightarrow> step_attempt list \<Rightarrow> step_attempt option" where
  "unresolved_of sr attempts =
     (if attempts = [] then None
      else let running = filter (\<lambda>a. sa_status a = ''running'') attempts in
           if running \<noteq> [] then Some (max_by attempt_rank running)
           else if sr_state sr = StepResultUnknown then Some (max_by attempt_rank attempts)
           else None)"

definition unresolved_attempt :: "string \<Rightarrow> string \<Rightarrow> ('z, step_attempt option) body" where
  "unresolved_attempt run_id step_id =
     bnd (on_uow (steps_get run_id step_id)) (\<lambda>found.
     bnd (need (unknown_step run_id step_id) found) (\<lambda>sr.
     bnd (on_uow (attempts_list run_id (Some step_id))) (\<lambda>attempts.
     ret (unresolved_of sr attempts))))"

section \<open>The probe\<close>

definition phase_tool :: "step_definition \<Rightarrow> phase \<Rightarrow> tool_reference option" where
  "phase_tool s ph = (if ph = Forward then Some (sd_tool s) else sd_compensation_tool s)"

definition recovery_query_of :: "step_definition \<Rightarrow> step_attempt \<Rightarrow> phase \<Rightarrow> int \<Rightarrow> recovery_query" where
  "recovery_query_of s a ph deadline =
     \<lparr>rq_run_id = sa_run_id a, rq_step_id = sa_step_id a, rq_phase = ph,
      rq_logical_idempotency_key = sa_idempotency_key a, rq_deadline = deadline,
      rq_metadata = PDict [(KStr ''arguments'', sd_arguments s)]\<rparr>"

definition probed_output :: "probe_result \<Rightarrow> pyval" where
  "probed_output r = (case pr_output r of None \<Rightarrow> PNone | Some v \<Rightarrow> v)"

text \<open>The body of the \<open>try\<close>: every exception in it means that nothing is known.\<close>

definition ask_tool ::
  "recovery_world \<Rightarrow> step_definition \<Rightarrow> step_attempt \<Rightarrow> phase \<Rightarrow> tool_reference \<Rightarrow> tool \<Rightarrow>
   ('z, probe_result) service" where
  "ask_tool w s a ph ref t =
     bnd (clock_now (rec_env w)) (\<lambda>now.
     bnd (lift_res (sbind (timedelta_int (td_default_timeout_seconds (tl_descriptor t)))
                      (add_delta now))) (\<lambda>deadline.
     bnd (lift_res (make_query (recovery_query_of s a ph deadline))) (\<lambda>query.
     bnd (tick (\<lambda>n. rw_probe w n t query)) (\<lambda>answer.
     bnd (lift_res answer) (\<lambda>result.
     bnd (if pr_status result = Found
          then lift_res (validate_output (rw_tools w) (ref_name ref) (ref_version ref)
                           (probed_output result))
          else ret PNone) (\<lambda>_.
     ret result))))))"

definition probe ::
  "recovery_world \<Rightarrow> step_definition \<Rightarrow> step_attempt \<Rightarrow> ('z, probe_result option) service" where
  "probe w s a =
     bnd (lift_res (parse_phase (sa_phase a))) (\<lambda>ph.
     case phase_tool s ph of None \<Rightarrow> ret None
     | Some ref \<Rightarrow>
       bnd (lift_res (reg_resolve (rw_tools w) (ref_name ref) (ref_version ref))) (\<lambda>t.
       if td_idempotency (tl_descriptor t) = IdemNone then ret None
       else try_act (bnd (ask_tool w s a ph ref t) (\<lambda>r. ret (Some r))) (\<lambda>_. ret None)))"

section \<open>What the answer does\<close>

definition recovery_event ::
  "string \<Rightarrow> step_run \<Rightarrow> step_attempt \<Rightarrow> int \<Rightarrow> string \<Rightarrow> audit_event" where
  "recovery_event event_type sr a at decision =
     (blank_event (sa_run_id a) (Some (sa_step_id a)) event_type at
        (step_state_value (sr_state sr)) (step_state_value (sr_state sr))
        (sr_revision sr) (sr_revision sr))
     \<lparr>ev_attempt_id := Some (sa_attempt_id a), ev_attempt_no := Some (sa_attempt_no a),
      ev_phase := Some (sa_phase a),
      ev_summary := PDict [(KStr ''decision'', PStr decision),
                           (KStr ''idempotency_key'', PStr (sa_idempotency_key a))]\<rparr>"

text \<open>A forward attempt moves its step; a compensation leaves it.\<close>

definition move_step :: "phase \<Rightarrow> step_run \<Rightarrow> step_state \<Rightarrow> int \<Rightarrow> ('z, step_run) body" where
  "move_step ph sr target at =
     (if ph \<noteq> Forward then ret sr
      else bnd (lift_res (step_transition sr target at)) (\<lambda>(changed, event).
           bnd (save_step sr changed event) (\<lambda>_. ret changed)))"

definition run_after_applied ::
  "workflow_run \<Rightarrow> workflow_definition \<Rightarrow> step_run \<Rightarrow> int \<Rightarrow> phase \<Rightarrow>
   ('z, (workflow_run \<times> audit_event) option) body" where
  "run_after_applied run w completed at ph =
     bnd (if wr_state run = RunCompensating \<and> ph = Compensation
          then bnd (steps_of (wr_run_id run) w) (\<lambda>rs.
               bnd (on_uow (attempts_list (wr_run_id run) None)) (\<lambda>attempts.
               bnd (lift_res (pending_compensations w (present rs) attempts)) (\<lambda>pending.
               ret (pending = []))))
          else ret False) (\<lambda>undone.
     if undone \<or> wr_state run = RunCompensating \<and> ph = Forward
     then lift_res (sbind (run_transition run RunCompensated at) (\<lambda>r. Inr (Some r)))
     else
     bnd (if wr_state run = RunRunning
          then all_succeeded (wr_run_id run) (sr_step_id completed) w else ret False) (\<lambda>finished.
     if finished then lift_res (sbind (run_transition run RunSucceeded at) (\<lambda>r. Inr (Some r)))
     else ret None))"

definition applied_attempt :: "step_attempt \<Rightarrow> int \<Rightarrow> pyval \<Rightarrow> step_attempt" where
  "applied_attempt a at redacted =
     a\<lparr>sa_status := ''succeeded'', sa_effect_applied := True, sa_completed_at := Some at,
       sa_next_attempt_at := None, sa_result := redacted, sa_error_class := None,
       sa_error_message := None\<rparr>"

definition settled_attempt :: "step_attempt \<Rightarrow> string \<Rightarrow> int \<Rightarrow> step_attempt" where
  "settled_attempt a status at =
     a\<lparr>sa_status := status, sa_completed_at := Some at, sa_next_attempt_at := None\<rparr>"

text \<open>What follows the step: the run's change, if there is one, and the recovery event.\<close>

definition finish_applied ::
  "workflow_run \<Rightarrow> workflow_definition \<Rightarrow> step_run \<Rightarrow> step_attempt \<Rightarrow> int \<Rightarrow> phase \<Rightarrow>
   ('z, unit) body" where
  "finish_applied run d completed a at ph =
     bnd (run_after_applied run d completed at ph) (\<lambda>changed.
     bnd (case changed of None \<Rightarrow> ret () | Some (run', event) \<Rightarrow> save_run run run' event) (\<lambda>_.
     bnd (on_uow (events_append (recovery_event ''recovery.applied'' completed a at ''applied''))) (\<lambda>_.
     ret ())))"

definition persist_applied ::
  "recovery_world \<Rightarrow> workflow_run \<Rightarrow> workflow_definition \<Rightarrow> step_run \<Rightarrow> step_attempt \<Rightarrow> pyval \<Rightarrow> int \<Rightarrow>
   ('z, unit) body" where
  "persist_applied w run d sr a output at =
     bnd (lift_res (parse_phase (sa_phase a))) (\<lambda>ph.
     bnd (first_of (\<lambda>s. sd_id s = sa_step_id a) (wd_steps d)) (\<lambda>s.
     bnd (need (RuntimeError (''step '' @ sa_step_id a @ '' has no compensation tool''))
            (phase_tool s ph)) (\<lambda>ref.
     bnd (lift_res (descriptor_for (rw_tools w) (ref_name ref) (ref_version ref))) (\<lambda>desc.
     bnd (lift_res (redact output (td_sensitive_argument_paths desc))) (\<lambda>redacted.
     bnd (on_uow (attempts_save (applied_attempt a at redacted))) (\<lambda>_.
     bnd (move_step ph sr StepSucceeded at) (\<lambda>completed.
     finish_applied run d completed a at ph)))))))"

definition persist_not_applied ::
  "step_run \<Rightarrow> step_attempt \<Rightarrow> int \<Rightarrow> ('z, unit) body" where
  "persist_not_applied sr a at =
     bnd (lift_res (parse_phase (sa_phase a))) (\<lambda>ph.
     bnd (move_step ph sr StepReady at) (\<lambda>ready.
     bnd (on_uow (attempts_save (settled_attempt a ''not_applied'' at))) (\<lambda>_.
     bnd (on_uow (events_append
            (recovery_event ''recovery.not_applied'' ready a at ''not_applied''))) (\<lambda>_. ret ()))))"

definition unproven_compensation :: "(string, string) dict" where
  "unproven_compensation =
     [(''error_class'', ''result_unknown''),
      (''error_message'', ''compensation result cannot be proven'')]"

definition save_manual ::
  "workflow_run \<Rightarrow> step_run \<Rightarrow> step_attempt \<Rightarrow> int \<Rightarrow> phase \<Rightarrow> ('z, unit) body" where
  "save_manual run manual_step a at ph =
     bnd (lift_res (run_transition run RunManualIntervention at)) (\<lambda>(manual_run, run_event).
     bnd (on_uow (runs_save
            (if ph = Compensation
             then manual_run\<lparr>wr_compensation_error := Some unproven_compensation\<rparr>
             else manual_run) (wr_revision run))) (\<lambda>_.
     bnd (on_uow (attempts_save (settled_attempt a ''manual_intervention'' at))) (\<lambda>_.
     bnd (on_uow (events_append run_event)) (\<lambda>_.
     bnd (on_uow (events_append
            (recovery_event ''recovery.manual_intervention'' manual_step a at
               ''manual_intervention''))) (\<lambda>_. ret ())))))"

definition persist_manual_intervention ::
  "workflow_run \<Rightarrow> step_run \<Rightarrow> step_attempt \<Rightarrow> int \<Rightarrow> ('z, unit) body" where
  "persist_manual_intervention run sr a at =
     bnd (lift_res (parse_phase (sa_phase a))) (\<lambda>ph.
     bnd (move_step ph sr StepManualIntervention at) (\<lambda>manual_step.
     save_manual run manual_step a at ph))"

section \<open>The service\<close>

definition settle ::
  "recovery_world \<Rightarrow> workflow_run \<Rightarrow> workflow_definition \<Rightarrow> step_run \<Rightarrow> step_attempt \<Rightarrow>
   probe_result option \<Rightarrow> int \<Rightarrow> ('z, unit) body" where
  "settle w run d sr a result at =
     (case result of None \<Rightarrow> persist_manual_intervention run sr a at
      | Some r \<Rightarrow>
        (case pr_status r of
           Found \<Rightarrow> persist_applied w run d sr a (probed_output r) at
         | NotFound \<Rightarrow> persist_not_applied sr a at
         | Inconclusive \<Rightarrow> persist_manual_intervention run sr a at))"

definition recover_attempt ::
  "recovery_world \<Rightarrow> string \<Rightarrow> string \<Rightarrow> step_attempt \<Rightarrow> ('z, unit) service" where
  "recover_attempt w run_id step_id expected =
     with_uow (
       bnd (run_or_raise run_id) (\<lambda>run.
       bnd (definition_or_raise run) (\<lambda>d.
       bnd (first_of (\<lambda>s. sd_id s = step_id) (wd_steps d)) (\<lambda>s.
       bnd (on_uow (steps_get run_id step_id)) (\<lambda>found.
       bnd (need (unknown_step run_id step_id) found) (\<lambda>sr.
       bnd (on_uow (attempts_list run_id (Some step_id))) (\<lambda>attempts.
       bnd (first_of (\<lambda>a. sa_attempt_no a = sa_attempt_no expected
                          \<and> sa_phase a = sa_phase expected) attempts) (\<lambda>a.
       bnd (on_service (clock_now (rec_env w))) (\<lambda>at.
       bnd (on_service (probe w s a)) (\<lambda>result.
       bnd (settle w run d sr a result at) (\<lambda>_. uow_commit)))))))))))"

text \<open>The reads of \<open>_recover_run\<close>: \<open>None\<close> for a run that is missing or has ended.\<close>

definition pending_recoveries ::
  "string \<Rightarrow> ('z, (step_definition \<times> step_attempt option) list option) service" where
  "pending_recoveries run_id =
     with_uow (
       bnd (on_uow (runs_get run_id)) (\<lambda>found.
       case found of None \<Rightarrow> ret None
       | Some run \<Rightarrow>
         if run_terminal (wr_state run) then ret None
         else bnd (definition_or_raise run) (\<lambda>d.
              bnd (map_act (\<lambda>s. bnd (unresolved_attempt run_id (sd_id s)) (\<lambda>a. ret (s, a)))
                     (wd_steps d)) (\<lambda>pending. ret (Some pending)))))"

definition recover_pending ::
  "recovery_world \<Rightarrow> string \<Rightarrow> step_definition \<times> step_attempt option \<Rightarrow> bool \<Rightarrow> ('z, bool) service" where
  "recover_pending w run_id entry changed =
     (case snd entry of None \<Rightarrow> ret changed
      | Some a \<Rightarrow> bnd (recover_attempt w run_id (sd_id (fst entry)) a) (\<lambda>_. ret True))"

definition recover_run :: "recovery_world \<Rightarrow> string \<Rightarrow> ('z, bool) service" where
  "recover_run w run_id =
     bnd (pending_recoveries run_id) (\<lambda>pending.
     case pending of None \<Rightarrow> ret False
     | Some entries \<Rightarrow> afold (recover_pending w run_id) entries False)"

definition recover_next :: "recovery_world \<Rightarrow> string \<Rightarrow> string list \<Rightarrow> ('z, string list) service" where
  "recover_next w run_id recovered =
     bnd (recover_run w run_id) (\<lambda>changed.
     ret (if changed then recovered @ [run_id] else recovered))"

definition recover_nonterminal_runs :: "recovery_world \<Rightarrow> ('z, string list) service" where
  "recover_nonterminal_runs w =
     bnd (with_uow (bnd (on_uow runs_list) (\<lambda>runs.
            ret (map wr_run_id (filter (\<lambda>r. \<not> run_terminal (wr_state r)) runs))))) (\<lambda>run_ids.
     afold (recover_next w) run_ids [])"

section \<open>It keeps the store well formed\<close>

lemma pres_unresolved [pres_intros]: "pres body_ok (unresolved_attempt r s)"
  unfolding unresolved_attempt_def by (intro pres_intros)

lemma pres_probe [pres_intros]:
  "pres sys_ok (ask_tool w s a ph ref t)" "pres sys_ok (probe w s a)"
  unfolding probe_def ask_tool_def by (auto intro!: pres_intros)

lemma pres_recovery_parts [pres_intros]:
  "pres body_ok (move_step ph sr target at)" "pres body_ok (run_after_applied run d sr at ph)"
  "pres body_ok (finish_applied run d sr a at ph)"
  unfolding move_step_def finish_applied_def run_after_applied_def by (intro pres_intros)+

lemma pres_case_status [pres_intros]:
  "pres P m \<Longrightarrow> pres P m' \<Longrightarrow> pres P m'' \<Longrightarrow>
   pres P (case s of Found \<Rightarrow> m | NotFound \<Rightarrow> m' | Inconclusive \<Rightarrow> m'')"
  by (cases s) auto

lemma pres_settle [pres_intros]:
  "pres body_ok (persist_applied w run d sr a out at)" "pres body_ok (persist_not_applied sr a at)"
  "pres body_ok (persist_manual_intervention run sr a at)" "pres body_ok (settle w run d sr a res at)"
  unfolding settle_def persist_applied_def persist_not_applied_def persist_manual_intervention_def
    save_manual_def
  by (intro pres_intros)+

lemma pres_recover_attempt [pres_intros]: "pres sys_ok (recover_attempt w r s a)"
  unfolding recover_attempt_def by (intro pres_intros)+

lemma quiet_recovery [pres_intros]:
  "pres (body_is st) (unresolved_attempt r i)" "pres (sys_is st) (pending_recoveries r)"
  "pres (sys_is st) (ask_tool w s a ph ref t)" "pres (sys_is st) (probe w s a)"
  unfolding pending_recoveries_def unresolved_attempt_def probe_def ask_tool_def
  by (intro pres_intros)+

section \<open>Laws of the store\<close>

text \<open>A law of the store that the recovery of one attempt keeps is kept by the whole recovery.\<close>

locale recovery_law =
  fixes P :: "'z sys_scheme \<Rightarrow> bool"
  assumes law_of_store: "sy_store s' = sy_store s \<Longrightarrow> P s \<Longrightarrow> P s'"
    and keeps_attempt: "pres P (recover_attempt w r i a)"
begin

lemma keeps_quiet:
  assumes "\<And>st. pres (sys_is st) m"
  shows "pres P m"
proof (rule presI)
  fix s assume "P s"
  moreover have "sy_store (snd (m s)) = sy_store s"
    using presD [OF assms, of "sy_store s" s] by (simp add: sys_is_def)
  ultimately show "P (snd (m s))" using law_of_store by blast
qed

lemma keeps_recovery:
  "pres P (recover_pending w r e b)" "pres P (recover_run w r)" "pres P (recover_next w r rs)"
  "pres P (recover_nonterminal_runs w)"
  unfolding recover_nonterminal_runs_def recover_next_def recover_run_def recover_pending_def
  by (intro pres_bnd pres_case_option pres_afold pres_ret keeps_attempt keeps_quiet;
      intro pres_intros)+

end

interpretation recovery_well_formed: recovery_law sys_ok
  by unfold_locales (simp add: sys_ok_def, intro pres_intros)

end
