(* ===== verification/Services.thy ===== *)
theory Services
  imports Coordinator Recovery
begin

text \<open>
  \<open>workflow/application/services.py\<close>: creating and cancelling runs, the read side with its
  transfer objects, and the driver that recovers before it dispatches.
\<close>

section \<open>Transfer objects\<close>

record error_dto =
  ed_error_class :: string
  ed_error_message :: string

record step_dto =
  sx_step_id :: string
  sx_state :: string
  sx_revision :: int
  sx_completion_sequence :: "int option"

record pending_approval_dto =
  pd_request_id :: string
  pd_step_id :: string
  pd_tool_name :: string
  pd_tool_version :: string
  pd_binding_digest :: string
  pd_risk_reasons :: "string list"
  pd_redacted_arguments :: pyval
  pd_created_at :: int
  pd_version :: int
  pd_status :: string

record run_dto =
  rd_run_id :: string
  rd_definition_id :: string
  rd_definition_version :: int
  rd_definition_digest :: string
  rd_state :: string
  rd_revision :: int
  rd_steps :: "step_dto list"
  rd_pending_approval :: "pending_approval_dto option"
  rd_original_error :: "error_dto option"
  rd_compensation_error :: "error_dto option"

record event_dto =
  et_sequence :: int
  et_run_id :: string
  et_step_id :: "string option"
  et_event_type :: string
  et_occurred_at :: int
  et_previous_state :: string
  et_new_state :: string
  et_previous_revision :: int
  et_revision :: int
  et_attempt_id :: "string option"
  et_attempt_no :: "int option"
  et_phase :: "string option"
  et_error_class :: "string option"
  et_payload :: pyval

text \<open>\<open>_freeze_value\<close> of this module: mappings become read-only with text keys, lists tuples.\<close>

fun freeze_dto :: "pyval \<Rightarrow> pyval" where
  "freeze_dto (PModel c fs) = PProxy (dict_of (map (\<lambda>f. (fst f, freeze_dto (snd f))) fs))"
| "freeze_dto (PSecret p n) =
     PProxy [(KStr ''provider'', PStr p), (KStr ''name'', PStr ''[REDACTED]'')]"
| "freeze_dto (PDict d) = PProxy (dict_of (map (\<lambda>kv. (key_text (fst kv), freeze_dto (snd kv))) d))"
| "freeze_dto (PProxy d) = PProxy (dict_of (map (\<lambda>kv. (key_text (fst kv), freeze_dto (snd kv))) d))"
| "freeze_dto (PList xs) = PTuple (map freeze_dto xs)"
| "freeze_dto (PTuple xs) = PTuple (map freeze_dto xs)"
| "freeze_dto v = v"

section \<open>\<open>WorkflowService\<close>\<close>

definition created_event :: "string \<Rightarrow> workflow_definition \<Rightarrow> int \<Rightarrow> audit_event" where
  "created_event run_id w at =
     (blank_event run_id None ''workflow.created'' at (run_state_value RunPending)
        (run_state_value RunPending) 0 0)
     \<lparr>ev_summary :=
        PDict [(KStr ''definition_id'', PStr (wd_definition_id w)),
               (KStr ''definition_version'', PInt (wd_version w)),
               (KStr ''definition_digest'', PStr (wd_digest w)),
               (KStr ''step_count'', PInt (int (length (wd_steps w))))]\<rparr>"

definition definition_conflict :: "workflow_definition \<Rightarrow> error" where
  "definition_conflict w =
     DefinitionConflictError
       (''definition identity already exists with different content: '' @ wd_definition_id w
        @ ''@'' @ int_text (wd_version w))"

text \<open>The unit of work of \<open>create_run\<close>: what it adds, and its commit.\<close>

definition stage_run :: "string \<Rightarrow> workflow_definition \<Rightarrow> audit_event \<Rightarrow> ('z, unit) body" where
  "stage_run run_id w event =
     bnd (on_uow (definitions_get (wd_definition_id w) (wd_version w))) (\<lambda>existing.
     bnd (case existing of
            None \<Rightarrow> on_uow (definitions_add w)
          | Some d \<Rightarrow> lift_res (guard (wd_digest d = wd_digest w) (definition_conflict w))) (\<lambda>_.
     bnd (on_uow (runs_add (new_run run_id (wd_definition_id w) (wd_version w) (wd_digest w)))) (\<lambda>_.
     bnd (iter_act (\<lambda>s. on_uow (steps_add (new_step run_id (sd_id s)))) (wd_steps w)) (\<lambda>_.
     bnd (on_uow (events_append event)) (\<lambda>_. ret ())))))"

definition store_run :: "string \<Rightarrow> workflow_definition \<Rightarrow> audit_event \<Rightarrow> ('z, unit) body" where
  "store_run run_id w event = bnd (stage_run run_id w event) (\<lambda>_. uow_commit)"

definition create_run ::
  "environment \<Rightarrow> tool_registry \<Rightarrow> pyval \<Rightarrow> ('z, string) service" where
  "create_run env reg payload =
     bnd (lift_res (from_mapping payload reg)) (\<lambda>w.
     bnd (new_identifier env) (\<lambda>run_id.
     bnd (clock_now env) (\<lambda>at.
     bnd (with_uow (store_run run_id w (created_event run_id w at))) (\<lambda>_.
     ret run_id))))"

definition cancel_run :: "environment \<Rightarrow> string \<Rightarrow> ('z, unit) service" where
  "cancel_run env run_id =
     with_uow (
       bnd (run_or_raise run_id) (\<lambda>run.
       bnd (on_service (clock_now env)) (\<lambda>at.
       bnd (lift_res (run_transition run RunCancelled at)) (\<lambda>(cancelled, event).
       bnd (save_run run cancelled event) (\<lambda>_. uow_commit)))))"

section \<open>\<open>QueryService\<close>\<close>

definition error_dto_of :: "(string, string) dict option \<Rightarrow> error + error_dto option" where
  "error_dto_of v =
     (case v of None \<Rightarrow> Inr None
      | Some d \<Rightarrow>
        sbind (or_raise (dget d ''error_class'') (KeyError ''error_class'')) (\<lambda>c.
        sbind (or_raise (dget d ''error_message'') (KeyError ''error_message'')) (\<lambda>m.
        Inr (Some \<lparr>ed_error_class = c, ed_error_message = m\<rparr>))))"

definition step_dto_of :: "step_run \<Rightarrow> step_dto" where
  "step_dto_of r =
     \<lparr>sx_step_id = sr_step_id r, sx_state = step_state_value (sr_state r),
      sx_revision = sr_revision r, sx_completion_sequence = sr_completion_sequence r\<rparr>"

definition pending_approval_of :: "approval_record option \<Rightarrow> error + pending_approval_dto option" where
  "pending_approval_of found =
     (case found of None \<Rightarrow> Inr None
      | Some a \<Rightarrow>
        if \<not> is_pending a then Inr None
        else (case a of
            Legacy l \<Rightarrow> Inl (AttributeError ''LegacyApprovalRecord object has no attribute id'')
          | Request r \<Rightarrow>
            sbind (redact (ar_redacted_arguments r) []) (\<lambda>arguments.
            Inr (Some \<lparr>pd_request_id = ar_id r, pd_step_id = ar_step_id r,
                       pd_tool_name = ar_tool_name r, pd_tool_version = ar_tool_version r,
                       pd_binding_digest = ar_binding_digest r, pd_risk_reasons = ar_risk_reasons r,
                       pd_redacted_arguments = freeze_dto arguments, pd_created_at = ar_created_at r,
                       pd_version = ar_version r,
                       pd_status = approval_status_value (ar_status r)\<rparr>))))"

definition run_dto_of ::
  "workflow_run \<Rightarrow> step_run list \<Rightarrow> approval_record option \<Rightarrow> error + run_dto" where
  "run_dto_of run rs pending =
     sbind (pending_approval_of pending) (\<lambda>approval.
     sbind (error_dto_of (wr_original_error run)) (\<lambda>original.
     sbind (error_dto_of (wr_compensation_error run)) (\<lambda>compensation.
     Inr \<lparr>rd_run_id = wr_run_id run, rd_definition_id = wr_definition_id run,
          rd_definition_version = wr_definition_version run,
          rd_definition_digest = wr_definition_digest run,
          rd_state = run_state_value (wr_state run), rd_revision = wr_revision run,
          rd_steps = map step_dto_of rs, rd_pending_approval = approval,
          rd_original_error = original, rd_compensation_error = compensation\<rparr>)))"

definition option_text :: "string option \<Rightarrow> string" where
  "option_text v = (case v of None \<Rightarrow> ''None'' | Some s \<Rightarrow> s)"

definition get_run :: "string option \<Rightarrow> ('z, run_dto) service" where
  "get_run requested =
     bnd (lift_res (guard (requested \<noteq> None \<and> requested \<noteq> Some [])
            (LookupError (''unknown run '' @ option_text requested)))) (\<lambda>_.
     let run_id = option_text requested in
     bnd (with_uow (
       bnd (run_or_raise run_id) (\<lambda>run.
       bnd (definition_or_raise run) (\<lambda>w.
       bnd (steps_of run_id w) (\<lambda>rs.
       bnd (on_uow (approvals_pending run_id)) (\<lambda>pending. ret (run, rs, pending))))))) (\<lambda>(run, rs, pending).
     if None \<in> set rs then raise_act (RuntimeError (''run '' @ run_id @ '' is missing step state''))
     else lift_res (run_dto_of run (present rs) pending)))"

definition event_sensitive_paths ::
  "tool_registry \<Rightarrow> (string, step_definition) dict \<Rightarrow> audit_event \<Rightarrow> error + string list" where
  "event_sensitive_paths reg steps e =
     (case (case ev_step_id e of None \<Rightarrow> None | Some i \<Rightarrow> dget steps i) of
        None \<Rightarrow> Inr []
      | Some s \<Rightarrow>
        (case (if ev_phase e = Some ''compensation'' then sd_compensation_tool s
               else Some (sd_tool s)) of
           None \<Rightarrow> Inr []
         | Some ref \<Rightarrow>
           sbind (descriptor_for reg (ref_name ref) (ref_version ref)) (\<lambda>d.
           Inr (td_sensitive_argument_paths d))))"

definition event_dto_of ::
  "tool_registry \<Rightarrow> (string, step_definition) dict \<Rightarrow> int \<times> audit_event \<Rightarrow> error + event_dto" where
  "event_dto_of reg steps entry =
     (let e = snd entry in
      sbind (event_sensitive_paths reg steps e) (\<lambda>paths.
      sbind (redact (ev_summary e) paths) (\<lambda>payload.
      Inr \<lparr>et_sequence = fst entry, et_run_id = ev_run_id e, et_step_id = ev_step_id e,
           et_event_type = ev_event_type e, et_occurred_at = ev_occurred_at e,
           et_previous_state = ev_previous_state e, et_new_state = ev_new_state e,
           et_previous_revision = ev_previous_revision e, et_revision = ev_revision e,
           et_attempt_id = ev_attempt_id e, et_attempt_no = ev_attempt_no e,
           et_phase = ev_phase e, et_error_class = ev_error_class e,
           et_payload = freeze_dto payload\<rparr>)))"

definition list_events :: "tool_registry \<Rightarrow> string \<Rightarrow> int \<Rightarrow> ('z, event_dto list) service" where
  "list_events reg run_id after_sequence =
     bnd (lift_res (guard (0 \<le> after_sequence)
            (ValueError ''after_sequence must be a non-negative integer''))) (\<lambda>_.
     bnd (with_uow (
       bnd (run_or_raise run_id) (\<lambda>run.
       bnd (definition_of run) (\<lambda>found.
       bnd (on_uow (events_list run_id after_sequence)) (\<lambda>entries. ret (found, entries)))))) (\<lambda>(found, entries).
     lift_res (smap (event_dto_of reg (case found of None \<Rightarrow> [] | Some w \<Rightarrow> steps_by_id (wd_steps w)))
                 entries)))"

section \<open>\<open>WorkflowDriver\<close>\<close>

record driver =
  dr_coordinator :: coordinator
  dr_started :: bool

type_synonym 'a drive = "(driver, error, 'a) act"

definition on_coordinator :: "'a coord \<Rightarrow> 'a drive" where
  "on_coordinator m d =
     (case m (dr_coordinator d) of (r, c) \<Rightarrow> (r, d\<lparr>dr_coordinator := c\<rparr>))"

definition driver_start :: "recovery_world \<Rightarrow> string list drive" where
  "driver_start w =
     bnd (on_coordinator (recover_nonterminal_runs w)) (\<lambda>recovered.
     bnd (modify_act (\<lambda>d. d\<lparr>dr_started := True\<rparr>)) (\<lambda>_. ret recovered))"

definition driver_run_once :: "world \<Rightarrow> coordination_report drive" where
  "driver_run_once w =
     bnd (get_act dr_started) (\<lambda>started.
     if started then on_coordinator (run_once w)
     else raise_act (RuntimeError ''driver must start recovery before coordinator dispatch''))"

section \<open>They keep the store well formed\<close>

lemma pres_write_services [pres_intros]:
  "pres body_ok (store_run r w e)" "pres sys_ok (create_run env reg payload)"
  "pres sys_ok (cancel_run env r)"
  unfolding create_run_def store_run_def stage_run_def cancel_run_def by (intro pres_intros)+

lemma pres_read_services [pres_intros]:
  "pres sys_ok (get_run i)" "pres sys_ok (list_events reg r n)"
  unfolding get_run_def list_events_def Let_def by (intro pres_intros)+

definition driver_ok :: "driver \<Rightarrow> bool" where
  "driver_ok d \<longleftrightarrow> sys_ok (dr_coordinator d)"

lemma pres_on_coordinator [pres_intros]: "pres sys_ok m \<Longrightarrow> pres driver_ok (on_coordinator m)"
  by (auto simp: pres_def driver_ok_def on_coordinator_def split: prod.splits)

lemma pres_driver [pres_intros]:
  "pres driver_ok (driver_start w)" "pres driver_ok (driver_run_once w')"
  unfolding driver_start_def driver_run_once_def
  by (auto intro!: pres_intros recovery_well_formed.keeps_recovery simp: driver_ok_def)

end
