(* ===== verification/History.thy ===== *)
theory History
  imports Views Services
begin

text \<open>
  The law that every service keeps: the audit log of a run is its history. The
  \<open>run.state_changed\<close> events of a run, replayed from \<open>pending\<close> at revision 0 along the transition
  table, end in the state and revision the run has, the \<open>step.state_changed\<close> events do the same
  for each step, every run has its definition with the digest it was created with and a step run
  for each step of it, and logs, runs, steps and definitions are never lost.
\<close>

section \<open>The law\<close>

definition history_log :: "view \<Rightarrow> string \<Rightarrow> audit_event list" where
  "history_log v r = filter (\<lambda>e. is_run_event e \<or> is_step_event e) (vw_log v r)"

definition run_events :: "audit_event list \<Rightarrow> audit_event list" where
  "run_events es = filter is_run_event es"

definition step_events :: "string \<Rightarrow> audit_event list \<Rightarrow> audit_event list" where
  "step_events i es = filter (\<lambda>e. is_step_event e \<and> ev_step_id e = Some i) es"

definition run_history :: "audit_event list \<Rightarrow> string \<Rightarrow> workflow_run option \<Rightarrow> bool" where
  "run_history es r found \<longleftrightarrow>
     (case found of None \<Rightarrow> run_events es = []
      | Some run \<Rightarrow> wr_run_id run = r
          \<and> run_trace (RunPending, 0) (run_events es) (wr_state run, wr_revision run))"

definition step_history :: "audit_event list \<Rightarrow> string \<Rightarrow> string \<Rightarrow> step_run option \<Rightarrow> bool" where
  "step_history es r i found \<longleftrightarrow>
     (case found of None \<Rightarrow> step_events i es = []
      | Some sr \<Rightarrow> sr_run_id sr = r \<and> sr_step_id sr = i
          \<and> step_trace (StepPending, 0) (step_events i es) (sr_state sr, sr_revision sr))"

definition references_ok :: "view \<Rightarrow> workflow_run \<Rightarrow> bool" where
  "references_ok v run \<longleftrightarrow>
     (\<exists>w. vw_definitions v (wr_definition_id run, wr_definition_version run) = Some w
        \<and> wd_digest w = wr_definition_digest run
        \<and> (\<forall>s \<in> set (wd_steps w). vw_steps v (wr_run_id run, sd_id s) \<noteq> None))"

definition history :: "view \<Rightarrow> bool" where
  "history v \<longleftrightarrow>
     (\<forall>k w. vw_definitions v k = Some w \<longrightarrow> definition_key_of w = k \<and> (\<exists>reg. definition_ok reg w))
     \<and> (\<forall>r. run_history (history_log v r) r (vw_runs v r))
     \<and> (\<forall>r i. step_history (history_log v r) r i (vw_steps v (r, i)))
     \<and> (\<forall>r run. vw_runs v r = Some run \<longrightarrow> references_ok v run)
     \<and> (\<forall>r i. vw_runs v r = None \<longrightarrow> vw_steps v (r, i) = None)"

text \<open>What a run keeps for its whole life, and what later stores keep of earlier ones.\<close>

definition same_identity :: "workflow_run \<Rightarrow> workflow_run \<Rightarrow> bool" where
  "same_identity run run' \<longleftrightarrow> wr_run_id run' = wr_run_id run
     \<and> wr_definition_id run' = wr_definition_id run
     \<and> wr_definition_version run' = wr_definition_version run
     \<and> wr_definition_digest run' = wr_definition_digest run"

definition grows :: "view \<Rightarrow> view \<Rightarrow> bool" where
  "grows v v' \<longleftrightarrow>
     (\<forall>k w. vw_definitions v k = Some w \<longrightarrow> vw_definitions v' k = Some w)
     \<and> (\<forall>r run. vw_runs v r = Some run \<longrightarrow> (\<exists>run'. vw_runs v' r = Some run' \<and> same_identity run run'))
     \<and> (\<forall>k. vw_steps v k \<noteq> None \<longrightarrow> vw_steps v' k \<noteq> None)
     \<and> (\<forall>r. \<exists>es. vw_log v' r = vw_log v r @ es)"

definition lawful :: "view \<Rightarrow> view \<Rightarrow> bool" where
  "lawful b v \<longleftrightarrow> history v \<and> grows b v"

lemma historyD:
  assumes "history v"
  shows "vw_definitions v k = Some w \<Longrightarrow> definition_key_of w = k \<and> (\<exists>reg. definition_ok reg w)"
    and "run_history (history_log v r) r (vw_runs v r)"
    and "step_history (history_log v r) r i (vw_steps v (r, i))"
    and "vw_runs v r = Some run \<Longrightarrow> references_ok v run"
    and "vw_runs v r = None \<Longrightarrow> vw_steps v (r, i) = None"
  using assms unfolding history_def by blast+

lemma run_history_cong: "run_events es = run_events fs \<Longrightarrow> run_history es r x = run_history fs r x"
  by (cases x) (simp_all add: run_history_def)

lemma step_history_cong:
  "step_events i es = step_events i fs \<Longrightarrow> step_history es r i x = step_history fs r i x"
  by (cases x) (simp_all add: step_history_def)

lemma same_identity_refl [simp]: "same_identity run run"
  by (simp add: same_identity_def)

lemma same_identity_trans: "same_identity a b \<Longrightarrow> same_identity b c \<Longrightarrow> same_identity a c"
  by (simp add: same_identity_def)

lemma grows_refl: "grows v v"
  by (auto simp: grows_def)

lemma grows_trans:
  assumes "grows a b" and "grows b c"
  shows "grows a c"
  unfolding grows_def
proof (intro conjI allI impI)
  fix k w assume "vw_definitions a k = Some w"
  then show "vw_definitions c k = Some w" using assms unfolding grows_def by blast
next
  fix r run assume "vw_runs a r = Some run"
  then obtain run1 where "vw_runs b r = Some run1" and "same_identity run run1"
    using assms(1) unfolding grows_def by blast
  then show "\<exists>run'. vw_runs c r = Some run' \<and> same_identity run run'"
    using assms(2) same_identity_trans unfolding grows_def by blast
next
  fix k assume "vw_steps a k \<noteq> None"
  then show "vw_steps c k \<noteq> None" using assms unfolding grows_def by blast
next
  fix r
  obtain es fs where "vw_log b r = vw_log a r @ es" and "vw_log c r = vw_log b r @ fs"
    using assms unfolding grows_def by blast
  then show "\<exists>es. vw_log c r = vw_log a r @ es" by simp
qed

lemma history_new_runs [simp]:
  "history (v\<lparr>vw_new_runs := x\<rparr>) = history v" "grows b (v\<lparr>vw_new_runs := x\<rparr>) = grows b v"
  "lawful b (v\<lparr>vw_new_runs := x\<rparr>) = lawful b v"
  by (simp_all add: history_def history_log_def references_ok_def grows_def lawful_def)

lemma lawful_tables [simp]:
  "lawful b (v\<lparr>vw_attempts := x\<rparr>) = lawful b v" "lawful b (v\<lparr>vw_approvals := y\<rparr>) = lawful b v"
  by (simp_all add: history_def history_log_def references_ok_def grows_def lawful_def)

section \<open>Moves\<close>

text \<open>\<open>moves v v' es\<close>: the step from \<open>v\<close> to \<open>v'\<close> logs the history events \<open>es\<close>.\<close>

definition logs :: "view \<Rightarrow> view \<Rightarrow> audit_event option \<Rightarrow> bool" where
  "logs v v' e \<longleftrightarrow>
     (\<forall>r. history_log v' r = history_log v r
            @ (case e of None \<Rightarrow> [] | Some x \<Rightarrow> if r = ev_run_id x then [x] else []))
     \<and> (\<forall>r. \<exists>es. vw_log v' r = vw_log v r @ es)"

lemma grows_logs:
  assumes "grows b v" and "logs v v' e" and "vw_definitions v' = vw_definitions v"
    and "\<And>r run. vw_runs v r = Some run \<Longrightarrow> \<exists>run'. vw_runs v' r = Some run' \<and> same_identity run run'"
    and "\<And>k. vw_steps v k \<noteq> None \<Longrightarrow> vw_steps v' k \<noteq> None"
  shows "grows b v'"
proof (rule grows_trans [OF assms(1)])
  show "grows v v'" using assms(2-5) unfolding grows_def logs_def by simp
qed

lemma references_mono:
  assumes "references_ok v run" and "same_identity run run'"
    and "\<And>k w. vw_definitions v k = Some w \<Longrightarrow> vw_definitions v' k = Some w"
    and "\<And>k. vw_steps v k \<noteq> None \<Longrightarrow> vw_steps v' k \<noteq> None"
  shows "references_ok v' run'"
  using assms unfolding references_ok_def same_identity_def by metis

lemma lawful_quiet:
  assumes l: "lawful b v" and logs: "logs v v' None"
    and same: "vw_definitions v' = vw_definitions v" "vw_runs v' = vw_runs v" "vw_steps v' = vw_steps v"
  shows "lawful b v'"
proof -
  have "grows b v'" using grows_logs [OF _ logs] l same by (simp add: lawful_def)
  moreover have "history_log v' r = history_log v r" for r using logs by (simp add: logs_def)
  ultimately show ?thesis using l same by (simp add: lawful_def history_def references_ok_def)
qed

lemma run_move:
  assumes l: "lawful b v" and run: "vw_runs v r = Some run"
    and edge: "run_edge e (wr_state run, wr_revision run) (wr_state run', wr_revision run')"
    and r: "ev_run_id e = r" and id: "same_identity run run'"
    and logs: "logs v v' (Some e)"
    and same: "vw_definitions v' = vw_definitions v" "vw_steps v' = vw_steps v"
    and runs: "vw_runs v' = (vw_runs v)(r \<mapsto> run')"
  shows "lawful b v'"
proof -
  have h: "history v" and g: "grows b v" using l by (simp_all add: lawful_def)
  have re: "is_run_event e" using edge by (simp add: run_edge_def)
  have nse: "\<not> is_step_event e" using re by (simp add: is_run_event_def is_step_event_def)
  have logr: "history_log v' q = history_log v q @ (if q = r then [e] else [])" for q
    using logs r by (simp add: logs_def)
  have "grows b v'"
    by (rule grows_logs [OF g logs]) (use same runs run id in \<open>auto split: if_splits\<close>)
  moreover have "run_history (history_log v' q) q (vw_runs v' q)" for q
  proof (cases "q = r")
    case True
    have "run_history (history_log v r) r (Some run)" using historyD(2) [OF h, of r] run by simp
    then have "run_trace (RunPending, 0) (run_events (history_log v r) @ [e])
        (wr_state run', wr_revision run')" and "wr_run_id run = r"
      using edge by (auto simp: run_history_def intro: run_trace_snoc)
    then show ?thesis using True re id runs
      by (simp add: run_history_def run_events_def logr same_identity_def)
  next
    case False
    then show ?thesis using h runs by (simp add: history_def logr)
  qed
  moreover have "step_history (history_log v' q) q i (vw_steps v' (q, i))" for q i
  proof -
    have "step_events i (history_log v' q) = step_events i (history_log v q)"
      using nse by (simp add: step_events_def logr)
    then have "step_history (history_log v' q) q i x = step_history (history_log v q) q i x" for x
      by (rule step_history_cong)
    then show ?thesis using historyD(3) [OF h, of q i] same by simp
  qed
  moreover have "references_ok v' q" if q: "vw_runs v' p = Some q" for p q
  proof -
    obtain q0 where "vw_runs v p = Some q0" and "same_identity q0 q"
      using q runs run id same_identity_refl [of q] by (cases "p = r") auto
    moreover have "references_ok v q0" using h calculation(1) unfolding history_def by blast
    ultimately show ?thesis using references_mono [of v q0 q v'] same by simp
  qed
  moreover have "vw_steps v' (q, i) = None" if "vw_runs v' q = None" for q i
    using that h same runs unfolding history_def by (simp split: if_splits)
  moreover have "definition_key_of w = k \<and> (\<exists>reg. definition_ok reg w)"
    if "vw_definitions v' k = Some w" for k w
    using historyD(1) [OF h] that same by simp
  ultimately show ?thesis by (simp add: lawful_def history_def)
qed

lemma step_move:
  assumes l: "lawful b v" and sr: "vw_steps v (r, i) = Some sr"
    and edge: "step_edge e (sr_state sr, sr_revision sr) (sr_state sr', sr_revision sr')"
    and r: "ev_run_id e = r" "ev_step_id e = Some i" and id: "sr_run_id sr' = r" "sr_step_id sr' = i"
    and logs: "logs v v' (Some e)"
    and same: "vw_definitions v' = vw_definitions v" "vw_runs v' = vw_runs v"
    and steps: "vw_steps v' = (vw_steps v)((r, i) \<mapsto> sr')"
  shows "lawful b v'"
proof -
  have h: "history v" and g: "grows b v" using l by (simp_all add: lawful_def)
  have se: "is_step_event e" using edge by (simp add: step_edge_def)
  have nre: "\<not> is_run_event e" using se by (simp add: is_run_event_def is_step_event_def)
  have logr: "history_log v' q = history_log v q @ (if q = r then [e] else [])" for q
    using logs r by (simp add: logs_def)
  have "grows b v'"
    by (rule grows_logs [OF g logs]) (use same steps in auto)
  moreover have "run_history (history_log v' q) q (vw_runs v' q)" for q
  proof -
    have "run_events (history_log v' q) = run_events (history_log v q)"
      using nre by (simp add: run_events_def logr)
    then have "run_history (history_log v' q) q x = run_history (history_log v q) q x" for x
      by (rule run_history_cong)
    then show ?thesis using historyD(2) [OF h, of q] same by simp
  qed
  moreover have "step_history (history_log v' q) q j (vw_steps v' (q, j))" for q j
  proof (cases "(q, j) = (r, i)")
    case True
    have "step_history (history_log v r) r i (Some sr)" using historyD(3) [OF h, of r i] sr by simp
    then have "step_trace (StepPending, 0) (step_events i (history_log v r) @ [e])
        (sr_state sr', sr_revision sr')"
      using edge by (auto simp: step_history_def intro: step_trace_snoc)
    then show ?thesis using True se id r steps
      by (simp add: step_history_def step_events_def logr)
  next
    case False
    then have "step_events j (history_log v' q) = step_events j (history_log v q)"
      using r by (auto simp: step_events_def logr)
    then have "step_history (history_log v' q) q j x = step_history (history_log v q) q j x" for x
      by (rule step_history_cong)
    moreover have "vw_steps v' (q, j) = vw_steps v (q, j)" using False steps by auto
    ultimately show ?thesis using historyD(3) [OF h, of q j] by simp
  qed
  moreover have "references_ok v' q" if "vw_runs v' p = Some q" for p q
  proof -
    have "references_ok v q" using h that same unfolding history_def by simp
    then show ?thesis by (rule references_mono) (use same steps in auto)
  qed
  moreover have "vw_steps v' (q, j) = None" if "vw_runs v' q = None" for q j
  proof -
    have "vw_steps v (q, j) = None" using that h same unfolding history_def by simp
    then show ?thesis using steps sr by auto
  qed
  moreover have "definition_key_of w = k \<and> (\<exists>reg. definition_ok reg w)"
    if "vw_definitions v' k = Some w" for k w
    using historyD(1) [OF h] that same by simp
  ultimately show ?thesis by (simp add: lawful_def history_def)
qed

lemma lawful_run:
  assumes "lawful b v" and "vw_runs v r = Some run"
  shows "wr_run_id run = r"
proof -
  have "run_history (history_log v r) r (Some run)"
    using assms historyD(2) [of v r] by (simp add: lawful_def)
  then show ?thesis by (simp add: run_history_def)
qed

lemma lawful_step:
  assumes "lawful b v" and "vw_steps v (r, i) = Some sr"
  shows "sr_run_id sr = r \<and> sr_step_id sr = i"
proof -
  have "step_history (history_log v r) r i (Some sr)"
    using assms historyD(3) [of v r i] by (simp add: lawful_def)
  then show ?thesis by (simp add: step_history_def)
qed

section \<open>The services keep the law\<close>

text \<open>What a save of a run, or of a step, with its event leaves of the rest of the view.\<close>

definition run_moved :: "view \<Rightarrow> view \<Rightarrow> workflow_run \<Rightarrow> view \<Rightarrow> bool" where
  "run_moved b h run' h' \<longleftrightarrow> lawful b h' \<and> vw_definitions h' = vw_definitions h
     \<and> vw_runs h' = (vw_runs h)(wr_run_id run' \<mapsto> run') \<and> vw_steps h' = vw_steps h
     \<and> vw_attempts h' = vw_attempts h \<and> vw_approvals h' = vw_approvals h"

definition step_moved :: "view \<Rightarrow> view \<Rightarrow> step_run \<Rightarrow> view \<Rightarrow> bool" where
  "step_moved b h sr' h' \<longleftrightarrow> lawful b h' \<and> vw_definitions h' = vw_definitions h
     \<and> vw_runs h' = vw_runs h \<and> vw_steps h' = (vw_steps h)(step_key_of sr' \<mapsto> sr')
     \<and> vw_attempts h' = vw_attempts h \<and> vw_approvals h' = vw_approvals h"

lemma logs_refl [simp]: "logs v v None"
  by (simp add: logs_def)

lemma logs_updates [simp]:
  "logs v (v'\<lparr>vw_definitions := a\<rparr>) x = logs v v' x" "logs v (v'\<lparr>vw_runs := b\<rparr>) x = logs v v' x"
  "logs v (v'\<lparr>vw_steps := c\<rparr>) x = logs v v' x" "logs v (v'\<lparr>vw_attempts := d\<rparr>) x = logs v v' x"
  "logs v (v'\<lparr>vw_approvals := f\<rparr>) x = logs v v' x" "logs v (v'\<lparr>vw_new_runs := g\<rparr>) x = logs v v' x"
  by (simp_all add: logs_def history_log_def)

lemma logs_neutral [simp]:
  assumes "\<not> is_run_event e" and "\<not> is_step_event e" and "logs v v' x"
  shows "logs v (view_event e v') x"
proof -
  have "\<exists>es. vw_log v' r @ (if r = ev_run_id e then [e] else []) = vw_log v r @ es" for r
    using assms(3) unfolding logs_def by (metis append.assoc)
  then show ?thesis using assms by (simp add: logs_def history_log_def)
qed

lemma logs_event [simp]:
  assumes "is_run_event e \<or> is_step_event e" and "logs v v' None"
  shows "logs v (view_event e v') (Some e)"
proof -
  have "\<exists>es. vw_log v' r @ (if r = ev_run_id e then [e] else []) = vw_log v r @ es" for r
    using assms(2) unfolding logs_def by (metis append.assoc)
  then show ?thesis using assms by (auto simp: logs_def history_log_def)
qed

lemma event_kinds [simp]:
  "is_run_event (run_state_changed a c d e f g)" "\<not> is_step_event (run_state_changed a c d e f g)"
  "is_step_event (step_state_changed a i c d e f g)" "\<not> is_run_event (step_state_changed a i c d e f g)"
  "\<not> is_run_event (started_event at' sr)" "\<not> is_step_event (started_event at' sr)"
  "\<not> is_run_event (completed_event a i at' out at2 sr v)"
  "\<not> is_step_event (completed_event a i at' out at2 sr v)"
  by (simp_all add: is_run_event_def is_step_event_def run_state_changed_def step_state_changed_def
      started_event_def completed_event_def tool_attempt_started_def tool_attempt_completed_def
      blank_event_def)

lemma neutral_events [simp]:
  "\<not> is_run_event (decision_event rq run run' d at ac re t)"
  "\<not> is_step_event (decision_event rq run run' d at ac re t)"
  "\<not> is_run_event (created_event r w at)" "\<not> is_step_event (created_event r w at)"
  by (cases d; simp add: is_run_event_def is_step_event_def decision_event_def approval_changed_def
      created_event_def blank_event_def)+

lemma neutral_named [simp]:
  assumes "t \<noteq> ''run.state_changed''" and "t \<noteq> ''step.state_changed''"
  shows "\<not> is_run_event (approval_event r i t at run run' k dg st v)"
    and "\<not> is_step_event (approval_event r i t at run run' k dg st v)"
    and "\<not> is_run_event (recovery_event t sr a at st)"
    and "\<not> is_step_event (recovery_event t sr a at st)"
  using assms
  by (simp_all add: is_run_event_def is_step_event_def approval_event_def recovery_event_def
      approval_changed_def blank_event_def)

lemma lawful_neutral:
  "lawful b v \<Longrightarrow> \<not> is_run_event e \<Longrightarrow> \<not> is_step_event e \<Longrightarrow> lawful b (view_event e v)"
  by (rule lawful_quiet) simp_all

lemma transition_ids:
  "run_transition run t at = Inr (run', e) \<Longrightarrow> same_identity run run' \<and> ev_run_id e = wr_run_id run
     \<and> is_run_event e \<and> \<not> is_step_event e"
  "step_transition sr ts at = Inr (sr', e) \<Longrightarrow> sr_run_id sr' = sr_run_id sr
     \<and> sr_step_id sr' = sr_step_id sr \<and> ev_run_id e = sr_run_id sr
     \<and> ev_step_id e = Some (sr_step_id sr) \<and> is_step_event e \<and> \<not> is_run_event e"
  by (auto simp: run_transition_Inr step_transition_Inr same_identity_def)
    (simp_all add: run_state_changed_def step_state_changed_def blank_event_def)

text \<open>A run is saved, and its event is logged after events that are no history.\<close>

lemma lawful_run_saved:
  assumes l: "lawful b v" and run: "vw_runs v (wr_run_id run) = Some run"
    and t: "run_transition run target at = Inr (run0, e)"
    and same: "wr_state run' = wr_state run0" "wr_revision run' = wr_revision run0"
      "same_identity run0 run'"
    and logs: "logs v v' (Some e)"
    and rest: "vw_definitions v' = vw_definitions v" "vw_steps v' = vw_steps v"
      "vw_runs v' = (vw_runs v)(wr_run_id run' \<mapsto> run')"
  shows "lawful b v'"
proof -
  note ids = transition_ids(1) [OF t]
  have id: "same_identity run run'" using ids same(3) same_identity_trans by blast
  then have "wr_run_id run' = wr_run_id run" by (simp add: same_identity_def)
  then show ?thesis
    using run_move [OF l run _ _ id logs rest(1,2)] run_transition_edge [OF t] same ids rest(3) by simp
qed

lemma lawful_step_saved:
  assumes l: "lawful b v" and sr: "vw_steps v (step_key_of sr) = Some sr"
    and t: "step_transition sr target at = Inr (sr0, e)"
    and same: "sr_state sr' = sr_state sr0" "sr_revision sr' = sr_revision sr0"
      "step_key_of sr' = step_key_of sr"
    and logs: "logs v v' (Some e)"
    and rest: "vw_definitions v' = vw_definitions v" "vw_runs v' = vw_runs v"
      "vw_steps v' = (vw_steps v)(step_key_of sr' \<mapsto> sr')"
  shows "lawful b v'"
proof -
  note ids = transition_ids(2) [OF t]
  show ?thesis
    by (rule step_move [OF l sr [unfolded step_key_of_def] _ _ _ _ _ logs])
      (use step_transition_edge [OF t] same ids rest in \<open>simp_all add: step_key_of_def\<close>)
qed

lemma wpb_save_run:
  assumes "lawful b h" and "vw_runs h (wr_run_id run) = Some run"
    and "run_transition run target at = Inr (run0, e)"
    and "wr_state run' = wr_state run0" "wr_revision run' = wr_revision run0" "same_identity run0 run'"
    and "\<And>h'. run_moved b h run' h' \<Longrightarrow> Q () (Open h')"
  shows "wpb (lawful b) c (save_run run run' e) Q (Open h)"
  unfolding save_run_def
proof (intro wpb_intros assms(7))
  let ?h = "view_event e (h\<lparr>vw_runs := (vw_runs h)(wr_run_id run' \<mapsto> run')\<rparr>)"
  have "lawful b ?h"
    by (rule lawful_run_saved [OF assms(1-6)]) (use transition_ids(1) [OF assms(3)] in simp_all)
  then show "run_moved b h run' ?h" by (simp add: run_moved_def)
qed

section \<open>The parts of the services\<close>

lemma wpb_save_step:
  assumes "lawful b h" and "vw_steps h (step_key_of sr) = Some sr"
    and "step_transition sr target at = Inr (sr', e)"
    and "\<And>h'. step_moved b h sr' h' \<Longrightarrow> Q () (Open h')"
  shows "wpb (lawful b) c (save_step sr sr' e) Q (Open h)"
  unfolding save_step_def
proof (intro wpb_intros assms(4))
  let ?h = "view_event e (h\<lparr>vw_steps := (vw_steps h)(step_key_of sr' \<mapsto> sr')\<rparr>)"
  have "lawful b ?h"
    by (rule lawful_step_saved [OF assms(1-3), of sr' ?h])
      (use transition_ids(2) [OF assms(3)] in \<open>simp_all add: step_key_of_def\<close>)
  then show "step_moved b h sr' ?h" by (simp add: step_moved_def)
qed

lemma wpb_enter_forward:
  assumes "lawful b h" and "vw_runs h (wr_run_id run) = Some run"
    and "\<And>run' h'. run_moved b h run' h' \<Longrightarrow> same_identity run run' \<Longrightarrow> Q () (Open h')"
  shows "wpb (lawful b) c (enter_forward run at) Q (Open h)"
  unfolding enter_forward_def
proof (intro wpb_intros, clarify)
  fix run' e assume t: "run_transition run RunRunning at = Inr (run', e)"
  have "same_identity run run'" using transition_ids(1) [OF t] by simp
  then show "wpb (lawful b) c (save_run run run' e) Q (Open h)"
    by (intro wpb_save_run [OF assms(1,2) t] assms(3) same_identity_refl refl)
qed

lemma wpb_start_step:
  assumes "lawful b h" and "vw_steps h (step_key_of sr) = Some sr"
    and "\<And>sr' h'. step_moved b h sr' h' \<Longrightarrow> step_key_of sr' = step_key_of sr \<Longrightarrow> Q sr' (Open h')"
  shows "wpb (lawful b) c (start_step sr at) Q (Open h)"
  unfolding start_step_def
proof (intro wpb_intros, clarify)
  fix sr' e assume t: "step_transition sr StepRunning at = Inr (sr', e)"
  have "step_key_of sr' = step_key_of sr" using transition_ids(2) [OF t] by (simp add: step_key_of_def)
  then show "wpb (lawful b) c (save_step sr sr' e) (\<lambda>_. wpb (lawful b) c (ret sr') Q) (Open h)"
    by (intro wpb_save_step [OF assms(1,2) t] wpb_intros assms(3))
qed

lemma wpb_promote_step:
  assumes "lawful b h" and "vw_steps h (step_key_of sr) = Some sr"
    and "\<And>sr' h'. step_moved b h sr' h' \<Longrightarrow> step_key_of sr' = step_key_of sr \<Longrightarrow> Q () (Open h')"
  shows "wpb (lawful b) c (promote_step env sr) Q (Open h)"
  unfolding promote_step_def
proof (intro wpb_intros, clarify)
  fix at sr' e assume t: "step_transition sr StepReady at = Inr (sr', e)"
  have "step_key_of sr' = step_key_of sr" using transition_ids(2) [OF t] by (simp add: step_key_of_def)
  then show "wpb (lawful b) c (save_step sr sr' e) Q (Open h)"
    by (intro wpb_save_step [OF assms(1,2) t] assms(3))
qed

lemma wpb_move_step:
  assumes "lawful b h" and "vw_steps h (step_key_of sr) = Some sr"
    and "ph \<noteq> Forward \<Longrightarrow> Q sr (Open h)"
    and "\<And>sr' h'. step_moved b h sr' h' \<Longrightarrow> step_key_of sr' = step_key_of sr \<Longrightarrow> Q sr' (Open h')"
  shows "wpb (lawful b) c (move_step ph sr target at) Q (Open h)"
proof (cases "ph = Forward")
  case False
  then show ?thesis unfolding move_step_def by (simp del: act_simps add: wpb_ret assms(3))
next
  case True
  have "wpb (lawful b) c (bnd (lift_res (step_transition sr target at)) (\<lambda>(changed, event).
           bnd (save_step sr changed event) (\<lambda>_. ret changed))) Q (Open h)"
  proof (intro wpb_intros, clarify)
    fix sr' e assume t: "step_transition sr target at = Inr (sr', e)"
    have "step_key_of sr' = step_key_of sr" using transition_ids(2) [OF t] by (simp add: step_key_of_def)
    then show "wpb (lawful b) c (save_step sr sr' e) (\<lambda>_. wpb (lawful b) c (ret sr') Q) (Open h)"
      by (intro wpb_save_step [OF assms(1,2) t] wpb_intros assms(4))
  qed
  then show ?thesis using True by (simp del: act_simps add: move_step_def)
qed

text \<open>Code that only reads.\<close>

lemma wpb_reader:
  assumes "\<And>p. pres ((=) p) m" and "\<And>x. Q x \<sigma>"
  shows "wpb I c m Q \<sigma>"
proof (rule wpbI)
  fix u s r u' s' assume sc: "in_scope I c u s \<sigma>" and m: "m (u, s) = (r, (u', s'))"
  have "(u, s) = snd (m (u, s))" by (rule presD [OF assms(1)]) simp
  then have "in_scope I c u' s' \<sigma>" using sc m by simp
  then show "store_ok (sy_store s') \<and> I (store_view (sy_store s'))
      \<and> (\<forall>x. r = Inr x \<longrightarrow> (\<exists>\<sigma>'. in_scope I c u' s' \<sigma>' \<and> Q x \<sigma>'))"
    using assms(2) in_scopeD by blast
qed

lemma reader_gets [pres_intros]:
  "pres ((=) p) (on_uow (runs_get r))" "pres ((=) p) (on_uow (steps_get r i))"
  "pres ((=) p) (on_uow (definitions_get d n))" "pres ((=) p) (on_uow (attempts_list r so))"
  "pres ((=) p) (on_uow (approvals_list r))" "pres ((=) p) (on_uow (approvals_get r k))"
  by (cases p; simp add: pres_def on_uow_def runs_get_def steps_get_def definitions_get_def
      attempts_list_def approvals_list_def approvals_get_def)+

lemma readers [pres_intros]:
  "pres ((=) p) (step_state_of r i)" "pres ((=) p) (steps_of r d)" "pres ((=) p) (definition_or_raise run)"
  "pres ((=) p) (approval_recovery_required run)" "pres ((=) p) (all_succeeded r i d)"
  unfolding approval_recovery_required_def all_succeeded_def step_state_of_def steps_of_def
    definition_or_raise_def definition_of_def
  by (intro pres_intros)+

lemma reader_rejection [pres_intros]:
  "pres ((=) p) (rejection_loop r ss has)" "pres ((=) p) (rejection_target run)"
proof -
  have l: "pres ((=) p) (rejection_loop r ss has)" for r ss has
    by (induction ss arbitrary: has) (auto intro!: pres_intros)
  then show "pres ((=) p) (rejection_loop r ss has)" .
  show "pres ((=) p) (rejection_target run)"
    unfolding rejection_target_def by (intro pres_intros l)
qed

lemma wpb_readers [wpb_intros]:
  "(\<And>x. Q x \<sigma>) \<Longrightarrow> wpb I c (approval_recovery_required run) Q \<sigma>"
  "(\<And>x. Q x \<sigma>) \<Longrightarrow> wpb I c (all_succeeded r i d) Q \<sigma>"
  "(\<And>x. Q1 x \<sigma>) \<Longrightarrow> wpb I c (rejection_target run) Q1 \<sigma>"
  by (rule wpb_reader, intro pres_intros, assumption)+

lemma wpb_steps_of [wpb_intros]:
  assumes "Q (map (\<lambda>s. vw_steps h (r, sd_id s)) (wd_steps d)) (Open h)"
  shows "wpb I c (steps_of r d) Q (Open h)"
proof -
  have "wpb I c (map_act (\<lambda>s. on_uow (steps_get r (sd_id s))) ss) Q (Open h)"
    if "Q (map (\<lambda>s. vw_steps h (r, sd_id s)) ss) (Open h)" for ss Q
    using that
  proof (induction ss arbitrary: Q)
    case Nil
    then show ?case unfolding map_act.simps by (intro wpb_intros) simp
  next
    case (Cons s ss)
    show ?case unfolding map_act.simps by (intro wpb_intros Cons.IH) (use Cons.prems in simp)
  qed
  then show ?thesis using assms by (simp add: steps_of_def)
qed

text \<open>A loop: what holds of the rest of the list, the accumulator and the scope at each turn.\<close>

lemma wpb_afold:
  assumes "\<And>x xs acc \<sigma>. J (x # xs) acc \<sigma> \<Longrightarrow> wpb I c (f x acc) (J xs) \<sigma>" and "J xs acc \<sigma>"
    and "\<And>acc \<sigma>. J [] acc \<sigma> \<Longrightarrow> Q acc \<sigma>"
  shows "wpb I c (afold f xs acc) Q \<sigma>"
  using assms(2)
proof (induction xs arbitrary: acc \<sigma>)
  case Nil
  then show ?case unfolding afold.simps by (intro wpb_intros assms(3))
next
  case (Cons x xs)
  show ?case unfolding afold.simps
    by (intro wpb_intros wpb_mono [OF assms(1)] Cons.IH) (use Cons.prems in auto)
qed

lemma lawful_run_current:
  "lawful b v \<Longrightarrow> vw_runs v r = Some run \<Longrightarrow> vw_runs v (wr_run_id run) = Some run"
  using lawful_run by metis

lemma lawful_step_current:
  "lawful b v \<Longrightarrow> vw_steps v (r, i) = Some sr \<Longrightarrow> vw_steps v (step_key_of sr) = Some sr"
  using lawful_step [of b v r i sr] by (simp add: step_key_of_def)

lemma movedD:
  "run_moved b h run' h' \<Longrightarrow> lawful b h' \<and> vw_definitions h' = vw_definitions h
     \<and> vw_runs h' (wr_run_id run') = Some run' \<and> vw_steps h' = vw_steps h"
  "step_moved b h sr' h' \<Longrightarrow> lawful b h' \<and> vw_definitions h' = vw_definitions h
     \<and> vw_runs h' = vw_runs h \<and> vw_steps h' = (vw_steps h)(step_key_of sr' \<mapsto> sr')"
  by (simp_all add: run_moved_def step_moved_def)

declare lawful_neutral [simp]

section \<open>The transactions\<close>

definition kept :: "view \<Rightarrow> 'z sys_scheme \<Rightarrow> bool" where
  "kept b s \<longleftrightarrow> sys_ok s \<and> lawful b (store_view (sy_store s))"

lemma kept_with_uow:
  fixes m :: "('z, 'a) body"
  assumes "\<And>v. lawful b v \<Longrightarrow> wpb (lawful b) v m (\<lambda>_ _. True) (Open v)"
  shows "pres (kept b) (with_uow m)"
proof (rule presI)
  fix s :: "'z sys_scheme" assume k: "kept b s"
  obtain r s' where m: "with_uow m s = (r, s')" by (metis prod.collapse)
  have "sys_ok s" and l: "lawful b (store_view (sy_store s))" using k by (simp_all add: kept_def)
  from wpb_with_uow [OF this assms [OF l] m] show "kept b (snd (with_uow m s))"
    by (simp add: m kept_def)
qed

lemma wpb_commit_lawful:
  "lawful b h \<Longrightarrow> (\<And>v. Q () (Closed v)) \<Longrightarrow> wpb (lawful b) c uow_commit Q (Open h)"
  by (rule wpb_commit) simp_all

lemma kept_started: "pres (kept b) (commit_attempt_started a)"
  unfolding commit_attempt_started_def
proof (rule kept_with_uow)
  fix v assume l: "lawful b v"
  let ?rest = "\<lambda>_::unit. bnd (on_uow (steps_get (sa_run_id a) (sa_step_id a))) (\<lambda>found.
       bnd (need (unknown_step (sa_run_id a) (sa_step_id a)) found) (\<lambda>sr.
       bnd (if sa_phase a = ''forward'' then start_step sr (sa_started_at a) else ret sr) (\<lambda>active.
       bnd (on_uow (attempts_add a)) (\<lambda>_.
       bnd (on_uow (events_append (started_event a active))) (\<lambda>_.
       uow_commit)))))"
  have rest: "wpb (lawful b) v (?rest u) (\<lambda>_ _. True) (Open h)" if "lawful b h" for h u
    by (intro wpb_intros wpb_start_step wpb_commit_lawful)
      (use that lawful_step_current movedD(2) in \<open>auto\<close>)
  show "wpb (lawful b) v (bnd (run_or_raise (sa_run_id a)) (\<lambda>run.
       bnd (if sa_phase a = ''forward'' \<and> wr_state run = RunPending
            then enter_forward run (sa_started_at a)
            else if sa_phase a = ''forward'' \<and> wr_state run \<noteq> RunRunning
            then raise_act (RuntimeError ''run is not in a forward execution state'')
            else if sa_phase a = ''compensation'' \<and> wr_state run \<noteq> RunCompensating
            then raise_act (RuntimeError ''run is not compensating'')
            else ret ()) ?rest)) (\<lambda>_ _. True) (Open v)"
    by (intro wpb_intros wpb_enter_forward rest l) (use l lawful_run_current movedD(1) in auto)
qed

lemma same_identity_errors [simp]:
  "same_identity run (run'\<lparr>wr_original_error := x\<rparr>) = same_identity run run'"
  "same_identity run (run'\<lparr>wr_compensation_error := y\<rparr>) = same_identity run run'"
  by (simp_all add: same_identity_def)

text \<open>A save of a run whose event is the transition to its state, with an error noted or not.\<close>

lemma wpb_run_change:
  assumes "lawful b h" and "vw_runs h (wr_run_id run) = Some run"
    and "\<And>run0. wr_state (f run0) = wr_state run0 \<and> wr_revision (f run0) = wr_revision run0
           \<and> same_identity run0 (f run0)"
    and "\<And>h'. lawful b h' \<Longrightarrow> Q () (Open h')"
  shows "wpb (lawful b) c (bnd (lift_res (run_transition run target at))
           (\<lambda>(run', event). save_run run (f run') event)) Q (Open h)"
proof (intro wpb_intros, clarify)
  fix run' e assume t: "run_transition run target at = Inr (run', e)"
  show "wpb (lawful b) c (save_run run (f run') e) Q (Open h)"
    by (rule wpb_save_run [OF assms(1,2) t]) (use assms(3,4) movedD(1) in \<open>auto\<close>)
qed

lemmas wpb_run_change_same = wpb_run_change [where f = "\<lambda>run. run", simplified]
lemmas wpb_run_change_failed =
  wpb_run_change [where f = "\<lambda>run. run\<lparr>wr_original_error := x\<rparr>" for x, simplified]
lemmas wpb_run_change_manual =
  wpb_run_change [where f = "\<lambda>run. run\<lparr>wr_compensation_error := x\<rparr>" for x, simplified]

lemma wpb_run_after_outcome:
  assumes "lawful b h" and "vw_runs h (wr_run_id run) = Some run"
    and "\<And>h'. lawful b h' \<Longrightarrow> Q () (Open h')"
  shows "wpb (lawful b) c (run_after_outcome run d out st at) Q (Open h)"
  unfolding run_after_outcome_def
  by (intro wpb_intros wpb_run_change_same wpb_run_change_failed assms)

lemma wpb_with_completion:
  assumes "\<And>n. Q (sr\<lparr>sr_completion_sequence := Some n, sr_logical_idempotency_key := Some k\<rparr>) (Open h)"
  shows "wpb I c (with_completion r d k sr) Q (Open h)"
  unfolding with_completion_def by (intro wpb_intros assms)

lemma wpb_persist_compensation:
  assumes "lawful b h" and "vw_runs h (wr_run_id run) = Some run"
    and "\<And>h'. lawful b h' \<Longrightarrow> Q () (Open h')"
  shows "wpb (lawful b) c (persist_compensation_outcome run d sr a out at ps) Q (Open h)"
  unfolding persist_compensation_outcome_def
  by (intro wpb_intros wpb_run_change_same wpb_run_change_manual assms(3)) (use assms in simp_all)

lemma wpb_save_forward:
  assumes l: "lawful b h" and run: "vw_runs h (wr_run_id run) = Some run"
    and sr: "vw_steps h (step_key_of sr) = Some sr" and t: "step_transition sr st at = Inr (sr1, e)"
    and same: "sr_state sr2 = sr_state sr1" "sr_revision sr2 = sr_revision sr1"
      "step_key_of sr2 = step_key_of sr1"
    and Q: "\<And>h'. lawful b h' \<Longrightarrow> Q () (Open h')"
  shows "wpb (lawful b) c (save_forward_outcome run d sr a out at v nx sr2 e) Q (Open h)"
proof -
  have key: "step_key_of sr2 = step_key_of sr"
    using same(3) transition_ids(2) [OF t] by (simp add: step_key_of_def)
  show ?thesis
    unfolding save_forward_outcome_def
    apply (intro wpb_intros wpb_run_after_outcome)
    subgoal
      by (rule lawful_neutral, rule lawful_step_saved [OF l sr t same(1,2) key])
        (use transition_ids(2) [OF t] in simp_all)
    subgoal using run by simp
    subgoal by (rule Q)
    done
qed

lemma wpb_persist_forward:
  assumes "lawful b h" and "vw_runs h (wr_run_id run) = Some run"
    and "vw_steps h (step_key_of sr) = Some sr" and "\<And>h'. lawful b h' \<Longrightarrow> Q () (Open h')"
  shows "wpb (lawful b) c (persist_forward_outcome run d s sr a out at ps) Q (Open h)"
  unfolding persist_forward_outcome_def
  by (intro wpb_intros wpb_with_completion; rule wpb_save_forward [OF assms(1-3)])
    (use assms(4) in \<open>auto simp: step_key_of_def\<close>)

lemma wpb_persist_outcome:
  assumes l: "lawful b h"
  shows "wpb (lawful b) c (persist_outcome_body env out ps) (\<lambda>_ _. True) (Open h)"
  unfolding persist_outcome_body_def
  by (intro wpb_intros wpb_persist_compensation wpb_persist_forward wpb_commit_lawful l)
    (use l lawful_run_current lawful_step_current in auto)

lemma kept_outcome: "pres (kept b) (with_uow (persist_outcome_body env out ps))"
  by (rule kept_with_uow) (rule wpb_persist_outcome)

subsection \<open>Promotion\<close>

lemma kept_quiet [pres_intros]:
  fixes m :: "('z, 'a) service"
  assumes "\<And>st. pres (sys_is st) m"
  shows "pres (kept b) m"
proof (rule presI)
  fix s :: "'z sys_scheme" assume "kept b s"
  moreover have "sy_store (snd (m s)) = sy_store s"
    using presD [OF assms, of "sy_store s" s] by (simp add: sys_is_def)
  ultimately show "kept b (snd (m s))" by (simp add: kept_def sys_ok_def)
qed

lemma kept_clock: "pres (kept b) (clock_now env)" "pres (kept b) (new_identifier env)"
  by (rule kept_quiet, intro pres_intros)+

lemma wpb_live_definition:
  assumes "\<And>k. Q (vw_definitions h k) (Open h)" and "Q None (Open h)"
  shows "wpb I c (live_definition r) Q (Open h)"
  unfolding live_definition_def live_run_def definition_of_def
  by (intro wpb_intros) (use assms in \<open>auto split: option.splits if_splits\<close>)

abbreviation lawful_scope :: "view \<Rightarrow> scope \<Rightarrow> bool" where
  "lawful_scope b \<sigma> \<equiv> \<exists>h. \<sigma> = Open h \<and> lawful b h"

lemma wpb_commit_if:
  "lawful_scope b \<sigma> \<Longrightarrow> wpb (lawful b) c (commit_if x) (\<lambda>_ _. True) \<sigma>"
  unfolding commit_if_def by (auto intro!: wpb_if wpb_commit_lawful wpb_ret simp del: act_simps)

lemma wpb_promote_retry:
  assumes "lawful_scope b \<sigma>"
  shows "wpb (lawful b) c (promote_retry env r now s acc) (\<lambda>_. lawful_scope b) \<sigma>"
proof -
  obtain h where h: "\<sigma> = Open h" "lawful b h" using assms by blast
  show ?thesis
    unfolding promote_retry_def h(1)
    by (intro wpb_intros wpb_promote_step; use h(2) lawful_step_current movedD(2) in blast)
qed

lemma kept_retries: "pres (kept b) (promote_due_retries env r)"
  unfolding promote_due_retries_def
proof (intro pres_bnd kept_clock kept_with_uow)
  fix now v assume l: "lawful b v"
  show "wpb (lawful b) v
     (bnd (live_definition r) (\<lambda>found.
      case found of None \<Rightarrow> ret ()
      | Some w \<Rightarrow> bnd (afold (promote_retry env r now) (wd_steps w) False) commit_if))
     (\<lambda>_ _. True) (Open v)"
    by (intro wpb_intros wpb_live_definition wpb_afold [where J = "\<lambda>_ _. lawful_scope b"]
        wpb_promote_retry wpb_commit_if; (assumption | simp add: l)?)
qed

text \<open>
  The steps that become ready: each one's run in the list that was read is still the current one
  when its turn comes, since the steps before it are other steps.
\<close>

definition still_current :: "string \<Rightarrow> step_run list \<Rightarrow> step_definition list \<Rightarrow> view \<Rightarrow> bool" where
  "still_current r rs ss h \<longleftrightarrow> distinct (map sd_id ss)
     \<and> (\<forall>s \<in> set ss. \<forall>sr. step_run_of rs (sd_id s) = Inr sr \<longrightarrow> vw_steps h (r, sd_id s) = Some sr)"

lemma wpb_promote_pending:
  assumes l: "lawful b h" and cur: "still_current r rs (s # ss) h"
  shows "wpb (lawful b) c (promote_pending env rs s acc)
           (\<lambda>_ \<sigma>. \<exists>h. \<sigma> = Open h \<and> lawful b h \<and> still_current r rs ss h) (Open h)"
proof -
  have rest: "still_current r rs ss h" using cur by (simp add: still_current_def)
  have sr: "vw_steps h (step_key_of sr) = Some sr" "step_key_of sr = (r, sd_id s)"
    if "step_run_of rs (sd_id s) = Inr sr" for sr
  proof -
    have "vw_steps h (r, sd_id s) = Some sr" using cur that by (simp add: still_current_def)
    then show "vw_steps h (step_key_of sr) = Some sr" "step_key_of sr = (r, sd_id s)"
      using lawful_step [OF l] by (auto simp: step_key_of_def)
  qed
  have moved: "lawful b h' \<and> still_current r rs ss h'"
    if "step_moved b h sr' h'" and "step_key_of sr' = (r, sd_id s)" for sr' h'
  proof -
    have "sd_id x \<noteq> sd_id s" if "x \<in> set ss" for x
      using cur imageI [OF that, of sd_id] by (auto simp: still_current_def)
    then show ?thesis using movedD(2) [OF that(1)] that(2) rest by (auto simp: still_current_def)
  qed
  show ?thesis
    unfolding promote_pending_def
    by (intro wpb_intros wpb_promote_step; use l rest sr moved in fastforce)
qed

lemma ready_steps_distinct:
  assumes "graph_ok (wd_steps w)" and "ready_steps w rs = Inr ready"
  shows "distinct (map sd_id ready)"
proof -
  obtain u where "check_step_runs w rs = Inr u"
    using assms(2) unfolding ready_steps_def by blast
  then obtain ds where "ready = sort_key (depth_key ds) (filter (may_start rs) (wd_steps w))"
    using ready_steps_Inr [OF assms(1)] assms(2) by force
  then show ?thesis
    using graph_okD(1) [OF assms(1)] by (simp add: distinct_map inj_on_def)
qed

lemma still_current_read:
  assumes l: "lawful b h" and d: "vw_definitions h k = Some w"
    and ready: "ready_steps w rs = Inr ready"
    and rs: "rs = present (map (\<lambda>s. vw_steps h (r, sd_id s)) (wd_steps w))"
  shows "still_current r rs ready h"
proof -
  obtain reg where "definition_ok reg w" using historyD(1) [of h k w] l d by (auto simp: lawful_def)
  then have g: "graph_ok (wd_steps w)" by (rule definition_graph_ok)
  have "vw_steps h (r, sd_id s) = Some sr" if "step_run_of rs (sd_id s) = Inr sr"
    for s :: step_definition and sr
  proof -
    have "sr \<in> set rs" and i: "sr_step_id sr = sd_id s"
      using that by (auto simp: step_run_of_def dest: find_Some_iff_first)
    then have "\<exists>x :: step_definition. vw_steps h (r, sd_id x) = Some sr"
      unfolding rs present_def by (auto simp: List.map_filter_def)
    then show ?thesis using lawful_step [OF l] i by force
  qed
  then show ?thesis using ready_steps_distinct [OF g ready] by (simp add: still_current_def)
qed

lemma kept_ready: "pres (kept b) (promote_dependency_ready_steps env r)"
  unfolding promote_dependency_ready_steps_def
proof (rule kept_with_uow)
  fix v assume l: "lawful b v"
  let ?J = "\<lambda>rs ss (_::bool) \<sigma>. \<exists>h. \<sigma> = Open h \<and> lawful b h \<and> still_current r rs ss h"
  have loop: "wpb (lawful b) v (promote_ready env rs ready) (\<lambda>_ _. True) (Open v)"
    if "still_current r rs ready v" for rs ready
    unfolding promote_ready_def
  proof (intro wpb_intros, rule wpb_afold [where J = "?J rs"])
    show "?J rs ready False (Open v)" using that l by blast
  next
    fix x xs acc \<sigma> assume "?J rs (x # xs) acc \<sigma>"
    then show "wpb (lawful b) v (promote_pending env rs x acc) (?J rs xs) \<sigma>"
      using wpb_promote_pending by blast
  next
    fix acc \<sigma> assume "?J rs [] acc \<sigma>"
    then show "wpb (lawful b) v (commit_if acc) (\<lambda>_ _. True) \<sigma>" using wpb_commit_if by blast
  qed
  show "wpb (lawful b) v
     (bnd (live_definition r) (\<lambda>found.
       case found of None \<Rightarrow> ret ()
       | Some w \<Rightarrow>
         bnd (steps_of r w) (\<lambda>rs.
         bnd (lift_res (ready_steps w (present rs))) (\<lambda>ready.
         promote_ready env (present rs) ready))))
     (\<lambda>_ _. True) (Open v)"
    by (intro wpb_intros wpb_live_definition TrueI)
      ((rule loop, erule still_current_read [OF l], assumption, rule refl) | simp)+
qed

subsection \<open>The approval barrier\<close>

lemma reader_recovery_work [pres_intros]: "pres ((=) p) (uow_has_persisted_recovery_work run d)"
  unfolding uow_has_persisted_recovery_work_def
  by (intro pres_intros) (auto simp: pres_def on_service_def split: prod.splits)

lemma reader_first_match: "pres ((=) p) (first_act (\<lambda>a. lift_res (f a)) xs)"
  by (intro pres_intros)

lemma lawful_approvals_event:
  "lawful b h \<Longrightarrow> \<not> is_run_event e \<Longrightarrow> \<not> is_step_event e \<Longrightarrow>
   lawful b (view_event e (h\<lparr>vw_approvals := x\<rparr>))"
  by simp

lemma wpb_review:
  assumes "lawful b h" and "vw_runs h r0 = Some run0"
  shows "wpb (lawful b) c (review_approval r run w s dg at a pending)
      (\<lambda>_ \<sigma>. \<exists>h. \<sigma> = Open h \<and> lawful b h \<and> vw_runs h r0 = Some run0) (Open h)"
  unfolding review_approval_def
  by (intro wpb_intros; (cases a; simp del: act_simps; intro wpb_intros)?) (use assms in simp_all)

lemma wpb_enter_waiting:
  assumes "lawful b h" and "vw_runs h (wr_run_id run) = Some run"
    and "\<And>run' h'. lawful b h' \<Longrightarrow> Q run' (Open h')"
  shows "wpb (lawful b) c (enter_waiting run at) Q (Open h)"
proof -
  have change: "wpb (lawful b) c (bnd (save_run run run' e) (\<lambda>_. ret run')) Q (Open h)"
    if t: "run_transition run RunWaitingApproval at = Inr (run', e)" for run' e
    by (intro wpb_bnd wpb_ret wpb_save_run [OF assms(1,2) t] assms(3)) (auto dest: movedD(1))
  show ?thesis
    unfolding enter_waiting_def
    by (intro wpb_if wpb_ret assms(1,3) wpb_bnd [OF wpb_lift_res] wpb_case_prod) (simp add: change)
qed

lemma wpb_create_request:
  assumes "lawful b h" and "\<And>h'. lawful b h' \<Longrightarrow> Q () (Open h')"
  shows "wpb (lawful b) c (create_request env r run run' w s sn at) Q (Open h)"
  unfolding create_request_def by (intro wpb_intros assms(2)) (use assms(1) in simp_all)

lemma wpb_open_barrier:
  assumes "lawful b h" and "vw_runs h (wr_run_id run) = Some run"
  shows "wpb (lawful b) c (open_barrier env r run d s sn approvals at) (\<lambda>_ _. True) (Open h)"
  unfolding open_barrier_def
proof (rule wpb_bnd, rule wpb_afold [where
    J = "\<lambda>_ _ \<sigma>. \<exists>h. \<sigma> = Open h \<and> lawful b h \<and> vw_runs h (wr_run_id run) = Some run"])
  fix x xs acc \<sigma> assume "\<exists>h. \<sigma> = Open h \<and> lawful b h \<and> vw_runs h (wr_run_id run) = Some run"
  then show "wpb (lawful b) c (review_approval r run d s (fst (snd sn)) at x acc)
      (\<lambda>_ \<sigma>. \<exists>h. \<sigma> = Open h \<and> lawful b h \<and> vw_runs h (wr_run_id run) = Some run) \<sigma>"
    using wpb_review by blast
next
  fix acc \<sigma> assume "\<exists>h. \<sigma> = Open h \<and> lawful b h \<and> vw_runs h (wr_run_id run) = Some run"
  then obtain h1 where "\<sigma> = Open h1" and "lawful b h1" and "vw_runs h1 (wr_run_id run) = Some run"
    by blast
  then show "wpb (lawful b) c
     (bnd (enter_waiting run at) (\<lambda>changed.
     bnd (if acc = None then create_request env r run changed d s sn at else ret ()) (\<lambda>_.
     bnd uow_commit (\<lambda>_. ret (Some ''approval_pending''))))) (\<lambda>_ _. True) \<sigma>"
    by (simp only:) (intro wpb_bnd wpb_enter_waiting wpb_create_request wpb_if wpb_ret
        wpb_commit_lawful TrueI; assumption)
qed (use assms in blast)

lemma kept_barrier: "pres (kept b) (with_uow (establish_body w r s at))"
proof (rule kept_with_uow)
  fix v assume l: "lawful b v"
  show "wpb (lawful b) v (establish_body w r s at) (\<lambda>_ _. True) (Open v)"
    unfolding establish_body_def
    by (intro wpb_intros wpb_reader [OF reader_recovery_work] wpb_reader [OF reader_first_match]
        wpb_open_barrier l TrueI) (use l lawful_run_current in blast)
qed

subsection \<open>Ends of runs and decisions\<close>

lemma wpb_run_change_commit:
  assumes "lawful b h" and "vw_runs h r = Some run"
  shows "wpb (lawful b) c (bnd (lift_res (run_transition run target at))
           (\<lambda>(run', event). bnd (save_run run run' event) (\<lambda>_. uow_commit))) (\<lambda>_ _. True) (Open h)"
proof (intro wpb_bnd wpb_lift_res wpb_case_prod, clarify)
  fix run' e assume t: "run_transition run target at = Inr (run', e)"
  show "wpb (lawful b) c (save_run run run' e) (\<lambda>_. wpb (lawful b) c uow_commit (\<lambda>_ _. True)) (Open h)"
    by (intro wpb_save_run [OF assms(1) lawful_run_current [OF assms] t] wpb_commit_lawful)
      (auto dest: movedD(1))
qed

lemma kept_compensated: "pres (kept b) (finish_compensation env r)"
  unfolding finish_compensation_def
  by (rule kept_with_uow) (intro wpb_case_option wpb_if wpb_ret wpb_bnd wpb_reads wpb_clock
      wpb_run_change_commit TrueI; assumption)

lemma kept_cancel: "pres (kept b) (cancel_run env r)"
  unfolding cancel_run_def
  by (rule kept_with_uow) (intro wpb_bnd wpb_getters wpb_clock wpb_run_change_commit; assumption)

lemma wpb_case_approval [wpb_intros]:
  "(\<And>r. a = Request r \<Longrightarrow> wpb I c (f r) Q \<sigma>) \<Longrightarrow> (\<And>l. a = Legacy l \<Longrightarrow> wpb I c (g l) Q \<sigma>) \<Longrightarrow>
   wpb I c (case a of Request r \<Rightarrow> f r | Legacy l \<Rightarrow> g l) Q \<sigma>"
  by (cases a) auto

lemma wpb_case_decision [wpb_intros]:
  "(d = DecApproved \<Longrightarrow> wpb I c m Q \<sigma>) \<Longrightarrow> (d = DecRejected \<Longrightarrow> wpb I c m' Q \<sigma>) \<Longrightarrow>
   wpb I c (case d of DecApproved \<Rightarrow> m | DecRejected \<Rightarrow> m') Q \<sigma>"
  by (cases d) auto

lemma wpb_checked_request:
  assumes "\<And>rq run. vw_approvals h (r, k) = Some (Request rq) \<Longrightarrow>
      vw_runs h (ar_run_id rq) = Some run \<Longrightarrow> ar_version rq = n \<Longrightarrow> ar_status rq = AprPending \<Longrightarrow>
      ar_binding_digest rq = dg \<Longrightarrow> wr_state run = RunWaitingApproval \<Longrightarrow> Q (rq, run) (Open h)"
  shows "wpb I c (checked_request r k n dg) Q (Open h)"
  unfolding checked_request_def by (intro wpb_intros) (use assms in simp_all)

lemma wpb_apply_decision:
  assumes l: "lawful b h" and run: "vw_runs h (wr_run_id run) = Some run"
  shows "wpb (lawful b) c (apply_decision rq run d ac re at) (\<lambda>_ _. True) (Open h)"
proof -
  have saved: "lawful b (view_event e (view_event n
      (h\<lparr>vw_approvals := k, vw_runs := (vw_runs h)(wr_run_id run' \<mapsto> run')\<rparr>)))"
    if "run_transition run target at = Inr (run', e)" "\<not> is_run_event n" "\<not> is_step_event n"
    for target run' e n k
    by (rule lawful_run_saved [OF l run that(1) refl refl same_identity_refl])
      (use that(2,3) transition_ids(1) [OF that(1)] in simp_all)
  show ?thesis
    unfolding apply_decision_def
    by (intro wpb_bnd wpb_case_decision wpb_ret wpb_readers wpb_lift_res wpb_case_prod wpb_writes
        wpb_events_append wpb_commit_lawful TrueI) (simp_all add: saved)
qed

lemma kept_decide: "pres (kept b) (decide env r k d n dg actor reason)"
  unfolding decide_def
  by (intro pres_bnd pres_need pres_lift_res kept_clock kept_with_uow wpb_bnd wpb_checked_request
      wpb_case_prod wpb_apply_decision) (use lawful_run_current in auto)

subsection \<open>Creation of runs\<close>

lemma wpb_iter_act:
  assumes "\<And>x \<sigma>. x \<in> set xs \<Longrightarrow> J \<sigma> \<Longrightarrow> wpb I c (f x) (\<lambda>_. J) \<sigma>" and "J \<sigma>" and "\<And>\<sigma>. J \<sigma> \<Longrightarrow> Q () \<sigma>"
  shows "wpb I c (iter_act f xs) Q \<sigma>"
  unfolding iter_act_def
  by (rule wpb_afold [where J = "\<lambda>ys _ \<sigma>. set ys \<subseteq> set xs \<and> J \<sigma>"]) (use assms in \<open>auto intro: wpb_mono\<close>)

text \<open>
  A definition that is already stored under the same id, version and digest is the one whose
  steps are created: SHA-256 does not collide on the two.
\<close>

definition no_collision :: "view \<Rightarrow> workflow_definition \<Rightarrow> bool" where
  "no_collision v w \<longleftrightarrow>
     (\<forall>d. vw_definitions v (definition_key_of w) = Some d \<longrightarrow> wd_digest d = wd_digest w \<longrightarrow>
        sd_id ` set (wd_steps d) = sd_id ` set (wd_steps w))"

lemma lawful_created:
  assumes l: "lawful b v" and new: "vw_runs v r = None" and ok: "definition_ok reg w"
    and logs: "logs v v' None"
    and defs: "vw_definitions v' = (vw_definitions v)(definition_key_of w \<mapsto> d)"
      "vw_definitions v (definition_key_of w) = None \<and> d = w
       \<or> vw_definitions v (definition_key_of w) = Some d"
      "wd_digest d = wd_digest w" "sd_id ` set (wd_steps d) = sd_id ` set (wd_steps w)"
    and runs: "vw_runs v' = (vw_runs v)(r \<mapsto> new_run r (wd_definition_id w) (wd_version w) (wd_digest w))"
    and steps: "\<And>k. vw_steps v' k =
        (if fst k = r \<and> snd k \<in> sd_id ` set (wd_steps w) then Some (new_step r (snd k)) else vw_steps v k)"
  shows "lawful b v'"
proof -
  have h: "history v" and g: "grows b v" using l by (simp_all add: lawful_def)
  have log: "history_log v' q = history_log v q" for q using logs by (simp add: logs_def)
  have nosteps: "vw_steps v (r, i) = None" for i by (rule historyD(5) [OF h new])
  have "grows b v'"
    unfolding grows_def
  proof (intro conjI allI impI)
    fix k x assume "vw_definitions b k = Some x"
    then have "vw_definitions v k = Some x" using g unfolding grows_def by blast
    then show "vw_definitions v' k = Some x" using defs(1,2) by auto
  next
    fix q run assume "vw_runs b q = Some run"
    then obtain run' where q: "vw_runs v q = Some run'" "same_identity run run'"
      using g unfolding grows_def by blast
    then have "q \<noteq> r" using new by auto
    then show "\<exists>run'. vw_runs v' q = Some run' \<and> same_identity run run'" using q runs by simp
  next
    fix k assume "vw_steps b k \<noteq> None"
    then have "vw_steps v k \<noteq> None" using g unfolding grows_def by blast
    then show "vw_steps v' k \<noteq> None" by (simp add: steps)
  next
    fix q
    obtain es fs where "vw_log v q = vw_log b q @ es" and "vw_log v' q = vw_log v q @ fs"
      using g logs unfolding grows_def logs_def by blast
    then show "\<exists>es. vw_log v' q = vw_log b q @ es" by simp
  qed
  moreover have "definition_key_of x = k \<and> (\<exists>reg. definition_ok reg x)"
    if "vw_definitions v' k = Some x" for k x
  proof (cases "k = definition_key_of w")
    case True
    then have "x = d" using that defs(1) by simp
    then show ?thesis using True defs(2) ok historyD(1) [OF h, of "definition_key_of w" d] by auto
  next
    case False
    then show ?thesis using that defs(1) historyD(1) [OF h, of k x] by simp
  qed
  moreover have "run_history (history_log v' q) q (vw_runs v' q)" for q
    using historyD(2) [OF h, of q] new runs
    by (auto simp: log run_history_def new_run_def split: if_splits)
  moreover have "step_history (history_log v' q) q i (vw_steps v' (q, i))" for q i
    using historyD(3) [OF h, of q i] nosteps [of i]
    by (auto simp: log steps step_history_def new_step_def)
  moreover have "references_ok v' run" if "vw_runs v' q = Some run" for q run
  proof (cases "q = r")
    case True
    then have run: "run = new_run r (wd_definition_id w) (wd_version w) (wd_digest w)"
      using that runs by simp
    have "vw_steps v' (r, sd_id s) \<noteq> None" if "s \<in> set (wd_steps d)" for s
      using that defs(4) by (auto simp: steps)
    then show ?thesis
      unfolding references_ok_def run
      by (intro exI [of _ d]) (use defs(1,3) in \<open>simp add: new_run_def definition_key_of_def\<close>)
  next
    case False
    then have "references_ok v run" using that runs historyD(4) [OF h] by simp
    then show ?thesis
      by (rule references_mono) (use defs(1,2) in \<open>auto simp: steps\<close>)
  qed
  moreover have "vw_steps v' (q, i) = None" if "vw_runs v' q = None" for q i
    using that runs historyD(5) [OF h, of q i] by (auto simp: steps split: if_splits)
  ultimately show ?thesis by (simp add: lawful_def history_def)
qed

lemma wpb_create_steps:
  assumes "Q () (Open (h\<lparr>vw_steps := (\<lambda>k. if fst k = r \<and> snd k \<in> sd_id ` set ss
            then Some (new_step r (snd k)) else vw_steps h k)\<rparr>))"
  shows "wpb I c (iter_act (\<lambda>s. on_uow (steps_add (new_step r (sd_id s)))) ss) Q (Open h)"
proof -
  have "wpb I c (afold (\<lambda>s _. on_uow (steps_add (new_step r (sd_id s)))) ss u) Q (Open h)"
    if "Q () (Open (h\<lparr>vw_steps := (\<lambda>k. if fst k = r \<and> snd k \<in> sd_id ` set ss
            then Some (new_step r (snd k)) else vw_steps h k)\<rparr>))" for u h
    using that
  proof (induction ss arbitrary: h u)
    case Nil
    then show ?case unfolding afold.simps by (intro wpb_ret) simp
  next
    case (Cons s ss)
    let ?h = "h\<lparr>vw_steps := (vw_steps h)(step_key_of (new_step r (sd_id s)) \<mapsto> new_step r (sd_id s))\<rparr>"
    have "?h\<lparr>vw_steps := (\<lambda>k. if fst k = r \<and> snd k \<in> sd_id ` set ss
            then Some (new_step r (snd k)) else vw_steps ?h k)\<rparr>
        = h\<lparr>vw_steps := (\<lambda>k. if fst k = r \<and> snd k \<in> sd_id ` set (s # ss)
            then Some (new_step r (snd k)) else vw_steps h k)\<rparr>"
      by (rule view.equality) (auto simp: step_key_of_def new_step_def fun_eq_iff)
    with Cons.prems show ?case
      unfolding afold.simps by (intro wpb_bnd wpb_writes Cons.IH) simp
  qed
  then show ?thesis using assms by (simp add: iter_act_def)
qed

text \<open>The view with a new run in it.\<close>

definition with_new_run :: "string \<Rightarrow> workflow_definition \<Rightarrow> audit_event \<Rightarrow> view \<Rightarrow> view" where
  "with_new_run r w e v = view_event e (v
     \<lparr>vw_definitions := (case vw_definitions v (definition_key_of w) of
         None \<Rightarrow> (vw_definitions v)(definition_key_of w \<mapsto> w) | Some _ \<Rightarrow> vw_definitions v),
      vw_runs := (vw_runs v)(r \<mapsto> new_run r (wd_definition_id w) (wd_version w) (wd_digest w)),
      vw_new_runs := insert r (vw_new_runs v),
      vw_steps := (\<lambda>k. if fst k = r \<and> snd k \<in> sd_id ` set (wd_steps w)
            then Some (new_step r (snd k)) else vw_steps v k)\<rparr>)"

lemma wpb_stage_run:
  assumes "\<And>d. vw_definitions v (definition_key_of w) = Some d \<Longrightarrow> wd_digest d \<noteq> wd_digest w \<or>
      Q () (Open (with_new_run r w e v))"
    and "vw_definitions v (definition_key_of w) = None \<Longrightarrow> Q () (Open (with_new_run r w e v))"
  shows "wpb I c (stage_run r w e) Q (Open v)"
proof -
  have key: "definition_key_of w = (wd_definition_id w, wd_version w)" by (simp add: definition_key_of_def)
  have rid: "wr_run_id (new_run r (wd_definition_id w) (wd_version w) (wd_digest w)) = r"
    by (simp add: new_run_def)
  show ?thesis
    unfolding stage_run_def
    by (intro wpb_bnd wpb_reads wpb_case_option wpb_writes wpb_lift_res wpb_create_steps
        wpb_events_append wpb_ret)
      (use assms key rid in \<open>auto simp: with_new_run_def cong: if_cong\<close>)
qed

lemma lawful_new_run:
  assumes l: "lawful b v" and ok: "definition_ok reg w" and nc: "no_collision v w"
    and e: "\<not> is_run_event e" "\<not> is_step_event e" and new: "vw_runs v r = None"
    and d: "\<And>d. vw_definitions v (definition_key_of w) = Some d \<Longrightarrow> wd_digest d = wd_digest w"
  shows "lawful b (with_new_run r w e v)"
proof (cases "vw_definitions v (definition_key_of w)")
  case None
  show ?thesis unfolding with_new_run_def
    by (rule lawful_created [OF l new ok, where d = w]) (use None e in simp_all)
next
  case (Some d)
  show ?thesis unfolding with_new_run_def
    by (rule lawful_created [OF l new ok, where d = d])
      (use Some assms(7) e nc in \<open>auto simp: no_collision_def\<close>)
qed

lemma wpb_store_run:
  assumes l: "lawful b v" and ok: "definition_ok reg w" and nc: "no_collision v w"
    and e: "\<not> is_run_event e" "\<not> is_step_event e"
  shows "wpb (lawful b) v (store_run r w e) (\<lambda>_ _. True) (Open v)"
  unfolding store_run_def
proof (intro wpb_bnd wpb_stage_run)
  have c: "wpb (lawful b) v uow_commit (\<lambda>_ _. True) (Open (with_new_run r w e v))"
    if "\<And>d. vw_definitions v (definition_key_of w) = Some d \<Longrightarrow> wd_digest d = wd_digest w"
  proof (rule wpb_commit)
    assume "\<forall>q \<in> vw_new_runs (with_new_run r w e v). vw_runs v q = None"
    then have "vw_runs v r = None" by (simp add: with_new_run_def)
    then show "lawful b ((with_new_run r w e v)\<lparr>vw_new_runs := {}\<rparr>)"
      using lawful_new_run [OF l ok nc e _ that] by simp
  qed simp
  show "wd_digest d \<noteq> wd_digest w \<or>
      wpb (lawful b) v uow_commit (\<lambda>_ _. True) (Open (with_new_run r w e v))"
    if "vw_definitions v (definition_key_of w) = Some d" for d
    using c that by auto
  show "wpb (lawful b) v uow_commit (\<lambda>_ _. True) (Open (with_new_run r w e v))"
    if "vw_definitions v (definition_key_of w) = None"
    using c that by auto
qed

lemma kept_create:
  fixes s :: "'z sys_scheme"
  assumes k: "kept b s" and nc: "\<And>w. from_mapping payload reg = Inr w \<Longrightarrow>
      no_collision (store_view (sy_store s)) w"
  shows "kept b (snd (create_run env reg payload s))"
proof (cases "from_mapping payload reg")
  case (Inl e)
  then show ?thesis using k by (simp add: create_run_def bnd_def)
next
  case (Inr w)
  obtain r s1 where i: "new_identifier env s = (Inr r, s1)"
    by (simp add: new_identifier_def tick_def)
  obtain at s2 where t: "clock_now env s1 = (Inr at, s2)"
    by (simp add: clock_now_def tick_def)
  have st: "sy_store s2 = sy_store s"
    using i t by (auto simp: new_identifier_def clock_now_def tick_def)
  let ?v = "store_view (sy_store s2)"
  have k2: "sys_ok s2" "lawful b ?v" using k st by (simp_all add: kept_def sys_ok_def)
  obtain x s3 where m: "with_uow (store_run r w (created_event r w at)) s2 = (x, s3)"
    by (metis prod.collapse)
  have "wpb (lawful b) ?v (store_run r w (created_event r w at)) (\<lambda>_ _. True) (Open ?v)"
    by (rule wpb_store_run [OF k2(2) from_mapping_ok_aux [OF Inr]])
      (use nc [OF Inr] st in \<open>simp_all add: store_view_def\<close>)
  note w = wpb_with_uow [OF k2(1), of "lawful b", OF k2(2) this m]
  have "snd (create_run env reg payload s) = s3"
    using m i t Inr by (simp add: create_run_def bnd_def split: sum.splits)
  then show ?thesis using w(1,2) by (simp add: kept_def)
qed

subsection \<open>Recovery\<close>

lemma wpb_probe [wpb_intros]: "(\<And>x. Q x \<sigma>) \<Longrightarrow> wpb I c (on_service (probe w s a)) Q \<sigma>"
  by (rule wpb_on_service, intro pres_intros, assumption)

lemma wpb_run_after_applied:
  assumes "\<And>x. (\<And>run' e. x = Some (run', e) \<Longrightarrow> \<exists>t. run_transition run t at = Inr (run', e)) \<Longrightarrow> Q x (Open h)"
  shows "wpb I c (run_after_applied run d sr at ph) Q (Open h)"
  unfolding run_after_applied_def
  by (intro wpb_intros assms) (auto simp: sbind_Inr_iff)

lemma wpb_finish_applied:
  assumes l: "lawful b h" and run: "vw_runs h (wr_run_id run) = Some run"
    and Q: "\<And>h'. lawful b h' \<Longrightarrow> Q () (Open h')"
  shows "wpb (lawful b) c (finish_applied run d sr a at ph) Q (Open h)"
  unfolding finish_applied_def
  apply (intro wpb_bnd wpb_run_after_applied wpb_case_option wpb_case_prod wpb_ret wpb_events_append Q)
  subgoal using l by simp
  subgoal premises p for x y run' e
  proof -
    obtain t where "run_transition run t at = Inr (run', e)" using p by blast
    then show ?thesis
      by (intro wpb_save_run [OF l run] wpb_bnd wpb_events_append wpb_ret Q)
        (auto dest: movedD(1))
  qed
  done

lemma wpb_persist_applied:
  assumes "lawful b h" and "vw_runs h (wr_run_id run) = Some run"
    and "vw_steps h (step_key_of sr) = Some sr" and "\<And>h'. lawful b h' \<Longrightarrow> Q () (Open h')"
  shows "wpb (lawful b) c (persist_applied w run d sr a out at) Q (Open h)"
  unfolding persist_applied_def
  by (intro wpb_bnd wpb_lift_res wpb_first_of wpb_need wpb_writes wpb_move_step wpb_finish_applied assms(4))
    (use assms(1,2,3) in \<open>auto dest!: movedD(2)\<close>)

lemma wpb_persist_not_applied:
  assumes "lawful b h" and "vw_steps h (step_key_of sr) = Some sr"
    and "\<And>h'. lawful b h' \<Longrightarrow> Q () (Open h')"
  shows "wpb (lawful b) c (persist_not_applied sr a at) Q (Open h)"
  unfolding persist_not_applied_def
  by (intro wpb_bnd wpb_ret wpb_lift_res wpb_writes wpb_move_step wpb_events_append assms(3))
    (use assms(1,2) in \<open>auto dest!: movedD(2)\<close>)

lemma wpb_save_manual:
  assumes l: "lawful b h" and run: "vw_runs h (wr_run_id run) = Some run"
    and Q: "\<And>h'. lawful b h' \<Longrightarrow> Q () (Open h')"
  shows "wpb (lawful b) c (save_manual run sr a at ph) Q (Open h)"
  unfolding save_manual_def
  apply (intro wpb_bnd wpb_ret wpb_lift_res wpb_case_prod wpb_writes wpb_events_append Q)
  apply clarify
  apply (rule lawful_neutral, rule lawful_run_saved [OF l run], assumption)
         apply (auto dest: transition_ids(1))
  done

lemma wpb_persist_manual:
  assumes "lawful b h" and "vw_runs h (wr_run_id run) = Some run"
    and "vw_steps h (step_key_of sr) = Some sr" and "\<And>h'. lawful b h' \<Longrightarrow> Q () (Open h')"
  shows "wpb (lawful b) c (persist_manual_intervention run sr a at) Q (Open h)"
  unfolding persist_manual_intervention_def
  by (intro wpb_bnd wpb_lift_res wpb_move_step wpb_save_manual assms(4))
    (use assms(1,2,3) in \<open>auto dest!: movedD(2)\<close>)

lemma wpb_case_status:
  "wpb I c m Q \<sigma> \<Longrightarrow> wpb I c m' Q \<sigma> \<Longrightarrow> wpb I c m'' Q \<sigma> \<Longrightarrow>
   wpb I c (case s of Found \<Rightarrow> m | NotFound \<Rightarrow> m' | Inconclusive \<Rightarrow> m'') Q \<sigma>"
  by (cases s) auto

lemma kept_recover_attempt: "pres (kept b) (recover_attempt w r i a)"
  unfolding recover_attempt_def settle_def
  by (rule kept_with_uow)
    (intro wpb_intros wpb_case_status wpb_persist_applied wpb_persist_not_applied wpb_persist_manual
      wpb_commit_lawful TrueI; use lawful_run_current lawful_step_current in blast)

interpretation kept: store_law "kept b :: coordinator \<Rightarrow> bool" for b
  by unfold_locales
    (simp add: kept_def sys_ok_def, rule kept_started, rule kept_outcome, rule kept_retries,
     rule kept_ready, rule kept_barrier, rule kept_compensated)

interpretation recovery_kept: recovery_law "kept b :: 'z sys_scheme \<Rightarrow> bool" for b
  by unfold_locales (simp add: kept_def sys_ok_def, rule kept_recover_attempt)

end
