(* ===== verification/Creation.thy ===== *)
theory Creation
  imports History
begin

text \<open>
  What \<open>create_run\<close> and \<open>get_run\<close> do when nothing is in the way: the creation succeeds, it adds
  exactly the definition, the run, its steps and one event, and the run that is then read back is
  pending with every step pending.
\<close>

section \<open>The creation succeeds\<close>

text \<open>A unit of work that has only added, and only records of one run.\<close>

definition adds_only :: "definition_key set \<Rightarrow> string \<Rightarrow> uow \<Rightarrow> bool" where
  "adds_only ds r u \<longleftrightarrow> \<not> uw_committed u \<and> \<not> uw_rolled_back u
     \<and> set (sn_new_definition_keys u) \<subseteq> ds \<and> set (sn_new_run_keys u) \<subseteq> {r}
     \<and> set (sn_new_step_keys u) \<subseteq> {r} \<times> UNIV
     \<and> sn_new_attempt_keys u = [] \<and> sn_new_approval_keys u = []
     \<and> sn_dirty_approval_keys u = [] \<and> sn_run_expected_revisions u = []
     \<and> sn_step_expected_revisions u = [] \<and> sn_approval_expected_versions u = []"

lemma adds_only_begin: "adds_only ds r (begin_uow st)"
  by (simp add: adds_only_def begin_uow_def)

lemma adds_only_writable: "adds_only ds r u \<Longrightarrow> ensure_writable u = (Inr (), u)"
  by (simp add: adds_only_def ensure_writable_def)

lemma adds_only_ops:
  assumes "adds_only ds r u"
  shows "definition_key_of w \<in> ds \<Longrightarrow> \<exists>u'. definitions_add w u = (Inr (), u') \<and> adds_only ds r u'"
    and "wr_run_id run = r \<Longrightarrow> \<exists>u'. runs_add run u = (Inr (), u') \<and> adds_only ds r u'"
    and "sr_run_id sr = r \<Longrightarrow> \<exists>u'. steps_add sr u = (Inr (), u') \<and> adds_only ds r u'"
    and "\<exists>x u'. events_append e u = (Inr x, u') \<and> adds_only ds r u'"
  using assms adds_only_writable [OF assms]
  by (auto simp: definitions_add_def runs_add_def steps_add_def events_append_def bnd_def Let_def
      adds_only_def step_key_of_def)

lemma adds_only_steps:
  assumes "adds_only ds r u"
  shows "\<exists>u'. iter_act (\<lambda>s. on_uow (steps_add (new_step r (sd_id s)))) ss (u, p) = (Inr (), (u', p))
           \<and> adds_only ds r u'"
proof -
  have "\<exists>u'. afold (\<lambda>s _. on_uow (steps_add (new_step r (sd_id s)))) ss () (u, p) = (Inr (), (u', p))
           \<and> adds_only ds r u'" if "adds_only ds r u" for u
    using that
  proof (induction ss arbitrary: u)
    case (Cons s ss)
    have "sr_run_id (new_step r (sd_id s)) = r" by (simp add: new_step_def)
    from adds_only_ops(3) [OF Cons.prems this] obtain u1 where
      "steps_add (new_step r (sd_id s)) u = (Inr (), u1)" and "adds_only ds r u1" by blast
    with Cons.IH [of u1] show ?case by (auto simp: bnd_def on_uow_def)
  qed simp
  then show ?thesis using assms by (simp add: iter_act_def)
qed

lemma adds_only_commits:
  assumes a: "adds_only ds r u" and u: "uow_ok st u" and st: "store_ok st"
    and new: "\<And>k. k \<in> ds \<Longrightarrow> dget (ms_definitions st) k = None" "dget (ms_runs st) r = None"
      "\<And>i. dget (ms_steps st) (r, i) = None"
  shows "\<exists>st' u'. commit u st = Inr (st', u')"
proof -
  obtain st' where com: "committed u st st'"
    and c: "commit u st = Inr (st', u\<lparr>uw_committed := True\<rparr>)
           \<longleftrightarrow> \<not> uw_rolled_back u \<and> \<not> uw_committed u \<and> conflict_free u st
               \<and> pending_unique (ms_approvals st')"
    using commit_characterised [OF u st] by metis
  have "dget (ms_approvals st') = dget (ms_approvals st)"
    using com a by (simp add: committed_def adds_only_def overlay_def fun_eq_iff)
  then have "pending_unique (ms_approvals st')"
    using store_okD(6) [OF st] by (simp add: pending_unique_def)
  moreover have "conflict_free u st"
    using a new unfolding adds_only_def conflict_free_def revisions_match_def by fastforce
  ultimately show ?thesis using c a unfolding adds_only_def by blast
qed

lemma stage_run_returns:
  assumes d: "dget (ms_definitions st) (definition_key_of w) = None
            \<or> (\<exists>d. dget (ms_definitions st) (definition_key_of w) = Some d \<and> wd_digest d = wd_digest w)"
    and ds: "ds = (if dget (ms_definitions st) (definition_key_of w) = None
                   then {definition_key_of w} else {})"
  shows "\<exists>u. stage_run r w e (begin_uow st, p) = (Inr (), (u, p)) \<and> adds_only ds r u"
proof -
  let ?u = "begin_uow st" and ?key = "definition_key_of w"
  let ?run = "new_run r (wd_definition_id w) (wd_version w) (wd_digest w)"
  have a0: "adds_only ds r ?u" by (rule adds_only_begin)
  obtain u1 where u1: "(case dget (ms_definitions st) ?key of None \<Rightarrow> on_uow (definitions_add w)
          | Some d \<Rightarrow> lift_res (guard (wd_digest d = wd_digest w) (definition_conflict w))) (?u, p)
      = (Inr (), (u1, p))" "adds_only ds r u1"
  proof (cases "dget (ms_definitions st) ?key")
    case None
    then obtain u1 where "definitions_add w ?u = (Inr (), u1)" "adds_only ds r u1"
      using adds_only_ops(1) [OF a0, of w] ds by auto
    then show ?thesis using None that by (simp add: on_uow_def)
  next
    case (Some d)
    then show ?thesis using d a0 that by auto
  qed
  have "wr_run_id ?run = r" by (simp add: new_run_def)
  from adds_only_ops(2) [OF u1(2) this] obtain u2 where
    u2: "runs_add ?run u1 = (Inr (), u2)" "adds_only ds r u2" by blast
  from adds_only_steps [OF u2(2)] obtain u3 where
    u3: "iter_act (\<lambda>s. on_uow (steps_add (new_step r (sd_id s)))) (wd_steps w) (u2, p) = (Inr (), (u3, p))"
      "adds_only ds r u3" by blast
  from adds_only_ops(4) [OF u3(2)] obtain x u4 where
    u4: "events_append e u3 = (Inr x, u4)" "adds_only ds r u4" by blast
  have g: "on_uow (definitions_get (wd_definition_id w) (wd_version w)) (?u, p)
      = (Inr (dget (ms_definitions st) ?key), (?u, p))"
    by (simp add: on_uow_def definitions_get_def begin_uow_def definition_key_of_def)
  have "stage_run r w e (?u, p) = (Inr (), (u4, p))"
    unfolding stage_run_def
    using g u1(1) u2(1) u3(1) u4(1) by (simp add: bnd_def on_uow_def)
  then show ?thesis using u4(2) by blast
qed

lemma store_run_returns:
  fixes s :: "'z sys_scheme"
  assumes ok: "sys_ok s"
    and d: "dget (ms_definitions (sy_store s)) (definition_key_of w) = None
            \<or> (\<exists>d. dget (ms_definitions (sy_store s)) (definition_key_of w) = Some d \<and> wd_digest d = wd_digest w)"
    and new: "dget (ms_runs (sy_store s)) r = None" "\<And>i. dget (ms_steps (sy_store s)) (r, i) = None"
  shows "\<exists>s'. with_uow (store_run r w e) s = (Inr (), s')
     \<and> store_view (sy_store s') = (with_new_run r w e (store_view (sy_store s)))\<lparr>vw_new_runs := {}\<rparr>"
proof -
  let ?st = "sy_store s" and ?v = "store_view (sy_store s)"
  let ?ds = "if dget (ms_definitions ?st) (definition_key_of w) = None then {definition_key_of w} else {}"
  have st: "store_ok ?st" using ok by (simp add: sys_ok_def)
  obtain u where u: "stage_run r w e (begin_uow ?st, s) = (Inr (), (u, s))" and a: "adds_only ?ds r u"
    using stage_run_returns [OF d refl] by blast
  have w: "wpb (\<lambda>_. True) ?v (stage_run r w e) (\<lambda>_ \<sigma>. \<sigma> = Open (with_new_run r w e ?v)) (Open ?v)"
    by (rule wpb_stage_run) simp_all
  have sc: "in_scope (\<lambda>_. True) ?v (begin_uow ?st) s (Open ?v)"
    using st by (simp add: in_scope_def uow_ok_begin)
  have "in_scope (\<lambda>_. True) ?v u s (Open (with_new_run r w e ?v))"
    using wpbD(3) [OF w sc u refl] by blast
  then have uo: "uow_ok ?st u" and v: "uow_view u = with_new_run r w e ?v"
    by (simp_all add: in_scope_def)
  have "dget (ms_definitions ?st) k = None" if "k \<in> ?ds" for k using that by (simp split: if_splits)
  from adds_only_commits [OF a uo st this new]
  obtain st' u' where c: "commit u ?st = Inr (st', u')" by blast
  have "with_uow (store_run r w e) s = (Inr (), s\<lparr>sy_store := st'\<rparr>)"
    using u c by (simp add: with_uow_def store_run_def bnd_def uow_commit_def)
  then show ?thesis using commit_view(2) [OF uo st c] v by simp
qed


text \<open>What the creation leaves: the identifier is the next one, the event is at the next instant.\<close>

lemma create_run_returns:
  fixes s :: "'z sys_scheme"
  assumes ok: "sys_ok s" and w: "from_mapping payload reg = Inr w"
    and r: "r = en_identifier env (sy_ticks s)"
    and d: "dget (ms_definitions (sy_store s)) (definition_key_of w) = None
            \<or> (\<exists>d. dget (ms_definitions (sy_store s)) (definition_key_of w) = Some d \<and> wd_digest d = wd_digest w)"
    and new: "dget (ms_runs (sy_store s)) r = None" "\<And>i. dget (ms_steps (sy_store s)) (r, i) = None"
  shows "\<exists>s'. create_run env reg payload s = (Inr r, s') \<and> sys_ok s'
     \<and> store_view (sy_store s')
       = (with_new_run r w (created_event r w (en_now env (Suc (sy_ticks s))))
            (store_view (sy_store s)))\<lparr>vw_new_runs := {}\<rparr>"
proof -
  let ?s = "s\<lparr>sy_ticks := Suc (Suc (sy_ticks s))\<rparr>" and ?at = "en_now env (Suc (sy_ticks s))"
  obtain s' where s': "with_uow (store_run r w (created_event r w ?at)) ?s = (Inr (), s')"
    and v: "store_view (sy_store s')
       = (with_new_run r w (created_event r w ?at) (store_view (sy_store s)))\<lparr>vw_new_runs := {}\<rparr>"
    using store_run_returns [of ?s w r "created_event r w ?at"] ok d new by auto
  have "create_run env reg payload s = (Inr r, s')"
    using s' w r by (simp add: create_run_def bnd_def new_identifier_def clock_now_def tick_def)
  moreover from this have "sys_ok s'"
    using presD [OF pres_write_services(2) ok, of env reg payload] by simp
  ultimately show ?thesis using v by blast
qed

section \<open>The run read back\<close>

definition pending_dto :: "string \<Rightarrow> step_dto" where
  "pending_dto i =
     \<lparr>sx_step_id = i, sx_state = ''pending'', sx_revision = 0, sx_completion_sequence = None\<rparr>"

definition fresh_dto :: "string \<Rightarrow> workflow_definition \<Rightarrow> string list \<Rightarrow> run_dto" where
  "fresh_dto r w steps =
     \<lparr>rd_run_id = r, rd_definition_id = wd_definition_id w, rd_definition_version = wd_version w,
      rd_definition_digest = wd_digest w, rd_state = ''pending'', rd_revision = 0,
      rd_steps = map pending_dto steps, rd_pending_approval = None, rd_original_error = None,
      rd_compensation_error = None\<rparr>"


lemma steps_of_reads:
  "steps_of r d (u, p) = (Inr (map (\<lambda>s. dget (sn_steps u) (r, sd_id s)) (wd_steps d)), (u, p))"
proof -
  have "map_act (\<lambda>s. on_uow (steps_get r (sd_id s))) ss (u, p)
      = (Inr (map (\<lambda>s. dget (sn_steps u) (r, sd_id s)) ss), (u, p))" for ss :: "step_definition list"
    by (induction ss) (simp_all add: bnd_def on_uow_def steps_get_def)
  then show ?thesis by (simp add: steps_of_def)
qed

lemma approvals_pending_none:
  assumes "table_ok approval_key_of (sn_approvals u)" and "\<And>k. dget (sn_approvals u) (r, k) = None"
  shows "approvals_pending r u = (Inr None, u)"
proof -
  have "filter (\<lambda>((r', _), a). r' = r \<and> is_pending a) (sn_approvals u) = []"
    unfolding filter_empty_conv
  proof (intro ballI)
    fix e assume e: "e \<in> set (sn_approvals u)"
    obtain r' k a where [simp]: "e = ((r', k), a)" by (metis prod.exhaust)
    have "dget (sn_approvals u) (r', k) = Some a"
      using e dget_Some_in_set [OF table_ok_dwf [OF assms(1)]] by simp
    then show "\<not> (\<lambda>((r', _), a). r' = r \<and> is_pending a) e" using assms(2) by auto
  qed
  then show ?thesis by (simp add: approvals_pending_def)
qed

lemma get_run_returns:
  fixes s :: "'z sys_scheme"
  assumes r: "r \<noteq> []" and run: "dget (ms_runs (sy_store s)) r = Some run"
    and d: "dget (ms_definitions (sy_store s)) (wr_definition_id run, wr_definition_version run) = Some d"
    and steps: "\<And>x. x \<in> set (wd_steps d) \<Longrightarrow> dget (ms_steps (sy_store s)) (r, sd_id x) = Some (f x)"
    and p: "fst (approvals_pending r (begin_uow (sy_store s))) = Inr pending"
  shows "fst (get_run (Some r) s) = run_dto_of run (map f (wd_steps d)) pending"
proof -
  let ?st = "sy_store s"
  obtain u' where p': "approvals_pending r (begin_uow ?st) = (Inr pending, u')"
    using p by (metis prod.collapse)
  have rs: "map (\<lambda>x. dget (ms_steps ?st) (r, sd_id x)) (wd_steps d) = map (\<lambda>x. Some (f x)) (wd_steps d)"
    using steps by simp
  have none: "None \<notin> set (map (\<lambda>x. Some (f x)) (wd_steps d))"
    and pres: "present (map (\<lambda>x. Some (f x)) (wd_steps d)) = map f (wd_steps d)"
    by (auto simp: present_def List.map_filter_def comp_def)
  have reads: "on_uow (runs_get r) (begin_uow ?st, s) = (Inr (Some run), (begin_uow ?st, s))"
    "on_uow (definitions_get (wr_definition_id run) (wr_definition_version run)) (begin_uow ?st, s)
       = (Inr (Some d), (begin_uow ?st, s))"
    "steps_of r d (begin_uow ?st, s) = (Inr (map (\<lambda>x. Some (f x)) (wd_steps d)), (begin_uow ?st, s))"
    using run d rs by (simp_all add: on_uow_def runs_get_def definitions_get_def begin_uow_def steps_of_reads)
  show ?thesis
    unfolding get_run_def Let_def
    using r reads p' none pres
    by (simp add: bnd_def with_uow_def run_or_raise_def definition_or_raise_def definition_of_def
        need_def on_uow_def option_text_def)
qed

lemma create_then_get:
  fixes s :: "'z sys_scheme"
  assumes ok: "sys_ok s" and w: "from_mapping payload reg = Inr w"
    and r: "r = en_identifier env (sy_ticks s)" "r \<noteq> []"
    and d: "dget (ms_definitions (sy_store s)) (definition_key_of w) \<in> {None, Some w}"
    and new: "dget (ms_runs (sy_store s)) r = None" "\<And>i. dget (ms_steps (sy_store s)) (r, i) = None"
      "\<And>k. dget (ms_approvals (sy_store s)) (r, k) = None"
  shows "\<exists>s'. create_run env reg payload s = (Inr r, s')
     \<and> fst (get_run (Some r) s') = Inr (fresh_dto r w (map sd_id (wd_steps w)))"
proof -
  obtain s' where c: "create_run env reg payload s = (Inr r, s')" and ok': "sys_ok s'"
    and v: "store_view (sy_store s')
       = (with_new_run r w (created_event r w (en_now env (Suc (sy_ticks s))))
            (store_view (sy_store s)))\<lparr>vw_new_runs := {}\<rparr>"
    using create_run_returns [OF ok w r(1) _ new(1,2)] d by auto
  let ?run = "new_run r (wd_definition_id w) (wd_version w) (wd_digest w)"
  let ?st = "sy_store s'"
  have runs: "dget (ms_runs ?st) = (dget (ms_runs (sy_store s)))(r \<mapsto> ?run)"
    using arg_cong [OF v, of vw_runs] by (simp add: store_view_def with_new_run_def)
  have defs: "dget (ms_definitions ?st) (wd_definition_id w, wd_version w) = Some w"
    using arg_cong [OF v, of vw_definitions] d
    by (auto simp: store_view_def with_new_run_def definition_key_of_def)
  have steps: "dget (ms_steps ?st) (r, sd_id x) = Some (new_step r (sd_id x))"
    if "x \<in> set (wd_steps w)" for x
    using arg_cong [OF v, of vw_steps] that by (simp add: store_view_def with_new_run_def)
  have appr: "dget (ms_approvals ?st) (r, k) = None" for k
    using arg_cong [OF v, of vw_approvals] new(3) by (simp add: store_view_def with_new_run_def)
  have "fst (approvals_pending r (begin_uow ?st)) = Inr None"
    using approvals_pending_none [of "begin_uow ?st" r] ok' appr store_okD(5)
    by (simp add: begin_uow_def sys_ok_def)
  then have "fst (get_run (Some r) s') = run_dto_of ?run (map (\<lambda>x. new_step r (sd_id x)) (wd_steps w)) None"
    by (intro get_run_returns r(2)) (use runs defs steps in \<open>simp_all add: new_run_def\<close>)
  also have "\<dots> = Inr (fresh_dto r w (map sd_id (wd_steps w)))"
    by (simp add: run_dto_of_def pending_approval_of_def error_dto_of_def fresh_dto_def new_run_def
        pending_dto_def step_dto_of_def new_step_def comp_def)
  finally show ?thesis using c by blast
qed

end
