(* ===== verification/System.thy ===== *)
theory System
  imports Creation
begin

text \<open>
  The composed system: one store, on which the services of the workflow runtime act, in any
  order, with any clocks, identifiers, tools and futures. A step of the system is one call of a
  service, whether it returns or raises.
\<close>

section \<open>Steps of the system\<close>

definition initial_driver :: driver where
  "initial_driver =
     \<lparr>dr_coordinator = \<lparr>sy_store = empty_store, sy_ticks = 0, co_owned = [], co_next_future = 0,
                        co_unknown_runs = [], co_closed = False\<rparr>,
      dr_started = False\<rparr>"

definition the_store :: "driver \<Rightarrow> memory_store" where
  "the_store d = sy_store (dr_coordinator d)"

definition driver_view :: "driver \<Rightarrow> view" where
  "driver_view d = store_view (the_store d)"

inductive driver_step :: "driver \<Rightarrow> driver \<Rightarrow> bool" where
  step_create: "(\<forall>w. from_mapping payload reg = Inr w \<longrightarrow> no_collision (driver_view d) w) \<Longrightarrow>
     driver_step d (snd (on_coordinator (create_run env reg payload) d))"
| step_cancel: "driver_step d (snd (on_coordinator (cancel_run env r) d))"
| step_decide: "driver_step d (snd (on_coordinator (decide env r k dec n digest actor reason) d))"
| step_get: "driver_step d (snd (on_coordinator (get_run i) d))"
| step_events: "driver_step d (snd (on_coordinator (list_events reg r n) d))"
| step_start: "driver_step d (snd (driver_start rw d))"
| step_pass: "driver_step d (snd (driver_run_once w d))"
| step_close: "driver_step d (snd (on_coordinator (close_coordinator w wait) d))"

inductive reachable :: "driver \<Rightarrow> bool" where
  reachable_init: "reachable initial_driver"
| reachable_step: "reachable d \<Longrightarrow> driver_step d d' \<Longrightarrow> reachable d'"

inductive_cases driver_stepE: "driver_step d d'"

section \<open>Every step keeps the laws\<close>

definition driver_kept :: "view \<Rightarrow> driver \<Rightarrow> bool" where
  "driver_kept b d \<longleftrightarrow> kept b (dr_coordinator d)"

lemma kept_on_coordinator [pres_intros]:
  "pres (kept b) m \<Longrightarrow> pres (driver_kept b) (on_coordinator m)"
  by (auto simp: pres_def driver_kept_def on_coordinator_def split: prod.splits)

lemma quiet_queries [pres_intros]: "pres (sys_is st) (get_run i)" "pres (sys_is st) (list_events reg r n)"
  unfolding get_run_def list_events_def Let_def by (intro pres_intros)+

lemma kept_driver:
  "pres (driver_kept b) (driver_start rw)" "pres (driver_kept b) (driver_run_once w)"
  unfolding driver_start_def driver_run_once_def
  by (intro pres_intros recovery_kept.keeps_recovery kept.keeps_run_once; simp add: driver_kept_def)+

lemma kept_pass:
  assumes "driver_kept b d"
  shows "driver_kept b (snd (on_coordinator (cancel_run env r) d))"
    and "driver_kept b (snd (on_coordinator (decide env r k dec n digest actor reason) d))"
    and "driver_kept b (snd (on_coordinator (get_run i) d))"
    and "driver_kept b (snd (on_coordinator (list_events reg r n) d))"
    and "driver_kept b (snd (driver_start rw d))"
    and "driver_kept b (snd (driver_run_once w d))"
    and "driver_kept b (snd (on_coordinator (close_coordinator w wait) d))"
  by (rule presD [where P = "driver_kept b", OF _ assms], intro kept_on_coordinator kept_cancel kept_decide kept_quiet quiet_queries
        kept.keeps_close kept_driver)+

lemma kept_creation:
  assumes "driver_kept b d"
    and "\<forall>w. from_mapping payload reg = Inr w \<longrightarrow> no_collision (driver_view d) w"
  shows "driver_kept b (snd (on_coordinator (create_run env reg payload) d))"
proof -
  have "kept b (dr_coordinator d)" using assms(1) by (simp add: driver_kept_def)
  from kept_create [OF this] assms(2)
  have "kept b (snd (create_run env reg payload (dr_coordinator d)))"
    by (simp add: driver_view_def the_store_def)
  then show ?thesis by (auto simp: driver_kept_def on_coordinator_def split: prod.splits)
qed

lemma driver_step_kept:
  assumes "driver_step d d'" and "driver_kept b d"
  shows "driver_kept b d'"
  using assms by (induction rule: driver_step.induct) (simp_all add: kept_pass kept_creation)

section \<open>Reachable states\<close>

lemma history_empty: "history (driver_view initial_driver)"
  by (simp add: history_def driver_view_def the_store_def initial_driver_def store_view_def
      empty_store_def history_log_def run_history_def step_history_def run_events_def
      step_events_def dget_list_def)

lemma initial_kept: "driver_kept (driver_view initial_driver) initial_driver"
  using history_empty grows_refl store_ok_empty
  by (simp add: driver_kept_def kept_def lawful_def sys_ok_def driver_view_def the_store_def
      initial_driver_def)

lemma reachable_kept:
  assumes "reachable d"
  shows "driver_kept (driver_view initial_driver) d"
  using assms by (induction rule: reachable.induct) (blast intro: initial_kept driver_step_kept)+

lemma reachable_ok:
  assumes "reachable d"
  shows "store_ok (the_store d)" and "history (driver_view d)"
  using reachable_kept [OF assms]
  by (simp_all add: driver_kept_def kept_def sys_ok_def lawful_def the_store_def driver_view_def)

lemma steps_kept:
  assumes "driver_step\<^sup>*\<^sup>* d d'" and "reachable d"
  shows "driver_kept (driver_view d) d'"
  using assms(1)
proof (induction rule: rtranclp_induct)
  case base
  show ?case using reachable_ok [OF assms(2)] grows_refl
    by (simp add: driver_kept_def kept_def lawful_def sys_ok_def driver_view_def the_store_def)
qed (blast intro: driver_step_kept)

lemma steps_grow:
  assumes "driver_step\<^sup>*\<^sup>* d d'" and "reachable d"
  shows "grows (driver_view d) (driver_view d')"
  using steps_kept [OF assms] by (simp add: driver_kept_def kept_def lawful_def driver_view_def the_store_def)

lemma steps_reachable: "driver_step\<^sup>*\<^sup>* d d' \<Longrightarrow> reachable d \<Longrightarrow> reachable d'"
  by (induction rule: rtranclp_induct) (auto intro: reachable_step)

section \<open>Histories\<close>

lemma run_events_log [simp]: "run_events (history_log v r) = run_events (vw_log v r)"
  by (auto simp: run_events_def history_log_def intro!: filter_cong)

lemma step_events_log [simp]: "step_events i (history_log v r) = step_events i (vw_log v r)"
  by (auto simp: step_events_def history_log_def intro!: filter_cong)

lemma events_append [simp]:
  "run_events (es @ fs) = run_events es @ run_events fs"
  "step_events i (es @ fs) = step_events i es @ step_events i fs"
  by (simp_all add: run_events_def step_events_def)

lemma reachable_run:
  assumes "reachable d" and "dget (ms_runs (the_store d)) r = Some run"
  shows "run_trace (RunPending, 0) (run_events (vw_log (driver_view d) r)) (wr_state run, wr_revision run)"
    and "references_ok (driver_view d) run" and "wr_run_id run = r"
proof -
  have v: "vw_runs (driver_view d) r = Some run" using assms(2) by (simp add: driver_view_def store_view_def)
  note h = reachable_ok(2) [OF assms(1)]
  from historyD(2) [OF h, of r] v
  show "run_trace (RunPending, 0) (run_events (vw_log (driver_view d) r)) (wr_state run, wr_revision run)"
    and "wr_run_id run = r" by (simp_all add: run_history_def)
  show "references_ok (driver_view d) run" using historyD(4) [OF h v] .
qed

lemma reachable_step_run:
  assumes "reachable d" and "dget (ms_steps (the_store d)) (r, i) = Some sr"
  shows "step_trace (StepPending, 0) (step_events i (vw_log (driver_view d) r)) (sr_state sr, sr_revision sr)"
proof -
  have "vw_steps (driver_view d) (r, i) = Some sr" using assms(2) by (simp add: driver_view_def store_view_def)
  then show ?thesis using historyD(3) [OF reachable_ok(2) [OF assms(1)], of r i] by (simp add: step_history_def)
qed

lemma run_trace_append:
  "run_trace p (es @ fs) q \<longleftrightarrow> (\<exists>m. run_trace p es m \<and> run_trace m fs q)"
proof (induction fs arbitrary: q rule: rev_induct)
  case (snoc f fs)
  have "run_trace p (es @ fs @ [f]) q \<longleftrightarrow> (\<exists>m. run_trace p (es @ fs) m \<and> run_edge f m q)"
    using run_trace_snoc_iff [of p "es @ fs"] by simp
  with snoc show ?case by (auto simp: run_trace_snoc_iff)
qed auto

lemma step_trace_append:
  "step_trace p (es @ fs) q \<longleftrightarrow> (\<exists>m. step_trace p es m \<and> step_trace m fs q)"
proof (induction fs arbitrary: q rule: rev_induct)
  case (snoc f fs)
  have "step_trace p (es @ fs @ [f]) q \<longleftrightarrow> (\<exists>m. step_trace p (es @ fs) m \<and> step_edge f m q)"
    using step_trace_snoc_iff [of p "es @ fs"] by simp
  with snoc show ?case by (auto simp: step_trace_snoc_iff)
qed auto

lemma run_trace_ended: "run_trace p es q \<Longrightarrow> run_terminal (fst p) \<Longrightarrow> q = p"
  by (induction rule: run_trace.induct) (auto simp: run_edge_def run_terminal_def)

lemma step_trace_ended: "step_trace p es q \<Longrightarrow> step_terminal (fst p) \<Longrightarrow> q = p"
  by (induction rule: step_trace.induct) (auto simp: step_edge_def step_terminal_def)

lemma step_edge_target: "step_edge e p q \<Longrightarrow> step_edge e p q' \<Longrightarrow> q = q'"
  unfolding step_edge_def by (metis prod_eqI step_state_value_inject)

lemma step_trace_deterministic: "step_trace p es q \<Longrightarrow> step_trace p es q' \<Longrightarrow> q = q'"
proof (induction es arbitrary: q q' rule: rev_induct)
  case (snoc e es)
  then show ?case by (metis step_edge_target step_trace_snoc_iff)
qed simp

text \<open>How a run, or a step, of a reachable state looks later on: its trace went on from there.\<close>

lemma later_run:
  assumes "reachable d" and "driver_step\<^sup>*\<^sup>* d d'" and "dget (ms_runs (the_store d)) r = Some run"
  shows "\<exists>run' es. dget (ms_runs (the_store d')) r = Some run' \<and> same_identity run run'
     \<and> run_trace (wr_state run, wr_revision run) es (wr_state run', wr_revision run')"
proof -
  have g: "grows (driver_view d) (driver_view d')" using steps_grow assms(1,2) by blast
  have "vw_runs (driver_view d) r = Some run" using assms(3) by (simp add: driver_view_def store_view_def)
  then obtain run' where v': "vw_runs (driver_view d') r = Some run'" and id: "same_identity run run'"
    using g unfolding grows_def by blast
  then have run': "dget (ms_runs (the_store d')) r = Some run'" by (simp add: driver_view_def store_view_def)
  obtain es where "vw_log (driver_view d') r = vw_log (driver_view d) r @ es"
    using g unfolding grows_def by blast
  then have "run_trace (RunPending, 0) (run_events (vw_log (driver_view d) r) @ run_events es)
      (wr_state run', wr_revision run')"
    using reachable_run(1) [OF steps_reachable [OF assms(2,1)] run'] by simp
  then have "run_trace (wr_state run, wr_revision run) (run_events es) (wr_state run', wr_revision run')"
    using run_trace_deterministic [OF reachable_run(1) [OF assms(1,3)]] unfolding run_trace_append by blast
  then show ?thesis using run' id by blast
qed

lemma later_step:
  assumes "reachable d" and "driver_step\<^sup>*\<^sup>* d d'" and "dget (ms_steps (the_store d)) (r, i) = Some sr"
  shows "\<exists>sr' es. dget (ms_steps (the_store d')) (r, i) = Some sr'
     \<and> step_trace (sr_state sr, sr_revision sr) es (sr_state sr', sr_revision sr')"
proof -
  have g: "grows (driver_view d) (driver_view d')" using steps_grow assms(1,2) by blast
  have "vw_steps (driver_view d) (r, i) \<noteq> None" using assms(3) by (simp add: driver_view_def store_view_def)
  then obtain sr' where "vw_steps (driver_view d') (r, i) = Some sr'" using g unfolding grows_def by blast
  then have sr': "dget (ms_steps (the_store d')) (r, i) = Some sr'" by (simp add: driver_view_def store_view_def)
  obtain es where "vw_log (driver_view d') r = vw_log (driver_view d) r @ es"
    using g unfolding grows_def by blast
  then have "step_trace (StepPending, 0) (step_events i (vw_log (driver_view d) r) @ step_events i es)
      (sr_state sr', sr_revision sr')"
    using reachable_step_run [OF steps_reachable [OF assms(2,1)] sr'] by simp
  then have "step_trace (sr_state sr, sr_revision sr) (step_events i es) (sr_state sr', sr_revision sr')"
    using step_trace_deterministic [OF reachable_step_run [OF assms(1,3)]] unfolding step_trace_append by blast
  then show ?thesis using sr' by blast
qed

end
