(* ===== verification/Transactions.thy ===== *)
theory Transactions
  imports Creation
begin

text \<open>
  What a transaction of the services does as a whole: one that raises leaves the store as it
  was, and one that changes a run or a decision goes through when nothing else writes.
\<close>

section \<open>A transaction that raises changes nothing\<close>

definition atomic :: "('z sys_scheme, error, 'a) act \<Rightarrow> bool" where
  "atomic m \<longleftrightarrow> (\<forall>s e. fst (m s) = Inl e \<longrightarrow> sy_store (snd (m s)) = sy_store s)"

definition atomic_body :: "('z, 'a) body \<Rightarrow> bool" where
  "atomic_body m \<longleftrightarrow> (\<forall>p e. fst (m p) = Inl e \<longrightarrow> sy_store (snd (snd (m p))) = sy_store (snd p))"

named_theorems atomic_intros \<open>rules for transactions that raise before they write\<close>

lemma atomic_with_uow [atomic_intros]:
  assumes "atomic_body m"
  shows "atomic (with_uow m)"
  unfolding atomic_def
proof (intro allI impI)
  fix s :: "'a sys_scheme" and e assume e: "fst (with_uow m s) = Inl e"
  obtain r u s' where m: "m (begin_uow (sy_store s), s) = (r, (u, s'))" by (metis prod.collapse)
  then have "r = Inl e" using e by (simp add: with_uow_def)
  then have "sy_store s' = sy_store s"
    using assms m unfolding atomic_body_def by (metis fst_conv snd_conv)
  then show "sy_store (snd (with_uow m s)) = sy_store s" using m by (simp add: with_uow_def)
qed

text \<open>A body that never writes, before one that does.\<close>

lemma atomic_quiet_bnd:
  assumes "\<And>st. pres (body_is st) m" and "\<And>x. atomic_body (f x)"
  shows "atomic_body (bnd m f)"
  unfolding atomic_body_def
proof (intro allI impI)
  fix p :: "uow \<times> 'a sys_scheme" and e assume e: "fst (bnd m f p) = Inl e"
  have q: "sy_store (snd (snd (m p))) = sy_store (snd p)"
    using presD [OF assms(1), of "sy_store (snd p)" p] by (simp add: body_is_def split: prod.splits)
  obtain r p' where m: "m p = (r, p')" by (metis prod.exhaust)
  show "sy_store (snd (snd (bnd m f p))) = sy_store (snd p)"
  proof (cases r)
    case (Inl e')
    then show ?thesis using q m by (simp add: bnd_def)
  next
    case (Inr x)
    then have "fst (f x p') = Inl e" using e m by (simp add: bnd_def)
    then have "sy_store (snd (snd (f x p'))) = sy_store (snd p')" using assms(2) unfolding atomic_body_def by blast
    then show ?thesis using q m Inr by (simp add: bnd_def)
  qed
qed

lemma atomic_quiet_service:
  assumes "\<And>st. pres (sys_is st) m" and "\<And>x. atomic (f x)"
  shows "atomic (bnd m f)"
  unfolding atomic_def
proof (intro allI impI)
  fix s :: "'a sys_scheme" and e assume e: "fst (bnd m f s) = Inl e"
  have q: "sy_store (snd (m s)) = sy_store s"
    using presD [OF assms(1), of "sy_store s" s] by (simp add: sys_is_def)
  obtain r s' where m: "m s = (r, s')" by (metis prod.exhaust)
  show "sy_store (snd (bnd m f s)) = sy_store s"
  proof (cases r)
    case (Inl e')
    then show ?thesis using q m by (simp add: bnd_def)
  next
    case (Inr x)
    then have "fst (f x s') = Inl e" using e m by (simp add: bnd_def)
    then have "sy_store (snd (f x s')) = sy_store s'" using assms(2) unfolding atomic_def by blast
    then show ?thesis using q m Inr by (simp add: bnd_def)
  qed
qed

lemma atomic_leaves [atomic_intros]:
  "atomic_body (raise_act e)" "atomic_body (ret x)" "atomic_body (lift_res r)" "atomic_body (need e' o')"
  "atomic_body uow_commit"
  by (auto simp: atomic_body_def need_def or_raise_def uow_commit_def split: sum.splits option.splits)

text \<open>A commit and what cannot raise after it.\<close>

lemma atomic_commit_ret [atomic_intros]: "atomic_body (bnd uow_commit (\<lambda>_. ret x))"
  by (auto simp: atomic_body_def bnd_def uow_commit_def split: sum.splits prod.splits)

lemma atomic_then:
  assumes "atomic m" and "\<And>x s. \<exists>y. fst (f x s) = Inr y"
  shows "atomic (bnd m f)"
  unfolding atomic_def
proof (intro allI impI)
  fix s :: "'a sys_scheme" and e assume e: "fst (bnd m f s) = Inl e"
  obtain r s' where m: "m s = (r, s')" by (metis prod.exhaust)
  have "r = Inl e" using e m assms(2) by (cases r) (auto simp: bnd_def, metis Inl_Inr_False)
  then show "sy_store (snd (bnd m f s)) = sy_store s"
    using assms(1) m unfolding atomic_def by (metis bnd_Inl fst_conv snd_conv)
qed

lemma atomic_service_ret [atomic_intros]:
  "atomic m \<Longrightarrow> atomic (bnd m (\<lambda>x. ret (f x)))" "atomic m \<Longrightarrow> atomic (bnd m (\<lambda>_. modify_act g))"
  by (erule atomic_then, simp add: ret_def modify_act_def)+

lemma atomic_service_leaves [atomic_intros]: "atomic (raise_act e)" "atomic (ret x)"
  by (simp_all add: atomic_def)

lemma atomic_cases [atomic_intros]:
  "atomic_body m \<Longrightarrow> atomic_body m' \<Longrightarrow> atomic_body (if c then m else m')"
  "atomic_body m \<Longrightarrow> (\<And>y. x = Some y \<Longrightarrow> atomic_body (f y)) \<Longrightarrow>
     atomic_body (case x of None \<Rightarrow> m | Some y \<Rightarrow> f y)"
  "(\<And>a b. p = (a, b) \<Longrightarrow> atomic_body (g a b)) \<Longrightarrow> atomic_body (case p of (a, b) \<Rightarrow> g a b)"
  "atomic n \<Longrightarrow> atomic n' \<Longrightarrow> atomic (if c then n else n')"
  by (simp_all split: option.splits prod.splits)

lemma quiet_writers [pres_intros]:
  "pres (body_is st) (save_run run run' e)" "pres (body_is st) (save_step sr sr' e)"
  "pres (body_is st) (enter_forward run at)" "pres (body_is st) (start_step sr at)"
  "pres (body_is st) (stage_run r w e)" "pres (body_is st) (checked_request r k v b)"
  unfolding save_run_def save_step_def enter_forward_def start_step_def stage_run_def checked_request_def
  by (intro pres_intros)+

lemma quiet_rejection [pres_intros]: "pres (body_is st) (rejection_target run)"
proof -
  have "pres (body_is st) (rejection_loop r ss b)" for r ss b
    by (induction ss arbitrary: b) (auto intro!: pres_intros)
  then show ?thesis unfolding rejection_target_def by (intro pres_intros)
qed

lemma quiet_outcome_parts [pres_intros]:
  "pres (body_is st) (with_completion r w k sr)" "pres (body_is st) (all_succeeded r i w)"
  unfolding with_completion_def all_succeeded_def by (intro pres_intros)+

lemma quiet_outcomes [pres_intros]:
  "pres (body_is st) (run_after_outcome run w out nx at)"
  "pres (body_is st) (persist_compensation_outcome run w sr a out at ps)"
  unfolding run_after_outcome_def persist_compensation_outcome_def by (intro pres_intros)+

lemma quiet_forward_outcome [pres_intros]:
  "pres (body_is st) (persist_forward_outcome run w s sr a out at ps)"
  unfolding persist_forward_outcome_def save_forward_outcome_def by (intro pres_intros)+

lemma quiet_promotions [pres_intros]:
  "pres (body_is st) (promote_step env sr)" "pres (body_is st) (live_definition r)"
  "pres (body_is st) (promote_retry env r now s b)" "pres (body_is st) (promote_pending env rs s b)"
  unfolding promote_retry_def promote_pending_def promote_step_def live_definition_def live_run_def
  by (intro pres_intros)+

lemma quiet_barrier [pres_intros]:
  "pres (body_is st) (review_approval r run w s digest at a pending)"
  "pres (body_is st) (enter_waiting run at)" "pres (body_is st) (create_request env r run run' w s sn at)"
  unfolding review_approval_def enter_waiting_def create_request_def by (intro pres_intros)+

lemma quiet_settle [pres_intros]: "pres (body_is st) (settle w run d sr a res at)"
  unfolding settle_def persist_applied_def persist_not_applied_def persist_manual_intervention_def
    save_manual_def finish_applied_def run_after_applied_def move_step_def
  by (intro pres_intros)+

lemma atomic_commit_if [atomic_intros]: "atomic_body (commit_if b)"
  unfolding commit_if_def by (intro atomic_intros)

lemmas atomic_rules = atomic_intros atomic_quiet_bnd atomic_quiet_service

lemma atomic_services:
  "atomic (create_run env reg payload)" "atomic (cancel_run env r)"
  "atomic (decide env r k dec n digest actor reason)"
  unfolding create_run_def store_run_def cancel_run_def decide_def apply_decision_def
  by (intro atomic_rules pres_intros)+

lemma atomic_persist: "atomic (persist_outcome w out ps)"
  unfolding persist_outcome_def
proof (rule atomic_then)
  show "atomic (with_uow (persist_outcome_body (env_of w) out ps))"
    unfolding persist_outcome_body_def by (intro atomic_rules pres_intros)
qed (auto simp: modify_act_def)

lemma atomic_coordinator:
  "atomic (commit_attempt_started a)" "atomic (promote_due_retries env r)"
  "atomic (promote_dependency_ready_steps env r)" "atomic (establish_approval_barrier w r i)"
  "atomic (finish_compensation env r)" "atomic (recover_attempt rw r i a)"
  unfolding commit_attempt_started_def promote_due_retries_def promote_dependency_ready_steps_def
    promote_ready_def establish_approval_barrier_def establish_body_def open_barrier_def
    finish_compensation_def recover_attempt_def
  by (intro atomic_rules pres_intros)+

section \<open>A transaction that goes through\<close>

text \<open>A unit of work on the current store: it is open and what it expects is still so.\<close>

definition current :: "memory_store \<Rightarrow> uow \<Rightarrow> bool" where
  "current st u \<longleftrightarrow> uow_ok st u \<and> \<not> uw_committed u \<and> \<not> uw_rolled_back u \<and> conflict_free u st"

lemma current_begin: "store_ok st \<Longrightarrow> current st (begin_uow st)"
  by (simp add: current_def uow_ok_begin) (simp add: begin_uow_def conflict_free_def revisions_match_def)

lemma current_writable [simp]: "current st u \<Longrightarrow> ensure_writable u = (Inr (), u)"
  by (simp add: current_def ensure_writable_def)

lemma revisions_match_save:
  assumes s: "staged_ok key_of base staged (new @ dirty)" and t: "tracked new dirty expected"
    and v: "dget staged k = Some v" and m: "revisions_match ver expected base" and k: "k \<notin> set new"
  shows "revisions_match ver (dset_default k (ver v) expected) base"
proof (cases "dget expected k")
  case (Some n)
  then show ?thesis using m by (simp add: dset_default_def)
next
  case None
  then have "k \<notin> set (new @ dirty)" using k t unfolding tracked_def by (auto simp: dget_None_iff)
  then have b: "dget base k = Some v" using s v unfolding staged_ok_def by metis
  have "set (dset k (ver v) expected) \<subseteq> insert (k, ver v) (set expected)" by (induction expected) auto
  then show ?thesis using m b None
    by (auto simp: dset_default_def revisions_match_def actual_revision_def)
qed

lemma current_runs_save:
  assumes c: "current st u" and v: "vw_runs (uow_view u) (wr_run_id run') = Some run"
    and n: "wr_revision run' = wr_revision run + 1"
  shows "\<exists>u'. runs_save run' (wr_revision run) u = (Inr (), u') \<and> current st u'
     \<and> uow_view u' = (uow_view u)\<lparr>vw_runs := (vw_runs (uow_view u))(wr_run_id run' \<mapsto> run')\<rparr>"
proof -
  obtain u' where u': "runs_save run' (wr_revision run) u = (Inr (), u')" using c n
    by (simp add: runs_save_def bnd_def)
  have uo: "uow_ok st u" and cf: "conflict_free u st" using c by (simp_all add: current_def)
  have s: "staged_ok wr_run_id (ms_runs st) (sn_runs u) (sn_new_run_keys u @ sn_dirty_run_keys u)"
    and t: "tracked (sn_new_run_keys u) (sn_dirty_run_keys u) (sn_run_expected_revisions u)"
    using uo by (simp_all add: uow_ok_def)
  have g: "dget (sn_runs u) (wr_run_id run') = Some run" using v by (simp add: uow_view_def)
  have m: "revisions_match wr_revision (sn_run_expected_revisions u) (ms_runs st)"
    using cf by (simp add: conflict_free_def)
  have "uow_ok st u'"
    using presD [OF uow_ok_runs_save, of st u run' "wr_revision run"] uo u' by simp
  moreover have "conflict_free u' st"
    using revisions_match_save [OF s t g m] cf u' c n
    by (auto simp: runs_save_def bnd_def conflict_free_def)
  ultimately have "current st u'" using u' c n by (auto simp: current_def runs_save_def bnd_def)
  then show ?thesis using u' write_view(1) [OF u'] by blast
qed

lemma current_steps_save:
  assumes c: "current st u" and v: "vw_steps (uow_view u) (step_key_of sr') = Some sr"
    and n: "sr_revision sr' = sr_revision sr + 1"
  shows "\<exists>u'. steps_save sr' (sr_revision sr) u = (Inr (), u') \<and> current st u'
     \<and> uow_view u' = (uow_view u)\<lparr>vw_steps := (vw_steps (uow_view u))(step_key_of sr' \<mapsto> sr')\<rparr>"
proof -
  obtain u' where u': "steps_save sr' (sr_revision sr) u = (Inr (), u')" using c n
    by (simp add: steps_save_def bnd_def)
  have uo: "uow_ok st u" and cf: "conflict_free u st" using c by (simp_all add: current_def)
  have s: "staged_ok step_key_of (ms_steps st) (sn_steps u) (sn_new_step_keys u @ sn_dirty_step_keys u)"
    and t: "tracked (sn_new_step_keys u) (sn_dirty_step_keys u) (sn_step_expected_revisions u)"
    using uo by (simp_all add: uow_ok_def)
  have g: "dget (sn_steps u) (step_key_of sr') = Some sr" using v by (simp add: uow_view_def)
  have m: "revisions_match sr_revision (sn_step_expected_revisions u) (ms_steps st)"
    using cf by (simp add: conflict_free_def)
  have "uow_ok st u'"
    using presD [OF uow_ok_steps_save, of st u sr' "sr_revision sr"] uo u' by simp
  moreover have "conflict_free u' st"
    using revisions_match_save [OF s t g m] cf u' c n
    by (auto simp: steps_save_def bnd_def conflict_free_def)
  ultimately have "current st u'" using u' c n by (auto simp: current_def steps_save_def bnd_def)
  then show ?thesis using u' write_view(3) [OF u'] by blast
qed

lemma current_approvals_save:
  assumes c: "current st u" and v: "vw_approvals (uow_view u) (approval_key_of a') = Some a"
    and n: "apr_version a' = apr_version a + 1"
  shows "\<exists>u'. approvals_save a' (apr_version a) u = (Inr (), u') \<and> current st u'
     \<and> uow_view u' = (uow_view u)\<lparr>vw_approvals := (vw_approvals (uow_view u))(approval_key_of a' \<mapsto> a')\<rparr>"
proof -
  have uo: "uow_ok st u" and cf: "conflict_free u st" using c by (simp_all add: current_def)
  have s: "staged_ok approval_key_of (ms_approvals st) (sn_approvals u)
      (sn_new_approval_keys u @ sn_dirty_approval_keys u)"
    and t: "tracked (sn_new_approval_keys u) (sn_dirty_approval_keys u) (sn_approval_expected_versions u)"
    using uo by (simp_all add: uow_ok_def)
  have g: "dget (sn_approvals u) (approval_key_of a') = Some a" using v by (simp add: uow_view_def)
  have m: "revisions_match apr_version (sn_approval_expected_versions u) (ms_approvals st)"
    using cf by (simp add: conflict_free_def)
  obtain u' where u': "approvals_save a' (apr_version a) u = (Inr (), u')" using c n g
    by (simp add: approvals_save_def bnd_def)
  have "uow_ok st u'"
    using presD [OF uow_ok_approvals_save, of st u a' "apr_version a"] uo u' by simp
  moreover have "conflict_free u' st"
    using revisions_match_save [OF s t g m] cf u' c n g
    by (auto simp: approvals_save_def bnd_def conflict_free_def)
  ultimately have "current st u'" using u' c n g by (auto simp: current_def approvals_save_def bnd_def)
  then show ?thesis using u' write_view(8) [OF u'] by blast
qed

lemma current_events_append:
  assumes "current st u"
  shows "\<exists>x u'. events_append e u = (Inr x, u') \<and> current st u' \<and> uow_view u' = view_event e (uow_view u)"
proof -
  obtain x u' where u': "events_append e u = (Inr x, u')" using assms
    by (simp add: events_append_def bnd_def Let_def)
  have "uow_ok st u'" using presD [OF uow_ok_events_append, of st u e] u' assms by (simp add: current_def)
  then have "current st u'" using assms u'
    by (auto simp: current_def events_append_def bnd_def Let_def ensure_writable_def conflict_free_def)
  then show ?thesis using events_append_view [OF u'] u' by blast
qed

lemma current_commit:
  assumes c: "current st u" and st: "store_ok st" and p: "single_pending (vw_approvals (uow_view u))"
  shows "\<exists>st' u'. commit u st = Inr (st', u') \<and> store_ok st'
     \<and> store_view st' = (uow_view u)\<lparr>vw_new_runs := {}\<rparr>"
proof -
  have u: "uow_ok st u" using c by (simp add: current_def)
  obtain st' where com: "committed u st st'"
    and iff: "commit u st = Inr (st', u\<lparr>uw_committed := True\<rparr>)
           \<longleftrightarrow> \<not> uw_rolled_back u \<and> \<not> uw_committed u \<and> conflict_free u st
               \<and> pending_unique (ms_approvals st')"
    using commit_characterised [OF u st] by metis
  have "pending_unique (ms_approvals st')"
    using p committed_lookups(5) [OF u com] by (simp add: pending_unique_def uow_view_def)
  then have "commit u st = Inr (st', u\<lparr>uw_committed := True\<rparr>)" using iff c by (simp add: current_def)
  then show ?thesis using commit_view(1,2) [OF u st] by blast
qed

section \<open>What a body yields\<close>

text \<open>
  Total correctness: \<open>yields st m Q\<close> tells what \<open>m\<close> returns or raises, and what it leaves, when
  it runs in a scope on the store \<open>st\<close> while nothing else writes.
\<close>

definition at_scope :: "memory_store \<Rightarrow> uow \<Rightarrow> 'z sys_scheme \<Rightarrow> scope \<Rightarrow> bool" where
  "at_scope st u s \<sigma> \<longleftrightarrow> store_ok st
     \<and> (case \<sigma> of Open h \<Rightarrow> sy_store s = st \<and> current st u \<and> uow_view u = h
          | Closed h \<Rightarrow> store_ok (sy_store s) \<and> store_view (sy_store s) = h)"

definition yields ::
  "memory_store \<Rightarrow> ('z, 'a) body \<Rightarrow> (error + 'a \<Rightarrow> scope \<Rightarrow> bool) \<Rightarrow> scope \<Rightarrow> bool" where
  "yields st m Q \<sigma> \<longleftrightarrow>
     (\<forall>u s. at_scope st u s \<sigma> \<longrightarrow>
        (case m (u, s) of (r, (u', s')) \<Rightarrow> \<exists>\<sigma>'. at_scope st u' s' \<sigma>' \<and> Q r \<sigma>'))"

named_theorems yields_intros \<open>rules that run a body\<close>

lemma yields_bnd [yields_intros]:
  assumes "yields st m (\<lambda>r \<sigma>'. case r of Inl e \<Rightarrow> Q (Inl e) \<sigma>' | Inr x \<Rightarrow> yields st (f x) Q \<sigma>') \<sigma>"
  shows "yields st (bnd m f) Q \<sigma>"
  using assms unfolding yields_def bnd_def by (fastforce split: sum.splits prod.splits)

lemma yields_leaves [yields_intros]:
  "Q1 (Inr x) \<sigma> \<Longrightarrow> yields st (ret x) Q1 \<sigma>" "Q2 (Inl e) \<sigma> \<Longrightarrow> yields st (raise_act e) Q2 \<sigma>"
  "Q3 r \<sigma> \<Longrightarrow> yields st (lift_res r) Q3 \<sigma>" "Q4 (or_raise o' e) \<sigma> \<Longrightarrow> yields st (need e o') Q4 \<sigma>"
  by (auto simp: yields_def need_def)

lemma yields_clock [yields_intros]:
  "(\<And>t. Q (Inr t) \<sigma>) \<Longrightarrow> yields st (on_service (clock_now env)) Q \<sigma>"
  by (auto simp: yields_def on_service_def clock_now_def tick_def at_scope_def split: scope.splits)

lemma yields_on_uow:
  assumes "\<And>u. current st u \<Longrightarrow> uow_view u = h \<Longrightarrow> \<exists>x u'. m u = (x, u') \<and> current st u' \<and> Q x (Open (uow_view u'))"
  shows "yields st (on_uow m) Q (Open h)"
  unfolding yields_def
proof (intro allI impI)
  fix u s assume a: "at_scope st u s (Open h)"
  then obtain x u' where "m u = (x, u')" "current st u'" "Q x (Open (uow_view u'))"
    using assms [of u] by (auto simp: at_scope_def)
  then show "case on_uow m (u, s) of (r, u', s') \<Rightarrow> \<exists>\<sigma>'. at_scope st u' s' \<sigma>' \<and> Q r \<sigma>'"
    using a by (auto simp: on_uow_def at_scope_def intro!: exI [of _ "Open (uow_view u')"])
qed

lemma view_lookups:
  "dget (sn_runs u) r = vw_runs (uow_view u) r" "dget (sn_steps u) k = vw_steps (uow_view u) k"
  "dget (sn_definitions u) d = vw_definitions (uow_view u) d"
  "dget (sn_approvals u) a = vw_approvals (uow_view u) a"
  by (simp_all add: uow_view_def)

lemma yields_reads [yields_intros]:
  "Q1 (Inr (vw_runs h r)) (Open h) \<Longrightarrow> yields st (on_uow (runs_get r)) Q1 (Open h)"
  "Q2 (Inr (vw_steps h (r, s))) (Open h) \<Longrightarrow> yields st (on_uow (steps_get r s)) Q2 (Open h)"
  "Q3 (Inr (vw_definitions h (i, n))) (Open h) \<Longrightarrow> yields st (on_uow (definitions_get i n)) Q3 (Open h)"
  "Q4 (Inr (vw_approvals h (r, k))) (Open h) \<Longrightarrow> yields st (on_uow (approvals_get r k)) Q4 (Open h)"
  by (rule yields_on_uow;
      auto simp: runs_get_def steps_get_def definitions_get_def approvals_get_def view_lookups)+

lemma yields_writes [yields_intros]:
  "vw_runs h (wr_run_id run') = Some run \<Longrightarrow> wr_revision run' = wr_revision run + 1 \<Longrightarrow>
     Q (Inr ()) (Open (h\<lparr>vw_runs := (vw_runs h)(wr_run_id run' \<mapsto> run')\<rparr>)) \<Longrightarrow>
     yields st (on_uow (runs_save run' (wr_revision run))) Q (Open h)"
  "vw_steps h (step_key_of sr') = Some sr \<Longrightarrow> sr_revision sr' = sr_revision sr + 1 \<Longrightarrow>
     Q (Inr ()) (Open (h\<lparr>vw_steps := (vw_steps h)(step_key_of sr' \<mapsto> sr')\<rparr>)) \<Longrightarrow>
     yields st (on_uow (steps_save sr' (sr_revision sr))) Q (Open h)"
  "vw_approvals h (approval_key_of a') = Some a \<Longrightarrow> apr_version a' = apr_version a + 1 \<Longrightarrow>
     Q (Inr ()) (Open (h\<lparr>vw_approvals := (vw_approvals h)(approval_key_of a' \<mapsto> a')\<rparr>)) \<Longrightarrow>
     yields st (on_uow (approvals_save a' (apr_version a))) Q (Open h)"
  by (rule yields_on_uow, use current_runs_save in fastforce)
     (rule yields_on_uow, use current_steps_save in fastforce,
      rule yields_on_uow, use current_approvals_save in fastforce)

lemma yields_events_append [yields_intros]:
  assumes "\<And>x. Q (Inr x) (Open (view_event e h))"
  shows "yields st (on_uow (events_append e)) Q (Open h)"
  by (rule yields_on_uow) (use current_events_append assms in metis)

lemma yields_commit [yields_intros]:
  assumes "single_pending (vw_approvals h)" and "Q (Inr ()) (Closed (h\<lparr>vw_new_runs := {}\<rparr>))"
  shows "yields st uow_commit Q (Open h)"
  unfolding yields_def
proof (intro allI impI)
  fix u s assume a: "at_scope st u s (Open h)"
  then have c: "current st u" and st: "store_ok st" and h: "uow_view u = h" and s: "sy_store s = st"
    by (simp_all add: at_scope_def)
  from current_commit [OF c st] assms(1) h obtain st' u' where
    "commit u st = Inr (st', u')" "store_ok st'" "store_view st' = h\<lparr>vw_new_runs := {}\<rparr>" by auto
  then show "case uow_commit (u, s) of (r, u', s') \<Rightarrow> \<exists>\<sigma>'. at_scope st u' s' \<sigma>' \<and> Q r \<sigma>'"
    using assms(2) st s
    by (auto simp: uow_commit_def at_scope_def intro!: exI [of _ "Closed (h\<lparr>vw_new_runs := {}\<rparr>)"])
qed

text \<open>A whole scope, from a well-formed store.\<close>

lemma yields_with_uow:
  assumes "sys_ok s" and "yields (sy_store s) m Q (Open (store_view (sy_store s)))"
  obtains \<sigma> where "Q (fst (with_uow m s)) \<sigma>"
    and "\<And>h. \<sigma> = Open h \<Longrightarrow> store_view (sy_store (snd (with_uow m s))) = store_view (sy_store s)"
    and "\<And>h. \<sigma> = Closed h \<Longrightarrow> store_view (sy_store (snd (with_uow m s))) = h"
proof -
  let ?u = "begin_uow (sy_store s)"
  have "at_scope (sy_store s) ?u s (Open (store_view (sy_store s)))"
    using assms(1) current_begin by (simp add: at_scope_def sys_ok_def)
  moreover obtain r u' s' where m: "m (?u, s) = (r, (u', s'))" by (metis prod.collapse)
  ultimately obtain \<sigma> where "at_scope (sy_store s) u' s' \<sigma>" and "Q r \<sigma>"
    using assms(2) unfolding yields_def by fastforce
  then show ?thesis using that [of \<sigma>] m by (auto simp: with_uow_def at_scope_def split: scope.splits)
qed

end
