(* ===== verification/Decisions.thy ===== *)
theory Decisions
  imports Transactions
begin

text \<open>
  What \<open>cancel_run\<close> and \<open>decide\<close> do to the store, on every branch: which states a run can be
  cancelled from, where an approved or rejected request takes its run, and what is refused.
\<close>

section \<open>More rules\<close>

lemma yields_mono:
  assumes "yields st m Q \<sigma>" and "\<And>r \<sigma>'. Q r \<sigma>' \<Longrightarrow> Q' r \<sigma>'"
  shows "yields st m Q' \<sigma>"
  using assms unfolding yields_def by (fastforce split: prod.splits)

lemma yields_pair [yields_intros]: "Q r \<sigma> \<Longrightarrow> yields st (Pair r) Q \<sigma>"
  by (auto simp: yields_def)

lemma yields_if [yields_intros]:
  "(c \<Longrightarrow> yields st m Q \<sigma>) \<Longrightarrow> (\<not> c \<Longrightarrow> yields st m' Q \<sigma>) \<Longrightarrow> yields st (if c then m else m') Q \<sigma>"
  by simp

lemma yields_attempts_list [yields_intros]:
  assumes "\<And>xs. set xs = run_attempts h r so \<Longrightarrow> Q (Inr xs) (Open h)"
  shows "yields st (on_uow (attempts_list r so)) Q (Open h)"
proof (rule yields_on_uow)
  fix u assume c: "current st u" and h: "uow_view u = h"
  have "table_ok attempt_key_of (sn_attempts u)"
    using c uow_okD(4) [of st u] unfolding current_def staged_ok_def by blast
  then have "set (attempts_of (sn_attempts u) r so) = run_attempts h r so"
    unfolding run_attempts_def h [symmetric] by (simp add: attempts_of_members uow_view_def)
  then show "\<exists>x u'. attempts_list r so u = (x, u') \<and> current st u' \<and> Q x (Open (uow_view u'))"
    using assms c h by (auto simp: attempts_list_def)
qed

text \<open>What only reads, and finds \<open>x\<close>.\<close>

abbreviation finds :: "memory_store \<Rightarrow> ('z, 'a) body \<Rightarrow> 'a \<Rightarrow> view \<Rightarrow> bool" where
  "finds st m x h \<equiv> yields st m (\<lambda>r \<sigma>. r = Inr x \<and> \<sigma> = Open h) (Open h)"

lemma finds_yields: "finds st m x h \<Longrightarrow> Q (Inr x) (Open h) \<Longrightarrow> yields st m Q (Open h)"
  by (erule yields_mono) simp

lemma finds_bnd:
  assumes "finds st m x h" and "yields st (f x) Q (Open h)"
  shows "yields st (bnd m f) Q (Open h)"
  by (intro yields_bnd finds_yields [OF assms(1)]) (simp add: assms(2))

lemma finds_any:
  assumes "\<And>x. x \<in> set xs \<Longrightarrow> finds st (p x) (b x) h"
  shows "finds st (any_act p xs) (\<exists>x \<in> set xs. b x) h"
  using assms
proof (induction xs)
  case (Cons x xs)
  have x: "finds st (p x) (b x) h" and IH: "finds st (any_act p xs) (\<exists>x \<in> set xs. b x) h"
    using Cons by simp_all
  show ?case unfolding any_act.simps
    by (rule finds_bnd [OF x]) (use IH in \<open>auto intro!: yields_leaves\<close>)
qed (simp add: yields_leaves)

lemma finds_step_state:
  "vw_steps h (r, i) = Some sr \<Longrightarrow> finds st (step_state_of r i) (sr_state sr) h"
  unfolding step_state_of_def by (intro yields_intros) (simp add: or_raise_def yields_intros)

lemma finds_run_or_raise: "vw_runs h r = Some run \<Longrightarrow> finds st (run_or_raise r) run h"
  unfolding run_or_raise_def by (intro yields_intros) (simp add: or_raise_def yields_intros)

lemma finds_definition:
  "vw_definitions h (wr_definition_id run, wr_definition_version run) = Some w \<Longrightarrow>
   finds st (definition_or_raise run) w h"
  unfolding definition_or_raise_def definition_of_def
  by (intro yields_intros) (simp add: or_raise_def yields_intros)

section \<open>Recovery work and rejection as functions of the view\<close>

definition needs_recovery :: "view \<Rightarrow> string \<Rightarrow> workflow_definition \<Rightarrow> bool" where
  "needs_recovery v r w \<longleftrightarrow>
     (\<exists>s \<in> set (wd_steps w). \<exists>sr. vw_steps v (r, sd_id s) = Some sr \<and> sr_state sr = StepResultUnknown)
     \<or> (\<exists>a \<in> run_attempts v r None. attempt_needs_recovery a)"

definition effective :: "view \<Rightarrow> string \<Rightarrow> step_definition \<Rightarrow> bool" where
  "effective v r s \<longleftrightarrow>
     (\<exists>sr. vw_steps v (r, sd_id s) = Some sr \<and> sr_state sr = StepSucceeded)
     \<and> (\<exists>a \<in> run_attempts v r (Some (sd_id s)). sa_status a = ''success'' \<and> sa_effect_applied a)"

definition rejection_state :: "view \<Rightarrow> string \<Rightarrow> step_definition list \<Rightarrow> run_state" where
  "rejection_state v r ss =
     (if \<exists>s \<in> set ss. effective v r s \<and> sd_compensation_tool s = None then RunManualIntervention
      else if \<exists>s \<in> set ss. effective v r s then RunCompensating else RunCancelled)"

lemma finds_recovery_required:
  assumes w: "vw_definitions h (wr_definition_id run, wr_definition_version run) = Some w"
    and steps: "\<And>s. s \<in> set (wd_steps w) \<Longrightarrow> vw_steps h (wr_run_id run, sd_id s) \<noteq> None"
  shows "finds st (approval_recovery_required run) (needs_recovery h (wr_run_id run) w) h"
proof -
  let ?r = "wr_run_id run"
  have s: "finds st (bnd (step_state_of ?r (sd_id s)) (\<lambda>st. ret (st = StepResultUnknown)))
      (sr_state (the (vw_steps h (?r, sd_id s))) = StepResultUnknown) h" if "s \<in> set (wd_steps w)" for s
  proof -
    from steps [OF that] obtain sr where sr: "vw_steps h (?r, sd_id s) = Some sr" by blast
    show ?thesis by (rule finds_bnd [OF finds_step_state [OF sr]]) (simp add: sr yields_leaves)
  qed
  let ?u = "\<exists>s \<in> set (wd_steps w). sr_state (the (vw_steps h (?r, sd_id s))) = StepResultUnknown"
  have u: "?u \<longleftrightarrow> (\<exists>s \<in> set (wd_steps w). \<exists>sr. vw_steps h (?r, sd_id s) = Some sr
      \<and> sr_state sr = StepResultUnknown)" by (rule bex_cong [OF refl]) (use steps in fastforce)
  show ?thesis
    unfolding approval_recovery_required_def
  proof (rule finds_bnd [OF finds_definition [OF w]], rule finds_bnd [OF finds_any [OF s]], assumption)
    show "finds st (if ?u then ret True else bnd (on_uow (attempts_list ?r None))
        (\<lambda>attempts. ret (list_ex attempt_needs_recovery attempts))) (needs_recovery h ?r w) h"
      by (intro yields_intros) (auto simp: needs_recovery_def u list_ex_iff intro!: yields_intros)
  qed
qed

lemma finds_rejection:
  "finds st (rejection_loop r ss b :: ('z, run_state) body)
     (if \<not> b \<or> (\<exists>s \<in> set ss. effective h r s \<and> sd_compensation_tool s = None)
      then rejection_state h r ss else RunCompensating) h"
proof (induction ss arbitrary: b)
  case Nil
  then show ?case by (auto simp: rejection_state_def intro: yields_pair)
next
  case (Cons s ss)
  let ?Q = "\<lambda>x \<sigma>. x = Inr (if \<not> b \<or> (\<exists>x \<in> set (s # ss). effective h r x \<and> sd_compensation_tool x = None)
      then rejection_state h r (s # ss) else RunCompensating) \<and> \<sigma> = Open h"
  have skip: "yields st (rejection_loop r ss b :: ('z, run_state) body) ?Q (Open h)" if "\<not> effective h r s"
    using that by (intro finds_yields [OF Cons.IH]) (simp add: rejection_state_def)
  have eff: "yields st (rejection_loop r ss True :: ('z, run_state) body) ?Q (Open h)"
    if "effective h r s" "sd_compensation_tool s \<noteq> None"
    using that by (intro finds_yields [OF Cons.IH]) (auto simp: rejection_state_def)
  show ?case
    unfolding rejection_loop.simps
  proof (intro yields_bnd yields_reads, unfold sum.case, intro yields_if)
    assume "case vw_steps h (r, sd_id s) of None \<Rightarrow> True | Some x \<Rightarrow> sr_state x \<noteq> StepSucceeded"
    then have "\<not> effective h r s" by (auto simp: effective_def split: option.splits)
    then show "yields st (rejection_loop r ss b :: ('z, run_state) body) ?Q (Open h)" by (rule skip)
  next
    assume sr: "\<not> (case vw_steps h (r, sd_id s) of None \<Rightarrow> True | Some x \<Rightarrow> sr_state x \<noteq> StepSucceeded)"
    have eq: "effective h r s \<longleftrightarrow> list_ex (\<lambda>a. sa_status a = ''success'' \<and> sa_effect_applied a) xs"
      if "set xs = run_attempts h r (Some (sd_id s))" for xs
      using sr that by (auto simp: effective_def list_ex_iff split: option.splits)
    show "yields st (bnd (on_uow (attempts_list r (Some (sd_id s)))) (\<lambda>attempts.
          if \<not> list_ex (\<lambda>a. sa_status a = ''success'' \<and> sa_effect_applied a) attempts
          then rejection_loop r ss b
          else if sd_compensation_tool s = None then ret RunManualIntervention
          else rejection_loop r ss True) :: ('z, run_state) body) ?Q (Open h)"
    proof (intro yields_bnd yields_attempts_list, unfold sum.case, intro yields_if)
      fix xs assume xs: "set xs = run_attempts h r (Some (sd_id s))"
        and e: "\<not> \<not> list_ex (\<lambda>a. sa_status a = ''success'' \<and> sa_effect_applied a) xs"
      assume "sd_compensation_tool s = None"
      then show "yields st (ret RunManualIntervention :: ('z, run_state) body) ?Q (Open h)"
        using e eq [OF xs] by (intro yields_leaves) (auto simp: rejection_state_def)
    qed (use skip eff eq in simp_all)
  qed
qed

section \<open>Cancelling\<close>

text \<open>The state and log after a run moved to \<open>target\<close>.\<close>

definition moved_run :: "workflow_run \<Rightarrow> run_state \<Rightarrow> workflow_run" where
  "moved_run run target = run\<lparr>wr_state := target, wr_revision := wr_revision run + 1\<rparr>"

definition run_move_event :: "workflow_run \<Rightarrow> run_state \<Rightarrow> int \<Rightarrow> audit_event" where
  "run_move_event run target at =
     run_state_changed (wr_run_id run) (run_state_value (wr_state run)) (run_state_value target) at
       (wr_revision run) (wr_revision run + 1)"

lemma run_transition_moves:
  "run_transition run target at =
     (if target \<in> set (RUN_TRANSITIONS (wr_state run))
      then Inr (moved_run run target, run_move_event run target at)
      else Inl (InvalidTransition ''run'' (run_state_value (wr_state run)) (run_state_value target)))"
  by (simp add: run_transition_def moved_run_def run_move_event_def)

lemma moved_run_simps [simp]:
  "wr_run_id (moved_run run t) = wr_run_id run" "wr_revision (moved_run run t) = wr_revision run + 1"
  "wr_state (moved_run run t) = t"
  by (simp_all add: moved_run_def)

lemma store_run_id:
  "store_ok st \<Longrightarrow> vw_runs (store_view st) r = Some run \<Longrightarrow> wr_run_id run = r"
  using store_okD(2) [of st] dget_Some_in_set [of "ms_runs st" r run]
  by (auto simp: store_view_def table_ok_def)

lemma store_single_pending: "store_ok st \<Longrightarrow> single_pending (vw_approvals (store_view st))"
  using store_okD(6) [of st] by (simp add: pending_unique_def store_view_def)

lemma yields_save_run:
  assumes "vw_runs h (wr_run_id run) = Some run"
    and "Q (Inr ()) (Open (view_event e (h\<lparr>vw_runs := (vw_runs h)(wr_run_id run \<mapsto> moved_run run t)\<rparr>)))"
  shows "yields st (save_run run (moved_run run t) e) Q (Open h)"
  unfolding save_run_def
  by (rule yields_bnd, rule yields_writes(1) [where run = run])
     (use assms in \<open>auto intro!: yields_bnd yields_events_append yields_leaves(1)\<close>)

lemma cancel_run_outcome:
  assumes ok: "sys_ok s" and run: "vw_runs (store_view (sy_store s)) r = Some run"
  shows "if RunCancelled \<in> set (RUN_TRANSITIONS (wr_state run))
     then fst (cancel_run env r s) = Inr ()
       \<and> (\<exists>at. store_view (sy_store (snd (cancel_run env r s)))
            = view_event (run_move_event run RunCancelled at) ((store_view (sy_store s))
                \<lparr>vw_runs := (vw_runs (store_view (sy_store s)))(r \<mapsto> moved_run run RunCancelled)\<rparr>))
     else fst (cancel_run env r s)
         = Inl (InvalidTransition ''run'' (run_state_value (wr_state run)) ''cancelled'')
       \<and> store_view (sy_store (snd (cancel_run env r s))) = store_view (sy_store s)"
proof -
  let ?v = "store_view (sy_store s)" and ?may = "RunCancelled \<in> set (RUN_TRANSITIONS (wr_state run))"
  have st: "store_ok (sy_store s)" using ok by (simp add: sys_ok_def)
  have r: "wr_run_id run = r" using store_run_id [OF st run] .
  let ?after = "\<lambda>at. view_event (run_move_event run RunCancelled at)
      (?v\<lparr>vw_runs := (vw_runs ?v)(r \<mapsto> moved_run run RunCancelled)\<rparr>)"
  let ?Q = "\<lambda>x \<sigma>. if ?may then x = Inr () \<and> (\<exists>at. \<sigma> = Closed (?after at))
      else x = Inl (InvalidTransition ''run'' (run_state_value (wr_state run)) ''cancelled'') \<and> \<sigma> = Open ?v"
  have new: "(?after at)\<lparr>vw_new_runs := {}\<rparr> = ?after at" for at
    by (simp add: view_event_def store_view_def)
  have "yields (sy_store s) (bnd (run_or_raise r) (\<lambda>run.
       bnd (on_service (clock_now env)) (\<lambda>at.
       bnd (lift_res (run_transition run RunCancelled at)) (\<lambda>(cancelled, event).
       bnd (save_run run cancelled event) (\<lambda>_. uow_commit))))) ?Q (Open ?v)"
  proof (rule finds_bnd [OF finds_run_or_raise [OF run]], rule yields_bnd, rule yields_clock,
      unfold sum.case, rule yields_bnd, rule yields_leaves(3))
    fix at
    show "case run_transition run RunCancelled at of Inl e \<Rightarrow> ?Q (Inl e) (Open ?v)
      | Inr x \<Rightarrow> yields (sy_store s) (case x of (cancelled, event) \<Rightarrow>
            bnd (save_run run cancelled event) (\<lambda>_. uow_commit)) ?Q (Open ?v)"
      using run r new store_single_pending [OF st]
      by (auto simp: run_transition_moves intro!: yields_bnd yields_save_run yields_commit) (rule exI, rule refl)
  qed
  then obtain \<sigma> where q: "?Q (fst (cancel_run env r s)) \<sigma>"
    and o: "\<And>h. \<sigma> = Open h \<Longrightarrow> store_view (sy_store (snd (cancel_run env r s))) = ?v"
    and c: "\<And>h. \<sigma> = Closed h \<Longrightarrow> store_view (sy_store (snd (cancel_run env r s))) = h"
    unfolding cancel_run_def by (rule yields_with_uow [OF ok]) blast
  show ?thesis
  proof (cases ?may)
    case True
    with q obtain at where "fst (cancel_run env r s) = Inr ()" and "\<sigma> = Closed (?after at)" by (simp only: if_True) blast
    then show ?thesis using c [of "?after at"] True by (simp only: if_True) blast
  next
    case False
    with q have "fst (cancel_run env r s) = Inl (InvalidTransition ''run'' (run_state_value (wr_state run)) ''cancelled'')"
      and "\<sigma> = Open ?v" by (simp_all only: if_False)
    then show ?thesis using o [of ?v] False by (simp only: if_False)
  qed
qed

section \<open>Deciding\<close>

definition decision_target :: "view \<Rightarrow> string \<Rightarrow> workflow_definition \<Rightarrow> approval_decision \<Rightarrow> run_state" where
  "decision_target v r w d =
     (case d of DecApproved \<Rightarrow> RunRunning | DecRejected \<Rightarrow> rejection_state v r (wd_steps w))"

definition actor_of :: "string \<Rightarrow> actor_digest" where
  "actor_of actor = \<lparr>ad_algorithm = ''sha256'', ad_digest = text_digest ''approval-actor'' actor\<rparr>"

definition reason_of :: "string \<Rightarrow> reason_digest" where
  "reason_of reason =
     (if is_blank reason then \<lparr>rd_provided = False, rd_algorithm = None, rd_digest = None\<rparr>
      else \<lparr>rd_provided = True, rd_algorithm = Some ''sha256'',
            rd_digest = Some (text_digest ''approval-reason'' reason)\<rparr>)"

lemma text_digest_ok [simp]: "is_sha256_digest (text_digest a b)"
  by (simp add: text_digest_def)

lemma make_actor_of: "make_actor_digest ''sha256'' (text_digest ''approval-actor'' actor) = Inr (actor_of actor)"
  by (simp add: make_actor_digest_def actor_of_def)

lemma make_reason_of:
  "(if is_blank reason then make_reason_digest False None None
    else make_reason_digest True (Some ''sha256'') (Some (text_digest ''approval-reason'' reason)))
   = Inr (reason_of reason)"
  by (simp add: make_reason_digest_def reason_of_def)

lemma make_decided:
  assumes "make_request q = Inr q" and "ar_status q = AprPending"
  shows "make_request (decided_request q d (actor_of actor) (reason_of reason) at)
       = Inr (decided_request q d (actor_of actor) (reason_of reason) at)"
proof -
  have "is_sha256_digest (ar_binding_digest q)" and "0 \<le> ar_version q"
    using assms(1) by (auto simp: make_request_def sbind_Inr_iff guard_def split: if_splits)
  then show ?thesis
    by (cases d)
      (simp_all add: make_request_def decided_request_def coerce_actor_digest_def coerce_reason_digest_def
        make_actor_of actor_of_def make_actor_digest_def reason_of_def make_reason_digest_def
        request_fields_ok_def)
qed

text \<open>What a decision leaves: the decided request, the moved run, and two events.\<close>

definition decided_view ::
  "view \<Rightarrow> approval_request \<Rightarrow> workflow_run \<Rightarrow> approval_decision \<Rightarrow> run_state \<Rightarrow> approval_request \<Rightarrow> int \<Rightarrow> view" where
  "decided_view v q run d target q' at =
     view_event (run_move_event run target at)
       (view_event (decision_event q run (moved_run run target) d at (the (ar_actor q')) (the (ar_reason q')) target)
         (v\<lparr>vw_approvals := (vw_approvals v)((ar_run_id q, ar_id q) \<mapsto> Request q'),
            vw_runs := (vw_runs v)(wr_run_id run \<mapsto> moved_run run target)\<rparr>))"

lemma decided_key: "approval_key_of (Request (decided_request q d ac re at)) = (ar_run_id q, ar_id q)"
  by (simp add: approval_key_of_def decided_request_def)

lemma single_pending_decided:
  assumes "single_pending m" and "\<not> is_pending a"
  shows "single_pending (m(k \<mapsto> a))"
  using assms unfolding single_pending_def by (auto split: if_splits)

lemma yields_apply_decision:
  assumes q: "vw_approvals h (ar_run_id q, ar_id q) = Some (Request q)"
    and run: "vw_runs h (wr_run_id run) = Some run"
    and valid: "make_request q = Inr q" "ar_status q = AprPending"
    and w: "vw_definitions h (wr_definition_id run, wr_definition_version run) = Some w"
    and waiting: "wr_state run = RunWaitingApproval"
    and single: "single_pending (vw_approvals h)"
    and q': "q' = decided_request q d (actor_of actor) (reason_of reason) at"
    and Q: "Q (Inr q') (Closed ((decided_view h q run d (decision_target h (wr_run_id run) w d) q' at)
              \<lparr>vw_new_runs := {}\<rparr>))"
  shows "yields st (apply_decision q run d (actor_of actor) (reason_of reason) at) Q (Open h)"
proof -
  let ?t = "decision_target h (wr_run_id run) w d"
  have t: "finds st (case d of DecApproved \<Rightarrow> ret RunRunning | DecRejected \<Rightarrow> rejection_target run) ?t h"
  proof (cases d)
    case DecRejected
    show ?thesis unfolding DecRejected rejection_target_def approval_decision.case
      by (rule finds_bnd [OF finds_definition [OF w]],
          rule yields_mono [OF finds_rejection [of st "wr_run_id run" "wd_steps w" False h]])
         (simp add: decision_target_def)
  qed (auto simp: decision_target_def intro!: yields_leaves(1))
  have target: "?t \<in> set (RUN_TRANSITIONS (wr_state run))"
    unfolding waiting by (cases d) (simp_all add: decision_target_def rejection_state_def)
  have acts: "the (ar_actor q') = actor_of actor" "the (ar_reason q') = reason_of reason"
    by (simp_all add: q' decided_request_def)
  have np: "\<not> is_pending (Request q')"
    by (cases d) (simp_all add: q' decided_request_def is_pending_def)
  have k: "approval_key_of (Request q') = (ar_run_id q, ar_id q)"
    by (simp add: q' decided_key)
  have ver: "apr_version (Request q') = apr_version (Request q) + 1" by (simp add: q' decided_request_def)
  have vq: "ar_version q = apr_version (Request q)" by simp
  have md: "make_request q' = Inr q'" unfolding q' by (rule make_decided [OF valid])
  show ?thesis
    unfolding apply_decision_def q' [symmetric]
    apply (rule finds_bnd [OF t])
    apply (rule yields_bnd, rule yields_leaves(3), unfold md sum.case)
    apply (rule yields_bnd, rule yields_leaves(3))
    unfolding run_transition_moves if_P [OF target] sum.case prod.case vq
    apply (rule yields_bnd, rule yields_writes(3) [where a = "Request q"])
      apply (simp add: k q)
     apply (rule ver)
    apply (unfold sum.case, rule yields_bnd, rule yields_writes(1) [where run = run])
      apply (simp add: run)
     apply simp
    apply (unfold sum.case, rule yields_bnd, rule yields_events_append, unfold sum.case)
    apply (rule yields_bnd, rule yields_events_append, unfold sum.case)
    apply (rule yields_bnd, rule yields_commit)
     apply (simp add: k single_pending_decided [OF single np])
    apply (unfold sum.case, rule yields_leaves(1))
    using Q by (simp add: decided_view_def k acts)
qed

text \<open>The checks, in the order the code makes them.\<close>

definition check_failure ::
  "view \<Rightarrow> string \<Rightarrow> string \<Rightarrow> int \<Rightarrow> string \<Rightarrow> workflow_definition \<Rightarrow> workflow_run \<Rightarrow> approval_request \<Rightarrow> error option" where
  "check_failure v r k n digest w run q =
     (if needs_recovery v (wr_run_id run) w then Some (ApprovalDecisionError ''approval_recovery_required'')
      else if ar_version q \<noteq> n then Some (OptimisticLockError ''approval'' (r @ '':'' @ k) n (ar_version q))
      else if ar_status q \<noteq> AprPending then Some (ApprovalDecisionError ''already_decided'')
      else if ar_binding_digest q \<noteq> digest then Some (ApprovalDecisionError ''binding_mismatch'')
      else if wr_state run \<noteq> RunWaitingApproval then Some (ApprovalDecisionError ''run_not_waiting_approval'')
      else None)"

lemma yields_checked_request:
  assumes q: "vw_approvals h (r, k) = Some (Request q)"
    and run: "vw_runs h (ar_run_id q) = Some run"
    and w: "vw_definitions h (wr_definition_id run, wr_definition_version run) = Some w"
    and steps: "\<And>s. s \<in> set (wd_steps w) \<Longrightarrow> vw_steps h (wr_run_id run, sd_id s) \<noteq> None"
    and Q: "Q (case check_failure h r k n digest w run q of None \<Rightarrow> Inr (q, run) | Some e \<Rightarrow> Inl e) (Open h)"
  shows "yields st (checked_request r k n digest) Q (Open h)"
proof -
  have guard: "yields st (bnd (lift_res (guard c e)) (\<lambda>_. m)) Q (Open h)"
    if "c \<Longrightarrow> yields st m Q (Open h)" and "\<not> c \<Longrightarrow> Q (Inl e) (Open h)" for c e
      and m :: "('z, approval_request \<times> workflow_run) body"
    using that by (intro yields_bnd yields_leaves(3)) (simp add: guard_def)
  show ?thesis
    unfolding checked_request_def
    apply (rule yields_bnd, rule yields_reads(4), unfold sum.case)
    apply (rule yields_bnd, rule yields_leaves(4))
    apply (simp only: q or_raise_def option.case sum.case approval_record.case)
    apply (rule finds_bnd [OF finds_run_or_raise [OF run]])
    apply (rule finds_bnd [OF finds_recovery_required [OF w steps]], assumption)
    apply (intro guard yields_leaves(1))
    using Q by (simp_all add: check_failure_def)
qed

lemma decide_outcome:
  fixes s :: "'z sys_scheme"
  assumes ok: "sys_ok s" and v: "v = store_view (sy_store s)"
    and d: "parse_decision decision = Some d"
    and q: "vw_approvals v (r, k) = Some (Request q)" and valid: "make_request q = Inr q"
    and run: "vw_runs v r = Some run"
    and w: "vw_definitions v (wr_definition_id run, wr_definition_version run) = Some w"
    and steps: "\<And>x. x \<in> set (wd_steps w) \<Longrightarrow> vw_steps v (r, sd_id x) \<noteq> None"
    and at: "at = en_now env (sy_ticks s)"
    and q': "q' = decided_request q d (actor_of actor) (reason_of reason) at"
    and res: "res = decide env r k decision n digest actor reason s"
  shows "case check_failure v r k n digest w run q of
      Some e \<Rightarrow> fst res = Inl e \<and> store_view (sy_store (snd res)) = v
    | None \<Rightarrow> fst res = Inr q'
        \<and> store_view (sy_store (snd res)) = decided_view v q run d (decision_target v r w d) q' at"
proof -
  let ?s = "s\<lparr>sy_ticks := Suc (sy_ticks s)\<rparr>"
  let ?m = "bnd (checked_request r k n digest) (\<lambda>(request, run).
       apply_decision request run d (actor_of actor) (reason_of reason) at) :: ('z, approval_request) body"
  have st: "store_ok (sy_store s)" using ok by (simp add: sys_ok_def)
  have key: "ar_run_id q = r" "ar_id q = k"
    using store_okD(5) [OF st] q dget_Some_in_set [of "ms_approvals (sy_store s)" "(r, k)" "Request q"] v
    by (auto simp: store_view_def table_ok_def approval_key_of_def)
  have r: "wr_run_id run = r" using store_run_id [OF st] run v by simp
  have vs: "store_view (sy_store ?s) = v" and ok': "sys_ok ?s" using ok v by (simp_all add: sys_ok_def)
  let ?after = "decided_view v q run d (decision_target v r w d) q' at"
  have new: "?after\<lparr>vw_new_runs := {}\<rparr> = ?after"
    by (simp add: v decided_view_def view_event_def store_view_def)
  let ?Q = "\<lambda>x \<sigma>. case check_failure v r k n digest w run q of
      Some e \<Rightarrow> x = Inl e \<and> \<sigma> = Open v | None \<Rightarrow> x = Inr q' \<and> \<sigma> = Closed ?after"
  have run': "vw_runs v (ar_run_id q) = Some run" using run key by simp
  have steps': "vw_steps v (wr_run_id run, sd_id x) \<noteq> None" if "x \<in> set (wd_steps w)" for x
    using steps that r by simp
  have "yields (sy_store ?s) ?m ?Q (Open v)"
  proof (rule yields_bnd, rule yields_checked_request [OF q run' w steps'], assumption)
    show "case (case check_failure v r k n digest w run q of None \<Rightarrow> Inr (q, run) | Some e \<Rightarrow> Inl e) of
        Inl e \<Rightarrow> ?Q (Inl e) (Open v)
      | Inr x \<Rightarrow> yields (sy_store ?s) ((case x of (request, run) \<Rightarrow>
          apply_decision request run d (actor_of actor) (reason_of reason) at) :: ('z, approval_request) body) ?Q (Open v)"
    proof (cases "check_failure v r k n digest w run q")
      case None
      then have p: "ar_status q = AprPending" and wait: "wr_state run = RunWaitingApproval"
        by (simp_all add: check_failure_def split: if_splits)
      have q2: "vw_approvals v (ar_run_id q, ar_id q) = Some (Request q)"
        and run2: "vw_runs v (wr_run_id run) = Some run" using q run key r by simp_all
      have "yields (sy_store ?s) (apply_decision q run d (actor_of actor) (reason_of reason) at :: ('z, approval_request) body) ?Q (Open v)"
        by (rule yields_apply_decision [OF q2 run2 valid p w wait _ q'])
           (use None r new store_single_pending [OF st] v in simp_all)
      then show ?thesis by (simp add: None)
    qed simp
  qed
  then obtain \<sigma> where qq: "?Q (fst res) \<sigma>"
    and o: "\<And>h. \<sigma> = Open h \<Longrightarrow> store_view (sy_store (snd res)) = v"
    and c: "\<And>h. \<sigma> = Closed h \<Longrightarrow> store_view (sy_store (snd res)) = h"
  proof -
    have e: "res = with_uow ?m ?s"
      unfolding res decide_def need_def
      by (simp add: d or_raise_def bnd_def clock_now_def tick_def make_actor_of make_reason_of at
          del: parse_decision.simps)
    assume y: "yields (sy_store ?s) ?m ?Q (Open v)"
      and th: "\<And>\<sigma>. ?Q (fst res) \<sigma> \<Longrightarrow> (\<And>h. \<sigma> = Open h \<Longrightarrow> store_view (sy_store (snd res)) = v) \<Longrightarrow>
        (\<And>h. \<sigma> = Closed h \<Longrightarrow> store_view (sy_store (snd res)) = h) \<Longrightarrow> thesis"
    from y have "yields (sy_store ?s) ?m ?Q (Open (store_view (sy_store ?s)))" by (simp only: vs)
    from yields_with_uow [OF ok' this, folded e, unfolded vs] show thesis using th by blast
  qed
  show ?thesis
  proof (cases "check_failure v r k n digest w run q")
    case None
    then show ?thesis using qq c [of ?after] by (simp only: option.case)
  next
    case (Some e)
    then show ?thesis using qq o [of v] by (simp only: option.case)
  qed
qed

end
