(* ===== verification/Samples.thy ===== *)
theory Samples
  imports System Decisions
begin

text \<open>
  Concrete states of the composed system: a run that was created from a payload of two steps, and
  the same run cancelled; and a store in which a run waits for an approval.
\<close>

section \<open>A created run\<close>

definition sample_env :: environment where
  "sample_env = \<lparr>en_now = int, en_identifier = (\<lambda>_. ''r'')\<rparr>"

definition sample_raws :: "pyval list" where
  "sample_raws = [sample_raw_step ''b'' [''a''], sample_raw_step ''a'' []]"

definition sample_driver :: driver where
  "sample_driver = snd (on_coordinator
     (create_run sample_env sample_registry (sample_payload sample_raws)) initial_driver)"

lemma sample_driver_step: "driver_step initial_driver sample_driver"
  unfolding sample_driver_def
  by (rule step_create)
    (simp add: no_collision_def driver_view_def the_store_def initial_driver_def store_view_def empty_store_def)

lemma sample_driver_reachable: "reachable sample_driver"
  by (rule reachable_step [OF reachable_init sample_driver_step])

lemma initial_sys_ok: "sys_ok (dr_coordinator initial_driver)"
  by (simp add: initial_driver_def sys_ok_def store_ok_empty)

text \<open>A world in which every submission is accepted and nothing finishes.\<close>

definition sample_world :: world where
  "sample_world = \<lparr>en_now = int, en_identifier = (\<lambda>_. ''x''), wo_tools = sample_registry,
     wo_concurrency = 4, wo_select = (\<lambda>_. Some ''r''), wo_submit = (\<lambda>_. True),
     wo_done = (\<lambda>_ _. False), wo_cancel = (\<lambda>_ _. False), wo_end = (\<lambda>_. Broken OtherException)\<rparr>"

text \<open>What is in it, whatever the digest is.\<close>

definition sample_workflow :: "string \<Rightarrow> workflow_definition" where
  "sample_workflow d = \<lparr>wd_definition_id = ''d'', wd_version = 1,
     wd_steps = [sample_step ''a'' [], sample_step ''b'' [''a'']], wd_digest = d\<rparr>"

lemma sample_accepted:
  obtains d where "from_mapping (sample_payload sample_raws) sample_registry = Inr (sample_workflow d)"
  unfolding sample_raws_def sample_workflow_def using sample_from_mapping [OF disjI1 [OF refl]] by blast

lemma sample_driver_contents:
  obtains d where "fst (create_run sample_env sample_registry (sample_payload sample_raws)
        (dr_coordinator initial_driver)) = Inr ''r''"
    and "dget (ms_runs (the_store sample_driver)) ''r'' = Some (new_run ''r'' ''d'' 1 d)"
    and "dget (ms_definitions (the_store sample_driver)) (''d'', 1) = Some (sample_workflow d)"
    and "\<And>i. i \<in> {''a'', ''b''} \<Longrightarrow> dget (ms_steps (the_store sample_driver)) (''r'', i) = Some (new_step ''r'' i)"
proof -
  obtain d where w: "from_mapping (sample_payload sample_raws) sample_registry = Inr (sample_workflow d)"
    by (rule sample_accepted)
  have e: "sy_store (dr_coordinator initial_driver) = empty_store" by (simp add: initial_driver_def)
  obtain s' where c: "create_run sample_env sample_registry (sample_payload sample_raws)
        (dr_coordinator initial_driver) = (Inr ''r'', s')"
    and v: "store_view (sy_store s')
       = (with_new_run ''r'' (sample_workflow d) (created_event ''r'' (sample_workflow d)
            (en_now sample_env (Suc (sy_ticks (dr_coordinator initial_driver)))))
            (store_view empty_store))\<lparr>vw_new_runs := {}\<rparr>"
    using create_run_returns [OF initial_sys_ok w, of "''r''" sample_env] e
    by (auto simp: sample_env_def empty_store_def)
  have st: "the_store sample_driver = sy_store s'"
    by (simp add: sample_driver_def on_coordinator_def c the_store_def)
  show ?thesis
  proof (rule that)
    show "fst (create_run sample_env sample_registry (sample_payload sample_raws)
        (dr_coordinator initial_driver)) = Inr ''r''" by (simp add: c)
    show "dget (ms_runs (the_store sample_driver)) ''r'' = Some (new_run ''r'' ''d'' 1 d)"
      using arg_cong [OF v, of vw_runs] st
      by (simp add: store_view_def with_new_run_def sample_workflow_def)
    show "dget (ms_definitions (the_store sample_driver)) (''d'', 1) = Some (sample_workflow d)"
      using arg_cong [OF v, of vw_definitions] st
      by (simp add: store_view_def with_new_run_def sample_workflow_def empty_store_def definition_key_of_def)
    show "dget (ms_steps (the_store sample_driver)) (''r'', i) = Some (new_step ''r'' i)"
      if "i \<in> {''a'', ''b''}" for i
      using arg_cong [OF v, of vw_steps] st that
      by (auto simp: store_view_def with_new_run_def sample_workflow_def sample_step_def)
  qed
qed

section \<open>The run cancelled\<close>

definition cancelled_driver :: driver where
  "cancelled_driver = snd (on_coordinator (cancel_run sample_env ''r'') sample_driver)"

lemma cancelled_driver_step: "driver_step sample_driver cancelled_driver"
  unfolding cancelled_driver_def by (rule step_cancel)

lemma cancelled_driver_reachable: "reachable cancelled_driver"
  by (rule reachable_step [OF sample_driver_reachable cancelled_driver_step])

lemma cancelled_driver_run:
  obtains run where "dget (ms_runs (the_store cancelled_driver)) ''r'' = Some run"
    and "wr_state run = RunCancelled" and "wr_revision run = 1"
proof -
  obtain d where r: "dget (ms_runs (the_store sample_driver)) ''r'' = Some (new_run ''r'' ''d'' 1 d)"
    by (rule sample_driver_contents)
  have ok: "sys_ok (dr_coordinator sample_driver)"
    using reachable_ok(1) [OF sample_driver_reachable] by (simp add: sys_ok_def the_store_def)
  let ?run = "new_run ''r'' ''d'' 1 d"
  have run: "vw_runs (store_view (sy_store (dr_coordinator sample_driver))) ''r'' = Some ?run"
    using r by (simp add: the_store_def store_view_def)
  have "RunCancelled \<in> set (RUN_TRANSITIONS (wr_state ?run))" by (simp add: new_run_def)
  then obtain at where "store_view (sy_store (snd (cancel_run sample_env ''r'' (dr_coordinator sample_driver))))
      = view_event (run_move_event ?run RunCancelled at)
          ((store_view (sy_store (dr_coordinator sample_driver)))
            \<lparr>vw_runs := (vw_runs (store_view (sy_store (dr_coordinator sample_driver))))
               (''r'' \<mapsto> moved_run ?run RunCancelled)\<rparr>)"
    using cancel_run_outcome [OF ok run, of sample_env] by (simp only: if_True) blast
  from arg_cong [OF this, of vw_runs]
  have "dget (ms_runs (the_store cancelled_driver)) ''r'' = Some (moved_run ?run RunCancelled)"
    by (auto simp: cancelled_driver_def the_store_def on_coordinator_def store_view_def split: prod.splits)
  then show ?thesis by (rule that) (simp_all add: new_run_def)
qed

section \<open>A run that waits for an approval\<close>

text \<open>
  Step \<open>a\<close> has succeeded: its attempt was recovered as applied. Step \<open>b\<close> waits for its approval.
\<close>

definition sample_request :: approval_request where
  "sample_request =
     \<lparr>ar_id = ''q'', ar_run_id = ''r'', ar_definition_digest = ''digest'', ar_step_id = ''b'',
      ar_tool_name = ''t'', ar_tool_version = ''1'', ar_redacted_arguments = PDict [],
      ar_binding_digest = replicate 64 CHR ''0'', ar_risk_reasons = [''step_risk_high''],
      ar_created_at = 0, ar_version = 0, ar_status = AprPending, ar_decision = None,
      ar_actor = None, ar_reason = None, ar_decided_at = None\<rparr>"

definition waiting_run :: workflow_run where
  "waiting_run = (new_run ''r'' ''d'' 1 ''digest'')\<lparr>wr_state := RunWaitingApproval, wr_revision := 2\<rparr>"

definition recovered_attempt :: step_attempt where
  "recovered_attempt =
     \<lparr>sa_run_id = ''r'', sa_step_id = ''a'', sa_attempt_no = 1, sa_phase = ''forward'',
      sa_attempt_id = ''x'', sa_status = ''succeeded'', sa_idempotency_key = ''key'',
      sa_started_at = 0, sa_effect_applied = True, sa_completed_at = Some 1,
      sa_next_attempt_at = None, sa_result = PNone, sa_error_class = None, sa_error_message = None\<rparr>"

definition waiting_store :: memory_store where
  "waiting_store =
     \<lparr>ms_definitions = [((''d'', 1), sample_workflow ''digest'')],
      ms_runs = [(''r'', waiting_run)],
      ms_steps = [((''r'', ''a''), (new_step ''r'' ''a'')\<lparr>sr_state := StepSucceeded, sr_revision := 3\<rparr>),
                  ((''r'', ''b''), (new_step ''r'' ''b'')\<lparr>sr_state := StepReady, sr_revision := 1\<rparr>)],
      ms_attempts = [((''r'', ''a'', 1, ''forward''), recovered_attempt)],
      ms_approvals = [((''r'', ''q''), Request sample_request)],
      ms_events = [], ms_event_sequences = []\<rparr>"

definition waiting_sys :: sys where
  "waiting_sys = \<lparr>sy_store = waiting_store, sy_ticks = 0\<rparr>"

lemma waiting_ok: "sys_ok waiting_sys"
  by (auto simp: waiting_sys_def sys_ok_def store_ok_def waiting_store_def table_ok_def sample_workflow_def
      definition_key_of_def waiting_run_def new_run_def step_key_of_def new_step_def attempt_key_of_def
      recovered_attempt_def approval_key_of_def sample_request_def pending_unique_def single_pending_def
      log_ok_def dget_list_def sequence_of_def split: if_splits)

lemma sample_request_valid: "make_request sample_request = Inr sample_request"
  by (simp add: make_request_def sample_request_def coerce_actor_digest_def coerce_reason_digest_def
      is_sha256_digest_def request_fields_ok_def list_all_iff is_hex_char_def)

lemma waiting_view:
  "vw_approvals (store_view waiting_store) (''r'', ''q'') = Some (Request sample_request)"
  "vw_runs (store_view waiting_store) ''r'' = Some waiting_run"
  "vw_definitions (store_view waiting_store) (''d'', 1) = Some (sample_workflow ''digest'')"
  "vw_steps (store_view waiting_store) (''r'', ''a'') = Some ((new_step ''r'' ''a'')\<lparr>sr_state := StepSucceeded, sr_revision := 3\<rparr>)"
  "vw_steps (store_view waiting_store) (''r'', ''b'') = Some ((new_step ''r'' ''b'')\<lparr>sr_state := StepReady, sr_revision := 1\<rparr>)"
  "run_attempts (store_view waiting_store) ''r'' so
     = (if so \<in> {None, Some ''a''} then {recovered_attempt} else {})"
  by (auto simp: store_view_def waiting_store_def run_attempts_def attempt_key_of_def
      recovered_attempt_def split: if_splits)

lemma waiting_check:
  "check_failure (store_view waiting_store) ''r'' ''q'' 0 (replicate 64 CHR ''0'')
     (sample_workflow ''digest'') waiting_run sample_request = None"
  by (auto simp: check_failure_def needs_recovery_def waiting_run_def new_run_def sample_request_def
      sample_workflow_def sample_step_def waiting_view new_step_def recovered_attempt_def
      attempt_needs_recovery_def simp del: One_nat_def)

end
