(* ===== verification/Guarantees.thy ===== *)
theory Guarantees
  imports Samples
begin

text \<open>
  What each service of the runtime promises its caller, on every branch: what it returns or
  raises, and what it leaves in the store.
\<close>

section \<open>Transactions\<close>

text \<open>
  C3: every transaction of the runtime is all or nothing: a service call that raises, for whatever
  reason and wherever in its body, leaves the store exactly as it was.
\<close>

theorem transactions_are_atomic:
  "atomic (create_run env reg payload) \<and> atomic (cancel_run env r)
   \<and> atomic (decide env r k decision n digest actor reason)
   \<and> atomic (commit_attempt_started a) \<and> atomic (persist_outcome w out ps)
   \<and> atomic (promote_due_retries env r) \<and> atomic (promote_dependency_ready_steps env r)
   \<and> atomic (establish_approval_barrier w r i) \<and> atomic (finish_compensation env r)
   \<and> atomic (recover_attempt rw r i a)"
  by (intro conjI atomic_services atomic_coordinator atomic_persist)

section \<open>Creating and reading back\<close>

text \<open>
  C21: a run that is created can be read back: when the payload is accepted, the new identifier is
  free and its definition is not stored with other content, \<open>create_run\<close> returns the identifier,
  and \<open>get_run\<close> then answers the accepted definition's identity with every step pending.
\<close>

theorem created_run_is_read_back:
  assumes "sys_ok s" and "from_mapping payload reg = Inr w"
    and "r = en_identifier env (sy_ticks s)" and "r \<noteq> []"
    and "dget (ms_definitions (sy_store s)) (definition_key_of w) \<in> {None, Some w}"
    and "dget (ms_runs (sy_store s)) r = None"
    and "\<And>i. dget (ms_steps (sy_store s)) (r, i) = None"
    and "\<And>k. dget (ms_approvals (sy_store s)) (r, k) = None"
  shows "\<exists>s'. create_run env reg payload s = (Inr r, s')
     \<and> fst (get_run (Some r) s') = Inr (fresh_dto r w (map sd_id (wd_steps w)))"
  by (rule create_then_get [OF assms])

theorem created_run_is_read_back_witness:
  "\<exists>w s'. create_run sample_env sample_registry (sample_payload sample_raws)
            (dr_coordinator initial_driver) = (Inr ''r'', s')
     \<and> fst (get_run (Some ''r'') s') = Inr (fresh_dto ''r'' w [''a'', ''b''])"
proof -
  obtain d where w: "from_mapping (sample_payload sample_raws) sample_registry = Inr (sample_workflow d)"
    by (rule sample_accepted)
  have r: "''r'' = en_identifier sample_env (sy_ticks (dr_coordinator initial_driver))"
    by (simp add: sample_env_def)
  from created_run_is_read_back [OF initial_sys_ok w r] show ?thesis
    by (fastforce simp: initial_driver_def empty_store_def sample_workflow_def sample_step_def)
qed

text \<open>
  a definition identity is never rebound: when a definition is stored under the payload's id
  and version with another digest, \<open>create_run\<close> raises the conflict and stores nothing.
\<close>

theorem definition_conflict_refused:
  fixes s :: "'z sys_scheme"
  assumes "sys_ok s" and "from_mapping payload reg = Inr w"
    and "dget (ms_definitions (sy_store s)) (definition_key_of w) = Some d"
    and "wd_digest d \<noteq> wd_digest w"
  shows "fst (create_run env reg payload s) = Inl (definition_conflict w)
     \<and> sy_store (snd (create_run env reg payload s)) = sy_store s"
proof -
  have "fst (create_run env reg payload s) = Inl (definition_conflict w)"
    using assms(2-4)
    by (simp add: create_run_def store_run_def stage_run_def bnd_def with_uow_def on_uow_def
        definitions_get_def begin_uow_def definition_key_of_def guard_def new_identifier_def
        clock_now_def tick_def)
  moreover from this have "sy_store (snd (create_run env reg payload s)) = sy_store s"
    using atomic_services(1) unfolding atomic_def by blast
  ultimately show ?thesis by blast
qed

theorem definition_conflict_refused_witness:
  "\<exists>w. fst (create_run sample_env sample_registry (sample_payload sample_raws) waiting_sys)
         = Inl (definition_conflict w)"
proof -
  obtain d where w: "from_mapping (sample_payload sample_raws) sample_registry = Inr (sample_workflow d)"
    by (rule sample_accepted)
  have "length d = 64" using from_mapping_ok_aux [OF w]
    by (simp add: definition_ok_def sample_workflow_def is_sha256_digest_def)
  then have "wd_digest (sample_workflow ''digest'') \<noteq> wd_digest (sample_workflow d)"
    by (auto simp: sample_workflow_def)
  moreover have "dget (ms_definitions (sy_store waiting_sys)) (definition_key_of (sample_workflow d))
      = Some (sample_workflow ''digest'')"
    by (simp add: waiting_sys_def waiting_store_def definition_key_of_def sample_workflow_def)
  ultimately show ?thesis using definition_conflict_refused [OF waiting_ok w] by blast
qed

section \<open>Cancelling and deciding\<close>

text \<open>
  C22: \<open>cancel_run\<close> on a stored run does exactly this: from \<open>pending\<close>, \<open>running\<close> and
  \<open>waiting_approval\<close> it succeeds, moves the run to \<open>cancelled\<close> at the next revision, logs that one
  event and touches nothing else; from every other state it raises \<open>InvalidTransition\<close> and changes
  nothing.
\<close>

theorem cancel_run_correct:
  assumes "sys_ok s" and "v = store_view (sy_store s)" and "vw_runs v r = Some run"
  shows "if wr_state run \<in> {RunPending, RunRunning, RunWaitingApproval}
     then fst (cancel_run env r s) = Inr ()
       \<and> (\<exists>at. store_view (sy_store (snd (cancel_run env r s)))
            = view_event (run_move_event run RunCancelled at)
                (v\<lparr>vw_runs := (vw_runs v)(r \<mapsto> moved_run run RunCancelled)\<rparr>))
     else fst (cancel_run env r s)
         = Inl (InvalidTransition ''run'' (run_state_value (wr_state run)) ''cancelled'')
       \<and> store_view (sy_store (snd (cancel_run env r s))) = v"
proof -
  have "RunCancelled \<in> set (RUN_TRANSITIONS (wr_state run))
      \<longleftrightarrow> wr_state run \<in> {RunPending, RunRunning, RunWaitingApproval}"
    by (cases "wr_state run") simp_all
  then show ?thesis
    using cancel_run_outcome [OF assms(1) assms(3) [unfolded assms(2)], of env, folded assms(2)]
    by (simp only:)
qed

theorem cancel_run_correct_witness:
  "fst (cancel_run sample_env ''r'' waiting_sys) = Inr ()
   \<and> vw_runs (store_view (sy_store (snd (cancel_run sample_env ''r'' waiting_sys)))) ''r''
       = Some (moved_run waiting_run RunCancelled)"
proof -
  have r: "vw_runs (store_view (sy_store waiting_sys)) ''r'' = Some waiting_run"
    by (simp add: waiting_sys_def waiting_view)
  have "wr_state waiting_run \<in> {RunPending, RunRunning, RunWaitingApproval}" by (simp add: waiting_run_def)
  with cancel_run_correct [OF waiting_ok refl r, of sample_env] show ?thesis by auto
qed



text \<open>
  The rejection looks for attempts with the status \<open>success\<close> only. An effect that the recovery
  proved to be applied has the status \<open>succeeded\<close>: in \<open>waiting_store\<close> the step \<open>a\<close> has succeeded
  with an applied effect, and yet rejecting the request of \<open>b\<close> cancels the run as if there were
  nothing to undo.
\<close>

theorem rejection_forgets_recovered_effect:
  "vw_runs (store_view (sy_store (snd (decide sample_env ''r'' ''q'' ''rejected'' 0
       (replicate 64 CHR ''0'') ''ops'' '''' waiting_sys)))) ''r'' = Some (moved_run waiting_run RunCancelled)
   \<and> sa_effect_applied recovered_attempt \<and> sa_status recovered_attempt = ''succeeded''
   \<and> recovered_attempt \<in> run_attempts (store_view (sy_store waiting_sys)) ''r'' (Some ''a'')"
proof -
  have st: "sy_store waiting_sys = waiting_store" by (simp add: waiting_sys_def)
  have ids: "wr_definition_id waiting_run = ''d''" "wr_definition_version waiting_run = 1"
    "wr_run_id waiting_run = ''r''" by (simp_all add: waiting_run_def new_run_def)
  have steps: "vw_steps (store_view waiting_store) (''r'', sd_id x) \<noteq> None"
    if "x \<in> set (wd_steps (sample_workflow ''digest''))" for x
    using that by (auto simp: sample_workflow_def sample_step_def waiting_view)
  have w: "vw_definitions (store_view waiting_store) (wr_definition_id waiting_run, wr_definition_version waiting_run)
      = Some (sample_workflow ''digest'')" unfolding ids by (rule waiting_view(3))
  have p: "parse_decision ''rejected'' = Some DecRejected" by simp
  have t: "decision_target (store_view waiting_store) ''r'' (sample_workflow ''digest'') DecRejected = RunCancelled"
    by (auto simp: decision_target_def rejection_state_def effective_def waiting_view recovered_attempt_def
        split: if_splits)
  from decide_outcome [OF waiting_ok refl p _ sample_request_valid _ _ _ refl refl refl, unfolded st,
      OF waiting_view(1,2) w steps, where n = 0 and digest = "replicate 64 CHR ''0''"
        and env = sample_env and actor = "''ops''" and reason = "''''"]
  show ?thesis unfolding waiting_check option.case t st
    by (auto simp: decided_view_def ids waiting_view) (simp_all add: recovered_attempt_def)
qed

end
