(* ===== verification/Dispatch.thy ===== *)
theory Dispatch
  imports Samples
begin

text \<open>
  What the coordinator promises about the steps it dispatches: a step that needs an approval is
  only chosen with an approved request bound to it, and there are never more tools running than
  the configured concurrency.
\<close>

section \<open>Nothing protected without its approval\<close>

text \<open>An approved request of the run, bound to the definition, the step, its tool and the digest.\<close>

definition approved_for ::
  "memory_store \<Rightarrow> string \<Rightarrow> workflow_definition \<Rightarrow> step_definition \<Rightarrow> string \<Rightarrow> bool" where
  "approved_for st r w s digest \<longleftrightarrow>
     (\<exists>q. Request q \<in> set (approvals_of (ms_approvals st) r) \<and> ar_status q = AprApproved
        \<and> request_matches q (wd_digest w) (sd_id s) (ref_name (sd_tool s)) (ref_version (sd_tool s)) digest)"

lemma approved_match_True:
  assumes "approved_match w s digest a = Inr True"
  shows "\<exists>q. a = Request q \<and> ar_status q = AprApproved
     \<and> request_matches q (wd_digest w) (sd_id s) (ref_name (sd_tool s)) (ref_version (sd_tool s)) digest"
proof (cases a)
  case (Request q)
  then show ?thesis using assms
    by (cases "ar_status q") (auto simp: approved_match_def split: if_splits)
qed (use assms in \<open>auto simp: approved_match_def split: if_splits\<close>)

lemma any_act_lift:
  assumes "any_act (\<lambda>a. lift_res (p a)) xs c = (Inr b, c')"
  shows "c' = c \<and> (b \<longrightarrow> (\<exists>a \<in> set xs. p a = Inr True))"
  using assms
proof (induction xs)
  case (Cons x xs)
  then show ?case by (cases "p x") (auto simp: bnd_def split: if_splits)
qed simp

lemma first_act_lift_Some:
  assumes "first_act (\<lambda>a. lift_res (p a)) xs c = (Inr (Some a), c')"
  shows "c' = c \<and> a \<in> set xs \<and> p a = Inr True"
  using assms
proof (induction xs)
  case (Cons x xs)
  then show ?case by (cases "p x") (auto simp: bnd_def split: if_splits)
qed simp

lemma first_act_lift_None:
  assumes "first_act (\<lambda>a. lift_res (p a)) xs c = (Inr None, c')"
  shows "c' = c \<and> (\<forall>a \<in> set xs. p a = Inr False)"
  using assms
proof (induction xs)
  case (Cons x xs)
  then show ?case by (cases "p x") (auto simp: bnd_def split: if_splits)
qed simp

lemma quiet_store:
  assumes "\<And>st. pres (sys_is st) m" and "m c = (x, c')"
  shows "sy_store c' = sy_store c"
  using presD [OF assms(1), of "sy_store c" c] assms(2) by (simp add: sys_is_def)

lemma quiet_body_store:
  assumes "\<And>st. pres (body_is st) m" and "m p = (x, p')"
  shows "sy_store (snd p') = sy_store (snd p)"
  using presD [OF assms(1), of "sy_store (snd p)" p] assms(2) by (simp add: body_is_def)

lemma approvals_read:
  "with_uow (on_uow (approvals_list r)) c = (Inr (approvals_of (ms_approvals (sy_store c)) r), c)"
  by (simp add: with_uow_def on_uow_def approvals_list_def begin_uow_def)

lemma open_barrier_Some: "open_barrier env r run d s sn as at p = (Inr x, p') \<Longrightarrow> x \<noteq> None"
  unfolding open_barrier_def by (auto elim!: bnd_eq_InrE)

lemma find_found: "List.find p xs = Some x \<Longrightarrow> x \<in> set xs \<and> p x"
  by (induction xs) (auto split: if_splits)

text \<open>The reads of the barrier's unit of work, which begins on the store.\<close>

lemma establish_None:
  fixes c :: coordinator
  assumes "with_uow (establish_body w r i at) c = (Inr None, c')"
    and run: "dget (ms_runs (sy_store c)) r = Some run"
    and d: "dget (ms_definitions (sy_store c)) (wr_definition_id run, wr_definition_version run) = Some d"
  shows "\<exists>s sn. s \<in> set (wd_steps d) \<and> sd_id s = i \<and> approval_snapshot (wo_tools w) d s = Inr sn
     \<and> approved_for (sy_store c) r d s (fst (snd sn))"
proof -
  let ?u = "begin_uow (sy_store c)"
  obtain u' where e: "establish_body w r i at (?u, c) = (Inr None, (u', c'))"
    using assms(1) by (auto simp: with_uow_def split: prod.splits)
  have r1: "run_or_raise r (?u, c) = (Inr run, (?u, c))"
    by (simp add: run_or_raise_def on_uow_def runs_get_def begin_uow_def bnd_def need_def or_raise_def run)
  have d1: "definition_or_raise run (?u, c) = (Inr d, (?u, c))"
    by (simp add: definition_or_raise_def definition_of_def on_uow_def definitions_get_def
        begin_uow_def bnd_def need_def or_raise_def d)
  obtain rec p1 where rw: "uow_has_persisted_recovery_work run d (?u, c) = (Inr rec, p1)" and
    rest: "(if rec then ret (Some ''approval_recovery_required'')
       else bnd (first_of (\<lambda>s. sd_id s = i) (wd_steps d)) (\<lambda>s.
         bnd (lift_res (approval_snapshot (wo_tools w) d s)) (\<lambda>snapshot.
         bnd (on_uow (approvals_list r)) (\<lambda>approvals.
         bnd (first_act (\<lambda>a. lift_res (approved_match d s (fst (snd snapshot)) a)) approvals) (\<lambda>approved.
         if approved \<noteq> None then ret None
         else open_barrier (env_of w) r run d s snapshot approvals at))))) p1 = (Inr None, (u', c'))"
    using e unfolding establish_body_def bnd_Inr [where m = "run_or_raise r" and s = "(?u, c)", OF r1]
      bnd_Inr [where m = "definition_or_raise run" and s = "(?u, c)", OF d1] by (elim bnd_eq_InrE)
  have p1: "p1 = (?u, c)" using presD [OF reader_recovery_work [where p = "(?u, c)"] refl, of run d] rw by simp
  have nrec: "\<not> rec" using rest by auto
  obtain s where f: "List.find (\<lambda>s. sd_id s = i) (wd_steps d) = Some s"
    using rest nrec by (cases "List.find (\<lambda>s. sd_id s = i) (wd_steps d)")
      (auto simp: first_of_def need_def or_raise_def bnd_def)
  obtain sn where sn: "approval_snapshot (wo_tools w) d s = Inr sn"
    using rest nrec f by (cases "approval_snapshot (wo_tools w) d s")
      (auto simp: first_of_def need_def or_raise_def bnd_def)
  let ?as = "approvals_of (ms_approvals (sy_store c)) r"
  have l: "on_uow (approvals_list r) (?u, c) = (Inr ?as, (?u, c))"
    by (simp add: on_uow_def approvals_list_def begin_uow_def)
  have "bnd (first_act (\<lambda>a. lift_res (approved_match d s (fst (snd sn)) a)) ?as) (\<lambda>approved.
         if approved \<noteq> None then ret None
         else open_barrier (env_of w) r run d s sn ?as at) (?u, c) = (Inr None, (u', c'))"
    using rest nrec f sn by (simp add: p1 first_of_def need_def or_raise_def
        bnd_Inr [where m = "on_uow (approvals_list r)" and s = "(?u, c)", OF l])
  then obtain approved p2 where fa: "first_act (\<lambda>a. lift_res (approved_match d s (fst (snd sn)) a)) ?as (?u, c)
        = (Inr approved, p2)"
    and fin: "(if approved \<noteq> None then ret None else open_barrier (env_of w) r run d s sn ?as at) p2
        = (Inr None, (u', c'))" by (elim bnd_eq_InrE)
  have "approved \<noteq> None"
  proof
    assume "approved = None"
    then have "open_barrier (env_of w) r run d s sn ?as at p2 = (Inr None, (u', c'))" using fin by simp
    from open_barrier_Some [OF this] show False by simp
  qed
  then obtain a where a: "approved = Some a" by blast
  have "p2 = (?u, c) \<and> a \<in> set ?as \<and> approved_match d s (fst (snd sn)) a = Inr True"
    using fa unfolding a by (rule first_act_lift_Some)
  then have "approved_for (sy_store c) r d s (fst (snd sn))"
    unfolding approved_for_def using approved_match_True by blast
  moreover have "s \<in> set (wd_steps d)" and "sd_id s = i" using find_found [OF f] by blast+
  ultimately show ?thesis using sn by blast
qed

text \<open>
  The barrier lets a protected step pass only on an approval; the definition that was loaded is
  the one that is stored, since definitions are never replaced.
\<close>

lemma barrier_passes:
  fixes c :: coordinator
  assumes h: "handle_approval_barrier w r d s c = (Inr None, c')"
    and run: "dget (ms_runs (sy_store c)) r = Some run"
    and d: "dget (ms_definitions (sy_store c)) (wr_definition_id run, wr_definition_version run) = Some d"
    and s: "s \<in> set (wd_steps d)" "distinct (map sd_id (wd_steps d))"
  shows "\<exists>sn. approval_snapshot (wo_tools w) d s = Inr sn \<and> approved_for (sy_store c) r d s (fst (snd sn))"
proof -
  obtain sn where sn: "approval_snapshot (wo_tools w) d s = Inr sn"
    using h by (cases "approval_snapshot (wo_tools w) d s") (auto simp: handle_approval_barrier_def bnd_def)
  have "bnd (has_persisted_recovery_work r) (\<lambda>recover.
     if recover then ret (Some ''approval_recovery_required'')
     else bnd (has_unpersisted_outcome r) (\<lambda>draining.
     if draining then ret (Some ''approval_draining'')
     else bnd (with_uow (on_uow (approvals_list r))) (\<lambda>approvals.
     bnd (any_act (\<lambda>a. lift_res (approved_match d s (fst (snd sn)) a)) approvals) (\<lambda>approved.
     if approved then ret None else establish_approval_barrier w r (sd_id s))))) c = (Inr None, c')"
    using h by (simp add: handle_approval_barrier_def sn)
  then obtain c1 where c1: "has_persisted_recovery_work r c = (Inr False, c1)"
    and h1: "bnd (has_unpersisted_outcome r) (\<lambda>draining.
     if draining then ret (Some ''approval_draining'')
     else bnd (with_uow (on_uow (approvals_list r))) (\<lambda>approvals.
     bnd (any_act (\<lambda>a. lift_res (approved_match d s (fst (snd sn)) a)) approvals) (\<lambda>approved.
     if approved then ret None else establish_approval_barrier w r (sd_id s)))) c1 = (Inr None, c')"
    by (elim bnd_eq_InrE) (auto split: if_splits)
  have st1: "sy_store c1 = sy_store c"
    by (rule quiet_store [OF quiet_coordinator(11) c1])
  obtain b where b: "has_unpersisted_outcome r c1 = (Inr b, c1)"
    by (simp add: has_unpersisted_outcome_def)
  have "\<not> b"
    using h1 unfolding bnd_Inr [where m = "has_unpersisted_outcome r" and s = c1, OF b] by auto
  then have "bnd (any_act (\<lambda>a. lift_res (approved_match d s (fst (snd sn)) a))
        (approvals_of (ms_approvals (sy_store c)) r)) (\<lambda>approved.
     if approved then ret None else establish_approval_barrier w r (sd_id s)) c1 = (Inr None, c')"
    using h1 unfolding bnd_Inr [where m = "has_unpersisted_outcome r" and s = c1, OF b]
    by (simp add: st1 bnd_Inr [where m = "with_uow (on_uow (approvals_list r))" and s = c1, OF approvals_read])
  then obtain approved c2 where any: "any_act (\<lambda>a. lift_res (approved_match d s (fst (snd sn)) a))
        (approvals_of (ms_approvals (sy_store c)) r) c1 = (Inr approved, c2)"
    and fin: "(if approved then ret None else establish_approval_barrier w r (sd_id s)) c2 = (Inr None, c')"
    by (elim bnd_eq_InrE)
  note found = any_act_lift [where p = "approved_match d s (fst (snd sn))", OF any]
  show ?thesis
  proof (cases approved)
    case True
    then obtain a where "a \<in> set (approvals_of (ms_approvals (sy_store c)) r)"
      and "approved_match d s (fst (snd sn)) a = Inr True" using found by blast
    then show ?thesis unfolding approved_for_def using approved_match_True sn by blast
  next
    case False
    have "c2 = c1" using found by blast
    let ?c3 = "c1\<lparr>sy_ticks := Suc (sy_ticks c1)\<rparr>"
    have e: "with_uow (establish_body w r (sd_id s) (en_now (env_of w) (sy_ticks c1))) ?c3 = (Inr None, c')"
      using fin False \<open>c2 = c1\<close> by (simp add: establish_approval_barrier_def clock_now_def tick_def bnd_def)
    have st3: "sy_store ?c3 = sy_store c" using st1 by simp
    from establish_None [OF e, unfolded st3, OF run d] obtain s' sn' where
      "s' \<in> set (wd_steps d)" "sd_id s' = sd_id s" "approval_snapshot (wo_tools w) d s' = Inr sn'"
      "approved_for (sy_store c) r d s' (fst (snd sn'))" by blast
    moreover from this s have "s' = s" by (meson distinct_map inj_onD)
    ultimately show ?thesis by blast
  qed
qed

lemma choice_is_approved:
  fixes c :: coordinator
  assumes ch: "choose_candidates w r d ready c = (Inr (Inr chosen), c')"
    and run: "dget (ms_runs (sy_store c)) r = Some run"
    and d: "dget (ms_definitions (sy_store c)) (wr_definition_id run, wr_definition_version run) = Some d"
    and ready: "set ready \<subseteq> set (wd_steps d)" "distinct (map sd_id (wd_steps d))"
    and s: "s \<in> set chosen"
  shows "s \<in> set ready \<and> (requires_approval (wo_tools w) s = Inr False
     \<or> (\<exists>sn. approval_snapshot (wo_tools w) d s = Inr sn \<and> approved_for (sy_store c) r d s (fst (snd sn))))"
proof -
  obtain found c1 where f: "first_act (\<lambda>s. lift_res (requires_approval (wo_tools w) s)) ready c = (Inr found, c1)"
    and rest: "(case found of None \<Rightarrow> ret (Inr ready)
     | Some s \<Rightarrow> bnd (handle_approval_barrier w r d s) (\<lambda>reason.
          ret (case reason of None \<Rightarrow> Inr [s] | Some x \<Rightarrow> Inl x))) c1 = (Inr (Inr chosen), c')"
    using ch unfolding choose_candidates_def by (rule bnd_eq_InrE)
  show ?thesis
  proof (cases found)
    case None
    then have "chosen = ready" using rest by simp
    moreover have "c1 = c \<and> (\<forall>a \<in> set ready. requires_approval (wo_tools w) a = Inr False)"
      using f unfolding None by (rule first_act_lift_None)
    ultimately show ?thesis using s by blast
  next
    case (Some p)
    have fp: "c1 = c \<and> p \<in> set ready \<and> requires_approval (wo_tools w) p = Inr True"
      using f unfolding Some by (rule first_act_lift_Some)
    then have c1: "c1 = c" and p: "p \<in> set ready" by blast+
    have "bnd (handle_approval_barrier w r d p) (\<lambda>reason.
          ret (case reason of None \<Rightarrow> Inr [p] | Some x \<Rightarrow> Inl x)) c = (Inr (Inr chosen), c')"
      using rest Some c1 by simp
    then obtain reason c2 where h2: "handle_approval_barrier w r d p c = (Inr reason, c2)"
      and e2: "ret (case reason of None \<Rightarrow> Inr [p] | Some x \<Rightarrow> Inl x) c2 = (Inr (Inr chosen) :: error + _, c')"
      by (rule bnd_eq_InrE)
    then have h: "handle_approval_barrier w r d p c = (Inr reason, c')"
      and e: "(case reason of None \<Rightarrow> Inr [p] | Some x \<Rightarrow> Inl x) = Inr chosen" by simp_all
    have none: "reason = None" and "chosen = [p]" using e by (auto split: option.splits)
    then have sp: "s = p" using s by simp
    have "p \<in> set (wd_steps d)" using p ready by blast
    from barrier_passes [OF h [unfolded none] run d this ready(2)] show ?thesis using sp p by blast
  qed
qed

text \<open>
  C4: nothing protected without its approval. On a run whose definition is stored, every step that
  the coordinator chooses to dispatch is one of the ready ones, and either it needs no approval,
  neither for its own risk nor for that of its tool, or the store holds an approved request of the
  run that is bound to the definition, the step, its tool and the digest of its arguments.
\<close>

theorem protected_steps_need_approval:
  fixes c :: coordinator
  assumes "choose_candidates w r d ready c = (Inr (Inr chosen), c')"
    and "dget (ms_runs (sy_store c)) r = Some run"
    and "dget (ms_definitions (sy_store c)) (wr_definition_id run, wr_definition_version run) = Some d"
    and "set ready \<subseteq> set (wd_steps d)" and "distinct (map sd_id (wd_steps d))"
    and "s \<in> set chosen"
  shows "s \<in> set ready \<and> (requires_approval (wo_tools w) s = Inr False
     \<or> (\<exists>sn. approval_snapshot (wo_tools w) d s = Inr sn
          \<and> approved_for (sy_store c) r d s (fst (snd sn))))"
  by (rule choice_is_approved [OF assms])

theorem protected_steps_need_approval_witness:
  "\<exists>d c'. choose_candidates sample_world ''r'' (sample_workflow d) [sample_step ''a'' []]
        (dr_coordinator sample_driver) = (Inr (Inr [sample_step ''a'' []]), c')
     \<and> (requires_approval sample_registry (sample_step ''a'' []) = Inr False
        \<or> (\<exists>sn. approved_for (the_store sample_driver) ''r'' (sample_workflow d) (sample_step ''a'' []) (fst (snd sn))))"
proof -
  let ?a = "sample_step ''a'' []" and ?c = "dr_coordinator sample_driver"
  obtain d where run: "dget (ms_runs (the_store sample_driver)) ''r'' = Some (new_run ''r'' ''d'' 1 d)"
    and def: "dget (ms_definitions (the_store sample_driver)) (''d'', 1) = Some (sample_workflow d)"
    by (rule sample_driver_contents)
  have "requires_approval (wo_tools sample_world) ?a = Inr False"
    by (simp add: requires_approval_def sample_world_def sample_step_def descriptor_for_def
        reg_resolve_def sample_registry_def sample_tool_def sample_descriptor_def
        step_risk_high_def casefold_def casefold_char_def code_def)
  then have ch: "choose_candidates sample_world ''r'' (sample_workflow d) [?a] ?c = (Inr (Inr [?a]), ?c)"
    by (simp add: choose_candidates_def bnd_def)
  show ?thesis
    using protected_steps_need_approval [OF ch, of "new_run ''r'' ''d'' 1 d" ?a] run def ch
    by (auto simp: the_store_def new_run_def sample_workflow_def sample_step_def sample_world_def)
qed

end
