(* ===== verification/Capacity.thy ===== *)
theory Capacity
  imports Dispatch
begin

text \<open>
  The bound on concurrency: the coordinator never has more tools running than it was configured
  with. What is assumed of the executor is that a future that is done stays done.
\<close>

section \<open>Laws of the futures\<close>

text \<open>
  A law of the owned futures that passing time keeps is kept by everything that only touches the
  store.
\<close>

locale futures_law =
  fixes P :: "coordinator \<Rightarrow> bool"
  assumes later: "co_owned c' = co_owned c \<Longrightarrow> sy_ticks c \<le> sy_ticks c' \<Longrightarrow> P c \<Longrightarrow> P c'"
begin

abbreviation body :: "uow \<times> coordinator \<Rightarrow> bool" where
  "body p \<equiv> P (snd p)"

lemma calm_tick [pres_intros]: "pres P (tick f)" "pres P (clock_now env)" "pres P (new_identifier env)"
  unfolding clock_now_def new_identifier_def
  by (rule presI, rule later, simp_all add: tick_def)+

lemma calm_body [pres_intros]:
  "pres body (on_uow m)" "pres P m' \<Longrightarrow> pres body (on_service m')" "pres body uow_commit"
  by (auto simp: pres_def on_uow_def on_service_def uow_commit_def split: prod.splits sum.splits
      intro: later)

lemma calm_with_uow [pres_intros]:
  assumes "pres body m"
  shows "pres P (with_uow m)"
proof (rule presI)
  fix c assume "P c"
  then have "body (begin_uow (sy_store c), c)" by simp
  from presD [OF assms this] show "P (snd (with_uow m c))"
    by (auto simp: with_uow_def split: prod.splits)
qed

lemma calm_getters [pres_intros]:
  "pres body (run_or_raise r)" "pres body (definition_of run)" "pres body (definition_or_raise run)"
  unfolding run_or_raise_def definition_or_raise_def definition_of_def by (intro pres_intros)+

lemma calm_readers [pres_intros]:
  "pres body (step_state_of r i)" "pres body (steps_of r d)" "pres body (approval_recovery_required run)"
  "pres body (all_succeeded r i d)"
  unfolding approval_recovery_required_def all_succeeded_def step_state_of_def steps_of_def
  by (intro pres_intros)+

lemma calm_recovery_work [pres_intros]: "pres body (uow_has_persisted_recovery_work run d)"
  unfolding uow_has_persisted_recovery_work_def by (intro pres_intros)

lemma calm_writers [pres_intros]:
  "pres body (save_run run run' e)" "pres body (save_step sr sr' e)" "pres body (enter_forward run at)"
  "pres body (start_step sr at)" "pres body (promote_step env sr)" "pres body (live_definition r)"
  "pres body (commit_if b)"
  unfolding save_run_def save_step_def enter_forward_def start_step_def promote_step_def
    live_definition_def live_run_def commit_if_def
  by (intro pres_intros)+

lemma calm_promotions [pres_intros]:
  "pres P (promote_due_retries env r)" "pres P (promote_dependency_ready_steps env r)"
  unfolding promote_due_retries_def promote_dependency_ready_steps_def promote_ready_def
    promote_retry_def promote_pending_def
  by (intro pres_intros)+

lemma calm_outcome [pres_intros]: "pres P (with_uow (persist_outcome_body env out ps))"
  unfolding persist_outcome_body_def persist_forward_outcome_def save_forward_outcome_def
    persist_compensation_outcome_def run_after_outcome_def with_completion_def
  by (intro pres_intros)

lemma calm_modify [pres_intros]:
  "pres P (modify_act (\<lambda>c. c\<lparr>co_unknown_runs := f c\<rparr>))" "pres P (modify_act (\<lambda>c. c\<lparr>co_closed := b\<rparr>))"
  by (rule presI, rule later, simp_all)+

lemma calm_persist [pres_intros]: "pres P (persist_outcome w out ps)" "pres P (try_persist w out ps)"
  unfolding try_persist_def persist_outcome_def by (intro pres_intros)+

lemma calm_started [pres_intros]: "pres P (commit_attempt_started a)"
  unfolding commit_attempt_started_def by (intro pres_intros)

lemma calm_queries [pres_intros]:
  "pres P (future_done w fid)" "pres P (submit w)" "pres P shutdown" "pres P (available_capacity w)"
  "pres P (has_unpersisted_outcome r)" "pres P (load_definition_and_steps r)"
  "pres P (has_persisted_recovery_work r)" "pres P (run_is_terminal r)" "pres P (prepare_attempt w r s ph)"
  "pres P (finish_compensation env r)"
  unfolding future_done_def submit_def shutdown_def available_capacity_def has_unpersisted_outcome_def
    load_definition_and_steps_def has_persisted_recovery_work_def run_is_terminal_def
    prepare_attempt_def finish_compensation_def Let_def
  by (intro pres_intros)+

lemma calm_barrier [pres_intros]:
  "pres P (establish_approval_barrier w r i)" "pres P (handle_approval_barrier w r d s)"
  "pres P (choose_candidates w r d ss)"
  unfolding choose_candidates_def handle_approval_barrier_def establish_approval_barrier_def
    establish_body_def open_barrier_def review_approval_def enter_waiting_def create_request_def
  by (intro pres_intros)+

lemma calm_create [pres_intros]: "pres P (create_run env reg payload)"
  unfolding create_run_def store_run_def stage_run_def by (intro pres_intros)

end

interpretation idle_law: futures_law "\<lambda>c. co_owned c = []"
  by unfold_locales simp

lemma sample_driver_idle: "co_owned (dr_coordinator sample_driver) = []"
proof -
  have "co_owned (snd (create_run sample_env sample_registry (sample_payload sample_raws)
      (dr_coordinator initial_driver))) = []"
    by (rule presD [OF idle_law.calm_create]) (simp add: initial_driver_def)
  then show ?thesis by (auto simp: sample_driver_def on_coordinator_def split: prod.splits)
qed

section \<open>How many futures run\<close>

definition done_stays :: "world \<Rightarrow> bool" where
  "done_stays w \<longleftrightarrow> (\<forall>t u fid. t \<le> u \<longrightarrow> wo_done w t fid \<longrightarrow> wo_done w u fid)"

definition active_among :: "world \<Rightarrow> nat set \<Rightarrow> coordinator \<Rightarrow> nat set" where
  "active_among w K c = {fid \<in> K. \<not> wo_done w (sy_ticks c) fid}"

definition active :: "world \<Rightarrow> coordinator \<Rightarrow> int" where
  "active w c = int (card (active_among w (set (keys (co_owned c))) c))"

definition within :: "world \<Rightarrow> nat set \<Rightarrow> int \<Rightarrow> coordinator \<Rightarrow> bool" where
  "within w K n c \<longleftrightarrow> done_stays w \<longrightarrow>
     finite K \<and> set (keys (co_owned c)) \<subseteq> K \<and> int (card (active_among w K c)) \<le> n"

definition at_most :: "world \<Rightarrow> int \<Rightarrow> coordinator \<Rightarrow> bool" where
  "at_most w n c \<longleftrightarrow> done_stays w \<longrightarrow> active w c \<le> n"

lemma active_later:
  assumes "done_stays w" and "sy_ticks c \<le> sy_ticks c'" and "finite K"
  shows "card (active_among w K c') \<le> card (active_among w K c)"
  using assms by (intro card_mono) (auto simp: active_among_def done_stays_def)

lemma active_sub:
  assumes "finite K" and "J \<subseteq> K"
  shows "card (active_among w J c) \<le> card (active_among w K c)"
  using assms by (intro card_mono) (auto simp: active_among_def)

interpretation within_law: futures_law "within w K n"
proof
  fix c c' :: coordinator
  assume "co_owned c' = co_owned c" "sy_ticks c \<le> sy_ticks c'" "within w K n c"
  then show "within w K n c'" using active_later [of w c c' K] by (fastforce simp: within_def)
qed

interpretation at_most_law: futures_law "at_most w n"
proof
  fix c c' :: coordinator
  assume "co_owned c' = co_owned c" "sy_ticks c \<le> sy_ticks c'" "at_most w n c"
  then show "at_most w n c'"
    using active_later [of w c c' "set (keys (co_owned c))"] by (fastforce simp: at_most_def active_def)
qed

lemma within_at_most: "within w K n c \<Longrightarrow> at_most w n c"
  using active_sub [of K "set (keys (co_owned c))" w c] by (fastforce simp: within_def at_most_def active_def)

lemma at_most_within: "at_most w n c \<Longrightarrow> within w (set (keys (co_owned c))) n c"
  by (simp add: within_def at_most_def active_def)

section \<open>Collecting only frees\<close>

lemma within_drop [pres_intros]: "pres (within w K n) (drop_future fid)"
  by (auto simp: pres_def drop_future_def within_def active_among_def AList.delete_keys)

lemma within_mark:
  "fid \<in> K \<Longrightarrow> pres (within w K n) (mark_persisted fid o')"
  by (auto simp: pres_def mark_persisted_def within_def active_among_def)

lemma within_drop_if_done [pres_intros]: "pres (within w K n) (drop_if_done w fid)"
  unfolding drop_if_done_def by (intro pres_intros within_law.calm_queries)

lemma within_collect_one:
  "fst e \<in> K \<Longrightarrow> pres (within w K n) (collect_one w now e acc)"
  unfolding collect_one_def Let_def
  by (intro pres_intros within_mark within_law.calm_queries within_law.calm_persist)

lemma within_collect: "pres (within w K n) (collect_outcomes w)"
proof (rule presI)
  fix c assume c: "within w K n c"
  let ?c = "c\<lparr>sy_ticks := Suc (sy_ticks c)\<rparr>" and ?now = "en_now (env_of w) (sy_ticks c)"
  have c': "within w K n ?c" using presD [OF within_law.calm_tick(2) c, of "env_of w"]
    by (simp add: clock_now_def tick_def)
  have run: "collect_outcomes w c = afold (collect_one w ?now) (co_owned c) ([], False) ?c"
    by (simp add: collect_outcomes_def clock_now_def tick_def bnd_def)
  show "within w K n (snd (collect_outcomes w c))"
  proof (cases "done_stays w")
    case True
    then have "\<And>e. e \<in> set (co_owned c) \<Longrightarrow> fst e \<in> K" using c by (auto simp: within_def)
    then have "pres (within w K n) (afold (collect_one w ?now) (co_owned c) ([], False))"
      by (intro pres_afold within_collect_one)
    from presD [OF this c'] show ?thesis by (simp only: run)
  next
    case False
    then show ?thesis by (simp add: within_def)
  qed
qed

lemma at_most_collect [pres_intros]: "pres (at_most w n) (collect_outcomes w)"
proof (rule presI)
  fix c assume "at_most w n c"
  from presD [OF within_collect at_most_within [OF this]]
  show "at_most w n (snd (collect_outcomes w c))" by (rule within_at_most)
qed

section \<open>Dispatching adds one each\<close>

lemma at_most_mono: "n \<le> m \<Longrightarrow> at_most w n c \<Longrightarrow> at_most w m c"
  by (auto simp: at_most_def)

lemma own_adds_one:
  assumes "at_most w n c"
  shows "at_most w (n + 1) (snd (own_future p c))"
proof -
  let ?c = "snd (own_future p c)" and ?K = "set (keys (co_owned c))"
  have "active_among w (set (keys (co_owned ?c))) ?c \<subseteq> insert (co_next_future c) (active_among w ?K c)"
    by (auto simp: own_future_def active_among_def)
  then have "card (active_among w (set (keys (co_owned ?c))) ?c) \<le> card (insert (co_next_future c) (active_among w ?K c))"
    by (intro card_mono) (simp_all add: active_among_def)
  also have "\<dots> \<le> Suc (card (active_among w ?K c))" by (rule card_insert_le_m1) simp_all
  finally show ?thesis using assms by (auto simp: at_most_def active_def)
qed

lemma active_insert:
  assumes "finite F"
  shows "card (active_among w (insert f F) c)
      \<le> (if wo_done w (sy_ticks c) f then 0 else 1) + card (active_among w F c)"
proof -
  have "active_among w (insert f F) c
      \<subseteq> (if wo_done w (sy_ticks c) f then {} else {f}) \<union> active_among w F c"
    by (auto simp: active_among_def)
  moreover have fin: "finite (active_among w F c)" using assms by (simp add: active_among_def)
  ultimately have "card (active_among w (insert f F) c)
      \<le> card ((if wo_done w (sy_ticks c) f then {} else {f}) \<union> active_among w F c)"
    by (intro card_mono) simp_all
  also have "\<dots> \<le> card (if wo_done w (sy_ticks c) f then {} else {f}) + card (active_among w F c)"
    by (rule card_Un_le)
  finally show ?thesis by (simp split: if_splits)
qed

lemma dones_read:
  "map_act (future_done w) fids c = (Inr ds, c') \<Longrightarrow>
     co_owned c' = co_owned c \<and> sy_ticks c \<le> sy_ticks c'
     \<and> (done_stays w \<longrightarrow> card (active_among w (set fids) c') \<le> length (filter Not ds))"
proof (induction fids arbitrary: c ds c')
  case Nil
  then show ?case by (simp add: active_among_def)
next
  case (Cons f fids)
  let ?c = "c\<lparr>sy_ticks := Suc (sy_ticks c)\<rparr>" and ?d = "wo_done w (sy_ticks c) f"
  have read: "future_done w f c = (Inr ?d, ?c)" by (simp add: future_done_def tick_def)
  have "bnd (map_act (future_done w) fids) (\<lambda>ys. ret (?d # ys)) ?c = (Inr ds, c')"
    using Cons.prems unfolding map_act.simps bnd_Inr [where m = "future_done w f" and s = c, OF read] .
  then obtain ys c2 where m: "map_act (future_done w) fids ?c = (Inr ys, c2)"
    and r: "ret (?d # ys) c2 = (Inr ds :: error + _, c')" by (rule bnd_eq_InrE)
  from r have e: "ds = ?d # ys" "c' = c2" by simp_all
  note IH = Cons.IH [OF m]
  have "card (active_among w (set (f # fids)) c') \<le> length (filter Not ds)" if ds: "done_stays w"
  proof -
    have later: "sy_ticks c \<le> sy_ticks c'" using IH e(2) by simp
    have "?d \<Longrightarrow> wo_done w (sy_ticks c') f"
      using ds later unfolding done_stays_def by blast
    then have "(if wo_done w (sy_ticks c') f then 0 else 1) \<le> (if ?d then 0 else 1 :: nat)" by auto
    moreover have "card (active_among w (set fids) c') \<le> length (filter Not ys)" using IH ds e by blast
    moreover have "length (filter Not ds) = (if ?d then 0 else 1) + length (filter Not ys)" using e by simp
    ultimately show ?thesis using active_insert [of "set fids" w f c'] by simp
  qed
  then show ?case using IH e by simp
qed

lemma capacity_read:
  assumes c: "available_capacity w c = (Inr cap, c')" and n: "at_most w (wo_concurrency w) c"
  shows "0 \<le> cap \<and> at_most w (wo_concurrency w - cap) c'"
proof -
  have "bnd (map_act (future_done w) (keys (co_owned c))) (\<lambda>dones.
     ret (max 0 (wo_concurrency w - int (length (filter Not dones))))) c = (Inr cap, c')"
    using c by (simp add: available_capacity_def)
  then obtain ds c2 where m: "map_act (future_done w) (keys (co_owned c)) c = (Inr ds, c2)"
    and r: "ret (max 0 (wo_concurrency w - int (length (filter Not ds)))) c2 = (Inr cap :: error + _, c')"
    by (rule bnd_eq_InrE)
  from r have e: "cap = max 0 (wo_concurrency w - int (length (filter Not ds)))" "c' = c2" by simp_all
  from dones_read [OF m] have d: "co_owned c' = co_owned c" "sy_ticks c \<le> sy_ticks c'"
    "done_stays w \<Longrightarrow> card (active_among w (set (keys (co_owned c))) c') \<le> length (filter Not ds)"
    using e by blast+
  have "active w c' \<le> wo_concurrency w - cap" if ds: "done_stays w"
  proof (cases "cap = 0")
    case True
    have "active w c' \<le> active w c"
      using active_later [OF ds d(2), of "set (keys (co_owned c))"] d(1) by (simp add: active_def)
    then show ?thesis using n ds True by (simp add: at_most_def)
  next
    case False
    then show ?thesis using d(3) [OF ds] e(1) unfolding active_def d(1) by (simp add: max_def split: if_splits)
  qed
  then show ?thesis using e by (simp add: at_most_def)
qed

section \<open>A whole pass\<close>

definition leads :: "('s \<Rightarrow> bool) \<Rightarrow> ('s, 'e, 'a) act \<Rightarrow> ('s \<Rightarrow> bool) \<Rightarrow> bool" where
  "leads P m Q \<longleftrightarrow> (\<forall>s. P s \<longrightarrow> Q (snd (m s)))"

lemma leads_pres: "pres P m \<Longrightarrow> (\<And>s. P s \<Longrightarrow> Q s) \<Longrightarrow> leads P m Q"
  by (simp add: leads_def pres_def)

lemma leads_bnd:
  assumes "leads P m R" and "\<And>x. leads R (f x) Q" and "\<And>s. R s \<Longrightarrow> Q s"
  shows "leads P (bnd m f) Q"
  using assms unfolding leads_def bnd_def by (fastforce split: prod.splits sum.splits)

lemma leads_pres_bnd:
  assumes "pres P m" and "\<And>x. leads P (f x) Q" and "\<And>s. P s \<Longrightarrow> Q s"
  shows "leads P (bnd m f) Q"
  by (rule leads_bnd [OF leads_pres [OF assms(1)] assms(2,3)])

lemma leads_if: "(c \<Longrightarrow> leads P m Q) \<Longrightarrow> (\<not> c \<Longrightarrow> leads P m' Q) \<Longrightarrow> leads P (if c then m else m') Q"
  by simp

lemma leads_prod: "(\<And>x y. leads P (f x y) Q) \<Longrightarrow> leads P (case_prod f p) Q"
  by (cases p) simp

lemma leads_own: "leads (at_most w n) (own_future p) (at_most w (n + 1))"
  using own_adds_one by (simp add: leads_def)

lemma leads_dispatch_loop:
  "leads (at_most w n) (dispatch_loop w r ps ds) (at_most w (n + int (length ps)))"
proof (induction ps arbitrary: n ds)
  case Nil
  then show ?case by (simp add: leads_def)
next
  case (Cons p ps)
  let ?m = "n + int (length (p # ps))"
  have next1: "leads (at_most w (n + 1)) (dispatch_loop w r ps ds') (at_most w ?m)" for ds'
    using Cons.IH [of "n + 1"] by (simp add: algebra_simps)
  have up: "at_most w n c \<Longrightarrow> at_most w ?m c" "at_most w (n + 1) c \<Longrightarrow> at_most w ?m c" for c
    by (rule at_most_mono; simp)+
  have next0: "leads (at_most w n) (dispatch_loop w r ps ds') (at_most w ?m)" for ds'
    using next1 at_most_mono [of n "n + 1" w] unfolding leads_def by (meson zle_add1_eq_le order_less_imp_le less_add_one)
  show ?case
    unfolding dispatch_loop.simps
    by (intro leads_pres_bnd leads_if leads_bnd [OF leads_own] next0 next1 up at_most_law.calm_started
        at_most_law.calm_queries at_most_law.calm_persist leads_pres [OF pres_ret]; assumption)
qed

lemma leads_dispatch:
  "leads (at_most w n) (dispatch_candidates w r ss outs) (at_most w (n + int (length ss)))"
proof -
  have up: "at_most w n c \<Longrightarrow> at_most w (n + int (length ss)) c" for c by (rule at_most_mono) simp_all
  have len: "length ps = length ss" if "map_act f ss c = (Inr ps, c')"
    for f :: "step_definition \<Rightarrow> prepared_attempt coord" and ps c c'
    using that by (induction ss arbitrary: ps c) (auto elim!: bnd_eq_InrE)
  have prepared: "leads (at_most w n)
      (try_act (bnd (map_act (\<lambda>s. prepare_attempt w r s Forward) ss) (\<lambda>ps. ret (Some ps))) (\<lambda>_. ret None))
      (at_most w n)"
    by (intro leads_pres pres_intros at_most_law.calm_queries)
  have size: "length ps \<le> length ss"
    if "try_act (bnd (map_act (\<lambda>s. prepare_attempt w r s Forward) ss) (\<lambda>ps. ret (Some ps)))
          (\<lambda>_. ret None) c = (Inr (Some ps), c')" for ps c c'
    using that by (auto simp: try_act_def bnd_def split: prod.splits sum.splits dest!: len)
  show ?thesis
    unfolding leads_def
  proof (intro allI impI)
    fix c assume c: "at_most w n c"
    let ?prep = "try_act (bnd (map_act (\<lambda>s. prepare_attempt w r s Forward) ss) (\<lambda>ps. ret (Some ps)))
          (\<lambda>_. ret None)"
    obtain x c1 where x: "?prep c = (Inr x, c1)"
    proof (cases "bnd (map_act (\<lambda>s. prepare_attempt w r s Forward) ss) (\<lambda>ps. ret (Some ps)) c")
      case (Pair a b)
      then show ?thesis using that by (cases a) (auto simp: try_act_def)
    qed
    have c1: "at_most w n c1" using prepared c x unfolding leads_def by (metis snd_conv)
    show "at_most w (n + int (length ss)) (snd (dispatch_candidates w r ss outs c))"
    proof (cases x)
      case None
      show ?thesis using up [OF c1]
        unfolding dispatch_candidates_def bnd_Inr [where m = ?prep and s = c, OF x] None by simp
    next
      case (Some ps)
      let ?rest = "bnd (dispatch_loop w r ps []) (\<lambda>dispatched.
         bnd (collect_outcomes w) (\<lambda>(just, failed).
         ret (dispatched_report r dispatched (outs @ just) failed)))"
      have "leads (at_most w n) ?rest (at_most w (n + int (length ps)))"
        by (rule leads_bnd [OF leads_dispatch_loop]) (rule leads_pres, intro pres_intros, simp_all)
      then have "at_most w (n + int (length ps)) (snd (?rest c1))" using c1 by (simp add: leads_def)
      moreover have "snd (dispatch_candidates w r ss outs c) = snd (?rest c1)"
        unfolding dispatch_candidates_def bnd_Inr [where m = ?prep and s = c, OF x] Some by simp
      moreover have "length ps \<le> length ss" using size x Some by blast
      ultimately show ?thesis using at_most_mono [of "n + int (length ps)" "n + int (length ss)" w] by simp
    qed
  qed
qed

lemma leads_capacity:
  assumes "\<And>cap. 0 \<le> cap \<Longrightarrow>
      leads (at_most w (wo_concurrency w - cap)) (f cap) (at_most w (wo_concurrency w))"
  shows "leads (at_most w (wo_concurrency w)) (bnd (available_capacity w) f) (at_most w (wo_concurrency w))"
  unfolding leads_def
proof (intro allI impI)
  fix c assume c: "at_most w (wo_concurrency w) c"
  obtain x c1 where x: "available_capacity w c = (x, c1)" by (metis prod.exhaust)
  show "at_most w (wo_concurrency w) (snd (bnd (available_capacity w) f c))"
  proof (cases x)
    case (Inl e)
    then show ?thesis using presD [OF at_most_law.calm_queries(4) c, of w] x by (simp add: bnd_def)
  next
    case (Inr cap)
    from capacity_read [OF x [unfolded Inr] c] have "0 \<le> cap" "at_most w (wo_concurrency w - cap) c1" by simp_all
    then show ?thesis using assms x Inr by (simp add: bnd_def leads_def)
  qed
qed

lemma fits: "0 \<le> cap \<Longrightarrow> at_most w (n - cap + int (length (take (nat cap) xs))) c \<Longrightarrow> at_most w n c"
  by (erule at_most_mono [rotated]) (auto simp: min_def)

lemma pres_leads: "leads P m P \<Longrightarrow> pres P m"
  by (simp add: leads_def pres_def)

lemma at_most_forward: "pres (at_most w (wo_concurrency w)) (run_forward_once w r outs)"
proof (rule pres_leads)
  let ?N = "wo_concurrency w"
  have tail: "leads (at_most w (?N - cap))
      (bnd (lift_res (ready_candidates d rs)) (\<lambda>ready0.
       bnd (choose_candidates w r d ready0) (\<lambda>choice.
       case choice of Inl reason \<Rightarrow> ret (blocked r outs reason)
       | Inr ready \<Rightarrow>
         if take (nat cap) ready = []
         then bnd (with_uow (on_uow (runs_get r))) (\<lambda>run.
              ret (blocked r outs (idle_reason run ready cap rs)))
         else dispatch_candidates w r (take (nat cap) ready) outs))) (at_most w ?N)"
    if cap: "0 \<le> cap" for cap d rs
  proof -
    have up: "at_most w (?N - cap) c \<Longrightarrow> at_most w ?N c" for c by (erule at_most_mono [rotated]) (use cap in simp)
    have dispatch: "leads (at_most w (?N - cap)) (dispatch_candidates w r (take (nat cap) ready) outs) (at_most w ?N)" for ready
      using leads_dispatch [of w "?N - cap" r "take (nat cap) ready" outs] fits [OF cap]
      unfolding leads_def by blast
    have idle: "leads (at_most w (?N - cap)) (bnd (with_uow (on_uow (runs_get r))) (\<lambda>run. ret (g run))) (at_most w ?N)" for g :: "_ \<Rightarrow> coordination_report"
      by (rule leads_pres) (intro pres_intros at_most_law.calm_with_uow at_most_law.calm_body, rule up)
    show ?thesis
      by (intro leads_pres_bnd pres_intros at_most_law.calm_barrier up; (assumption)?)
         (auto split: sum.splits intro!: leads_if dispatch idle leads_pres [OF pres_ret] up)
  qed
  show "leads (at_most w ?N) (run_forward_once w r outs) (at_most w ?N)"
    unfolding run_forward_once_def
    by (intro leads_pres_bnd leads_prod leads_capacity tail at_most_law.calm_promotions
        at_most_law.calm_queries; assumption)
qed

lemma at_most_compensation: "pres (at_most w (wo_concurrency w)) (run_compensation_once w r outs)"
proof (rule pres_leads)
  let ?N = "wo_concurrency w"
  have one: "leads (at_most w (?N - cap)) (dispatch_compensation w r s outs) (at_most w ?N)"
    if cap: "0 \<le> cap" "cap \<noteq> 0" for cap s
  proof -
    have up: "at_most w (?N - cap) c \<Longrightarrow> at_most w ?N c" "at_most w (?N - cap + 1) c \<Longrightarrow> at_most w ?N c" for c
      by (erule at_most_mono [rotated], use cap in simp)+
    show ?thesis
      unfolding dispatch_compensation_def
      by (intro leads_pres_bnd leads_if leads_bnd [OF leads_own] at_most_law.calm_queries
            at_most_law.calm_started at_most_law.calm_persist at_most_collect leads_pres [OF pres_case_prod]
            leads_pres [OF pres_ret] pres_ret up; assumption)
  qed
  have tail: "leads (at_most w (?N - cap)) (if cap = 0 then ret (blocked r outs ''capacity'')
      else dispatch_compensation w r s outs) (at_most w ?N)" if "0 \<le> cap" for cap s
    using one that by (auto intro!: leads_if leads_pres [OF pres_ret] elim: at_most_mono [rotated])
  have fin: "pres (at_most w ?N) (bnd (finish_compensation (env_of w) r) (\<lambda>_. ret x))" for x :: coordination_report
    by (intro pres_intros at_most_law.calm_queries)
  show "leads (at_most w ?N) (run_compensation_once w r outs) (at_most w ?N)"
    unfolding run_compensation_once_def
    by (intro leads_pres_bnd leads_if at_most_law.calm_queries; (assumption)?)
       (auto split: list.splits prod.splits
         intro!: leads_capacity tail leads_pres [OF fin] leads_pres_bnd leads_if leads_pres [OF pres_ret]
           at_most_law.calm_with_uow at_most_law.calm_body pres_lift_res)
qed

lemma at_most_selected [pres_intros]: "pres (at_most w (wo_concurrency w)) (run_selected w r run outs b)"
  unfolding run_selected_def Let_def
  by (intro pres_intros at_most_forward at_most_compensation at_most_law.calm_queries)

lemma at_most_pass: "pres (at_most w (wo_concurrency w)) (run_once w)"
  unfolding run_once_def
  by (intro pres_intros at_most_law.calm_tick at_most_law.calm_with_uow at_most_law.calm_body)

lemma at_most_close: "pres (at_most w (wo_concurrency w)) (collect_or_raise w)"
  unfolding collect_or_raise_def by (intro pres_intros)



end
