(* ===== verification/Progress.thy ===== *)
theory Progress
  imports Samples Scheduler
begin

text \<open>
  What the services always get done: the scheduler accepts what a reachable store holds, a
  recovered attempt is settled, and a finished attempt is recorded.
\<close>

section \<open>The scheduler accepts what is stored\<close>

lemma map_act_steps:
  "map_act (\<lambda>s. on_uow (steps_get r (sd_id s))) ss p
     = (Inr (map (\<lambda>s. dget (sn_steps (fst p)) (r, sd_id s)) ss), p)"
  by (induction ss) (auto simp: bnd_def on_uow_def steps_get_def)

lemma steps_all_there:
  assumes "\<And>s. s \<in> set ss \<Longrightarrow> \<exists>x. f s = Some x \<and> g x = sd_id s"
  shows "None \<notin> set (map f ss) \<and> map g (present (map f ss)) = map sd_id ss
     \<and> set (present (map f ss)) = (\<lambda>s. the (f s)) ` set ss"
  using assms
proof (induction ss)
  case Nil
  then show ?case by (simp add: present_def List.map_filter_simps)
next
  case (Cons s ss)
  obtain x where "f s = Some x" and "g x = sd_id s" using Cons.prems [of s] by auto
  with Cons show ?case by (fastforce simp: present_def List.map_filter_simps)
qed

text \<open>In a reachable state the definition and the steps of a run are there to load.\<close>

lemma load_reachable:
  assumes "reachable d" and "dget (ms_runs (the_store d)) r = Some run"
  shows "\<exists>w rs reg. load_definition_and_steps r (dr_coordinator d) = (Inr (w, rs), dr_coordinator d)
     \<and> definition_ok reg w \<and> map sr_step_id rs = map sd_id (wd_steps w)
     \<and> (\<forall>x \<in> set rs. sr_run_id x = r)"
proof -
  let ?c = "dr_coordinator d" and ?u = "begin_uow (the_store d)"
  from reachable_run(2,3) [OF assms] obtain w where
    w: "dget (ms_definitions (the_store d)) (wr_definition_id run, wr_definition_version run) = Some w"
    and st: "\<And>s. s \<in> set (wd_steps w) \<Longrightarrow> dget (ms_steps (the_store d)) (r, sd_id s) \<noteq> None"
    unfolding references_ok_def by (auto simp: driver_view_def store_view_def)
  have vw: "vw_definitions (driver_view d) (wr_definition_id run, wr_definition_version run) = Some w"
    using w by (simp add: driver_view_def store_view_def)
  obtain reg where reg: "definition_ok reg w" using historyD(1) [OF reachable_ok(2) [OF assms(1)] vw] by blast
  let ?f = "\<lambda>s. dget (ms_steps (the_store d)) (r, sd_id s)"
  have id: "sr_run_id x = r \<and> sr_step_id x = i" if "dget (ms_steps (the_store d)) (r, i) = Some x" for i x
  proof -
    have "vw_steps (driver_view d) (r, i) = Some x" using that by (simp add: driver_view_def store_view_def)
    with historyD(3) [OF reachable_ok(2) [OF assms(1)], of r i] show ?thesis by (simp add: step_history_def)
  qed
  have each: "\<exists>x. ?f s = Some x \<and> sr_step_id x = sd_id s" if "s \<in> set (wd_steps w)" for s
    using st [OF that] id by (cases "?f s") auto
  from steps_all_there [OF each] have all: "None \<notin> set (map ?f (wd_steps w))"
    "map sr_step_id (present (map ?f (wd_steps w))) = map sd_id (wd_steps w)"
    "set (present (map ?f (wd_steps w))) = (\<lambda>s. the (?f s)) ` set (wd_steps w)" by blast+
  have "load_definition_and_steps r ?c = (Inr (w, present (map ?f (wd_steps w))), ?c)"
    using all(1) assms(2) w
    by (simp add: load_definition_and_steps_def with_uow_def run_or_raise_def definition_or_raise_def
        definition_of_def steps_of_def map_act_steps bnd_def on_uow_def runs_get_def definitions_get_def
        begin_uow_def need_def or_raise_def the_store_def)
  moreover have "\<forall>x \<in> set (present (map ?f (wd_steps w))). sr_run_id x = r"
    unfolding all(3) using each id by fastforce
  ultimately show ?thesis using reg all(2) by blast
qed

lemma remdups_constant: "xs \<noteq> [] \<Longrightarrow> \<forall>x \<in> set xs. x = r \<Longrightarrow> remdups xs = [r]"
proof (induction xs)
  case (Cons x xs)
  then show ?case by (cases xs) auto
qed simp

lemma find_step_run:
  assumes "i \<in> sr_step_id ` set rs"
  shows "\<exists>x. step_run_of rs i = Inr x"
  using assms by (cases "List.find (\<lambda>r. sr_step_id r = i) rs")
    (auto simp: step_run_of_def or_raise_def find_None_iff)

lemma step_run_of_state:
  assumes "distinct (map sr_step_id rs)" and "step_run_of rs i = Inr x"
  shows "sr_state x = st \<longleftrightarrow> state_in rs i st"
proof -
  have x: "x \<in> set rs" "sr_step_id x = i"
    using assms(2) by (auto simp: step_run_of_def or_raise_def find_Some_iff split: option.splits)
  have "y = x" if "y \<in> set rs" and "sr_step_id y = i" for y
    using distinct_map_eq [OF assms(1)] that x by blast
  then show ?thesis using x unfolding state_in_def by blast
qed

text \<open>The steps a pass may dispatch: ready, with every dependency succeeded.\<close>

definition dispatchable :: "step_run list \<Rightarrow> step_definition \<Rightarrow> bool" where
  "dispatchable rs s \<longleftrightarrow> state_in rs (sd_id s) StepReady
     \<and> (\<forall>d \<in> set (sd_depends_on s). state_in rs d StepSucceeded)"

lemma ready_candidates_Inr:
  assumes g: "graph_ok (wd_steps w)" and c: "check_step_runs w rs = Inr ()"
    and dist: "distinct (map sr_step_id rs)" and same: "sr_step_id ` set rs = sd_id ` set (wd_steps w)"
  shows "\<exists>ready. ready_candidates w rs = Inr ready \<and> distinct ready
     \<and> set ready = {s \<in> set (wd_steps w). dispatchable rs s}"
proof -
  from ready_steps_Inr [OF g c] obtain ready where
    r: "ready_steps w rs = Inr ready" and sub: "set ready = {s \<in> set (wd_steps w). may_start rs s}"
    and d: "distinct ready" using graph_okD(1) [OF g] by (auto simp: distinct_map)
  let ?p = "\<lambda>s. sbind (step_run_of rs (sd_id s)) (\<lambda>sr. Inr (sr_state sr = StepReady))"
  let ?q = "\<lambda>s. state_in rs (sd_id s) StepReady"
  have "sfilter ?p ready = Inr (filter ?q ready)"
  proof (rule sfilter_Inr)
    fix s assume "s \<in> set ready"
    then have "sd_id s \<in> sr_step_id ` set rs" using sub same by auto
    from find_step_run [OF this] show "?p s = Inr (?q s)"
      using step_run_of_state [OF dist] by auto
  qed
  moreover have "set (filter ?q ready) = {s \<in> set (wd_steps w). dispatchable rs s}"
    using sub by (auto simp: dispatchable_def may_start_def)
  ultimately show ?thesis using r d by (auto simp: ready_candidates_def map_error_def)
qed

text \<open>A definition without steps is accepted, but its runs cannot be scheduled.\<close>

lemma no_steps_no_candidates:
  assumes "wd_steps w = []"
  shows "ready_steps w [] = Inl (ValueError ''step runs must belong to exactly one run'')"
    and "ready_candidates w [] = Inl (ValueError ''step runs must belong to exactly one run'')"
  using assms by (simp_all add: ready_candidates_def ready_steps_def check_step_runs_def)

text \<open>
  C20: what the scheduler computes from what is stored. For a run of a reachable state the
  coordinator loads its definition and its steps without an error. If the workflow has a step, the
  candidates of a pass are computed without an error and are exactly the ready steps all of whose
  dependencies have succeeded. If it has none, which \<open>from_mapping\<close> accepts, they are not: the
  scheduler raises a \<open>ValueError\<close>, whatever else is stored. The order of compensation is computed
  without an error in both cases, whatever attempts are given.
\<close>

theorem scheduling_never_raises:
  assumes "reachable d" and "dget (ms_runs (the_store d)) r = Some run"
  shows "\<exists>w rs. load_definition_and_steps r (dr_coordinator d) = (Inr (w, rs), dr_coordinator d)
     \<and> (if wd_steps w = []
        then ready_candidates w rs = Inl (ValueError ''step runs must belong to exactly one run'')
        else \<exists>ready. ready_candidates w rs = Inr ready \<and> distinct ready
               \<and> set ready = {s \<in> set (wd_steps w). dispatchable rs s})
     \<and> (\<forall>attempts. \<exists>order. compensation_order w rs attempts = Inr order)"
proof -
  from load_reachable [OF assms] obtain w rs reg where
    load: "load_definition_and_steps r (dr_coordinator d) = (Inr (w, rs), dr_coordinator d)"
    and ok: "definition_ok reg w" and ids: "map sr_step_id rs = map sd_id (wd_steps w)"
    and own: "\<forall>x \<in> set rs. sr_run_id x = r" by blast
  have g: "graph_ok (wd_steps w)" by (rule definition_graph_ok [OF ok])
  have dist: "distinct (map sr_step_id rs)" using graph_okD(1) [OF g] ids by simp
  have same: "sr_step_id ` set rs = sd_id ` set (wd_steps w)" using ids by (metis set_map)
  have "check_step_runs w rs = Inr ()" if "wd_steps w \<noteq> []"
  proof -
    have "rs \<noteq> []" using ids that by auto
    then have "remdups (map sr_run_id rs) = [r]" using own by (intro remdups_constant) auto
    then show ?thesis using dist same by (simp add: check_step_runs_Inr)
  qed
  from ready_candidates_Inr [OF g this dist same] no_steps_no_candidates(2) [of w] ids
  have "if wd_steps w = []
     then ready_candidates w rs = Inl (ValueError ''step runs must belong to exactly one run'')
     else \<exists>ready. ready_candidates w rs = Inr ready \<and> distinct ready
            \<and> set ready = {s \<in> set (wd_steps w). dispatchable rs s}" by auto
  moreover have "\<forall>attempts. \<exists>order. compensation_order w rs attempts = Inr order"
    using compensation_order_Inr [OF g dist same] by blast
  ultimately show ?thesis using load by blast
qed

text \<open>The loaded definition is the stored one.\<close>

lemma load_definition:
  assumes "load_definition_and_steps r c = (Inr (w, rs), c')"
    and "dget (ms_runs (sy_store c)) r = Some run"
    and "dget (ms_definitions (sy_store c)) (wr_definition_id run, wr_definition_version run) = Some w'"
  shows "w = w'"
  using assms
  by (auto simp: load_definition_and_steps_def with_uow_def run_or_raise_def definition_or_raise_def
      definition_of_def steps_of_def map_act_steps bnd_def on_uow_def runs_get_def definitions_get_def
      begin_uow_def need_def or_raise_def split: if_splits)

theorem scheduling_never_raises_witness:
  "\<exists>w rs ready. load_definition_and_steps ''r'' (dr_coordinator sample_driver) = (Inr (w, rs), dr_coordinator sample_driver)
     \<and> map sd_id (wd_steps w) = [''a'', ''b''] \<and> ready_candidates w rs = Inr ready"
proof -
  obtain d where r: "dget (ms_runs (the_store sample_driver)) ''r'' = Some (new_run ''r'' ''d'' 1 d)"
    and w: "dget (ms_definitions (the_store sample_driver)) (''d'', 1) = Some (sample_workflow d)"
    by (rule sample_driver_contents)
  from scheduling_never_raises [OF sample_driver_reachable r] obtain w rs where
    load: "load_definition_and_steps ''r'' (dr_coordinator sample_driver) = (Inr (w, rs), dr_coordinator sample_driver)"
    and ready: "wd_steps w \<noteq> [] \<Longrightarrow> \<exists>ready. ready_candidates w rs = Inr ready" by (auto split: if_splits)
  have w': "dget (ms_definitions (sy_store (dr_coordinator sample_driver)))
      (wr_definition_id (new_run ''r'' ''d'' 1 d), wr_definition_version (new_run ''r'' ''d'' 1 d)) = Some (sample_workflow d)"
    using w by (simp add: the_store_def new_run_def)
  from load_definition [OF load r [unfolded the_store_def] this] have "w = sample_workflow d" .
  then have "map sd_id (wd_steps w) = [''a'', ''b'']" by (simp add: sample_workflow_def sample_step_def)
  moreover from this obtain ready where "ready_candidates w rs = Inr ready" using ready by fastforce
  ultimately show ?thesis using load by (intro exI [of _ w] exI [of _ rs] exI [of _ ready]) simp
qed

section \<open>A workflow without steps\<close>

text \<open>\<open>from_mapping\<close> accepts a payload whose list of steps is empty.\<close>

lemma empty_workflow_accepted:
  obtains d where "from_mapping (sample_payload []) sample_registry
      = Inr \<lparr>wd_definition_id = ''d'', wd_version = 1, wd_steps = [], wd_digest = d\<rparr>"
proof -
  obtain d where d: "calculate_digest ''d'' 1 [] = Inr d"
    by (auto simp: calculate_digest_def json_digest_def)
  let ?w = "\<lparr>wd_definition_id = ''d'', wd_version = 1, wd_steps = [], wd_digest = d\<rparr>"
  have "check_graph [] = Inr ()" by (subst check_graph_Inr) (simp_all add: edge_count_def step_graph_Union acyclic_def)
  moreover have "as_mapping (sample_payload []) \<noteq> None"
    by (simp add: sample_payload_def)
  ultimately have "from_mapping (sample_payload []) sample_registry = Inr ?w"
    unfolding from_mapping_Inr workflow_definition.select_convs using d
    by (auto simp: sample_payload_def pget_def is_blank_def py_space_def code_def)
  then show ?thesis by (rule that)
qed

text \<open>
  A run of a workflow without steps cannot be coordinated: until it has ended, promoting its ready
  steps, which every pass does before it dispatches anything, raises a \<open>ValueError\<close> and leaves the
  store as it was.
\<close>

theorem empty_workflow_raises:
  assumes "dget (ms_runs (sy_store c)) r = Some run" and "\<not> run_terminal (wr_state run)"
    and "dget (ms_definitions (sy_store c)) (wr_definition_id run, wr_definition_version run) = Some w"
    and "wd_steps w = []"
  shows "promote_dependency_ready_steps env r c
     = (Inl (ValueError ''step runs must belong to exactly one run''), c)"
  using assms
  by (simp add: promote_dependency_ready_steps_def live_definition_def live_run_def with_uow_def run_or_raise_def
      definition_or_raise_def definition_of_def steps_of_def map_act_steps bnd_def on_uow_def runs_get_def
      definitions_get_def begin_uow_def need_def or_raise_def no_steps_no_candidates
      present_def)

end
