(* ===== verification/Plans.thy ===== *)
theory Plans
  imports Complex_Main Tool_Ports Digest
begin

text \<open>
  \<open>planning/domain/models.py\<close>, \<open>policies.py\<close>, \<open>knowledge.py\<close> and \<open>failures.py\<close>: change requests, plans, the
  evidence they cite, planning results, and the policies that tools are planned under. The
  arguments of a plan are JSON values: plans are parsed from JSON text.
\<close>

text \<open>\<open>planning/domain/failures.py\<close>: what planning may raise.\<close>

datatype planning_error =
    PlanValidationError string
  | KnowledgeError string
  | ModelBudgetExceeded string
  | TransientModelError string
  | PermanentModelError string
  | ZeroDivisionError
  | Raised error \<comment> \<open>what the workflow's own code and the standard library raise\<close>

section \<open>Requests and evidence\<close>

datatype trust_level = Untrusted | Internal | Authoritative

fun trust_value :: "trust_level \<Rightarrow> string" where
  "trust_value Untrusted = ''untrusted''"
| "trust_value Internal = ''internal''"
| "trust_value Authoritative = ''authoritative''"

record change_request =
  cr_service_id :: "string option"
  cr_current_version :: "string option"
  cr_target_version :: "string option"
  cr_pull_request_url :: "string option"
  cr_change_summary :: string
  cr_success_conditions :: "string list"
  cr_constraints :: "string list"

definition blank_given :: "string option \<Rightarrow> bool" where
  "blank_given v = (case v of None \<Rightarrow> False | Some s \<Rightarrow> is_blank s)"

text \<open>The two validators: a value that is given is not blank, and neither is any item.\<close>

definition request_ok :: "change_request \<Rightarrow> bool" where
  "request_ok r \<longleftrightarrow>
     \<not> list_ex blank_given [cr_service_id r, cr_current_version r, cr_target_version r,
                           cr_pull_request_url r, Some (cr_change_summary r)]
     \<and> \<not> list_ex is_blank (cr_success_conditions r) \<and> \<not> list_ex is_blank (cr_constraints r)"

record evidence_ref =
  eb_document_id :: string
  eb_document_version :: string
  eb_chunk_id :: string
  eb_location :: string
  eb_content_digest :: string

text \<open>The score is a double, given by its exact value.\<close>

record retrieved_evidence =
  re_reference :: evidence_ref
  re_text :: string
  re_trust_level :: trust_level
  re_lexical_rank :: "int option"
  re_vector_rank :: "int option"
  re_hybrid_score :: rat
  re_conflict :: bool

section \<open>Plans\<close>

record plan_tool =
  pt_name :: string
  pt_version :: string

record plan_step =
  ps_id :: string
  ps_tool :: plan_tool
  ps_arguments :: "(pykey, pyval) dict"
  ps_depends_on :: "string list"
  ps_risk :: tool_risk
  ps_approval_required :: bool
  ps_approval_reason :: "string option"
  ps_rationale :: string
  ps_risk_reasons :: "string list"
  ps_success_conditions :: "string list"
  ps_compensation_tool :: "plan_tool option"
  ps_compensation_intent :: "string option"
  ps_evidence_refs :: "evidence_ref list"

definition plan_step_ok :: "plan_step \<Rightarrow> bool" where
  "plan_step_ok s \<longleftrightarrow> \<not> is_blank (ps_id s) \<and> \<not> blank_given (ps_compensation_intent s)
     \<and> \<not> blank_given (ps_approval_reason s)"

record change_plan =
  cp_plan_id :: string
  cp_version :: int
  cp_goal :: string
  cp_assumptions :: "string list"
  cp_steps :: "plan_step list"
  cp_knowledge_snapshot_digest :: string
  cp_prompt_version :: string
  cp_tool_policy_version :: string

definition plan_ok :: "change_plan \<Rightarrow> bool" where
  "plan_ok p \<longleftrightarrow> 1 \<le> cp_version p \<and> list_all plan_step_ok (cp_steps p)
     \<and> distinct (map ps_id (cp_steps p))"

text \<open>\<open>model_dump(mode="json")\<close> of a plan, and the digest of it.\<close>

definition text_value :: "string option \<Rightarrow> pyval" where
  "text_value v = (case v of None \<Rightarrow> PNone | Some s \<Rightarrow> PStr s)"

definition texts_value :: "string list \<Rightarrow> pyval" where
  "texts_value xs = PList (map PStr xs)"

definition plan_tool_value :: "plan_tool \<Rightarrow> pyval" where
  "plan_tool_value t =
     PDict [(KStr ''name'', PStr (pt_name t)), (KStr ''version'', PStr (pt_version t))]"

definition evidence_ref_value :: "evidence_ref \<Rightarrow> pyval" where
  "evidence_ref_value r =
     PDict [(KStr ''document_id'', PStr (eb_document_id r)),
            (KStr ''document_version'', PStr (eb_document_version r)),
            (KStr ''chunk_id'', PStr (eb_chunk_id r)),
            (KStr ''location'', PStr (eb_location r)),
            (KStr ''content_digest'', PStr (eb_content_digest r))]"

definition plan_step_value :: "plan_step \<Rightarrow> pyval" where
  "plan_step_value s =
     PDict [(KStr ''id'', PStr (ps_id s)),
            (KStr ''tool'', plan_tool_value (ps_tool s)),
            (KStr ''arguments'', PDict (ps_arguments s)),
            (KStr ''depends_on'', texts_value (ps_depends_on s)),
            (KStr ''risk'', PStr (risk_value (ps_risk s))),
            (KStr ''approval_required'', PBool (ps_approval_required s)),
            (KStr ''approval_reason'', text_value (ps_approval_reason s)),
            (KStr ''rationale'', PStr (ps_rationale s)),
            (KStr ''risk_reasons'', texts_value (ps_risk_reasons s)),
            (KStr ''success_conditions'', texts_value (ps_success_conditions s)),
            (KStr ''compensation_tool'',
               (case ps_compensation_tool s of None \<Rightarrow> PNone | Some t \<Rightarrow> plan_tool_value t)),
            (KStr ''compensation_intent'', text_value (ps_compensation_intent s)),
            (KStr ''evidence_refs'', PList (map evidence_ref_value (ps_evidence_refs s)))]"

definition plan_value :: "change_plan \<Rightarrow> pyval" where
  "plan_value p =
     PDict [(KStr ''plan_id'', PStr (cp_plan_id p)),
            (KStr ''version'', PInt (cp_version p)),
            (KStr ''goal'', PStr (cp_goal p)),
            (KStr ''assumptions'', texts_value (cp_assumptions p)),
            (KStr ''steps'', PList (map plan_step_value (cp_steps p))),
            (KStr ''knowledge_snapshot_digest'', PStr (cp_knowledge_snapshot_digest p)),
            (KStr ''prompt_version'', PStr (cp_prompt_version p)),
            (KStr ''tool_policy_version'', PStr (cp_tool_policy_version p))]"

definition content_digest_of_plan :: "change_plan \<Rightarrow> error + string" where
  "content_digest_of_plan p = json_digest True (plan_value p)"

section \<open>Results of planning\<close>

record clarification_question =
  cq_question_id :: string
  cq_field :: string
  cq_prompt :: string
  cq_blocking :: bool

datatype planning_result =
    ClarificationRequired string "clarification_question list" \<comment> \<open>session, questions\<close>
  | PlanReady string change_plan "retrieved_evidence list"
  | PlanningRejected string "string list"
  | BudgetExhausted string int int \<comment> \<open>session, calls, tokens\<close>

record prepared_workflow =
  pw_plan_id :: string
  pw_plan_version :: int
  pw_knowledge_snapshot_digest :: string
  pw_definition_id :: string
  pw_definition_version :: int
  pw_definition_digest :: string
  pw_payload :: pyval

section \<open>Knowledge\<close>

datatype document_status = Active | Superseded | Retired

fun status_value :: "document_status \<Rightarrow> string" where
  "status_value Active = ''active''"
| "status_value Superseded = ''superseded''"
| "status_value Retired = ''retired''"

record runbook_document =
  rb_document_id :: string
  rb_version :: string
  rb_source :: string
  rb_trust_level :: trust_level
  rb_content :: string
  rb_policy_key :: string
  rb_effective_at :: string
  rb_status :: document_status
  rb_rule_digest :: "string option"

definition rb_content_digest :: "runbook_document \<Rightarrow> string" where
  "rb_content_digest d = sha256_hexdigest (utf8 (rb_content d))"

record knowledge_chunk =
  kc_chunk_id :: string
  kc_document_id :: string
  kc_document_version :: string
  kc_source :: string
  kc_trust_level :: trust_level
  kc_policy_key :: string
  kc_rule_digest :: string
  kc_status :: document_status
  kc_heading_path :: "string list"
  kc_position :: nat
  kc_start_offset :: nat
  kc_end_offset :: nat
  kc_content :: string
  kc_content_digest :: string

record knowledge_snapshot =
  ks_digest :: string
  ks_document_count :: nat
  ks_chunk_count :: nat

record ingestion_result =
  ir_document_id :: string
  ir_document_version :: string
  ir_content_digest :: string
  ir_snapshot :: knowledge_snapshot
  ir_created_chunks :: nat
  ir_reused :: bool

section \<open>Policies\<close>

record tool_policy =
  tp_tool :: plan_tool
  tp_minimum_risk :: tool_risk
  tp_side_effecting :: bool
  tp_compensation_required :: bool
  tp_minimum_trust :: trust_level

record policy_catalog =
  pc_version :: string
  pc_policies :: "(string \<times> string, tool_policy) dict"

text \<open>\<open>{key(x): x for x in xs}\<close>: a later value replaces an earlier one under the same key.\<close>

definition index_by :: "('a \<Rightarrow> 'k) \<Rightarrow> 'a list \<Rightarrow> ('k, 'a) dict" where
  "index_by key xs = fold (\<lambda>x. dset (key x) x) xs []"

definition policy_key :: "tool_policy \<Rightarrow> string \<times> string" where
  "policy_key p = (pt_name (tp_tool p), pt_version (tp_tool p))"

definition make_catalog :: "string \<Rightarrow> tool_policy list \<Rightarrow> error + policy_catalog" where
  "make_catalog version policies =
     (let table = index_by policy_key policies in
      sbind (guard (length table = length policies) (ValueError ''duplicate planning tool policy'')) (\<lambda>_.
      Inr \<lparr>pc_version = version, pc_policies = table\<rparr>))"

definition policy_for :: "policy_catalog \<Rightarrow> string \<Rightarrow> string \<Rightarrow> tool_policy option" where
  "policy_for c name version = dget (pc_policies c) (name, version)"

lemma dget_index_by:
  "dget (index_by key xs) k = List.find (\<lambda>x. key x = k) (rev xs)"
proof (induction xs rule: rev_induct)
  case (snoc x xs)
  then show ?case by (simp add: index_by_def)
qed (simp add: index_by_def)

lemma index_by_SomeD: "dget (index_by key xs) k = Some x \<Longrightarrow> x \<in> set xs \<and> key x = k"
  unfolding dget_index_by find_Some_iff by (metis nth_mem set_rev)

lemma index_by_None: "dget (index_by key xs) k = None \<longleftrightarrow> k \<notin> key ` set xs"
  unfolding dget_index_by find_None_iff by auto

lemma index_by_distinct:
  assumes "distinct (map key xs)" and "x \<in> set xs"
  shows "dget (index_by key xs) (key x) = Some x"
proof -
  obtain y where y: "dget (index_by key xs) (key x) = Some y"
    using assms(2) index_by_None [of key xs "key x"] by (cases "dget (index_by key xs) (key x)") auto
  then show ?thesis using index_by_SomeD [OF y] assms by (metis distinct_map inj_onD)
qed

text \<open>In the catalog each policy is found under its own tool, and nothing else is found.\<close>

lemma keys_index_by: "set (keys (index_by key xs)) = key ` set xs"
proof (induction xs rule: rev_induct)
  case (snoc x xs)
  then show ?case by (simp add: index_by_def)
qed (simp add: index_by_def)

end
