(* ===== verification/Model_Gateway.thy ===== *)
theory Model_Gateway
  imports Plans
begin

text \<open>
  \<open>planning/ports/models.py\<close> and the synchronous half of \<open>planning/application/model_gateway.py\<close>:
  the gateway that puts a budget, a cache, retries and usage records around a model. The model is a
  function of its own state, and so is the pause between retries.
\<close>

section \<open>Requests and responses\<close>

record model_message =
  mm_role :: string
  mm_content :: string

record model_request =
  mq_request_id :: string
  mq_messages :: "model_message list"
  mq_response_schema_name :: string
  mq_response_schema :: "(pykey, pyval) dict"
  mq_prompt_version :: string
  mq_knowledge_snapshot_digest :: string
  mq_max_output_tokens :: int

record model_usage =
  mu_input_tokens :: nat
  mu_output_tokens :: nat
  mu_total_tokens :: nat

record model_response =
  mr_payload :: "(pykey, pyval) dict"
  mr_usage :: model_usage
  mr_model :: string
  mr_latency_ms :: nat
  mr_finish_reason :: string
  mr_cache_hit :: bool

definition request_value :: "model_request \<Rightarrow> pyval" where
  "request_value q =
     PDict [(KStr ''request_id'', PStr (mq_request_id q)),
            (KStr ''messages'', PList (map (\<lambda>m. PDict [(KStr ''role'', PStr (mm_role m)),
                                                     (KStr ''content'', PStr (mm_content m))]) (mq_messages q))),
            (KStr ''response_schema_name'', PStr (mq_response_schema_name q)),
            (KStr ''response_schema'', PDict (mq_response_schema q)),
            (KStr ''prompt_version'', PStr (mq_prompt_version q)),
            (KStr ''knowledge_snapshot_digest'', PStr (mq_knowledge_snapshot_digest q)),
            (KStr ''max_output_tokens'', PInt (mq_max_output_tokens q))]"

section \<open>Budget, prices and usage\<close>

record model_budget =
  bu_max_calls :: nat
  bu_max_total_tokens :: nat
  bu_max_cost :: "nat option"

definition budget_ok :: "model_budget \<Rightarrow> bool" where
  "budget_ok b \<longleftrightarrow> 0 < bu_max_calls b \<and> 0 < bu_max_total_tokens b \<and> bu_max_cost b \<noteq> Some 0"

text \<open>Whether an accumulated cost is within the budget; there may be no bound.\<close>

definition cost_allowed :: "model_budget \<Rightarrow> nat \<Rightarrow> bool" where
  "cost_allowed b cost \<longleftrightarrow> (case bu_max_cost b of None \<Rightarrow> True | Some m \<Rightarrow> cost \<le> m)"

record model_pricing =
  pr_input :: nat
  pr_output :: nat

record recorded_usage =
  ru_request_digest :: string
  ru_model :: string
  ru_latency_ms :: nat
  ru_input_tokens :: nat
  ru_output_tokens :: nat
  ru_total_tokens :: nat
  ru_cache_hit :: bool
  ru_retry_count :: nat
  ru_estimated_cost :: nat

section \<open>The gateway\<close>

text \<open>
  What a gateway is made with, and what it keeps: the in-memory cache and recorder, the counters,
  and the state of the world that the model and the pauses act on.
\<close>

record 'w gateway_config =
  gc_inner :: "model_request \<Rightarrow> ('w, planning_error, model_response) act"
  gc_budget :: model_budget
  gc_cache_namespace :: string
  gc_pricing :: model_pricing
  gc_max_retries :: nat
  gc_sleep :: "'w \<Rightarrow> 'w"

record 'w gateway =
  gw_world :: 'w
  gw_cache :: "(string, model_response) dict"
  gw_usage :: "recorded_usage list"
  gw_calls :: nat
  gw_total_tokens :: nat
  gw_cost :: nat

definition check_retries :: "int \<Rightarrow> planning_error + nat" where
  "check_retries max_retries =
     sbind (guard (0 \<le> max_retries) (Raised (ValueError ''max_retries cannot be negative'')))
       (\<lambda>_. Inr (nat max_retries))"

definition new_gateway :: "'w \<Rightarrow> (string, model_response) dict \<Rightarrow> 'w gateway" where
  "new_gateway w cache =
     \<lparr>gw_world = w, gw_cache = cache, gw_usage = [], gw_calls = 0, gw_total_tokens = 0, gw_cost = 0\<rparr>"

definition estimate_cost :: "model_pricing \<Rightarrow> model_usage \<Rightarrow> nat" where
  "estimate_cost p u =
     (mu_input_tokens u * pr_input p + mu_output_tokens u * pr_output p + 999999) div 1000000"

definition request_digest :: "string \<Rightarrow> model_request \<Rightarrow> planning_error + string" where
  "request_digest namespace q =
     map_error Raised (json_digest True
       (PDict [(KStr ''namespace'', PStr namespace), (KStr ''request'', request_value q)]))"

definition usage_of ::
  "model_pricing \<Rightarrow> string \<Rightarrow> model_response \<Rightarrow> nat \<Rightarrow> recorded_usage" where
  "usage_of p digest r retry_count =
     \<lparr>ru_request_digest = digest, ru_model = mr_model r, ru_latency_ms = mr_latency_ms r,
      ru_input_tokens = mu_input_tokens (mr_usage r), ru_output_tokens = mu_output_tokens (mr_usage r),
      ru_total_tokens = mu_total_tokens (mr_usage r), ru_cache_hit = mr_cache_hit r,
      ru_retry_count = retry_count,
      ru_estimated_cost = (if mr_cache_hit r then 0 else estimate_cost p (mr_usage r))\<rparr>"

definition record_usage :: "recorded_usage \<Rightarrow> 'w gateway \<Rightarrow> 'w gateway" where
  "record_usage u g = g\<lparr>gw_usage := gw_usage g @ [u]\<rparr>"

text \<open>The loop that calls the model, and the number of retries it took.\<close>

function call_model ::
  "'w gateway_config \<Rightarrow> model_request \<Rightarrow> nat \<Rightarrow> ('w gateway, planning_error, model_response \<times> nat) act" where
  "call_model c q retry_count g =
     (let (answer, w) = gc_inner c q (gw_world g);
          g' = g\<lparr>gw_calls := gw_calls g + 1, gw_world := w\<rparr>
      in case answer of
           Inr response \<Rightarrow> (Inr (response, retry_count), g')
         | Inl (TransientModelError m) \<Rightarrow>
             (if gc_max_retries c \<le> retry_count then (Inl (TransientModelError m), g')
              else if bu_max_calls (gc_budget c) \<le> gw_calls g'
              then (Inl (ModelBudgetExceeded ''model call budget exhausted during retry''), g')
              else call_model c q (retry_count + 1) (g'\<lparr>gw_world := gc_sleep c w\<rparr>))
         | Inl e \<Rightarrow> (Inl e, g'))"
  by pat_completeness auto
termination by (relation "measure (\<lambda>(c, q, retry_count, g). gc_max_retries c - retry_count)") auto

declare call_model.simps [simp del]

text \<open>What is done with a response of the model: it is counted, cached and recorded, or refused.\<close>

definition accept_response ::
  "model_budget \<Rightarrow> model_pricing \<Rightarrow> string \<Rightarrow> model_response \<times> nat \<Rightarrow>
   ('w gateway, planning_error, model_response) act" where
  "accept_response b p digest rn g =
     (let response = fst rn;
          projected_tokens = gw_total_tokens g + mu_total_tokens (mr_usage response);
          projected_cost = gw_cost g + estimate_cost p (mr_usage response)
      in if bu_max_total_tokens b < projected_tokens
         then (Inl (ModelBudgetExceeded ''model token budget exhausted''), g)
         else if \<not> cost_allowed b projected_cost
         then (Inl (ModelBudgetExceeded ''model cost budget exhausted''), g)
         else (Inr response,
               record_usage (usage_of p digest response (snd rn))
                 (g\<lparr>gw_total_tokens := projected_tokens, gw_cost := projected_cost,
                    gw_cache := dset digest response (gw_cache g)\<rparr>)))"

definition generate :: "'w gateway_config \<Rightarrow> model_request \<Rightarrow> ('w gateway, planning_error, model_response) act" where
  "generate c q =
     bnd (lift_res (request_digest (gc_cache_namespace c) q)) (\<lambda>digest.
     bnd (get_act (\<lambda>g. dget (gw_cache g) digest)) (\<lambda>cached.
     case cached of
       Some r \<Rightarrow>
         (let response = r\<lparr>mr_cache_hit := True\<rparr> in
          bnd (modify_act (record_usage (usage_of (gc_pricing c) digest response 0))) (\<lambda>_.
          ret response))
     | None \<Rightarrow>
         bnd (get_act gw_calls) (\<lambda>calls.
         if bu_max_calls (gc_budget c) \<le> calls
         then raise_act (ModelBudgetExceeded ''model call budget exhausted'')
         else bnd (call_model c q 0) (accept_response (gc_budget c) (gc_pricing c) digest))))"

section \<open>Calls\<close>

lemma call_model_effect:
  assumes "call_model c q n g = (a, g')" and "gw_calls g < bu_max_calls (gc_budget c)"
  shows "gw_calls g < gw_calls g' \<and> gw_calls g' \<le> bu_max_calls (gc_budget c)
    \<and> gw_calls g' \<le> gw_calls g + (gc_max_retries c - n) + 1
    \<and> (\<forall>r m. a = Inr (r, m) \<longrightarrow> (\<exists>w w'. gc_inner c q w = (Inr r, w')) \<and> gw_calls g' = gw_calls g + (m - n) + 1)
    \<and> gw_cache g' = gw_cache g \<and> gw_usage g' = gw_usage g
    \<and> gw_total_tokens g' = gw_total_tokens g \<and> gw_cost g' = gw_cost g \<and> (\<forall>r m. a = Inr (r, m) \<longrightarrow> n \<le> m)"
  using assms
proof (induction c q n g arbitrary: a g' rule: call_model.induct)
  case (1 c q n g)
  obtain x w where xw: "gc_inner c q (gw_world g) = (x, w)" by (cases "gc_inner c q (gw_world g)")
  define g1 where "g1 = g\<lparr>gw_calls := gw_calls g + 1, gw_world := w\<rparr>"
  show ?case
  proof (cases "\<exists>m. x = Inl (TransientModelError m) \<and> n < gc_max_retries c
      \<and> gw_calls g1 < bu_max_calls (gc_budget c)")
    case True
    then obtain m where m: "x = Inl (TransientModelError m)" "n < gc_max_retries c"
      "gw_calls g1 < bu_max_calls (gc_budget c)" by blast
    let ?g2 = "g1\<lparr>gw_world := gc_sleep c w\<rparr>"
    have r: "call_model c q (n + 1) ?g2 = (a, g')"
      using "1.prems"(1) m by (subst (asm) call_model.simps) (simp add: xw g1_def)
    have b: "gw_calls ?g2 < bu_max_calls (gc_budget c)" using m(3) by simp
    have IH: "gw_calls ?g2 < gw_calls g' \<and> gw_calls g' \<le> bu_max_calls (gc_budget c)
      \<and> gw_calls g' \<le> gw_calls ?g2 + (gc_max_retries c - (n + 1)) + 1
      \<and> (\<forall>r m. a = Inr (r, m) \<longrightarrow> (\<exists>w w'. gc_inner c q w = (Inr r, w'))
            \<and> gw_calls g' = gw_calls ?g2 + (m - (n + 1)) + 1)
      \<and> gw_cache g' = gw_cache ?g2 \<and> gw_usage g' = gw_usage ?g2
      \<and> gw_total_tokens g' = gw_total_tokens ?g2 \<and> gw_cost g' = gw_cost ?g2
      \<and> (\<forall>r m. a = Inr (r, m) \<longrightarrow> n + 1 \<le> m)"
      by (rule "1.IH" [OF refl xw [symmetric] g1_def m(1) refl _ _ r b]) (use m in simp_all)
    then show ?thesis using m(2) by (auto simp: g1_def)
  next
    case False
    then have "(a = Inl (ModelBudgetExceeded ''model call budget exhausted during retry'')
        \<or> a = map_sum id (\<lambda>r. (r, n)) x) \<and> g' = g1"
      using "1.prems"(1)
      by (subst (asm) call_model.simps)
        (auto simp: xw g1_def Let_def split: sum.splits planning_error.splits if_splits)
    then show ?thesis using "1.prems"(2) xw by (cases x) (auto simp: g1_def)
  qed
qed

lemma call_model_total: "\<exists>a g'. call_model c q n g = (a, g')"
  by (rule prod.exhaust) blast

section \<open>The budget\<close>

definition within_budget :: "'w gateway_config \<Rightarrow> 'w gateway \<Rightarrow> bool" where
  "within_budget c g \<longleftrightarrow> gw_calls g \<le> bu_max_calls (gc_budget c)
     \<and> gw_total_tokens g \<le> bu_max_total_tokens (gc_budget c)
     \<and> cost_allowed (gc_budget c) (gw_cost g)"

definition fresh_tokens :: "recorded_usage list \<Rightarrow> nat" where
  "fresh_tokens us = sum_list (map ru_total_tokens (filter (\<lambda>u. \<not> ru_cache_hit u) us))"

definition fresh_cost :: "recorded_usage list \<Rightarrow> nat" where
  "fresh_cost us = sum_list (map ru_estimated_cost (filter (\<lambda>u. \<not> ru_cache_hit u) us))"

definition accounted :: "'w gateway \<Rightarrow> bool" where
  "accounted g \<longleftrightarrow> gw_total_tokens g = fresh_tokens (gw_usage g) \<and> gw_cost g = fresh_cost (gw_usage g)"

lemma accept_response_cases:
  "accept_response b p digest (r, n) g = (a, g') \<Longrightarrow>
     (\<exists>m. a = Inl (ModelBudgetExceeded m)) \<and> g' = g
   \<or> a = Inr r \<and> gw_total_tokens g + mu_total_tokens (mr_usage r) \<le> bu_max_total_tokens b
     \<and> cost_allowed b (gw_cost g + estimate_cost p (mr_usage r))
     \<and> g' = record_usage (usage_of p digest r n)
              (g\<lparr>gw_total_tokens := gw_total_tokens g + mu_total_tokens (mr_usage r),
                 gw_cost := gw_cost g + estimate_cost p (mr_usage r),
                 gw_cache := dset digest r (gw_cache g)\<rparr>)"
  by (auto simp: accept_response_def Let_def split: if_splits)

text \<open>What a call of the gateway does, case by case.\<close>

lemma generate_cases:
  assumes "generate c q g = (a, g')"
  obtains (no_digest) e where "request_digest (gc_cache_namespace c) q = Inl e" "a = Inl e" "g' = g"
  | (cached) digest r where "request_digest (gc_cache_namespace c) q = Inr digest"
      "dget (gw_cache g) digest = Some r" "a = Inr (r\<lparr>mr_cache_hit := True\<rparr>)"
      "g' = record_usage (usage_of (gc_pricing c) digest (r\<lparr>mr_cache_hit := True\<rparr>) 0) g"
  | (refused) digest where "request_digest (gc_cache_namespace c) q = Inr digest"
      "dget (gw_cache g) digest = None" "bu_max_calls (gc_budget c) \<le> gw_calls g"
      "a = Inl (ModelBudgetExceeded ''model call budget exhausted'')" "g' = g"
  | (failed) digest e where "request_digest (gc_cache_namespace c) q = Inr digest"
      "dget (gw_cache g) digest = None" "gw_calls g < bu_max_calls (gc_budget c)"
      "call_model c q 0 g = (Inl e, g')" "a = Inl e"
  | (called) digest r n g1 where "request_digest (gc_cache_namespace c) q = Inr digest"
      "dget (gw_cache g) digest = None" "gw_calls g < bu_max_calls (gc_budget c)"
      "call_model c q 0 g = (Inr (r, n), g1)" "accept_response (gc_budget c) (gc_pricing c) digest (r, n) g1 = (a, g')"
proof (cases "request_digest (gc_cache_namespace c) q")
  case (Inl e)
  then show ?thesis using assms by (intro no_digest [of e]) (simp_all add: generate_def bnd_def)
next
  case (Inr digest)
  show ?thesis
  proof (cases "dget (gw_cache g) digest")
    case (Some r)
    then show ?thesis using assms Inr by (intro cached [of digest r]) (simp_all add: generate_def Let_def)
  next
    case None
    show ?thesis
    proof (cases "bu_max_calls (gc_budget c) \<le> gw_calls g")
      case True
      then show ?thesis using assms Inr None by (intro refused [of digest]) (simp_all add: generate_def)
    next
      case False
      then have g: "bnd (call_model c q 0) (accept_response (gc_budget c) (gc_pricing c) digest) g = (a, g')"
        using assms Inr None by (simp add: generate_def)
      obtain x g1 where x: "call_model c q 0 g = (x, g1)" by (cases "call_model c q 0 g")
      show ?thesis
      proof (cases x)
        case (Inl e)
        then show ?thesis using False g x \<open>request_digest _ q = _\<close> None
          by (intro failed [of digest e]) (simp_all add: bnd_def)
      next
        case (Inr rn)
        obtain r n where "rn = (r, n)" by (cases rn)
        then show ?thesis using False g x Inr \<open>request_digest _ q = _\<close> None
          by (intro called [of digest r n g1]) (simp_all add: bnd_def)
      qed
    qed
  qed
qed

lemma record_usage_fields [simp]:
  "gw_calls (record_usage u g) = gw_calls g" "gw_total_tokens (record_usage u g) = gw_total_tokens g"
  "gw_cost (record_usage u g) = gw_cost g" "gw_cache (record_usage u g) = gw_cache g"
  "gw_world (record_usage u g) = gw_world g" "gw_usage (record_usage u g) = gw_usage g @ [u]"
  by (simp_all add: record_usage_def)

lemma within_budget_record [simp]: "within_budget c (record_usage u g) = within_budget c g"
  by (simp add: within_budget_def)

lemma generate_within_budget:
  assumes "generate c q g = (a, g')" and "within_budget c g"
  shows "within_budget c g'"
  using assms(1)
proof (cases rule: generate_cases)
  case (failed digest e)
  then show ?thesis using assms(2) call_model_effect [OF failed(4,3)] by (simp add: within_budget_def)
next
  case (called digest r n g1)
  have g1: "within_budget c g1"
    using assms(2) call_model_effect [OF called(4,3)] by (simp add: within_budget_def)
  from accept_response_cases [OF called(5)] show ?thesis
  proof
    assume "(\<exists>m. a = Inl (ModelBudgetExceeded m)) \<and> g' = g1"
    then show ?thesis using g1 by simp
  next
    assume "a = Inr r \<and> gw_total_tokens g1 + mu_total_tokens (mr_usage r) \<le> bu_max_total_tokens (gc_budget c)
     \<and> cost_allowed (gc_budget c) (gw_cost g1 + estimate_cost (gc_pricing c) (mr_usage r))
     \<and> g' = record_usage (usage_of (gc_pricing c) digest r n)
              (g1\<lparr>gw_total_tokens := gw_total_tokens g1 + mu_total_tokens (mr_usage r),
                 gw_cost := gw_cost g1 + estimate_cost (gc_pricing c) (mr_usage r),
                 gw_cache := dset digest r (gw_cache g1)\<rparr>)"
    then show ?thesis using g1 by (simp add: within_budget_def)
  qed
qed (use assms(2) in simp_all)

text \<open>An answer is remembered: the same request then has the same answer, without a call.\<close>

lemma generate_cached:
  assumes "request_digest (gc_cache_namespace c) q = Inr digest" and "dget (gw_cache g) digest = Some r"
  shows "\<exists>u. generate c q g = (Inr (r\<lparr>mr_cache_hit := True\<rparr>), record_usage u g)
    \<and> ru_cache_hit u \<and> ru_estimated_cost u = 0"
  using assms
  by (intro exI [of _ "usage_of (gc_pricing c) digest (r\<lparr>mr_cache_hit := True\<rparr>) 0"])
    (simp add: generate_def Let_def usage_of_def)

lemma generate_again:
  assumes "generate c q g = (Inr r, g')"
  shows "\<exists>u. generate c q g' = (Inr (r\<lparr>mr_cache_hit := True\<rparr>), record_usage u g')
    \<and> ru_cache_hit u \<and> ru_estimated_cost u = 0"
  using assms
proof (cases rule: generate_cases)
  case (cached digest r0)
  then have "dget (gw_cache g') digest = Some r0" by simp
  from generate_cached [OF cached(1) this] show ?thesis using cached(3) by simp
next
  case (called digest r0 n g1)
  then have "dget (gw_cache g') digest = Some r" using accept_response_cases [OF called(5)] by auto
  from generate_cached [OF called(1) this] show ?thesis .
qed simp_all

section \<open>A model that is called, not cached\<close>

text \<open>
  The contract of the model behind the gateway: its own answers do not claim to come from a cache.
  Then the counters of the gateway are the sums of the records of what was not cached.
\<close>

locale model_port =
  fixes inner :: "model_request \<Rightarrow> ('w, planning_error, model_response) act"
  assumes not_cached: "inner q w = (Inr r, w') \<Longrightarrow> \<not> mr_cache_hit r"
begin

lemma generate_accounted:
  assumes "gc_inner c = inner" and "generate c q g = (a, g')" and "accounted g"
  shows "accounted g'"
  using assms(2)
proof (cases rule: generate_cases)
  case (cached digest r)
  then show ?thesis using assms(3) by (simp add: accounted_def fresh_tokens_def fresh_cost_def usage_of_def)
next
  case (failed digest e)
  then show ?thesis using assms(3) call_model_effect [OF failed(4,3)] by (simp add: accounted_def)
next
  case (called digest r n g1)
  have g1: "accounted g1" using assms(3) call_model_effect [OF called(4,3)] by (simp add: accounted_def)
  have "\<exists>w w'. inner q w = (Inr r, w')" using call_model_effect [OF called(4,3)] assms(1) by blast
  then have "\<not> mr_cache_hit r" using not_cached by blast
  with accept_response_cases [OF called(5)] g1 show ?thesis
    by (elim disjE) (simp_all add: accounted_def fresh_tokens_def fresh_cost_def usage_of_def)
qed (use assms(3) in simp_all)

end

text \<open>The states a gateway goes through while it is called and the world around it moves.\<close>

inductive gateway_run :: "'w gateway_config \<Rightarrow> 'w gateway \<Rightarrow> bool" for c where
  gateway_start: "gateway_run c (new_gateway w cache)"
| gateway_call: "gateway_run c g \<Longrightarrow> generate c q g = (a, g') \<Longrightarrow> gateway_run c g'"
| gateway_wait: "gateway_run c g \<Longrightarrow> gateway_run c (g\<lparr>gw_world := w\<rparr>)"

lemma gateway_run_within_budget: "gateway_run c g \<Longrightarrow> within_budget c g"
proof (induction rule: gateway_run.induct)
  case (gateway_start w cache)
  then show ?case by (simp add: within_budget_def new_gateway_def cost_allowed_def split: option.splits)
next
  case (gateway_call g q a g')
  then show ?case using generate_within_budget by blast
next
  case (gateway_wait g w)
  then show ?case by (simp add: within_budget_def)
qed

lemma gateway_run_accounted:
  assumes "model_port (gc_inner c)"
  shows "gateway_run c g \<Longrightarrow> accounted g"
proof (induction rule: gateway_run.induct)
  case (gateway_start w cache)
  then show ?case by (simp add: accounted_def new_gateway_def fresh_tokens_def fresh_cost_def)
next
  case (gateway_call g q a g')
  then show ?case using model_port.generate_accounted [OF assms refl] by blast
next
  case (gateway_wait g w)
  then show ?case by (simp add: accounted_def)
qed

section \<open>A property of the gateway\<close>

definition sample_config :: "nat gateway_config" where
  "sample_config =
     \<lparr>gc_inner = \<lambda>q w. (Inr \<lparr>mr_payload = [], mr_usage = \<lparr>mu_input_tokens = 1, mu_output_tokens = 1, mu_total_tokens = 2\<rparr>,
                             mr_model = ''m'', mr_latency_ms = 0, mr_finish_reason = ''stop'', mr_cache_hit = False\<rparr>, w + 1),
      gc_budget = \<lparr>bu_max_calls = 2, bu_max_total_tokens = 10, bu_max_cost = None\<rparr>,
      gc_cache_namespace = ''n'', gc_pricing = \<lparr>pr_input = 0, pr_output = 0\<rparr>, gc_max_retries = 1, gc_sleep = id\<rparr>"


definition sample_request :: model_request where
  "sample_request =
     \<lparr>mq_request_id = ''q'', mq_messages = [], mq_response_schema_name = ''s'', mq_response_schema = [],
      mq_prompt_version = ''1'', mq_knowledge_snapshot_digest = '''', mq_max_output_tokens = 10\<rparr>"

lemma sample_generates: "\<exists>r g. generate sample_config sample_request (new_gateway 0 []) = (Inr r, g) \<and> gw_calls g = 1"
proof -
  obtain d where d: "request_digest (gc_cache_namespace sample_config) sample_request = Inr d"
    by (simp add: request_digest_def sample_request_def request_value_def json_digest_def map_error_def json_key.simps)
  show ?thesis using d
    by (simp add: generate_def sample_config_def bnd_def accept_response_def Let_def new_gateway_def cost_allowed_def
        call_model.simps record_usage_def)
qed


section \<open>A flaw\<close>

text \<open>
  The tokens of a refused answer are not counted: a model whose every answer has more tokens than the
  budget is called until the calls are used up, and the gateway then still counts no token.
\<close>

lemma refused_tokens_uncounted:
  assumes "bu_max_total_tokens (gc_budget c) < mu_total_tokens (mr_usage r)"
  shows "accept_response (gc_budget c) (gc_pricing c) digest (r, n) g1 = (Inl (ModelBudgetExceeded ''model token budget exhausted''), g1)"
  using assms by (simp add: accept_response_def Let_def)

end
