(* ===== verification/Json_Text.thy ===== *)
theory Json_Text
  imports Digest
begin

text \<open>
  \<open>json.dumps(value, ensure_ascii=False, sort_keys=True)\<close> with the separators it has by default:
  the JSON text that prompts, tool messages and summaries are made of.
\<close>

definition json_plain_char :: "char \<Rightarrow> string" where
  "json_plain_char c =
     (if c = CHR 34 then [CHR 92, CHR 34]
      else if c = CHR 92 then [CHR 92, CHR 92]
      else if code c = 10 then [CHR 92, CHR ''n'']
      else if code c = 13 then [CHR 92, CHR ''r'']
      else if code c = 9 then [CHR 92, CHR ''t'']
      else if code c = 12 then [CHR 92, CHR ''f'']
      else if code c = 8 then [CHR 92, CHR ''b'']
      else if code c < 32 then [CHR 92] @ ''u00'' @ hex_byte (code c)
      else [c])"

definition json_plain_string :: "string \<Rightarrow> string" where
  "json_plain_string s = [CHR 34] @ concat (map json_plain_char s) @ [CHR 34]"

fun json_text :: "pyval \<Rightarrow> error + string" where
  "json_text PNone = Inr ''null''"
| "json_text (PBool b) = Inr (if b then ''true'' else ''false'')"
| "json_text (PInt i) = Inr (int_text i)"
| "json_text (PFloat f) = Inr (float_text f)"
| "json_text (PStr s) = Inr (json_plain_string s)"
| "json_text (PList xs) = sbind (smap json_text xs) (\<lambda>ys. Inr (''['' @ join '', '' ys @ '']''))"
| "json_text (PTuple xs) = sbind (smap json_text xs) (\<lambda>ys. Inr (''['' @ join '', '' ys @ '']''))"
| "json_text (PDict d) =
     sbind (smap (\<lambda>kv. sbind (json_key (fst kv)) (\<lambda>k.
                       sbind (json_text (snd kv)) (\<lambda>v. Inr (k, v)))) d)
       (\<lambda>fields. Inr (''{'' @ join '', '' (map (\<lambda>(k, v). json_plain_string k @ '': '' @ v)
                                            (sort_key fst fields)) @ ''}''))"
| "json_text _ = Inl (TypeError ''Object is not JSON serializable'')"

end
