(* ===== verification/Plan_Validation.thy ===== *)
theory Plan_Validation
  imports Plans Tooling Validation
begin

text \<open>
  \<open>planning/application/validation.py\<close>: the deterministic check of a plan that a model proposed,
  against the registered tools, the policies and the evidence it cites, and the risk and approval
  that it then has.
\<close>

section \<open>The code\<close>

record validation_issue =
  vi_code :: string
  vi_message :: string
  vi_step_id :: "string option"
  vi_repairable :: bool

record validation_report =
  vr_valid :: bool
  vr_normalized_plan :: "change_plan option"
  vr_errors :: "validation_issue list"

definition issue :: "string \<Rightarrow> string \<Rightarrow> string option \<Rightarrow> validation_issue" where
  "issue kind message step_id =
     \<lparr>vi_code = kind, vi_message = message, vi_step_id = step_id, vi_repairable = False\<rparr>"

fun risk_order :: "tool_risk \<Rightarrow> nat" where
  "risk_order RiskLow = 0"
| "risk_order RiskMedium = 1"
| "risk_order RiskHigh = 2"

fun trust_order :: "trust_level \<Rightarrow> nat" where
  "trust_order Untrusted = 0"
| "trust_order Internal = 1"
| "trust_order Authoritative = 2"

text \<open>\<open>max(values, key=_RISK_ORDER)\<close>: the first of the greatest.\<close>

definition max_risk :: "tool_risk \<Rightarrow> tool_risk list \<Rightarrow> tool_risk" where
  "max_risk r rs = foldl (\<lambda>m x. if risk_order m < risk_order x then x else m) r rs"

definition dependency_issues :: "string set \<Rightarrow> plan_step \<Rightarrow> validation_issue list" where
  "dependency_issues known s =
     map (\<lambda>d. issue ''unknown_dependency'' (''unknown dependency '' @ py_repr d) (Some (ps_id s)))
       (filter (\<lambda>d. d \<notin> known) (ps_depends_on s))"

definition plan_dependencies :: "change_plan \<Rightarrow> dependencies" where
  "plan_dependencies p = fold (\<lambda>s. dset (ps_id s) (ps_depends_on s)) (cp_steps p) []"

definition graph_issues :: "change_plan \<Rightarrow> error + validation_issue list" where
  "graph_issues p =
     (let deps = plan_dependencies p;
          unknown = concat (map (dependency_issues (set (keys deps))) (cp_steps p))
      in if unknown \<noteq> [] then Inr unknown
         else sbind (find_cycle deps) (\<lambda>cycle.
              Inr (case cycle of None \<Rightarrow> []
                   | Some c \<Rightarrow> [issue ''dependency_cycle'' (''cycle detected: '' @ join '', '' c)
                                 (Some (hd c))])))"

text \<open>\<open>try: validate_arguments except ValueError\<close>.\<close>

definition argument_issues :: "tool_registry \<Rightarrow> plan_step \<Rightarrow> error + validation_issue list" where
  "argument_issues reg s =
     (case validate_arguments reg (pt_name (ps_tool s)) (pt_version (ps_tool s)) (PDict (ps_arguments s)) of
        Inr _ \<Rightarrow> Inr []
      | Inl (ValueError m) \<Rightarrow> Inr [issue ''invalid_arguments'' m (Some (ps_id s))]
      | Inl e \<Rightarrow> Inl e)"

definition compensation_issues ::
  "tool_registry \<Rightarrow> plan_step \<Rightarrow> tool_policy \<Rightarrow> validation_issue list" where
  "compensation_issues reg s policy =
     (if \<not> tp_compensation_required policy then []
      else (case (ps_compensation_tool s, ps_compensation_intent s) of
        (Some t, Some (_ # _)) \<Rightarrow>
          (if reg_contains reg (pt_name t) (pt_version t) then []
           else [issue ''unknown_compensation_tool'' ''compensation tool is not registered''
                   (Some (ps_id s))])
      | _ \<Rightarrow> [issue ''missing_compensation'' ''tool policy requires a compensation tool and intent''
               (Some (ps_id s))]))"

text \<open>The evidence that a reference cites, if it is there and unchanged.\<close>

definition cited ::
  "(string, retrieved_evidence) dict \<Rightarrow> evidence_ref \<Rightarrow> retrieved_evidence option" where
  "cited by_chunk r =
     (case dget by_chunk (eb_chunk_id r) of None \<Rightarrow> None
      | Some item \<Rightarrow> if re_reference item \<noteq> r then None else Some item)"

definition absent_issue :: "plan_step \<Rightarrow> evidence_ref \<Rightarrow> validation_issue" where
  "absent_issue s r =
     issue ''invalid_evidence_reference''
       (''evidence '' @ py_repr (eb_chunk_id r) @ '' is absent or stale'') (Some (ps_id s))"

definition reference_issues ::
  "(string, retrieved_evidence) dict \<Rightarrow> plan_step \<Rightarrow> evidence_ref \<Rightarrow> validation_issue list" where
  "reference_issues by_chunk s r =
     (case cited by_chunk r of None \<Rightarrow> [absent_issue s r]
      | Some item \<Rightarrow>
        if re_conflict item
        then [issue ''conflicting_evidence''
                (''evidence '' @ py_repr (eb_chunk_id r) @ '' is conflicted'') (Some (ps_id s))]
        else [])"

definition trusted_reference ::
  "(string, retrieved_evidence) dict \<Rightarrow> tool_policy \<Rightarrow> evidence_ref \<Rightarrow> bool" where
  "trusted_reference by_chunk policy r =
     (case cited by_chunk r of None \<Rightarrow> False
      | Some item \<Rightarrow> trust_order (tp_minimum_trust policy) \<le> trust_order (re_trust_level item))"

definition evidence_issues ::
  "(string, retrieved_evidence) dict \<Rightarrow> plan_step \<Rightarrow> tool_policy \<Rightarrow> validation_issue list" where
  "evidence_issues by_chunk s policy =
     concat (map (reference_issues by_chunk s) (ps_evidence_refs s))
     @ (if tp_side_effecting policy
           \<and> \<not> list_ex (trusted_reference by_chunk policy) (ps_evidence_refs s)
        then [issue ''insufficient_trusted_evidence''
                ''side-effecting step lacks sufficiently trusted evidence'' (Some (ps_id s))]
        else [])"

definition citation_issues ::
  "(string, retrieved_evidence) dict \<Rightarrow> plan_step \<Rightarrow> validation_issue list" where
  "citation_issues by_chunk s =
     map (absent_issue s) (filter (\<lambda>r. cited by_chunk r = None) (ps_evidence_refs s))"

section \<open>Normalizing a step\<close>

definition final_risk :: "tool_descriptor \<Rightarrow> tool_policy option \<Rightarrow> plan_step \<Rightarrow> tool_risk" where
  "final_risk d policy s =
     max_risk (ps_risk s)
       [td_risk d, (case policy of None \<Rightarrow> td_risk d | Some p \<Rightarrow> tp_minimum_risk p)]"

definition descriptor_reason :: string where
  "descriptor_reason = ''runtime tool descriptor marks this operation high risk''"

definition policy_reason :: string where
  "policy_reason = ''planning tool policy raises the minimum risk''"

definition default_approval_reason :: string where
  "default_approval_reason = ''deterministic risk policy requires approval''"

text \<open>\<open>tuple(dict.fromkeys(xs))\<close>: without repetitions, in the order of first occurrence.\<close>

definition unique :: "'a list \<Rightarrow> 'a list" where
  "unique xs = fold add_key xs []"

definition risk_reasons :: "tool_descriptor \<Rightarrow> tool_policy option \<Rightarrow> plan_step \<Rightarrow> string list" where
  "risk_reasons d policy s =
     unique (ps_risk_reasons s
       @ (if td_risk d = RiskHigh then [descriptor_reason] else [])
       @ (case policy of None \<Rightarrow> []
          | Some p \<Rightarrow> if risk_order (ps_risk s) < risk_order (tp_minimum_risk p)
                      then [policy_reason] else []))"

definition approval_reason :: "bool \<Rightarrow> string option \<Rightarrow> string option" where
  "approval_reason required reason =
     (if required \<and> (reason = None \<or> reason = Some []) then Some default_approval_reason else reason)"

definition normalize_step :: "tool_descriptor \<Rightarrow> tool_policy option \<Rightarrow> plan_step \<Rightarrow> plan_step" where
  "normalize_step d policy s =
     (let risk = final_risk d policy s; required = (ps_approval_required s \<or> risk = RiskHigh)
      in s\<lparr>ps_risk := risk, ps_approval_required := required,
           ps_approval_reason := approval_reason required (ps_approval_reason s),
           ps_risk_reasons := risk_reasons d policy s\<rparr>)"

definition policy_issues ::
  "tool_registry \<Rightarrow> (string, retrieved_evidence) dict \<Rightarrow> tool_policy option \<Rightarrow> plan_step \<Rightarrow>
   validation_issue list" where
  "policy_issues reg by_chunk policy s =
     (case policy of None \<Rightarrow> citation_issues by_chunk s
      | Some p \<Rightarrow> compensation_issues reg s p @ evidence_issues by_chunk s p)"

text \<open>\<open>_validate_step\<close>: the issues it appends and the step it returns.\<close>

definition validate_step ::
  "tool_registry \<Rightarrow> policy_catalog \<Rightarrow> (string, retrieved_evidence) dict \<Rightarrow> plan_step \<Rightarrow>
   error + validation_issue list \<times> plan_step" where
  "validate_step reg catalog by_chunk s =
     (let name = pt_name (ps_tool s); version = pt_version (ps_tool s) in
      if \<not> reg_contains reg name version
      then Inr ([issue ''unknown_tool'' (''unknown tool '' @ tool_label name version)
                   (Some (ps_id s))], s)
      else sbind (argument_issues reg s) (\<lambda>arguments.
           sbind (descriptor_for reg name version) (\<lambda>d.
           let policy = policy_for catalog name version in
           Inr (arguments @ policy_issues reg by_chunk policy s, normalize_step d policy s))))"

definition version_issues :: "policy_catalog \<Rightarrow> change_plan \<Rightarrow> validation_issue list" where
  "version_issues catalog p =
     (if cp_tool_policy_version p \<noteq> pc_version catalog
      then [issue ''stale_tool_policy'' ''plan tool policy version is stale'' None] else [])"

definition evidence_by_chunk :: "retrieved_evidence list \<Rightarrow> (string, retrieved_evidence) dict" where
  "evidence_by_chunk evidence = index_by (\<lambda>e. eb_chunk_id (re_reference e)) evidence"

definition validate_plan ::
  "tool_registry \<Rightarrow> policy_catalog \<Rightarrow> change_plan \<Rightarrow> retrieved_evidence list \<Rightarrow>
   error + validation_report" where
  "validate_plan reg catalog p evidence =
     sbind (graph_issues p) (\<lambda>graph.
     sbind (smap (validate_step reg catalog (evidence_by_chunk evidence)) (cp_steps p)) (\<lambda>checked.
     let errors = graph @ concat (map fst checked) @ version_issues catalog p
     in Inr (if errors \<noteq> []
             then \<lparr>vr_valid = False, vr_normalized_plan = None, vr_errors = errors\<rparr>
             else \<lparr>vr_valid = True, vr_normalized_plan = Some (p\<lparr>cp_steps := map snd checked\<rparr>),
                   vr_errors = []\<rparr>)))"

section \<open>What a step has to satisfy\<close>

definition compensation_ok :: "tool_registry \<Rightarrow> plan_step \<Rightarrow> bool" where
  "compensation_ok reg s \<longleftrightarrow>
     (\<exists>t i. ps_compensation_tool s = Some t \<and> ps_compensation_intent s = Some i \<and> i \<noteq> []
        \<and> reg_contains reg (pt_name t) (pt_version t))"

definition policy_ok ::
  "tool_registry \<Rightarrow> (string, retrieved_evidence) dict \<Rightarrow> tool_policy \<Rightarrow> plan_step \<Rightarrow> bool" where
  "policy_ok reg by_chunk p s \<longleftrightarrow>
     (tp_compensation_required p \<longrightarrow> compensation_ok reg s)
     \<and> (\<forall>r \<in> set (ps_evidence_refs s). \<exists>e. cited by_chunk r = Some e \<and> \<not> re_conflict e)
     \<and> (tp_side_effecting p \<longrightarrow> (\<exists>r \<in> set (ps_evidence_refs s). \<exists>e. cited by_chunk r = Some e
          \<and> trust_order (tp_minimum_trust p) \<le> trust_order (re_trust_level e)))"

definition step_acceptable ::
  "tool_registry \<Rightarrow> policy_catalog \<Rightarrow> (string, retrieved_evidence) dict \<Rightarrow> plan_step \<Rightarrow> bool" where
  "step_acceptable reg catalog by_chunk s \<longleftrightarrow>
     (let name = pt_name (ps_tool s); version = pt_version (ps_tool s) in
      reg_contains reg name version
      \<and> validate_arguments reg name version (PDict (ps_arguments s)) = Inr ()
      \<and> (case policy_for catalog name version of
           None \<Rightarrow> (\<forall>r \<in> set (ps_evidence_refs s). cited by_chunk r \<noteq> None)
         | Some p \<Rightarrow> policy_ok reg by_chunk p s))"

definition plan_graph :: "change_plan \<Rightarrow> (string \<times> string) set" where
  "plan_graph p = {(d, ps_id s) | d s. s \<in> set (cp_steps p) \<and> d \<in> set (ps_depends_on s)}"

definition plan_acceptable ::
  "tool_registry \<Rightarrow> policy_catalog \<Rightarrow> change_plan \<Rightarrow> retrieved_evidence list \<Rightarrow> bool" where
  "plan_acceptable reg catalog p evidence \<longleftrightarrow>
     (\<forall>s \<in> set (cp_steps p). set (ps_depends_on s) \<subseteq> ps_id ` set (cp_steps p)
         \<and> step_acceptable reg catalog (evidence_by_chunk evidence) s)
     \<and> acyclic (plan_graph p) \<and> cp_tool_policy_version p = pc_version catalog"

text \<open>What the cited evidence is: given, under its chunk's id, and with this very reference.\<close>

lemma cited_SomeD:
  "cited (evidence_by_chunk evidence) r = Some e \<Longrightarrow> e \<in> set evidence \<and> re_reference e = r"
  by (auto simp: cited_def evidence_by_chunk_def split: option.splits if_splits dest!: index_by_SomeD)

section \<open>No issue exactly when it is satisfied\<close>

lemma dset_new: "k \<notin> fst ` set d \<Longrightarrow> dset k v d = d @ [(k, v)]"
  by (induction d) auto

lemma fold_dset_distinct:
  "distinct (map f xs) \<Longrightarrow> fold (\<lambda>x. dset (f x) (g x)) xs [] = map (\<lambda>x. (f x, g x)) xs"
proof (induction xs rule: rev_induct)
  case (snoc x xs)
  then show ?case by (subst fold_append) (auto simp: dset_new image_iff)
qed simp

lemma plan_dependencies_table:
  assumes "distinct (map ps_id (cp_steps p))"
  shows "plan_dependencies p = map (\<lambda>s. (ps_id s, ps_depends_on s)) (cp_steps p)"
  unfolding plan_dependencies_def using assms by (rule fold_dset_distinct)

lemma plan_dep_graph:
  assumes "distinct (map ps_id (cp_steps p))"
  shows "dep_graph (plan_dependencies p) = plan_graph p"
proof -
  have "dget (plan_dependencies p) i = Some ds \<longleftrightarrow>
      (\<exists>s \<in> set (cp_steps p). ps_id s = i \<and> ps_depends_on s = ds)" for i ds
    using assms unfolding plan_dependencies_table [OF assms]
    by (subst dget_Some_in_set) (auto simp: comp_def)
  then show ?thesis by (auto simp: depends_def plan_graph_def)
qed

lemma concat_Nil: "concat xss = [] \<longleftrightarrow> (\<forall>xs \<in> set xss. xs = [])"
  by (induction xss) auto

lemma graph_issues_result:
  assumes d: "distinct (map ps_id (cp_steps p))"
  obtains es where "graph_issues p = Inr es"
    and "es = [] \<longleftrightarrow> (\<forall>s \<in> set (cp_steps p). set (ps_depends_on s) \<subseteq> ps_id ` set (cp_steps p))
            \<and> acyclic (plan_graph p)"
proof -
  let ?deps = "plan_dependencies p"
  have keys: "set (keys ?deps) = ps_id ` set (cp_steps p)"
    unfolding plan_dependencies_table [OF d] by force
  let ?unknown = "concat (map (dependency_issues (set (keys ?deps))) (cp_steps p))"
  have u: "?unknown = [] \<longleftrightarrow> (\<forall>s \<in> set (cp_steps p). set (ps_depends_on s) \<subseteq> ps_id ` set (cp_steps p))"
    unfolding keys by (auto simp: concat_Nil dependency_issues_def filter_empty_all)
  show ?thesis
  proof (cases "?unknown = []")
    case True
    have "closed_deps ?deps" using True d unfolding u
      by (auto simp: closed_deps_def plan_dependencies_table [OF d] comp_def image_image)
    from find_cycle_blocked [OF this] have f: "find_cycle ?deps
        = Inr (if acyclic (plan_graph p) then None else Some (blocked ?deps))"
      by (simp add: blocked_Nil_iff plan_dep_graph [OF d])
    let ?es = "if acyclic (plan_graph p) then []
       else [issue ''dependency_cycle'' (''cycle detected: '' @ join '', '' (blocked ?deps)) (Some (hd (blocked ?deps)))]"
    have "graph_issues p = Inr ?es" using True f by (simp add: graph_issues_def Let_def)
    then show ?thesis by (rule that) (use True u in simp)
  next
    case False
    show ?thesis by (rule that) (use False u in \<open>auto simp: graph_issues_def Let_def\<close>)
  qed
qed

lemma validate_arguments_failure:
  assumes "reg_contains reg n v" and "validate_arguments reg n v a = Inl e"
  shows "\<exists>m. e = ValueError m"
proof -
  obtain d where "descriptor_for reg n v = Inr d" using assms(1) descriptor_for_iff by blast
  then show ?thesis using assms(2)
    by (auto simp: validate_arguments_def coerce_arguments_def sbind_Inl_iff or_raise_def
        reject_unexpected_fields_def validate_model_def split: option.splits sum.splits)
qed

lemma argument_issues_result:
  assumes "reg_contains reg (pt_name (ps_tool s)) (pt_version (ps_tool s))"
  obtains es where "argument_issues reg s = Inr es"
    and "es = [] \<longleftrightarrow> validate_arguments reg (pt_name (ps_tool s)) (pt_version (ps_tool s))
                      (PDict (ps_arguments s)) = Inr ()"
proof (cases "validate_arguments reg (pt_name (ps_tool s)) (pt_version (ps_tool s)) (PDict (ps_arguments s))")
  case (Inl e)
  then show ?thesis using validate_arguments_failure [OF assms Inl] that
    by (auto simp: argument_issues_def)
qed (auto simp: argument_issues_def intro: that)

lemma compensation_issues_Nil:
  "compensation_issues reg s p = [] \<longleftrightarrow> (tp_compensation_required p \<longrightarrow> compensation_ok reg s)"
  by (auto simp: compensation_issues_def compensation_ok_def split: option.splits list.splits)

lemma evidence_issues_Nil:
  "compensation_issues reg s p @ evidence_issues by_chunk s p = [] \<longleftrightarrow> policy_ok reg by_chunk p s"
proof -
  have r: "reference_issues by_chunk s r = [] \<longleftrightarrow> (\<exists>e. cited by_chunk r = Some e \<and> \<not> re_conflict e)" for r
    by (simp add: reference_issues_def split: option.splits)
  have t: "trusted_reference by_chunk p r \<longleftrightarrow> (\<exists>e. cited by_chunk r = Some e
      \<and> trust_order (tp_minimum_trust p) \<le> trust_order (re_trust_level e))" for r
    by (simp add: trusted_reference_def split: option.splits)
  show ?thesis
    by (simp add: compensation_issues_Nil evidence_issues_def policy_ok_def concat_Nil r t list_ex_iff)
qed

lemma policy_issues_Nil:
  "policy_issues reg by_chunk policy s = [] \<longleftrightarrow>
     (case policy of None \<Rightarrow> (\<forall>r \<in> set (ps_evidence_refs s). cited by_chunk r \<noteq> None)
      | Some p \<Rightarrow> policy_ok reg by_chunk p s)"
  using evidence_issues_Nil [of reg s _ by_chunk]
  by (auto simp: policy_issues_def citation_issues_def filter_empty_all split: option.splits)

lemma validate_step_result:
  obtains es s' where "validate_step reg catalog by_chunk s = Inr (es, s')"
    and "es = [] \<longleftrightarrow> step_acceptable reg catalog by_chunk s"
    and "\<And>d. es = [] \<Longrightarrow> descriptor_for reg (pt_name (ps_tool s)) (pt_version (ps_tool s)) = Inr d \<Longrightarrow>
           s' = normalize_step d (policy_for catalog (pt_name (ps_tool s)) (pt_version (ps_tool s))) s"
proof (cases "reg_contains reg (pt_name (ps_tool s)) (pt_version (ps_tool s))")
  case True
  obtain args where a: "argument_issues reg s = Inr args"
    and an: "args = [] \<longleftrightarrow> validate_arguments reg (pt_name (ps_tool s)) (pt_version (ps_tool s))
                      (PDict (ps_arguments s)) = Inr ()"
    by (rule argument_issues_result [OF True])
  obtain d where d: "descriptor_for reg (pt_name (ps_tool s)) (pt_version (ps_tool s)) = Inr d"
    using True descriptor_for_iff by blast
  show ?thesis
    by (rule that) (use True a an d in \<open>auto simp: validate_step_def Let_def step_acceptable_def policy_issues_Nil\<close>)
next
  case False
  show ?thesis by (rule that) (use False in \<open>auto simp: validate_step_def Let_def step_acceptable_def\<close>)
qed

section \<open>The verdict\<close>

lemma smap_results:
  assumes "\<And>x. x \<in> set xs \<Longrightarrow> \<exists>y. f x = Inr y"
  shows "smap f xs = Inr (map (\<lambda>x. projr (f x)) xs)"
  using assms by (intro smap_all_Inr) force

definition normalized_step ::
  "tool_registry \<Rightarrow> policy_catalog \<Rightarrow> plan_step \<Rightarrow> plan_step" where
  "normalized_step reg catalog s =
     (case descriptor_for reg (pt_name (ps_tool s)) (pt_version (ps_tool s)) of
        Inl e \<Rightarrow> s
      | Inr d \<Rightarrow> normalize_step d (policy_for catalog (pt_name (ps_tool s)) (pt_version (ps_tool s))) s)"

lemma validate_plan_result:
  assumes d: "distinct (map ps_id (cp_steps p))"
  shows "if plan_acceptable reg catalog p evidence
     then validate_plan reg catalog p evidence
       = Inr \<lparr>vr_valid = True,
              vr_normalized_plan = Some (p\<lparr>cp_steps := map (normalized_step reg catalog) (cp_steps p)\<rparr>),
              vr_errors = []\<rparr>
     else \<exists>es. es \<noteq> [] \<and> validate_plan reg catalog p evidence
       = Inr \<lparr>vr_valid = False, vr_normalized_plan = None, vr_errors = es\<rparr>"
proof -
  let ?v = "validate_step reg catalog (evidence_by_chunk evidence)"
  obtain graph where g: "graph_issues p = Inr graph"
    and gn: "graph = [] \<longleftrightarrow> (\<forall>s \<in> set (cp_steps p). set (ps_depends_on s) \<subseteq> ps_id ` set (cp_steps p))
            \<and> acyclic (plan_graph p)" by (rule graph_issues_result [OF d])
  have m: "smap ?v (cp_steps p) = Inr (map (\<lambda>s. projr (?v s)) (cp_steps p))"
    by (rule smap_results) (metis validate_step_result)
  have each: "fst (projr (?v s)) = [] \<longleftrightarrow> step_acceptable reg catalog (evidence_by_chunk evidence) s"
    "step_acceptable reg catalog (evidence_by_chunk evidence) s \<Longrightarrow>
       snd (projr (?v s)) = normalized_step reg catalog s" for s
  proof -
    obtain es s' where v: "?v s = Inr (es, s')"
      and n: "es = [] \<longleftrightarrow> step_acceptable reg catalog (evidence_by_chunk evidence) s"
      and s': "\<And>d. es = [] \<Longrightarrow> descriptor_for reg (pt_name (ps_tool s)) (pt_version (ps_tool s)) = Inr d \<Longrightarrow>
           s' = normalize_step d (policy_for catalog (pt_name (ps_tool s)) (pt_version (ps_tool s))) s"
      by (rule validate_step_result) blast
    show "fst (projr (?v s)) = [] \<longleftrightarrow> step_acceptable reg catalog (evidence_by_chunk evidence) s"
      using v n by simp
    assume a: "step_acceptable reg catalog (evidence_by_chunk evidence) s"
    then have "reg_contains reg (pt_name (ps_tool s)) (pt_version (ps_tool s))"
      by (simp add: step_acceptable_def Let_def)
    then obtain d where "descriptor_for reg (pt_name (ps_tool s)) (pt_version (ps_tool s)) = Inr d"
      using descriptor_for_iff by blast
    then show "snd (projr (?v s)) = normalized_step reg catalog s"
      using a n v s' by (simp add: normalized_step_def)
  qed
  define es where "es = graph @ concat (map (\<lambda>s. fst (projr (?v s))) (cp_steps p)) @ version_issues catalog p"
  define steps where "steps = map (\<lambda>s. snd (projr (?v s))) (cp_steps p)"
  have nil: "es = [] \<longleftrightarrow> plan_acceptable reg catalog p evidence"
    using gn each(1) by (auto simp: es_def plan_acceptable_def concat_Nil version_issues_def)
  have res: "validate_plan reg catalog p evidence = Inr (if es \<noteq> []
       then \<lparr>vr_valid = False, vr_normalized_plan = None, vr_errors = es\<rparr>
       else \<lparr>vr_valid = True, vr_normalized_plan = Some (p\<lparr>cp_steps := steps\<rparr>), vr_errors = []\<rparr>)"
    by (simp add: validate_plan_def g m Let_def comp_def es_def steps_def)
  show ?thesis
  proof (cases "plan_acceptable reg catalog p evidence")
    case True
    then have "steps = map (normalized_step reg catalog) (cp_steps p)"
      using each(2) by (simp add: plan_acceptable_def steps_def)
    then show ?thesis using True nil res by simp
  next
    case False
    then have "es \<noteq> []" using nil by simp
    then have "es \<noteq> [] \<and> validate_plan reg catalog p evidence
        = Inr \<lparr>vr_valid = False, vr_normalized_plan = None, vr_errors = es\<rparr>" using res by simp
    then show ?thesis unfolding if_not_P [OF False] ..
  qed
qed

section \<open>What normalization guarantees\<close>

lemma max_risk_ge:
  "risk_order r \<le> risk_order (max_risk r rs)" "x \<in> set rs \<Longrightarrow> risk_order x \<le> risk_order (max_risk r rs)"
proof -
  have ge: "risk_order r \<le> risk_order (max_risk r rs)" for r rs
  proof (induction rs arbitrary: r)
    case (Cons y rs)
    from Cons.IH [of "if risk_order r < risk_order y then y else r"] show ?case
      by (auto simp: max_risk_def split: if_splits)
  qed (simp add: max_risk_def)
  then show "risk_order r \<le> risk_order (max_risk r rs)" .
  show "x \<in> set rs \<Longrightarrow> risk_order x \<le> risk_order (max_risk r rs)"
  proof (induction rs arbitrary: r)
    case (Cons y rs)
    let ?r = "if risk_order r < risk_order y then y else r"
    have "max_risk r (y # rs) = max_risk ?r rs" by (simp add: max_risk_def)
    moreover have "risk_order y \<le> risk_order ?r" by simp
    moreover have "risk_order ?r \<le> risk_order (max_risk ?r rs)" by (rule ge)
    moreover have "x \<in> set rs \<Longrightarrow> risk_order x \<le> risk_order (max_risk ?r rs)" by (rule Cons.IH)
    ultimately show ?case using Cons.prems by auto
  qed simp
qed

lemma risk_order_inject [simp]: "risk_order a = risk_order b \<longleftrightarrow> a = b"
  by (cases a; cases b) simp_all

lemma risk_order_le_High: "risk_order a \<le> 2" "risk_order a = 2 \<longleftrightarrow> a = RiskHigh"
  by (cases a; simp)+

text \<open>The risk and the approval of a step as its tool and its policy demand it.\<close>

definition step_guarded :: "tool_descriptor \<Rightarrow> tool_policy option \<Rightarrow> plan_step \<Rightarrow> bool" where
  "step_guarded d policy s \<longleftrightarrow>
     risk_order (td_risk d) \<le> risk_order (ps_risk s)
     \<and> (\<forall>p. policy = Some p \<longrightarrow> risk_order (tp_minimum_risk p) \<le> risk_order (ps_risk s))
     \<and> (ps_risk s = RiskHigh \<longrightarrow> ps_approval_required s)
     \<and> (ps_approval_required s \<longrightarrow> (\<exists>c cs. ps_approval_reason s = Some (c # cs)))
     \<and> distinct (ps_risk_reasons s)"

lemma unique_distinct: "distinct (unique xs)" and unique_set: "set (unique xs) = set xs"
proof -
  have "distinct ys \<Longrightarrow> distinct (fold add_key xs ys) \<and> set (fold add_key xs ys) = set ys \<union> set xs" for ys
    by (induction xs arbitrary: ys) auto
  from this [of "[]"] show "distinct (unique xs)" and "set (unique xs) = set xs" by (simp_all add: unique_def)
qed

lemma normalize_step_guarded: "step_guarded d policy (normalize_step d policy s)"
proof -
  have "risk_order (td_risk d) \<le> risk_order (final_risk d policy s)"
    unfolding final_risk_def by (rule max_risk_ge(2)) simp
  moreover have "risk_order (tp_minimum_risk p) \<le> risk_order (final_risk d policy s)" if "policy = Some p" for p
    unfolding final_risk_def by (rule max_risk_ge(2)) (simp add: that)
  moreover have "\<exists>c cs. approval_reason True r = Some (c # cs)" for r
    by (cases r; cases "the r") (auto simp: approval_reason_def default_approval_reason_def)
  ultimately show ?thesis
    by (auto simp: step_guarded_def normalize_step_def Let_def risk_reasons_def unique_distinct)
qed

lemma normalize_step_risk_mono: "risk_order (ps_risk s) \<le> risk_order (ps_risk (normalize_step d policy s))"
  by (simp add: normalize_step_def Let_def final_risk_def max_risk_ge(1))

lemma unique_of_distinct: "distinct xs \<Longrightarrow> unique xs = xs"
proof -
  have "distinct (ys @ xs) \<Longrightarrow> fold add_key xs ys = ys @ xs" for ys
    by (induction xs arbitrary: ys) (auto simp: add_key_def)
  from this [of "[]"] show "distinct xs \<Longrightarrow> unique xs = xs" by (simp add: unique_def)
qed

lemma unique_append_old: "set ys \<subseteq> set xs \<Longrightarrow> unique (xs @ ys) = unique xs"
proof -
  have "set ys \<subseteq> set zs \<Longrightarrow> fold add_key ys zs = zs" for zs
    by (induction ys) (auto simp: add_key_def)
  then show "set ys \<subseteq> set xs \<Longrightarrow> unique (xs @ ys) = unique xs"
    using unique_set [of xs] by (simp add: unique_def)
qed

lemma max_risk_top: "(\<And>x. x \<in> set rs \<Longrightarrow> risk_order x \<le> risk_order r) \<Longrightarrow> max_risk r rs = r"
  unfolding max_risk_def by (induction rs) (auto simp: leD)

text \<open>Normalizing twice is normalizing once.\<close>

lemma normalize_step_idem:
  "normalize_step d policy (normalize_step d policy s) = normalize_step d policy s"
proof -
  let ?s = "normalize_step d policy s"
  have g: "step_guarded d policy ?s" by (rule normalize_step_guarded)
  have risk: "final_risk d policy ?s = ps_risk ?s"
    using g unfolding final_risk_def step_guarded_def by (intro max_risk_top) (auto split: option.splits)
  have pol: "(case policy of None \<Rightarrow> [] | Some p \<Rightarrow> if risk_order (ps_risk ?s) < risk_order (tp_minimum_risk p)
                      then [policy_reason] else []) = []"
    using g by (auto simp: step_guarded_def split: option.splits)
  have "(if td_risk d = RiskHigh then [descriptor_reason] else []) = [] \<or> descriptor_reason \<in> set (ps_risk_reasons ?s)"
    by (auto simp: normalize_step_def Let_def risk_reasons_def unique_set)
  then have "risk_reasons d policy ?s = unique (ps_risk_reasons ?s)"
    unfolding risk_reasons_def pol append_Nil2 by (intro unique_append_old) auto
  then have reasons: "risk_reasons d policy ?s = ps_risk_reasons ?s"
    using g by (simp add: step_guarded_def unique_of_distinct)
  have req: "(ps_approval_required ?s \<or> ps_risk ?s = RiskHigh) = ps_approval_required ?s"
    using g by (auto simp: step_guarded_def)
  have reason: "approval_reason (ps_approval_required ?s) (ps_approval_reason ?s) = ps_approval_reason ?s"
    using g by (auto simp: step_guarded_def approval_reason_def)
  show ?thesis
    unfolding normalize_step_def [of d policy ?s] Let_def risk reasons req reason by simp
qed

section \<open>Validating twice\<close>

lemma normalized_step_same [simp]:
  "ps_id (normalized_step reg catalog s) = ps_id s" "ps_tool (normalized_step reg catalog s) = ps_tool s"
  "ps_arguments (normalized_step reg catalog s) = ps_arguments s"
  "ps_depends_on (normalized_step reg catalog s) = ps_depends_on s"
  "ps_compensation_tool (normalized_step reg catalog s) = ps_compensation_tool s"
  "ps_compensation_intent (normalized_step reg catalog s) = ps_compensation_intent s"
  "ps_evidence_refs (normalized_step reg catalog s) = ps_evidence_refs s"
  by (simp_all add: normalized_step_def normalize_step_def Let_def split: sum.splits)

lemma plan_graph_Union:
  "plan_graph p = (\<Union>s \<in> set (cp_steps p). (\<lambda>d. (d, ps_id s)) ` set (ps_depends_on s))"
  by (auto simp: plan_graph_def)

lemma normalized_acceptable:
  "plan_acceptable reg catalog (p\<lparr>cp_steps := map (normalized_step reg catalog) (cp_steps p)\<rparr>) evidence
     = plan_acceptable reg catalog p evidence"
proof -
  have "step_acceptable reg catalog b (normalized_step reg catalog s) = step_acceptable reg catalog b s" for b s
    by (simp add: step_acceptable_def Let_def policy_ok_def compensation_ok_def split: option.splits)
  moreover have "plan_graph (p\<lparr>cp_steps := map (normalized_step reg catalog) (cp_steps p)\<rparr>) = plan_graph p"
    by (simp add: plan_graph_Union)
  ultimately show ?thesis by (simp add: plan_acceptable_def image_image)
qed

lemma normalized_step_idem:
  "normalized_step reg catalog (normalized_step reg catalog s) = normalized_step reg catalog s"
proof (cases "descriptor_for reg (pt_name (ps_tool s)) (pt_version (ps_tool s))")
  case (Inr d)
  have "ps_tool (normalize_step d policy s) = ps_tool s" for policy by (simp add: normalize_step_def Let_def)
  then show ?thesis using Inr by (simp add: normalized_step_def normalize_step_idem)
qed (simp add: normalized_step_def)

lemma validated_steps:
  assumes "distinct (map ps_id (cp_steps p))"
    and "validate_plan reg catalog p evidence = Inr report" and "vr_normalized_plan report = Some q"
  shows "plan_acceptable reg catalog p evidence"
    and "q = p\<lparr>cp_steps := map (normalized_step reg catalog) (cp_steps p)\<rparr>"
  using validate_plan_result [OF assms(1), of reg catalog evidence] assms(2,3) by (auto split: if_splits)

lemma normalized_plan_stable:
  assumes "distinct (map ps_id (cp_steps p))"
    and "validate_plan reg catalog p evidence = Inr report" and "vr_normalized_plan report = Some q"
  shows "list_all2 (\<lambda>s s'. \<exists>d. descriptor_for reg (pt_name (ps_tool s)) (pt_version (ps_tool s)) = Inr d
       \<and> ps_id s' = ps_id s \<and> ps_tool s' = ps_tool s \<and> risk_order (ps_risk s) \<le> risk_order (ps_risk s')
       \<and> step_guarded d (policy_for catalog (pt_name (ps_tool s)) (pt_version (ps_tool s))) s')
     (cp_steps p) (cp_steps q)
   \<and> validate_plan reg catalog q evidence
       = Inr \<lparr>vr_valid = True, vr_normalized_plan = Some q, vr_errors = []\<rparr>"
proof
  note ok = validated_steps [OF assms]
  have "\<exists>d. descriptor_for reg (pt_name (ps_tool s)) (pt_version (ps_tool s)) = Inr d
       \<and> normalized_step reg catalog s
           = normalize_step d (policy_for catalog (pt_name (ps_tool s)) (pt_version (ps_tool s))) s"
    if "s \<in> set (cp_steps p)" for s
    using ok(1) that descriptor_for_iff [of reg "pt_name (ps_tool s)" "pt_version (ps_tool s)"]
    by (auto simp: plan_acceptable_def step_acceptable_def Let_def normalized_step_def)
  then show "list_all2 (\<lambda>s s'. \<exists>d. descriptor_for reg (pt_name (ps_tool s)) (pt_version (ps_tool s)) = Inr d
       \<and> ps_id s' = ps_id s \<and> ps_tool s' = ps_tool s \<and> risk_order (ps_risk s) \<le> risk_order (ps_risk s')
       \<and> step_guarded d (policy_for catalog (pt_name (ps_tool s)) (pt_version (ps_tool s))) s')
     (cp_steps p) (cp_steps q)"
    unfolding ok(2)
    by (fastforce simp: list_all2_conv_all_nth normalize_step_guarded normalize_step_risk_mono
        dest: nth_mem)
  have "map (normalized_step reg catalog) (cp_steps q) = cp_steps q"
    unfolding ok(2) by (simp add: normalized_step_idem)
  then have "q\<lparr>cp_steps := map (normalized_step reg catalog) (cp_steps q)\<rparr> = q" by simp
  moreover have "plan_acceptable reg catalog q evidence" using ok normalized_acceptable by simp
  moreover have "distinct (map ps_id (cp_steps q))" using assms(1) ok(2) by (simp add: comp_def)
  ultimately show "validate_plan reg catalog q evidence
       = Inr \<lparr>vr_valid = True, vr_normalized_plan = Some q, vr_errors = []\<rparr>"
    using validate_plan_result [of q reg catalog evidence] by simp
qed

end
