(* ===== verification/Doubles.thy ===== *)
theory Doubles
  imports Complex_Main "HOL-Library.Log_Nat"
begin

text \<open>
  IEEE 754 doubles by their exact values: a rational is rounded to the nearest multiple of the
  last place that 53 bits leave it, ties to the even one, as the arithmetic of Python's floats
  rounds its exact results (finite ones: overflow is treated where it can happen).
\<close>

definition round_even :: "rat \<Rightarrow> int" where
  "round_even q =
     (let n = \<lfloor>q\<rfloor>; r = q - of_int n
      in if r < 1 / 2 then n else if 1 / 2 < r then n + 1 else if even n then n else n + 1)"

text \<open>\<open>floor (log2 q)\<close> of a positive rational, from the lengths of its numerator and denominator.\<close>

definition binade :: "rat \<Rightarrow> int" where
  "binade q =
     (let (n, d) = quotient_of q; e = bitlen n - bitlen d
      in if q < 2 powi e then e - 1 else e)"

definition last_place :: "rat \<Rightarrow> rat" where
  "last_place q = 2 powi (max (binade q - 52) (- 1074))"

definition fl_pos :: "rat \<Rightarrow> rat" where
  "fl_pos q = of_int (round_even (q / last_place q)) * last_place q"

definition fl :: "rat \<Rightarrow> rat" where
  "fl q = (if q = 0 then 0 else if q < 0 then - fl_pos (- q) else fl_pos q)"

section \<open>Rounding is monotone\<close>

lemma round_even_bounds: "\<lfloor>q\<rfloor> \<le> round_even q" "round_even q \<le> \<lfloor>q\<rfloor> + 1"
  by (simp_all add: round_even_def Let_def)

lemma round_even_int [simp]: "round_even (of_int n) = n"
  by (simp add: round_even_def)

lemma round_even_mono:
  assumes "x \<le> y"
  shows "round_even x \<le> round_even y"
proof (cases "\<lfloor>x\<rfloor> = \<lfloor>y\<rfloor>")
  case True
  then show ?thesis using assms by (simp add: round_even_def Let_def)
next
  case False
  then have "\<lfloor>x\<rfloor> + 1 \<le> \<lfloor>y\<rfloor>" using floor_mono [OF assms] by linarith
  then show ?thesis using round_even_bounds [of x] round_even_bounds [of y] by linarith
qed

lemma powi_add_one: "(2 :: rat) powi (e + 1) = 2 * 2 powi e"
  by (simp add: power_int_add_1)

lemma bitlen_powi:
  assumes "0 < n"
  shows "(2 :: rat) powi (bitlen n - 1) \<le> of_int n" "of_int n < (2 :: rat) powi (bitlen n)"
proof -
  have b: "2 ^ nat (bitlen n - 1) \<le> n" "n < 2 ^ nat (bitlen n)" using bitlen_bounds [OF assms] by simp_all
  have p: "0 < bitlen n" using assms bitlen_eq_zero_iff [of n] bitlen_nonneg [of n] by linarith
  have "(2 :: rat) powi (bitlen n - 1) = of_int (2 ^ nat (bitlen n - 1))"
    using p by (simp add: power_int_def)
  also have "\<dots> \<le> of_int n" using b(1) by (simp only: of_int_le_iff)
  finally show "(2 :: rat) powi (bitlen n - 1) \<le> of_int n" .
  have "of_int n < (of_int (2 ^ nat (bitlen n)) :: rat)" using b(2) by (simp only: of_int_less_iff)
  also have "\<dots> = (2 :: rat) powi (bitlen n)" using p by (simp add: power_int_def)
  finally show "of_int n < (2 :: rat) powi (bitlen n)" .
qed

lemma binade_bounds:
  assumes "0 < q"
  shows "2 powi (binade q) \<le> q" "q < 2 powi (binade q + 1)"
proof -
  obtain n d where q: "quotient_of q = (n, d)" by force
  have d: "0 < d" and qd: "q = of_int n / of_int d" using q by (simp_all add: quotient_of_denom_pos quotient_of_div)
  have n: "0 < n" using assms d qd by (simp add: zero_less_divide_iff)
  let ?e = "bitlen n - bitlen d"
  have "(2 :: rat) powi (bitlen n - 1) / 2 powi (bitlen d) \<le> of_int n / of_int d"
    using bitlen_powi [OF n] bitlen_powi [OF d] n d by (intro frac_le) (simp_all add: less_imp_le)
  then have lo: "2 powi (?e - 1) \<le> q" by (simp add: qd flip: power_int_diff) (simp add: algebra_simps)
  have "of_int n / of_int d < (2 :: rat) powi (bitlen n) / 2 powi (bitlen d - 1)"
    using bitlen_powi [OF n] bitlen_powi [OF d] n d by (intro frac_less) (simp_all add: less_imp_le)
  then have hi: "q < 2 powi (?e + 1)" by (simp add: qd flip: power_int_diff) (simp add: algebra_simps)
  show "2 powi (binade q) \<le> q" "q < 2 powi (binade q + 1)"
    using lo hi by (simp_all add: binade_def q Let_def)
qed

lemma last_place_pos [simp]: "0 < last_place q"
  by (simp add: last_place_def)

lemma powi_le_iff: "(2 :: rat) powi a \<le> 2 powi b \<longleftrightarrow> a \<le> b"
  using power_int_increasing [of a b "2 :: rat"] power_int_strict_increasing [of b a "2 :: rat"] by force

lemma binade_mono:
  assumes "0 < x" and "x \<le> y"
  shows "binade x \<le> binade y"
proof -
  have "2 powi (binade x) \<le> x" using binade_bounds(1) [OF assms(1)] .
  also have "x \<le> y" by fact
  also have "y < 2 powi (binade y + 1)" using binade_bounds(2) [of y] assms by simp
  finally have "(2 :: rat) powi (binade x) < 2 powi (binade y + 1)" .
  then have "binade x < binade y + 1" using powi_le_iff by (meson not_le)
  then show ?thesis by simp
qed

lemma powi_multiple:
  assumes "a \<le> b"
  shows "(2 :: rat) powi b = of_int (2 ^ nat (b - a)) * 2 powi a"
proof -
  have "(2 :: rat) powi b = 2 powi (b - a) * 2 powi a" by (simp flip: power_int_add)
  also have "2 powi (b - a) = (of_int (2 ^ nat (b - a)) :: rat)" using assms by (simp add: power_int_def)
  finally show ?thesis .
qed

text \<open>Rounding to a grid does not pass a point of the grid.\<close>

lemma grid_le: "0 < u \<Longrightarrow> q \<le> of_int m * u \<Longrightarrow> of_int (round_even (q / u)) * u \<le> of_int m * (u :: rat)"
  using round_even_mono [of "q / u" "of_int m"] by (simp add: divide_le_eq)

lemma grid_ge: "0 < u \<Longrightarrow> of_int m * u \<le> q \<Longrightarrow> of_int m * (u :: rat) \<le> of_int (round_even (q / u)) * u"
  using round_even_mono [of "of_int m" "q / u"] by (simp add: le_divide_eq)

lemma fl_pos_mono:
  assumes x: "0 < x" and y: "x \<le> y"
  shows "fl_pos x \<le> fl_pos y"
proof (cases "last_place x = last_place y")
  case True
  have "x / last_place x \<le> y / last_place y" using y True by (simp add: divide_right_mono less_imp_le)
  from round_even_mono [OF this] show ?thesis using True by (simp add: fl_pos_def)
next
  case False
  let ?px = "max (binade x - 52) (- 1074)" and ?py = "max (binade y - 52) (- 1074)"
  have "?px \<le> ?py" using binade_mono [OF x y] by (simp add: max_def)
  moreover have "?px \<noteq> ?py" using False by (auto simp: last_place_def)
  ultimately have lt: "binade x < binade y" and py: "?py = binade y - 52" and xy: "?px \<le> binade y"
    by (auto simp: max_def split: if_splits)
  have "x \<le> 2 powi (binade y)"
    using binade_bounds(2) [OF x] powi_le_iff [of "binade x + 1" "binade y"] lt by linarith
  then have "fl_pos x \<le> 2 powi (binade y)"
    using grid_le [of "last_place x" x "2 ^ nat (binade y - ?px)"] powi_multiple [OF xy]
    by (simp add: fl_pos_def last_place_def)
  moreover have "2 powi (binade y) \<le> fl_pos y"
    using grid_ge [of "last_place y" "2 ^ nat (binade y - ?py)" y] powi_multiple [of ?py "binade y"]
      binade_bounds(1) [of y] x y py by (simp add: fl_pos_def last_place_def)
  ultimately show ?thesis by simp
qed

lemma fl_pos_nonneg: "0 < q \<Longrightarrow> 0 \<le> fl_pos q"
  using grid_ge [of "last_place q" 0 q] by (simp add: fl_pos_def)

lemma fl_mono:
  assumes "x \<le> y"
  shows "fl x \<le> fl y"
proof -
  have "- fl_pos (- x) \<le> 0" if "x < 0" using fl_pos_nonneg [of "- x"] that by simp
  moreover have "- fl_pos (- x) \<le> - fl_pos (- y)" if "y < 0"
    using fl_pos_mono [of "- y" "- x"] that assms by simp
  ultimately show ?thesis
    using assms fl_pos_nonneg [of y] fl_pos_mono [of x y] by (auto simp: fl_def intro: order_trans)
qed

lemma fl_0 [simp]: "fl 0 = 0"
  by (simp add: fl_def)

lemma fl_nonneg: "0 \<le> x \<Longrightarrow> 0 \<le> fl x"
  using fl_mono [of 0 x] by simp

section \<open>What is rounded stays\<close>

lemma fl_pos_grid:
  assumes "0 < v" and "v = of_int m * last_place v"
  shows "fl_pos v = v"
proof -
  have "v / last_place v = of_int m" using assms(2) last_place_pos [of v]
    by (metis nonzero_eq_divide_eq less_irrefl)
  then show ?thesis using assms(2) by (simp add: fl_pos_def)
qed

lemma fl_pos_idem:
  assumes q: "0 < q" and v: "fl_pos q = v" "0 < v"
  shows "fl_pos v = v"
proof -
  let ?p = "max (binade q - 52) (- 1074)" and ?m = "round_even (q / last_place q)"
  have vm: "v = of_int ?m * 2 powi ?p" using v(1) by (simp add: fl_pos_def last_place_def)
  show ?thesis
  proof (cases "binade v \<le> max (binade q) (- 1022)")
    case True
    then have "max (binade v - 52) (- 1074) \<le> ?p" by (auto simp: max_def)
    from powi_multiple [OF this] have "v = of_int (?m * 2 ^ nat (?p - max (binade v - 52) (- 1074))) * last_place v"
      using vm by (simp add: last_place_def mult.assoc)
    then show ?thesis by (rule fl_pos_grid [OF v(2)])
  next
    case False
    then have lt: "binade q < binade v" and big: "- 1022 < binade v" by simp_all
    have up: "q \<le> 2 powi (max (binade q) (- 1022) + 1)"
    proof -
      have "q < 2 powi (binade q + 1)" using binade_bounds(2) [OF q] .
      also have "\<dots> \<le> 2 powi (max (binade q) (- 1022) + 1)" by (simp add: powi_le_iff)
      finally show ?thesis by simp
    qed
    have "?p \<le> max (binade q) (- 1022) + 1" by (auto simp: max_def)
    note m = powi_multiple [OF this, folded last_place_def]
    have "fl_pos q \<le> of_int (2 ^ nat (max (binade q) (- 1022) + 1 - ?p)) * last_place q"
      unfolding fl_pos_def by (rule grid_le [OF last_place_pos up [unfolded m]])
    then have "v \<le> 2 powi (max (binade q) (- 1022) + 1)" using v(1) m by simp
    moreover have "2 powi (max (binade q) (- 1022) + 1) \<le> (2 :: rat) powi (binade v)"
      using lt big by (simp add: powi_le_iff)
    moreover have "2 powi (binade v) \<le> v" using binade_bounds(1) [OF v(2)] .
    ultimately have "v = 2 powi (binade v)" by linarith
    moreover have "max (binade v - 52) (- 1074) \<le> binade v" using big by simp
    ultimately have "v = of_int (2 ^ nat (binade v - max (binade v - 52) (- 1074))) * last_place v"
      using powi_multiple [of "max (binade v - 52) (- 1074)" "binade v"] by (simp add: last_place_def)
    then show ?thesis by (rule fl_pos_grid [OF v(2)])
  qed
qed

lemma fl_idem [simp]:
  assumes "0 \<le> q"
  shows "fl (fl q) = fl q"
proof (cases "q = 0")
  case False
  then have q: "0 < q" using assms by simp
  then show ?thesis using fl_pos_idem [OF q refl] fl_pos_nonneg [OF q] by (cases "fl_pos q = 0") (auto simp: fl_def)
qed simp

lemma binade_unique: "2 powi e \<le> q \<Longrightarrow> q < 2 powi (e + 1) \<Longrightarrow> binade q = e"
proof -
  assume lo: "2 powi e \<le> q" and hi: "q < 2 powi (e + 1)"
  have q: "0 < q" using lo zero_less_power_int [of "2 :: rat" e] by linarith
  have "(2 :: rat) powi e < 2 powi (binade q + 1)" "(2 :: rat) powi (binade q) < 2 powi (e + 1)"
    using lo hi binade_bounds [OF q] by linarith+
  then have "e < binade q + 1" "binade q < e + 1" using powi_le_iff by (meson not_le)+
  then show "binade q = e" by simp
qed

lemma fl_one [simp]: "fl 1 = 1"
proof -
  have "binade 1 = 0" by (rule binade_unique) simp_all
  then have "(1 :: rat) = of_int (2 ^ 52) * last_place 1" by (simp add: last_place_def power_int_minus)
  from fl_pos_grid [OF _ this] show ?thesis by (simp add: fl_def)
qed

section \<open>Decimal text\<close>

text \<open>
  \<open>float.__repr__\<close> of a finite double: the shortest decimal that rounds to it, the nearest one of that
  length. \<open>decimal_at q e\<close> is the nearest multiple of \<open>10 ^ e\<close>; the largest \<open>e\<close> that serves is
  looked for from above.
\<close>

definition decimal_at :: "rat \<Rightarrow> int \<Rightarrow> int" where
  "decimal_at q e = round_even (q / 10 powi e)"

definition decimal_exponent :: "rat \<Rightarrow> int option" where
  "decimal_exponent q =
     List.find (\<lambda>e. fl (of_int (decimal_at q e) * 10 powi e) = q) (rev [-400..310])"

definition decimal_of :: "rat \<Rightarrow> int \<times> int" where
  "decimal_of q =
     (if q = 0 then (0, 0)
      else case decimal_exponent q of None \<Rightarrow> (0, 0) | Some e \<Rightarrow> (decimal_at q e, e))"

end
