(* ===== verification/Retrieval.thy ===== *)
theory Retrieval
  imports Plans Doubles
begin

text \<open>
  \<open>planning/application/retrieval.py\<close>: lexical and vector search results fused by reciprocal
  ranks, and the conflicts between the policies of what was found. The index and the store are
  parameters; scores are doubles.
\<close>

section \<open>The code\<close>

record ranked_chunk =
  rc_chunk :: knowledge_chunk
  rc_score :: rat

record knowledge_conflict =
  kf_policy_key :: string
  kf_chunk_ids :: "string list"
  kf_rule_digests :: "string list"

record retrieval_result =
  rr_query :: string
  rr_evidence :: "retrieved_evidence list"
  rr_conflicts :: "knowledge_conflict list"
  rr_snapshot :: knowledge_snapshot
  rr_insufficient_evidence :: bool

record retriever =
  rt_lexical_search :: "string \<Rightarrow> int \<Rightarrow> planning_error + ranked_chunk list"
  rt_vector_search :: "string \<Rightarrow> int \<Rightarrow> planning_error + ranked_chunk list"
  rt_snapshot :: knowledge_snapshot
  rt_candidate_limit :: int
  rt_rrf_k :: int

definition make_retriever :: "retriever \<Rightarrow> planning_error + retriever" where
  "make_retriever r =
     (if rt_candidate_limit r \<le> 0 \<or> rt_rrf_k r \<le> 0
      then Inl (Raised (ValueError ''retrieval limits must be positive'')) else Inr r)"

text \<open>\<open>1.0 / n\<close> for an integer: \<open>n\<close> is rounded to a double first, and too large an \<open>n\<close> raises.\<close>

definition reciprocal :: "int \<Rightarrow> planning_error + rat" where
  "reciprocal n =
     (if 2 ^ 1024 - 2 ^ 970 \<le> \<bar>n\<bar> then Inl (Raised OverflowError)
      else if n = 0 then Inl ZeroDivisionError
      else Inr (fl (1 / fl (of_int n))))"

type_synonym scores = "(string, rat) dict"

definition add_score :: "int \<Rightarrow> nat \<times> string \<Rightarrow> scores \<Rightarrow> planning_error + scores" where
  "add_score k entry acc =
     sbind (reciprocal (k + int (fst entry))) (\<lambda>x.
     Inr (dset (snd entry)
            (fl ((case dget acc (snd entry) of None \<Rightarrow> 0 | Some s \<Rightarrow> s) + x)) acc))"

definition reciprocal_rank_fusion :: "string list list \<Rightarrow> int \<Rightarrow> planning_error + scores" where
  "reciprocal_rank_fusion ranked_lists k =
     sfold (\<lambda>ranked. sfold (add_score k) (enumerate 1 ranked)) ranked_lists []"

text \<open>\<open>by_policy.setdefault(key, []).append(chunk)\<close> for the active chunks.\<close>

definition by_policy :: "knowledge_chunk list \<Rightarrow> (string, knowledge_chunk list) dict" where
  "by_policy chunks =
     fold (\<lambda>c d. dset (kc_policy_key c)
             ((case dget d (kc_policy_key c) of None \<Rightarrow> [] | Some cs \<Rightarrow> cs) @ [c]) d)
       (filter (\<lambda>c. kc_status c = Active) chunks) []"

definition conflict_of :: "string \<times> knowledge_chunk list \<Rightarrow> knowledge_conflict" where
  "conflict_of entry =
     \<lparr>kf_policy_key = fst entry,
      kf_chunk_ids = sort (remdups (map kc_chunk_id (snd entry))),
      kf_rule_digests = sort (remdups (map kc_rule_digest (snd entry)))\<rparr>"

definition find_conflicts :: "knowledge_chunk list \<Rightarrow> knowledge_conflict list" where
  "find_conflicts chunks =
     filter (\<lambda>c. 1 < length (kf_rule_digests c)) (map conflict_of (sort_key fst (by_policy chunks)))"

definition chunk_location :: "knowledge_chunk \<Rightarrow> string" where
  "chunk_location c =
     (let heading = join '' > '' (filter (\<lambda>h. h \<noteq> []) (kc_heading_path c))
      in (if heading \<noteq> [] then heading @ '': '' else [])
         @ int_text (int (kc_start_offset c)) @ ''-'' @ int_text (int (kc_end_offset c)))"

text \<open>\<open>xs[:n]\<close>: a negative \<open>n\<close> counts from the end.\<close>

definition slice_to :: "int \<Rightarrow> 'a list \<Rightarrow> 'a list" where
  "slice_to n xs = take (nat (if n < 0 then int (length xs) + n else n)) xs"

definition ranks_of :: "ranked_chunk list \<Rightarrow> (string, int) dict" where
  "ranks_of found =
     fold (\<lambda>(rank, item). dset (kc_chunk_id (rc_chunk item)) (int rank)) (enumerate 1 found) []"

definition evidence_of ::
  "scores \<Rightarrow> (string, int) dict \<Rightarrow> (string, int) dict \<Rightarrow> string list \<Rightarrow> (string, knowledge_chunk) dict \<Rightarrow>
   string \<Rightarrow> retrieved_evidence" where
  "evidence_of scores lexical vector conflicted chunks i =
     (let c = the (dget chunks i) in
      \<lparr>re_reference = \<lparr>eb_document_id = kc_document_id c, eb_document_version = kc_document_version c,
                       eb_chunk_id = i, eb_location = chunk_location c,
                       eb_content_digest = kc_content_digest c\<rparr>,
       re_text = kc_content c, re_trust_level = kc_trust_level c,
       re_lexical_rank = dget lexical i, re_vector_rank = dget vector i,
       re_hybrid_score = the (dget scores i), re_conflict = (i \<in> set conflicted)\<rparr>)"

definition ranking_key :: "scores \<Rightarrow> string \<Rightarrow> rat \<times> string" where
  "ranking_key scores i = (- the (dget scores i), i)"

definition retrieve :: "retriever \<Rightarrow> string \<Rightarrow> int \<Rightarrow> planning_error + retrieval_result" where
  "retrieve r query top_k =
     sbind (rt_lexical_search r query (rt_candidate_limit r)) (\<lambda>lexical.
     sbind (rt_vector_search r query (rt_candidate_limit r)) (\<lambda>vector.
     let id_of = (\<lambda>x. kc_chunk_id (rc_chunk x)) in
     sbind (reciprocal_rank_fusion [map id_of lexical, map id_of vector] (rt_rrf_k r)) (\<lambda>scores.
     let chunks = index_by kc_chunk_id (map rc_chunk (lexical @ vector));
         conflicts = find_conflicts (map snd chunks);
         conflicted = concat (map kf_chunk_ids conflicts);
         ranked = slice_to top_k (sort_key (ranking_key scores) (keys scores));
         evidence = map (evidence_of scores (ranks_of lexical) (ranks_of vector) conflicted chunks) ranked
     in Inr \<lparr>rr_query = query, rr_evidence = evidence, rr_conflicts = conflicts,
             rr_snapshot = rt_snapshot r, rr_insufficient_evidence = (evidence = [])\<rparr>)))"

section \<open>Scores\<close>

lemma reciprocal_nonneg: "0 \<le> n \<Longrightarrow> reciprocal n = Inr x \<Longrightarrow> 0 \<le> x \<and> fl x = x"
  by (auto simp: reciprocal_def fl_nonneg split: if_splits)

text \<open>A smaller rank never scores less.\<close>

lemma reciprocal_antimono:
  assumes "0 < m" and "m \<le> n" and "reciprocal m = Inr x" and "reciprocal n = Inr y"
  shows "y \<le> x"
proof -
  have "(1 :: rat) \<le> fl (of_int m)" using fl_mono [of 1 "of_int m"] assms(1) by simp
  moreover have "fl (of_int m) \<le> fl (of_int n)" using assms(2) by (intro fl_mono) simp
  ultimately have "1 / fl (of_int n) \<le> (1 :: rat) / fl (of_int m)" by (intro divide_left_mono) simp_all
  then show ?thesis using assms(3,4) by (auto simp: reciprocal_def intro: fl_mono split: if_splits)
qed

text \<open>The place of an item in a list, counted from \<open>n\<close>.\<close>

fun place :: "nat \<Rightarrow> string list \<Rightarrow> string \<Rightarrow> nat option" where
  "place n [] a = None"
| "place n (x # xs) a = (if x = a then Some n else place (Suc n) xs a)"

lemma place_None: "place n xs a = None \<longleftrightarrow> a \<notin> set xs"
  by (induction xs arbitrary: n) auto

lemma place_ge: "place n xs a = Some m \<Longrightarrow> n \<le> m"
  by (induction xs arbitrary: n) (auto split: if_splits dest: Suc_leD)

text \<open>What one list adds to the score of an item, and the score from two lists.\<close>

definition share :: "int \<Rightarrow> string list \<Rightarrow> string \<Rightarrow> rat" where
  "share k xs a =
     (case place 1 xs a of None \<Rightarrow> 0
      | Some n \<Rightarrow> (case reciprocal (k + int n) of Inl e \<Rightarrow> 0 | Inr x \<Rightarrow> x))"

definition score_or_0 :: "scores \<Rightarrow> string \<Rightarrow> rat" where
  "score_or_0 acc a = (case dget acc a of None \<Rightarrow> 0 | Some s \<Rightarrow> s)"

lemma add_score_Inr:
  "add_score k (n, x) acc = Inr acc' \<longleftrightarrow>
     (\<exists>y. reciprocal (k + int n) = Inr y \<and> acc' = dset x (fl (score_or_0 acc x + y)) acc)"
  by (auto simp: add_score_def score_or_0_def sbind_Inr_iff)

lemma share_rounded:
  assumes "0 \<le> k"
  shows "0 \<le> share k xs a" "fl (share k xs a) = share k xs a"
proof -
  have "0 \<le> x \<and> fl x = x" if "reciprocal (k + int m) = Inr x" for m x
    using reciprocal_nonneg [OF _ that] assms by simp
  then show "0 \<le> share k xs a" "fl (share k xs a) = share k xs a"
    by (auto simp: share_def split: option.splits sum.splits)
qed

lemma score_list:
  assumes "sfold (add_score k) (enumerate n xs) acc = Inr sc" and "distinct xs"
  shows "case place n xs a of None \<Rightarrow> dget sc a = dget acc a
     | Some m \<Rightarrow> \<exists>x. reciprocal (k + int m) = Inr x \<and> dget sc a = Some (fl (score_or_0 acc a + x))"
  using assms
proof (induction xs arbitrary: n acc)
  case (Cons x xs)
  from Cons.prems obtain acc' y where y: "reciprocal (k + int n) = Inr y"
    and acc': "acc' = dset x (fl (score_or_0 acc x + y)) acc"
    and rest: "sfold (add_score k) (enumerate (Suc n) xs) acc' = Inr sc"
    by (auto simp: add_score_Inr)
  have d: "x \<notin> set xs" "distinct xs" using Cons.prems(2) by simp_all
  note IH = Cons.IH [OF rest d(2)]
  show ?case
  proof (cases "x = a")
    case True
    then have "place (Suc n) xs a = None" using d(1) by (simp add: place_None)
    then show ?thesis using IH True y acc' by simp
  next
    case False
    then show ?thesis using IH acc' by (simp add: score_or_0_def split: option.splits)
  qed
qed simp

lemma fused_scores:
  assumes "reciprocal_rank_fusion [xs, ys] k = Inr sc" and "distinct xs" "distinct ys" and "0 \<le> k"
  shows "dget sc a = (if a \<in> set xs \<union> set ys then Some (fl (share k xs a + share k ys a)) else None)"
proof -
  from assms(1) obtain s1 where s1: "sfold (add_score k) (enumerate 1 xs) [] = Inr s1"
    and s2: "sfold (add_score k) (enumerate 1 ys) s1 = Inr sc"
    by (auto simp: reciprocal_rank_fusion_def)
  have round: "0 \<le> x \<and> fl x = x" if "reciprocal (k + int m) = Inr x" for m x
    using reciprocal_nonneg [OF _ that] assms(4) by simp
  have one: "dget s1 a = (if a \<in> set xs then Some (share k xs a) else None)"
    "a \<notin> set xs \<Longrightarrow> share k xs a = 0"
    using score_list [OF s1 assms(2), of a] place_None [of 1 xs a] round
    by (auto simp: share_def score_or_0_def split: option.splits)
  show ?thesis
  proof (cases "place 1 ys a")
    case None
    then have "share k ys a = 0" by (simp add: share_def)
    moreover have "a \<notin> set ys" using None place_None [of 1 ys a] by simp
    ultimately show ?thesis using score_list [OF s2 assms(3), of a] None one share_rounded [OF assms(4)] by simp
  next
    case (Some n)
    then obtain y where "reciprocal (k + int n) = Inr y" and "dget sc a = Some (fl (score_or_0 s1 a + y))"
      using score_list [OF s2 assms(3), of a] by auto
    moreover have "a \<in> set ys" using Some place_None [of 1 ys a] by force
    moreover have "score_or_0 s1 a = share k xs a" using one by (simp add: score_or_0_def)
    ultimately show ?thesis using Some by (simp add: share_def [of k ys])
  qed
qed

definition no_worse :: "string list \<Rightarrow> string \<Rightarrow> string \<Rightarrow> bool" where
  "no_worse xs a b \<longleftrightarrow>
     (case place 1 xs b of None \<Rightarrow> True | Some n \<Rightarrow> (\<exists>m \<le> n. place 1 xs a = Some m))"

lemma place_bound: "place n xs a = Some m \<Longrightarrow> m < n + length xs"
proof (induction xs arbitrary: n)
  case (Cons x xs)
  then show ?case using Cons.IH [of "Suc n"] by (auto split: if_splits)
qed simp

lemma share_mono:
  assumes "no_worse xs a b" and "0 \<le> k"
    and "\<And>n. 1 \<le> n \<Longrightarrow> n \<le> length xs \<Longrightarrow> \<exists>x. reciprocal (k + int n) = Inr x"
  shows "share k xs b \<le> share k xs a"
proof (cases "place 1 xs b")
  case None
  then show ?thesis using share_rounded(1) [OF assms(2), of xs a] by (simp add: share_def [of k xs b])
next
  case (Some n)
  then obtain m where m: "m \<le> n" "place 1 xs a = Some m" using assms(1) by (auto simp: no_worse_def)
  have "1 \<le> m" using place_ge [OF m(2)] .
  moreover have "n \<le> length xs" using place_bound [OF Some] by simp
  ultimately obtain x y where x: "reciprocal (k + int m) = Inr x" and y: "reciprocal (k + int n) = Inr y"
    using assms(3) [of m] assms(3) [of n] m(1) by auto
  have "y \<le> x" by (rule reciprocal_antimono [OF _ _ x y]) (use assms(2) m(1) \<open>1 \<le> m\<close> in simp_all)
  then show ?thesis using Some m x y by (simp add: share_def)
qed

lemma all_reciprocals:
  assumes "sfold (add_score k) (enumerate n xs) acc = Inr sc" and "n \<le> i" and "i < n + length xs"
  shows "\<exists>x. reciprocal (k + int i) = Inr x"
  using assms
proof (induction xs arbitrary: n acc)
  case (Cons x xs)
  then show ?case using Cons.IH [of "Suc n"] by (cases "i = n") (auto simp: add_score_Inr)
qed simp

lemma no_worse_in: "no_worse xs a b \<Longrightarrow> b \<in> set xs \<Longrightarrow> a \<in> set xs"
  using place_None [of 1 xs a] place_None [of 1 xs b] by (cases "place 1 xs b") (auto simp: no_worse_def)

lemma fused_mono:
  assumes f: "reciprocal_rank_fusion [xs, ys] k = Inr sc" and d: "distinct xs" "distinct ys" and k: "0 \<le> k"
    and w: "no_worse xs a b" "no_worse ys a b" and b: "b \<in> set xs \<union> set ys"
  shows "\<exists>sa sb. dget sc a = Some sa \<and> dget sc b = Some sb \<and> sb \<le> sa"
proof -
  from f obtain s1 where "sfold (add_score k) (enumerate 1 xs) [] = Inr s1"
    and "sfold (add_score k) (enumerate 1 ys) s1 = Inr sc" by (auto simp: reciprocal_rank_fusion_def)
  then have "share k xs b \<le> share k xs a" and "share k ys b \<le> share k ys a"
    using share_mono [OF w(1) k] share_mono [OF w(2) k] all_reciprocals by force+
  then have "fl (share k xs b + share k ys b) \<le> fl (share k xs a + share k ys a)" by (intro fl_mono) simp
  moreover have "a \<in> set xs \<union> set ys" using b no_worse_in [OF w(1)] no_worse_in [OF w(2)] by blast
  ultimately show ?thesis using fused_scores [OF f d k] b by simp
qed

section \<open>What is retrieved\<close>

lemma add_scores_keys:
  "sfold (add_score k) es acc = Inr sc \<Longrightarrow> dwf acc \<Longrightarrow>
     fst ` set sc = fst ` set acc \<union> snd ` set es \<and> dwf sc"
proof (induction es arbitrary: acc)
  case (Cons e es)
  then obtain acc' where a': "add_score k e acc = Inr acc'" and r: "sfold (add_score k) es acc' = Inr sc"
    by auto
  from a' obtain x where a: "acc' = dset (snd e) x acc" by (auto simp: add_score_def)
  show ?case using Cons.IH [OF r] Cons.prems(2) a by auto
qed simp

lemma fused_keys:
  assumes "reciprocal_rank_fusion rs k = Inr sc"
  shows "fst ` set sc = \<Union> (set ` set rs)" and "dwf sc"
proof -
  have "sfold (\<lambda>ranked. sfold (add_score k) (enumerate 1 ranked)) ls acc = Inr sc \<Longrightarrow> dwf acc \<Longrightarrow>
      fst ` set sc = fst ` set acc \<union> \<Union> (set ` set ls) \<and> dwf sc" for ls acc
  proof (induction ls arbitrary: acc)
    case (Cons l ls)
    then obtain acc' where a: "sfold (add_score k) (enumerate 1 l) acc = Inr acc'"
      and r: "sfold (\<lambda>ranked. sfold (add_score k) (enumerate 1 ranked)) ls acc' = Inr sc" by auto
    have "snd ` set (enumerate 1 l) = set l" by (metis list.set_map map_snd_enumerate)
    then show ?case using add_scores_keys [OF a] Cons.IH [OF r] Cons.prems(2) by auto
  qed simp
  from this [of rs "[]"] show "fst ` set sc = \<Union> (set ` set rs)" and "dwf sc"
    using assms by (simp_all add: reciprocal_rank_fusion_def)
qed

definition better :: "scores \<Rightarrow> string \<Rightarrow> string \<Rightarrow> bool" where
  "better sc a b \<longleftrightarrow> the (dget sc b) < the (dget sc a) \<or> the (dget sc a) = the (dget sc b) \<and> a < b"

lemma keys_sorted_better:
  assumes "sorted_wrt (\<lambda>a b. ranking_key sc a \<le> ranking_key sc b) js" and "distinct js"
  shows "sorted_wrt (better sc) js"
  using assms
proof (induction js)
  case (Cons i js)
  have "better sc i j" if "j \<in> set js" for j
  proof -
    have "ranking_key sc i \<le> ranking_key sc j" and "i \<noteq> j" using Cons.prems that by auto
    then show ?thesis by (auto simp: ranking_key_def better_def less_eq_prod_def)
  qed
  then show ?case using Cons by simp
qed simp

text \<open>The evidence: the best so many of the chunks that were found, in the order of their scores.\<close>

lemma retrieved:
  assumes "retrieve r query n = Inr res" and n: "0 \<le> n"
  obtains lexical vector sc where "rt_lexical_search r query (rt_candidate_limit r) = Inr lexical"
    and "rt_vector_search r query (rt_candidate_limit r) = Inr vector"
    and "reciprocal_rank_fusion [map (\<lambda>x. kc_chunk_id (rc_chunk x)) lexical,
                                 map (\<lambda>x. kc_chunk_id (rc_chunk x)) vector] (rt_rrf_k r) = Inr sc"
    and "\<exists>ids. map (\<lambda>e. eb_chunk_id (re_reference e)) (rr_evidence res) = take (nat n) ids
            \<and> set ids = fst ` set sc \<and> distinct ids \<and> sorted_wrt (better sc) ids"
    and "\<forall>e \<in> set (rr_evidence res). \<exists>x \<in> set (lexical @ vector).
            kc_chunk_id (rc_chunk x) = eb_chunk_id (re_reference e) \<and> re_text e = kc_content (rc_chunk x)
            \<and> re_trust_level e = kc_trust_level (rc_chunk x)
            \<and> eb_content_digest (re_reference e) = kc_content_digest (rc_chunk x)
            \<and> dget sc (eb_chunk_id (re_reference e)) = Some (re_hybrid_score e)"
proof -
  let ?id = "\<lambda>x. kc_chunk_id (rc_chunk x)"
  let ?table = "\<lambda>lexical vector. index_by kc_chunk_id (map rc_chunk (lexical @ vector))"
  let ?conf = "\<lambda>lexical vector. concat (map kf_chunk_ids (find_conflicts (map snd (?table lexical vector))))"
  from assms(1) obtain lexical vector sc where l: "rt_lexical_search r query (rt_candidate_limit r) = Inr lexical"
    and v: "rt_vector_search r query (rt_candidate_limit r) = Inr vector"
    and f: "reciprocal_rank_fusion [map ?id lexical, map ?id vector] (rt_rrf_k r) = Inr sc"
    and e0: "rr_evidence res = map (evidence_of sc (ranks_of lexical) (ranks_of vector)
       (?conf lexical vector) (?table lexical vector)) (slice_to n (sort_key (ranking_key sc) (keys sc)))"
    unfolding retrieve_def Let_def by auto
  define conflicted where "conflicted = ?conf lexical vector"
  note e = e0 [folded conflicted_def]
  let ?ids = "sort_key (ranking_key sc) (keys sc)" and ?chunks = "index_by kc_chunk_id (map rc_chunk (lexical @ vector))"
  have dist: "distinct ?ids" using fused_keys(2) [OF f] by simp
  have "sorted_wrt (\<lambda>a b. ranking_key sc a \<le> ranking_key sc b) ?ids"
    using sorted_sort_key [of "ranking_key sc" "keys sc"] by (simp add: sorted_wrt_map)
  then have order: "sorted_wrt (better sc) ?ids" using dist by (rule keys_sorted_better)
  have ids: "map (\<lambda>e. eb_chunk_id (re_reference e)) (rr_evidence res) = take (nat n) ?ids"
    using n by (simp add: e comp_def evidence_of_def Let_def slice_to_def)
  have found: "\<exists>x \<in> set (lexical @ vector). ?id x = eb_chunk_id (re_reference ev)
      \<and> re_text ev = kc_content (rc_chunk x) \<and> re_trust_level ev = kc_trust_level (rc_chunk x)
      \<and> eb_content_digest (re_reference ev) = kc_content_digest (rc_chunk x)
      \<and> dget sc (eb_chunk_id (re_reference ev)) = Some (re_hybrid_score ev)"
    if ev: "ev \<in> set (rr_evidence res)" for ev
  proof -
    have sub: "set (slice_to n ?ids) \<subseteq> fst ` set sc"
      using set_take_subset [of _ ?ids] unfolding slice_to_def by simp
    obtain i where ii: "i \<in> set (slice_to n ?ids)"
      and evi: "ev = evidence_of sc (ranks_of lexical) (ranks_of vector) conflicted ?chunks i"
      using ev unfolding e set_map by (elim imageE)
    have i: "i \<in> fst ` set sc" using sub ii by (rule subsetD)
    have "i \<in> ?id ` set (lexical @ vector)" using i fused_keys(1) [OF f] by auto
    then obtain c where c: "dget ?chunks i = Some c"
      using index_by_None [of kc_chunk_id "map rc_chunk (lexical @ vector)" i]
      by (cases "dget ?chunks i") (auto simp: image_image)
    from index_by_SomeD [OF c] obtain x where "x \<in> set (lexical @ vector)" "c = rc_chunk x" "?id x = i" by auto
    moreover obtain s where "dget sc i = Some s" using key_dget_Some [OF i] by blast
    ultimately show ?thesis using evi c by (auto simp: evidence_of_def Let_def)
  qed
  have "set ?ids = fst ` set sc" by simp
  then show ?thesis
    using ids order dist found by (intro that [OF l v f] ballI exI [of _ ?ids] conjI) simp_all
qed

section \<open>Conflicts\<close>

lemma dget_by_policy:
  "dget (by_policy cs) k =
     (let same = filter (\<lambda>c. kc_status c = Active \<and> kc_policy_key c = k) cs
      in if same = [] then None else Some same)"
proof (induction cs rule: rev_induct)
  case (snoc c cs)
  then show ?case by (auto simp: by_policy_def Let_def)
qed (simp add: by_policy_def)

lemma dwf_by_policy: "dwf (by_policy cs)"
  by (induction cs rule: rev_induct) (auto simp: by_policy_def)

text \<open>Two active chunks disagree when they state different rules for one policy.\<close>

definition disagree :: "knowledge_chunk \<Rightarrow> knowledge_chunk \<Rightarrow> bool" where
  "disagree c d \<longleftrightarrow> kc_status c = Active \<and> kc_status d = Active
     \<and> kc_policy_key c = kc_policy_key d \<and> kc_rule_digest c \<noteq> kc_rule_digest d"

lemma more_than_one: "1 < length (sort (remdups xs)) \<longleftrightarrow> (\<exists>x \<in> set xs. \<exists>y \<in> set xs. x \<noteq> y)"
proof -
  have "length (sort (remdups xs)) = card (set xs)" by (simp add: length_remdups_card_conv)
  then show ?thesis using card_le_Suc0_iff_eq [of "set xs"] by (simp add: not_le [symmetric])
qed

lemma in_conflict:
  "i \<in> set (concat (map kf_chunk_ids (find_conflicts cs))) \<longleftrightarrow>
     (\<exists>c \<in> set cs. kc_chunk_id c = i \<and> (\<exists>d \<in> set cs. disagree c d))"
  (is "?l \<longleftrightarrow> ?r")
proof
  assume ?l
  then obtain k same where e: "(k, same) \<in> set (by_policy cs)" and i: "i \<in> kc_chunk_id ` set same"
    and two: "1 < length (sort (remdups (map kc_rule_digest same)))"
    by (auto simp: find_conflicts_def conflict_of_def)
  have "dget (by_policy cs) k = Some same" using e dwf_by_policy by simp
  then have same: "same = filter (\<lambda>c. kc_status c = Active \<and> kc_policy_key c = k) cs"
    by (auto simp: dget_by_policy Let_def split: if_splits)
  from two obtain d1 d2 where "d1 \<in> set same" "d2 \<in> set same" "kc_rule_digest d1 \<noteq> kc_rule_digest d2"
    unfolding more_than_one by auto
  then show ?r using i unfolding same disagree_def by (auto, metis)
next
  assume ?r
  then obtain c d where c: "c \<in> set cs" "kc_chunk_id c = i" and d: "d \<in> set cs" "disagree c d" by blast
  let ?same = "filter (\<lambda>x. kc_status x = Active \<and> kc_policy_key x = kc_policy_key c) cs"
  have m: "c \<in> set ?same" "d \<in> set ?same" using c d by (auto simp: disagree_def)
  from m(1) have "?same \<noteq> []" by (metis empty_iff list.set(1))
  then have "dget (by_policy cs) (kc_policy_key c) = Some ?same" by (simp only: dget_by_policy Let_def if_False)
  then have e: "(kc_policy_key c, ?same) \<in> set (by_policy cs)" using dwf_by_policy by simp
  have "1 < length (sort (remdups (map kc_rule_digest ?same)))"
    unfolding more_than_one using m d(2) by (auto simp: disagree_def)
  then have "conflict_of (kc_policy_key c, ?same) \<in> set (find_conflicts cs)"
    using imageI [OF e, of conflict_of] by (simp add: find_conflicts_def conflict_of_def)
  moreover have "i \<in> set (kf_chunk_ids (conflict_of (kc_policy_key c, ?same)))"
    using m(1) c(2) by (auto simp: conflict_of_def)
  ultimately show ?l by auto
qed

lemma index_by_inj:
  assumes "inj_on key (set xs)" and "x \<in> set xs"
  shows "dget (index_by key xs) (key x) = Some x"
proof -
  obtain y where y: "dget (index_by key xs) (key x) = Some y"
    using assms(2) index_by_None [of key xs "key x"] by (cases "dget (index_by key xs) (key x)") auto
  then show ?thesis using index_by_SomeD [OF y] assms by (metis inj_onD)
qed

lemma values_index_by:
  assumes "inj_on key (set xs)"
  shows "set (map snd (index_by key xs)) = set xs"
proof -
  have w: "dwf (index_by key xs)"
    by (induction xs rule: rev_induct) (simp_all add: index_by_def)
  have "x \<in> snd ` set (index_by key xs) \<longleftrightarrow> x \<in> set xs" for x
  proof
    assume "x \<in> snd ` set (index_by key xs)"
    then obtain k where "dget (index_by key xs) k = Some x" using dget_Some_in_set [OF w] by auto
    then show "x \<in> set xs" by (rule index_by_SomeD [THEN conjunct1])
  next
    assume "x \<in> set xs"
    from index_by_inj [OF assms this] have "(key x, x) \<in> set (index_by key xs)"
      using dget_Some_in_set [OF w] by simp
    then show "x \<in> snd ` set (index_by key xs)" by force
  qed
  then show ?thesis by auto
qed

lemma evidence_of_flag [simp]:
  "re_conflict (evidence_of sc l v conflicted chunks i) \<longleftrightarrow> i \<in> set conflicted"
  "eb_chunk_id (re_reference (evidence_of sc l v conflicted chunks i)) = i"
  by (simp_all add: evidence_of_def Let_def)

lemma retrieved_conflict:
  assumes "retrieve r query n = Inr res" and e: "e \<in> set (rr_evidence res)"
    and "rt_lexical_search r query (rt_candidate_limit r) = Inr lexical"
    and "rt_vector_search r query (rt_candidate_limit r) = Inr vector"
  shows "re_conflict e \<longleftrightarrow> eb_chunk_id (re_reference e) \<in>
    set (concat (map kf_chunk_ids (find_conflicts
      (map snd (index_by kc_chunk_id (map rc_chunk (lexical @ vector)))))))"
proof -
  define conflicted where "conflicted = concat (map kf_chunk_ids (find_conflicts
      (map snd (index_by kc_chunk_id (map rc_chunk (lexical @ vector))))))"
  obtain sc chunks js where
    "rr_evidence res = map (evidence_of sc (ranks_of lexical) (ranks_of vector) conflicted chunks) js"
    using assms(1,3,4) unfolding retrieve_def Let_def conflicted_def by auto
  then obtain i where "e = evidence_of sc (ranks_of lexical) (ranks_of vector) conflicted chunks i"
    using e by auto
  then show ?thesis unfolding conflicted_def [symmetric] by simp
qed

section \<open>Properties\<close>

definition sample_chunk :: "string \<Rightarrow> string \<Rightarrow> knowledge_chunk" where
  "sample_chunk i rule =
     \<lparr>kc_chunk_id = i, kc_document_id = ''d'', kc_document_version = ''1'', kc_source = ''s'',
      kc_trust_level = Internal, kc_policy_key = ''p'', kc_rule_digest = rule, kc_status = Active,
      kc_heading_path = [''H''], kc_position = 0, kc_start_offset = 0, kc_end_offset = 1,
      kc_content = ''x'', kc_content_digest = ''e''\<rparr>"

definition sample_retriever :: retriever where
  "sample_retriever =
     \<lparr>rt_lexical_search = \<lambda>q l. Inr [\<lparr>rc_chunk = sample_chunk ''a'' ''r'', rc_score = 1\<rparr>],
      rt_vector_search = \<lambda>q l. Inr [\<lparr>rc_chunk = sample_chunk ''b'' ''t'', rc_score = 1\<rparr>],
      rt_snapshot = \<lparr>ks_digest = '''', ks_document_count = 1, ks_chunk_count = 2\<rparr>,
      rt_candidate_limit = 20, rt_rrf_k = 60\<rparr>"

text \<open>
  C27: The evidence of a retrieval is the best \<open>top_k\<close> of the chunks that either search found, each
  once, in the order of their fused scores and of their ids where the scores are equal; each piece
  of evidence carries the text, the trust level and the digest of a chunk that was found.
\<close>

theorem retrieval_ranked:
  assumes "retrieve r query n = Inr res" and "0 \<le> n"
  shows "\<exists>lexical vector sc ids. rt_lexical_search r query (rt_candidate_limit r) = Inr lexical
    \<and> rt_vector_search r query (rt_candidate_limit r) = Inr vector
    \<and> reciprocal_rank_fusion [map (\<lambda>x. kc_chunk_id (rc_chunk x)) lexical,
                              map (\<lambda>x. kc_chunk_id (rc_chunk x)) vector] (rt_rrf_k r) = Inr sc
    \<and> set ids = (\<lambda>x. kc_chunk_id (rc_chunk x)) ` set (lexical @ vector)
    \<and> distinct ids \<and> sorted_wrt (better sc) ids
    \<and> map (\<lambda>e. eb_chunk_id (re_reference e)) (rr_evidence res) = take (nat n) ids
    \<and> (\<forall>e \<in> set (rr_evidence res). \<exists>x \<in> set (lexical @ vector).
          kc_chunk_id (rc_chunk x) = eb_chunk_id (re_reference e) \<and> re_text e = kc_content (rc_chunk x)
          \<and> re_trust_level e = kc_trust_level (rc_chunk x)
          \<and> eb_content_digest (re_reference e) = kc_content_digest (rc_chunk x)
          \<and> dget sc (eb_chunk_id (re_reference e)) = Some (re_hybrid_score e))"
proof -
  from assms obtain lexical vector sc
    where l: "rt_lexical_search r query (rt_candidate_limit r) = Inr lexical"
      and v: "rt_vector_search r query (rt_candidate_limit r) = Inr vector"
      and f: "reciprocal_rank_fusion [map (\<lambda>x. kc_chunk_id (rc_chunk x)) lexical,
                                     map (\<lambda>x. kc_chunk_id (rc_chunk x)) vector] (rt_rrf_k r) = Inr sc"
      and i: "\<exists>ids. map (\<lambda>e. eb_chunk_id (re_reference e)) (rr_evidence res) = take (nat n) ids
            \<and> set ids = fst ` set sc \<and> distinct ids \<and> sorted_wrt (better sc) ids"
      and c: "\<forall>e \<in> set (rr_evidence res). \<exists>x \<in> set (lexical @ vector).
          kc_chunk_id (rc_chunk x) = eb_chunk_id (re_reference e) \<and> re_text e = kc_content (rc_chunk x)
          \<and> re_trust_level e = kc_trust_level (rc_chunk x)
          \<and> eb_content_digest (re_reference e) = kc_content_digest (rc_chunk x)
          \<and> dget sc (eb_chunk_id (re_reference e)) = Some (re_hybrid_score e)"
    by (rule retrieved)
  have k: "fst ` set sc = (\<lambda>x. kc_chunk_id (rc_chunk x)) ` set (lexical @ vector)"
    unfolding fused_keys(1) [OF f] by auto
  from i [unfolded k] obtain ids where "map (\<lambda>e. eb_chunk_id (re_reference e)) (rr_evidence res) = take (nat n) ids"
    and "set ids = (\<lambda>x. kc_chunk_id (rc_chunk x)) ` set (lexical @ vector)"
    and "distinct ids" and "sorted_wrt (better sc) ids" by blast
  then show ?thesis using l v f c by (intro exI conjI)
qed

lemma retrieved_some:
  assumes "retrieve r query n = Inr res" and "0 < n"
    and "rt_lexical_search r query (rt_candidate_limit r) = Inr (x # lexical)"
  shows "rr_evidence res \<noteq> []"
proof -
  have n: "0 \<le> n" using assms(2) by simp
  show ?thesis
  proof (rule retrieved [OF assms(1) n])
    fix lexical' vector sc
    assume l: "rt_lexical_search r query (rt_candidate_limit r) = Inr lexical'"
      and f: "reciprocal_rank_fusion [map (\<lambda>x. kc_chunk_id (rc_chunk x)) lexical',
                                     map (\<lambda>x. kc_chunk_id (rc_chunk x)) vector] (rt_rrf_k r) = Inr sc"
      and "\<exists>ids. map (\<lambda>e. eb_chunk_id (re_reference e)) (rr_evidence res) = take (nat n) ids
            \<and> set ids = fst ` set sc \<and> distinct ids \<and> sorted_wrt (better sc) ids"
    then obtain ids where ids: "map (\<lambda>e. eb_chunk_id (re_reference e)) (rr_evidence res) = take (nat n) ids"
      and "set ids = fst ` set sc" by blast
    moreover have "fst ` set sc \<noteq> {}" unfolding fused_keys(1) [OF f] using l assms(3) by auto
    ultimately have "ids \<noteq> []" by auto
    then show ?thesis using ids assms(2) by auto
  qed
qed

lemma sample_retrieved: "\<exists>res. retrieve sample_retriever ''q'' 5 = Inr res"
  by (simp add: retrieve_def sample_retriever_def Let_def reciprocal_rank_fusion_def add_score_def reciprocal_def)

theorem retrieval_ranked_witness:
  "\<exists>res lexical. retrieve sample_retriever ''q'' 5 = Inr res
     \<and> rt_lexical_search sample_retriever ''q'' (rt_candidate_limit sample_retriever) = Inr lexical"
proof -
  obtain res where res: "retrieve sample_retriever ''q'' 5 = Inr res" using sample_retrieved ..
  show ?thesis using res retrieval_ranked [OF res] by auto
qed

text \<open>
  C28: Reciprocal rank fusion in doubles respects dominance: a chunk that stands in each of two
  lists at least as high as another (lists without repetitions) scores at least as much, in spite
  of the rounding of every reciprocal and of every sum.
\<close>

theorem rrf_dominance:
  assumes "reciprocal_rank_fusion [xs, ys] k = Inr sc" and "distinct xs" and "distinct ys" and "0 \<le> k"
    and "no_worse xs a b" and "no_worse ys a b" and "b \<in> set xs \<union> set ys"
  shows "\<exists>sa sb. dget sc a = Some sa \<and> dget sc b = Some sb \<and> sb \<le> sa"
  using assms by (rule fused_mono)

theorem rrf_dominance_witness:
  "\<exists>sc sa sb. reciprocal_rank_fusion [[''a'', ''b''], [''c'', ''a'', ''b'']] 60 = Inr sc
     \<and> dget sc ''a'' = Some sa \<and> dget sc ''b'' = Some sb \<and> sb \<le> sa"
proof -
  obtain sc where sc: "reciprocal_rank_fusion [[''a'', ''b''], [''c'', ''a'', ''b'']] 60 = Inr sc"
    by (simp add: reciprocal_rank_fusion_def add_score_def reciprocal_def)
  show ?thesis using sc rrf_dominance [OF sc, of "''a''" "''b''"] by (simp add: no_worse_def)
qed

text \<open>
  A piece of evidence is flagged as conflicting exactly when its chunk and another one that was
  found are both active and state different rules for one policy, where the two searches tell of
  each chunk id at most one chunk.
\<close>

theorem conflict_flagged:
  assumes "retrieve r query n = Inr res" and "e \<in> set (rr_evidence res)"
    and "rt_lexical_search r query (rt_candidate_limit r) = Inr lexical"
    and "rt_vector_search r query (rt_candidate_limit r) = Inr vector"
    and "inj_on kc_chunk_id (rc_chunk ` set (lexical @ vector))"
  shows "re_conflict e \<longleftrightarrow> (\<exists>c \<in> rc_chunk ` set (lexical @ vector). kc_chunk_id c = eb_chunk_id (re_reference e)
           \<and> (\<exists>d \<in> rc_chunk ` set (lexical @ vector). disagree c d))"
proof -
  let ?cs = "map snd (index_by kc_chunk_id (map rc_chunk (lexical @ vector)))"
  have c: "re_conflict e \<longleftrightarrow> eb_chunk_id (re_reference e) \<in> set (concat (map kf_chunk_ids (find_conflicts ?cs)))"
    by (rule retrieved_conflict [OF assms(1-4)])
  have "set ?cs = rc_chunk ` set (lexical @ vector)"
    using values_index_by [of kc_chunk_id "map rc_chunk (lexical @ vector)"] assms(5) by (simp add: image_Un)
  then show ?thesis unfolding c in_conflict by simp
qed

theorem conflict_flagged_witness:
  "\<exists>res e. retrieve sample_retriever ''q'' 5 = Inr res \<and> e \<in> set (rr_evidence res)
     \<and> (re_conflict e \<longleftrightarrow> eb_chunk_id (re_reference e) \<in> {''a'', ''b''})"
proof -
  let ?found = "\<lambda>i rule. [\<lparr>rc_chunk = sample_chunk i rule, rc_score = 1\<rparr>]"
  obtain res where res: "retrieve sample_retriever ''q'' 5 = Inr res" using sample_retrieved ..
  have l: "rt_lexical_search sample_retriever ''q'' (rt_candidate_limit sample_retriever) = Inr (?found ''a'' ''r'')"
    and v: "rt_vector_search sample_retriever ''q'' (rt_candidate_limit sample_retriever) = Inr (?found ''b'' ''t'')"
    by (simp_all add: sample_retriever_def)
  have "rr_evidence res \<noteq> []" using retrieved_some [OF res _ l] by simp
  then obtain e where e: "e \<in> set (rr_evidence res)" by (meson last_in_set)
  have "re_conflict e \<longleftrightarrow> eb_chunk_id (re_reference e) \<in> {''a'', ''b''}"
    using conflict_flagged [OF res e l v] by (auto simp: sample_chunk_def disagree_def)
  then show ?thesis using res e by blast
qed

end
