(* ===== verification/Planning_Graph.thy ===== *)
theory Planning_Graph
  imports Planning_Nodes
begin

text \<open>
  What \<open>Planning_Nodes\<close> computes: after at most two calls of the model the graph ends with a result,
  or with an exception that one of its ports raised, and a plan that it calls ready has passed the
  validator and may be prepared.
\<close>

section \<open>Results\<close>

text \<open>What a result has to be, for the state that the graph started from and the world then.\<close>

definition retrieved_for :: "'w planning_nodes \<Rightarrow> 'w \<Rightarrow> change_request \<Rightarrow> planning_error + retrieval_result" where
  "retrieved_for c w request = retrieve (pn_retriever c w) (retrieval_query c request) 8"

definition normal_request :: "change_request \<Rightarrow> change_request" where
  "normal_request r =
     r\<lparr>cr_change_summary := collapse (cr_change_summary r),
       cr_success_conditions := map collapse (cr_success_conditions r),
       cr_constraints := map collapse (cr_constraints r)\<rparr>"

definition ready_plan :: "'w planning_nodes \<Rightarrow> 'w \<Rightarrow> string \<Rightarrow> change_request \<Rightarrow> int \<Rightarrow> change_plan \<Rightarrow>
    retrieved_evidence list \<Rightarrow> bool" where
  "ready_plan c w session request version p evidence \<longleftrightarrow>
     (\<exists>retrieval payload parsed. retrieved_for c w (normal_request request) = Inr retrieval
        \<and> rr_conflicts retrieval = [] \<and> evidence = rr_evidence retrieval
        \<and> pn_parse_plan c payload = Inr parsed
        \<and> validate_plan (pn_tools c) (pn_policies c)
            (parsed\<lparr>cp_plan_id := session @ ''-plan'', cp_version := version,
                    cp_knowledge_snapshot_digest := ks_digest (rr_snapshot retrieval),
                    cp_prompt_version := pn_prompt_version c,
                    cp_tool_policy_version := pn_tool_policy_version c\<rparr>) evidence
          = Inr \<lparr>vr_valid = True, vr_normalized_plan = Some p, vr_errors = []\<rparr>)"

fun result_ok :: "'w planning_nodes \<Rightarrow> 'w \<Rightarrow> string \<Rightarrow> change_request \<Rightarrow> int \<Rightarrow> planning_result \<Rightarrow> bool" where
  "result_ok c w session request version (ClarificationRequired sid questions) \<longleftrightarrow>
     sid = session \<and> questions \<noteq> []"
| "result_ok c w session request version (PlanReady sid p evidence) \<longleftrightarrow>
     sid = session \<and> ready_plan c w session request version p evidence"
| "result_ok c w session request version (PlanningRejected sid errors) \<longleftrightarrow> sid = session"
| "result_ok c w session request version (BudgetExhausted sid calls tokens) \<longleftrightarrow> sid = session"

text \<open>
  What is asked of the parameters: a parsed plan has unique step ids, as the validator of \<open>ChangePlan\<close>
  demands; and a view of the world that counts the calls of the model.
\<close>

definition parses_plans :: "'w planning_nodes \<Rightarrow> bool" where
  "parses_plans c \<longleftrightarrow> (\<forall>d p. pn_parse_plan c d = Inr p \<longrightarrow> distinct (map ps_id (cp_steps p)))"

definition counts_calls :: "'w planning_nodes \<Rightarrow> ('w \<Rightarrow> nat) \<Rightarrow> bool" where
  "counts_calls c called \<longleftrightarrow> (\<forall>q w. called (snd (pn_model c q w)) = called w + 1)"

section \<open>What may escape\<close>

text \<open>The errors that \<open>call_planner\<close> turns into a result.\<close>

definition gateway_error :: "planning_error \<Rightarrow> bool" where
  "gateway_error e \<longleftrightarrow> (\<exists>m. e = ModelBudgetExceeded m \<or> e = TransientModelError m \<or> e = PermanentModelError m)"

text \<open>
  The exceptions that a run of the graph begun in the world \<open>w\<close> may end with: the retrieval's; what a
  call of the model raised that is not one of its three errors; and what the JSON encoder raised for
  the prompt, which holds the parameters of the nodes, or for the payload of an answer.
\<close>

definition planning_escape :: "'w planning_nodes \<Rightarrow> 'w \<Rightarrow> change_request \<Rightarrow> planning_error \<Rightarrow> bool" where
  "planning_escape c w request e \<longleftrightarrow>
     retrieved_for c w request = Inl e
     \<or> (\<exists>q w1 w2. pn_model c q w1 = (Inl e, w2) \<and> \<not> gateway_error e)
     \<or> (\<exists>s retrieval repair x. pl_request s = request \<and> retrieved_for c w request = Inr retrieval
          \<and> json_text (user_payload c s retrieval repair) = Inl x \<and> e = Raised x)
     \<or> (\<exists>q w1 w2 response x. pn_model c q w1 = (Inr response, w2)
          \<and> json_dumps True (PDict (mr_payload response)) = Inl x \<and> e = Raised x)"

section \<open>The graph step by step\<close>

text \<open>What holds when a node starts, for a run that began in the world \<open>w0\<close>.\<close>

definition underway :: "string \<Rightarrow> change_request \<Rightarrow> int \<Rightarrow> planning_state \<Rightarrow> bool" where
  "underway session request version s \<longleftrightarrow>
     pl_session_id s = session \<and> pl_request s = request \<and> pl_plan_version s = version \<and> pl_result s = None"

definition informed :: "'w planning_nodes \<Rightarrow> 'w \<Rightarrow> change_request \<Rightarrow> planning_state \<Rightarrow> bool" where
  "informed c w0 request s \<longleftrightarrow>
     (\<exists>retrieval. pl_retrieval s = Some retrieval \<and> rr_conflicts retrieval = []
        \<and> retrieved_for c w0 request = Inr retrieval)"

definition answered :: "'w planning_nodes \<Rightarrow> planning_state \<Rightarrow> bool" where
  "answered c s \<longleftrightarrow>
     (\<exists>q w1 w2 response. pn_model c q w1 = (Inr response, w2) \<and> pl_raw_payload s = Some (mr_payload response))"

fun node_ready :: "'w planning_nodes \<Rightarrow> 'w \<Rightarrow> string \<Rightarrow> change_request \<Rightarrow> int \<Rightarrow> node \<Rightarrow> planning_state \<Rightarrow> 'w \<Rightarrow> bool" where
  "node_ready c w0 session request version NormalizeRequest s w \<longleftrightarrow>
     underway session request version s \<and> w = w0 \<and> pl_repair_count s = None"
| "node_ready c w0 session request version CheckRequiredContext s w \<longleftrightarrow>
     underway session (normal_request request) version s \<and> w = w0 \<and> pl_repair_count s = None"
| "node_ready c w0 session request version RetrieveKnowledge s w \<longleftrightarrow>
     underway session (normal_request request) version s \<and> w = w0 \<and> pl_repair_count s = None"
| "node_ready c w0 session request version GeneratePlan s w \<longleftrightarrow>
     underway session (normal_request request) version s \<and> informed c w0 (normal_request request) s
     \<and> pl_repair_count s = None"
| "node_ready c w0 session request version ValidatePlan s w \<longleftrightarrow>
     underway session (normal_request request) version s \<and> informed c w0 (normal_request request) s
     \<and> answered c s \<and> pl_repair_count s = Some 0"
| "node_ready c w0 session request version RepairPlan s w \<longleftrightarrow>
     underway session (normal_request request) version s \<and> informed c w0 (normal_request request) s
     \<and> answered c s \<and> pl_repair_count s = Some 0"
| "node_ready c w0 session request version ValidateRepairedPlan s w \<longleftrightarrow>
     underway session (normal_request request) version s \<and> informed c w0 (normal_request request) s
     \<and> answered c s \<and> pl_repair_count s = Some 1"

definition finished :: "'w planning_nodes \<Rightarrow> 'w \<Rightarrow> string \<Rightarrow> change_request \<Rightarrow> int \<Rightarrow> planning_state \<Rightarrow> bool" where
  "finished c w0 session request version s \<longleftrightarrow>
     (\<exists>result. pl_result s = Some result \<and> result_ok c w0 session request version result)"

lemma call_planner_cases:
  assumes "call_planner c repair s w = (Inr s', w')"
  obtains (answered) request response where "pn_model c request w = (Inr response, w')"
      "s' = response_update s (mr_payload response) repair"
  | (budget) request m where "pn_model c request w = (Inl (ModelBudgetExceeded m), w')" "s' = budget_exhausted c s w'"
  | (failed) request e m where "pn_model c request w = (Inl e, w')" "s' = model_error s m"
proof -
  from assms obtain request where r: "(case pn_model c request w of
       (Inr response, w') \<Rightarrow> (Inr (response_update s (mr_payload response) repair), w')
     | (Inl (ModelBudgetExceeded m), w') \<Rightarrow> (Inr (budget_exhausted c s w'), w')
     | (Inl (TransientModelError m), w') \<Rightarrow> (Inr (model_error s m), w')
     | (Inl (PermanentModelError m), w') \<Rightarrow> (Inr (model_error s m), w')
     | (Inl e, w') \<Rightarrow> (Inl e, w')) = (Inr s', w')"
    by (auto simp: call_planner_def bnd_def split: sum.splits prod.splits)
  obtain x w1 where x: "pn_model c request w = (x, w1)" by (cases "pn_model c request w")
  show ?thesis
  proof (cases x)
    case (Inr response)
    then show ?thesis using r x by (intro answered [of request response]) simp_all
  next
    case (Inl e)
    then show ?thesis using r x
      by (cases e) (auto intro: budget [of request] failed [of request])
  qed
qed

lemma call_planner_ready:
  assumes "call_planner c repair s w = (Inr s', w')" and "underway session request version s"
    and "informed c w0 request s" and "pl_repair_count s = (if repair then Some 0 else None)"
  shows "(\<exists>result. pl_result s' = Some result \<and> result_ok c w0 session request' version' result)
    \<or> underway session request version s' \<and> informed c w0 request s' \<and> answered c s'
      \<and> pl_repair_count s' = Some (if repair then 1 else 0)"
  using assms(1)
proof (cases rule: call_planner_cases)
  case (answered q response)
  then have "answered c s'" by (auto simp: answered_def response_update_def)
  then show ?thesis using answered assms(2-4) by (simp add: response_update_def underway_def informed_def)
next
  case (budget q m)
  then show ?thesis using assms(2) by (simp add: budget_exhausted_def underway_def)
next
  case (failed q e m)
  then show ?thesis using assms(2) by (simp add: model_error_def underway_def)
qed

lemma validate_payload_ready:
  assumes "validate_payload c s = Inr s'" and u: "underway session (normal_request request) version s"
    and i: "informed c w0 (normal_request request) s" and r: "pl_repair_count s = Some n"
    and parses: "parses_plans c" and ans: "answered c s"
  shows "finished c w0 session request version s'
    \<or> n < 1 \<and> underway session (normal_request request) version s'
      \<and> informed c w0 (normal_request request) s' \<and> answered c s' \<and> pl_repair_count s' = Some n"
proof -
  from i obtain retrieval where rt: "pl_retrieval s = Some retrieval" "rr_conflicts retrieval = []"
    "retrieved_for c w0 (normal_request request) = Inr retrieval" by (auto simp: informed_def)
  from assms(1) obtain payload where p: "pl_raw_payload s = Some payload" by (auto simp: validate_payload_def)
  show ?thesis
  proof (cases "pn_parse_plan c payload")
    case (Inl errors)
    then have "s' = (if n < 1 then s\<lparr>pl_validation_errors := Some (field_error_texts errors)\<rparr>
        else rejected s (field_error_texts errors))"
      using assms(1) p r by (auto simp: validate_payload_def sbind_Inr_iff)
    then show ?thesis using u i r ans
      by (auto simp: underway_def informed_def finished_def rejected_def answered_def)
  next
    case (Inr parsed)
    let ?p = "identified_plan c s retrieval parsed"
    have d: "distinct (map ps_id (cp_steps ?p))" using parses Inr by (simp add: identified_plan_def parses_plans_def)
    from assms(1) p Inr rt(1) obtain report where
      rep: "validate_plan (pn_tools c) (pn_policies c) ?p (rr_evidence retrieval) = Inr report"
      and s': "s' = (case (vr_valid report, vr_normalized_plan report) of
                (True, Some p) \<Rightarrow>
                  s\<lparr>pl_plan := Some p,
                    pl_result := Some (PlanReady (pl_session_id s) p (rr_evidence retrieval))\<rparr>
              | _ \<Rightarrow> rejected s (map (\<lambda>i. vi_code i @ '': '' @ vi_message i) (vr_errors report)))"
      by (auto simp: validate_payload_def sbind_Inr_iff state_retrieval_def)
    show ?thesis
    proof (cases "plan_acceptable (pn_tools c) (pn_policies c) ?p (rr_evidence retrieval)")
      case True
      then obtain q where q: "report = \<lparr>vr_valid = True, vr_normalized_plan = Some q, vr_errors = []\<rparr>"
        using validate_plan_result [OF d, of "pn_tools c" "pn_policies c" "rr_evidence retrieval"] rep by auto
      have "ready_plan c w0 session request version q (rr_evidence retrieval)"
        unfolding ready_plan_def using rt(2,3) Inr rep u
        by (intro exI [of _ retrieval] exI [of _ payload] exI [of _ parsed])
          (simp add: q identified_plan_def underway_def plan_id_of_def)
      then show ?thesis using s' u by (simp add: q finished_def underway_def)
    next
      case False
      then have "vr_valid report = False"
        using validate_plan_result [OF d, of "pn_tools c" "pn_policies c" "rr_evidence retrieval"] rep by auto
      then show ?thesis using s' u by (simp add: finished_def rejected_def underway_def)
    qed
  qed
qed

lemma call_planner_Inl:
  assumes "call_planner c repair s w = (Inl e, w')" and "pl_request s = request"
    and "informed c w0 request s"
  shows "planning_escape c w0 request e"
proof -
  from assms(3) obtain retrieval where rt: "pl_retrieval s = Some retrieval"
    "retrieved_for c w0 request = Inr retrieval" by (auto simp: informed_def)
  show ?thesis
  proof (cases "json_text (user_payload c s retrieval repair)")
    case (Inl x)
    then have "e = Raised x" using assms(1) rt(1)
      by (simp add: call_planner_def bnd_def build_model_request_def state_retrieval_def map_error_def)
    then show ?thesis using assms(2) rt(2) Inl unfolding planning_escape_def by blast
  next
    case (Inr content)
    then obtain q where "build_model_request c s repair = Inr q"
      using rt(1) by (simp add: build_model_request_def state_retrieval_def map_error_def)
    then have "pn_model c q w = (Inl e, w') \<and> \<not> gateway_error e"
      using assms(1) by (auto simp: call_planner_def bnd_def gateway_error_def
          split: prod.splits sum.splits planning_error.splits)
    then show ?thesis unfolding planning_escape_def by blast
  qed
qed

lemma retrieve_knowledge_Inl:
  "retrieve_knowledge c s w = (Inl e, w') \<Longrightarrow> planning_escape c w (pl_request s) e"
  by (auto simp: retrieve_knowledge_def bnd_def planning_escape_def retrieved_for_def split: sum.splits)

lemma validate_payload_Inl:
  assumes "validate_payload c s = Inl e" and "informed c w0 request s" and "answered c s"
    and "parses_plans c"
  shows "planning_escape c w0 request e"
proof -
  from assms(2) obtain retrieval where rt: "pl_retrieval s = Some retrieval" by (auto simp: informed_def)
  from assms(3) obtain q w1 w2 response where m: "pn_model c q w1 = (Inr response, w2)"
    and p: "pl_raw_payload s = Some (mr_payload response)" by (auto simp: answered_def)
  have total: "\<exists>report. validate_plan (pn_tools c) (pn_policies c) (identified_plan c s retrieval parsed)
      (rr_evidence retrieval) = Inr report" if "pn_parse_plan c (mr_payload response) = Inr parsed" for parsed
  proof -
    have "distinct (map ps_id (cp_steps (identified_plan c s retrieval parsed)))"
      using assms(4) that by (simp add: identified_plan_def parses_plans_def)
    from validate_plan_result [OF this, of "pn_tools c" "pn_policies c" "rr_evidence retrieval"] show ?thesis
      by (auto split: if_splits)
  qed
  have "\<exists>x. json_dumps True (PDict (mr_payload response)) = Inl x \<and> e = Raised x"
  proof (cases "json_dumps True (PDict (mr_payload response))")
    case (Inl x)
    then show ?thesis using assms(1) p by (simp add: validate_payload_def map_error_def)
  next
    case (Inr t)
    have False
    proof (cases "pn_parse_plan c (mr_payload response)")
      case (Inl es)
      then show ?thesis using assms(1) p Inr by (simp add: validate_payload_def map_error_def)
    next
      case parsed: (Inr parsed)
      from total [OF parsed] obtain report where "validate_plan (pn_tools c) (pn_policies c)
        (identified_plan c s retrieval parsed) (rr_evidence retrieval) = Inr report" ..
      then show ?thesis using assms(1) p Inr parsed rt
        by (simp add: validate_payload_def map_error_def state_retrieval_def)
    qed
    then show ?thesis ..
  qed
  then show ?thesis using m unfolding planning_escape_def by blast
qed

lemma underway_unless: "underway session request version s \<Longrightarrow> unless_result s n = Some n"
  by (simp add: underway_def unless_result_def)

lemma finished_unless: "finished c w session request version s \<Longrightarrow> unless_result s n = None"
  by (auto simp: finished_def unless_result_def)

lemma check_context_ready:
  assumes "underway session request version s"
  shows "finished c w session request' version' (check_required_context s)
    \<or> check_required_context s = s"
  using assms by (auto simp: check_required_context_def Let_def finished_def underway_def)

lemma retrieve_knowledge_ready:
  assumes "retrieve_knowledge c s w = (Inr s', w')" and "underway session request version s"
    and "pl_repair_count s = None"
  shows "w' = w \<and> (finished c w0 session request' version' s'
    \<or> underway session request version s' \<and> informed c w request s' \<and> pl_repair_count s' = None)"
proof -
  obtain retrieval where r: "retrieve (pn_retriever c w) (retrieval_query c (pl_request s)) 8 = Inr retrieval"
    and s': "s' = (if rr_conflicts retrieval \<noteq> []
          then s\<lparr>pl_retrieval := Some retrieval,
                 pl_result := Some (ClarificationRequired (pl_session_id s)
                                      (map conflict_question (rr_conflicts retrieval)))\<rparr>
          else s\<lparr>pl_retrieval := Some retrieval\<rparr>)" and w: "w' = w"
    using assms(1) by (auto simp: retrieve_knowledge_def bnd_def split: sum.splits)
  then show ?thesis using assms(2,3)
    by (auto simp: finished_def underway_def informed_def retrieved_for_def)
qed

lemma retrieve_knowledge_world: "snd (retrieve_knowledge c s w) = w"
  by (auto simp: retrieve_knowledge_def bnd_def split: sum.splits)

lemma call_planner_world:
  assumes "counts_calls c called"
  shows "called (snd (call_planner c repair s w)) \<le> called w + 1"
proof -
  have m: "called (snd (pn_model c q w)) = called w + 1" for q
    using assms by (simp add: counts_calls_def)
  show ?thesis
  proof (cases "build_model_request c s repair")
    case (Inr q)
    then have "snd (call_planner c repair s w) = snd (pn_model c q w)"
      by (auto simp: call_planner_def bnd_def split: prod.splits sum.splits planning_error.splits)
    then show ?thesis using m by simp
  qed (simp add: call_planner_def bnd_def)
qed

fun calls_left :: "node \<Rightarrow> nat" where
  "calls_left ValidatePlan = 1"
| "calls_left RepairPlan = 1"
| "calls_left ValidateRepairedPlan = 0"
| "calls_left _ = 2"

lemma run_node_world:
  assumes "counts_calls c called"
    and "run_node c n s w = (a, w')"
  shows "called w' + (case next_node n s' of None \<Rightarrow> 0 | Some m \<Rightarrow> calls_left m) \<le> called w + calls_left n"
proof -
  have p: "called (snd (call_planner c repair s w)) \<le> called w + 1" for repair
    by (rule call_planner_world [OF assms(1)])
  have w': "w' = snd (run_node c n s w)" using assms(2) by simp
  show ?thesis unfolding w' using p [of False] p [of True]
    by (cases n) (auto simp: unless_result_def retrieve_knowledge_world)
qed

lemma run_node_ready:
  assumes r: "node_ready c w0 session request version n s w" and "run_node c n s w = (Inr s', w')"
    and parses: "parses_plans c"
  shows "case next_node n s' of None \<Rightarrow> finished c w0 session request version s'
    | Some m \<Rightarrow> node_ready c w0 session request version m s' w'"
proof (cases n)
  case NormalizeRequest
  then show ?thesis using assms(1,2) by (auto simp: normalize_request_def underway_def normal_request_def)
next
  case CheckRequiredContext
  then have u: "underway session (normal_request request) version s" and s': "s' = check_required_context s" "w' = w"
    and k: "w = w0" "pl_repair_count s = None"
    using assms(1,2) by simp_all
  from check_context_ready [OF u, of c w0 request version] show ?thesis
  proof
    assume f: "finished c w0 session request version (check_required_context s)"
    then show ?thesis using CheckRequiredContext s' finished_unless [OF f] by simp
  next
    assume "check_required_context s = s"
    then show ?thesis using CheckRequiredContext s' u k underway_unless [OF u] by simp
  qed
next
  case RetrieveKnowledge
  then have u: "underway session (normal_request request) version s" and k: "w = w0" "pl_repair_count s = None"
    and run: "retrieve_knowledge c s w = (Inr s', w')" using assms(1,2) by simp_all
  from retrieve_knowledge_ready [OF run u k(2), of w0 request version] show ?thesis
    using RetrieveKnowledge k by (auto simp: finished_unless underway_unless)
next
  case GeneratePlan
  then have "underway session (normal_request request) version s" "informed c w0 (normal_request request) s"
    "pl_repair_count s = (if False then Some 0 else None)" "call_planner c False s w = (Inr s', w')"
    using assms(1,2) by simp_all
  from call_planner_ready [OF this(4,1,2,3), of request version] show ?thesis
    using GeneratePlan by (auto simp: finished_def [symmetric] finished_unless underway_unless)
next
  case ValidatePlan
  then have "underway session (normal_request request) version s" "informed c w0 (normal_request request) s"
    "pl_repair_count s = Some 0" "validate_payload c s = Inr s'" "answered c s"
    using assms(1,2) by simp_all
  from validate_payload_ready [OF this(4,1,2,3) parses this(5)] show ?thesis
    using ValidatePlan by (auto simp: finished_unless underway_unless)
next
  case RepairPlan
  then have "underway session (normal_request request) version s" "informed c w0 (normal_request request) s"
    "pl_repair_count s = (if True then Some 0 else None)" "call_planner c True s w = (Inr s', w')"
    using assms(1,2) by simp_all
  from call_planner_ready [OF this(4,1,2,3), of request version] show ?thesis
    using RepairPlan by (auto simp: finished_def [symmetric] finished_unless underway_unless)
next
  case ValidateRepairedPlan
  then have "underway session (normal_request request) version s" "informed c w0 (normal_request request) s"
    "pl_repair_count s = Some 1" "validate_payload c s = Inr s'" "answered c s"
    using assms(1,2) by simp_all
  from validate_payload_ready [OF this(4,1,2,3) parses this(5)] show ?thesis using ValidateRepairedPlan by simp
qed

lemma run_node_escape:
  assumes "node_ready c w0 session request version n s w" and "run_node c n s w = (Inl e, w')"
    and "parses_plans c"
  shows "planning_escape c w0 (normal_request request) e"
  using assms by (cases n) (auto simp: underway_def
      dest: retrieve_knowledge_Inl call_planner_Inl validate_payload_Inl)

lemma run_from_escape:
  assumes parses: "parses_plans c"
  shows "run_from c n s w = (Inl e, w') \<Longrightarrow> node_ready c w0 session request version n s w \<Longrightarrow>
    planning_escape c w0 (normal_request request) e"
proof (induction "node_rank n" arbitrary: n s w rule: less_induct)
  case less
  obtain x w1 where r: "run_node c n s w = (x, w1)" by (cases "run_node c n s w")
  show ?case
  proof (cases x)
    case (Inl e')
    then have "e' = e" using less.prems(1) r by (subst (asm) run_from.simps) simp
    then show ?thesis using run_node_escape [OF less.prems(2) r [unfolded Inl] parses] by simp
  next
    case (Inr s1)
    note ready = run_node_ready [OF less.prems(2) r [unfolded Inr] parses]
    obtain m where m: "next_node n s1 = Some m" and "run_from c m s1 w1 = (Inl e, w')"
      using less.prems(1) r Inr by (subst (asm) run_from.simps) (auto split: option.splits)
    then show ?thesis using less.hyps [OF next_node_rank [OF m]] ready by simp
  qed
qed

lemma run_from_finished:
  assumes parses: "parses_plans c"
  shows "run_from c n s w = (Inr s', w') \<Longrightarrow> node_ready c w0 session request version n s w \<Longrightarrow>
    finished c w0 session request version s'"
proof (induction "node_rank n" arbitrary: n s w rule: less_induct)
  case less
  obtain s1 w1 where r: "run_node c n s w = (Inr s1, w1)"
    using less.prems(1) by (subst (asm) run_from.simps) (auto split: prod.splits sum.splits)
  note ready = run_node_ready [OF less.prems(2) r parses]
  show ?case
  proof (cases "next_node n s1")
    case None
    then have "s' = s1" using less.prems(1) r by (subst (asm) run_from.simps) simp
    then show ?thesis using ready None by simp
  next
    case (Some m)
    then have "run_from c m s1 w1 = (Inr s', w')" using less.prems(1) r by (subst (asm) run_from.simps) simp
    then show ?thesis using less.hyps [OF next_node_rank [OF Some]] ready Some by simp
  qed
qed

lemma run_from_calls:
  assumes counts: "counts_calls c called"
  shows "run_from c n s w = (a, w') \<Longrightarrow> called w' \<le> called w + calls_left n"
proof (induction "node_rank n" arbitrary: n s w rule: less_induct)
  case less
  obtain x w1 where r: "run_node c n s w = (x, w1)" by (cases "run_node c n s w")
  note step = run_node_world [OF counts r]
  show ?case
  proof (cases x)
    case (Inl e)
    then have "w' = w1" using less.prems r by (subst (asm) run_from.simps) simp
    then show ?thesis using step by (meson add_leD1 le_trans)
  next
    case (Inr s1)
    show ?thesis
    proof (cases "next_node n s1")
      case None
      then have "w' = w1" using less.prems r Inr by (subst (asm) run_from.simps) simp
      then show ?thesis using step by (meson add_leD1 le_trans)
    next
      case (Some m)
      then have "run_from c m s1 w1 = (a, w')" using less.prems r Inr by (subst (asm) run_from.simps) simp
      from less.hyps [OF next_node_rank [OF Some] this] show ?thesis using step [of s1] Some by simp
    qed
  qed
qed

lemma graph_finished:
  assumes "parses_plans c"
    and "invoke_graph c session request version w = (Inr s', w')"
  shows "\<exists>result. pl_result s' = Some result \<and> result_ok c w session request version result"
proof -
  have "node_ready c w session request version NormalizeRequest (new_planning_state session request version) w"
    by (simp add: underway_def new_planning_state_def)
  from run_from_finished [OF assms(1) assms(2) [unfolded invoke_graph_def] this] show ?thesis
    by (simp add: finished_def)
qed

lemma graph_escape:
  assumes "parses_plans c"
    and "invoke_graph c session request version w = (Inl e, w')"
  shows "planning_escape c w (normal_request request) e"
proof -
  have "node_ready c w session request version NormalizeRequest (new_planning_state session request version) w"
    by (simp add: underway_def new_planning_state_def)
  from run_from_escape [OF assms(1) assms(2) [unfolded invoke_graph_def] this] show ?thesis .
qed

lemma graph_calls:
  assumes "counts_calls c called"
    and "invoke_graph c session request version w = (a, w')"
  shows "called w' \<le> called w + 2"
  using run_from_calls [OF assms(1) assms(2) [unfolded invoke_graph_def]] by simp

section \<open>A property\<close>

definition empty_retriever :: retriever where
  "empty_retriever = sample_retriever\<lparr>rt_lexical_search := \<lambda>q l. Inr [], rt_vector_search := \<lambda>q l. Inr []\<rparr>"

definition sample_nodes :: "nat planning_nodes" where
  "sample_nodes =
     \<lparr>pn_model = \<lambda>q w. (Inl (TransientModelError ''down''), w + 1), pn_calls_used = int, pn_total_tokens = \<lambda>w. 0,
      pn_retriever = \<lambda>w. empty_retriever, pn_tools = [], pn_policies = \<lparr>pc_version = ''1'', pc_policies = []\<rparr>,
      pn_parse_plan = \<lambda>d. Inl [([''steps''], ''missing'')], pn_plan_schema = [], pn_prompt_version = ''1'',
      pn_tool_policy_version = ''1'', pn_tool_catalog = [], pn_retrieval_hints = []\<rparr>"

definition sample_change :: change_request where
  "sample_change =
     \<lparr>cr_service_id = Some ''orders'', cr_current_version = Some ''1'', cr_target_version = Some ''2'',
      cr_pull_request_url = None, cr_change_summary = ''upgrade'', cr_success_conditions = [''up''],
      cr_constraints = []\<rparr>"


lemma sample_graph:
  "\<exists>s'. invoke_graph sample_nodes ''s'' sample_change 1 0 = (Inr s', 1)
     \<and> pl_result s' = Some (PlanningRejected ''s'' [''model_gateway_error: down''])"
proof -
  have found: "retrieve empty_retriever q 8 =
      Inr \<lparr>rr_query = q, rr_evidence = [], rr_conflicts = [], rr_snapshot = rt_snapshot sample_retriever,
           rr_insufficient_evidence = True\<rparr>" for q
    by (simp add: empty_retriever_def sample_retriever_def retrieve_def reciprocal_rank_fusion_def Let_def
        index_by_def find_conflicts_def by_policy_def slice_to_def)
  have json: "\<exists>content. json_text (user_payload sample_nodes s r False) = Inr content"
    if "pl_request s = normal_request sample_change" "rr_evidence r = []" for s r
    using that by (simp add: user_payload_def request_json_def sample_change_def normal_request_def text_value_def
        texts_value_def sample_nodes_def json_key.simps)
  have planner: "call_planner sample_nodes False s w = (Inr (model_error s ''down''), w + 1)"
    if p: "pl_request s = normal_request sample_change" "pl_retrieval s = Some r" "rr_evidence r = []" for s r w
  proof -
    obtain content where "json_text (user_payload sample_nodes s r False) = Inr content"
      using json [OF p(1,3)] by blast
    then obtain q where "build_model_request sample_nodes s False = Inr q"
      using p(2) by (simp add: build_model_request_def state_retrieval_def map_error_def)
    then show ?thesis by (simp add: call_planner_def bnd_def) (simp add: sample_nodes_def)
  qed
  have r: "pn_retriever sample_nodes w = empty_retriever" for w by (simp add: sample_nodes_def)
  show ?thesis
    by (simp add: invoke_graph_def run_from.simps new_planning_state_def normalize_request_def sample_change_def
        check_required_context_def required_fields_def unless_result_def retrieve_knowledge_def bnd_def found r
        planner normal_request_def model_error_def Let_def)
qed


end
