(* ===== verification/Mapping_Plans.thy ===== *)
theory Mapping_Plans
  imports Plan_Validation Definitions
begin

text \<open>
  \<open>planning/application/mapping.py\<close>: a validated plan as the
  payload of a workflow definition, and what of the plan the workflow then keeps.
\<close>

section \<open>The code\<close>

definition issues_text :: "validation_issue list \<Rightarrow> string" where
  "issues_text errors = join ''; '' (map (\<lambda>i. vi_code i @ '': '' @ vi_message i) errors)"

definition prepared_retry :: pyval where
  "prepared_retry =
     PDict [(KStr ''max_attempts'', PInt 3),
            (KStr ''initial_backoff_seconds'', PFloat (Finite 1 0))]"

definition raw_step_of_plan :: "plan_step \<Rightarrow> pyval" where
  "raw_step_of_plan s =
     PDict ([(KStr ''id'', PStr (ps_id s)),
             (KStr ''tool'', plan_tool_value (ps_tool s)),
             (KStr ''arguments'', PDict (ps_arguments s)),
             (KStr ''depends_on'', texts_value (ps_depends_on s)),
             (KStr ''risk'', PStr (risk_value (ps_risk s))),
             (KStr ''retry'', prepared_retry)]
            @ (case ps_compensation_tool s of None \<Rightarrow> []
               | Some t \<Rightarrow> [(KStr ''compensation_tool'', plan_tool_value t)]))"

definition payload_of_plan :: "change_plan \<Rightarrow> pyval" where
  "payload_of_plan p =
     PDict [(KStr ''definition_id'', PStr (cp_plan_id p)),
            (KStr ''version'', PInt (cp_version p)),
            (KStr ''steps'', PList (map raw_step_of_plan (cp_steps p)))]"

definition prepare ::
  "tool_registry \<Rightarrow> policy_catalog \<Rightarrow> change_plan \<Rightarrow> retrieved_evidence list \<Rightarrow>
   planning_error + prepared_workflow" where
  "prepare reg catalog p evidence =
     sbind (map_error Raised (validate_plan reg catalog p evidence)) (\<lambda>report.
     case (vr_valid report, vr_normalized_plan report) of
       (True, Some q) \<Rightarrow>
         sbind (map_error Raised (from_mapping (payload_of_plan q) reg)) (\<lambda>w.
         Inr \<lparr>pw_plan_id = cp_plan_id q, pw_plan_version = cp_version q,
              pw_knowledge_snapshot_digest = cp_knowledge_snapshot_digest q,
              pw_definition_id = wd_definition_id w, pw_definition_version = wd_version w,
              pw_definition_digest = wd_digest w, pw_payload = payload_of_plan q\<rparr>)
     | _ \<Rightarrow> Inl (PlanValidationError (issues_text (vr_errors report))))"

section \<open>What the definition keeps of the plan\<close>

definition reference_of :: "plan_tool \<Rightarrow> tool_reference" where
  "reference_of t = \<lparr>ref_name = pt_name t, ref_version = pt_version t\<rparr>"

text \<open>
  A step of the definition that carries out a step of the normalized plan; its arguments are what
  the tool's input model makes of all the arguments of the plan step.
\<close>

definition carries_out :: "tool_registry \<Rightarrow> step_definition \<Rightarrow> plan_step \<Rightarrow> bool" where
  "carries_out reg sd s \<longleftrightarrow> sd_id sd = ps_id s \<and> sd_tool sd = reference_of (ps_tool s)
     \<and> (\<exists>arguments. coerce_step_arguments (catalog_of reg) (reference_of (ps_tool s)) (ps_arguments s)
            = Inr arguments \<and> sd_arguments sd = freeze_argument (PDict arguments))
     \<and> sd_depends_on sd = sort (remdups (ps_depends_on s)) \<and> sd_risk sd = risk_value (ps_risk s)
     \<and> sd_retry sd = default_retry
     \<and> sd_compensation_tool sd = map_option reference_of (ps_compensation_tool s)"

lemma plan_tool_value_given [simp]: "plan_tool_value t \<noteq> PNone"
  by (simp add: plan_tool_value_def)

lemma parse_plan_tool:
  "parse_tool_reference (plan_tool_value t) f i = Inr r \<Longrightarrow> r = reference_of t"
  by (auto simp: parse_tool_reference_def plan_tool_value_def require_mapping_def pget_def
      require_string_Inr reference_of_def)

lemma raw_step_fields:
  assumes "as_mapping (raw_step_of_plan s) = Some m"
  shows "pget m ''id'' = PStr (ps_id s)" "pget m ''tool'' = plan_tool_value (ps_tool s)"
    "pget m ''depends_on'' = texts_value (ps_depends_on s)"
    "pget_or m ''risk'' (PStr DEFAULT_RISK) = PStr (risk_value (ps_risk s))"
    "pget m ''retry'' = prepared_retry"
    "pget m ''compensation_tool''
       = (case ps_compensation_tool s of None \<Rightarrow> PNone | Some t \<Rightarrow> plan_tool_value t)"
    "pget_or m ''arguments'' (PDict []) = PDict (ps_arguments s)"
  using assms by (auto simp: raw_step_of_plan_def pget_def pget_or_def split: option.splits)

lemma texts_require:
  "require_string_sequence (texts_value xs) f i = Inr ys \<Longrightarrow> ys = sort (remdups xs)"
proof -
  have "smap (\<lambda>x. require_string x f i) (map PStr xs) = Inr zs \<Longrightarrow> zs = xs" for zs
    by (induction xs arbitrary: zs) (auto simp: require_string_Inr)
  then show "require_string_sequence (texts_value xs) f i = Inr ys \<Longrightarrow> ys = sort (remdups xs)"
    by (auto simp: require_string_sequence_def texts_value_def)
qed

lemma prepared_retry_parsed: "parse_retry_policy prepared_retry i = Inr r \<Longrightarrow> r = default_retry"
  by (auto simp: parse_retry_policy_def prepared_retry_def require_mapping_def pget_or_def
      require_positive_int_Inr require_number_def make_retry_policy_def default_retry_def)

lemma parse_step_carries_out:
  assumes "parse_step (catalog_of reg) (raw_step_of_plan s) = Inr sd"
  shows "carries_out reg sd s"
proof -
  from assms obtain i m where im: "parse_step_id (raw_step_of_plan s) = Inr (i, m)"
    and body: "parse_step_body (catalog_of reg) i m = Inr sd" by (auto simp: parse_step_def)
  from im have m: "as_mapping (raw_step_of_plan s) = Some m" and i: "pget m ''id'' = PStr i"
    by (auto simp: parse_step_id_def require_mapping_def require_string_Inr)
  note f = raw_step_fields [OF m]
  from body obtain u t raw arguments depends_on risk retry compensation where
    t: "parse_tool_reference (pget m ''tool'') ''tool'' (Some i) = Inr t"
    and raw: "require_mapping (pget_or m ''arguments'' (PDict [])) ''arguments'' (Some i) = Inr raw"
    and a: "map_error (\<lambda>e. DefinitionValidationError (''invalid arguments: '' @ error_text e)
        (Some i) (Some ''arguments'')) (coerce_step_arguments (catalog_of reg) t raw) = Inr arguments"
    and d: "require_string_sequence (pget m ''depends_on'') ''depends_on'' (Some i) = Inr depends_on"
    and k: "require_string (pget_or m ''risk'' (PStr DEFAULT_RISK)) ''risk'' (Some i) = Inr risk"
    and r: "parse_retry_policy (pget m ''retry'') i = Inr retry"
    and c: "parse_optional_tool_reference (catalog_of reg) (pget m ''compensation_tool'') i = Inr compensation"
    and s': "Inr \<lparr>sd_id = i, sd_tool = t,
              sd_arguments = PProxy (map (\<lambda>kv. (fst kv, freeze_argument (snd kv))) arguments),
              sd_depends_on = depends_on, sd_risk = risk, sd_retry = retry,
              sd_compensation_tool = compensation\<rparr> = (Inr sd :: error + step_definition)"
    unfolding parse_step_body_def by (elim sbind_InrE) blast
  have "compensation = map_option reference_of (ps_compensation_tool s)"
    using c unfolding f parse_optional_tool_reference_def
    by (cases "ps_compensation_tool s") (auto dest: parse_plan_tool)
  moreover have "risk = risk_value (ps_risk s)" using k by (simp add: f require_string_Inr)
  moreover have "i = ps_id s" using i f(1) by simp
  moreover have "raw = ps_arguments s" using raw by (simp add: f require_mapping_def)
  then have "coerce_step_arguments (catalog_of reg) t (ps_arguments s) = Inr arguments"
    using a by (simp add: map_error_def split: sum.splits)
  ultimately show ?thesis
    using s' parse_plan_tool [OF t [unfolded f]] texts_require [OF d [unfolded f]]
      prepared_retry_parsed [OF r [unfolded f]]
    by (auto simp: carries_out_def)
qed

lemma prepare_Inr:
  assumes "distinct (map ps_id (cp_steps p))" and "prepare reg catalog p evidence = Inr pw"
  obtains q w where "plan_acceptable reg catalog p evidence"
    and "q = p\<lparr>cp_steps := map (normalized_step reg catalog) (cp_steps p)\<rparr>"
    and "pw_payload pw = payload_of_plan q" and "from_mapping (pw_payload pw) reg = Inr w"
    and "pw_definition_id pw = wd_definition_id w" "pw_definition_version pw = wd_version w"
      "pw_definition_digest pw = wd_digest w"
    and "pw_plan_id pw = cp_plan_id p" "pw_plan_version pw = cp_version p"
proof -
  from assms(2) obtain report q w where v: "validate_plan reg catalog p evidence = Inr report"
    and q: "vr_normalized_plan report = Some q"
    and w: "from_mapping (payload_of_plan q) reg = Inr w"
    and pw: "pw = \<lparr>pw_plan_id = cp_plan_id q, pw_plan_version = cp_version q,
              pw_knowledge_snapshot_digest = cp_knowledge_snapshot_digest q,
              pw_definition_id = wd_definition_id w, pw_definition_version = wd_version w,
              pw_definition_digest = wd_digest w, pw_payload = payload_of_plan q\<rparr>"
    by (auto simp: prepare_def split: bool.splits option.splits)
  show ?thesis by (rule that) (use validated_steps [OF assms(1) v q] w pw in simp_all)
qed

lemma prepared_steps:
  assumes "from_mapping (payload_of_plan q) reg = Inr w"
  shows "\<exists>ss. list_all2 (carries_out reg) ss (cp_steps q) \<and> wd_steps w = sort_key sd_id ss
     \<and> wd_definition_id w = cp_plan_id q \<and> wd_version w = cp_version q"
proof -
  from assms obtain m raws ss where m: "as_mapping (payload_of_plan q) = Some m"
    and r: "pget m ''steps'' = PList raws"
    and i: "pget m ''definition_id'' = PStr (wd_definition_id w)"
    and v: "pget m ''version'' = PInt (wd_version w)"
    and ss: "smap (parse_step (catalog_of reg)) raws = Inr ss" and w: "wd_steps w = sort_key sd_id ss"
    unfolding from_mapping_Inr by blast
  have "raws = map raw_step_of_plan (cp_steps q)" and "wd_definition_id w = cp_plan_id q"
    and "wd_version w = cp_version q"
    using m r i v by (auto simp: payload_of_plan_def pget_def)
  moreover from ss have "list_all2 (\<lambda>x y. parse_step (catalog_of reg) x = Inr y) raws ss" by (simp add: smap_Inr_iff)
  ultimately have "list_all2 (carries_out reg) ss (cp_steps q)"
    by (auto simp: list_all2_conv_all_nth parse_step_carries_out)
  then show ?thesis using w \<open>wd_definition_id w = cp_plan_id q\<close> \<open>wd_version w = cp_version q\<close> by blast
qed

end
