(* ===== verification/Planning_Service.thy ===== *)
theory Planning_Service
  imports Planning_Graph Mapping_Plans
begin

text \<open>
  \<open>InMemoryPlanningRepository\<close> of \<open>planning/adapters/persistence.py\<close> and \<open>planning/application/services.py\<close>:
  sessions, their attempts and plans, and the preparation of the latest plan as a workflow.
\<close>

section \<open>The repository\<close>

record memory_session =
  se_request :: change_request
  se_attempts :: "planning_result list"
  se_plans :: "change_plan list"
  se_prepared :: "prepared_workflow option"

type_synonym sessions = "(string, memory_session) dict"

definition get_session :: "string \<Rightarrow> sessions \<Rightarrow> planning_error + memory_session" where
  "get_session sid d = or_raise (dget d sid) (Raised (LookupError (''unknown planning session '' @ py_repr sid)))"

definition create_session :: "string \<Rightarrow> change_request \<Rightarrow> (sessions, planning_error, unit) act" where
  "create_session sid request d =
     (if sid \<in> set (keys d)
      then (Inl (Raised (ValueError (''duplicate planning session '' @ py_repr sid))), d)
      else (Inr (), dset sid \<lparr>se_request = request, se_attempts = [], se_plans = [], se_prepared = None\<rparr> d))"

definition get_request :: "string \<Rightarrow> (sessions, planning_error, change_request) act" where
  "get_request sid = bnd (get_act (get_session sid)) (\<lambda>r. bnd (lift_res r) (\<lambda>se. ret (se_request se)))"

definition change_session ::
  "string \<Rightarrow> (memory_session \<Rightarrow> planning_error + memory_session) \<Rightarrow> (sessions, planning_error, unit) act" where
  "change_session sid f =
     bnd (get_act (get_session sid)) (\<lambda>r.
     bnd (lift_res r) (\<lambda>se.
     bnd (lift_res (f se)) (\<lambda>se'.
     modify_act (dset sid se'))))"

definition update_request :: "string \<Rightarrow> change_request \<Rightarrow> (sessions, planning_error, unit) act" where
  "update_request sid request = change_session sid (\<lambda>se. Inr (se\<lparr>se_request := request\<rparr>))"

definition next_attempt_number :: "string \<Rightarrow> (sessions, planning_error, int) act" where
  "next_attempt_number sid =
     bnd (get_act (get_session sid)) (\<lambda>r. bnd (lift_res r) (\<lambda>se. ret (int (length (se_attempts se)) + 1)))"

definition next_plan_version :: "string \<Rightarrow> (sessions, planning_error, int) act" where
  "next_plan_version sid =
     bnd (get_act (get_session sid)) (\<lambda>r. bnd (lift_res r) (\<lambda>se. ret (int (length (se_plans se)) + 1)))"

definition save_attempt ::
  "string \<Rightarrow> int \<Rightarrow> change_request \<Rightarrow> planning_result \<Rightarrow> (sessions, planning_error, unit) act" where
  "save_attempt sid attempt_no request result =
     change_session sid (\<lambda>se.
       if attempt_no \<noteq> int (length (se_attempts se)) + 1
       then Inl (Raised (ValueError ''planning attempt number is not sequential''))
       else Inr (se\<lparr>se_request := request, se_attempts := se_attempts se @ [result]\<rparr>))"

definition save_plan :: "string \<Rightarrow> change_plan \<Rightarrow> (sessions, planning_error, unit) act" where
  "save_plan sid p =
     change_session sid (\<lambda>se.
       if cp_version p \<noteq> int (length (se_plans se)) + 1
       then Inl (Raised (ValueError ''plan version is not sequential''))
       else Inr (se\<lparr>se_plans := se_plans se @ [p]\<rparr>))"

definition get_latest_plan :: "string \<Rightarrow> (sessions, planning_error, change_plan) act" where
  "get_latest_plan sid =
     bnd (get_act (get_session sid)) (\<lambda>r.
     bnd (lift_res r) (\<lambda>se.
     if se_plans se = [] then raise_act (Raised (LookupError ''planning session has no plan''))
     else ret (last (se_plans se))))"

definition get_latest_result :: "string \<Rightarrow> (sessions, planning_error, planning_result) act" where
  "get_latest_result sid =
     bnd (get_act (get_session sid)) (\<lambda>r.
     bnd (lift_res r) (\<lambda>se.
     if se_attempts se = [] then raise_act (Raised (LookupError ''planning session has no attempts''))
     else ret (last (se_attempts se))))"

definition bind_prepared_workflow :: "string \<Rightarrow> prepared_workflow \<Rightarrow> (sessions, planning_error, unit) act" where
  "bind_prepared_workflow sid pw = change_session sid (\<lambda>se. Inr (se\<lparr>se_prepared := Some pw\<rparr>))"

section \<open>The service\<close>

record 'w planning_service =
  sv_nodes :: "'w planning_nodes"
  sv_mapper_tools :: tool_registry
  sv_mapper_policies :: policy_catalog
  sv_snapshot :: "'w \<Rightarrow> planning_error + knowledge_snapshot"
  sv_identifier :: "'w \<Rightarrow> string \<times> 'w"

record 'w planning_system =
  sy_sessions :: sessions
  sy_world :: 'w

definition on_sessions :: "(sessions, 'e, 'a) act \<Rightarrow> ('w planning_system, 'e, 'a) act" where
  "on_sessions m s = (case m (sy_sessions s) of (a, d) \<Rightarrow> (a, s\<lparr>sy_sessions := d\<rparr>))"

definition in_world :: "('w, 'e, 'a) act \<Rightarrow> ('w planning_system, 'e, 'a) act" where
  "in_world m s = (case m (sy_world s) of (a, w) \<Rightarrow> (a, s\<lparr>sy_world := w\<rparr>))"

text \<open>\<open>output["result"]\<close>.\<close>

definition graph_result :: "planning_state \<Rightarrow> planning_error + planning_result" where
  "graph_result s = or_raise (pl_result s) (Raised (KeyError ''result''))"

definition run_planning ::
  "'w planning_service \<Rightarrow> string \<Rightarrow> change_request \<Rightarrow> ('w planning_system, planning_error, planning_result) act" where
  "run_planning c sid request =
     bnd (on_sessions (next_attempt_number sid)) (\<lambda>attempt_no.
     bnd (on_sessions (next_plan_version sid)) (\<lambda>plan_version.
     bnd (in_world (invoke_graph (sv_nodes c) sid request plan_version)) (\<lambda>out.
     bnd (lift_res (graph_result out)) (\<lambda>result.
     bnd (on_sessions (save_attempt sid attempt_no request result)) (\<lambda>_.
     bnd (case result of
            PlanReady sid' p evidence \<Rightarrow> on_sessions (save_plan sid p)
          | _ \<Rightarrow> ret ()) (\<lambda>_.
     ret result))))))"

definition start_planning ::
  "'w planning_service \<Rightarrow> change_request \<Rightarrow> string option \<Rightarrow>
   ('w planning_system, planning_error, planning_result) act" where
  "start_planning c request session_id =
     bnd (case session_id of
            Some (x # xs) \<Rightarrow> ret (x # xs)
          | _ \<Rightarrow> in_world (\<lambda>w. case sv_identifier c w of (i, w') \<Rightarrow> (Inr i, w'))) (\<lambda>selected_id.
     bnd (on_sessions (create_session selected_id request)) (\<lambda>_.
     run_planning c selected_id request))"

text \<open>
  \<open>ChangeRequest.model_validate\<close> on a dictionary of its fields, strictly typed: the text of
  Pydantic's \<open>ValidationError\<close>, a \<open>ValueError\<close>, is abridged.
\<close>

definition request_fields :: "string list" where
  "request_fields = [''service_id'', ''current_version'', ''target_version'', ''pull_request_url'',
                     ''change_summary'', ''success_conditions'', ''constraints'']"

definition invalid_request :: planning_error where
  "invalid_request = Raised (ValueError ''validation error for ChangeRequest'')"

definition as_optional_text :: "pyval \<Rightarrow> planning_error + string option" where
  "as_optional_text v =
     (case v of PNone \<Rightarrow> Inr None | PStr t \<Rightarrow> Inr (Some t) | _ \<Rightarrow> Inl invalid_request)"

definition as_text :: "pyval \<Rightarrow> planning_error + string" where
  "as_text v = (case v of PStr t \<Rightarrow> Inr t | _ \<Rightarrow> Inl invalid_request)"

definition as_texts :: "pyval \<Rightarrow> planning_error + string list" where
  "as_texts v = (case v of PTuple xs \<Rightarrow> smap as_text xs | _ \<Rightarrow> Inl invalid_request)"

definition field_of :: "(string, pyval) dict \<Rightarrow> string \<Rightarrow> pyval" where
  "field_of d k = (case dget d k of None \<Rightarrow> PNone | Some v \<Rightarrow> v)"

definition validate_request :: "(string, pyval) dict \<Rightarrow> planning_error + change_request" where
  "validate_request d =
     sbind (as_optional_text (field_of d ''service_id'')) (\<lambda>service_id.
     sbind (as_optional_text (field_of d ''current_version'')) (\<lambda>current_version.
     sbind (as_optional_text (field_of d ''target_version'')) (\<lambda>target_version.
     sbind (as_optional_text (field_of d ''pull_request_url'')) (\<lambda>pull_request_url.
     sbind (as_text (field_of d ''change_summary'')) (\<lambda>change_summary.
     sbind (as_texts (field_of d ''success_conditions'')) (\<lambda>success_conditions.
     sbind (as_texts (field_of d ''constraints'')) (\<lambda>constraints.
     let r = \<lparr>cr_service_id = service_id, cr_current_version = current_version,
              cr_target_version = target_version, cr_pull_request_url = pull_request_url,
              cr_change_summary = change_summary, cr_success_conditions = success_conditions,
              cr_constraints = constraints\<rparr>
     in if request_ok r then Inr r else Inl invalid_request)))))))"

text \<open>\<open>model_dump(mode="python")\<close> of a request.\<close>

definition request_dict :: "change_request \<Rightarrow> (string, pyval) dict" where
  "request_dict r =
     [(''service_id'', text_value (cr_service_id r)), (''current_version'', text_value (cr_current_version r)),
      (''target_version'', text_value (cr_target_version r)),
      (''pull_request_url'', text_value (cr_pull_request_url r)), (''change_summary'', PStr (cr_change_summary r)),
      (''success_conditions'', PTuple (map PStr (cr_success_conditions r))),
      (''constraints'', PTuple (map PStr (cr_constraints r)))]"

definition answer_value :: "string \<Rightarrow> pyval \<Rightarrow> pyval" where
  "answer_value field v =
     (if field \<in> {''success_conditions'', ''constraints''}
      then (case v of PStr t \<Rightarrow> PTuple [PStr t] | _ \<Rightarrow> v) else v)"

definition add_answer ::
  "string \<times> pyval \<Rightarrow> (string, pyval) dict \<Rightarrow> planning_error + (string, pyval) dict" where
  "add_answer fv payload =
     sbind (guard (fst fv \<in> set request_fields)
              (Raised (ValueError (''unknown clarification field '' @ py_repr (fst fv))))) (\<lambda>_.
     Inr (dset (fst fv) (answer_value (fst fv) (snd fv)) payload))"

definition answer_planning ::
  "'w planning_service \<Rightarrow> string \<Rightarrow> (string, pyval) dict \<Rightarrow>
   ('w planning_system, planning_error, planning_result) act" where
  "answer_planning c sid answers =
     bnd (on_sessions (get_request sid)) (\<lambda>current.
     bnd (lift_res (sfold add_answer answers (request_dict current))) (\<lambda>payload.
     bnd (lift_res (validate_request payload)) (\<lambda>updated.
     bnd (on_sessions (update_request sid updated)) (\<lambda>_.
     run_planning c sid updated))))"

definition prepare_workflow ::
  "'w planning_service \<Rightarrow> string \<Rightarrow> ('w planning_system, planning_error, prepared_workflow) act" where
  "prepare_workflow c sid =
     bnd (on_sessions (get_latest_plan sid)) (\<lambda>p.
     bnd (on_sessions (get_latest_result sid)) (\<lambda>latest.
     case latest of
       PlanReady sid' q evidence \<Rightarrow>
         if cp_version p \<noteq> cp_version q
         then raise_act (PlanValidationError ''latest plan version has changed'')
         else bnd (get_act (\<lambda>s. sv_snapshot c (sy_world s))) (\<lambda>snap.
              bnd (lift_res snap) (\<lambda>snapshot.
              if cp_knowledge_snapshot_digest p \<noteq> ks_digest snapshot
              then raise_act (PlanValidationError ''knowledge changed after planning; create a new plan version'')
              else bnd (lift_res (prepare (sv_mapper_tools c) (sv_mapper_policies c) p evidence)) (\<lambda>prepared.
                   bnd (on_sessions (bind_prepared_workflow sid prepared)) (\<lambda>_.
                   ret prepared))))
     | _ \<Rightarrow> raise_act (PlanValidationError ''latest planning result is not ready'')))"

section \<open>The system\<close>

text \<open>The calls of the service, in any order, while the world changes in between.\<close>

inductive planning_reachable :: "'w planning_service \<Rightarrow> 'w planning_system \<Rightarrow> bool" for c where
  planning_start: "planning_reachable c \<lparr>sy_sessions = [], sy_world = w\<rparr>"
| planning_started: "planning_reachable c s \<Longrightarrow> start_planning c request session_id s = (a, s') \<Longrightarrow> planning_reachable c s'"
| planning_answered: "planning_reachable c s \<Longrightarrow> answer_planning c sid answers s = (a, s') \<Longrightarrow> planning_reachable c s'"
| planning_prepared: "planning_reachable c s \<Longrightarrow> prepare_workflow c sid s = (b, s') \<Longrightarrow> planning_reachable c s'"
| planning_elsewhere: "planning_reachable c s \<Longrightarrow> planning_reachable c (s\<lparr>sy_world := w\<rparr>)"

section \<open>Ready plans\<close>

definition self_valid :: "'w planning_nodes \<Rightarrow> change_plan \<Rightarrow> retrieved_evidence list \<Rightarrow> bool" where
  "self_valid n p evidence \<longleftrightarrow>
     validate_plan (pn_tools n) (pn_policies n) p evidence
       = Inr \<lparr>vr_valid = True, vr_normalized_plan = Some p, vr_errors = []\<rparr>"

lemma ready_planD:
  assumes "ready_plan n w sid request version p evidence" and "parses_plans n"
  shows "cp_plan_id p = sid @ ''-plan'' \<and> cp_version p = version \<and> self_valid n p evidence"
proof -
  from assms(1) obtain retrieval :: retrieval_result and payload parsed where pr: "pn_parse_plan n payload = Inr parsed"
    and v: "validate_plan (pn_tools n) (pn_policies n)
            (parsed\<lparr>cp_plan_id := sid @ ''-plan'', cp_version := version,
                    cp_knowledge_snapshot_digest := ks_digest (rr_snapshot retrieval),
                    cp_prompt_version := pn_prompt_version n,
                    cp_tool_policy_version := pn_tool_policy_version n\<rparr>) evidence
          = Inr \<lparr>vr_valid = True, vr_normalized_plan = Some p, vr_errors = []\<rparr>"
    unfolding ready_plan_def by (elim exE conjE) (rule that, assumption+)
  define q where "q = parsed\<lparr>cp_plan_id := sid @ ''-plan'', cp_version := version,
                    cp_knowledge_snapshot_digest := ks_digest (rr_snapshot retrieval),
                    cp_prompt_version := pn_prompt_version n,
                    cp_tool_policy_version := pn_tool_policy_version n\<rparr>"
  have d: "distinct (map ps_id (cp_steps q))" using pr assms(2) by (simp add: q_def parses_plans_def)
  have v': "validate_plan (pn_tools n) (pn_policies n) q evidence
      = Inr \<lparr>vr_valid = True, vr_normalized_plan = Some p, vr_errors = []\<rparr>" unfolding q_def by (rule v)
  have "p = q\<lparr>cp_steps := map (normalized_step (pn_tools n) (pn_policies n)) (cp_steps q)\<rparr>"
    using validate_plan_result [OF d, of "pn_tools n" "pn_policies n" evidence] v' by (auto split: if_splits)
  moreover have "self_valid n p evidence"
    unfolding self_valid_def using normalized_plan_stable [OF d v'] by simp
  ultimately show ?thesis by (simp add: q_def)
qed

section \<open>Sessions\<close>

fun ready_of :: "planning_result \<Rightarrow> change_plan list" where
  "ready_of (PlanReady sid p evidence) = [p]"
| "ready_of _ = []"

fun attempt_ok :: "'w planning_nodes \<Rightarrow> string \<Rightarrow> planning_result \<Rightarrow> bool" where
  "attempt_ok n sid (PlanReady sid' p evidence) \<longleftrightarrow>
     sid' = sid \<and> cp_plan_id p = sid @ ''-plan'' \<and> self_valid n p evidence"
| "attempt_ok n sid _ \<longleftrightarrow> True"

definition session_ok :: "'w planning_nodes \<Rightarrow> string \<Rightarrow> memory_session \<Rightarrow> bool" where
  "session_ok n sid se \<longleftrightarrow> se_plans se = concat (map ready_of (se_attempts se))
     \<and> map cp_version (se_plans se) = map (\<lambda>i. int i + 1) [0..<length (se_plans se)]
     \<and> list_all (attempt_ok n sid) (se_attempts se)"

definition sessions_ok :: "'w planning_nodes \<Rightarrow> sessions \<Rightarrow> bool" where
  "sessions_ok n d \<longleftrightarrow> (\<forall>sid se. dget d sid = Some se \<longrightarrow> session_ok n sid se)"

lemma sessions_ok_dset: "sessions_ok n d \<Longrightarrow> session_ok n sid se \<Longrightarrow> sessions_ok n (dset sid se d)"
  by (simp add: sessions_ok_def)

lemma session_ok_request [simp]: "session_ok n sid (se\<lparr>se_request := r\<rparr>) = session_ok n sid se"
  by (simp add: session_ok_def)

lemma session_ok_prepared [simp]: "session_ok n sid (se\<lparr>se_prepared := r\<rparr>) = session_ok n sid se"
  by (simp add: session_ok_def)

lemma change_session_cases:
  "change_session sid f d = (case dget d sid of
       None \<Rightarrow> (Inl (Raised (LookupError (''unknown planning session '' @ py_repr sid))), d)
     | Some se \<Rightarrow> (case f se of Inl e \<Rightarrow> (Inl e, d) | Inr se' \<Rightarrow> (Inr (), dset sid se' d)))"
  by (simp add: change_session_def get_session_def bnd_def split: option.splits sum.splits)

text \<open>A finished run of the graph is stored as one more attempt, and as one more plan if it is ready.\<close>

lemma run_planning_stored:
  assumes "dget (sy_sessions s) sid = Some se" and "session_ok (sv_nodes c) sid se"
    and i: "invoke_graph (sv_nodes c) sid request (int (length (se_plans se)) + 1) (sy_world s) = (Inr out, w)"
    and r: "pl_result out = Some result"
    and ok: "result_ok (sv_nodes c) (sy_world s) sid request (int (length (se_plans se)) + 1) result"
    and p: "parses_plans (sv_nodes c)"
  shows "\<exists>se'. run_planning c sid request s
      = (Inr result, s\<lparr>sy_world := w, sy_sessions := dset sid se' (sy_sessions s)\<rparr>)
    \<and> session_ok (sv_nodes c) sid se' \<and> se_attempts se' = se_attempts se @ [result] \<and> se_request se' = request"
proof -
  let ?se = "se\<lparr>se_request := request, se_attempts := se_attempts se @ [result]\<rparr>"
  have saved: "save_attempt sid (int (length (se_attempts se)) + 1) request result (sy_sessions s)
      = (Inr (), dset sid ?se (sy_sessions s))"
    using assms(1) by (simp add: save_attempt_def change_session_cases)
  have run: "run_planning c sid request s =
      bnd (case result of PlanReady sid' p evidence \<Rightarrow> on_sessions (save_plan sid p) | _ \<Rightarrow> ret ()) (\<lambda>_. ret result)
        (s\<lparr>sy_world := w, sy_sessions := dset sid ?se (sy_sessions s)\<rparr>)"
    using assms(1) i r saved
    by (simp add: run_planning_def bnd_def on_sessions_def in_world_def next_attempt_number_def next_plan_version_def
        get_session_def graph_result_def)
  show ?thesis
  proof (cases "\<exists>sid' p evidence. result = PlanReady sid' p evidence")
    case True
    then obtain sid' q evidence where q: "result = PlanReady sid' q evidence" by blast
    then have sid': "sid' = sid"
      and "ready_plan (sv_nodes c) (sy_world s) sid request (int (length (se_plans se)) + 1) q evidence"
      using ok by simp_all
    from ready_planD [OF this(2) p] have f: "cp_plan_id q = sid @ ''-plan''"
      "cp_version q = int (length (se_plans se)) + 1" "self_valid (sv_nodes c) q evidence" by simp_all
    let ?se' = "?se\<lparr>se_plans := se_plans se @ [q]\<rparr>"
    have "save_plan sid q (dset sid ?se (sy_sessions s)) = (Inr (), dset sid ?se' (dset sid ?se (sy_sessions s)))"
      using f(2) by (simp add: save_plan_def change_session_cases)
    moreover have "dset sid ?se' (dset sid ?se (sy_sessions s)) = dset sid ?se' (sy_sessions s)"
      by (induction "sy_sessions s") auto
    moreover have "session_ok (sv_nodes c) sid ?se'"
    proof -
      have "se_plans se = concat (map ready_of (se_attempts se))"
        and v: "map cp_version (se_plans se) = map (\<lambda>i. int i + 1) [0..<length (se_plans se)]"
        and "list_all (attempt_ok (sv_nodes c) sid) (se_attempts se)"
        using assms(2) unfolding session_ok_def by blast+
      moreover have "map cp_version (se_plans se @ [q]) = map (\<lambda>i. int i + 1) [0..<length (se_plans se @ [q])]"
        using v f(2) by simp
      ultimately show ?thesis using f(1,3) q sid' by (simp add: session_ok_def)
    qed
    ultimately show ?thesis unfolding run q by (intro exI [of _ ?se']) (simp add: bnd_def on_sessions_def q)
  next
    case False
    then have "ready_of result = []" "attempt_ok (sv_nodes c) sid result" by (cases result; simp)+
    moreover have "se_plans se = concat (map ready_of (se_attempts se))"
      and "map cp_version (se_plans se) = map (\<lambda>i. int i + 1) [0..<length (se_plans se)]"
      and "list_all (attempt_ok (sv_nodes c) sid) (se_attempts se)"
      using assms(2) unfolding session_ok_def by blast+
    ultimately have "session_ok (sv_nodes c) sid ?se" by (simp add: session_ok_def)
    moreover have "run_planning c sid request s
        = (Inr result, s\<lparr>sy_world := w, sy_sessions := dset sid ?se (sy_sessions s)\<rparr>)"
      using False unfolding run by (cases result) simp_all
    ultimately show ?thesis by (intro exI [of _ ?se]) simp
  qed
qed

lemma run_planning_sessions:
  assumes "run_planning c sid request s = (a, s')" and ok: "sessions_ok (sv_nodes c) (sy_sessions s)"
    and p: "parses_plans (sv_nodes c)"
  shows "sessions_ok (sv_nodes c) (sy_sessions s')"
proof (cases "dget (sy_sessions s) sid")
  case None
  then have "s' = s" using assms(1)
    by (simp add: run_planning_def bnd_def on_sessions_def next_attempt_number_def get_session_def)
  then show ?thesis using ok by simp
next
  case (Some se)
  then have se: "session_ok (sv_nodes c) sid se" using ok by (simp add: sessions_ok_def)
  obtain x w where x: "invoke_graph (sv_nodes c) sid request (int (length (se_plans se)) + 1) (sy_world s) = (x, w)"
    by (cases "invoke_graph (sv_nodes c) sid request (int (length (se_plans se)) + 1) (sy_world s)")
  show ?thesis
  proof (cases x)
    case (Inl e)
    then have "s' = s\<lparr>sy_world := w\<rparr>" using assms(1) Some x
      by (simp add: run_planning_def bnd_def on_sessions_def in_world_def next_attempt_number_def
          next_plan_version_def get_session_def)
    then show ?thesis using ok by simp
  next
    case (Inr out)
    then have i: "invoke_graph (sv_nodes c) sid request (int (length (se_plans se)) + 1) (sy_world s) = (Inr out, w)"
      using x by simp
    from graph_finished [OF p i] obtain result where "pl_result out = Some result"
      "result_ok (sv_nodes c) (sy_world s) sid request (int (length (se_plans se)) + 1) result" by blast
    from run_planning_stored [OF Some se i this p] obtain se' where
      "s' = s\<lparr>sy_world := w, sy_sessions := dset sid se' (sy_sessions s)\<rparr>" "session_ok (sv_nodes c) sid se'"
      using assms(1) by auto
    then show ?thesis using sessions_ok_dset [OF ok] by simp
  qed
qed

lemma sessions_ok_change:
  assumes "sessions_ok n d" and "\<And>se se'. dget d sid = Some se \<Longrightarrow> f se = Inr se' \<Longrightarrow> session_ok n sid se \<Longrightarrow> session_ok n sid se'"
  shows "sessions_ok n (snd (change_session sid f d))"
proof (cases "dget d sid")
  case None
  then show ?thesis using assms(1) by (simp add: change_session_cases)
next
  case (Some se)
  then have "session_ok n sid se" using assms(1) by (simp add: sessions_ok_def)
  then show ?thesis using assms Some
    by (cases "f se") (auto simp: change_session_cases intro: sessions_ok_dset)
qed

abbreviation plans_ok :: "'w planning_service \<Rightarrow> 'w planning_system \<Rightarrow> bool" where
  "plans_ok c s \<equiv> sessions_ok (sv_nodes c) (sy_sessions s)"

lemma pres_run_planning: "parses_plans (sv_nodes c) \<Longrightarrow> pres (plans_ok c) (run_planning c sid request)"
  by (rule presI) (metis prod.collapse run_planning_sessions)

lemma pres_on_sessions: "(\<And>d. sessions_ok (sv_nodes c) d \<Longrightarrow> sessions_ok (sv_nodes c) (snd (m d))) \<Longrightarrow>
    pres (plans_ok c) (on_sessions m)"
  by (rule presI) (auto simp: on_sessions_def split: prod.splits, metis snd_conv)

lemma pres_in_world: "pres (plans_ok c) (in_world m)"
  by (rule presI) (simp add: in_world_def split: prod.splits)

lemma session_reads [simp]:
  "snd (get_request sid d) = d" "snd (get_latest_plan sid d) = d" "snd (get_latest_result sid d) = d"
  by (auto simp: get_request_def get_latest_plan_def get_latest_result_def bnd_def split: sum.splits)

lemma pres_create_session: "pres (plans_ok c) (on_sessions (create_session sid request))"
  by (rule pres_on_sessions)
    (auto simp: create_session_def session_ok_def intro!: sessions_ok_dset)

lemma pres_update_request: "pres (plans_ok c) (on_sessions (update_request sid request))"
  unfolding update_request_def by (rule pres_on_sessions, rule sessions_ok_change) auto

lemma pres_bind_prepared: "pres (plans_ok c) (on_sessions (bind_prepared_workflow sid pw))"
  unfolding bind_prepared_workflow_def by (rule pres_on_sessions, rule sessions_ok_change) auto

lemma pres_session_read: "(\<And>d. snd (m d) = d) \<Longrightarrow> pres (plans_ok c) (on_sessions m)"
  by (rule pres_on_sessions) simp

lemma pres_start_planning: "parses_plans (sv_nodes c) \<Longrightarrow> pres (plans_ok c) (start_planning c request session_id)"
  unfolding start_planning_def
  by (intro pres_bnd pres_create_session pres_run_planning)
    (auto split: option.splits list.splits intro: pres_in_world)

lemma pres_answer_planning: "parses_plans (sv_nodes c) \<Longrightarrow> pres (plans_ok c) (answer_planning c sid answers)"
  unfolding answer_planning_def
  by (intro pres_bnd pres_update_request pres_run_planning pres_session_read pres_lift_res) simp_all

lemma pres_prepare_workflow: "pres (plans_ok c) (prepare_workflow c sid)"
  unfolding prepare_workflow_def
  by (intro pres_bnd pres_session_read)
    (auto split: planning_result.splits intro!: pres_bnd pres_bind_prepared)

lemma planning_reachable_ok:
  assumes "parses_plans (sv_nodes c)"
  shows "planning_reachable c s \<Longrightarrow> plans_ok c s"
proof (induction rule: planning_reachable.induct)
  case (planning_start w)
  then show ?case by (simp add: sessions_ok_def)
next
  case (planning_started s request session_id a s')
  then show ?case using presD [OF pres_start_planning [OF assms]] by (metis snd_conv)
next
  case (planning_answered s sid answers a s')
  then show ?case using presD [OF pres_answer_planning [OF assms]] by (metis snd_conv)
next
  case (planning_prepared s sid b s')
  then show ?case using presD [OF pres_prepare_workflow] by (metis snd_conv)
next
  case (planning_elsewhere s w)
  then show ?case by simp
qed

end
