(* ===== verification/Planned_Runs.thy ===== *)
theory Planned_Runs
  imports Mapping_Plans Samples
begin

text \<open>
  From a plan to a run: a workflow prepared from a plan becomes a run of the runtime, and what
  the runtime then still knows of the plan's approvals.
\<close>

section \<open>A sample plan\<close>

text \<open>One step of low risk that the plan says needs an approval; no policy covers its tool.\<close>

definition sample_plan_step :: plan_step where
  "sample_plan_step =
     \<lparr>ps_id = ''a'', ps_tool = \<lparr>pt_name = ''t'', pt_version = ''1''\<rparr>,
      ps_arguments = [(KStr ''x'', PList [PInt 1])], ps_depends_on = [], ps_risk = RiskLow,
      ps_approval_required = True, ps_approval_reason = Some ''ask'', ps_rationale = [],
      ps_risk_reasons = [], ps_success_conditions = [], ps_compensation_tool = None,
      ps_compensation_intent = None, ps_evidence_refs = []\<rparr>"

definition sample_plan :: change_plan where
  "sample_plan =
     \<lparr>cp_plan_id = ''d'', cp_version = 1, cp_goal = ''g'', cp_assumptions = [],
      cp_steps = [sample_plan_step], cp_knowledge_snapshot_digest = [], cp_prompt_version = ''1'',
      cp_tool_policy_version = ''1''\<rparr>"

definition sample_catalog :: policy_catalog where
  "sample_catalog = \<lparr>pc_version = ''1'', pc_policies = []\<rparr>"

lemma acyclic_empty [simp]: "acyclic {}"
  by (simp add: acyclic_def)

lemma sample_tool_found:
  "descriptor_for sample_registry ''t'' ''1'' = Inr sample_descriptor"
  "reg_contains sample_registry ''t'' ''1''"
  by (simp_all add: descriptor_for_def reg_resolve_def reg_contains_def sample_registry_def)

lemma sample_plan_distinct: "distinct (map ps_id (cp_steps sample_plan))"
  by (simp add: sample_plan_def)

lemma sample_arguments_valid:
  "validate_arguments sample_registry ''t'' ''1'' (PDict [(KStr ''x'', PList [PInt 1])]) = Inr ()"
  by (simp add: validate_arguments_def coerce_arguments_def sample_tool_found reject_unexpected_fields_def
      unexpected_fields_def sample_descriptor_def sample_model_def validate_model_def)

lemma one_step_acceptable:
  assumes "cp_steps q = [sample_plan_step]" and "cp_tool_policy_version q = ''1''"
  shows "plan_acceptable sample_registry sample_catalog q evidence"
proof -
  have "acyclic (plan_graph q)" using assms(1) by (simp add: plan_graph_Union sample_plan_step_def)
  then show ?thesis
    unfolding plan_acceptable_def using assms
    by (intro conjI) (simp_all add: sample_plan_step_def step_acceptable_def
        sample_tool_found sample_arguments_valid policy_for_def sample_catalog_def)
qed

lemma sample_plan_acceptable: "plan_acceptable sample_registry sample_catalog sample_plan []"
  by (rule one_step_acceptable) (simp_all add: sample_plan_def)

lemma sample_plan_normal: "normalized_step sample_registry sample_catalog sample_plan_step = sample_plan_step"
  by (simp add: normalized_step_def normalize_step_def sample_plan_step_def sample_tool_found Let_def
      policy_for_def sample_catalog_def final_risk_def max_risk_def sample_descriptor_def
      approval_reason_def risk_reasons_def unique_def)

definition sample_planned_step :: step_definition where
  "sample_planned_step = sample_step ''a'' []"

lemma sample_plan_parse:
  "parse_step (catalog_of sample_registry) (raw_step_of_plan sample_plan_step) = Inr sample_planned_step"
  by (simp add: parse_step_def parse_step_id_def parse_step_body_def raw_step_of_plan_def
      sample_plan_step_def require_mapping_def pget_def pget_or_def require_string_def
      parse_tool_reference_def plan_tool_value_def texts_value_def is_blank_def py_space_def code_def
      ensure_registered_def sample_tool_found coerce_step_arguments_def coerce_arguments_def
      sample_descriptor_def reject_unexpected_fields_def unexpected_fields_def sample_model_def
      validate_model_def require_string_sequence_def prepared_retry_def parse_retry_policy_def
      require_positive_int_def require_number_def make_retry_policy_def
      parse_optional_tool_reference_def sample_planned_step_def sample_step_def default_retry_def
      map_error_def)

lemma one_step_definition:
  assumes "cp_steps q = [sample_plan_step]" and "\<not> is_blank (cp_plan_id q)" and "0 < cp_version q"
  obtains w where "from_mapping (payload_of_plan q) sample_registry = Inr w"
    and "wd_steps w = [sample_planned_step]"
proof -
  let ?i = "cp_plan_id q" and ?v = "cp_version q"
  have "\<exists>t. json_dumps True (step_to_canonical sample_planned_step) = Inr t"
    by (simp add: step_to_canonical_def sample_planned_step_def sample_step_def reference_value_def
        default_retry_def del: float_text.simps)
  then have "\<exists>d. calculate_digest ?i ?v [sample_planned_step] = Inr d"
    by (auto simp: calculate_digest_def json_digest_def)
  then obtain d where d: "calculate_digest ?i ?v [sample_planned_step] = Inr d" ..
  let ?w = "\<lparr>wd_definition_id = ?i, wd_version = ?v, wd_steps = [sample_planned_step], wd_digest = d\<rparr>"
  have i: "sd_id sample_planned_step = ''a''" "sd_depends_on sample_planned_step = []"
    by (simp_all add: sample_planned_step_def sample_step_def)
  have "check_graph [sample_planned_step] = Inr ()"
    by (subst check_graph_Inr) (simp_all add: i edge_count_def MAX_EDGES_def step_graph_Union)
  moreover obtain m where "as_mapping (payload_of_plan q) = Some m"
    and "pget m ''steps'' = PList [raw_step_of_plan sample_plan_step]"
    and "pget m ''definition_id'' = PStr ?i" and "pget m ''version'' = PInt ?v"
    using assms(1) by (simp add: payload_of_plan_def pget_def)
  moreover have "smap (parse_step (catalog_of sample_registry)) [raw_step_of_plan sample_plan_step] = Inr [sample_planned_step]"
    by (simp add: sample_plan_parse)
  moreover have "length [raw_step_of_plan sample_plan_step] \<le> MAX_STEPS" by (simp add: MAX_STEPS_def)
  moreover have "distinct (map sd_id [sample_planned_step])" and "[sample_planned_step] = sort_key sd_id [sample_planned_step]"
    by simp_all
  ultimately have "from_mapping (payload_of_plan q) sample_registry = Inr ?w"
    unfolding from_mapping_Inr workflow_definition.select_convs using d assms(2,3) by blast
  then show ?thesis by (rule that) simp_all
qed

lemma sample_plan_prepared:
  obtains pw w where "prepare sample_registry sample_catalog sample_plan [] = Inr pw"
    and "from_mapping (pw_payload pw) sample_registry = Inr w" and "wd_steps w = [sample_planned_step]"
proof -
  obtain w where w: "from_mapping (payload_of_plan sample_plan) sample_registry = Inr w"
    and s: "wd_steps w = [sample_planned_step]"
    by (rule one_step_definition [of sample_plan]) (simp_all add: sample_plan_def is_blank_def py_space_def code_def)
  have "validate_plan sample_registry sample_catalog sample_plan []
      = Inr \<lparr>vr_valid = True, vr_normalized_plan = Some sample_plan, vr_errors = []\<rparr>"
    using validate_plan_result [OF sample_plan_distinct, of sample_registry sample_catalog "[]"]
      sample_plan_acceptable sample_plan_normal by (simp add: sample_plan_def)
  then obtain pw where "prepare sample_registry sample_catalog sample_plan [] = Inr pw"
    and "pw_payload pw = payload_of_plan sample_plan"
    using w by (simp add: prepare_def map_error_def)
  then show ?thesis using that w s by simp
qed

section \<open>A plan under a policy\<close>

text \<open>The same step under a policy that demands high risk, compensation and trusted evidence.\<close>

definition sample_evidence :: retrieved_evidence where
  "sample_evidence =
     \<lparr>re_reference = \<lparr>eb_document_id = ''doc'', eb_document_version = ''1'', eb_chunk_id = ''k'',
                      eb_location = ''0-1'', eb_content_digest = ''c''\<rparr>,
      re_text = ''x'', re_trust_level = Authoritative, re_lexical_rank = Some 1,
      re_vector_rank = None, re_hybrid_score = 1, re_conflict = False\<rparr>"

definition guarded_catalog :: policy_catalog where
  "guarded_catalog =
     \<lparr>pc_version = ''1'',
      pc_policies = [((''t'', ''1''),
        \<lparr>tp_tool = \<lparr>pt_name = ''t'', pt_version = ''1''\<rparr>, tp_minimum_risk = RiskHigh,
         tp_side_effecting = True, tp_compensation_required = True, tp_minimum_trust = Internal\<rparr>)]\<rparr>"

definition guarded_plan :: change_plan where
  "guarded_plan = sample_plan\<lparr>cp_steps := [sample_plan_step
     \<lparr>ps_approval_required := False, ps_approval_reason := None,
      ps_compensation_tool := Some \<lparr>pt_name = ''t'', pt_version = ''1''\<rparr>,
      ps_compensation_intent := Some ''undo'', ps_evidence_refs := [re_reference sample_evidence]\<rparr>]\<rparr>"

lemma guarded_plan_distinct: "distinct (map ps_id (cp_steps guarded_plan))"
  by (simp add: guarded_plan_def)

lemma guarded_plan_acceptable: "plan_acceptable sample_registry guarded_catalog guarded_plan [sample_evidence]"
proof -
  have "acyclic (plan_graph guarded_plan)"
    by (simp add: plan_graph_Union guarded_plan_def sample_plan_step_def)
  then show ?thesis
    unfolding plan_acceptable_def
    by (intro conjI) (simp_all add: guarded_plan_def sample_plan_def sample_plan_step_def
        step_acceptable_def sample_tool_found sample_arguments_valid policy_for_def guarded_catalog_def
        policy_ok_def compensation_ok_def cited_def evidence_by_chunk_def index_by_def sample_evidence_def)
qed

lemma guarded_plan_risk:
  "map ps_risk (map (normalized_step sample_registry guarded_catalog) (cp_steps guarded_plan)) = [RiskHigh]"
  by (simp add: guarded_plan_def sample_plan_step_def normalized_step_def normalize_step_def Let_def
      sample_tool_found policy_for_def guarded_catalog_def final_risk_def max_risk_def
      sample_descriptor_def)

section \<open>The verdict on a plan\<close>

text \<open>
  C23: the verdict on a plan with unique step ids is exactly this. A plan is valid if and only if
  its dependencies are steps of it and form no cycle, every tool is registered and accepts the
  arguments, every cited evidence is given unchanged, where a policy covers the tool none of it is
  conflicted, what the policy demands of compensation and of trusted evidence is there, and the
  policy version is current. Then the report holds the plan with each step normalized; otherwise
  it holds issues and no plan. No exception escapes.
\<close>

theorem validate_plan_correct:
  assumes "distinct (map ps_id (cp_steps p))"
  shows "if plan_acceptable reg catalog p evidence
     then validate_plan reg catalog p evidence
       = Inr \<lparr>vr_valid = True,
              vr_normalized_plan = Some (p\<lparr>cp_steps := map (normalized_step reg catalog) (cp_steps p)\<rparr>),
              vr_errors = []\<rparr>
     else \<exists>es. es \<noteq> [] \<and> validate_plan reg catalog p evidence
       = Inr \<lparr>vr_valid = False, vr_normalized_plan = None, vr_errors = es\<rparr>"
  by (rule validate_plan_result [OF assms])

theorem validate_plan_correct_witness:
  "\<exists>q. validate_plan sample_registry guarded_catalog guarded_plan [sample_evidence]
      = Inr \<lparr>vr_valid = True, vr_normalized_plan = Some q, vr_errors = []\<rparr>
   \<and> map ps_risk (cp_steps q) = [RiskHigh]"
  using validate_plan_correct [OF guarded_plan_distinct, of sample_registry guarded_catalog "[sample_evidence]"]
    guarded_plan_acceptable guarded_plan_risk by (simp add: guarded_plan_def)

text \<open>
  C24: normalization guards and is stable. In the plan of a report every step is at least as risky
  as it was proposed, as its tool's descriptor and as its policy say, every high-risk step requires
  an approval, every required approval has a reason, and validating the normalized plan again gives
  it back unchanged.
\<close>

theorem normalized_plan_guarded:
  assumes "distinct (map ps_id (cp_steps p))"
    and "validate_plan reg catalog p evidence = Inr report" and "vr_normalized_plan report = Some q"
  shows "list_all2 (\<lambda>s s'. \<exists>d. descriptor_for reg (pt_name (ps_tool s)) (pt_version (ps_tool s)) = Inr d
       \<and> ps_id s' = ps_id s \<and> ps_tool s' = ps_tool s \<and> risk_order (ps_risk s) \<le> risk_order (ps_risk s')
       \<and> step_guarded d (policy_for catalog (pt_name (ps_tool s)) (pt_version (ps_tool s))) s')
     (cp_steps p) (cp_steps q)
   \<and> validate_plan reg catalog q evidence
       = Inr \<lparr>vr_valid = True, vr_normalized_plan = Some q, vr_errors = []\<rparr>"
  by (rule normalized_plan_stable [OF assms])

theorem normalized_plan_guarded_witness:
  "\<exists>q. validate_plan sample_registry guarded_catalog guarded_plan [sample_evidence]
      = Inr \<lparr>vr_valid = True, vr_normalized_plan = Some q, vr_errors = []\<rparr>
   \<and> list_all (\<lambda>s. ps_approval_required s \<and> ps_approval_reason s \<noteq> None) (cp_steps q)"
proof -
  obtain q where v: "validate_plan sample_registry guarded_catalog guarded_plan [sample_evidence]
      = Inr \<lparr>vr_valid = True, vr_normalized_plan = Some q, vr_errors = []\<rparr>"
    and q: "q = guarded_plan\<lparr>cp_steps := map (normalized_step sample_registry guarded_catalog) (cp_steps guarded_plan)\<rparr>"
    using validate_plan_result [OF guarded_plan_distinct, of sample_registry guarded_catalog "[sample_evidence]"]
      guarded_plan_acceptable by simp
  have risks: "\<forall>s \<in> set (cp_steps q). ps_risk s = RiskHigh" using q guarded_plan_risk by (simp add: guarded_plan_def)
  have "\<exists>s \<in> set (cp_steps guarded_plan). \<exists>d. step_guarded d
      (policy_for guarded_catalog (pt_name (ps_tool s)) (pt_version (ps_tool s))) s'"
    if s: "s' \<in> set (cp_steps q)" for s'
  proof -
    obtain i where i: "i < length (cp_steps q)" "s' = cp_steps q ! i" using s by (auto simp: in_set_conv_nth)
    with normalized_plan_guarded [OF guarded_plan_distinct v, of q] show ?thesis
      by (auto simp: list_all2_conv_all_nth intro!: bexI [of _ "cp_steps guarded_plan ! i"])
  qed
  then show ?thesis using v risks by (fastforce simp: step_guarded_def list_all_iff)
qed

section \<open>A prepared workflow becomes a run\<close>

text \<open>
  C25: a prepared workflow is what the runtime will run. If a plan could be prepared, then
  \<open>create_run\<close> on the prepared payload succeeds with a fresh identifier, the run is read back with
  exactly the definition id, version and digest that the preparation promised, and its steps carry
  out the steps of the plan one by one: the same tool, what the tool's input model makes of all the
  arguments of the plan step, the same dependencies, the risk after normalization, the same
  compensation.
\<close>

theorem prepared_plan_becomes_run:
  fixes s :: "'z sys_scheme"
  assumes "distinct (map ps_id (cp_steps p))" and "prepare reg catalog p evidence = Inr pw"
    and "sys_ok s" and "r = en_identifier env (sy_ticks s)" and "r \<noteq> []"
    and "dget (ms_definitions (sy_store s)) (pw_definition_id pw, pw_definition_version pw) = None"
    and "dget (ms_runs (sy_store s)) r = None" and "\<And>i. dget (ms_steps (sy_store s)) (r, i) = None"
    and "\<And>k. dget (ms_approvals (sy_store s)) (r, k) = None"
  shows "\<exists>s' dto w ss. create_run env reg (pw_payload pw) s = (Inr r, s')
     \<and> fst (get_run (Some r) s') = Inr dto
     \<and> rd_definition_id dto = pw_definition_id pw \<and> rd_definition_version dto = pw_definition_version pw
     \<and> rd_definition_digest dto = pw_definition_digest pw \<and> rd_state dto = ''pending''
     \<and> from_mapping (pw_payload pw) reg = Inr w \<and> wd_steps w = sort_key sd_id ss
     \<and> list_all2 (carries_out reg) ss (map (normalized_step reg catalog) (cp_steps p))"
proof -
  from assms(1,2) obtain q w where q: "q = p\<lparr>cp_steps := map (normalized_step reg catalog) (cp_steps p)\<rparr>"
    and pl: "pw_payload pw = payload_of_plan q" and w: "from_mapping (pw_payload pw) reg = Inr w"
    and ids: "pw_definition_id pw = wd_definition_id w" "pw_definition_version pw = wd_version w"
      "pw_definition_digest pw = wd_digest w" by (rule prepare_Inr)
  have "dget (ms_definitions (sy_store s)) (definition_key_of w) \<in> {None, Some w}"
    using assms(6) by (simp add: ids definition_key_of_def)
  from create_then_get [OF assms(3) w assms(4,5) this assms(7-9)] obtain s' where
    "create_run env reg (pw_payload pw) s = (Inr r, s')"
    and "fst (get_run (Some r) s') = Inr (fresh_dto r w (map sd_id (wd_steps w)))" by blast
  moreover obtain ss where "list_all2 (carries_out reg) ss (cp_steps q)" and "wd_steps w = sort_key sd_id ss"
    using prepared_steps [OF w [unfolded pl]] by blast
  ultimately show ?thesis using w q ids by (fastforce simp: fresh_dto_def)
qed

theorem prepared_plan_becomes_run_witness:
  "\<exists>pw s' dto. prepare sample_registry sample_catalog sample_plan [] = Inr pw
     \<and> create_run sample_env sample_registry (pw_payload pw) (dr_coordinator initial_driver) = (Inr ''r'', s')
     \<and> fst (get_run (Some ''r'') s') = Inr dto \<and> rd_definition_digest dto = pw_definition_digest pw"
proof -
  obtain pw w where pw: "prepare sample_registry sample_catalog sample_plan [] = Inr pw"
    by (rule sample_plan_prepared)
  have r: "''r'' = en_identifier sample_env (sy_ticks (dr_coordinator initial_driver))"
    by (simp add: sample_env_def)
  from prepared_plan_becomes_run [OF sample_plan_distinct pw initial_sys_ok r] show ?thesis
    using pw by (fastforce simp: initial_driver_def empty_store_def)
qed

section \<open>The approvals of a prepared plan\<close>

lemma requires_approval_carried:
  assumes "carries_out reg sd s"
    and "descriptor_for reg (pt_name (ps_tool s)) (pt_version (ps_tool s)) = Inr d"
    and "risk_order (td_risk d) \<le> risk_order (ps_risk s)"
  shows "requires_approval reg sd = Inr (ps_risk s = RiskHigh)"
proof -
  have "step_risk_high sd \<longleftrightarrow> ps_risk s = RiskHigh"
    using assms(1) by (cases "ps_risk s")
      (simp_all add: carries_out_def step_risk_high_def casefold_def casefold_char_def code_def)
  moreover have "td_risk d = RiskHigh \<Longrightarrow> ps_risk s = RiskHigh"
    using assms(3) by (cases "ps_risk s") simp_all
  ultimately show ?thesis
    using assms(1,2) by (auto simp: requires_approval_def carries_out_def reference_of_def)
qed

text \<open>
  C26: the approval a prepared step needs at run time is decided by its normalized risk alone. For
  every plan that could be prepared and every step of it, the coordinator requires an approval for
  the step of the prepared definition exactly when the normalized plan step has high risk. So every
  high-risk step of a plan is gated, and the plan says so too; but an approval that the plan demands
  of a step of lower risk is not asked for, because the payload does not carry it.
\<close>

theorem approval_follows_risk:
  assumes "distinct (map ps_id (cp_steps p))" and "prepare reg catalog p evidence = Inr pw"
  shows "\<exists>w ss. from_mapping (pw_payload pw) reg = Inr w \<and> wd_steps w = sort_key sd_id ss
     \<and> list_all2 (\<lambda>sd s. sd_id sd = ps_id s
          \<and> requires_approval reg sd = Inr (ps_risk s = RiskHigh)
          \<and> (ps_risk s = RiskHigh \<longrightarrow> ps_approval_required s))
        ss (map (normalized_step reg catalog) (cp_steps p))"
proof -
  from assms obtain q w where ok: "plan_acceptable reg catalog p evidence"
    and q: "q = p\<lparr>cp_steps := map (normalized_step reg catalog) (cp_steps p)\<rparr>"
    and pl: "pw_payload pw = payload_of_plan q" and w: "from_mapping (pw_payload pw) reg = Inr w"
    by (rule prepare_Inr)
  obtain ss where ss: "list_all2 (carries_out reg) ss (cp_steps q)" and sorted: "wd_steps w = sort_key sd_id ss"
    using prepared_steps [OF w [unfolded pl]] by blast
  have "sd_id sd = ps_id s \<and> requires_approval reg sd = Inr (ps_risk s = RiskHigh)
      \<and> (ps_risk s = RiskHigh \<longrightarrow> ps_approval_required s)"
    if "carries_out reg sd s" and "s \<in> set (cp_steps q)" for sd s
  proof -
    from that(2) q obtain t where t: "t \<in> set (cp_steps p)" "s = normalized_step reg catalog t" by auto
    obtain d where d: "descriptor_for reg (pt_name (ps_tool t)) (pt_version (ps_tool t)) = Inr d"
      and s: "s = normalize_step d (policy_for catalog (pt_name (ps_tool t)) (pt_version (ps_tool t))) t"
      using ok t descriptor_for_iff [of reg "pt_name (ps_tool t)" "pt_version (ps_tool t)"]
      by (auto simp: plan_acceptable_def step_acceptable_def Let_def normalized_step_def)
    have g: "step_guarded d (policy_for catalog (pt_name (ps_tool t)) (pt_version (ps_tool t))) s"
      unfolding s by (rule normalize_step_guarded)
    have "ps_tool s = ps_tool t" using t(2) by simp
    with that(1) d g requires_approval_carried [OF that(1), of d] show ?thesis
      by (simp add: step_guarded_def carries_out_def)
  qed
  then have "list_all2 (\<lambda>sd s. sd_id sd = ps_id s \<and> requires_approval reg sd = Inr (ps_risk s = RiskHigh)
      \<and> (ps_risk s = RiskHigh \<longrightarrow> ps_approval_required s)) ss (cp_steps q)"
    using ss by (auto simp: list_all2_conv_all_nth)
  then show ?thesis using w sorted q by auto
qed

text \<open>The step of \<open>sample_plan\<close> requires an approval by the plan, and needs none at run time.\<close>

theorem planned_approval_is_lost:
  "\<exists>pw w. prepare sample_registry sample_catalog sample_plan [] = Inr pw
     \<and> from_mapping (pw_payload pw) sample_registry = Inr w
     \<and> ps_approval_required (normalized_step sample_registry sample_catalog sample_plan_step)
     \<and> map sd_id (wd_steps w) = [ps_id sample_plan_step]
     \<and> list_all (\<lambda>sd. requires_approval sample_registry sd = Inr False) (wd_steps w)"
proof -
  obtain pw where pw: "prepare sample_registry sample_catalog sample_plan [] = Inr pw"
    by (rule sample_plan_prepared)
  have n: "map (normalized_step sample_registry sample_catalog) (cp_steps sample_plan) = [sample_plan_step]"
    and r: "ps_risk sample_plan_step = RiskLow" and a: "ps_approval_required sample_plan_step"
    using sample_plan_normal by (simp_all add: sample_plan_def sample_plan_step_def)
  from approval_follows_risk [OF sample_plan_distinct pw, unfolded n] obtain w sd where
    "from_mapping (pw_payload pw) sample_registry = Inr w" and "wd_steps w = [sd]"
    and "sd_id sd = ps_id sample_plan_step" and "requires_approval sample_registry sd = Inr False"
    by (auto simp: list_all2_Cons2 r)
  then show ?thesis using pw a sample_plan_normal by auto
qed

end
