(* ===== verification/Planned_Sessions.thy ===== *)
theory Planned_Sessions
  imports Planning_Service Planned_Runs
begin

text \<open>
  From a planning session to a workflow: a plan that a session calls ready can be prepared, as long
  as the knowledge it was made from has not changed.
\<close>

lemma prepare_self_valid:
  assumes "self_valid n p evidence"
  shows "prepare (pn_tools n) (pn_policies n) p evidence
    = sbind (map_error Raised (from_mapping (payload_of_plan p) (pn_tools n))) (\<lambda>w.
         Inr \<lparr>pw_plan_id = cp_plan_id p, pw_plan_version = cp_version p,
              pw_knowledge_snapshot_digest = cp_knowledge_snapshot_digest p,
              pw_definition_id = wd_definition_id w, pw_definition_version = wd_version w,
              pw_definition_digest = wd_digest w, pw_payload = payload_of_plan p\<rparr>)"
  using assms by (simp add: self_valid_def prepare_def map_error_def)

lemma latest_ready:
  assumes "session_ok n sid se" and "se_attempts se \<noteq> []" and "last (se_attempts se) = PlanReady sid' p evidence"
  shows "sid' = sid \<and> se_plans se \<noteq> [] \<and> last (se_plans se) = p \<and> cp_plan_id p = sid @ ''-plan''
    \<and> cp_version p = int (length (se_plans se)) \<and> self_valid n p evidence"
proof -
  have split: "se_attempts se = butlast (se_attempts se) @ [PlanReady sid' p evidence]"
    using assms(2,3) append_butlast_last_id by metis
  have plans: "se_plans se = concat (map ready_of (butlast (se_attempts se))) @ [p]"
    using assms(1) by (subst (asm) session_ok_def) (subst (asm) split, simp)
  have ok: "attempt_ok n sid (PlanReady sid' p evidence)"
    using assms(1) last_in_set [OF assms(2)] unfolding assms(3) by (auto simp: session_ok_def list_all_iff)
  have v: "map cp_version (se_plans se) = map (\<lambda>i. int i + 1) [0..<length (se_plans se)]"
    using assms(1) unfolding session_ok_def by blast
  have ne: "se_plans se \<noteq> []" "last (se_plans se) = p" using plans by simp_all
  then have "cp_version p = last (map cp_version (se_plans se))" by (simp add: last_map)
  also have "\<dots> = int (length (se_plans se))" unfolding v using ne(1) by (cases "se_plans se" rule: rev_cases) (simp_all add: last_map)
  finally show ?thesis using ok ne by simp
qed

lemma prepare_workflow_ready:
  assumes "dget (sy_sessions s) sid = Some se" and "se_plans se \<noteq> []" and "last (se_plans se) = p"
    and "se_attempts se \<noteq> []" and "last (se_attempts se) = PlanReady sid p evidence"
    and "sv_snapshot c (sy_world s) = Inr snap"
  shows "prepare_workflow c sid s =
     (if cp_knowledge_snapshot_digest p \<noteq> ks_digest snap
      then (Inl (PlanValidationError ''knowledge changed after planning; create a new plan version''), s)
      else case prepare (sv_mapper_tools c) (sv_mapper_policies c) p evidence of
             Inl e \<Rightarrow> (Inl e, s)
           | Inr pw \<Rightarrow> (Inr pw, s\<lparr>sy_sessions := dset sid (se\<lparr>se_prepared := Some pw\<rparr>) (sy_sessions s)\<rparr>))"
  using assms
  by (simp add: prepare_workflow_def bnd_def on_sessions_def get_latest_plan_def get_latest_result_def
      get_session_def bind_prepared_workflow_def change_session_cases split: sum.splits)

section \<open>The property\<close>

text \<open>
  C35: In every reachable state of the planning service, a session whose latest attempt ended with a
  ready plan has exactly this plan as its latest one, with the versions of its plans running from 1.
  Preparing it is refused when the knowledge has changed since. Otherwise it fails only with the very
  error with which \<open>from_mapping\<close> refuses the payload of the plan, and then changes nothing; where
  \<open>from_mapping\<close> accepts it, the session remembers the prepared workflow, whose id and version are
  those of the plan, and \<open>create_run\<close> on its payload makes, in any well-formed runtime where the new
  identifiers are free, a pending run that is read back with this id, this version and the digest.
\<close>

theorem ready_plan_prepares:
  fixes t :: "'z sys_scheme"
  assumes "parses_plans (sv_nodes c)" and "sv_mapper_tools c = pn_tools (sv_nodes c)"
    and "sv_mapper_policies c = pn_policies (sv_nodes c)" and "planning_reachable c s"
    and "dget (sy_sessions s) sid = Some se" and "se_attempts se \<noteq> []"
    and "last (se_attempts se) = PlanReady sid' p evidence" and "sv_snapshot c (sy_world s) = Inr snap"
    and "sys_ok t" and "r = en_identifier env (sy_ticks t)" and "r \<noteq> []"
    and "dget (ms_definitions (sy_store t)) (sid @ ''-plan'', int (length (se_plans se))) = None"
    and "dget (ms_runs (sy_store t)) r = None" and "\<And>i. dget (ms_steps (sy_store t)) (r, i) = None"
    and "\<And>k. dget (ms_approvals (sy_store t)) (r, k) = None"
  shows "map cp_version (se_plans se) = map (\<lambda>i. int i + 1) [0..<length (se_plans se)] \<and> last (se_plans se) = p
    \<and> (if cp_knowledge_snapshot_digest p \<noteq> ks_digest snap
       then prepare_workflow c sid s
         = (Inl (PlanValidationError ''knowledge changed after planning; create a new plan version''), s)
       else case from_mapping (payload_of_plan p) (pn_tools (sv_nodes c)) of
           Inl e \<Rightarrow> prepare_workflow c sid s = (Inl (Raised e), s)
         | Inr w \<Rightarrow> (\<exists>pw s' t' dto. prepare_workflow c sid s = (Inr pw, s') \<and> pw_plan_id pw = sid @ ''-plan''
             \<and> pw_plan_version pw = int (length (se_plans se)) \<and> pw_payload pw = payload_of_plan p
             \<and> pw_definition_digest pw = wd_digest w
             \<and> dget (sy_sessions s') sid = Some (se\<lparr>se_prepared := Some pw\<rparr>)
             \<and> create_run env (pn_tools (sv_nodes c)) (pw_payload pw) t = (Inr r, t')
             \<and> fst (get_run (Some r) t') = Inr dto \<and> rd_state dto = ''pending''
             \<and> rd_definition_id dto = pw_plan_id pw \<and> rd_definition_version dto = pw_plan_version pw
             \<and> rd_definition_digest dto = pw_definition_digest pw))"
proof -
  have se: "session_ok (sv_nodes c) sid se"
    using planning_reachable_ok [OF assms(1,4)] assms(5) by (simp add: sessions_ok_def)
  note l = latest_ready [OF se assms(6,7)]
  have v: "map cp_version (se_plans se) = map (\<lambda>i. int i + 1) [0..<length (se_plans se)]"
    using se unfolding session_ok_def by blast
  have last: "last (se_attempts se) = PlanReady sid p evidence" using assms(7) l by simp
  have run: "prepare_workflow c sid s =
     (if cp_knowledge_snapshot_digest p \<noteq> ks_digest snap
      then (Inl (PlanValidationError ''knowledge changed after planning; create a new plan version''), s)
      else case prepare (pn_tools (sv_nodes c)) (pn_policies (sv_nodes c)) p evidence of
             Inl e \<Rightarrow> (Inl e, s)
           | Inr pw \<Rightarrow> (Inr pw, s\<lparr>sy_sessions := dset sid (se\<lparr>se_prepared := Some pw\<rparr>) (sy_sessions s)\<rparr>))"
    using prepare_workflow_ready [OF assms(5) _ _ assms(6) last assms(8)] l assms(2,3) by simp
  have "self_valid (sv_nodes c) p evidence" using l by simp
  note made = prepare_self_valid [OF this]
  show ?thesis
  proof (cases "from_mapping (payload_of_plan p) (pn_tools (sv_nodes c))")
    case (Inl e)
    then show ?thesis using v l run made by (simp add: map_error_def)
  next
    case (Inr w)
    have w: "wd_definition_id w = sid @ ''-plan''" "wd_version w = int (length (se_plans se))"
      using prepared_steps [OF Inr] l by auto
    have "dget (ms_definitions (sy_store t)) (definition_key_of w) \<in> {None, Some w}"
      using assms(12) by (simp add: w definition_key_of_def)
    from create_then_get [OF assms(9) Inr assms(10,11) this assms(13-15)] obtain t' where
      "create_run env (pn_tools (sv_nodes c)) (payload_of_plan p) t = (Inr r, t')"
      and "fst (get_run (Some r) t') = Inr (fresh_dto r w (map sd_id (wd_steps w)))" by blast
    then show ?thesis using v l run made Inr w by (simp add: map_error_def fresh_dto_def)
  qed
qed

definition planning_nodes_sample :: "nat planning_nodes" where
  "planning_nodes_sample =
     sample_nodes\<lparr>pn_model := \<lambda>q w. (Inr \<lparr>mr_payload = [],
                        mr_usage = \<lparr>mu_input_tokens = 1, mu_output_tokens = 1, mu_total_tokens = 2\<rparr>, mr_model = ''m'',
                        mr_latency_ms = 0, mr_finish_reason = ''stop'', mr_cache_hit = False\<rparr>, w + 1),
                  pn_tools := sample_registry, pn_policies := sample_catalog,
                  pn_parse_plan := \<lambda>d. Inr sample_plan\<rparr>"

definition planning_service_sample :: "nat planning_service" where
  "planning_service_sample =
     \<lparr>sv_nodes = planning_nodes_sample, sv_mapper_tools = sample_registry, sv_mapper_policies = sample_catalog,
      sv_snapshot = \<lambda>w. Inr (rt_snapshot sample_retriever), sv_identifier = \<lambda>w. (''s'', w)\<rparr>"

definition planned_sample :: change_plan where
  "planned_sample = sample_plan\<lparr>cp_plan_id := ''s-plan''\<rparr>"

lemma planned_sample_valid:
  "validate_plan sample_registry sample_catalog planned_sample evidence
     = Inr \<lparr>vr_valid = True, vr_normalized_plan = Some planned_sample, vr_errors = []\<rparr>"
proof -
  have "distinct (map ps_id (cp_steps planned_sample))" by (simp add: planned_sample_def sample_plan_def)
  moreover have "plan_acceptable sample_registry sample_catalog planned_sample evidence"
    by (rule one_step_acceptable) (simp_all add: planned_sample_def sample_plan_def)
  ultimately show ?thesis
    using validate_plan_result [of planned_sample sample_registry sample_catalog evidence] sample_plan_normal
    by (simp add: planned_sample_def sample_plan_def)
qed

lemma empty_retrieval:
  "retrieve empty_retriever q 8 =
      Inr \<lparr>rr_query = q, rr_evidence = [], rr_conflicts = [], rr_snapshot = rt_snapshot sample_retriever,
           rr_insufficient_evidence = True\<rparr>"
  by (simp add: empty_retriever_def sample_retriever_def retrieve_def reciprocal_rank_fusion_def Let_def
      index_by_def find_conflicts_def by_policy_def slice_to_def)

lemma sample_planner:
  assumes "pl_request s = normal_request sample_change" and "pl_retrieval s = Some r" and "rr_evidence r = []"
  shows "call_planner planning_nodes_sample False s w = (Inr (response_update s [] False), w + 1)"
proof -
  have "\<exists>content. json_text (user_payload planning_nodes_sample s r False) = Inr content"
    using assms(1,3) by (simp add: user_payload_def request_json_def sample_change_def normal_request_def text_value_def
        texts_value_def planning_nodes_sample_def sample_nodes_def json_key.simps)
  then obtain q where "build_model_request planning_nodes_sample s False = Inr q"
    using assms(2) by (auto simp: build_model_request_def state_retrieval_def map_error_def)
  then show ?thesis by (simp add: call_planner_def bnd_def) (simp add: planning_nodes_sample_def)
qed

lemma sample_validated:
  assumes "pl_session_id s = ''s''" and "pl_plan_version s = 1" and "pl_raw_payload s = Some []"
    and "pl_retrieval s = Some r" and "rr_evidence r = []" and "rr_snapshot r = rt_snapshot sample_retriever"
  shows "validate_payload planning_nodes_sample s
    = Inr (s\<lparr>pl_plan := Some planned_sample, pl_result := Some (PlanReady ''s'' planned_sample [])\<rparr>)"
proof -
  have "identified_plan planning_nodes_sample s r sample_plan = planned_sample"
    using assms by (simp add: identified_plan_def planned_sample_def planning_nodes_sample_def sample_nodes_def
        sample_plan_def plan_id_of_def sample_retriever_def)
  moreover have "pn_tools planning_nodes_sample = sample_registry" "pn_policies planning_nodes_sample = sample_catalog"
    "pn_parse_plan planning_nodes_sample d = Inr sample_plan" for d
    by (simp_all add: planning_nodes_sample_def)
  ultimately show ?thesis using assms
    by (simp add: validate_payload_def map_error_def state_retrieval_def planned_sample_valid)
qed

lemma sample_ready:
  "\<exists>out. invoke_graph planning_nodes_sample ''s'' sample_change 1 0 = (Inr out, 1)
     \<and> pl_result out = Some (PlanReady ''s'' planned_sample [])"
proof -
  have r: "pn_retriever planning_nodes_sample w = empty_retriever" for w
    by (simp add: planning_nodes_sample_def sample_nodes_def)
  show ?thesis
    by (simp add: invoke_graph_def run_from.simps new_planning_state_def normalize_request_def sample_change_def
        check_required_context_def required_fields_def unless_result_def retrieve_knowledge_def bnd_def
        empty_retrieval r sample_planner normal_request_def response_update_def sample_validated Let_def)
qed

theorem ready_plan_prepares_witness:
  "\<exists>s pw s' t'. planning_reachable planning_service_sample s
     \<and> prepare_workflow planning_service_sample ''s'' s = (Inr pw, s') \<and> pw_plan_id pw = ''s-plan''
     \<and> create_run sample_env sample_registry (pw_payload pw) (dr_coordinator initial_driver) = (Inr ''r'', t')"
proof -
  let ?c = planning_service_sample and ?s = "\<lparr>sy_sessions = [], sy_world = 0 :: nat\<rparr>"
  let ?se = "\<lparr>se_request = sample_change, se_attempts = [], se_plans = [], se_prepared = None\<rparr>"
  have n: "sv_nodes ?c = planning_nodes_sample" by (simp add: planning_service_sample_def)
  have parses: "parses_plans (sv_nodes ?c)"
    by (simp add: n parses_plans_def planning_nodes_sample_def sample_plan_def)
  obtain out where i: "invoke_graph planning_nodes_sample ''s'' sample_change 1 0 = (Inr out, 1)"
    and r: "pl_result out = Some (PlanReady ''s'' planned_sample [])" using sample_ready by blast
  define s1 where "s1 = \<lparr>sy_sessions = [(''s'', ?se)], sy_world = 0 :: nat\<rparr>"
  have se: "dget (sy_sessions s1) ''s'' = Some ?se" "session_ok (sv_nodes ?c) ''s'' ?se"
    by (simp_all add: s1_def session_ok_def)
  have i': "invoke_graph (sv_nodes ?c) ''s'' sample_change (int (length (se_plans ?se)) + 1) (sy_world s1) = (Inr out, 1)"
    using i by (simp add: n s1_def)
  from graph_finished [OF parses i'] r have "result_ok (sv_nodes ?c) (sy_world s1) ''s'' sample_change
      (int (length (se_plans ?se)) + 1) (PlanReady ''s'' planned_sample [])" by auto
  from run_planning_stored [OF se i' r this parses] obtain se' where
    run: "run_planning ?c ''s'' sample_change s1 = (Inr (PlanReady ''s'' planned_sample []),
        s1\<lparr>sy_world := 1, sy_sessions := dset ''s'' se' (sy_sessions s1)\<rparr>)"
    and se': "se_attempts se' = [PlanReady ''s'' planned_sample []]" by auto
  define s2 where "s2 = s1\<lparr>sy_world := 1, sy_sessions := dset ''s'' se' (sy_sessions s1)\<rparr>"
  have "start_planning ?c sample_change (Some ''s'') ?s = (Inr (PlanReady ''s'' planned_sample []), s2)"
    using run by (simp add: start_planning_def bnd_def on_sessions_def create_session_def s1_def s2_def)
  then have reach: "planning_reachable ?c s2" by (rule planning_started [OF planning_start])
  have h: "sv_mapper_tools ?c = pn_tools (sv_nodes ?c)" "sv_mapper_policies ?c = pn_policies (sv_nodes ?c)"
    "dget (sy_sessions s2) ''s'' = Some se'" "se_attempts se' \<noteq> []"
    "last (se_attempts se') = PlanReady ''s'' planned_sample []"
    "sv_snapshot ?c (sy_world s2) = Inr (rt_snapshot sample_retriever)"
    by (simp_all add: planning_service_sample_def planning_nodes_sample_def s2_def se')
  obtain w where w: "from_mapping (payload_of_plan planned_sample) sample_registry = Inr w"
    by (rule one_step_definition [of planned_sample])
      (simp_all add: planned_sample_def sample_plan_def is_blank_def py_space_def code_def)
  have t: "pn_tools (sv_nodes ?c) = sample_registry" by (simp add: n planning_nodes_sample_def)
  have d: "cp_knowledge_snapshot_digest planned_sample = ks_digest (rt_snapshot sample_retriever)"
    by (simp add: planned_sample_def sample_plan_def sample_retriever_def)
  have id: "''r'' = en_identifier sample_env (sy_ticks (dr_coordinator initial_driver))"
    by (simp add: sample_env_def)
  have e: "sy_store (dr_coordinator initial_driver) = empty_store" by (simp add: initial_driver_def)
  from ready_plan_prepares [OF parses h(1,2) reach h(3-6) initial_sys_ok id] obtain pw s' t' where
    "prepare_workflow ?c ''s'' s2 = (Inr pw, s')" "pw_plan_id pw = ''s-plan''"
    "create_run sample_env sample_registry (pw_payload pw) (dr_coordinator initial_driver) = (Inr ''r'', t')"
    using w d t by (auto simp: e empty_store_def)
  then show ?thesis using reach by blast
qed

end
