(* ===== verification/Texts.thy ===== *)
theory Texts
  imports Values
begin

text \<open>
  Stripping, splitting into lines and joining: what the code that reads markdown needs to know of
  Python's \<open>str.strip\<close>, \<open>str.split\<close> and \<open>str.join\<close>.
\<close>

section \<open>Stripping\<close>

lemma strip_space [simp]: "py_space c \<Longrightarrow> strip (c # s) = strip s"
  by (simp add: strip_def)

lemma dropWhile_snoc: "dropWhile P (xs @ [x]) = (if \<forall>y \<in> set xs. P y then dropWhile P [x] else dropWhile P xs @ [x])"
  by (induction xs) auto

lemma strip_snoc_space [simp]:
  assumes "py_space c"
  shows "strip (s @ [c]) = strip s"
proof (cases "\<forall>y \<in> set s. py_space y")
  case True
  then have e: "dropWhile py_space s = []" "dropWhile py_space (s @ [c]) = []" using assms by simp_all
  show ?thesis unfolding strip_def e by simp
next
  case False
  then have e: "dropWhile py_space (s @ [c]) = dropWhile py_space s @ [c]" by (subst dropWhile_snoc) auto
  show ?thesis unfolding strip_def e using assms by simp
qed

lemma is_blank_Cons [simp]: "is_blank (c # s) \<longleftrightarrow> py_space c \<and> is_blank s"
  by (simp add: is_blank_def)

lemma is_blank_Nil [simp]: "is_blank []"
  by (simp add: is_blank_def)

lemma is_blank_append [simp]: "is_blank (s @ t) \<longleftrightarrow> is_blank s \<and> is_blank t"
  by (simp add: is_blank_def)

text \<open>A stripped text is a middle part of the text between spaces, and stripping it changes nothing.\<close>

lemma strip_split:
  obtains a b where "s = a @ strip s @ b" and "is_blank a" and "is_blank b"
proof -
  let ?t = "dropWhile py_space s"
  have "s = takeWhile py_space s @ ?t" by simp
  also have "?t = rev (dropWhile py_space (rev ?t)) @ rev (takeWhile py_space (rev ?t))"
    by (metis rev_append rev_rev_ident takeWhile_dropWhile_id)
  finally have "s = takeWhile py_space s @ strip s @ rev (takeWhile py_space (rev ?t))"
    by (simp add: strip_def)
  moreover have "is_blank (takeWhile py_space xs)" "is_blank (rev (takeWhile py_space xs))" for xs
    using set_takeWhileD [of _ py_space xs] by (simp_all add: is_blank_def list_all_iff)
  ultimately show ?thesis using that by blast
qed

lemma strip_ends:
  assumes "strip s \<noteq> []"
  shows "\<not> py_space (hd (strip s))" "\<not> py_space (last (strip s))"
proof -
  let ?t = "dropWhile py_space s"
  have r: "dropWhile py_space (rev ?t) \<noteq> []" using assms by (simp add: strip_def)
  show "\<not> py_space (last (strip s))" using hd_dropWhile [OF r] r by (simp add: strip_def last_rev)
  have t: "?t \<noteq> []" using r by (metis dropWhile.simps(1) rev.simps(1))
  then have "\<not> py_space (hd ?t)" by (rule hd_dropWhile)
  obtain u where u: "?t = strip s @ u"
    by (metis rev_append rev_rev_ident strip_def takeWhile_dropWhile_id)
  have "hd ?t = hd (strip s)" using assms u by (metis hd_append2)
  with \<open>\<not> py_space (hd ?t)\<close> show "\<not> py_space (hd (strip s))" by simp
qed

lemma strip_id:
  assumes "s = [] \<or> \<not> py_space (hd s) \<and> \<not> py_space (last s)"
  shows "strip s = s"
proof (cases s)
  case (Cons c t)
  then have "dropWhile py_space s = s" using assms by simp
  moreover have "dropWhile py_space (rev s) = rev s"
    using assms Cons by (metis dropWhile_eq_self_iff hd_rev list.distinct(1))
  ultimately show ?thesis by (simp add: strip_def)
qed (simp add: strip_def)

lemma strip_strip [simp]: "strip (strip s) = strip s"
  using strip_ends [of s] by (intro strip_id) blast

lemma length_strip: "length (strip s) \<le> length s"
proof -
  obtain a b where "s = a @ strip s @ b" by (rule strip_split [of s])
  then have "length s = length a + length (strip s) + length b" by (metis add.assoc length_append)
  then show ?thesis by simp
qed

lemma nth_front: "i < length a \<Longrightarrow> (a @ b) ! i = a ! i"
  and nth_behind: "length a \<le> i \<Longrightarrow> (a @ b) ! i = b ! (i - length a)"
  by (simp_all add: nth_append)

lemma blank_nth: "is_blank a \<Longrightarrow> i < length a \<Longrightarrow> py_space (a ! i)"
  by (simp add: is_blank_def list_all_length)

lemma strip_keeps:
  assumes "i < length s" and "\<not> py_space (s ! i)"
  shows "\<exists>a j. s ! i = strip s ! j \<and> j < length (strip s) \<and> i = a + j"
proof -
  obtain a b where s: "s = a @ strip s @ b" and a: "is_blank a" and b: "is_blank b"
    by (rule strip_split [of s])
  define t where "t = strip s"
  have st: "s = a @ t @ b" using s by (simp add: t_def)
  have 1: "length a \<le> i"
  proof (rule ccontr)
    assume "\<not> length a \<le> i"
    then show False using assms(2) blank_nth [OF a, of i] unfolding st by (simp add: nth_front)
  qed
  then have i: "s ! i = (t @ b) ! (i - length a)" unfolding st by (rule nth_behind)
  have 2: "i - length a < length t"
  proof (rule ccontr)
    assume n: "\<not> i - length a < length t"
    then have "s ! i = b ! (i - length a - length t)" using i by (simp add: nth_behind)
    moreover have "i - length a - length t < length b" using assms(1) n 1 unfolding st by simp
    ultimately show False using assms(2) blank_nth [OF b] by simp
  qed
  then have "s ! i = t ! (i - length a)" using i by (simp add: nth_front)
  then show ?thesis using 1 2 unfolding t_def [symmetric]
    by (intro exI [of _ "length a"] exI [of _ "i - length a"]) simp
qed

section \<open>Lines\<close>

lemma split_at_snoc:
  "split_at d (s @ [c]) =
     (if c = d then split_at d s @ [[]] else butlast (split_at d s) @ [last (split_at d s) @ [c]])"
  by (induction s) (auto split: list.splits)

lemma join_split_at: "join [d] (split_at d s) = s"
proof (induction s)
  case (Cons c s)
  then show ?case by (cases "split_at d s"; cases "tl (split_at d s)") auto
qed simp

lemma split_at_no_mark: "w \<in> set (split_at d s) \<Longrightarrow> d \<notin> set w"
  by (induction s arbitrary: w) (auto split: list.splits if_splits)

lemma split_at_plain: "d \<notin> set w \<Longrightarrow> split_at d w = [w]"
  by (induction w) auto

lemma split_at_append: "d \<notin> set w \<Longrightarrow> split_at d (w @ d # s) = w # split_at d s"
  by (induction w) auto

lemma split_at_join:
  assumes "ws \<noteq> []" and "\<forall>w \<in> set ws. d \<notin> set w"
  shows "split_at d (join [d] ws) = ws"
  using assms
proof (induction ws)
  case (Cons w ws)
  then show ?case by (cases ws) (simp_all add: split_at_append split_at_plain)
qed simp

text \<open>The lines of a text that hold more than spaces, each without the spaces around it.\<close>

definition text_lines :: "char \<Rightarrow> string \<Rightarrow> string list" where
  "text_lines d s = map strip (filter (\<lambda>l. \<not> is_blank l) (split_at d s))"

lemma text_lines_space:
  assumes "py_space c" and "py_space d"
  shows "text_lines d (c # s) = text_lines d s"
proof (cases "c = d")
  case False
  then show ?thesis using assms by (cases "split_at d s") (auto simp: text_lines_def)
qed (simp add: text_lines_def)

lemma text_lines_snoc_space:
  assumes "py_space c" and "py_space d"
  shows "text_lines d (s @ [c]) = text_lines d s"
proof (cases "c = d")
  case True
  then show ?thesis by (simp add: text_lines_def split_at_snoc)
next
  case False
  define ls l where "ls = butlast (split_at d s)" and "l = last (split_at d s)"
  have "split_at d s = ls @ [l]" and "split_at d (s @ [c]) = ls @ [l @ [c]]"
    using False by (simp_all add: ls_def l_def split_at_snoc)
  then show ?thesis using assms by (simp add: text_lines_def)
qed

lemma text_lines_strip:
  assumes "py_space d"
  shows "text_lines d (strip s) = text_lines d s"
proof -
  have front: "text_lines d (a @ t) = text_lines d t" if "is_blank a" for a t
    using that assms by (induction a) (simp_all add: text_lines_space)
  have behind: "text_lines d (t @ b) = text_lines d t" if "is_blank b" for b t
    using that
  proof (induction b rule: rev_induct)
    case (snoc c b)
    have "text_lines d (t @ b @ [c]) = text_lines d ((t @ b) @ [c])" by simp
    also have "\<dots> = text_lines d (t @ b)" using snoc.prems assms by (intro text_lines_snoc_space) simp_all
    finally show ?case using snoc by simp
  qed simp
  obtain a b where s: "s = a @ strip s @ b" and "is_blank a" "is_blank b" by (rule strip_split [of s])
  have "text_lines d s = text_lines d (strip s @ b)" using front [OF \<open>is_blank a\<close>] s by metis
  then show ?thesis using behind [OF \<open>is_blank b\<close>] by simp
qed

end
