(* ===== verification/Ingestion.thy ===== *)
theory Ingestion
  imports Plans Texts
begin

text \<open>
  \<open>planning/application/ingestion.py\<close>: a runbook is cut at its markdown headings into sections and
  each section into overlapping windows; the windows that hold text become chunks of the knowledge
  store. The regular expressions are written out as the searches that they are.
\<close>

section \<open>Headings and sections\<close>

definition newline :: char where
  "newline = CHR 0x0A"

text \<open>
  \<open>^(#{1,6})\s+(.+?)\s*$\<close> on a line: its level and its stripped title. A line of marks and
  at least two spaces is a heading whose title is one of the spaces.
\<close>

definition heading_match :: "string \<Rightarrow> (nat \<times> string) option" where
  "heading_match line =
     (let marks = takeWhile (\<lambda>c. c = CHR ''#'') line;
          rest = dropWhile (\<lambda>c. c = CHR ''#'') line;
          gap = takeWhile py_space rest;
          body = dropWhile py_space rest
      in if marks = [] \<or> 6 < length marks \<or> gap = [] then None
         else if body \<noteq> [] then Some (length marks, strip body)
         else if 2 \<le> length gap then Some (length marks, strip [last gap])
         else None)"

record markdown_section =
  ms_heading_path :: "string list"
  ms_start :: nat
  ms_text :: string

text \<open>The variables of \<open>_markdown_sections\<close>.\<close>

record section_scan =
  sc_headings :: "string list"
  sc_sections :: "markdown_section list"
  sc_current_start :: nat
  sc_current_lines :: "string list"
  sc_offset :: nat

definition flush :: "section_scan \<Rightarrow> section_scan" where
  "flush s =
     (let text = strip (join [newline] (sc_current_lines s))
      in s\<lparr>sc_sections := sc_sections s
            @ (if text \<noteq> [] then [\<lparr>ms_heading_path = sc_headings s, ms_start = sc_current_start s,
                                   ms_text = text\<rparr>] else []),
          sc_current_lines := []\<rparr>)"

text \<open>
  \<open>del headings[level - 1:]\<close>, then padding with empty titles up to the level.
\<close>

definition enter_heading :: "nat \<Rightarrow> string \<Rightarrow> string list \<Rightarrow> string list" where
  "enter_heading level title headings =
     (let kept = take (level - 1) headings
      in kept @ replicate (level - 1 - length kept) [] @ [title])"

definition scan_line :: "string \<Rightarrow> section_scan \<Rightarrow> section_scan" where
  "scan_line line s =
     (let s' = (case heading_match line of
          Some (level, title) \<Rightarrow>
            (let f = flush s
             in f\<lparr>sc_headings := enter_heading level title (sc_headings f),
                  sc_current_start := sc_offset f + length line + 1\<rparr>)
        | None \<Rightarrow>
            s\<lparr>sc_current_start := (if sc_current_lines s = [] then sc_offset s else sc_current_start s),
              sc_current_lines := sc_current_lines s @ [line]\<rparr>)
      in s'\<lparr>sc_offset := sc_offset s' + length line + 1\<rparr>)"

definition scan_start :: section_scan where
  "scan_start = \<lparr>sc_headings = [], sc_sections = [], sc_current_start = 0, sc_current_lines = [],
                 sc_offset = 0\<rparr>"

definition markdown_sections :: "string \<Rightarrow> markdown_section list" where
  "markdown_sections content =
     (let sections = sc_sections (flush (fold scan_line (split_at newline content) scan_start))
      in if sections = [] \<and> strip content \<noteq> []
         then [\<lparr>ms_heading_path = [], ms_start = 0, ms_text = strip content\<rparr>] else sections)"

section \<open>Chunks\<close>

record ingestion =
  is_max_chunk_chars :: nat
  is_overlap_chars :: nat

definition make_ingestion :: "int \<Rightarrow> int \<Rightarrow> planning_error + ingestion" where
  "make_ingestion max_chunk_chars overlap_chars =
     sbind (guard (0 < max_chunk_chars) (Raised (ValueError ''max_chunk_chars must be positive''))) (\<lambda>_.
     sbind (guard (0 \<le> overlap_chars \<and> overlap_chars < max_chunk_chars)
              (Raised (ValueError ''overlap_chars must be within chunk size''))) (\<lambda>_.
     Inr \<lparr>is_max_chunk_chars = nat max_chunk_chars, is_overlap_chars = nat overlap_chars\<rparr>))"

text \<open>\<open>replace("\r\n", "\n")\<close> and \<open>replace("\r", "\n")\<close>.\<close>

fun replace_crlf :: "string \<Rightarrow> string" where
  "replace_crlf [] = []"
| "replace_crlf [c] = [c]"
| "replace_crlf (c # d # cs) =
     (if c = CHR 0x0D \<and> d = newline then newline # replace_crlf cs else c # replace_crlf (d # cs))"

definition normalized_content :: "string \<Rightarrow> string" where
  "normalized_content content =
     map (\<lambda>c. if c = CHR 0x0D then newline else c) (replace_crlf content)"

definition chunk_id_text :: "runbook_document \<Rightarrow> nat \<Rightarrow> string \<Rightarrow> string" where
  "chunk_id_text d position digest =
     rb_document_id d @ '':'' @ rb_version d @ '':'' @ int_text (int position) @ '':'' @ digest"

definition text_hexdigest :: "string \<Rightarrow> string" where
  "text_hexdigest s = sha256_hexdigest (utf8 s)"

definition chunk_of ::
  "runbook_document \<Rightarrow> markdown_section \<Rightarrow> nat \<Rightarrow> nat \<Rightarrow> string \<Rightarrow> nat \<Rightarrow> knowledge_chunk" where
  "chunk_of d sec cursor end content position =
     (let content_digest = text_hexdigest content in
      \<lparr>kc_chunk_id = text_hexdigest (chunk_id_text d position content_digest),
       kc_document_id = rb_document_id d, kc_document_version = rb_version d, kc_source = rb_source d,
       kc_trust_level = rb_trust_level d, kc_policy_key = rb_policy_key d,
       kc_rule_digest = (case rb_rule_digest d of Some (c # r) \<Rightarrow> c # r | _ \<Rightarrow> rb_content_digest d),
       kc_status = rb_status d, kc_heading_path = ms_heading_path sec, kc_position = position,
       kc_start_offset = ms_start sec + cursor, kc_end_offset = ms_start sec + end,
       kc_content = content, kc_content_digest = content_digest\<rparr>)"

definition slice :: "nat \<Rightarrow> nat \<Rightarrow> 'a list \<Rightarrow> 'a list" where
  "slice a b xs = take (b - a) (drop a xs)"

text \<open>The body of the loop: the chunks so far and the next position.\<close>

definition add_window ::
  "runbook_document \<Rightarrow> markdown_section \<Rightarrow> nat \<Rightarrow> nat \<Rightarrow> knowledge_chunk list \<times> nat \<Rightarrow>
   knowledge_chunk list \<times> nat" where
  "add_window d sec cursor end acc =
     (let content = strip (slice cursor end (ms_text sec))
      in if content \<noteq> []
         then (fst acc @ [chunk_of d sec cursor end content (snd acc)], snd acc + 1) else acc)"

text \<open>The loop over the windows of a section; \<open>None\<close> would be a loop without end.\<close>

partial_function (option) chunk_loop ::
  "ingestion \<Rightarrow> runbook_document \<Rightarrow> markdown_section \<Rightarrow> nat \<Rightarrow> knowledge_chunk list \<times> nat \<Rightarrow>
   (knowledge_chunk list \<times> nat) option" where
  "chunk_loop s d sec cursor acc =
     (let n = length (ms_text sec) in
      if cursor < n then
        (let end = min n (cursor + is_max_chunk_chars s); acc' = add_window d sec cursor end acc
         in if end = n then Some acc'
            else chunk_loop s d sec (end - is_overlap_chars s) acc')
      else Some acc)"

fun chunk_sections ::
  "ingestion \<Rightarrow> runbook_document \<Rightarrow> markdown_section list \<Rightarrow> knowledge_chunk list \<times> nat \<Rightarrow>
   (knowledge_chunk list \<times> nat) option" where
  "chunk_sections s d [] acc = Some acc"
| "chunk_sections s d (sec # secs) acc =
     Option.bind (chunk_loop s d sec 0 acc) (chunk_sections s d secs)"

definition chunks_of :: "ingestion \<Rightarrow> runbook_document \<Rightarrow> knowledge_chunk list option" where
  "chunks_of s d =
     map_option fst (chunk_sections s d (markdown_sections (normalized_content (rb_content d))) ([], 0))"

section \<open>The store\<close>

record knowledge_store =
  kn_documents :: "(string \<times> string, runbook_document) dict"
  kn_chunks :: "(string, knowledge_chunk) dict"

definition get_document :: "knowledge_store \<Rightarrow> string \<Rightarrow> string \<Rightarrow> runbook_document option" where
  "get_document st i version = dget (kn_documents st) (i, version)"

definition document_key :: "runbook_document \<Rightarrow> string \<times> string" where
  "document_key d = (rb_document_id d, rb_version d)"

definition update_all :: "('a \<Rightarrow> 'k) \<Rightarrow> 'a list \<Rightarrow> ('k, 'a) dict \<Rightarrow> ('k, 'a) dict" where
  "update_all key xs d = fold (\<lambda>x. dset (key x) x) xs d"

definition add_document ::
  "runbook_document \<Rightarrow> knowledge_chunk list \<Rightarrow> (knowledge_store, planning_error, unit) act" where
  "add_document d chunks =
     bnd (get_act (\<lambda>st. dget (kn_documents st) (document_key d))) (\<lambda>found.
     if found \<noteq> None then raise_act (KnowledgeError ''document version already exists'')
     else modify_act (\<lambda>st. st\<lparr>kn_documents := dset (document_key d) d (kn_documents st),
                              kn_chunks := update_all kc_chunk_id chunks (kn_chunks st)\<rparr>))"

definition all_documents :: "knowledge_store \<Rightarrow> runbook_document list" where
  "all_documents st = map snd (sort_key fst (kn_documents st))"

definition chunk_key :: "knowledge_chunk \<Rightarrow> string \<times> string \<times> nat \<times> string" where
  "chunk_key c = (kc_document_id c, kc_document_version c, kc_position c, kc_chunk_id c)"

definition all_chunks :: "knowledge_store \<Rightarrow> knowledge_chunk list" where
  "all_chunks st = sort_key chunk_key (map snd (kn_chunks st))"

definition snapshot_value :: "runbook_document list \<Rightarrow> knowledge_chunk list \<Rightarrow> pyval" where
  "snapshot_value ds cs =
     PDict [(KStr ''documents'', PList (map (\<lambda>d. PDict
              [(KStr ''document_id'', PStr (rb_document_id d)), (KStr ''version'', PStr (rb_version d)),
               (KStr ''content_digest'', PStr (rb_content_digest d)),
               (KStr ''status'', PStr (status_value (rb_status d)))]) ds)),
            (KStr ''chunks'', PList (map (\<lambda>c. PDict
              [(KStr ''chunk_id'', PStr (kc_chunk_id c)),
               (KStr ''content_digest'', PStr (kc_content_digest c))]) cs))]"

definition calculate_snapshot ::
  "runbook_document list \<Rightarrow> knowledge_chunk list \<Rightarrow> planning_error + knowledge_snapshot" where
  "calculate_snapshot ds cs =
     sbind (map_error Raised (json_digest True (snapshot_value ds cs))) (\<lambda>digest.
     Inr \<lparr>ks_digest = digest, ks_document_count = length ds, ks_chunk_count = length cs\<rparr>)"

definition store_snapshot :: "knowledge_store \<Rightarrow> planning_error + knowledge_snapshot" where
  "store_snapshot st = calculate_snapshot (all_documents st) (all_chunks st)"

section \<open>Ingestion\<close>

definition ingestion_result_of ::
  "runbook_document \<Rightarrow> nat \<Rightarrow> bool \<Rightarrow> (knowledge_store, planning_error, ingestion_result) act" where
  "ingestion_result_of d created reused =
     bnd (get_act store_snapshot) (\<lambda>snap.
     bnd (lift_res snap) (\<lambda>snapshot.
     ret \<lparr>ir_document_id = rb_document_id d, ir_document_version = rb_version d,
          ir_content_digest = rb_content_digest d, ir_snapshot = snapshot,
          ir_created_chunks = created, ir_reused = reused\<rparr>))"

text \<open>\<open>ingest\<close>; \<open>None\<close> where cutting the document would not end.\<close>

definition ingest ::
  "ingestion \<Rightarrow> runbook_document \<Rightarrow> knowledge_store \<Rightarrow>
   ((planning_error + ingestion_result) \<times> knowledge_store) option" where
  "ingest s d st =
     (case get_document st (rb_document_id d) (rb_version d) of
        Some existing \<Rightarrow>
          Some (if rb_content_digest existing \<noteq> rb_content_digest d
                then raise_act (KnowledgeError ''document identity is immutable; use a new version'') st
                else ingestion_result_of d 0 True st)
      | None \<Rightarrow>
          map_option (\<lambda>chunks.
            bnd (add_document d chunks) (\<lambda>_. ingestion_result_of d (length chunks) False) st)
          (chunks_of s d))"

section \<open>Runbook files\<close>

text \<open>
  \<open>\A---\s*\n(.*?)\n---\s*\n\<close> with \<open>DOTALL\<close>: what is left after \<open>\s*\n\<close>, the longest match first;
  then the shortest body that is followed by a closing line. The result is the metadata text and
  what follows the match.
\<close>

definition after_space_line :: "string \<Rightarrow> string list" where
  "after_space_line s =
     (let space = takeWhile py_space s
      in map (\<lambda>i. drop (Suc i) s) (rev (filter (\<lambda>i. space ! i = newline) [0..<length space])))"

fun close_frontmatter :: "string \<Rightarrow> string \<Rightarrow> (string \<times> string) option" where
  "close_frontmatter body [] = None"
| "close_frontmatter body (c # cs) =
     (if take 4 (c # cs) = newline # ''---'' \<and> after_space_line (drop 4 (c # cs)) \<noteq> []
      then Some (rev body, hd (after_space_line (drop 4 (c # cs))))
      else close_frontmatter (c # body) cs)"

fun first_some :: "'a option list \<Rightarrow> 'a option" where
  "first_some [] = None"
| "first_some (x # xs) = (case x of None \<Rightarrow> first_some xs | Some y \<Rightarrow> Some y)"

definition frontmatter_match :: "string \<Rightarrow> (string \<times> string) option" where
  "frontmatter_match text =
     (if take 3 text = ''---''
      then first_some (map (close_frontmatter []) (after_space_line (drop 3 text))) else None)"

text \<open>
  \<open>load_runbook\<close> on the text of the file at \<open>path\<close>; YAML and the validation of the JSON form of the
  payload are parameters. Every exception of the latter becomes a \<open>KnowledgeError\<close>.
\<close>

definition load_runbook ::
  "(string \<Rightarrow> planning_error + pyval) \<Rightarrow> (pyval \<Rightarrow> string + runbook_document) \<Rightarrow> string \<Rightarrow> string \<Rightarrow>
   planning_error + runbook_document" where
  "load_runbook yaml_safe_load validate path text =
     sbind (or_raise (frontmatter_match text) (KnowledgeError ''Runbook requires YAML frontmatter'')) (\<lambda>m.
     sbind (yaml_safe_load (fst m)) (\<lambda>metadata.
     case metadata of
       PDict d \<Rightarrow>
         (let source = (case dget d (KStr ''source'') of None \<Rightarrow> PStr path | Some v \<Rightarrow> v);
              payload = dset (KStr ''content'') (PStr (strip (snd m))) (dset (KStr ''source'') source d)
          in map_error (\<lambda>e. KnowledgeError (''invalid Runbook metadata: '' @ e)) (validate (PDict payload)))
     | _ \<Rightarrow> Inl (KnowledgeError ''Runbook frontmatter must be a mapping'')))"

text \<open>The metadata and the rest are parts of the text, between the two lines of dashes.\<close>

lemma after_space_lineD:
  assumes "r \<in> set (after_space_line s)"
  shows "\<exists>w. s = w @ newline # r \<and> is_blank w"
proof -
  from assms obtain i where i: "i < length (takeWhile py_space s)" "takeWhile py_space s ! i = newline"
    and r: "r = drop (Suc i) s" by (auto simp: after_space_line_def Let_def)
  have len: "i < length s" using i(1) length_takeWhile_le [of py_space s] by simp
  have n: "s ! i = newline" using i takeWhile_nth [OF i(1)] by simp
  have "s = take i s @ s ! i # drop (Suc i) s" using len by (simp add: id_take_nth_drop)
  moreover have "take i s = take i (takeWhile py_space s)"
    using i(1) by (metis less_imp_le_nat take_append takeWhile_dropWhile_id take_all_iff append.right_neutral
        diff_is_0_eq take0)
  then have "is_blank (take i s)"
    by (auto simp: is_blank_def list_all_iff dest!: in_set_takeD set_takeWhileD)
  ultimately show ?thesis using r n by metis
qed

lemma close_frontmatterD:
  "close_frontmatter body s = Some (meta, rest) \<Longrightarrow>
     \<exists>t w. meta = rev body @ t \<and> s = t @ newline # ''---'' @ w @ newline # rest \<and> is_blank w"
proof (induction s arbitrary: body)
  case (Cons c cs)
  show ?case
  proof (cases "take 4 (c # cs) = newline # ''---'' \<and> after_space_line (drop 4 (c # cs)) \<noteq> []")
    case True
    then have m: "meta = rev body" and r: "rest \<in> set (after_space_line (drop 4 (c # cs)))"
      using Cons.prems by (auto split: if_splits)
    from after_space_lineD [OF r] obtain w where w: "drop 4 (c # cs) = w @ newline # rest" "is_blank w" by blast
    have "c # cs = (newline # ''---'') @ w @ newline # rest"
      using append_take_drop_id [of 4 "c # cs"] True w(1) by metis
    then show ?thesis using m w(2) by (intro exI [of _ "[]"] exI [of _ w]) simp
  next
    case False
    then have "close_frontmatter (c # body) cs = Some (meta, rest)" using Cons.prems by (simp split: if_splits)
    from Cons.IH [OF this] obtain t w where "meta = rev (c # body) @ t"
      and "cs = t @ newline # ''---'' @ w @ newline # rest" "is_blank w" by blast
    then show ?thesis by (intro exI [of _ "c # t"] exI [of _ w]) simp
  qed
qed simp

lemma first_some_SomeD: "first_some xs = Some y \<Longrightarrow> Some y \<in> set xs"
  by (induction xs) (auto split: option.splits)

lemma frontmatter_split:
  assumes "frontmatter_match text = Some (meta, rest)"
  shows "\<exists>v w. text = ''---'' @ v @ newline # meta @ newline # ''---'' @ w @ newline # rest
     \<and> is_blank v \<and> is_blank w"
proof -
  from assms have d: "take 3 text = ''---''"
    and "Some (meta, rest) \<in> set (map (close_frontmatter []) (after_space_line (drop 3 text)))"
    by (auto simp: frontmatter_match_def split: if_splits dest!: first_some_SomeD)
  then obtain s where s: "s \<in> set (after_space_line (drop 3 text))" and c: "close_frontmatter [] s = Some (meta, rest)"
    by auto
  from after_space_lineD [OF s] obtain v where v: "drop 3 text = v @ newline # s" "is_blank v" by blast
  from close_frontmatterD [OF c] obtain w where "s = meta @ newline # ''---'' @ w @ newline # rest" "is_blank w"
    by auto
  then show ?thesis using v append_take_drop_id [of 3 "text"] d by (metis append.assoc append_Cons)
qed

end
