(* ===== verification/Chunking.thy ===== *)
theory Chunking
  imports Ingestion
begin

text \<open>
  What \<open>Ingestion\<close> makes of a document: its sections hold its lines, each under its headings, and
  its chunks cover its sections window by window.
\<close>

section \<open>The sections hold the lines\<close>

text \<open>
  The reference: every line that is not a heading and not blank, in order, with the path of the
  headings it stands under.
\<close>

fun outline :: "string list \<Rightarrow> string list \<Rightarrow> (string list \<times> string) list" where
  "outline path [] = []"
| "outline path (line # ls) =
     (case heading_match line of
        Some (level, title) \<Rightarrow> outline (enter_heading level title path) ls
      | None \<Rightarrow> (if is_blank line then [] else [(path, strip line)]) @ outline path ls)"

definition section_lines :: "markdown_section \<Rightarrow> (string list \<times> string) list" where
  "section_lines sec = map (\<lambda>l. (ms_heading_path sec, l)) (text_lines newline (ms_text sec))"

definition pending_lines :: "section_scan \<Rightarrow> (string list \<times> string) list" where
  "pending_lines s =
     map (\<lambda>l. (sc_headings s, strip l)) (filter (\<lambda>l. \<not> is_blank l) (sc_current_lines s))"

definition scanned_lines :: "section_scan \<Rightarrow> (string list \<times> string) list" where
  "scanned_lines s = concat (map section_lines (sc_sections s)) @ pending_lines s"

definition plain_lines :: "section_scan \<Rightarrow> bool" where
  "plain_lines s \<longleftrightarrow> (\<forall>l \<in> set (sc_current_lines s). newline \<notin> set l)"

lemma newline_space [simp]: "py_space newline"
  by (simp add: newline_def py_space_def code_def)

lemma text_lines_joined:
  assumes "\<forall>l \<in> set ls. newline \<notin> set l"
  shows "text_lines newline (strip (join [newline] ls)) = map strip (filter (\<lambda>l. \<not> is_blank l) ls)"
proof (cases "ls = []")
  case True
  then show ?thesis by (simp add: text_lines_def strip_def)
next
  case False
  then show ?thesis using assms by (simp add: text_lines_strip) (simp add: text_lines_def split_at_join)
qed

lemma flush_lines:
  assumes "plain_lines s"
  shows "concat (map section_lines (sc_sections (flush s))) = scanned_lines s"
proof -
  let ?text = "strip (join [newline] (sc_current_lines s))"
  have "text_lines newline ?text = map strip (filter (\<lambda>l. \<not> is_blank l) (sc_current_lines s))"
    using assms by (intro text_lines_joined) (simp add: plain_lines_def)
  moreover have "text_lines newline [] = []" by (simp add: text_lines_def)
  ultimately show ?thesis
    by (cases "?text = []") (auto simp: flush_def Let_def scanned_lines_def pending_lines_def section_lines_def
        comp_def)
qed

lemma flush_fields [simp]:
  "sc_headings (flush s) = sc_headings s" "sc_current_lines (flush s) = []" "sc_offset (flush s) = sc_offset s"
  by (simp_all add: flush_def Let_def)

lemma scan_line_lines:
  assumes "plain_lines s" and "newline \<notin> set line"
  shows "plain_lines (scan_line line s)"
    and "scanned_lines (scan_line line s) =
      (case heading_match line of Some _ \<Rightarrow> scanned_lines s
       | None \<Rightarrow> scanned_lines s @ (if is_blank line then [] else [(sc_headings s, strip line)]))"
    and "sc_headings (scan_line line s) =
      (case heading_match line of Some (level, title) \<Rightarrow> enter_heading level title (sc_headings s)
       | None \<Rightarrow> sc_headings s)"
  using assms flush_lines [OF assms(1)]
  by (auto simp: scan_line_def Let_def plain_lines_def scanned_lines_def pending_lines_def split: option.splits)

lemma scan_lines:
  assumes "plain_lines s" and "\<forall>l \<in> set ls. newline \<notin> set l"
  shows "plain_lines (fold scan_line ls s)
    \<and> scanned_lines (fold scan_line ls s) = scanned_lines s @ outline (sc_headings s) ls"
  using assms
proof (induction ls arbitrary: s)
  case (Cons l ls)
  have l: "newline \<notin> set l" using Cons.prems(2) by simp
  note step = scan_line_lines [OF Cons.prems(1) l]
  show ?case using Cons.IH [OF step(1)] Cons.prems(2) step(2,3) by (simp split: option.splits prod.splits)
qed simp

lemma scanned_sections:
  "concat (map section_lines (sc_sections (flush (fold scan_line (split_at newline content) scan_start))))
     = outline [] (split_at newline content)"
proof -
  have p: "plain_lines scan_start" and l: "\<forall>l \<in> set (split_at newline content). newline \<notin> set l"
    using split_at_no_mark by (auto simp: plain_lines_def scan_start_def)
  have "scanned_lines scan_start = []" by (simp add: scanned_lines_def pending_lines_def scan_start_def)
  then show ?thesis using scan_lines [OF p l] flush_lines by (simp add: scan_start_def)
qed

lemma sections_hold_lines:
  assumes "outline [] (split_at newline content) \<noteq> []"
  shows "concat (map section_lines (markdown_sections content)) = outline [] (split_at newline content)"
  using assms unfolding scanned_sections [symmetric] by (auto simp: markdown_sections_def Let_def)

text \<open>Every section has text, without spaces around it.\<close>

definition trimmed :: "markdown_section \<Rightarrow> bool" where
  "trimmed sec \<longleftrightarrow> ms_text sec \<noteq> [] \<and> strip (ms_text sec) = ms_text sec"

lemma flush_trimmed: "list_all trimmed (sc_sections s) \<Longrightarrow> list_all trimmed (sc_sections (flush s))"
  by (simp add: flush_def Let_def trimmed_def)

lemma scan_line_sections:
  "sc_sections (scan_line l s) = sc_sections (case heading_match l of None \<Rightarrow> s | Some _ \<Rightarrow> flush s)"
  by (simp add: scan_line_def Let_def split: option.splits prod.splits)

lemma scan_trimmed:
  "list_all trimmed (sc_sections s) \<Longrightarrow> list_all trimmed (sc_sections (fold scan_line ls s))"
proof (induction ls arbitrary: s)
  case (Cons l ls)
  have "list_all trimmed (sc_sections (scan_line l s))"
    using Cons.prems flush_trimmed [OF Cons.prems] by (simp add: scan_line_sections split: option.splits)
  then show ?case by (simp add: Cons.IH)
qed simp

lemma sections_trimmed: "list_all trimmed (markdown_sections content)"
proof -
  have "list_all trimmed (sc_sections (flush (fold scan_line (split_at newline content) scan_start)))"
    by (intro flush_trimmed scan_trimmed) (simp add: scan_start_def)
  then show ?thesis by (simp add: markdown_sections_def Let_def trimmed_def)
qed

section \<open>The windows of a section\<close>

text \<open>
  Windows of \<open>m\<close> characters that overlap by \<open>v\<close> start every \<open>m - v\<close> characters, up to the one that
  reaches the end.
\<close>

definition window_count :: "nat \<Rightarrow> nat \<Rightarrow> nat \<Rightarrow> nat" where
  "window_count m v n = (if n = 0 then 0 else 1 + (n - m + (m - v) - 1) div (m - v))"

definition window_of :: "nat \<Rightarrow> nat \<Rightarrow> nat \<Rightarrow> nat \<Rightarrow> nat \<times> nat" where
  "window_of m v n j = (j * (m - v), min n (j * (m - v) + m))"

lemma ceiling_le:
  assumes "0 < (w :: nat)"
  shows "(a + w - 1) div w \<le> j \<longleftrightarrow> a \<le> j * w"
proof -
  have "(a + w - 1) div w \<le> j \<longleftrightarrow> (a + w - 1) div w < Suc j" by auto
  also have "\<dots> \<longleftrightarrow> a + w - 1 < Suc j * w" by (rule div_less_iff_less_mult [OF assms])
  also have "\<dots> \<longleftrightarrow> a \<le> j * w" using assms by auto
  finally show ?thesis .
qed

lemma window_last:
  assumes "v < m" and "0 < n"
  shows "window_count m v n \<le> j + 1 \<longleftrightarrow> n \<le> j * (m - v) + m"
proof -
  have "window_count m v n \<le> j + 1 \<longleftrightarrow> (n - m + (m - v) - 1) div (m - v) \<le> j"
    using assms(2) by (simp add: window_count_def)
  also have "\<dots> \<longleftrightarrow> n - m \<le> j * (m - v)" using assms(1) by (intro ceiling_le) simp
  finally show ?thesis by auto
qed

lemma window_starts:
  assumes "v < m" and "j < window_count m v n"
  shows "j * (m - v) < n"
proof -
  have n: "0 < n" using assms(2) by (auto simp: window_count_def split: if_splits)
  show ?thesis
  proof (cases j)
    case (Suc i)
    then have "\<not> window_count m v n \<le> i + 1" using assms(2) by simp
    then have "i * (m - v) + m < n" using window_last [OF assms(1) n] by simp
    then show ?thesis using Suc by simp
  qed (use n in simp)
qed

definition section_window :: "ingestion \<Rightarrow> markdown_section \<Rightarrow> nat \<Rightarrow> nat \<times> nat" where
  "section_window s sec j = window_of (is_max_chunk_chars s) (is_overlap_chars s) (length (ms_text sec)) j"

definition section_windows :: "ingestion \<Rightarrow> markdown_section \<Rightarrow> (markdown_section \<times> nat \<times> nat) list" where
  "section_windows s sec =
     map (\<lambda>j. (sec, section_window s sec j))
       [0..<window_count (is_max_chunk_chars s) (is_overlap_chars s) (length (ms_text sec))]"

definition enter_window ::
  "runbook_document \<Rightarrow> markdown_section \<times> nat \<times> nat \<Rightarrow> knowledge_chunk list \<times> nat \<Rightarrow>
   knowledge_chunk list \<times> nat" where
  "enter_window d w acc = add_window d (fst w) (fst (snd w)) (snd (snd w)) acc"

lemma chunk_loop_from:
  assumes "is_overlap_chars s < is_max_chunk_chars s"
    and "j < window_count (is_max_chunk_chars s) (is_overlap_chars s) (length (ms_text sec))"
  shows "chunk_loop s d sec (j * (is_max_chunk_chars s - is_overlap_chars s)) acc =
    Some (fold (enter_window d) (map (\<lambda>j. (sec, section_window s sec j))
       [j..<window_count (is_max_chunk_chars s) (is_overlap_chars s) (length (ms_text sec))]) acc)"
  using assms(2)
proof (induction "window_count (is_max_chunk_chars s) (is_overlap_chars s) (length (ms_text sec)) - j"
    arbitrary: j acc rule: less_induct)
  case less
  let ?m = "is_max_chunk_chars s" and ?v = "is_overlap_chars s" and ?n = "length (ms_text sec)"
  let ?k = "window_count ?m ?v ?n" and ?w = "?m - ?v"
  define acc' where "acc' = add_window d sec (j * ?w) (min ?n (j * ?w + ?m)) acc"
  have start: "j * ?w < ?n" by (rule window_starts [OF assms(1) less.prems])
  then have n: "0 < ?n" by (rule le_less_trans [OF le0])
  have list: "[j..<?k] = j # [Suc j..<?k]" using less.prems by (rule upt_conv_Cons)
  have enter: "enter_window d (sec, section_window s sec j) acc = acc'"
    by (simp add: enter_window_def section_window_def window_of_def acc'_def)
  show ?case
  proof (cases "?n \<le> j * ?w + ?m")
    case True
    then have "?k \<le> Suc j" using window_last [OF assms(1) n, of j] by simp
    then have e: "[Suc j..<?k] = []" by simp
    have "acc' = add_window d sec (j * ?w) ?n acc" using True by (simp add: acc'_def min_absorb1)
    then have "chunk_loop s d sec (j * ?w) acc = Some acc'"
      using start True by (subst chunk_loop.simps) (simp add: Let_def min_absorb1)
    then show ?thesis by (simp add: list e enter)
  next
    case False
    then have next': "Suc j < ?k" using window_last [OF assms(1) n, of j] by simp
    have "j * ?w + ?m - ?v = Suc j * ?w" using assms(1) by simp
    then have "chunk_loop s d sec (j * ?w) acc = chunk_loop s d sec (Suc j * ?w) acc'"
      using start False by (subst chunk_loop.simps) (simp add: Let_def acc'_def min_absorb2)
    also have "\<dots> = Some (fold (enter_window d) (map (\<lambda>j. (sec, section_window s sec j)) [Suc j..<?k]) acc')"
      using next' less.prems by (intro less.hyps) simp_all
    finally show ?thesis by (simp add: list enter)
  qed
qed

lemma chunk_loop_windows:
  assumes "is_overlap_chars s < is_max_chunk_chars s"
  shows "chunk_loop s d sec 0 acc = Some (fold (enter_window d) (section_windows s sec) acc)"
proof (cases "ms_text sec = []")
  case True
  then show ?thesis by (subst chunk_loop.simps) (simp add: section_windows_def window_count_def)
next
  case False
  then have "0 < window_count (is_max_chunk_chars s) (is_overlap_chars s) (length (ms_text sec))"
    by (simp add: window_count_def)
  from chunk_loop_from [OF assms this] show ?thesis by (simp add: section_windows_def)
qed

lemma chunk_sections_windows:
  assumes "is_overlap_chars s < is_max_chunk_chars s"
  shows "chunk_sections s d secs acc =
    Some (fold (enter_window d) (concat (map (section_windows s) secs)) acc)"
  by (induction secs arbitrary: acc) (simp_all add: chunk_loop_windows [OF assms])

section \<open>The chunks of a document\<close>

definition window_text :: "markdown_section \<times> nat \<times> nat \<Rightarrow> string" where
  "window_text w = strip (slice (fst (snd w)) (snd (snd w)) (ms_text (fst w)))"

definition window_chunk :: "runbook_document \<Rightarrow> nat \<times> markdown_section \<times> nat \<times> nat \<Rightarrow> knowledge_chunk" where
  "window_chunk d pw = (case pw of (p, sec, a, b) \<Rightarrow> chunk_of d sec a b (window_text (sec, a, b)) p)"

definition document_windows :: "ingestion \<Rightarrow> runbook_document \<Rightarrow> (markdown_section \<times> nat \<times> nat) list" where
  "document_windows s d =
     filter (\<lambda>w. window_text w \<noteq> [])
       (concat (map (section_windows s) (markdown_sections (normalized_content (rb_content d)))))"

lemma enter_window_step:
  "enter_window d w (cs, p) =
     (if window_text w \<noteq> [] then (cs @ [window_chunk d (p, w)], Suc p) else (cs, p))"
  by (cases w) (simp add: enter_window_def add_window_def Let_def window_text_def window_chunk_def)

lemma fold_windows:
  "fold (enter_window d) ws (cs, p) =
     (cs @ map (window_chunk d) (enumerate p (filter (\<lambda>w. window_text w \<noteq> []) ws)),
      p + length (filter (\<lambda>w. window_text w \<noteq> []) ws))"
  by (induction ws arbitrary: cs p) (simp_all add: enter_window_step)

lemma chunks_of_windows:
  assumes "is_overlap_chars s < is_max_chunk_chars s"
  shows "chunks_of s d = Some (map (window_chunk d) (enumerate 0 (document_windows s d)))"
  by (simp add: chunks_of_def chunk_sections_windows [OF assms] fold_windows document_windows_def)

lemma make_ingestion_Inr:
  "make_ingestion m v = Inr s \<longleftrightarrow> 0 \<le> v \<and> v < m
     \<and> s = \<lparr>is_max_chunk_chars = nat m, is_overlap_chars = nat v\<rparr>"
  by (auto simp: make_ingestion_def sbind_Inr_iff)

lemma windows_cover:
  assumes "v < m" and "i < n"
  shows "\<exists>j < window_count m v n. fst (window_of m v n j) \<le> i \<and> i < snd (window_of m v n j)"
proof -
  let ?w = "m - v" and ?k = "window_count m v n"
  have n: "0 < n" and w: "0 < ?w" using assms by simp_all
  have k: "0 < ?k" using n by (simp add: window_count_def)
  show ?thesis
  proof (cases "i div ?w < ?k")
    case True
    have "i div ?w * ?w \<le> i" by (rule div_times_less_eq_dividend)
    moreover have "i < i div ?w * ?w + ?w" using dividend_less_div_times [OF w, of i] by simp
    then have "i < i div ?w * ?w + m" by (rule less_le_trans) simp
    ultimately have "fst (window_of m v n (i div ?w)) \<le> i" and "i < snd (window_of m v n (i div ?w))"
      using assms(2) by (simp_all add: window_of_def)
    then show ?thesis using True by blast
  next
    case False
    then have "(?k - 1) * ?w \<le> i div ?w * ?w" by (intro mult_le_mono1) simp
    also have "\<dots> \<le> i" by simp
    finally have "(?k - 1) * ?w \<le> i" .
    moreover have "n \<le> (?k - 1) * ?w + m" using window_last [OF assms(1) n, of "?k - 1"] k by simp
    ultimately have "fst (window_of m v n (?k - 1)) \<le> i" and "i < snd (window_of m v n (?k - 1))"
      using assms(2) by (simp_all add: window_of_def)
    moreover have "?k - 1 < ?k" using k by simp
    ultimately show ?thesis by blast
  qed
qed

lemma window_text_length: "length (window_text (sec, a, b)) \<le> b - a"
  using length_strip [of "slice a b (ms_text sec)"] by (simp add: window_text_def slice_def)

lemma window_text_there:
  assumes "a \<le> i" and "i < b" and "b \<le> length (ms_text sec)" and "\<not> py_space (ms_text sec ! i)"
  shows "window_text (sec, a, b) \<noteq> []"
proof -
  have "i - a < length (slice a b (ms_text sec))" and "slice a b (ms_text sec) ! (i - a) = ms_text sec ! i"
    using assms(1-3) by (simp_all add: slice_def)
  then show ?thesis using strip_keeps [of "i - a" "slice a b (ms_text sec)"] assms(4)
    by (auto simp: window_text_def)
qed

lemma chunk_fields:
  "kc_position (window_chunk d (p, sec, a, b)) = p"
  "kc_content (window_chunk d (p, sec, a, b)) = window_text (sec, a, b)"
  "kc_content_digest (window_chunk d (p, sec, a, b)) = text_hexdigest (window_text (sec, a, b))"
  "kc_heading_path (window_chunk d (p, sec, a, b)) = ms_heading_path sec"
  "kc_start_offset (window_chunk d (p, sec, a, b)) = ms_start sec + a"
  "kc_end_offset (window_chunk d (p, sec, a, b)) = ms_start sec + b"
  by (simp_all add: window_chunk_def chunk_of_def Let_def)

lemma document_windowD:
  assumes "(sec, a, b) \<in> set (document_windows s d)"
  shows "window_text (sec, a, b) \<noteq> []" and "b - a \<le> is_max_chunk_chars s"
  using assms by (auto simp: document_windows_def section_windows_def section_window_def window_of_def)

lemma document_windowI:
  assumes "is_overlap_chars s < is_max_chunk_chars s"
    and "sec \<in> set (markdown_sections (normalized_content (rb_content d)))"
    and "i < length (ms_text sec)" and "\<not> py_space (ms_text sec ! i)"
  obtains a b where "(sec, a, b) \<in> set (document_windows s d)" and "a \<le> i" and "i < b"
proof -
  obtain j where j: "j < window_count (is_max_chunk_chars s) (is_overlap_chars s) (length (ms_text sec))"
    and c: "fst (section_window s sec j) \<le> i" "i < snd (section_window s sec j)"
    using windows_cover [OF assms(1,3)] unfolding section_window_def by blast
  obtain a b where w: "section_window s sec j = (a, b)" by (cases "section_window s sec j")
  have "b \<le> length (ms_text sec)" using w by (auto simp: section_window_def window_of_def)
  then have t: "window_text (sec, a, b) \<noteq> []" using c w assms(4) by (intro window_text_there [of a i b]) simp_all
  have "(sec, a, b) \<in> set (section_windows s sec)"
    unfolding section_windows_def set_map using j w by (intro image_eqI [of _ _ j]) simp_all
  then have "(sec, a, b) \<in> set (document_windows s d)"
    using assms(2) t unfolding document_windows_def by auto
  then show ?thesis using that c w by simp
qed

section \<open>The store after an ingestion\<close>

lemma snapshot_dumps: "\<exists>digest. json_digest True (snapshot_value ds cs) = Inr digest"
proof -
  have "\<exists>t. json_dumps True (PList (map (\<lambda>d. PDict
          [(KStr ''document_id'', PStr (rb_document_id d)), (KStr ''version'', PStr (rb_version d)),
           (KStr ''content_digest'', PStr (rb_content_digest d)),
           (KStr ''status'', PStr (status_value (rb_status d)))]) ds)) = Inr t"
    by (simp add: sbind_Inr_iff smap_total)
  moreover have "\<exists>t. json_dumps True (PList (map (\<lambda>c. PDict
          [(KStr ''chunk_id'', PStr (kc_chunk_id c)),
           (KStr ''content_digest'', PStr (kc_content_digest c))]) cs)) = Inr t"
    by (simp add: sbind_Inr_iff smap_total)
  ultimately show ?thesis by (auto simp: snapshot_value_def json_digest_def simp del: json_dumps.simps(6))
qed

lemma store_snapshot_total: "\<exists>snap. store_snapshot st = Inr snap"
  using snapshot_dumps [of "all_documents st" "all_chunks st"]
  by (auto simp: store_snapshot_def calculate_snapshot_def map_error_def sbind_def split: sum.splits)

lemma ingestion_result_total:
  "\<exists>res. ingestion_result_of d n b st = (Inr res, st) \<and> ir_created_chunks res = n \<and> ir_reused res = b
     \<and> store_snapshot st = Inr (ir_snapshot res)"
  using store_snapshot_total [of st] by (auto simp: ingestion_result_of_def)

lemma ingest_fresh:
  assumes "get_document st (rb_document_id d) (rb_version d) = None" and "chunks_of s d = Some cs"
  shows "\<exists>res st'. ingest s d st = Some (Inr res, st')
    \<and> st' = st\<lparr>kn_documents := dset (document_key d) d (kn_documents st),
              kn_chunks := update_all kc_chunk_id cs (kn_chunks st)\<rparr>
    \<and> ir_created_chunks res = length cs \<and> \<not> ir_reused res \<and> store_snapshot st' = Inr (ir_snapshot res)"
proof -
  let ?st' = "st\<lparr>kn_documents := dset (document_key d) d (kn_documents st),
                 kn_chunks := update_all kc_chunk_id cs (kn_chunks st)\<rparr>"
  have "dget (kn_documents st) (document_key d) = None"
    using assms(1) by (simp add: get_document_def document_key_def)
  then have "bnd (add_document d cs) (\<lambda>_. ingestion_result_of d (length cs) False) st
      = ingestion_result_of d (length cs) False ?st'"
    by (simp add: add_document_def bnd_def)
  then show ?thesis using assms ingestion_result_total [of d "length cs" False ?st'] by (auto simp: ingest_def)
qed

lemma ingest_known:
  assumes "get_document st (rb_document_id d) (rb_version d) = Some old"
  shows "if rb_content_digest old = rb_content_digest d
    then \<exists>res. ingest s d st = Some (Inr res, st) \<and> ir_created_chunks res = 0 \<and> ir_reused res
      \<and> store_snapshot st = Inr (ir_snapshot res)
    else ingest s d st = Some (Inl (KnowledgeError ''document identity is immutable; use a new version''), st)"
  using assms ingestion_result_total [of d 0 True st] by (auto simp: ingest_def)

section \<open>Properties\<close>

definition sample_runbook :: runbook_document where
  "sample_runbook =
     \<lparr>rb_document_id = ''doc'', rb_version = ''1'', rb_source = ''s'', rb_trust_level = Internal,
      rb_content = ''# T'' @ [newline, newline] @ ''abc'', rb_policy_key = ''p'', rb_effective_at = ''now'',
      rb_status = Active, rb_rule_digest = None\<rparr>"

lemma sample_sections:
  "markdown_sections (''# T'' @ [newline, newline] @ ''abc'')
     = [\<lparr>ms_heading_path = [''T''], ms_start = 4, ms_text = ''abc''\<rparr>]"
  by code_simp

text \<open>
  How a text of \<open>n\<close> characters is to be cut: from its first to its last character, in windows of
  at most \<open>m\<close> characters, all but the last of exactly \<open>m\<close> and short of the end, each of which shares
  \<open>v\<close> characters with the next.
\<close>

definition cuts :: "nat \<Rightarrow> nat \<Rightarrow> nat \<Rightarrow> (nat \<times> nat) list \<Rightarrow> bool" where
  "cuts m v n ws \<longleftrightarrow>
     (if n = 0 then ws = []
      else ws \<noteq> [] \<and> fst (hd ws) = 0 \<and> snd (last ws) = n
        \<and> (\<forall>(a, b) \<in> set ws. a < b \<and> b \<le> a + m)
        \<and> (\<forall>j. Suc j < length ws \<longrightarrow> snd (ws ! j) < n \<and> snd (ws ! j) = fst (ws ! j) + m
              \<and> fst (ws ! Suc j) + v = snd (ws ! j)))"

lemma cuts_windows:
  assumes "v < m"
  shows "cuts m v n (map (window_of m v n) [0..<window_count m v n])"
proof (cases "n = 0")
  case True
  then show ?thesis by (simp add: cuts_def window_count_def)
next
  case False
  let ?k = "window_count m v n"
  let ?ws = "map (window_of m v n) [0..<?k]"
  have k: "0 < ?k" using False by (simp add: window_count_def)
  note le = window_last [OF assms, of n]
  have "n \<le> (?k - 1) * (m - v) + m" using le [of "?k - 1"] False k by simp
  then have last: "snd (last ?ws) = n"
    using k by (simp add: last_map window_of_def)
  have each: "a < b \<and> b \<le> a + m" if "(a, b) \<in> set ?ws" for a b
    using that window_starts [OF assms, of _ n] assms by (auto simp: window_of_def)
  have "j * (m - v) + m < n" if "Suc j < ?k" for j using le [of j] that False by simp
  then have step: "snd (window_of m v n j) < n \<and> snd (window_of m v n j) = fst (window_of m v n j) + m
      \<and> fst (window_of m v n (Suc j)) + v = snd (window_of m v n j)" if "Suc j < ?k" for j
    using that assms by (simp add: window_of_def less_imp_le min_absorb2)
  have nth: "?ws ! j = window_of m v n j" if "j < ?k" for j using that by simp
  have steps: "snd (?ws ! j) < n \<and> snd (?ws ! j) = fst (?ws ! j) + m
      \<and> fst (?ws ! Suc j) + v = snd (?ws ! j)" if "Suc j < length ?ws" for j
  proof -
    have l: "Suc j < ?k" using that by simp
    show ?thesis unfolding nth [OF l] nth [OF Suc_lessD [OF l]] by (rule step [OF l])
  qed
  have "?ws \<noteq> []" and "fst (hd ?ws) = 0" using k by (simp_all add: hd_map window_of_def)
  then show ?thesis unfolding cuts_def using False last each steps by (simp only: if_False) blast
qed

text \<open>The chunks of the windows of a section: headings, offsets and text, the blank ones left out.\<close>

definition section_chunks ::
  "markdown_section \<Rightarrow> (nat \<times> nat) list \<Rightarrow> (string list \<times> nat \<times> nat \<times> string) list" where
  "section_chunks sec ws =
     map (\<lambda>(a, b). (ms_heading_path sec, ms_start sec + a, ms_start sec + b, strip (slice a b (ms_text sec))))
       (filter (\<lambda>(a, b). strip (slice a b (ms_text sec)) \<noteq> []) ws)"

definition chunk_view :: "knowledge_chunk \<Rightarrow> string list \<times> nat \<times> nat \<times> string" where
  "chunk_view c = (kc_heading_path c, kc_start_offset c, kc_end_offset c, kc_content c)"

lemma chunk_view_windows:
  "map chunk_view (map (window_chunk d) (enumerate 0 (document_windows s d)))
     = concat (map2 section_chunks (markdown_sections (normalized_content (rb_content d)))
         (map (\<lambda>sec. map (section_window s sec)
             [0..<window_count (is_max_chunk_chars s) (is_overlap_chars s) (length (ms_text sec))])
           (markdown_sections (normalized_content (rb_content d)))))"
proof -
  let ?g = "\<lambda>w. (ms_heading_path (fst w), ms_start (fst w) + fst (snd w), ms_start (fst w) + snd (snd w), window_text w)"
  have "chunk_view \<circ> window_chunk d = ?g \<circ> snd"
    by (rule ext) (auto simp: chunk_view_def chunk_fields split: prod.splits)
  then have "map chunk_view (map (window_chunk d) (enumerate 0 (document_windows s d)))
      = map ?g (map snd (enumerate 0 (document_windows s d)))" unfolding map_map by (rule arg_cong)
  then have e: "map chunk_view (map (window_chunk d) (enumerate 0 (document_windows s d)))
      = map ?g (document_windows s d)" by (simp only: map_snd_enumerate)
  have sec: "map ?g (filter (\<lambda>w. window_text w \<noteq> []) (section_windows s sec)) = section_chunks sec
      (map (section_window s sec)
         [0..<window_count (is_max_chunk_chars s) (is_overlap_chars s) (length (ms_text sec))])" for sec
    by (simp add: section_chunks_def section_windows_def filter_map comp_def window_text_def case_prod_unfold)
  have "map ?g (filter (\<lambda>w. window_text w \<noteq> []) (concat (map (section_windows s) secs)))
      = concat (map2 section_chunks secs (map (\<lambda>sec. map (section_window s sec)
          [0..<window_count (is_max_chunk_chars s) (is_overlap_chars s) (length (ms_text sec))]) secs))" for secs
    by (induction secs) (simp_all add: sec)
  then show ?thesis unfolding e unfolding document_windows_def .
qed

text \<open>
  C29: Cutting a document into chunks ends for every size and overlap that the service accepts. The
  chunks are, in order, the trimmed windows of its sections with the headings and offsets of each,
  the blank ones left out: every section is cut from its beginning to its end in windows of the
  configured size that overlap by exactly the configured number of characters. The chunks are
  numbered from 0, hold at least one and at most the configured number of characters, and carry the
  digest of their text; and every character of every section that is not a space lies in a chunk
  with the headings of the section.
\<close>

theorem chunks_cover_document:
  assumes "make_ingestion m v = Inr s"
  shows "\<exists>cs windows. chunks_of s d = Some cs
    \<and> list_all2 (\<lambda>sec ws. cuts (nat m) (nat v) (length (ms_text sec)) ws)
        (markdown_sections (normalized_content (rb_content d))) windows
    \<and> map chunk_view cs
        = concat (map2 section_chunks (markdown_sections (normalized_content (rb_content d))) windows)
    \<and> map kc_position cs = [0..<length cs]
    \<and> (\<forall>c \<in> set cs. kc_content c \<noteq> [] \<and> int (length (kc_content c)) \<le> m
          \<and> kc_content_digest c = text_hexdigest (kc_content c))
    \<and> (\<forall>sec \<in> set (markdown_sections (normalized_content (rb_content d))). \<forall>i < length (ms_text sec).
          \<not> py_space (ms_text sec ! i) \<longrightarrow>
          (\<exists>c \<in> set cs. kc_heading_path c = ms_heading_path sec
             \<and> kc_start_offset c \<le> ms_start sec + i \<and> ms_start sec + i < kc_end_offset c))"
proof -
  have s: "0 \<le> v" "v < m" "s = \<lparr>is_max_chunk_chars = nat m, is_overlap_chars = nat v\<rparr>"
    using assms by (simp_all add: make_ingestion_Inr)
  then have v: "is_overlap_chars s < is_max_chunk_chars s" and max: "int (is_max_chunk_chars s) = m" by auto
  define cs where "cs = map (window_chunk d) (enumerate 0 (document_windows s d))"
  have made: "chunks_of s d = Some cs" unfolding cs_def by (rule chunks_of_windows [OF v])
  have "kc_position \<circ> window_chunk d = fst" by (rule ext) (auto simp: chunk_fields split: prod.splits)
  then have "map kc_position cs = [0..<length cs]" by (simp add: cs_def)
  moreover have "kc_content c \<noteq> [] \<and> int (length (kc_content c)) \<le> m
      \<and> kc_content_digest c = text_hexdigest (kc_content c)" if c: "c \<in> set cs" for c
  proof -
    obtain p sec a b where w: "(sec, a, b) \<in> set (document_windows s d)" and e: "c = window_chunk d (p, sec, a, b)"
      using c by (auto simp: cs_def in_set_enumerate_eq) (metis nth_mem prod_cases3)
    have "length (kc_content c) \<le> is_max_chunk_chars s"
      using window_text_length [of sec a b] document_windowD(2) [OF w] by (simp add: e chunk_fields)
    then show ?thesis using document_windowD(1) [OF w] max by (simp add: e chunk_fields)
  qed
  moreover have "\<exists>c \<in> set cs. kc_heading_path c = ms_heading_path sec
       \<and> kc_start_offset c \<le> ms_start sec + i \<and> ms_start sec + i < kc_end_offset c"
    if sec: "sec \<in> set (markdown_sections (normalized_content (rb_content d)))" "i < length (ms_text sec)"
      "\<not> py_space (ms_text sec ! i)" for sec i
  proof -
    obtain a b where w: "(sec, a, b) \<in> set (document_windows s d)" and ab: "a \<le> i" "i < b"
      by (rule document_windowI [OF v sec])
    from w obtain p where "p < length (document_windows s d)" and "document_windows s d ! p = (sec, a, b)"
      unfolding in_set_conv_nth by blast
    then have "(p, sec, a, b) \<in> set (enumerate 0 (document_windows s d))" by (simp add: in_set_enumerate_eq)
    then have "window_chunk d (p, sec, a, b) \<in> set cs" by (simp add: cs_def)
    then show ?thesis using ab
      by (intro bexI [of _ "window_chunk d (p, sec, a, b)"]) (simp_all add: chunk_fields)
  qed
  moreover note chunk_view_windows [of d s, folded cs_def]
  moreover have "list_all2 (\<lambda>sec ws. cuts (nat m) (nat v) (length (ms_text sec)) ws)
      (markdown_sections (normalized_content (rb_content d)))
      (map (\<lambda>sec. map (section_window s sec)
          [0..<window_count (is_max_chunk_chars s) (is_overlap_chars s) (length (ms_text sec))])
        (markdown_sections (normalized_content (rb_content d))))"
    using v s(3) by (auto simp: list_all2_conv_all_nth section_window_def [abs_def] intro: cuts_windows)
  ultimately show ?thesis using made by blast
qed

text \<open>A document with one section of three letters, cut in windows of two that overlap by one.\<close>

theorem chunks_cover_document_witness:
  "\<exists>s cs. make_ingestion 2 1 = Inr s \<and> chunks_of s sample_runbook = Some cs
     \<and> map kc_content cs = [''ab'', ''bc'']"
proof -
  let ?s = "\<lparr>is_max_chunk_chars = nat 2, is_overlap_chars = nat 1\<rparr>"
  have s: "make_ingestion 2 1 = Inr ?s" by (subst make_ingestion_Inr) simp
  let ?sec = "\<lparr>ms_heading_path = [''T''], ms_start = 4, ms_text = ''abc''\<rparr>"
  have sections: "markdown_sections (normalized_content (rb_content sample_runbook)) = [?sec]"
    by code_simp
  obtain cs ws where cs: "chunks_of ?s sample_runbook = Some cs" and w: "cuts 2 1 3 ws"
    and v: "map chunk_view cs = section_chunks ?sec ws"
  proof -
    from chunks_cover_document [OF s, of sample_runbook] obtain cs ws where "chunks_of ?s sample_runbook = Some cs"
      and "list_all2 (\<lambda>sec. cuts (nat 2) (nat 1) (length (ms_text sec))) [?sec] ws"
      and "map chunk_view cs = concat (map2 section_chunks [?sec] ws)" unfolding sections by blast
    then show ?thesis by (intro that [of cs "hd ws"]) (auto simp: list_all2_Cons1 numeral_3_eq_3)
  qed
  have "ws = [(0, 2), (1, 3)]"
  proof -
    obtain a b xs where ws: "ws = (a, b) # xs" and a: "a = 0" using w by (cases ws) (auto simp: cuts_def)
    have "b \<le> 2" using w ws a by (auto simp: cuts_def)
    then have "xs \<noteq> []" using w ws by (auto simp: cuts_def)
    then obtain a2 b2 ys where xs: "xs = (a2, b2) # ys" by (cases xs) auto
    have "b = 2 \<and> a2 = 1" using w a unfolding cuts_def ws xs by force
    moreover have "ys = []"
    proof (rule ccontr)
      assume "ys \<noteq> []"
      then have "b2 = a2 + 2 \<and> b2 < 3" using w unfolding cuts_def ws xs by (auto dest!: spec [of _ 1])
      then show False using \<open>b = 2 \<and> a2 = 1\<close> by linarith
    qed
    ultimately show ?thesis using w a unfolding cuts_def ws xs by simp
  qed
  then have "map chunk_view cs = [([''T''], 4, 6, ''ab''), ([''T''], 5, 7, ''bc'')]"
    unfolding v by (simp add: section_chunks_def) code_simp
  then have "map (\<lambda>c. snd (snd (snd (chunk_view c)))) cs = [''ab'', ''bc'']" by (auto simp: map_eq_Cons_conv)
  then have "map kc_content cs = [''ab'', ''bc'']" by (simp add: chunk_view_def)
  then show ?thesis using s cs by (intro exI [of _ ?s] exI [of _ cs]) simp
qed

text \<open>
  The sections of a document hold exactly its lines: read in order, the lines of the sections
  that are not blank, each with the headings of its section, are those that the recursive outline
  of the document tells, whenever there is any text outside the headings.
\<close>

theorem sections_outline:
  assumes "outline [] (split_at newline content) \<noteq> []"
  shows "concat (map section_lines (markdown_sections content)) = outline [] (split_at newline content)"
  using assms by (rule sections_hold_lines)

theorem sections_outline_witness:
  "concat (map section_lines (markdown_sections (''# T'' @ [newline, newline] @ ''abc''))) = [([''T''], ''abc'')]"
proof -
  have e: "outline [] (split_at newline (''# T'' @ [newline, newline] @ ''abc'')) = [([''T''], ''abc'')]"
    by code_simp
  then have "outline [] (split_at newline (''# T'' @ [newline, newline] @ ''abc'')) \<noteq> []" by simp
  from sections_outline [OF this] show ?thesis unfolding e .
qed

text \<open>
  C30: An ingestion refuses exactly a document whose version is already stored with another content,
  and then leaves the store as it was; otherwise the document is stored under its version, and
  ingesting it once more creates nothing, changes nothing and reports the same snapshot.
\<close>

theorem ingest_repeatable:
  assumes "make_ingestion m v = Inr s"
  shows "case get_document st (rb_document_id d) (rb_version d) of
      Some old \<Rightarrow> (if rb_content_digest old \<noteq> rb_content_digest d
        then ingest s d st
          = Some (Inl (KnowledgeError ''document identity is immutable; use a new version''), st)
        else \<exists>res. ingest s d st = Some (Inr res, st) \<and> ir_reused res)
    | None \<Rightarrow> (\<exists>res st' res'. ingest s d st = Some (Inr res, st') \<and> \<not> ir_reused res
        \<and> get_document st' (rb_document_id d) (rb_version d) = Some d
        \<and> (\<forall>k. k \<noteq> document_key d \<longrightarrow> dget (kn_documents st') k = dget (kn_documents st) k)
        \<and> ingest s d st' = Some (Inr res', st') \<and> ir_reused res' \<and> ir_created_chunks res' = 0
        \<and> ir_snapshot res' = ir_snapshot res)"
proof (cases "get_document st (rb_document_id d) (rb_version d)")
  case (Some old)
  then show ?thesis using ingest_known [OF Some, of s] by (auto split: if_splits)
next
  case None
  have "is_overlap_chars s < is_max_chunk_chars s" using assms by (auto simp: make_ingestion_Inr)
  from chunks_of_windows [OF this] obtain cs where "chunks_of s d = Some cs" by blast
  from ingest_fresh [OF None this] obtain res st' where res: "ingest s d st = Some (Inr res, st')" "\<not> ir_reused res"
    and st': "st' = st\<lparr>kn_documents := dset (document_key d) d (kn_documents st),
                      kn_chunks := update_all kc_chunk_id cs (kn_chunks st)\<rparr>"
    and snap: "store_snapshot st' = Inr (ir_snapshot res)" by blast
  have g: "get_document st' (rb_document_id d) (rb_version d) = Some d"
    by (simp add: st' get_document_def document_key_def)
  have o: "\<forall>k. k \<noteq> document_key d \<longrightarrow> dget (kn_documents st') k = dget (kn_documents st) k"
    by (simp add: st')
  from ingest_known [OF g, of s] obtain res' where res': "ingest s d st' = Some (Inr res', st')"
    "ir_created_chunks res' = 0" "ir_reused res'" "store_snapshot st' = Inr (ir_snapshot res')" by auto
  then have "ir_snapshot res' = ir_snapshot res" using snap by simp
  then have "\<exists>res st' res'. ingest s d st = Some (Inr res, st') \<and> \<not> ir_reused res
        \<and> get_document st' (rb_document_id d) (rb_version d) = Some d
        \<and> (\<forall>k. k \<noteq> document_key d \<longrightarrow> dget (kn_documents st') k = dget (kn_documents st) k)
        \<and> ingest s d st' = Some (Inr res', st') \<and> ir_reused res' \<and> ir_created_chunks res' = 0
        \<and> ir_snapshot res' = ir_snapshot res"
    using res g o res'(1,2,3) by blast
  then show ?thesis by (simp add: None)
qed

theorem ingest_repeatable_witness:
  "\<exists>s st' res'. make_ingestion 800 120 = Inr s
     \<and> ingest s sample_runbook st' = Some (Inr res', st') \<and> ir_reused res'"
proof -
  let ?s = "\<lparr>is_max_chunk_chars = nat 800, is_overlap_chars = nat 120\<rparr>"
  let ?st = "\<lparr>kn_documents = [], kn_chunks = []\<rparr>"
  have s: "make_ingestion 800 120 = Inr ?s" by (subst make_ingestion_Inr) simp
  have "get_document ?st (rb_document_id sample_runbook) (rb_version sample_runbook) = None"
    by (simp add: get_document_def)
  with ingest_repeatable [OF s, of sample_runbook ?st] show ?thesis using s by auto
qed

section \<open>Two flaws\<close>

text \<open>
  The text of a section is stripped but its start is not moved: the offsets of the chunk of
  \<open>sample_runbook\<close> delimit other characters of the document than the chunk holds.
\<close>

lemma offsets_miss_the_text:
  "markdown_sections (rb_content sample_runbook) = [\<lparr>ms_heading_path = [''T''], ms_start = 4, ms_text = ''abc''\<rparr>]"
  "slice 4 7 (rb_content sample_runbook) = newline # ''ab''"
  using sample_sections by (simp_all add: sample_runbook_def slice_def)

text \<open>
  The parts of a chunk id are joined by colons, which ids and versions may hold: chunks of different
  documents get the same id, and the store keeps one of them.
\<close>

lemma chunk_ids_collide:
  assumes "rb_document_id d = ''a:b''" and "rb_version d = ''c''"
    and "rb_document_id e = ''a''" and "rb_version e = ''b:c''"
  shows "kc_chunk_id (chunk_of d sec a b text p) = kc_chunk_id (chunk_of e sec a b text p)"
    and "document_key d \<noteq> document_key e"
  using assms by (simp_all add: chunk_of_def Let_def chunk_id_text_def document_key_def)

end
