(* ===== verification/Tool_Calling.thy ===== *)
theory Tool_Calling
  imports Model_Gateway Json_Text
begin

text \<open>
  \<open>planning/application/tool_calling.py\<close>: the bounded loop that lets a chat model call read-only
  tools before it answers. The chat model, what a tool reads, the clock and the JSON parser are
  parameters; the world is the state they act on.
\<close>

section \<open>Turns and tools\<close>

record chat_tool_definition =
  ct_name :: string
  ct_description :: string
  ct_input_schema :: "(pykey, pyval) dict"

record chat_tool_call =
  cl_tool_call_id :: string
  cl_name :: string
  cl_arguments :: "(pykey, pyval) dict"

record chat_turn =
  tu_content :: "string option"
  tu_tool_calls :: "chat_tool_call list"
  tu_usage :: model_usage
  tu_model :: string
  tu_latency_ms :: nat
  tu_finish_reason :: string

text \<open>
  What a tool may raise: the exceptions the loop turns into its own error (\<open>OSError\<close>,
  \<open>ValueError\<close>), known by their text, and all others.
\<close>

datatype tool_exception = ReadFailure string | OtherFailure planning_error

record 'w read_only_tool =
  rd_definition :: chat_tool_definition
  rd_input_model :: model_type
  rd_execute :: "(string \<times> pyval) list \<Rightarrow> ('w, tool_exception, (pykey, pyval) dict) act"

record tool_call_trace =
  tt_round :: nat
  tt_tool_call_id :: string
  tt_tool_name :: string
  tt_status :: string
  tt_latency_ms :: nat
  tt_arguments :: "(pykey, pyval) dict"
  tt_output_summary :: string

type_synonym 'w read_only_tools = "(string, 'w read_only_tool) dict"

text \<open>\<open>ReadOnlyToolRegistry\<close>.\<close>

definition add_read_only_tool ::
  "'w read_only_tool \<Rightarrow> 'w read_only_tools \<Rightarrow> planning_error + 'w read_only_tools" where
  "add_read_only_tool tool tools =
     (let name = ct_name (rd_definition tool)
      in if name \<in> set (keys tools)
         then Inl (Raised (ValueError (''duplicate read-only tool '' @ py_repr name)))
         else Inr (dset name tool tools))"

definition make_read_only_tools :: "'w read_only_tool list \<Rightarrow> planning_error + 'w read_only_tools" where
  "make_read_only_tools ts = sfold add_read_only_tool ts []"

definition tool_definitions :: "'w read_only_tools \<Rightarrow> chat_tool_definition list" where
  "tool_definitions tools = map (\<lambda>name. rd_definition (the (dget tools name))) (sort (keys tools))"

definition resolve_tool :: "'w read_only_tools \<Rightarrow> string \<Rightarrow> planning_error + 'w read_only_tool" where
  "resolve_tool tools name =
     or_raise (dget tools name)
       (PermanentModelError (''model requested unregistered tool '' @ py_repr name))"

section \<open>The gateway\<close>

record 'w tool_gateway_config =
  tg_complete :: "pyval list \<Rightarrow> chat_tool_definition list \<Rightarrow> int \<Rightarrow> ('w, planning_error, chat_turn) act"
  tg_tools :: "'w read_only_tools"
  tg_max_tool_rounds :: nat
  tg_elapsed_ms :: "'w \<Rightarrow> 'w \<Rightarrow> int"
  tg_loads :: "string \<Rightarrow> pyval option"

record 'w tool_gateway =
  tg_world :: 'w
  tg_traces :: "tool_call_trace list"

definition check_tool_rounds :: "int \<Rightarrow> planning_error + nat" where
  "check_tool_rounds n =
     sbind (guard (0 \<le> n) (Raised (ValueError ''max_tool_rounds cannot be negative''))) (\<lambda>_. Inr (nat n))"

definition on_world :: "('w, 'e, 'a) act \<Rightarrow> ('w tool_gateway, 'e, 'a) act" where
  "on_world m s = (case m (tg_world s) of (a, w) \<Rightarrow> (a, s\<lparr>tg_world := w\<rparr>))"

definition add_trace :: "tool_call_trace \<Rightarrow> 'w tool_gateway \<Rightarrow> 'w tool_gateway" where
  "add_trace t s = s\<lparr>tg_traces := tg_traces s @ [t]\<rparr>"

text \<open>The part of \<open>_execute_tool\<close> under its \<open>try\<close>.\<close>

definition call_tool ::
  "'w read_only_tool \<Rightarrow> (pykey, pyval) dict \<Rightarrow> ('w, tool_exception, (pykey, pyval) dict) act" where
  "call_tool tool arguments =
     (case mt_validate (rd_input_model tool) arguments of
        Inl m \<Rightarrow> raise_act (ReadFailure m)
      | Inr validated \<Rightarrow> rd_execute tool validated)"

definition execute_tool ::
  "'w tool_gateway_config \<Rightarrow> nat \<Rightarrow> chat_tool_call \<Rightarrow>
   ('w tool_gateway, planning_error, (pykey, pyval) dict) act" where
  "execute_tool c round_number call s =
     (case resolve_tool (tg_tools c) (cl_name call) of
        Inl e \<Rightarrow> (Inl e, s)
      | Inr tool \<Rightarrow>
          (let (answer, w) = call_tool tool (cl_arguments call) (tg_world s);
               latency_ms = nat (max 0 (tg_elapsed_ms c (tg_world s) w));
               s' = s\<lparr>tg_world := w\<rparr>;
               trace = (\<lambda>status summary.
                 \<lparr>tt_round = round_number, tt_tool_call_id = cl_tool_call_id call,
                  tt_tool_name = cl_name call, tt_status = status, tt_latency_ms = latency_ms,
                  tt_arguments = cl_arguments call, tt_output_summary = summary\<rparr>)
           in case answer of
                Inl (ReadFailure m) \<Rightarrow>
                  (Inl (PermanentModelError (''read-only tool '' @ py_repr (cl_name call) @ '' failed'')),
                   add_trace (trace ''failed'' (take 500 m)) s')
              | Inl (OtherFailure e) \<Rightarrow> (Inl e, s')
              | Inr output \<Rightarrow>
                  (case json_text (PDict output) of
                     Inl e \<Rightarrow> (Inl (Raised e), s')
                   | Inr t \<Rightarrow> (Inr output, add_trace (trace ''succeeded'' (take 500 t)) s'))))"

definition call_value :: "chat_tool_call \<Rightarrow> planning_error + pyval" where
  "call_value call =
     sbind (map_error Raised (json_text (PDict (cl_arguments call)))) (\<lambda>arguments.
     Inr (PDict [(KStr ''id'', PStr (cl_tool_call_id call)), (KStr ''type'', PStr ''function''),
                 (KStr ''function'', PDict [(KStr ''name'', PStr (cl_name call)),
                                          (KStr ''arguments'', PStr arguments)])]))"

definition assistant_message :: "chat_turn \<Rightarrow> planning_error + pyval" where
  "assistant_message turn =
     sbind (smap call_value (tu_tool_calls turn)) (\<lambda>calls.
     Inr (PDict [(KStr ''role'', PStr ''assistant''),
                 (KStr ''content'', (case tu_content turn of None \<Rightarrow> PNone | Some t \<Rightarrow> PStr t)),
                 (KStr ''tool_calls'', PList calls)]))"

text \<open>The loop over the calls of a turn: each result becomes a message.\<close>

definition answer_call ::
  "'w tool_gateway_config \<Rightarrow> nat \<Rightarrow> chat_tool_call \<Rightarrow> pyval list \<Rightarrow> ('w tool_gateway, planning_error, pyval list) act" where
  "answer_call c round_number call messages =
     bnd (execute_tool c round_number call) (\<lambda>output.
     bnd (lift_res (map_error Raised (json_text (PDict output)))) (\<lambda>content.
     ret (messages @ [PDict [(KStr ''role'', PStr ''tool''),
                             (KStr ''tool_call_id'', PStr (cl_tool_call_id call)),
                             (KStr ''content'', PStr content)]])))"

text \<open>What the rounds add up.\<close>

record totals =
  to_input :: nat
  to_output :: nat
  to_tokens :: nat
  to_latency :: nat

definition add_turn :: "chat_turn \<Rightarrow> totals \<Rightarrow> totals" where
  "add_turn turn t =
     \<lparr>to_input = to_input t + mu_input_tokens (tu_usage turn),
      to_output = to_output t + mu_output_tokens (tu_usage turn),
      to_tokens = to_tokens t + mu_total_tokens (tu_usage turn),
      to_latency = to_latency t + tu_latency_ms turn\<rparr>"

text \<open>A turn without tool calls: its content has to be a JSON object.\<close>

definition final_response ::
  "'w tool_gateway_config \<Rightarrow> chat_turn \<Rightarrow> totals \<Rightarrow> planning_error + model_response" where
  "final_response c turn t =
     (case tu_content turn of
        Some (x # xs) \<Rightarrow>
          (case tg_loads c (x # xs) of
             None \<Rightarrow> Inl (PermanentModelError ''model returned invalid JSON after tool calling'')
           | Some (PDict payload) \<Rightarrow>
               Inr \<lparr>mr_payload = payload,
                    mr_usage = \<lparr>mu_input_tokens = to_input t, mu_output_tokens = to_output t,
                                mu_total_tokens = to_tokens t\<rparr>,
                    mr_model = tu_model turn, mr_latency_ms = to_latency t,
                    mr_finish_reason = tu_finish_reason turn, mr_cache_hit = False\<rparr>
           | Some _ \<Rightarrow> Inl (PermanentModelError ''model JSON response must be an object''))
      | _ \<Rightarrow> Inl (PermanentModelError ''model returned neither JSON content nor tool calls''))"

fun run_rounds ::
  "'w tool_gateway_config \<Rightarrow> model_request \<Rightarrow> nat list \<Rightarrow> pyval list \<Rightarrow> totals \<Rightarrow>
   ('w tool_gateway, planning_error, model_response) act" where
  "run_rounds c q [] messages t = raise_act (PermanentModelError ''model did not produce a final plan'')"
| "run_rounds c q (round_number # rounds) messages t =
     bnd (on_world (tg_complete c messages (tool_definitions (tg_tools c)) (mq_max_output_tokens q))) (\<lambda>turn.
     let t' = add_turn turn t in
     if tu_tool_calls turn \<noteq> [] then
       if tg_max_tool_rounds c < round_number
       then raise_act (PermanentModelError ''native tool-calling round limit exceeded'')
       else bnd (lift_res (assistant_message turn)) (\<lambda>m.
            bnd (afold (answer_call c round_number) (tu_tool_calls turn) (messages @ [m])) (\<lambda>messages'.
            run_rounds c q rounds messages' t'))
     else lift_res (final_response c turn t'))"

definition start_messages :: "model_request \<Rightarrow> pyval list" where
  "start_messages q =
     map (\<lambda>m. PDict [(KStr ''role'', PStr (mm_role m)), (KStr ''content'', PStr (mm_content m))]) (mq_messages q)"

definition generate_with_tools ::
  "'w tool_gateway_config \<Rightarrow> model_request \<Rightarrow> ('w tool_gateway, planning_error, model_response) act" where
  "generate_with_tools c q =
     run_rounds c q [1..<tg_max_tool_rounds c + 2] (start_messages q)
       \<lparr>to_input = 0, to_output = 0, to_tokens = 0, to_latency = 0\<rparr>"

section \<open>What a generation does\<close>

text \<open>The tools' records: only registered tools are read, in the rounds that are allowed.\<close>

definition fair_traces :: "'w tool_gateway_config \<Rightarrow> nat \<Rightarrow> tool_call_trace list \<Rightarrow> bool" where
  "fair_traces c k ts \<longleftrightarrow>
     (\<forall>t \<in> set ts. dget (tg_tools c) (tt_tool_name t) \<noteq> None \<and> k \<le> tt_round t \<and> tt_round t \<le> tg_max_tool_rounds c)"

lemma fair_traces_append [simp]:
  "fair_traces c k (xs @ ys) \<longleftrightarrow> fair_traces c k xs \<and> fair_traces c k ys"
  by (auto simp: fair_traces_def)

lemma fair_traces_mono: "fair_traces c k ts \<Longrightarrow> j \<le> k \<Longrightarrow> fair_traces c j ts"
  by (auto simp: fair_traces_def)

lemma fair_traces_Nil [simp]: "fair_traces c k []"
  by (simp add: fair_traces_def)

text \<open>A view of the world that only a turn of the chat model changes: the turns it has had.\<close>

definition logs_turns :: "'w tool_gateway_config \<Rightarrow> ('w \<Rightarrow> chat_turn list) \<Rightarrow> bool" where
  "logs_turns c logged \<longleftrightarrow>
     (\<forall>msgs ts n w turn w'. tg_complete c msgs ts n w = (Inr turn, w') \<longrightarrow> logged w' = logged w @ [turn])
     \<and> (\<forall>msgs ts n w e w'. tg_complete c msgs ts n w = (Inl e, w') \<longrightarrow> logged w' = logged w)
     \<and> (\<forall>name tool v w. dget (tg_tools c) name = Some tool \<longrightarrow> logged (snd (rd_execute tool v w)) = logged w)"

lemma logs_turns_Inr:
  "logs_turns c logged \<Longrightarrow> tg_complete c msgs ts n w = (Inr turn, w') \<Longrightarrow> logged w' = logged w @ [turn]"
  by (simp add: logs_turns_def)

lemma logs_turns_Inl:
  "logs_turns c logged \<Longrightarrow> tg_complete c msgs ts n w = (Inl e, w') \<Longrightarrow> logged w' = logged w"
  by (simp add: logs_turns_def)

lemma call_tool_log:
  assumes "logs_turns c logged" and "dget (tg_tools c) name = Some tool"
  shows "logged (snd (call_tool tool arguments w)) = logged w"
  using assms by (auto simp: call_tool_def logs_turns_def split: sum.splits)

lemma execute_tool_effect:
  assumes "execute_tool c k call s = (a, s')" and "logs_turns c logged" and "k \<le> tg_max_tool_rounds c"
  shows "logged (tg_world s') = logged (tg_world s)
    \<and> (\<exists>new. tg_traces s' = tg_traces s @ new \<and> fair_traces c k new)"
proof (cases "dget (tg_tools c) (cl_name call)")
  case None
  then show ?thesis using assms(1) by (simp add: execute_tool_def resolve_tool_def)
next
  case (Some tool)
  obtain x w where xw: "call_tool tool (cl_arguments call) (tg_world s) = (x, w)"
    by (cases "call_tool tool (cl_arguments call) (tg_world s)")
  have l: "logged w = logged (tg_world s)" using call_tool_log [OF assms(2) Some, of "cl_arguments call" "tg_world s"] xw by simp
  show ?thesis using assms(1) Some l assms(3)
    by (auto simp: execute_tool_def resolve_tool_def xw add_trace_def fair_traces_def Let_def
        split: sum.splits tool_exception.splits)
qed

lemma answer_call_effect:
  assumes "answer_call c k call ms s = (a, s')" and "logs_turns c logged" and "k \<le> tg_max_tool_rounds c"
  shows "logged (tg_world s') = logged (tg_world s)
    \<and> (\<exists>new. tg_traces s' = tg_traces s @ new \<and> fair_traces c k new)"
proof -
  obtain x s1 where x: "execute_tool c k call s = (x, s1)" by (cases "execute_tool c k call s")
  have "s' = s1" using assms(1) by (simp add: answer_call_def bnd_def x split: sum.splits prod.splits)
  then show ?thesis using execute_tool_effect [OF x assms(2,3)] by simp
qed

lemma answer_calls_effect:
  assumes "afold (answer_call c k) calls ms s = (a, s')" and "logs_turns c logged" and "k \<le> tg_max_tool_rounds c"
  shows "logged (tg_world s') = logged (tg_world s)
    \<and> (\<exists>new. tg_traces s' = tg_traces s @ new \<and> fair_traces c k new)"
  using assms(1)
proof (induction calls arbitrary: ms s)
  case (Cons call calls)
  obtain x s1 where x: "answer_call c k call ms s = (x, s1)" by (cases "answer_call c k call ms s")
  note first = answer_call_effect [OF x assms(2,3)]
  show ?case
  proof (cases x)
    case (Inl e)
    then show ?thesis using Cons.prems first x by (simp add: bnd_def)
  next
    case (Inr ms')
    then have "afold (answer_call c k) calls ms' s1 = (a, s')" using Cons.prems x by (simp add: bnd_def)
    from Cons.IH [OF this] first show ?thesis by (metis append.assoc fair_traces_append)
  qed
qed simp

text \<open>
  A response to the turns of a generation: the sums of their tokens, of each kind, and of their
  latencies; the model and the finish reason of the last turn, which is the only one without tool
  calls. It is not from the cache. \<open>reports_more\<close> adds what the turns before had summed up to.
\<close>

definition summed :: "(chat_turn \<Rightarrow> nat) \<Rightarrow> chat_turn list \<Rightarrow> nat" where
  "summed f turns = sum_list (map f turns)"

definition reports_turns :: "chat_turn list \<Rightarrow> model_response \<Rightarrow> bool" where
  "reports_turns turns r \<longleftrightarrow> turns \<noteq> [] \<and> \<not> mr_cache_hit r
     \<and> mu_input_tokens (mr_usage r) = summed (\<lambda>u. mu_input_tokens (tu_usage u)) turns
     \<and> mu_output_tokens (mr_usage r) = summed (\<lambda>u. mu_output_tokens (tu_usage u)) turns
     \<and> mu_total_tokens (mr_usage r) = summed (\<lambda>u. mu_total_tokens (tu_usage u)) turns
     \<and> mr_latency_ms r = summed tu_latency_ms turns
     \<and> mr_model r = tu_model (last turns) \<and> mr_finish_reason r = tu_finish_reason (last turns)
     \<and> tu_tool_calls (last turns) = [] \<and> (\<forall>u \<in> set (butlast turns). tu_tool_calls u \<noteq> [])"

definition reports_more :: "totals \<Rightarrow> chat_turn list \<Rightarrow> model_response \<Rightarrow> bool" where
  "reports_more t turns r \<longleftrightarrow> turns \<noteq> [] \<and> \<not> mr_cache_hit r
     \<and> mu_input_tokens (mr_usage r) = to_input t + summed (\<lambda>u. mu_input_tokens (tu_usage u)) turns
     \<and> mu_output_tokens (mr_usage r) = to_output t + summed (\<lambda>u. mu_output_tokens (tu_usage u)) turns
     \<and> mu_total_tokens (mr_usage r) = to_tokens t + summed (\<lambda>u. mu_total_tokens (tu_usage u)) turns
     \<and> mr_latency_ms r = to_latency t + summed tu_latency_ms turns
     \<and> mr_model r = tu_model (last turns) \<and> mr_finish_reason r = tu_finish_reason (last turns)
     \<and> tu_tool_calls (last turns) = [] \<and> (\<forall>u \<in> set (butlast turns). tu_tool_calls u \<noteq> [])"

lemma reports_more_Cons:
  "reports_more (add_turn turn t) turns r \<Longrightarrow> tu_tool_calls turn \<noteq> [] \<Longrightarrow> reports_more t (turn # turns) r"
  by (auto simp: reports_more_def add_turn_def summed_def)

lemma on_world_cases:
  "on_world m s = (a, s') \<Longrightarrow> \<exists>w. m (tg_world s) = (a, w) \<and> s' = s\<lparr>tg_world := w\<rparr>"
  by (auto simp: on_world_def split: prod.splits)

lemma final_response_Inr:
  assumes "final_response c turn t = Inr r"
  shows "\<not> mr_cache_hit r \<and> mr_usage r = \<lparr>mu_input_tokens = to_input t, mu_output_tokens = to_output t,
      mu_total_tokens = to_tokens t\<rparr> \<and> mr_latency_ms r = to_latency t
    \<and> mr_model r = tu_model turn \<and> mr_finish_reason r = tu_finish_reason turn"
  using assms by (auto simp: final_response_def split: option.splits list.splits pyval.splits)

lemma final_response_reports:
  "final_response c turn (add_turn turn t) = Inr r \<Longrightarrow> tu_tool_calls turn = [] \<Longrightarrow> reports_more t [turn] r"
  by (auto dest!: final_response_Inr simp: reports_more_def add_turn_def summed_def)

lemma run_rounds_effect:
  assumes "run_rounds c q [k..<tg_max_tool_rounds c + 2] ms t s = (a, s')" and "logs_turns c logged"
  shows "\<exists>turns. logged (tg_world s') = logged (tg_world s) @ turns \<and> length turns \<le> tg_max_tool_rounds c + 2 - k
    \<and> (\<exists>new. tg_traces s' = tg_traces s @ new \<and> fair_traces c k new)
    \<and> (\<forall>r. a = Inr r \<longrightarrow> reports_more t turns r)"
  using assms(1)
proof (induction "tg_max_tool_rounds c + 2 - k" arbitrary: k ms t s)
  case 0
  then have "[k..<tg_max_tool_rounds c + 2] = []" by simp
  then show ?case using "0.prems" by (auto intro!: exI [of _ "[]"])
next
  case (Suc n)
  have l: "[k..<tg_max_tool_rounds c + 2] = k # [Suc k..<tg_max_tool_rounds c + 2]"
    using Suc.hyps(2) by (intro upt_conv_Cons) simp
  let ?m = "on_world (tg_complete c ms (tool_definitions (tg_tools c)) (mq_max_output_tokens q))"
  obtain x s1 where x: "?m s = (x, s1)" by (cases "?m s")
  from on_world_cases [OF x] obtain w where
    w: "tg_complete c ms (tool_definitions (tg_tools c)) (mq_max_output_tokens q) (tg_world s) = (x, w)"
    and s1: "s1 = s\<lparr>tg_world := w\<rparr>" by blast
  show ?case
  proof (cases x)
    case (Inl e)
    then have "a = Inl e" "s' = s1" using Suc.prems x unfolding l by (simp_all add: bnd_def)
    then show ?thesis using logs_turns_Inl [OF assms(2) w [unfolded Inl]] s1
      by (intro exI [of _ "[]"]) (auto intro!: exI [of _ "[]"])
  next
    case (Inr turn)
    have log1: "logged (tg_world s1) = logged (tg_world s) @ [turn]"
      using logs_turns_Inr [OF assms(2) w [unfolded Inr]] s1 by simp
    have traces1: "tg_traces s1 = tg_traces s" using s1 by simp
    have bound: "1 \<le> tg_max_tool_rounds c + 2 - k" using Suc.hyps(2) by simp
    note run = Suc.prems [unfolded l run_rounds.simps, unfolded bnd_def x Inr prod.case sum.case Let_def, folded bnd_def]
    show ?thesis
    proof (cases "tu_tool_calls turn = []")
      case True
      then have "final_response c turn (add_turn turn t) = a" "s' = s1"
        using run by simp_all
      then show ?thesis using log1 traces1 bound
        by (intro exI [of _ "[turn]"])
          (auto intro!: exI [of _ "[]"] intro: final_response_reports simp: True)
    next
      case False
      show ?thesis
      proof (cases "tg_max_tool_rounds c < k")
        case True
        then have "\<exists>e. a = Inl e" "s' = s1" using run False by auto
        then show ?thesis using log1 traces1 bound
          by (intro exI [of _ "[turn]"]) (auto intro!: exI [of _ "[]"])
      next
        case k: False
        show ?thesis
        proof (cases "assistant_message turn")
          case (Inl e)
          then have "a = Inl e" "s' = s1" using run False k by (simp_all add: bnd_def)
          then show ?thesis using log1 traces1 bound
            by (intro exI [of _ "[turn]"]) (auto intro!: exI [of _ "[]"])
        next
          case (Inr m)
          obtain y s2 where y: "afold (answer_call c k) (tu_tool_calls turn) (ms @ [m]) s1 = (y, s2)"
            by (cases "afold (answer_call c k) (tu_tool_calls turn) (ms @ [m]) s1")
          have "k \<le> tg_max_tool_rounds c" using k by simp
          from answer_calls_effect [OF y assms(2) this] obtain new where log2: "logged (tg_world s2) = logged (tg_world s1)"
            and new: "tg_traces s2 = tg_traces s1 @ new" "fair_traces c k new" by blast
          show ?thesis
          proof (cases y)
            case (Inl e)
            then have "a = Inl e" "s' = s2" using run False k \<open>assistant_message turn = Inr m\<close> y by (simp_all add: bnd_def)
            then show ?thesis using log1 traces1 log2 new bound by (intro exI [of _ "[turn]"]) auto
          next
            case (Inr ms')
            then have "run_rounds c q [Suc k..<tg_max_tool_rounds c + 2] ms' (add_turn turn t) s2 = (a, s')"
              using run False k \<open>assistant_message turn = Inr m\<close> y by (simp add: bnd_def)
            moreover have "n = tg_max_tool_rounds c + 2 - Suc k" using Suc.hyps(2) by simp
            ultimately obtain turns new' where
              t: "logged (tg_world s') = logged (tg_world s2) @ turns" "length turns \<le> tg_max_tool_rounds c + 2 - Suc k"
              and n: "tg_traces s' = tg_traces s2 @ new'" "fair_traces c (Suc k) new'"
              and r: "\<forall>r. a = Inr r \<longrightarrow> reports_more (add_turn turn t) turns r"
              using Suc.hyps(1) [of "Suc k" ms' "add_turn turn t" s2] by blast
            have "fair_traces c k new'" using n(2) by (rule fair_traces_mono) simp
            moreover have "length (turn # turns) \<le> tg_max_tool_rounds c + 2 - k" using t(2) Suc.hyps(2) by simp
            moreover have "\<forall>r. a = Inr r \<longrightarrow> reports_more t (turn # turns) r"
              using r reports_more_Cons False by blast
            ultimately show ?thesis using t(1) n(1) log1 log2 new traces1
              by (intro exI [of _ "turn # turns"] conjI exI [of _ "new @ new'"]) simp_all
          qed
        qed
      qed
    qed
  qed
qed

lemma generate_with_tools_effect:
  assumes "generate_with_tools c q s = (a, s')" and "logs_turns c logged"
  shows "\<exists>turns. logged (tg_world s') = logged (tg_world s) @ turns \<and> length turns \<le> tg_max_tool_rounds c + 1
    \<and> (\<exists>new. tg_traces s' = tg_traces s @ new \<and> fair_traces c 1 new)
    \<and> (\<forall>r. a = Inr r \<longrightarrow> reports_turns turns r)"
  using run_rounds_effect [OF assms(1) [unfolded generate_with_tools_def] assms(2)]
  by (simp add: reports_more_def reports_turns_def)

lemma run_rounds_not_cached: "run_rounds c q rs ms t s = (Inr r, s') \<Longrightarrow> \<not> mr_cache_hit r"
proof (induction rs arbitrary: ms t s)
  case (Cons k rs)
  from Cons.prems obtain turn s1 where
    "(let t' = add_turn turn t in
     if tu_tool_calls turn \<noteq> [] then
       if tg_max_tool_rounds c < k
       then raise_act (PermanentModelError ''native tool-calling round limit exceeded'')
       else bnd (lift_res (assistant_message turn)) (\<lambda>m.
            bnd (afold (answer_call c k) (tu_tool_calls turn) (ms @ [m])) (\<lambda>messages'.
            run_rounds c q rs messages' t'))
     else lift_res (final_response c turn t')) s1 = (Inr r, s')"
    unfolding run_rounds.simps by (rule bnd_eq_InrE)
  then show ?case
    by (auto simp: Let_def split: if_splits elim!: bnd_eq_InrE dest: Cons.IH final_response_Inr)
qed simp

interpretation tool_model: model_port "generate_with_tools c" for c
  by unfold_locales (auto simp: generate_with_tools_def dest: run_rounds_not_cached)

text \<open>So a budgeted gateway around the tool-calling gateway keeps its accounts.\<close>

lemma tool_gateway_accounted:
  "gc_inner c = generate_with_tools tc \<Longrightarrow> gateway_run c g \<Longrightarrow> accounted g"
  using gateway_run_accounted tool_model.model_port_axioms by metis

section \<open>A property\<close>

definition sample_turn :: chat_turn where
  "sample_turn =
     \<lparr>tu_content = Some ''{}'', tu_tool_calls = [],
      tu_usage = \<lparr>mu_input_tokens = 3, mu_output_tokens = 2, mu_total_tokens = 5\<rparr>,
      tu_model = ''m'', tu_latency_ms = 1, tu_finish_reason = ''stop''\<rparr>"

definition sample_call_turn :: chat_turn where
  "sample_call_turn = sample_turn\<lparr>tu_content := None,
     tu_tool_calls := [\<lparr>cl_tool_call_id = ''1'', cl_name = ''look'', cl_arguments = []\<rparr>],
     tu_finish_reason := ''tool_calls''\<rparr>"

definition sample_tool :: "chat_turn list read_only_tool" where
  "sample_tool = \<lparr>rd_definition = \<lparr>ct_name = ''look'', ct_description = [], ct_input_schema = []\<rparr>,
     rd_input_model = \<lparr>mt_name = ''Look'', mt_fields = [], mt_strict = True, mt_frozen = True,
       mt_forbid = True, mt_validate = (\<lambda>_. Inr [])\<rparr>, rd_execute = (\<lambda>v w. (Inr [], w))\<rparr>"

text \<open>A model that calls the tool \<open>look\<close> once and then answers \<open>{}\<close>.\<close>

definition sample_tool_config :: "chat_turn list tool_gateway_config" where
  "sample_tool_config =
     \<lparr>tg_complete = \<lambda>msgs ts n w.
        (let turn = if w = [] then sample_call_turn else sample_turn in (Inr turn, w @ [turn])),
      tg_tools = [(''look'', sample_tool)], tg_max_tool_rounds = 2,
      tg_elapsed_ms = \<lambda>w w'. 0, tg_loads = \<lambda>s. Some (PDict [])\<rparr>"



end
