(* ===== verification/Async_Gateway.thy ===== *)
theory Async_Gateway
  imports Model_Gateway
begin

text \<open>
  The asynchronous half of \<open>planning/application/model_gateway.py\<close>: coroutines that share one gateway.
  A coroutine runs alone between two \<open>await\<close>s; the answer of the model and the end of a pause are
  events that come in any order. So a step of the system is one stretch of one coroutine.
\<close>

section \<open>Coroutines\<close>

record async_config =
  ac_budget :: model_budget
  ac_cache_namespace :: string
  ac_pricing :: model_pricing
  ac_max_retries :: nat

text \<open>
  Where a call of \<open>generate\<close> stands: not yet begun, awaiting the model, awaiting the end of a pause,
  or ended; with the digest of its request and its retries so far.
\<close>

datatype coroutine =
    Fresh model_request
  | Calling string nat
  | Pausing string nat
  | Ended "planning_error + model_response"

type_synonym shared = "unit gateway"

text \<open>From the start to the first \<open>await\<close>.\<close>

definition async_begin :: "async_config \<Rightarrow> model_request \<Rightarrow> shared \<Rightarrow> shared \<times> coroutine" where
  "async_begin c q g =
     (case request_digest (ac_cache_namespace c) q of
        Inl e \<Rightarrow> (g, Ended (Inl e))
      | Inr digest \<Rightarrow>
          (case dget (gw_cache g) digest of
             Some r \<Rightarrow>
               (let response = r\<lparr>mr_cache_hit := True\<rparr>
                in (record_usage (usage_of (ac_pricing c) digest response 0) g, Ended (Inr response)))
           | None \<Rightarrow>
               (if bu_max_calls (ac_budget c) \<le> gw_calls g
                then (g, Ended (Inl (ModelBudgetExceeded ''model call budget exhausted'')))
                else (g\<lparr>gw_calls := gw_calls g + 1\<rparr>, Calling digest 0))))"

text \<open>From the answer of the model to the next \<open>await\<close> or the end.\<close>

definition async_answer ::
  "async_config \<Rightarrow> string \<Rightarrow> nat \<Rightarrow> planning_error + model_response \<Rightarrow> shared \<Rightarrow> shared \<times> coroutine" where
  "async_answer c digest retry_count answer g =
     (case answer of
        Inr response \<Rightarrow>
          (case accept_response (ac_budget c) (ac_pricing c) digest (response, retry_count) g of
             (result, g') \<Rightarrow> (g', Ended result))
      | Inl (TransientModelError m) \<Rightarrow>
          (if ac_max_retries c \<le> retry_count then (g, Ended (Inl (TransientModelError m)))
           else if bu_max_calls (ac_budget c) \<le> gw_calls g
           then (g, Ended (Inl (ModelBudgetExceeded ''model call budget exhausted during retry'')))
           else (g, Pausing digest (retry_count + 1)))
      | Inl e \<Rightarrow> (g, Ended (Inl e)))"

text \<open>From the end of a pause to the next call of the model.\<close>

definition async_wake :: "string \<Rightarrow> nat \<Rightarrow> shared \<Rightarrow> shared \<times> coroutine" where
  "async_wake digest retry_count g = (g\<lparr>gw_calls := gw_calls g + 1\<rparr>, Calling digest retry_count)"

section \<open>Interleaving\<close>

inductive async_step :: "async_config \<Rightarrow> shared \<times> coroutine list \<Rightarrow> shared \<times> coroutine list \<Rightarrow> bool" for c where
  step_begin: "i < length ts \<Longrightarrow> ts ! i = Fresh q \<Longrightarrow> async_begin c q g = (g', t) \<Longrightarrow>
     async_step c (g, ts) (g', ts[i := t])"
| step_answer: "i < length ts \<Longrightarrow> ts ! i = Calling d n \<Longrightarrow> async_answer c d n answer g = (g', t) \<Longrightarrow>
     async_step c (g, ts) (g', ts[i := t])"
| step_wake: "i < length ts \<Longrightarrow> ts ! i = Pausing d n \<Longrightarrow> async_wake d n g = (g', t) \<Longrightarrow>
     async_step c (g, ts) (g', ts[i := t])"

inductive async_run :: "async_config \<Rightarrow> shared \<times> coroutine list \<Rightarrow> bool" for c where
  async_start: "async_run c (new_gateway () cache, map Fresh qs)"
| async_more: "async_run c s \<Longrightarrow> async_step c s s' \<Longrightarrow> async_run c s'"

section \<open>Bounds\<close>

fun pausing :: "coroutine \<Rightarrow> nat" where
  "pausing (Pausing d n) = 1"
| "pausing _ = 0"

definition pauses :: "coroutine list \<Rightarrow> nat" where
  "pauses ts = sum_list (map pausing ts)"

lemma pausing_le: "pausing t \<le> 1"
  by (cases t) simp_all

lemma pauses_le: "pauses ts \<le> length ts"
proof (induction ts)
  case (Cons t ts)
  then show ?case using pausing_le [of t] by (simp add: pauses_def)
qed (simp add: pauses_def)

lemma pauses_update:
  "i < length ts \<Longrightarrow> pauses (ts[i := t]) + pausing (ts ! i) = pauses ts + pausing t"
proof (induction ts arbitrary: i)
  case (Cons u ts)
  then show ?case by (cases i) (auto simp: pauses_def)
qed simp

lemma pauses_less:
  assumes "i < length ts" and "pausing (ts ! i) = 0"
  shows "pauses ts < length ts"
proof -
  have "pauses (ts[i := Pausing [] 0]) = pauses ts + 1" using pauses_update [OF assms(1), of "Pausing [] 0"] assms(2) by simp
  then show ?thesis using pauses_le [of "ts[i := Pausing [] 0]"] by simp
qed

text \<open>
  Every coroutine that pauses was let through while a call was left; so all but one of them may
  overrun the bound when they wake.
\<close>

definition async_bounded :: "async_config \<Rightarrow> shared \<times> coroutine list \<Rightarrow> bool" where
  "async_bounded c s \<longleftrightarrow>
     gw_calls (fst s) + pauses (snd s) \<le> bu_max_calls (ac_budget c) + (length (snd s) - 1)
     \<and> gw_total_tokens (fst s) \<le> bu_max_total_tokens (ac_budget c)
     \<and> cost_allowed (ac_budget c) (gw_cost (fst s))"

lemma async_begin_effect:
  assumes "async_begin c q g = (g', t)"
  shows "pausing t = 0 \<and> gw_total_tokens g' = gw_total_tokens g \<and> gw_cost g' = gw_cost g
    \<and> (gw_calls g' = gw_calls g \<or> gw_calls g < bu_max_calls (ac_budget c) \<and> gw_calls g' = gw_calls g + 1)"
  using assms by (auto simp: async_begin_def Let_def split: sum.splits option.splits if_splits)

lemma async_answer_effect:
  assumes "async_answer c d n answer g = (g', t)"
    and "gw_total_tokens g \<le> bu_max_total_tokens (ac_budget c)" and "cost_allowed (ac_budget c) (gw_cost g)"
  shows "gw_calls g' = gw_calls g \<and> gw_total_tokens g' \<le> bu_max_total_tokens (ac_budget c)
    \<and> cost_allowed (ac_budget c) (gw_cost g')
    \<and> (pausing t = 0 \<or> pausing t = 1 \<and> gw_calls g < bu_max_calls (ac_budget c))"
proof (cases answer)
  case (Inl e)
  then show ?thesis using assms
    by (auto simp: async_answer_def split: planning_error.splits if_splits)
next
  case (Inr r)
  obtain a g1 where a: "accept_response (ac_budget c) (ac_pricing c) d (r, n) g = (a, g1)"
    by (cases "accept_response (ac_budget c) (ac_pricing c) d (r, n) g")
  then have "g' = g1" "t = Ended a" using assms(1) Inr by (simp_all add: async_answer_def)
  then show ?thesis using accept_response_cases [OF a] assms(2,3) by auto
qed

lemma async_step_bounded:
  assumes "async_step c s s'" and "async_bounded c s"
  shows "async_bounded c s'"
  using assms
proof (induction rule: async_step.induct)
  case (step_begin i ts q g g' t)
  then have p: "pausing (ts ! i) = 0" by simp
  show ?case
    using async_begin_effect [OF step_begin.hyps(3)] pauses_update [OF step_begin.hyps(1), of t]
      pauses_less [OF step_begin.hyps(1) p] p step_begin.prems
    by (auto simp: async_bounded_def)
next
  case (step_answer i ts d n answer g g' t)
  then have p: "pausing (ts ! i) = 0" by simp
  have "gw_total_tokens g \<le> bu_max_total_tokens (ac_budget c)" "cost_allowed (ac_budget c) (gw_cost g)"
    using step_answer.prems by (simp_all add: async_bounded_def)
  from async_answer_effect [OF step_answer.hyps(3) this] show ?case
    using pauses_update [OF step_answer.hyps(1), of t] pauses_less [OF step_answer.hyps(1) p] p step_answer.prems
    by (auto simp: async_bounded_def)
next
  case (step_wake i ts d n g g' t)
  then show ?case using pauses_update [OF step_wake.hyps(1), of t]
    by (auto simp: async_bounded_def async_wake_def)
qed

lemma async_run_bounded: "async_run c s \<Longrightarrow> async_bounded c s"
proof (induction rule: async_run.induct)
  case (async_start cache qs)
  have "pauses (map Fresh qs) = 0" by (induction qs) (simp_all add: pauses_def)
  then show ?case by (simp add: async_bounded_def new_gateway_def cost_allowed_def split: option.splits)
next
  case (async_more s s')
  then show ?case using async_step_bounded by blast
qed

text \<open>Without retries no coroutine pauses, and then the bound is strict.\<close>

definition never_paused :: "async_config \<Rightarrow> shared \<times> coroutine list \<Rightarrow> bool" where
  "never_paused c s \<longleftrightarrow> pauses (snd s) = 0 \<and> gw_calls (fst s) \<le> bu_max_calls (ac_budget c)"

lemma async_answer_no_retry:
  "ac_max_retries c = 0 \<Longrightarrow> async_answer c d n answer g = (g', t) \<Longrightarrow> pausing t = 0 \<and> gw_calls g' = gw_calls g"
  by (auto simp: async_answer_def split: sum.splits planning_error.splits if_splits prod.splits
      dest!: accept_response_cases)

lemma async_step_never_paused:
  assumes "async_step c s s'" and "ac_max_retries c = 0" and "never_paused c s"
  shows "never_paused c s'"
  using assms
proof (induction rule: async_step.induct)
  case (step_begin i ts q g g' t)
  then show ?case using async_begin_effect [OF step_begin.hyps(3)] pauses_update [OF step_begin.hyps(1), of t]
    by (auto simp: never_paused_def)
next
  case (step_answer i ts d n answer g g' t)
  then show ?case using async_answer_no_retry [OF step_answer.prems(1) step_answer.hyps(3)]
      pauses_update [OF step_answer.hyps(1), of t]
    by (auto simp: never_paused_def)
next
  case (step_wake i ts d n g g' t)
  then show ?case using pauses_update [OF step_wake.hyps(1), of "Fresh undefined"]
    by (simp add: never_paused_def)
qed

lemma async_run_never_paused: "async_run c s \<Longrightarrow> ac_max_retries c = 0 \<Longrightarrow> never_paused c s"
proof (induction rule: async_run.induct)
  case (async_start cache qs)
  have "pauses (map Fresh qs) = 0" by (induction qs) (simp_all add: pauses_def)
  then show ?case by (simp add: never_paused_def new_gateway_def)
next
  case (async_more s s')
  then show ?case using async_step_never_paused by blast
qed

section \<open>Properties\<close>

definition sample_async :: async_config where
  "sample_async =
     \<lparr>ac_budget = \<lparr>bu_max_calls = 3, bu_max_total_tokens = 10, bu_max_cost = None\<rparr>, ac_cache_namespace = ''n'',
      ac_pricing = \<lparr>pr_input = 0, pr_output = 0\<rparr>, ac_max_retries = 1\<rparr>"

definition second_request :: model_request where
  "second_request = sample_request\<lparr>mq_request_id := ''r''\<rparr>"

text \<open>
  The check of the call budget and the count of the call are separated by the pause: two coroutines
  that were let through together make a call more than the budget of \<open>sample_async\<close> allows.
\<close>

lemma async_calls_overrun:
  "\<exists>g ts. async_run sample_async (g, ts) \<and> length ts = 2 \<and> gw_calls g = 4"
proof -
  let ?g = "new_gateway () [] :: shared"
  let ?calls = "\<lambda>n. ?g\<lparr>gw_calls := n\<rparr>"
  obtain d e where d: "request_digest ''n'' sample_request = Inr d" and e: "request_digest ''n'' second_request = Inr e"
    by (simp add: request_digest_def second_request_def sample_request_def request_value_def json_digest_def map_error_def)
  have 0: "async_run sample_async (?g, [Fresh sample_request, Fresh second_request])"
    using async_start [of sample_async "[]" "[sample_request, second_request]"] by simp
  have 1: "async_run sample_async (?calls 1, [Calling d 0, Fresh second_request])"
    using async_more [OF 0 step_begin [of 0 _ sample_request]] d
    by (simp add: async_begin_def sample_async_def new_gateway_def numeral_2_eq_2)
  have 2: "async_run sample_async (?calls 2, [Calling d 0, Calling e 0])"
    using async_more [OF 1 step_begin [of 1 _ second_request]] e
    by (simp add: async_begin_def sample_async_def new_gateway_def numeral_2_eq_2)
  have 3: "async_run sample_async (?calls 2, [Pausing d 1, Calling e 0])"
    using async_more [OF 2 step_answer [of 0 _ d 0 _ "Inl (TransientModelError [])"]]
    by (simp add: async_answer_def sample_async_def new_gateway_def)
  have 4: "async_run sample_async (?calls 2, [Pausing d 1, Pausing e 1])"
    using async_more [OF 3 step_answer [of 1 _ e 0 _ "Inl (TransientModelError [])"]]
    by (simp add: async_answer_def sample_async_def new_gateway_def)
  have 5: "async_run sample_async (?calls 3, [Calling d 1, Pausing e 1])"
    using async_more [OF 4 step_wake [of 0 _ d 1]] by (simp add: async_wake_def new_gateway_def)
  have 6: "async_run sample_async (?calls 4, [Calling d 1, Calling e 1])"
    using async_more [OF 5 step_wake [of 1 _ e 1]] by (simp add: async_wake_def new_gateway_def)
  show ?thesis by (intro exI conjI, rule 6) (simp_all add: new_gateway_def)
qed

text \<open>
  C33: Under every interleaving of coroutines that share one gateway the accepted tokens and the cost
  stay within the budget. The calls made, together with those that the coroutines pausing before a
  retry will still make, exceed the bound on calls by less than the number of coroutines; they do
  not exceed it at all with a single coroutine, or when no retries are configured.
\<close>

theorem async_budget_bounds:
  assumes "async_run c (g, ts)"
  shows "gw_calls g + pauses ts \<le> bu_max_calls (ac_budget c) + (length ts - 1)
    \<and> gw_total_tokens g \<le> bu_max_total_tokens (ac_budget c) \<and> cost_allowed (ac_budget c) (gw_cost g)
    \<and> (length ts = 1 \<or> ac_max_retries c = 0 \<longrightarrow> gw_calls g \<le> bu_max_calls (ac_budget c))"
  using async_run_bounded [OF assms] async_run_never_paused [OF assms]
  by (auto simp: async_bounded_def never_paused_def)

text \<open>The bound is reached: two coroutines, six steps after the start, and four calls of three.\<close>

theorem async_budget_bounds_witness:
  "\<exists>g ts. async_run sample_async (g, ts) \<and> length ts = 2
     \<and> gw_calls g = bu_max_calls (ac_budget sample_async) + (length ts - 1) \<and> pauses ts = 0
     \<and> gw_total_tokens g \<le> 10"
proof -
  obtain g ts where run: "async_run sample_async (g, ts)" and n: "length ts = 2" "gw_calls g = 4"
    using async_calls_overrun by blast
  from async_budget_bounds [OF run] n have "pauses ts = 0" and "gw_total_tokens g \<le> 10"
    by (simp_all add: sample_async_def)
  then show ?thesis using run n by (intro exI [of _ g] exI [of _ ts]) (simp add: sample_async_def)
qed

end
