(* ===== verification/Sandbox_Models.thy ===== *)
theory Sandbox_Models
  imports Digest Tool_Ports
begin

text \<open>
  \<open>sandbox/domain/models.py\<close> and \<open>sandbox/domain/faults.py\<close>: the versions of the sandboxed service
  and of its schema, what the sandbox reports of itself, the outputs of its tools with their JSON
  forms, the configured faults, and the exceptions of the sandbox.
\<close>

section \<open>Versions\<close>

datatype service_version = ServiceV1 | ServiceV2

datatype schema_version = SchemaV1 | SchemaV2

fun service_value :: "service_version \<Rightarrow> string" where
  "service_value ServiceV1 = ''v1''"
| "service_value ServiceV2 = ''v2''"

fun schema_value :: "schema_version \<Rightarrow> string" where
  "schema_value SchemaV1 = ''v1''"
| "schema_value SchemaV2 = ''v2''"

lemma version_value_inject [simp]:
  "service_value v = service_value w \<longleftrightarrow> v = w" "schema_value s = schema_value t \<longleftrightarrow> s = t"
  by (cases v; cases w; simp) (cases s; cases t; simp)

section \<open>Exceptions\<close>

text \<open>
  \<open>BoundaryError\<close> is \<open>SandboxBoundaryError\<close> and \<open>DatabaseError\<close> is \<open>SandboxDatabaseError\<close>; the next
  two are the \<open>FileNotFoundError\<close> and \<open>FileExistsError\<close> of the standard library, and \<open>SqlError\<close> the
  \<open>IntegrityError\<close> and \<open>OperationalError\<close> of its \<open>sqlite3\<close>. \<open>DomainError\<close> is what a tool raises.
\<close>

datatype sandbox_error =
    BoundaryError string
  | DatabaseError string
  | MissingFile string
  | ExistingFile string
  | SqlError string
  | PyError error
  | DomainError string error_class

fun sandbox_error_text :: "sandbox_error \<Rightarrow> string" where
  "sandbox_error_text (BoundaryError m) = m"
| "sandbox_error_text (DatabaseError m) = m"
| "sandbox_error_text (MissingFile m) = m"
| "sandbox_error_text (ExistingFile m) = m"
| "sandbox_error_text (SqlError m) = m"
| "sandbox_error_text (PyError e) = error_text e"
| "sandbox_error_text (DomainError m c) = m"

text \<open>The conversions \<open>ServiceVersion(s)\<close> and \<open>SchemaVersion(s)\<close>.\<close>

definition parse_service_version :: "string \<Rightarrow> sandbox_error + service_version" where
  "parse_service_version s =
     (if s = ''v1'' then Inr ServiceV1 else if s = ''v2'' then Inr ServiceV2
      else Inl (PyError (ValueError (py_repr s @ '' is not a valid ServiceVersion''))))"

definition parse_schema_version :: "string \<Rightarrow> sandbox_error + schema_version" where
  "parse_schema_version s =
     (if s = ''v1'' then Inr SchemaV1 else if s = ''v2'' then Inr SchemaV2
      else Inl (PyError (ValueError (py_repr s @ '' is not a valid SchemaVersion''))))"

lemma parse_version_value [simp]:
  "parse_service_version (service_value v) = Inr v" "parse_schema_version (schema_value s) = Inr s"
  by (cases v; simp add: parse_service_version_def) (cases s; simp add: parse_schema_version_def)

section \<open>States and results\<close>

record sandbox_state =
  ss_sandbox_id :: string
  ss_root :: string
  ss_service_version :: service_version
  ss_schema_version :: schema_version
  ss_migration_ids :: "string list"
  ss_fingerprint :: string

definition make_sandbox_state :: "sandbox_state \<Rightarrow> sandbox_error + sandbox_state" where
  "make_sandbox_state s =
     (if is_blank (ss_sandbox_id s) \<or> is_blank (ss_root s) \<or> is_blank (ss_fingerprint s)
      then Inl (PyError (ValueError ''value must be non-empty'')) else Inr s)"

record order_record =
  or_order_id :: string
  or_customer :: string
  or_total_cents :: nat
  or_priority :: "string option"

record service_health =
  sh_healthy :: bool
  sh_service_version :: service_version
  sh_schema_version :: schema_version
  sh_detail :: string

record migration_result =
  mg_migration_id :: string
  mg_from_version :: schema_version
  mg_to_version :: schema_version
  mg_fingerprint :: string
  mg_already_applied :: bool

record environment_output =
  eo_state :: sandbox_state
  eo_summary :: string
  eo_evidence_digest :: string

record action_output =
  ao_sandbox_id :: string
  ao_action :: string
  ao_before :: "sandbox_state option"
  ao_after :: sandbox_state
  ao_summary :: string
  ao_already_applied :: bool

record validation_output =
  vo_state :: sandbox_state
  vo_success :: bool
  vo_checks :: "string list"
  vo_summary :: string

text \<open>The arguments of a tool: \<open>SandboxArguments\<close>, or \<open>MigrationArguments\<close> with a fingerprint.\<close>

record sandbox_arguments =
  ga_sandbox_id :: string
  ga_expected_fingerprint :: "string option"

section \<open>JSON forms\<close>

definition state_json :: "sandbox_state \<Rightarrow> pyval" where
  "state_json s = PDict
     [(KStr ''sandbox_id'', PStr (ss_sandbox_id s)), (KStr ''root'', PStr (ss_root s)),
      (KStr ''service_version'', PStr (service_value (ss_service_version s))),
      (KStr ''schema_version'', PStr (schema_value (ss_schema_version s))),
      (KStr ''migration_ids'', PList (map PStr (ss_migration_ids s))),
      (KStr ''database_fingerprint'', PStr (ss_fingerprint s))]"

definition action_json :: "action_output \<Rightarrow> pyval" where
  "action_json x = PDict
     [(KStr ''sandbox_id'', PStr (ao_sandbox_id x)), (KStr ''action'', PStr (ao_action x)),
      (KStr ''before'', (case ao_before x of None \<Rightarrow> PNone | Some s \<Rightarrow> state_json s)),
      (KStr ''after'', state_json (ao_after x)), (KStr ''summary'', PStr (ao_summary x)),
      (KStr ''already_applied'', PBool (ao_already_applied x))]"

text \<open>
  \<open>model_validate_json\<close> of these two models, strict and closed: exactly the fields of the model
  (those with a default may be missing), each of its type. The text of a \<open>ValidationError\<close> is
  Pydantic's and not modelled: the result is \<open>None\<close>.
\<close>

fun text_of_json :: "pyval \<Rightarrow> string option" where
  "text_of_json (PStr s) = Some s"
| "text_of_json _ = None"

fun bool_of_json :: "pyval \<Rightarrow> bool option" where
  "bool_of_json (PBool b) = Some b"
| "bool_of_json _ = None"

fun all_some :: "'a option list \<Rightarrow> 'a list option" where
  "all_some [] = Some []"
| "all_some (None # xs) = None"
| "all_some (Some x # xs) = map_option ((#) x) (all_some xs)"

lemma all_some_map [simp]: "all_some (map (\<lambda>x. Some (f x)) xs) = Some (map f xs)"
  by (induction xs) simp_all

fun texts_of_json :: "pyval \<Rightarrow> string list option" where
  "texts_of_json (PList xs) = all_some (map text_of_json xs)"
| "texts_of_json _ = None"

definition ok_option :: "'e + 'a \<Rightarrow> 'a option" where
  "ok_option r = (case r of Inl _ \<Rightarrow> None | Inr x \<Rightarrow> Some x)"

definition only_fields :: "string list \<Rightarrow> (pykey, pyval) dict \<Rightarrow> bool" where
  "only_fields names d = list_all (\<lambda>k. k \<in> KStr ` set names) (keys d)"

fun state_of_json :: "pyval \<Rightarrow> sandbox_state option" where
  "state_of_json (PDict d) =
     (if \<not> only_fields [''sandbox_id'', ''root'', ''service_version'', ''schema_version'',
                        ''migration_ids'', ''database_fingerprint''] d then None
      else Option.bind (text_of_json (pget d ''sandbox_id'')) (\<lambda>i.
        Option.bind (text_of_json (pget d ''root'')) (\<lambda>r.
        Option.bind (text_of_json (pget d ''service_version'')) (\<lambda>v.
        Option.bind (ok_option (parse_service_version v)) (\<lambda>service.
        Option.bind (text_of_json (pget d ''schema_version'')) (\<lambda>c.
        Option.bind (ok_option (parse_schema_version c)) (\<lambda>schema.
        Option.bind (texts_of_json (pget_or d ''migration_ids'' (PList []))) (\<lambda>ids.
        Option.bind (text_of_json (pget d ''database_fingerprint'')) (\<lambda>f.
        ok_option (make_sandbox_state
          \<lparr>ss_sandbox_id = i, ss_root = r, ss_service_version = service, ss_schema_version = schema,
           ss_migration_ids = ids, ss_fingerprint = f\<rparr>))))))))))"
| "state_of_json _ = None"

fun before_of_json :: "pyval option \<Rightarrow> sandbox_state option option" where
  "before_of_json (Some PNone) = Some None"
| "before_of_json (Some v) = map_option Some (state_of_json v)"
| "before_of_json None = None"

fun action_of_json :: "pyval \<Rightarrow> action_output option" where
  "action_of_json (PDict d) =
     (if \<not> only_fields [''sandbox_id'', ''action'', ''before'', ''after'', ''summary'',
                        ''already_applied''] d then None
      else Option.bind (text_of_json (pget d ''sandbox_id'')) (\<lambda>i.
        Option.bind (text_of_json (pget d ''action'')) (\<lambda>a.
        Option.bind (before_of_json (dget d (KStr ''before''))) (\<lambda>b.
        Option.bind (state_of_json (pget d ''after'')) (\<lambda>s.
        Option.bind (text_of_json (pget d ''summary'')) (\<lambda>m.
        Option.bind (bool_of_json (pget_or d ''already_applied'' (PBool False))) (\<lambda>x.
        Some \<lparr>ao_sandbox_id = i, ao_action = a, ao_before = b, ao_after = s, ao_summary = m,
              ao_already_applied = x\<rparr>)))))))"
| "action_of_json _ = None"

definition state_ok :: "sandbox_state \<Rightarrow> bool" where
  "state_ok s \<longleftrightarrow> make_sandbox_state s = Inr s"

lemma state_roundtrip [simp]: "state_ok s \<Longrightarrow> state_of_json (state_json s) = Some s"
  by (cases s) (simp add: state_json_def state_ok_def only_fields_def pget_def pget_or_def
      ok_option_def comp_def)

lemma state_json_not_None [simp]: "state_json s \<noteq> PNone"
  by (simp add: state_json_def)

lemma before_roundtrip [simp]:
  "state_ok s \<Longrightarrow> before_of_json (Some (state_json s)) = Some (Some s)"
  using state_roundtrip [of s] by (auto simp: state_json_def)

lemma action_roundtrip:
  "state_ok (ao_after out) \<Longrightarrow> (\<And>s. ao_before out = Some s \<Longrightarrow> state_ok s) \<Longrightarrow>
   action_of_json (action_json out) = Some out"
  by (cases out; cases "ao_before out")
    (simp_all add: action_json_def only_fields_def pget_def pget_or_def)

declare state_of_json.simps [simp del] action_of_json.simps [simp del]

section \<open>Values that always have a JSON text\<close>

fun json_plain :: "pyval \<Rightarrow> bool" where
  "json_plain (PList xs) = list_all json_plain xs"
| "json_plain (PTuple xs) = list_all json_plain xs"
| "json_plain (PDict d) = list_all (\<lambda>kv. (\<exists>k. fst kv = KStr k) \<and> json_plain (snd kv)) d"
| "json_plain PNone = True"
| "json_plain (PBool b) = True"
| "json_plain (PInt i) = True"
| "json_plain (PStr s) = True"
| "json_plain _ = False"

lemma json_plain_dumps: "json_plain v \<Longrightarrow> \<exists>t. json_dumps True v = Inr t"
proof (induction v rule: json_plain.induct)
  case (1 xs)
  then have "\<exists>ys. smap (json_dumps True) xs = Inr ys" by (simp add: smap_total list_all_iff)
  then show ?case by auto
next
  case (2 xs)
  then have "\<exists>ys. smap (json_dumps True) xs = Inr ys" by (simp add: smap_total list_all_iff)
  then show ?case by auto
next
  case (3 d)
  have "\<exists>y. sbind (json_key (fst kv)) (\<lambda>k. sbind (json_dumps True (snd kv)) (\<lambda>v. Inr (k, v))) = Inr y"
    if kv: "kv \<in> set d" for kv
  proof -
    obtain k where "fst kv = KStr k" and "json_plain (snd kv)"
      using 3(2) kv by (auto simp: list_all_iff)
    then show ?thesis using 3(1) [OF kv] by auto
  qed
  then have "\<exists>fields. smap (\<lambda>kv. sbind (json_key (fst kv)) (\<lambda>k. sbind (json_dumps True (snd kv))
      (\<lambda>v. Inr (k, v)))) d = Inr fields"
    by (simp add: smap_total)
  then show ?case by auto
qed simp_all

lemma json_plain_digest: "json_plain v \<Longrightarrow> \<exists>h. json_digest True v = Inr h"
  using json_plain_dumps [of v] by (auto simp: json_digest_def)

lemma state_json_plain [simp]: "json_plain (state_json s)"
  by (simp add: state_json_def list_all_iff)

section \<open>Faults\<close>

datatype fault_type = BeforeEffect | AfterEffect | PermanentFailure

record fault_spec =
  fs_tool_name :: string
  fs_call_number :: nat
  fs_fault_type :: fault_type

definition fault_spec_ok :: "fault_spec \<Rightarrow> bool" where
  "fault_spec_ok s \<longleftrightarrow> 0 < fs_call_number s \<and> \<not> is_blank (fs_tool_name s)"

record fault_configuration =
  fc_specs :: "fault_spec list"
  fc_call_counts :: "(string, nat) dict"

end
