(* ===== verification/Sandbox_Database.thy ===== *)
theory Sandbox_Database
  imports Sandbox_Models
begin

text \<open>
  \<open>sandbox/adapters/sqlite.py\<close>: the database of a sandbox, four tables, and the operations on it.
  What the code uses of Python's \<open>sqlite3\<close> is modelled: reads see the open transaction, a change
  of rows opens one, a change of the schema does not (outside a transaction it is permanent at
  once), a script commits first, and leaving the \<open>with\<close> block commits or rolls back.
\<close>

section \<open>Tables\<close>

record ledger_row =
  lr_migration_id :: string
  lr_from_version :: schema_version
  lr_to_version :: schema_version
  lr_idempotency_key :: string
  lr_fingerprint :: string

text \<open>
  The column \<open>output_json\<close> holds the JSON value whose text the code writes and parses back.
\<close>

record effect_row =
  fx_idempotency_key :: string
  fx_tool_name :: string
  fx_output_json :: pyval

text \<open>
  \<open>db_priority\<close> tells whether the table \<open>orders\<close> has the column \<open>priority\<close>; its rows then hold
  one.
\<close>

record sandbox_db =
  db_metadata :: "(string, string) dict"
  db_priority :: bool
  db_orders :: "order_record list"
  db_ledger :: "ledger_row list"
  db_effects :: "effect_row list"

section \<open>Connections\<close>

record connection =
  cn_committed :: sandbox_db
  cn_pending :: "sandbox_db option"

type_synonym 'a sql = "(connection, sandbox_error, 'a) act"

definition visible :: "connection \<Rightarrow> sandbox_db" where
  "visible c = (case cn_pending c of None \<Rightarrow> cn_committed c | Some d \<Rightarrow> d)"

definition query :: "(sandbox_db \<Rightarrow> sandbox_error + 'a) \<Rightarrow> 'a sql" where
  "query f c = (f (visible c), c)"

text \<open>\<open>INSERT\<close> and \<open>UPDATE\<close>: a transaction is opened if none is.\<close>

definition change_rows :: "(sandbox_db \<Rightarrow> sandbox_error + sandbox_db) \<Rightarrow> unit sql" where
  "change_rows f c =
     (case f (visible c) of
        Inl e \<Rightarrow> (Inl e, c\<lparr>cn_pending := Some (visible c)\<rparr>)
      | Inr d \<Rightarrow> (Inr (), c\<lparr>cn_pending := Some d\<rparr>))"

text \<open>\<open>ALTER TABLE\<close>: part of an open transaction, but it opens none.\<close>

definition change_schema :: "(sandbox_db \<Rightarrow> sandbox_error + sandbox_db) \<Rightarrow> unit sql" where
  "change_schema f c =
     (case f (visible c) of
        Inl e \<Rightarrow> (Inl e, c)
      | Inr d \<Rightarrow> (Inr (), if cn_pending c = None then c\<lparr>cn_committed := d\<rparr>
                          else c\<lparr>cn_pending := Some d\<rparr>))"

text \<open>\<open>executescript\<close> for a script whose statements cannot fail.\<close>

definition run_script :: "(sandbox_db \<Rightarrow> sandbox_db) \<Rightarrow> unit sql" where
  "run_script f c = (Inr (), \<lparr>cn_committed = f (visible c), cn_pending = None\<rparr>)"

lemmas sql_defs = query_def change_rows_def change_schema_def run_script_def visible_def

text \<open>\<open>_connect\<close>: the file at \<open>path\<close>, if it is one, for the length of a \<open>with\<close> block.\<close>

definition with_connection ::
  "string \<Rightarrow> 'a sql \<Rightarrow> (sandbox_db option, sandbox_error, 'a) act" where
  "with_connection path m file =
     (case file of
        None \<Rightarrow> (Inl (DatabaseError (''sandbox database does not exist: '' @ path)), file)
      | Some d \<Rightarrow>
          (case m \<lparr>cn_committed = d, cn_pending = None\<rparr> of
             (Inl e, c) \<Rightarrow> (Inl e, Some (cn_committed c))
           | (Inr x, c) \<Rightarrow> (Inr x, Some (visible c))))"

section \<open>Reading\<close>

definition schema_version_in :: "sandbox_db \<Rightarrow> sandbox_error + schema_version" where
  "schema_version_in d =
     (case dget (db_metadata d) ''schema_version'' of
        None \<Rightarrow> Inl (DatabaseError ''schema version metadata is missing'')
      | Some v \<Rightarrow> parse_schema_version v)"

definition stored_sandbox_id :: "sandbox_db \<Rightarrow> sandbox_error + string" where
  "stored_sandbox_id d =
     or_raise (dget (db_metadata d) ''sandbox_id'')
       (DatabaseError ''sandbox identity metadata is missing'')"

definition stored_migration_ids :: "sandbox_db \<Rightarrow> string list" where
  "stored_migration_ids d = sort (map lr_migration_id (db_ledger d))"

text \<open>
  \<open>SELECT ... FROM orders ORDER BY order_id\<close>, with the column \<open>priority\<close> under schema v2 only.
\<close>

definition select_orders :: "schema_version \<Rightarrow> sandbox_db \<Rightarrow> sandbox_error + order_record list" where
  "select_orders version d =
     (if version = SchemaV2 \<and> \<not> db_priority d then Inl (SqlError ''no such column: priority'')
      else Inr (map (\<lambda>o'. if version = SchemaV2 then o' else o'\<lparr>or_priority := None\<rparr>)
                  (sort_key or_order_id (db_orders d))))"

definition column_json :: "string \<Rightarrow> string \<Rightarrow> int \<Rightarrow> pyval \<Rightarrow> int \<Rightarrow> pyval" where
  "column_json name ty not_null dflt primary_key = PDict
     [(KStr ''name'', PStr name), (KStr ''type'', PStr ty), (KStr ''not_null'', PInt not_null),
      (KStr ''default'', dflt), (KStr ''primary_key'', PInt primary_key)]"

text \<open>\<open>PRAGMA table_info(orders)\<close>.\<close>

definition columns_json :: "sandbox_db \<Rightarrow> pyval list" where
  "columns_json d =
     [column_json ''order_id'' ''TEXT'' 0 PNone 1, column_json ''customer'' ''TEXT'' 1 PNone 0,
      column_json ''total_cents'' ''INTEGER'' 1 PNone 0]
     @ (if db_priority d
        then [column_json ''priority'' ''TEXT'' 1 (PStr (CHR 39 # ''standard'' @ [CHR 39])) 0] else [])"

definition order_json :: "order_record \<Rightarrow> pyval" where
  "order_json r = PTuple
     ([PStr (or_order_id r), PStr (or_customer r), PInt (int (or_total_cents r))]
      @ (case or_priority r of None \<Rightarrow> [] | Some p \<Rightarrow> [PStr p]))"

definition fingerprint_of :: "sandbox_db \<Rightarrow> sandbox_error + string" where
  "fingerprint_of d =
     sbind (schema_version_in d) (\<lambda>version.
     sbind (select_orders version d) (\<lambda>orders.
     map_error PyError (json_digest True (PDict
       [(KStr ''schema_version'', PStr (schema_value version)), (KStr ''columns'', PList (columns_json d)),
        (KStr ''orders'', PList (map order_json orders))]))))"

definition ledger_row_for :: "string \<Rightarrow> sandbox_db \<Rightarrow> ledger_row option" where
  "ledger_row_for key d = List.find (\<lambda>r. lr_idempotency_key r = key) (db_ledger d)"

section \<open>Changing\<close>

definition baseline_orders :: "order_record list" where
  "baseline_orders =
     [\<lparr>or_order_id = ''order-1001'', or_customer = ''alice'', or_total_cents = 1299, or_priority = None\<rparr>,
      \<lparr>or_order_id = ''order-1002'', or_customer = ''bob'', or_total_cents = 2599, or_priority = None\<rparr>]"

definition fresh_db :: "string \<Rightarrow> sandbox_db" where
  "fresh_db sandbox_id =
     \<lparr>db_metadata = [(''sandbox_id'', sandbox_id), (''schema_version'', ''v1'')], db_priority = False,
      db_orders = baseline_orders, db_ledger = [], db_effects = []\<rparr>"

definition initialize_v1 :: "string \<Rightarrow> (sandbox_db option, sandbox_error, unit) act" where
  "initialize_v1 sandbox_id file =
     (case file of
        None \<Rightarrow> (Inr (), Some (fresh_db sandbox_id))
      | Some d \<Rightarrow> (Inl (SqlError ''table sandbox_metadata already exists''), Some d))"

definition set_schema_version :: "schema_version \<Rightarrow> sandbox_db \<Rightarrow> sandbox_db" where
  "set_schema_version v d =
     (if dget (db_metadata d) ''schema_version'' = None then d
      else d\<lparr>db_metadata := dset ''schema_version'' (schema_value v) (db_metadata d)\<rparr>)"

definition add_priority_column :: "sandbox_db \<Rightarrow> sandbox_error + sandbox_db" where
  "add_priority_column d =
     (if db_priority d then Inl (SqlError ''duplicate column name: priority'')
      else Inr (d\<lparr>db_priority := True,
                  db_orders := map (or_priority_update (\<lambda>_. Some ''standard'')) (db_orders d)\<rparr>))"

text \<open>The script of the rollback: the orders are copied to a table without the column.\<close>

definition restore_v1_tables :: "sandbox_db \<Rightarrow> sandbox_db" where
  "restore_v1_tables d =
     set_schema_version SchemaV1
       (d\<lparr>db_priority := False, db_orders := map (or_priority_update (\<lambda>_. None)) (db_orders d)\<rparr>)"

definition insert_ledger :: "ledger_row \<Rightarrow> sandbox_db \<Rightarrow> sandbox_error + sandbox_db" where
  "insert_ledger r d =
     (if lr_migration_id r \<in> lr_migration_id ` set (db_ledger d)
      then Inl (SqlError ''UNIQUE constraint failed: migration_ledger.migration_id'')
      else if lr_idempotency_key r \<in> lr_idempotency_key ` set (db_ledger d)
      then Inl (SqlError ''UNIQUE constraint failed: migration_ledger.idempotency_key'')
      else Inr (d\<lparr>db_ledger := db_ledger d @ [r]\<rparr>))"

text \<open>An integer of Python is bound to a signed 64-bit one.\<close>

definition max_sql_integer :: nat where
  "max_sql_integer = 2 ^ 63 - 1"

definition insert_row :: "order_record \<Rightarrow> sandbox_db \<Rightarrow> sandbox_error + sandbox_db" where
  "insert_row r d =
     (if max_sql_integer < or_total_cents r then Inl (PyError OverflowError)
      else if or_order_id r \<in> or_order_id ` set (db_orders d)
      then Inl (SqlError ''UNIQUE constraint failed: orders.order_id'')
      else Inr (d\<lparr>db_orders := db_orders d @ [r]\<rparr>))"

text \<open>\<open>insert_order\<close>: without a value for the column, its default is stored.\<close>

definition insert_v1_order :: "order_record \<Rightarrow> sandbox_db \<Rightarrow> sandbox_error + sandbox_db" where
  "insert_v1_order r d =
     insert_row (r\<lparr>or_priority := (if db_priority d then Some ''standard'' else None)\<rparr>) d"

definition insert_v2_order :: "order_record \<Rightarrow> sandbox_db \<Rightarrow> sandbox_error + sandbox_db" where
  "insert_v2_order r d =
     (if \<not> db_priority d then Inl (SqlError ''table orders has no column named priority'')
      else insert_row (r\<lparr>or_priority := (case or_priority r of Some (c # cs) \<Rightarrow> Some (c # cs)
                                         | _ \<Rightarrow> Some ''standard'')\<rparr>) d)"

definition insert_order ::
  "string \<Rightarrow> order_record \<Rightarrow> (sandbox_db option, sandbox_error, unit) act" where
  "insert_order path r =
     bnd (with_connection path (query schema_version_in)) (\<lambda>version.
     with_connection path
       (if version = SchemaV1
        then if or_priority r \<noteq> None
             then raise_act (DatabaseError ''priority is unavailable in schema v1'')
             else change_rows (insert_v1_order r)
        else change_rows (insert_v2_order r)))"

definition list_orders ::
  "string \<Rightarrow> (sandbox_db option, sandbox_error, order_record list) act" where
  "list_orders path =
     bnd (with_connection path (query schema_version_in)) (\<lambda>version.
     with_connection path (query (select_orders version)))"

section \<open>Migrations\<close>

definition recorded_migration :: "ledger_row \<Rightarrow> migration_result" where
  "recorded_migration r =
     \<lparr>mg_migration_id = lr_migration_id r, mg_from_version = lr_from_version r,
      mg_to_version = lr_to_version r, mg_fingerprint = lr_fingerprint r, mg_already_applied = True\<rparr>"

definition migration_id :: string where
  "migration_id = ''orders-v1-to-v2''"

definition rollback_id :: string where
  "rollback_id = ''orders-v2-to-v1''"

text \<open>The answer of a migration whose key is in the ledger.\<close>

definition replay_migration :: "string \<Rightarrow> ledger_row \<Rightarrow> migration_result sql" where
  "replay_migration expected r =
     (if lr_migration_id r \<noteq> expected
      then raise_act (DatabaseError ''idempotency key belongs to another migration'')
      else ret (recorded_migration r))"

definition apply_migration :: "string \<Rightarrow> string \<Rightarrow> migration_result sql" where
  "apply_migration key expected_fingerprint =
     bnd (query schema_version_in) (\<lambda>current.
     if current \<noteq> SchemaV1
     then raise_act (DatabaseError (''migration requires schema v1, found '' @ schema_value current))
     else
     bnd (query fingerprint_of) (\<lambda>actual.
     if actual \<noteq> expected_fingerprint
     then raise_act (DatabaseError ''database fingerprint does not match migration precondition'')
     else
     bnd (change_schema add_priority_column) (\<lambda>_.
     bnd (change_rows (\<lambda>d. Inr (set_schema_version SchemaV2 d))) (\<lambda>_.
     bnd (query fingerprint_of) (\<lambda>final.
     bnd (change_rows (insert_ledger
            \<lparr>lr_migration_id = migration_id, lr_from_version = SchemaV1, lr_to_version = SchemaV2,
             lr_idempotency_key = key, lr_fingerprint = final\<rparr>)) (\<lambda>_.
     ret \<lparr>mg_migration_id = migration_id, mg_from_version = SchemaV1, mg_to_version = SchemaV2,
          mg_fingerprint = final, mg_already_applied = False\<rparr>))))))"

definition migrate_v1_to_v2 ::
  "string \<Rightarrow> string \<Rightarrow> string \<Rightarrow> (sandbox_db option, sandbox_error, migration_result) act" where
  "migrate_v1_to_v2 path key expected_fingerprint =
     with_connection path
       (bnd (query (\<lambda>d. Inr (ledger_row_for key d))) (\<lambda>existing.
        case existing of
          Some r \<Rightarrow> replay_migration migration_id r
        | None \<Rightarrow> apply_migration key expected_fingerprint))"

text \<open>\<open>SELECT COUNT(*) FROM orders WHERE priority <> 'standard'\<close>.\<close>

definition count_special :: "sandbox_db \<Rightarrow> sandbox_error + nat" where
  "count_special d =
     (if \<not> db_priority d then Inl (SqlError ''no such column: priority'')
      else Inr (length (filter (\<lambda>r. or_priority r \<noteq> Some ''standard'') (db_orders d))))"

definition apply_rollback :: "string \<Rightarrow> migration_result sql" where
  "apply_rollback key =
     bnd (query schema_version_in) (\<lambda>current.
     if current \<noteq> SchemaV2
     then raise_act (DatabaseError (''rollback requires schema v2, found '' @ schema_value current))
     else
     bnd (query count_special) (\<lambda>unsafe.
     if 0 < unsafe
     then raise_act (DatabaseError ''schema rollback would discard non-default priority data'')
     else
     bnd (run_script restore_v1_tables) (\<lambda>_.
     bnd (query fingerprint_of) (\<lambda>final.
     bnd (change_rows (insert_ledger
            \<lparr>lr_migration_id = rollback_id, lr_from_version = SchemaV2, lr_to_version = SchemaV1,
             lr_idempotency_key = key, lr_fingerprint = final\<rparr>)) (\<lambda>_.
     ret \<lparr>mg_migration_id = rollback_id, mg_from_version = SchemaV2, mg_to_version = SchemaV1,
          mg_fingerprint = final, mg_already_applied = False\<rparr>)))))"

definition rollback_v2_to_v1 ::
  "string \<Rightarrow> string \<Rightarrow> (sandbox_db option, sandbox_error, migration_result) act" where
  "rollback_v2_to_v1 path key =
     with_connection path
       (bnd (query (\<lambda>d. Inr (ledger_row_for key d))) (\<lambda>existing.
        case existing of
          Some r \<Rightarrow> replay_migration rollback_id r
        | None \<Rightarrow> apply_rollback key))"

definition migration_for_key ::
  "string \<Rightarrow> string \<Rightarrow> (sandbox_db option, sandbox_error, migration_result option) act" where
  "migration_for_key path key =
     with_connection path (query (\<lambda>d. Inr (map_option recorded_migration (ledger_row_for key d))))"

section \<open>Effects of tools\<close>

definition effect_output ::
  "string \<Rightarrow> string \<Rightarrow> string \<Rightarrow> (sandbox_db option, sandbox_error, pyval option) act" where
  "effect_output path key tool_name =
     bnd (with_connection path (query (\<lambda>d.
            Inr (List.find (\<lambda>r. fx_idempotency_key r = key) (db_effects d))))) (\<lambda>row.
     case row of
       None \<Rightarrow> ret None
     | Some r \<Rightarrow>
         if fx_tool_name r \<noteq> tool_name
         then raise_act (DatabaseError ''idempotency key belongs to another tool'')
         else (case fx_output_json r of
                 PDict d \<Rightarrow> ret (Some (PDict d))
               | _ \<Rightarrow> raise_act (DatabaseError ''stored tool output is invalid'')))"

definition insert_effect :: "effect_row \<Rightarrow> sandbox_db \<Rightarrow> sandbox_error + sandbox_db" where
  "insert_effect r d =
     (if fx_idempotency_key r \<in> fx_idempotency_key ` set (db_effects d)
      then Inl (SqlError ''UNIQUE constraint failed: tool_effects.logical_idempotency_key'')
      else Inr (d\<lparr>db_effects := db_effects d @ [r]\<rparr>))"

definition record_effect ::
  "string \<Rightarrow> string \<Rightarrow> string \<Rightarrow> pyval \<Rightarrow> (sandbox_db option, sandbox_error, unit) act" where
  "record_effect path key tool_name out =
     with_connection path (change_rows (insert_effect
       \<lparr>fx_idempotency_key = key, fx_tool_name = tool_name, fx_output_json = out\<rparr>))"

end
