(* ===== verification/Sandbox_Phases.thy ===== *)
theory Sandbox_Phases
  imports Sandbox_Database
begin

text \<open>
  What the database of a sandbox goes through, as four phases: fresh, migrated, rolled back, and
  stuck after a second migration. The lemmas say what every operation does in each phase.
\<close>

datatype db_phase = Fresh | Migrated | RolledBack | Stuck

fun phase_schema :: "db_phase \<Rightarrow> schema_version" where
  "phase_schema Migrated = SchemaV2"
| "phase_schema _ = SchemaV1"

fun phase_column :: "db_phase \<Rightarrow> bool" where
  "phase_column Migrated = True"
| "phase_column Stuck = True"
| "phase_column _ = False"

fun phase_moves :: "db_phase \<Rightarrow> (string \<times> schema_version \<times> schema_version) list" where
  "phase_moves Fresh = []"
| "phase_moves Migrated = [(migration_id, SchemaV1, SchemaV2)]"
| "phase_moves _ = [(migration_id, SchemaV1, SchemaV2), (rollback_id, SchemaV2, SchemaV1)]"

definition move_of :: "ledger_row \<Rightarrow> string \<times> schema_version \<times> schema_version" where
  "move_of r = (lr_migration_id r, lr_from_version r, lr_to_version r)"

definition in_phase :: "db_phase \<Rightarrow> string \<Rightarrow> sandbox_db \<Rightarrow> bool" where
  "in_phase p i d \<longleftrightarrow>
     db_metadata d = [(''sandbox_id'', i), (''schema_version'', schema_value (phase_schema p))]
     \<and> db_priority d = phase_column p
     \<and> db_orders d \<noteq> [] \<and> distinct (map or_order_id (db_orders d))
     \<and> (\<forall>r \<in> set (db_orders d). (or_priority r \<noteq> None) = phase_column p)
     \<and> map move_of (db_ledger d) = phase_moves p
     \<and> distinct (map lr_idempotency_key (db_ledger d))
     \<and> distinct (map fx_idempotency_key (db_effects d))"

lemma in_phaseD:
  assumes "in_phase p i d"
  shows "db_metadata d = [(''sandbox_id'', i), (''schema_version'', schema_value (phase_schema p))]"
    and "db_priority d = phase_column p" and "map move_of (db_ledger d) = phase_moves p"
  using assms unfolding in_phase_def by blast+

lemma phase_unique: "in_phase p i d \<Longrightarrow> in_phase q i d \<Longrightarrow> p = q"
  by (cases p; cases q) (auto simp: in_phase_def)

lemma fresh_db_phase: "in_phase Fresh i (fresh_db i)"
  by (simp add: in_phase_def fresh_db_def baseline_orders_def)

section \<open>Reading\<close>

lemma schema_version_phase [simp]: "in_phase p i d \<Longrightarrow> schema_version_in d = Inr (phase_schema p)"
  by (simp add: schema_version_in_def in_phaseD(1))

lemma stored_id_phase [simp]: "in_phase p i d \<Longrightarrow> stored_sandbox_id d = Inr i"
  by (simp add: stored_sandbox_id_def in_phaseD(1))

lemma select_orders_phase:
  "in_phase p i d \<Longrightarrow> \<exists>os. select_orders (phase_schema p) d = Inr os"
  by (cases p) (auto simp: select_orders_def in_phaseD(2))

lemma order_json_plain [simp]: "json_plain (order_json r)"
  by (simp add: order_json_def split: option.splits)

lemma hex_not_space: "is_hex_char c \<Longrightarrow> \<not> py_space c"
  by (auto simp: is_hex_char_def py_space_def code_def)

lemma digest_not_blank: "is_sha256_digest f \<Longrightarrow> \<not> is_blank f"
  using hex_not_space by (cases f) (auto simp: is_sha256_digest_def is_blank_def)

lemma order_id_priority [simp]: "or_order_id \<circ> or_priority_update g = or_order_id"
  by (simp add: fun_eq_iff)

lemma fingerprint_total:
  assumes "in_phase p i d"
  shows "\<exists>f. fingerprint_of d = Inr f \<and> \<not> is_blank f"
proof -
  obtain os where os: "select_orders (phase_schema p) d = Inr os"
    using select_orders_phase [OF assms] by blast
  let ?v = "PDict [(KStr ''schema_version'', PStr (schema_value (phase_schema p))),
    (KStr ''columns'', PList (columns_json d)), (KStr ''orders'', PList (map order_json os))]"
  have "json_plain ?v" by (simp add: columns_json_def column_json_def list_all_iff)
  then obtain f where f: "json_digest True ?v = Inr f" using json_plain_digest by blast
  have "fingerprint_of d = Inr f"
    using assms os f by (simp add: fingerprint_of_def map_error_def)
  moreover have "\<not> is_blank f"
    using json_digest_is_digest [OF f] by (rule digest_not_blank)
  ultimately show ?thesis by blast
qed

section \<open>Migration\<close>

definition widened_db :: "sandbox_db \<Rightarrow> sandbox_db" where
  "widened_db d = d\<lparr>db_priority := True,
     db_orders := map (or_priority_update (\<lambda>_. Some ''standard'')) (db_orders d)\<rparr>"

definition migrated_db :: "string \<Rightarrow> string \<Rightarrow> sandbox_db \<Rightarrow> sandbox_db" where
  "migrated_db key final d =
     (set_schema_version SchemaV2 (widened_db d))\<lparr>db_ledger := db_ledger d @
        [\<lparr>lr_migration_id = migration_id, lr_from_version = SchemaV1, lr_to_version = SchemaV2,
          lr_idempotency_key = key, lr_fingerprint = final\<rparr>]\<rparr>"

definition new_migration :: "string \<Rightarrow> migration_result" where
  "new_migration final =
     \<lparr>mg_migration_id = migration_id, mg_from_version = SchemaV1, mg_to_version = SchemaV2,
      mg_fingerprint = final, mg_already_applied = False\<rparr>"

lemma find_key_None:
  "ledger_row_for key d = None \<longleftrightarrow> key \<notin> lr_idempotency_key ` set (db_ledger d)"
  by (auto simp: ledger_row_for_def find_None_all)

lemma migrate_replayed:
  "ledger_row_for key d = Some r \<Longrightarrow>
   migrate_v1_to_v2 path key fp (Some d) =
     ((if lr_migration_id r = migration_id then Inr (recorded_migration r)
       else Inl (DatabaseError ''idempotency key belongs to another migration'')), Some d)"
  by (simp add: migrate_v1_to_v2_def with_connection_def query_def visible_def bnd_def
      replay_migration_def)

lemma widened_fresh:
  assumes "in_phase Fresh i d"
  shows "in_phase Migrated i (migrated_db key final d)"
  using assms
  by (auto simp: in_phase_def migrated_db_def widened_db_def set_schema_version_def move_of_def)

lemma read_ledger [simp]:
  "schema_version_in (d\<lparr>db_ledger := l\<rparr>) = schema_version_in d"
  "columns_json (d\<lparr>db_ledger := l\<rparr>) = columns_json d"
  by (simp_all add: schema_version_in_def columns_json_def)

lemma select_ledger [simp]: "select_orders v (d\<lparr>db_ledger := l\<rparr>) = select_orders v d"
  by (cases d) (simp add: select_orders_def)

lemma fingerprint_ledger [simp]: "fingerprint_of (d\<lparr>db_ledger := l\<rparr>) = fingerprint_of d"
  by (simp add: fingerprint_of_def)

lemma ledger_fields_set_schema [simp]:
  "db_ledger (set_schema_version v d) = db_ledger d"
  "db_priority (set_schema_version v d) = db_priority d"
  "db_orders (set_schema_version v d) = db_orders d"
  "db_effects (set_schema_version v d) = db_effects d"
  by (simp_all add: set_schema_version_def)

lemma widened_fields [simp]:
  "db_ledger (widened_db d) = db_ledger d" "db_metadata (widened_db d) = db_metadata d"
  "db_effects (widened_db d) = db_effects d" "db_priority (widened_db d)"
  by (simp_all add: widened_db_def)

lemma add_column [simp]: "\<not> db_priority d \<Longrightarrow> add_priority_column d = Inr (widened_db d)"
  by (simp add: add_priority_column_def widened_db_def)

lemma migrate_fresh:
  assumes d: "in_phase Fresh i d" and fp: "fingerprint_of d = Inr fp"
    and new: "ledger_row_for key d = None"
  shows "\<exists>final. migrate_v1_to_v2 path key fp (Some d)
                   = (Inr (new_migration final), Some (migrated_db key final d))
                 \<and> in_phase Migrated i (migrated_db key final d)"
proof -
  let ?d = "set_schema_version SchemaV2 (widened_db d)"
  have f: "\<not> db_priority d" "db_ledger d = []" using d by (auto simp: in_phase_def)
  have "fingerprint_of (migrated_db key [] d) = fingerprint_of ?d" by (simp add: migrated_db_def)
  then obtain final where final: "fingerprint_of ?d = Inr final"
    using fingerprint_total [OF widened_fresh [OF d]] by metis
  have ledger: "insert_ledger r ?d = Inr (?d\<lparr>db_ledger := [r]\<rparr>)" for r
    by (simp add: insert_ledger_def f)
  have "migrate_v1_to_v2 path key fp (Some d)
          = (Inr (new_migration final), Some (migrated_db key final d))"
    by (simp add: migrate_v1_to_v2_def with_connection_def query_def visible_def bnd_def new
        apply_migration_def schema_version_phase [OF d] fp change_schema_def change_rows_def f final ledger
        migrated_db_def new_migration_def)
  then show ?thesis using widened_fresh [OF d] by blast
qed

text \<open>A second migration widens the table and then fails: the table stays wide.\<close>

lemma widened_rolled_back: "in_phase RolledBack i d \<Longrightarrow> in_phase Stuck i (widened_db d)"
  by (auto simp: in_phase_def widened_db_def)

lemma ledger_ids: "in_phase p i d \<Longrightarrow> map lr_migration_id (db_ledger d) = map fst (phase_moves p)"
  by (auto simp: in_phase_def move_of_def comp_def dest!: arg_cong [where f = "map fst"])

lemma ledger_id_set:
  "in_phase p i d \<Longrightarrow> lr_migration_id ` set (db_ledger d) = fst ` set (phase_moves p)"
  using arg_cong [OF ledger_ids, of p i d set] by simp

lemma migrate_again:
  assumes d: "in_phase RolledBack i d" and fp: "fingerprint_of d = Inr fp"
    and new: "ledger_row_for key d = None"
  shows "migrate_v1_to_v2 path key fp (Some d)
           = (Inl (SqlError ''UNIQUE constraint failed: migration_ledger.migration_id''),
              Some (widened_db d))"
proof -
  let ?d = "set_schema_version SchemaV2 (widened_db d)"
  have f: "\<not> db_priority d" using d by (auto simp: in_phase_def)
  have "\<exists>final. fingerprint_of ?d = Inr final"
  proof -
    let ?e = "?d\<lparr>db_ledger := [hd (db_ledger d)]\<rparr>"
    have "in_phase Migrated i ?e"
      using d by (auto simp: in_phase_def widened_db_def set_schema_version_def)
    then show ?thesis using fingerprint_total by fastforce
  qed
  then obtain final where final: "fingerprint_of ?d = Inr final" by blast
  have ledger: "insert_ledger r ?d
      = Inl (SqlError ''UNIQUE constraint failed: migration_ledger.migration_id'')"
    if r: "lr_migration_id r = migration_id" for r
    using ledger_id_set [OF d] by (simp add: insert_ledger_def r)
  show ?thesis
    by (simp add: migrate_v1_to_v2_def with_connection_def query_def visible_def bnd_def new
        apply_migration_def schema_version_phase [OF d] fp change_schema_def change_rows_def f final ledger)
qed

lemma migrate_refused:
  assumes d: "in_phase p i d" and new: "ledger_row_for key d = None"
    and no: "p = Migrated \<or> p = Stuck \<or> fingerprint_of d \<noteq> Inr fp"
  shows "\<exists>e. migrate_v1_to_v2 path key fp (Some d) = (Inl e, Some d)
             \<and> (p \<noteq> Stuck \<longrightarrow> (\<exists>m. e = DatabaseError m))"
proof -
  obtain f where f: "fingerprint_of d = Inr f" using fingerprint_total [OF d] by blast
  consider (v2) "p = Migrated" | (other) "p \<noteq> Migrated" "f \<noteq> fp" | (stuck) "p = Stuck" "f = fp"
    using no f by fastforce
  then show ?thesis
  proof cases
    case v2
    then show ?thesis
      by (simp add: migrate_v1_to_v2_def with_connection_def query_def visible_def bnd_def new
          apply_migration_def schema_version_phase [OF d])
  next
    case other
    then have "phase_schema p = SchemaV1" by (cases p) simp_all
    then show ?thesis using other
      by (simp add: migrate_v1_to_v2_def with_connection_def query_def visible_def bnd_def new
          apply_migration_def schema_version_phase [OF d] f)
  next
    case stuck
    then have "db_priority d" using d by (simp add: in_phase_def)
    then show ?thesis using stuck
      by (simp add: migrate_v1_to_v2_def with_connection_def query_def visible_def bnd_def new
          apply_migration_def schema_version_phase [OF d] f change_schema_def add_priority_column_def)
  qed
qed

section \<open>Rollback\<close>

definition rolled_back_db :: "string \<Rightarrow> string \<Rightarrow> sandbox_db \<Rightarrow> sandbox_db" where
  "rolled_back_db key final d =
     (restore_v1_tables d)\<lparr>db_ledger := db_ledger d @
        [\<lparr>lr_migration_id = rollback_id, lr_from_version = SchemaV2, lr_to_version = SchemaV1,
          lr_idempotency_key = key, lr_fingerprint = final\<rparr>]\<rparr>"

definition new_rollback :: "string \<Rightarrow> migration_result" where
  "new_rollback final =
     \<lparr>mg_migration_id = rollback_id, mg_from_version = SchemaV2, mg_to_version = SchemaV1,
      mg_fingerprint = final, mg_already_applied = False\<rparr>"

lemma restored_fields [simp]:
  "db_ledger (restore_v1_tables d) = db_ledger d" "db_effects (restore_v1_tables d) = db_effects d"
  "db_orders (restore_v1_tables d) = map (or_priority_update (\<lambda>_. None)) (db_orders d)"
  by (simp_all add: restore_v1_tables_def)

lemma restored_migrated:
  assumes "in_phase Migrated i d" and "key \<notin> lr_idempotency_key ` set (db_ledger d)"
  shows "in_phase RolledBack i (rolled_back_db key final d)"
  using assms
  by (auto simp: in_phase_def rolled_back_db_def restore_v1_tables_def set_schema_version_def move_of_def)

lemma rollback_replayed:
  "ledger_row_for key d = Some r \<Longrightarrow>
   rollback_v2_to_v1 path key (Some d) =
     ((if lr_migration_id r = rollback_id then Inr (recorded_migration r)
       else Inl (DatabaseError ''idempotency key belongs to another migration'')), Some d)"
  by (simp add: rollback_v2_to_v1_def with_connection_def query_def visible_def bnd_def
      replay_migration_def)

lemma rollback_migrated:
  assumes d: "in_phase Migrated i d" and new: "ledger_row_for key d = None"
    and none: "count_special d = Inr 0"
  shows "\<exists>final. rollback_v2_to_v1 path key (Some d)
                   = (Inr (new_rollback final), Some (rolled_back_db key final d))
                 \<and> in_phase RolledBack i (rolled_back_db key final d)"
proof -
  have fresh: "key \<notin> lr_idempotency_key ` set (db_ledger d)" using new by (simp add: find_key_None)
  have "fingerprint_of (rolled_back_db key [] d) = fingerprint_of (restore_v1_tables d)"
    by (simp add: rolled_back_db_def)
  then obtain final where final: "fingerprint_of (restore_v1_tables d) = Inr final"
    using fingerprint_total [OF restored_migrated [OF d fresh]] by metis
  have ledger: "insert_ledger r (restore_v1_tables d)
      = Inr ((restore_v1_tables d)\<lparr>db_ledger := db_ledger d @ [r]\<rparr>)"
    if "lr_migration_id r = rollback_id" "lr_idempotency_key r = key" for r
    using ledger_id_set [OF d] that fresh
    by (simp add: insert_ledger_def migration_id_def rollback_id_def)
  have "rollback_v2_to_v1 path key (Some d)
          = (Inr (new_rollback final), Some (rolled_back_db key final d))"
    by (simp add: rollback_v2_to_v1_def with_connection_def query_def visible_def bnd_def new
        apply_rollback_def schema_version_phase [OF d] none run_script_def change_rows_def final ledger
        rolled_back_db_def new_rollback_def)
  then show ?thesis using restored_migrated [OF d fresh] by blast
qed

lemma rollback_refused:
  assumes d: "in_phase p i d" and new: "ledger_row_for key d = None"
    and no: "p \<noteq> Migrated \<or> count_special d \<noteq> Inr 0"
  shows "\<exists>m. rollback_v2_to_v1 path key (Some d) = (Inl (DatabaseError m), Some d)"
proof (cases "p = Migrated")
  case False
  then have "phase_schema p = SchemaV1" by (cases p) simp_all
  then show ?thesis
    by (simp add: rollback_v2_to_v1_def with_connection_def query_def visible_def bnd_def new
        apply_rollback_def schema_version_phase [OF d])
next
  case True
  then have "db_priority d" using d by (simp add: in_phase_def)
  then obtain n where n: "count_special d = Inr n" by (simp add: count_special_def)
  then have "0 < n" using no True by simp
  then show ?thesis using True n
    by (simp add: rollback_v2_to_v1_def with_connection_def query_def visible_def bnd_def new
        apply_rollback_def schema_version_phase [OF d])
qed

section \<open>Orders and effects\<close>

lemma insert_row_phase:
  assumes d: "in_phase p i d" and r: "(or_priority r \<noteq> None) = phase_column p"
    and ins: "insert_row r d = Inr d'"
  shows "in_phase p i d' \<and> db_ledger d' = db_ledger d \<and> db_effects d' = db_effects d"
  using assms by (auto simp: insert_row_def in_phase_def split: if_splits)

lemma insert_order_phase:
  assumes d: "in_phase p i d" and ins: "insert_order path r (Some d) = (x, file)"
  shows "\<exists>d'. file = Some d' \<and> in_phase p i d' \<and> db_ledger d' = db_ledger d \<and> db_effects d' = db_effects d"
proof (cases "phase_schema p = SchemaV1")
  case True
  show ?thesis
  proof (cases "or_priority r = None")
    case False
    then have "file = Some d" using ins True
      by (auto simp: insert_order_def bnd_def with_connection_def query_def visible_def
          schema_version_phase [OF d])
    then show ?thesis using d by blast
  next
    case None: True
    have col: "db_priority d = phase_column p" using d by (rule in_phaseD)
    show ?thesis
    proof (cases "insert_v1_order r d")
      case (Inl e)
      then have "file = Some d" using ins True None
        by (auto simp: insert_order_def bnd_def with_connection_def query_def visible_def
            schema_version_phase [OF d] change_rows_def)
      then show ?thesis using d by blast
    next
      case (Inr d')
      then have "file = Some d'" using ins True None
        by (auto simp: insert_order_def bnd_def with_connection_def query_def visible_def
            schema_version_phase [OF d] change_rows_def)
      moreover have "in_phase p i d' \<and> db_ledger d' = db_ledger d \<and> db_effects d' = db_effects d"
        using Inr col by (intro insert_row_phase [OF d]) (auto simp: insert_v1_order_def)
      ultimately show ?thesis by blast
    qed
  qed
next
  case False
  then have p: "p = Migrated" by (cases p) simp_all
  have col: "db_priority d" using in_phaseD(2) [OF d] p by simp
  show ?thesis
  proof (cases "insert_v2_order r d")
    case (Inl e)
    then have "file = Some d" using ins False
      by (auto simp: insert_order_def bnd_def with_connection_def query_def visible_def
          schema_version_phase [OF d] change_rows_def)
    then show ?thesis using d by blast
  next
    case (Inr d')
    then have "file = Some d'" using ins False
      by (auto simp: insert_order_def bnd_def with_connection_def query_def visible_def
          schema_version_phase [OF d] change_rows_def)
    moreover have "in_phase p i d' \<and> db_ledger d' = db_ledger d \<and> db_effects d' = db_effects d"
      using Inr col p
      by (intro insert_row_phase [OF d]) (auto simp: insert_v2_order_def split: option.splits list.splits)
    ultimately show ?thesis by blast
  qed
qed

lemma sort_key_Nil_iff [simp]: "sort_key f xs = [] \<longleftrightarrow> xs = []"
  by (metis set_empty set_sort)

lemma list_orders_phase:
  assumes d: "in_phase p i d"
  shows "\<exists>os. list_orders path (Some d) = (Inr os, Some d) \<and> os \<noteq> []
           \<and> (phase_schema p = SchemaV2 \<longrightarrow> (\<forall>r \<in> set os. or_priority r \<noteq> None))"
proof -
  obtain os where os: "select_orders (phase_schema p) d = Inr os"
    using select_orders_phase [OF d] by blast
  have "list_orders path (Some d) = (Inr os, Some d)"
    by (simp add: list_orders_def bnd_def with_connection_def query_def visible_def
        schema_version_phase [OF d] os)
  moreover have "os \<noteq> []" using os d
    by (auto simp: select_orders_def in_phase_def split: if_splits)
  moreover have "\<forall>r \<in> set os. or_priority r \<noteq> None" if "phase_schema p = SchemaV2"
    using os d that by (cases p) (auto simp: select_orders_def in_phase_def split: if_splits)
  ultimately show ?thesis by blast
qed

lemma record_effect_phase:
  assumes d: "in_phase p i d" and new: "key \<notin> fx_idempotency_key ` set (db_effects d)"
  shows "record_effect path key tool out (Some d)
           = (Inr (), Some (d\<lparr>db_effects := db_effects d @
                [\<lparr>fx_idempotency_key = key, fx_tool_name = tool, fx_output_json = out\<rparr>]\<rparr>))
         \<and> in_phase p i (d\<lparr>db_effects := db_effects d @
                [\<lparr>fx_idempotency_key = key, fx_tool_name = tool, fx_output_json = out\<rparr>]\<rparr>)"
  using assms
  by (simp add: record_effect_def with_connection_def change_rows_def visible_def insert_effect_def
      in_phase_def)

lemma effect_output_reads:
  "effect_output path key tool (Some d) =
     (case List.find (\<lambda>r. fx_idempotency_key r = key) (db_effects d) of
        None \<Rightarrow> (Inr None, Some d)
      | Some r \<Rightarrow>
          if fx_tool_name r \<noteq> tool
          then (Inl (DatabaseError ''idempotency key belongs to another tool''), Some d)
          else (case fx_output_json r of
                  PDict v \<Rightarrow> (Inr (Some (PDict v)), Some d)
                | _ \<Rightarrow> (Inl (DatabaseError ''stored tool output is invalid''), Some d)))"
  by (simp add: effect_output_def bnd_def with_connection_def query_def visible_def
      split: option.splits pyval.splits)

section \<open>The way back\<close>

lemma rollback_undoes:
  assumes "in_phase Fresh i d"
  shows "rolled_back_db k' f' (migrated_db k f d)
           = d\<lparr>db_ledger := db_ledger (rolled_back_db k' f' (migrated_db k f d))\<rparr>"
proof -
  have "map (\<lambda>r. r\<lparr>or_priority := None\<rparr>) (db_orders d) = db_orders d"
    using assms by (intro map_idI) (auto simp: in_phase_def)
  then show ?thesis using assms
    by (cases d) (simp add: in_phase_def rolled_back_db_def migrated_db_def widened_db_def
        restore_v1_tables_def set_schema_version_def comp_def)
qed

end
