(* ===== verification/Sandbox_Manager.thy ===== *)
theory Sandbox_Manager
  imports Sandbox_Database
begin

text \<open>
  \<open>sandbox/application/manager.py\<close> and \<open>orders.py\<close>: sandboxes are directories below a base
  directory, each with a database, a state file and the configured faults, and the order service
  runs on one of them. The base directory holds no symbolic links: a path resolves to itself.
\<close>

section \<open>Directories\<close>

text \<open>The two fields of the JSON object in \<open>sandbox.json\<close>.\<close>

record state_file =
  sf_sandbox_id :: string
  sf_service_version :: string

text \<open>\<open>sd_others\<close> are the names of other files in the directory.\<close>

record sandbox_dir =
  sd_database :: "sandbox_db option"
  sd_state :: "state_file option"
  sd_faults :: "fault_configuration option"
  sd_others :: "string list"

type_synonym sandboxes = "(string, sandbox_dir) dict"

type_synonym 'a managed = "(sandboxes, sandbox_error, 'a) act"

definition empty_dir :: sandbox_dir where
  "empty_dir = \<lparr>sd_database = None, sd_state = None, sd_faults = None, sd_others = []\<rparr>"

definition dir_is_empty :: "sandbox_dir \<Rightarrow> bool" where
  "dir_is_empty r \<longleftrightarrow> r = empty_dir"

section \<open>Paths\<close>

definition id_start :: "char \<Rightarrow> bool" where
  "id_start c \<longleftrightarrow> 48 \<le> code c \<and> code c \<le> 57 \<or> 65 \<le> code c \<and> code c \<le> 90 \<or> 97 \<le> code c \<and> code c \<le> 122"

text \<open>\<open>^[A-Za-z0-9][A-Za-z0-9_-]{0,63}$\<close>, matched in full.\<close>

fun sandbox_id_ok :: "string \<Rightarrow> bool" where
  "sandbox_id_ok [] = False"
| "sandbox_id_ok (c # cs) \<longleftrightarrow>
     id_start c \<and> length cs \<le> 63 \<and> list_all (\<lambda>d. id_start d \<or> d = CHR ''_'' \<or> d = CHR ''-'') cs"

definition sandbox_root :: "string \<Rightarrow> string \<Rightarrow> sandbox_error + string" where
  "sandbox_root base sandbox_id =
     (if sandbox_id_ok sandbox_id then Inr (base @ ''/'' @ sandbox_id)
      else Inl (BoundaryError (''sandbox id must contain only letters, digits, '' @ [CHR 39, CHR ''_'', CHR 39]
        @ '' or '' @ [CHR 39, CHR ''-'', CHR 39])))"

text \<open>The parts of a path, and a Windows drive or share at its start.\<close>

definition path_parts :: "(char \<Rightarrow> bool) \<Rightarrow> string \<Rightarrow> string list" where
  "path_parts sep p =
     filter (\<lambda>s. s \<noteq> [] \<and> s \<noteq> ''.'')
       (split_at (CHR ''/'') (map (\<lambda>c. if sep c then CHR ''/'' else c) p))"

definition posix_sep :: "char \<Rightarrow> bool" where
  "posix_sep c \<longleftrightarrow> c = CHR ''/''"

definition windows_sep :: "char \<Rightarrow> bool" where
  "windows_sep c \<longleftrightarrow> c = CHR ''/'' \<or> c = CHR 92"

fun windows_drive :: "string \<Rightarrow> bool" where
  "windows_drive (c # d # cs) \<longleftrightarrow> d = CHR '':'' \<or> windows_sep c \<and> windows_sep d"
| "windows_drive _ = False"

definition resolve_resource :: "string \<Rightarrow> string \<Rightarrow> string \<Rightarrow> sandbox_error + string" where
  "resolve_resource base sandbox_id p =
     sbind (sandbox_root base sandbox_id) (\<lambda>root.
     if (\<exists>cs. p = CHR ''/'' # cs) \<or> windows_drive p
     then Inl (BoundaryError ''absolute resource paths are forbidden'')
     else if ''..'' \<in> set (path_parts posix_sep p) \<or> ''..'' \<in> set (path_parts windows_sep p)
     then Inl (BoundaryError ''resource path escapes the sandbox'')
     else if CHR 0x00 \<in> set p then Inl (PyError (ValueError ''embedded null byte''))
     else Inr (join ''/'' (root # path_parts posix_sep p)))"

definition database_path :: "string \<Rightarrow> string \<Rightarrow> sandbox_error + string" where
  "database_path base sandbox_id = resolve_resource base sandbox_id ''orders.db''"

section \<open>Files of a directory\<close>

text \<open>An operation on a file of the directory of a sandbox.\<close>

definition dir_of :: "sandboxes \<Rightarrow> string \<Rightarrow> sandbox_dir" where
  "dir_of s i = (case dget s i of None \<Rightarrow> empty_dir | Some r \<Rightarrow> r)"

definition on_database :: "string \<Rightarrow> (sandbox_db option, sandbox_error, 'a) act \<Rightarrow> 'a managed" where
  "on_database i m s =
     (case m (sd_database (dir_of s i)) of
        (r, file) \<Rightarrow> (r, if file = sd_database (dir_of s i) then s
                         else dset i ((dir_of s i)\<lparr>sd_database := file\<rparr>) s))"

definition inspect_dir :: "string \<Rightarrow> string \<Rightarrow> sandbox_dir \<Rightarrow> sandbox_error + sandbox_state" where
  "inspect_dir root i r =
     sbind (or_raise (sd_state r)
              (MissingFile (''sandbox '' @ py_repr i @ '' does not exist''))) (\<lambda>payload.
     sbind (parse_service_version (sf_service_version payload)) (\<lambda>service.
     sbind (or_raise (sd_database r)
              (DatabaseError (''sandbox database does not exist: '' @ root @ ''/orders.db''))) (\<lambda>d.
     sbind (stored_sandbox_id d) (\<lambda>stored.
     if stored \<noteq> i \<or> sf_sandbox_id payload \<noteq> i
     then Inl (BoundaryError ''sandbox identity mismatch'')
     else
     sbind (schema_version_in d) (\<lambda>schema.
     sbind (fingerprint_of d) (\<lambda>fingerprint.
     make_sandbox_state
       \<lparr>ss_sandbox_id = i, ss_root = root, ss_service_version = service, ss_schema_version = schema,
        ss_migration_ids = stored_migration_ids d, ss_fingerprint = fingerprint\<rparr>))))))"

section \<open>The manager\<close>

definition inspect :: "string \<Rightarrow> string \<Rightarrow> sandbox_state managed" where
  "inspect base i =
     bnd (lift_res (sandbox_root base i)) (\<lambda>root.
     bnd (get_act (\<lambda>s. inspect_dir root i (dir_of s i))) lift_res)"

definition write_service_version :: "string \<Rightarrow> service_version \<Rightarrow> unit managed" where
  "write_service_version i v =
     modify_act (\<lambda>s. dset i ((dir_of s i)\<lparr>sd_state :=
       Some \<lparr>sf_sandbox_id = i, sf_service_version = service_value v\<rparr>\<rparr>) s)"

definition create_sandbox :: "string \<Rightarrow> string \<Rightarrow> sandbox_state managed" where
  "create_sandbox base i =
     bnd (lift_res (sandbox_root base i)) (\<lambda>root.
     bnd (get_act (\<lambda>s. dir_of s i)) (\<lambda>r.
     if \<not> dir_is_empty r
     then raise_act (ExistingFile (''sandbox '' @ py_repr i @ '' already exists''))
     else
     bnd (on_database i (initialize_v1 i)) (\<lambda>_.
     bnd (write_service_version i ServiceV1) (\<lambda>_.
     inspect base i))))"

definition unlink_files :: "string \<Rightarrow> unit managed" where
  "unlink_files i =
     modify_act (\<lambda>s. dset i ((dir_of s i)\<lparr>sd_database := None, sd_state := None, sd_faults := None\<rparr>) s)"

definition reset_sandbox :: "string \<Rightarrow> string \<Rightarrow> sandbox_state managed" where
  "reset_sandbox base i =
     bnd (lift_res (sandbox_root base i)) (\<lambda>root.
     bnd (get_act (\<lambda>s. dget s i)) (\<lambda>found.
     bnd (if found = None then ret ()
          else bnd (inspect base i) (\<lambda>state.
               if ss_sandbox_id state \<noteq> i
               then raise_act (BoundaryError ''sandbox identity mismatch'')
               else unlink_files i)) (\<lambda>_.
     create_sandbox base i)))"

definition set_service_version :: "string \<Rightarrow> string \<Rightarrow> service_version \<Rightarrow> sandbox_state managed" where
  "set_service_version base i v =
     bnd (lift_res (sandbox_root base i)) (\<lambda>_.
     bnd (inspect base i) (\<lambda>_.
     bnd (write_service_version i v) (\<lambda>_.
     inspect base i)))"

section \<open>The order service\<close>

definition compatible :: "service_version \<Rightarrow> schema_version \<Rightarrow> bool" where
  "compatible service schema \<longleftrightarrow>
     service = ServiceV1 \<and> schema \<in> {SchemaV1, SchemaV2} \<or> service = ServiceV2 \<and> schema = SchemaV2"

definition health_of :: "sandbox_state \<Rightarrow> service_health" where
  "health_of s =
     (let ok = compatible (ss_service_version s) (ss_schema_version s) in
      \<lparr>sh_healthy = ok, sh_service_version = ss_service_version s,
       sh_schema_version = ss_schema_version s,
       sh_detail = (if ok then ''service and database are compatible''
                    else ''service v2 requires schema v2'')\<rparr>)"

definition service_health_check :: "string \<Rightarrow> string \<Rightarrow> service_health managed" where
  "service_health_check base i = bnd (inspect base i) (\<lambda>s. ret (health_of s))"

definition service_list_orders :: "string \<Rightarrow> string \<Rightarrow> order_record list managed" where
  "service_list_orders base i =
     bnd (service_health_check base i) (\<lambda>h.
     if \<not> sh_healthy h then raise_act (DatabaseError ''service and database are incompatible'')
     else
     bnd (lift_res (database_path base i)) (\<lambda>path.
     on_database i (list_orders path)))"

definition service_create_order :: "string \<Rightarrow> string \<Rightarrow> order_record \<Rightarrow> order_record managed" where
  "service_create_order base i r =
     bnd (inspect base i) (\<lambda>state.
     if ss_service_version state = ServiceV1 \<and> or_priority r \<noteq> None
     then raise_act (DatabaseError ''service v1 does not accept priority'')
     else
     bnd (service_health_check base i) (\<lambda>h.
     if \<not> sh_healthy h then raise_act (DatabaseError ''service and database are incompatible'')
     else
     bnd (lift_res (database_path base i)) (\<lambda>path.
     bnd (on_database i (insert_order path r)) (\<lambda>_.
     ret r))))"

end
