(* ===== verification/Sandbox_Tools.thy ===== *)
theory Sandbox_Tools
  imports Sandbox_Manager Tooling
begin

text \<open>
  \<open>sandbox/application/faults.py\<close> and \<open>sandbox/adapters/tools.py\<close>: the fault injector and the tools
  that act on a sandbox, each with its execution and its probe, and the suite of them. A tool call
  is one step on the sandboxes; \<open>base\<close> is the base directory.
\<close>

section \<open>Fault injection\<close>

definition read_faults :: "string \<Rightarrow> string \<Rightarrow> fault_configuration managed" where
  "read_faults base i =
     bnd (lift_res (resolve_resource base i ''faults.json'')) (\<lambda>_.
     get_act (\<lambda>s. case sd_faults (dir_of s i) of
                   None \<Rightarrow> \<lparr>fc_specs = [], fc_call_counts = []\<rparr> | Some c \<Rightarrow> c))"

definition write_faults :: "string \<Rightarrow> string \<Rightarrow> fault_configuration \<Rightarrow> unit managed" where
  "write_faults base i c =
     bnd (lift_res (resolve_resource base i ''faults.json'')) (\<lambda>_.
     bnd (get_act (\<lambda>s. dget s i)) (\<lambda>found.
     case found of
       None \<Rightarrow> raise_act (MissingFile (''[Errno 2] No such file or directory: ''
                 @ py_repr (base @ ''/'' @ i @ ''/faults.tmp'')))
     | Some r \<Rightarrow> modify_act (\<lambda>s. dset i (r\<lparr>sd_faults := Some c\<rparr>) s)))"

definition fault_identity :: "fault_spec \<Rightarrow> string \<times> nat" where
  "fault_identity f = (fs_tool_name f, fs_call_number f)"

definition configure_faults :: "string \<Rightarrow> string \<Rightarrow> fault_spec list \<Rightarrow> unit managed" where
  "configure_faults base i specs =
     (if length (remdups (map fault_identity specs)) \<noteq> length specs
      then raise_act (PyError (ValueError ''duplicate fault tool/call configuration''))
      else write_faults base i \<lparr>fc_specs = specs, fc_call_counts = []\<rparr>)"

definition calls_so_far :: "string \<Rightarrow> fault_configuration \<Rightarrow> nat" where
  "calls_so_far name c = (case dget (fc_call_counts c) name of None \<Rightarrow> 0 | Some n \<Rightarrow> n)"

definition fault_for :: "fault_spec list \<Rightarrow> string \<Rightarrow> nat \<Rightarrow> fault_type option" where
  "fault_for specs name n =
     map_option fs_fault_type
       (List.find (\<lambda>f. fs_tool_name f = name \<and> fs_call_number f = n) specs)"

definition next_fault :: "string \<Rightarrow> string \<Rightarrow> string \<Rightarrow> fault_type option managed" where
  "next_fault base i name =
     bnd (read_faults base i) (\<lambda>c.
     (let n = calls_so_far name c + 1 in
      bnd (write_faults base i (c\<lparr>fc_call_counts := dset name n (fc_call_counts c)\<rparr>)) (\<lambda>_.
      ret (fault_for (fc_specs c) name n))))"

definition call_count :: "string \<Rightarrow> string \<Rightarrow> string \<Rightarrow> nat managed" where
  "call_count base i name = bnd (read_faults base i) (\<lambda>c. ret (calls_so_far name c))"

section \<open>Tools\<close>

datatype sandbox_output =
    EnvironmentOut environment_output
  | ActionOut action_output
  | ValidationOut validation_output

record sandbox_result =
  sx_output :: sandbox_output
  sx_effect_applied :: bool

record sandbox_probe =
  sp_status :: probe_status
  sp_output :: "sandbox_output option"

record sandbox_tool = tool +
  bt_execute :: "tool_context \<Rightarrow> sandbox_arguments \<Rightarrow> sandbox_result managed"
  bt_probe :: "recovery_query \<Rightarrow> sandbox_probe managed"

definition state_digest :: "sandbox_state \<Rightarrow> sandbox_error + string" where
  "state_digest s = map_error PyError (json_digest True (state_json s))"

text \<open>\<open>except (SandboxBoundaryError, SandboxDatabaseError, OSError)\<close>.\<close>

fun is_permanent :: "sandbox_error \<Rightarrow> bool" where
  "is_permanent (BoundaryError m) = True"
| "is_permanent (DatabaseError m) = True"
| "is_permanent (MissingFile m) = True"
| "is_permanent (ExistingFile m) = True"
| "is_permanent _ = False"

definition catch_permanent :: "'a managed \<Rightarrow> 'a managed" where
  "catch_permanent m =
     try_act m (\<lambda>e. raise_act (if is_permanent e then DomainError (sandbox_error_text e) Permanent else e))"

definition not_found :: "sandbox_probe managed" where
  "not_found = ret \<lparr>sp_status = NotFound, sp_output = None\<rparr>"

definition inconclusive :: "sandbox_probe managed" where
  "inconclusive = ret \<lparr>sp_status = Inconclusive, sp_output = None\<rparr>"

definition found_action :: "action_output \<Rightarrow> sandbox_probe managed" where
  "found_action out = ret \<lparr>sp_status = Found, sp_output = Some (ActionOut out)\<rparr>"

definition sandbox_id_from_query :: "recovery_query \<Rightarrow> string option" where
  "sandbox_id_from_query q =
     Option.bind (as_mapping (rq_metadata q)) (\<lambda>m.
     Option.bind (as_mapping (pget m ''arguments'')) (\<lambda>d. text_of_json (pget d ''sandbox_id'')))"

subsection \<open>Inspection\<close>

definition environment_summary :: "sandbox_state \<Rightarrow> string" where
  "environment_summary s =
     ss_sandbox_id s @ '': service='' @ service_value (ss_service_version s) @ '', schema=''
     @ schema_value (ss_schema_version s) @ '', migrations=''
     @ int_text (int (length (ss_migration_ids s)))"

definition environment_execute ::
  "string \<Rightarrow> tool_context \<Rightarrow> sandbox_arguments \<Rightarrow> sandbox_result managed" where
  "environment_execute base ctx args =
     bnd (catch_permanent (inspect base (ga_sandbox_id args))) (\<lambda>state.
     bnd (lift_res (state_digest state)) (\<lambda>digest.
     ret \<lparr>sx_output = EnvironmentOut \<lparr>eo_state = state, eo_summary = environment_summary state,
                                      eo_evidence_digest = digest\<rparr>,
          sx_effect_applied = False\<rparr>))"

fun environment_of :: "sandbox_output \<Rightarrow> sandbox_state option" where
  "environment_of (EnvironmentOut e) = Some (eo_state e)"
| "environment_of _ = None"

definition precheck_execute ::
  "string \<Rightarrow> tool_context \<Rightarrow> sandbox_arguments \<Rightarrow> sandbox_result managed" where
  "precheck_execute base ctx args =
     bnd (environment_execute base ctx args) (\<lambda>result.
     case environment_of (sx_output result) of
       None \<Rightarrow> raise_act (PyError (ValueError ''EnvironmentOutput''))
     | Some state \<Rightarrow>
         if ss_service_version state \<noteq> ServiceV1 \<or> ss_schema_version state \<noteq> SchemaV1
         then raise_act (DomainError ''upgrade precheck requires service v1 and schema v1'' Permanent)
         else ret result)"

definition no_probe :: "recovery_query \<Rightarrow> sandbox_probe managed" where
  "no_probe q = not_found"

subsection \<open>Migration and rollback\<close>

definition fingerprint_argument :: "sandbox_arguments \<Rightarrow> sandbox_error + string" where
  "fingerprint_argument args =
     or_raise (ga_expected_fingerprint args)
       (PyError (AttributeError (py_repr ''SandboxArguments'' @ '' object has no attribute ''
          @ py_repr ''expected_fingerprint'')))"

definition action_result :: "action_output \<Rightarrow> sandbox_result" where
  "action_result out = \<lparr>sx_output = ActionOut out, sx_effect_applied = \<not> ao_already_applied out\<rparr>"

definition migrate_execute ::
  "string \<Rightarrow> tool_context \<Rightarrow> sandbox_arguments \<Rightarrow> sandbox_result managed" where
  "migrate_execute base ctx args =
     catch_permanent
       (bnd (inspect base (ga_sandbox_id args)) (\<lambda>before.
        bnd (lift_res (database_path base (ga_sandbox_id args))) (\<lambda>path.
        bnd (lift_res (fingerprint_argument args)) (\<lambda>fingerprint.
        bnd (on_database (ga_sandbox_id args)
               (migrate_v1_to_v2 path (tc_logical_idempotency_key ctx) fingerprint)) (\<lambda>migration.
        bnd (inspect base (ga_sandbox_id args)) (\<lambda>after.
        ret (action_result
          \<lparr>ao_sandbox_id = ga_sandbox_id args, ao_action = ''schema.migrate'', ao_before = Some before,
           ao_after = after,
           ao_summary = (if mg_already_applied migration then ''schema migration already applied''
                         else ''schema migrated from v1 to v2''),
           ao_already_applied = mg_already_applied migration\<rparr>)))))))"

text \<open>The probes of the two migrations: the ledger is asked for the key.\<close>

definition ledger_probe ::
  "string \<Rightarrow> string \<Rightarrow> schema_version \<Rightarrow> string \<Rightarrow> recovery_query \<Rightarrow> sandbox_probe managed" where
  "ledger_probe base action target summary q =
     (case sandbox_id_from_query q of
        None \<Rightarrow> inconclusive
      | Some i \<Rightarrow>
          try_act
            (bnd (lift_res (database_path base i)) (\<lambda>path.
             bnd (on_database i (migration_for_key path (rq_logical_idempotency_key q))) (\<lambda>migration.
             case migration of
               None \<Rightarrow> not_found
             | Some m \<Rightarrow>
                 if mg_to_version m \<noteq> target then not_found
                 else bnd (inspect base i) (\<lambda>after.
                   found_action
                     \<lparr>ao_sandbox_id = i, ao_action = action, ao_before = None, ao_after = after,
                      ao_summary = summary, ao_already_applied = True\<rparr>))))
            (\<lambda>_. inconclusive))"

definition migrate_probe :: "string \<Rightarrow> recovery_query \<Rightarrow> sandbox_probe managed" where
  "migrate_probe base =
     ledger_probe base ''schema.migrate'' SchemaV2 ''migration found in the sandbox ledger''"

definition rollback_execute ::
  "string \<Rightarrow> tool_context \<Rightarrow> sandbox_arguments \<Rightarrow> sandbox_result managed" where
  "rollback_execute base ctx args =
     catch_permanent
       (bnd (inspect base (ga_sandbox_id args)) (\<lambda>before.
        if ss_service_version before \<noteq> ServiceV1
        then raise_act (DatabaseError ''schema rollback requires service v1'')
        else
        bnd (lift_res (database_path base (ga_sandbox_id args))) (\<lambda>path.
        bnd (on_database (ga_sandbox_id args)
               (rollback_v2_to_v1 path (tc_logical_idempotency_key ctx))) (\<lambda>migration.
        bnd (inspect base (ga_sandbox_id args)) (\<lambda>after.
        ret (action_result
          \<lparr>ao_sandbox_id = ga_sandbox_id args, ao_action = ''schema.rollback'', ao_before = Some before,
           ao_after = after,
           ao_summary = (if mg_already_applied migration then ''schema rollback already applied''
                         else ''schema rolled back from v2 to v1''),
           ao_already_applied = mg_already_applied migration\<rparr>))))))"

definition rollback_probe :: "string \<Rightarrow> recovery_query \<Rightarrow> sandbox_probe managed" where
  "rollback_probe base =
     ledger_probe base ''schema.rollback'' SchemaV1 ''rollback found in the sandbox ledger''"

subsection \<open>Service versions\<close>

definition stored_action :: "pyval \<Rightarrow> sandbox_error + action_output" where
  "stored_action v =
     or_raise (action_of_json v) (PyError (ValueError ''validation errors for ActionOutput''))"

definition switch_output ::
  "string \<Rightarrow> string \<Rightarrow> service_version \<Rightarrow> sandbox_state \<Rightarrow> sandbox_state \<Rightarrow> action_output" where
  "switch_output i name target before after =
     \<lparr>ao_sandbox_id = i, ao_action = name, ao_before = Some before, ao_after = after,
      ao_summary = (if ss_service_version before \<noteq> target then ''service set to '' @ service_value target
                    else ''service already at '' @ service_value target),
      ao_already_applied = (ss_service_version before = target)\<rparr>"

definition switch_service ::
  "string \<Rightarrow> string \<Rightarrow> service_version \<Rightarrow> string \<Rightarrow> string \<Rightarrow> string \<Rightarrow> sandbox_result managed" where
  "switch_service base name target path key i =
     bnd (inspect base i) (\<lambda>before.
     if target = ServiceV2 \<and> ss_schema_version before \<noteq> SchemaV2
     then raise_act (DatabaseError ''service v2 requires schema v2'')
     else
     bnd (set_service_version base i target) (\<lambda>after.
     (let out = switch_output i name target before after in
      bnd (on_database i (record_effect path key name (action_json out))) (\<lambda>_.
      ret (action_result out)))))"

definition service_version_execute ::
  "string \<Rightarrow> string \<Rightarrow> service_version \<Rightarrow> tool_context \<Rightarrow> sandbox_arguments \<Rightarrow> sandbox_result managed" where
  "service_version_execute base name target ctx args =
     catch_permanent
       (bnd (lift_res (database_path base (ga_sandbox_id args))) (\<lambda>path.
        bnd (on_database (ga_sandbox_id args)
               (effect_output path (tc_logical_idempotency_key ctx) name)) (\<lambda>existing.
        case existing of
          Some v \<Rightarrow>
            bnd (lift_res (stored_action v)) (\<lambda>out.
            ret \<lparr>sx_output = ActionOut out, sx_effect_applied = False\<rparr>)
        | None \<Rightarrow>
            switch_service base name target path (tc_logical_idempotency_key ctx) (ga_sandbox_id args))))"

definition service_version_probe :: "string \<Rightarrow> string \<Rightarrow> recovery_query \<Rightarrow> sandbox_probe managed" where
  "service_version_probe base name q =
     (case sandbox_id_from_query q of
        None \<Rightarrow> inconclusive
      | Some i \<Rightarrow>
          bnd (try_act
                 (bnd (lift_res (database_path base i)) (\<lambda>path.
                  bnd (on_database i (effect_output path (rq_logical_idempotency_key q) name)) (\<lambda>payload.
                  ret (Some payload))))
                 (\<lambda>_. ret None)) (\<lambda>answer.
          case answer of
            None \<Rightarrow> inconclusive
          | Some None \<Rightarrow> not_found
          | Some (Some v) \<Rightarrow> bnd (lift_res (stored_action v)) found_action))"

subsection \<open>Validation\<close>

definition smoke_test :: "string \<Rightarrow> string \<Rightarrow> sandbox_state \<Rightarrow> unit managed" where
  "smoke_test base i state =
     bnd (service_list_orders base i) (\<lambda>orders.
     if orders = [] then raise_act (DatabaseError ''order fixture is empty'')
     else if ss_service_version state = ServiceV2 \<and> list_ex (\<lambda>r. or_priority r = None) orders
     then raise_act (DatabaseError ''v2 order response lacks priority'')
     else ret ())"

definition validation_execute ::
  "string \<Rightarrow> bool \<Rightarrow> tool_context \<Rightarrow> sandbox_arguments \<Rightarrow> sandbox_result managed" where
  "validation_execute base smoke ctx args =
     catch_permanent
       (bnd (inspect base (ga_sandbox_id args)) (\<lambda>state.
        bnd (service_health_check base (ga_sandbox_id args)) (\<lambda>health.
        if \<not> sh_healthy health then raise_act (DatabaseError (sh_detail health))
        else
        bnd (if smoke then smoke_test base (ga_sandbox_id args) state else ret ()) (\<lambda>_.
        ret \<lparr>sx_output = ValidationOut
               \<lparr>vo_state = state, vo_success = True,
                vo_checks = ''service_database_compatible''
                  # (if smoke then [''orders_readable'', ''versioned_contract_valid''] else []),
                vo_summary = (if smoke then ''order smoke test passed''
                              else ''service health check passed'')\<rparr>,
             sx_effect_applied = False\<rparr>))))"

section \<open>Descriptors and the suite\<close>

text \<open>
  A strict, closed model whose fields are texts. The text of a \<open>ValidationError\<close> and the
  validation of the output models are Pydantic's, and parameters.
\<close>

record model_boundary =
  mb_error :: "string \<Rightarrow> (pykey, pyval) dict \<Rightarrow> string"
  mb_output :: "string \<Rightarrow> (pykey, pyval) dict \<Rightarrow> string + (string \<times> pyval) list"

definition text_model :: "model_boundary \<Rightarrow> string \<Rightarrow> string list \<Rightarrow> model_type" where
  "text_model mb name names =
     \<lparr>mt_name = name, mt_fields = names, mt_strict = True, mt_frozen = True, mt_forbid = True,
      mt_validate = (\<lambda>d.
        case all_some (map (\<lambda>f. text_of_json (pget d f)) names) of
          None \<Rightarrow> Inl (mb_error mb name d)
        | Some texts \<Rightarrow>
            if only_fields names d then Inr (zip names (map PStr texts)) else Inl (mb_error mb name d))\<rparr>"

definition output_model :: "model_boundary \<Rightarrow> string \<Rightarrow> string list \<Rightarrow> model_type" where
  "output_model mb name names =
     \<lparr>mt_name = name, mt_fields = names, mt_strict = True, mt_frozen = True, mt_forbid = True,
      mt_validate = mb_output mb name\<rparr>"

definition sandbox_descriptor ::
  "string \<Rightarrow> model_type \<Rightarrow> model_type \<Rightarrow> tool_risk \<Rightarrow> tool_idempotency \<Rightarrow> tool_descriptor" where
  "sandbox_descriptor name input out risk idempotency =
     \<lparr>td_name = name, td_version = ''1.0.0'', td_input_model = input, td_output_model = out,
      td_risk = risk, td_idempotency = idempotency, td_default_timeout_seconds = 30,
      td_max_timeout_seconds = 30, td_sensitive_argument_paths = []\<rparr>"

definition sandbox_input :: "model_boundary \<Rightarrow> model_type" where
  "sandbox_input mb = text_model mb ''SandboxArguments'' [''sandbox_id'']"

definition migration_input :: "model_boundary \<Rightarrow> model_type" where
  "migration_input mb = text_model mb ''MigrationArguments'' [''sandbox_id'', ''expected_fingerprint'']"

definition environment_model :: "model_boundary \<Rightarrow> model_type" where
  "environment_model mb = output_model mb ''EnvironmentOutput'' [''state'', ''summary'', ''evidence_digest'']"

definition action_model :: "model_boundary \<Rightarrow> model_type" where
  "action_model mb = output_model mb ''ActionOutput''
     [''sandbox_id'', ''action'', ''before'', ''after'', ''summary'', ''already_applied'']"

definition validation_model :: "model_boundary \<Rightarrow> model_type" where
  "validation_model mb = output_model mb ''ValidationOutput'' [''state'', ''success'', ''checks'', ''summary'']"

definition environment_tool :: "model_boundary \<Rightarrow> string \<Rightarrow> string \<Rightarrow> sandbox_tool" where
  "environment_tool mb base name =
     \<lparr>tl_descriptor = sandbox_descriptor name (sandbox_input mb) (environment_model mb) RiskLow IdemNone,
      bt_execute = environment_execute base, bt_probe = no_probe\<rparr>"

definition precheck_tool :: "model_boundary \<Rightarrow> string \<Rightarrow> sandbox_tool" where
  "precheck_tool mb base =
     (environment_tool mb base ''upgrade.precheck'')\<lparr>bt_execute := precheck_execute base\<rparr>"

definition migrate_tool :: "model_boundary \<Rightarrow> string \<Rightarrow> sandbox_tool" where
  "migrate_tool mb base =
     \<lparr>tl_descriptor = sandbox_descriptor ''schema.migrate'' (migration_input mb) (action_model mb)
                        RiskHigh IdemSupported,
      bt_execute = migrate_execute base, bt_probe = migrate_probe base\<rparr>"

definition rollback_tool :: "model_boundary \<Rightarrow> string \<Rightarrow> sandbox_tool" where
  "rollback_tool mb base =
     \<lparr>tl_descriptor = sandbox_descriptor ''schema.rollback'' (migration_input mb) (action_model mb)
                        RiskHigh IdemSupported,
      bt_execute = rollback_execute base, bt_probe = rollback_probe base\<rparr>"

definition service_version_tool ::
  "model_boundary \<Rightarrow> string \<Rightarrow> string \<Rightarrow> service_version \<Rightarrow> sandbox_tool" where
  "service_version_tool mb base name target =
     \<lparr>tl_descriptor = sandbox_descriptor name (sandbox_input mb) (action_model mb) RiskMedium IdemSupported,
      bt_execute = service_version_execute base name target,
      bt_probe = service_version_probe base name\<rparr>"

definition validation_tool :: "model_boundary \<Rightarrow> string \<Rightarrow> string \<Rightarrow> bool \<Rightarrow> sandbox_tool" where
  "validation_tool mb base name smoke =
     \<lparr>tl_descriptor = sandbox_descriptor name (sandbox_input mb) (validation_model mb) RiskLow IdemNone,
      bt_execute = validation_execute base smoke, bt_probe = no_probe\<rparr>"

definition sandbox_tools :: "model_boundary \<Rightarrow> string \<Rightarrow> sandbox_tool list" where
  "sandbox_tools mb base =
     [environment_tool mb base ''service.inspect'', environment_tool mb base ''schema.inspect'',
      precheck_tool mb base, migrate_tool mb base,
      service_version_tool mb base ''service.deploy-v2'' ServiceV2,
      validation_tool mb base ''service.health-check'' False,
      validation_tool mb base ''service.smoke-test'' True,
      service_version_tool mb base ''service.restore'' ServiceV1,
      rollback_tool mb base]"

text \<open>\<open>FaultInjectingTool\<close>.\<close>

definition fault_injecting_execute ::
  "string \<Rightarrow> sandbox_tool \<Rightarrow> tool_context \<Rightarrow> sandbox_arguments \<Rightarrow> sandbox_result managed" where
  "fault_injecting_execute base t ctx args =
     bnd (next_fault base (ga_sandbox_id args) (td_name (tl_descriptor t))) (\<lambda>fault.
     if fault = Some BeforeEffect
     then raise_act (DomainError ''injected interruption before tool effect'' ResultUnknown)
     else if fault = Some PermanentFailure
     then raise_act (DomainError ''injected permanent tool failure'' Permanent)
     else
     bnd (bt_execute t ctx args) (\<lambda>result.
     if fault = Some AfterEffect
     then raise_act (DomainError ''injected interruption after tool effect'' ResultUnknown)
     else ret result))"

definition fault_injecting :: "string \<Rightarrow> sandbox_tool \<Rightarrow> sandbox_tool" where
  "fault_injecting base t = t\<lparr>bt_execute := fault_injecting_execute base t\<rparr>"

definition suite_tools :: "model_boundary \<Rightarrow> string \<Rightarrow> bool \<Rightarrow> sandbox_tool list" where
  "suite_tools mb base faulty =
     (if faulty then map (fault_injecting base) (sandbox_tools mb base) else sandbox_tools mb base)"

definition suite_registry :: "model_boundary \<Rightarrow> string \<Rightarrow> bool \<Rightarrow> error + tool_registry" where
  "suite_registry mb base faulty = make_registry (map tool.truncate (suite_tools mb base faulty))"

definition suite_compensations :: "(string, string) dict" where
  "suite_compensations =
     [(''schema.migrate'', ''schema.rollback''), (''service.deploy-v2'', ''service.restore'')]"

end
