(* ===== verification/Sandbox_Safety.thy ===== *)
theory Sandbox_Safety
  imports Sandbox_Phases Sandbox_Tools
begin

text \<open>
  What the sandbox keeps: every operation of the manager, the order service, the fault injector and
  the tools leaves every sandbox readable, in a known phase, with a service that its schema serves.
\<close>

section \<open>Well-formed sandboxes\<close>

definition effects_ok :: "sandbox_db \<Rightarrow> bool" where
  "effects_ok d \<longleftrightarrow> (\<forall>r \<in> set (db_effects d).
     (\<exists>v. fx_output_json r = PDict v) \<and> (\<exists>out. action_of_json (fx_output_json r) = Some out))"

definition holds :: "string \<Rightarrow> sandbox_dir \<Rightarrow> db_phase \<Rightarrow> service_version \<Rightarrow> sandbox_db \<Rightarrow> bool" where
  "holds i r p v d \<longleftrightarrow>
     sandbox_id_ok i \<and> sd_database r = Some d \<and> in_phase p i d \<and> effects_ok d
     \<and> sd_state r = Some \<lparr>sf_sandbox_id = i, sf_service_version = service_value v\<rparr>
     \<and> compatible v (phase_schema p) \<and> sd_others r = []"

definition sandbox_ok :: "string \<Rightarrow> sandbox_dir \<Rightarrow> bool" where
  "sandbox_ok i r \<longleftrightarrow> (\<exists>p v d. holds i r p v d)"

definition world_ok :: "sandboxes \<Rightarrow> bool" where
  "world_ok s \<longleftrightarrow> (\<forall>i r. dget s i = Some r \<longrightarrow> sandbox_ok i r)"

lemma holdsD:
  assumes "holds i r p v d"
  shows "sandbox_id_ok i" "sd_database r = Some d" "in_phase p i d" "effects_ok d"
    "sd_state r = Some \<lparr>sf_sandbox_id = i, sf_service_version = service_value v\<rparr>"
    "compatible v (phase_schema p)" "sd_others r = []"
  using assms unfolding holds_def by blast+

lemma world_ok_dset: "world_ok s \<Longrightarrow> holds i r p v d \<Longrightarrow> world_ok (dset i r s)"
  by (auto simp: world_ok_def sandbox_ok_def)

lemma world_okE:
  assumes "world_ok s" and "dget s i = Some r"
  obtains p v d where "holds i r p v d"
  using assms unfolding world_ok_def sandbox_ok_def by blast

lemma dir_of_Some [simp]: "dget s i = Some r \<Longrightarrow> dir_of s i = r"
  by (simp add: dir_of_def)

lemma dir_of_None: "dget s i = None \<Longrightarrow> dir_of s i = empty_dir"
  by (simp add: dir_of_def)

section \<open>Inspection\<close>

lemma root_of_id [simp]: "sandbox_id_ok i \<Longrightarrow> sandbox_root base i = Inr (base @ ''/'' @ i)"
  by (simp add: sandbox_root_def)

lemma id_not_blank: "sandbox_id_ok i \<Longrightarrow> \<not> is_blank i"
  by (cases i) (auto simp: is_blank_def id_start_def py_space_def)

lemma root_not_blank: "\<not> is_blank (base @ ''/'' @ i)"
  by (simp add: is_blank_def py_space_def code_def)

lemma inspect_holds:
  assumes "dget s i = Some r" and h: "holds i r p v d"
  obtains st where "inspect base i s = (Inr st, s)" and "ss_service_version st = v"
    and "ss_schema_version st = phase_schema p" and "ss_sandbox_id st = i"
    and "fingerprint_of d = Inr (ss_fingerprint st)" and "state_ok st"
    and "ss_migration_ids st = stored_migration_ids d"
proof -
  note f = holdsD [OF h]
  obtain fp where fp: "fingerprint_of d = Inr fp" "\<not> is_blank fp"
    using fingerprint_total [OF f(3)] by blast
  define st where "st = \<lparr>ss_sandbox_id = i, ss_root = base @ ''/'' @ i, ss_service_version = v,
    ss_schema_version = phase_schema p, ss_migration_ids = stored_migration_ids d, ss_fingerprint = fp\<rparr>"
  have ok: "make_sandbox_state st = Inr st"
    using id_not_blank [OF f(1)] root_not_blank fp(2) by (simp add: make_sandbox_state_def st_def)
  have "inspect base i s = (Inr st, s)"
    using ok by (simp add: inspect_def bnd_def inspect_dir_def assms(1) f(1,2,5)
        stored_id_phase [OF f(3)] schema_version_phase [OF f(3)] fp st_def)
  moreover have "state_ok st" using ok by (simp add: state_ok_def)
  ultimately show ?thesis using that [of st] fp by (simp add: st_def)
qed

lemma inspect_missing:
  assumes "dget s i = None"
  shows "\<exists>e. inspect base i s = (Inl e, s) \<and> is_permanent e"
  using assms by (simp add: inspect_def bnd_def inspect_dir_def dir_of_None empty_dir_def
      sandbox_root_def)

lemma inspect_reads [simp]: "snd (inspect base i s) = s"
  by (simp add: inspect_def bnd_def split: sum.splits prod.splits)

text \<open>An operation on the database of a sandbox.\<close>

lemma on_database_holds:
  assumes "dget s i = Some r" and "holds i r p v d" and "m (Some d) = (x, Some d')"
  shows "on_database i m s = (x, if d' = d then s else dset i (r\<lparr>sd_database := Some d'\<rparr>) s)"
  using assms holdsD(2) [OF assms(2)] by (simp add: on_database_def)

lemma holds_database:
  "holds i r p v d \<Longrightarrow> in_phase q i d' \<Longrightarrow> effects_ok d' \<Longrightarrow> compatible v (phase_schema q) \<Longrightarrow>
   holds i (r\<lparr>sd_database := Some d'\<rparr>) q v d'"
  by (simp add: holds_def)

lemma resource_path:
  assumes "sandbox_id_ok i" and "path_parts posix_sep p = [p]" and "''..'' \<notin> set (path_parts windows_sep p)"
    and "\<not> windows_drive p" and "CHR 0x00 \<notin> set p" and "p \<noteq> [] \<and> hd p \<noteq> CHR ''/''" and "p \<noteq> ''..''"
  shows "resolve_resource base i p = Inr (base @ ''/'' @ i @ ''/'' @ p)"
  using assms by (cases p) (auto simp: resolve_resource_def)

lemma database_path_ok: "sandbox_id_ok i \<Longrightarrow> database_path base i = Inr (base @ ''/'' @ i @ ''/orders.db'')"
proof -
  assume i: "sandbox_id_ok i"
  have "path_parts posix_sep ''orders.db'' = [''orders.db'']"
    "''..'' \<notin> set (path_parts windows_sep ''orders.db'')" "\<not> windows_drive ''orders.db''"
    by code_simp+
  then show ?thesis using resource_path [OF i, of "''orders.db''" base] by (simp add: database_path_def)
qed

lemma faults_path_ok:
  "sandbox_id_ok i \<Longrightarrow> resolve_resource base i ''faults.json'' = Inr (base @ ''/'' @ i @ ''/faults.json'')"
proof -
  assume i: "sandbox_id_ok i"
  have "path_parts posix_sep ''faults.json'' = [''faults.json'']"
    "''..'' \<notin> set (path_parts windows_sep ''faults.json'')" "\<not> windows_drive ''faults.json''"
    by code_simp+
  then show ?thesis using resource_path [OF i, of "''faults.json''" base] by simp
qed

section \<open>The manager and the order service\<close>

lemma catch_permanent_world: "snd (catch_permanent m s) = snd (m s)"
  by (simp add: catch_permanent_def try_act_def split: prod.splits sum.splits)

lemma pres_catch_permanent [pres_intros]: "pres P m \<Longrightarrow> pres P (catch_permanent m)"
  by (simp add: pres_def catch_permanent_world)

lemma pres_inspect [pres_intros]: "pres P (inspect base i)"
  by (simp add: pres_def)

lemma pres_health [pres_intros]: "pres P (service_health_check base i)"
  unfolding service_health_check_def by (intro pres_intros)

lemma with_connection_reads [simp]:
  "snd (with_connection path (query f) fl) = fl"
  by (cases fl) (auto simp: with_connection_def query_def visible_def split: sum.splits)

lemma pres_on_database_reads:
  "(\<And>fl. snd (m fl) = fl) \<Longrightarrow> pres P (on_database i m)"
  by (auto simp: pres_def on_database_def split: prod.splits) (metis snd_conv)

lemma reads_bnd:
  "(\<And>f. snd (m f) = f) \<Longrightarrow> (\<And>x f. snd (g x f) = f) \<Longrightarrow> snd (bnd m g fl) = fl"
  by (auto simp: bnd_def split: prod.splits sum.splits) (metis snd_conv)+

lemma list_orders_reads [simp]: "snd (list_orders path fl) = fl"
  unfolding list_orders_def by (rule reads_bnd) simp_all

lemma migration_for_key_reads [simp]: "snd (migration_for_key path key fl) = fl"
  by (simp add: migration_for_key_def)

lemma effect_output_reads_only [simp]: "snd (effect_output path key tool fl) = fl"
  unfolding effect_output_def by (rule reads_bnd) (simp_all split: option.splits pyval.splits)

lemma pres_list_orders [pres_intros]: "pres P (service_list_orders base i)"
  unfolding service_list_orders_def
  by (intro pres_intros pres_on_database_reads list_orders_reads)

text \<open>A change of the database of a sandbox that keeps what holds of it.\<close>

lemma pres_on_database:
  assumes "\<And>p v d r s x fl. dget s i = Some r \<Longrightarrow> holds i r p v d \<Longrightarrow> m (Some d) = (x, fl) \<Longrightarrow>
    \<exists>q d'. fl = Some d' \<and> in_phase q i d' \<and> effects_ok d' \<and> compatible v (phase_schema q)"
    and "\<And>x fl. m None = (x, fl) \<Longrightarrow> fl = None"
  shows "pres world_ok (on_database i m)"
proof (rule presI)
  fix s assume s: "world_ok s"
  show "world_ok (snd (on_database i m s))"
  proof (cases "dget s i")
    case None
    then show ?thesis using s assms(2)
      by (auto simp: on_database_def dir_of_None empty_dir_def split: prod.splits)
  next
    case (Some r)
    obtain p v d where h: "holds i r p v d" using s Some by (rule world_okE)
    obtain x fl where m: "m (Some d) = (x, fl)" by fastforce
    then obtain q d' where d': "fl = Some d'" "in_phase q i d'" "effects_ok d'"
        "compatible v (phase_schema q)"
      using assms(1) [OF Some h] by blast
    then have "on_database i m s = (x, if d' = d then s else dset i (r\<lparr>sd_database := Some d'\<rparr>) s)"
      using on_database_holds [OF Some h, of m x d'] m by blast
    then show ?thesis using s world_ok_dset [OF s holds_database [OF h d'(2-4)]] by simp
  qed
qed

lemma insert_order_missing: "insert_order path o' None = (x, fl) \<Longrightarrow> fl = None"
  by (auto simp: insert_order_def bnd_def with_connection_def)

lemma pres_create_order [pres_intros]: "pres world_ok (service_create_order base i o')"
proof -
  have "pres world_ok (on_database i (insert_order path o'))" for path
  proof (rule pres_on_database)
    fix p v d r x fl
    assume h: "holds i r p v d" and m: "insert_order path o' (Some d) = (x, fl)"
    obtain d' where "fl = Some d'" "in_phase p i d'" "db_effects d' = db_effects d"
      using insert_order_phase [OF holdsD(3) [OF h] m] by blast
    then show "\<exists>q d'. fl = Some d' \<and> in_phase q i d' \<and> effects_ok d' \<and> compatible v (phase_schema q)"
      using holdsD(4,6) [OF h] by (auto simp: effects_ok_def)
  qed (rule insert_order_missing)
  then show ?thesis unfolding service_create_order_def by (intro pres_intros)
qed

section \<open>Faults\<close>

lemma holds_faults: "holds i r p v d \<Longrightarrow> holds i (r\<lparr>sd_faults := c\<rparr>) p v d"
  by (simp add: holds_def)

lemma pres_write_faults [pres_intros]: "pres world_ok (write_faults base i c)"
proof (rule presI)
  fix s assume s: "world_ok s"
  show "world_ok (snd (write_faults base i c s))"
  proof (cases "resolve_resource base i ''faults.json''")
    case (Inl e)
    then show ?thesis using s by (simp add: write_faults_def bnd_def)
  next
    case (Inr path)
    show ?thesis
    proof (cases "dget s i")
      case None
      then show ?thesis using s Inr by (simp add: write_faults_def bnd_def)
    next
      case (Some r)
      obtain p v d where "holds i r p v d" using s Some by (rule world_okE)
      then have "holds i (r\<lparr>sd_faults := Some c\<rparr>) p v d" by (rule holds_faults)
      then show ?thesis using Inr Some world_ok_dset [OF s] by (simp add: write_faults_def bnd_def)
    qed
  qed
qed

lemma pres_faults [pres_intros]:
  "pres P (read_faults base i)" "pres world_ok (configure_faults base i specs)"
  "pres world_ok (next_fault base i name)"
  unfolding read_faults_def configure_faults_def next_fault_def Let_def by (intro pres_intros)+

section \<open>Creation and reset\<close>

lemma world_ok_dget: "world_ok s \<Longrightarrow> (\<And>j. dget t j = dget s j) \<Longrightarrow> world_ok t"
  by (simp add: world_ok_def)

lemma create_empty:
  assumes "sandbox_id_ok i" and "dir_of s i = empty_dir"
  shows "\<exists>st t r. create_sandbox base i s = (Inr st, t) \<and> ss_sandbox_id st = i
           \<and> fingerprint_of (fresh_db i) = Inr (ss_fingerprint st)
           \<and> (\<forall>j. dget t j = (if j = i then Some r else dget s j))
           \<and> holds i r Fresh ServiceV1 (fresh_db i)"
proof -
  define r1 where "r1 = empty_dir\<lparr>sd_database := Some (fresh_db i)\<rparr>"
  define r where "r = r1\<lparr>sd_state := Some \<lparr>sf_sandbox_id = i, sf_service_version = service_value ServiceV1\<rparr>\<rparr>"
  define t where "t = dset i r (dset i r1 s)"
  have h: "holds i r Fresh ServiceV1 (fresh_db i)"
    using assms(1) fresh_db_phase [of i]
    by (simp add: holds_def r_def r1_def effects_ok_def compatible_def empty_dir_def)
      (simp add: fresh_db_def)
  have t: "dget t i = Some r" by (simp add: t_def)
  obtain st where st: "inspect base i t = (Inr st, t)" "ss_sandbox_id st = i"
      "fingerprint_of (fresh_db i) = Inr (ss_fingerprint st)"
    using inspect_holds [OF t h] by metis
  have "on_database i (initialize_v1 i) s = (Inr (), dset i r1 s)"
    using assms(2) by (simp add: on_database_def initialize_v1_def r1_def empty_dir_def)
  moreover have "write_service_version i ServiceV1 (dset i r1 s) = (Inr (), t)"
    by (simp add: write_service_version_def t_def r_def)
  ultimately have "create_sandbox base i s = (Inr st, t)"
    using assms st by (simp add: create_sandbox_def bnd_def dir_is_empty_def)
  then show ?thesis using st h t by (auto simp: t_def)
qed

lemma create_existing:
  assumes "world_ok s" and "dget s i = Some r"
  shows "snd (create_sandbox base i s) = s"
proof -
  obtain p v d where h: "holds i r p v d" using assms by (rule world_okE)
  then have "\<not> dir_is_empty r" using holdsD(2) [OF h] by (auto simp: dir_is_empty_def empty_dir_def)
  then show ?thesis using assms holdsD(1) [OF h] by (simp add: create_sandbox_def bnd_def)
qed

lemma world_ok_new:
  assumes "world_ok s" and "\<forall>j. dget t j = (if j = i then Some r else dget s j)" and "holds i r p v d"
  shows "world_ok t"
  using assms by (auto simp: world_ok_def sandbox_ok_def)

lemma pres_create [pres_intros]: "pres world_ok (create_sandbox base i)"
proof (rule presI)
  fix s assume s: "world_ok s"
  show "world_ok (snd (create_sandbox base i s))"
  proof (cases "sandbox_id_ok i")
    case False
    then show ?thesis using s by (simp add: create_sandbox_def bnd_def sandbox_root_def)
  next
    case ok: True
    show ?thesis
    proof (cases "dget s i")
      case None
      then obtain st t r where "create_sandbox base i s = (Inr st, t)"
          "\<forall>j. dget t j = (if j = i then Some r else dget s j)" "holds i r Fresh ServiceV1 (fresh_db i)"
        using create_empty [OF ok dir_of_None] by blast
      then show ?thesis using world_ok_new [OF s] by simp
    next
      case (Some r)
      then show ?thesis using create_existing [OF s] s by simp
    qed
  qed
qed

lemma reset_holds:
  assumes "dget s i = Some r" and h: "holds i r p v d"
  shows "\<exists>st t r'. reset_sandbox base i s = (Inr st, t) \<and> ss_sandbox_id st = i
           \<and> fingerprint_of (fresh_db i) = Inr (ss_fingerprint st)
           \<and> (\<forall>j. dget t j = (if j = i then Some r' else dget s j))
           \<and> holds i r' Fresh ServiceV1 (fresh_db i)"
proof -
  obtain st0 where st0: "inspect base i s = (Inr st0, s)" "ss_sandbox_id st0 = i"
    using inspect_holds [OF assms] by metis
  define u where "u = dset i empty_dir s"
  have "r\<lparr>sd_database := None, sd_state := None, sd_faults := None\<rparr> = empty_dir"
    using holdsD(7) [OF h] by (cases r) (simp add: empty_dir_def)
  then have unlink: "unlink_files i s = (Inr (), u)"
    using assms(1) by (simp add: unlink_files_def u_def)
  have u: "dget u j = (if j = i then Some empty_dir else dget s j)" for j by (simp add: u_def)
  then have "dir_of u i = empty_dir" by simp
  then obtain st t r' where t: "create_sandbox base i u = (Inr st, t)" "ss_sandbox_id st = i"
      "fingerprint_of (fresh_db i) = Inr (ss_fingerprint st)"
      "\<forall>j. dget t j = (if j = i then Some r' else dget u j)" "holds i r' Fresh ServiceV1 (fresh_db i)"
    using create_empty [OF holdsD(1) [OF h]] by blast
  have "reset_sandbox base i s = (Inr st, t)"
    using assms(1) holdsD(1) [OF h] st0 unlink t(1) by (simp add: reset_sandbox_def bnd_def)
  then show ?thesis using t u by (auto intro!: exI)
qed

lemma pres_reset [pres_intros]: "pres world_ok (reset_sandbox base i)"
proof (rule presI)
  fix s assume s: "world_ok s"
  show "world_ok (snd (reset_sandbox base i s))"
  proof (cases "dget s i")
    case None
    then have "reset_sandbox base i s = (case sandbox_root base i of Inl e \<Rightarrow> (Inl e, s)
        | Inr root \<Rightarrow> create_sandbox base i s)"
      by (simp add: reset_sandbox_def bnd_def split: sum.splits)
    then show ?thesis using s presD [OF pres_create s] by (simp split: sum.splits)
  next
    case (Some r)
    obtain p v d where h: "holds i r p v d" using s Some by (rule world_okE)
    then obtain st t r' where "reset_sandbox base i s = (Inr st, t)"
        "\<forall>j. dget t j = (if j = i then Some r' else dget s j)" "holds i r' Fresh ServiceV1 (fresh_db i)"
      using reset_holds [OF Some h] by blast
    then show ?thesis using world_ok_new [OF s] by simp
  qed
qed

section \<open>The tools\<close>

lemma pres_environment [pres_intros]:
  "pres P (environment_execute base ctx args)" "pres P (precheck_execute base ctx args)"
proof -
  show e: "pres P (environment_execute base ctx args)"
    unfolding environment_execute_def by (intro pres_intros)
  show "pres P (precheck_execute base ctx args)"
    unfolding precheck_execute_def by (intro pres_intros e)
qed

lemma pres_smoke_test [pres_intros]: "pres P (smoke_test base i st)"
  unfolding smoke_test_def by (intro pres_intros)

lemma pres_validation [pres_intros]: "pres P (validation_execute base smoke ctx args)"
  unfolding validation_execute_def by (intro pres_intros)

lemma effects_ok_ledger:
  "db_effects d' = db_effects d \<Longrightarrow> effects_ok d \<Longrightarrow> effects_ok d'"
  by (simp add: effects_ok_def)

lemma migrate_keeps:
  assumes d: "in_phase p i d" and m: "migrate_v1_to_v2 path key fp (Some d) = (x, fl)"
  shows "\<exists>q d'. fl = Some d' \<and> in_phase q i d' \<and> db_effects d' = db_effects d
           \<and> (phase_schema p = SchemaV2 \<longrightarrow> phase_schema q = SchemaV2)"
proof (cases "ledger_row_for key d")
  case (Some r)
  then show ?thesis using migrate_replayed [OF Some, of path fp] m d by auto
next
  case None
  consider (fresh) "p = Fresh" "fingerprint_of d = Inr fp" | (again) "p = RolledBack" "fingerprint_of d = Inr fp"
    | (refused) "p = Migrated \<or> p = Stuck \<or> fingerprint_of d \<noteq> Inr fp"
    by (cases p) auto
  then show ?thesis
  proof cases
    case fresh
    then obtain final where "fl = Some (migrated_db key final d)" "in_phase Migrated i (migrated_db key final d)"
      using migrate_fresh [of i d fp key path] d None m by auto
    then show ?thesis by (auto simp: migrated_db_def)
  next
    case again
    then have "fl = Some (widened_db d)" "in_phase Stuck i (widened_db d)"
      using migrate_again [of i d fp key path] widened_rolled_back [of i d] d None m by auto
    then show ?thesis using again by auto
  next
    case refused
    then show ?thesis using migrate_refused [OF d None refused, of path] m d by auto
  qed
qed

lemma migrate_missing: "migrate_v1_to_v2 path key fp None = (x, fl) \<Longrightarrow> fl = None"
  by (simp add: migrate_v1_to_v2_def with_connection_def)

lemma compatible_wider: "compatible v s \<Longrightarrow> (s = SchemaV2 \<longrightarrow> t = SchemaV2) \<Longrightarrow> compatible v t"
  by (cases s; cases t) (auto simp: compatible_def)

lemma pres_migrate [pres_intros]: "pres world_ok (migrate_execute base ctx args)"
proof -
  have "pres world_ok (on_database i (migrate_v1_to_v2 path key fp))" for i path key fp
  proof (rule pres_on_database)
    fix p v d r x fl
    assume h: "holds i r p v d" and m: "migrate_v1_to_v2 path key fp (Some d) = (x, fl)"
    show "\<exists>q d'. fl = Some d' \<and> in_phase q i d' \<and> effects_ok d' \<and> compatible v (phase_schema q)"
      using migrate_keeps [OF holdsD(3) [OF h] m] effects_ok_ledger holdsD(4) [OF h]
        compatible_wider holdsD(6) [OF h] by metis
  qed (rule migrate_missing)
  then show ?thesis unfolding migrate_execute_def by (intro pres_intros)
qed

lemma pres_ledger_probe [pres_intros]: "pres P (ledger_probe base action target summary q)"
proof -
  have "pres P (on_database i (migration_for_key path key))" for i path key
    by (rule pres_on_database_reads) simp
  moreover have "pres P inconclusive" "pres P not_found" "pres P (found_action out)" for out
    unfolding inconclusive_def not_found_def found_action_def by (intro pres_intros)+
  ultimately show ?thesis unfolding ledger_probe_def by (intro pres_intros)
qed

text \<open>A rollback keeps the phase or finds the first service version.\<close>

lemma rollback_keeps:
  assumes d: "in_phase p i d" and m: "rollback_v2_to_v1 path key (Some d) = (x, fl)"
  shows "\<exists>q d'. fl = Some d' \<and> in_phase q i d' \<and> db_effects d' = db_effects d"
proof (cases "ledger_row_for key d")
  case (Some r)
  then show ?thesis using rollback_replayed [OF Some, of path] m d by auto
next
  case None
  show ?thesis
  proof (cases "p = Migrated \<and> count_special d = Inr 0")
    case True
    then obtain final where "fl = Some (rolled_back_db key final d)"
        "in_phase RolledBack i (rolled_back_db key final d)"
      using rollback_migrated [of i d key path] d None m by auto
    then show ?thesis by (auto simp: rolled_back_db_def)
  next
    case False
    then show ?thesis using rollback_refused [OF d None, of path] m d by auto
  qed
qed

lemma compatible_v1 [simp]: "compatible ServiceV1 s"
  by (cases s) (simp_all add: compatible_def)

lemma pres_rollback [pres_intros]: "pres world_ok (rollback_execute base ctx args)"
proof (rule presI)
  fix s assume s: "world_ok s"
  let ?i = "ga_sandbox_id args"
  show "world_ok (snd (rollback_execute base ctx args s))"
  proof (cases "dget s ?i")
    case None
    then obtain e where "inspect base ?i s = (Inl e, s)" using inspect_missing by blast
    then show ?thesis using s by (simp add: rollback_execute_def catch_permanent_world bnd_def)
  next
    case (Some r)
    obtain p v d where h: "holds ?i r p v d" using s Some by (rule world_okE)
    obtain st where st: "inspect base ?i s = (Inr st, s)" "ss_service_version st = v"
      using inspect_holds [OF Some h] by metis
    show ?thesis
    proof (cases "v = ServiceV1")
      case False
      then show ?thesis using s st by (simp add: rollback_execute_def catch_permanent_world bnd_def)
    next
      case True
      let ?path = "base @ ''/'' @ ?i @ ''/orders.db''"
      let ?m = "rollback_v2_to_v1 ?path (tc_logical_idempotency_key ctx)"
      obtain x fl where m: "?m (Some d) = (x, fl)" by fastforce
      obtain q d' where d': "fl = Some d'" "in_phase q ?i d'" "db_effects d' = db_effects d"
        using rollback_keeps [OF holdsD(3) [OF h] m] by blast
      define t where "t = (if d' = d then s else dset ?i (r\<lparr>sd_database := Some d'\<rparr>) s)"
      have on: "on_database ?i ?m s = (x, t)"
        using on_database_holds [OF Some h, of ?m x d'] m d'(1) by (simp add: t_def)
      have "holds ?i (r\<lparr>sd_database := Some d'\<rparr>) q v d'"
        using holds_database [OF h d'(2) effects_ok_ledger [OF d'(3) holdsD(4) [OF h]]] True by simp
      then have t: "world_ok t" using s world_ok_dset [OF s] by (simp add: t_def)
      have "snd (rollback_execute base ctx args s) = t"
        using st True on database_path_ok [OF holdsD(1) [OF h], of base]
        by (simp add: rollback_execute_def catch_permanent_world bnd_def split: sum.splits prod.splits)
          (metis inspect_reads snd_conv)
      then show ?thesis using t by simp
    qed
  qed
qed

subsection \<open>Switching the service\<close>

lemma set_service_holds:
  assumes "dget s i = Some r" and h: "holds i r p v d" and c: "compatible w (phase_schema p)"
  shows "\<exists>st r'. set_service_version base i w s = (Inr st, dset i r' s) \<and> holds i r' p w d
           \<and> state_ok st \<and> ss_service_version st = w \<and> sd_faults r' = sd_faults r"
proof -
  define r' where "r' = r\<lparr>sd_state := Some \<lparr>sf_sandbox_id = i, sf_service_version = service_value w\<rparr>\<rparr>"
  have h': "holds i r' p w d" using h c by (simp add: holds_def r'_def)
  obtain st0 where st0: "inspect base i s = (Inr st0, s)"
    using inspect_holds [OF assms(1) h] by metis
  have "dget (dset i r' s) i = Some r'" by simp
  then obtain st where st: "inspect base i (dset i r' s) = (Inr st, dset i r' s)" "state_ok st"
      "ss_service_version st = w"
    using inspect_holds [OF _ h'] by metis
  have "write_service_version i w s = (Inr (), dset i r' s)"
    using assms(1) by (simp add: write_service_version_def r'_def)
  then have "set_service_version base i w s = (Inr st, dset i r' s)"
    using st0 st(1) holdsD(1) [OF h] by (simp add: set_service_version_def bnd_def)
  then show ?thesis using st h' by (auto simp: r'_def)
qed

definition with_effect :: "string \<Rightarrow> string \<Rightarrow> pyval \<Rightarrow> sandbox_db \<Rightarrow> sandbox_db" where
  "with_effect key name out d = d\<lparr>db_effects := db_effects d @
     [\<lparr>fx_idempotency_key = key, fx_tool_name = name, fx_output_json = out\<rparr>]\<rparr>"

lemma find_effect_None:
  "List.find (\<lambda>r. fx_idempotency_key r = key) rows = None \<longleftrightarrow> key \<notin> fx_idempotency_key ` set rows"
  by (auto simp: find_None_all)

lemma switch_holds:
  assumes r: "dget s i = Some r" and h: "holds i r p v d"
    and new: "key \<notin> fx_idempotency_key ` set (db_effects d)"
    and c: "target = ServiceV2 \<longrightarrow> phase_schema p = SchemaV2"
  shows "\<exists>out t r'. switch_service base name target path key i s = (Inr (action_result out), t)
           \<and> action_of_json (action_json out) = Some out \<and> ao_already_applied out = (v = target)
           \<and> (\<forall>j. dget t j = (if j = i then Some r' else dget s j)) \<and> sd_faults r' = sd_faults r
           \<and> holds i r' p target (with_effect key name (action_json out) d)"
proof -
  obtain before where b: "inspect base i s = (Inr before, s)" "state_ok before"
      "ss_service_version before = v" "ss_schema_version before = phase_schema p"
    using inspect_holds [OF r h] by metis
  have "compatible target (phase_schema p)" using c by (cases target; cases "phase_schema p") (simp_all add: compatible_def)
  then obtain after r1 where a: "set_service_version base i target s = (Inr after, dset i r1 s)"
      "holds i r1 p target d" "state_ok after" "sd_faults r1 = sd_faults r"
    using set_service_holds [OF r h] by metis
  define out where "out = switch_output i name target before after"
  have json: "action_of_json (action_json out) = Some out"
    using a(3) b(2) by (intro action_roundtrip) (auto simp: out_def switch_output_def)
  let ?d = "with_effect key name (action_json out) d"
  have "record_effect path key name (action_json out) (Some d) = (Inr (), Some ?d)"
    and ph: "in_phase p i ?d"
    using record_effect_phase [OF holdsD(3) [OF h] new] by (simp_all add: with_effect_def)
  moreover have "?d \<noteq> d" by (cases d) (simp add: with_effect_def)
  ultimately have rec: "on_database i (record_effect path key name (action_json out)) (dset i r1 s)
      = (Inr (), dset i (r1\<lparr>sd_database := Some ?d\<rparr>) (dset i r1 s))"
    using on_database_holds [of "dset i r1 s" i r1 p target d _ "Inr ()" ?d] a(2) by simp
  have "effects_ok ?d"
    using holdsD(4) [OF h] json by (auto simp: effects_ok_def with_effect_def action_json_def)
  then have "holds i (r1\<lparr>sd_database := Some ?d\<rparr>) p target ?d"
    using holds_database [OF a(2) ph] holdsD(6) [OF a(2)] by simp
  moreover have "switch_service base name target path key i s
      = (Inr (action_result out), dset i (r1\<lparr>sd_database := Some ?d\<rparr>) (dset i r1 s))"
    using b a(1) c rec by (simp add: switch_service_def bnd_def out_def Let_def)
  moreover have "ao_already_applied out = (v = target)" by (simp add: out_def switch_output_def b(3))
  ultimately show ?thesis using json a(4) by (intro exI conjI) auto
qed

lemma switch_refused:
  assumes r: "dget s i = Some r" and h: "holds i r p v d"
    and c: "target = ServiceV2" "phase_schema p \<noteq> SchemaV2"
  shows "switch_service base name target path key i s
           = (Inl (DatabaseError ''service v2 requires schema v2''), s)"
proof -
  obtain st where "inspect base i s = (Inr st, s)" "ss_schema_version st = phase_schema p"
    using inspect_holds [OF r h] by metis
  then show ?thesis using c by (simp add: switch_service_def bnd_def)
qed

text \<open>All that the execution of a service version tool can do.\<close>

lemma on_database_reads:
  assumes "dget s i = Some r" and "holds i r p v d" and "\<And>f. snd (m f) = f"
  shows "on_database i m s = (fst (m (Some d)), s)"
proof -
  obtain x where "m (Some d) = (x, Some d)" using assms(3) [of "Some d"] by (cases "m (Some d)") auto
  then show ?thesis using on_database_holds [OF assms(1,2), of m x d] by simp
qed

lemma stored_row_parses:
  assumes "holds i r p v d" and "List.find P (db_effects d) = Some row"
  obtains fs out where "fx_output_json row = PDict fs" and "action_of_json (PDict fs) = Some out"
proof -
  have "row \<in> set (db_effects d)" using find_Some_iff_first [OF assms(2)] by blast
  then show ?thesis using holdsD(4) [OF assms(1)] that by (force simp: effects_ok_def)
qed

lemma service_version_execute_holds:
  assumes r: "dget s i = Some r" and h: "holds i r p v d" and i: "i = ga_sandbox_id args"
    and path: "path = base @ ''/'' @ i @ ''/orders.db''" and key: "key = tc_logical_idempotency_key ctx"
  shows "service_version_execute base name target ctx args s =
    catch_permanent (bnd (lift_res (fst (effect_output path key name (Some d)))) (\<lambda>existing.
      case existing of
        Some v \<Rightarrow> bnd (lift_res (stored_action v)) (\<lambda>out.
                    ret \<lparr>sx_output = ActionOut out, sx_effect_applied = False\<rparr>)
      | None \<Rightarrow> switch_service base name target path key i)) s"
proof -
  have "database_path base (ga_sandbox_id args) = Inr path"
    using database_path_ok [OF holdsD(1) [OF h]] i path by simp
  moreover have "on_database i (effect_output path key name) s
      = (fst (effect_output path key name (Some d)), s)"
    by (rule on_database_reads [OF r h effect_output_reads_only])
  ultimately show ?thesis
    unfolding i key by (simp add: service_version_execute_def catch_permanent_def try_act_def bnd_def)
qed

lemma service_version_new:
  assumes r: "dget s i = Some r" and h: "holds i r p v d" and i: "i = ga_sandbox_id args"
    and new: "List.find (\<lambda>f. fx_idempotency_key f = tc_logical_idempotency_key ctx) (db_effects d) = None"
    and c: "target = ServiceV2 \<longrightarrow> phase_schema p = SchemaV2"
  shows "\<exists>out t r'. service_version_execute base name target ctx args s = (Inr (action_result out), t)
           \<and> action_of_json (action_json out) = Some out \<and> ao_already_applied out = (v = target)
           \<and> (\<forall>j. dget t j = (if j = i then Some r' else dget s j)) \<and> sd_faults r' = sd_faults r
           \<and> holds i r' p target (with_effect (tc_logical_idempotency_key ctx) name (action_json out) d)"
proof -
  let ?path = "base @ ''/'' @ i @ ''/orders.db''" and ?key = "tc_logical_idempotency_key ctx"
  have exec: "service_version_execute base name target ctx args s
      = catch_permanent (switch_service base name target ?path ?key i) s"
    unfolding service_version_execute_holds [OF r h i refl refl] effect_output_reads new
    by (simp add: catch_permanent_def try_act_def)
  have "?key \<notin> fx_idempotency_key ` set (db_effects d)" using new by (simp add: find_effect_None)
  then obtain out t r' where sw: "switch_service base name target ?path ?key i s = (Inr (action_result out), t)"
      "action_of_json (action_json out) = Some out" "ao_already_applied out = (v = target)"
      "\<forall>j. dget t j = (if j = i then Some r' else dget s j)" "sd_faults r' = sd_faults r"
      "holds i r' p target (with_effect ?key name (action_json out) d)"
    using switch_holds [OF r h _ c] by blast
  have "service_version_execute base name target ctx args s = (Inr (action_result out), t)"
    unfolding exec using sw(1) by (simp add: catch_permanent_def try_act_def)
  then show ?thesis using sw(2-6) by blast
qed

lemma service_version_cases:
  assumes r: "dget s i = Some r" and h: "holds i r p v d" and i: "i = ga_sandbox_id args"
  obtains (replayed) row out where
      "List.find (\<lambda>f. fx_idempotency_key f = tc_logical_idempotency_key ctx) (db_effects d) = Some row"
      "fx_tool_name row = name" "stored_action (fx_output_json row) = Inr out"
      "service_version_execute base name target ctx args s
         = (Inr \<lparr>sx_output = ActionOut out, sx_effect_applied = False\<rparr>, s)"
    | (refused) e where "service_version_execute base name target ctx args s = (Inl e, s)"
    | (switched) out t r' where
      "List.find (\<lambda>f. fx_idempotency_key f = tc_logical_idempotency_key ctx) (db_effects d) = None"
      "target = ServiceV2 \<longrightarrow> phase_schema p = SchemaV2"
      "service_version_execute base name target ctx args s = (Inr (action_result out), t)"
      "action_of_json (action_json out) = Some out" "ao_already_applied out = (v = target)"
      "\<forall>j. dget t j = (if j = i then Some r' else dget s j)" "sd_faults r' = sd_faults r"
      "holds i r' p target (with_effect (tc_logical_idempotency_key ctx) name (action_json out) d)"
proof (cases "List.find (\<lambda>f. fx_idempotency_key f = tc_logical_idempotency_key ctx) (db_effects d)")
  case (Some row)
  note exec = service_version_execute_holds [OF r h i refl refl, of base name target ctx]
  obtain fs out where row: "fx_output_json row = PDict fs" "action_of_json (PDict fs) = Some out"
    using stored_row_parses [OF h Some] by blast
  show ?thesis
  proof (cases "fx_tool_name row = name")
    case True
    have "service_version_execute base name target ctx args s
            = (Inr \<lparr>sx_output = ActionOut out, sx_effect_applied = False\<rparr>, s)"
      unfolding exec effect_output_reads Some
      by (simp add: True row catch_permanent_def try_act_def stored_action_def)
    then show ?thesis by (rule replayed [OF Some True, rotated]) (simp add: stored_action_def row)
  next
    case False
    have "service_version_execute base name target ctx args s
            = (Inl (DomainError ''idempotency key belongs to another tool'' Permanent), s)"
      unfolding exec effect_output_reads Some
      by (simp add: False catch_permanent_def try_act_def bnd_def)
    then show ?thesis by (rule refused)
  qed
next
  case None
  let ?path = "base @ ''/'' @ i @ ''/orders.db''" and ?key = "tc_logical_idempotency_key ctx"
  have exec: "service_version_execute base name target ctx args s
      = catch_permanent (switch_service base name target ?path ?key i) s"
    unfolding service_version_execute_holds [OF r h i refl refl] effect_output_reads None
    by (simp add: catch_permanent_def try_act_def)
  show ?thesis
  proof (cases "target = ServiceV2 \<longrightarrow> phase_schema p = SchemaV2")
    case True
    show ?thesis using service_version_new [OF r h i None True, of base name] switched [OF None True] by blast
  next
    case False
    have "service_version_execute base name target ctx args s
        = (Inl (DomainError ''service v2 requires schema v2'' Permanent), s)"
      unfolding exec using switch_refused [OF r h, of target base name ?path ?key] False
      by (simp add: catch_permanent_def try_act_def)
    then show ?thesis by (rule refused)
  qed
qed

lemma service_version_missing:
  assumes "dget s (ga_sandbox_id args) = None"
  shows "\<exists>e. service_version_execute base name target ctx args s = (Inl e, s)"
  using assms
  by (simp add: service_version_execute_def catch_permanent_def try_act_def bnd_def on_database_def
      dir_of_None empty_dir_def effect_output_def with_connection_def split: sum.splits)

lemma pres_service_version [pres_intros]:
  "pres world_ok (service_version_execute base name target ctx args)"
proof (rule presI)
  fix s assume s: "world_ok s"
  show "world_ok (snd (service_version_execute base name target ctx args s))"
  proof (cases "dget s (ga_sandbox_id args)")
    case None
    then obtain e where "service_version_execute base name target ctx args s = (Inl e, s)"
      using service_version_missing by blast
    then show ?thesis using s by simp
  next
    case (Some r)
    obtain p v d where h: "holds (ga_sandbox_id args) r p v d" using s Some by (rule world_okE)
    show ?thesis
    proof (rule service_version_cases [OF Some h refl, of ctx name base target])
      fix out t r'
      assume "service_version_execute base name target ctx args s = (Inr (action_result out), t)"
        and "\<forall>j. dget t j = (if j = ga_sandbox_id args then Some r' else dget s j)"
        and "holds (ga_sandbox_id args) r' p target
               (with_effect (tc_logical_idempotency_key ctx) name (action_json out) d)"
      then show ?thesis using world_ok_new [OF s] by simp
    qed (use s in simp_all)
  qed
qed

lemma pres_service_probe [pres_intros]: "pres P (service_version_probe base name q)"
proof -
  have "pres P (on_database i (effect_output path key name))" for i path key
    by (rule pres_on_database_reads) simp
  moreover have "pres P inconclusive" "pres P not_found" "pres P (found_action out)" for out
    unfolding inconclusive_def not_found_def found_action_def by (intro pres_intros)+
  ultimately show ?thesis unfolding service_version_probe_def by (intro pres_intros)
qed

section \<open>The suite\<close>

lemma pres_sandbox_tool:
  assumes "t \<in> set (sandbox_tools mb base)"
  shows "pres world_ok (bt_execute t ctx args)" and "pres P (bt_probe t q)"
proof -
  have probe: "pres P (no_probe q)" "pres P (migrate_probe base q)" "pres P (rollback_probe base q)"
    unfolding no_probe_def not_found_def migrate_probe_def rollback_probe_def by (intro pres_intros)+
  note parts = environment_tool_def precheck_tool_def migrate_tool_def rollback_tool_def
    service_version_tool_def validation_tool_def
  show "pres world_ok (bt_execute t ctx args)"
    using assms by (auto simp: sandbox_tools_def parts intro: pres_intros)
  show "pres P (bt_probe t q)"
    using assms probe by (auto simp: sandbox_tools_def parts intro: pres_intros)
qed

lemma pres_fault_injecting:
  "pres world_ok (bt_execute t ctx args) \<Longrightarrow> pres world_ok (fault_injecting_execute base t ctx args)"
  unfolding fault_injecting_execute_def by (intro pres_intros)

lemma pres_suite_tool:
  assumes "t \<in> set (suite_tools mb base faulty)"
  shows "pres world_ok (bt_execute t ctx args)" and "pres P (bt_probe t q)"
  using assms pres_sandbox_tool [of _ mb base] pres_fault_injecting
  by (auto simp: suite_tools_def fault_injecting_def split: if_splits)

text \<open>Everything that can happen to the sandboxes below \<open>base\<close>, from an empty base directory.\<close>

inductive sandbox_reachable :: "model_boundary \<Rightarrow> string \<Rightarrow> sandboxes \<Rightarrow> bool" for mb base where
  start: "sandbox_reachable mb base []"
| create: "sandbox_reachable mb base s \<Longrightarrow> sandbox_reachable mb base (snd (create_sandbox base i s))"
| reset: "sandbox_reachable mb base s \<Longrightarrow> sandbox_reachable mb base (snd (reset_sandbox base i s))"
| configure: "sandbox_reachable mb base s \<Longrightarrow>
    sandbox_reachable mb base (snd (configure_faults base i specs s))"
| order: "sandbox_reachable mb base s \<Longrightarrow>
    sandbox_reachable mb base (snd (service_create_order base i o' s))"
| execute: "sandbox_reachable mb base s \<Longrightarrow> t \<in> set (suite_tools mb base faulty) \<Longrightarrow>
    sandbox_reachable mb base (snd (bt_execute t ctx args s))"
| probe: "sandbox_reachable mb base s \<Longrightarrow> t \<in> set (suite_tools mb base faulty) \<Longrightarrow>
    sandbox_reachable mb base (snd (bt_probe t q s))"

lemma world_ok_start [simp]: "world_ok []"
  by (simp add: world_ok_def)

lemma reachable_world_ok: "sandbox_reachable mb base s \<Longrightarrow> world_ok s"
proof (induction rule: sandbox_reachable.induct)
  case (execute s t faulty ctx args)
  then show ?case using presD [OF pres_suite_tool(1)] by blast
next
  case (probe s t faulty q)
  then show ?case using presD [OF pres_suite_tool(2)] by blast
qed (auto intro: presD pres_intros)

end
