(* ===== verification/Sandbox_Recovery.thy ===== *)
theory Sandbox_Recovery
  imports Sandbox_Safety
begin

text \<open>
  The contract between the recovery of the workflow runtime and a tool that supports idempotency,
  as a locale: what was executed is found by the probe and not applied again. The four tools with
  side effects satisfy it; the lemmas about interrupted calls are proved once, inside the locale.
\<close>

section \<open>The contract\<close>

definition asks :: "recovery_query \<Rightarrow> tool_context \<Rightarrow> sandbox_arguments \<Rightarrow> bool" where
  "asks q ctx args \<longleftrightarrow>
     sandbox_id_from_query q = Some (ga_sandbox_id args)
     \<and> rq_logical_idempotency_key q = tc_logical_idempotency_key ctx"

definition probe_finds :: "sandbox_tool \<Rightarrow> recovery_query \<Rightarrow> sandboxes \<Rightarrow> bool" where
  "probe_finds t q s \<longleftrightarrow>
     (\<exists>out. bt_probe t q s = (Inr \<lparr>sp_status = Found, sp_output = Some (ActionOut out)\<rparr>, s))"

definition replays :: "sandbox_tool \<Rightarrow> tool_context \<Rightarrow> sandbox_arguments \<Rightarrow> sandboxes \<Rightarrow> bool" where
  "replays t ctx args s \<longleftrightarrow>
     (\<exists>out. bt_execute t ctx args s = (Inr \<lparr>sx_output = ActionOut out, sx_effect_applied = False\<rparr>, s))"

locale recoverable_tool =
  fixes t :: sandbox_tool
  assumes keeps: "pres world_ok (bt_execute t ctx args)"
    and found_after: "world_ok s \<Longrightarrow> bt_execute t ctx args s = (Inr x, u) \<Longrightarrow> asks q ctx args \<Longrightarrow>
                        probe_finds t q u"
    and replay_after: "world_ok s \<Longrightarrow> bt_execute t ctx args s = (Inr x, u) \<Longrightarrow> replays t ctx args u"
begin

text \<open>An interruption after the effect: the call fails, the probe finds the effect, a retry adds none.\<close>

lemma interrupted_after:
  assumes s: "world_ok s"
    and fault: "next_fault base (ga_sandbox_id args) (td_name (tl_descriptor t)) s
                  = (Inr (Some AfterEffect), s1)"
    and run: "bt_execute t ctx args s1 = (Inr x, u)" and q: "asks q ctx args"
  shows "fault_injecting_execute base t ctx args s
           = (Inl (DomainError ''injected interruption after tool effect'' ResultUnknown), u)
         \<and> probe_finds t q u \<and> replays t ctx args u"
proof -
  have "world_ok s1" using presD [OF pres_faults(3) s] fault by (metis snd_conv)
  then have "probe_finds t q u" "replays t ctx args u"
    using found_after [OF _ run q] replay_after [OF _ run] by blast+
  moreover have "fault_injecting_execute base t ctx args s
      = (Inl (DomainError ''injected interruption after tool effect'' ResultUnknown), u)"
    using fault run by (simp add: fault_injecting_execute_def bnd_def)
  ultimately show ?thesis by blast
qed

text \<open>Without a fault, the call succeeds and its effect is found.\<close>

lemma uninterrupted:
  assumes s: "world_ok s"
    and fault: "next_fault base (ga_sandbox_id args) (td_name (tl_descriptor t)) s = (Inr None, s1)"
    and run: "bt_execute t ctx args s1 = (Inr x, u)" and q: "asks q ctx args"
  shows "fault_injecting_execute base t ctx args s = (Inr x, u) \<and> probe_finds t q u"
proof -
  have "world_ok s1" using presD [OF pres_faults(3) s] fault by (metis snd_conv)
  then have "probe_finds t q u" using found_after [OF _ run q] by blast
  moreover have "fault_injecting_execute base t ctx args s = (Inr x, u)"
    using fault run by (simp add: fault_injecting_execute_def bnd_def)
  ultimately show ?thesis by blast
qed

end

section \<open>The tools with a ledger\<close>

lemma catch_permanent_Inr: "catch_permanent m s = (Inr x, u) \<longleftrightarrow> m s = (Inr x, u)"
  by (auto simp: catch_permanent_def try_act_def split: prod.splits sum.splits)

lemma find_append_None: "List.find P xs = None \<Longrightarrow> List.find P (xs @ ys) = List.find P ys"
  by (induction xs) (auto split: if_splits)

lemma migrate_records:
  assumes d: "in_phase p i d" and m: "migrate_v1_to_v2 path key fp (Some d) = (Inr y, fl)"
  shows "\<exists>d' row q. fl = Some d' \<and> in_phase q i d' \<and> ledger_row_for key d' = Some row
           \<and> lr_migration_id row = migration_id \<and> lr_to_version row = SchemaV2
           \<and> db_effects d' = db_effects d \<and> (phase_schema p = SchemaV2 \<longrightarrow> phase_schema q = SchemaV2)"
proof (cases "ledger_row_for key d")
  case (Some r)
  then have r: "lr_migration_id r = migration_id" "fl = Some d"
    using m migrate_replayed [OF Some, of path fp] by (auto split: if_splits)
  have "r \<in> set (db_ledger d)" using Some find_Some_iff_first unfolding ledger_row_for_def by fast
  then have "move_of r \<in> set (phase_moves p)" using in_phaseD(3) [OF d] by (metis image_eqI set_map)
  then have "lr_to_version r = SchemaV2"
    using r(1) by (cases p) (auto simp: move_of_def migration_id_def rollback_id_def)
  then show ?thesis using r Some d by blast
next
  case None
  consider "p = Fresh \<and> fingerprint_of d = Inr fp" | "p = RolledBack \<and> fingerprint_of d = Inr fp"
    | "p = Migrated \<or> p = Stuck \<or> fingerprint_of d \<noteq> Inr fp"
    by (cases p) auto
  then show ?thesis
  proof cases
    case 1
    then obtain final where f: "fl = Some (migrated_db key final d)"
        "in_phase Migrated i (migrated_db key final d)"
      using migrate_fresh [of i d fp key path] d None m by auto
    have "db_ledger d = []" using d 1 by (simp add: in_phase_def)
    then show ?thesis using f 1 by (auto simp: migrated_db_def ledger_row_for_def)
  next
    case 2
    then show ?thesis using migrate_again [of i d fp key path] d None m by auto
  next
    case 3
    then show ?thesis using migrate_refused [OF d None 3, of path] m by auto
  qed
qed

lemma rollback_records:
  assumes d: "in_phase p i d" and m: "rollback_v2_to_v1 path key (Some d) = (Inr y, fl)"
  shows "\<exists>d' row q. fl = Some d' \<and> in_phase q i d' \<and> ledger_row_for key d' = Some row
           \<and> lr_migration_id row = rollback_id \<and> lr_to_version row = SchemaV1
           \<and> db_effects d' = db_effects d"
proof (cases "ledger_row_for key d")
  case (Some r)
  then have r: "lr_migration_id r = rollback_id" "fl = Some d"
    using m rollback_replayed [OF Some, of path] by (auto split: if_splits)
  have "r \<in> set (db_ledger d)" using Some find_Some_iff_first unfolding ledger_row_for_def by fast
  then have "move_of r \<in> set (phase_moves p)" using in_phaseD(3) [OF d] by (metis image_eqI set_map)
  then have "lr_to_version r = SchemaV1"
    using r(1) by (cases p) (auto simp: move_of_def migration_id_def rollback_id_def)
  then show ?thesis using r Some d by blast
next
  case None
  show ?thesis
  proof (cases "p = Migrated \<and> count_special d = Inr 0")
    case True
    then obtain final where f: "fl = Some (rolled_back_db key final d)"
        "in_phase RolledBack i (rolled_back_db key final d)"
      using rollback_migrated [of i d key path] d None m by auto
    have "List.find (\<lambda>r. lr_idempotency_key r = key) (db_ledger d) = None"
      using None by (simp add: ledger_row_for_def)
    then have "List.find (\<lambda>r. lr_idempotency_key r = key) (db_ledger d @ [r']) = Some r'"
      if "lr_idempotency_key r' = key" for r'
      using that by (simp add: find_append_None)
    then show ?thesis using f by (auto simp: rolled_back_db_def ledger_row_for_def)
  next
    case False
    then show ?thesis using rollback_refused [OF d None, of path] m by auto
  qed
qed

text \<open>After a change of its database: the entry of the sandbox.\<close>

lemma on_database_entry:
  assumes "dget s i = Some r" and "holds i r p v d" and "m (Some d) = (x, Some d')"
  shows "\<exists>u. on_database i m s = (x, u)
           \<and> (\<forall>j. dget u j = (if j = i then Some (r\<lparr>sd_database := Some d'\<rparr>) else dget s j))"
  using on_database_holds [of s i r p v d m x d'] assms holdsD(2) [OF assms(2)] by auto

lemma execute_missing:
  assumes "dget s (ga_sandbox_id args) = None"
  shows "\<exists>e. migrate_execute base ctx args s = (Inl e, s)"
    and "\<exists>e. rollback_execute base ctx args s = (Inl e, s)"
proof -
  obtain e where "inspect base (ga_sandbox_id args) s = (Inl e, s)"
    using inspect_missing [OF assms] by blast
  then show "\<exists>e. migrate_execute base ctx args s = (Inl e, s)"
    and "\<exists>e. rollback_execute base ctx args s = (Inl e, s)"
    by (simp_all add: migrate_execute_def rollback_execute_def catch_permanent_def try_act_def bnd_def)
qed

definition migrated_output :: "string \<Rightarrow> sandbox_state \<Rightarrow> sandbox_state \<Rightarrow> bool \<Rightarrow> action_output" where
  "migrated_output i before after again =
     \<lparr>ao_sandbox_id = i, ao_action = ''schema.migrate'', ao_before = Some before, ao_after = after,
      ao_summary = (if again then ''schema migration already applied''
                    else ''schema migrated from v1 to v2''), ao_already_applied = again\<rparr>"

text \<open>The execution of the migration on a sandbox, from what the database does.\<close>

lemma migrate_execute_holds:
  assumes r: "dget s i = Some r" and h: "holds i r p v d" and i: "ga_sandbox_id args = i"
    and fp: "ga_expected_fingerprint args = Some fp"
    and m: "migrate_v1_to_v2 (base @ ''/'' @ i @ ''/orders.db'') (tc_logical_idempotency_key ctx) fp (Some d)
              = (y, Some d')"
    and h': "holds i (r\<lparr>sd_database := Some d'\<rparr>) q v d'"
  shows "\<exists>u. (\<forall>j. dget u j = (if j = i then Some (r\<lparr>sd_database := Some d'\<rparr>) else dget s j))
           \<and> (d' = d \<longrightarrow> u = s)
           \<and> (case y of Inl e \<Rightarrow> \<exists>e'. migrate_execute base ctx args s = (Inl e', u)
              | Inr mg \<Rightarrow> \<exists>before after. migrate_execute base ctx args s
                  = (Inr (action_result (migrated_output i before after (mg_already_applied mg))), u)
                  \<and> ss_fingerprint after \<in> {f. fingerprint_of d' = Inr f})"
proof -
  let ?path = "base @ ''/'' @ i @ ''/orders.db''"
  let ?m = "migrate_v1_to_v2 ?path (tc_logical_idempotency_key ctx) fp"
  define u where "u = (if d' = d then s else dset i (r\<lparr>sd_database := Some d'\<rparr>) s)"
  have on: "on_database i ?m s = (y, u)" using on_database_holds [OF r h, of ?m y d'] m by (simp add: u_def)
  have "r\<lparr>sd_database := Some d\<rparr> = r" using holdsD(2) [OF h] by (cases r) simp
  then have u: "dget u j = (if j = i then Some (r\<lparr>sd_database := Some d'\<rparr>) else dget s j)" for j
    using r by (simp add: u_def)
  obtain before where b: "inspect base i s = (Inr before, s)" using inspect_holds [OF r h] by metis
  have "dget u i = Some (r\<lparr>sd_database := Some d'\<rparr>)" using u by simp
  then obtain after where a: "inspect base i u = (Inr after, u)"
      "fingerprint_of d' = Inr (ss_fingerprint after)"
    using inspect_holds [OF _ h'] by metis
  note path = database_path_ok [OF holdsD(1) [OF h], of base]
  have "case y of Inl e \<Rightarrow> \<exists>e'. migrate_execute base ctx args s = (Inl e', u)
      | Inr mg \<Rightarrow> migrate_execute base ctx args s
          = (Inr (action_result (migrated_output i before after (mg_already_applied mg))), u)"
    using b a on path fp i
    by (cases y) (simp_all add: migrate_execute_def catch_permanent_def try_act_def bnd_def
        fingerprint_argument_def migrated_output_def)
  then have "case y of Inl e \<Rightarrow> \<exists>e'. migrate_execute base ctx args s = (Inl e', u)
      | Inr mg \<Rightarrow> \<exists>before after. migrate_execute base ctx args s
          = (Inr (action_result (migrated_output i before after (mg_already_applied mg))), u)
          \<and> ss_fingerprint after \<in> {f. fingerprint_of d' = Inr f}"
    using a(2) by (cases y) auto
  moreover have "d' = d \<longrightarrow> u = s" by (simp add: u_def)
  ultimately show ?thesis using u by blast
qed

lemma migrate_no_fingerprint:
  "ga_expected_fingerprint args = None \<Longrightarrow> \<nexists>x u. migrate_execute base ctx args s = (Inr x, u)"
  by (auto simp: migrate_execute_def catch_permanent_Inr fingerprint_argument_def bnd_def
      split: prod.splits sum.splits)

lemma migrate_executed:
  assumes s: "world_ok s" and x: "migrate_execute base ctx args s = (Inr x, u)"
  obtains r q v d row fp where "dget u (ga_sandbox_id args) = Some r" "holds (ga_sandbox_id args) r q v d"
    "ledger_row_for (tc_logical_idempotency_key ctx) d = Some row"
    "lr_migration_id row = migration_id" "lr_to_version row = SchemaV2"
    "ga_expected_fingerprint args = Some fp"
proof -
  let ?i = "ga_sandbox_id args" and ?key = "tc_logical_idempotency_key ctx"
  let ?path = "base @ ''/'' @ ?i @ ''/orders.db''"
  obtain fp where fp: "ga_expected_fingerprint args = Some fp"
    using migrate_no_fingerprint [of args base ctx s] x by fastforce
  obtain r where r: "dget s ?i = Some r" using execute_missing(1) [of s args base ctx] x by fastforce
  obtain p v d where h: "holds ?i r p v d" using s r by (rule world_okE)
  obtain y fl where m0: "migrate_v1_to_v2 ?path ?key fp (Some d) = (y, fl)" by fastforce
  obtain q d' where k: "fl = Some d'" "in_phase q ?i d'" "db_effects d' = db_effects d"
      "phase_schema p = SchemaV2 \<longrightarrow> phase_schema q = SchemaV2"
    using migrate_keeps [OF holdsD(3) [OF h] m0] by blast
  note m = m0 [unfolded k(1)]
  have h': "holds ?i (r\<lparr>sd_database := Some d'\<rparr>) q v d'"
    using holds_database [OF h k(2) effects_ok_ledger [OF k(3) holdsD(4) [OF h]]
      compatible_wider [OF holdsD(6) [OF h] k(4)]] .
  obtain u0 where u0: "\<forall>j. dget u0 j = (if j = ?i then Some (r\<lparr>sd_database := Some d'\<rparr>) else dget s j)"
    and out: "case y of Inl e \<Rightarrow> \<exists>e'. migrate_execute base ctx args s = (Inl e', u0)
      | Inr mg \<Rightarrow> \<exists>before after. migrate_execute base ctx args s
          = (Inr (action_result (migrated_output ?i before after (mg_already_applied mg))), u0)
          \<and> ss_fingerprint after \<in> {f. fingerprint_of d' = Inr f}"
    using migrate_execute_holds [OF r h refl fp m h'] by blast
  obtain mg where y: "y = Inr mg" using out x by (cases y) auto
  have "u0 = u" using out x y by auto
  then have u: "dget u ?i = Some (r\<lparr>sd_database := Some d'\<rparr>)" using u0 by simp
  obtain row where "ledger_row_for ?key d' = Some row" "lr_migration_id row = migration_id"
      "lr_to_version row = SchemaV2"
    using migrate_records [OF holdsD(3) [OF h] m [unfolded y]] by auto
  then show ?thesis using that [OF u h'] fp by blast
qed

lemma migrate_replays:
  assumes r: "dget s (ga_sandbox_id args) = Some r" and h: "holds (ga_sandbox_id args) r p v d"
    and row: "ledger_row_for (tc_logical_idempotency_key ctx) d = Some row"
    and m: "lr_migration_id row = migration_id" and fp: "ga_expected_fingerprint args = Some fp"
  shows "replays (migrate_tool mb base) ctx args s"
proof -
  have "r\<lparr>sd_database := Some d\<rparr> = r" using holdsD(2) [OF h] by (cases r) simp
  then have h': "holds (ga_sandbox_id args) (r\<lparr>sd_database := Some d\<rparr>) p v d" using h by simp
  show ?thesis
    using migrate_execute_holds [OF r h refl fp migrate_replayed [OF row] h', of base] m
    by (auto simp: replays_def migrate_tool_def action_result_def migrated_output_def
        recorded_migration_def)
qed

lemma ledger_probe_finds:
  assumes r: "dget s i = Some r" and h: "holds i r p v d" and i: "sandbox_id_from_query q = Some i"
    and row: "ledger_row_for (rq_logical_idempotency_key q) d = Some row" "lr_to_version row = target"
  shows "\<exists>out. ledger_probe base action target summary q s
           = (Inr \<lparr>sp_status = Found, sp_output = Some (ActionOut out)\<rparr>, s)"
proof -
  let ?path = "base @ ''/'' @ i @ ''/orders.db''"
  have row_found: "fst (migration_for_key ?path (rq_logical_idempotency_key q) (Some d))
      = Inr (Some (recorded_migration row))"
    by (simp add: migration_for_key_def with_connection_def query_def visible_def row(1))
  have "on_database i (migration_for_key ?path (rq_logical_idempotency_key q)) s
      = (fst (migration_for_key ?path (rq_logical_idempotency_key q) (Some d)), s)"
    by (rule on_database_reads [OF r h migration_for_key_reads])
  then have "on_database i (migration_for_key ?path (rq_logical_idempotency_key q)) s
      = (Inr (Some (recorded_migration row)), s)"
    by (simp only: row_found)
  moreover obtain st where "inspect base i s = (Inr st, s)" using inspect_holds [OF r h] by metis
  ultimately show ?thesis
    using i database_path_ok [OF holdsD(1) [OF h], of base] row(2)
    by (simp add: ledger_probe_def try_act_def bnd_def found_action_def recorded_migration_def)
qed

interpretation migrate: recoverable_tool "migrate_tool mb base" for mb base
proof unfold_locales
  fix ctx args
  show "pres world_ok (bt_execute (migrate_tool mb base) ctx args)"
    by (simp add: migrate_tool_def pres_migrate)
next
  fix s ctx args x u q
  assume "world_ok s" and "bt_execute (migrate_tool mb base) ctx args s = (Inr x, u)" and "asks q ctx args"
  then have s: "world_ok s" and x: "migrate_execute base ctx args s = (Inr x, u)"
    and q: "sandbox_id_from_query q = Some (ga_sandbox_id args)"
      "rq_logical_idempotency_key q = tc_logical_idempotency_key ctx"
    by (simp_all add: migrate_tool_def asks_def)
  obtain r p v d row where "dget u (ga_sandbox_id args) = Some r" "holds (ga_sandbox_id args) r p v d"
      "ledger_row_for (tc_logical_idempotency_key ctx) d = Some row" "lr_to_version row = SchemaV2"
    using migrate_executed [OF s x] by metis
  then have "\<exists>out. ledger_probe base ''schema.migrate'' SchemaV2 ''migration found in the sandbox ledger'' q u
      = (Inr \<lparr>sp_status = Found, sp_output = Some (ActionOut out)\<rparr>, u)"
    using ledger_probe_finds [OF _ _ q(1)] q(2) by metis
  then show "probe_finds (migrate_tool mb base) q u"
    by (simp add: probe_finds_def migrate_tool_def migrate_probe_def)
next
  fix s ctx args x u
  assume s: "world_ok s" and "bt_execute (migrate_tool mb base) ctx args s = (Inr x, u)"
  then have x: "migrate_execute base ctx args s = (Inr x, u)" by (simp add: migrate_tool_def)
  show "replays (migrate_tool mb base) ctx args u"
    by (rule migrate_executed [OF s x]) (rule migrate_replays)
qed

definition rolled_back_output :: "string \<Rightarrow> sandbox_state \<Rightarrow> sandbox_state \<Rightarrow> bool \<Rightarrow> action_output" where
  "rolled_back_output i before after again =
     \<lparr>ao_sandbox_id = i, ao_action = ''schema.rollback'', ao_before = Some before, ao_after = after,
      ao_summary = (if again then ''schema rollback already applied''
                    else ''schema rolled back from v2 to v1''), ao_already_applied = again\<rparr>"

lemma rollback_execute_holds:
  assumes r: "dget s i = Some r" and h: "holds i r p ServiceV1 d" and i: "ga_sandbox_id args = i"
    and m: "rollback_v2_to_v1 (base @ ''/'' @ i @ ''/orders.db'') (tc_logical_idempotency_key ctx) (Some d)
              = (y, Some d')"
    and h': "holds i (r\<lparr>sd_database := Some d'\<rparr>) q ServiceV1 d'"
  shows "\<exists>u. (\<forall>j. dget u j = (if j = i then Some (r\<lparr>sd_database := Some d'\<rparr>) else dget s j))
           \<and> (d' = d \<longrightarrow> u = s)
           \<and> (case y of Inl e \<Rightarrow> \<exists>e'. rollback_execute base ctx args s = (Inl e', u)
              | Inr mg \<Rightarrow> \<exists>before after. rollback_execute base ctx args s
                  = (Inr (action_result (rolled_back_output i before after (mg_already_applied mg))), u)
                  \<and> ss_fingerprint after \<in> {f. fingerprint_of d' = Inr f})"
proof -
  let ?path = "base @ ''/'' @ i @ ''/orders.db''"
  let ?m = "rollback_v2_to_v1 ?path (tc_logical_idempotency_key ctx)"
  define u where "u = (if d' = d then s else dset i (r\<lparr>sd_database := Some d'\<rparr>) s)"
  have on: "on_database i ?m s = (y, u)"
    using on_database_holds [OF r h, of ?m y d'] m by (simp add: u_def)
  have "r\<lparr>sd_database := Some d\<rparr> = r" using holdsD(2) [OF h] by (cases r) simp
  then have u: "dget u j = (if j = i then Some (r\<lparr>sd_database := Some d'\<rparr>) else dget s j)" for j
    using r by (simp add: u_def)
  obtain before where b: "inspect base i s = (Inr before, s)" "ss_service_version before = ServiceV1"
    using inspect_holds [OF r h] by metis
  have "dget u i = Some (r\<lparr>sd_database := Some d'\<rparr>)" using u by simp
  then obtain after where a: "inspect base i u = (Inr after, u)"
      "fingerprint_of d' = Inr (ss_fingerprint after)"
    using inspect_holds [OF _ h'] by metis
  note path = database_path_ok [OF holdsD(1) [OF h], of base]
  have "case y of Inl e \<Rightarrow> \<exists>e'. rollback_execute base ctx args s = (Inl e', u)
      | Inr mg \<Rightarrow> rollback_execute base ctx args s
          = (Inr (action_result (rolled_back_output i before after (mg_already_applied mg))), u)"
    using b a on path i
    by (cases y) (simp_all add: rollback_execute_def catch_permanent_def try_act_def bnd_def
        rolled_back_output_def)
  then have "case y of Inl e \<Rightarrow> \<exists>e'. rollback_execute base ctx args s = (Inl e', u)
      | Inr mg \<Rightarrow> \<exists>before after. rollback_execute base ctx args s
          = (Inr (action_result (rolled_back_output i before after (mg_already_applied mg))), u)
          \<and> ss_fingerprint after \<in> {f. fingerprint_of d' = Inr f}"
    using a(2) by (cases y) auto
  moreover have "d' = d \<longrightarrow> u = s" by (simp add: u_def)
  ultimately show ?thesis using u by blast
qed

lemma rollback_needs_v1:
  assumes r: "dget s (ga_sandbox_id args) = Some r" and h: "holds (ga_sandbox_id args) r p ServiceV2 d"
  shows "rollback_execute base ctx args s
           = (Inl (DomainError ''schema rollback requires service v1'' Permanent), s)"
proof -
  obtain before where "inspect base (ga_sandbox_id args) s = (Inr before, s)"
      "ss_service_version before = ServiceV2"
    using inspect_holds [OF r h] by metis
  then show ?thesis by (simp add: rollback_execute_def catch_permanent_def try_act_def bnd_def)
qed

lemma rollback_executed:
  assumes s: "world_ok s" and x: "rollback_execute base ctx args s = (Inr x, u)"
  obtains r q d row where "dget u (ga_sandbox_id args) = Some r"
    "holds (ga_sandbox_id args) r q ServiceV1 d"
    "ledger_row_for (tc_logical_idempotency_key ctx) d = Some row"
    "lr_migration_id row = rollback_id" "lr_to_version row = SchemaV1"
proof -
  let ?i = "ga_sandbox_id args" and ?key = "tc_logical_idempotency_key ctx"
  let ?path = "base @ ''/'' @ ?i @ ''/orders.db''"
  obtain r where r: "dget s ?i = Some r" using execute_missing(2) [of s args base ctx] x by fastforce
  obtain p v d where h0: "holds ?i r p v d" using s r by (rule world_okE)
  have "v = ServiceV1" using rollback_needs_v1 [OF r, of p d base ctx] h0 x by (cases v) auto
  then have h: "holds ?i r p ServiceV1 d" using h0 by simp
  obtain y fl where m0: "rollback_v2_to_v1 ?path ?key (Some d) = (y, fl)" by fastforce
  obtain q d' where k: "fl = Some d'" "in_phase q ?i d'" "db_effects d' = db_effects d"
    using rollback_keeps [OF holdsD(3) [OF h] m0] by blast
  note m = m0 [unfolded k(1)]
  have h': "holds ?i (r\<lparr>sd_database := Some d'\<rparr>) q ServiceV1 d'"
    by (rule holds_database [OF h k(2) effects_ok_ledger [OF k(3) holdsD(4) [OF h]] compatible_v1])
  obtain u0 where u0: "\<forall>j. dget u0 j = (if j = ?i then Some (r\<lparr>sd_database := Some d'\<rparr>) else dget s j)"
    and out: "case y of Inl e \<Rightarrow> \<exists>e'. rollback_execute base ctx args s = (Inl e', u0)
      | Inr mg \<Rightarrow> \<exists>before after. rollback_execute base ctx args s
          = (Inr (action_result (rolled_back_output ?i before after (mg_already_applied mg))), u0)
          \<and> ss_fingerprint after \<in> {f. fingerprint_of d' = Inr f}"
    using rollback_execute_holds [OF r h refl m h'] by blast
  obtain mg where y: "y = Inr mg" using out x by (cases y) auto
  have "u0 = u" using out x y by auto
  then have u: "dget u ?i = Some (r\<lparr>sd_database := Some d'\<rparr>)" using u0 by simp
  obtain row where "ledger_row_for ?key d' = Some row" "lr_migration_id row = rollback_id"
      "lr_to_version row = SchemaV1"
    using rollback_records [OF holdsD(3) [OF h] m [unfolded y]] by auto
  then show ?thesis using that [OF u h'] by blast
qed

lemma rollback_replays:
  assumes r: "dget s (ga_sandbox_id args) = Some r" and h: "holds (ga_sandbox_id args) r p ServiceV1 d"
    and row: "ledger_row_for (tc_logical_idempotency_key ctx) d = Some row"
    and m: "lr_migration_id row = rollback_id"
  shows "replays (rollback_tool mb base) ctx args s"
proof -
  have "r\<lparr>sd_database := Some d\<rparr> = r" using holdsD(2) [OF h] by (cases r) simp
  then have h': "holds (ga_sandbox_id args) (r\<lparr>sd_database := Some d\<rparr>) p ServiceV1 d" using h by simp
  show ?thesis
    using rollback_execute_holds [OF r h refl rollback_replayed [OF row] h', of base] m
    by (auto simp: replays_def rollback_tool_def action_result_def rolled_back_output_def
        recorded_migration_def)
qed

interpretation rollback: recoverable_tool "rollback_tool mb base" for mb base
proof unfold_locales
  fix ctx args
  show "pres world_ok (bt_execute (rollback_tool mb base) ctx args)"
    by (simp add: rollback_tool_def pres_rollback)
next
  fix s ctx args x u q
  assume "world_ok s" and "bt_execute (rollback_tool mb base) ctx args s = (Inr x, u)" and "asks q ctx args"
  then have s: "world_ok s" and x: "rollback_execute base ctx args s = (Inr x, u)"
    and q: "sandbox_id_from_query q = Some (ga_sandbox_id args)"
      "rq_logical_idempotency_key q = tc_logical_idempotency_key ctx"
    by (simp_all add: rollback_tool_def asks_def)
  obtain r p d row where "dget u (ga_sandbox_id args) = Some r" "holds (ga_sandbox_id args) r p ServiceV1 d"
      "ledger_row_for (tc_logical_idempotency_key ctx) d = Some row" "lr_to_version row = SchemaV1"
    using rollback_executed [OF s x] by metis
  then have "\<exists>out. ledger_probe base ''schema.rollback'' SchemaV1 ''rollback found in the sandbox ledger'' q u
      = (Inr \<lparr>sp_status = Found, sp_output = Some (ActionOut out)\<rparr>, u)"
    using ledger_probe_finds [OF _ _ q(1)] q(2) by metis
  then show "probe_finds (rollback_tool mb base) q u"
    by (simp add: probe_finds_def rollback_tool_def rollback_probe_def)
next
  fix s ctx args x u
  assume s: "world_ok s" and "bt_execute (rollback_tool mb base) ctx args s = (Inr x, u)"
  then have x: "rollback_execute base ctx args s = (Inr x, u)" by (simp add: rollback_tool_def)
  show "replays (rollback_tool mb base) ctx args u"
    by (rule rollback_executed [OF s x]) (rule rollback_replays)
qed

section \<open>The tools that switch the service\<close>

lemma stored_probe_finds:
  assumes r: "dget s i = Some r" and h: "holds i r p v d" and i: "sandbox_id_from_query q = Some i"
    and row: "List.find (\<lambda>f. fx_idempotency_key f = rq_logical_idempotency_key q) (db_effects d) = Some row"
    and name: "fx_tool_name row = name"
  shows "\<exists>out. service_version_probe base name q s
           = (Inr \<lparr>sp_status = Found, sp_output = Some (ActionOut out)\<rparr>, s)"
proof -
  let ?path = "base @ ''/'' @ i @ ''/orders.db''"
  let ?m = "effect_output ?path (rq_logical_idempotency_key q) name"
  obtain fs out where j: "fx_output_json row = PDict fs" "action_of_json (PDict fs) = Some out"
    using stored_row_parses [OF h row] by blast
  have val: "fst (?m (Some d)) = Inr (Some (PDict fs))"
    by (simp add: effect_output_reads row name j)
  have "on_database i ?m s = (fst (?m (Some d)), s)"
    by (rule on_database_reads [OF r h effect_output_reads_only])
  then have "on_database i ?m s = (Inr (Some (PDict fs)), s)" by (simp only: val)
  then show ?thesis
    using i database_path_ok [OF holdsD(1) [OF h], of base] j(2)
    by (simp add: service_version_probe_def try_act_def bnd_def found_action_def stored_action_def)
qed

lemma stored_replays:
  assumes r: "dget s (ga_sandbox_id args) = Some r" and h: "holds (ga_sandbox_id args) r p v d"
    and row: "List.find (\<lambda>f. fx_idempotency_key f = tc_logical_idempotency_key ctx) (db_effects d) = Some row"
    and name: "fx_tool_name row = name"
  shows "replays (service_version_tool mb base name target) ctx args s"
proof (rule service_version_cases [OF r h refl, of ctx name base target])
  fix row' out
  assume "service_version_execute base name target ctx args s
    = (Inr \<lparr>sx_output = ActionOut out, sx_effect_applied = False\<rparr>, s)"
  then show ?thesis by (simp add: replays_def service_version_tool_def)
next
  fix e assume e: "service_version_execute base name target ctx args s = (Inl e, s)"
  obtain fs out where j: "fx_output_json row = PDict fs" "action_of_json (PDict fs) = Some out"
    using stored_row_parses [OF h row] by blast
  have False
    using e unfolding service_version_execute_holds [OF r h refl refl refl] effect_output_reads row
    by (simp add: name j catch_permanent_def try_act_def stored_action_def)
  then show ?thesis ..
next
  fix out t r'
  assume "List.find (\<lambda>f. fx_idempotency_key f = tc_logical_idempotency_key ctx) (db_effects d) = None"
  then show ?thesis using row by simp
qed

lemma service_executed:
  assumes s: "world_ok s" and x: "service_version_execute base name target ctx args s = (Inr x, u)"
  obtains r p v d row where "dget u (ga_sandbox_id args) = Some r" "holds (ga_sandbox_id args) r p v d"
    "List.find (\<lambda>f. fx_idempotency_key f = tc_logical_idempotency_key ctx) (db_effects d) = Some row"
    "fx_tool_name row = name"
proof -
  obtain r where r: "dget s (ga_sandbox_id args) = Some r"
    using service_version_missing [of s args base name target ctx] x by fastforce
  obtain p v d where h: "holds (ga_sandbox_id args) r p v d" using s r by (rule world_okE)
  show ?thesis
  proof (rule service_version_cases [OF r h refl, of ctx name base target])
    fix row out
    assume row: "List.find (\<lambda>f. fx_idempotency_key f = tc_logical_idempotency_key ctx) (db_effects d) = Some row"
        "fx_tool_name row = name"
      and "service_version_execute base name target ctx args s
        = (Inr \<lparr>sx_output = ActionOut out, sx_effect_applied = False\<rparr>, s)"
    then have "u = s" using x by simp
    then show ?thesis using that r h row by blast
  next
    fix e assume "service_version_execute base name target ctx args s = (Inl e, s)"
    then show ?thesis using x by simp
  next
    fix out t r'
    assume none: "List.find (\<lambda>f. fx_idempotency_key f = tc_logical_idempotency_key ctx) (db_effects d) = None"
      and t: "service_version_execute base name target ctx args s = (Inr (action_result out), t)"
        "\<forall>j. dget t j = (if j = ga_sandbox_id args then Some r' else dget s j)"
      and h': "holds (ga_sandbox_id args) r' p target
        (with_effect (tc_logical_idempotency_key ctx) name (action_json out) d)"
    have "u = t" using t(1) x by simp
    then have "dget u (ga_sandbox_id args) = Some r'" using t(2) by simp
    moreover have "List.find (\<lambda>f. fx_idempotency_key f = tc_logical_idempotency_key ctx)
        (db_effects (with_effect (tc_logical_idempotency_key ctx) name (action_json out) d))
      = Some \<lparr>fx_idempotency_key = tc_logical_idempotency_key ctx, fx_tool_name = name,
              fx_output_json = action_json out\<rparr>"
      using none by (simp add: with_effect_def find_append_None)
    ultimately show ?thesis using that h' by fastforce
  qed
qed

interpretation service: recoverable_tool "service_version_tool mb base name target" for mb base name target
proof unfold_locales
  fix ctx args
  show "pres world_ok (bt_execute (service_version_tool mb base name target) ctx args)"
    by (simp add: service_version_tool_def pres_service_version)
next
  fix s ctx args x u q
  assume "world_ok s" and "bt_execute (service_version_tool mb base name target) ctx args s = (Inr x, u)"
    and "asks q ctx args"
  then have s: "world_ok s" and x: "service_version_execute base name target ctx args s = (Inr x, u)"
    and q: "sandbox_id_from_query q = Some (ga_sandbox_id args)"
      "rq_logical_idempotency_key q = tc_logical_idempotency_key ctx"
    by (simp_all add: service_version_tool_def asks_def)
  show "probe_finds (service_version_tool mb base name target) q u"
    by (rule service_executed [OF s x])
      (use stored_probe_finds [OF _ _ q(1)] q(2) in \<open>simp add: probe_finds_def service_version_tool_def\<close>)
next
  fix s ctx args x u
  assume s: "world_ok s" and "bt_execute (service_version_tool mb base name target) ctx args s = (Inr x, u)"
  then have x: "service_version_execute base name target ctx args s = (Inr x, u)"
    by (simp add: service_version_tool_def)
  show "replays (service_version_tool mb base name target) ctx args u"
    by (rule service_executed [OF s x]) (rule stored_replays)
qed

text \<open>Every tool of the suite that supports idempotency is recoverable.\<close>

lemma suite_recoverable:
  assumes "t \<in> set (sandbox_tools mb base)" and "td_idempotency (tl_descriptor t) = IdemSupported"
  shows "recoverable_tool t"
  using assms migrate.recoverable_tool_axioms rollback.recoverable_tool_axioms
    service.recoverable_tool_axioms
  by (auto simp: sandbox_tools_def environment_tool_def precheck_tool_def validation_tool_def
      sandbox_descriptor_def)

end
