(* ===== verification/Sandbox_Guarantees.thy ===== *)
theory Sandbox_Guarantees
  imports Sandbox_Recovery
begin

text \<open>
  What the sandbox promises: it stays usable, interrupted effects are found again, faults fire
  where they are configured, and an upgrade that is taken back leaves the sandbox as it was.
\<close>

section \<open>Samples\<close>

definition sample_boundary :: model_boundary where
  "sample_boundary = \<lparr>mb_error = (\<lambda>_ _. []), mb_output = (\<lambda>_ _. Inl [])\<rparr>"

definition call_context :: "string \<Rightarrow> tool_context" where
  "call_context key =
     \<lparr>tc_run_id = ''run'', tc_step_id = ''step'', tc_attempt_number = 1, tc_phase = Forward,
      tc_logical_idempotency_key = key, tc_deadline = 0, tc_metadata = PNone\<rparr>"

definition key_query :: "string \<Rightarrow> string \<Rightarrow> recovery_query" where
  "key_query i key =
     \<lparr>rq_run_id = ''run'', rq_step_id = ''step'', rq_phase = Forward, rq_logical_idempotency_key = key,
      rq_deadline = 0,
      rq_metadata = PDict [(KStr ''arguments'', PDict [(KStr ''sandbox_id'', PStr i)])]\<rparr>"

lemma created:
  assumes i: "sandbox_id_ok i" and new: "dget s0 i = None" and s0: "sandbox_reachable mb base s0"
  obtains st s r where "create_sandbox base i s0 = (Inr st, s)" and "ss_sandbox_id st = i"
    and "fingerprint_of (fresh_db i) = Inr (ss_fingerprint st)"
    and "dget s i = Some r" and "holds i r Fresh ServiceV1 (fresh_db i)"
    and "sandbox_reachable mb base s"
proof -
  obtain st s r where c: "create_sandbox base i s0 = (Inr st, s)"
      "ss_sandbox_id st = i" "fingerprint_of (fresh_db i) = Inr (ss_fingerprint st)"
      "\<forall>j. dget s j = (if j = i then Some r else dget s0 j)"
      "holds i r Fresh ServiceV1 (fresh_db i)"
    using create_empty [OF i dir_of_None [OF new]] by blast
  have "sandbox_reachable mb base (snd (create_sandbox base i s0))"
    using s0 by (rule sandbox_reachable.create)
  then show ?thesis using that c by simp
qed

definition demo :: string where
  "demo = ''demo''"

lemma demo_ok: "sandbox_id_ok demo" "dget [] demo = None"
  by (code_simp, simp)

lemmas demo_created = created [OF demo_ok sandbox_reachable.start]

lemma demo_sandbox:
  "\<exists>s r fp. dget s demo = Some r \<and> holds demo r Fresh ServiceV1 (fresh_db demo)
     \<and> fingerprint_of (fresh_db demo) = Inr fp \<and> sandbox_reachable mb base s"
  by (rule demo_created [of base mb]) (intro exI conjI)

section \<open>The sandbox stays usable\<close>

lemma health_holds:
  assumes r: "dget s i = Some r" and h: "holds i r p v d" and st: "inspect base i s = (Inr st, s)"
    and v: "ss_service_version st = v" "ss_schema_version st = phase_schema p"
  shows "service_health_check base i s = (Inr (health_of st), s)" and "sh_healthy (health_of st)"
  using st v holdsD(6) [OF h] by (simp_all add: service_health_check_def bnd_def health_of_def Let_def)

lemma list_orders_holds:
  assumes r: "dget s i = Some r" and h: "holds i r p v d"
  obtains os where "service_list_orders base i s = (Inr os, s)" and "os \<noteq> []"
    and "phase_schema p = SchemaV2 \<longrightarrow> (\<forall>o' \<in> set os. or_priority o' \<noteq> None)"
    and "select_orders (phase_schema p) d = Inr os"
proof -
  let ?path = "base @ ''/'' @ i @ ''/orders.db''"
  obtain st where st: "inspect base i s = (Inr st, s)" "ss_service_version st = v"
      "ss_schema_version st = phase_schema p"
    using inspect_holds [OF r h] by metis
  obtain os where os: "list_orders ?path (Some d) = (Inr os, Some d)" "os \<noteq> []"
      "phase_schema p = SchemaV2 \<longrightarrow> (\<forall>o' \<in> set os. or_priority o' \<noteq> None)"
    using list_orders_phase [OF holdsD(3) [OF h]] by blast
  have on: "on_database i (list_orders ?path) s = (Inr os, s)"
    using on_database_holds [OF r h, of "list_orders ?path" "Inr os" d] os(1) by simp
  have "service_list_orders base i s = (Inr os, s)"
    using health_holds [OF r h st] on database_path_ok [OF holdsD(1) [OF h], of base]
    by (simp add: service_list_orders_def bnd_def)
  moreover have "select_orders (phase_schema p) d = Inr os"
    using os(1) schema_version_phase [OF holdsD(3) [OF h]]
    by (simp add: list_orders_def bnd_def with_connection_def query_def visible_def split: sum.splits)
  ultimately show ?thesis using os that by blast
qed

lemma v2_needs_v2: "compatible ServiceV2 c \<longleftrightarrow> c = SchemaV2"
  by (simp add: compatible_def)

lemma validation_holds:
  assumes r: "dget s (ga_sandbox_id args) = Some r" and h: "holds (ga_sandbox_id args) r p v d"
  shows "\<exists>out. validation_execute base smoke ctx args s
           = (Inr \<lparr>sx_output = ValidationOut out, sx_effect_applied = False\<rparr>, s)"
proof -
  obtain st where st: "inspect base (ga_sandbox_id args) s = (Inr st, s)" "ss_service_version st = v"
      "ss_schema_version st = phase_schema p"
    using inspect_holds [OF r h] by metis
  obtain os where os: "service_list_orders base (ga_sandbox_id args) s = (Inr os, s)" "os \<noteq> []"
      "phase_schema p = SchemaV2 \<longrightarrow> (\<forall>o' \<in> set os. or_priority o' \<noteq> None)"
    using list_orders_holds [OF r h] by metis
  have "v = ServiceV2 \<longrightarrow> phase_schema p = SchemaV2"
    using holdsD(6) [OF h] by (auto simp: v2_needs_v2)
  then have "smoke_test base (ga_sandbox_id args) st s = (Inr (), s)"
    using os st by (auto simp: smoke_test_def bnd_def list_ex_iff)
  then show ?thesis using health_holds [OF r h st] st(1)
    by (cases smoke) (simp_all add: validation_execute_def catch_permanent_def try_act_def bnd_def)
qed

text \<open>
  C37: whatever is done through the manager, the order service, the fault injector and the tools of
  the suite, with or without injected faults, every sandbox stays usable: it can be inspected, its
  service is one that its schema serves (version 2 runs on schema version 2 only), it is healthy, its
  orders can be read and are complete under version 2, and the health check and the smoke test pass.
\<close>

theorem sandbox_stays_compatible:
  assumes "sandbox_reachable mb base s" and "dget s i = Some r"
  shows "\<exists>st h os. inspect base i s = (Inr st, s)
           \<and> compatible (ss_service_version st) (ss_schema_version st)
           \<and> service_health_check base i s = (Inr h, s) \<and> sh_healthy h
           \<and> service_list_orders base i s = (Inr os, s) \<and> os \<noteq> []
           \<and> (ss_service_version st = ServiceV2 \<longrightarrow> (\<forall>o' \<in> set os. or_priority o' \<noteq> None))
           \<and> (\<forall>smoke ctx args. ga_sandbox_id args = i \<longrightarrow> (\<exists>out. validation_execute base smoke ctx args s
                = (Inr \<lparr>sx_output = ValidationOut out, sx_effect_applied = False\<rparr>, s)))"
proof -
  obtain p v d where h: "holds i r p v d"
    using reachable_world_ok [OF assms(1)] assms(2) by (rule world_okE)
  obtain st where st: "inspect base i s = (Inr st, s)" "ss_service_version st = v"
      "ss_schema_version st = phase_schema p"
    using inspect_holds [OF assms(2) h] by metis
  obtain os where os: "service_list_orders base i s = (Inr os, s)" "os \<noteq> []"
      "phase_schema p = SchemaV2 \<longrightarrow> (\<forall>o' \<in> set os. or_priority o' \<noteq> None)"
    using list_orders_holds [OF assms(2) h] by metis
  have "v = ServiceV2 \<longrightarrow> phase_schema p = SchemaV2"
    using holdsD(6) [OF h] by (auto simp: v2_needs_v2)
  then show ?thesis
    using st os health_holds [OF assms(2) h st] holdsD(6) [OF h] validation_holds assms(2) h
    by (intro exI [of _ st] exI [of _ "health_of st"] exI [of _ os]) auto
qed

theorem sandbox_stays_compatible_witness:
  "\<exists>s r h. sandbox_reachable sample_boundary ''base'' s \<and> dget s demo = Some r
     \<and> service_health_check ''base'' demo s = (Inr h, s) \<and> sh_healthy h"
proof -
  obtain s r where "sandbox_reachable sample_boundary ''base'' s" "dget s demo = Some r"
    by (rule demo_created)
  then show ?thesis using sandbox_stays_compatible [of sample_boundary "''base''" s demo r] by blast
qed

section \<open>Configured faults\<close>

definition faults_of :: "sandbox_dir \<Rightarrow> fault_configuration" where
  "faults_of r = (case sd_faults r of None \<Rightarrow> \<lparr>fc_specs = [], fc_call_counts = []\<rparr> | Some c \<Rightarrow> c)"

definition count_call :: "string \<Rightarrow> fault_configuration \<Rightarrow> fault_configuration" where
  "count_call name c = c\<lparr>fc_call_counts := dset name (calls_so_far name c + 1) (fc_call_counts c)\<rparr>"

lemma next_fault_entry:
  assumes r: "dget s i = Some r" and i: "sandbox_id_ok i"
  shows "next_fault base i name s
           = (Inr (fault_for (fc_specs (faults_of r)) name (calls_so_far name (faults_of r) + 1)),
              dset i (r\<lparr>sd_faults := Some (count_call name (faults_of r))\<rparr>) s)"
proof -
  note path = faults_path_ok [OF i, of base]
  have "read_faults base i s = (Inr (faults_of r), s)"
    using r path by (simp add: read_faults_def bnd_def faults_of_def)
  then show ?thesis using r path
    by (simp add: next_fault_def bnd_def Let_def write_faults_def count_call_def)
qed

lemma configure_entry:
  assumes r: "dget s i = Some r" and i: "sandbox_id_ok i" and ds: "distinct (map fault_identity specs)"
  shows "configure_faults base i specs s
           = (Inr (), dset i (r\<lparr>sd_faults := Some \<lparr>fc_specs = specs, fc_call_counts = []\<rparr>\<rparr>) s)"
proof -
  have "length (remdups (map fault_identity specs)) = length specs"
    by (simp only: distinct_remdups_id [OF ds] length_map)
  then show ?thesis using r faults_path_ok [OF i, of base]
    by (simp add: configure_faults_def write_faults_def bnd_def)
qed

text \<open>A call leaves the configured faults, and their counts, as they are.\<close>

definition has_faults :: "string \<Rightarrow> fault_configuration option \<Rightarrow> sandboxes \<Rightarrow> bool" where
  "has_faults i c s \<longleftrightarrow> (\<exists>r. dget s i = Some r \<and> sd_faults r = c)"

lemma keeps_faults [pres_intros]:
  "pres (has_faults i c) (on_database j m)" "pres (has_faults i c) (write_service_version j v)"
  by (auto intro!: presI simp: has_faults_def on_database_def write_service_version_def dir_of_def
      split: prod.splits option.splits)

lemma tool_keeps_faults:
  assumes "t \<in> set (sandbox_tools mb base)"
  shows "pres (has_faults i c) (bt_execute t ctx args)"
proof -
  have set: "pres (has_faults i c) (set_service_version base j v)" for j v
    unfolding set_service_version_def by (intro pres_intros)
  have "pres (has_faults i c) (switch_service base name target path key j)" for name target path key j
    unfolding switch_service_def Let_def by (intro pres_intros set)
  then have "pres (has_faults i c) (service_version_execute base name target ctx args)" for name target
    unfolding service_version_execute_def by (intro pres_intros)
  moreover have "pres (has_faults i c) (migrate_execute base ctx args)"
    and "pres (has_faults i c) (rollback_execute base ctx args)"
    unfolding migrate_execute_def rollback_execute_def by (intro pres_intros)+
  moreover note pres_environment pres_validation
  ultimately show ?thesis using assms
    by (auto simp: sandbox_tools_def environment_tool_def precheck_tool_def migrate_tool_def rollback_tool_def
        service_version_tool_def validation_tool_def)
qed

text \<open>Calls of tools, one after the other: what each answers and the world after it.\<close>

type_synonym tool_use = "sandbox_tool \<times> tool_context \<times> sandbox_arguments"

fun call_tools ::
  "string \<Rightarrow> tool_use list \<Rightarrow> sandboxes \<Rightarrow> ((sandbox_error + sandbox_result) \<times> sandboxes) list" where
  "call_tools base [] s = []"
| "call_tools base ((t, ctx, args) # calls) s =
     (let out = bt_execute (fault_injecting base t) ctx args s in out # call_tools base calls (snd out))"

definition called :: "tool_use \<Rightarrow> string" where
  "called use = td_name (tl_descriptor (fst use))"

text \<open>
  What is configured for the \<open>n\<close>-th call of a tool, and what a fault makes of a call in the world \<open>w\<close>:
  the first two kinds replace the call, the third its answer once it has succeeded.
\<close>

definition configured :: "fault_spec list \<Rightarrow> string \<Rightarrow> nat \<Rightarrow> fault_type option \<Rightarrow> bool" where
  "configured specs name n fault \<longleftrightarrow>
     (case fault of
        None \<Rightarrow> \<forall>f \<in> set specs. \<not> (fs_tool_name f = name \<and> fs_call_number f = n)
      | Some x \<Rightarrow> \<exists>f \<in> set specs. fs_tool_name f = name \<and> fs_call_number f = n \<and> fs_fault_type f = x)"

fun injected ::
  "fault_type option \<Rightarrow> (sandbox_error + sandbox_result) \<times> sandboxes \<Rightarrow> sandboxes \<Rightarrow>
   (sandbox_error + sandbox_result) \<times> sandboxes" where
  "injected None plain w = plain"
| "injected (Some BeforeEffect) plain w =
     (Inl (DomainError ''injected interruption before tool effect'' ResultUnknown), w)"
| "injected (Some PermanentFailure) plain w = (Inl (DomainError ''injected permanent tool failure'' Permanent), w)"
| "injected (Some AfterEffect) plain w =
     (case plain of
        (Inl e, v) \<Rightarrow> (Inl e, v)
      | (Inr _, v) \<Rightarrow> (Inl (DomainError ''injected interruption after tool effect'' ResultUnknown), v))"

definition same_sandbox :: "sandboxes \<Rightarrow> sandboxes \<Rightarrow> bool" where
  "same_sandbox s w \<longleftrightarrow> (\<forall>j. map_option sd_database (dget w j) = map_option sd_database (dget s j)
                          \<and> map_option sd_state (dget w j) = map_option sd_state (dget s j))"

lemma same_sandbox_faults: "dget s i = Some r \<Longrightarrow> same_sandbox s (dset i (r\<lparr>sd_faults := c\<rparr>) s)"
  by (auto simp: same_sandbox_def)

lemma fault_for_configured: "configured specs name n (fault_for specs name n)"
  by (auto simp: configured_def fault_for_def find_Some_iff find_None_iff split: option.splits)

lemma fault_injecting_injected:
  assumes "next_fault base (ga_sandbox_id args) (td_name (tl_descriptor t)) s = (Inr fault, w)"
  shows "bt_execute (fault_injecting base t) ctx args s = injected fault (bt_execute t ctx args w) w"
proof (cases fault)
  case None
  then show ?thesis using assms
    by (auto simp: fault_injecting_def fault_injecting_execute_def bnd_def split: prod.splits sum.splits)
next
  case (Some x)
  then show ?thesis using assms
    by (cases x) (auto simp: fault_injecting_def fault_injecting_execute_def bnd_def split: prod.splits sum.splits)
qed

lemma calls_count_call:
  "calls_so_far m (count_call n c) = calls_so_far m c + (if m = n then 1 else 0)"
  by (simp add: calls_so_far_def count_call_def)

lemma injected_keeps_faults:
  assumes "pres (has_faults i c) (bt_execute t ctx args)" and "has_faults i c w"
  shows "has_faults i c (snd (injected fault (bt_execute t ctx args w) w))"
proof -
  have "has_faults i c (snd (bt_execute t ctx args w))" using presD [OF assms] .
  then show ?thesis using assms(2)
    by (cases fault rule: injected.cases [of "(fault, bt_execute t ctx args w, w)" for fault, simplified])
      (auto split: prod.splits sum.splits)
qed

text \<open>One call: the fault that meets it, and the world that its tool then works in.\<close>

lemma call_meets_fault:
  assumes r: "dget s i = Some r" and i: "sandbox_id_ok i"
    and t: "t \<in> set (sandbox_tools mb base)" "ga_sandbox_id args = i"
    and n: "n = td_name (tl_descriptor t)"
  obtains w r' where "same_sandbox s w"
    and "bt_execute (fault_injecting base t) ctx args s
      = injected (fault_for (fc_specs (faults_of r)) n (calls_so_far n (faults_of r) + 1))
          (bt_execute t ctx args w) w"
    and "dget (snd (bt_execute (fault_injecting base t) ctx args s)) i = Some r'"
    and "faults_of r' = count_call n (faults_of r)"
proof -
  let ?c = "count_call n (faults_of r)"
  define w where "w = dset i (r\<lparr>sd_faults := Some ?c\<rparr>) s"
  let ?fault = "fault_for (fc_specs (faults_of r)) n (calls_so_far n (faults_of r) + 1)"
  have "next_fault base i n s = (Inr ?fault, w)" using next_fault_entry [OF r i] by (simp add: w_def)
  then have run: "bt_execute (fault_injecting base t) ctx args s = injected ?fault (bt_execute t ctx args w) w"
    using fault_injecting_injected t(2) n by blast
  have "has_faults i (Some ?c) w" by (simp add: has_faults_def w_def)
  from injected_keeps_faults [OF tool_keeps_faults [OF t(1)] this]
  obtain r' where "dget (snd (bt_execute (fault_injecting base t) ctx args s)) i = Some r'" "sd_faults r' = Some ?c"
    unfolding run has_faults_def by blast
  then show ?thesis
    using that [OF same_sandbox_faults [OF r, of "Some ?c", folded w_def] run] by (simp add: faults_of_def)
qed

definition meets ::
  "string \<Rightarrow> fault_configuration \<Rightarrow> tool_use list \<Rightarrow> sandboxes \<Rightarrow> nat \<Rightarrow> bool" where
  "meets base c calls s k \<longleftrightarrow>
     (case calls ! k of (t, ctx, args) \<Rightarrow>
        \<exists>w. same_sandbox ((s # map snd (call_tools base calls s)) ! k) w
          \<and> call_tools base calls s ! k
              = injected (fault_for (fc_specs c) (called (calls ! k))
                  (calls_so_far (called (calls ! k)) c
                    + count_list (map called (take (Suc k) calls)) (called (calls ! k))))
                  (bt_execute t ctx args w) w)"

lemma meets_Suc:
  assumes "meets base (count_call (called use) c) calls (snd out) k"
    and "call_tools base (use # calls) s = out # call_tools base calls (snd out)"
  shows "meets base c (use # calls) s (Suc k)"
proof -
  obtain t ctx args where k: "calls ! k = (t, ctx, args)" by (cases "calls ! k")
  have n: "calls_so_far m (count_call (called use) c) + count_list (map called (take (Suc k) calls)) m
      = calls_so_far m c + count_list (map called (take (Suc (Suc k)) (use # calls))) m" for m
    by (simp add: calls_count_call)
  have specs: "fc_specs (count_call m c) = fc_specs c" for m by (simp add: count_call_def)
  from assms(1) show ?thesis
    unfolding meets_def assms(2) n specs nth_Cons_Suc list.map k prod.case .
qed

lemma call_tools_meet_faults:
  assumes "dget s i = Some r" and i: "sandbox_id_ok i"
    and "\<forall>(t, ctx, args) \<in> set calls. t \<in> set (sandbox_tools mb base) \<and> ga_sandbox_id args = i"
  shows "length (call_tools base calls s) = length calls
    \<and> (\<forall>k < length calls. meets base (faults_of r) calls s k)"
  using assms(1,3)
proof (induction calls arbitrary: s r)
  case (Cons use calls)
  obtain t ctx args where use: "use = (t, ctx, args)" by (cases use)
  let ?n = "td_name (tl_descriptor t)" and ?out = "bt_execute (fault_injecting base t) ctx args s"
  have t: "t \<in> set (sandbox_tools mb base)" "ga_sandbox_id args = i" using Cons.prems(2) use by auto
  obtain w r' where w: "same_sandbox s w"
    and run: "?out = injected (fault_for (fc_specs (faults_of r)) ?n (calls_so_far ?n (faults_of r) + 1))
          (bt_execute t ctx args w) w"
    and r': "dget (snd ?out) i = Some r'" "faults_of r' = count_call ?n (faults_of r)"
    by (rule call_meets_fault [OF Cons.prems(1) i t refl])
  have n: "called use = ?n" by (simp add: called_def use)
  have rest: "\<forall>(t, ctx, args) \<in> set calls. t \<in> set (sandbox_tools mb base) \<and> ga_sandbox_id args = i"
    using Cons.prems(2) by simp
  have outs: "call_tools base (use # calls) s = ?out # call_tools base calls (snd ?out)"
    by (simp add: use Let_def)
  note IH = Cons.IH [OF r'(1) rest, unfolded r'(2), folded n]
  have first: "meets base (faults_of r) (use # calls) s 0"
    unfolding meets_def outs using w run n by (simp add: use) blast
  have "meets base (faults_of r) (use # calls) s k" if "k < length (use # calls)" for k
    using that first IH meets_Suc [OF _ outs] by (cases k) auto
  moreover have "length (call_tools base (use # calls) s) = length (use # calls)" unfolding outs using IH by simp
  ultimately show ?case by blast
qed simp

text \<open>
  C39: after a configuration with at most one fault per tool and call number, the tools of the suite
  may be called on the sandbox in any order and with any arguments. The n-th call of a tool then
  meets a fault if and only if one is configured for exactly this tool and this number: an
  interruption before the effect or a permanent failure replaces the call and changes no database
  and no state file, an interruption after the effect replaces the answer of a call that succeeded,
  and every other call does what the tool without faults does, in a world with the same databases
  and state files.
\<close>

theorem faults_fire_as_configured:
  assumes "sandbox_reachable mb base s" and "dget s i = Some r"
    and "distinct (map fault_identity specs)"
    and "\<forall>(t, ctx, args) \<in> set calls. t \<in> set (sandbox_tools mb base) \<and> ga_sandbox_id args = i"
  shows "\<exists>u. configure_faults base i specs s = (Inr (), u) \<and> same_sandbox s u
    \<and> length (call_tools base calls u) = length calls
    \<and> (\<forall>k < length calls. case calls ! k of (t, ctx, args) \<Rightarrow>
         \<exists>fault w. configured specs (called (calls ! k))
                (count_list (map called (take (Suc k) calls)) (called (calls ! k))) fault
           \<and> same_sandbox ((u # map snd (call_tools base calls u)) ! k) w
           \<and> call_tools base calls u ! k = injected fault (bt_execute t ctx args w) w)"
proof -
  obtain p v d where h: "holds i r p v d"
    using reachable_world_ok [OF assms(1)] assms(2) by (rule world_okE)
  let ?c = "\<lparr>fc_specs = specs, fc_call_counts = []\<rparr> :: fault_configuration"
  let ?r = "r\<lparr>sd_faults := Some ?c\<rparr>"
  let ?u = "dset i ?r s"
  have c: "fc_specs (faults_of ?r) = specs" "calls_so_far name (faults_of ?r) = 0" for name
    by (simp_all add: faults_of_def calls_so_far_def)
  have "dget ?u i = Some ?r" by simp
  note calls = call_tools_meet_faults [OF this holdsD(1) [OF h] assms(4), unfolded meets_def c add_0]
  have "configure_faults base i specs s = (Inr (), ?u)"
    by (rule configure_entry [OF assms(2) holdsD(1) [OF h] assms(3)])
  moreover have "case calls ! k of (t, ctx, args) \<Rightarrow>
         \<exists>fault w. configured specs (called (calls ! k))
                (count_list (map called (take (Suc k) calls)) (called (calls ! k))) fault
           \<and> same_sandbox ((?u # map snd (call_tools base calls ?u)) ! k) w
           \<and> call_tools base calls ?u ! k = injected fault (bt_execute t ctx args w) w"
    if "k < length calls" for k
    using conjunct2 [OF calls, rule_format, OF that] fault_for_configured
    by (cases "calls ! k") (simp only: prod.case, blast)
  ultimately show ?thesis using calls same_sandbox_faults [OF assms(2)] by blast
qed

text \<open>The second inspection of a service fails, the first does not meet the fault.\<close>

theorem faults_fire_as_configured_witness:
  "\<exists>s r u outs. sandbox_reachable sample_boundary ''base'' s \<and> dget s demo = Some r
     \<and> configure_faults ''base'' demo
         [\<lparr>fs_tool_name = ''service.inspect'', fs_call_number = 2, fs_fault_type = PermanentFailure\<rparr>] s = (Inr (), u)
     \<and> call_tools ''base'' (replicate 2
         (environment_tool sample_boundary ''base'' ''service.inspect'', call_context ''key'',
          \<lparr>ga_sandbox_id = demo, ga_expected_fingerprint = None\<rparr>)) u = outs
     \<and> (\<exists>w. same_sandbox u w \<and> outs ! 0 = environment_execute ''base'' (call_context ''key'')
          \<lparr>ga_sandbox_id = demo, ga_expected_fingerprint = None\<rparr> w)
     \<and> fst (outs ! 1) = Inl (DomainError ''injected permanent tool failure'' Permanent)"
proof -
  let ?specs = "[\<lparr>fs_tool_name = ''service.inspect'', fs_call_number = 2, fs_fault_type = PermanentFailure\<rparr>]
    :: fault_spec list"
  let ?args = "\<lparr>ga_sandbox_id = demo, ga_expected_fingerprint = None\<rparr>"
  let ?t = "environment_tool sample_boundary ''base'' ''service.inspect''"
  let ?use = "(?t, call_context ''key'', ?args)"
  obtain s r where s: "sandbox_reachable sample_boundary ''base'' s" "dget s demo = Some r"
    by (rule demo_created)
  have n: "called ?use = ''service.inspect''"
    by (simp add: called_def environment_tool_def sandbox_descriptor_def)
  have "distinct (map fault_identity ?specs)" by simp
  moreover have "\<forall>(t, ctx, args) \<in> set [?use, ?use].
      t \<in> set (sandbox_tools sample_boundary ''base'') \<and> ga_sandbox_id args = demo"
    by (simp add: sandbox_tools_def)
  ultimately obtain u where u: "configure_faults ''base'' demo ?specs s = (Inr (), u)"
    and calls: "\<And>k. k < 2 \<Longrightarrow> \<exists>fault w. configured ?specs ''service.inspect'' (Suc k) fault
           \<and> same_sandbox ((u # map snd (call_tools ''base'' [?use, ?use] u)) ! k) w
           \<and> call_tools ''base'' [?use, ?use] u ! k = injected fault (bt_execute ?t (call_context ''key'') ?args w) w"
    using faults_fire_as_configured [OF s, of ?specs "[?use, ?use]"] n
    by (fastforce simp: less_Suc_eq numeral_2_eq_2)
  have first: "configured ?specs ''service.inspect'' (Suc 0) fault \<Longrightarrow> fault = None" for fault
    by (auto simp: configured_def split: option.splits)
  have second: "configured ?specs ''service.inspect'' (Suc 1) fault \<Longrightarrow> fault = Some PermanentFailure" for fault
    by (auto simp: configured_def numeral_2_eq_2 split: option.splits)
  from calls [of 0] first have "\<exists>w. same_sandbox u w \<and> call_tools ''base'' [?use, ?use] u ! 0
      = environment_execute ''base'' (call_context ''key'') ?args w" by (fastforce simp: environment_tool_def)
  moreover from calls [of 1] second have "fst (call_tools ''base'' [?use, ?use] u ! 1)
      = Inl (DomainError ''injected permanent tool failure'' Permanent)" by fastforce
  moreover have "replicate 2 ?use = [?use, ?use]" by (simp add: numeral_2_eq_2)
  ultimately show ?thesis using s u by metis
qed

section \<open>Interrupted effects\<close>

text \<open>
  C38: when a call of a tool that supports idempotency is interrupted after its effect, the call fails
  with an unknown result, but the probe of the tool finds the effect under the key of the call, and
  calling the tool again with this key succeeds without applying anything.
\<close>

theorem interrupted_effect_is_found:
  assumes "sandbox_reachable mb base s" and "t \<in> set (sandbox_tools mb base)"
    and "td_idempotency (tl_descriptor t) = IdemSupported"
    and "next_fault base (ga_sandbox_id args) (td_name (tl_descriptor t)) s = (Inr (Some AfterEffect), s1)"
    and "bt_execute t ctx args s1 = (Inr x, u)" and "asks q ctx args"
  shows "bt_execute (fault_injecting base t) ctx args s
           = (Inl (DomainError ''injected interruption after tool effect'' ResultUnknown), u)
         \<and> (\<exists>out. bt_probe t q u = (Inr \<lparr>sp_status = Found, sp_output = Some (ActionOut out)\<rparr>, u))
         \<and> (\<exists>out. bt_execute t ctx args u
               = (Inr \<lparr>sx_output = ActionOut out, sx_effect_applied = False\<rparr>, u))"
  using recoverable_tool.interrupted_after [OF suite_recoverable [OF assms(2,3)]
      reachable_world_ok [OF assms(1)] assms(4-6)]
  by (simp add: fault_injecting_def probe_finds_def replays_def)


lemma keep_database: "holds i r p v d \<Longrightarrow> r\<lparr>sd_database := Some d\<rparr> = r"
  using holdsD(2) [of i r p v d] by (cases r) simp

lemma new_migration_flag: "mg_already_applied (new_migration f) = False"
    "mg_already_applied (new_rollback f) = False"
  by (simp_all add: new_migration_def new_rollback_def)

lemma migrate_execute_fresh:
  assumes r: "dget s (ga_sandbox_id args) = Some r" and h: "holds (ga_sandbox_id args) r Fresh v d"
    and fp: "fingerprint_of d = Inr fp" "ga_expected_fingerprint args = Some fp"
    and new: "ledger_row_for (tc_logical_idempotency_key ctx) d = None"
  shows "\<exists>before after u final. migrate_execute base ctx args s
           = (Inr (action_result (migrated_output (ga_sandbox_id args) before after False)), u)
         \<and> (\<forall>j. dget u j = (if j = ga_sandbox_id args
               then Some (r\<lparr>sd_database := Some (migrated_db (tc_logical_idempotency_key ctx) final d)\<rparr>)
               else dget s j))
         \<and> holds (ga_sandbox_id args)
               (r\<lparr>sd_database := Some (migrated_db (tc_logical_idempotency_key ctx) final d)\<rparr>) Migrated v
               (migrated_db (tc_logical_idempotency_key ctx) final d)"
proof -
  let ?i = "ga_sandbox_id args" and ?key = "tc_logical_idempotency_key ctx"
  obtain final where m: "migrate_v1_to_v2 (base @ ''/'' @ ?i @ ''/orders.db'') ?key fp (Some d)
        = (Inr (new_migration final), Some (migrated_db ?key final d))"
      "in_phase Migrated ?i (migrated_db ?key final d)"
    using migrate_fresh [OF holdsD(3) [OF h] fp(1) new] by blast
  have "effects_ok (migrated_db ?key final d)"
    using holdsD(4) [OF h] by (simp add: effects_ok_def migrated_db_def)
  moreover have "compatible v (phase_schema Migrated)"
    using holdsD(6) [OF h] by (rule compatible_wider) simp
  ultimately have h': "holds ?i (r\<lparr>sd_database := Some (migrated_db ?key final d)\<rparr>) Migrated v
      (migrated_db ?key final d)"
    using holds_database [OF h m(2)] by blast
  have "\<exists>u. (\<forall>j. dget u j = (if j = ?i then Some (r\<lparr>sd_database := Some (migrated_db ?key final d)\<rparr>)
              else dget s j))
        \<and> (\<exists>before after. migrate_execute base ctx args s
              = (Inr (action_result (migrated_output ?i before after False)), u))"
    using migrate_execute_holds [OF r h refl fp(2) m(1) h'] unfolding sum.case new_migration_flag by blast
  then show ?thesis using h' by blast
qed

theorem interrupted_effect_is_found_witness:
  "\<exists>s u q out. sandbox_reachable sample_boundary ''base'' s
     \<and> fst (bt_execute (fault_injecting ''base'' (migrate_tool sample_boundary ''base'')) (call_context ''key'')
             \<lparr>ga_sandbox_id = demo, ga_expected_fingerprint = ok_option (fingerprint_of (fresh_db demo))\<rparr> s)
         = Inl (DomainError ''injected interruption after tool effect'' ResultUnknown)
     \<and> bt_probe (migrate_tool sample_boundary ''base'') q u
         = (Inr \<lparr>sp_status = Found, sp_output = Some (ActionOut out)\<rparr>, u)"
proof -
  let ?t = "migrate_tool sample_boundary ''base''" and ?ctx = "call_context ''key''"
  let ?specs = "[\<lparr>fs_tool_name = ''schema.migrate'', fs_call_number = 1, fs_fault_type = AfterEffect\<rparr>]
    :: fault_spec list"
  obtain s r fp where c: "dget s demo = Some r" "holds demo r Fresh ServiceV1 (fresh_db demo)"
      "fingerprint_of (fresh_db demo) = Inr fp" "sandbox_reachable sample_boundary ''base'' s"
    using demo_sandbox by blast
  let ?args = "\<lparr>ga_sandbox_id = demo, ga_expected_fingerprint = ok_option (fingerprint_of (fresh_db demo))\<rparr>"
  define r1 where "r1 = r\<lparr>sd_faults := Some \<lparr>fc_specs = ?specs, fc_call_counts = []\<rparr>\<rparr>"
  define s1 where "s1 = dset demo r1 s"
  have "configure_faults ''base'' demo ?specs s = (Inr (), s1)"
    using configure_entry [OF c(1) demo_ok(1), of ?specs "''base''"] by (simp add: s1_def r1_def)
  then have reach: "sandbox_reachable sample_boundary ''base'' s1"
    using sandbox_reachable.configure [OF c(4), of demo ?specs] by simp
  have r1: "dget s1 demo = Some r1" by (simp add: s1_def)
  define r2 where "r2 = r1\<lparr>sd_faults := Some (count_call ''schema.migrate'' (faults_of r1))\<rparr>"
  define s2 where "s2 = dset demo r2 s1"
  have "faults_of r1 = \<lparr>fc_specs = ?specs, fc_call_counts = []\<rparr>" by (simp add: faults_of_def r1_def)
  then have fault: "next_fault ''base'' demo ''schema.migrate'' s1 = (Inr (Some AfterEffect), s2)"
    using next_fault_entry [OF r1 demo_ok(1), of "''base''" "''schema.migrate''"]
    by (simp add: fault_for_def calls_so_far_def s2_def r2_def)
  have h2: "holds demo r2 Fresh ServiceV1 (fresh_db demo)"
    unfolding r2_def r1_def by (intro holds_faults c(2))
  have "dget s2 (ga_sandbox_id ?args) = Some r2" by (simp add: s2_def)
  moreover have "ledger_row_for (tc_logical_idempotency_key ?ctx) (fresh_db demo) = None"
    by (simp add: ledger_row_for_def fresh_db_def)
  ultimately obtain x u where run: "migrate_execute ''base'' ?ctx ?args s2 = (Inr x, u)"
    using migrate_execute_fresh [of s2 ?args r2 ServiceV1 "fresh_db demo" fp ?ctx "''base''"]
      h2 c(3) by (auto simp: ok_option_def)
  have tool: "?t \<in> set (sandbox_tools sample_boundary ''base'')" by (simp add: sandbox_tools_def)
  have name: "td_name (tl_descriptor ?t) = ''schema.migrate''" "td_idempotency (tl_descriptor ?t) = IdemSupported"
    by (simp_all add: migrate_tool_def sandbox_descriptor_def)
  have asked: "asks (key_query demo ''key'') ?ctx ?args"
    by (simp add: asks_def key_query_def call_context_def sandbox_id_from_query_def pget_def)
  have "next_fault ''base'' (ga_sandbox_id ?args) (td_name (tl_descriptor ?t)) s1 = (Inr (Some AfterEffect), s2)"
    using fault name(1) by simp
  moreover have "bt_execute ?t ?ctx ?args s2 = (Inr x, u)" using run by (simp add: migrate_tool_def)
  ultimately have "bt_execute (fault_injecting ''base'' ?t) ?ctx ?args s1
        = (Inl (DomainError ''injected interruption after tool effect'' ResultUnknown), u)
      \<and> (\<exists>out. bt_probe ?t (key_query demo ''key'') u
            = (Inr \<lparr>sp_status = Found, sp_output = Some (ActionOut out)\<rparr>, u))"
    using interrupted_effect_is_found [OF reach tool name(2) _ _ asked] by blast
  then show ?thesis using reach by (metis fst_conv)
qed

end
