(* ===== verification/Sandbox_Upgrade.thy ===== *)
theory Sandbox_Upgrade
  imports Sandbox_Guarantees
begin

text \<open>
  An upgrade and the way back: the compensations of the suite undo what the upgrade did, and a
  rollback loses no order and no priority.
\<close>

section \<open>What a database shows\<close>

lemma fingerprint_shows:
  assumes "db_metadata a = db_metadata b" "db_priority a = db_priority b" "db_orders a = db_orders b"
  shows "fingerprint_of a = fingerprint_of b" and "select_orders v a = select_orders v b"
  unfolding fingerprint_of_def schema_version_in_def select_orders_def columns_json_def assms
  by (rule refl)+

lemma effect_fields [simp]:
  "db_metadata (with_effect k n out d) = db_metadata d" "db_priority (with_effect k n out d) = db_priority d"
  "db_orders (with_effect k n out d) = db_orders d" "db_ledger (with_effect k n out d) = db_ledger d"
  by (simp_all add: with_effect_def)

lemma moved_fields [simp]:
  "db_effects (migrated_db k f d) = db_effects d"
  "db_ledger (migrated_db k f d) = db_ledger d @ [\<lparr>lr_migration_id = migration_id,
     lr_from_version = SchemaV1, lr_to_version = SchemaV2, lr_idempotency_key = k, lr_fingerprint = f\<rparr>]"
  "db_orders (migrated_db k f d) = map (or_priority_update (\<lambda>_. Some ''standard'')) (db_orders d)"
  "db_effects (rolled_back_db k f d) = db_effects d"
  "db_orders (rolled_back_db k f d) = map (or_priority_update (\<lambda>_. None)) (db_orders d)"
  by (simp_all add: migrated_db_def rolled_back_db_def widened_db_def set_schema_version_def)

lemma fresh_ledger:
  assumes "in_phase p i d" and "phase_schema p = SchemaV1" and "stored_migration_ids d = []"
  shows "p = Fresh" and "db_ledger d = []"
proof -
  show "db_ledger d = []" using assms(3) by (simp add: stored_migration_ids_def)
  then show "p = Fresh" using in_phaseD(3) [OF assms(1)] assms(2) by (cases p) simp_all
qed

lemma standard_orders:
  "db_priority d \<Longrightarrow> db_orders d = map (or_priority_update (\<lambda>_. Some ''standard'')) os \<Longrightarrow>
   count_special d = Inr 0"
  by (simp add: count_special_def)

lemma plain_orders:
  "in_phase p i d \<Longrightarrow> \<not> phase_column p \<Longrightarrow>
   map (or_priority_update (\<lambda>_. None)) (map (or_priority_update (\<lambda>_. Some ''standard'')) (db_orders d))
     = db_orders d"
  by (auto simp: in_phase_def comp_def intro!: map_idI)

section \<open>The steps\<close>

lemma rollback_execute_migrated:
  assumes r: "dget s (ga_sandbox_id args) = Some r" and h: "holds (ga_sandbox_id args) r Migrated ServiceV1 d"
    and new: "ledger_row_for (tc_logical_idempotency_key ctx) d = None" and none: "count_special d = Inr 0"
  shows "\<exists>before after u final. rollback_execute base ctx args s
           = (Inr (action_result (rolled_back_output (ga_sandbox_id args) before after False)), u)
         \<and> (\<forall>j. dget u j = (if j = ga_sandbox_id args
               then Some (r\<lparr>sd_database := Some (rolled_back_db (tc_logical_idempotency_key ctx) final d)\<rparr>)
               else dget s j))
         \<and> holds (ga_sandbox_id args)
               (r\<lparr>sd_database := Some (rolled_back_db (tc_logical_idempotency_key ctx) final d)\<rparr>) RolledBack
               ServiceV1 (rolled_back_db (tc_logical_idempotency_key ctx) final d)"
proof -
  let ?i = "ga_sandbox_id args" and ?key = "tc_logical_idempotency_key ctx"
  obtain final where m: "rollback_v2_to_v1 (base @ ''/'' @ ?i @ ''/orders.db'') ?key (Some d)
        = (Inr (new_rollback final), Some (rolled_back_db ?key final d))"
      "in_phase RolledBack ?i (rolled_back_db ?key final d)"
    using rollback_migrated [OF holdsD(3) [OF h] new none] by blast
  have h': "holds ?i (r\<lparr>sd_database := Some (rolled_back_db ?key final d)\<rparr>) RolledBack ServiceV1
      (rolled_back_db ?key final d)"
    using holds_database [OF h m(2) effects_ok_ledger [OF _ holdsD(4) [OF h]] compatible_v1] by simp
  have "\<exists>u. (\<forall>j. dget u j = (if j = ?i then Some (r\<lparr>sd_database := Some (rolled_back_db ?key final d)\<rparr>)
              else dget s j))
        \<and> (\<exists>before after. rollback_execute base ctx args s
              = (Inr (action_result (rolled_back_output ?i before after False)), u))"
    using rollback_execute_holds [OF r h refl m(1) h'] unfolding sum.case new_migration_flag by blast
  then show ?thesis using h' by blast
qed

text \<open>What the sandbox shows when its database shows the same as before.\<close>

lemma same_view:
  assumes r: "dget s i = Some r" and h: "holds i r p v d" and t: "dget t i = Some r'" and h': "holds i r' q v d'"
    and same: "db_metadata d' = db_metadata d" "db_priority d' = db_priority d" "db_orders d' = db_orders d"
    and st: "inspect base i s = (Inr st, s)"
  shows "\<exists>st'. inspect base i t = (Inr st', t) \<and> ss_service_version st' = ss_service_version st
           \<and> ss_schema_version st' = ss_schema_version st \<and> ss_fingerprint st' = ss_fingerprint st
           \<and> fst (service_list_orders base i t) = fst (service_list_orders base i s)"
proof -
  have st0: "ss_service_version st = v" "ss_schema_version st = phase_schema p"
      "fingerprint_of d = Inr (ss_fingerprint st)"
    using inspect_holds [OF r h, of base] st by (metis Pair_inject sum.inject(2))+
  obtain st' where st': "inspect base i t = (Inr st', t)" "ss_service_version st' = v"
      "ss_schema_version st' = phase_schema q" "fingerprint_of d' = Inr (ss_fingerprint st')"
    using inspect_holds [OF t h'] by metis
  have "phase_schema q = phase_schema p"
    using in_phaseD(1) [OF holdsD(3) [OF h]] in_phaseD(1) [OF holdsD(3) [OF h']] same(1)
    by (cases p; cases q) simp_all
  moreover obtain os os' where
      "service_list_orders base i s = (Inr os, s)" "select_orders (phase_schema p) d = Inr os"
      "service_list_orders base i t = (Inr os', t)" "select_orders (phase_schema q) d' = Inr os'"
    using list_orders_holds [OF r h, of base] list_orders_holds [OF t h', of base] by metis
  ultimately show ?thesis using st0 st' fingerprint_shows [OF same] by simp
qed

section \<open>An upgrade and the way back\<close>

lemma call_context_key: "tc_logical_idempotency_key (call_context key) = key"
  by (simp add: call_context_def)

lemma switched:
  assumes "dget s (ga_sandbox_id args) = Some r" and "holds (ga_sandbox_id args) r p v d"
    and "tc_logical_idempotency_key ctx \<notin> fx_idempotency_key ` set (db_effects d)"
    and "target = ServiceV2 \<longrightarrow> phase_schema p = SchemaV2"
  shows "\<exists>out t r' d'. service_version_execute base name target ctx args s = (Inr (action_result out), t)
           \<and> ao_already_applied out = (v = target)
           \<and> (\<forall>j. dget t j = (if j = ga_sandbox_id args then Some r' else dget s j))
           \<and> d' = with_effect (tc_logical_idempotency_key ctx) name (action_json out) d
           \<and> holds (ga_sandbox_id args) r' p target d'"
  using service_version_new [OF assms(1,2) refl _ assms(4), of ctx base name] assms(3)
  unfolding find_effect_None by blast

definition call_args :: "string \<Rightarrow> string option \<Rightarrow> sandbox_arguments" where
  "call_args i fp = \<lparr>ga_sandbox_id = i, ga_expected_fingerprint = fp\<rparr>"

lemma call_args_fields: "ga_sandbox_id (call_args i fp) = i" "ga_expected_fingerprint (call_args i fp) = fp"
  by (simp_all add: call_args_def)

text \<open>The way there, from a database that was never migrated.\<close>

lemma upgraded:
  assumes r: "dget s i = Some r" and h: "holds i r Fresh ServiceV1 d" and fp: "fingerprint_of d = Inr fp"
    and kd: "kd \<notin> fx_idempotency_key ` set (db_effects d)" and none: "db_ledger d = []"
  shows "\<exists>m s1 e s2 r2 d2.
           migrate_execute base (call_context km) (call_args i (Some fp)) s = (Inr (action_result m), s1)
         \<and> service_version_execute base ''service.deploy-v2'' ServiceV2 (call_context kd)
             (call_args i (Some fp)) s1 = (Inr (action_result e), s2)
         \<and> (\<forall>j. dget s2 j = (if j = i then Some r2 else dget s j)) \<and> holds i r2 Migrated ServiceV2 d2
         \<and> db_orders d2 = map (or_priority_update (\<lambda>_. Some ''standard'')) (db_orders d)
         \<and> lr_idempotency_key ` set (db_ledger d2) = {km}
         \<and> fx_idempotency_key ` set (db_effects d2) = insert kd (fx_idempotency_key ` set (db_effects d))"
proof -
  let ?a = "call_args i (Some fp)"
  have "ledger_row_for km d = None" by (simp add: ledger_row_for_def none)
  then obtain m s1 f1 d1 r1 where s1: "migrate_execute base (call_context km) ?a s = (Inr (action_result m), s1)"
      "\<forall>j. dget s1 j = (if j = i then Some r1 else dget s j)" "d1 = migrated_db km f1 d"
      "holds i r1 Migrated ServiceV1 d1"
    using migrate_execute_fresh [of s ?a r ServiceV1 d fp "call_context km" base] r h fp
    unfolding call_args_fields call_context_key by blast
  obtain e s2 r2 d2 where s2: "service_version_execute base ''service.deploy-v2'' ServiceV2 (call_context kd) ?a s1
        = (Inr (action_result e), s2)" "\<forall>j. dget s2 j = (if j = i then Some r2 else dget s1 j)"
      "d2 = with_effect kd ''service.deploy-v2'' (action_json e) d1" "holds i r2 Migrated ServiceV2 d2"
    using switched [of s1 ?a r1 Migrated ServiceV1 d1 "call_context kd" ServiceV2 base "''service.deploy-v2''"]
      s1(2,4) kd unfolding call_args_fields call_context_key by (auto simp: s1(3))
  have "\<forall>j. dget s2 j = (if j = i then Some r2 else dget s j)" using s1(2) s2(2) by simp
  moreover have "db_orders d2 = map (or_priority_update (\<lambda>_. Some ''standard'')) (db_orders d)"
      "lr_idempotency_key ` set (db_ledger d2) = {km}"
      "fx_idempotency_key ` set (db_effects d2) = insert kd (fx_idempotency_key ` set (db_effects d))"
    by (simp_all add: s2(3) s1(3) none with_effect_def)
  ultimately show ?thesis using s1(1) s2(1,4) by blast
qed

text \<open>The way back, as long as every order has the priority that the migration gave it.\<close>

lemma taken_back:
  assumes r: "dget s i = Some r" and h: "holds i r Migrated ServiceV2 d"
    and orders: "db_orders d = map (or_priority_update (\<lambda>_. Some ''standard'')) os"
    and kr: "kr \<notin> fx_idempotency_key ` set (db_effects d)" and kb: "kb \<notin> lr_idempotency_key ` set (db_ledger d)"
  shows "\<exists>w s1 b s2 r2 d2.
           service_version_execute base ''service.restore'' ServiceV1 (call_context kr) (call_args i fp) s
             = (Inr (action_result w), s1)
         \<and> rollback_execute base (call_context kb) (call_args i fp) s1 = (Inr (action_result b), s2)
         \<and> (\<forall>j. dget s2 j = (if j = i then Some r2 else dget s j)) \<and> holds i r2 RolledBack ServiceV1 d2
         \<and> db_orders d2 = map (or_priority_update (\<lambda>_. None)) (db_orders d)"
proof -
  let ?a = "call_args i fp"
  obtain w s1 r1 d1 where s1: "service_version_execute base ''service.restore'' ServiceV1 (call_context kr) ?a s
        = (Inr (action_result w), s1)" "\<forall>j. dget s1 j = (if j = i then Some r1 else dget s j)"
      "d1 = with_effect kr ''service.restore'' (action_json w) d" "holds i r1 Migrated ServiceV1 d1"
    using switched [of s ?a r Migrated ServiceV2 d "call_context kr" ServiceV1 base "''service.restore''"]
      r h kr unfolding call_args_fields call_context_key by auto
  have "db_orders d1 = map (or_priority_update (\<lambda>_. Some ''standard'')) os" by (simp add: s1(3) orders)
  then have "count_special d1 = Inr 0"
    by (rule standard_orders [rotated]) (simp add: in_phaseD(2) [OF holdsD(3) [OF s1(4)]])
  moreover have "ledger_row_for kb d1 = None" using kb by (simp add: find_key_None s1(3))
  ultimately obtain b s2 f2 d2 r2 where s2: "rollback_execute base (call_context kb) ?a s1 = (Inr (action_result b), s2)"
      "\<forall>j. dget s2 j = (if j = i then Some r2 else dget s1 j)" "d2 = rolled_back_db kb f2 d1"
      "holds i r2 RolledBack ServiceV1 d2"
    using rollback_execute_migrated [of s1 ?a r1 d1 "call_context kb" base] s1(2,4)
    unfolding call_args_fields call_context_key by auto
  have "\<forall>j. dget s2 j = (if j = i then Some r2 else dget s j)" using s1(2) s2(2) by simp
  moreover have "db_orders d2 = map (or_priority_update (\<lambda>_. None)) (db_orders d)"
    by (simp add: s2(3) s1(3))
  ultimately show ?thesis using s1(1) s2(1,4) by blast
qed

text \<open>
  C36: an upgrade whose steps are then compensated in the opposite order leaves the sandbox as it was.
  From a sandbox with service and schema v1 that was never migrated, the migration with the
  inspected fingerprint and the deployment succeed and give service v2 on schema v2; then restoring
  the service and rolling back the schema succeed, and the versions, the fingerprint and the orders
  are those from before, and no other sandbox has changed.
\<close>

theorem upgrade_and_back:
  assumes "sandbox_reachable mb base s" and "dget s i = Some r" and "sd_database r = Some d"
    and "inspect base i s = (Inr st, s)" and "ss_service_version st = ServiceV1"
    and "ss_schema_version st = SchemaV1" and "ss_migration_ids st = []"
    and "{kd, kr} \<inter> fx_idempotency_key ` set (db_effects d) = {}" and "kd \<noteq> kr" and "km \<noteq> kb"
  shows "\<exists>m s1 e s2 up w s3 b s4 st4.
           migrate_execute base (call_context km) (call_args i (Some (ss_fingerprint st))) s
             = (Inr (action_result m), s1)
         \<and> service_version_execute base ''service.deploy-v2'' ServiceV2 (call_context kd)
             (call_args i (Some (ss_fingerprint st))) s1 = (Inr (action_result e), s2)
         \<and> inspect base i s2 = (Inr up, s2)
         \<and> ss_service_version up = ServiceV2 \<and> ss_schema_version up = SchemaV2
         \<and> service_version_execute base ''service.restore'' ServiceV1 (call_context kr) (call_args i None) s2
             = (Inr (action_result w), s3)
         \<and> rollback_execute base (call_context kb) (call_args i None) s3 = (Inr (action_result b), s4)
         \<and> inspect base i s4 = (Inr st4, s4)
         \<and> ss_service_version st4 = ServiceV1 \<and> ss_schema_version st4 = SchemaV1
         \<and> ss_fingerprint st4 = ss_fingerprint st
         \<and> fst (service_list_orders base i s4) = fst (service_list_orders base i s)
         \<and> (\<forall>j. j \<noteq> i \<longrightarrow> dget s4 j = dget s j)"
proof -
  obtain p v d0 where "holds i r p v d0"
    using reachable_world_ok [OF assms(1)] assms(2) by (rule world_okE)
  moreover from this have "d0 = d" using holdsD(2) assms(3) by fastforce
  ultimately have h0: "holds i r p v d" by simp
  have st: "v = ServiceV1" "phase_schema p = SchemaV1" "fingerprint_of d = Inr (ss_fingerprint st)"
      "stored_migration_ids d = []"
    using inspect_holds [OF assms(2) h0, of base] assms(4-7) by (metis Pair_inject sum.inject(2))+
  note fresh = fresh_ledger [OF holdsD(3) [OF h0] st(2,4)]
  have h: "holds i r Fresh ServiceV1 d" using h0 st(1) fresh(1) by simp
  have kd: "kd \<notin> fx_idempotency_key ` set (db_effects d)" using assms(8) by blast
  obtain m s1 e s2 r2 d2 where
      s1: "migrate_execute base (call_context km) (call_args i (Some (ss_fingerprint st))) s
             = (Inr (action_result m), s1)"
      "service_version_execute base ''service.deploy-v2'' ServiceV2 (call_context kd)
             (call_args i (Some (ss_fingerprint st))) s1 = (Inr (action_result e), s2)"
    and s2: "\<forall>j. dget s2 j = (if j = i then Some r2 else dget s j)" "holds i r2 Migrated ServiceV2 d2"
      "db_orders d2 = map (or_priority_update (\<lambda>_. Some ''standard'')) (db_orders d)"
      "lr_idempotency_key ` set (db_ledger d2) = {km}"
      "fx_idempotency_key ` set (db_effects d2) = insert kd (fx_idempotency_key ` set (db_effects d))"
    using upgraded [OF assms(2) h st(3) kd fresh(2), of base km] by (elim exE conjE) (rule that; assumption)
  have at2: "dget s2 i = Some r2" using s2(1) by simp
  obtain up where up: "inspect base i s2 = (Inr up, s2)" "ss_service_version up = ServiceV2"
      "ss_schema_version up = SchemaV2"
    using inspect_holds [OF at2 s2(2), of base] by auto
  have "kr \<notin> fx_idempotency_key ` set (db_effects d2)" "kb \<notin> lr_idempotency_key ` set (db_ledger d2)"
    using assms(8-10) unfolding s2(4,5) by auto
  note kept = this
  obtain w s3 b s4 r4 d4 where
      s3: "service_version_execute base ''service.restore'' ServiceV1 (call_context kr) (call_args i None) s2
             = (Inr (action_result w), s3)"
      "rollback_execute base (call_context kb) (call_args i None) s3 = (Inr (action_result b), s4)"
    and s4: "\<forall>j. dget s4 j = (if j = i then Some r4 else dget s2 j)" "holds i r4 RolledBack ServiceV1 d4"
      "db_orders d4 = map (or_priority_update (\<lambda>_. None)) (db_orders d2)"
    using taken_back [OF at2 s2(2,3) kept, of base None] by (elim exE conjE) (rule that; assumption)
  have same: "db_metadata d4 = db_metadata d" "db_priority d4 = db_priority d" "db_orders d4 = db_orders d"
    using in_phaseD(1,2) [OF holdsD(3) [OF h]] in_phaseD(1,2) [OF holdsD(3) [OF s4(2)]]
      plain_orders [OF holdsD(3) [OF h]] by (simp_all add: s4(3) s2(3))
  have "dget s4 i = Some r4" using s4(1) by simp
  then obtain st4 where st4: "inspect base i s4 = (Inr st4, s4)" "ss_service_version st4 = ServiceV1"
      "ss_schema_version st4 = SchemaV1" "ss_fingerprint st4 = ss_fingerprint st"
      "fst (service_list_orders base i s4) = fst (service_list_orders base i s)"
    using same_view [OF assms(2) h _ s4(2) same assms(4)] assms(5,6) by metis
  have "\<forall>j. j \<noteq> i \<longrightarrow> dget s4 j = dget s j" using s2(1) s4(1) by simp
  then show ?thesis using s1 up s3 st4 by blast
qed

theorem upgrade_and_back_witness:
  "\<exists>s st s3 b s4 st4. sandbox_reachable sample_boundary ''base'' s
     \<and> inspect ''base'' demo s = (Inr st, s) \<and> ss_service_version st = ServiceV1
     \<and> rollback_execute ''base'' (call_context ''back'') (call_args demo None) s3 = (Inr (action_result b), s4)
     \<and> inspect ''base'' demo s4 = (Inr st4, s4) \<and> ss_schema_version st4 = SchemaV1
     \<and> ss_fingerprint st4 = ss_fingerprint st"
proof -
  obtain s r where s: "dget s demo = Some r" "holds demo r Fresh ServiceV1 (fresh_db demo)"
      "sandbox_reachable sample_boundary ''base'' s"
    using demo_sandbox by blast
  obtain st where st: "inspect ''base'' demo s = (Inr st, s)" "ss_service_version st = ServiceV1"
      "ss_schema_version st = SchemaV1" "ss_migration_ids st = []"
    using inspect_holds [OF s(1,2), of "''base''"] by (auto simp: stored_migration_ids_def fresh_db_def)
  have "{''deploy'', ''restore''} \<inter> fx_idempotency_key ` set (db_effects (fresh_db demo)) = {}"
    by (simp add: fresh_db_def)
  moreover have "''deploy'' \<noteq> ''restore''" "''move'' \<noteq> ''back''" by simp_all
  note done_and_undone = upgrade_and_back [OF s(3,1) holdsD(2) [OF s(2)] st(1,2,3,4) calculation this]
  then obtain s3 b s4 st4 where
    "rollback_execute ''base'' (call_context ''back'') (call_args demo None) s3 = (Inr (action_result b), s4)"
    "inspect ''base'' demo s4 = (Inr st4, s4)" "ss_schema_version st4 = SchemaV1"
    "ss_fingerprint st4 = ss_fingerprint st"
    by (elim exE conjE)
  then show ?thesis using s(3) st(1,2) by (intro exI conjI)
qed

section \<open>Rollbacks and orders\<close>

text \<open>What the rollback of a healthy sandbox does.\<close>

lemma rollback_execute_cases:
  assumes r: "dget s (ga_sandbox_id args) = Some r" and h: "holds (ga_sandbox_id args) r p v d"
  shows "(\<exists>e. rollback_execute base ctx args s = (Inl e, s))
       \<or> (\<exists>before after. rollback_execute base ctx args s
            = (Inr (action_result (rolled_back_output (ga_sandbox_id args) before after True)), s))
       \<or> (v = ServiceV1 \<and> p = Migrated \<and> count_special d = Inr 0
            \<and> ledger_row_for (tc_logical_idempotency_key ctx) d = None)"
proof (cases v)
  case ServiceV2
  then show ?thesis using rollback_needs_v1 [OF r] h by blast
next
  case ServiceV1
  let ?i = "ga_sandbox_id args" and ?key = "tc_logical_idempotency_key ctx"
  let ?m = "rollback_v2_to_v1 (base @ ''/'' @ ?i @ ''/orders.db'') ?key"
  note h1 = h [unfolded ServiceV1]
  have same: "(\<exists>e. rollback_execute base ctx args s = (Inl e, s))
      \<or> (\<exists>before after. rollback_execute base ctx args s
           = (Inr (action_result (rolled_back_output ?i before after True)), s))"
    if y: "?m (Some d) = (y, Some d)" and again: "\<forall>mg. y = Inr mg \<longrightarrow> mg_already_applied mg" for y
  proof -
    have "holds ?i (r\<lparr>sd_database := Some d\<rparr>) p ServiceV1 d" using h1 keep_database [OF h1] by simp
    from rollback_execute_holds [OF r h1 refl y this] again show ?thesis by (cases y) auto
  qed
  show ?thesis
  proof (cases "ledger_row_for ?key d")
    case (Some row)
    then show ?thesis using same [OF rollback_replayed [OF Some]]
      by (auto simp: recorded_migration_def split: if_splits)
  next
    case None
    then show ?thesis using same rollback_refused [OF holdsD(3) [OF h1] None] ServiceV1 by fastforce
  qed
qed

lemma insort_key_map_id:
  "(\<And>y. f (g y) = f y) \<Longrightarrow> insort_key f (g x) (map g xs) = map g (insort_key f x xs)"
  by (induction xs) simp_all

lemma sort_key_map_id: "(\<And>y. f (g y) = f y) \<Longrightarrow> sort_key f (map g xs) = map g (sort_key f xs)"
  by (induction xs) (simp_all add: insort_key_map_id)

lemma select_rolled_back:
  assumes "select_orders SchemaV2 d = Inr os" and "db_orders d' = map (or_priority_update (\<lambda>_. None)) (db_orders d)"
  shows "select_orders SchemaV1 d' = Inr (map (or_priority_update (\<lambda>_. None)) os)"
  using assms
  by (auto simp: select_orders_def sort_key_map_id comp_def split: if_splits)

text \<open>
  C40: a rollback of the schema loses nothing. When it fails, or has been done before under its key,
  nothing changes; when it takes effect, every order had the priority that the migration gave it, and
  afterwards the service lists the same orders in the same order, without a priority.
\<close>

theorem rollback_keeps_orders:
  assumes "sandbox_reachable mb base s" and "rollback_execute base ctx args s = (x, u)"
  shows "case x of
           Inl e \<Rightarrow> u = s
         | Inr y \<Rightarrow>
             (if \<not> sx_effect_applied y then u = s
              else (\<exists>os. service_list_orders base (ga_sandbox_id args) s = (Inr os, s)
                     \<and> (\<forall>o' \<in> set os. or_priority o' = Some ''standard'')
                     \<and> service_list_orders base (ga_sandbox_id args) u
                         = (Inr (map (or_priority_update (\<lambda>_. None)) os), u)))"
proof (cases "dget s (ga_sandbox_id args)")
  case None
  then show ?thesis using execute_missing(2) [OF None, of base ctx] assms(2) by auto
next
  case (Some r)
  let ?i = "ga_sandbox_id args"
  obtain p v d where h: "holds ?i r p v d"
    using reachable_world_ok [OF assms(1)] Some by (rule world_okE)
  consider (same) "u = s" "\<forall>y. x = Inr y \<longrightarrow> \<not> sx_effect_applied y"
    | (applied) "v = ServiceV1" "p = Migrated" "count_special d = Inr 0"
        "ledger_row_for (tc_logical_idempotency_key ctx) d = None"
    using rollback_execute_cases [OF Some h, of base ctx] assms(2)
    by (auto simp: action_result_def rolled_back_output_def)
  then show ?thesis
  proof cases
    case same
    then show ?thesis by (cases x) simp_all
  next
    case applied
    note h1 = h [unfolded applied(1,2)]
    obtain before after r' d' where run: "x = Inr (action_result (rolled_back_output ?i before after False))"
        and u: "dget u ?i = Some r'" "holds ?i r' RolledBack ServiceV1 d'"
        and d': "db_orders d' = map (or_priority_update (\<lambda>_. None)) (db_orders d)"
      using rollback_execute_migrated [OF Some h1 applied(4,3), of base] assms(2) by fastforce
    obtain os where os: "service_list_orders base ?i s = (Inr os, s)" "select_orders SchemaV2 d = Inr os"
      using list_orders_holds [OF Some h1, of base] by auto
    obtain os' where os': "service_list_orders base ?i u = (Inr os', u)" "select_orders SchemaV1 d' = Inr os'"
      using list_orders_holds [OF u, of base] by auto
    have "os' = map (or_priority_update (\<lambda>_. None)) os"
      using os'(2) select_rolled_back [OF os(2) d'] by simp
    moreover have "\<forall>o' \<in> set os. or_priority o' = Some ''standard''"
      using os(2) applied(3)
      by (auto simp: select_orders_def count_special_def filter_empty_conv split: if_splits)
    ultimately show ?thesis using run os(1) os'(1) by (simp add: action_result_def rolled_back_output_def)
  qed
qed

theorem rollback_keeps_orders_witness:
  "\<exists>s u os w. sandbox_reachable sample_boundary ''base'' s
     \<and> rollback_execute ''base'' (call_context ''back'') (call_args demo None) s = (Inr w, u)
     \<and> sx_effect_applied w \<and> service_list_orders ''base'' demo s = (Inr os, s)
     \<and> service_list_orders ''base'' demo u = (Inr (map (or_priority_update (\<lambda>_. None)) os), u)"
proof -
  obtain s0 r where s0: "dget s0 demo = Some r" "holds demo r Fresh ServiceV1 (fresh_db demo)"
      "sandbox_reachable sample_boundary ''base'' s0"
    using demo_sandbox by blast
  obtain fp where fp: "fingerprint_of (fresh_db demo) = Inr fp"
    using fingerprint_total [OF fresh_db_phase, of demo] by blast
  let ?t = "migrate_tool sample_boundary ''base''" and ?a = "call_args demo (Some fp)"
  have "ledger_row_for ''move'' (fresh_db demo) = None" by (simp add: ledger_row_for_def fresh_db_def)
  then obtain m s f r1 where m: "migrate_execute ''base'' (call_context ''move'') ?a s0 = (Inr m, s)"
      and s: "dget s demo = Some r1" "holds demo r1 Migrated ServiceV1 (migrated_db ''move'' f (fresh_db demo))"
    using migrate_execute_fresh [of s0 ?a r ServiceV1 "fresh_db demo" fp "call_context ''move''" "''base''"]
      s0(1,2) fp unfolding call_args_fields call_context_key by fastforce
  have "?t \<in> set (suite_tools sample_boundary ''base'' False)" by (simp add: suite_tools_def sandbox_tools_def)
  then have "sandbox_reachable sample_boundary ''base'' (snd (bt_execute ?t (call_context ''move'') ?a s0))"
    by (rule sandbox_reachable.execute [OF s0(3)])
  then have reach: "sandbox_reachable sample_boundary ''base'' s" using m by (simp add: migrate_tool_def)
  let ?d = "migrated_db ''move'' f (fresh_db demo)"
  have "count_special ?d = Inr 0"
    by (rule standard_orders [OF _ moved_fields(3)]) (simp add: in_phaseD(2) [OF holdsD(3) [OF s(2)]])
  moreover have "ledger_row_for ''back'' ?d = None" by (simp add: ledger_row_for_def fresh_db_def)
  ultimately obtain before after u where
      run: "rollback_execute ''base'' (call_context ''back'') (call_args demo None) s
        = (Inr (action_result (rolled_back_output demo before after False)), u)"
    using rollback_execute_migrated [of s "call_args demo None" r1 ?d "call_context ''back''" "''base''"] s
    unfolding call_args_fields call_context_key by blast
  have applied: "sx_effect_applied (action_result (rolled_back_output demo before after False))"
    by (simp add: action_result_def rolled_back_output_def)
  obtain os where "service_list_orders ''base'' demo s = (Inr os, s)"
      "service_list_orders ''base'' demo u = (Inr (map (or_priority_update (\<lambda>_. None)) os), u)"
    using rollback_keeps_orders [OF reach run] applied unfolding call_args_fields by auto
  then show ?thesis using reach run applied by (intro exI conjI)
qed

end
