(* ===== verification/Sqlite_Definitions.thy ===== *)
theory Sqlite_Definitions
  imports Definitions
begin

text \<open>
  How \<open>workflow/adapters/persistence/sqlite.py\<close> stores a workflow definition: as a JSON text, with
  the secrets in the arguments replaced by a placeholder and their paths kept beside them, and how
  it reads one back. A column that holds a JSON text holds the value that \<open>json.loads\<close> reads from it
  here, so tuples have become lists and the keys of every object are sorted.
\<close>

section \<open>JSON columns\<close>

definition item_key :: "pykey \<times> 'a \<Rightarrow> string" where
  "item_key kv = key_text (fst kv)"

text \<open>\<open>json.loads\<close> of \<open>json.dumps(value, sort_keys=True)\<close>.\<close>

fun json_read :: "pyval \<Rightarrow> pyval" where
  "json_read (PList xs) = PList (map json_read xs)"
| "json_read (PTuple xs) = PList (map json_read xs)"
| "json_read (PDict d) = PDict (sort_key item_key (map (\<lambda>kv. (fst kv, json_read (snd kv))) d))"
| "json_read v = v"

definition json_column :: "pyval \<Rightarrow> error + pyval" where
  "json_column v = sbind (json_dumps True v) (\<lambda>_. Inr (json_read v))"

section \<open>Writing\<close>

datatype path_segment = SegKey pykey | SegIndex int

type_synonym arg_path = "path_segment list"

definition secret_paths_key :: string where
  "secret_paths_key = ''_changepilot_unavailable_secret_paths''"

definition secret_placeholder :: string where
  "secret_placeholder = ''[REDACTED]''"

text \<open>The items of a sequence with their positions.\<close>

definition numbered :: "'a list \<Rightarrow> (int \<times> 'a) list" where
  "numbered xs = zip (map int [0..<length xs]) xs"

lemma numbered_snd [simp]: "map snd (numbered xs) = xs"
  by (simp add: numbered_def)

lemma numbered_in: "ix \<in> set (numbered xs) \<Longrightarrow> snd ix \<in> set xs"
  by (cases ix) (auto simp: numbered_def dest: set_zip_rightD)

lemma numbered_size [termination_simp]: "ix \<in> set (numbered xs) \<Longrightarrow> size (snd ix) < Suc (size_list size xs)"
  by (drule numbered_in, drule size_list_estimation' [of _ _ "size (snd ix)" size]) simp_all

fun serialize_arguments :: "pyval \<Rightarrow> arg_path \<Rightarrow> pyval \<times> arg_path list" where
  "serialize_arguments (PSecret provider name) p = (PStr secret_placeholder, [p])"
| "serialize_arguments PUnavailable p = (PStr secret_placeholder, [p])"
| "serialize_arguments (PProxy d) p =
     (let items = map (\<lambda>kv. (fst kv, serialize_arguments (snd kv) (p @ [SegKey (fst kv)]))) d in
      (PDict (map (\<lambda>kr. (fst kr, fst (snd kr))) items), concat (map (\<lambda>kr. snd (snd kr)) items)))"
| "serialize_arguments (PDict d) p =
     (let items = map (\<lambda>kv. (fst kv, serialize_arguments (snd kv) (p @ [SegKey (fst kv)]))) d in
      (PDict (map (\<lambda>kr. (fst kr, fst (snd kr))) items), concat (map (\<lambda>kr. snd (snd kr)) items)))"
| "serialize_arguments (PList xs) p =
     (let items = map (\<lambda>ix. serialize_arguments (snd ix) (p @ [SegIndex (fst ix)])) (numbered xs) in
      (PList (map fst items), concat (map snd items)))"
| "serialize_arguments (PTuple xs) p =
     (let items = map (\<lambda>ix. serialize_arguments (snd ix) (p @ [SegIndex (fst ix)])) (numbered xs) in
      (PList (map fst items), concat (map snd items)))"
| "serialize_arguments v p = (v, [])"

fun segment_json :: "path_segment \<Rightarrow> pyval" where
  "segment_json (SegKey (KStr k)) = PStr k"
| "segment_json (SegKey (KOther t)) = PObject t"
| "segment_json (SegIndex n) = PInt n"

definition step_to_mapping :: "step_definition \<Rightarrow> pyval" where
  "step_to_mapping s =
     (let (arguments, paths) = serialize_arguments (sd_arguments s) [] in
      PDict
        ([(KStr ''id'', PStr (sd_id s)), (KStr ''tool'', reference_value (sd_tool s)),
          (KStr ''arguments'', arguments), (KStr ''depends_on'', PList (map PStr (sd_depends_on s))),
          (KStr ''risk'', PStr (sd_risk s)),
          (KStr ''retry'', PDict
             [(KStr ''max_attempts'', PInt (rp_max_attempts (sd_retry s))),
              (KStr ''initial_backoff_seconds'', PFloat (rp_initial_backoff_seconds (sd_retry s)))]),
          (KStr ''compensation_tool'',
             (case sd_compensation_tool s of None \<Rightarrow> PNone | Some t \<Rightarrow> reference_value t))]
         @ (if paths = [] then []
            else [(KStr secret_paths_key, PList (map (\<lambda>p. PList (map segment_json p)) paths))])))"

definition definition_to_mapping :: "workflow_definition \<Rightarrow> pyval" where
  "definition_to_mapping w =
     PDict [(KStr ''definition_id'', PStr (wd_definition_id w)), (KStr ''version'', PInt (wd_version w)),
            (KStr ''steps'', PList (map step_to_mapping (wd_steps w)))]"

section \<open>Reading\<close>

text \<open>\<open>_PassthroughToolCatalog\<close>: every tool is there and takes every argument.\<close>

definition passthrough :: tool_catalog where
  "passthrough = \<lparr>ct_contains = (\<lambda>_ _. True), ct_coerce = (\<lambda>_ _ v. Inr v)\<rparr>"

fun parse_segment :: "pyval \<Rightarrow> error + path_segment" where
  "parse_segment (PStr k) = Inr (SegKey (KStr k))"
| "parse_segment (PInt n) = Inr (SegIndex n)"
| "parse_segment _ = Inl (PersistenceError ''persisted secret reference path is invalid'')"

fun parse_path :: "pyval \<Rightarrow> error + arg_path" where
  "parse_path (PList (x # xs)) = smap parse_segment (x # xs)"
| "parse_path _ = Inl (PersistenceError ''persisted secret reference path is invalid'')"

definition parse_secret_paths :: "(pykey, pyval) dict \<Rightarrow> error + arg_path list" where
  "parse_secret_paths m =
     (case pget_or m secret_paths_key (PList []) of
        PList raws \<Rightarrow> smap parse_path raws
      | _ \<Rightarrow> Inl (PersistenceError ''persisted secret reference paths must be a list''))"

function restore_at :: "arg_path list \<Rightarrow> pyval \<Rightarrow> arg_path \<Rightarrow> error + pyval" where
  "restore_at targets v p =
     (if p \<in> set targets
      then if v = PStr secret_placeholder then Inr PUnavailable
           else Inl (PersistenceError ''persisted secret reference placeholder is invalid'')
      else case v of
        PProxy d \<Rightarrow>
          sbind (smap (\<lambda>kv. sbind (restore_at targets (snd kv) (p @ [SegKey (fst kv)])) (\<lambda>x. Inr (fst kv, x))) d)
            (\<lambda>d'. Inr (PProxy d'))
      | PTuple xs \<Rightarrow>
          sbind (smap (\<lambda>ix. restore_at targets (snd ix) (p @ [SegIndex (fst ix)])) (numbered xs))
            (\<lambda>ys. Inr (PTuple ys))
      | _ \<Rightarrow> Inr v)"
  by pat_completeness auto
termination
proof (relation "measure (\<lambda>(targets, v, p). size v)")
  fix targets p v d kv
  assume "v = PProxy d" and "kv \<in> set (d :: (pykey \<times> pyval) list)"
  moreover have "size (snd kv) \<le> size_prod (\<lambda>_. 0) size kv" by (cases kv) simp
  ultimately show "((targets, snd kv, p @ [SegKey (fst kv)]), targets, v, p) \<in> measure (\<lambda>(targets, v, p). size v)"
    using size_list_estimation' [of kv d "size (snd kv)" "size_prod (\<lambda>_. 0) size"] by simp
next
  fix targets p v xs ix
  assume "v = PTuple xs" and "ix \<in> set (numbered xs)"
  then show "((targets, snd ix, p @ [SegIndex (fst ix)]), targets, v, p) \<in> measure (\<lambda>(targets, v, p). size v)"
    using numbered_size [of ix xs] by simp
qed simp

declare restore_at.simps [simp del]

definition restore_secrets :: "arg_path list \<Rightarrow> pyval \<Rightarrow> error + pyval" where
  "restore_secrets paths v =
     sbind (restore_at paths v []) (\<lambda>r.
     case r of PProxy d \<Rightarrow> Inr r
     | _ \<Rightarrow> Inl (PersistenceError ''persisted definition arguments must be a mapping''))"

text \<open>\<open>paths_by_step\<close>, from the raw steps that are objects.\<close>

definition paths_by_step :: "pyval list \<Rightarrow> error + (pyval, arg_path list) dict" where
  "paths_by_step raws =
     sfold (\<lambda>raw table.
       case raw of
         PDict m \<Rightarrow> sbind (parse_secret_paths m) (\<lambda>paths. Inr (dset (pget m ''id'') paths table))
       | _ \<Rightarrow> Inr table) raws []"

definition restore_step :: "(pyval, arg_path list) dict \<Rightarrow> step_definition \<Rightarrow> error + step_definition" where
  "restore_step table s =
     sbind (restore_secrets (case dget table (PStr (sd_id s)) of None \<Rightarrow> [] | Some ps \<Rightarrow> ps) (sd_arguments s))
       (\<lambda>a. Inr (s\<lparr>sd_arguments := a\<rparr>))"

definition definition_from_mapping :: "pyval \<Rightarrow> error + workflow_definition" where
  "definition_from_mapping payload =
     sbind (read_definition payload passthrough) (\<lambda>w.
     sbind (require_mapping payload ''workflow'' None) (\<lambda>m.
     case pget m ''steps'' of
       PList raws \<Rightarrow>
         sbind (paths_by_step raws) (\<lambda>table.
         sbind (smap (restore_step table) (wd_steps w)) (\<lambda>steps.
         Inr (w\<lparr>wd_steps := steps\<rparr>)))
     | _ \<Rightarrow> Inl (PersistenceError ''persisted definition steps must be a list'')))"

end
