(* ===== verification/Sqlite_Roundtrip.thy ===== *)
theory Sqlite_Roundtrip
  imports Sqlite_Definitions
begin

text \<open>
  A definition that is stored in SQLite and read back is the same definition, except that its
  secrets have become unavailable and the keys of its arguments are sorted.
\<close>

section \<open>Sorting\<close>

lemma list_all2_insort:
  assumes "P x y" and "f x = g y" and "list_all2 (\<lambda>x y. P x y \<and> f x = g y) xs ys"
  shows "list_all2 (\<lambda>x y. P x y \<and> f x = g y) (insort_key f x xs) (insort_key g y ys)"
  using assms(3) by (induction rule: list_all2_induct) (use assms(1,2) in auto)

lemma list_all2_sort:
  "list_all2 (\<lambda>x y. P x y \<and> f x = g y) xs ys \<Longrightarrow>
   list_all2 (\<lambda>x y. P x y \<and> f x = g y) (sort_key f xs) (sort_key g ys)"
  by (induction rule: list_all2_induct) (simp_all add: list_all2_insort)

lemma dwf_sort [simp]: "dwf (sort_key f d) = dwf d"
  by (metis mset_eq_imp_distinct_iff mset_map mset_sort)

lemma dget_sort [simp]:
  assumes "dwf d"
  shows "dget (sort_key f d) k = dget d k"
proof -
  have "dget (sort_key f d) k = Some v \<longleftrightarrow> dget d k = Some v" for v
    using assms by (simp only: dget_Some_in_set dwf_sort set_sort)
  then show ?thesis by (metis option.exhaust)
qed

lemma dget_map_snd: "dget (map (\<lambda>kv. (fst kv, f (snd kv))) d) k = map_option f (dget d k)"
  by (induction d) auto

section \<open>JSON texts\<close>

definition json_item :: "bool \<Rightarrow> pykey \<times> pyval \<Rightarrow> error + string \<times> string" where
  "json_item nan kv = sbind (json_key (fst kv)) (\<lambda>k. sbind (json_dumps nan (snd kv)) (\<lambda>v. Inr (k, v)))"

definition json_object :: "(string \<times> string) list \<Rightarrow> string" where
  "json_object fs = ''{'' @ join '','' (map (\<lambda>(k, v). json_string k @ '':'' @ v) (sort_key fst fs)) @ ''}''"

lemma json_dumps_dict:
  "json_dumps nan (PDict d) = sbind (smap (json_item nan) d) (\<lambda>fs. Inr (json_object fs))"
  by (simp add: json_item_def [abs_def] json_object_def)

lemma json_item_Inr:
  "json_item nan kv = Inr f \<longleftrightarrow> fst kv = KStr (fst f) \<and> json_dumps nan (snd kv) = Inr (snd f)"
  by (cases "fst kv") (auto simp: json_item_def sbind_Inr_iff prod_eq_iff)

definition jsonable :: "pyval \<Rightarrow> bool" where
  "jsonable v \<longleftrightarrow> (\<exists>t. json_dumps True v = Inr t)"

lemma jsonable_atoms [simp]:
  "jsonable PNone" "jsonable (PBool b)" "jsonable (PInt i)" "jsonable (PFloat x)" "jsonable (PStr s)"
  "\<not> jsonable (PBytes s)" "\<not> jsonable (PModel c fs)" "\<not> jsonable (PExc c xs)" "\<not> jsonable (PObject s)"
  by (simp_all add: jsonable_def)

lemma jsonable_list [simp]: "jsonable (PList xs) \<longleftrightarrow> (\<forall>x \<in> set xs. jsonable x)"
  unfolding jsonable_def smap_total [symmetric] by (auto simp: sbind_Inr_iff)

lemma jsonable_item: "(\<exists>f. json_item True kv = Inr f) \<longleftrightarrow> (\<exists>k. fst kv = KStr k) \<and> jsonable (snd kv)"
  by (auto simp: json_item_Inr jsonable_def)

lemma jsonable_dict [simp]:
  "jsonable (PDict d) \<longleftrightarrow> (\<forall>kv \<in> set d. (\<exists>k. fst kv = KStr k) \<and> jsonable (snd kv))"
proof -
  have "jsonable (PDict d) \<longleftrightarrow> (\<exists>fs. smap (json_item True) d = Inr fs)"
    by (auto simp: jsonable_def json_dumps_dict sbind_Inr_iff simp del: json_dumps.simps)
  then show ?thesis unfolding smap_total jsonable_item .
qed

lemma json_items_read:
  assumes "smap (json_item nan) d = Inr fs"
    and "\<And>kv t. kv \<in> set d \<Longrightarrow> json_dumps nan (snd kv) = Inr t \<Longrightarrow> json_dumps nan (json_read (snd kv)) = Inr t"
  shows "smap (json_item nan) (sort_key item_key (map (\<lambda>kv. (fst kv, json_read (snd kv))) d)) = Inr (sort_key fst fs)"
proof -
  let ?P = "\<lambda>kv f. json_item nan kv = Inr f \<and> item_key kv = fst f"
  have "list_all2 (\<lambda>kv f. json_item nan kv = Inr f) d fs" using assms(1) by (simp add: smap_Inr_iff)
  then have "list_all2 (\<lambda>kv f. ?P (fst kv, json_read (snd kv)) f) d fs"
    by (rule list.rel_mono_strong) (auto simp: json_item_Inr item_key_def assms(2))
  then have "list_all2 ?P (map (\<lambda>kv. (fst kv, json_read (snd kv))) d) fs" by (simp add: list_all2_map1)
  then have "list_all2 ?P (sort_key item_key (map (\<lambda>kv. (fst kv, json_read (snd kv))) d)) (sort_key fst fs)"
    by (rule list_all2_sort)
  then show ?thesis by (auto simp: smap_Inr_iff elim: list.rel_mono_strong)
qed

lemma json_object_sort: "json_object (sort_key fst fs) = json_object fs"
  by (simp add: json_object_def sort_key_id_if_sorted)

lemma json_list_read:
  assumes "smap f xs = Inr ys" and "\<And>x t. x \<in> set xs \<Longrightarrow> f x = Inr t \<Longrightarrow> f (g x) = Inr t"
  shows "smap f (map g xs) = Inr ys"
  using assms by (auto simp: smap_Inr_iff list_all2_map1 elim: list.rel_mono_strong)

lemma json_dumps_read: "json_dumps nan v = Inr t \<Longrightarrow> json_dumps nan (json_read v) = Inr t"
proof (induction nan v arbitrary: t rule: json_dumps.induct)
  case (6 nan xs)
  then show ?case by (auto simp: sbind_Inr_iff intro!: json_list_read)
next
  case (7 nan xs)
  then show ?case by (auto simp: sbind_Inr_iff intro!: json_list_read)
next
  case (8 nan d)
  from 8(2) obtain fs where fs: "smap (json_item nan) d = Inr fs" and t: "t = json_object fs"
    unfolding json_dumps_dict by auto
  have "smap (json_item nan) (sort_key item_key (map (\<lambda>kv. (fst kv, json_read (snd kv))) d)) = Inr (sort_key fst fs)"
    using fs
  proof (rule json_items_read)
    fix kv u
    assume kv: "kv \<in> set d" and u: "json_dumps nan (snd kv) = Inr u"
    have "fst kv = KStr (fst f) \<and> True" if "json_item nan kv = Inr f" for f using that by (simp add: json_item_Inr)
    moreover obtain f where "json_item nan kv = Inr f" using fs kv by (meson smap_total)
    ultimately have "json_key (fst kv) = Inr (fst f)" by simp
    then show "json_dumps nan (json_read (snd kv)) = Inr u" using 8(1) kv u by blast
  qed
  then show ?case unfolding t json_read.simps json_dumps_dict by (simp add: json_object_sort)
qed simp_all

section \<open>Arguments\<close>

text \<open>No dictionary of the value has a key twice, as in Python.\<close>

fun distinct_keys :: "pyval \<Rightarrow> bool" where
  "distinct_keys (PProxy d) \<longleftrightarrow> dwf d \<and> list_all (\<lambda>kv. distinct_keys (snd kv)) d"
| "distinct_keys (PTuple xs) \<longleftrightarrow> list_all distinct_keys xs"
| "distinct_keys v \<longleftrightarrow> True"

text \<open>The frozen arguments that have a JSON text.\<close>

fun storable :: "pyval \<Rightarrow> bool" where
  "storable (PProxy d) \<longleftrightarrow> dwf d \<and> list_all (\<lambda>kv. (\<exists>k. fst kv = KStr k) \<and> storable (snd kv)) d"
| "storable (PTuple xs) \<longleftrightarrow> list_all storable xs"
| "storable (PList xs) \<longleftrightarrow> False"
| "storable (PDict d) \<longleftrightarrow> False"
| "storable (PSecret a b) \<longleftrightarrow> True"
| "storable PUnavailable \<longleftrightarrow> True"
| "storable v \<longleftrightarrow> jsonable v"

lemma storable_iff: "storable v \<longleftrightarrow> is_frozen v \<and> distinct_keys v \<and> jsonable (thaw_value v)"
proof (induction v rule: storable.induct)
  case (1 d)
  then show ?case by (auto simp: list_all_iff)
next
  case (2 xs)
  then show ?case by (auto simp: list_all_iff)
qed simp_all

lemma storable_thaw: "storable v \<Longrightarrow> jsonable (thaw_value v)"
  by (simp add: storable_iff)

text \<open>What comes back: every secret is unavailable, the keys are sorted.\<close>

fun reloaded :: "pyval \<Rightarrow> pyval" where
  "reloaded (PSecret provider name) = PUnavailable"
| "reloaded (PProxy d) = PProxy (sort_key item_key (map (\<lambda>kv. (fst kv, reloaded (snd kv))) d))"
| "reloaded (PTuple xs) = PTuple (map reloaded xs)"
| "reloaded v = v"

fun secret_set :: "pyval \<Rightarrow> arg_path set" where
  "secret_set (PSecret provider name) = {[]}"
| "secret_set PUnavailable = {[]}"
| "secret_set (PProxy d) = (\<Union>kv \<in> set d. (#) (SegKey (fst kv)) ` secret_set (snd kv))"
| "secret_set (PTuple xs) = (\<Union>ix \<in> set (numbered xs). (#) (SegIndex (fst ix)) ` secret_set (snd ix))"
| "secret_set v = {}"

lemma numbered_all: "list_all P xs \<Longrightarrow> ix \<in> set (numbered xs) \<Longrightarrow> P (snd ix)"
  by (drule numbered_in) (simp add: list_all_iff)

lemma serialize_value: "storable v \<Longrightarrow> fst (serialize_arguments v p) = thaw_value v"
proof (induction v p rule: serialize_arguments.induct)
  case (6 xs p)
  have "map (\<lambda>ix. fst (serialize_arguments (snd ix) (p @ [SegIndex (fst ix)]))) (numbered xs)
      = map (\<lambda>ix. thaw_value (snd ix)) (numbered xs)"
    using 6 by (auto simp: list_all_iff dest: numbered_in)
  also have "\<dots> = map thaw_value xs" using map_map [of thaw_value snd "numbered xs"] by (simp add: comp_def)
  finally show ?case by (simp add: comp_def)
qed (auto simp: list_all_iff comp_def Let_def secret_placeholder_def)

lemma serialize_paths: "storable v \<Longrightarrow> set (snd (serialize_arguments v p)) = (@) p ` secret_set v"
proof (induction v p rule: serialize_arguments.induct)
  case (3 d p)
  then have "set (snd (serialize_arguments (snd kv) (p @ [SegKey (fst kv)])))
      = (@) (p @ [SegKey (fst kv)]) ` secret_set (snd kv)" if "kv \<in> set d" for kv
    using that by (auto simp: list_all_iff)
  then show ?case by (simp add: image_UN image_image)
next
  case (6 xs p)
  then have "set (snd (serialize_arguments (snd ix) (p @ [SegIndex (fst ix)])))
      = (@) (p @ [SegIndex (fst ix)]) ` secret_set (snd ix)" if "ix \<in> set (numbered xs)" for ix
    using 6(1) [OF that] 6(2) that numbered_all [of storable xs ix] by simp
  then show ?case by (simp add: image_UN image_image)
qed simp_all

section \<open>Reading the arguments\<close>

text \<open>The arguments as they are read, before the secrets are restored.\<close>

definition read_back :: "pyval \<Rightarrow> pyval" where
  "read_back v = freeze_argument (json_read (thaw_value v))"

lemma read_back_simps [simp]:
  "read_back (PProxy d) = PProxy (map (\<lambda>kv. (fst kv, freeze_argument (snd kv)))
     (sort_key item_key (map (\<lambda>kv. (fst kv, json_read (thaw_value (snd kv)))) d)))"
  "read_back (PTuple xs) = PTuple (map read_back xs)"
  "read_back (PSecret a b) = PStr secret_placeholder" "read_back PUnavailable = PStr secret_placeholder"
  "read_back PNone = PNone" "read_back (PBool c) = PBool c" "read_back (PInt i) = PInt i"
  "read_back (PFloat x) = PFloat x" "read_back (PStr s) = PStr s"
  by (simp_all add: read_back_def comp_def secret_placeholder_def)

lemma insort_key_map: "insort_key f (g x) (map g xs) = map g (insort_key (\<lambda>x. f (g x)) x xs)"
  by (induction xs) simp_all

lemma sort_key_map: "sort_key f (map g xs) = map g (sort_key (\<lambda>x. f (g x)) xs)"
  by (induction xs) (simp_all add: insort_key_map)

lemma sort_items_map:
  "sort_key item_key (map (\<lambda>kv. (fst kv, f (snd kv))) d) = map (\<lambda>kv. (fst kv, f (snd kv))) (sort_key item_key d)"
  by (simp add: sort_key_map item_key_def [abs_def])

lemma read_back_proxy:
  "read_back (PProxy d) = PProxy (map (\<lambda>kv. (fst kv, read_back (snd kv))) (sort_key item_key d))"
  using sort_items_map [of "\<lambda>v. json_read (thaw_value v)" d]
  by (simp add: comp_def) (simp add: read_back_def)

lemma reloaded_proxy:
  "reloaded (PProxy d) = PProxy (map (\<lambda>kv. (fst kv, reloaded (snd kv))) (sort_key item_key d))"
  by (simp add: sort_items_map)

text \<open>The JSON value of the arguments does not change, so neither does the digest.\<close>

lemma thaw_read_back: "storable v \<Longrightarrow> thaw_value (read_back v) = json_read (thaw_value v)"
proof (induction v rule: thaw_value.induct)
  case (3 d)
  then have "map (\<lambda>kv. (fst kv, thaw_value (read_back (snd kv)))) (sort_key item_key d)
      = map (\<lambda>kv. (fst kv, json_read (thaw_value (snd kv)))) (sort_key item_key d)"
    by (auto simp: list_all_iff)
  then show ?case
    using sort_items_map [of "\<lambda>v. json_read (thaw_value v)" d]
    by (simp add: read_back_proxy comp_def del: read_back_simps)
qed (auto simp: list_all_iff secret_placeholder_def)

lemma storable_cases:
  assumes "storable v"
  obtains "v = PNone" | b where "v = PBool b" | i where "v = PInt i" | x where "v = PFloat x"
    | s where "v = PStr s" | xs where "v = PTuple xs" | d where "v = PProxy d"
    | a b where "v = PSecret a b" | "v = PUnavailable"
  using assms by (cases v) auto

lemma smap_map: "smap f (map g xs) = smap (\<lambda>x. f (g x)) xs"
  by (induction xs) simp_all

lemma restore_items:
  assumes "\<And>kv. kv \<in> set d \<Longrightarrow> restore_at T (g (snd kv)) (p @ [SegKey (fst kv)]) = Inr (f (snd kv))"
    and "p \<notin> set T"
  shows "restore_at T (PProxy (map (\<lambda>kv. (fst kv, g (snd kv))) d)) p
    = Inr (PProxy (map (\<lambda>kv. (fst kv, f (snd kv))) d))"
proof -
  have "smap (\<lambda>kv. sbind (restore_at T (g (snd kv)) (p @ [SegKey (fst kv)])) (\<lambda>x. Inr (fst kv, x))) d
      = Inr (map (\<lambda>kv. (fst kv, f (snd kv))) d)"
    by (rule smap_all_Inr) (simp add: assms(1))
  then show ?thesis by (simp add: restore_at.simps [of T "PProxy _"] assms(2) smap_map)
qed

lemma numbered_map: "numbered (map g xs) = map (\<lambda>ix. (fst ix, g (snd ix))) (numbered xs)"
  by (simp add: numbered_def zip_map2 split_def)

lemma numbered_distinct: "distinct (map fst (numbered xs))"
  by (simp add: numbered_def distinct_map)

lemma restore_elements:
  assumes "\<And>ix. ix \<in> set (numbered xs) \<Longrightarrow> restore_at T (g (snd ix)) (p @ [SegIndex (fst ix)]) = Inr (f (snd ix))"
    and "p \<notin> set T"
  shows "restore_at T (PTuple (map g xs)) p = Inr (PTuple (map f xs))"
proof -
  have "smap (\<lambda>ix. restore_at T (g (snd ix)) (p @ [SegIndex (fst ix)])) (numbered xs)
      = Inr (map (\<lambda>ix. f (snd ix)) (numbered xs))"
    by (rule smap_all_Inr) (simp add: assms(1))
  also have "map (\<lambda>ix. f (snd ix)) (numbered xs) = map f xs"
    using map_map [of f snd "numbered xs"] by (simp add: comp_def)
  finally show ?thesis
    by (simp add: restore_at.simps [of T "PTuple (map g xs)"] assms(2) numbered_map smap_map)
qed

text \<open>The secrets below one entry of a table whose keys are distinct.\<close>

lemma secrets_below:
  assumes "distinct (map fst xs)" and "x \<in> set xs" and "inj c"
  shows "{q. c (fst x) # q \<in> (\<Union>y \<in> set xs. (#) (c (fst y)) ` f (snd y))} = f (snd x)"
proof -
  have "y = x" if "y \<in> set xs" and "c (fst y) = c (fst x)" for y
    using assms that by (metis distinct_map inj_def inj_on_def)
  then show ?thesis using assms(2) by auto
qed

lemma inj_segments: "inj SegKey" "inj SegIndex"
  by (simp_all add: inj_def)

lemma restore_leaf:
  "(\<And>d. v \<noteq> PProxy d) \<Longrightarrow> (\<And>xs. v \<noteq> PTuple xs) \<Longrightarrow>
   restore_at T v p =
     (if p \<in> set T
      then if v = PStr secret_placeholder then Inr PUnavailable
           else Inl (PersistenceError ''persisted secret reference placeholder is invalid'')
      else Inr v)"
  by (subst restore_at.simps) (simp split: pyval.split)

lemma target_here: "{q. p @ q \<in> set T} = S \<Longrightarrow> p \<in> set T \<longleftrightarrow> [] \<in> S"
  by auto

lemma restore_read_back:
  "storable v \<Longrightarrow> {q. p @ q \<in> set T} = secret_set v \<Longrightarrow> restore_at T (read_back v) p = Inr (reloaded v)"
proof (induction v arbitrary: p rule: storable.induct)
  case (1 d)
  have below: "restore_at T (read_back (snd kv)) (p @ [SegKey (fst kv)]) = Inr (reloaded (snd kv))"
    if kv: "kv \<in> set d" for kv
  proof (rule 1(1) [OF kv])
    show "storable (snd kv)" using 1(2) kv by (simp add: list_all_iff)
    have "{q. (p @ [SegKey (fst kv)]) @ q \<in> set T} = {q. SegKey (fst kv) # q \<in> {q. p @ q \<in> set T}}" by simp
    then show "{q. (p @ [SegKey (fst kv)]) @ q \<in> set T} = secret_set (snd kv)"
      unfolding 1(3) secret_set.simps using secrets_below [of d kv SegKey secret_set] 1(2) kv inj_segments by simp
  qed
  have "p \<notin> set T" using target_here [OF 1(3)] by auto
  then show ?case unfolding read_back_proxy reloaded_proxy by (intro restore_items) (simp_all add: below)
next
  case (2 xs)
  have "p \<notin> set T" using target_here [OF 2(3)] by auto
  moreover have "restore_at T (read_back (snd ix)) (p @ [SegIndex (fst ix)]) = Inr (reloaded (snd ix))"
    if ix: "ix \<in> set (numbered xs)" for ix
  proof (rule 2(1) [OF numbered_in [OF ix]])
    show "storable (snd ix)" using 2(2) ix numbered_all [of storable] by simp
    have "{q. (p @ [SegIndex (fst ix)]) @ q \<in> set T} = {q. SegIndex (fst ix) # q \<in> {q. p @ q \<in> set T}}" by simp
    then show "{q. (p @ [SegIndex (fst ix)]) @ q \<in> set T} = secret_set (snd ix)"
      unfolding 2(3) secret_set.simps using secrets_below [of "numbered xs" ix SegIndex secret_set] ix inj_segments numbered_distinct [of xs]
      by simp
  qed
  ultimately show ?case by (simp add: restore_elements)
qed (frule target_here, simp add: restore_leaf)+

section \<open>Steps\<close>

fun json_segment :: "path_segment \<Rightarrow> bool" where
  "json_segment (SegKey (KOther t)) \<longleftrightarrow> False"
| "json_segment seg \<longleftrightarrow> True"

lemma json_segment_facts [simp]:
  "json_segment seg \<Longrightarrow> parse_segment (segment_json seg) = Inr seg"
  "json_segment seg \<Longrightarrow> jsonable (segment_json seg)"
  "json_read (segment_json seg) = segment_json seg"
  by (cases seg rule: segment_json.cases; simp)+

lemma secret_set_segments: "storable v \<Longrightarrow> q \<in> secret_set v \<Longrightarrow> list_all json_segment q"
proof (induction v arbitrary: q rule: storable.induct)
  case (2 xs)
  then obtain ix r where ix: "ix \<in> set (numbered xs)" and q: "q = SegIndex (fst ix) # r" "r \<in> secret_set (snd ix)"
    by auto
  have "storable (snd ix)" using 2(2) ix numbered_all [of storable] by simp
  then show ?case using 2(1) [OF numbered_in [OF ix]] q by simp
qed (fastforce simp: list_all_iff)+

definition stored_paths :: "step_definition \<Rightarrow> arg_path list" where
  "stored_paths s = snd (serialize_arguments (sd_arguments s) [])"

definition storable_step :: "step_definition \<Rightarrow> bool" where
  "storable_step s \<longleftrightarrow> storable (sd_arguments s) \<and> (\<exists>d. sd_arguments s = PProxy d)"

lemma stored_paths_set: "storable_step s \<Longrightarrow> set (stored_paths s) = secret_set (sd_arguments s)"
  by (simp add: stored_paths_def storable_step_def serialize_paths)

lemma stored_paths_ok:
  assumes "storable_step s" and "q \<in> set (stored_paths s)"
  shows "q \<noteq> []" and "list_all json_segment q"
proof -
  obtain d where "sd_arguments s = PProxy d" using assms(1) by (auto simp: storable_step_def)
  then show "q \<noteq> []" using assms(2) unfolding stored_paths_set [OF assms(1)] by auto
  show "list_all json_segment q"
    using assms secret_set_segments unfolding stored_paths_set [OF assms(1)] storable_step_def by blast
qed

definition paths_json :: "arg_path list \<Rightarrow> pyval" where
  "paths_json ps = PList (map (\<lambda>p. PList (map segment_json p)) ps)"

lemma paths_json_read [simp]: "json_read (paths_json ps) = paths_json ps"
  by (simp add: paths_json_def comp_def)

lemma parse_path_json:
  assumes "q \<noteq> []" and "list_all json_segment q"
  shows "parse_path (PList (map segment_json q)) = Inr q"
proof -
  obtain x xs where q: "q = x # xs" using assms(1) by (cases q) auto
  have "smap parse_segment (map segment_json q) = Inr (map id q)"
    unfolding smap_map by (rule smap_all_Inr) (use assms(2) in \<open>simp add: list_all_iff\<close>)
  then show ?thesis unfolding q by simp
qed

lemma parse_paths_json:
  assumes "storable_step s"
  shows "smap parse_path (map (\<lambda>p. PList (map segment_json p)) (stored_paths s)) = Inr (stored_paths s)"
proof -
  have "smap parse_path (map (\<lambda>p. PList (map segment_json p)) (stored_paths s)) = Inr (map id (stored_paths s))"
    unfolding smap_map by (rule smap_all_Inr) (simp add: parse_path_json stored_paths_ok [OF assms])
  then show ?thesis by simp
qed

definition retry_json :: "retry_policy \<Rightarrow> pyval" where
  "retry_json r = PDict [(KStr ''max_attempts'', PInt (rp_max_attempts r)),
     (KStr ''initial_backoff_seconds'', PFloat (rp_initial_backoff_seconds r))]"

definition compensation_json :: "tool_reference option \<Rightarrow> pyval" where
  "compensation_json t = (case t of None \<Rightarrow> PNone | Some t \<Rightarrow> reference_value t)"

definition stored_items :: "step_definition \<Rightarrow> (pykey, pyval) dict" where
  "stored_items s =
     [(KStr ''id'', PStr (sd_id s)), (KStr ''tool'', reference_value (sd_tool s)),
      (KStr ''arguments'', thaw_value (sd_arguments s)),
      (KStr ''depends_on'', PList (map PStr (sd_depends_on s))),
      (KStr ''risk'', PStr (sd_risk s)), (KStr ''retry'', retry_json (sd_retry s)),
      (KStr ''compensation_tool'', compensation_json (sd_compensation_tool s))]
     @ (if stored_paths s = [] then [] else [(KStr secret_paths_key, paths_json (stored_paths s))])"

lemma step_to_mapping_items: "storable_step s \<Longrightarrow> step_to_mapping s = PDict (stored_items s)"
  by (simp add: step_to_mapping_def stored_items_def split_def serialize_value storable_step_def
      stored_paths_def paths_json_def retry_json_def compensation_json_def)

lemma stored_items_dwf [simp]: "dwf (stored_items s)"
  by (simp add: stored_items_def secret_paths_key_def)

definition loaded_items :: "(pykey, pyval) dict \<Rightarrow> (pykey, pyval) dict" where
  "loaded_items d = sort_key item_key (map (\<lambda>kv. (fst kv, json_read (snd kv))) d)"

lemma json_read_dict: "json_read (PDict d) = PDict (loaded_items d)"
  by (simp add: loaded_items_def)

lemma dget_loaded [simp]: "dwf d \<Longrightarrow> dget (loaded_items d) k = map_option json_read (dget d k)"
  by (simp add: loaded_items_def comp_def dget_map_snd)

lemma loaded_secret_paths:
  "storable_step s \<Longrightarrow> parse_secret_paths (loaded_items (stored_items s)) = Inr (stored_paths s)"
  by (simp add: parse_secret_paths_def pget_or_def stored_items_def secret_paths_key_def)
    (simp add: paths_json_def parse_paths_json)

text \<open>A stored step has a JSON text, and it is parsed to the step with the arguments as they are read.\<close>

lemma jsonable_paths:
  assumes "storable_step s"
  shows "jsonable (paths_json (stored_paths s))"
  using stored_paths_ok(2) [OF assms] by (auto simp: paths_json_def list_all_iff)

lemma jsonable_stored: "storable_step s \<Longrightarrow> jsonable (step_to_mapping s)"
  by (auto simp: step_to_mapping_items stored_items_def reference_value_def retry_json_def
      compensation_json_def storable_step_def storable_thaw jsonable_paths split: option.split)

definition read_step :: "step_definition \<Rightarrow> step_definition" where
  "read_step s = s\<lparr>sd_arguments := read_back (sd_arguments s)\<rparr>"

lemma read_step_simps [simp]:
  "sd_id (read_step s) = sd_id s" "sd_depends_on (read_step s) = sd_depends_on s"
  "sd_arguments (read_step s) = read_back (sd_arguments s)"
  by (simp_all add: read_step_def)

lemma parse_reference_read:
  assumes "\<not> is_blank (ref_name t)" and "\<not> is_blank (ref_version t)"
  shows "parse_tool_reference (json_read (reference_value t)) field step = Inr t"
  using assms
  by (simp add: parse_tool_reference_def reference_value_def require_mapping_def require_string_def
      json_read_dict pget_def del: json_read.simps) (simp add: json_read.simps)

lemma parse_retry_read:
  "retry_ok r \<Longrightarrow> parse_retry_policy (json_read (retry_json r)) step = Inr r"
  by (simp add: parse_retry_policy_def retry_json_def json_read_dict require_mapping_def pget_or_def
      require_positive_int_def require_number_def retry_ok_def del: json_read.simps)
    (simp add: make_retry_policy_def map_error_def)

lemma sort_remdups_id: "sorted xs \<Longrightarrow> distinct xs \<Longrightarrow> sort (remdups xs) = xs"
  by (simp add: distinct_remdups_id sorted_sort_id)

lemma parse_strings_read:
  assumes "sorted xs" and "distinct xs" and "\<forall>x \<in> set xs. \<not> is_blank x"
  shows "require_string_sequence (PList (map PStr xs)) field step = Inr xs"
proof -
  have "smap (\<lambda>x. require_string x field step) (map PStr xs) = Inr (map id xs)"
    unfolding smap_map by (rule smap_all_Inr) (use assms(3) in \<open>simp add: require_string_def\<close>)
  then show ?thesis using assms(1,2) by (simp add: require_string_sequence_def sort_remdups_id)
qed

lemma parse_compensation_read:
  assumes "\<forall>t. c = Some t \<longrightarrow> tool_ok reg t"
  shows "parse_optional_tool_reference passthrough (json_read (compensation_json c)) step = Inr c"
proof (cases c)
  case (Some t)
  have "json_read (reference_value t) \<noteq> PNone" by (simp add: reference_value_def)
  then show ?thesis
    using Some assms parse_reference_read [of t]
    by (simp add: parse_optional_tool_reference_def compensation_json_def tool_ok_def ensure_registered_def
        passthrough_def)
qed (simp add: parse_optional_tool_reference_def compensation_json_def)

lemma parse_stored_step:
  assumes "step_ok reg s" and "\<forall>i \<in> set (sd_depends_on s). \<not> is_blank i" and "storable_step s"
  shows "parse_step passthrough (json_read (step_to_mapping s)) = Inr (read_step s)"
proof -
  let ?m = "loaded_items (stored_items s)"
  obtain d where d: "sd_arguments s = PProxy d" using assms(3) by (auto simp: storable_step_def)
  let ?a = "loaded_items (map (\<lambda>kv. (fst kv, thaw_value (snd kv))) d)"
  have m: "pget ?m ''id'' = PStr (sd_id s)" "pget ?m ''tool'' = json_read (reference_value (sd_tool s))"
    "pget_or ?m ''arguments'' (PDict []) = PDict ?a"
    "pget ?m ''depends_on'' = PList (map PStr (sd_depends_on s))"
    "pget_or ?m ''risk'' (PStr DEFAULT_RISK) = PStr (sd_risk s)"
    "pget ?m ''retry'' = json_read (retry_json (sd_retry s))"
    "pget ?m ''compensation_tool'' = json_read (compensation_json (sd_compensation_tool s))"
    by (simp_all add: pget_def pget_or_def) (simp_all add: stored_items_def d json_read_dict loaded_items_def comp_def)
  have r: "read_back (sd_arguments s) = PProxy (map (\<lambda>kv. (fst kv, freeze_argument (snd kv))) ?a)"
    unfolding d read_back_def by (simp add: loaded_items_def comp_def)
  have ok: "\<not> is_blank (sd_id s)" "tool_ok reg (sd_tool s)" "\<not> is_blank (sd_risk s)" "retry_ok (sd_retry s)"
    "sorted (sd_depends_on s)" "distinct (sd_depends_on s)"
    "\<forall>t. sd_compensation_tool s = Some t \<longrightarrow> tool_ok reg t"
    using assms(1) by (simp_all add: step_ok_def)
  have i: "parse_step_id (PDict ?m) = Inr (sd_id s, ?m)"
    using ok(1) by (simp add: parse_step_id_def require_mapping_def require_string_def m)
  have t: "parse_tool_reference (json_read (reference_value (sd_tool s))) ''tool'' (Some (sd_id s)) = Inr (sd_tool s)"
    using ok(2) by (simp add: parse_reference_read tool_ok_def)
  have x: "map_error (\<lambda>e. DefinitionValidationError (''invalid arguments: '' @ error_text e)
                             (Some (sd_id s)) (Some ''arguments''))
      (coerce_step_arguments passthrough (sd_tool s) ?a) = Inr ?a"
    by (simp add: coerce_step_arguments_def passthrough_def)
  have g: "ensure_registered passthrough (sd_tool s) (sd_id s) ''tool'' = Inr ()"
    by (simp add: ensure_registered_def passthrough_def)
  have k: "require_string (PStr (sd_risk s)) ''risk'' (Some (sd_id s)) = Inr (sd_risk s)"
    using ok(3) by (simp add: require_string_def)
  have "parse_step_body passthrough (sd_id s) ?m = Inr (read_step s)"
    unfolding parse_step_body_def t sbind_simps g m require_mapping_def as_mapping.simps or_raise_simps x
      parse_strings_read [OF ok(5,6) assms(2)] k parse_retry_read [OF ok(4)]
      parse_compensation_read [OF ok(7)]
    by (simp add: read_step_def r)
  then show ?thesis
    unfolding step_to_mapping_items [OF assms(3)] json_read_dict by (simp add: parse_step_def i)
qed

section \<open>Definitions\<close>

definition reload_step :: "step_definition \<Rightarrow> step_definition" where
  "reload_step s = s\<lparr>sd_arguments := reloaded (sd_arguments s)\<rparr>"

definition reload_definition :: "workflow_definition \<Rightarrow> workflow_definition" where
  "reload_definition w = w\<lparr>wd_steps := map reload_step (wd_steps w)\<rparr>"

text \<open>The text of the canonical value does not change when a part is replaced by what is read from it.\<close>

lemma json_dumps_value_cong:
  assumes "\<And>kv. kv \<in> set d \<Longrightarrow> json_dumps nan (f kv) = json_dumps nan (snd kv)"
  shows "json_dumps nan (PDict (map (\<lambda>kv. (fst kv, f kv)) d)) = json_dumps nan (PDict d)"
proof -
  have "smap (json_item nan) (map (\<lambda>kv. (fst kv, f kv)) d) = smap (json_item nan) d"
    unfolding smap_map by (rule smap_cong) (simp_all add: json_item_def assms)
  then show ?thesis by (simp add: json_dumps_dict del: json_dumps.simps)
qed

lemma jsonable_dumps_read: "jsonable v \<Longrightarrow> json_dumps True (json_read v) = json_dumps True v"
  by (auto simp: jsonable_def json_dumps_read)

lemma canonical_read:
  assumes "storable_step s"
  shows "json_dumps True (step_to_canonical (read_step s)) = json_dumps True (step_to_canonical s)"
proof -
  let ?f = "\<lambda>kv. if fst kv = KStr ''arguments'' then json_read (snd kv) else snd kv"
  have a: "storable (sd_arguments s)" using assms by (simp add: storable_step_def)
  obtain d where d: "step_to_canonical s = PDict d"
    and r: "step_to_canonical (read_step s) = PDict (map (\<lambda>kv. (fst kv, ?f kv)) d)"
    and v: "(KStr ''arguments'', u) \<in> set d \<Longrightarrow> u = thaw_value (sd_arguments s)" for u
    by (simp add: step_to_canonical_def read_step_def thaw_read_back [OF a])
  show ?thesis unfolding d r
  proof (rule json_dumps_value_cong)
    fix kv
    assume kv: "kv \<in> set d"
    show "json_dumps True (?f kv) = json_dumps True (snd kv)"
    proof (cases "fst kv = KStr ''arguments''")
      case True
      then have "snd kv = thaw_value (sd_arguments s)" using kv by (intro v) (metis prod.collapse)
      then show ?thesis using True jsonable_dumps_read [OF storable_thaw [OF a]] by simp
    qed simp
  qed
qed

lemma digest_read:
  assumes "\<forall>s \<in> set steps. storable_step s"
  shows "calculate_digest i v (map read_step steps) = calculate_digest i v steps"
proof -
  have "smap (json_dumps True) (map step_to_canonical (map read_step steps))
      = smap (json_dumps True) (map step_to_canonical steps)"
    unfolding smap_map by (rule smap_cong) (simp_all add: canonical_read assms)
  then have "json_dumps True (PList (map step_to_canonical (map read_step steps)))
      = json_dumps True (PList (map step_to_canonical steps))"
    by simp
  then show ?thesis
    unfolding calculate_digest_def json_digest_def json_dumps_dict by (simp add: json_item_def del: json_dumps.simps(6))
qed

text \<open>The table of the paths, and the restored steps.\<close>

lemma paths_table:
  assumes "\<forall>s \<in> set steps. storable_step s"
  shows "sfold (\<lambda>raw table.
       case raw of
         PDict m \<Rightarrow> sbind (parse_secret_paths m) (\<lambda>paths. Inr (dset (pget m ''id'') paths table))
       | _ \<Rightarrow> Inr table) (map (\<lambda>s. json_read (step_to_mapping s)) steps) table
    = Inr (fold (\<lambda>s. dset (PStr (sd_id s)) (stored_paths s)) steps table)"
  using assms
proof (induction steps arbitrary: table)
  case (Cons s steps)
  have "json_read (step_to_mapping s) = PDict (loaded_items (stored_items s))"
    using Cons.prems by (simp only: step_to_mapping_items json_read_dict list.set ball_simps insert_iff)
  moreover have "pget (loaded_items (stored_items s)) ''id'' = PStr (sd_id s)"
    by (simp add: pget_def) (simp add: stored_items_def)
  ultimately show ?case using Cons by (simp add: loaded_secret_paths)
qed simp

lemma dget_paths_table:
  "distinct (map sd_id steps) \<Longrightarrow> s \<in> set steps \<Longrightarrow>
   dget (fold (\<lambda>s. dset (PStr (sd_id s)) (stored_paths s)) steps table) (PStr (sd_id s)) = Some (stored_paths s)"
proof (induction steps arbitrary: table)
  case (Cons u steps)
  have absent: "dget (fold (\<lambda>s. dset (PStr (sd_id s)) (stored_paths s)) xs t) (PStr i) = dget t (PStr i)"
    if "i \<notin> sd_id ` set xs" for xs t i
    using that by (induction xs arbitrary: t) auto
  show ?case
  proof (cases "s = u")
    case True
    then show ?thesis using Cons.prems absent [of "sd_id u" steps] by auto
  qed (use Cons in auto)
qed simp

lemma definition_storable:
  assumes "definition_ok reg w" and "\<forall>s \<in> set (wd_steps w). distinct_keys (sd_arguments s)" and s: "s \<in> set (wd_steps w)"
  shows "storable_step s"
proof -
  obtain t where t: "json_dumps True (PDict [(KStr ''definition_id'', PStr (wd_definition_id w)),
      (KStr ''version'', PInt (wd_version w)), (KStr ''steps'', PList (map step_to_canonical (wd_steps w)))]) = Inr t"
    using assms(1) unfolding definition_ok_def calculate_digest_def json_digest_def by blast
  then have "jsonable (PDict [(KStr ''definition_id'', PStr (wd_definition_id w)),
      (KStr ''version'', PInt (wd_version w)), (KStr ''steps'', PList (map step_to_canonical (wd_steps w)))])"
    by (simp only: jsonable_def) blast
  then have "jsonable (step_to_canonical s)" using s by simp
  then have "jsonable (thaw_value (sd_arguments s))" by (simp add: step_to_canonical_def)
  then show ?thesis
    using assms by (auto simp: storable_step_def storable_iff definition_ok_def step_ok_def)
qed

lemma restore_step_reload:
  assumes "storable_step s" and "dget table (PStr (sd_id s)) = Some (stored_paths s)"
  shows "restore_step table (read_step s) = Inr (reload_step s)"
proof -
  obtain d where d: "sd_arguments s = PProxy d" and a: "storable (sd_arguments s)"
    using assms(1) by (auto simp: storable_step_def)
  have "restore_at (stored_paths s) (read_back (sd_arguments s)) [] = Inr (reloaded (sd_arguments s))"
    using a by (rule restore_read_back) (simp add: stored_paths_set [OF assms(1)])
  moreover have "\<exists>d'. reloaded (sd_arguments s) = PProxy d'" by (simp add: d)
  ultimately show ?thesis
    using assms(2) by (auto simp: restore_step_def restore_secrets_def read_step_def reload_step_def)
qed

lemma stored_definition_aux:
  assumes ok: "definition_ok reg w" and keys: "\<forall>s \<in> set (wd_steps w). distinct_keys (sd_arguments s)"
  shows "json_column (definition_to_mapping w) = Inr (json_read (definition_to_mapping w))"
    and "definition_from_mapping (json_read (definition_to_mapping w)) = Inr (reload_definition w)"
proof -
  let ?steps = "wd_steps w" and ?raws = "map (\<lambda>s. json_read (step_to_mapping s)) (wd_steps w)"
  have st: "\<forall>s \<in> set ?steps. storable_step s" using definition_storable [OF ok keys] by blast
  have "jsonable (definition_to_mapping w)"
    using st by (auto simp: definition_to_mapping_def jsonable_stored)
  then show "json_column (definition_to_mapping w) = Inr (json_read (definition_to_mapping w))"
    by (auto simp: json_column_def jsonable_def)
  obtain m where m: "json_read (definition_to_mapping w) = PDict m" "pget m ''steps'' = PList ?raws"
    "pget m ''definition_id'' = PStr (wd_definition_id w)" "pget m ''version'' = PInt (wd_version w)"
    by (simp add: definition_to_mapping_def json_read_dict pget_def comp_def del: json_read.simps(3))
  have o: "sorted (map sd_id ?steps)" "distinct (map sd_id ?steps)" "length ?steps \<le> MAX_STEPS"
    "edge_count ?steps \<le> MAX_EDGES" "acyclic (step_graph ?steps)" "\<not> is_blank (wd_definition_id w)"
    "0 < wd_version w" "calculate_digest (wd_definition_id w) (wd_version w) ?steps = Inr (wd_digest w)"
    and e: "\<forall>s \<in> set ?steps. step_ok (catalog_of reg) s \<and> set (sd_depends_on s) \<subseteq> sd_id ` set ?steps"
    using ok by (simp_all add: definition_ok_def)
  have "\<forall>s \<in> set ?steps. \<forall>i \<in> set (sd_depends_on s). \<not> is_blank i" using e by (auto simp: step_ok_def)
  then have parsed: "smap (parse_step passthrough) ?raws = Inr (map read_step ?steps)"
    unfolding smap_map by (intro smap_all_Inr parse_stored_step) (use e st in auto)
  have ids: "map sd_id (map read_step ?steps) = map sd_id ?steps" by simp
  have "edge_count (map read_step ?steps) = edge_count ?steps" by (simp add: edge_count_def comp_def)
  moreover have "step_graph (map read_step ?steps) = step_graph ?steps" by (simp add: step_graph_Union)
  ultimately have g: "check_graph (map read_step ?steps) = Inr ()"
    using o e by (subst check_graph_Inr) (auto simp: comp_def image_image)
  have "sort_key sd_id (map read_step ?steps) = map read_step ?steps"
    using o(1) by (intro sort_key_id_if_sorted) (simp add: comp_def)
  then have read: "read_definition (PDict m) passthrough = Inr (w\<lparr>wd_steps := map read_step ?steps\<rparr>)"
    unfolding read_definition_Inr using m parsed g o digest_read [OF st] by (auto simp: comp_def)
  obtain table where t: "paths_by_step ?raws = Inr table"
    and look: "\<And>s. s \<in> set ?steps \<Longrightarrow> dget table (PStr (sd_id s)) = Some (stored_paths s)"
    using paths_table [OF st, of "[]"] dget_paths_table [OF o(2)] unfolding paths_by_step_def by blast
  have "smap (restore_step table) (map read_step ?steps) = Inr (map reload_step ?steps)"
    unfolding smap_map by (rule smap_all_Inr) (simp add: restore_step_reload st look)
  then show "definition_from_mapping (json_read (definition_to_mapping w)) = Inr (reload_definition w)"
    by (simp add: definition_from_mapping_def m read t require_mapping_def reload_definition_def)
qed

text \<open>
  A definition that \<open>from_mapping\<close> accepts is stored in SQLite and read back as the same
  definition with the same digest, except that every secret in its arguments has become
  unavailable and the keys of every argument object are sorted.
\<close>

theorem stored_definition_reads_back:
  assumes "from_mapping payload reg = Inr w"
    and "\<forall>s \<in> set (wd_steps w). distinct_keys (sd_arguments s)"
  shows "\<exists>column. json_column (definition_to_mapping w) = Inr column
      \<and> definition_from_mapping column = Inr (reload_definition w)"
  using stored_definition_aux [OF from_mapping_ok_aux [OF assms(1)] assms(2)] by blast

theorem stored_definition_reads_back_witness:
  "\<exists>w column. from_mapping (sample_payload [sample_raw_step ''b'' [''a''], sample_raw_step ''a'' []])
         sample_registry = Inr w
     \<and> json_column (definition_to_mapping w) = Inr column
     \<and> definition_from_mapping column = Inr (reload_definition w)"
proof -
  obtain d where w: "from_mapping (sample_payload [sample_raw_step ''b'' [''a''], sample_raw_step ''a'' []])
      sample_registry = Inr \<lparr>wd_definition_id = ''d'', wd_version = 1,
           wd_steps = [sample_step ''a'' [], sample_step ''b'' [''a'']], wd_digest = d\<rparr>"
    by (rule sample_from_mapping [OF disjI1 [OF refl]])
  have k: "\<forall>s \<in> set (wd_steps \<lparr>wd_definition_id = ''d'', wd_version = 1,
           wd_steps = [sample_step ''a'' [], sample_step ''b'' [''a'']], wd_digest = d\<rparr>).
      distinct_keys (sd_arguments s)"
    by (simp add: sample_step_def)
  from stored_definition_reads_back [OF w k] w show ?thesis by blast
qed

end
