(* ===== verification/Sqlite_Rows.thy ===== *)
theory Sqlite_Rows
  imports Sqlite_Roundtrip Persistence
begin

text \<open>
  The tables of \<open>workflow/adapters/persistence/schema.py\<close>, the values that \<open>sqlite.py\<close> writes
  into their columns, and how it loads the tables into the snapshot of a unit of work. A column
  with a JSON text holds what \<open>json.loads\<close> reads from it: the payload of an attempt, an event or
  a request is the record that its class makes from the text.
\<close>

section \<open>Values in columns\<close>

text \<open>\<open>_freeze_value\<close>. A secret is a Pydantic model here, which stays and has no JSON text.\<close>

fun freeze_stored :: "pyval \<Rightarrow> pyval" where
  "freeze_stored (PProxy d) = PDict (map (\<lambda>kv. (fst kv, freeze_stored (snd kv))) d)"
| "freeze_stored (PDict d) = PDict (map (\<lambda>kv. (fst kv, freeze_stored (snd kv))) d)"
| "freeze_stored (PList xs) = PList (map freeze_stored xs)"
| "freeze_stored (PTuple xs) = PList (map freeze_stored xs)"
| "freeze_stored PUnavailable = PDict []"
| "freeze_stored v = v"

definition payload_value :: "pyval \<Rightarrow> error + pyval" where
  "payload_value v = json_column (freeze_stored v)"

definition stored_attempt :: "step_attempt \<Rightarrow> error + step_attempt" where
  "stored_attempt a = sbind (payload_value (sa_result a)) (\<lambda>v. Inr (a\<lparr>sa_result := v\<rparr>))"

definition stored_event :: "audit_event \<Rightarrow> error + audit_event" where
  "stored_event e = sbind (payload_value (ev_summary e)) (\<lambda>v. Inr (e\<lparr>ev_summary := v\<rparr>))"

definition stored_request :: "approval_request \<Rightarrow> error + approval_request" where
  "stored_request r =
     sbind (payload_value (ar_redacted_arguments r)) (\<lambda>v. Inr (r\<lparr>ar_redacted_arguments := v\<rparr>))"

text \<open>The error columns of a run: a JSON object of strings, with sorted keys.\<close>

definition stored_error :: "(string, string) dict option \<Rightarrow> (string, string) dict option" where
  "stored_error e = map_option (sort_key fst) e"

section \<open>Tables\<close>

record definition_row =
  dr_digest :: string
  dr_json :: pyval

record run_row =
  rr_definition_id :: string
  rr_definition_version :: int
  rr_definition_digest :: string
  rr_state :: string
  rr_revision :: int
  rr_last_event_sequence :: int
  rr_original_error :: "(string, string) dict option"
  rr_compensation_error :: "(string, string) dict option"

record step_row =
  tr_state :: string
  tr_revision :: int
  tr_completion_sequence :: "int option"
  tr_logical_idempotency_key :: "string option"

text \<open>
  The payload of an approval: the fields of an \<open>ApprovalRequest\<close>, or those of another class, with
  its module and name.
\<close>

datatype approval_payload = RequestJson approval_request | OtherJson string string pyval

record approval_row =
  pr_version :: int
  pr_binding_digest :: "string option"
  pr_status :: string
  pr_decision :: pyval
  pr_payload :: approval_payload

record event_row =
  vr_step_id :: "string option"
  vr_event_type :: string
  vr_occurred_at :: int
  vr_previous_state :: string
  vr_new_state :: string
  vr_previous_revision :: int
  vr_revision :: int
  vr_payload :: audit_event

text \<open>The tables, by primary key.\<close>

record sql_db =
  db_definitions :: "(definition_key, definition_row) dict"
  db_runs :: "(string, run_row) dict"
  db_steps :: "(step_key, step_row) dict"
  db_attempts :: "(attempt_key, step_attempt) dict"
  db_approvals :: "(approval_key, approval_row) dict"
  db_events :: "(string \<times> int, event_row) dict"

definition empty_db :: sql_db where
  "empty_db = \<lparr>db_definitions = [], db_runs = [], db_steps = [], db_attempts = [],
     db_approvals = [], db_events = []\<rparr>"

section \<open>Loading\<close>

definition all_run_states :: "run_state list" where
  "all_run_states = [RunPending, RunRunning, RunWaitingApproval, RunSucceeded, RunFailed,
     RunCompensating, RunCompensated, RunCancelled, RunManualIntervention]"

definition all_step_states :: "step_state list" where
  "all_step_states = [StepPending, StepReady, StepRunning, StepRetryWait, StepSucceeded,
     StepFailed, StepResultUnknown, StepManualIntervention]"

definition parse_run_state :: "string \<Rightarrow> error + run_state" where
  "parse_run_state s =
     or_raise (List.find (\<lambda>x. run_state_value x = s) all_run_states)
       (ValueError (py_repr s @ '' is not a valid RunState''))"

definition parse_step_state :: "string \<Rightarrow> error + step_state" where
  "parse_step_state s =
     or_raise (List.find (\<lambda>x. step_state_value x = s) all_step_states)
       (ValueError (py_repr s @ '' is not a valid StepState''))"

text \<open>The rows of one table, each read under its own key.\<close>

definition load_rows :: "('k \<Rightarrow> 'r \<Rightarrow> error + 'v) \<Rightarrow> ('k, 'r) dict \<Rightarrow> error + ('k, 'v) dict" where
  "load_rows f table = smap (\<lambda>(k, r). sbind (f k r) (\<lambda>v. Inr (k, v))) table"

definition load_definition :: "definition_key \<Rightarrow> definition_row \<Rightarrow> error + workflow_definition" where
  "load_definition k r = definition_from_mapping (dr_json r)"

definition load_run :: "string \<Rightarrow> run_row \<Rightarrow> error + workflow_run" where
  "load_run k r =
     sbind (parse_run_state (rr_state r)) (\<lambda>state.
     Inr \<lparr>wr_run_id = k, wr_definition_id = rr_definition_id r,
          wr_definition_version = rr_definition_version r,
          wr_definition_digest = rr_definition_digest r, wr_state = state,
          wr_revision = rr_revision r, wr_original_error = rr_original_error r,
          wr_compensation_error = rr_compensation_error r\<rparr>)"

definition load_step :: "step_key \<Rightarrow> step_row \<Rightarrow> error + step_run" where
  "load_step k r =
     sbind (parse_step_state (tr_state r)) (\<lambda>state.
     Inr \<lparr>sr_run_id = fst k, sr_step_id = snd k, sr_state = state, sr_revision = tr_revision r,
          sr_completion_sequence = tr_completion_sequence r,
          sr_logical_idempotency_key = tr_logical_idempotency_key r\<rparr>)"

definition load_attempt :: "attempt_key \<Rightarrow> step_attempt \<Rightarrow> error + step_attempt" where
  "load_attempt k r = Inr r"

definition decision_json :: "approval_decision option \<Rightarrow> pyval" where
  "decision_json d = (case d of None \<Rightarrow> PNone | Some x \<Rightarrow> PStr (decision_value x))"

definition legacy_disagrees :: error where
  "legacy_disagrees = PersistenceError ''legacy approval identity disagrees with payload_json''"

definition columns_disagree :: error where
  "columns_disagree = PersistenceError ''structured approval columns disagree with payload_json''"

definition load_legacy :: "approval_key \<Rightarrow> approval_row \<Rightarrow> error + approval_record" where
  "load_legacy k r =
     (case pr_payload r of
        RequestJson _ \<Rightarrow> Inl legacy_disagrees
      | OtherJson record_module qualname (PDict d) \<Rightarrow>
          (case dget d (KStr ''payload'') of
             None \<Rightarrow> Inl legacy_disagrees
           | Some payload \<Rightarrow>
               if pget d ''run_id'' = PStr (fst k) \<and> pget d ''approval_key'' = PStr (snd k)
               then Inr (Legacy \<lparr>la_run_id = fst k, la_approval_key = snd k, la_payload = payload,
                      la_record_module = record_module, la_record_qualname = qualname,
                      la_decision = pr_decision r, la_version = 0, la_status = ''legacy''\<rparr>)
               else Inl legacy_disagrees)
      | OtherJson _ _ _ \<Rightarrow>
          Inl (PersistenceError ''legacy approval payload_json must contain an object''))"

text \<open>
  A row that is not of a legacy approval holds a request: only legacy rows have other classes, and
  another class would not agree with the columns.
\<close>

definition load_approval :: "approval_key \<Rightarrow> approval_row \<Rightarrow> error + approval_record" where
  "load_approval k r =
     (if pr_status r = ''legacy'' then load_legacy k r
      else case pr_payload r of
        OtherJson _ _ _ \<Rightarrow> Inl columns_disagree
      | RequestJson payload \<Rightarrow>
          sbind (make_request payload) (\<lambda>a.
          sbind (guard (ar_run_id a = fst k \<and> ar_id a = snd k \<and> ar_version a = pr_version r
                        \<and> Some (ar_binding_digest a) = pr_binding_digest r
                        \<and> approval_status_value (ar_status a) = pr_status r
                        \<and> decision_json (ar_decision a) = pr_decision r) columns_disagree) (\<lambda>_.
          Inr (Request a))))"

text \<open>\<open>_load_event_rows\<close>: the events by run, in the order of their numbers, and the counters.\<close>

definition load_events :: "sql_db \<Rightarrow> (string, event_log) dict" where
  "load_events db =
     foldl (\<lambda>t ((run_id, n), r). dset run_id (dget_list t run_id @ [(n, vr_payload r)]) t) []
       (sort_key fst (db_events db))"

definition load_sequences :: "sql_db \<Rightarrow> (string, int) dict" where
  "load_sequences db = map (\<lambda>(k, r). (k, rr_last_event_sequence r)) (db_runs db)"

text \<open>\<open>_Snapshot.from_connection\<close>: the tables as a memory store would have them.\<close>

definition sql_load :: "sql_db \<Rightarrow> error + memory_store" where
  "sql_load db =
     sbind (load_rows load_definition (db_definitions db)) (\<lambda>definitions.
     sbind (load_rows load_run (db_runs db)) (\<lambda>runs.
     sbind (load_rows load_step (db_steps db)) (\<lambda>steps.
     sbind (load_rows load_attempt (db_attempts db)) (\<lambda>attempts.
     sbind (load_rows load_approval (db_approvals db)) (\<lambda>approvals.
     Inr \<lparr>ms_definitions = definitions, ms_runs = runs, ms_steps = steps, ms_attempts = attempts,
          ms_approvals = approvals, ms_events = load_events db,
          ms_event_sequences = load_sequences db\<rparr>)))))"

end
