(* ===== verification/Sqlite_Commit.thy ===== *)
theory Sqlite_Commit
  imports Sqlite_Rows
begin

text \<open>
  The unit of work of \<open>workflow/adapters/persistence/sqlite.py\<close>: its repositories, and the commit
  that writes the staged records into the tables in one transaction, statement by statement, with
  the constraints of \<open>schema.py\<close>. SQLite and SQLAlchemy are not modelled beyond what these
  statements do: a statement is a function on the tables that fails when a constraint does not
  hold, and a transaction that does not commit leaves the tables as they were.
\<close>

section \<open>The unit of work\<close>

text \<open>
  The snapshot is that of the memory adapter with three more sets of keys; \<open>sq_in_transaction\<close>
  is \<open>connection.in_transaction()\<close>.
\<close>

record sql_uow =
  sq_base :: uow
  sq_saved_run_keys :: "string list"
  sq_saved_step_keys :: "step_key list"
  sq_saved_approval_keys :: "approval_key list"
  sq_in_transaction :: bool

type_synonym 'a sql_act = "(sql_uow, error, 'a) act"

definition sql_begin :: "sql_db \<Rightarrow> error + sql_uow" where
  "sql_begin db =
     sbind (sql_load db) (\<lambda>st.
     Inr \<lparr>sq_base = begin_uow st, sq_saved_run_keys = [], sq_saved_step_keys = [],
          sq_saved_approval_keys = [], sq_in_transaction = False\<rparr>)"

text \<open>What the repositories do as in memory.\<close>

definition on_base :: "'a uow_act \<Rightarrow> 'a sql_act" where
  "on_base m u = (case m (sq_base u) of (r, b) \<Rightarrow> (r, u\<lparr>sq_base := b\<rparr>))"

definition sql_definitions_add :: "workflow_definition \<Rightarrow> unit sql_act" where
  "sql_definitions_add d = on_base (definitions_add d)"

definition sql_definitions_get :: "string \<Rightarrow> int \<Rightarrow> workflow_definition option sql_act" where
  "sql_definitions_get i v = on_base (definitions_get i v)"

definition sql_runs_add :: "workflow_run \<Rightarrow> unit sql_act" where
  "sql_runs_add run = on_base (runs_add run)"

definition sql_runs_get :: "string \<Rightarrow> workflow_run option sql_act" where
  "sql_runs_get i = on_base (runs_get i)"

definition sql_runs_list :: "workflow_run list sql_act" where
  "sql_runs_list = on_base runs_list"

definition sql_steps_add :: "step_run \<Rightarrow> unit sql_act" where
  "sql_steps_add step = on_base (steps_add step)"

definition sql_steps_get :: "string \<Rightarrow> string \<Rightarrow> step_run option sql_act" where
  "sql_steps_get r s = on_base (steps_get r s)"

definition sql_attempts_add :: "step_attempt \<Rightarrow> unit sql_act" where
  "sql_attempts_add a = on_base (attempts_add a)"

definition sql_attempts_save :: "step_attempt \<Rightarrow> unit sql_act" where
  "sql_attempts_save a = on_base (attempts_save a)"

definition sql_attempts_list :: "string \<Rightarrow> string option \<Rightarrow> step_attempt list sql_act" where
  "sql_attempts_list r s = on_base (attempts_list r s)"

definition sql_approvals_add :: "approval_record \<Rightarrow> unit sql_act" where
  "sql_approvals_add a = on_base (approvals_add a)"

definition sql_approvals_list :: "string \<Rightarrow> approval_record list sql_act" where
  "sql_approvals_list r = on_base (approvals_list r)"

definition sql_approvals_get :: "string \<Rightarrow> string \<Rightarrow> approval_record option sql_act" where
  "sql_approvals_get r k = on_base (approvals_get r k)"

definition sql_approvals_pending :: "string \<Rightarrow> approval_record option sql_act" where
  "sql_approvals_pending r = on_base (approvals_pending r)"

definition sql_events_append :: "audit_event \<Rightarrow> (int \<times> audit_event) sql_act" where
  "sql_events_append e = on_base (events_append e)"

definition sql_events_list :: "string \<Rightarrow> int \<Rightarrow> event_log sql_act" where
  "sql_events_list r n = on_base (events_list r n)"

text \<open>The saves, each only once for a record: the rest of a save is as in memory.\<close>

definition save_once :: "string \<Rightarrow> string \<Rightarrow> 'k \<Rightarrow> 'k list \<Rightarrow> error + unit" where
  "save_once record_type label k saved =
     guard (k \<notin> set saved)
       (PersistenceError (''multiple '' @ record_type
          @ '' saves in a single unit of work are not supported: '' @ label))"

definition sql_runs_save :: "workflow_run \<Rightarrow> int \<Rightarrow> unit sql_act" where
  "sql_runs_save run expected =
     bnd (on_base ensure_writable) (\<lambda>_.
     bnd (lift_res (guard (wr_revision run = expected + 1)
            (InvalidRevisionError ''run'' (wr_run_id run) (expected + 1) (wr_revision run)))) (\<lambda>_.
     bnd (get_act sq_saved_run_keys) (\<lambda>saved.
     bnd (lift_res (save_once ''run'' (wr_run_id run) (wr_run_id run) saved)) (\<lambda>_.
     bnd (on_base (runs_save run expected)) (\<lambda>_.
     modify_act (\<lambda>u. u\<lparr>sq_saved_run_keys := add_key (wr_run_id run) (sq_saved_run_keys u)\<rparr>))))))"

definition sql_steps_save :: "step_run \<Rightarrow> int \<Rightarrow> unit sql_act" where
  "sql_steps_save step expected =
     bnd (on_base ensure_writable) (\<lambda>_.
     bnd (lift_res (guard (sr_revision step = expected + 1)
            (InvalidRevisionError ''step'' (pair_text (step_key_of step)) (expected + 1)
               (sr_revision step)))) (\<lambda>_.
     bnd (get_act sq_saved_step_keys) (\<lambda>saved.
     bnd (lift_res (save_once ''step'' (pair_text (step_key_of step)) (step_key_of step) saved)) (\<lambda>_.
     bnd (on_base (steps_save step expected)) (\<lambda>_.
     modify_act (\<lambda>u. u\<lparr>sq_saved_step_keys := add_key (step_key_of step) (sq_saved_step_keys u)\<rparr>))))))"

definition sql_approvals_save :: "approval_record \<Rightarrow> int \<Rightarrow> unit sql_act" where
  "sql_approvals_save a expected =
     bnd (on_base ensure_writable) (\<lambda>_.
     bnd (lift_res (guard (apr_version a = expected + 1)
            (InvalidRevisionError ''approval'' (apr_key a) (expected + 1) (apr_version a)))) (\<lambda>_.
     bnd (get_act (\<lambda>u. dget (sn_approvals (sq_base u)) (approval_key_of a))) (\<lambda>old.
     bnd (lift_res (guard (old \<noteq> None)
            (PersistenceError (''cannot save missing approval: '' @ apr_key a)))) (\<lambda>_.
     bnd (get_act sq_saved_approval_keys) (\<lambda>saved.
     bnd (lift_res (save_once ''approval'' (apr_key a) (approval_key_of a) saved)) (\<lambda>_.
     bnd (on_base (approvals_save a expected)) (\<lambda>_.
     modify_act (\<lambda>u. u\<lparr>sq_saved_approval_keys :=
       add_key (approval_key_of a) (sq_saved_approval_keys u)\<rparr>))))))))"

text \<open>\<open>rollback\<close> and \<open>__exit__\<close>.\<close>

definition sql_rollback :: "unit sql_act" where
  "sql_rollback u =
     (if uw_rolled_back (sq_base u) then (Inr (), u)
      else if uw_committed (sq_base u)
      then (Inl (UnitOfWorkStateError ''cannot rollback a committed unit of work''), u)
      else (Inr (), u\<lparr>sq_in_transaction := False, sq_base := (sq_base u)\<lparr>uw_rolled_back := True\<rparr>\<rparr>))"

definition sql_exit :: "unit sql_act" where
  "sql_exit u = (if uw_committed (sq_base u) then (Inr (), u) else sql_rollback u)"

section \<open>Statements\<close>

text \<open>
  How a statement fails: a constraint of the schema, another error of the database, or an
  exception that is not of SQLAlchemy.
\<close>

datatype failure = IntegrityFailed string | DatabaseFailed string | Raised error

text \<open>The driver takes integers of 64 bits.\<close>

definition bind_ints :: "int list \<Rightarrow> failure + unit" where
  "bind_ints ns = guard (\<forall>n \<in> set ns. - (2 ^ 63) \<le> n \<and> n < 2 ^ 63) (Raised OverflowError)"

abbreviation raising :: "error + 'a \<Rightarrow> failure + 'a" where
  "raising \<equiv> map_error Raised"

definition foreign_key_failed :: failure where
  "foreign_key_failed = IntegrityFailed ''FOREIGN KEY constraint failed''"

definition unique_failed :: "string \<Rightarrow> failure" where
  "unique_failed columns = IntegrityFailed (''UNIQUE constraint failed: '' @ columns)"

definition table_insert ::
  "string \<Rightarrow> 'k \<Rightarrow> 'r \<Rightarrow> ('k, 'r) dict \<Rightarrow> failure + ('k, 'r) dict" where
  "table_insert columns k r table =
     (if dget table k = None then Inr (dset k r table) else Inl (unique_failed columns))"

subsection \<open>Definitions, runs and steps\<close>

definition insert_definition :: "workflow_definition \<Rightarrow> sql_db \<Rightarrow> failure + sql_db" where
  "insert_definition w db =
     sbind (raising (json_column (definition_to_mapping w))) (\<lambda>json.
     sbind (bind_ints [wd_version w]) (\<lambda>_.
     sbind (table_insert ''workflow_definitions.definition_id, workflow_definitions.version''
              (definition_key_of w) \<lparr>dr_digest = wd_digest w, dr_json = json\<rparr> (db_definitions db)) (\<lambda>t.
     Inr (db\<lparr>db_definitions := t\<rparr>))))"

definition run_values :: "workflow_run \<Rightarrow> int \<Rightarrow> run_row" where
  "run_values run n =
     \<lparr>rr_definition_id = wr_definition_id run, rr_definition_version = wr_definition_version run,
      rr_definition_digest = wr_definition_digest run, rr_state = run_state_value (wr_state run),
      rr_revision = wr_revision run, rr_last_event_sequence = n,
      rr_original_error = stored_error (wr_original_error run),
      rr_compensation_error = stored_error (wr_compensation_error run)\<rparr>"

definition insert_run :: "(string, int) dict \<Rightarrow> workflow_run \<Rightarrow> sql_db \<Rightarrow> failure + sql_db" where
  "insert_run sequences run db =
     (let n = sequence_of sequences (wr_run_id run) in
      sbind (bind_ints [wr_definition_version run, wr_revision run, n]) (\<lambda>_.
      sbind (table_insert ''workflow_runs.run_id'' (wr_run_id run) (run_values run n) (db_runs db)) (\<lambda>t.
      Inr (db\<lparr>db_runs := t\<rparr>))))"

text \<open>An update finds its row by key and revision; \<open>rowcount\<close> is 1 exactly when it does.\<close>

definition update_run :: "int \<Rightarrow> workflow_run \<Rightarrow> sql_db \<Rightarrow> failure + sql_db" where
  "update_run expected run db =
     sbind (bind_ints [expected, wr_definition_version run, wr_revision run]) (\<lambda>_.
     case dget (db_runs db) (wr_run_id run) of
       None \<Rightarrow> Inl (Raised (OptimisticLockError ''run'' (wr_run_id run) expected (- 1)))
     | Some r \<Rightarrow>
         if rr_revision r = expected
         then Inr (db\<lparr>db_runs := dset (wr_run_id run) (run_values run (rr_last_event_sequence r)) (db_runs db)\<rparr>)
         else Inl (Raised (OptimisticLockError ''run'' (wr_run_id run) expected (rr_revision r))))"

definition step_values :: "step_run \<Rightarrow> step_row" where
  "step_values s =
     \<lparr>tr_state = step_state_value (sr_state s), tr_revision = sr_revision s,
      tr_completion_sequence = sr_completion_sequence s,
      tr_logical_idempotency_key = sr_logical_idempotency_key s\<rparr>"

definition step_ints :: "step_run \<Rightarrow> int list" where
  "step_ints s = sr_revision s # (case sr_completion_sequence s of None \<Rightarrow> [] | Some n \<Rightarrow> [n])"

definition references :: "'k \<Rightarrow> ('k, 'r) dict \<Rightarrow> failure + unit" where
  "references k table = guard (dget table k \<noteq> None) foreign_key_failed"

definition insert_step :: "step_run \<Rightarrow> sql_db \<Rightarrow> failure + sql_db" where
  "insert_step s db =
     sbind (bind_ints (step_ints s)) (\<lambda>_.
     sbind (table_insert ''step_runs.run_id, step_runs.step_id'' (step_key_of s) (step_values s) (db_steps db)) (\<lambda>t.
     sbind (references (sr_run_id s) (db_runs db)) (\<lambda>_.
     Inr (db\<lparr>db_steps := t\<rparr>))))"

definition update_step :: "int \<Rightarrow> step_run \<Rightarrow> sql_db \<Rightarrow> failure + sql_db" where
  "update_step expected s db =
     sbind (bind_ints (expected # step_ints s)) (\<lambda>_.
     case dget (db_steps db) (step_key_of s) of
       None \<Rightarrow> Inl (Raised (OptimisticLockError ''step'' (pair_text (step_key_of s)) expected (- 1)))
     | Some r \<Rightarrow>
         if tr_revision r = expected
         then Inr (db\<lparr>db_steps := dset (step_key_of s) (step_values s) (db_steps db)\<rparr>)
         else Inl (Raised (OptimisticLockError ''step'' (pair_text (step_key_of s)) expected (tr_revision r))))"

subsection \<open>Attempts and approvals\<close>

definition insert_attempt :: "step_attempt \<Rightarrow> sql_db \<Rightarrow> failure + sql_db" where
  "insert_attempt a db =
     sbind (raising (stored_attempt a)) (\<lambda>payload.
     sbind (bind_ints [sa_attempt_no a]) (\<lambda>_.
     sbind (table_insert
              ''step_attempts.run_id, step_attempts.step_id, step_attempts.attempt_no, step_attempts.phase''
              (attempt_key_of a) payload (db_attempts db)) (\<lambda>t.
     sbind (references (sa_run_id a, sa_step_id a) (db_steps db)) (\<lambda>_.
     Inr (db\<lparr>db_attempts := t\<rparr>)))))"

definition update_attempt :: "attempt_key \<Rightarrow> step_attempt \<Rightarrow> sql_db \<Rightarrow> failure + sql_db" where
  "update_attempt k a db =
     sbind (raising (stored_attempt a)) (\<lambda>payload.
     sbind (bind_ints [fst (snd (snd k))]) (\<lambda>_.
     if dget (db_attempts db) k = None
     then Inl (Raised (PersistenceError (''cannot save missing attempt: '' @ attempt_key_text k)))
     else Inr (db\<lparr>db_attempts := dset k payload (db_attempts db)\<rparr>)))"

text \<open>The columns of an approval. The class of a legacy record is a dataclass too.\<close>

definition legacy_json :: "legacy_approval \<Rightarrow> pyval" where
  "legacy_json l =
     PDict [(KStr ''run_id'', PStr (la_run_id l)), (KStr ''approval_key'', PStr (la_approval_key l)),
            (KStr ''payload'', la_payload l), (KStr ''record_module'', PStr (la_record_module l)),
            (KStr ''record_qualname'', PStr (la_record_qualname l)), (KStr ''decision'', la_decision l),
            (KStr ''version'', PInt (la_version l)), (KStr ''binding_digest'', PNone),
            (KStr ''status'', PStr (la_status l))]"

fun approval_values :: "approval_record \<Rightarrow> error + approval_row" where
  "approval_values (Request r) =
     sbind (stored_request r) (\<lambda>payload.
     Inr \<lparr>pr_version = ar_version r, pr_binding_digest = Some (ar_binding_digest r),
          pr_status = approval_status_value (ar_status r), pr_decision = decision_json (ar_decision r),
          pr_payload = RequestJson payload\<rparr>)"
| "approval_values (Legacy l) =
     sbind (payload_value (legacy_json l)) (\<lambda>json.
     Inr \<lparr>pr_version = la_version l, pr_binding_digest = None, pr_status = la_status l,
          pr_decision = la_decision l,
          pr_payload = OtherJson ''changepilot.workflow.ports.persistence'' ''LegacyApprovalRecord'' json\<rparr>)"

text \<open>A text column takes a string or null.\<close>

definition bind_text :: "pyval \<Rightarrow> failure + unit" where
  "bind_text v =
     (case v of PNone \<Rightarrow> Inr () | PStr _ \<Rightarrow> Inr ()
      | _ \<Rightarrow> Inl (DatabaseFailed ''Error binding parameter: type is not supported''))"

definition hex_glob :: "string \<Rightarrow> bool" where
  "hex_glob s \<longleftrightarrow> list_all (\<lambda>c. c \<in> set ''0123456789ABCDEFabcdef'') s"

definition digest_check :: "string option \<Rightarrow> bool" where
  "digest_check d = (case d of None \<Rightarrow> False | Some s \<Rightarrow> length s = 64 \<and> hex_glob s)"

text \<open>
  The four \<open>CheckConstraint\<close>s of \<open>approval_requests\<close>. A comparison with null is neither true nor
  false, and a constraint without a truth value holds: \<open>decision = status\<close> does not refuse null.
\<close>

definition version_check :: "approval_row \<Rightarrow> bool" where
  "version_check r \<longleftrightarrow> 0 \<le> pr_version r"

definition status_check :: "approval_row \<Rightarrow> bool" where
  "status_check r \<longleftrightarrow>
     pr_status r \<in> set [''legacy'', ''pending'', ''approved'', ''rejected'', ''invalidated'']"

definition decision_check :: "approval_row \<Rightarrow> bool" where
  "decision_check r \<longleftrightarrow>
     pr_status r = ''legacy'' \<or> pr_decision r \<in> set [PNone, PStr ''approved'', PStr ''rejected'']"

definition state_check :: "approval_row \<Rightarrow> bool" where
  "state_check r \<longleftrightarrow>
     pr_status r = ''legacy'' \<and> pr_version r = 0 \<and> pr_binding_digest r = None
     \<or> pr_status r = ''pending'' \<and> pr_version r = 0 \<and> digest_check (pr_binding_digest r) \<and> pr_decision r = PNone
     \<or> pr_status r \<in> set [''approved'', ''rejected''] \<and> 1 \<le> pr_version r
       \<and> digest_check (pr_binding_digest r) \<and> pr_decision r \<in> set [PNone, PStr (pr_status r)]
     \<or> pr_status r = ''invalidated'' \<and> 1 \<le> pr_version r \<and> digest_check (pr_binding_digest r) \<and> pr_decision r = PNone"

definition check_failed :: "string \<Rightarrow> failure" where
  "check_failed name = IntegrityFailed (''CHECK constraint failed: '' @ name)"

definition approval_checks :: "approval_row \<Rightarrow> failure + unit" where
  "approval_checks r =
     sbind (guard (version_check r) (check_failed ''ck_approval_requests_version'')) (\<lambda>_.
     sbind (guard (status_check r) (check_failed ''ck_approval_requests_status'')) (\<lambda>_.
     sbind (guard (decision_check r) (check_failed ''ck_approval_requests_decision'')) (\<lambda>_.
     guard (state_check r) (check_failed ''ck_approval_requests_state''))))"

text \<open>\<open>ix_approval_requests_pending_unique\<close>: one pending row for each run.\<close>

definition pending_index :: "approval_key \<Rightarrow> approval_row \<Rightarrow> (approval_key, approval_row) dict \<Rightarrow> failure + unit" where
  "pending_index k r table =
     guard (pr_status r = ''pending'' \<longrightarrow>
              list_all (\<lambda>(k', r'). fst k' = fst k \<and> k' \<noteq> k \<longrightarrow> pr_status r' \<noteq> ''pending'') table)
       (unique_failed ''approval_requests.run_id'')"

definition insert_approval :: "approval_record \<Rightarrow> sql_db \<Rightarrow> failure + sql_db" where
  "insert_approval a db =
     sbind (raising (approval_values a)) (\<lambda>r.
     sbind (bind_ints [pr_version r]) (\<lambda>_.
     sbind (bind_text (pr_decision r)) (\<lambda>_.
     sbind (approval_checks r) (\<lambda>_.
     sbind (table_insert ''approval_requests.run_id, approval_requests.approval_key''
              (approval_key_of a) r (db_approvals db)) (\<lambda>t.
     sbind (pending_index (approval_key_of a) r (db_approvals db)) (\<lambda>_.
     sbind (references (apr_run_id a) (db_runs db)) (\<lambda>_.
     Inr (db\<lparr>db_approvals := t\<rparr>))))))))"

definition update_approval :: "approval_key \<Rightarrow> int \<Rightarrow> approval_record \<Rightarrow> sql_db \<Rightarrow> failure + sql_db" where
  "update_approval k expected a db =
     sbind (raising (approval_values a)) (\<lambda>r.
     sbind (bind_ints [expected, pr_version r]) (\<lambda>_.
     sbind (bind_text (pr_decision r)) (\<lambda>_.
     case dget (db_approvals db) k of
       None \<Rightarrow> Inl (Raised (OptimisticLockError ''approval'' (snd k) expected (- 1)))
     | Some old \<Rightarrow>
         if pr_version old = expected
         then sbind (approval_checks r) (\<lambda>_.
              sbind (pending_index k r (db_approvals db)) (\<lambda>_.
              Inr (db\<lparr>db_approvals := dset k r (db_approvals db)\<rparr>)))
         else Inl (Raised (OptimisticLockError ''approval'' (snd k) expected (pr_version old))))))"

subsection \<open>Events\<close>

definition insert_event :: "int \<Rightarrow> audit_event \<Rightarrow> sql_db \<Rightarrow> failure + sql_db" where
  "insert_event n e db =
     sbind (raising (stored_event e)) (\<lambda>payload.
     sbind (bind_ints [n, ev_previous_revision e, ev_revision e]) (\<lambda>_.
     sbind (table_insert ''audit_events.run_id, audit_events.sequence'' (ev_run_id e, n)
              \<lparr>vr_step_id = ev_step_id e, vr_event_type = ev_event_type e,
               vr_occurred_at = ev_occurred_at e, vr_previous_state = ev_previous_state e,
               vr_new_state = ev_new_state e, vr_previous_revision = ev_previous_revision e,
               vr_revision = ev_revision e, vr_payload = payload\<rparr> (db_events db)) (\<lambda>t.
     sbind (references (ev_run_id e) (db_runs db)) (\<lambda>_.
     sbind (case ev_step_id e of None \<Rightarrow> Inr () | Some s \<Rightarrow> references (ev_run_id e, s) (db_steps db)) (\<lambda>_.
     Inr (db\<lparr>db_events := t\<rparr>))))))"

definition set_last_sequence :: "string \<Rightarrow> int \<Rightarrow> sql_db \<Rightarrow> failure + sql_db" where
  "set_last_sequence run_id n db =
     sbind (bind_ints [n]) (\<lambda>_.
     Inr (case dget (db_runs db) run_id of
            None \<Rightarrow> db
          | Some r \<Rightarrow> db\<lparr>db_runs := dset run_id (r\<lparr>rr_last_event_sequence := n\<rparr>) (db_runs db)\<rparr>))"

section \<open>Commit\<close>

definition sql_check_new ::
  "string \<Rightarrow> ('k \<Rightarrow> string) \<Rightarrow> ('k \<Rightarrow> int list) \<Rightarrow> 'k list \<Rightarrow> ('k, 'r) dict \<Rightarrow> failure + unit" where
  "sql_check_new record_type label ints ks table =
     sfold (\<lambda>k _. sbind (bind_ints (ints k)) (\<lambda>_.
              guard (dget table k = None) (Raised (UniquenessError record_type (label k))))) ks ()"

definition sql_validate_uniqueness :: "uow \<Rightarrow> sql_db \<Rightarrow> failure + unit" where
  "sql_validate_uniqueness u db =
     sbind (sql_check_new ''definition'' definition_key_text (\<lambda>k. [snd k]) (sn_new_definition_keys u)
              (db_definitions db)) (\<lambda>_.
     sbind (sql_check_new ''run'' id (\<lambda>_. []) (sn_new_run_keys u) (db_runs db)) (\<lambda>_.
     sbind (sql_check_new ''step'' pair_text (\<lambda>_. []) (sn_new_step_keys u) (db_steps db)) (\<lambda>_.
     sbind (sql_check_new ''attempt'' attempt_key_text (\<lambda>k. [fst (snd (snd k))])
              (sn_new_attempt_keys u) (db_attempts db)) (\<lambda>_.
     sql_check_new ''approval'' pair_text (\<lambda>_. []) (sn_new_approval_keys u) (db_approvals db)))))"

text \<open>\<open>_allocate_published_events\<close>: the entries of each run and its new last number.\<close>

definition allocate_run :: "uow \<Rightarrow> sql_db \<Rightarrow> string \<times> audit_event list \<Rightarrow> failure + string \<times> event_log \<times> int" where
  "allocate_run u db re =
     sbind (case dget (db_runs db) (fst re) of
              Some r \<Rightarrow> Inr (rr_last_event_sequence r)
            | None \<Rightarrow>
                if fst re \<in> set (sn_new_run_keys u) then Inr 0
                else Inl (Raised (PersistenceError (''missing workflow run for events: '' @ fst re)))) (\<lambda>n.
     Inr (fst re, number_from n (snd re), n + int (length (snd re))))"

definition sql_allocate :: "uow \<Rightarrow> sql_db \<Rightarrow> failure + (string \<times> event_log \<times> int) list" where
  "sql_allocate u db = smap (allocate_run u db) (sn_pending_events u)"

text \<open>A loop over a set of keys, with the staged record of each.\<close>

definition for_staged ::
  "('k \<Rightarrow> 'v \<Rightarrow> sql_db \<Rightarrow> failure + sql_db) \<Rightarrow> 'k list \<Rightarrow> ('k, 'v) dict \<Rightarrow> sql_db \<Rightarrow> failure + sql_db" where
  "for_staged f ks staged =
     sfold (\<lambda>k db. sbind (or_raise (dget staged k) (Raised (KeyError ''staged record''))) (\<lambda>v. f k v db)) ks"

definition with_expected ::
  "('k, int) dict \<Rightarrow> ('k \<Rightarrow> int \<Rightarrow> 'v \<Rightarrow> sql_db \<Rightarrow> failure + sql_db) \<Rightarrow> 'k \<Rightarrow> 'v \<Rightarrow> sql_db \<Rightarrow> failure + sql_db" where
  "with_expected expected f k v db =
     sbind (or_raise (dget expected k) (Raised (KeyError ''expected revision''))) (\<lambda>n. f k n v db)"

definition minus_keys :: "'k list \<Rightarrow> 'k list \<Rightarrow> 'k list" where
  "minus_keys dirty new = filter (\<lambda>k. k \<notin> set new) dirty"

definition publish_run_events :: "string \<times> event_log \<times> int \<Rightarrow> sql_db \<Rightarrow> failure + sql_db" where
  "publish_run_events p db =
     sbind (sfold (\<lambda>(n, e). insert_event n e) (fst (snd p)) db) (set_last_sequence (fst p) (snd (snd p)))"

definition sql_publish :: "uow \<Rightarrow> (string \<times> event_log \<times> int) list \<Rightarrow> sql_db \<Rightarrow> failure + sql_db" where
  "sql_publish u published db =
     sbind (for_staged (\<lambda>_. insert_definition) (sn_new_definition_keys u) (sn_definitions u) db) (\<lambda>db.
     sbind (for_staged (\<lambda>_. insert_run (sn_committed_event_sequences u)) (sn_new_run_keys u) (sn_runs u) db) (\<lambda>db.
     sbind (for_staged (with_expected (sn_run_expected_revisions u) (\<lambda>_. update_run))
              (minus_keys (sn_dirty_run_keys u) (sn_new_run_keys u)) (sn_runs u) db) (\<lambda>db.
     sbind (for_staged (\<lambda>_. insert_step) (sn_new_step_keys u) (sn_steps u) db) (\<lambda>db.
     sbind (for_staged (with_expected (sn_step_expected_revisions u) (\<lambda>_. update_step))
              (minus_keys (sn_dirty_step_keys u) (sn_new_step_keys u)) (sn_steps u) db) (\<lambda>db.
     sbind (for_staged (\<lambda>_. insert_attempt) (sn_new_attempt_keys u) (sn_attempts u) db) (\<lambda>db.
     sbind (for_staged update_attempt (minus_keys (sn_dirty_attempt_keys u) (sn_new_attempt_keys u))
              (sn_attempts u) db) (\<lambda>db.
     sbind (for_staged (\<lambda>_. insert_approval) (sn_new_approval_keys u) (sn_approvals u) db) (\<lambda>db.
     sbind (for_staged (with_expected (sn_approval_expected_versions u) update_approval)
              (minus_keys (sn_dirty_approval_keys u) (sn_new_approval_keys u)) (sn_approvals u) db) (\<lambda>db.
     sfold publish_run_events published db)))))))))"

text \<open>The text of an integrity error decides what it becomes; it is ASCII, so small letters are folded ones.\<close>

fun occurs_in :: "string \<Rightarrow> string \<Rightarrow> bool" where
  "occurs_in p [] \<longleftrightarrow> p = []"
| "occurs_in p (c # s) \<longleftrightarrow> take (length p) (c # s) = p \<or> occurs_in p s"

definition translate_integrity_error :: "string \<Rightarrow> error" where
  "translate_integrity_error m =
     (if occurs_in ''foreign key constraint failed'' (casefold m)
      then PersistenceError ''foreign key constraint failed''
      else if occurs_in ''unique constraint failed: approval_requests.run_id'' (casefold m)
      then UniquenessError ''pending_approval'' ''run_id''
      else PersistenceError m)"

text \<open>
  What the commit depends on outside the program: whether another connection holds the write lock
  beyond the timeout, and how SQLAlchemy words its errors.
\<close>

record sql_env =
  se_busy :: bool
  se_message :: "string \<Rightarrow> string"

definition begin_immediate :: "sql_env \<Rightarrow> sql_uow \<Rightarrow> failure + unit" where
  "begin_immediate env u =
     sbind (guard (\<not> sq_in_transaction u)
              (DatabaseFailed ''cannot start a transaction within a transaction'')) (\<lambda>_.
     guard (\<not> se_busy env) (DatabaseFailed ''database is locked''))"

definition commit_statements ::
  "sql_env \<Rightarrow> sql_uow \<Rightarrow> sql_db \<Rightarrow> failure + (string \<times> event_log \<times> int) list \<times> sql_db" where
  "commit_statements env u db =
     sbind (begin_immediate env u) (\<lambda>_.
     sbind (sql_validate_uniqueness (sq_base u) db) (\<lambda>_.
     sbind (sql_allocate (sq_base u) db) (\<lambda>published.
     sbind (sql_publish (sq_base u) published db) (\<lambda>db'. Inr (published, db')))))"

text \<open>The \<open>except\<close> clauses; an exception that none of them takes leaves the transaction to \<open>__exit__\<close>.\<close>

fun commit_failure :: "sql_env \<Rightarrow> failure \<Rightarrow> error \<times> bool" where
  "commit_failure env (IntegrityFailed m) = (translate_integrity_error m, True)"
| "commit_failure env (DatabaseFailed m) = (PersistenceError (se_message env m), True)"
| "commit_failure env (Raised (TypeError m)) = (PersistenceError m, True)"
| "commit_failure env (Raised (InvalidRevisionError a i e f)) = (InvalidRevisionError a i e f, True)"
| "commit_failure env (Raised (OptimisticLockError a i e f)) = (OptimisticLockError a i e f, True)"
| "commit_failure env (Raised (UniquenessError r i)) = (UniquenessError r i, True)"
| "commit_failure env (Raised e) = (e, False)"

text \<open>\<open>_Snapshot.mark_committed\<close>.\<close>

definition mark_committed :: "(string \<times> event_log \<times> int) list \<Rightarrow> uow \<Rightarrow> uow" where
  "mark_committed published u =
     u\<lparr>sn_committed_event_sequences :=
         set_sequences (map (\<lambda>p. (fst p, snd (snd p))) published) (sn_committed_event_sequences u),
       sn_committed_events :=
         extend_logs (map (\<lambda>p. (fst p, fst (snd p))) published) (sn_committed_events u),
       sn_pending_events := [], uw_committed := True\<rparr>"

definition sql_commit :: "sql_env \<Rightarrow> sql_uow \<Rightarrow> sql_db \<Rightarrow> (error + unit) \<times> sql_uow \<times> sql_db" where
  "sql_commit env u db =
     (if uw_rolled_back (sq_base u)
      then (Inl (UnitOfWorkStateError ''cannot commit a rolled back unit of work''), u, db)
      else if uw_committed (sq_base u)
      then (Inl (UnitOfWorkStateError ''cannot commit an already committed unit of work''), u, db)
      else case commit_statements env u db of
        Inr (published, db') \<Rightarrow> (Inr (), u\<lparr>sq_base := mark_committed published (sq_base u)\<rparr>, db')
      | Inl f \<Rightarrow>
          (case commit_failure env f of (e, rolled_back) \<Rightarrow>
             (Inl e, if rolled_back then snd (sql_rollback u) else u\<lparr>sq_in_transaction := True\<rparr>, db)))"

end
