(* ===== verification/Sqlite_Refinement.thy ===== *)
theory Sqlite_Refinement
  imports Sqlite_Commit
begin

text \<open>
  A commit on SQLite refines the commit in memory: when it goes through, the memory adapter would
  have accepted the same unit of work on the loaded tables, and loading the new tables gives the
  store it would have left, with the values as they come back from JSON.
\<close>

section \<open>What comes back of a record\<close>

definition reload_value :: "pyval \<Rightarrow> pyval" where
  "reload_value v = json_read (freeze_stored v)"

definition reload_run :: "workflow_run \<Rightarrow> workflow_run" where
  "reload_run r = r\<lparr>wr_original_error := stored_error (wr_original_error r),
     wr_compensation_error := stored_error (wr_compensation_error r)\<rparr>"

definition reload_attempt :: "step_attempt \<Rightarrow> step_attempt" where
  "reload_attempt a = a\<lparr>sa_result := reload_value (sa_result a)\<rparr>"

definition reload_event :: "audit_event \<Rightarrow> audit_event" where
  "reload_event e = e\<lparr>ev_summary := reload_value (ev_summary e)\<rparr>"

definition reload_request :: "approval_request \<Rightarrow> approval_request" where
  "reload_request r = r\<lparr>ar_redacted_arguments := reload_value (ar_redacted_arguments r)\<rparr>"

fun reload_approval :: "approval_record \<Rightarrow> approval_record" where
  "reload_approval (Request r) = Request (reload_request r)"
| "reload_approval (Legacy l) = Legacy l"

lemma payload_value_Inr: "payload_value v = Inr w \<Longrightarrow> w = reload_value v"
  by (auto simp: payload_value_def json_column_def reload_value_def)

lemma stored_Inr:
  "stored_attempt a = Inr a' \<Longrightarrow> a' = reload_attempt a" "stored_event e = Inr e' \<Longrightarrow> e' = reload_event e"
  "stored_request r = Inr r' \<Longrightarrow> r' = reload_request r"
  by (auto simp: stored_attempt_def stored_event_def stored_request_def reload_attempt_def
      reload_event_def reload_request_def dest!: payload_value_Inr)

lemma reload_keys_same [simp]:
  "definition_key_of (reload_definition w) = definition_key_of w" "wr_run_id (reload_run r) = wr_run_id r"
  "attempt_key_of (reload_attempt a) = attempt_key_of a" "ev_run_id (reload_event e) = ev_run_id e"
  "approval_key_of (reload_approval p) = approval_key_of p" "is_pending (reload_approval p) = is_pending p"
  by (simp_all add: definition_key_of_def reload_definition_def reload_run_def attempt_key_of_def
      reload_attempt_def reload_event_def)
    (cases p; simp add: approval_key_of_def is_pending_def reload_request_def)+

text \<open>The staged records that a commit writes, as they come back.\<close>

definition reload_keys :: "('v \<Rightarrow> 'v) \<Rightarrow> 'k list \<Rightarrow> ('k, 'v) dict \<Rightarrow> ('k, 'v) dict" where
  "reload_keys f ks table = map (\<lambda>(k, v). (k, if k \<in> set ks then f v else v)) table"

definition reload_uow :: "uow \<Rightarrow> uow" where
  "reload_uow u =
     u\<lparr>sn_definitions := reload_keys reload_definition (sn_new_definition_keys u) (sn_definitions u),
       sn_runs := reload_keys reload_run (sn_new_run_keys u @ sn_dirty_run_keys u) (sn_runs u),
       sn_attempts := reload_keys reload_attempt (sn_new_attempt_keys u @ sn_dirty_attempt_keys u) (sn_attempts u),
       sn_approvals := reload_keys reload_approval (sn_new_approval_keys u @ sn_dirty_approval_keys u) (sn_approvals u),
       sn_pending_events := map (\<lambda>(r, es). (r, map reload_event es)) (sn_pending_events u)\<rparr>"

lemma dget_reload_keys:
  "dget (reload_keys f ks table) k = map_option (\<lambda>v. if k \<in> set ks then f v else v) (dget table k)"
  unfolding reload_keys_def by (rule dget_map_keyed)

lemma staged_ok_reload:
  assumes "staged_ok key_of base staged ks" and "\<And>v. key_of (f v) = key_of v"
  shows "staged_ok key_of base (reload_keys f ks staged) ks"
proof -
  have "map fst (reload_keys f ks staged) = map fst staged" by (simp add: reload_keys_def comp_def split_def)
  moreover from this have "fst ` set (reload_keys f ks staged) = fst ` set staged" by (metis list.set_map)
  moreover have "\<forall>(k, v) \<in> set (reload_keys f ks staged). key_of v = k"
    using assms by (auto simp: reload_keys_def staged_ok_def table_ok_def)
  moreover have "dget (reload_keys f ks staged) k = dget staged k" if "k \<notin> set ks" for k
    using that by (simp add: dget_reload_keys option.map_ident)
  ultimately show ?thesis
    using assms(1) unfolding staged_ok_def table_ok_def by simp
qed

lemma uow_ok_reload:
  assumes "uow_ok base u"
  shows "uow_ok base (reload_uow u)"
proof -
  have "dwf (map (\<lambda>(r, es). (r, map reload_event es)) (sn_pending_events u))"
    using uow_okD(8) [OF assms] by (simp add: comp_def split_def)
  moreover have "\<forall>(r, es) \<in> set (map (\<lambda>(r, es). (r, map reload_event es)) (sn_pending_events u)). \<forall>e \<in> set es. ev_run_id e = r"
    using uow_okD(9) [OF assms] by fastforce
  ultimately show ?thesis
    using assms unfolding uow_ok_def reload_uow_def by (simp add: staged_ok_reload)
qed

section \<open>Loops over staged records\<close>

lemma for_staged_Cons:
  "for_staged f (k # ks) staged db = Inr db' \<longleftrightarrow>
     (\<exists>v db1. dget staged k = Some v \<and> f k v db = Inr db1 \<and> for_staged f ks staged db1 = Inr db')"
  by (auto simp: for_staged_def sbind_Inr_iff)

lemma for_staged_Nil [simp]: "for_staged f [] staged db = Inr db"
  by (simp add: for_staged_def)

lemma for_staged_frame:
  assumes "for_staged f ks staged db = Inr db'"
    and "\<And>k v db db'. f k v db = Inr db' \<Longrightarrow> g db' = g db"
  shows "g db' = g db"
  using assms(1) by (induction ks arbitrary: db) (auto simp: for_staged_Cons assms(2))

lemma for_staged_invariant:
  assumes "for_staged f ks staged db = Inr db'" and "J db"
    and "\<And>k v db db'. f k v db = Inr db' \<Longrightarrow> dget staged k = Some v \<Longrightarrow> J db \<Longrightarrow> J db'"
  shows "J db'"
  using assms(1,2) by (induction ks arbitrary: db) (auto simp: for_staged_Cons dest: assms(3))

lemma for_staged_table:
  assumes "for_staged f ks staged db = Inr db'"
    and step: "\<And>k v db db'. f k v db = Inr db' \<Longrightarrow> dget staged k = Some v \<Longrightarrow>
                 \<exists>r. tab db' = dset k r (tab db) \<and> P k v r"
  shows "(dwf (tab db) \<longrightarrow> dwf (tab db'))
    \<and> (\<forall>k. if k \<in> set ks then \<exists>v r. dget staged k = Some v \<and> dget (tab db') k = Some r \<and> P k v r
           else dget (tab db') k = dget (tab db) k)"
  using assms(1)
proof (induction ks arbitrary: db)
  case (Cons j ks)
  from Cons.prems obtain v db1 where v: "dget staged j = Some v" "f j v db = Inr db1"
    and rest: "for_staged f ks staged db1 = Inr db'"
    by (auto simp: for_staged_Cons)
  obtain r where r: "tab db1 = dset j r (tab db)" "P j v r" using step v by blast
  show ?case
  proof (intro conjI allI)
    show "dwf (tab db) \<longrightarrow> dwf (tab db')" using Cons.IH [OF rest] r(1) by simp
    fix k
    show "if k \<in> set (j # ks) then \<exists>v r. dget staged k = Some v \<and> dget (tab db') k = Some r \<and> P k v r
           else dget (tab db') k = dget (tab db) k"
      using conjunct2 [OF Cons.IH [OF rest], THEN spec, of k] r v(1) by (auto split: if_splits)
  qed
qed simp

text \<open>What a statement found in the row of its key, before the loop.\<close>

lemma for_staged_found:
  assumes "for_staged f ks staged db = Inr db'" and "distinct ks" and "k \<in> set ks"
    and other: "\<And>j v db db'. f j v db = Inr db' \<Longrightarrow> dget staged j = Some v \<Longrightarrow> j \<noteq> k \<Longrightarrow>
                  dget (tab db') k = dget (tab db) k"
    and own: "\<And>v db db'. f k v db = Inr db' \<Longrightarrow> dget staged k = Some v \<Longrightarrow> C v (dget (tab db) k)"
  shows "\<exists>v. dget staged k = Some v \<and> C v (dget (tab db) k)"
  using assms(1-3)
proof (induction ks arbitrary: db)
  case (Cons j ks)
  from Cons.prems obtain v db1 where v: "dget staged j = Some v" "f j v db = Inr db1"
    and rest: "for_staged f ks staged db1 = Inr db'"
    by (auto simp: for_staged_Cons)
  show ?case
  proof (cases "j = k")
    case False
    then show ?thesis using Cons.IH [OF rest] Cons.prems(2,3) other [OF v(2) v(1)] by auto
  qed (use own v in blast)
qed simp

section \<open>Loading rows\<close>

lemma load_rows_lookup:
  assumes "load_rows f t = Inr d"
  shows "map fst d = map fst t"
    and "dget t k = None \<Longrightarrow> dget d k = None"
    and "dget t k = Some r \<Longrightarrow> \<exists>v. f k r = Inr v \<and> dget d k = Some v"
proof -
  have "map fst d = map fst t \<and> (dget t k = None \<longrightarrow> dget d k = None)
      \<and> (\<forall>r. dget t k = Some r \<longrightarrow> (\<exists>v. f k r = Inr v \<and> dget d k = Some v))"
    using assms
  proof (induction t arbitrary: d)
    case (Cons e t)
    obtain j r where e: "e = (j, r)" by force
    from Cons.prems obtain v d' where "f j r = Inr v" "load_rows f t = Inr d'" "d = (j, v) # d'"
      by (auto simp: load_rows_def e)
    then show ?case using Cons.IH [of d'] e by auto
  qed (simp add: load_rows_def)
  then show "map fst d = map fst t" "dget t k = None \<Longrightarrow> dget d k = None"
    "dget t k = Some r \<Longrightarrow> \<exists>v. f k r = Inr v \<and> dget d k = Some v" by blast+
qed

lemma load_rows_total:
  assumes "dwf t" and "\<And>k r. dget t k = Some r \<Longrightarrow> \<exists>v. f k r = Inr v"
  shows "\<exists>d. load_rows f t = Inr d"
proof -
  have "\<exists>v. (\<lambda>(k, r). sbind (f k r) (\<lambda>v. Inr (k, v))) e = Inr v" if "e \<in> set t" for e
    proof -
    obtain k r where e: "e = (k, r)" by force
    then have "dget t k = Some r" using that assms(1) by simp
    then show ?thesis using assms(2) [of k r] e by auto
  qed
  then show ?thesis unfolding load_rows_def smap_total by blast
qed

text \<open>New rows are added and old ones are saved: the loaded table is the old one, written over.\<close>

lemma load_rows_overlay:
  assumes old: "load_rows f t = Inr d" and "dwf t'"
    and new: "\<And>k. k \<in> set ks \<Longrightarrow> \<exists>v r. dget staged k = Some v \<and> dget t' k = Some r \<and> f k r = Inr (h v)"
    and rest: "\<And>k. k \<notin> set ks \<Longrightarrow> map_option (f k) (dget t' k) = map_option (f k) (dget t k)"
  obtains d' where "load_rows f t' = Inr d'" and "dwf d'"
    and "dget d' = overlay ks (reload_keys h ks staged) d"
proof -
  have "\<exists>v. f k r = Inr v" if r: "dget t' k = Some r" for k r
  proof (cases "k \<in> set ks")
    case True
    then show ?thesis using new [OF True] r by auto
  next
    case False
    then obtain q where "dget t k = Some q" "f k q = f k r" using rest [of k] r by (cases "dget t k") auto
    then show ?thesis using load_rows_lookup(3) [OF old, of k q] by auto
  qed
  then obtain d' where d': "load_rows f t' = Inr d'" using load_rows_total [OF assms(2)] by blast
  have "dget d' k = overlay ks (reload_keys h ks staged) d k" for k
  proof (cases "k \<in> set ks")
    case True
    then obtain v r where "dget staged k = Some v" "dget t' k = Some r" "f k r = Inr (h v)" using new by blast
    then show ?thesis using True load_rows_lookup(3) [OF d'] by (fastforce simp: overlay_def dget_reload_keys)
  next
    case False
    then show ?thesis
      using rest [OF False] load_rows_lookup(2,3) [OF d', of k] load_rows_lookup(2,3) [OF old, of k]
      by (cases "dget t k") (fastforce simp: overlay_def)+
  qed
  moreover have "dwf d'" using load_rows_lookup(1) [OF d'] assms(2) by simp
  ultimately show ?thesis using d' that by blast
qed

text \<open>First the new keys are inserted, then the others updated.\<close>

lemma two_phases:
  assumes "\<forall>k. if k \<in> set new then \<exists>v r. dget staged k = Some v \<and> dget t1 k = Some r \<and> P k v r
           else dget t1 k = dget t0 k"
    and "\<forall>k. if k \<in> set (minus_keys dirty new) then \<exists>v r. dget staged k = Some v \<and> dget t2 k = Some r \<and> P k v r
           else dget t2 k = dget t1 k"
  shows "k \<in> set (new @ dirty) \<Longrightarrow> \<exists>v r. dget staged k = Some v \<and> dget t2 k = Some r \<and> P k v r"
    and "k \<notin> set (new @ dirty) \<Longrightarrow> dget t2 k = dget t0 k"
  using assms [THEN spec, of k] by (auto simp: minus_keys_def split: if_splits)

section \<open>What the statements do\<close>

lemma bind_ints_Inr [simp]: "bind_ints ns = Inr u \<longleftrightarrow> (\<forall>n \<in> set ns. - (2 ^ 63) \<le> n \<and> n < 2 ^ 63)"
  by (simp add: bind_ints_def)

lemma insert_row_Inr [simp]: "table_insert c k r t = Inr t' \<longleftrightarrow> dget t k = None \<and> t' = dset k r t"
  by (auto simp: table_insert_def unique_failed_def)

lemma references_Inr [simp]: "references k t = Inr u \<longleftrightarrow> (\<exists>r. dget t k = Some r)"
  by (simp add: references_def)

lemma parse_state_value [simp]:
  "parse_run_state (run_state_value s) = Inr s" "parse_step_state (step_state_value t) = Inr t"
  by (cases s; simp add: parse_run_state_def all_run_states_def)
    (cases t; simp add: parse_step_state_def all_step_states_def)

lemma load_run_values: "load_run (wr_run_id r) (run_values r n) = Inr (reload_run r)"
  by (cases r) (simp add: load_run_def run_values_def reload_run_def)

lemma load_step_values: "load_step (step_key_of s) (step_values s) = Inr s"
  by (cases s) (simp add: load_step_def step_values_def step_key_of_def)

lemma load_run_revision: "load_run k r = Inr v \<Longrightarrow> wr_revision v = rr_revision r"
  by (auto simp: load_run_def)

lemma load_step_revision: "load_step k r = Inr v \<Longrightarrow> sr_revision v = tr_revision r"
  by (auto simp: load_step_def)

lemma approval_checks_Inr [simp]:
  "approval_checks r = Inr u \<longleftrightarrow> version_check r \<and> status_check r \<and> decision_check r \<and> state_check r"
  by (simp add: approval_checks_def check_failed_def sbind_Inr_iff)

lemma load_legacy_Inr: "load_legacy k r = Inr a \<Longrightarrow> apr_version a = 0 \<and> apr_status a = ''legacy''"
  by (auto simp: load_legacy_def split: approval_payload.splits pyval.splits option.splits if_splits)

lemma load_approval_Inr:
  "load_approval k r = Inr a \<Longrightarrow> pr_status r \<noteq> ''legacy'' \<Longrightarrow>
   apr_version a = pr_version r \<and> apr_status a = pr_status r"
  by (auto simp: load_approval_def split: approval_payload.splits)

lemma legacy_version: "state_check r \<Longrightarrow> pr_status r = ''legacy'' \<Longrightarrow> pr_version r = 0"
  by (simp add: state_check_def)

lemma load_approval_version:
  assumes "load_approval k r = Inr a" and "state_check r"
  shows "apr_version a = pr_version r"
proof (cases "pr_status r = ''legacy''")
  case True
  then show ?thesis using assms load_legacy_Inr [of k r a] legacy_version by (simp add: load_approval_def)
qed (use assms load_approval_Inr in blast)

lemma load_approval_pending:
  assumes "load_approval k r = Inr a"
  shows "is_pending a \<longleftrightarrow> pr_status r = ''pending''"
proof (cases "pr_status r = ''legacy''")
  case True
  then show ?thesis using assms load_legacy_Inr [of k r a] by (simp add: load_approval_def is_pending_def)
next
  case False
  then show ?thesis using load_approval_Inr [OF assms] by (simp add: is_pending_def)
qed

lemma make_request_iff:
  "make_request r = Inr r' \<longleftrightarrow> 0 \<le> ar_version r \<and> coerce_actor_digest (ar_actor r) = Inr (ar_actor r)
     \<and> coerce_reason_digest (ar_reason r) = Inr (ar_reason r) \<and> is_sha256_digest (ar_binding_digest r)
     \<and> request_fields_ok r = Inr () \<and> r' = r" (is "?l \<longleftrightarrow> ?r")
proof
  assume ?l
  moreover from this obtain a b where "coerce_actor_digest (ar_actor r) = Inr a" "coerce_reason_digest (ar_reason r) = Inr b"
    by (auto simp: make_request_def)
  moreover from this have "a = ar_actor r" "b = ar_reason r"
    by (blast dest: coerce_actor_digest_same, blast dest: coerce_reason_digest_same)
  ultimately show ?r by (auto simp: make_request_def)
qed (auto simp: make_request_def)

lemma request_fields_reload: "request_fields_ok (reload_request r) = request_fields_ok r"
  by (cases "ar_status r"; simp add: request_fields_ok_def reload_request_def)

lemma make_request_reload: "make_request r = Inr r \<Longrightarrow> make_request (reload_request r) = Inr (reload_request r)"
  unfolding make_request_iff request_fields_reload by (simp add: reload_request_def)

lemma load_approval_values:
  assumes "approval_values (Request r) = Inr row" and "make_request r = Inr r"
  shows "load_approval (approval_key_of (Request r)) row = Inr (reload_approval (Request r))"
proof -
  have "row = \<lparr>pr_version = ar_version r, pr_binding_digest = Some (ar_binding_digest r),
          pr_status = approval_status_value (ar_status r), pr_decision = decision_json (ar_decision r),
          pr_payload = RequestJson (reload_request r)\<rparr>"
    using assms(1) by (auto dest: stored_Inr)
  moreover have "make_request (reload_request r) = Inr (reload_request r)"
    using assms(2) by (rule make_request_reload)
  moreover have "approval_status_value (ar_status r) \<noteq> ''legacy''" by (cases "ar_status r") simp_all
  ultimately show ?thesis
    by (simp add: load_approval_def approval_key_of_def) (simp add: reload_request_def)
qed

section \<open>The two loops over a table\<close>

lemma table_phases:
  assumes ins: "for_staged f new staged db = Inr db1"
    and upd: "for_staged g (minus_keys dirty new) staged db1 = Inr db2"
    and f: "\<And>k v db db'. f k v db = Inr db' \<Longrightarrow> dget staged k = Some v \<Longrightarrow>
              \<exists>r. tab db' = dset k r (tab db) \<and> P k v r"
    and g: "\<And>k v db db'. g k v db = Inr db' \<Longrightarrow> dget staged k = Some v \<Longrightarrow>
              \<exists>r. tab db' = dset k r (tab db) \<and> P k v r"
  shows "dwf (tab db) \<Longrightarrow> dwf (tab db2)"
    and "k \<in> set (new @ dirty) \<Longrightarrow> \<exists>v r. dget staged k = Some v \<and> dget (tab db2) k = Some r \<and> P k v r"
    and "k \<notin> set (new @ dirty) \<Longrightarrow> dget (tab db2) k = dget (tab db) k"
proof -
  note i = for_staged_table [where tab = tab and P = P, OF ins f]
  note u = for_staged_table [where tab = tab and P = P, OF upd g]
  show "dwf (tab db) \<Longrightarrow> dwf (tab db2)" using i u by blast
  note ph = two_phases [OF conjunct2 [OF i] conjunct2 [OF u]]
  show "k \<in> set (new @ dirty) \<Longrightarrow> \<exists>v r. dget staged k = Some v \<and> dget (tab db2) k = Some r \<and> P k v r"
    by (rule ph(1))
  show "k \<notin> set (new @ dirty) \<Longrightarrow> dget (tab db2) k = dget (tab db) k" by (rule ph(2))
qed

text \<open>A saved row was found as the unit of work expected it.\<close>

lemma update_found:
  assumes ins: "for_staged f new staged db = Inr db1"
    and upd: "for_staged g (minus_keys dirty new) staged db1 = Inr db2" and "distinct dirty"
    and f: "\<And>k v db db'. f k v db = Inr db' \<Longrightarrow> dget staged k = Some v \<Longrightarrow> \<exists>r. tab db' = dset k r (tab db)"
    and g: "\<And>k v db db'. g k v db = Inr db' \<Longrightarrow> dget staged k = Some v \<Longrightarrow>
              (\<exists>r. tab db' = dset k r (tab db)) \<and> C k (dget (tab db) k)"
    and k: "k \<in> set dirty" "k \<notin> set new"
  shows "C k (dget (tab db) k)"
proof -
  have "\<exists>v. dget staged k = Some v \<and> C k (dget (tab db1) k)"
  proof (rule for_staged_found [where C = "\<lambda>v. C k" and tab = tab, OF upd])
    show "distinct (minus_keys dirty new)" using assms(3) by (simp add: minus_keys_def)
    show "k \<in> set (minus_keys dirty new)" using k by (simp add: minus_keys_def)
  qed (auto dest: g)
  moreover have "dget (tab db1) k = dget (tab db) k"
    using for_staged_table [where tab = tab and P = "\<lambda>_ _ _. True", OF ins] f k(2) by auto
  ultimately show ?thesis by simp
qed

subsection \<open>Runs\<close>

lemma insert_run_does:
  assumes "insert_run sequences v db = Inr db'"
  shows "db' = db\<lparr>db_runs := dset (wr_run_id v) (run_values v (sequence_of sequences (wr_run_id v))) (db_runs db)\<rparr>"
  using assms by (auto simp: insert_run_def Let_def)

lemma update_run_does:
  assumes "update_run n v db = Inr db'"
  shows "\<exists>r. dget (db_runs db) (wr_run_id v) = Some r \<and> rr_revision r = n
    \<and> db' = db\<lparr>db_runs := dset (wr_run_id v) (run_values v (rr_last_event_sequence r)) (db_runs db)\<rparr>"
  using assms by (auto simp: update_run_def split: option.splits if_splits)

lemma with_expected_Inr:
  "with_expected expected f k v db = Inr db' \<longleftrightarrow> (\<exists>n. dget expected k = Some n \<and> f k n v db = Inr db')"
  by (auto simp: with_expected_def sbind_Inr_iff)

lemma runs_phase:
  assumes ins: "for_staged (\<lambda>_. insert_run sequences) new staged db = Inr db1"
    and upd: "for_staged (with_expected expected (\<lambda>_. update_run)) (minus_keys dirty new) staged db1 = Inr db2"
    and key: "table_ok wr_run_id staged" and dist: "distinct dirty"
  shows "db2\<lparr>db_runs := []\<rparr> = db\<lparr>db_runs := []\<rparr>"
    and "dwf (db_runs db) \<Longrightarrow> dwf (db_runs db2)"
    and "k \<in> set (new @ dirty) \<Longrightarrow>
           \<exists>v r. dget staged k = Some v \<and> dget (db_runs db2) k = Some r \<and> load_run k r = Inr (reload_run v)"
    and "k \<notin> set (new @ dirty) \<Longrightarrow> dget (db_runs db2) k = dget (db_runs db) k"
    and "k \<in> set dirty \<Longrightarrow> k \<notin> set new \<Longrightarrow>
           \<exists>n r. dget expected k = Some n \<and> dget (db_runs db) k = Some r \<and> rr_revision r = n"
    and "map_option rr_last_event_sequence (dget (db_runs db2) k)
           = (if k \<in> set new then Some (sequence_of sequences k)
              else map_option rr_last_event_sequence (dget (db_runs db) k))"
proof -
  let ?P = "\<lambda>k v r. load_run k r = Inr (reload_run v)"
  have f: "\<exists>r. db_runs db' = dset k r (db_runs db) \<and> ?P k v r \<and> rr_last_event_sequence r = sequence_of sequences k"
    if "insert_run sequences v db = Inr db'" and "dget staged k = Some v" for k v db db'
    using insert_run_does [OF that(1)] table_ok_dget [OF key that(2)] load_run_values [of v]
    by (auto simp: run_values_def)
  have g: "\<exists>r. db_runs db' = dset k r (db_runs db) \<and> ?P k v r
      \<and> (\<exists>r0. dget (db_runs db) k = Some r0 \<and> rr_last_event_sequence r = rr_last_event_sequence r0
            \<and> dget expected k = Some (rr_revision r0))"
    if u: "with_expected expected (\<lambda>_. update_run) k v db = Inr db'" and v: "dget staged k = Some v" for k v db db'
  proof -
    obtain n where n: "dget expected k = Some n" "update_run n v db = Inr db'" using u by (auto simp: with_expected_Inr)
    from update_run_does [OF n(2)] n(1) show ?thesis
      using table_ok_dget [OF key v] load_run_values [of v] by (auto simp: run_values_def)
  qed
  show "db2\<lparr>db_runs := []\<rparr> = db\<lparr>db_runs := []\<rparr>"
    using for_staged_frame [OF ins, of "\<lambda>db. db\<lparr>db_runs := []\<rparr>"] for_staged_frame [OF upd, of "\<lambda>db. db\<lparr>db_runs := []\<rparr>"]
    by (fastforce simp: with_expected_Inr dest!: insert_run_does update_run_does)
  note ph = table_phases [where tab = db_runs and P = ?P, OF ins upd]
  show "dwf (db_runs db) \<Longrightarrow> dwf (db_runs db2)" using ph(1) f g by blast
  show "k \<in> set (new @ dirty) \<Longrightarrow>
           \<exists>v r. dget staged k = Some v \<and> dget (db_runs db2) k = Some r \<and> load_run k r = Inr (reload_run v)"
    using ph(2) f g by blast
  show "k \<notin> set (new @ dirty) \<Longrightarrow> dget (db_runs db2) k = dget (db_runs db) k" using ph(3) f g by blast
  show "k \<in> set dirty \<Longrightarrow> k \<notin> set new \<Longrightarrow>
           \<exists>n r. dget expected k = Some n \<and> dget (db_runs db) k = Some r \<and> rr_revision r = n"
    using update_found [where tab = db_runs and k = k
        and C = "\<lambda>k old. \<exists>n r. dget expected k = Some n \<and> old = Some r \<and> rr_revision r = n", OF ins upd dist] f g
    by blast
  have s: "\<exists>r. db_runs db' = dset k r (db_runs db) \<and> rr_last_event_sequence r = sequence_of sequences k"
    if "insert_run sequences v db = Inr db'" and "dget staged k = Some v" for k v db db'
    using f [OF that] by blast
  have i: "map_option rr_last_event_sequence (dget (db_runs db1) k)
      = (if k \<in> set new then Some (sequence_of sequences k) else map_option rr_last_event_sequence (dget (db_runs db) k))"
    using conjunct2 [OF for_staged_table [where tab = db_runs
        and P = "\<lambda>k _ r. rr_last_event_sequence r = sequence_of sequences k", OF ins s], THEN spec [where x = k]]
    by (auto split: if_splits)
  have "\<forall>j. map_option rr_last_event_sequence (dget (db_runs db2) j) = map_option rr_last_event_sequence (dget (db_runs db1) j)"
  proof (rule for_staged_invariant [OF upd, where J = "\<lambda>x. \<forall>j. map_option rr_last_event_sequence (dget (db_runs x) j)
        = map_option rr_last_event_sequence (dget (db_runs db1) j)"])
    fix i v x x'
    assume u: "with_expected expected (\<lambda>_. update_run) i v x = Inr x'" and v: "dget staged i = Some v"
      and x: "\<forall>j. map_option rr_last_event_sequence (dget (db_runs x) j)
        = map_option rr_last_event_sequence (dget (db_runs db1) j)"
    from g [OF u v] obtain r r0 where r: "db_runs x' = dset i r (db_runs x)" "dget (db_runs x) i = Some r0"
      "rr_last_event_sequence r = rr_last_event_sequence r0" by blast
    then have "map_option rr_last_event_sequence (dget (db_runs x') j)
        = map_option rr_last_event_sequence (dget (db_runs x) j)" for j by simp
    then show "\<forall>j. map_option rr_last_event_sequence (dget (db_runs x') j)
        = map_option rr_last_event_sequence (dget (db_runs db1) j)" using x by simp
  qed simp
  then show "map_option rr_last_event_sequence (dget (db_runs db2) k)
           = (if k \<in> set new then Some (sequence_of sequences k)
              else map_option rr_last_event_sequence (dget (db_runs db) k))" using i by simp
qed

subsection \<open>Definitions, steps and attempts\<close>

lemma definitions_phase:
  assumes ins: "for_staged (\<lambda>_. insert_definition) new staged db = Inr db'"
    and key: "table_ok definition_key_of staged"
    and ok: "\<forall>k \<in> set new. \<forall>w. dget staged k = Some w \<longrightarrow>
               (\<exists>reg. definition_ok reg w) \<and> (\<forall>s \<in> set (wd_steps w). distinct_keys (sd_arguments s))"
  shows "db'\<lparr>db_definitions := []\<rparr> = db\<lparr>db_definitions := []\<rparr>"
    and "dwf (db_definitions db) \<Longrightarrow> dwf (db_definitions db')"
    and "k \<in> set new \<Longrightarrow> \<exists>w r. dget staged k = Some w \<and> dget (db_definitions db') k = Some r
           \<and> load_definition k r = Inr (reload_definition w)"
    and "k \<notin> set new \<Longrightarrow> dget (db_definitions db') k = dget (db_definitions db) k"
proof -
  have f: "\<exists>r. db_definitions db' = dset k r (db_definitions db) \<and> json_column (definition_to_mapping w) = Inr (dr_json r)"
    if "insert_definition w db = Inr db'" and "dget staged k = Some w" for k w db db'
    using that table_ok_dget [OF key that(2)] by (auto simp: insert_definition_def)
  note t = for_staged_table [where tab = db_definitions
      and P = "\<lambda>_ w r. json_column (definition_to_mapping w) = Inr (dr_json r)", OF ins f]
  show "db'\<lparr>db_definitions := []\<rparr> = db\<lparr>db_definitions := []\<rparr>"
    using for_staged_frame [OF ins, of "\<lambda>db. db\<lparr>db_definitions := []\<rparr>"]
    by (fastforce simp: insert_definition_def)
  show "dwf (db_definitions db) \<Longrightarrow> dwf (db_definitions db')" using t by blast
  show "k \<notin> set new \<Longrightarrow> dget (db_definitions db') k = dget (db_definitions db) k"
    using conjunct2 [OF t, THEN spec [where x = k]] by simp
  assume k: "k \<in> set new"
  then obtain w r where w: "dget staged k = Some w" "dget (db_definitions db') k = Some r"
    and j: "json_column (definition_to_mapping w) = Inr (dr_json r)"
    using conjunct2 [OF t, THEN spec [where x = k]] by auto
  obtain reg where reg: "definition_ok reg w" and d: "\<forall>s \<in> set (wd_steps w). distinct_keys (sd_arguments s)"
    using ok k w(1) by blast
  have "load_definition k r = Inr (reload_definition w)"
    using stored_definition_aux [OF reg d] j by (simp add: load_definition_def)
  then show "\<exists>w r. dget staged k = Some w \<and> dget (db_definitions db') k = Some r
           \<and> load_definition k r = Inr (reload_definition w)"
    using w by blast
qed

lemma insert_step_does:
  assumes "insert_step v db = Inr db'"
  shows "db' = db\<lparr>db_steps := dset (step_key_of v) (step_values v) (db_steps db)\<rparr>"
  using assms by (auto simp: insert_step_def)

lemma update_step_does:
  assumes "update_step n v db = Inr db'"
  shows "\<exists>r. dget (db_steps db) (step_key_of v) = Some r \<and> tr_revision r = n
    \<and> db' = db\<lparr>db_steps := dset (step_key_of v) (step_values v) (db_steps db)\<rparr>"
  using assms by (auto simp: update_step_def split: option.splits if_splits)

lemma steps_phase:
  assumes ins: "for_staged (\<lambda>_. insert_step) new staged db = Inr db1"
    and upd: "for_staged (with_expected expected (\<lambda>_. update_step)) (minus_keys dirty new) staged db1 = Inr db2"
    and key: "table_ok step_key_of staged" and dist: "distinct dirty"
  shows "db2\<lparr>db_steps := []\<rparr> = db\<lparr>db_steps := []\<rparr>"
    and "dwf (db_steps db) \<Longrightarrow> dwf (db_steps db2)"
    and "k \<in> set (new @ dirty) \<Longrightarrow>
           \<exists>v r. dget staged k = Some v \<and> dget (db_steps db2) k = Some r \<and> load_step k r = Inr v"
    and "k \<notin> set (new @ dirty) \<Longrightarrow> dget (db_steps db2) k = dget (db_steps db) k"
    and "k \<in> set dirty \<Longrightarrow> k \<notin> set new \<Longrightarrow>
           \<exists>n r. dget expected k = Some n \<and> dget (db_steps db) k = Some r \<and> tr_revision r = n"
proof -
  let ?P = "\<lambda>k v r. load_step k r = Inr v"
  have f: "\<exists>r. db_steps db' = dset k r (db_steps db) \<and> ?P k v r"
    if "insert_step v db = Inr db'" and "dget staged k = Some v" for k v db db'
    using insert_step_does [OF that(1)] table_ok_dget [OF key that(2)] load_step_values [of v] by auto
  have g: "\<exists>r. db_steps db' = dset k r (db_steps db) \<and> ?P k v r
      \<and> (\<exists>r0. dget (db_steps db) k = Some r0 \<and> dget expected k = Some (tr_revision r0))"
    if u: "with_expected expected (\<lambda>_. update_step) k v db = Inr db'" and v: "dget staged k = Some v" for k v db db'
  proof -
    obtain n where n: "dget expected k = Some n" "update_step n v db = Inr db'" using u by (auto simp: with_expected_Inr)
    from update_step_does [OF n(2)] n(1) show ?thesis
      using table_ok_dget [OF key v] load_step_values [of v] by auto
  qed
  show "db2\<lparr>db_steps := []\<rparr> = db\<lparr>db_steps := []\<rparr>"
    using for_staged_frame [OF ins, of "\<lambda>db. db\<lparr>db_steps := []\<rparr>"] for_staged_frame [OF upd, of "\<lambda>db. db\<lparr>db_steps := []\<rparr>"]
    by (fastforce simp: with_expected_Inr dest!: insert_step_does update_step_does)
  note ph = table_phases [where tab = db_steps and P = ?P, OF ins upd]
  show "dwf (db_steps db) \<Longrightarrow> dwf (db_steps db2)" using ph(1) f g by blast
  show "k \<in> set (new @ dirty) \<Longrightarrow>
           \<exists>v r. dget staged k = Some v \<and> dget (db_steps db2) k = Some r \<and> load_step k r = Inr v"
    using ph(2) f g by blast
  show "k \<notin> set (new @ dirty) \<Longrightarrow> dget (db_steps db2) k = dget (db_steps db) k" using ph(3) f g by blast
  show "k \<in> set dirty \<Longrightarrow> k \<notin> set new \<Longrightarrow>
           \<exists>n r. dget expected k = Some n \<and> dget (db_steps db) k = Some r \<and> tr_revision r = n"
    using update_found [where tab = db_steps and k = k
        and C = "\<lambda>k old. \<exists>n r. dget expected k = Some n \<and> old = Some r \<and> tr_revision r = n", OF ins upd dist] f g
    by blast
qed

lemma attempts_phase:
  assumes ins: "for_staged (\<lambda>_. insert_attempt) new staged db = Inr db1"
    and upd: "for_staged update_attempt (minus_keys dirty new) staged db1 = Inr db2"
    and key: "table_ok attempt_key_of staged"
  shows "db2\<lparr>db_attempts := []\<rparr> = db\<lparr>db_attempts := []\<rparr>"
    and "dwf (db_attempts db) \<Longrightarrow> dwf (db_attempts db2)"
    and "k \<in> set (new @ dirty) \<Longrightarrow>
           \<exists>v r. dget staged k = Some v \<and> dget (db_attempts db2) k = Some r \<and> load_attempt k r = Inr (reload_attempt v)"
    and "k \<notin> set (new @ dirty) \<Longrightarrow> dget (db_attempts db2) k = dget (db_attempts db) k"
proof -
  let ?P = "\<lambda>k v r. load_attempt k r = Inr (reload_attempt v)"
  have f: "\<exists>r. db_attempts db' = dset k r (db_attempts db) \<and> ?P k v r"
    if "insert_attempt v db = Inr db'" and "dget staged k = Some v" for k v db db'
    using that table_ok_dget [OF key that(2)]
    by (auto simp: insert_attempt_def load_attempt_def dest!: stored_Inr)
  have g: "\<exists>r. db_attempts db' = dset k r (db_attempts db) \<and> ?P k v r"
    if "update_attempt k v db = Inr db'" and "dget staged k = Some v" for k v db db'
    using that by (auto simp: update_attempt_def load_attempt_def split: if_splits dest!: stored_Inr)
  show "db2\<lparr>db_attempts := []\<rparr> = db\<lparr>db_attempts := []\<rparr>"
    using for_staged_frame [OF ins, of "\<lambda>db. db\<lparr>db_attempts := []\<rparr>"]
      for_staged_frame [OF upd, of "\<lambda>db. db\<lparr>db_attempts := []\<rparr>"]
    by (fastforce simp: insert_attempt_def update_attempt_def split: if_splits)
  note ph = table_phases [where tab = db_attempts and P = ?P, OF ins upd f g]
  show "dwf (db_attempts db) \<Longrightarrow> dwf (db_attempts db2)" by (rule ph(1))
  show "k \<in> set (new @ dirty) \<Longrightarrow>
           \<exists>v r. dget staged k = Some v \<and> dget (db_attempts db2) k = Some r \<and> load_attempt k r = Inr (reload_attempt v)"
    by (rule ph(2))
  show "k \<notin> set (new @ dirty) \<Longrightarrow> dget (db_attempts db2) k = dget (db_attempts db) k" by (rule ph(3))
qed

subsection \<open>Approvals\<close>

text \<open>What the schema promises of the rows of the approvals.\<close>

definition approvals_checked :: "(approval_key, approval_row) dict \<Rightarrow> bool" where
  "approvals_checked t \<longleftrightarrow> dwf t
     \<and> (\<forall>k r. dget t k = Some r \<longrightarrow> approval_checks r = Inr ())
     \<and> (\<forall>k k' r r'. dget t k = Some r \<longrightarrow> dget t k' = Some r' \<longrightarrow> fst k = fst k' \<longrightarrow>
          pr_status r = ''pending'' \<longrightarrow> pr_status r' = ''pending'' \<longrightarrow> k = k')"

lemma pending_index_Inr:
  "dwf t \<Longrightarrow> pending_index k r t = Inr u \<longleftrightarrow>
     (pr_status r = ''pending'' \<longrightarrow>
        (\<forall>k' r'. dget t k' = Some r' \<longrightarrow> fst k' = fst k \<longrightarrow> k' \<noteq> k \<longrightarrow> pr_status r' \<noteq> ''pending''))"
  by (auto simp: pending_index_def list_all_iff)

lemma approvals_checked_dset:
  assumes t: "approvals_checked t" and "approval_checks r = Inr ()" and "pending_index k r t = Inr u"
  shows "approvals_checked (dset k r t)"
proof -
  have d: "dwf t" using t by (simp add: approvals_checked_def)
  have p: "pr_status r = ''pending'' \<longrightarrow>
        (\<forall>k' r'. dget t k' = Some r' \<longrightarrow> fst k' = fst k \<longrightarrow> k' \<noteq> k \<longrightarrow> pr_status r' \<noteq> ''pending'')"
    using assms(3) pending_index_Inr [OF d] by blast
  show ?thesis unfolding approvals_checked_def
  proof (intro conjI allI impI)
    show "dwf (dset k r t)" using d by simp
    show "approval_checks r' = Inr ()" if "dget (dset k r t) k' = Some r'" for k' r'
    proof (cases "k' = k")
      case False
      then have "dget t k' = Some r'" using that by simp
      then show ?thesis using t unfolding approvals_checked_def by blast
    qed (use that assms(2) in simp)
    show "i = j" if "dget (dset k r t) i = Some a" "dget (dset k r t) j = Some b" "fst i = fst j"
      "pr_status a = ''pending''" "pr_status b = ''pending''" for i j a b
    proof (rule ccontr)
      assume ne: "i \<noteq> j"
      consider "i = k" | "j = k" | "i \<noteq> k" "j \<noteq> k" by blast
      then show False
      proof cases
        case 1
        then have "r = a" and "dget t j = Some b" using that(1,2) ne by simp_all
        then show ?thesis using p that(3-5) 1 ne by metis
      next
        case 2
        then have "r = b" and "dget t i = Some a" using that(1,2) ne by simp_all
        then show ?thesis using p that(3-5) 2 ne by metis
      next
        case 3
        then have "dget t i = Some a" and "dget t j = Some b" using that(1,2) by simp_all
        then show ?thesis using t that(3-5) ne unfolding approvals_checked_def by blast
      qed
    qed
  qed
qed

lemma insert_approval_does:
  assumes "insert_approval a db = Inr db'"
  obtains r where "approval_values a = Inr r" and "approval_checks r = Inr ()"
    and "pending_index (approval_key_of a) r (db_approvals db) = Inr ()"
    and "db' = db\<lparr>db_approvals := dset (approval_key_of a) r (db_approvals db)\<rparr>"
  using assms unfolding insert_approval_def by (elim sbind_InrE) auto

lemma update_approval_does:
  assumes "update_approval k n a db = Inr db'"
  obtains r old where "approval_values a = Inr r" and "approval_checks r = Inr ()"
    and "dget (db_approvals db) k = Some old" and "pr_version old = n"
    and "pending_index k r (db_approvals db) = Inr ()"
    and "db' = db\<lparr>db_approvals := dset k r (db_approvals db)\<rparr>"
  using assms unfolding update_approval_def by (elim sbind_InrE) (auto split: option.splits if_splits)

lemma approvals_phase:
  assumes ins: "for_staged (\<lambda>_. insert_approval) new staged db = Inr db1"
    and upd: "for_staged (with_expected expected update_approval) (minus_keys dirty new) staged db1 = Inr db2"
    and key: "table_ok approval_key_of staged" and dist: "distinct dirty"
    and ok: "\<forall>k \<in> set (new @ dirty). \<forall>a. dget staged k = Some a \<longrightarrow> (\<exists>r. a = Request r \<and> make_request r = Inr r)"
  shows "db2\<lparr>db_approvals := []\<rparr> = db\<lparr>db_approvals := []\<rparr>"
    and "approvals_checked (db_approvals db) \<Longrightarrow> approvals_checked (db_approvals db2)"
    and "k \<in> set (new @ dirty) \<Longrightarrow> \<exists>a r. dget staged k = Some a \<and> dget (db_approvals db2) k = Some r
           \<and> load_approval k r = Inr (reload_approval a)"
    and "k \<notin> set (new @ dirty) \<Longrightarrow> dget (db_approvals db2) k = dget (db_approvals db) k"
    and "k \<in> set dirty \<Longrightarrow> k \<notin> set new \<Longrightarrow>
           \<exists>n r. dget expected k = Some n \<and> dget (db_approvals db) k = Some r \<and> pr_version r = n"
    and "dwf (db_approvals db) \<Longrightarrow> dwf (db_approvals db2)"
proof -
  let ?P = "\<lambda>k a r. approval_values a = Inr r"
  have f: "\<exists>r. db_approvals db' = dset k r (db_approvals db) \<and> ?P k a r
      \<and> approval_checks r = Inr () \<and> pending_index k r (db_approvals db) = Inr ()"
    if i: "insert_approval a db = Inr db'" and a: "dget staged k = Some a" for k a db db'
    by (rule insert_approval_does [OF i]) (use table_ok_dget [OF key a] in auto)
  have g: "\<exists>r. db_approvals db' = dset k r (db_approvals db) \<and> ?P k a r
      \<and> approval_checks r = Inr () \<and> pending_index k r (db_approvals db) = Inr ()
      \<and> (\<exists>r0. dget (db_approvals db) k = Some r0 \<and> dget expected k = Some (pr_version r0))"
    if u: "with_expected expected update_approval k a db = Inr db'" and a: "dget staged k = Some a" for k a db db'
  proof -
    obtain n where n: "dget expected k = Some n" and un: "update_approval k n a db = Inr db'"
      using u by (auto simp: with_expected_Inr)
    show ?thesis by (rule update_approval_does [OF un]) (use n in auto)
  qed
  have frame_i: "db'\<lparr>db_approvals := []\<rparr> = db\<lparr>db_approvals := []\<rparr>" if i: "insert_approval a db = Inr db'" for a db db'
    by (rule insert_approval_does [OF i]) simp
  have frame_u: "db'\<lparr>db_approvals := []\<rparr> = db\<lparr>db_approvals := []\<rparr>"
    if u: "with_expected expected update_approval k a db = Inr db'" for k a db db'
  proof -
    obtain n where un: "update_approval k n a db = Inr db'" using u by (auto simp: with_expected_Inr)
    show ?thesis by (rule update_approval_does [OF un]) simp
  qed
  show "db2\<lparr>db_approvals := []\<rparr> = db\<lparr>db_approvals := []\<rparr>"
    using for_staged_frame [OF ins, where g = "\<lambda>x. x\<lparr>db_approvals := []\<rparr>", OF frame_i]
      for_staged_frame [OF upd, where g = "\<lambda>x. x\<lparr>db_approvals := []\<rparr>", OF frame_u]
    by simp
  show "approvals_checked (db_approvals db2)" if "approvals_checked (db_approvals db)"
  proof -
    have "approvals_checked (db_approvals db1)"
      using for_staged_invariant [OF ins, where J = "\<lambda>x. approvals_checked (db_approvals x)", OF that]
        f approvals_checked_dset by metis
    then show ?thesis
      using for_staged_invariant [OF upd, where J = "\<lambda>x. approvals_checked (db_approvals x)"]
        g approvals_checked_dset by metis
  qed
  note ph = table_phases [where tab = db_approvals and P = ?P, OF ins upd]
  show "dwf (db_approvals db) \<Longrightarrow> dwf (db_approvals db2)" using ph(1) f g by blast
  show "k \<notin> set (new @ dirty) \<Longrightarrow> dget (db_approvals db2) k = dget (db_approvals db) k" using ph(3) f g by blast
  show "\<exists>a r. dget staged k = Some a \<and> dget (db_approvals db2) k = Some r \<and> load_approval k r = Inr (reload_approval a)"
    if k: "k \<in> set (new @ dirty)"
  proof -
    obtain a r where a: "dget staged k = Some a" "dget (db_approvals db2) k = Some r" "approval_values a = Inr r"
      using ph(2) [OF _ _ k] f g by blast
    obtain q where "a = Request q" "make_request q = Inr q" using ok k a(1) by blast
    then show ?thesis using a load_approval_values [of q r] table_ok_dget [OF key a(1)] by auto
  qed
  show "k \<in> set dirty \<Longrightarrow> k \<notin> set new \<Longrightarrow>
           \<exists>n r. dget expected k = Some n \<and> dget (db_approvals db) k = Some r \<and> pr_version r = n"
    using update_found [where tab = db_approvals and k = k
        and C = "\<lambda>k old. \<exists>n r. dget expected k = Some n \<and> old = Some r \<and> pr_version r = n", OF ins upd dist] f g
    by blast
qed

end
