(* ===== verification/Sqlite_Guarantees.thy ===== *)
theory Sqlite_Guarantees
  imports Sqlite_Refinement
begin

text \<open>
  What a commit on SQLite guarantees: the refinement of the commit in memory, and the unit of work
  that memory accepts and SQLite refuses.
\<close>

section \<open>Events\<close>

lemma dset_absent: "dget d k = None \<Longrightarrow> dset k v d = d @ [(k, v)]"
  by (induction d) (auto split: if_splits)

lemma insort_append: "\<forall>b \<in> set ys. f x \<le> f b \<Longrightarrow> insort_key f x (xs @ ys) = insort_key f x xs @ ys"
  by (induction xs) (cases ys; simp)+

lemma sort_append:
  assumes "\<forall>x \<in> set xs. \<forall>y \<in> set ys. f x \<le> f y" and "sorted (map f ys)"
  shows "sort_key f (xs @ ys) = sort_key f xs @ ys"
  using assms(1) by (induction xs) (simp_all add: sort_key_id_if_sorted assms(2) insort_append)

definition entry_of :: "(string \<times> int) \<times> event_row \<Rightarrow> int \<times> audit_event" where
  "entry_of kr = (snd (fst kr), vr_payload (snd kr))"

lemma load_events_fold:
  "dget_list (foldl (\<lambda>t ((run_id, n), r). dset run_id (dget_list t run_id @ [(n, vr_payload r)]) t) t xs) r
     = dget_list t r @ map entry_of (filter (\<lambda>kr. fst (fst kr) = r) xs)"
  by (induction xs arbitrary: t) (auto simp: entry_of_def)

lemma load_events_dwf: "dwf (load_events db)"
proof -
  have "dwf (foldl (\<lambda>t ((run_id, n), r). dset run_id (dget_list t run_id @ [(n, vr_payload r)]) t) t xs)"
    if "dwf t" for t :: "(string, event_log) dict" and xs :: "((string \<times> int) \<times> event_row) list"
    using that by (induction xs arbitrary: t) auto
  then show ?thesis unfolding load_events_def by simp
qed

lemma load_events_list:
  "dget_list (load_events db) r = map entry_of (sort_key fst (filter (\<lambda>kr. fst (fst kr) = r) (db_events db)))"
  unfolding load_events_def load_events_fold filter_sort by (simp add: dget_list_def)

definition event_values :: "audit_event \<Rightarrow> event_row" where
  "event_values e =
     \<lparr>vr_step_id = ev_step_id e, vr_event_type = ev_event_type e, vr_occurred_at = ev_occurred_at e,
      vr_previous_state = ev_previous_state e, vr_new_state = ev_new_state e,
      vr_previous_revision = ev_previous_revision e, vr_revision = ev_revision e,
      vr_payload = reload_event e\<rparr>"

definition event_rows :: "string \<times> event_log \<times> int \<Rightarrow> ((string \<times> int) \<times> event_row) list" where
  "event_rows p = map (\<lambda>(n, e). ((ev_run_id e, n), event_values e)) (fst (snd p))"

lemma insert_event_does:
  assumes "insert_event n e db = Inr db'"
  shows "db' = db\<lparr>db_events := db_events db @ [((ev_run_id e, n), event_values e)]\<rparr> \<and> dget (db_events db) (ev_run_id e, n) = None"
  using assms unfolding insert_event_def
  by (elim sbind_InrE) (auto simp: event_values_def dset_absent dest!: stored_Inr)

lemma insert_event_dwf: "insert_event n e db = Inr db' \<Longrightarrow> dwf (db_events db) \<Longrightarrow> dwf (db_events db')"
  unfolding insert_event_def by (elim sbind_InrE) auto

lemma insert_events_do:
  assumes "sfold (\<lambda>(n, e). insert_event n e) es db = Inr db'"
  shows "db' = db\<lparr>db_events := db_events db @ map (\<lambda>(n, e). ((ev_run_id e, n), event_values e)) es\<rparr>"
    and "dwf (db_events db) \<Longrightarrow> dwf (db_events db')"
proof -
  have "db' = db\<lparr>db_events := db_events db @ map (\<lambda>(n, e). ((ev_run_id e, n), event_values e)) es\<rparr>
      \<and> (dwf (db_events db) \<longrightarrow> dwf (db_events db'))"
    using assms
  proof (induction es arbitrary: db)
    case (Cons x es)
    obtain n e where x: "x = (n, e)" by force
    from Cons.prems x obtain db1 where i: "insert_event n e db = Inr db1"
      and rest: "sfold (\<lambda>(n, e). insert_event n e) es db1 = Inr db'" by auto
    have "dwf (db_events db) \<longrightarrow> dwf (db_events db')"
      using insert_event_dwf [OF i] Cons.IH [OF rest] by blast
    moreover have "db' = db\<lparr>db_events := db_events db @ map (\<lambda>(n, e). ((ev_run_id e, n), event_values e)) (x # es)\<rparr>"
      using conjunct1 [OF Cons.IH [OF rest]] conjunct1 [OF insert_event_does [OF i]] x by simp
    ultimately show ?case by blast
  qed simp
  then show "db' = db\<lparr>db_events := db_events db @ map (\<lambda>(n, e). ((ev_run_id e, n), event_values e)) es\<rparr>"
    and "dwf (db_events db) \<Longrightarrow> dwf (db_events db')" by blast+
qed

lemma publish_run_does:
  assumes "publish_run_events p db = Inr db'"
  shows "db'\<lparr>db_runs := [], db_events := []\<rparr> = db\<lparr>db_runs := [], db_events := []\<rparr>"
    and "db_events db' = db_events db @ event_rows p"
    and "dwf (db_events db) \<Longrightarrow> dwf (db_events db')" and "dwf (db_runs db) \<Longrightarrow> dwf (db_runs db')"
    and "dget (db_runs db') k = map_option (\<lambda>r. if k = fst p then r\<lparr>rr_last_event_sequence := snd (snd p)\<rparr> else r)
           (dget (db_runs db) k)"
proof -
  from assms obtain db1 where e: "sfold (\<lambda>(n, e). insert_event n e) (fst (snd p)) db = Inr db1"
    and l: "set_last_sequence (fst p) (snd (snd p)) db1 = Inr db'"
    by (auto simp: publish_run_events_def)
  note i = insert_events_do [OF e]
  from l have d: "db' = (case dget (db_runs db1) (fst p) of None \<Rightarrow> db1
      | Some r \<Rightarrow> db1\<lparr>db_runs := dset (fst p) (r\<lparr>rr_last_event_sequence := snd (snd p)\<rparr>) (db_runs db1)\<rparr>)"
    by (auto simp: set_last_sequence_def)
  show "db'\<lparr>db_runs := [], db_events := []\<rparr> = db\<lparr>db_runs := [], db_events := []\<rparr>"
    and "db_events db' = db_events db @ event_rows p"
    and "dwf (db_runs db) \<Longrightarrow> dwf (db_runs db')"
    using i(1) by (simp_all add: d event_rows_def split: option.split)
  have "db_events db' = db_events db1" by (simp add: d split: option.split)
  then show "dwf (db_events db) \<Longrightarrow> dwf (db_events db')" using i(2) by simp
  have "db_runs db1 = db_runs db" using i(1) by simp
  then show "dget (db_runs db') k = map_option (\<lambda>r. if k = fst p then r\<lparr>rr_last_event_sequence := snd (snd p)\<rparr> else r)
           (dget (db_runs db) k)"
    by (cases "dget (db_runs db) (fst p)"; cases "k = fst p") (auto simp: d option.map_ident)
qed

lemma publish_events_do:
  assumes "sfold publish_run_events ps db = Inr db'" and "distinct (map fst ps)"
  shows "db'\<lparr>db_runs := [], db_events := []\<rparr> = db\<lparr>db_runs := [], db_events := []\<rparr>
    \<and> db_events db' = db_events db @ concat (map event_rows ps)
    \<and> (dwf (db_events db) \<longrightarrow> dwf (db_events db')) \<and> (dwf (db_runs db) \<longrightarrow> dwf (db_runs db'))
    \<and> (\<forall>k. dget (db_runs db') k
         = map_option (\<lambda>r. case dget ps k of None \<Rightarrow> r | Some q \<Rightarrow> r\<lparr>rr_last_event_sequence := snd q\<rparr>) (dget (db_runs db) k))"
  using assms
proof (induction ps arbitrary: db)
  case (Cons p ps)
  from Cons.prems(1) obtain db1 where p: "publish_run_events p db = Inr db1"
    and rest: "sfold publish_run_events ps db1 = Inr db'" by auto
  note one = publish_run_does [OF p]
  have dist: "distinct (map fst ps)" using Cons.prems(2) by simp
  note all = Cons.IH [OF rest dist]
  have "dget (db_runs db') k
      = map_option (\<lambda>r. case dget (p # ps) k of None \<Rightarrow> r | Some q \<Rightarrow> r\<lparr>rr_last_event_sequence := snd q\<rparr>) (dget (db_runs db) k)" for k
  proof (cases "k = fst p")
    case True
    then have "dget ps k = None" using Cons.prems(2) by (simp add: dget_None_iff)
    then show ?thesis using all one(5) [of k] True by (cases p) (simp add: option.map_comp comp_def)
  next
    case False
    then show ?thesis using all one(5) [of k] by (cases p) (simp add: option.map_ident)
  qed
  moreover have "dwf (db_events db) \<longrightarrow> dwf (db_events db')" "dwf (db_runs db) \<longrightarrow> dwf (db_runs db')"
    using all one(3,4) by blast+
  moreover have "db_events db' = db_events db @ concat (map event_rows (p # ps))"
    "db'\<lparr>db_runs := [], db_events := []\<rparr> = db\<lparr>db_runs := [], db_events := []\<rparr>"
    using all one(1,2) by simp_all
  ultimately show ?case by blast
qed (simp add: option.map_ident)

section \<open>Numbers of the published events\<close>

lemma load_sequences_dget:
  "dget (load_sequences db) r = map_option rr_last_event_sequence (dget (db_runs db) r)"
  unfolding load_sequences_def by (rule dget_map_values)

definition numbered_events :: "(string, int) dict \<Rightarrow> string \<times> audit_event list \<Rightarrow> string \<times> event_log \<times> int" where
  "numbered_events sequences re =
     (fst re, number_from (sequence_of sequences (fst re)) (snd re),
      sequence_of sequences (fst re) + int (length (snd re)))"

lemma allocate_run_Inr:
  "allocate_run u db re = Inr p \<Longrightarrow> p = numbered_events (load_sequences db) re
     \<and> (fst re \<in> set (sn_new_run_keys u) \<or> dget (db_runs db) (fst re) \<noteq> None)"
  by (auto simp: allocate_run_def numbered_events_def sequence_of_def load_sequences_dget
      split: option.splits if_splits)

lemma sql_allocate_Inr:
  assumes "sql_allocate u db = Inr ps"
  shows "ps = map (numbered_events (load_sequences db)) (sn_pending_events u)"
    and "re \<in> set (sn_pending_events u) \<Longrightarrow> fst re \<in> set (sn_new_run_keys u) \<or> dget (db_runs db) (fst re) \<noteq> None"
proof -
  have l: "list_all2 (\<lambda>re p. allocate_run u db re = Inr p) (sn_pending_events u) ps"
    using assms by (simp add: sql_allocate_def smap_Inr_iff)
  then have "list_all2 (\<lambda>re p. p = numbered_events (load_sequences db) re) (sn_pending_events u) ps"
    by (rule list.rel_mono_strong) (blast dest: allocate_run_Inr)
  then show "ps = map (numbered_events (load_sequences db)) (sn_pending_events u)"
    by (induction rule: list_all2_induct) simp_all
  have "\<forall>re \<in> set (sn_pending_events u). \<exists>p. allocate_run u db re = Inr p"
    using smap_total [of "allocate_run u db" "sn_pending_events u"] assms unfolding sql_allocate_def by blast
  moreover assume "re \<in> set (sn_pending_events u)"
  ultimately obtain p where "allocate_run u db re = Inr p" by blast
  then show "fst re \<in> set (sn_new_run_keys u) \<or> dget (db_runs db) (fst re) \<noteq> None" by (blast dest: allocate_run_Inr)
qed

lemma numbered_dget:
  "dget (map (numbered_events s) es) r
     = map_option (\<lambda>xs. (number_from (sequence_of s r) xs, sequence_of s r + int (length xs))) (dget es r)"
  by (induction es) (auto simp: numbered_events_def)

lemma filter_event_rows:
  assumes "distinct (map fst ps)" and "\<forall>p \<in> set ps. \<forall>ne \<in> set (fst (snd p)). ev_run_id (snd ne) = fst p"
  shows "filter (\<lambda>kr. fst (fst kr) = r) (concat (map event_rows ps))
    = (case dget ps r of None \<Rightarrow> [] | Some q \<Rightarrow> event_rows (r, q))"
  using assms
proof (induction ps)
  case (Cons p ps)
  have own: "filter (\<lambda>kr. fst (fst kr) = r) (event_rows p) = (if fst p = r then event_rows p else [])"
    using Cons.prems(2) by (auto simp: event_rows_def filter_map comp_def split_def intro!: filter_True filter_False)
  show ?case
  proof (cases "fst p = r")
    case True
    then have "dget ps r = None" using Cons.prems(1) by (auto simp: dget_None_iff)
    then show ?thesis using own True Cons by (cases p) simp
  next
    case False
    then show ?thesis using own Cons by (cases p) simp
  qed
qed simp

lemma number_from_map: "map (\<lambda>ne. (fst ne, f (snd ne))) (number_from n xs) = number_from n (map f xs)"
  by (simp add: number_from_def zip_map2 split_def)

lemma number_from_ge:
  assumes "x \<in> set (number_from n xs)"
  shows "n \<le> fst x"
proof -
  have "fst x \<in> set (map fst (number_from n xs))" using assms by simp
  then show ?thesis unfolding number_from_fst by auto
qed

lemma sorted_number_from: "sorted (map fst (number_from n xs))"
  unfolding number_from_fst by (simp add: sorted_map sorted_wrt_iff_nth_less)

definition rows_of :: "string \<Rightarrow> event_log \<Rightarrow> ((string \<times> int) \<times> event_row) list" where
  "rows_of r log = map (\<lambda>ne. ((r, fst ne), event_values (snd ne))) log"

lemma event_rows_of: "\<forall>ne \<in> set es. ev_run_id (snd ne) = r \<Longrightarrow> event_rows (r, es, n) = rows_of r es"
  by (auto simp: event_rows_def rows_of_def)

lemma entries_of_rows:
  "map entry_of (rows_of r (number_from n es)) = number_from n (map reload_event es)"
  unfolding number_from_map [symmetric] by (simp add: rows_of_def entry_of_def event_values_def comp_def)

lemma sorted_rows_of: "sorted (map fst log) \<Longrightarrow> sorted (map fst (rows_of r log))"
  by (induction log) (auto simp: rows_of_def)

lemma pending_runs:
  assumes "\<forall>(r, es) \<in> set pending. \<forall>e \<in> set es. ev_run_id e = r" and "dget pending r = Some es"
  shows "\<forall>ne \<in> set (number_from n es). ev_run_id (snd ne) = r"
proof
  fix ne assume "ne \<in> set (number_from n es)"
  then have "snd ne \<in> set es" using number_from_set [of "fst ne" "snd ne"] by simp
  then show "ev_run_id (snd ne) = r" using assms(1) map_of_SomeD [OF assms(2)] by blast
qed

lemma new_rows:
  assumes "dwf pending" and p: "\<forall>(r, es) \<in> set pending. \<forall>e \<in> set es. ev_run_id e = r"
  shows "filter (\<lambda>kr. fst (fst kr) = r) (concat (map event_rows (map (numbered_events s) pending)))
    = rows_of r (number_from (sequence_of s r) (dget_list pending r))"
proof -
  have ps: "map fst (map (numbered_events s) pending) = map fst pending"
    by (simp add: numbered_events_def comp_def)
  have "\<forall>q \<in> set (map (numbered_events s) pending). \<forall>ne \<in> set (fst (snd q)). ev_run_id (snd ne) = fst q"
  proof
    fix q assume "q \<in> set (map (numbered_events s) pending)"
    then obtain i es where q: "(i, es) \<in> set pending" "q = numbered_events s (i, es)" by auto
    then have "dget pending i = Some es" using assms(1) by simp
    from pending_runs [OF p this] show "\<forall>ne \<in> set (fst (snd q)). ev_run_id (snd ne) = fst q"
      by (simp add: q(2) numbered_events_def)
  qed
  then have "filter (\<lambda>kr. fst (fst kr) = r) (concat (map event_rows (map (numbered_events s) pending)))
      = (case dget (map (numbered_events s) pending) r of None \<Rightarrow> [] | Some q \<Rightarrow> event_rows (r, q))"
    by (intro filter_event_rows) (simp_all add: ps assms(1) del: map_map)
  also have "\<dots> = rows_of r (number_from (sequence_of s r) (dget_list pending r))"
  proof (cases "dget pending r")
    case None
    then show ?thesis by (simp add: numbered_dget dget_list_def rows_of_def)
  next
    case (Some es)
    from pending_runs [OF p this] show ?thesis by (simp add: Some numbered_dget dget_list_def event_rows_of)
  qed
  finally show ?thesis .
qed

text \<open>New events are appended to those that the tables had.\<close>

lemma old_numbers:
  assumes log: "log_ok st r" "ms_events st = load_events db" "ms_event_sequences st = load_sequences db"
    and x: "x \<in> set (filter (\<lambda>kr. fst (fst kr) = r) (db_events db))"
  shows "fst (fst x) = r" and "snd (fst x) \<le> sequence_of (load_sequences db) r"
proof -
  show "fst (fst x) = r" using x by simp
  have "entry_of x \<in> set (dget_list (load_events db) r)" unfolding load_events_list using x by simp
  then have "fst (entry_of x) \<in> set (map fst (dget_list (load_events db) r))" by simp
  also have "map fst (dget_list (load_events db) r) = map (\<lambda>i. 1 + int i) [0..<length (dget_list (load_events db) r)]"
    using log unfolding log_ok_def by simp
  finally have "fst (entry_of x) \<le> int (length (dget_list (load_events db) r))" by auto
  moreover have "sequence_of (load_sequences db) r = int (length (dget_list (load_events db) r))"
    using log unfolding log_ok_def by simp
  ultimately show "snd (fst x) \<le> sequence_of (load_sequences db) r" by (simp add: entry_of_def)
qed

lemma load_events_appended:
  assumes log: "log_ok st r" "ms_events st = load_events db" "ms_event_sequences st = load_sequences db"
    and events: "db_events db' = db_events db
        @ concat (map event_rows (map (numbered_events (load_sequences db)) pending))"
    and pending: "dwf pending" "\<forall>(r, es) \<in> set pending. \<forall>e \<in> set es. ev_run_id e = r"
  shows "dget_list (load_events db') r = dget_list (load_events db) r
      @ number_from (sequence_of (load_sequences db) r) (map reload_event (dget_list pending r))"
proof -
  let ?N = "sequence_of (load_sequences db) r" and ?P = "\<lambda>kr :: (string \<times> int) \<times> event_row. fst (fst kr) = r"
  let ?new = "rows_of r (number_from ?N (dget_list pending r))"
  have f: "filter ?P (db_events db') = filter ?P (db_events db) @ ?new"
    unfolding events filter_append new_rows [OF pending] ..
  have "sort_key fst (filter ?P (db_events db) @ ?new) = sort_key fst (filter ?P (db_events db)) @ ?new"
  proof (rule sort_append)
    show "\<forall>x \<in> set (filter ?P (db_events db)). \<forall>y \<in> set ?new. fst x \<le> fst y"
    proof (intro ballI)
      fix x y assume x: "x \<in> set (filter ?P (db_events db))" and "y \<in> set ?new"
      then obtain ne where "ne \<in> set (number_from ?N (dget_list pending r))" and "fst y = (r, fst ne)"
        by (auto simp: rows_of_def)
      then have "?N \<le> snd (fst y)" and "fst (fst y) = r" using number_from_ge [of ne] by auto
      then show "fst x \<le> fst y" using old_numbers [OF log x] by (simp add: less_eq_prod_def)
    qed
  qed (rule sorted_rows_of [OF sorted_number_from])
  then show ?thesis unfolding load_events_list f by (simp add: entries_of_rows)
qed

section \<open>The refinement\<close>

lemma sql_load_Inr:
  "sql_load db = Inr st \<longleftrightarrow>
     load_rows load_definition (db_definitions db) = Inr (ms_definitions st)
     \<and> load_rows load_run (db_runs db) = Inr (ms_runs st)
     \<and> load_rows load_step (db_steps db) = Inr (ms_steps st)
     \<and> load_rows load_attempt (db_attempts db) = Inr (ms_attempts st)
     \<and> load_rows load_approval (db_approvals db) = Inr (ms_approvals st)
     \<and> ms_events st = load_events db \<and> ms_event_sequences st = load_sequences db"
  by (cases st) (auto simp: sql_load_def sbind_Inr_iff)

text \<open>The constraints of the schema: primary keys, the checks on approvals and the pending index.\<close>

definition tables_ok :: "sql_db \<Rightarrow> bool" where
  "tables_ok db \<longleftrightarrow> dwf (db_definitions db) \<and> dwf (db_runs db) \<and> dwf (db_steps db)
     \<and> dwf (db_attempts db) \<and> approvals_checked (db_approvals db) \<and> dwf (db_events db)"

text \<open>
  The sets of a unit of work are sets, its tables of expected revisions have each key once, it adds
  nothing that it has saved before, and the runs that it adds have no events yet.
\<close>

definition added_first :: "'k list \<Rightarrow> 'k list \<Rightarrow> ('k, int) dict \<Rightarrow> bool" where
  "added_first new dirty expected \<longleftrightarrow>
     distinct dirty \<and> dwf expected \<and> (\<forall>k \<in> set new. dget expected k = None)"

definition keys_ok :: "uow \<Rightarrow> bool" where
  "keys_ok u \<longleftrightarrow>
     added_first (sn_new_run_keys u) (sn_dirty_run_keys u) (sn_run_expected_revisions u)
     \<and> added_first (sn_new_step_keys u) (sn_dirty_step_keys u) (sn_step_expected_revisions u)
     \<and> added_first (sn_new_approval_keys u) (sn_dirty_approval_keys u) (sn_approval_expected_versions u)
     \<and> (\<forall>r \<in> set (sn_new_run_keys u). sequence_of (sn_committed_event_sequences u) r = 0)"

text \<open>
  The definitions that it adds were accepted by \<open>from_mapping\<close>, and the approvals that it writes are
  requests that their constructor accepted.
\<close>

definition records_ok :: "uow \<Rightarrow> bool" where
  "records_ok u \<longleftrightarrow>
     (\<forall>k \<in> set (sn_new_definition_keys u). \<forall>w. dget (sn_definitions u) k = Some w \<longrightarrow>
        (\<exists>reg. definition_ok reg w) \<and> (\<forall>s \<in> set (wd_steps w). distinct_keys (sd_arguments s)))
     \<and> (\<forall>k \<in> set (sn_new_approval_keys u @ sn_dirty_approval_keys u). \<forall>a. dget (sn_approvals u) k = Some a \<longrightarrow>
        (\<exists>r. a = Request r \<and> make_request r = Inr r))"

text \<open>Two stores that answer every query alike.\<close>

definition same_store :: "memory_store \<Rightarrow> memory_store \<Rightarrow> bool" where
  "same_store st st' \<longleftrightarrow> dget (ms_definitions st) = dget (ms_definitions st')
     \<and> dget (ms_runs st) = dget (ms_runs st') \<and> dget (ms_steps st) = dget (ms_steps st')
     \<and> dget (ms_attempts st) = dget (ms_attempts st') \<and> dget (ms_approvals st) = dget (ms_approvals st')
     \<and> (\<forall>r. dget_list (ms_events st) r = dget_list (ms_events st') r)
     \<and> (\<forall>r. sequence_of (ms_event_sequences st) r = sequence_of (ms_event_sequences st') r)"

lemma frames:
  "a\<lparr>db_definitions := []\<rparr> = b\<lparr>db_definitions := []\<rparr> \<Longrightarrow> db_runs a = db_runs b \<and> db_steps a = db_steps b
     \<and> db_attempts a = db_attempts b \<and> db_approvals a = db_approvals b \<and> db_events a = db_events b"
  "a\<lparr>db_runs := []\<rparr> = b\<lparr>db_runs := []\<rparr> \<Longrightarrow> db_definitions a = db_definitions b \<and> db_steps a = db_steps b
     \<and> db_attempts a = db_attempts b \<and> db_approvals a = db_approvals b \<and> db_events a = db_events b"
  "a\<lparr>db_steps := []\<rparr> = b\<lparr>db_steps := []\<rparr> \<Longrightarrow> db_definitions a = db_definitions b \<and> db_runs a = db_runs b
     \<and> db_attempts a = db_attempts b \<and> db_approvals a = db_approvals b \<and> db_events a = db_events b"
  "a\<lparr>db_attempts := []\<rparr> = b\<lparr>db_attempts := []\<rparr> \<Longrightarrow> db_definitions a = db_definitions b \<and> db_runs a = db_runs b
     \<and> db_steps a = db_steps b \<and> db_approvals a = db_approvals b \<and> db_events a = db_events b"
  "a\<lparr>db_approvals := []\<rparr> = b\<lparr>db_approvals := []\<rparr> \<Longrightarrow> db_definitions a = db_definitions b \<and> db_runs a = db_runs b
     \<and> db_steps a = db_steps b \<and> db_attempts a = db_attempts b \<and> db_events a = db_events b"
  "a\<lparr>db_runs := [], db_events := []\<rparr> = b\<lparr>db_runs := [], db_events := []\<rparr> \<Longrightarrow> db_definitions a = db_definitions b
     \<and> db_steps a = db_steps b \<and> db_attempts a = db_attempts b \<and> db_approvals a = db_approvals b"
  by (cases a; cases b; simp)+

text \<open>The tables that \<open>_publish\<close> leaves, each from the loops that write it.\<close>

lemma sql_publish_phases:
  assumes "sql_publish u ps db = Inr db'"
  obtains d1 d2 d3 d4 d5 d6 d7 d8 d9 where
    "for_staged (\<lambda>_. insert_definition) (sn_new_definition_keys u) (sn_definitions u) db = Inr d1"
    and "for_staged (\<lambda>_. insert_run (sn_committed_event_sequences u)) (sn_new_run_keys u) (sn_runs u) d1 = Inr d2"
    and "for_staged (with_expected (sn_run_expected_revisions u) (\<lambda>_. update_run))
              (minus_keys (sn_dirty_run_keys u) (sn_new_run_keys u)) (sn_runs u) d2 = Inr d3"
    and "for_staged (\<lambda>_. insert_step) (sn_new_step_keys u) (sn_steps u) d3 = Inr d4"
    and "for_staged (with_expected (sn_step_expected_revisions u) (\<lambda>_. update_step))
              (minus_keys (sn_dirty_step_keys u) (sn_new_step_keys u)) (sn_steps u) d4 = Inr d5"
    and "for_staged (\<lambda>_. insert_attempt) (sn_new_attempt_keys u) (sn_attempts u) d5 = Inr d6"
    and "for_staged update_attempt (minus_keys (sn_dirty_attempt_keys u) (sn_new_attempt_keys u)) (sn_attempts u) d6 = Inr d7"
    and "for_staged (\<lambda>_. insert_approval) (sn_new_approval_keys u) (sn_approvals u) d7 = Inr d8"
    and "for_staged (with_expected (sn_approval_expected_versions u) update_approval)
              (minus_keys (sn_dirty_approval_keys u) (sn_new_approval_keys u)) (sn_approvals u) d8 = Inr d9"
    and "sfold publish_run_events ps d9 = Inr db'"
  using assms unfolding sql_publish_def by (elim sbind_InrE) blast

definition writes_over ::
  "('k \<Rightarrow> 'r \<Rightarrow> error + 'v) \<Rightarrow> ('v \<Rightarrow> 'v) \<Rightarrow> 'k list \<Rightarrow> ('k, 'v) dict \<Rightarrow> ('k, 'r) dict \<Rightarrow> ('k, 'r) dict \<Rightarrow> bool" where
  "writes_over f h ks staged t t' \<longleftrightarrow> (dwf t \<longrightarrow> dwf t')
     \<and> (\<forall>k \<in> set ks. \<exists>v r. dget staged k = Some v \<and> dget t' k = Some r \<and> f k r = Inr (h v))
     \<and> (\<forall>k. k \<notin> set ks \<longrightarrow> map_option (f k) (dget t' k) = map_option (f k) (dget t k))"

lemma writes_over_load:
  assumes "writes_over f h ks staged t t'" and "load_rows f t = Inr d" and "dwf t"
  obtains d' where "load_rows f t' = Inr d'" and "dwf d'" and "dget d' = overlay ks (reload_keys h ks staged) d"
  using load_rows_overlay [OF assms(2), of t' ks staged h] assms(1,3) unfolding writes_over_def by blast

text \<open>The saved rows had the revisions that the unit of work expected.\<close>

definition rows_match :: "('r \<Rightarrow> int) \<Rightarrow> ('k, int) dict \<Rightarrow> 'k list \<Rightarrow> 'k list \<Rightarrow> ('k, 'r) dict \<Rightarrow> bool" where
  "rows_match revision expected new dirty t \<longleftrightarrow>
     (\<forall>k. k \<in> set dirty \<longrightarrow> k \<notin> set new \<longrightarrow>
        (\<exists>n r. dget expected k = Some n \<and> dget t k = Some r \<and> revision r = n))"

lemma rows_match_revisions:
  assumes "rows_match revision expected new dirty t" and "tracked new dirty expected" and "added_first new dirty expected"
    and "load_rows f t = Inr d" and "\<And>k r v. dget t k = Some r \<Longrightarrow> f k r = Inr v \<Longrightarrow> ver v = revision r"
  shows "revisions_match ver expected d"
  unfolding revisions_match_def
proof (intro ballI, clarify)
  fix k n assume "(k, n) \<in> set expected"
  then have e: "dget expected k = Some n" using assms(3) by (simp add: added_first_def)
  then have "k \<in> set dirty" and "k \<notin> set new"
    using assms(2,3) dget_Some_key [OF e] unfolding tracked_def added_first_def by auto
  then obtain r where r: "dget t k = Some r" "revision r = n"
    using assms(1) e unfolding rows_match_def by fastforce
  then show "actual_revision ver d k = n"
    using load_rows_lookup(3) [OF assms(4) r(1)] assms(5) [OF r(1)] by (auto simp: actual_revision_def)
qed

lemma sql_publish_tables:
  assumes pub: "sql_publish u ps db = Inr db'" and dist: "distinct (map fst ps)"
    and u: "uow_ok base u" and keys: "keys_ok u" and recs: "records_ok u"
  shows "writes_over load_definition reload_definition (sn_new_definition_keys u) (sn_definitions u)
           (db_definitions db) (db_definitions db')"
    and "writes_over load_step id (sn_new_step_keys u @ sn_dirty_step_keys u) (sn_steps u) (db_steps db) (db_steps db')"
    and "writes_over load_attempt reload_attempt (sn_new_attempt_keys u @ sn_dirty_attempt_keys u) (sn_attempts u)
           (db_attempts db) (db_attempts db')"
    and "writes_over load_approval reload_approval (sn_new_approval_keys u @ sn_dirty_approval_keys u) (sn_approvals u)
           (db_approvals db) (db_approvals db')"
    and "approvals_checked (db_approvals db) \<Longrightarrow> approvals_checked (db_approvals db')"
    and "rows_match rr_revision (sn_run_expected_revisions u) (sn_new_run_keys u) (sn_dirty_run_keys u) (db_runs db)"
    and "rows_match tr_revision (sn_step_expected_revisions u) (sn_new_step_keys u) (sn_dirty_step_keys u) (db_steps db)"
    and "rows_match pr_version (sn_approval_expected_versions u) (sn_new_approval_keys u) (sn_dirty_approval_keys u)
           (db_approvals db)"
    and "writes_over load_run reload_run (sn_new_run_keys u @ sn_dirty_run_keys u) (sn_runs u) (db_runs db) (db_runs db')"
    and "db_events db' = db_events db @ concat (map event_rows ps)"
    and "dwf (db_events db) \<Longrightarrow> dwf (db_events db')"
    and "map_option rr_last_event_sequence (dget (db_runs db') k)
           = map_option (\<lambda>n. case dget ps k of None \<Rightarrow> n | Some q \<Rightarrow> snd q)
               (if k \<in> set (sn_new_run_keys u) then Some 0 else map_option rr_last_event_sequence (dget (db_runs db) k))"
proof -
  obtain d1 d2 d3 d4 d5 d6 d7 d8 d9 where
    p1: "for_staged (\<lambda>_. insert_definition) (sn_new_definition_keys u) (sn_definitions u) db = Inr d1"
    and p2: "for_staged (\<lambda>_. insert_run (sn_committed_event_sequences u)) (sn_new_run_keys u) (sn_runs u) d1 = Inr d2"
    and p3: "for_staged (with_expected (sn_run_expected_revisions u) (\<lambda>_. update_run))
              (minus_keys (sn_dirty_run_keys u) (sn_new_run_keys u)) (sn_runs u) d2 = Inr d3"
    and p4: "for_staged (\<lambda>_. insert_step) (sn_new_step_keys u) (sn_steps u) d3 = Inr d4"
    and p5: "for_staged (with_expected (sn_step_expected_revisions u) (\<lambda>_. update_step))
              (minus_keys (sn_dirty_step_keys u) (sn_new_step_keys u)) (sn_steps u) d4 = Inr d5"
    and p6: "for_staged (\<lambda>_. insert_attempt) (sn_new_attempt_keys u) (sn_attempts u) d5 = Inr d6"
    and p7: "for_staged update_attempt (minus_keys (sn_dirty_attempt_keys u) (sn_new_attempt_keys u)) (sn_attempts u) d6 = Inr d7"
    and p8: "for_staged (\<lambda>_. insert_approval) (sn_new_approval_keys u) (sn_approvals u) d7 = Inr d8"
    and p9: "for_staged (with_expected (sn_approval_expected_versions u) update_approval)
              (minus_keys (sn_dirty_approval_keys u) (sn_new_approval_keys u)) (sn_approvals u) d8 = Inr d9"
    and p10: "sfold publish_run_events ps d9 = Inr db'"
    by (rule sql_publish_phases [OF pub])
  have tk: "table_ok definition_key_of (sn_definitions u)" "table_ok wr_run_id (sn_runs u)" "table_ok step_key_of (sn_steps u)"
    "table_ok attempt_key_of (sn_attempts u)" "table_ok approval_key_of (sn_approvals u)"
    using uow_okD(1-5) [OF u] unfolding staged_ok_def by blast+
  have dd: "distinct (sn_dirty_run_keys u)" "distinct (sn_dirty_step_keys u)" "distinct (sn_dirty_approval_keys u)"
    using keys unfolding keys_ok_def added_first_def by blast+
  note r = recs [unfolded records_ok_def, THEN conjunct1] recs [unfolded records_ok_def, THEN conjunct2]
  note P1 = definitions_phase [OF p1 tk(1) r(1)] and P2 = runs_phase [OF p2 p3 tk(2) dd(1)]
    and P3 = steps_phase [OF p4 p5 tk(3) dd(2)] and P4 = attempts_phase [OF p6 p7 tk(4)]
    and P5 = approvals_phase [OF p8 p9 tk(5) dd(3) r(2)] and P6 = publish_events_do [OF p10 dist]
  note F = frames(1) [OF P1(1)] frames(2) [OF P2(1)] frames(3) [OF P3(1)] frames(4) [OF P4(1)] frames(5) [OF P5(1)]
    frames(6) [OF conjunct1 [OF P6]]
  have T: "db_definitions db' = db_definitions d1" "db_runs d9 = db_runs d3" "db_runs d1 = db_runs db"
    "db_steps db' = db_steps d5" "db_steps d3 = db_steps db" "db_attempts db' = db_attempts d7" "db_attempts d5 = db_attempts db"
    "db_approvals db' = db_approvals d9" "db_approvals d7 = db_approvals db" "db_events d9 = db_events db"
    using F by simp_all
  show "writes_over load_definition reload_definition (sn_new_definition_keys u) (sn_definitions u)
           (db_definitions db) (db_definitions db')"
    unfolding writes_over_def T using P1(2-4) by simp
  show "writes_over load_step id (sn_new_step_keys u @ sn_dirty_step_keys u) (sn_steps u) (db_steps db) (db_steps db')"
    unfolding writes_over_def T(4) using P3(2-4) unfolding T(5) by simp
  show "writes_over load_attempt reload_attempt (sn_new_attempt_keys u @ sn_dirty_attempt_keys u) (sn_attempts u)
           (db_attempts db) (db_attempts db')"
    unfolding writes_over_def T(6) using P4(2-4) unfolding T(7) by simp
  show "approvals_checked (db_approvals db) \<Longrightarrow> approvals_checked (db_approvals db')"
    using P5(2) unfolding T(8,9) .
  show "rows_match rr_revision (sn_run_expected_revisions u) (sn_new_run_keys u) (sn_dirty_run_keys u) (db_runs db)"
    unfolding rows_match_def using P2(5) unfolding T(3) by blast
  show "rows_match tr_revision (sn_step_expected_revisions u) (sn_new_step_keys u) (sn_dirty_step_keys u) (db_steps db)"
    unfolding rows_match_def using P3(5) unfolding T(5) by blast
  show "rows_match pr_version (sn_approval_expected_versions u) (sn_new_approval_keys u) (sn_dirty_approval_keys u) (db_approvals db)"
    unfolding rows_match_def using P5(5) unfolding T(9) by blast
  show "db_events db' = db_events db @ concat (map event_rows ps)"
    and "dwf (db_events db) \<Longrightarrow> dwf (db_events db')"
    using P6 unfolding T(10) by blast+
  show "writes_over load_approval reload_approval (sn_new_approval_keys u @ sn_dirty_approval_keys u) (sn_approvals u)
           (db_approvals db) (db_approvals db')"
    unfolding writes_over_def T(8) using P5(3,4,6) unfolding T(9) by simp
  have R: "dget (db_runs db') j
      = map_option (\<lambda>r. case dget ps j of None \<Rightarrow> r | Some q \<Rightarrow> r\<lparr>rr_last_event_sequence := snd q\<rparr>) (dget (db_runs d3) j)" for j
    using P6 unfolding T(2) by blast
  have L: "load_run j (case o' of None \<Rightarrow> r | Some q \<Rightarrow> r\<lparr>rr_last_event_sequence := snd q\<rparr>) = load_run j r" for j r o'
    by (cases o') (simp_all add: load_run_def)
  show "writes_over load_run reload_run (sn_new_run_keys u @ sn_dirty_run_keys u) (sn_runs u) (db_runs db) (db_runs db')"
    unfolding writes_over_def
  proof (intro conjI ballI allI impI)
    show "dwf (db_runs db) \<Longrightarrow> dwf (db_runs db')" using P2(2) P6 unfolding T(2,3) by blast
    show "\<exists>v r. dget (sn_runs u) k = Some v \<and> dget (db_runs db') k = Some r \<and> load_run k r = Inr (reload_run v)"
      if "k \<in> set (sn_new_run_keys u @ sn_dirty_run_keys u)" for k
      using P2(3) [OF that] R [of k] by (auto simp: L)
    show "map_option (load_run k) (dget (db_runs db') k) = map_option (load_run k) (dget (db_runs db) k)"
      if "k \<notin> set (sn_new_run_keys u @ sn_dirty_run_keys u)" for k
      unfolding R P2(4) [OF that] T(3) by (simp add: option.map_comp comp_def L)
  qed
  have last: "map_option rr_last_event_sequence (dget (db_runs d3) k)
      = (if k \<in> set (sn_new_run_keys u) then Some 0 else map_option rr_last_event_sequence (dget (db_runs db) k))"
    using P2(6) [of k] keys unfolding T(3) keys_ok_def by auto
  show "map_option rr_last_event_sequence (dget (db_runs db') k)
           = map_option (\<lambda>n. case dget ps k of None \<Rightarrow> n | Some q \<Rightarrow> snd q)
               (if k \<in> set (sn_new_run_keys u) then Some 0 else map_option rr_last_event_sequence (dget (db_runs db) k))"
    unfolding R last [symmetric] by (cases "dget ps k"; cases "dget (db_runs d3) k"; simp)
qed

lemma sql_check_new_Inr: "sql_check_new t l ints ks table = Inr u \<Longrightarrow> k \<in> set ks \<Longrightarrow> dget table k = None"
  unfolding sql_check_new_def sfold_unit_iff by (auto simp: sbind_Inr_iff)

lemma sql_validate_new:
  assumes "sql_validate_uniqueness u db = Inr v" and "sql_load db = Inr st"
  shows "k \<in> set (sn_new_definition_keys u) \<Longrightarrow> dget (ms_definitions st) k = None"
    and "r \<in> set (sn_new_run_keys u) \<Longrightarrow> dget (ms_runs st) r = None"
    and "s \<in> set (sn_new_step_keys u) \<Longrightarrow> dget (ms_steps st) s = None"
    and "a \<in> set (sn_new_attempt_keys u) \<Longrightarrow> dget (ms_attempts st) a = None"
    and "p \<in> set (sn_new_approval_keys u) \<Longrightarrow> dget (ms_approvals st) p = None"
  using assms unfolding sql_validate_uniqueness_def sql_load_Inr sbind_Inr_iff
  by (blast intro: load_rows_lookup(2) sql_check_new_Inr)+

lemma overlay_reload_id: "overlay ks (reload_keys id ks staged) base = overlay ks staged base"
  by (rule ext) (simp add: overlay_def dget_reload_keys option.map_ident)

lemma dget_list_reload:
  "dget_list (map (\<lambda>(r, es). (r, map f es)) pending) r = map f (dget_list pending r)"
  unfolding dget_list_def dget_map_values by (cases "dget pending r") simp_all

lemma pending_unique_loaded:
  assumes "approvals_checked t" and "load_rows load_approval t = Inr ap"
  shows "pending_unique ap"
proof -
  have row: "\<exists>r. dget t k = Some r \<and> load_approval k r = Inr a" if "dget ap k = Some a" for k a
    using load_rows_lookup(2,3) [OF assms(2), of k] that by (cases "dget t k") auto
  have "k = k'" if a: "dget ap (r, k) = Some a" "dget ap (r, k') = Some a'" "is_pending a" "is_pending a'" for r k k' a a'
  proof -
    obtain x where x: "dget t (r, k) = Some x" "load_approval (r, k) x = Inr a" using row [OF a(1)] by blast
    obtain y where y: "dget t (r, k') = Some y" "load_approval (r, k') y = Inr a'" using row [OF a(2)] by blast
    have "pr_status x = ''pending''" "pr_status y = ''pending''"
      using load_approval_pending [OF x(2)] load_approval_pending [OF y(2)] a(3,4) by simp_all
    then have "(r, k) = (r, k')" using assms(1) x(1) y(1) unfolding approvals_checked_def by (metis fst_conv)
    then show ?thesis by simp
  qed
  then show ?thesis unfolding pending_unique_def single_pending_def by blast
qed

lemma published_sequence:
  assumes last: "map_option rr_last_event_sequence (dget (db_runs db') r)
           = map_option (\<lambda>n. case dget (map (numbered_events (load_sequences db)) pending) r of None \<Rightarrow> n | Some q \<Rightarrow> snd q)
               (if new then Some 0 else map_option rr_last_event_sequence (dget (db_runs db) r))"
    and new: "new \<Longrightarrow> dget (db_runs db) r = None"
    and known: "dget pending r \<noteq> None \<Longrightarrow> new \<or> dget (db_runs db) r \<noteq> None"
  shows "sequence_of (load_sequences db') r = sequence_of (load_sequences db) r + int (length (dget_list pending r))"
  using assms unfolding numbered_dget
  by (cases "dget pending r"; cases "dget (db_runs db) r"; cases "dget (db_runs db') r"; cases new;
      simp add: sequence_of_def load_sequences_dget dget_list_def)

text \<open>
  What a commit that went through has done, on a database that stands for the store \<open>st\<close>.
\<close>

lemma commit_statements_refine:
  assumes c: "commit_statements env u db = Inr (ps, db')"
    and load: "sql_load db = Inr st" and st: "store_ok st" and db: "tables_ok db"
    and u: "uow_ok base (sq_base u)" and keys: "keys_ok (sq_base u)" and recs: "records_ok (sq_base u)"
  obtains st'' where "sql_load db' = Inr st''" and "committed (reload_uow (sq_base u)) st st''"
    and "conflict_free (reload_uow (sq_base u)) st" and "pending_unique (ms_approvals st'')"
    and "\<And>r. sequence_of (ms_event_sequences st'') r = sequence_of (ms_event_sequences st) r
           + int (length (dget_list (sn_pending_events (sq_base u)) r))"
    and "dwf (ms_definitions st'')" and "dwf (ms_runs st'')" and "dwf (ms_steps st'')"
    and "dwf (ms_attempts st'')" and "dwf (ms_approvals st'')"
    and "dwf (ms_events st'')" and "dwf (ms_event_sequences st'')" and "tables_ok db'"
proof -
  let ?u = "sq_base u"
  from c obtain v where val: "sql_validate_uniqueness ?u db = Inr v" and al: "sql_allocate ?u db = Inr ps"
    and pub: "sql_publish ?u ps db = Inr db'"
    unfolding commit_statements_def by (elim sbind_InrE) auto
  have ps: "ps = map (numbered_events (load_sequences db)) (sn_pending_events ?u)"
    by (rule sql_allocate_Inr(1) [OF al])
  have dist: "distinct (map fst ps)"
    using uow_okD(8) [OF u] by (simp add: ps numbered_events_def comp_def)
  note T = sql_publish_tables [OF pub dist u keys recs]
  have D: "dwf (db_definitions db)" "dwf (db_runs db)" "dwf (db_steps db)" "dwf (db_attempts db)"
    "approvals_checked (db_approvals db)" "dwf (db_events db)"
    using db unfolding tables_ok_def by blast+
  then have da: "dwf (db_approvals db)" unfolding approvals_checked_def by blast
  note ld = load [unfolded sql_load_Inr]
  obtain ds where ds: "load_rows load_definition (db_definitions db') = Inr ds" "dwf ds"
    "dget ds = overlay (sn_new_definition_keys ?u)
       (reload_keys reload_definition (sn_new_definition_keys ?u) (sn_definitions ?u)) (ms_definitions st)"
    using writes_over_load [OF T(1) _ D(1)] ld by blast
  obtain rs where rs: "load_rows load_run (db_runs db') = Inr rs" "dwf rs"
    "dget rs = overlay (sn_new_run_keys ?u @ sn_dirty_run_keys ?u)
       (reload_keys reload_run (sn_new_run_keys ?u @ sn_dirty_run_keys ?u) (sn_runs ?u)) (ms_runs st)"
    using writes_over_load [OF T(9) _ D(2)] ld by blast
  obtain ss where ss: "load_rows load_step (db_steps db') = Inr ss" "dwf ss"
    "dget ss = overlay (sn_new_step_keys ?u @ sn_dirty_step_keys ?u)
       (reload_keys id (sn_new_step_keys ?u @ sn_dirty_step_keys ?u) (sn_steps ?u)) (ms_steps st)"
    using writes_over_load [OF T(2) _ D(3)] ld by blast
  obtain at where at: "load_rows load_attempt (db_attempts db') = Inr at" "dwf at"
    "dget at = overlay (sn_new_attempt_keys ?u @ sn_dirty_attempt_keys ?u)
       (reload_keys reload_attempt (sn_new_attempt_keys ?u @ sn_dirty_attempt_keys ?u) (sn_attempts ?u)) (ms_attempts st)"
    using writes_over_load [OF T(3) _ D(4)] ld by blast
  obtain ap where ap: "load_rows load_approval (db_approvals db') = Inr ap" "dwf ap"
    "dget ap = overlay (sn_new_approval_keys ?u @ sn_dirty_approval_keys ?u)
       (reload_keys reload_approval (sn_new_approval_keys ?u @ sn_dirty_approval_keys ?u) (sn_approvals ?u)) (ms_approvals st)"
    using writes_over_load [OF T(4) _ da] ld by blast
  let ?st = "\<lparr>ms_definitions = ds, ms_runs = rs, ms_steps = ss, ms_attempts = at, ms_approvals = ap,
      ms_events = load_events db', ms_event_sequences = load_sequences db'\<rparr>"
  have "sql_load db' = Inr ?st" unfolding sql_load_Inr using ds(1) rs(1) ss(1) at(1) ap(1) by simp
  then show ?thesis
  proof (rule that)
    have "dget_list (ms_events ?st) r = dget_list (ms_events st) r
        @ number_from (sequence_of (ms_event_sequences st) r) (dget_list (sn_pending_events (reload_uow ?u)) r)" for r
      using load_events_appended [OF store_okD(9) [OF st, of r] _ _ T(10) [unfolded ps] uow_okD(8,9) [OF u]] ld
      by (simp add: reload_uow_def dget_list_reload)
    then show "committed (reload_uow ?u) st ?st"
      unfolding committed_def by (simp add: ds(3) rs(3) ss(3) at(3) ap(3) overlay_reload_id) (simp add: reload_uow_def)
    have "revisions_match wr_revision (sn_run_expected_revisions ?u) (ms_runs st)"
      "revisions_match sr_revision (sn_step_expected_revisions ?u) (ms_steps st)"
      using rows_match_revisions [OF T(6) uow_okD(10) [OF u]] rows_match_revisions [OF T(7) uow_okD(11) [OF u]]
        keys ld load_run_revision load_step_revision unfolding keys_ok_def by blast+
    moreover have "revisions_match apr_version (sn_approval_expected_versions ?u) (ms_approvals st)"
    proof (rule rows_match_revisions [OF T(8) uow_okD(12) [OF u]])
      show "apr_version v = pr_version r" if "dget (db_approvals db) k = Some r" "load_approval k r = Inr v" for k r v
        using D(5) that load_approval_version [OF that(2)] unfolding approvals_checked_def approval_checks_Inr by blast
    qed (use keys ld in \<open>auto simp: keys_ok_def\<close>)
    ultimately show "conflict_free (reload_uow ?u) st"
      unfolding conflict_free_def using sql_validate_new [OF val load] by (simp add: reload_uow_def)
    show "pending_unique (ms_approvals ?st)" using pending_unique_loaded [OF T(5) [OF D(5)] ap(1)] by simp
    show "sequence_of (ms_event_sequences ?st) r = sequence_of (ms_event_sequences st) r
           + int (length (dget_list (sn_pending_events ?u) r))" for r
    proof -
      have "dget (db_runs db) r = None" if "r \<in> set (sn_new_run_keys ?u)"
        using val that unfolding sql_validate_uniqueness_def by (elim sbind_InrE) (blast dest: sql_check_new_Inr)
      moreover have "r \<in> set (sn_new_run_keys ?u) \<or> dget (db_runs db) r \<noteq> None"
        if "dget (sn_pending_events ?u) r \<noteq> None"
      proof -
        obtain es where "(r, es) \<in> set (sn_pending_events ?u)" using \<open>dget _ r \<noteq> None\<close> by (blast dest: map_of_SomeD)
        from sql_allocate_Inr(2) [OF al this] show ?thesis by simp
      qed
      ultimately show ?thesis
        using published_sequence [OF T(12) [of r, unfolded ps]] ld by simp
    qed
    show "dwf (ms_event_sequences ?st)"
      using T(9) D(2) unfolding writes_over_def by (simp add: load_sequences_def comp_def split_def)
    show "tables_ok db'"
      using T(1-5,9,11) D unfolding writes_over_def tables_ok_def by blast
  qed (use ds(2) rs(2) ss(2) at(2) ap(2) load_events_dwf in simp_all)
qed

lemma table_ok_same: "table_ok key_of d \<Longrightarrow> dwf d' \<Longrightarrow> dget d' = dget d \<Longrightarrow> table_ok key_of d'"
  unfolding table_ok_def by (metis (no_types, lifting) case_prodI2 case_prodD dget_Some_in_set)

lemma committed_same:
  assumes "committed u st a" and "committed u st b"
    and "\<And>r. sequence_of (ms_event_sequences a) r = sequence_of (ms_event_sequences b) r"
  shows "same_store a b"
  using assms unfolding committed_def same_store_def by simp

lemma same_store_ok:
  assumes st: "store_ok st" and same: "same_store st' st"
    and dwf: "dwf (ms_definitions st')" "dwf (ms_runs st')" "dwf (ms_steps st')" "dwf (ms_attempts st')"
      "dwf (ms_approvals st')" "dwf (ms_events st')" "dwf (ms_event_sequences st')"
  shows "store_ok st'"
  unfolding store_ok_def
proof (intro conjI allI)
  note s = same [unfolded same_store_def]
  show "table_ok definition_key_of (ms_definitions st')" "table_ok wr_run_id (ms_runs st')"
    "table_ok step_key_of (ms_steps st')" "table_ok attempt_key_of (ms_attempts st')"
    "table_ok approval_key_of (ms_approvals st')"
    using table_ok_same [OF store_okD(1) [OF st] dwf(1)] table_ok_same [OF store_okD(2) [OF st] dwf(2)]
      table_ok_same [OF store_okD(3) [OF st] dwf(3)] table_ok_same [OF store_okD(4) [OF st] dwf(4)]
      table_ok_same [OF store_okD(5) [OF st] dwf(5)] s by blast+
  show "pending_unique (ms_approvals st')" using store_okD(6) [OF st] s by (simp add: pending_unique_def)
  show "log_ok st' r" for r using store_okD(9) [OF st, of r] s by (simp add: log_ok_def)
qed (use dwf in blast)+

lemma sql_commit_Inr:
  assumes "sql_commit env u db = (Inr (), u', db')"
  shows "\<not> uw_rolled_back (sq_base u)" and "\<not> uw_committed (sq_base u)"
    and "\<exists>ps. commit_statements env u db = Inr (ps, db')"
  using assms by (auto simp: sql_commit_def split: if_splits sum.splits prod.splits)

lemma sql_commit_refines_aux:
  assumes load: "sql_load db = Inr st" and st: "store_ok st" and db: "tables_ok db"
    and u: "uow_ok base (sq_base u)" and keys: "keys_ok (sq_base u)" and recs: "records_ok (sq_base u)"
    and c: "sql_commit env u db = (Inr (), u', db')"
  shows "\<exists>st' w st''. commit (reload_uow (sq_base u)) st = Inr (st', w) \<and> sql_load db' = Inr st''
    \<and> same_store st'' st' \<and> store_ok st'' \<and> tables_ok db'"
proof -
  let ?r = "reload_uow (sq_base u)"
  obtain ps where stmts: "commit_statements env u db = Inr (ps, db')" using sql_commit_Inr(3) [OF c] by blast
  obtain st'' where l: "sql_load db' = Inr st''" and com: "committed ?r st st''" and cf: "conflict_free ?r st"
    and p: "pending_unique (ms_approvals st'')"
    and q: "\<And>r. sequence_of (ms_event_sequences st'') r = sequence_of (ms_event_sequences st) r
           + int (length (dget_list (sn_pending_events (sq_base u)) r))"
    and d: "dwf (ms_definitions st'')" "dwf (ms_runs st'')" "dwf (ms_steps st'')" "dwf (ms_attempts st'')"
      "dwf (ms_approvals st'')" "dwf (ms_events st'')" "dwf (ms_event_sequences st'')" and t: "tables_ok db'"
    using commit_statements_refine [OF stmts load st db u keys recs] by metis
  obtain st' where ok: "store_ok st' \<or> \<not> pending_unique (ms_approvals st')" and com': "committed ?r st st'"
    and iff: "commit ?r st = Inr (st', ?r\<lparr>uw_committed := True\<rparr>)
           \<longleftrightarrow> \<not> uw_rolled_back ?r \<and> \<not> uw_committed ?r \<and> conflict_free ?r st \<and> pending_unique (ms_approvals st')"
    using commit_characterised [OF uow_ok_reload [OF u] st] by metis
  have "dget (ms_approvals st') = dget (ms_approvals st'')" using com com' by (simp add: committed_def)
  then have p': "pending_unique (ms_approvals st')" using p by (simp add: pending_unique_def)
  then have ok': "store_ok st'" using ok by blast
  have commit: "commit ?r st = Inr (st', ?r\<lparr>uw_committed := True\<rparr>)"
    using iff cf p' sql_commit_Inr(1,2) [OF c] by (simp add: reload_uow_def)
  have "sequence_of (ms_event_sequences st'') r = sequence_of (ms_event_sequences st') r" for r
  proof -
    have "sequence_of (ms_event_sequences st') r = int (length (dget_list (ms_events st') r))"
      using store_okD(9) [OF ok', of r] by (simp add: log_ok_def)
    also have "\<dots> = int (length (dget_list (ms_events st) r)) + int (length (dget_list (sn_pending_events (sq_base u)) r))"
      using com' by (simp add: committed_def) (simp add: reload_uow_def dget_list_reload)
    also have "int (length (dget_list (ms_events st) r)) = sequence_of (ms_event_sequences st) r"
      using store_okD(9) [OF st, of r] by (simp add: log_ok_def)
    finally show ?thesis using q by simp
  qed
  then have same: "same_store st'' st'" using committed_same [OF com com'] by blast
  moreover have "store_ok st''" using same_store_ok [OF ok' same] d by blast
  ultimately show ?thesis using commit l t by blast
qed

section \<open>A pending request that replaces another\<close>

lemma for_staged_reaches:
  assumes "for_staged f ks staged db = Inr db'" and "J db" and "k \<in> set ks"
    and "\<And>k v db db'. f k v db = Inr db' \<Longrightarrow> J db \<Longrightarrow> J db'"
  shows "\<exists>v x x'. J x \<and> dget staged k = Some v \<and> f k v x = Inr x'"
  using assms(1-3)
proof (induction ks arbitrary: db)
  case (Cons j ks)
  from Cons.prems(1) obtain v db1 where v: "dget staged j = Some v" "f j v db = Inr db1"
    and rest: "for_staged f ks staged db1 = Inr db'"
    by (auto simp: for_staged_Cons)
  show ?case
  proof (cases "k = j")
    case False
    then show ?thesis using Cons.IH [OF rest] assms(4) [OF v(2)] Cons.prems(2,3) by simp
  qed (use v Cons.prems(2) in blast)
qed simp

lemma keeps_approvals:
  "insert_definition w db = Inr db' \<Longrightarrow> db_approvals db' = db_approvals db"
  "insert_run q r db = Inr db' \<Longrightarrow> db_approvals db' = db_approvals db"
  "with_expected e (\<lambda>_. update_run) j r db = Inr db' \<Longrightarrow> db_approvals db' = db_approvals db"
  "insert_step s db = Inr db' \<Longrightarrow> db_approvals db' = db_approvals db"
  "with_expected e' (\<lambda>_. update_step) k s db = Inr db' \<Longrightarrow> db_approvals db' = db_approvals db"
  "insert_attempt a db = Inr db' \<Longrightarrow> db_approvals db' = db_approvals db"
  "update_attempt i a db = Inr db' \<Longrightarrow> db_approvals db' = db_approvals db"
  by (auto simp: insert_definition_def insert_run_def Let_def insert_step_def insert_attempt_def update_attempt_def
      with_expected_Inr dest!: update_run_does update_step_does split: if_splits)

lemma insert_approval_keeps:
  assumes "insert_approval a db = Inr db'" and "dget (db_approvals db) k = Some row"
  shows "dget (db_approvals db') k = Some row"
  using assms unfolding insert_approval_def by (elim sbind_InrE) auto

lemma pending_replacement_aux:
  assumes pub: "sql_publish u ps db = Inr db'" and row: "dget (db_approvals db) (r, k) = Some row" "pr_status row = ''pending''"
    and new: "(r, k') \<in> set (sn_new_approval_keys u)" "dget (sn_approvals u) (r, k') = Some a" "approval_key_of a = (r, k')"
    and a: "apr_status a = ''pending''" and ne: "k' \<noteq> k"
  shows False
proof -
  obtain d7 d8 where app: "db_approvals d7 = db_approvals db"
    and p8: "for_staged (\<lambda>_. insert_approval) (sn_new_approval_keys u) (sn_approvals u) d7 = Inr d8"
  proof (rule sql_publish_phases [OF pub])
    fix d1 d2 d3 d4 d5 d6 d7 d8
    assume p: "for_staged (\<lambda>_. insert_definition) (sn_new_definition_keys u) (sn_definitions u) db = Inr d1"
      "for_staged (\<lambda>_. insert_run (sn_committed_event_sequences u)) (sn_new_run_keys u) (sn_runs u) d1 = Inr d2"
      "for_staged (with_expected (sn_run_expected_revisions u) (\<lambda>_. update_run))
              (minus_keys (sn_dirty_run_keys u) (sn_new_run_keys u)) (sn_runs u) d2 = Inr d3"
      "for_staged (\<lambda>_. insert_step) (sn_new_step_keys u) (sn_steps u) d3 = Inr d4"
      "for_staged (with_expected (sn_step_expected_revisions u) (\<lambda>_. update_step))
              (minus_keys (sn_dirty_step_keys u) (sn_new_step_keys u)) (sn_steps u) d4 = Inr d5"
      "for_staged (\<lambda>_. insert_attempt) (sn_new_attempt_keys u) (sn_attempts u) d5 = Inr d6"
      "for_staged update_attempt (minus_keys (sn_dirty_attempt_keys u) (sn_new_attempt_keys u)) (sn_attempts u) d6 = Inr d7"
      and p8: "for_staged (\<lambda>_. insert_approval) (sn_new_approval_keys u) (sn_approvals u) d7 = Inr d8"
    have "db_approvals d1 = db_approvals db"
      and "db_approvals d2 = db_approvals d1"
      and "db_approvals d3 = db_approvals d2"
      and "db_approvals d4 = db_approvals d3"
      and "db_approvals d5 = db_approvals d4"
      and "db_approvals d6 = db_approvals d5"
      and "db_approvals d7 = db_approvals d6"
      by (rule for_staged_frame [where g = db_approvals, OF p(1)] for_staged_frame [where g = db_approvals, OF p(2)]
        for_staged_frame [where g = db_approvals, OF p(3)] for_staged_frame [where g = db_approvals, OF p(4)]
        for_staged_frame [where g = db_approvals, OF p(5)] for_staged_frame [where g = db_approvals, OF p(6)]
        for_staged_frame [where g = db_approvals, OF p(7)], erule keeps_approvals)+
    then have "db_approvals d7 = db_approvals db" by simp
    then show thesis using p8 that by blast
  qed
  have "\<exists>v x x'. dget (db_approvals x) (r, k) = Some row \<and> dget (sn_approvals u) (r, k') = Some v
      \<and> insert_approval v x = Inr x'"
    by (rule for_staged_reaches [OF p8 _ new(1), where J = "\<lambda>x. dget (db_approvals x) (r, k) = Some row"])
      (use app row(1) in \<open>auto dest: insert_approval_keeps\<close>)
  then obtain x x' where x: "dget (db_approvals x) (r, k) = Some row" and i: "insert_approval a x = Inr x'"
    using new(2) by auto
  obtain q where q: "approval_values a = Inr q" and p: "pending_index (approval_key_of a) q (db_approvals x) = Inr ()"
    by (rule insert_approval_does [OF i])
  have "pr_status q = apr_status a" using q by (cases a) auto
  then show False
    using p a ne row(2) map_of_SomeD [OF x] by (auto simp: pending_index_def new(3) list_all_iff)
qed

section \<open>The properties\<close>

definition sample_sql_env :: sql_env where
  "sample_sql_env = \<lparr>se_busy = False, se_message = id\<rparr>"

definition sql_uow_of :: "uow \<Rightarrow> sql_uow" where
  "sql_uow_of u = \<lparr>sq_base = u, sq_saved_run_keys = [], sq_saved_step_keys = [],
     sq_saved_approval_keys = [], sq_in_transaction = False\<rparr>"

lemmas sql_commit_defs = sql_commit_def commit_statements_def begin_immediate_def sql_validate_uniqueness_def
  sql_check_new_def sql_allocate_def allocate_run_def sql_publish_def for_staged_def with_expected_def
  minus_keys_def publish_run_events_def insert_run_def insert_event_def table_insert_def references_def
  set_last_sequence_def bind_ints_def run_values_def stored_error_def stored_event_def payload_value_def
  json_column_def number_from_def sequence_of_def map_error_def

lemma sample_sql_commit:
  "\<exists>u' db'. sql_commit sample_sql_env (sql_uow_of sample_uow) empty_db = (Inr (), u', db')"
  by (simp add: sql_commit_defs sample_sql_env_def sql_uow_of_def sample_uow_def sample_unit_def uow_defs empty_store_def empty_db_def
      sample_run_def sample_event_def new_run_def run_state_changed_def blank_event_def Let_def)



text \<open>The unit of work of the coordinator when a pending request is out of date: invalidate it, add another.\<close>

definition sql_sample_request :: "string \<Rightarrow> approval_request" where
  "sql_sample_request i =
     \<lparr>ar_id = i, ar_run_id = ''r'', ar_definition_digest = ''d'', ar_step_id = ''s'', ar_tool_name = ''t'',
      ar_tool_version = ''1'', ar_redacted_arguments = PDict [], ar_binding_digest = replicate 64 (CHR ''a''),
      ar_risk_reasons = [''step_risk_high''], ar_created_at = 1, ar_version = 0, ar_status = AprPending,
      ar_decision = None, ar_actor = None, ar_reason = None, ar_decided_at = None\<rparr>"

definition invalidated :: "approval_request \<Rightarrow> int \<Rightarrow> approval_request" where
  "invalidated r t = r\<lparr>ar_version := ar_version r + 1, ar_status := AprInvalidated, ar_decision := None,
     ar_actor := None, ar_reason := None, ar_decided_at := Some t\<rparr>"

definition replacing_unit :: "approval_request \<Rightarrow> approval_request \<Rightarrow> unit sql_act" where
  "replacing_unit old new =
     bnd (sql_approvals_save (Request (invalidated old 9)) (ar_version old)) (\<lambda>_.
     sql_approvals_add (Request new))"

definition sql_waiting_store :: memory_store where
  "sql_waiting_store = empty_store\<lparr>ms_runs := [(''r'', sample_run)],
     ms_approvals := [((''r'', ''a1''), Request (sql_sample_request ''a1''))]\<rparr>"

definition waiting_db :: sql_db where
  "waiting_db = empty_db\<lparr>db_runs := [(''r'', run_values sample_run 0)],
     db_approvals := [((''r'', ''a1''),
       \<lparr>pr_version = 0, pr_binding_digest = Some (replicate 64 (CHR ''a'')), pr_status = ''pending'',
        pr_decision = PNone, pr_payload = RequestJson (sql_sample_request ''a1'')\<rparr>)]\<rparr>"

definition replacing_uow :: sql_uow where
  "replacing_uow = snd (replacing_unit (sql_sample_request ''a1'') (sql_sample_request ''a2'') (sql_uow_of (begin_uow sql_waiting_store)))"

lemmas replacing_defs = replacing_uow_def replacing_unit_def sql_uow_of_def sql_approvals_save_def
  sql_approvals_add_def on_base_def save_once_def approvals_save_def approvals_add_def begin_uow_def
  ensure_writable_def bnd_def add_key_def dset_default_def sql_waiting_store_def empty_store_def invalidated_def
  sql_sample_request_def approval_key_of_def

text \<open>The error that it raises names the column of the index and not the run.\<close>

lemma pending_replacement_error:
  "fst (sql_commit sample_sql_env replacing_uow waiting_db) = Inl (UniquenessError ''pending_approval'' ''run_id'')"
proof -
  have t: "translate_integrity_error (''UNIQUE constraint failed: '' @ ''approval_requests.run_id'')
      = UniquenessError ''pending_approval'' ''run_id''"
    by code_simp
  have g: "digest_check (Some (replicate 64 (CHR ''a'')))" by (simp add: digest_check_def hex_glob_def list_all_iff)
  show ?thesis
    by (simp add: replacing_defs sql_commit_defs waiting_db_def empty_db_def sample_sql_env_def sample_run_def new_run_def
        insert_approval_def stored_request_def decision_json_def bind_text_def approval_checks_def version_check_def
        status_check_def decision_check_def state_check_def g pending_index_def unique_failed_def t [simplified])
qed

text \<open>
  The schema allows one pending approval for a run at any moment, and a commit inserts the new
  approvals before it updates the old ones: a unit of work that replaces a pending approval by a new
  one never goes through in SQLite, whatever it does to the old one, and the tables stay as they were.
\<close>

theorem pending_replacement_refused:
  assumes "dget (db_approvals db) (r, k) = Some row" and "pr_status row = ''pending''"
    and "(r, k') \<in> set (sn_new_approval_keys (sq_base u))"
    and "dget (sn_approvals (sq_base u)) (r, k') = Some (Request q)"
    and "ar_run_id q = r" and "ar_id q = k'" and "ar_status q = AprPending" and "k' \<noteq> k"
  shows "\<exists>e. fst (sql_commit env u db) = Inl e \<and> snd (snd (sql_commit env u db)) = db"
proof (cases "fst (sql_commit env u db)")
  case (Inl e)
  then show ?thesis by (auto simp: sql_commit_def split: sum.splits prod.splits)
next
  case (Inr x)
  then obtain ps where "commit_statements env u db = Inr (ps, snd (snd (sql_commit env u db)))"
    using sql_commit_Inr(3) [of env u db "fst (snd (sql_commit env u db))" "snd (snd (sql_commit env u db))"]
    by (cases "sql_commit env u db") auto
  then have "sql_publish (sq_base u) ps db = Inr (snd (snd (sql_commit env u db)))"
    unfolding commit_statements_def by (elim sbind_InrE) auto
  from pending_replacement_aux [OF this assms(1-4)] assms(5-8) show ?thesis by (simp add: approval_key_of_def)
qed

theorem pending_replacement_refused_witness:
  "fst (sql_commit sample_sql_env replacing_uow waiting_db) = Inl (UniquenessError ''pending_approval'' ''run_id'')
   \<and> snd (snd (sql_commit sample_sql_env replacing_uow waiting_db)) = waiting_db
   \<and> (\<exists>st' w. commit (sq_base replacing_uow) sql_waiting_store = Inr (st', w))"
proof -
  have r: "dget (db_approvals waiting_db) (''r'', ''a1'')
      = Some \<lparr>pr_version = 0, pr_binding_digest = Some (replicate 64 (CHR ''a'')), pr_status = ''pending'',
        pr_decision = PNone, pr_payload = RequestJson (sql_sample_request ''a1'')\<rparr>"
    by (simp add: waiting_db_def)
  have n: "(''r'', ''a2'') \<in> set (sn_new_approval_keys (sq_base replacing_uow))"
    "dget (sn_approvals (sq_base replacing_uow)) (''r'', ''a2'') = Some (Request (sql_sample_request ''a2''))"
    by (simp_all add: replacing_defs)
  have q: "ar_run_id (sql_sample_request ''a2'') = ''r''" "ar_id (sql_sample_request ''a2'') = ''a2''"
    "ar_status (sql_sample_request ''a2'') = AprPending"
    by (simp_all add: sql_sample_request_def)
  have "\<exists>st' w. commit (sq_base replacing_uow) sql_waiting_store = Inr (st', w)"
    by (simp add: replacing_defs commit_defs is_pending_def sequence_of_def)
  then show ?thesis
    using pending_replacement_refused [OF r _ n q, of sample_sql_env] pending_replacement_error by simp
qed

end
