(* ===== verification/Spec2Isabelle.thy ===== *)
theory Spec2Isabelle
  imports Guarantees Capacity Progress Redaction Idempotency Scheduler Planned_Sessions Chunking Tool_Calling Async_Gateway
    Sandbox_Upgrade Sqlite_Guarantees
begin

text \<open>
  A verification development for ChangePilot (\<open>src/src/changepilot/\<close>): change requests are turned
  into plans by a model under a budget, plans into workflows, and workflows are carried out with
  approvals, retries, compensation and crash recovery, on simulated environments (sandboxes).

  \<^bold>\<open>The program.\<close> A workflow definition is parsed and checked (\<open>workflow/domain/definitions.py\<close>),
  stored, and executed run by run: the coordinator picks the steps that are ready, asks for an
  approval where a step is risky, hands attempts to tools in other threads, collects their
  outcomes, schedules retries and undoes what was done when a step fails for good. Every change
  goes through a unit of work of the persistence port, with revisions for optimistic locking and
  an audit event for every change of state. After a crash the recovery asks the tools what
  happened to the attempts left open. The services create, cancel, approve and query runs.
  Planning cuts runbooks into chunks, searches them, lets a model propose a plan in a small graph
  of nodes, validates the plan against tools and policies, and prepares it as a payload that
  \<open>create_run\<close> accepts. The sandbox is an order service on a small database, with tools that migrate,
  deploy, check and take back, and a fault injector around them.

  \<^bold>\<open>Theories and sources\<close> under \<open>workflow/\<close>:
  \<^item> Prelude, Values: the state and error monad of every model (\<open>('s, 'e, 'a) act\<close>), invariants of
    actions (\<open>pres\<close> and its rule collection \<open>pres_intros\<close>), dictionaries as association lists in
    insertion order, Python values, JSON text and the exceptions (\<open>error\<close>, one constructor per
    class that the code raises or catches);
  \<^item> Digest: SHA-256 of the standard library, on 32-bit words;
  \<^item> Tool_Ports, Tooling, Redaction, Idempotency: \<open>ports/tools.py\<close> and \<open>application/tooling.py\<close>;
  \<^item> Validation, Definitions: \<open>domain/validation.py\<close>, \<open>domain/definitions.py\<close>;
  \<^item> Runs: \<open>domain/states.py\<close>, \<open>runs.py\<close>, \<open>events.py\<close>;
  \<^item> Approvals, Approval_Service: \<open>application/approvals.py\<close>;
  \<^item> Persistence, Runtime: \<open>ports/persistence.py\<close>, \<open>adapters/persistence/memory.py\<close>, and a unit
    of work as a scope on the store;
  \<^item> Sqlite_Definitions, Sqlite_Rows, Sqlite_Commit: \<open>adapters/persistence/sqlite.py\<close> and
    \<open>schema.py\<close>: the tables and their constraints, the columns of the records, loading and commit;
    Sqlite_Roundtrip, Sqlite_Refinement, Sqlite_Guarantees: what it has to do with the memory store;
  \<^item> Scheduler: \<open>application/scheduler.py\<close>;
  \<^item> Execution, Coordinator: \<open>application/coordinator.py\<close>;
  \<^item> Recovery: \<open>application/recovery.py\<close>; Services: \<open>application/services.py\<close>.

  Under \<open>planning/\<close>:
  \<^item> Plans: \<open>domain/\<close>; Plan_Validation, Mapping_Plans: \<open>application/validation.py\<close> and \<open>mapping.py\<close>;
  \<^item> Doubles, Retrieval: \<open>application/retrieval.py\<close>, its scores as exact IEEE doubles;
  \<^item> Texts, Ingestion, Chunking: \<open>application/ingestion.py\<close>;
  \<^item> Json_Text, Model_Gateway, Async_Gateway, Tool_Calling: \<open>ports/models.py\<close>,
    \<open>application/model_gateway.py\<close> and \<open>tool_calling.py\<close>;
  \<^item> Planning_Nodes, Planning_Graph: \<open>application/state.py\<close>, \<open>nodes.py\<close> and \<open>graph.py\<close>;
  \<^item> Planning_Service: \<open>application/services.py\<close> on the repository of \<open>adapters/persistence.py\<close>;
    Planned_Runs and Planned_Sessions: from a plan, and from a session, to a run.

  Under \<open>sandbox/\<close>:
  \<^item> Sandbox_Models: \<open>domain/\<close>; Sandbox_Database: \<open>adapters/sqlite.py\<close>;
  \<^item> Sandbox_Manager: \<open>application/manager.py\<close> and \<open>orders.py\<close>;
  \<^item> Sandbox_Tools: \<open>application/faults.py\<close> and \<open>adapters/tools.py\<close>.

  \<^bold>\<open>The state of the runtime.\<close> \<open>memory_store\<close> is the shared store, \<open>uow\<close> the snapshot of a
  transaction with its staged keys and expected revisions, \<open>sys\<close> the store with a counter of the
  clock and identifier calls, \<open>coordinator\<close> adds the futures that the coordinator owns, and \<open>driver\<close>
  whether recovery has run. The clock, the identifiers, the tools, what each submitted future
  returns and when it is done are parameters (\<open>environment\<close>, \<open>world\<close>, \<open>recovery_world\<close>), functions of
  the number of the call, so that every interleaving of threads with the single-threaded
  coordinator is some world. Time stamps are integers in microseconds.

  \<^bold>\<open>The state of planning and sandboxes.\<close> The model, the search index, the JSON and YAML parsers and
  Pydantic's validation of a plan are parameters; the gateway keeps its totals, cache and records,
  and its asynchronous form is a step relation over coroutines. A sandbox is a directory with a
  database, a state file and configured faults; \<open>sandboxes\<close> is the dictionary of them, and a call of a
  tool is one step on it. A connection keeps the committed database and that of the open
  transaction, and follows the rules of \<open>sqlite3\<close> on when a transaction opens.

  \<^bold>\<open>The lemmas on the runtime.\<close> Views abstracts a store to maps and a log (\<open>view\<close>), and shows what
  commits, reads and writes do to the view. History states the laws that tie runs, steps,
  definitions and the log together (\<open>history\<close>, \<open>grows\<close>), and, in locales interpreted on these laws,
  that every service keeps them; Creation does so for \<open>create_run\<close>. System composes the services to
  one transition system, \<open>driver_step\<close>, with its \<open>reachable\<close> states. Transactions shows that what
  raises changes nothing and gives rules for total correctness (\<open>yields\<close>); Decisions runs
  \<open>cancel_run\<close> and \<open>decide\<close> by them. Samples holds concrete states for the witnesses. Guarantees,
  Dispatch, Capacity and Progress hold what the services promise: atomicity, outcomes, the
  approval barrier, the bound on concurrency, and what the scheduler computes from what is stored.

  \<^bold>\<open>The lemmas on SQLite.\<close> \<open>sql_db\<close> holds the rows of the six tables and of the event sequences, and
  \<open>sql_load\<close> reads the store that they stand for. Sqlite_Roundtrip shows what a definition is after it
  has been written to its JSON column and read back. Sqlite_Refinement and Sqlite_Guarantees show
  that a commit that goes through does what the commit of the memory store does, up to the values
  that JSON changes (\<open>reload_uow\<close>), and which unit of work the memory store accepts and SQLite refuses.

  \<^bold>\<open>The lemmas on the sandbox.\<close> Sandbox_Phases abstracts a database to one of four phases and says
  what every operation does in each. Sandbox_Safety shows that every operation of the manager, the
  service, the fault injector and the tools keeps every sandbox well formed, so that this holds in
  every reachable world (\<open>sandbox_reachable\<close>). Sandbox_Recovery states the contract of a tool whose
  effects can be found again as a locale, interpreted on the three tools that change something.
  Sandbox_Guarantees and Sandbox_Upgrade hold what follows for a user of the sandbox.

  \<^bold>\<open>Bounds and termination.\<close> The loops are structural recursions on the lists they iterate over, or
  functions with a termination proof (the worklist of \<open>find_cycle\<close>, the compensation loop), and the
  planning graph runs at most as many nodes as it has. The chunking loop is a partial function, whose
  value \<open>None\<close> would be a loop that does not end. One recursion takes fuel, that of the scheduler's
  depths (\<open>depth_visit\<close>), which Python bounds by its stack: the number of steps, which is enough on
  every accepted definition because its dependencies have no cycle (the property of \<open>ready_steps\<close> has no case
  in which the fuel runs out).

  \<^bold>\<open>Not modelled.\<close> The SQLite adapter of planning; the engine, the pragmas and the migrations of
  the SQLite adapter of the workflow (its tables, unique indexes, checks and statements in a
  transaction are modelled); the fake tools, the adapters to model services and
  embeddings, the operations API with its HTTP server, the evaluation, and the demonstration of
  the sandbox. Text is 8-bit: characters above 255 are outside the model, as Isabelle's
  characters are. Objects have text keys where \<open>json.dumps\<close> would also take numbers (\<open>json_key\<close>), and
  sets and objects of unknown classes are leaves that the redaction does not look into (\<open>PObject\<close>).
  Where a run is created, two different definitions are assumed not to collide under SHA-256
  (\<open>no_collision\<close>). Directories hold no symbolic links, and no other process changes a sandbox.
\<close>

section \<open>The composed system\<close>

text \<open>
  C8: in every state that the services can reach together, whatever the clocks, identifiers,
  tools, futures and callers do, the store is well formed: records under their own keys, event
  numbers without gaps, at most one pending approval per run.
\<close>

theorem reachable_store_ok:
  assumes "reachable d"
  shows "store_ok (the_store d)"
  using reachable_ok(1) [OF assms] .

theorem reachable_store_ok_witness: "store_ok (the_store sample_driver) \<and> the_store sample_driver \<noteq> empty_store"
proof -
  obtain x where "dget (ms_runs (the_store sample_driver)) ''r'' = Some x" by (rule sample_driver_contents)
  then show ?thesis using reachable_store_ok [OF sample_driver_reachable] by (auto simp: empty_store_def)
qed

text \<open>
  C1: the audit log of a run is its history. In every reachable state the \<open>run.state_changed\<close>
  events of a run, in the order of the log, lead along the transition table from \<open>pending\<close> at
  revision 0 to exactly the state and revision that the run has.
\<close>

theorem run_log_is_history:
  assumes "reachable d" and "dget (ms_runs (the_store d)) r = Some run"
  shows "run_trace (RunPending, 0) (run_events (map snd (dget_list (ms_events (the_store d)) r)))
           (wr_state run, wr_revision run)"
  using reachable_run(1) [OF assms] by (simp add: driver_view_def store_view_def)

theorem run_log_is_history_witness:
  "\<exists>es. run_trace (RunPending, 0) es (RunCancelled, 1)
      \<and> es = run_events (map snd (dget_list (ms_events (the_store cancelled_driver)) ''r''))"
proof -
  obtain run where "dget (ms_runs (the_store cancelled_driver)) ''r'' = Some run"
    and "wr_state run = RunCancelled" and "wr_revision run = 1" by (rule cancelled_driver_run)
  with run_log_is_history [OF cancelled_driver_reachable] show ?thesis by metis
qed

text \<open>
  C9: the same for the steps: the \<open>step.state_changed\<close> events of a step lead from \<open>pending\<close> at
  revision 0 to the state and revision of its step run.
\<close>

theorem step_log_is_history:
  assumes "reachable d" and "dget (ms_steps (the_store d)) (r, i) = Some sr"
  shows "step_trace (StepPending, 0) (step_events i (map snd (dget_list (ms_events (the_store d)) r)))
           (sr_state sr, sr_revision sr)"
  using reachable_step_run [OF assms] by (simp add: driver_view_def store_view_def)

theorem step_log_is_history_witness:
  "step_trace (StepPending, 0) (step_events ''a'' (map snd (dget_list (ms_events (the_store sample_driver)) ''r'')))
     (StepPending, 0)"
proof -
  obtain d where "\<And>i. i \<in> {''a'', ''b''} \<Longrightarrow>
      dget (ms_steps (the_store sample_driver)) (''r'', i) = Some (new_step ''r'' i)"
    by (rule sample_driver_contents) blast
  then have "dget (ms_steps (the_store sample_driver)) (''r'', ''a'') = Some (new_step ''r'' ''a'')" by blast
  from step_log_is_history [OF sample_driver_reachable this] show ?thesis by (simp add: new_step_def)
qed

text \<open>
  C7: no run dangles. In every reachable state the definition of a run is stored, under the
  digest the run was created with, it is one that \<open>from_mapping\<close> accepts, and every step of it
  has a step run.
\<close>

theorem run_references_closed:
  assumes "reachable d" and "dget (ms_runs (the_store d)) r = Some run"
  shows "\<exists>w reg. dget (ms_definitions (the_store d)) (wr_definition_id run, wr_definition_version run) = Some w
     \<and> wd_digest w = wr_definition_digest run \<and> definition_ok reg w
     \<and> list_all (\<lambda>s. dget (ms_steps (the_store d)) (r, sd_id s) \<noteq> None) (wd_steps w)"
proof -
  from reachable_run(2,3) [OF assms] obtain w where
    w: "vw_definitions (driver_view d) (wr_definition_id run, wr_definition_version run) = Some w"
    and rest: "wd_digest w = wr_definition_digest run"
      "\<forall>s \<in> set (wd_steps w). vw_steps (driver_view d) (r, sd_id s) \<noteq> None"
    unfolding references_ok_def by blast
  obtain reg where "definition_ok reg w" using historyD(1) [OF reachable_ok(2) [OF assms(1)] w] by blast
  then show ?thesis using w rest by (auto simp: driver_view_def store_view_def list_all_iff)
qed

theorem run_references_closed_witness:
  "\<exists>w. dget (ms_definitions (the_store sample_driver)) (''d'', 1) = Some w
     \<and> dget (ms_steps (the_store sample_driver)) (''r'', ''b'') \<noteq> None"
proof -
  obtain d where "dget (ms_runs (the_store sample_driver)) ''r'' = Some (new_run ''r'' ''d'' 1 d)"
    and def: "dget (ms_definitions (the_store sample_driver)) (''d'', 1) = Some (sample_workflow d)"
    by (rule sample_driver_contents)
  from run_references_closed [OF sample_driver_reachable this(1)] def
  show ?thesis by (auto simp: new_run_def sample_workflow_def sample_step_def)
qed

text \<open>
  C2: a run that has ended stays as it ended: no service, in any number of steps, changes its
  state or its revision.
\<close>

theorem ended_run_is_final:
  assumes "reachable d" and "driver_step\<^sup>*\<^sup>* d d'" and "dget (ms_runs (the_store d)) r = Some run"
    and "run_terminal (wr_state run)"
  shows "\<exists>run'. dget (ms_runs (the_store d')) r = Some run'
     \<and> wr_state run' = wr_state run \<and> wr_revision run' = wr_revision run"
proof -
  obtain run' es where "dget (ms_runs (the_store d')) r = Some run'"
    and "run_trace (wr_state run, wr_revision run) es (wr_state run', wr_revision run')"
    using later_run [OF assms(1,2,3)] by blast
  then show ?thesis using run_trace_ended assms(4) by fastforce
qed

theorem ended_run_is_final_witness:
  "\<exists>run. dget (ms_runs (the_store (snd (on_coordinator (cancel_run sample_env ''r'') cancelled_driver)))) ''r''
      = Some run \<and> wr_state run = RunCancelled \<and> wr_revision run = 1"
proof -
  obtain run where r: "dget (ms_runs (the_store cancelled_driver)) ''r'' = Some run"
    and s: "wr_state run = RunCancelled" and n: "wr_revision run = 1" by (rule cancelled_driver_run)
  have "driver_step\<^sup>*\<^sup>* cancelled_driver (snd (on_coordinator (cancel_run sample_env ''r'') cancelled_driver))"
    by (rule r_into_rtranclp, rule step_cancel)
  from ended_run_is_final [OF cancelled_driver_reachable this r] s n show ?thesis
    by (auto simp: run_terminal_def)
qed

end
